(* ===== verification/Odp_Prelude.thy ===== *)
theory Odp_Prelude
  imports Main "HOL-Library.Word"
begin

text \<open>
  Shared vocabulary of the development: the machine types of the C sources, a flat byte
  memory with \<open>memcpy\<close> and big-endian loads, singly linked lists through a \<open>next\<close> field,
  the error values that stand for undefined behaviour of the C code, and the word and list
  lemmas the component theories share.
\<close>

unbundle bit_operations_syntax

section \<open>Types\<close>

type_synonym u8 = "8 word"
type_synonym u16 = "16 word"
type_synonym u32 = "32 word"
type_synonym u64 = "64 word"

text \<open>
  An address is an unbounded integer. Pointer arithmetic of the sources never leaves the
  mapped regions in the situations the theorems are about, so the wrap-around of a 64-bit
  pointer is not modelled. \<open>NULL\<close> is address 0.
\<close>

type_synonym addr = int
type_synonym memory = "addr \<Rightarrow> u8"

abbreviation NULL :: addr where "NULL \<equiv> 0"

text \<open>
  Undefined behaviour and aborts are values: an array access out of range, the dereference
  of a null pointer, a division by zero, and \<open>ODP_ABORT\<close>. \<open>and_then\<close> stops at the first error.
\<close>

datatype c_error = Out_Of_Bounds | Null_Deref | Div_By_Zero | Aborted

definition and_then :: "c_error + 'a \<Rightarrow> ('a \<Rightarrow> c_error + 'b) \<Rightarrow> c_error + 'b" where
  "and_then r f = (case r of Inl e \<Rightarrow> Inl e | Inr x \<Rightarrow> f x)"

lemma and_then_simps [simp]: "and_then (Inl e) f = Inl e" "and_then (Inr x) f = f x"
  by (simp_all add: and_then_def)

lemma and_then_Inr: "and_then r f = Inr y \<longleftrightarrow> (\<exists>x. r = Inr x \<and> f x = Inr y)"
  by (cases r) auto

named_theorems word_nat \<open>word comparisons and operations read through \<open>unat\<close>\<close>
named_theorems frame_simps \<open>which fields an operation leaves alone\<close>
named_theorems linked_simps \<open>linked lists under updates of the next field\<close>

section \<open>Words\<close>

lemma unat_add_small: "unat (a::'a::len word) + unat b < 2 ^ LENGTH('a) \<Longrightarrow> unat (a + b) = unat a + unat b"
  by (simp add: unat_add_lem)

lemma unat_mult_small: "unat (a::'a::len word) * unat b < 2 ^ LENGTH('a) \<Longrightarrow> unat (a * b) = unat a * unat b"
  by (simp add: unat_mult_lem)

lemma unat_sub_small: "unat (b::'a::len word) \<le> unat a \<Longrightarrow> unat (a - b) = unat a - unat b"
  by (simp add: unat_sub word_le_nat_alt)

lemma unat_of_nat_small: "n < 2 ^ LENGTH('a) \<Longrightarrow> unat (of_nat n :: 'a::len word) = n"
  by (simp add: unat_of_nat)

lemma unat_u32_bound [simp]: "unat (x :: u32) < 4294967296"
  using unsigned_less [of x, where 'a = nat] by simp

lemma unat_u16_bound [simp]: "unat (x :: u16) < 65536"
  using unsigned_less [of x, where 'a = nat] by simp

lemma unat_u8_bound [simp]: "unat (x :: u8) < 256"
  using unsigned_less [of x, where 'a = nat] by simp

lemma unat_add_u32: "unat (a :: u32) + unat b < 4294967296 \<Longrightarrow> unat (a + b) = unat a + unat b"
  by (rule unat_add_small) simp

lemma unat_mult_u32: "unat (a :: u32) * unat b < 4294967296 \<Longrightarrow> unat (a * b) = unat a * unat b"
  by (rule unat_mult_small) simp

lemma word_eq_nat: "(x :: 'a::len word) = y \<longleftrightarrow> unat x = unat y"
  by (auto dest: word_unat_eq_iff [THEN iffD2])

lemmas word_nat_rules [word_nat] =
  word_le_nat_alt word_less_nat_alt unat_div_distrib unat_mod_distrib

lemma unat_ucast_u8_u32 [simp]: "unat (ucast (x :: u8) :: u32) = unat x"
  by (simp add: unsigned_ucast_eq take_bit_nat_eq_self order_less_trans [OF unat_u8_bound])

lemma unat_ucast_u16_u32 [simp]: "unat (ucast (x :: u16) :: u32) = unat x"
  by (simp add: unsigned_ucast_eq take_bit_nat_eq_self order_less_trans [OF unat_u16_bound])

lemma unat_take_bit [simp]: "unat (take_bit n (x :: 'a::len word)) = take_bit n (unat x)"
  by (simp add: unsigned_take_bit_eq)

lemma unat_or_disjoint:
  assumes "(x :: 'a::len word) AND y = 0"
  shows "unat (x OR y) = unat x + unat y"
proof -
  have "unat x AND unat y = 0"
    using assms by (metis unsigned_and_eq unsigned_0)
  then have "unat x + unat y = unat x OR unat y" by (rule disjunctive_add_eq_or)
  then show ?thesis by (simp add: unsigned_or_eq)
qed

section \<open>Byte memory\<close>

definition load_bytes :: "memory \<Rightarrow> addr \<Rightarrow> nat \<Rightarrow> u8 list" where
  "load_bytes m p n = map (\<lambda>i. m (p + int i)) [0..<n]"

definition store_bytes :: "memory \<Rightarrow> addr \<Rightarrow> u8 list \<Rightarrow> memory" where
  "store_bytes m p bs = (\<lambda>a. if p \<le> a \<and> a < p + int (length bs) then bs ! nat (a - p) else m a)"

definition memcpy :: "memory \<Rightarrow> addr \<Rightarrow> addr \<Rightarrow> nat \<Rightarrow> memory" where
  "memcpy m dst src n = store_bytes m dst (load_bytes m src n)"

lemma length_load_bytes [simp]: "length (load_bytes m p n) = n"
  by (simp add: load_bytes_def)

lemma nth_load_bytes [simp]: "i < n \<Longrightarrow> load_bytes m p n ! i = m (p + int i)"
  by (simp add: load_bytes_def)

lemma load_bytes_0 [simp]: "load_bytes m p 0 = []"
  by (simp add: load_bytes_def)

lemma load_bytes_add: "load_bytes m p (k + n) = load_bytes m p k @ load_bytes m (p + int k) n"
  by (rule nth_equalityI) (auto simp: nth_append algebra_simps)

lemma store_bytes_in [simp]: "i < length bs \<Longrightarrow> store_bytes m p bs (p + int i) = bs ! i"
  by (simp add: store_bytes_def)

lemma store_bytes_out: "a < p \<or> p + int (length bs) \<le> a \<Longrightarrow> store_bytes m p bs a = m a"
  by (auto simp: store_bytes_def)

lemma store_bytes_Nil [simp]: "store_bytes m p [] = m"
  by (rule ext) (auto simp: store_bytes_def)

lemma load_store_same [simp]: "load_bytes (store_bytes m p bs) p (length bs) = bs"
  by (rule nth_equalityI) auto

text \<open>Loads in network byte order, as \<open>odp_be_to_cpu_16\<close> and \<open>odp_be_to_cpu_32\<close> of the loaded field give them.\<close>

definition be16 :: "memory \<Rightarrow> addr \<Rightarrow> u16" where
  "be16 m p = push_bit 8 (ucast (m p)) OR ucast (m (p + 1))"

definition be32 :: "memory \<Rightarrow> addr \<Rightarrow> u32" where
  "be32 m p = push_bit 16 (ucast (be16 m p)) OR ucast (be16 m (p + 2))"

section \<open>Linked lists\<close>

text \<open>
  \<open>linked nxt p xs\<close>: following the next pointers \<open>nxt\<close> from \<open>p\<close> visits exactly the non-null
  nodes \<open>xs\<close> and then \<open>NULL\<close>.
\<close>

fun linked :: "(addr \<Rightarrow> addr) \<Rightarrow> addr \<Rightarrow> addr list \<Rightarrow> bool" where
  "linked nxt p [] = (p = NULL)"
| "linked nxt p (x # xs) = (p = x \<and> x \<noteq> NULL \<and> linked nxt (nxt x) xs)"

lemma linked_NULL [simp]: "linked nxt NULL xs \<longleftrightarrow> xs = []"
  by (cases xs) auto

lemma linked_nonNULL: "p \<noteq> NULL \<Longrightarrow> linked nxt p xs \<longleftrightarrow> (\<exists>ys. xs = p # ys \<and> linked nxt (nxt p) ys)"
  by (cases xs) auto

lemma linked_cong_on: "(\<And>x. x \<in> set xs \<Longrightarrow> nxt x = nxt' x) \<Longrightarrow> linked nxt p xs = linked nxt' p xs"
  by (induction xs arbitrary: p) auto

lemma linked_fun_upd [linked_simps]: "x \<notin> set xs \<Longrightarrow> linked (nxt(x := y)) p xs = linked nxt p xs"
  by (rule linked_cong_on) auto

lemma linked_unique: "linked nxt p xs \<Longrightarrow> linked nxt p ys \<Longrightarrow> xs = ys"
proof (induction xs arbitrary: p ys)
  case (Cons x xs)
  then show ?case by (cases ys) auto
qed simp

lemma linked_suffix: "linked nxt p (xs @ x # ys) \<Longrightarrow> linked nxt x (x # ys)"
  by (induction xs arbitrary: p) auto

lemma linked_distinct: "linked nxt p xs \<Longrightarrow> distinct xs"
proof (induction xs arbitrary: p)
  case (Cons x xs)
  have "x \<notin> set xs"
  proof
    assume "x \<in> set xs"
    then obtain as bs where xs: "xs = as @ x # bs" by (meson split_list)
    from Cons.prems have "linked nxt x (x # xs)" by auto
    moreover from Cons.prems xs have "linked nxt x (x # bs)"
      using linked_suffix [of nxt p "x # as" x bs] by simp
    ultimately have "x # xs = x # bs" by (rule linked_unique)
    with xs have "length (as @ x # bs) = length bs" by simp
    then show False by simp
  qed
  with Cons show ?case by auto
qed simp

lemma linked_nonnull: "linked nxt p xs \<Longrightarrow> NULL \<notin> set xs"
  by (induction xs arbitrary: p) auto

lemma linked_append:
  "linked nxt p (xs @ ys) \<Longrightarrow> ys \<noteq> [] \<Longrightarrow> linked nxt (hd ys) ys"
  by (induction xs arbitrary: p) (auto simp: neq_Nil_conv)

section \<open>Arithmetic\<close>

lemma div_mod_add_small:
  assumes "i mod n + k < (n::nat)"
  shows "(i + k) div n = i div n" and "(i + k) mod n = i mod n + k"
proof -
  have *: "i + k = (i mod n + k) + n * (i div n)"
    using mult_div_mod_eq [of n i] by linarith
  define r q where "r = i mod n + k" and "q = i div n"
  then have "i + k = r + n * q" and "r < n" using * assms by auto
  then have "(i + k) div n = q" and "(i + k) mod n = r" by auto
  then show "(i + k) div n = i div n" and "(i + k) mod n = i mod n + k"
    unfolding r_def q_def .
qed

section \<open>Lists\<close>

text \<open>Replacing the elements of a window; the specification of the copies.\<close>

definition overwrite :: "nat \<Rightarrow> 'a list \<Rightarrow> 'a list \<Rightarrow> 'a list" where
  "overwrite off new xs = take off xs @ new @ drop (off + length new) xs"

lemma length_overwrite [simp]: "off + length new \<le> length xs \<Longrightarrow> length (overwrite off new xs) = length xs"
  by (simp add: overwrite_def)

lemma nth_overwrite:
  "off + length new \<le> length xs \<Longrightarrow> i < length xs \<Longrightarrow>
    overwrite off new xs ! i = (if off \<le> i \<and> i < off + length new then new ! (i - off) else xs ! i)"
  by (auto simp: overwrite_def nth_append min_def)

lemma nth_take_drop_split: "i < length xs \<Longrightarrow> take i xs @ xs ! i # drop (Suc i) xs = xs"
  by (rule id_take_nth_drop [symmetric])

lemma take_Suc_update: "i < length xs \<Longrightarrow> take (Suc i) (xs[i := v]) = take i xs @ [v]"
  by (simp add: take_Suc_conv_app_nth)

text \<open>Counters that wrap around at 32 bits tell numbers apart that are near each other.\<close>

lemma of_nat_eq_near:
  assumes "(of_nat a :: u32) = of_nat b" "a < b + 2 ^ 32" "b < a + 2 ^ 32"
  shows "a = b"
proof -
  have m: "a mod 2 ^ 32 = b mod 2 ^ 32"
    using arg_cong [OF assms(1), of "unat"] by (simp add: unsigned_of_nat take_bit_eq_mod)
  have *: "x = y" if "x \<le> y" "x mod 2 ^ 32 = y mod 2 ^ 32" "y < x + 2 ^ 32" for x y :: nat
  proof -
    have "2 ^ 32 dvd y - x" using that(1,2) mod_eq_dvd_iff_nat [of x y "2 ^ 32"] by simp
    then have "y - x = 0" using that(1,3) by (auto dest: dvd_imp_le)
    then show ?thesis using that(1) by simp
  qed
  show ?thesis using * [of a b] * [of b a] m assms(2,3) by (cases "a \<le> b") simp_all
qed

section \<open>Runs\<close>

text \<open>Interleavings: any thread makes the next step.\<close>

inductive runs :: "('s \<Rightarrow> nat \<Rightarrow> 's \<Rightarrow> bool) \<Rightarrow> 's \<Rightarrow> 's \<Rightarrow> bool" for step where
  runs_refl: "runs step s s"
| runs_step: "runs step s s1 \<Longrightarrow> step s1 t s2 \<Longrightarrow> runs step s s2"

lemma runs_invariant:
  assumes "runs step s s'" "P s" "\<And>a t b. P a \<Longrightarrow> step a t b \<Longrightarrow> P b"
  shows "P s'"
  using assms by induction blast+

end
