(* ===== verification/Odp_Config.thy ===== *)
theory Odp_Config
  imports Odp_Prelude
begin

text \<open>
  Build-time configuration (\<open>include/odp/api/config.h\<close>), the alignment macros of
  \<open>odp_align_internal.h\<close> and the packed buffer handle of \<open>odp_buffer_internal.h\<close>. The macros
  are modelled on words of any width, because the sources use them on \<open>uint32_t\<close>,
  \<open>size_t\<close> and \<open>uintptr_t\<close> operands.
\<close>

section \<open>Configuration constants\<close>

definition ODP_CONFIG_POOLS :: nat where "ODP_CONFIG_POOLS = 16"
definition ODP_CONFIG_QUEUES :: nat where "ODP_CONFIG_QUEUES = 1024"
definition ODP_CONFIG_MAX_THREADS :: nat where "ODP_CONFIG_MAX_THREADS = 128"
definition ODP_CONFIG_SHM_BLOCKS :: nat where "ODP_CONFIG_SHM_BLOCKS = ODP_CONFIG_POOLS + 48"
definition ODP_SHM_INVALID :: u32 where "ODP_SHM_INVALID = 0"
definition ODP_CONFIG_BUFFER_ALIGN_MIN :: u32 where "ODP_CONFIG_BUFFER_ALIGN_MIN = 16"
definition ODP_CONFIG_BUFFER_ALIGN_MAX :: u32 where "ODP_CONFIG_BUFFER_ALIGN_MAX = 4 * 1024"
definition ODP_CONFIG_PACKET_HEADROOM :: u32 where "ODP_CONFIG_PACKET_HEADROOM = 66"
definition ODP_CONFIG_PACKET_TAILROOM :: u32 where "ODP_CONFIG_PACKET_TAILROOM = 0"
definition ODP_CONFIG_PACKET_SEG_LEN_MIN :: u32 where "ODP_CONFIG_PACKET_SEG_LEN_MIN = 1598"
definition ODP_CONFIG_PACKET_SEG_LEN_MAX :: u32 where "ODP_CONFIG_PACKET_SEG_LEN_MAX = 64 * 1024"
definition ODP_CONFIG_PACKET_BUF_LEN_MAX :: u32 where
  "ODP_CONFIG_PACKET_BUF_LEN_MAX = ODP_CONFIG_PACKET_SEG_LEN_MIN * 6"
definition ODP_CACHE_LINE_SIZE :: "'a::len word" where "ODP_CACHE_LINE_SIZE = 64"
definition ODP_PAGE_SIZE :: "'a::len word" where "ODP_PAGE_SIZE = 4096"

lemmas config_defs [simp] =
  ODP_CONFIG_POOLS_def ODP_CONFIG_QUEUES_def
  ODP_CONFIG_BUFFER_ALIGN_MIN_def ODP_CONFIG_BUFFER_ALIGN_MAX_def
  ODP_CONFIG_PACKET_HEADROOM_def ODP_CONFIG_PACKET_TAILROOM_def
  ODP_CONFIG_PACKET_SEG_LEN_MIN_def ODP_CONFIG_PACKET_SEG_LEN_MAX_def
  ODP_CONFIG_PACKET_BUF_LEN_MAX_def ODP_CACHE_LINE_SIZE_def ODP_PAGE_SIZE_def

section \<open>Alignment macros\<close>

definition ODP_ALIGN_ROUNDUP :: "'a::len word \<Rightarrow> 'a word \<Rightarrow> 'a word" where
  "ODP_ALIGN_ROUNDUP x align = align * ((x + align - 1) div align)"

definition ODP_CACHE_LINE_SIZE_ROUNDUP :: "'a::len word \<Rightarrow> 'a word" where
  "ODP_CACHE_LINE_SIZE_ROUNDUP x = ODP_ALIGN_ROUNDUP x ODP_CACHE_LINE_SIZE"

definition ODP_PAGE_SIZE_ROUNDUP :: "'a::len word \<Rightarrow> 'a word" where
  "ODP_PAGE_SIZE_ROUNDUP x = ODP_ALIGN_ROUNDUP x ODP_PAGE_SIZE"

definition ODP_ALIGN_ROUNDDOWN_POWER_2 :: "'a::len word \<Rightarrow> 'a word \<Rightarrow> 'a word" where
  "ODP_ALIGN_ROUNDDOWN_POWER_2 x align = x AND NOT (align - 1)"

definition ODP_CACHE_LINE_SIZE_ROUNDDOWN :: "'a::len word \<Rightarrow> 'a word" where
  "ODP_CACHE_LINE_SIZE_ROUNDDOWN x = ODP_ALIGN_ROUNDDOWN_POWER_2 x ODP_CACHE_LINE_SIZE"

definition ODP_ALIGNED_CHECK_POWER_2 :: "u64 \<Rightarrow> u64 \<Rightarrow> bool" where
  "ODP_ALIGNED_CHECK_POWER_2 x align \<longleftrightarrow> x AND (align - 1) = 0"

definition ODP_VAL_IS_POWER_2 :: "'a::len word \<Rightarrow> bool" where
  "ODP_VAL_IS_POWER_2 x \<longleftrightarrow> (x - 1) AND x = 0"

section \<open>Bit sizes and the packed buffer handle\<close>

text \<open>
  The chain of comparisons of \<open>ODP_BITSIZE\<close>, the constant \<open>8196\<close> included; \<open>None\<close> stands for
  the division by zero that stops the compiler.
\<close>

definition ODP_BITSIZE :: "nat \<Rightarrow> nat option" where
  "ODP_BITSIZE x =
    (if x \<le> 2 then Some 1 else if x \<le> 4 then Some 2 else if x \<le> 8 then Some 3
     else if x \<le> 16 then Some 4 else if x \<le> 32 then Some 5 else if x \<le> 64 then Some 6
     else if x \<le> 128 then Some 7 else if x \<le> 256 then Some 8 else if x \<le> 512 then Some 9
     else if x \<le> 1024 then Some 10 else if x \<le> 2048 then Some 11 else if x \<le> 4096 then Some 12
     else if x \<le> 8196 then Some 13 else if x \<le> 16384 then Some 14 else if x \<le> 32768 then Some 15
     else if x \<le> 65536 then Some 16 else None)"

definition ODP_BUFFER_MAX_SEG :: nat where
  "ODP_BUFFER_MAX_SEG = unat (ODP_CONFIG_PACKET_BUF_LEN_MAX div ODP_CONFIG_PACKET_SEG_LEN_MIN)"

text \<open>\<open>sizeof(void *)\<close> is 8.\<close>

definition ODP_MAX_INLINE_BUF :: nat where
  "ODP_MAX_INLINE_BUF = 8 * (ODP_BUFFER_MAX_SEG - 1)"

definition ODP_BUFFER_POOL_BITS :: nat where
  "ODP_BUFFER_POOL_BITS = (case ODP_BITSIZE ODP_CONFIG_POOLS of Some b \<Rightarrow> b | None \<Rightarrow> 0)"

definition ODP_BUFFER_SEG_BITS :: nat where
  "ODP_BUFFER_SEG_BITS = (case ODP_BITSIZE ODP_BUFFER_MAX_SEG of Some b \<Rightarrow> b | None \<Rightarrow> 0)"

definition ODP_BUFFER_INDEX_BITS :: nat where
  "ODP_BUFFER_INDEX_BITS = 32 - ODP_BUFFER_POOL_BITS - ODP_BUFFER_SEG_BITS"

definition ODP_BUFFER_PREFIX_BITS :: nat where
  "ODP_BUFFER_PREFIX_BITS = ODP_BUFFER_POOL_BITS + ODP_BUFFER_INDEX_BITS"

definition ODP_BUFFER_MAX_BUFFERS :: nat where
  "ODP_BUFFER_MAX_BUFFERS = 2 ^ ODP_BUFFER_INDEX_BITS"

lemma ODP_BUFFER_MAX_SEG_eq [simp]: "ODP_BUFFER_MAX_SEG = 6"
  by (simp add: ODP_BUFFER_MAX_SEG_def)

lemma ODP_MAX_INLINE_BUF_eq [simp]: "ODP_MAX_INLINE_BUF = 40"
  by (simp add: ODP_MAX_INLINE_BUF_def)

lemma ODP_BUFFER_POOL_BITS_eq [simp]: "ODP_BUFFER_POOL_BITS = 4"
  by (simp add: ODP_BUFFER_POOL_BITS_def ODP_BITSIZE_def)

lemma ODP_BUFFER_SEG_BITS_eq [simp]: "ODP_BUFFER_SEG_BITS = 3"
  by (simp add: ODP_BUFFER_SEG_BITS_def ODP_BITSIZE_def)

lemma ODP_BUFFER_INDEX_BITS_eq [simp]: "ODP_BUFFER_INDEX_BITS = 25"
  by (simp add: ODP_BUFFER_INDEX_BITS_def)

lemma ODP_BUFFER_PREFIX_BITS_eq [simp]: "ODP_BUFFER_PREFIX_BITS = 29"
  by (simp add: ODP_BUFFER_PREFIX_BITS_def)

lemma ODP_BUFFER_MAX_BUFFERS_eq [simp]: "ODP_BUFFER_MAX_BUFFERS = 33554432"
  by (simp add: ODP_BUFFER_MAX_BUFFERS_def)

text \<open>
  \<open>odp_buffer_bits_t\<close>: the bit fields of the 32-bit handle value. Under both byte orders the
  structure puts the pool id in the most significant bits, the segment in the least
  significant ones.
\<close>

type_synonym odp_buffer_bits = u32

definition bits_seg :: "odp_buffer_bits \<Rightarrow> u32" where
  "bits_seg h = take_bit ODP_BUFFER_SEG_BITS h"

definition bits_index :: "odp_buffer_bits \<Rightarrow> u32" where
  "bits_index h = take_bit ODP_BUFFER_INDEX_BITS (drop_bit ODP_BUFFER_SEG_BITS h)"

definition bits_pool_id :: "odp_buffer_bits \<Rightarrow> u32" where
  "bits_pool_id h = drop_bit (ODP_BUFFER_SEG_BITS + ODP_BUFFER_INDEX_BITS) h"

definition bits_prefix :: "odp_buffer_bits \<Rightarrow> u32" where
  "bits_prefix h = drop_bit ODP_BUFFER_SEG_BITS h"

definition bits_set_seg :: "u32 \<Rightarrow> odp_buffer_bits \<Rightarrow> odp_buffer_bits" where
  "bits_set_seg v h =
    push_bit ODP_BUFFER_SEG_BITS (bits_prefix h) OR take_bit ODP_BUFFER_SEG_BITS v"

definition bits_make :: "u32 \<Rightarrow> u32 \<Rightarrow> u32 \<Rightarrow> odp_buffer_bits" where
  "bits_make pool_id index seg =
    push_bit (ODP_BUFFER_SEG_BITS + ODP_BUFFER_INDEX_BITS) (take_bit ODP_BUFFER_POOL_BITS pool_id) OR
    push_bit ODP_BUFFER_SEG_BITS (take_bit ODP_BUFFER_INDEX_BITS index) OR
    take_bit ODP_BUFFER_SEG_BITS seg"

definition ODP_BUFFER_INVALID :: u32 where "ODP_BUFFER_INVALID = 0xffffffff"
definition ODP_SEGMENT_INVALID :: u32 where "ODP_SEGMENT_INVALID = ODP_BUFFER_INVALID"

section \<open>Facts about the alignment macros\<close>

lemma nat_power2_and: "0 < n \<Longrightarrow> ((n - 1) AND n = 0) = (\<exists>k. n = 2 ^ k)" for n :: nat
proof (induction n rule: less_induct)
  case (less n)
  show ?case
  proof (cases "even n")
    case True
    then obtain m where n: "n = 2 * m" and "0 < m" using less.prems by auto
    have "((n - 1) AND n) = 2 * ((m - 1) AND m)"
      using \<open>0 < m\<close> n by (cases m) (auto simp: and_rec [of "Suc (2 * _)"])
    moreover have "((m - 1) AND m = 0) = (\<exists>k. m = 2 ^ k)"
      using \<open>0 < m\<close> n by (intro less.IH) auto
    moreover have "(\<exists>k. m = 2 ^ k) = (\<exists>k. n = 2 ^ k)"
    proof
      assume "\<exists>k. n = 2 ^ k"
      then obtain k where k: "n = 2 ^ k" ..
      with True have "k \<noteq> 0" by (cases k) auto
      then obtain j where "k = Suc j" using not0_implies_Suc by blast
      with k n have "m = 2 ^ j" by simp
      then show "\<exists>k. m = 2 ^ k" ..
    qed (use n in \<open>auto intro: exI [of _ "Suc _"]\<close>)
    ultimately show ?thesis by simp
  next
    case False
    then obtain m where n: "n = 2 * m + 1" by (metis oddE)
    have "((n - 1) AND n) = 2 * m" using n by (subst and_rec) auto
    moreover have "(\<exists>k. n = 2 ^ k) = (n = 1)"
    proof
      assume "\<exists>k. n = 2 ^ k"
      then obtain k where k: "n = 2 ^ k" ..
      with False show "n = 1" by (cases k) auto
    qed (auto intro: exI [of _ 0])
    ultimately show ?thesis using n by auto
  qed
qed

lemma is_power_2_iff: "ODP_VAL_IS_POWER_2 x \<longleftrightarrow> x = 0 \<or> (\<exists>k. unat x = 2 ^ k)"
proof (cases "x = 0")
  case False
  then have "unat ((x - 1) AND x) = ((unat x - 1) AND unat x)"
    by (simp add: unsigned_and_eq unat_minus_one)
  moreover have "0 < unat x" using False by (simp add: unat_gt_0)
  ultimately show ?thesis
    using False nat_power2_and [of "unat x"] unfolding ODP_VAL_IS_POWER_2_def
    by (metis unat_eq_0)
qed (simp add: ODP_VAL_IS_POWER_2_def)

lemma rounddown_self_iff: "x = ODP_ALIGN_ROUNDDOWN_POWER_2 x x \<longleftrightarrow> ODP_VAL_IS_POWER_2 x"
proof -
  have "x AND NOT (x - 1) = x \<longleftrightarrow> (x - 1) AND x = 0"
  proof
    assume "x AND NOT (x - 1) = x"
    then have "(x - 1) AND x = (x - 1) AND (x AND NOT (x - 1))" by simp
    also have "\<dots> = 0" by (simp add: and.left_commute)
    finally show "(x - 1) AND x = 0" .
  next
    assume *: "(x - 1) AND x = 0"
    show "x AND NOT (x - 1) = x"
    proof (rule bit_word_eqI)
      fix n assume n: "n < LENGTH('a)"
      from * have "\<not> bit ((x - 1) AND x) n" by simp
      then show "bit (x AND NOT (x - 1)) n = bit x n"
        using n by (auto simp: bit_and_iff bit_not_iff)
    qed
  qed
  then show ?thesis unfolding ODP_ALIGN_ROUNDDOWN_POWER_2_def ODP_VAL_IS_POWER_2_def by auto
qed

lemma unat_push_drop: "unat (push_bit k (drop_bit k (x :: 'a::len word))) = 2 ^ k * (unat x div 2 ^ k)"
proof -
  have "2 ^ k * (unat x div 2 ^ k) < 2 ^ LENGTH('a)"
    by (rule le_less_trans [OF _ unsigned_less [of x, where 'a = nat]]) (simp add: mult.commute div_times_less_eq_dividend)
  then show ?thesis
    by (simp only: unsigned_push_bit_eq unat_drop_bit_eq)
       (simp add: push_bit_eq_mult drop_bit_eq_div take_bit_nat_eq_self mult.commute)
qed

lemma rounddown_power_2:
  assumes "unat align = 2 ^ k"
  shows "unat (ODP_ALIGN_ROUNDDOWN_POWER_2 x align) = unat align * (unat x div unat align)"
proof -
  have "unat align < 2 ^ LENGTH('a)" by (rule unsigned_less)
  then have k: "k < LENGTH('a)" using assms by simp
  have "align = 2 ^ k" using assms k unat_of_nat_small [of "2 ^ k", where 'a = 'a] by (simp add: word_eq_nat)
  then have "ODP_ALIGN_ROUNDDOWN_POWER_2 x align = x AND NOT (mask k)"
    by (simp add: ODP_ALIGN_ROUNDDOWN_POWER_2_def mask_eq_exp_minus_1)
  also have "\<dots> = push_bit k (drop_bit k x)"
    by (rule bit_word_eqI) (auto simp: bit_simps)
  finally show ?thesis by (simp add: unat_push_drop assms)
qed

text \<open>The least multiple of \<open>a\<close> that is at least \<open>n\<close>: the specification of \<open>ODP_ALIGN_ROUNDUP\<close>.\<close>

definition round_up :: "nat \<Rightarrow> nat \<Rightarrow> nat" where
  "round_up n a = a * ((n + a - 1) div a)"

lemma round_up_bounds: "0 < a \<Longrightarrow> n \<le> round_up n a \<and> round_up n a < n + a"
proof -
  assume a: "0 < a"
  have "a * ((n + a - 1) div a) + (n + a - 1) mod a = n + a - 1" by simp
  moreover have "(n + a - 1) mod a < a" using a by simp
  ultimately show ?thesis using a unfolding round_up_def by linarith
qed

lemma round_up_dvd [simp]: "a dvd round_up n a"
  by (simp add: round_up_def)

lemma round_up_least: "0 < a \<Longrightarrow> a dvd m \<Longrightarrow> n \<le> m \<Longrightarrow> round_up n a \<le> m"
proof -
  assume a: "0 < a" and "a dvd m" and n: "n \<le> m"
  then obtain q where m: "m = a * q" by auto
  show ?thesis
  proof (rule ccontr)
    assume "\<not> round_up n a \<le> m"
    then have "q < (n + a - 1) div a" using a m by (simp add: round_up_def)
    then have "a * Suc q \<le> round_up n a" using a by (simp add: round_up_def del: mult_Suc_right)
    then show False using round_up_bounds [OF a, of n] n m by simp
  qed
qed

lemma unat_roundup:
  assumes "align \<noteq> 0" "unat x + unat align \<le> 2 ^ LENGTH('a)"
  shows "unat (ODP_ALIGN_ROUNDUP (x :: 'a::len word) align) = round_up (unat x) (unat align)"
proof -
  have a: "0 < unat align" using assms(1) by (simp add: unat_gt_0)
  have "unat (x + align - 1) = unat x + unat align - 1"
  proof -
    have "unat (align - 1) = unat align - 1" using assms(1) by (rule unat_minus_one)
    then have "unat (x + (align - 1)) = unat x + (unat align - 1)"
      using a assms(2) by (intro trans [OF unat_add_small]) auto
    then show ?thesis using a by (simp add: add_diff_eq)
  qed
  then have q: "unat ((x + align - 1) div align) = (unat x + unat align - 1) div unat align"
    by (simp add: unat_div_distrib)
  have "round_up (unat x) (unat align) < 2 ^ LENGTH('a)"
    using round_up_bounds [OF a, of "unat x"] assms(2) by linarith
  then show ?thesis
    unfolding ODP_ALIGN_ROUNDUP_def round_up_def q [symmetric] by (rule unat_mult_small)
qed

section \<open>Facts about the packed handle\<close>

lemma bits_fields:
  assumes "pool_id < 16" "index < 33554432" "seg < 8"
  shows "bits_pool_id (bits_make pool_id index seg) = pool_id"
    and "bits_index (bits_make pool_id index seg) = index"
    and "bits_seg (bits_make pool_id index seg) = seg"
proof -
  have p: "take_bit 4 pool_id = pool_id" and i: "take_bit 25 index = index" and s: "take_bit 3 seg = seg"
    using assms by (simp_all add: take_bit_eq_mod word_eq_nat unat_mod_distrib word_less_nat_alt)
  have pb: "bit pool_id n \<Longrightarrow> n < 4" for n using p by (metis bit_take_bit_iff)
  have ib: "bit index n \<Longrightarrow> n < 25" for n using i by (metis bit_take_bit_iff)
  have sb: "bit seg n \<Longrightarrow> n < 3" for n using s by (metis bit_take_bit_iff)
  show "bits_pool_id (bits_make pool_id index seg) = pool_id"
    by (rule bit_word_eqI)
       (auto simp: bits_pool_id_def bits_make_def bit_simps dest: pb)
  show "bits_index (bits_make pool_id index seg) = index"
    by (rule bit_word_eqI)
       (auto simp: bits_index_def bits_make_def bit_simps dest: ib)
  show "bits_seg (bits_make pool_id index seg) = seg"
    by (rule bit_word_eqI)
       (auto simp: bits_seg_def bits_make_def bit_simps dest: sb)
qed

lemma bits_make_collapse: "bits_make (bits_pool_id h) (bits_index h) (bits_seg h) = h"
proof (rule bit_word_eqI)
  fix n assume "n < LENGTH(32)"
  then consider "n < 3" | "3 \<le> n" "n < 28" | "28 \<le> n" "n < 32" by fastforce
  then show "bit (bits_make (bits_pool_id h) (bits_index h) (bits_seg h)) n = bit h n"
    by cases (auto simp: bits_pool_id_def bits_index_def bits_seg_def bits_make_def bit_simps)
qed

lemma take_bit_3_small: "(v::u32) < 8 \<Longrightarrow> take_bit 3 v = v"
  by (simp add: take_bit_eq_mod word_eq_nat unat_mod_distrib word_less_nat_alt)

lemma bits_set_seg_seg: "v < 8 \<Longrightarrow> bits_seg (bits_set_seg v h) = v"
proof -
  assume "v < 8"
  then have "bits_set_seg v h = push_bit 3 (drop_bit 3 h) OR v"
    by (simp add: bits_set_seg_def bits_prefix_def take_bit_3_small)
  then have "bits_seg (bits_set_seg v h) = take_bit 3 v"
    by (simp only: bits_seg_def ODP_BUFFER_SEG_BITS_eq take_bit_or) (simp add: take_bit_push_bit)
  with \<open>v < 8\<close> show ?thesis by (simp add: take_bit_3_small)
qed

lemma bits_set_seg_prefix: "bits_prefix (bits_set_seg v h) = bits_prefix h"
proof (rule bit_word_eqI)
  fix n assume "n < LENGTH(32)"
  then show "bit (bits_prefix (bits_set_seg v h)) n = bit (bits_prefix h) n"
    by (auto simp: bits_prefix_def bits_set_seg_def bit_simps dest: bit_imp_le_length)
qed

lemma bits_prefix_seg_eq: "bits_seg h = bits_seg h' \<Longrightarrow> bits_prefix h = bits_prefix h' \<Longrightarrow> h = h'"
  by (metis (no_types, lifting) bits_ident bits_prefix_def bits_seg_def)

end
