(* ===== verification/Odp_Buffer.thy ===== *)
theory Odp_Buffer
  imports Odp_Config
begin

text \<open>
  The buffer header (\<open>odp_buffer_internal.h\<close>), the packet header that extends it
  (\<open>odp_packet_internal.h\<close>), the pool entry (\<open>odp_pool_internal.h\<close>) and the inline routines that
  work on one header: reference counts, the segment map of a buffer and the walk over segment
  handles (\<open>odp_buffer_inlines.h\<close>).
\<close>

section \<open>Event and pool types\<close>

text \<open>The pool type constants are the event type constants.\<close>

definition ODP_EVENT_BUFFER :: int where "ODP_EVENT_BUFFER = 1"
definition ODP_EVENT_PACKET :: int where "ODP_EVENT_PACKET = 2"
definition ODP_EVENT_TIMEOUT :: int where "ODP_EVENT_TIMEOUT = 3"
definition ODP_EVENT_CRYPTO_COMPL :: int where "ODP_EVENT_CRYPTO_COMPL = 4"

abbreviation "ODP_POOL_BUFFER \<equiv> ODP_EVENT_BUFFER"
abbreviation "ODP_POOL_PACKET \<equiv> ODP_EVENT_PACKET"
abbreviation "ODP_POOL_TIMEOUT \<equiv> ODP_EVENT_TIMEOUT"

lemmas event_type_defs [simp] =
  ODP_EVENT_BUFFER_def ODP_EVENT_PACKET_def ODP_EVENT_TIMEOUT_def ODP_EVENT_CRYPTO_COMPL_def

definition ODP_FREEBUF :: int where "ODP_FREEBUF = -1"

section \<open>The common buffer header\<close>

record odp_buffer_hdr =
  bh_next :: addr
  bh_handle :: odp_buffer_bits
  bh_zeroized :: bool
  bh_hdrdata :: bool
  bh_allocator :: int
  bh_type :: int
  bh_event_type :: int
  bh_size :: u32
  bh_ref_count :: u32
  bh_pool_hdl :: u32
  bh_buf_u64 :: u64
  bh_uarea_addr :: addr
  bh_uarea_size :: u32
  bh_segcount :: u32
  bh_segsize :: u32
  bh_addr :: "addr list"

text \<open>\<open>bh_addr\<close> is the array \<open>addr[ODP_BUFFER_MAX_SEG]\<close>; it always has that many elements.\<close>

definition odp_buffer_refcount :: "odp_buffer_hdr \<Rightarrow> u32" where
  "odp_buffer_refcount buf = bh_ref_count buf"

definition odp_buffer_incr_refcount :: "odp_buffer_hdr \<Rightarrow> u32 \<Rightarrow> u32 \<times> odp_buffer_hdr" where
  "odp_buffer_incr_refcount buf val =
    (bh_ref_count buf + val, buf\<lparr>bh_ref_count := bh_ref_count buf + val\<rparr>)"

definition odp_buffer_decr_refcount :: "odp_buffer_hdr \<Rightarrow> u32 \<Rightarrow> u32 \<times> odp_buffer_hdr" where
  "odp_buffer_decr_refcount buf val =
    (let tmp = bh_ref_count buf;
         buf1 = buf\<lparr>bh_ref_count := tmp - val\<rparr>
     in if tmp < val
        then (0, buf1\<lparr>bh_ref_count := bh_ref_count buf1 + (val - tmp)\<rparr>)
        else (tmp - val, buf1))"

text \<open>
  \<open>buffer_map\<close> returns the address of byte \<open>offset\<close> of the segmented buffer and, through
  \<open>seglen\<close>, how many bytes up to \<open>limit\<close> follow in the same segment.
\<close>

definition buffer_map :: "odp_buffer_hdr \<Rightarrow> u32 \<Rightarrow> u32 \<Rightarrow> c_error + (addr \<times> u32)" where
  "buffer_map buf offset limit =
    (if \<not> offset < bh_segsize buf \<and> bh_segsize buf = 0 then Inl Div_By_Zero
     else
       let (seg_index, seg_offset) =
             (if offset < bh_segsize buf then (0, offset)
              else (unat (offset div bh_segsize buf), offset mod bh_segsize buf));
           buf_left = limit - offset;
           seglen = (if seg_offset + buf_left \<le> bh_segsize buf then buf_left
                     else bh_segsize buf - seg_offset)
       in if seg_index < length (bh_addr buf)
          then Inr (int (unat seg_offset) + bh_addr buf ! seg_index, seglen)
          else Inl Out_Of_Bounds)"

definition segment_next :: "odp_buffer_hdr \<Rightarrow> odp_buffer_bits \<Rightarrow> odp_buffer_bits" where
  "segment_next buf seg =
    (if seg = ODP_SEGMENT_INVALID \<or> bits_prefix seg \<noteq> bits_prefix (bh_handle buf) \<or>
        bits_seg seg \<ge> bh_segcount buf - 1
     then ODP_SEGMENT_INVALID
     else bits_set_seg (bits_seg seg + 1) seg)"

text \<open>\<open>Inr None\<close> is the \<open>NULL\<close> result, which leaves \<open>*seglen\<close> untouched.\<close>

definition segment_map ::
    "odp_buffer_hdr \<Rightarrow> odp_buffer_bits \<Rightarrow> u32 \<Rightarrow> u32 \<Rightarrow> c_error + (addr \<times> u32) option" where
  "segment_map buf seg limit hr =
    (if bits_prefix seg \<noteq> bits_prefix (bh_handle buf) \<or> bits_seg seg \<ge> bh_segcount buf
     then Inr None
     else if \<not> unat (bits_seg seg) < length (bh_addr buf) then Inl Out_Of_Bounds
     else
       let seg_addr = bh_addr buf ! unat (bits_seg seg);
           seg_offset = bits_seg seg * bh_segsize buf;
           limit1 = limit + hr
       in if hr \<ge> seg_offset + bh_segsize buf \<or> seg_offset > limit1 then Inr None
          else
            let (seg_addr1, seg_offset1) =
                  (if hr > seg_offset
                   then (seg_addr + int (unat (hr mod bh_segsize buf)),
                         seg_offset + hr mod bh_segsize buf)
                   else (seg_addr, seg_offset));
                buf_left = limit1 - seg_offset1;
                seglen = (if buf_left < bh_segsize buf then buf_left
                          else if seg_offset1 \<ge> bh_segsize buf then bh_segsize buf
                          else bh_segsize buf - seg_offset1)
            in Inr (Some (seg_addr1, seglen)))"

section \<open>The packet header\<close>

text \<open>
  The input flags are a 32-bit word; \<open>input_flag_bit\<close> gives the position of each bit field, as
  the little-endian layout of the union numbers them.
\<close>

datatype input_flag =
    IF_unparsed | IF_l2 | IF_l3 | IF_l4 | IF_eth | IF_jumbo | IF_vlan | IF_vlan_qinq
  | IF_snap | IF_arp | IF_ipv4 | IF_ipv6 | IF_ipfrag | IF_ipopt | IF_ipsec
  | IF_udp | IF_tcp | IF_tcpopt | IF_sctp | IF_icmp

primrec input_flag_bit :: "input_flag \<Rightarrow> nat" where
  "input_flag_bit IF_unparsed = 0" | "input_flag_bit IF_l2 = 1" | "input_flag_bit IF_l3 = 2"
| "input_flag_bit IF_l4 = 3" | "input_flag_bit IF_eth = 4" | "input_flag_bit IF_jumbo = 5"
| "input_flag_bit IF_vlan = 6" | "input_flag_bit IF_vlan_qinq = 7" | "input_flag_bit IF_snap = 8"
| "input_flag_bit IF_arp = 9" | "input_flag_bit IF_ipv4 = 10" | "input_flag_bit IF_ipv6 = 11"
| "input_flag_bit IF_ipfrag = 12" | "input_flag_bit IF_ipopt = 13" | "input_flag_bit IF_ipsec = 14"
| "input_flag_bit IF_udp = 15" | "input_flag_bit IF_tcp = 16" | "input_flag_bit IF_tcpopt = 17"
| "input_flag_bit IF_sctp = 18" | "input_flag_bit IF_icmp = 19"

datatype error_flag =
    EF_app_error | EF_frame_len | EF_snap_len | EF_l2_chksum | EF_ip_err | EF_tcp_err | EF_udp_err

primrec error_flag_bit :: "error_flag \<Rightarrow> nat" where
  "error_flag_bit EF_app_error = 0" | "error_flag_bit EF_frame_len = 1"
| "error_flag_bit EF_snap_len = 2" | "error_flag_bit EF_l2_chksum = 3"
| "error_flag_bit EF_ip_err = 4" | "error_flag_bit EF_tcp_err = 5" | "error_flag_bit EF_udp_err = 6"

text \<open>The result of a crypto operation (\<open>op_result\<close>) is not part of the modelled header.\<close>

record odp_packet_hdr =
  buf_hdr :: odp_buffer_hdr
  input_flags :: u32
  error_flags :: u32
  output_flags :: u32
  l2_offset :: u32
  l3_offset :: u32
  l4_offset :: u32
  payload_offset :: u32
  vlan_s_tag :: u32
  vlan_c_tag :: u32
  l3_protocol :: u32
  l3_len :: u32
  l4_protocol :: u32
  l4_len :: u32
  frame_len :: u32
  headroom :: u32
  tailroom :: u32
  pkt_input :: u32

abbreviation buf_hdr_map :: "(odp_buffer_hdr \<Rightarrow> odp_buffer_hdr) \<Rightarrow> odp_packet_hdr \<Rightarrow> odp_packet_hdr" where
  "buf_hdr_map f h \<equiv> h\<lparr>buf_hdr := f (buf_hdr h)\<rparr>"

definition input_flag :: "input_flag \<Rightarrow> odp_packet_hdr \<Rightarrow> bool" where
  "input_flag f h = bit (input_flags h) (input_flag_bit f)"

definition set_input_flag :: "input_flag \<Rightarrow> bool \<Rightarrow> odp_packet_hdr \<Rightarrow> odp_packet_hdr" where
  "set_input_flag f v h = h\<lparr>input_flags :=
    (if v then set_bit (input_flag_bit f) (input_flags h)
     else unset_bit (input_flag_bit f) (input_flags h))\<rparr>"

definition error_flag :: "error_flag \<Rightarrow> odp_packet_hdr \<Rightarrow> bool" where
  "error_flag f h = bit (error_flags h) (error_flag_bit f)"

definition set_error_flag :: "error_flag \<Rightarrow> odp_packet_hdr \<Rightarrow> odp_packet_hdr" where
  "set_error_flag f h = h\<lparr>error_flags := set_bit (error_flag_bit f) (error_flags h)\<rparr>"

definition ODP_PACKET_OFFSET_INVALID :: u32 where "ODP_PACKET_OFFSET_INVALID = 0x0fffffff"
definition ODP_PACKET_UNPARSED :: u32 where "ODP_PACKET_UNPARSED = NOT 0"

section \<open>The pool entry\<close>

text \<open>
  \<open>odp_pool_param_t\<close> holds a union; \<open>pp_num\<close>, \<open>pp_size_len\<close> and \<open>pp_align_seg_len\<close> are its first
  three words (\<open>buf.num = pkt.num = tmo.num\<close>, \<open>buf.size = pkt.len\<close>, \<open>buf.align = pkt.seg_len\<close>)
  and \<open>pp_uarea_size\<close> the fourth.
\<close>

record odp_pool_param =
  pp_type :: int
  pp_num :: u32
  pp_size_len :: u32
  pp_align_seg_len :: u32
  pp_uarea_size :: u32

record odp_pool_stats =
  bufallocs :: u64
  buffrees :: u64
  blkallocs :: u64
  blkfrees :: u64
  bufempty :: u64
  blkempty :: u64
  high_wm_count :: u64
  low_wm_count :: u64

record pool_entry =
  pl_name :: string
  pl_params :: odp_pool_param
  pl_udata_size :: u32
  pl_pool_hdl :: u32
  pl_pool_id :: u32
  pl_pool_shm :: u32
  pl_has_name :: bool
  pl_unsegmented :: bool
  pl_zeroized :: bool
  pl_predefined :: bool
  pl_quiesced :: bool
  pl_low_wm_assert :: bool
  pl_base_addr :: addr
  pl_mdata_addr :: addr
  pl_pool_size :: u64
  pl_buf_align :: u32
  pl_buf_stride :: u32
  pl_buf_freelist :: addr
  pl_blk_freelist :: addr
  pl_bufcount :: u32
  pl_blkcount :: u32
  pl_stats :: odp_pool_stats
  pl_buf_num :: u32
  pl_seg_size :: u32
  pl_blk_size :: u32
  pl_high_wm :: u32
  pl_low_wm :: u32
  pl_headroom :: u32
  pl_tailroom :: u32

section \<open>Header-level packet routines\<close>

definition packet_init :: "pool_entry \<Rightarrow> odp_packet_hdr \<Rightarrow> u32 \<Rightarrow> odp_packet_hdr" where
  "packet_init pool h len =
    \<lparr>buf_hdr = buf_hdr h,
     input_flags = 0, error_flags = 0, output_flags = 0,
     l2_offset = ODP_PACKET_OFFSET_INVALID,
     l3_offset = ODP_PACKET_OFFSET_INVALID,
     l4_offset = ODP_PACKET_OFFSET_INVALID,
     payload_offset = ODP_PACKET_OFFSET_INVALID,
     vlan_s_tag = 0, vlan_c_tag = 0, l3_protocol = 0, l3_len = 0, l4_protocol = 0, l4_len = 0,
     frame_len = len,
     headroom = pl_headroom pool,
     tailroom = (pl_seg_size pool * bh_segcount (buf_hdr h)) - (pl_headroom pool + len),
     pkt_input = 0\<rparr>"

definition copy_packet_parser_metadata :: "odp_packet_hdr \<Rightarrow> odp_packet_hdr \<Rightarrow> odp_packet_hdr" where
  "copy_packet_parser_metadata src_hdr dst_hdr = dst_hdr
    \<lparr>input_flags := input_flags src_hdr,
     error_flags := error_flags src_hdr,
     output_flags := output_flags src_hdr,
     l2_offset := l2_offset src_hdr,
     l3_offset := l3_offset src_hdr,
     l4_offset := l4_offset src_hdr,
     payload_offset := payload_offset src_hdr,
     vlan_s_tag := vlan_s_tag src_hdr,
     vlan_c_tag := vlan_c_tag src_hdr,
     l3_protocol := l3_protocol src_hdr,
     l3_len := l3_len src_hdr,
     l4_protocol := l4_protocol src_hdr,
     l4_len := l4_len src_hdr\<rparr>"

text \<open>\<open>Inr None\<close> is the \<open>NULL\<close> result for an offset beyond the frame.\<close>

definition packet_map :: "odp_packet_hdr \<Rightarrow> u32 \<Rightarrow> c_error + (addr \<times> u32) option" where
  "packet_map h offset =
    (if offset > frame_len h then Inr None
     else and_then (buffer_map (buf_hdr h) (headroom h + offset) (headroom h + frame_len h))
            (\<lambda>r. Inr (Some r)))"

definition push_head :: "odp_packet_hdr \<Rightarrow> u32 \<Rightarrow> odp_packet_hdr" where
  "push_head h len = h\<lparr>headroom := headroom h - len, frame_len := frame_len h + len\<rparr>"

definition pull_head :: "odp_packet_hdr \<Rightarrow> u32 \<Rightarrow> odp_packet_hdr" where
  "pull_head h len = h\<lparr>headroom := headroom h + len, frame_len := frame_len h - len\<rparr>"

definition push_tail :: "odp_packet_hdr \<Rightarrow> u32 \<Rightarrow> odp_packet_hdr" where
  "push_tail h len = h\<lparr>tailroom := tailroom h - len, frame_len := frame_len h + len\<rparr>"

definition pull_tail :: "odp_packet_hdr \<Rightarrow> u32 \<Rightarrow> odp_packet_hdr" where
  "pull_tail h len = h\<lparr>tailroom := tailroom h + len, frame_len := frame_len h - len\<rparr>"

definition packet_set_len :: "odp_packet_hdr \<Rightarrow> u32 \<Rightarrow> odp_packet_hdr" where
  "packet_set_len h len = h\<lparr>frame_len := len\<rparr>"

definition odp_packet_reset_parse :: "odp_packet_hdr \<Rightarrow> odp_packet_hdr" where
  "odp_packet_reset_parse h = h\<lparr>input_flags := ODP_PACKET_UNPARSED\<rparr>"

section \<open>The segment map\<close>

text \<open>Where byte \<open>i\<close> of the segmented buffer lives: the specification of the segment map.\<close>

definition byte_addr :: "odp_buffer_hdr \<Rightarrow> nat \<Rightarrow> addr" where
  "byte_addr buf i =
    bh_addr buf ! (i div unat (bh_segsize buf)) + int (i mod unat (bh_segsize buf))"

lemma byte_addr_contiguous:
  assumes "k < unat (bh_segsize buf) - i mod unat (bh_segsize buf)"
  shows "byte_addr buf (i + k) = byte_addr buf i + int k"
proof -
  let ?n = "unat (bh_segsize buf)"
  have "i mod ?n + k < ?n" using assms by simp
  then show ?thesis by (simp add: byte_addr_def div_mod_add_small)
qed

lemma buffer_map_eq:
  assumes "bh_segsize buf \<noteq> 0" "offset \<le> limit"
    and "unat offset div unat (bh_segsize buf) < length (bh_addr buf)"
  shows "\<exists>len. buffer_map buf offset limit = Inr (byte_addr buf (unat offset), len) \<and>
    unat len = min (unat limit - unat offset)
                   (unat (bh_segsize buf) - unat offset mod unat (bh_segsize buf))"
proof -
  let ?ss = "bh_segsize buf"
  let ?so = "offset mod ?ss"
  have ss: "0 < unat ?ss" using assms(1) by (simp add: unat_gt_0)
  have idx: "(if offset < ?ss then (0, offset) else (unat (offset div ?ss), offset mod ?ss))
      = (unat (offset div ?ss), ?so)"
    by (auto simp: word_less_nat_alt unat_div_distrib word_eq_nat unat_mod_distrib)
  have left: "unat (limit - offset) = unat limit - unat offset"
    using assms(2) by (simp add: unat_sub_small word_le_nat_alt)
  have "unat ?so + unat (limit - offset) < 4294967296"
    using assms(2) mod_less_eq_dividend [of "unat offset" "unat ?ss"] unat_u32_bound [of limit]
    unfolding left unat_mod_distrib word_le_nat_alt by linarith
  then have sum: "unat (?so + (limit - offset)) = unat ?so + unat (limit - offset)"
    by (rule unat_add_u32)
  have so: "unat ?so < unat ?ss" using ss by (simp add: unat_mod_distrib)
  show ?thesis
    unfolding buffer_map_def idx Let_def prod.case
    using assms so ss left sum
    by (auto simp: byte_addr_def unat_div_distrib unat_mod_distrib word_le_nat_alt unat_sub_small)
qed

section \<open>Well-formed packets\<close>

text \<open>
  The packet invariant: the segment table has its full length, the packet occupies between one
  and \<open>ODP_BUFFER_MAX_SEG\<close> segments, and headroom, frame and tailroom fill them exactly.
\<close>

definition packet_ok :: "odp_packet_hdr \<Rightarrow> bool" where
  "packet_ok h \<longleftrightarrow>
    length (bh_addr (buf_hdr h)) = ODP_BUFFER_MAX_SEG \<and>
    0 < bh_segsize (buf_hdr h) \<and>
    unat (bh_segsize (buf_hdr h)) * ODP_BUFFER_MAX_SEG < 2 ^ 32 \<and>
    1 \<le> bh_segcount (buf_hdr h) \<and> unat (bh_segcount (buf_hdr h)) \<le> ODP_BUFFER_MAX_SEG \<and>
    unat (headroom h) + unat (frame_len h) + unat (tailroom h) =
      unat (bh_segsize (buf_hdr h)) * unat (bh_segcount (buf_hdr h))"

lemma packet_okD:
  assumes "packet_ok h"
  shows "length (bh_addr (buf_hdr h)) = 6" "bh_segsize (buf_hdr h) \<noteq> 0"
    and "0 < unat (bh_segsize (buf_hdr h))"
    and "unat (bh_segsize (buf_hdr h)) * 6 < 4294967296"
    and "1 \<le> unat (bh_segcount (buf_hdr h))" "unat (bh_segcount (buf_hdr h)) \<le> 6"
    and "unat (headroom h) + unat (frame_len h) + unat (tailroom h) =
      unat (bh_segsize (buf_hdr h)) * unat (bh_segcount (buf_hdr h))"
    and "unat (headroom h) + unat (frame_len h) + unat (tailroom h) < 4294967296"
proof -
  show *: "length (bh_addr (buf_hdr h)) = 6" "bh_segsize (buf_hdr h) \<noteq> 0"
    "0 < unat (bh_segsize (buf_hdr h))"
    "unat (bh_segsize (buf_hdr h)) * 6 < 4294967296"
    "1 \<le> unat (bh_segcount (buf_hdr h))" "unat (bh_segcount (buf_hdr h)) \<le> 6"
    "unat (headroom h) + unat (frame_len h) + unat (tailroom h) =
      unat (bh_segsize (buf_hdr h)) * unat (bh_segcount (buf_hdr h))"
    using assms unfolding packet_ok_def by (auto simp: word_less_nat_alt word_le_nat_alt)
  have "unat (bh_segsize (buf_hdr h)) * unat (bh_segcount (buf_hdr h)) \<le> unat (bh_segsize (buf_hdr h)) * 6"
    using * by simp
  then show "unat (headroom h) + unat (frame_len h) + unat (tailroom h) < 4294967296"
    using * by linarith
qed

lemma packet_ok_seg_index:
  assumes "packet_ok h" "i < unat (bh_segsize (buf_hdr h)) * unat (bh_segcount (buf_hdr h))"
  shows "i div unat (bh_segsize (buf_hdr h)) < unat (bh_segcount (buf_hdr h))"
  using assms packet_okD(3) [OF assms(1)] by (simp add: div_less_iff_less_mult mult.commute)

text \<open>The bytes of the frame, in order.\<close>

definition packet_bytes :: "memory \<Rightarrow> odp_packet_hdr \<Rightarrow> u8 list" where
  "packet_bytes m h =
    map (\<lambda>i. m (byte_addr (buf_hdr h) (unat (headroom h) + i))) [0..<unat (frame_len h)]"

lemma length_packet_bytes [simp]: "length (packet_bytes m h) = unat (frame_len h)"
  by (simp add: packet_bytes_def)

lemma packet_map_in_frame:
  assumes ok: "packet_ok h" and off: "offset < frame_len h"
  obtains len where
    "packet_map h offset = Inr (Some (byte_addr (buf_hdr h) (unat (headroom h) + unat offset), len))"
    and "unat len = min (unat (frame_len h) - unat offset)
      (unat (bh_segsize (buf_hdr h)) - (unat (headroom h) + unat offset) mod unat (bh_segsize (buf_hdr h)))"
    and "0 < unat len"
proof -
  let ?ss = "unat (bh_segsize (buf_hdr h))"
  note D = packet_okD [OF ok]
  have o: "unat offset < unat (frame_len h)" using off by (simp add: word_less_nat_alt)
  have s1: "unat (headroom h + offset) = unat (headroom h) + unat offset"
    using D o by (intro unat_add_u32) linarith
  have s2: "unat (headroom h + frame_len h) = unat (headroom h) + unat (frame_len h)"
    using D by (intro unat_add_u32) linarith
  have idx: "unat (headroom h + offset) div ?ss < length (bh_addr (buf_hdr h))"
  proof -
    have "unat (headroom h) + unat offset < ?ss * unat (bh_segcount (buf_hdr h))"
      using D(7) o by linarith
    from packet_ok_seg_index [OF ok this] show ?thesis unfolding s1 using D(1,6) by linarith
  qed
  obtain len where
    1: "buffer_map (buf_hdr h) (headroom h + offset) (headroom h + frame_len h) =
      Inr (byte_addr (buf_hdr h) (unat (headroom h + offset)), len)"
    and 2: "unat len = min (unat (headroom h + frame_len h) - unat (headroom h + offset))
      (?ss - unat (headroom h + offset) mod ?ss)"
    using buffer_map_eq [OF D(2) _ idx, of "headroom h + frame_len h"] o
    by (auto simp: word_le_nat_alt s1 s2)
  show thesis
  proof (rule that)
    show "packet_map h offset = Inr (Some (byte_addr (buf_hdr h) (unat (headroom h) + unat offset), len))"
      using 1 off by (simp add: packet_map_def s1)
    show eq: "unat len = min (unat (frame_len h) - unat offset)
      (?ss - (unat (headroom h) + unat offset) mod ?ss)"
      using 2 by (simp add: s1 s2)
    show "0 < unat len" using eq o D(3) by (simp add: less_diff_conv)
  qed
qed

section \<open>Segment handles\<close>

text \<open>
  The position of the first data byte that segment \<open>s\<close> holds, and how many it holds: the
  specification the segment calls are measured against.
\<close>

definition seg_start :: "odp_packet_hdr \<Rightarrow> nat \<Rightarrow> nat" where
  "seg_start h s = max (s * unat (bh_segsize (buf_hdr h))) (unat (headroom h))"

definition seg_bytes :: "odp_packet_hdr \<Rightarrow> nat \<Rightarrow> nat" where
  "seg_bytes h s =
    min (Suc s * unat (bh_segsize (buf_hdr h))) (unat (headroom h) + unat (frame_len h)) - seg_start h s"

lemma segment_map_data:
  assumes ok: "packet_ok h" and pre: "bits_prefix seg = bits_prefix (bh_handle (buf_hdr h))"
    and s: "unat (bits_seg seg) = s" "s < unat (bh_segcount (buf_hdr h))"
    and hr: "headroom h < bh_segsize (buf_hdr h)"
    and le: "s * unat (bh_segsize (buf_hdr h)) \<le> unat (headroom h) + unat (frame_len h)"
  obtains len where
    "segment_map (buf_hdr h) seg (frame_len h) (headroom h) =
      Inr (Some (byte_addr (buf_hdr h) (seg_start h s), len))"
    and "unat len = (if s = 0 \<and> frame_len h < bh_segsize (buf_hdr h) then unat (frame_len h) else seg_bytes h s)"
proof -
  let ?b = "buf_hdr h"
  let ?ss = "bh_segsize ?b"
  note D = packet_okD [OF ok]
  have s6: "s < 6" using s D by linarith
  have "s * unat ?ss \<le> 5 * unat ?ss" using s6 by (intro mult_le_mono1) simp
  then have small: "s * unat ?ss + unat ?ss < 4294967296" using D(4) by linarith
  then have off: "unat (bits_seg seg * ?ss) = s * unat ?ss"
    using s(1) unat_mult_u32 [of "bits_seg seg" ?ss] by simp
  have lim: "unat (frame_len h + headroom h) = unat (headroom h) + unat (frame_len h)"
    using D(8) unat_add_u32 [of "frame_len h" "headroom h"] by simp
  have off2: "unat (bits_seg seg * ?ss + ?ss) = Suc s * unat ?ss"
    using off small unat_add_u32 [of "bits_seg seg * ?ss" ?ss] by simp
  have hrm: "headroom h mod ?ss = headroom h" using hr by (simp add: word_eq_nat unat_mod_distrib word_less_nat_alt)
  have hr': "unat (headroom h) < unat ?ss" using hr by (simp add: word_less_nat_alt)
  have c1: "\<not> (headroom h \<ge> bits_seg seg * ?ss + ?ss)"
    using hr' by (simp add: word_le_nat_alt off2)
  have c2: "\<not> (bits_seg seg * ?ss > frame_len h + headroom h)"
    using le by (simp add: word_less_nat_alt off lim)
  have c3: "bits_seg seg < bh_segcount ?b" using s by (simp add: word_less_nat_alt)
  show thesis
  proof (cases "s = 0")
    case True
    then have z: "bits_seg seg = 0" using s(1) by (simp add: unat_eq_0)
    have "seg_start h s = unat (headroom h)" by (simp add: True seg_start_def)
    moreover have "byte_addr ?b (unat (headroom h)) = bh_addr ?b ! 0 + int (unat (headroom h))"
      using hr' by (simp add: byte_addr_def)
    moreover have "seg_bytes h s = min (unat ?ss) (unat (headroom h) + unat (frame_len h)) - unat (headroom h)"
      by (simp add: True seg_bytes_def seg_start_def)
    ultimately show thesis
      using that [of "if frame_len h < ?ss then frame_len h else ?ss - headroom h"] hr' True z D
      by (auto simp: segment_map_def pre hrm Let_def word_less_nat_alt word_le_nat_alt
          unat_sub_small not_le unat_gt_0 lim split: if_splits)
  next
    case False
    then have ge: "unat ?ss \<le> s * unat ?ss" by simp
    have lt: "unat (headroom h) < s * unat ?ss" by (rule order_less_le_trans [OF hr' ge])
    then have ng: "\<not> headroom h > bits_seg seg * ?ss" by (simp add: word_less_nat_alt off)
    have st: "seg_start h s = s * unat ?ss" using lt by (simp add: seg_start_def)
    have ba: "byte_addr ?b (seg_start h s) = bh_addr ?b ! s" using D(3) by (simp add: byte_addr_def st)
    have left: "unat (frame_len h + headroom h - bits_seg seg * ?ss) =
        unat (headroom h) + unat (frame_len h) - s * unat ?ss"
      using le by (subst unat_sub_small) (auto simp: off lim)
    have nl': "?ss \<le> bits_seg seg * ?ss" using False by (simp add: word_le_nat_alt off)
    have c3': "\<not> bh_segcount ?b \<le> bits_seg seg" using c3 by simp
    have "segment_map ?b seg (frame_len h) (headroom h) = Inr (Some (bh_addr ?b ! s,
        if frame_len h + headroom h - bits_seg seg * ?ss < ?ss
        then frame_len h + headroom h - bits_seg seg * ?ss else ?ss))"
      by (simp add: segment_map_def Let_def pre c1 c2 c3' ng nl' s(1) s6 D(1))
    moreover have "unat (if frame_len h + headroom h - bits_seg seg * ?ss < ?ss
        then frame_len h + headroom h - bits_seg seg * ?ss else ?ss) = seg_bytes h s"
      using le by (auto simp: word_less_nat_alt left seg_bytes_def st)
    ultimately show thesis using that False by (simp add: ba)
  qed
qed

lemma bits_seg_INVALID [simp]: "bits_seg ODP_SEGMENT_INVALID = 7"
  by (simp add: bits_seg_def ODP_SEGMENT_INVALID_def ODP_BUFFER_INVALID_def)

lemma bits_set_seg_again: "bits_set_seg v (bits_set_seg w h) = bits_set_seg v h"
  by (simp add: bits_set_seg_def [of v] bits_set_seg_prefix)

lemma bits_set_seg_same: "bits_seg h < 8 \<Longrightarrow> bits_set_seg (bits_seg h) h = h"
  by (rule bits_prefix_seg_eq) (simp_all add: bits_set_seg_seg bits_set_seg_prefix)

lemma segment_next_walk:
  assumes "bits_seg (bh_handle buf) = 0" "unat (bh_segcount buf) \<le> 6"
    and "k < unat (bh_segcount buf)"
  shows "(segment_next buf ^^ k) (bh_handle buf) = bits_set_seg (of_nat k) (bh_handle buf)"
  using assms(3)
proof (induction k)
  case 0
  show ?case using bits_set_seg_same [of "bh_handle buf"] assms(1) by simp
next
  case (Suc k)
  let ?h = "bits_set_seg (of_nat k) (bh_handle buf)"
  have k: "k < 6" using Suc.prems assms(2) by simp
  have uk: "unat (of_nat k :: u32) = k" using k by (intro unat_of_nat_small) simp
  have "(of_nat k :: u32) < 8" using k by (simp add: word_less_nat_alt uk)
  then have sg: "bits_seg ?h = of_nat k" by (rule bits_set_seg_seg)
  have "?h \<noteq> ODP_SEGMENT_INVALID"
  proof
    assume "?h = ODP_SEGMENT_INVALID"
    then have "unat (of_nat k :: u32) = unat (7 :: u32)" using sg by simp
    then show False using k uk by simp
  qed
  moreover have "\<not> bits_seg ?h \<ge> bh_segcount buf - 1"
    using Suc.prems by (simp add: sg word_le_nat_alt uk unat_sub_small)
  ultimately have "segment_next buf ?h = bits_set_seg (of_nat k + 1) ?h"
    by (simp add: segment_next_def sg bits_set_seg_prefix)
  then show ?case using Suc by (simp add: bits_set_seg_again add.commute)
qed

lemma segment_next_last:
  assumes "unat (bits_seg seg) + 1 = unat (bh_segcount buf)"
  shows "segment_next buf seg = ODP_SEGMENT_INVALID"
proof -
  have "bh_segcount buf \<noteq> 0" using assms by (metis Suc_eq_plus1 nat.distinct(1) unat_0)
  then have "unat (bh_segcount buf - 1) = unat (bits_seg seg)" using assms by (simp add: unat_minus_one)
  then have "bits_seg seg \<ge> bh_segcount buf - 1" by (simp add: word_le_nat_alt)
  then show ?thesis by (simp add: segment_next_def)
qed

lemma packet_init_ok:
  assumes "length (bh_addr (buf_hdr h)) = ODP_BUFFER_MAX_SEG"
    and "pl_seg_size pool = bh_segsize (buf_hdr h)" "0 < bh_segsize (buf_hdr h)"
    and "unat (bh_segsize (buf_hdr h)) * ODP_BUFFER_MAX_SEG < 2 ^ 32"
    and "1 \<le> bh_segcount (buf_hdr h)" "unat (bh_segcount (buf_hdr h)) \<le> ODP_BUFFER_MAX_SEG"
    and fit: "unat (pl_headroom pool) + unat len \<le> unat (bh_segsize (buf_hdr h)) * unat (bh_segcount (buf_hdr h))"
  shows "packet_ok (packet_init pool h len)"
proof -
  let ?ss = "bh_segsize (buf_hdr h)" and ?sc = "bh_segcount (buf_hdr h)"
  have "unat ?ss * unat ?sc \<le> unat ?ss * 6" using assms(6) by (intro mult_le_mono2) simp
  moreover have "unat ?ss * 6 < 4294967296" using assms(4) by simp
  ultimately have lt: "unat ?ss * unat ?sc < 4294967296" by (rule le_less_trans)
  then have m: "unat (?ss * ?sc) = unat ?ss * unat ?sc" by (rule unat_mult_u32)
  have a: "unat (pl_headroom pool + len) = unat (pl_headroom pool) + unat len"
    using lt fit by (intro unat_add_u32) linarith
  have "unat (?ss * ?sc - (pl_headroom pool + len)) = unat ?ss * unat ?sc - (unat (pl_headroom pool) + unat len)"
    using fit by (subst unat_sub_small) (simp_all add: m a)
  then show ?thesis using assms by (simp add: packet_ok_def packet_init_def)
qed

end
