(* ===== verification/Odp_Pool.thy ===== *)
theory Odp_Pool
  imports Odp_Buffer
begin

text \<open>
  Buffer pools (\<open>odp_pool.c\<close>, \<open>odp_pool_internal.h\<close>): block and buffer free lists, the per-thread
  cache in front of them, allocation, free, flush, creation, lookup and destruction.

  The headers and the blocks live in a heap. A free list is what the code has: a head pointer in
  the pool entry and a next pointer in each node (\<open>next\<close> of \<open>odp_buffer_hdr_t\<close>, the first word of a
  free block, kept here in \<open>blk_next\<close>). The routines that take a pool lock around their list
  update are one step of the model.
\<close>

section \<open>State\<close>

record odp_heap =
  hdrs :: "addr \<Rightarrow> odp_packet_hdr"
  blk_next :: "addr \<Rightarrow> addr"
  mem :: memory

abbreviation bhdr :: "odp_heap \<Rightarrow> addr \<Rightarrow> odp_buffer_hdr" where
  "bhdr hp a \<equiv> buf_hdr (hdrs hp a)"

abbreviation hdr_next :: "odp_heap \<Rightarrow> addr \<Rightarrow> addr" where
  "hdr_next hp \<equiv> (\<lambda>a. bh_next (bhdr hp a))"

definition upd_hdr :: "addr \<Rightarrow> (odp_packet_hdr \<Rightarrow> odp_packet_hdr) \<Rightarrow> odp_heap \<Rightarrow> odp_heap" where
  "upd_hdr a f hp = hp\<lparr>hdrs := (hdrs hp)(a := f (hdrs hp a))\<rparr>"

definition upd_buf :: "addr \<Rightarrow> (odp_buffer_hdr \<Rightarrow> odp_buffer_hdr) \<Rightarrow> odp_heap \<Rightarrow> odp_heap" where
  "upd_buf a f = upd_hdr a (buf_hdr_map f)"

record local_cache =
  lc_freelist :: addr
  lc_bufallocs :: u64
  lc_buffrees :: u64

abbreviation stats_map :: "(odp_pool_stats \<Rightarrow> odp_pool_stats) \<Rightarrow> pool_entry \<Rightarrow> pool_entry" where
  "stats_map f pool \<equiv> pool\<lparr>pl_stats := f (pl_stats pool)\<rparr>"

section \<open>Blocks\<close>

definition get_blk :: "pool_entry \<Rightarrow> odp_heap \<Rightarrow> addr \<times> pool_entry" where
  "get_blk pool hp =
    (let myhead = pl_blk_freelist pool
     in if myhead = NULL
        then (NULL, stats_map (\<lambda>st. st\<lparr>blkempty := blkempty st + 1\<rparr>) pool)
        else (myhead,
              stats_map (\<lambda>st. st\<lparr>blkallocs := blkallocs st + 1\<rparr>)
                (pool\<lparr>pl_blk_freelist := blk_next hp myhead, pl_blkcount := pl_blkcount pool - 1\<rparr>)))"

definition ret_blk :: "pool_entry \<Rightarrow> odp_heap \<Rightarrow> addr \<Rightarrow> pool_entry \<times> odp_heap" where
  "ret_blk pool hp block =
    (stats_map (\<lambda>st. st\<lparr>blkfrees := blkfrees st + 1\<rparr>)
       (pool\<lparr>pl_blk_freelist := block, pl_blkcount := pl_blkcount pool + 1\<rparr>),
     hp\<lparr>blk_next := (blk_next hp)(block := pl_blk_freelist pool)\<rparr>)"

section \<open>Buffers\<close>

definition get_buf :: "nat \<Rightarrow> pool_entry \<Rightarrow> odp_heap \<Rightarrow> addr \<times> pool_entry \<times> odp_heap" where
  "get_buf tid pool hp =
    (let myhead = pl_buf_freelist pool
     in if myhead = NULL
        then (NULL, stats_map (\<lambda>st. st\<lparr>bufempty := bufempty st + 1\<rparr>) pool, hp)
        else
          let bufcount = pl_bufcount pool - 1;
              pool1 = pool\<lparr>pl_buf_freelist := hdr_next hp myhead, pl_bufcount := bufcount\<rparr>;
              pool2 = (if bufcount = pl_low_wm pool1 \<and> \<not> pl_low_wm_assert pool1
                       then stats_map (\<lambda>st. st\<lparr>low_wm_count := low_wm_count st + 1\<rparr>)
                              (pool1\<lparr>pl_low_wm_assert := True\<rparr>)
                       else pool1);
              pool3 = stats_map (\<lambda>st. st\<lparr>bufallocs := bufallocs st + 1\<rparr>) pool2
          in (myhead, pool3, upd_buf myhead (\<lambda>b. b\<lparr>bh_allocator := int tid\<rparr>) hp))"

text \<open>
  The loop that returns the blocks of a buffer, from the last segment down; \<open>n\<close> is the
  \<open>segcount\<close> the loop condition reads. The zeroing of secure pools is compiled out.
\<close>

fun ret_blks :: "nat \<Rightarrow> pool_entry \<Rightarrow> odp_heap \<Rightarrow> addr \<Rightarrow> c_error + (pool_entry \<times> odp_heap)" where
  "ret_blks 0 pool hp buf = Inr (pool, hp)"
| "ret_blks (Suc n) pool hp buf =
    (if \<not> n < length (bh_addr (bhdr hp buf)) then Inl Out_Of_Bounds
     else
       let hp1 = upd_buf buf (\<lambda>b. b\<lparr>bh_segcount := of_nat n\<rparr>) hp;
           (pool2, hp2) = ret_blk pool hp1 (bh_addr (bhdr hp buf) ! n)
       in ret_blks n pool2 hp2 buf)"

definition ret_buf_list :: "pool_entry \<Rightarrow> odp_heap \<Rightarrow> addr \<Rightarrow> pool_entry \<times> odp_heap" where
  "ret_buf_list pool hp buf =
    (let hp1 = upd_buf buf (\<lambda>b. b\<lparr>bh_allocator := ODP_FREEBUF, bh_next := pl_buf_freelist pool\<rparr>) hp;
         bufcount = pl_bufcount pool + 1;
         pool1 = pool\<lparr>pl_buf_freelist := buf, pl_bufcount := bufcount\<rparr>;
         pool2 = (if bufcount = pl_high_wm pool1 \<and> pl_low_wm_assert pool1
                  then stats_map (\<lambda>st. st\<lparr>high_wm_count := high_wm_count st + 1\<rparr>)
                         (pool1\<lparr>pl_low_wm_assert := False\<rparr>)
                  else pool1)
     in (stats_map (\<lambda>st. st\<lparr>buffrees := buffrees st + 1\<rparr>) pool2, hp1))"

definition ret_buf :: "pool_entry \<Rightarrow> odp_heap \<Rightarrow> addr \<Rightarrow> c_error + (pool_entry \<times> odp_heap)" where
  "ret_buf pool hp buf =
    (let b = bhdr hp buf
     in if \<not> bh_hdrdata b \<and> bh_type b \<noteq> ODP_EVENT_BUFFER
        then and_then (ret_blks (unat (bh_segcount b)) pool hp buf)
               (\<lambda>(pool1, hp1). Inr (ret_buf_list pool1 (upd_buf buf (\<lambda>b. b\<lparr>bh_size := 0\<rparr>) hp1) buf))
        else Inr (ret_buf_list pool hp buf))"

text \<open>
  The loop that both allocation paths run to extend a buffer by blocks until \<open>needed\<close> is used
  up. The boolean tells whether the loop ran to its end (\<open>False\<close>: a block was missing).
\<close>

function add_blks :: "addr \<Rightarrow> int \<Rightarrow> pool_entry \<Rightarrow> odp_heap \<Rightarrow> c_error + (bool \<times> pool_entry \<times> odp_heap)" where
  "add_blks buf needed pool hp =
    (let (blk, pool1) = get_blk pool hp;
         i = unat (bh_segcount (bhdr hp buf))
     in if blk = NULL then Inr (False, pool1, hp)
        else if \<not> i < ODP_BUFFER_MAX_SEG then Inl Out_Of_Bounds
        else
          let hp1 = upd_buf buf (\<lambda>b. b\<lparr>bh_addr := (bh_addr b)[i := blk],
                                       bh_segcount := bh_segcount b + 1\<rparr>) hp;
              needed1 = needed - int (unat (pl_seg_size pool))
          in if needed1 > 0 then add_blks buf needed1 pool1 hp1
             else Inr (True, pool1, hp1))"
  by pat_completeness auto
termination
proof (relation "measure (\<lambda>(buf, needed, pool, hp). ODP_BUFFER_MAX_SEG - unat (bh_segcount (bhdr hp buf)))")
  fix buf needed pool hp x xa y xb xc xd
  assume "\<not> \<not> xb < ODP_BUFFER_MAX_SEG" and xb: "xb = unat (bh_segcount (bhdr hp buf))"
    and xc: "xc = upd_buf buf (\<lambda>b. b\<lparr>bh_addr := (bh_addr b)[xb := xa], bh_segcount := bh_segcount b + 1\<rparr>) hp"
  then have lt: "unat (bh_segcount (bhdr hp buf)) < 6" by simp
  then have "unat (bh_segcount (bhdr hp buf) + 1) = unat (bh_segcount (bhdr hp buf)) + 1"
    using unat_add_u32 [of "bh_segcount (bhdr hp buf)" 1] by simp
  then show "((buf, xd, y, xc), buf, needed, pool, hp)
      \<in> measure (\<lambda>(buf, needed, pool, hp). ODP_BUFFER_MAX_SEG - unat (bh_segcount (bhdr hp buf)))"
    using lt by (simp add: xc upd_buf_def upd_hdr_def)
qed simp

declare add_blks.simps [simp del]

definition set_size_segs :: "pool_entry \<Rightarrow> odp_heap \<Rightarrow> addr \<Rightarrow> odp_heap" where
  "set_size_segs pool hp buf = upd_buf buf (\<lambda>b. b\<lparr>bh_size := bh_segcount b * pl_seg_size pool\<rparr>) hp"

section \<open>The per-thread cache\<close>

definition get_local_buf ::
    "nat \<Rightarrow> local_cache \<Rightarrow> pool_entry \<Rightarrow> odp_heap \<Rightarrow> nat
      \<Rightarrow> c_error + (addr \<times> local_cache \<times> pool_entry \<times> odp_heap)" where
  "get_local_buf tid cache pool hp totsize =
    (let buf = lc_freelist cache
     in if buf = NULL then Inr (NULL, cache, pool, hp)
        else
          let cache1 = cache\<lparr>lc_freelist := hdr_next hp buf\<rparr>;
              fin = (\<lambda>pool hp. Inr (buf, cache1\<lparr>lc_bufallocs := lc_bufallocs cache1 + 1\<rparr>, pool,
                                    upd_buf buf (\<lambda>b. b\<lparr>bh_allocator := int tid\<rparr>) hp))
          in if unat (bh_size (bhdr hp buf)) < totsize
             then and_then (add_blks buf (int totsize - uint (bh_size (bhdr hp buf))) pool hp)
               (\<lambda>(ok, pool1, hp1).
                  if ok then fin pool1 (set_size_segs pool1 hp1 buf)
                  else and_then (ret_buf pool1 hp1 buf)
                    (\<lambda>(pool2, hp2). Inr (NULL, cache1\<lparr>lc_buffrees := lc_buffrees cache1 - 1\<rparr>, pool2, hp2)))
             else fin pool hp)"

definition ret_local_buf :: "local_cache \<Rightarrow> odp_heap \<Rightarrow> addr \<Rightarrow> local_cache \<times> odp_heap" where
  "ret_local_buf cache hp buf =
    (cache\<lparr>lc_freelist := buf, lc_buffrees := lc_buffrees cache + 1\<rparr>,
     upd_buf buf (\<lambda>b. b\<lparr>bh_allocator := ODP_FREEBUF, bh_next := lc_freelist cache\<rparr>) hp)"

text \<open>
  The flush loop reads \<open>next\<close> before it returns the buffer. A cyclic cache list would keep it
  running, so \<open>None\<close> is the loop that does not end.
\<close>

partial_function (option) flush_loop ::
    "pool_entry \<Rightarrow> odp_heap \<Rightarrow> addr \<Rightarrow> u32 \<Rightarrow> (c_error + (u32 \<times> pool_entry \<times> odp_heap)) option" where
  "flush_loop pool hp buf count =
    (if buf = NULL then Some (Inr (count, pool, hp))
     else case ret_buf pool hp buf of
            Inl e \<Rightarrow> Some (Inl e)
          | Inr (pool1, hp1) \<Rightarrow> flush_loop pool1 hp1 (hdr_next hp buf) (count + 1))"

definition flush_cache ::
    "local_cache \<Rightarrow> pool_entry \<Rightarrow> odp_heap \<Rightarrow> (c_error + (local_cache \<times> pool_entry \<times> odp_heap)) option" where
  "flush_cache cache pool hp =
    map_option (\<lambda>r. and_then r (\<lambda>(flush_count, pool1, hp1).
        Inr (\<lparr>lc_freelist = NULL, lc_bufallocs = 0, lc_buffrees = 0\<rparr>,
             stats_map (\<lambda>st. st\<lparr>bufallocs := bufallocs st + lc_bufallocs cache,
                                 buffrees := buffrees st + (lc_buffrees cache - ucast flush_count)\<rparr>) pool1,
             hp1)))
      (flush_loop pool hp (lc_freelist cache) 0)"

section \<open>Allocation and free\<close>

text \<open>
  \<open>buffer_alloc\<close> on the pool entry its handle selects: the size test, the local cache, then the
  pool itself, and the initialisation of the header. \<open>None\<close> is \<open>ODP_BUFFER_INVALID\<close>.
\<close>

definition alloc_totsize :: "pool_entry \<Rightarrow> u64 \<Rightarrow> nat" where
  "alloc_totsize pool sz = unat (ucast (pl_headroom pool) + sz + ucast (pl_tailroom pool) :: u64)"

definition alloc_too_big :: "pool_entry \<Rightarrow> nat \<Rightarrow> bool" where
  "alloc_too_big pool totsize \<longleftrightarrow>
    pl_unsegmented pool \<and> totsize > unat (pl_seg_size pool) \<or>
    \<not> pl_unsegmented pool \<and> totsize > unat (pl_seg_size pool * of_nat ODP_BUFFER_MAX_SEG)"

definition alloc_from_pool ::
    "nat \<Rightarrow> pool_entry \<Rightarrow> odp_heap \<Rightarrow> nat \<Rightarrow> c_error + (addr \<times> pool_entry \<times> odp_heap)" where
  "alloc_from_pool tid pool hp totsize =
    (let (buf, pool1, hp1) = get_buf tid pool hp
     in if buf = NULL then Inr (NULL, pool1, hp1)
        else if unat (bh_size (bhdr hp1 buf)) < totsize
        then and_then (add_blks buf (int totsize - uint (bh_size (bhdr hp1 buf))) pool1 hp1)
          (\<lambda>(ok, pool2, hp2).
             if ok then Inr (buf, pool2, set_size_segs pool2 hp2 buf)
             else and_then (ret_buf pool2 hp2 buf) (\<lambda>(pool3, hp3). Inr (NULL, pool3, hp3)))
        else Inr (buf, pool1, hp1))"

definition alloc_finish :: "pool_entry \<Rightarrow> odp_heap \<Rightarrow> addr \<Rightarrow> u64 \<Rightarrow> odp_heap" where
  "alloc_finish pool hp buf sz =
    (let hp1 = upd_buf buf (\<lambda>b. b\<lparr>bh_zeroized := pl_zeroized pool\<rparr>) hp
     in if bh_type (bhdr hp1 buf) = ODP_EVENT_PACKET
        then upd_hdr buf (\<lambda>h. packet_init pool h (ucast sz)) hp1
        else hp1)"

definition buffer_alloc_entry ::
    "nat \<Rightarrow> local_cache \<Rightarrow> pool_entry \<Rightarrow> odp_heap \<Rightarrow> u64
      \<Rightarrow> c_error + (addr option \<times> local_cache \<times> pool_entry \<times> odp_heap)" where
  "buffer_alloc_entry tid cache pool hp sz =
    (let totsize = alloc_totsize pool sz
     in if alloc_too_big pool totsize then Inr (None, cache, pool, hp)
        else and_then (get_local_buf tid cache pool hp totsize)
          (\<lambda>(buf, cache1, pool1, hp1).
             if buf = NULL
             then and_then (alloc_from_pool tid pool1 hp1 totsize)
               (\<lambda>(buf2, pool2, hp2).
                  if buf2 = NULL then Inr (None, cache1, pool2, hp2)
                  else Inr (Some buf2, cache1, pool2, alloc_finish pool2 hp2 buf2 sz))
             else Inr (Some buf, cache1, pool1, alloc_finish pool1 hp1 buf sz)))"

definition buffer_free_entry ::
    "local_cache \<Rightarrow> pool_entry \<Rightarrow> odp_heap \<Rightarrow> addr \<Rightarrow> c_error + (local_cache \<times> pool_entry \<times> odp_heap)" where
  "buffer_free_entry cache pool hp buf =
    (if pl_low_wm_assert pool
     then and_then (ret_buf pool hp buf) (\<lambda>(pool1, hp1). Inr (cache, pool1, hp1))
     else let (cache1, hp1) = ret_local_buf cache hp buf in Inr (cache1, pool, hp1))"

section \<open>Global state and handles\<close>

text \<open>
  The pool table (\<open>pool_entry_ptr[i]\<close> always points to \<open>pool_tbl->pool[i]\<close>), the thread-local
  array of caches, one per thread and pool, and the heap.
\<close>

record odp_state =
  pool_tbl :: "pool_entry list"
  local_caches :: "nat \<Rightarrow> nat \<Rightarrow> local_cache"
  heap :: odp_heap

definition ODP_POOL_INVALID :: u32 where "ODP_POOL_INVALID = 0xffffffff"
definition ODP_POOL_NAME_LEN :: nat where "ODP_POOL_NAME_LEN = 32"

definition pool_index_to_handle :: "u32 \<Rightarrow> u32" where
  "pool_index_to_handle pool_id = pool_id"

definition pool_handle_to_index :: "u32 \<Rightarrow> u32" where
  "pool_handle_to_index pool_hdl = pool_hdl"

definition get_pool_entry :: "odp_state \<Rightarrow> u32 \<Rightarrow> c_error + pool_entry" where
  "get_pool_entry st pool_id =
    (if unat pool_id < length (pool_tbl st) then Inr (pool_tbl st ! unat pool_id) else Inl Out_Of_Bounds)"

definition odp_pool_to_entry :: "odp_state \<Rightarrow> u32 \<Rightarrow> c_error + pool_entry" where
  "odp_pool_to_entry st pool = get_pool_entry st (pool_handle_to_index pool)"

definition odp_buf_to_pool :: "odp_state \<Rightarrow> odp_buffer_hdr \<Rightarrow> c_error + pool_entry" where
  "odp_buf_to_pool st buf = odp_pool_to_entry st (bh_pool_hdl buf)"

definition odp_buffer_pool_segment_size :: "odp_state \<Rightarrow> u32 \<Rightarrow> c_error + u32" where
  "odp_buffer_pool_segment_size st pool = and_then (odp_pool_to_entry st pool) (\<lambda>p. Inr (pl_seg_size p))"

definition odp_buffer_pool_headroom :: "odp_state \<Rightarrow> u32 \<Rightarrow> c_error + u32" where
  "odp_buffer_pool_headroom st pool = and_then (odp_pool_to_entry st pool) (\<lambda>p. Inr (pl_headroom p))"

definition odp_buffer_pool_tailroom :: "odp_state \<Rightarrow> u32 \<Rightarrow> c_error + u32" where
  "odp_buffer_pool_tailroom st pool = and_then (odp_pool_to_entry st pool) (\<lambda>p. Inr (pl_tailroom p))"

text \<open>\<open>odp_buffer_encode_handle\<close>, with the pool entry that the header's pool handle selects.\<close>

definition odp_buffer_encode_handle :: "pool_entry \<Rightarrow> u32 \<Rightarrow> addr \<Rightarrow> u32" where
  "odp_buffer_encode_handle pool pool_id hdr =
    bits_make pool_id (of_int ((hdr - pl_mdata_addr pool) div 64)) 0"

definition odp_hdr_to_buf :: "odp_buffer_hdr \<Rightarrow> u32" where
  "odp_hdr_to_buf hdr = bh_handle hdr"

definition odp_buf_to_hdr :: "odp_state \<Rightarrow> u32 \<Rightarrow> c_error + addr" where
  "odp_buf_to_hdr st buf =
    and_then (get_pool_entry st (bits_pool_id buf))
      (\<lambda>pool. Inr (pl_mdata_addr pool + int (unat (bits_index buf * ODP_CACHE_LINE_SIZE))))"

text \<open>\<open>NULL\<close> stands for an invalid buffer; a stride below one cache line divides by zero.\<close>

definition validate_buf :: "odp_state \<Rightarrow> u32 \<Rightarrow> c_error + addr" where
  "validate_buf st buf =
    (if bits_seg buf \<noteq> 0 \<or> ODP_CONFIG_POOLS \<le> unat (bits_pool_id buf) then Inr NULL
     else and_then (odp_pool_to_entry st (bits_pool_id buf))
       (\<lambda>pool.
          let buf_stride = pl_buf_stride pool div ODP_CACHE_LINE_SIZE
          in if pl_pool_shm pool = ODP_SHM_INVALID then Inr NULL
             else if buf_stride = 0 then Inl Div_By_Zero
             else if bits_index buf mod buf_stride \<noteq> 0 \<or>
                     pp_num (pl_params pool) \<le> bits_index buf div buf_stride then Inr NULL
             else
               let buf_hdr = pl_mdata_addr pool + int (unat (bits_index buf * ODP_CACHE_LINE_SIZE))
               in Inr (if bh_allocator (bhdr (heap st) buf_hdr) = ODP_FREEBUF then NULL else buf_hdr)))"

text \<open>Replacing a pool entry, and the cache of a thread for a pool.\<close>

definition put_pool :: "nat \<Rightarrow> nat \<Rightarrow> local_cache \<Rightarrow> pool_entry \<Rightarrow> odp_heap \<Rightarrow> odp_state \<Rightarrow> odp_state" where
  "put_pool tid i cache pool hp st =
    st\<lparr>pool_tbl := (pool_tbl st)[i := pool],
       local_caches := (local_caches st)(tid := (local_caches st tid)(i := cache)),
       heap := hp\<rparr>"

definition buffer_alloc :: "nat \<Rightarrow> u32 \<Rightarrow> u64 \<Rightarrow> odp_state \<Rightarrow> c_error + (u32 \<times> odp_state)" where
  "buffer_alloc tid pool_hdl sz st =
    (let i = unat (pool_handle_to_index pool_hdl)
     in and_then (get_pool_entry st (pool_handle_to_index pool_hdl))
       (\<lambda>pool. and_then (buffer_alloc_entry tid (local_caches st tid i) pool (heap st) sz)
         (\<lambda>(r, cache, pool1, hp1).
            Inr (case r of None \<Rightarrow> ODP_BUFFER_INVALID | Some a \<Rightarrow> odp_hdr_to_buf (bhdr hp1 a),
                 put_pool tid i cache pool1 hp1 st))))"

definition odp_buffer_alloc :: "nat \<Rightarrow> u32 \<Rightarrow> odp_state \<Rightarrow> c_error + (u32 \<times> odp_state)" where
  "odp_buffer_alloc tid pool_hdl st =
    and_then (odp_pool_to_entry st pool_hdl)
      (\<lambda>pool. buffer_alloc tid pool_hdl (ucast (pp_size_len (pl_params pool))) st)"

definition odp_buffer_free :: "nat \<Rightarrow> u32 \<Rightarrow> odp_state \<Rightarrow> c_error + odp_state" where
  "odp_buffer_free tid buf st =
    and_then (odp_buf_to_hdr st buf)
      (\<lambda>buf_hdr. and_then (odp_buf_to_pool st (bhdr (heap st) buf_hdr))
         (\<lambda>pool.
            let i = unat (pl_pool_id pool)
            in if \<not> i < length (pool_tbl st) then Inl Out_Of_Bounds
               else and_then (buffer_free_entry (local_caches st tid i) pool (heap st) buf_hdr)
                 (\<lambda>(cache, pool1, hp1). Inr (put_pool tid i cache pool1 hp1 st))))"

fun flush_caches_from :: "nat \<Rightarrow> nat list \<Rightarrow> odp_state \<Rightarrow> (c_error + odp_state) option" where
  "flush_caches_from tid [] st = Some (Inr st)"
| "flush_caches_from tid (i # is) st =
    (case get_pool_entry st (of_nat i) of
       Inl e \<Rightarrow> Some (Inl e)
     | Inr pool \<Rightarrow>
         (case flush_cache (local_caches st tid i) pool (heap st) of
            None \<Rightarrow> None
          | Some (Inl e) \<Rightarrow> Some (Inl e)
          | Some (Inr (cache, pool1, hp1)) \<Rightarrow> flush_caches_from tid is (put_pool tid i cache pool1 hp1 st)))"

definition odp_flush_caches :: "nat \<Rightarrow> odp_state \<Rightarrow> (c_error + odp_state) option" where
  "odp_flush_caches tid st = flush_caches_from tid [0..<ODP_CONFIG_POOLS] st"

definition odp_pool_term_local :: "nat \<Rightarrow> odp_state \<Rightarrow> (c_error + (int \<times> odp_state)) option" where
  "odp_pool_term_local tid st =
    map_option (\<lambda>r. and_then r (\<lambda>st1. Inr (0, st1))) (odp_flush_caches tid st)"

definition odp_buffer_pool :: "odp_state \<Rightarrow> u32 \<Rightarrow> c_error + u32" where
  "odp_buffer_pool st buf = and_then (odp_buf_to_hdr st buf) (\<lambda>a. Inr (bh_pool_hdl (bhdr (heap st) a)))"

section \<open>Buffer accessors and events\<close>

definition odp_buffer_addr :: "odp_state \<Rightarrow> u32 \<Rightarrow> c_error + addr" where
  "odp_buffer_addr st buf = and_then (odp_buf_to_hdr st buf) (\<lambda>a. Inr (bh_addr (bhdr (heap st) a) ! 0))"

definition odp_buffer_size :: "odp_state \<Rightarrow> u32 \<Rightarrow> c_error + u32" where
  "odp_buffer_size st buf = and_then (odp_buf_to_hdr st buf) (\<lambda>a. Inr (bh_size (bhdr (heap st) a)))"

definition odp_buffer_type :: "odp_state \<Rightarrow> u32 \<Rightarrow> c_error + int" where
  "odp_buffer_type st buf = and_then (odp_buf_to_hdr st buf) (\<lambda>a. Inr (bh_type (bhdr (heap st) a)))"

definition odp_buffer_is_valid :: "odp_state \<Rightarrow> u32 \<Rightarrow> c_error + bool" where
  "odp_buffer_is_valid st buf = and_then (validate_buf st buf) (\<lambda>a. Inr (a \<noteq> NULL))"

definition odp_buffer_event_type :: "odp_state \<Rightarrow> u32 \<Rightarrow> c_error + int" where
  "odp_buffer_event_type st buf =
    and_then (odp_buf_to_hdr st buf) (\<lambda>a. Inr (bh_event_type (bhdr (heap st) a)))"

definition odp_buffer_event_type_set :: "odp_state \<Rightarrow> u32 \<Rightarrow> int \<Rightarrow> c_error + odp_state" where
  "odp_buffer_event_type_set st buf ev =
    and_then (odp_buf_to_hdr st buf)
      (\<lambda>a. Inr (st\<lparr>heap := upd_buf a (\<lambda>b. b\<lparr>bh_event_type := ev\<rparr>) (heap st)\<rparr>))"

definition odp_event_type :: "odp_state \<Rightarrow> u32 \<Rightarrow> c_error + int" where
  "odp_event_type st event = odp_buffer_event_type st event"

text \<open>
  \<open>odp_packet_free\<close> and \<open>odp_timeout_free\<close> are \<open>odp_buffer_free\<close>; freeing a crypto completion
  only gives the packet its event type back.
\<close>

definition odp_crypto_compl_free :: "u32 \<Rightarrow> odp_state \<Rightarrow> c_error + odp_state" where
  "odp_crypto_compl_free completion_event st =
    odp_buffer_event_type_set st completion_event ODP_EVENT_PACKET"

definition odp_timeout_free :: "nat \<Rightarrow> u32 \<Rightarrow> odp_state \<Rightarrow> c_error + odp_state" where
  "odp_timeout_free tid tmo st = odp_buffer_free tid tmo st"

definition odp_packet_free :: "nat \<Rightarrow> u32 \<Rightarrow> odp_state \<Rightarrow> c_error + odp_state" where
  "odp_packet_free tid pkt st = odp_buffer_free tid pkt st"

definition odp_event_free :: "nat \<Rightarrow> u32 \<Rightarrow> odp_state \<Rightarrow> c_error + odp_state" where
  "odp_event_free tid event st =
    and_then (odp_event_type st event)
      (\<lambda>ty. if ty = ODP_EVENT_BUFFER then odp_buffer_free tid event st
            else if ty = ODP_EVENT_PACKET then odp_packet_free tid event st
            else if ty = ODP_EVENT_TIMEOUT then odp_timeout_free tid event st
            else if ty = ODP_EVENT_CRYPTO_COMPL then odp_crypto_compl_free event st
            else Inl Aborted)"

end
