(* ===== verification/Odp_Pool_Rep.thy ===== *)
theory Odp_Pool_Rep
  imports Odp_Pool "HOL-Library.Multiset"
begin

text \<open>
  The representation invariant of a buffer pool and the proof that the block operations, the
  buffer operations, the thread cache, allocation, free and flush keep it. The abstract view of
  a pool is the set of buffers handed out (\<open>allocated\<close>); blocks are never lost or duplicated
  because the multiset \<open>B\<close> of all blocks is a parameter of the invariant.
\<close>

section \<open>Heap updates\<close>

lemma bhdr_upd_buf [simp]: "bhdr (upd_buf a f hp) x = (if x = a then f (bhdr hp x) else bhdr hp x)"
  by (simp add: upd_buf_def upd_hdr_def)

lemma hdrs_upd_hdr [simp]: "hdrs (upd_hdr a f hp) x = (if x = a then f (hdrs hp x) else hdrs hp x)"
  by (simp add: upd_hdr_def)

lemma upd_buf_frame [simp]: "blk_next (upd_buf a f hp) = blk_next hp" "mem (upd_buf a f hp) = mem hp"
  "blk_next (upd_hdr a g hp) = blk_next hp" "mem (upd_hdr a g hp) = mem hp"
  by (simp_all add: upd_buf_def upd_hdr_def)

section \<open>Representation invariant\<close>

text \<open>
  The headers of a pool, the blocks a header owns, and the facts about a header that never
  change after creation.
\<close>

definition hdr_list :: "pool_entry \<Rightarrow> addr list" where
  "hdr_list pool =
    map (\<lambda>i. pl_mdata_addr pool + int (i * unat (pl_buf_stride pool))) [0..<unat (pl_buf_num pool)]"

definition owned :: "odp_heap \<Rightarrow> addr \<Rightarrow> addr list" where
  "owned hp a = (if bh_hdrdata (bhdr hp a) then []
     else take (unat (bh_segcount (bhdr hp a))) (bh_addr (bhdr hp a)))"

definition hdr_ok :: "pool_entry \<Rightarrow> odp_heap \<Rightarrow> addr \<Rightarrow> bool" where
  "hdr_ok pool hp a \<longleftrightarrow>
    length (bh_addr (bhdr hp a)) = ODP_BUFFER_MAX_SEG \<and>
    unat (bh_segcount (bhdr hp a)) \<le> ODP_BUFFER_MAX_SEG \<and>
    bh_segsize (bhdr hp a) = pl_seg_size pool \<and>
    bh_type (bhdr hp a) = pp_type (pl_params pool) \<and>
    bh_pool_hdl (bhdr hp a) = pl_pool_hdl pool \<and>
    bh_handle (bhdr hp a) = odp_buffer_encode_handle pool (pool_handle_to_index (pl_pool_hdl pool)) a \<and>
    bh_hdrdata (bhdr hp a) = (unat (pl_blk_size pool) \<le> ODP_MAX_INLINE_BUF)"

definition size_ok :: "pool_entry \<Rightarrow> odp_heap \<Rightarrow> addr \<Rightarrow> bool" where
  "size_ok pool hp a \<longleftrightarrow>
    bh_size (bhdr hp a) =
      (if bh_hdrdata (bhdr hp a) then pl_blk_size pool else bh_segcount (bhdr hp a) * pl_seg_size pool)"

text \<open>
  The free lists of a pool: the pool's own (\<open>None\<close>) and the cache of each thread (\<open>Some t\<close>).
\<close>

definition list_heads :: "pool_entry \<Rightarrow> (nat \<Rightarrow> local_cache) \<Rightarrow> nat option \<Rightarrow> addr" where
  "list_heads pool caches i =
    (case i of None \<Rightarrow> pl_buf_freelist pool | Some t \<Rightarrow> lc_freelist (caches t))"

definition free_hdrs :: "(nat option \<Rightarrow> addr list) \<Rightarrow> addr set" where
  "free_hdrs L = (\<Union>i. set (L i))"

text \<open>
  \<open>pool_core\<close>: each free list is represented by \<open>L\<close>, the lists are disjoint and hold headers of
  the pool only, \<open>bl\<close> is the block free list, which \<open>blkcount\<close> counts, and the free blocks together with the blocks the
  headers own are exactly the multiset \<open>B\<close>.
\<close>

definition pool_core ::
    "pool_entry \<Rightarrow> odp_heap \<Rightarrow> (nat option \<Rightarrow> addr) \<Rightarrow> (nat option \<Rightarrow> addr list) \<Rightarrow> addr list
      \<Rightarrow> addr multiset \<Rightarrow> bool" where
  "pool_core pool hp heads L bl B \<longleftrightarrow>
    (\<forall>i. linked (hdr_next hp) (heads i) (L i)) \<and>
    (\<forall>i j. i \<noteq> j \<longrightarrow> set (L i) \<inter> set (L j) = {}) \<and>
    free_hdrs L \<subseteq> set (hdr_list pool) \<and>
    linked (blk_next hp) (pl_blk_freelist pool) bl \<and>
    pl_blkcount pool = of_nat (length bl) \<and>
    mset bl + (\<Sum>a\<in>set (hdr_list pool). mset (owned hp a)) = B \<and>
    (\<forall>a\<in>set (hdr_list pool). hdr_ok pool hp a) \<and>
    NULL \<notin> set (hdr_list pool) \<and> NULL \<notin># B"

text \<open>The fields of a pool entry that no list operation changes.\<close>

definition pool_same :: "pool_entry \<Rightarrow> pool_entry \<Rightarrow> bool" where
  "pool_same p q \<longleftrightarrow>
    pl_mdata_addr p = pl_mdata_addr q \<and> pl_buf_stride p = pl_buf_stride q \<and>
    pl_buf_num p = pl_buf_num q \<and> pl_seg_size p = pl_seg_size q \<and>
    pl_blk_size p = pl_blk_size q \<and> pl_params p = pl_params q \<and>
    pl_pool_hdl p = pl_pool_hdl q \<and> pl_pool_id p = pl_pool_id q \<and>
    pl_pool_shm p = pl_pool_shm q \<and> pl_predefined p = pl_predefined q \<and>
    pl_headroom p = pl_headroom q \<and> pl_tailroom p = pl_tailroom q \<and>
    pl_unsegmented p = pl_unsegmented q \<and> pl_zeroized p = pl_zeroized q \<and>
    pl_high_wm p = pl_high_wm q \<and> pl_low_wm p = pl_low_wm q"

text \<open>What the block operations leave alone as well: everything about the buffer free list.\<close>

definition buf_same :: "pool_entry \<Rightarrow> pool_entry \<Rightarrow> bool" where
  "buf_same p q \<longleftrightarrow> pool_same p q \<and> pl_buf_freelist p = pl_buf_freelist q \<and>
    pl_bufcount p = pl_bufcount q \<and> pl_low_wm_assert p = pl_low_wm_assert q"

lemma buf_same_refl [simp]: "buf_same p p"
  by (simp add: buf_same_def pool_same_def)

lemma buf_same_trans: "buf_same p q \<Longrightarrow> buf_same q r \<Longrightarrow> buf_same p r"
  by (simp add: buf_same_def pool_same_def)

lemma buf_same_pool_same: "buf_same p q \<Longrightarrow> pool_same p q"
  by (simp add: buf_same_def)

lemma pool_same_refl [simp]: "pool_same p p"
  by (simp add: pool_same_def)

lemma pool_same_trans: "pool_same p q \<Longrightarrow> pool_same q r \<Longrightarrow> pool_same p r"
  by (simp add: pool_same_def)

lemma pool_same_hdr_list: "pool_same p q \<Longrightarrow> hdr_list p = hdr_list q"
  by (simp add: pool_same_def hdr_list_def)

lemma pool_same_hdr_ok: "pool_same p q \<Longrightarrow> hdr_ok p = hdr_ok q"
  by (simp add: pool_same_def hdr_ok_def odp_buffer_encode_handle_def fun_eq_iff)

lemma pool_same_size_ok: "pool_same p q \<Longrightarrow> size_ok p = size_ok q"
  by (simp add: pool_same_def size_ok_def fun_eq_iff)

lemmas pool_same_cong = pool_same_hdr_list pool_same_hdr_ok pool_same_size_ok

lemma pool_core_heads_cong:
  "pool_core pool hp heads L bl B \<Longrightarrow> pool_same pool' pool \<Longrightarrow>
    pl_blk_freelist pool' = pl_blk_freelist pool \<Longrightarrow> pl_blkcount pool' = pl_blkcount pool \<Longrightarrow>
    pool_core pool' hp heads L bl B"
  by (simp add: pool_core_def pool_same_cong)

lemma owned_upd_other: "x \<noteq> a \<Longrightarrow> owned (upd_buf a f hp) x = owned hp x"
  by (simp add: owned_def)

lemma owned_heap_cong: "hdrs hp' = hdrs hp \<Longrightarrow> owned hp' = owned hp"
  by (simp add: owned_def fun_eq_iff)

lemma sum_owned_upd:
  assumes "a \<in> set hs"
  shows "(\<Sum>x\<in>set hs. mset (owned (upd_buf a f hp) x)) + mset (owned hp a) =
    (\<Sum>x\<in>set hs. mset (owned hp x)) + mset (owned (upd_buf a f hp) a)"
proof -
  have "(\<Sum>x\<in>set hs - {a}. mset (owned (upd_buf a f hp) x)) = (\<Sum>x\<in>set hs - {a}. mset (owned hp x))"
    by (rule sum.cong) (auto simp: owned_upd_other)
  then show ?thesis using assms by (simp add: sum.remove [of "set hs" a])
qed

text \<open>An update of a header that keeps its next pointer and its blocks keeps the invariant.\<close>

lemma pool_core_upd_hdr:
  assumes "pool_core pool hp heads L bl B"
    and "\<And>b. bh_next (f b) = bh_next b" "owned (upd_buf a f hp) a = owned hp a"
    and "a \<in> set (hdr_list pool) \<Longrightarrow> hdr_ok pool hp a \<Longrightarrow> hdr_ok pool (upd_buf a f hp) a"
  shows "pool_core pool (upd_buf a f hp) heads L bl B"
proof -
  have nx: "hdr_next (upd_buf a f hp) = hdr_next hp" by (auto simp: assms(2) fun_eq_iff)
  have ow: "owned (upd_buf a f hp) = owned hp"
    using assms(3) owned_upd_other by (metis ext)
  have hk: "x \<in> set (hdr_list pool) \<Longrightarrow> hdr_ok pool hp x \<Longrightarrow> hdr_ok pool (upd_buf a f hp) x" for x
    by (cases "x = a") (use assms(4) in \<open>simp_all add: hdr_ok_def\<close>)
  show ?thesis using assms(1) hk unfolding pool_core_def nx ow by auto
qed

lemma free_hdrs_upd: "free_hdrs (L(i := xs)) = (\<Union>j\<in>-{i}. set (L j)) \<union> set xs"
  by (auto simp: free_hdrs_def split: if_splits)

text \<open>Taking the first header off a free list, and putting a header at its front.\<close>

lemma pool_core_pop:
  assumes c: "pool_core pool hp heads L bl B" and Li: "L i = a # xs"
  shows "pool_core pool hp (heads(i := hdr_next hp a)) (L(i := xs)) bl B"
    and "heads i = a" "a \<in> set (hdr_list pool)" "a \<noteq> NULL"
    and "free_hdrs (L(i := xs)) = free_hdrs L - {a}"
proof -
  have l: "linked (hdr_next hp) (heads i) (a # xs)" using c Li unfolding pool_core_def by metis
  then show "heads i = a" "a \<noteq> NULL" by auto
  have d: "a \<notin> set xs" using linked_distinct [OF l] by simp
  have nj: "a \<notin> set (L j)" if "j \<noteq> i" for j
    using c that Li unfolding pool_core_def by (metis disjoint_iff list.set_intros(1))
  have "free_hdrs L = (\<Union>j\<in>-{i}. set (L j)) \<union> set (a # xs)"
    using free_hdrs_upd [of L i "a # xs"] Li by (metis fun_upd_triv)
  then show fr: "free_hdrs (L(i := xs)) = free_hdrs L - {a}"
    using d nj by (auto simp: free_hdrs_upd)
  have "a \<in> set (L i)" by (simp add: Li)
  then have "a \<in> free_hdrs L" unfolding free_hdrs_def by blast
  then show "a \<in> set (hdr_list pool)" using c by (auto simp: pool_core_def)
  have dis: "\<forall>j k. j \<noteq> k \<longrightarrow> set ((L(i := xs)) j) \<inter> set ((L(i := xs)) k) = {}"
  proof (intro allI impI)
    fix j k :: "nat option" assume "j \<noteq> k"
    then have "set (L j) \<inter> set (L k) = {}" using c by (simp add: pool_core_def)
    then show "set ((L(i := xs)) j) \<inter> set ((L(i := xs)) k) = {}" using Li by auto
  qed
  show "pool_core pool hp (heads(i := hdr_next hp a)) (L(i := xs)) bl B"
    using c l dis fr unfolding pool_core_def by auto
qed

lemma pool_core_push:
  assumes c: "pool_core pool hp heads L bl B" and a: "a \<in> set (hdr_list pool)" "a \<notin> free_hdrs L"
    and f: "\<And>b. bh_next (f b) = heads i" "owned (upd_buf a f hp) a = owned hp a"
      "hdr_ok pool hp a \<Longrightarrow> hdr_ok pool (upd_buf a f hp) a"
  shows "pool_core pool (upd_buf a f hp) (heads(i := a)) (L(i := a # L i)) bl B"
    and "free_hdrs (L(i := a # L i)) = insert a (free_hdrs L)"
proof -
  have na: "a \<notin> set (L j)" for j using a(2) by (auto simp: free_hdrs_def)
  have nn: "a \<noteq> NULL" using c a(1) by (auto simp: pool_core_def)
  have nx: "hdr_next (upd_buf a f hp) = (hdr_next hp)(a := heads i)" by (auto simp: f(1) fun_eq_iff)
  have ow: "owned (upd_buf a f hp) = owned hp" using f(2) owned_upd_other by (metis ext)
  have hk: "hdr_ok pool hp x \<Longrightarrow> hdr_ok pool (upd_buf a f hp) x" for x
    by (cases "x = a") (use f(3) in \<open>simp_all add: hdr_ok_def\<close>)
  show fr: "free_hdrs (L(i := a # L i)) = insert a (free_hdrs L)"
    by (auto simp: free_hdrs_def split: if_splits)
  have lk: "\<forall>j. linked (hdr_next (upd_buf a f hp)) ((heads(i := a)) j) ((L(i := a # L i)) j)"
    using c na nn unfolding nx pool_core_def by (simp add: linked_fun_upd)
  have dis: "\<forall>j k. j \<noteq> k \<longrightarrow> set ((L(i := a # L i)) j) \<inter> set ((L(i := a # L i)) k) = {}"
    using c na by (auto simp: pool_core_def)
  show "pool_core pool (upd_buf a f hp) (heads(i := a)) (L(i := a # L i)) bl B"
    using c lk dis fr a(1) hk unfolding pool_core_def ow by auto
qed

section \<open>Block operations keep the invariant\<close>

lemma get_blk_core:
  assumes c: "pool_core pool hp heads L bl B"
  obtains (empty) pool' where "get_blk pool hp = (NULL, pool')" "bl = []"
      "buf_same pool' pool" "pool_core pool' hp heads L bl B"
  | (got) pool' b bl' where "get_blk pool hp = (b, pool')" "bl = b # bl'" "b \<noteq> NULL"
      "buf_same pool' pool" "pool_core pool' hp heads L bl' (B - {#b#})" "b \<in># B"
proof (cases "pl_blk_freelist pool = NULL")
  case True
  then have "bl = []" using c by (simp add: pool_core_def)
  define p where "p = snd (get_blk pool hp)"
  have same: "buf_same p pool" "pl_blk_freelist p = pl_blk_freelist pool" "pl_blkcount p = pl_blkcount pool"
    using True by (simp_all add: p_def get_blk_def Let_def buf_same_def pool_same_def)
  have "pool_core p hp heads L bl B"
    by (rule pool_core_heads_cong [OF c buf_same_pool_same [OF same(1)] same(2,3)])
  then show thesis
    using True same \<open>bl = []\<close> by (intro empty [of p]) (auto simp: p_def get_blk_def Let_def)
next
  case False
  then obtain bl' where bl: "bl = pl_blk_freelist pool # bl'"
      "linked (blk_next hp) (blk_next hp (pl_blk_freelist pool)) bl'"
    using c by (auto simp: pool_core_def linked_nonNULL)
  define p where "p = snd (get_blk pool hp)"
  have same: "buf_same p pool" "pl_blk_freelist p = blk_next hp (pl_blk_freelist pool)"
      "pl_blkcount p = pl_blkcount pool - 1"
    using False by (simp_all add: p_def get_blk_def Let_def buf_same_def pool_same_def)
  have "pool_core p hp heads L bl' (B - {#pl_blk_freelist pool#})"
    using c bl unfolding pool_core_def
    by (auto simp: pool_same_cong [OF buf_same_pool_same [OF same(1)]] same dest: in_diffD)
  then show thesis
    using bl False c same
    by (intro got [of "pl_blk_freelist pool" p bl'])
       (auto simp: p_def get_blk_def Let_def pool_core_def)
qed

lemma ret_blk_core:
  assumes c: "pool_core pool hp heads L bl B" and b: "b \<noteq> NULL" "b \<notin> set bl"
    and r: "ret_blk pool hp b = (pool', hp')"
  shows "pool_core pool' hp' heads L (b # bl) (add_mset b B)"
    and "buf_same pool' pool" "hdrs hp' = hdrs hp" "mem hp' = mem hp"
proof -
  show s: "buf_same pool' pool" and h: "hdrs hp' = hdrs hp" and "mem hp' = mem hp"
    using r by (auto simp: ret_blk_def buf_same_def pool_same_def)
  have bf: "pl_blk_freelist pool' = b" "blk_next hp' = (blk_next hp)(b := pl_blk_freelist pool)"
      "pl_blkcount pool' = pl_blkcount pool + 1"
    using r by (auto simp: ret_blk_def)
  have ho: "hdr_ok pool hp' = hdr_ok pool hp" by (simp add: hdr_ok_def fun_eq_iff h)
  show "pool_core pool' hp' heads L (b # bl) (add_mset b B)"
    using c b unfolding pool_core_def
    by (simp add: bf h pool_same_cong [OF buf_same_pool_same [OF s]] owned_heap_cong [OF h] linked_fun_upd ho)
qed

text \<open>Moving a block from no list to a header, and back.\<close>

definition attach :: "addr \<Rightarrow> odp_buffer_hdr \<Rightarrow> odp_buffer_hdr" where
  "attach blk b = b\<lparr>bh_addr := (bh_addr b)[unat (bh_segcount b) := blk], bh_segcount := bh_segcount b + 1\<rparr>"

lemma attach_core:
  assumes c: "pool_core pool hp heads L bl B" and a: "a \<in> set (hdr_list pool)"
    and s: "unat (bh_segcount (bhdr hp a)) < ODP_BUFFER_MAX_SEG" "\<not> bh_hdrdata (bhdr hp a)"
    and blk: "blk \<noteq> NULL"
  shows "pool_core pool (upd_buf a (attach blk) hp) heads L bl (add_mset blk B)"
    and "unat (bh_segcount (bhdr (upd_buf a (attach blk) hp) a)) = Suc (unat (bh_segcount (bhdr hp a)))"
proof -
  let ?hp = "upd_buf a (attach blk) hp" and ?n = "unat (bh_segcount (bhdr hp a))"
  have ok: "hdr_ok pool hp a" using c a by (simp add: pool_core_def)
  show n1: "unat (bh_segcount (bhdr ?hp a)) = Suc ?n"
    using s unat_add_u32 [of "bh_segcount (bhdr hp a)" 1] by (simp add: attach_def)
  have ow: "owned ?hp a = owned hp a @ [blk]"
    using s ok n1 by (simp add: owned_def attach_def hdr_ok_def take_Suc_update)
  have sum: "(\<Sum>x\<in>set (hdr_list pool). mset (owned ?hp x)) =
      add_mset blk (\<Sum>x\<in>set (hdr_list pool). mset (owned hp x))"
    using sum_owned_upd [OF a, of "attach blk" hp] unfolding ow by simp
  have ok': "hdr_ok pool ?hp x" if "x \<in> set (hdr_list pool)" for x
    using c that s n1 ok by (cases "x = a") (auto simp: pool_core_def hdr_ok_def attach_def)
  have nx: "hdr_next ?hp = hdr_next hp" by (auto simp: fun_eq_iff attach_def)
  show "pool_core pool ?hp heads L bl (add_mset blk B)"
    using c blk ok' unfolding pool_core_def nx sum by simp
qed

lemma detach_core:
  assumes c: "pool_core pool hp heads L bl B" and a: "a \<in> set (hdr_list pool)"
    and s: "unat (bh_segcount (bhdr hp a)) = Suc n" "\<not> bh_hdrdata (bhdr hp a)"
  shows "pool_core pool (upd_buf a (\<lambda>b. b\<lparr>bh_segcount := of_nat n\<rparr>) hp) heads L bl
      (B - {#bh_addr (bhdr hp a) ! n#})"
    and "bh_addr (bhdr hp a) ! n \<in># B" "n < length (bh_addr (bhdr hp a))"
    and "unat (of_nat n :: u32) = n"
    and "count B (bh_addr (bhdr hp a) ! n) \<le> 1 \<Longrightarrow> bh_addr (bhdr hp a) ! n \<notin> set bl"
proof -
  let ?f = "\<lambda>b. b\<lparr>bh_segcount := of_nat n\<rparr>" let ?hp = "upd_buf a ?f hp"
  let ?blk = "bh_addr (bhdr hp a) ! n"
  have ok: "hdr_ok pool hp a" using c a by (simp add: pool_core_def)
  then have n6: "n < 6" and len: "length (bh_addr (bhdr hp a)) = 6"
    using s by (auto simp: hdr_ok_def)
  show nl: "n < length (bh_addr (bhdr hp a))" using n6 len by simp
  show un: "unat (of_nat n :: u32) = n" using n6 by (intro unat_of_nat_small) simp
  have ow: "owned hp a = owned ?hp a @ [?blk]"
    using s nl un by (simp add: owned_def take_Suc_conv_app_nth)
  have sum: "(\<Sum>x\<in>set (hdr_list pool). mset (owned hp x)) =
      add_mset ?blk (\<Sum>x\<in>set (hdr_list pool). mset (owned ?hp x))"
    using sum_owned_upd [OF a, of ?f hp] unfolding ow by simp
  have B: "B = add_mset ?blk (mset bl + (\<Sum>x\<in>set (hdr_list pool). mset (owned ?hp x)))"
    using c by (simp add: pool_core_def sum)
  then show "?blk \<in># B" by simp
  have "count B ?blk = Suc (count (mset bl) ?blk + count (\<Sum>x\<in>set (hdr_list pool). mset (owned ?hp x)) ?blk)"
    by (subst B) simp
  then show "count B ?blk \<le> 1 \<Longrightarrow> ?blk \<notin> set bl" by (simp add: count_mset_0_iff)
  have ok': "hdr_ok pool ?hp x" if "x \<in> set (hdr_list pool)" for x
    using c that s un ok n6 by (cases "x = a") (auto simp: pool_core_def hdr_ok_def)
  have nx: "hdr_next ?hp = hdr_next hp" by (auto simp: fun_eq_iff)
  show "pool_core pool ?hp heads L bl (B - {#?blk#})"
    using c ok' B unfolding pool_core_def nx by (auto dest: in_diffD)
qed

section \<open>The block loops\<close>

lemma ret_blks_core:
  assumes "pool_core pool hp heads L bl B" and "a \<in> set (hdr_list pool)"
    and "unat (bh_segcount (bhdr hp a)) = n" "\<not> bh_hdrdata (bhdr hp a)"
    and "\<forall>x. count B x \<le> 1"
  shows "\<exists>pool' hp' bl'. ret_blks n pool hp a = Inr (pool', hp') \<and>
    pool_core pool' hp' heads L bl' B \<and> buf_same pool' pool \<and> length bl' = length bl + n \<and>
    (\<forall>x. x \<noteq> a \<longrightarrow> hdrs hp' x = hdrs hp x) \<and>
    bhdr hp' a = (bhdr hp a)\<lparr>bh_segcount := 0\<rparr> \<and> mem hp' = mem hp"
  using assms
proof (induction n arbitrary: pool hp bl)
  case 0
  then have "bhdr hp a = (bhdr hp a)\<lparr>bh_segcount := 0\<rparr>" by (simp add: unat_eq_0)
  with 0 show ?case by auto
next
  case (Suc n)
  let ?hp1 = "upd_buf a (\<lambda>b. b\<lparr>bh_segcount := of_nat n\<rparr>) hp" and ?blk = "bh_addr (bhdr hp a) ! n"
  note d = detach_core [OF Suc.prems(1-4)]
  obtain pool2 hp2 where r: "ret_blk pool ?hp1 ?blk = (pool2, hp2)" by (metis surj_pair)
  have "?blk \<noteq> NULL" using d(2) Suc.prems(1) by (auto simp: pool_core_def)
  moreover have "?blk \<notin> set bl" using d(5) Suc.prems(5) by blast
  ultimately have rb: "pool_core pool2 hp2 heads L (?blk # bl) (add_mset ?blk (B - {#?blk#}))"
    "buf_same pool2 pool" "hdrs hp2 = hdrs ?hp1" "mem hp2 = mem ?hp1"
    using ret_blk_core [OF d(1) _ _ r] by auto
  have "add_mset ?blk (B - {#?blk#}) = B" using d(2) by simp
  then have c2: "pool_core pool2 hp2 heads L (?blk # bl) B" using rb(1) by simp
  have hl: "hdr_list pool2 = hdr_list pool"
    by (rule pool_same_hdr_list [OF buf_same_pool_same [OF rb(2)]])
  obtain pool' hp' bl' where IH: "ret_blks n pool2 hp2 a = Inr (pool', hp')"
    "pool_core pool' hp' heads L bl' B" "buf_same pool' pool2" "length bl' = length (?blk # bl) + n"
    "\<forall>x. x \<noteq> a \<longrightarrow> hdrs hp' x = hdrs hp2 x"
    "bhdr hp' a = (bhdr hp2 a)\<lparr>bh_segcount := 0\<rparr>" "mem hp' = mem hp2"
    using Suc.IH [OF c2] Suc.prems d(4) hl rb(3) by auto
  have "ret_blks (Suc n) pool hp a = Inr (pool', hp')" using d(3) r IH(1) by simp
  then show ?case
    using IH rb buf_same_trans [OF IH(3) rb(2)] by (auto simp: upd_buf_def)
qed

text \<open>
  What a run of the block loop does to header \<open>a\<close>: only its block list grows, by as many blocks as
  the free list loses, and it grows until \<open>needed\<close> more bytes fit or the free list is empty.
\<close>

definition capacity :: "pool_entry \<Rightarrow> odp_heap \<Rightarrow> addr \<Rightarrow> nat" where
  "capacity pool hp a = unat (bh_segcount (bhdr hp a)) * unat (pl_seg_size pool)"

lemma capacity_attach:
  "unat (bh_segcount (bhdr hp a)) < ODP_BUFFER_MAX_SEG \<Longrightarrow>
    capacity pool (upd_buf a (attach b) hp) a = capacity pool hp a + unat (pl_seg_size pool)"
  using unat_add_u32 [of "bh_segcount (bhdr hp a)" 1] by (simp add: capacity_def attach_def)

definition extended ::
    "addr \<Rightarrow> int \<Rightarrow> pool_entry \<Rightarrow> odp_heap \<Rightarrow> addr list \<Rightarrow> bool \<Rightarrow> pool_entry \<Rightarrow> odp_heap \<Rightarrow> addr list \<Rightarrow> bool" where
  "extended a needed pool hp bl ok pool' hp' bl' \<longleftrightarrow>
    buf_same pool' pool \<and> mem hp' = mem hp \<and>
    (\<forall>x. x \<noteq> a \<longrightarrow> hdrs hp' x = hdrs hp x) \<and>
    (\<exists>ad sc. bhdr hp' a = (bhdr hp a)\<lparr>bh_addr := ad, bh_segcount := sc\<rparr>) \<and>
    length bl + unat (bh_segcount (bhdr hp a)) = length bl' + unat (bh_segcount (bhdr hp' a)) \<and>
    (if ok then int (capacity pool hp a) + needed \<le> int (capacity pool hp' a)
     else bl' = [] \<and> int (capacity pool hp' a) < int (capacity pool hp a) + needed)"

lemma extended_attach:
  assumes "extended a (needed - int (unat (pl_seg_size pool))) pool1 (upd_buf a (attach b) hp) bl ok pool' hp' bl'"
    and "buf_same pool1 pool" "unat (bh_segcount (bhdr hp a)) < ODP_BUFFER_MAX_SEG"
  shows "extended a needed pool hp (b # bl) ok pool' hp' bl'"
proof -
  let ?hp1 = "upd_buf a (attach b) hp"
  have n1: "unat (bh_segcount (bhdr ?hp1 a)) = Suc (unat (bh_segcount (bhdr hp a)))"
    using assms(3) unat_add_u32 [of "bh_segcount (bhdr hp a)" 1] by (simp add: attach_def)
  have cap: "capacity pool1 h x = capacity pool h x" for h x
    using assms(2) by (simp add: capacity_def buf_same_def pool_same_def)
  have seg: "pl_seg_size pool1 = pl_seg_size pool" using assms(2) by (simp add: buf_same_def pool_same_def)
  obtain ad sc where *: "bhdr hp' a = (attach b (bhdr hp a))\<lparr>bh_addr := ad, bh_segcount := sc\<rparr>"
    using assms(1) by (auto simp: extended_def)
  then have ex: "\<exists>ad sc. bhdr hp' a = (bhdr hp a)\<lparr>bh_addr := ad, bh_segcount := sc\<rparr>"
    by (auto simp: attach_def)
  have fr: "\<forall>x. x \<noteq> a \<longrightarrow> hdrs ?hp1 x = hdrs hp x" by (simp add: upd_buf_def)
  from assms(1) have
    "buf_same pool' pool1" "mem hp' = mem hp" "\<forall>x. x \<noteq> a \<longrightarrow> hdrs hp' x = hdrs hp x"
    "length bl + Suc (unat (bh_segcount (bhdr hp a))) = length bl' + unat (bh_segcount (bhdr hp' a))"
    "if ok then int (capacity pool hp a) + needed \<le> int (capacity pool hp' a)
     else bl' = [] \<and> int (capacity pool hp' a) < int (capacity pool hp a) + needed"
    unfolding extended_def n1 cap capacity_attach [OF assms(3)] seg using fr by (simp_all split: if_splits)
  with ex assms(2) show ?thesis by (auto simp: extended_def intro: buf_same_trans)
qed

lemma extended_refl: 
  "(if ok then needed \<le> 0 else bl = [] \<and> 0 < needed) \<Longrightarrow> buf_same pool' pool \<Longrightarrow>
    extended a needed pool hp bl ok pool' hp bl"
  unfolding extended_def
  by (auto split: if_splits intro!: exI [of _ "bh_addr (bhdr hp a)"] exI [of _ "bh_segcount (bhdr hp a)"])

lemma add_blks_core:
  assumes "pool_core pool hp heads L bl B" and "a \<in> set (hdr_list pool)"
    and "\<not> bh_hdrdata (bhdr hp a)"
    and "0 < pl_seg_size pool" "0 < needed"
    and "int (capacity pool hp a) + needed \<le> int (ODP_BUFFER_MAX_SEG * unat (pl_seg_size pool))"
  shows "\<exists>ok pool' hp' bl'. add_blks a needed pool hp = Inr (ok, pool', hp') \<and>
    pool_core pool' hp' heads L bl' B \<and> extended a needed pool hp bl ok pool' hp' bl'"
  using assms
proof (induction "ODP_BUFFER_MAX_SEG - unat (bh_segcount (bhdr hp a))" arbitrary: needed pool hp bl
    rule: less_induct)
  case less
  note prems = less.prems
  let ?n = "unat (bh_segcount (bhdr hp a))" and ?ss = "unat (pl_seg_size pool)"
  from prems(1) show ?case
  proof (cases rule: get_blk_core)
    case (empty pool')
    have "add_blks a needed pool hp = Inr (False, pool', hp)"
      by (subst add_blks.simps) (simp add: empty(1))
    moreover have "extended a needed pool hp bl False pool' hp bl"
      using empty(2,3) prems(5) by (intro extended_refl) auto
    ultimately show ?thesis using empty(4) by blast
  next
    case (got pool' b bl')
    have "int (capacity pool hp a) < int (ODP_BUFFER_MAX_SEG * ?ss)" using prems(5,6) by linarith
    then have "capacity pool hp a < ODP_BUFFER_MAX_SEG * ?ss" by (rule of_nat_less_iff [THEN iffD1])
    then have n6: "?n < ODP_BUFFER_MAX_SEG" unfolding capacity_def by (rule mult_less_cancel2 [THEN iffD1, THEN conjunct2])
    let ?hp1 = "upd_buf a (attach b) hp"
    have pc: "pool_same pool' pool" by (rule buf_same_pool_same [OF got(4)])
    have hl: "hdr_list pool' = hdr_list pool" by (rule pool_same_hdr_list [OF pc])
    have seg: "pl_seg_size pool' = pl_seg_size pool" using pc by (simp add: pool_same_def)
    have a': "a \<in> set (hdr_list pool')" using prems(2) hl by simp
    note at = attach_core [OF got(5) a' n6 prems(3) got(3)]
    have c1: "pool_core pool' ?hp1 heads L bl' B" using at(1) got(6) by simp
    have hp1: "upd_buf a (\<lambda>c. c\<lparr>bh_addr := (bh_addr c)[?n := b], bh_segcount := bh_segcount c + 1\<rparr>) hp = ?hp1"
      by (simp add: upd_buf_def upd_hdr_def attach_def)
    have step: "add_blks a needed pool hp =
        (if needed - int ?ss > 0 then add_blks a (needed - int ?ss) pool' ?hp1 else Inr (True, pool', ?hp1))"
      using n6 got(3) by (subst add_blks.simps) (simp add: got(1) hp1)
    show ?thesis
    proof (cases "needed - int ?ss > 0")
      case False
      then have "extended a (needed - int ?ss) pool' ?hp1 bl' True pool' ?hp1 bl'"
        by (intro extended_refl) auto
      then have "extended a needed pool hp bl True pool' ?hp1 bl'"
        unfolding got(2) by (rule extended_attach [OF _ got(4) n6])
      moreover have "add_blks a needed pool hp = Inr (True, pool', ?hp1)"
        using False unfolding step by (rule if_not_P)
      ultimately show ?thesis using c1 by blast
    next
      case True
      have hd1: "\<not> bh_hdrdata (bhdr ?hp1 a)" using prems(3) by (simp add: attach_def)
      have cap: "int (capacity pool' ?hp1 a) + (needed - int ?ss) \<le> int (ODP_BUFFER_MAX_SEG * unat (pl_seg_size pool'))"
        using prems(6) unfolding capacity_attach [OF n6] seg by (simp add: capacity_def seg)
      obtain ok pool2 hp2 bl2 where r: "add_blks a (needed - int ?ss) pool' ?hp1 = Inr (ok, pool2, hp2)"
        and c2: "pool_core pool2 hp2 heads L bl2 B" and e: "extended a (needed - int ?ss) pool' ?hp1 bl' ok pool2 hp2 bl2"
        using less.hyps [OF _ c1 a' hd1 _ True cap] prems(4) n6 at(2) seg
        by (metis diff_less_mono2 lessI)
      have "extended a needed pool hp bl ok pool2 hp2 bl2"
        using e unfolding got(2) by (rule extended_attach [OF _ got(4) n6])
      moreover have "add_blks a needed pool hp = Inr (ok, pool2, hp2)"
        unfolding step if_P [OF True] by (rule r)
      ultimately show ?thesis using c2 by blast
    qed
  qed
qed

section \<open>The pool invariant\<close>

text \<open>
  What creation establishes of the static fields: an unsegmented pool has one block per buffer,
  data kept in the header only occurs there, and the largest buffer size fits in 32 bits.
\<close>

definition pool_shape :: "pool_entry \<Rightarrow> bool" where
  "pool_shape pool \<longleftrightarrow>
    ODP_BUFFER_MAX_SEG * unat (pl_seg_size pool) < 2 ^ 32 \<and>
    (pp_type (pl_params pool) = ODP_POOL_BUFFER \<longrightarrow> pl_unsegmented pool) \<and>
    (pp_type (pl_params pool) = ODP_POOL_PACKET \<longrightarrow> \<not> pl_unsegmented pool \<and> 0 < pl_headroom pool) \<and>
    (unat (pl_blk_size pool) \<le> ODP_MAX_INLINE_BUF \<longrightarrow>
      pl_unsegmented pool \<and> pl_seg_size pool = pl_blk_size pool)"

text \<open>
  \<open>pool_rep X\<close>: the full representation, except that the size field and the allocator mark of
  the headers in \<open>X\<close> are in the course of being updated.
\<close>

definition pool_rep ::
    "addr set \<Rightarrow> pool_entry \<Rightarrow> odp_heap \<Rightarrow> (nat \<Rightarrow> local_cache) \<Rightarrow> (nat option \<Rightarrow> addr list) \<Rightarrow> addr list
      \<Rightarrow> addr multiset \<Rightarrow> bool" where
  "pool_rep X pool hp caches L bl B \<longleftrightarrow>
    pool_core pool hp (list_heads pool caches) L bl B \<and> pool_shape pool \<and>
    (\<forall>x. count B x \<le> 1) \<and> pl_bufcount pool = of_nat (length (L None)) \<and>
    (\<forall>x\<in>set (hdr_list pool) - X. size_ok pool hp x \<and>
      (bh_allocator (bhdr hp x) = ODP_FREEBUF \<longleftrightarrow> x \<in> free_hdrs L))"

definition pool_inv :: "pool_entry \<Rightarrow> odp_heap \<Rightarrow> (nat \<Rightarrow> local_cache) \<Rightarrow> addr multiset \<Rightarrow> bool" where
  "pool_inv pool hp caches B \<longleftrightarrow> (\<exists>L bl. pool_rep {} pool hp caches L bl B)"

text \<open>The abstract view of a pool: the set of buffers handed out.\<close>

definition allocated :: "pool_entry \<Rightarrow> odp_heap \<Rightarrow> addr set" where
  "allocated pool hp = {a \<in> set (hdr_list pool). bh_allocator (bhdr hp a) \<noteq> ODP_FREEBUF}"

lemma allocated_rep:
  "pool_rep {} pool hp caches L bl B \<Longrightarrow> allocated pool hp = set (hdr_list pool) - free_hdrs L"
  by (auto simp: pool_rep_def allocated_def)

lemma list_heads_cache [simp]:
  "list_heads pool (caches(t := c)) = (list_heads pool caches)(Some t := lc_freelist c)"
  by (auto simp: list_heads_def fun_eq_iff split: option.splits)

lemma list_heads_pool:
  "list_heads pool' caches = (list_heads pool caches)(None := pl_buf_freelist pool')"
  by (auto simp: list_heads_def fun_eq_iff split: option.splits)

lemma list_heads_simps [simp]:
  "list_heads pool caches None = pl_buf_freelist pool" "list_heads pool caches (Some t) = lc_freelist (caches t)"
  by (simp_all add: list_heads_def)

lemma pool_shape_cong: "pool_same p q \<Longrightarrow> pool_shape p = pool_shape q"
  by (simp add: pool_same_def pool_shape_def)

lemma pool_rep_coreD:
  assumes "pool_rep X pool hp caches L bl B"
  shows "pool_core pool hp (list_heads pool caches) L bl B" "pool_shape pool"
    and "\<forall>x. count B x \<le> 1" "pl_bufcount pool = of_nat (length (L None))"
    and "x \<in> set (hdr_list pool) \<Longrightarrow> x \<notin> X \<Longrightarrow> size_ok pool hp x"
    and "x \<in> set (hdr_list pool) \<Longrightarrow> x \<notin> X \<Longrightarrow>
      bh_allocator (bhdr hp x) = ODP_FREEBUF \<longleftrightarrow> x \<in> free_hdrs L"
  using assms by (simp_all add: pool_rep_def)

text \<open>A step that only touches header \<open>a\<close> and the blocks keeps the rest of the representation.\<close>

lemma pool_rep_but:
  assumes r: "pool_rep X pool hp caches L bl B"
    and c: "pool_core pool' hp' (list_heads pool caches) L bl' B" and s: "buf_same pool' pool"
    and h: "\<forall>x. x \<noteq> a \<longrightarrow> hdrs hp' x = hdrs hp x"
  shows "pool_rep (insert a X) pool' hp' caches L bl' B"
proof -
  have s': "pool_same pool' pool" "pl_buf_freelist pool' = pl_buf_freelist pool"
    "pl_bufcount pool' = pl_bufcount pool" using s by (simp_all add: buf_same_def)
  then have "list_heads pool' caches = list_heads pool caches" by (auto simp: list_heads_def fun_eq_iff split: option.splits)
  then show ?thesis
    using r c h s' unfolding pool_rep_def pool_same_cong [OF s'(1)] pool_shape_cong [OF s'(1)]
    by (auto simp: size_ok_def)
qed

lemma pool_rep_settle:
  assumes r: "pool_rep (insert a X) pool hp caches L bl B"
    and "a \<in> set (hdr_list pool) \<Longrightarrow> size_ok pool hp a \<and> (bh_allocator (bhdr hp a) = ODP_FREEBUF \<longleftrightarrow> a \<in> free_hdrs L)"
  shows "pool_rep X pool hp caches L bl B"
  using assms unfolding pool_rep_def by blast

section \<open>Buffer operations keep the invariant\<close>

lemma get_buf_rep:
  assumes r: "pool_rep {} pool hp caches L bl B"
  obtains (empty) pool' where "get_buf tid pool hp = (NULL, pool', hp)" "L None = []"
      "buf_same pool' pool" "pool_rep {} pool' hp caches L bl B"
  | (got) pool' a xs hp' where "get_buf tid pool hp = (a, pool', hp')" "L None = a # xs" "a \<noteq> NULL"
      "a \<in> set (hdr_list pool)" "pool_same pool' pool" "a \<notin> free_hdrs (L(None := xs))"
      "pool_rep {} pool' hp' caches (L(None := xs)) bl B" "free_hdrs (L(None := xs)) = free_hdrs L - {a}"
      "hp' = upd_buf a (\<lambda>b. b\<lparr>bh_allocator := int tid\<rparr>) hp"
proof (cases "pl_buf_freelist pool = NULL")
  case True
  have l: "linked (hdr_next hp) (pl_buf_freelist pool) (L None)"
    using r unfolding pool_rep_def pool_core_def by (metis list_heads_simps(1))
  define p where "p = fst (snd (get_buf tid pool hp))"
  have g: "get_buf tid pool hp = (NULL, p, hp)" using True by (simp add: p_def get_buf_def Let_def)
  have s: "buf_same p pool" "pl_blk_freelist p = pl_blk_freelist pool" "pl_blkcount p = pl_blkcount pool"
    using True by (simp_all add: p_def get_buf_def Let_def buf_same_def pool_same_def)
  have c: "pool_core p hp (list_heads pool caches) L bl B"
    by (rule pool_core_heads_cong [OF pool_rep_coreD(1) [OF r] buf_same_pool_same [OF s(1)] s(2,3)])
  have "pool_rep {} p hp caches L bl B"
    by (rule pool_rep_settle [where a = NULL], rule pool_rep_but [OF r c s(1)])
       (use pool_rep_coreD(5,6) [OF r] in
        \<open>simp_all add: pool_same_cong [OF buf_same_pool_same [OF s(1)]]\<close>)
  with g l True s show thesis by (intro empty [of p]) auto
next
  case False
  let ?a = "pl_buf_freelist pool"
  have l: "linked (hdr_next hp) ?a (L None)"
    using r unfolding pool_rep_def pool_core_def by (metis list_heads_simps(1))
  then obtain xs where xs: "L None = ?a # xs" using False by (auto simp: linked_nonNULL)
  note pop = pool_core_pop [OF pool_rep_coreD(1) [OF r] xs]
  let ?f = "\<lambda>b. b\<lparr>bh_allocator := int tid\<rparr>" let ?hp' = "upd_buf ?a ?f hp"
  define p where "p = fst (snd (get_buf tid pool hp))"
  have g: "get_buf tid pool hp = (?a, p, ?hp')" using False by (simp add: p_def get_buf_def Let_def)
  have s: "pool_same p pool" "pl_blk_freelist p = pl_blk_freelist pool" "pl_blkcount p = pl_blkcount pool"
    "pl_buf_freelist p = hdr_next hp ?a" "pl_bufcount p = pl_bufcount pool - 1"
    using False by (simp_all add: p_def get_buf_def Let_def pool_same_def)
  have c1: "pool_core pool ?hp' ((list_heads pool caches)(None := hdr_next hp ?a)) (L(None := xs)) bl B"
    by (rule pool_core_upd_hdr [OF pop(1)]) (simp_all add: owned_def hdr_ok_def)
  have "list_heads p caches = (list_heads pool caches)(None := hdr_next hp ?a)"
    by (subst list_heads_pool [of p caches pool]) (simp add: s(4))
  then have c: "pool_core p ?hp' (list_heads p caches) (L(None := xs)) bl B"
    using pool_core_heads_cong [OF c1 s(1-3)] by simp
  have "pool_rep {} p ?hp' caches (L(None := xs)) bl B"
    using c r xs s(5) unfolding pool_rep_def pool_same_cong [OF s(1)] pool_shape_cong [OF s(1)] pop(5)
    by (auto simp: size_ok_def ODP_FREEBUF_def)
  then show thesis
    using g xs False pop(3,5) s(1) by (intro got [of ?a p ?hp' xs]) auto
qed


lemma ret_buf_list_rep:
  assumes r: "pool_rep {a} pool hp caches L bl B" and a: "a \<in> set (hdr_list pool)" "a \<notin> free_hdrs L"
    and sz: "size_ok pool hp a" and g: "ret_buf_list pool hp a = (pool', hp')"
  shows "pool_rep {} pool' hp' caches (L(None := a # L None)) bl B"
    and "free_hdrs (L(None := a # L None)) = insert a (free_hdrs L)"
    and "pool_same pool' pool"
    and "hp' = upd_buf a (\<lambda>b. b\<lparr>bh_allocator := ODP_FREEBUF, bh_next := pl_buf_freelist pool\<rparr>) hp"
proof -
  let ?f = "\<lambda>b. b\<lparr>bh_allocator := ODP_FREEBUF, bh_next := pl_buf_freelist pool\<rparr>"
  show hp': "hp' = upd_buf a ?f hp" using g by (simp add: ret_buf_list_def Let_def)
  have s: "pool_same pool' pool" "pl_blk_freelist pool' = pl_blk_freelist pool"
    "pl_blkcount pool' = pl_blkcount pool" "pl_buf_freelist pool' = a" "pl_bufcount pool' = pl_bufcount pool + 1"
    using g by (auto simp: ret_buf_list_def Let_def pool_same_def split: if_splits)
  then show "pool_same pool' pool" by simp
  have push: "pool_core pool (upd_buf a ?f hp) ((list_heads pool caches)(None := a)) (L(None := a # L None)) bl B"
    "free_hdrs (L(None := a # L None)) = insert a (free_hdrs L)"
    by (rule pool_core_push [where f = ?f and i = None, OF pool_rep_coreD(1) [OF r] a];
        simp add: owned_def hdr_ok_def)+
  show "free_hdrs (L(None := a # L None)) = insert a (free_hdrs L)" by (rule push(2))
  have "list_heads pool' caches = (list_heads pool caches)(None := a)"
    by (subst list_heads_pool [of pool' caches pool]) (simp add: s(4))
  then have c: "pool_core pool' hp' (list_heads pool' caches) (L(None := a # L None)) bl B"
    using pool_core_heads_cong [OF push(1) s(1-3)] hp' by simp
  show "pool_rep {} pool' hp' caches (L(None := a # L None)) bl B"
    using c r sz s(5) unfolding pool_rep_def pool_same_cong [OF s(1)] pool_shape_cong [OF s(1)] push(2) hp'
    by (auto simp: size_ok_def)
qed

lemma ret_buf_rep:
  assumes r: "pool_rep {a} pool hp caches L bl B" and a: "a \<in> set (hdr_list pool)" "a \<notin> free_hdrs L"
    and sz: "bh_hdrdata (bhdr hp a) \<or> bh_type (bhdr hp a) = ODP_EVENT_BUFFER \<Longrightarrow> size_ok pool hp a"
  obtains pool' hp' bl' where "ret_buf pool hp a = Inr (pool', hp')"
    "pool_rep {} pool' hp' caches (L(None := a # L None)) bl' B"
    "free_hdrs (L(None := a # L None)) = insert a (free_hdrs L)" "pool_same pool' pool"
    "\<forall>x. x \<noteq> a \<longrightarrow> hdrs hp' x = hdrs hp x" "mem hp' = mem hp"
    "length bl \<le> length bl'" "pl_bufcount pool' = pl_bufcount pool + 1"
proof (cases "\<not> bh_hdrdata (bhdr hp a) \<and> bh_type (bhdr hp a) \<noteq> ODP_EVENT_BUFFER")
  case False
  obtain pool' hp' where g: "ret_buf_list pool hp a = (pool', hp')" by (metis surj_pair)
  have "pl_bufcount pool' = pl_bufcount pool + 1" using g by (auto simp: ret_buf_list_def Let_def)
  moreover note ret_buf_list_rep [OF r a sz g]
  moreover have "ret_buf pool hp a = Inr (pool', hp')" unfolding ret_buf_def Let_def if_not_P [OF False] g ..
  ultimately show thesis using False by (intro that [of pool' hp' bl]) (auto simp: upd_buf_def)
next
  case True
  then obtain pool1 hp1 bl' where rb: "ret_blks (unat (bh_segcount (bhdr hp a))) pool hp a = Inr (pool1, hp1)"
    "pool_core pool1 hp1 (list_heads pool caches) L bl' B" "buf_same pool1 pool"
    "length bl' = length bl + unat (bh_segcount (bhdr hp a))"
    "\<forall>x. x \<noteq> a \<longrightarrow> hdrs hp1 x = hdrs hp x"
    "bhdr hp1 a = (bhdr hp a)\<lparr>bh_segcount := 0\<rparr>" "mem hp1 = mem hp"
    using ret_blks_core [OF pool_rep_coreD(1) [OF r] a(1) refl _ pool_rep_coreD(3) [OF r]] by blast
  have s: "pool_same pool1 pool" by (rule buf_same_pool_same [OF rb(3)])
  let ?hp2 = "upd_buf a (\<lambda>b. b\<lparr>bh_size := 0\<rparr>) hp1"
  have "pool_core pool1 ?hp2 (list_heads pool caches) L bl' B"
    by (rule pool_core_upd_hdr [OF rb(2)]) (simp_all add: owned_def hdr_ok_def)
  then have r2: "pool_rep {a} pool1 ?hp2 caches L bl' B"
    using pool_rep_but [OF r _ rb(3), of ?hp2 bl' a] rb(5) by (simp add: upd_buf_def)
  have sz2: "size_ok pool1 ?hp2 a" using rb(6) True by (simp add: size_ok_def)
  have a2: "a \<in> set (hdr_list pool1)" using a pool_same_hdr_list [OF s] by simp
  obtain pool' hp' where g: "ret_buf_list pool1 ?hp2 a = (pool', hp')" by (metis surj_pair)
  have "pl_bufcount pool' = pl_bufcount pool1 + 1" using g by (auto simp: ret_buf_list_def Let_def)
  then have bc: "pl_bufcount pool' = pl_bufcount pool + 1" using rb(3) by (simp add: buf_same_def)
  note rl = ret_buf_list_rep [OF r2 a2 a(2) sz2 g]
  have "ret_buf pool hp a = Inr (pool', hp')" using True rb(1) g by (simp add: ret_buf_def Let_def)
  moreover have "\<forall>x. x \<noteq> a \<longrightarrow> hdrs hp' x = hdrs hp x" "mem hp' = mem hp"
    using rb(5,7) unfolding rl(4) by (simp_all add: upd_buf_def)
  ultimately show thesis
    using rl(1-3) pool_same_trans [OF rl(3) s] rb(4) bc by (intro that [of pool' hp' bl']) auto
qed

lemma ret_local_buf_rep:
  assumes r: "pool_rep {} pool hp caches L bl B" and a: "a \<in> set (hdr_list pool)" "a \<notin> free_hdrs L"
    and g: "ret_local_buf (caches t) hp a = (cache', hp')"
  shows "pool_rep {} pool hp' (caches(t := cache')) (L(Some t := a # L (Some t))) bl B"
    and "free_hdrs (L(Some t := a # L (Some t))) = insert a (free_hdrs L)"
    and "\<forall>x. x \<noteq> a \<longrightarrow> hdrs hp' x = hdrs hp x" "mem hp' = mem hp"
proof -
  let ?f = "\<lambda>b. b\<lparr>bh_allocator := ODP_FREEBUF, bh_next := lc_freelist (caches t)\<rparr>"
  have hp': "hp' = upd_buf a ?f hp" and c': "lc_freelist cache' = a"
    using g by (auto simp: ret_local_buf_def)
  show "\<forall>x. x \<noteq> a \<longrightarrow> hdrs hp' x = hdrs hp x" "mem hp' = mem hp" by (simp_all add: hp' upd_buf_def)
  have push: "pool_core pool hp' ((list_heads pool caches)(Some t := a)) (L(Some t := a # L (Some t))) bl B"
    "free_hdrs (L(Some t := a # L (Some t))) = insert a (free_hdrs L)"
    unfolding hp'
    by (rule pool_core_push [where f = ?f and i = "Some t", OF pool_rep_coreD(1) [OF r] a];
        simp add: owned_def hdr_ok_def)+
  then show "free_hdrs (L(Some t := a # L (Some t))) = insert a (free_hdrs L)" by simp
  show "pool_rep {} pool hp' (caches(t := cache')) (L(Some t := a # L (Some t))) bl B"
    using push(1) r unfolding pool_rep_def push(2) list_heads_cache c'
    by (auto simp: size_ok_def hp')
qed

text \<open>The request sizes \<open>buffer_alloc\<close> accepts.\<close>

definition request_fits :: "pool_entry \<Rightarrow> nat \<Rightarrow> bool" where
  "request_fits pool totsize \<longleftrightarrow>
    totsize \<le> (if pl_unsegmented pool then unat (pl_seg_size pool)
                else ODP_BUFFER_MAX_SEG * unat (pl_seg_size pool))"

lemma request_fits_cong: "pool_same p q \<Longrightarrow> request_fits p = request_fits q"
  by (simp add: request_fits_def pool_same_def fun_eq_iff)

lemma size_ok_capacity:
  assumes "pool_shape pool" "hdr_ok pool hp a" "size_ok pool hp a" "\<not> bh_hdrdata (bhdr hp a)"
  shows "unat (bh_size (bhdr hp a)) = capacity pool hp a"
proof -
  have "unat (bh_segcount (bhdr hp a)) * unat (pl_seg_size pool) \<le> 6 * unat (pl_seg_size pool)"
    using assms(2) by (intro mult_le_mono1) (simp add: hdr_ok_def)
  also have "\<dots> < 4294967296" using assms(1) by (simp add: pool_shape_def)
  finally have "unat (bh_segcount (bhdr hp a)) * unat (pl_seg_size pool) < 4294967296" .
  then show ?thesis using assms(3,4) by (simp add: size_ok_def capacity_def unat_mult_u32)
qed

lemma small_request_no_hdrdata:
  assumes "pool_shape pool" "hdr_ok pool hp a" "size_ok pool hp a" "request_fits pool totsize"
    and "unat (bh_size (bhdr hp a)) < totsize"
  shows "\<not> bh_hdrdata (bhdr hp a)"
  using assms by (auto simp: pool_shape_def hdr_ok_def size_ok_def request_fits_def split: if_splits)

text \<open>
  Extending a header that is on no free list, as both allocation paths do. When the blocks run
  out, a header that keeps its blocks (type buffer) has not received any.
\<close>

lemma extend_rep:
  assumes r: "pool_rep X pool hp caches L bl B" and a: "a \<in> set (hdr_list pool)" "a \<notin> free_hdrs L"
    and sz: "size_ok pool hp a" and fit: "request_fits pool totsize"
    and small: "unat (bh_size (bhdr hp a)) < totsize"
  obtains (ok) pool' hp' bl' where
    "add_blks a (int totsize - uint (bh_size (bhdr hp a))) pool hp = Inr (True, pool', hp')"
    "pool_rep (insert a X) pool' (set_size_segs pool' hp' a) caches L bl' B"
    "size_ok pool' (set_size_segs pool' hp' a) a" "buf_same pool' pool"
    "totsize \<le> unat (bh_size (bhdr (set_size_segs pool' hp' a) a))"
    "bh_allocator (bhdr (set_size_segs pool' hp' a) a) = bh_allocator (bhdr hp a)"
    "\<forall>x. x \<noteq> a \<longrightarrow> hdrs (set_size_segs pool' hp' a) x = hdrs hp x" "mem (set_size_segs pool' hp' a) = mem hp"
  | (none) pool' hp' where
    "add_blks a (int totsize - uint (bh_size (bhdr hp a))) pool hp = Inr (False, pool', hp')"
    "pool_rep (insert a X) pool' hp' caches L [] B" "buf_same pool' pool"
    "bh_hdrdata (bhdr hp' a) \<or> bh_type (bhdr hp' a) = ODP_EVENT_BUFFER \<Longrightarrow> size_ok pool' hp' a"
    "\<forall>x. x \<noteq> a \<longrightarrow> hdrs hp' x = hdrs hp x" "mem hp' = mem hp"
    "length bl * unat (pl_seg_size pool) < totsize - unat (bh_size (bhdr hp a))"
proof -
  let ?need = "int totsize - uint (bh_size (bhdr hp a))"
  note core = pool_rep_coreD(1) [OF r] and shape = pool_rep_coreD(2) [OF r]
  have hok: "hdr_ok pool hp a" using core a(1) by (simp add: pool_core_def)
  have nh: "\<not> bh_hdrdata (bhdr hp a)" by (rule small_request_no_hdrdata [OF shape hok sz fit small])
  have cap: "unat (bh_size (bhdr hp a)) = capacity pool hp a" by (rule size_ok_capacity [OF shape hok sz nh])
  have capi: "uint (bh_size (bhdr hp a)) = int (capacity pool hp a)" using cap by (metis of_nat_unat)
  have tot: "totsize \<le> ODP_BUFFER_MAX_SEG * unat (pl_seg_size pool)"
    using fit by (auto simp: request_fits_def split: if_splits)
  have ss: "0 < pl_seg_size pool" using tot small by (cases "pl_seg_size pool = 0") (auto simp: word_greater_zero_iff)
  have lim: "int (capacity pool hp a) + ?need \<le> int (ODP_BUFFER_MAX_SEG * unat (pl_seg_size pool))"
    unfolding capi using tot by (simp del: of_nat_mult)
  obtain ok pool' hp' bl' where ab: "add_blks a ?need pool hp = Inr (ok, pool', hp')"
    and c: "pool_core pool' hp' (list_heads pool caches) L bl' B" and e: "extended a ?need pool hp bl ok pool' hp' bl'"
    using add_blks_core [OF core a(1) nh ss _ lim] small unfolding capi cap by auto
  have bs: "buf_same pool' pool" and fr: "\<forall>x. x \<noteq> a \<longrightarrow> hdrs hp' x = hdrs hp x" "mem hp' = mem hp"
    using e by (simp_all add: extended_def)
  have ps: "pool_same pool' pool" by (rule buf_same_pool_same [OF bs])
  obtain ad sc where h': "bhdr hp' a = (bhdr hp a)\<lparr>bh_addr := ad, bh_segcount := sc\<rparr>"
    using e by (auto simp: extended_def)
  have a': "a \<in> set (hdr_list pool')" using a pool_same_hdr_list [OF ps] by simp
  have seg: "pl_seg_size pool' = pl_seg_size pool" "capacity pool' = capacity pool"
    using ps by (simp_all add: pool_same_def capacity_def fun_eq_iff)
  show thesis
  proof (cases ok)
    case True
    let ?f = "\<lambda>b. b\<lparr>bh_size := bh_segcount b * pl_seg_size pool'\<rparr>" let ?hp2 = "upd_buf a ?f hp'"
    have hp2: "set_size_segs pool' hp' a = ?hp2" by (simp add: set_size_segs_def)
    have c2: "pool_core pool' ?hp2 (list_heads pool caches) L bl' B"
      by (rule pool_core_upd_hdr [OF c]) (simp_all add: owned_def hdr_ok_def)
    have fr2: "\<forall>x. x \<noteq> a \<longrightarrow> hdrs ?hp2 x = hdrs hp x" using fr by (simp add: upd_buf_def)
    have r2: "pool_rep (insert a X) pool' ?hp2 caches L bl' B" by (rule pool_rep_but [OF r c2 bs fr2])
    have sz2: "size_ok pool' ?hp2 a" using nh h' by (simp add: size_ok_def)
    have hok2: "hdr_ok pool' ?hp2 a" using c2 a' by (simp add: pool_core_def)
    have "unat (bh_size (bhdr ?hp2 a)) = capacity pool' ?hp2 a"
      using size_ok_capacity [OF pool_rep_coreD(2) [OF r2] hok2 sz2] nh h' by simp
    also have "\<dots> = capacity pool hp' a" by (simp add: capacity_def seg)
    also have "totsize \<le> \<dots>" using e True unfolding extended_def capi by simp
    finally have "totsize \<le> unat (bh_size (bhdr ?hp2 a))" .
    then show thesis
      using ok [of pool' hp' bl'] ab True r2 sz2 bs fr2 fr(2) h' unfolding hp2 by simp
  next
    case False
    then have bl': "bl' = []" and lt: "capacity pool hp' a < totsize"
      and len: "length bl + unat (bh_segcount (bhdr hp a)) = unat sc"
      using e h' small unfolding extended_def capi cap by auto
    have r2: "pool_rep (insert a X) pool' hp' caches L [] B" using pool_rep_but [OF r _ bs fr(1)] c bl' by simp
    have sz2: "size_ok pool' hp' a" if "bh_hdrdata (bhdr hp' a) \<or> bh_type (bhdr hp' a) = ODP_EVENT_BUFFER"
    proof -
      have "pl_unsegmented pool"
        using that nh h' shape hok by (simp add: pool_shape_def hdr_ok_def)
      then have "totsize \<le> unat (pl_seg_size pool)" using fit by (simp add: request_fits_def)
      with lt have "unat sc = 0" unfolding capacity_def h' by (cases "unat sc") auto
      then have "sc = 0" "bh_segcount (bhdr hp a) = 0" using len by (simp_all add: unat_eq_0)
      then show ?thesis using sz h' nh by (simp add: size_ok_def)
    qed
    have "length bl * unat (pl_seg_size pool) + capacity pool hp a = capacity pool hp' a"
      using len h' by (simp add: capacity_def flip: add_mult_distrib)
    then have "length bl * unat (pl_seg_size pool) < totsize - unat (bh_size (bhdr hp a))"
      using lt cap by linarith
    then show thesis using none [of pool' hp'] ab False r2 bs sz2 fr by simp
  qed
qed

lemma get_local_buf_rep:
  assumes r: "pool_rep {} pool hp caches L bl B" and fit: "request_fits pool totsize"
  obtains (empty) "get_local_buf tid (caches t) pool hp totsize = Inr (NULL, caches t, pool, hp)"
      "L (Some t) = []"
  | (got) a cache' pool' hp' xs bl' where
      "get_local_buf tid (caches t) pool hp totsize = Inr (a, cache', pool', hp')"
      "L (Some t) = a # xs" "a \<noteq> NULL" "a \<in> set (hdr_list pool)"
      "pool_rep {} pool' hp' (caches(t := cache')) (L(Some t := xs)) bl' B"
      "free_hdrs (L(Some t := xs)) = free_hdrs L - {a}" "a \<notin> free_hdrs (L(Some t := xs))"
      "totsize \<le> unat (bh_size (bhdr hp' a))" "buf_same pool' pool"
      "\<forall>x. x \<noteq> a \<longrightarrow> hdrs hp' x = hdrs hp x" "mem hp' = mem hp"
  | (failed) a cache' pool' hp' xs bl' where
      "get_local_buf tid (caches t) pool hp totsize = Inr (NULL, cache', pool', hp')"
      "L (Some t) = a # xs" "a \<in> set (hdr_list pool)" "length bl * unat (pl_seg_size pool) < totsize"
      "pool_rep {} pool' hp' (caches(t := cache')) (L(Some t := xs, None := a # L None)) bl' B"
      "free_hdrs (L(Some t := xs, None := a # L None)) = free_hdrs L" "pool_same pool' pool"
      "\<forall>x. x \<noteq> a \<longrightarrow> hdrs hp' x = hdrs hp x" "mem hp' = mem hp"
proof (cases "lc_freelist (caches t) = NULL")
  case True
  have "linked (hdr_next hp) (lc_freelist (caches t)) (L (Some t))"
    using r unfolding pool_rep_def pool_core_def by (metis list_heads_simps(2))
  then show thesis using True by (intro empty) (auto simp: get_local_buf_def)
next
  case False
  let ?a = "lc_freelist (caches t)"
  have "linked (hdr_next hp) ?a (L (Some t))"
    using r unfolding pool_rep_def pool_core_def by (metis list_heads_simps(2))
  then obtain xs where xs: "L (Some t) = ?a # xs" using False by (auto simp: linked_nonNULL)
  note pop = pool_core_pop [OF pool_rep_coreD(1) [OF r] xs]
  let ?c1 = "(caches t)\<lparr>lc_freelist := hdr_next hp ?a\<rparr>" let ?L1 = "L(Some t := xs)"
  have nf: "?a \<notin> free_hdrs ?L1" by (simp add: pop(5))
  have heads: "list_heads pool (caches(t := ?c1)) = (list_heads pool caches)(Some t := hdr_next hp ?a)"
    by simp
  have r1: "pool_rep {?a} pool hp (caches(t := c)) ?L1 bl B" if "lc_freelist c = hdr_next hp ?a" for c
    using r pop(1) that unfolding pool_rep_def pop(5) by auto
  have sz: "size_ok pool hp ?a" by (rule pool_rep_coreD(5) [OF r pop(3)]) simp
  let ?mark = "upd_buf ?a (\<lambda>b. b\<lparr>bh_allocator := int tid\<rparr>)"
  have fin: "pool_rep {} p (?mark h) (caches(t := c)) ?L1 bl' B"
    if "pool_rep {?a} p h (caches(t := c)) ?L1 bl' B" "size_ok p h ?a" for p h c bl'
  proof (rule pool_rep_settle [where a = ?a])
    have core: "pool_core p (?mark h) (list_heads p (caches(t := c))) ?L1 bl' B"
      by (rule pool_core_upd_hdr [OF pool_rep_coreD(1) [OF that(1)]]) (simp_all add: owned_def hdr_ok_def)
    show "pool_rep (insert ?a {}) p (?mark h) (caches(t := c)) ?L1 bl' B"
      using pool_rep_but [OF that(1) core buf_same_refl, of ?a] by (simp add: upd_buf_def)
    show "size_ok p (?mark h) ?a \<and> (bh_allocator (bhdr (?mark h) ?a) = ODP_FREEBUF \<longleftrightarrow> ?a \<in> free_hdrs ?L1)"
      using that(2) nf by (simp add: size_ok_def ODP_FREEBUF_def)
  qed
  let ?c2 = "?c1\<lparr>lc_bufallocs := lc_bufallocs ?c1 + 1\<rparr>"
  show thesis
  proof (cases "unat (bh_size (bhdr hp ?a)) < totsize")
    case big: False
    have "get_local_buf tid (caches t) pool hp totsize = Inr (?a, ?c2, pool, ?mark hp)"
      using False big by (simp add: get_local_buf_def Let_def)
    moreover have "pool_rep {} pool (?mark hp) (caches(t := ?c2)) ?L1 bl B"
      using r1 [of ?c2] sz by (intro fin) simp_all
    ultimately show thesis
      using got [of ?a ?c2 pool "?mark hp" xs bl] xs False pop(3,5) nf big by (simp add: upd_buf_def)
  next
    case small: True
    have rs: "pool_rep {?a} pool hp (caches(t := ?c2)) ?L1 bl B" by (rule r1) simp
    show thesis using rs pop(3) nf sz fit small
    proof (cases rule: extend_rep)
      case (ok pool' hp' bl')
      let ?h = "set_size_segs pool' hp' ?a"
      have "get_local_buf tid (caches t) pool hp totsize = Inr (?a, ?c2, pool', ?mark ?h)"
        using False small by (simp add: get_local_buf_def Let_def ok(1))
      moreover have "pool_rep {} pool' (?mark ?h) (caches(t := ?c2)) ?L1 bl' B"
        using ok(2,3) by (intro fin) simp_all
      ultimately show thesis
        using got [of ?a ?c2 pool' "?mark ?h" xs bl'] xs False pop(3,5) nf ok(4,5,7,8)
        by (simp add: upd_buf_def)
    next
      case (none pool' hp')
      let ?c3 = "?c1\<lparr>lc_buffrees := lc_buffrees ?c1 - 1\<rparr>"
      have a': "?a \<in> set (hdr_list pool')"
        using pop(3) pool_same_hdr_list [OF buf_same_pool_same [OF none(3)]] by simp
      have heq: "list_heads pool' (caches(t := ?c2)) = list_heads pool' (caches(t := ?c3))" by simp
      have r3: "pool_rep {?a} pool' hp' (caches(t := ?c3)) ?L1 [] B"
        using none(2) unfolding pool_rep_def heq by simp
      obtain pool2 hp2 bl2 where rb: "ret_buf pool' hp' ?a = Inr (pool2, hp2)"
        "pool_rep {} pool2 hp2 (caches(t := ?c3)) (?L1(None := ?a # ?L1 None)) bl2 B"
        "free_hdrs (?L1(None := ?a # ?L1 None)) = insert ?a (free_hdrs ?L1)" "pool_same pool2 pool'"
        "\<forall>x. x \<noteq> ?a \<longrightarrow> hdrs hp2 x = hdrs hp' x" "mem hp2 = mem hp'"
        by (rule ret_buf_rep [OF r3 a' nf none(4)]) blast+
      have "get_local_buf tid (caches t) pool hp totsize = Inr (NULL, ?c3, pool2, hp2)"
        using False small by (simp add: get_local_buf_def Let_def none(1) rb(1))
      moreover have "insert ?a (free_hdrs ?L1) = free_hdrs L"
        using xs unfolding pop(5) by (auto simp: free_hdrs_def intro!: exI [of _ "Some t"])
      moreover have "?L1 None = L None" by simp
      ultimately show thesis
        using failed [of ?c3 pool2 hp2 ?a xs bl2] none(5,6,7) rb(2,3,5,6) xs pop(3)
          pool_same_trans [OF rb(4) buf_same_pool_same [OF none(3)]] by simp
    qed
  qed
qed

lemma alloc_from_pool_rep:
  assumes r: "pool_rep {} pool hp caches L bl B" and fit: "request_fits pool totsize"
  obtains (none) pool' hp' L' bl' where
      "alloc_from_pool tid pool hp totsize = Inr (NULL, pool', hp')"
      "pool_rep {} pool' hp' caches L' bl' B" "pool_same pool' pool" "free_hdrs L' = free_hdrs L"
      "L None = [] \<or> length bl * unat (pl_seg_size pool) < totsize" "mem hp' = mem hp"
      "\<forall>x. x \<notin> free_hdrs L \<longrightarrow> hdrs hp' x = hdrs hp x"
  | (got) a pool' hp' L' bl' where
      "alloc_from_pool tid pool hp totsize = Inr (a, pool', hp')" "a \<noteq> NULL"
      "a \<in> set (hdr_list pool)" "a \<in> free_hdrs L"
      "pool_rep {} pool' hp' caches L' bl' B" "pool_same pool' pool" "free_hdrs L' = free_hdrs L - {a}"
      "totsize \<le> unat (bh_size (bhdr hp' a))" "mem hp' = mem hp"
      "\<forall>x. x \<noteq> a \<longrightarrow> hdrs hp' x = hdrs hp x"
using r proof (cases rule: get_buf_rep [where tid = tid])
  case (empty pool')
  have "alloc_from_pool tid pool hp totsize = Inr (NULL, pool', hp)"
    by (simp add: alloc_from_pool_def empty(1))
  then show thesis using empty none [of pool' hp L bl] by (simp add: buf_same_def)
next
  case (got pool1 a xs hp1)
  let ?L1 = "L(None := xs)"
  have aL: "a \<in> free_hdrs L" using got(2) by (auto simp: free_hdrs_def intro!: exI [of _ None])
  have a1: "a \<in> set (hdr_list pool1)" using got(4) pool_same_hdr_list [OF got(5)] by simp
  have fit1: "request_fits pool1 totsize" using fit request_fits_cong [OF got(5)] by simp
  have sz1: "size_ok pool1 hp1 a" by (rule pool_rep_coreD(5) [OF got(7) a1]) simp
  have seg: "pl_seg_size pool1 = pl_seg_size pool" using got(5) by (simp add: pool_same_def)
  have fr1: "mem hp1 = mem hp" "\<forall>x. x \<noteq> a \<longrightarrow> hdrs hp1 x = hdrs hp x"
    by (simp_all add: got(9) upd_buf_def)
  have nfree: "bh_allocator (bhdr hp1 a) \<noteq> ODP_FREEBUF" by (simp add: got(9) ODP_FREEBUF_def)
  show thesis
  proof (cases "unat (bh_size (bhdr hp1 a)) < totsize")
    case False
    then have "alloc_from_pool tid pool hp totsize = Inr (a, pool1, hp1)"
      using got(3) by (simp add: alloc_from_pool_def got(1))
    then show thesis using that(2) [of a pool1 hp1 ?L1 bl] got aL False fr1 by simp
  next
    case True
    from got(7) a1 got(6) sz1 fit1 True show thesis
    proof (cases rule: extend_rep)
      case (ok pool2 hp2 bl2)
      let ?h = "set_size_segs pool2 hp2 a"
      have "alloc_from_pool tid pool hp totsize = Inr (a, pool2, ?h)"
        using got(3) True by (simp add: alloc_from_pool_def got(1) ok(1))
      moreover have "pool_rep {} pool2 ?h caches ?L1 bl2 B"
        using ok(2) by (rule pool_rep_settle) (use ok(3,6) nfree got(6) in simp)
      moreover have "pool_same pool2 pool"
        by (rule pool_same_trans [OF buf_same_pool_same [OF ok(4)] got(5)])
      ultimately show thesis
        using that(2) [of a pool2 ?h ?L1 bl2] got(3,4,8) aL ok(5,7,8) fr1 by simp
    next
      case (none pool2 hp2)
      have a2: "a \<in> set (hdr_list pool2)"
        using a1 pool_same_hdr_list [OF buf_same_pool_same [OF none(3)]] by simp
      have r2: "pool_rep {a} pool2 hp2 caches ?L1 [] B" using none(2) by simp
      obtain pool3 hp3 bl3 where rb: "ret_buf pool2 hp2 a = Inr (pool3, hp3)"
        "pool_rep {} pool3 hp3 caches (?L1(None := a # ?L1 None)) bl3 B"
        "free_hdrs (?L1(None := a # ?L1 None)) = insert a (free_hdrs ?L1)" "pool_same pool3 pool2"
        "\<forall>x. x \<noteq> a \<longrightarrow> hdrs hp3 x = hdrs hp2 x" "mem hp3 = mem hp2"
        by (rule ret_buf_rep [OF r2 a2 got(6) none(4)]) blast+
      have "alloc_from_pool tid pool hp totsize = Inr (NULL, pool3, hp3)"
        using got(3) True by (simp add: alloc_from_pool_def got(1) none(1) rb(1))
      moreover have "pool_same pool3 pool"
        using pool_same_trans [OF rb(4) pool_same_trans [OF buf_same_pool_same [OF none(3)] got(5)]] .
      moreover have "free_hdrs (?L1(None := a # ?L1 None)) = free_hdrs L"
        unfolding rb(3) got(8) using aL by blast
      moreover have "length bl * unat (pl_seg_size pool) < totsize" using none(7) seg by simp
      moreover have "\<forall>x. x \<notin> free_hdrs L \<longrightarrow> hdrs hp3 x = hdrs hp x"
        using rb(5) none(5) fr1(2) aL by metis
      ultimately show thesis
        using that(1) [OF _ rb(2)] rb(6) none(6) fr1(1) by simp
    qed
  qed
qed

lemma alloc_finish_rep:
  assumes r: "pool_rep {} pool hp caches L bl B" and a: "a \<in> set (hdr_list pool)" 
  shows "pool_rep {} pool (alloc_finish pool hp a sz) caches L bl B"
    and "bhdr (alloc_finish pool hp a sz) a = (bhdr hp a)\<lparr>bh_zeroized := pl_zeroized pool\<rparr>"
    and "\<forall>x. x \<noteq> a \<longrightarrow> hdrs (alloc_finish pool hp a sz) x = hdrs hp x"
    and "mem (alloc_finish pool hp a sz) = mem hp"
proof -
  let ?z = "\<lambda>b. b\<lparr>bh_zeroized := pl_zeroized pool\<rparr>" let ?hp1 = "upd_buf a ?z hp"
  have b: "bhdr (alloc_finish pool hp a sz) x = bhdr ?hp1 x" for x
    by (simp add: alloc_finish_def Let_def packet_init_def upd_buf_def)
  have nx: "blk_next (alloc_finish pool hp a sz) = blk_next ?hp1"
    by (simp add: alloc_finish_def Let_def)
  show "bhdr (alloc_finish pool hp a sz) a = (bhdr hp a)\<lparr>bh_zeroized := pl_zeroized pool\<rparr>"
    "\<forall>x. x \<noteq> a \<longrightarrow> hdrs (alloc_finish pool hp a sz) x = hdrs hp x"
    "mem (alloc_finish pool hp a sz) = mem hp"
    by (simp_all add: alloc_finish_def Let_def packet_init_def upd_buf_def)
  have "pool_core pool ?hp1 (list_heads pool caches) L bl B"
    by (rule pool_core_upd_hdr [OF pool_rep_coreD(1) [OF r]]) (simp_all add: owned_def hdr_ok_def)
  then have "pool_rep {} pool ?hp1 caches L bl B"
    using r unfolding pool_rep_def by (auto simp: size_ok_def)
  moreover have "pool_core pool (alloc_finish pool hp a sz) = pool_core pool ?hp1"
    "size_ok pool (alloc_finish pool hp a sz) = size_ok pool ?hp1"
    unfolding pool_core_def owned_def hdr_ok_def size_ok_def fun_eq_iff b nx by simp_all
  ultimately show "pool_rep {} pool (alloc_finish pool hp a sz) caches L bl B"
    unfolding pool_rep_def b by metis
qed

lemma request_fits_iff:
  assumes "pool_shape pool"
  shows "request_fits pool totsize \<longleftrightarrow> \<not> alloc_too_big pool totsize"
proof -
  have "unat (pl_seg_size pool * 6) = unat (pl_seg_size pool) * 6"
    using unat_mult_u32 [of "pl_seg_size pool" 6] assms by (simp add: pool_shape_def mult.commute)
  then show ?thesis by (auto simp: request_fits_def alloc_too_big_def)
qed

lemma alloc_totsize_eq:
  assumes "unat sz < 2 ^ 32"
  shows "alloc_totsize pool sz = unat (pl_headroom pool) + unat sz + unat (pl_tailroom pool)"
proof -
  have h: "unat (pl_headroom pool) < 2 ^ 32" "unat (pl_tailroom pool) < 2 ^ 32" using unat_u32_bound by simp_all
  have u: "unat (ucast w :: u64) = unat w" for w :: u32 by (simp add: unsigned_ucast_eq take_bit_nat_eq_self order_less_trans [OF unat_u32_bound])
  have 1: "unat (ucast (pl_headroom pool) + sz :: u64) = unat (pl_headroom pool) + unat sz"
    using h(1) assms u [of "pl_headroom pool"] by (subst unat_add_small) (simp_all del: unat_u32_bound)
  have "unat (ucast (pl_headroom pool) + sz + ucast (pl_tailroom pool) :: u64) =
      unat (ucast (pl_headroom pool) + sz :: u64) + unat (pl_tailroom pool)"
    using h assms 1 u [of "pl_tailroom pool"] by (subst unat_add_small) (simp_all del: unat_u32_bound)
  then show ?thesis by (simp add: alloc_totsize_def 1)
qed

lemma alloc_finish_packet:
  assumes r: "pool_rep {} pool hp caches L bl B" and a: "a \<in> set (hdr_list pool)"
    and ty: "bh_type (bhdr hp a) = ODP_EVENT_PACKET" and sz: "unat sz < 2 ^ 32"
    and fits: "alloc_totsize pool sz \<le> unat (bh_size (bhdr hp a))"
  shows "packet_ok (hdrs (alloc_finish pool hp a sz) a)"
    and "frame_len (hdrs (alloc_finish pool hp a sz) a) = ucast sz"
    and "headroom (hdrs (alloc_finish pool hp a sz) a) = pl_headroom pool"
proof -
  note core = pool_rep_coreD(1) [OF r] and shape = pool_rep_coreD(2) [OF r]
  have hok: "hdr_ok pool hp a" using core a by (simp add: pool_core_def)
  have szo: "size_ok pool hp a" by (rule pool_rep_coreD(5) [OF r a]) simp
  have pk: "\<not> pl_unsegmented pool" "0 < pl_headroom pool"
    using shape hok ty by (simp_all add: pool_shape_def hdr_ok_def)
  then have nh: "\<not> bh_hdrdata (bhdr hp a)" using shape hok by (auto simp: pool_shape_def hdr_ok_def)
  have cap: "unat (bh_size (bhdr hp a)) = capacity pool hp a" by (rule size_ok_capacity [OF shape hok szo nh])
  have us: "unat (ucast sz :: u32) = unat sz" using sz by (simp add: unsigned_ucast_eq take_bit_nat_eq_self)
  have hs: "unat (pl_headroom pool) + unat sz \<le> unat (pl_seg_size pool) * unat (bh_segcount (bhdr hp a))"
    using fits alloc_totsize_eq [OF sz, of pool] cap by (simp add: capacity_def mult.commute)
  have "0 < unat (pl_headroom pool)" using pk(2) by (simp add: word_less_nat_alt)
  then have pos: "0 < unat (pl_seg_size pool) * unat (bh_segcount (bhdr hp a))" using hs by linarith
  have eq: "hdrs (alloc_finish pool hp a sz) a =
      packet_init pool (buf_hdr_map (\<lambda>b. b\<lparr>bh_zeroized := pl_zeroized pool\<rparr>) (hdrs hp a)) (ucast sz)"
    using ty by (simp add: alloc_finish_def Let_def upd_buf_def)
  show "frame_len (hdrs (alloc_finish pool hp a sz) a) = ucast sz"
    "headroom (hdrs (alloc_finish pool hp a sz) a) = pl_headroom pool"
    unfolding eq by (simp_all add: packet_init_def)
  have seg: "bh_segsize (bhdr hp a) = pl_seg_size pool" using hok by (simp add: hdr_ok_def)
  have p0: "0 < pl_seg_size pool" "1 \<le> bh_segcount (bhdr hp a)"
    using pos by (auto simp: word_less_nat_alt word_le_nat_alt intro: Suc_leI)
  show "packet_ok (hdrs (alloc_finish pool hp a sz) a)"
    unfolding eq
    by (rule packet_init_ok)
       (use hok shape seg hs us p0 in \<open>simp_all add: hdr_ok_def pool_shape_def mult.commute\<close>)
qed


lemma allocated_pool_same:
  "pool_same pool' pool \<Longrightarrow> allocated pool' = allocated pool"
  by (simp add: allocated_def fun_eq_iff pool_same_hdr_list)

text \<open>What a call of \<open>buffer_alloc\<close> promises.\<close>

definition alloc_post ::
    "pool_entry \<Rightarrow> odp_heap \<Rightarrow> u64 \<Rightarrow> addr option \<Rightarrow> pool_entry \<Rightarrow> odp_heap \<Rightarrow> bool" where
  "alloc_post pool hp sz r pool' hp' \<longleftrightarrow>
    pool_same pool' pool \<and> mem hp' = mem hp \<and>
    (\<forall>x\<in>allocated pool hp. hdrs hp' x = hdrs hp x) \<and>
    (case r of
       None \<Rightarrow> allocated pool' hp' = allocated pool hp
     | Some a \<Rightarrow>
         a \<in> set (hdr_list pool) \<and> a \<notin> allocated pool hp \<and>
         allocated pool' hp' = insert a (allocated pool hp) \<and>
         unat (pl_headroom pool) + unat sz + unat (pl_tailroom pool) \<le> unat (bh_size (bhdr hp' a)) \<and>
         (pp_type (pl_params pool) = ODP_POOL_PACKET \<longrightarrow>
            packet_ok (hdrs hp' a) \<and> frame_len (hdrs hp' a) = ucast sz \<and>
            headroom (hdrs hp' a) = pl_headroom pool))"

lemma alloc_finish_post:
  assumes r: "pool_rep {} pool hp caches L bl B"
    and r': "pool_rep {} pool' hp' caches' L' bl' B" and s: "pool_same pool' pool" 
    and a: "a \<in> set (hdr_list pool)" "a \<in> free_hdrs L" and f: "free_hdrs L' = free_hdrs L - {a}"
    and big: "alloc_totsize pool sz \<le> unat (bh_size (bhdr hp' a))" and sz: "unat sz < 2 ^ 32"
    and fr: "\<forall>x. x \<notin> free_hdrs L \<longrightarrow> hdrs hp' x = hdrs hp x" "mem hp' = mem hp"
  shows "pool_inv pool' (alloc_finish pool' hp' a sz) caches' B"
    and "alloc_post pool hp sz (Some a) pool' (alloc_finish pool' hp' a sz)"
proof -
  have a': "a \<in> set (hdr_list pool')" using a pool_same_hdr_list [OF s] by simp
  note fin = alloc_finish_rep [OF r' a', of sz]
  show "pool_inv pool' (alloc_finish pool' hp' a sz) caches' B"
    unfolding pool_inv_def using fin(1) by blast
  have tot: "alloc_totsize pool' = alloc_totsize pool"
    using s by (simp add: alloc_totsize_def pool_same_def fun_eq_iff)
  have al: "allocated pool hp = set (hdr_list pool) - free_hdrs L"
    "allocated pool' (alloc_finish pool' hp' a sz) = set (hdr_list pool) - (free_hdrs L - {a})"
    using allocated_rep [OF r] allocated_rep [OF fin(1)] pool_same_hdr_list [OF s] f by simp_all
  have ty: "bh_type (bhdr hp' a) = pp_type (pl_params pool)"
    using pool_rep_coreD(1) [OF r'] a' s by (simp add: pool_core_def hdr_ok_def pool_same_def)
  have pk: "packet_ok (hdrs (alloc_finish pool' hp' a sz) a) \<and>
      frame_len (hdrs (alloc_finish pool' hp' a sz) a) = ucast sz \<and>
      headroom (hdrs (alloc_finish pool' hp' a sz) a) = pl_headroom pool"
    if "pp_type (pl_params pool) = ODP_POOL_PACKET"
    using alloc_finish_packet [OF r' a' _ sz] that ty big tot s by (simp add: pool_same_def)
  have "\<forall>x\<in>allocated pool hp. hdrs (alloc_finish pool' hp' a sz) x = hdrs hp x"
    using fin(3) fr(1) a(2) al(1) by (metis DiffE)
  then show "alloc_post pool hp sz (Some a) pool' (alloc_finish pool' hp' a sz)"
    unfolding alloc_post_def
    using s fr(2) fin(2,4) a al pk big alloc_totsize_eq [OF sz, of pool] by auto
qed

lemma buffer_alloc_entry_total:
  assumes inv: "pool_rep {} pool hp caches L bl B" and sz: "unat sz < 2 ^ 32"
  shows "\<exists>r cache' pool' hp'. buffer_alloc_entry tid (caches t) pool hp sz = Inr (r, cache', pool', hp') \<and>
    pool_inv pool' hp' (caches(t := cache')) B \<and> alloc_post pool hp sz r pool' hp' \<and>
    (r = None \<longrightarrow> alloc_too_big pool (alloc_totsize pool sz) \<or>
       L None = [] \<and> L (Some t) = [] \<or> length bl * unat (pl_seg_size pool) < alloc_totsize pool sz)"
proof (cases "alloc_too_big pool (alloc_totsize pool sz)")
  case True
  then show ?thesis using inv unfolding pool_inv_def buffer_alloc_entry_def by (auto simp: alloc_post_def)
next
  case False
  let ?tot = "alloc_totsize pool sz"
  have fit: "request_fits pool ?tot" using False request_fits_iff [OF pool_rep_coreD(2) [OF inv]] by simp
  have hl: "L i = a # xs \<Longrightarrow> a \<in> free_hdrs L" for i a xs
    by (auto simp: free_hdrs_def intro!: exI [of _ i])
  show ?thesis using inv fit
  proof (cases rule: get_local_buf_rep [where tid = tid and t = t])
    case empty
    show ?thesis using inv fit
    proof (cases rule: alloc_from_pool_rep [where tid = tid])
      case (none pool' hp' L' bl')
      have "buffer_alloc_entry tid (caches t) pool hp sz = Inr (None, caches t, pool', hp')"
        using False by (simp add: buffer_alloc_entry_def Let_def empty none(1))
      moreover have "pool_inv pool' hp' (caches(t := caches t)) B" using none(2) by (auto simp: pool_inv_def)
      moreover have "alloc_post pool hp sz None pool' hp'"
        using none allocated_rep [OF inv] allocated_rep [OF none(2)]
        by (simp add: alloc_post_def pool_same_hdr_list)
      ultimately show ?thesis using none(5) empty(2) by blast
    next
      case (got a pool' hp' L' bl')
      have "buffer_alloc_entry tid (caches t) pool hp sz =
          Inr (Some a, caches t, pool', alloc_finish pool' hp' a sz)"
        using False got(2) by (simp add: buffer_alloc_entry_def Let_def empty got(1))
      moreover have frm: "\<forall>x. x \<notin> free_hdrs L \<longrightarrow> hdrs hp' x = hdrs hp x" using got(4,10) by metis
      moreover have "pool_inv pool' (alloc_finish pool' hp' a sz) (caches(t := caches t)) B"
        "alloc_post pool hp sz (Some a) pool' (alloc_finish pool' hp' a sz)"
        using alloc_finish_post [OF inv got(5,6,3,4,7,8) sz frm got(9)] by auto
      ultimately show ?thesis by blast
    qed
  next
    case (got a cache' pool' hp' xs bl')
    have s: "pool_same pool' pool" by (rule buf_same_pool_same [OF got(9)])
    have "buffer_alloc_entry tid (caches t) pool hp sz =
        Inr (Some a, cache', pool', alloc_finish pool' hp' a sz)"
      using False got(3) by (simp add: buffer_alloc_entry_def Let_def got(1))
    moreover have frm: "\<forall>x. x \<notin> free_hdrs L \<longrightarrow> hdrs hp' x = hdrs hp x"
      using got(10) hl [OF got(2)] by metis
    moreover have "pool_inv pool' (alloc_finish pool' hp' a sz) (caches(t := cache')) B"
      "alloc_post pool hp sz (Some a) pool' (alloc_finish pool' hp' a sz)"
      using alloc_finish_post [OF inv got(5) s got(4) hl [OF got(2)] got(6) got(8) sz frm got(11)] by auto
    ultimately show ?thesis by blast
  next
    case (failed a cache' pool1 hp1 xs bl1)
    let ?L1 = "L(Some t := xs, None := a # L None)"
    have fit1: "request_fits pool1 ?tot" using fit request_fits_cong [OF failed(7)] by simp
    have al1: "allocated pool1 hp1 = allocated pool hp"
      using allocated_rep [OF inv] allocated_rep [OF failed(5)] pool_same_hdr_list [OF failed(7)] failed(6) by simp
    have fr1: "\<forall>x. x \<notin> free_hdrs L \<longrightarrow> hdrs hp1 x = hdrs hp x"
      using failed(8) hl [OF failed(2)] by metis
    show ?thesis using failed(5) fit1
    proof (cases rule: alloc_from_pool_rep [where tid = tid])
      case (none pool' hp' L' bl')
      have "buffer_alloc_entry tid (caches t) pool hp sz = Inr (None, cache', pool', hp')"
        using False by (simp add: buffer_alloc_entry_def Let_def failed(1) none(1))
      moreover have "pool_inv pool' hp' (caches(t := cache')) B" using none(2) by (auto simp: pool_inv_def)
      moreover have "alloc_post pool hp sz None pool' hp'"
        using none failed(6) fr1 allocated_rep [OF inv] allocated_rep [OF none(2)]
          pool_same_trans [OF none(3) failed(7)] failed(9) pool_same_hdr_list [OF failed(7)]
        by (simp add: alloc_post_def pool_same_hdr_list)
      ultimately show ?thesis using failed(4) by blast
    next
      case (got a' pool' hp' L' bl')
      have hl1: "hdr_list pool1 = hdr_list pool" by (rule pool_same_hdr_list [OF failed(7)])
      have "buffer_alloc_entry tid (caches t) pool hp sz =
          Inr (Some a', cache', pool', alloc_finish pool' hp' a' sz)"
        using False got(2) by (simp add: buffer_alloc_entry_def Let_def failed(1) got(1))
      moreover have frm: "\<forall>x. x \<notin> free_hdrs L \<longrightarrow> hdrs hp' x = hdrs hp x"
        using got(4,10) fr1 failed(6) by metis
      moreover have "pool_inv pool' (alloc_finish pool' hp' a' sz) (caches(t := cache')) B"
        "alloc_post pool hp sz (Some a') pool' (alloc_finish pool' hp' a' sz)"
        using alloc_finish_post [OF inv got(5) pool_same_trans [OF got(6) failed(7)] _ _ _ got(8) sz frm]
          got(3,4,7,9) hl1 failed(6,9) by auto
      ultimately show ?thesis by blast
    qed
  qed
qed

lemma pool_rep_weaken: "pool_rep {} pool hp caches L bl B \<Longrightarrow> pool_rep X pool hp caches L bl B"
  by (auto simp: pool_rep_def)

lemma buffer_free_entry_inv:
  assumes inv: "pool_inv pool hp caches B" and a: "a \<in> allocated pool hp"
  shows "\<exists>cache' pool' hp'. buffer_free_entry (caches t) pool hp a = Inr (cache', pool', hp') \<and>
    pool_inv pool' hp' (caches(t := cache')) B \<and> pool_same pool' pool \<and> mem hp' = mem hp \<and>
    allocated pool' hp' = allocated pool hp - {a} \<and> (\<forall>x. x \<noteq> a \<longrightarrow> hdrs hp' x = hdrs hp x)"
proof -
  obtain L bl where r: "pool_rep {} pool hp caches L bl B" using inv by (auto simp: pool_inv_def)
  have a': "a \<in> set (hdr_list pool)" "a \<notin> free_hdrs L" using a allocated_rep [OF r] by auto
  have sz: "size_ok pool hp a" by (rule pool_rep_coreD(5) [OF r a'(1)]) simp
  show ?thesis
  proof (cases "pl_low_wm_assert pool")
    case True
    obtain pool' hp' bl' where rb: "ret_buf pool hp a = Inr (pool', hp')"
      "pool_rep {} pool' hp' caches (L(None := a # L None)) bl' B"
      "free_hdrs (L(None := a # L None)) = insert a (free_hdrs L)" "pool_same pool' pool"
      "\<forall>x. x \<noteq> a \<longrightarrow> hdrs hp' x = hdrs hp x" "mem hp' = mem hp"
      by (rule ret_buf_rep [OF pool_rep_weaken [OF r] a' sz]) blast+
    have "buffer_free_entry (caches t) pool hp a = Inr (caches t, pool', hp')"
      using True rb(1) by (simp add: buffer_free_entry_def)
    moreover have "pool_inv pool' hp' (caches(t := caches t)) B" using rb(2) by (auto simp: pool_inv_def)
    moreover have "allocated pool' hp' = allocated pool hp - {a}"
      using allocated_rep [OF r] allocated_rep [OF rb(2)] rb(3) pool_same_hdr_list [OF rb(4)] by auto
    ultimately show ?thesis using rb(4-6) by blast
  next
    case False
    obtain cache' hp' where g: "ret_local_buf (caches t) hp a = (cache', hp')" by (metis surj_pair)
    note rl = ret_local_buf_rep [OF r a' g]
    have "buffer_free_entry (caches t) pool hp a = Inr (cache', pool, hp')"
      using False g by (simp add: buffer_free_entry_def)
    moreover have "pool_inv pool hp' (caches(t := cache')) B" using rl(1) by (auto simp: pool_inv_def)
    moreover have "allocated pool hp' = allocated pool hp - {a}"
      using allocated_rep [OF r] allocated_rep [OF rl(1)] rl(2) by auto
    ultimately show ?thesis using rl(3,4) pool_same_refl by blast
  qed
qed

text \<open>
  Flushing: while the cache list is being walked, its remaining headers \<open>xs\<close> are on no list the
  invariant knows except the one that starts at \<open>buf\<close>.
\<close>

lemma flush_loop_rep:
  assumes "pool_rep {} pool hp (caches(t := c)) L bl B" "L (Some t) = xs" "lc_freelist c = buf"
  shows "\<exists>pool' hp' L' bl'. flush_loop pool hp buf n = Some (Inr (n + of_nat (length xs), pool', hp')) \<and>
    pool_rep {} pool' hp' (caches(t := c\<lparr>lc_freelist := NULL\<rparr>)) L' bl' B \<and> L' (Some t) = [] \<and>
    free_hdrs L' = free_hdrs L \<and> pool_same pool' pool \<and> mem hp' = mem hp \<and>
    (\<forall>x. x \<notin> free_hdrs L \<longrightarrow> hdrs hp' x = hdrs hp x) \<and>
    pl_bufcount pool' = pl_bufcount pool + of_nat (length xs)"
  using assms
proof (induction xs arbitrary: pool hp c L bl buf n)
  case Nil
  then have "linked (hdr_next hp) buf []"
    unfolding pool_rep_def pool_core_def by (metis fun_upd_same list_heads_simps(2))
  then have b: "buf = NULL" by simp
  then have c: "c\<lparr>lc_freelist := NULL\<rparr> = c" using Nil by (cases c) simp
  show ?case
    unfolding c using Nil b
    by (subst flush_loop.simps) (auto simp del: fun_upd_apply simp: list.size intro!: exI [of _ L] exI [of _ bl])
next
  case (Cons a xs)
  note r = Cons.prems(1)
  have "linked (hdr_next hp) buf (a # xs)"
    using r Cons.prems(2,3) unfolding pool_rep_def pool_core_def by (metis fun_upd_same list_heads_simps(2))
  then have b: "buf = a" "a \<noteq> NULL" by auto
  note pop = pool_core_pop [OF pool_rep_coreD(1) [OF r] Cons.prems(2)]
  let ?c1 = "c\<lparr>lc_freelist := hdr_next hp a\<rparr>" let ?L1 = "L(Some t := xs)"
  have r1: "pool_rep {a} pool hp (caches(t := ?c1)) ?L1 bl B"
    using r pop(1) unfolding pool_rep_def pop(5) list_heads_cache fun_upd_upd by auto
  have nf: "a \<notin> free_hdrs ?L1" by (simp add: pop(5))
  have sz: "size_ok pool hp a" by (rule pool_rep_coreD(5) [OF r pop(3)]) simp
  obtain pool1 hp1 bl1 where rb: "ret_buf pool hp a = Inr (pool1, hp1)"
    "pool_rep {} pool1 hp1 (caches(t := ?c1)) (?L1(None := a # ?L1 None)) bl1 B"
    "free_hdrs (?L1(None := a # ?L1 None)) = insert a (free_hdrs ?L1)" "pool_same pool1 pool"
    "\<forall>x. x \<noteq> a \<longrightarrow> hdrs hp1 x = hdrs hp x" "mem hp1 = mem hp"
    "pl_bufcount pool1 = pl_bufcount pool + 1"
    by (rule ret_buf_rep [OF r1 pop(3) nf sz]) blast+
  have aL: "a \<in> free_hdrs L" using Cons.prems(2) by (auto simp: free_hdrs_def intro!: exI [of _ "Some t"])
  have f1: "free_hdrs (?L1(None := a # ?L1 None)) = free_hdrs L"
    unfolding rb(3) pop(5) using aL by blast
  have fl: "flush_loop pool hp buf n = flush_loop pool1 hp1 (hdr_next hp a) (n + 1)"
    using b rb(1) by (subst flush_loop.simps) simp
  obtain pool' hp' L' bl' where IH:
    "flush_loop pool1 hp1 (hdr_next hp a) (n + 1) = Some (Inr (n + 1 + of_nat (length xs), pool', hp'))"
    "pool_rep {} pool' hp' (caches(t := ?c1\<lparr>lc_freelist := NULL\<rparr>)) L' bl' B" "L' (Some t) = []"
    "free_hdrs L' = free_hdrs (?L1(None := a # ?L1 None))" "pool_same pool' pool1" "mem hp' = mem hp1"
    "\<forall>x. x \<notin> free_hdrs (?L1(None := a # ?L1 None)) \<longrightarrow> hdrs hp' x = hdrs hp1 x"
    "pl_bufcount pool' = pl_bufcount pool1 + of_nat (length xs)"
  proof -
    have "(?L1(None := a # ?L1 None)) (Some t) = xs" "lc_freelist ?c1 = hdr_next hp a" by simp_all
    from Cons.IH [OF rb(2) this, of "n + 1"] show thesis using that by blast
  qed
  have rr: "pool_rep {} pool' hp' (caches(t := c\<lparr>lc_freelist := NULL\<rparr>)) L' bl' B" using IH(2) by simp
  have frm: "\<forall>x. x \<notin> free_hdrs L \<longrightarrow> hdrs hp' x = hdrs hp x" using IH(7) rb(5) aL f1 by metis
  have "flush_loop pool hp buf n = Some (Inr (n + of_nat (length (a # xs)), pool', hp'))"
    using fl IH(1) by (simp add: add.assoc)
  moreover have "pl_bufcount pool' = pl_bufcount pool + of_nat (length (a # xs))"
    using IH(8) rb(7) by (simp add: add.assoc)
  moreover have "free_hdrs L' = free_hdrs L" "mem hp' = mem hp" using IH(4,6) f1 rb(6) by simp_all
  ultimately show ?case using rr frm IH(3) pool_same_trans [OF IH(5) rb(4)] by blast
qed

lemma flush_cache_inv:
  assumes inv: "pool_inv pool hp caches B"
  shows "\<exists>cache' pool' hp'. flush_cache (caches t) pool hp = Some (Inr (cache', pool', hp')) \<and>
    pool_inv pool' hp' (caches(t := cache')) B \<and> lc_freelist cache' = NULL \<and> pool_same pool' pool \<and>
    mem hp' = mem hp \<and> allocated pool' hp' = allocated pool hp \<and>
    (\<forall>x\<in>allocated pool hp. hdrs hp' x = hdrs hp x)"
proof -
  obtain L bl where r: "pool_rep {} pool hp caches L bl B" using inv by (auto simp: pool_inv_def)
  have r0: "pool_rep {} pool hp (caches(t := caches t)) L bl B" using r by simp
  obtain pool' hp' L' bl' where fl:
    "flush_loop pool hp (lc_freelist (caches t)) 0 = Some (Inr (of_nat (length (L (Some t))), pool', hp'))"
    "pool_rep {} pool' hp' (caches(t := (caches t)\<lparr>lc_freelist := NULL\<rparr>)) L' bl' B"
    "free_hdrs L' = free_hdrs L" "pool_same pool' pool" "mem hp' = mem hp"
    "\<forall>x. x \<notin> free_hdrs L \<longrightarrow> hdrs hp' x = hdrs hp x"
    using flush_loop_rep [OF r0 refl refl, of 0] by auto
  let ?st = "\<lambda>st. st\<lparr>bufallocs := bufallocs st + lc_bufallocs (caches t),
      buffrees := buffrees st + (lc_buffrees (caches t) - ucast (of_nat (length (L (Some t))) :: u32))\<rparr>"
  let ?c0 = "\<lparr>lc_freelist = NULL, lc_bufallocs = 0, lc_buffrees = 0\<rparr>"
  let ?p = "stats_map ?st pool'"
  have s: "buf_same ?p pool'" by (simp add: buf_same_def pool_same_def)
  have ps: "pool_same ?p pool" using pool_same_trans [OF buf_same_pool_same [OF s] fl(4)] .
  have "flush_cache (caches t) pool hp = Some (Inr (?c0, ?p, hp'))"
    by (simp add: flush_cache_def fl(1))
  moreover have rp: "pool_rep {} ?p hp' (caches(t := ?c0)) L' bl' B"
  proof -
    have lh: "list_heads ?p cs = list_heads pool' cs" for cs
      by (simp add: list_heads_def fun_eq_iff split: option.split)
    have "pool_core ?p hp' ((list_heads pool' caches)(Some t := NULL)) L' bl' B"
      by (rule pool_core_heads_cong [OF _ buf_same_pool_same [OF s]])
         (use pool_rep_coreD(1) [OF fl(2)] in simp_all)
    then show ?thesis
      using fl(2) unfolding pool_rep_def pool_same_cong [OF buf_same_pool_same [OF s]]
        pool_shape_cong [OF buf_same_pool_same [OF s]] lh by simp
  qed
  ultimately show ?thesis
    using ps fl(3,5,6) allocated_rep [OF r] allocated_rep [OF rp] pool_same_hdr_list [OF ps]
    by (intro exI [of _ ?c0] exI [of _ ?p] exI [of _ hp']) (auto simp: pool_inv_def)
qed

end
