(* ===== verification/Odp_Pool_Create.thy ===== *)
theory Odp_Pool_Create
  imports Odp_Pool_Rep
begin

text \<open>
  Creation, lookup, information and destruction of pools (\<open>odp_pool.c\<close>). The sizes the compiler
  gives to the header structures are the fields of an \<open>odp_abi\<close> record; the handle and address
  that \<open>odp_shm_reserve\<close> and \<open>odp_shm_addr\<close> return are arguments.
\<close>

section \<open>Definitions\<close>

record odp_abi =
  sizeof_buffer_hdr_stride :: u32
  sizeof_packet_hdr_stride :: u32
  sizeof_timeout_hdr_stride :: u32
  offsetof_addr_1 :: int

text \<open>The values that \<open>odp_pool_create\<close> computes before it looks for a free slot.\<close>

record pool_geometry =
  g_unseg :: bool
  g_headroom :: u32
  g_tailroom :: u32
  g_buf_num :: u32
  g_blk_size :: u32
  g_seg_len :: u32
  g_buf_stride :: u32
  g_buf_align :: u32
  g_udata_size :: u32
  g_udata_stride :: u32

definition default_params :: "odp_pool_param \<Rightarrow> odp_pool_param" where
  "default_params params =
    (if pp_type params = ODP_POOL_TIMEOUT then params\<lparr>pp_size_len := 0, pp_align_seg_len := 0\<rparr> else params)"

definition buffer_geometry :: "odp_abi \<Rightarrow> odp_pool_param \<Rightarrow> u32 \<Rightarrow> pool_geometry" where
  "buffer_geometry abi params buf_align =
    \<lparr>g_unseg = True, g_headroom = 0, g_tailroom = 0, g_buf_num = pp_num params,
     g_blk_size =
       (if unat (pp_size_len params) > ODP_MAX_INLINE_BUF \<or> pp_align_seg_len params \<noteq> 0
        then ODP_ALIGN_ROUNDUP (pp_size_len params) buf_align else pp_size_len params),
     g_seg_len = 0, g_buf_stride = sizeof_buffer_hdr_stride abi, g_buf_align = buf_align,
     g_udata_size = 0, g_udata_stride = 0\<rparr>"

definition packet_seg_len :: "u32 \<Rightarrow> u32" where
  "packet_seg_len seg_len =
    ODP_ALIGN_ROUNDUP
      (ODP_CONFIG_PACKET_HEADROOM +
       (if seg_len \<le> ODP_CONFIG_PACKET_SEG_LEN_MIN then ODP_CONFIG_PACKET_SEG_LEN_MIN
        else if seg_len \<le> ODP_CONFIG_PACKET_SEG_LEN_MAX then seg_len
        else ODP_CONFIG_PACKET_SEG_LEN_MAX) +
       ODP_CONFIG_PACKET_TAILROOM)
      ODP_CONFIG_BUFFER_ALIGN_MIN"

definition packet_geometry :: "odp_abi \<Rightarrow> odp_pool_param \<Rightarrow> u32 \<Rightarrow> pool_geometry option" where
  "packet_geometry abi params buf_align =
    (let seg_len = packet_seg_len (pp_align_seg_len params);
         blk_size = (if pp_size_len params \<le> seg_len then seg_len
                     else ODP_ALIGN_ROUNDUP (pp_size_len params) seg_len)
     in if unat (blk_size div seg_len) > ODP_BUFFER_MAX_SEG then None
        else Some
          \<lparr>g_unseg = False, g_headroom = ODP_CONFIG_PACKET_HEADROOM, g_tailroom = ODP_CONFIG_PACKET_TAILROOM,
           g_buf_num = pp_num params, g_blk_size = blk_size, g_seg_len = seg_len,
           g_buf_stride = sizeof_packet_hdr_stride abi, g_buf_align = buf_align,
           g_udata_size = pp_uarea_size params,
           g_udata_stride = ucast (ODP_ALIGN_ROUNDUP (ucast (pp_uarea_size params) :: u64) 8)\<rparr>)"

definition timeout_geometry :: "odp_abi \<Rightarrow> odp_pool_param \<Rightarrow> u32 \<Rightarrow> pool_geometry" where
  "timeout_geometry abi params buf_align =
    \<lparr>g_unseg = True, g_headroom = 0, g_tailroom = 0, g_buf_num = pp_num params, g_blk_size = 0,
     g_seg_len = 0, g_buf_stride = sizeof_timeout_hdr_stride abi, g_buf_align = buf_align,
     g_udata_size = 0, g_udata_stride = 0\<rparr>"

text \<open>The checks of the parameters; \<open>Inr None\<close> is a rejected request.\<close>

definition pool_create_geometry :: "odp_abi \<Rightarrow> odp_pool_param \<Rightarrow> c_error + pool_geometry option" where
  "pool_create_geometry abi params =
    (let align0 = (if pp_type params = ODP_POOL_BUFFER then pp_align_seg_len params else 0);
         buf_align = (if align0 = 0 then ODP_CACHE_LINE_SIZE
                      else if align0 < ODP_CONFIG_BUFFER_ALIGN_MIN then ODP_CONFIG_BUFFER_ALIGN_MIN
                      else align0);
         geo = (if pp_type params = ODP_POOL_BUFFER then Some (buffer_geometry abi params buf_align)
                else if pp_type params = ODP_POOL_PACKET then packet_geometry abi params buf_align
                else if pp_type params = ODP_POOL_TIMEOUT then Some (timeout_geometry abi params buf_align)
                else None)
     in if align0 > ODP_CONFIG_BUFFER_ALIGN_MAX \<or> align0 \<noteq> ODP_ALIGN_ROUNDDOWN_POWER_2 align0 align0
        then Inr None
        else case geo of
          None \<Rightarrow> Inr None
        | Some g \<Rightarrow>
            if g_buf_stride g div ODP_CACHE_LINE_SIZE = 0 then Inl Div_By_Zero
            else if unat (g_buf_num g) >
                 ODP_BUFFER_MAX_BUFFERS div unat (g_buf_stride g div ODP_CACHE_LINE_SIZE)
            then Inr None
            else Inr (Some g))"

text \<open>The layout of the memory of a pool: blocks, padding, headers, user areas.\<close>

definition geo_block_size :: "pool_geometry \<Rightarrow> u64" where
  "geo_block_size g =
    (if unat (g_blk_size g) \<le> ODP_MAX_INLINE_BUF then 0 else ucast (g_buf_num g * g_blk_size g))"

definition geo_pad_size :: "pool_geometry \<Rightarrow> u64" where
  "geo_pad_size g = ODP_CACHE_LINE_SIZE_ROUNDUP (geo_block_size g) - geo_block_size g"

definition geo_mdata_size :: "pool_geometry \<Rightarrow> u64" where
  "geo_mdata_size g = ucast (g_buf_num g * g_buf_stride g)"

definition geo_udata_size :: "pool_geometry \<Rightarrow> u64" where
  "geo_udata_size g = ucast (g_buf_num g * g_udata_stride g)"

definition geo_pool_size :: "pool_geometry \<Rightarrow> u64" where
  "geo_pool_size g =
    ODP_PAGE_SIZE_ROUNDUP (geo_block_size g + geo_pad_size g + geo_mdata_size g + geo_udata_size g)"

text \<open>The body of the first do-while loop: one header is initialised and freed.\<close>

definition create_hdr :: "odp_abi \<Rightarrow> pool_entry \<Rightarrow> u32 \<Rightarrow> addr \<Rightarrow> addr \<Rightarrow> odp_buffer_hdr \<Rightarrow> odp_buffer_hdr" where
  "create_hdr abi pool blk_size buf udat tmp =
    (let tmp1 = tmp
           \<lparr>bh_allocator := ODP_FREEBUF,
            bh_zeroized := pl_zeroized pool, bh_hdrdata := False,
            bh_size := 0, bh_ref_count := 0,
            bh_type := pp_type (pl_params pool), bh_event_type := pp_type (pl_params pool),
            bh_pool_hdl := pl_pool_hdl pool,
            bh_uarea_addr := udat, bh_uarea_size := pl_udata_size pool,
            bh_segcount := 0, bh_segsize := pl_seg_size pool,
            bh_handle := odp_buffer_encode_handle pool (pool_handle_to_index (pl_pool_hdl pool)) buf,
            bh_addr := (bh_addr tmp)[0 := NULL]\<rparr>
     in if unat blk_size \<le> ODP_MAX_INLINE_BUF
        then let tmp2 = tmp1\<lparr>bh_hdrdata := True\<rparr>
             in if blk_size > 0
                then tmp2\<lparr>bh_segcount := 1, bh_addr := (bh_addr tmp2)[0 := buf + offsetof_addr_1 abi],
                          bh_size := blk_size\<rparr>
                else tmp2
        else tmp1)"

text \<open>
  The two do-while loops; a stride or a segment size of zero would keep them running, so they
  are partial, and \<open>None\<close> is a loop that does not end.
\<close>

partial_function (option) create_bufs ::
    "odp_abi \<Rightarrow> u32 \<Rightarrow> u32 \<Rightarrow> addr \<Rightarrow> addr \<Rightarrow> addr \<Rightarrow> pool_entry \<Rightarrow> odp_heap
      \<Rightarrow> (c_error + (pool_entry \<times> odp_heap)) option" where
  "create_bufs abi blk_size udata_stride mdata_base buf udat pool hp =
    (case ret_buf pool (upd_buf buf (create_hdr abi pool blk_size buf udat) hp) buf of
       Inl e \<Rightarrow> Some (Inl e)
     | Inr (pool1, hp1) \<Rightarrow>
         if buf - int (unat (pl_buf_stride pool)) \<ge> mdata_base
         then create_bufs abi blk_size udata_stride mdata_base (buf - int (unat (pl_buf_stride pool)))
                (udat - int (unat udata_stride)) pool1 hp1
         else Some (Inr (pool1, hp1)))"

partial_function (option) create_blks ::
    "addr \<Rightarrow> addr \<Rightarrow> pool_entry \<Rightarrow> odp_heap \<Rightarrow> (pool_entry \<times> odp_heap) option" where
  "create_blks block_base blk pool hp =
    (let (pool1, hp1) = ret_blk pool hp blk
     in if blk - int (unat (pl_seg_size pool)) \<ge> block_base
        then create_blks block_base (blk - int (unat (pl_seg_size pool))) pool1 hp1
        else Some (pool1, hp1))"

definition zero_stats :: odp_pool_stats where
  "zero_stats = \<lparr>bufallocs = 0, buffrees = 0, blkallocs = 0, blkfrees = 0, bufempty = 0, blkempty = 0,
     high_wm_count = 0, low_wm_count = 0\<rparr>"

text \<open>The entry before \<open>odp_shm_reserve\<close> is called.\<close>

definition create_claim :: "string option \<Rightarrow> odp_pool_param \<Rightarrow> pool_geometry \<Rightarrow> pool_entry \<Rightarrow> pool_entry" where
  "create_claim name params g pool = pool
    \<lparr>pl_has_name := (name \<noteq> None), pl_unsegmented := False, pl_zeroized := False, pl_predefined := False,
     pl_name := (case name of None \<Rightarrow> [] | Some nm \<Rightarrow> take (ODP_POOL_NAME_LEN - 1) nm),
     pl_params := params,
     pl_buf_align := (if unat (g_blk_size g) \<le> ODP_MAX_INLINE_BUF
                      then (if g_blk_size g = 0 then 0 else 8) else g_buf_align g),
     pl_buf_num := g_buf_num g,
     pl_pool_size := geo_pool_size g\<rparr>"

text \<open>The entry when the loops start.\<close>

definition create_layout :: "pool_geometry \<Rightarrow> u32 \<Rightarrow> addr \<Rightarrow> pool_entry \<Rightarrow> pool_entry" where
  "create_layout g shm base pool = pool
    \<lparr>pl_base_addr := base, pl_pool_shm := shm,
     pl_unsegmented := g_unseg g, pl_zeroized := False,
     pl_seg_size := (if g_unseg g then g_blk_size g else g_seg_len g),
     pl_blk_size := g_blk_size g,
     pl_mdata_addr := base + int (unat (geo_block_size g)) + int (unat (geo_pad_size g)),
     pl_udata_size := g_udata_size g,
     pl_buf_stride := g_buf_stride g, pl_buf_freelist := NULL, pl_blk_freelist := NULL,
     pl_bufcount := 0, pl_blkcount := 0\<rparr>"

definition create_finish :: "pool_geometry \<Rightarrow> pool_entry \<Rightarrow> pool_entry" where
  "create_finish g pool = pool
    \<lparr>pl_stats := zero_stats, pl_low_wm_assert := False, pl_quiesced := False,
     pl_headroom := g_headroom g, pl_tailroom := g_tailroom g,
     pl_high_wm := g_buf_num g div 2, pl_low_wm := g_buf_num g div 4\<rparr>"

definition create_in_slot ::
    "odp_abi \<Rightarrow> pool_geometry \<Rightarrow> u32 \<Rightarrow> addr \<Rightarrow> pool_entry \<Rightarrow> odp_heap
      \<Rightarrow> (c_error + (pool_entry \<times> odp_heap)) option" where
  "create_in_slot abi g shm base claimed hp =
    (let pool0 = create_layout g shm base claimed;
         udata_base = pl_mdata_addr pool0 + int (unat (geo_mdata_size g));
         buf = udata_base - int (unat (g_buf_stride g));
         udat = (if g_udata_stride g = 0 then NULL
                 else udata_base + int (unat (geo_udata_size g)) - int (unat (g_udata_stride g)));
         blk = base + int (unat (geo_block_size g)) - int (unat (pl_seg_size pool0))
     in case create_bufs abi (g_blk_size g) (g_udata_stride g) (pl_mdata_addr pool0) buf udat pool0 hp of
          None \<Rightarrow> None
        | Some (Inl e) \<Rightarrow> Some (Inl e)
        | Some (Inr (pool1, hp1)) \<Rightarrow>
            if unat (g_blk_size g) > ODP_MAX_INLINE_BUF
            then (case create_blks base blk pool1 hp1 of
                    None \<Rightarrow> None
                  | Some (pool2, hp2) \<Rightarrow> Some (Inr (create_finish g pool2, hp2)))
            else Some (Inr (create_finish g pool1, hp1)))"

text \<open>The search for a free slot, the first entry without a shared memory block.\<close>

definition free_slot :: "odp_state \<Rightarrow> nat option" where
  "free_slot st = find (\<lambda>i. pl_pool_shm (pool_tbl st ! i) = ODP_SHM_INVALID) [0..<length (pool_tbl st)]"

text \<open>
  \<open>odp_pool_create\<close>; \<open>params\<close> is \<open>None\<close> for a null pointer, and \<open>shm_reserve\<close> gives the handle and
  address the shared memory module returns for a name and a size. The caller's parameter structure,
  which the code may change for timeouts, is part of the result.
\<close>

definition odp_pool_create ::
    "odp_abi \<Rightarrow> (string \<Rightarrow> u64 \<Rightarrow> u32 \<times> addr) \<Rightarrow> string option \<Rightarrow> odp_pool_param option \<Rightarrow> odp_state
      \<Rightarrow> (c_error + (u32 \<times> odp_state)) option" where
  "odp_pool_create abi shm_reserve name params0 st =
    (case params0 of
       None \<Rightarrow> Some (Inr (ODP_POOL_INVALID, st))
     | Some p \<Rightarrow>
         (case pool_create_geometry abi (default_params p) of
            Inl e \<Rightarrow> Some (Inl e)
          | Inr None \<Rightarrow> Some (Inr (ODP_POOL_INVALID, st))
          | Inr (Some g) \<Rightarrow>
              (case free_slot st of
                 None \<Rightarrow> Some (Inr (ODP_POOL_INVALID, st))
               | Some i \<Rightarrow>
                   let claimed = create_claim name (default_params p) g (pool_tbl st ! i);
                       (shm, base) = shm_reserve (pl_name claimed) (pl_pool_size claimed)
                   in if shm = ODP_SHM_INVALID
                      then Some (Inr (ODP_POOL_INVALID, st\<lparr>pool_tbl := (pool_tbl st)[i := claimed]\<rparr>))
                      else map_option (\<lambda>r. and_then r (\<lambda>(pool, hp).
                             Inr (pl_pool_hdl pool, st\<lparr>pool_tbl := (pool_tbl st)[i := pool], heap := hp\<rparr>)))
                             (create_in_slot abi g shm base claimed (heap st)))))"

definition zero_pool_entry :: pool_entry where
  "zero_pool_entry =
    \<lparr>pl_name = [], pl_params = \<lparr>pp_type = 0, pp_num = 0, pp_size_len = 0, pp_align_seg_len = 0, pp_uarea_size = 0\<rparr>,
     pl_udata_size = 0, pl_pool_hdl = 0, pl_pool_id = 0, pl_pool_shm = 0,
     pl_has_name = False, pl_unsegmented = False, pl_zeroized = False, pl_predefined = False,
     pl_quiesced = False, pl_low_wm_assert = False,
     pl_base_addr = NULL, pl_mdata_addr = NULL, pl_pool_size = 0, pl_buf_align = 0, pl_buf_stride = 0,
     pl_buf_freelist = NULL, pl_blk_freelist = NULL, pl_bufcount = 0, pl_blkcount = 0,
     pl_stats = zero_stats, pl_buf_num = 0, pl_seg_size = 0, pl_blk_size = 0, pl_high_wm = 0,
     pl_low_wm = 0, pl_headroom = 0, pl_tailroom = 0\<rparr>"

text \<open>The table is cleared, then every entry gets its identity and its counters.\<close>

definition odp_pool_init_global :: "addr \<Rightarrow> odp_state \<Rightarrow> int \<times> odp_state" where
  "odp_pool_init_global tbl_addr st =
    (if tbl_addr = NULL then (-1, st)
     else (0, st\<lparr>pool_tbl :=
       map (\<lambda>i. zero_pool_entry\<lparr>pl_pool_hdl := pool_index_to_handle (of_nat i), pl_pool_id := of_nat i,
                        pl_bufcount := 0, pl_blkcount := 0, pl_stats := zero_stats\<rparr>)
         [0..<ODP_CONFIG_POOLS]\<rparr>))"

definition odp_pool_term_global :: "int \<Rightarrow> odp_state \<Rightarrow> int" where
  "odp_pool_term_global shm_free_ret st =
    (let rc = (if \<exists>pool\<in>set (pool_tbl st). pl_pool_shm pool \<noteq> ODP_SHM_INVALID then -1 else 0)
     in if shm_free_ret < 0 then -1 else rc)"

definition odp_pool_lookup :: "string \<Rightarrow> odp_state \<Rightarrow> u32" where
  "odp_pool_lookup name st =
    (case find (\<lambda>pool. name = pl_name pool) (pool_tbl st) of
       Some pool \<Rightarrow> pl_pool_hdl pool
     | None \<Rightarrow> ODP_POOL_INVALID)"

text \<open>\<open>have_info\<close> is false for a null \<open>info\<close> pointer; the second component is what \<open>info\<close> receives.\<close>

definition odp_pool_info :: "u32 \<Rightarrow> bool \<Rightarrow> odp_state \<Rightarrow> c_error + (int \<times> (string \<times> odp_pool_param) option)" where
  "odp_pool_info pool_hdl have_info st =
    and_then (get_pool_entry st (pool_handle_to_index pool_hdl))
      (\<lambda>pool. if have_info then Inr (0, Some (pl_name pool, pl_params pool)) else Inr (-1, None))"

definition odp_pool_destroy :: "nat \<Rightarrow> u32 \<Rightarrow> odp_state \<Rightarrow> (c_error + (int \<times> odp_state)) option" where
  "odp_pool_destroy tid pool_hdl st =
    (let i = unat (pool_handle_to_index pool_hdl)
     in case get_pool_entry st (pool_handle_to_index pool_hdl) of
          Inl e \<Rightarrow> Some (Inl e)
        | Inr pool \<Rightarrow>
            if pl_pool_shm pool = ODP_SHM_INVALID \<or> pl_predefined pool then Some (Inr (-1, st))
            else (case flush_cache (local_caches st tid i) pool (heap st) of
                    None \<Rightarrow> None
                  | Some (Inl e) \<Rightarrow> Some (Inl e)
                  | Some (Inr (cache, pool1, hp1)) \<Rightarrow>
                      if pl_bufcount pool1 < pl_buf_num pool1
                      then Some (Inr (-1, put_pool tid i cache pool1 hp1 st))
                      else Some (Inr (0, put_pool tid i cache (pool1\<lparr>pl_pool_shm := ODP_SHM_INVALID\<rparr>) hp1 st))))"

definition odp_pool_param_init :: odp_pool_param where
  "odp_pool_param_init =
    \<lparr>pp_type = 0, pp_num = 0, pp_size_len = 0, pp_align_seg_len = 0, pp_uarea_size = 0\<rparr>"

section \<open>Creation establishes the invariant\<close>

abbreviation hdr_at :: "pool_entry \<Rightarrow> nat \<Rightarrow> addr" where
  "hdr_at pool i \<equiv> pl_mdata_addr pool + int (i * unat (pl_buf_stride pool))"

definition fresh_hdr :: "pool_entry \<Rightarrow> odp_heap \<Rightarrow> addr \<Rightarrow> bool" where
  "fresh_hdr pool hp a \<longleftrightarrow> hdr_ok pool hp a \<and> size_ok pool hp a \<and> owned hp a = [] \<and>
    bh_allocator (bhdr hp a) = ODP_FREEBUF"

lemma fresh_hdr_cong:
  "pool_same p q \<Longrightarrow> fresh_hdr p = fresh_hdr q"
  by (simp add: fresh_hdr_def fun_eq_iff pool_same_cong)

lemma fresh_hdr_frame: "hdrs hp' a = hdrs hp a \<Longrightarrow> fresh_hdr pool hp' a = fresh_hdr pool hp a"
  by (simp add: fresh_hdr_def hdr_ok_def size_ok_def owned_def)

lemma create_hdr_ret_buf:
  assumes "length (bh_addr (bhdr hp a)) = ODP_BUFFER_MAX_SEG"
    and "ret_buf_list pool hp1 a = (pool', hp')"
    and hp1: "hp1 = upd_buf a (create_hdr abi pool (pl_blk_size pool) a udat) hp"
  shows "ret_buf pool hp1 a = Inr (pool', hp')" and "fresh_hdr pool hp' a"
    and "bh_next (bhdr hp' a) = pl_buf_freelist pool"
    and "\<forall>x. x \<noteq> a \<longrightarrow> hdrs hp' x = hdrs hp x" "mem hp' = mem hp" "blk_next hp' = blk_next hp"
    and "pool_same pool' pool" "pl_buf_freelist pool' = a" "pl_bufcount pool' = pl_bufcount pool + 1"
    and "pl_blk_freelist pool' = pl_blk_freelist pool" "pl_blkcount pool' = pl_blkcount pool"
proof -
  let ?b = "create_hdr abi pool (pl_blk_size pool) a udat (bhdr hp a)"
  have b1: "bhdr hp1 a = ?b" by (simp add: hp1)
  have seg: "\<not> bh_hdrdata ?b \<Longrightarrow> bh_segcount ?b = 0 \<and> bh_size ?b = 0"
    by (auto simp: create_hdr_def Let_def)
  have hp1': "\<not> bh_hdrdata ?b \<Longrightarrow> upd_buf a (\<lambda>b. b\<lparr>bh_size := 0\<rparr>) hp1 = hp1"
  proof -
    assume "\<not> bh_hdrdata ?b"
    then have "?b\<lparr>bh_size := 0\<rparr> = ?b" using seg by (cases ?b) simp
    then show ?thesis unfolding hp1 by (simp add: upd_buf_def upd_hdr_def)
  qed
  show "ret_buf pool hp1 a = Inr (pool', hp')"
    using assms(2) seg hp1' unfolding ret_buf_def b1 Let_def by simp
  have hp': "hp' = upd_buf a (\<lambda>b. b\<lparr>bh_allocator := ODP_FREEBUF, bh_next := pl_buf_freelist pool\<rparr>) hp1"
    using assms(2) by (simp add: ret_buf_list_def Let_def)
  show "fresh_hdr pool hp' a"
    using assms(1) unfolding hp' hp1
    by (auto simp: fresh_hdr_def hdr_ok_def size_ok_def owned_def create_hdr_def Let_def
        pool_handle_to_index_def word_greater_zero_iff)
  show "bh_next (bhdr hp' a) = pl_buf_freelist pool" by (simp add: hp')
  show "\<forall>x. x \<noteq> a \<longrightarrow> hdrs hp' x = hdrs hp x" "mem hp' = mem hp" "blk_next hp' = blk_next hp"
    by (simp_all add: hp' hp1 upd_buf_def)
  show "pool_same pool' pool" "pl_buf_freelist pool' = a" "pl_bufcount pool' = pl_bufcount pool + 1"
    "pl_blk_freelist pool' = pl_blk_freelist pool" "pl_blkcount pool' = pl_blkcount pool"
    using assms(2) by (auto simp: ret_buf_list_def Let_def pool_same_def split: if_splits)
qed

lemma hdr_at_eq_iff: "0 < pl_buf_stride pool \<Longrightarrow> hdr_at pool i = hdr_at pool j \<longleftrightarrow> i = j"
  by (simp add: word_less_nat_alt flip: of_nat_mult)

text \<open>One turn of the loop, and the whole loop.\<close>

definition bufs_done :: "pool_entry \<Rightarrow> odp_heap \<Rightarrow> nat \<Rightarrow> nat \<Rightarrow> bool" where
  "bufs_done pool hp k n \<longleftrightarrow>
    linked (hdr_next hp) (pl_buf_freelist pool) (map (hdr_at pool) [k..<n]) \<and>
    (\<forall>i\<in>{k..<n}. fresh_hdr pool hp (hdr_at pool i)) \<and>
    (\<forall>i<n. length (bh_addr (bhdr hp (hdr_at pool i))) = ODP_BUFFER_MAX_SEG)"

lemma create_bufs_step:
  assumes st: "0 < pl_buf_stride pool" and k: "k < n" and m: "0 < pl_mdata_addr pool"
    and d: "bufs_done pool hp (Suc k) n"
  obtains pool1 hp1 where
    "ret_buf pool (upd_buf (hdr_at pool k) (create_hdr abi pool (pl_blk_size pool) (hdr_at pool k) udat) hp)
       (hdr_at pool k) = Inr (pool1, hp1)"
    "bufs_done pool1 hp1 k n" "pool_same pool1 pool" "pl_bufcount pool1 = pl_bufcount pool + 1"
    "pl_blk_freelist pool1 = pl_blk_freelist pool" "pl_blkcount pool1 = pl_blkcount pool"
    "mem hp1 = mem hp" "blk_next hp1 = blk_next hp"
proof -
  let ?a = "hdr_at pool k"
  let ?hp0 = "upd_buf ?a (create_hdr abi pool (pl_blk_size pool) ?a udat) hp"
  obtain pool1 hp1 where g: "ret_buf_list pool ?hp0 ?a = (pool1, hp1)" by (metis surj_pair)
  have len: "length (bh_addr (bhdr hp ?a)) = ODP_BUFFER_MAX_SEG" using d k by (simp add: bufs_done_def)
  note c = create_hdr_ret_buf [OF len g refl]
  have other: "i \<noteq> k \<Longrightarrow> hdr_at pool i \<noteq> ?a" for i using hdr_at_eq_iff [OF st, of i k] by blast
  have same: "pl_mdata_addr pool1 = pl_mdata_addr pool" "pl_buf_stride pool1 = pl_buf_stride pool"
    using c(7) by (simp_all add: pool_same_def)
  have nz: "?a \<noteq> NULL" using m by (smt (verit) of_nat_0_le_iff)
  have "\<forall>a\<in>set (map (hdr_at pool) [Suc k..<n]). hdr_next hp1 a = hdr_next hp a"
  proof
    fix a assume "a \<in> set (map (hdr_at pool) [Suc k..<n])"
    then obtain i where "a = hdr_at pool i" "i \<in> set [Suc k..<n]" by (simp only: set_map image_iff) blast
    then have "a = hdr_at pool i" "i \<noteq> k" by simp_all
    then have "hdrs hp1 a = hdrs hp a" using c(4) other by blast
    then show "hdr_next hp1 a = hdr_next hp a" by simp
  qed
  then have "linked (hdr_next hp1) (pl_buf_freelist pool) (map (hdr_at pool) [Suc k..<n])"
    using d linked_cong_on [of "map (hdr_at pool) [Suc k..<n]" "hdr_next hp1" "hdr_next hp"]
    unfolding bufs_done_def by blast
  then have l: "linked (hdr_next hp1) (pl_buf_freelist pool1) (map (hdr_at pool) [k..<n])"
    using c(3,8) k nz by (simp add: upt_conv_Cons)
  have fr: "fresh_hdr pool hp1 (hdr_at pool i)" if "i \<in> {k..<n}" for i
  proof (cases "i = k")
    case False
    then have "fresh_hdr pool hp (hdr_at pool i)" using d that by (auto simp: bufs_done_def)
    moreover have "hdrs hp1 (hdr_at pool i) = hdrs hp (hdr_at pool i)" using c(4) other [OF False] by blast
    ultimately show ?thesis by (rule fresh_hdr_frame [THEN iffD2, rotated])
  qed (use c(2) in simp)
  have ln: "length (bh_addr (bhdr hp1 (hdr_at pool i))) = ODP_BUFFER_MAX_SEG" if "i < n" for i
  proof (cases "i = k")
    case True
    then show ?thesis using c(2) by (simp add: fresh_hdr_def hdr_ok_def)
  next
    case False
    then show ?thesis using c(4) other [OF False] d that by (simp add: bufs_done_def)
  qed
  have "bufs_done pool1 hp1 k n"
    using l fr ln unfolding bufs_done_def same fresh_hdr_cong [OF c(7)] by auto
  then show thesis using that c by blast
qed

lemma create_bufs_run:
  assumes "0 < pl_buf_stride pool" "k < n" "0 < pl_mdata_addr pool" "bufs_done pool hp (Suc k) n"
  shows "\<exists>pool' hp'.
    create_bufs abi (pl_blk_size pool) us (pl_mdata_addr pool) (hdr_at pool k) udat pool hp = Some (Inr (pool', hp')) \<and>
    bufs_done pool' hp' 0 n \<and> pool_same pool' pool \<and> pl_bufcount pool' = pl_bufcount pool + of_nat (Suc k) \<and>
    pl_blk_freelist pool' = pl_blk_freelist pool \<and> pl_blkcount pool' = pl_blkcount pool \<and>
    mem hp' = mem hp \<and> blk_next hp' = blk_next hp"
  using assms
proof (induction k arbitrary: pool hp udat)
  case (0 pool hp udat)
  then obtain pool1 hp1 where r: "ret_buf pool (upd_buf (hdr_at pool 0) (create_hdr abi pool (pl_blk_size pool)
      (hdr_at pool 0) udat) hp) (hdr_at pool 0) = Inr (pool1, hp1)"
    and p: "bufs_done pool1 hp1 0 n" "pool_same pool1 pool" "pl_bufcount pool1 = pl_bufcount pool + 1"
    "pl_blk_freelist pool1 = pl_blk_freelist pool" "pl_blkcount pool1 = pl_blkcount pool"
    "mem hp1 = mem hp" "blk_next hp1 = blk_next hp"
    by (rule create_bufs_step)
  have "\<not> hdr_at pool 0 - int (unat (pl_buf_stride pool)) \<ge> pl_mdata_addr pool"
    using 0(1) by (simp add: word_less_nat_alt del: of_nat_unat)
  then have "create_bufs abi (pl_blk_size pool) us (pl_mdata_addr pool) (hdr_at pool 0) udat pool hp =
      Some (Inr (pool1, hp1))"
    using r by (subst create_bufs.simps) (simp del: of_nat_unat)
  then show ?case using p by auto
next
  case (Suc k)
  obtain pool1 hp1 where r: "ret_buf pool (upd_buf (hdr_at pool (Suc k)) (create_hdr abi pool (pl_blk_size pool)
      (hdr_at pool (Suc k)) udat) hp) (hdr_at pool (Suc k)) = Inr (pool1, hp1)"
    and p: "bufs_done pool1 hp1 (Suc k) n" "pool_same pool1 pool" "pl_bufcount pool1 = pl_bufcount pool + 1"
    "pl_blk_freelist pool1 = pl_blk_freelist pool" "pl_blkcount pool1 = pl_blkcount pool"
    "mem hp1 = mem hp" "blk_next hp1 = blk_next hp"
    using create_bufs_step [OF Suc.prems] by metis
  have same: "pl_mdata_addr pool1 = pl_mdata_addr pool" "pl_buf_stride pool1 = pl_buf_stride pool"
    "pl_blk_size pool1 = pl_blk_size pool" using p(2) by (simp_all add: pool_same_def)
  have prev: "hdr_at pool (Suc k) - int (unat (pl_buf_stride pool)) = hdr_at pool k"
    by (simp add: algebra_simps del: of_nat_unat)
  then have "hdr_at pool (Suc k) - int (unat (pl_buf_stride pool)) \<ge> pl_mdata_addr pool"
    by (metis le_add_same_cancel1 of_nat_0_le_iff)
  then have step: "create_bufs abi (pl_blk_size pool) us (pl_mdata_addr pool) (hdr_at pool (Suc k)) udat pool hp =
      create_bufs abi (pl_blk_size pool) us (pl_mdata_addr pool) (hdr_at pool k) (udat - int (unat us)) pool1 hp1"
    using r by (subst create_bufs.simps) (simp only: prev sum.case prod.case if_True)
  have "0 < pl_buf_stride pool1" "k < n" "0 < pl_mdata_addr pool1" using Suc.prems same by simp_all
  from Suc.IH [OF this p(1), of "udat - int (unat us)"]
  obtain pool' hp' where IH: "create_bufs abi (pl_blk_size pool) us (pl_mdata_addr pool) (hdr_at pool k)
      (udat - int (unat us)) pool1 hp1 = Some (Inr (pool', hp'))"
    "bufs_done pool' hp' 0 n" "pool_same pool' pool1" "pl_bufcount pool' = pl_bufcount pool1 + of_nat (Suc k)"
    "pl_blk_freelist pool' = pl_blk_freelist pool1" "pl_blkcount pool' = pl_blkcount pool1"
    "mem hp' = mem hp1" "blk_next hp' = blk_next hp1"
    unfolding same by blast
  show ?case
    using IH p pool_same_trans [OF IH(3) p(2)] unfolding step
    by (intro exI [of _ pool'] exI [of _ hp']) (simp add: algebra_simps)
qed

text \<open>The block loop.\<close>

abbreviation blk_at :: "addr \<Rightarrow> pool_entry \<Rightarrow> nat \<Rightarrow> addr" where
  "blk_at base pool i \<equiv> base + int (i * unat (pl_seg_size pool))"

lemma create_blks_step:
  assumes "0 < pl_seg_size pool" "0 < base" and k: "k < n"
    and l: "linked (blk_next hp) (pl_blk_freelist pool) (map (blk_at base pool) [Suc k..<n])"
    and r: "ret_blk pool hp (blk_at base pool k) = (pool1, hp1)"
  shows "linked (blk_next hp1) (pl_blk_freelist pool1) (map (blk_at base pool) [k..<n])"
    and "buf_same pool1 pool" "hdrs hp1 = hdrs hp" "mem hp1 = mem hp" "pl_blkcount pool1 = pl_blkcount pool + 1"
proof -
  let ?b = "blk_at base pool k"
  have p: "pl_blk_freelist pool1 = ?b" "blk_next hp1 = (blk_next hp)(?b := pl_blk_freelist pool)"
    using r by (auto simp: ret_blk_def)
  have nz: "?b \<noteq> NULL" using assms(2) by (smt (verit) of_nat_0_le_iff)
  have "?b \<notin> set (map (blk_at base pool) [Suc k..<n])"
    using assms(1) by (auto simp: word_less_nat_alt simp del: of_nat_unat of_nat_mult)
  then show "linked (blk_next hp1) (pl_blk_freelist pool1) (map (blk_at base pool) [k..<n])"
    using l nz k by (simp add: p upt_conv_Cons linked_fun_upd)
  show "buf_same pool1 pool" "hdrs hp1 = hdrs hp" "mem hp1 = mem hp" "pl_blkcount pool1 = pl_blkcount pool + 1"
    using r by (auto simp: ret_blk_def buf_same_def pool_same_def)
qed

lemma create_blks_run:
  assumes "0 < pl_seg_size pool" "0 < base" "k < n"
    and "linked (blk_next hp) (pl_blk_freelist pool) (map (blk_at base pool) [Suc k..<n])"
  shows "\<exists>pool' hp'. create_blks base (blk_at base pool k) pool hp = Some (pool', hp') \<and>
    linked (blk_next hp') (pl_blk_freelist pool') (map (blk_at base pool) [0..<n]) \<and>
    buf_same pool' pool \<and> hdrs hp' = hdrs hp \<and> mem hp' = mem hp \<and>
    pl_blkcount pool' = pl_blkcount pool + of_nat (Suc k)"
  using assms
proof (induction k arbitrary: pool hp)
  case (0 pool hp)
  obtain pool1 hp1 where r: "ret_blk pool hp (blk_at base pool 0) = (pool1, hp1)" by (metis surj_pair)
  note s = create_blks_step [OF 0 r]
  have "\<not> blk_at base pool 0 - int (unat (pl_seg_size pool)) \<ge> base"
    using 0(1) by (simp add: word_less_nat_alt del: of_nat_unat)
  then have "create_blks base (blk_at base pool 0) pool hp = Some (pool1, hp1)"
    using r by (subst create_blks.simps) (simp del: of_nat_unat)
  then show ?case using s by auto
next
  case (Suc k pool hp)
  obtain pool1 hp1 where r: "ret_blk pool hp (blk_at base pool (Suc k)) = (pool1, hp1)" by (metis surj_pair)
  note s = create_blks_step [OF Suc.prems r]
  have same: "pl_seg_size pool1 = pl_seg_size pool" using s(2) by (simp add: buf_same_def pool_same_def)
  have prev: "blk_at base pool (Suc k) - int (unat (pl_seg_size pool)) = blk_at base pool k"
    by (simp add: algebra_simps del: of_nat_unat)
  then have "blk_at base pool (Suc k) - int (unat (pl_seg_size pool)) \<ge> base"
    by (metis le_add_same_cancel1 of_nat_0_le_iff)
  then have step: "create_blks base (blk_at base pool (Suc k)) pool hp = create_blks base (blk_at base pool k) pool1 hp1"
    using r by (subst create_blks.simps) (simp only: prev Let_def prod.case if_True)
  have "0 < pl_seg_size pool1" "k < n" using Suc.prems same by simp_all
  then obtain pool' hp' where IH: "create_blks base (blk_at base pool k) pool1 hp1 = Some (pool', hp')"
    "linked (blk_next hp') (pl_blk_freelist pool') (map (blk_at base pool) [0..<n])"
    "buf_same pool' pool1" "hdrs hp' = hdrs hp1" "mem hp' = mem hp1"
    "pl_blkcount pool' = pl_blkcount pool1 + of_nat (Suc k)"
    using Suc.IH [of pool1 hp1] s(1) Suc.prems(2) unfolding same by blast
  show ?case
    using IH s buf_same_trans [OF IH(3) s(2)] unfolding step
    by (intro exI [of _ pool'] exI [of _ hp']) (simp add: algebra_simps)
qed


section \<open>What creation establishes\<close>

text \<open>
  The facts about a geometry the rest relies on; \<open>pool_create_geometry\<close> gives them (below) for
  structure sizes that are whole cache lines and requests that do not overflow 32 bits.
\<close>

definition geo_seg :: "pool_geometry \<Rightarrow> u32" where
  "geo_seg g = (if g_unseg g then g_blk_size g else g_seg_len g)"

definition geo_nblks :: "pool_geometry \<Rightarrow> nat" where
  "geo_nblks g = unat (geo_block_size g) div unat (geo_seg g)"

definition geo_ok :: "pool_geometry \<Rightarrow> int \<Rightarrow> bool" where
  "geo_ok g type \<longleftrightarrow>
    0 < g_buf_num g \<and> 0 < g_buf_stride g \<and> unat (g_buf_num g) * unat (g_buf_stride g) < 2 ^ 32 \<and>
    unat (g_buf_num g) * unat (g_blk_size g) < 2 ^ 32 \<and> ODP_BUFFER_MAX_SEG * unat (geo_seg g) < 2 ^ 32 \<and>
    (type = ODP_POOL_BUFFER \<longrightarrow> g_unseg g) \<and>
    (type = ODP_POOL_PACKET \<longrightarrow> \<not> g_unseg g \<and> 0 < g_headroom g) \<and>
    (\<not> g_unseg g \<longrightarrow> ODP_MAX_INLINE_BUF < unat (g_blk_size g) \<and> 0 < g_seg_len g \<and>
       unat (g_seg_len g) dvd unat (g_blk_size g))"

lemma of_nat_Suc_pred: "0 < (n :: nat) \<Longrightarrow> of_nat (Suc (n - 1)) = (of_nat n :: 'a::semiring_1)"
  by simp

text \<open>An initialised, unused pool satisfies the invariant.\<close>

lemma fresh_pool_inv:
  assumes d: "bufs_done pool hp 0 (unat (pl_buf_num pool))" and st: "0 < pl_buf_stride pool"
    and m: "0 < pl_mdata_addr pool" and sh: "pool_shape pool"
    and b: "linked (blk_next hp) (pl_blk_freelist pool) bl" "pl_blkcount pool = of_nat (length bl)"
    and n: "pl_bufcount pool = pl_buf_num pool" and empty: "\<forall>t. lc_freelist (caches t) = NULL"
  shows "pool_inv pool hp caches (mset bl)" "allocated pool hp = {}"
proof -
  have hl: "hdr_list pool = map (hdr_at pool) [0..<unat (pl_buf_num pool)]" by (simp add: hdr_list_def)
  have fresh: "fresh_hdr pool hp a" if "a \<in> set (hdr_list pool)" for a
    using d that unfolding hl bufs_done_def by (auto simp del: of_nat_unat of_nat_mult)
  have nn: "NULL \<notin> set (hdr_list pool)"
    unfolding hl using m by (auto simp del: of_nat_unat of_nat_mult)
  let ?L = "(\<lambda>_. [])(None := hdr_list pool)"
  have fr: "free_hdrs ?L = set (hdr_list pool)" by (auto simp: free_hdrs_def split: if_splits)
  have lk: "\<forall>i. linked (hdr_next hp) (list_heads pool caches i) (?L i)"
    using d empty unfolding bufs_done_def hl by (auto simp: list_heads_def split: option.split)
  have own: "(\<Sum>a\<in>set (hdr_list pool). mset (owned hp a)) = {#}"
    using fresh by (intro sum.neutral) (simp add: fresh_hdr_def)
  have "pool_core pool hp (list_heads pool caches) ?L bl (mset bl)"
    unfolding pool_core_def own fr
    using lk b nn fresh linked_nonnull [OF b(1)] by (auto simp: fresh_hdr_def)
  moreover have "count (mset bl) x \<le> 1" for x
    using linked_distinct [OF b(1)] by (simp add: distinct_count_atmost_1)
  ultimately have "pool_rep {} pool hp caches ?L bl (mset bl)"
    unfolding pool_rep_def fr using sh n fresh by (auto simp: fresh_hdr_def hdr_list_def)
  then show "pool_inv pool hp caches (mset bl)" by (auto simp: pool_inv_def)
  show "allocated pool hp = {}" using fresh by (auto simp: allocated_def fresh_hdr_def)
qed

lemma bufs_done_cong:
  assumes "hdrs hp' = hdrs hp" "pl_buf_freelist pool' = pl_buf_freelist pool"
    and "pl_mdata_addr pool' = pl_mdata_addr pool" "pl_buf_stride pool' = pl_buf_stride pool"
    and "pl_seg_size pool' = pl_seg_size pool" "pl_blk_size pool' = pl_blk_size pool"
    and "pl_params pool' = pl_params pool" "pl_pool_hdl pool' = pl_pool_hdl pool"
  shows "bufs_done pool' hp' k n = bufs_done pool hp k n"
  using assms by (simp add: bufs_done_def fresh_hdr_def hdr_ok_def size_ok_def owned_def odp_buffer_encode_handle_def)


lemma geo_sizes:
  assumes "geo_ok g type"
  shows "unat (geo_mdata_size g) = unat (g_buf_num g) * unat (g_buf_stride g)"
    and "ODP_MAX_INLINE_BUF < unat (g_blk_size g) \<Longrightarrow>
      unat (geo_block_size g) = unat (g_buf_num g) * unat (g_blk_size g) \<and>
      geo_nblks g * unat (geo_seg g) = unat (geo_block_size g) \<and> 0 < unat (geo_seg g) \<and> 0 < geo_nblks g"
proof -
  have u: "unat (ucast w :: u64) = unat w" for w :: u32
    by (simp add: unsigned_ucast_eq take_bit_nat_eq_self order_less_trans [OF unat_u32_bound])
  show "unat (geo_mdata_size g) = unat (g_buf_num g) * unat (g_buf_stride g)"
    using assms unfolding geo_mdata_size_def u by (intro unat_mult_u32) (simp add: geo_ok_def)
  assume big: "ODP_MAX_INLINE_BUF < unat (g_blk_size g)"
  then have bs: "unat (geo_block_size g) = unat (g_buf_num g) * unat (g_blk_size g)"
    using assms unat_mult_u32 [of "g_buf_num g" "g_blk_size g"] by (simp add: geo_block_size_def u geo_ok_def)
  have seg: "0 < unat (geo_seg g)" "unat (geo_seg g) dvd unat (g_blk_size g)"
    using assms big by (auto simp: geo_seg_def geo_ok_def word_less_nat_alt)
  then have dv: "unat (geo_seg g) dvd unat (geo_block_size g)" by (simp add: bs)
  moreover have "0 < unat (geo_block_size g)" using bs big assms by (simp add: geo_ok_def word_less_nat_alt)
  ultimately show "unat (geo_block_size g) = unat (g_buf_num g) * unat (g_blk_size g) \<and>
      geo_nblks g * unat (geo_seg g) = unat (geo_block_size g) \<and> 0 < unat (geo_seg g) \<and> 0 < geo_nblks g"
    using bs seg by (auto simp: geo_nblks_def div_greater_zero_iff dvd_imp_le)
qed

lemma create_in_slot_inv:
  assumes g: "geo_ok g (pp_type (pl_params claimed))" and base: "0 < base"
    and num: "pl_buf_num claimed = g_buf_num g"
    and empty: "\<forall>t. lc_freelist (caches t) = NULL"
    and arr: "\<forall>a. length (bh_addr (bhdr hp a)) = ODP_BUFFER_MAX_SEG"
  defines "blks \<equiv> (if unat (g_blk_size g) \<le> ODP_MAX_INLINE_BUF then []
    else map (\<lambda>i. base + int (i * unat (geo_seg g))) [0..<geo_nblks g])"
  shows "\<exists>pool hp'. create_in_slot abi g shm base claimed hp = Some (Inr (pool, hp')) \<and>
    pool_inv pool hp' caches (mset blks) \<and> allocated pool hp' = {} \<and>
    bufs_done pool hp' 0 (unat (g_buf_num g)) \<and>
    pl_bufcount pool = g_buf_num g \<and> pl_buf_num pool = g_buf_num g \<and> pl_blkcount pool = of_nat (length blks) \<and>
    pl_pool_shm pool = shm \<and> pl_pool_hdl pool = pl_pool_hdl claimed \<and>
    pl_params pool = pl_params claimed \<and> pl_pool_id pool = pl_pool_id claimed \<and>
    pl_buf_stride pool = g_buf_stride g \<and> pl_seg_size pool = geo_seg g \<and> pl_headroom pool = g_headroom g \<and>
    pl_tailroom pool = g_tailroom g \<and> pl_unsegmented pool = g_unseg g \<and> pl_predefined pool = pl_predefined claimed"
proof -
  define p0 where "p0 = create_layout g shm base claimed"
  let ?n = "unat (g_buf_num g)"
  have p0: "pl_buf_stride p0 = g_buf_stride g" "pl_blk_size p0 = g_blk_size g" "pl_seg_size p0 = geo_seg g"
    "pl_buf_num p0 = g_buf_num g" "pl_buf_freelist p0 = NULL" "pl_blk_freelist p0 = NULL"
    "pl_bufcount p0 = 0" "pl_blkcount p0 = 0" "pl_params p0 = pl_params claimed"
    "pl_pool_hdl p0 = pl_pool_hdl claimed" "pl_pool_id p0 = pl_pool_id claimed" "pl_predefined p0 = pl_predefined claimed" "pl_pool_shm p0 = shm" "pl_unsegmented p0 = g_unseg g"
    "pl_mdata_addr p0 = base + int (unat (geo_block_size g)) + int (unat (geo_pad_size g))"
    by (simp_all add: p0_def create_layout_def geo_seg_def num)
  have n: "0 < ?n" and st: "0 < pl_buf_stride p0" and m: "0 < pl_mdata_addr p0"
    using g base p0(1,15) by (auto simp: geo_ok_def word_less_nat_alt simp del: of_nat_unat)
  have d0: "bufs_done p0 hp (Suc (?n - 1)) ?n" using n arr p0(5) by (simp add: bufs_done_def)
  have "int (unat (geo_mdata_size g)) - int (unat (g_buf_stride g)) = int ((?n - 1) * unat (g_buf_stride g))"
    using n geo_sizes(1) [OF g] by (simp add: algebra_simps of_nat_diff del: of_nat_unat) 
  then have buf: "pl_mdata_addr p0 + int (unat (geo_mdata_size g)) - int (unat (g_buf_stride g)) = hdr_at p0 (?n - 1)"
    unfolding p0(1) by linarith
  define udat where "udat = (if g_udata_stride g = 0 then NULL
    else pl_mdata_addr p0 + int (unat (geo_mdata_size g)) + int (unat (geo_udata_size g)) - int (unat (g_udata_stride g)))"
  obtain pool1 hp1 where run: "create_bufs abi (g_blk_size g) (g_udata_stride g) (pl_mdata_addr p0)
      (hdr_at p0 (?n - 1)) udat p0 hp = Some (Inr (pool1, hp1))"
    and d1: "bufs_done pool1 hp1 0 ?n" and s1: "pool_same pool1 p0" "pl_bufcount pool1 = g_buf_num g"
    and b1: "pl_blk_freelist pool1 = NULL" "pl_blkcount pool1 = 0"
    using create_bufs_run [OF st _ m d0, of abi "g_udata_stride g" udat] n p0 by auto
  have slot: "create_in_slot abi g shm base claimed hp =
      (case create_bufs abi (g_blk_size g) (g_udata_stride g) (pl_mdata_addr p0) (hdr_at p0 (?n - 1)) udat p0 hp of
          None \<Rightarrow> None
        | Some (Inl e) \<Rightarrow> Some (Inl e)
        | Some (Inr (pool1, hp1)) \<Rightarrow>
            if unat (g_blk_size g) > ODP_MAX_INLINE_BUF
            then (case create_blks base (base + int (unat (geo_block_size g)) - int (unat (pl_seg_size p0))) pool1 hp1 of
                    None \<Rightarrow> None
                  | Some (pool2, hp2) \<Rightarrow> Some (Inr (create_finish g pool2, hp2)))
            else Some (Inr (create_finish g pool1, hp1)))"
    unfolding create_in_slot_def Let_def p0_def [symmetric] buf udat_def [symmetric] ..
  have f1: "pl_seg_size pool1 = geo_seg g" "pl_pool_shm pool1 = shm" "pl_unsegmented pool1 = g_unseg g"
    "pl_buf_num pool1 = g_buf_num g" "pl_buf_stride pool1 = pl_buf_stride p0" "pl_mdata_addr pool1 = pl_mdata_addr p0"
    "pl_params pool1 = pl_params claimed" "pl_blk_size pool1 = g_blk_size g" "pl_pool_hdl pool1 = pl_pool_hdl claimed"
    "pl_pool_id pool1 = pl_pool_id claimed" "pl_predefined pool1 = pl_predefined claimed"
    using s1(1) p0 by (simp_all add: pool_same_def)
  have fin: "pool_inv (create_finish g p) h caches (mset blks) \<and> allocated (create_finish g p) h = {} \<and>
      bufs_done (create_finish g p) h 0 ?n \<and> pl_bufcount (create_finish g p) = g_buf_num g \<and>
      pl_buf_num (create_finish g p) = g_buf_num g \<and> pl_blkcount (create_finish g p) = of_nat (length blks) \<and>
      pl_pool_shm (create_finish g p) = shm \<and> pl_pool_hdl (create_finish g p) = pl_pool_hdl claimed \<and>
      pl_params (create_finish g p) = pl_params claimed \<and> pl_pool_id (create_finish g p) = pl_pool_id claimed \<and>
      pl_buf_stride (create_finish g p) = g_buf_stride g \<and> pl_seg_size (create_finish g p) = geo_seg g \<and>
      pl_headroom (create_finish g p) = g_headroom g \<and> pl_tailroom (create_finish g p) = g_tailroom g \<and>
      pl_unsegmented (create_finish g p) = g_unseg g \<and> pl_predefined (create_finish g p) = pl_predefined claimed"
    if "buf_same p pool1" "hdrs h = hdrs hp1" "linked (blk_next h) (pl_blk_freelist p) blks"
      "pl_blkcount p = of_nat (length blks)" for p h
  proof -
    have f: "pl_seg_size p = geo_seg g" "pl_pool_shm p = shm" "pl_unsegmented p = g_unseg g"
      "pl_buf_num p = g_buf_num g" "pl_buf_stride p = pl_buf_stride p0" "pl_mdata_addr p = pl_mdata_addr p0"
      "pl_params p = pl_params claimed" "pl_blk_size p = g_blk_size g" "pl_pool_hdl p = pl_pool_hdl claimed"
      "pl_bufcount p = g_buf_num g" "pl_buf_freelist p = pl_buf_freelist pool1"
      "pl_pool_id p = pl_pool_id claimed" "pl_predefined p = pl_predefined claimed"
      using that(1) f1 s1(2) by (simp_all add: buf_same_def pool_same_def)
    have d: "bufs_done (create_finish g p) h 0 ?n"
      using d1 bufs_done_cong [of h hp1 "create_finish g p" pool1 0 ?n] that(2) f f1
      by (simp add: create_finish_def)
    have sh: "pool_shape (create_finish g p)"
      using g f by (auto simp: pool_shape_def create_finish_def geo_ok_def geo_seg_def)
    have q: "bufs_done (create_finish g p) h 0 (unat (pl_buf_num (create_finish g p)))"
      "0 < pl_buf_stride (create_finish g p)" "0 < pl_mdata_addr (create_finish g p)"
      "linked (blk_next h) (pl_blk_freelist (create_finish g p)) blks"
      "pl_blkcount (create_finish g p) = of_nat (length blks)"
      "pl_bufcount (create_finish g p) = pl_buf_num (create_finish g p)"
      using d st m that(3,4) f by (simp_all add: create_finish_def)
    note fresh_pool_inv [OF q(1-3) sh q(4-6) empty]
    with d show ?thesis using f that(4) p0(1) by (simp add: create_finish_def)
  qed
  show ?thesis
  proof (cases "unat (g_blk_size g) > ODP_MAX_INLINE_BUF")
    case False
    then have "create_in_slot abi g shm base claimed hp = Some (Inr (create_finish g pool1, hp1))"
      unfolding slot run by simp
    then show ?thesis using fin [of pool1 hp1] b1 False by (auto simp: blks_def)
  next
    case True
    note sz = conjunct2 [OF geo_sizes(2) [OF g True]]
    then have "unat (geo_block_size g) = (geo_nblks g - 1) * unat (geo_seg g) + unat (geo_seg g)"
      by (cases "geo_nblks g") auto
    then have "int (unat (geo_block_size g)) - int (unat (geo_seg g)) = int ((geo_nblks g - 1) * unat (geo_seg g))"
      by linarith
    then have blk: "base + int (unat (geo_block_size g)) - int (unat (pl_seg_size p0)) = blk_at base pool1 (geo_nblks g - 1)"
      unfolding f1(1) p0(3) by linarith
    have sg: "0 < pl_seg_size pool1" using sz f1(1) by (simp add: word_less_nat_alt)
    obtain pool2 hp2 where run2: "create_blks base (blk_at base pool1 (geo_nblks g - 1)) pool1 hp1 = Some (pool2, hp2)"
      "linked (blk_next hp2) (pl_blk_freelist pool2) (map (blk_at base pool1) [0..<geo_nblks g])"
      "buf_same pool2 pool1" "hdrs hp2 = hdrs hp1" "pl_blkcount pool2 = of_nat (geo_nblks g)"
      using create_blks_run [OF sg base, of "geo_nblks g - 1" "geo_nblks g" hp1] sz b1 by auto
    have "create_in_slot abi g shm base claimed hp = Some (Inr (create_finish g pool2, hp2))"
      unfolding slot run blk using True by (simp only: option.case sum.case prod.case if_True run2(1))
    moreover have "blks = map (blk_at base pool1) [0..<geo_nblks g]"
      using True f1(1) by (simp add: blks_def)
    ultimately show ?thesis using fin [of pool2 hp2] run2 by simp
  qed
qed

section \<open>The geometry of an accepted request\<close>

definition abi_ok :: "odp_abi \<Rightarrow> bool" where
  "abi_ok abi \<longleftrightarrow>
    64 dvd unat (sizeof_buffer_hdr_stride abi) \<and> 0 < sizeof_buffer_hdr_stride abi \<and>
    64 dvd unat (sizeof_packet_hdr_stride abi) \<and> 0 < sizeof_packet_hdr_stride abi \<and>
    64 dvd unat (sizeof_timeout_hdr_stride abi) \<and> 0 < sizeof_timeout_hdr_stride abi"

lemma packet_seg_len_bounds: "1664 \<le> unat (packet_seg_len s)" "unat (packet_seg_len s) \<le> 65616"
proof -
  define c where "c = (if s \<le> ODP_CONFIG_PACKET_SEG_LEN_MIN then ODP_CONFIG_PACKET_SEG_LEN_MIN
    else if s \<le> ODP_CONFIG_PACKET_SEG_LEN_MAX then s else ODP_CONFIG_PACKET_SEG_LEN_MAX)"
  have c: "1598 \<le> unat c" "unat c \<le> 65536" by (auto simp: c_def word_le_nat_alt)
  have x: "unat (66 + c) = 66 + unat c" using c unat_add_u32 [of 66 c] by simp
  have e: "packet_seg_len s = ODP_ALIGN_ROUNDUP (66 + c) 16" by (simp add: packet_seg_len_def c_def)
  have u: "unat (packet_seg_len s) = round_up (66 + unat c) 16"
    unfolding e using unat_roundup [of "16 :: u32" "66 + c"] x c by simp
  show "1664 \<le> unat (packet_seg_len s)" using round_up_bounds [of 16 "66 + unat c"] c unfolding u by linarith
  have "round_up (66 + unat c) 16 \<le> 65616" using c by (intro round_up_least) simp_all
  then show "unat (packet_seg_len s) \<le> 65616" unfolding u .
qed

lemma packet_geometry_ok:
  assumes "packet_geometry abi params al = Some g" "unat (pp_size_len params) \<le> 2 ^ 29"
  shows "\<not> g_unseg g" "0 < g_headroom g" "40 < unat (g_blk_size g)" "0 < g_seg_len g"
    and "unat (g_seg_len g) dvd unat (g_blk_size g)" "g_seg_len g = packet_seg_len (pp_align_seg_len params)"
    and "g_buf_num g = pp_num params" "g_buf_stride g = sizeof_packet_hdr_stride abi"
proof -
  let ?s = "packet_seg_len (pp_align_seg_len params)"
  have s: "1664 \<le> unat ?s" "unat ?s \<le> 65616" by (rule packet_seg_len_bounds)+
  show "\<not> g_unseg g" "0 < g_headroom g" and gs: "g_seg_len g = ?s" and "g_buf_num g = pp_num params"
    "g_buf_stride g = sizeof_packet_hdr_stride abi"
    using assms by (auto simp: packet_geometry_def Let_def split: if_splits)
  show "0 < g_seg_len g" using s unfolding gs by (simp add: word_less_nat_alt)
  have nz: "?s \<noteq> 0" using s by (auto simp: word_eq_nat)
  have rb: "unat (ODP_ALIGN_ROUNDUP (pp_size_len params) ?s) = round_up (unat (pp_size_len params)) (unat ?s)"
    by (rule unat_roundup [OF nz]) (use s assms(2) in simp)
  have b: "g_blk_size g = (if pp_size_len params \<le> ?s then ?s else ODP_ALIGN_ROUNDUP (pp_size_len params) ?s)"
    using assms by (auto simp: packet_geometry_def Let_def split: if_splits)
  have u: "unat (g_blk_size g) = (if pp_size_len params \<le> ?s then unat ?s else round_up (unat (pp_size_len params)) (unat ?s))"
    unfolding b using rb by simp
  show "unat (g_seg_len g) dvd unat (g_blk_size g)" unfolding u gs by simp
  show "40 < unat (g_blk_size g)"
    unfolding u using s round_up_bounds [of "unat ?s" "unat (pp_size_len params)"]
    by (auto simp: word_le_nat_alt)
qed

lemma stride_limit:
  assumes "64 dvd unat st" "unat n \<le> ODP_BUFFER_MAX_BUFFERS div unat (st div ODP_CACHE_LINE_SIZE :: u32)"
  shows "unat (n :: u32) * unat st \<le> 2 ^ 31"
proof -
  have d: "unat (st div ODP_CACHE_LINE_SIZE) = unat st div 64" by (simp add: unat_div_distrib)
  have "unat n * (unat st div 64) \<le> 33554432 div (unat st div 64) * (unat st div 64)"
    using assms(2) unfolding d by (intro mult_le_mono1) simp
  also have "\<dots> \<le> 33554432" by simp
  finally have "unat n * (unat st div 64) * 64 \<le> 33554432 * 64" by (rule mult_le_mono1)
  then show ?thesis using assms(1) by (simp add: mult.assoc)
qed

lemma buffer_geometry_seg:
  assumes al: "al \<noteq> 0" "al \<le> 4096" and len: "unat (pp_size_len params) \<le> 2 ^ 29"
  shows "6 * unat (g_blk_size (buffer_geometry abi params al)) < 2 ^ 32"
proof -
  have a: "unat al \<le> 4096" "0 < unat al" using al by (auto simp: word_le_nat_alt unat_gt_0)
  have "unat (ODP_ALIGN_ROUNDUP (pp_size_len params) al) = round_up (unat (pp_size_len params)) (unat al)"
    using al a len by (intro unat_roundup) auto
  then have "unat (ODP_ALIGN_ROUNDUP (pp_size_len params) al) < 2 ^ 29 + 4096"
    using round_up_bounds [OF a(2), of "unat (pp_size_len params)"] len a by linarith
  then show ?thesis using len by (simp add: buffer_geometry_def)
qed

lemma create_geometry_cases:
  assumes "pool_create_geometry abi params = Inr (Some g)"
  obtains al where "al \<noteq> 0" "al \<le> 4096" "g_buf_stride g div ODP_CACHE_LINE_SIZE \<noteq> 0"
    "unat (g_buf_num g) \<le> ODP_BUFFER_MAX_BUFFERS div unat (g_buf_stride g div ODP_CACHE_LINE_SIZE)"
    "pp_type params = ODP_POOL_BUFFER \<and> g = buffer_geometry abi params al \<or>
     pp_type params = ODP_POOL_PACKET \<and> packet_geometry abi params al = Some g \<or>
     pp_type params = ODP_POOL_TIMEOUT \<and> g = timeout_geometry abi params al"
proof -
  define a0 where "a0 = (if pp_type params = ODP_POOL_BUFFER then pp_align_seg_len params else 0)"
  define al where "al = (if a0 = 0 then ODP_CACHE_LINE_SIZE
    else if a0 < ODP_CONFIG_BUFFER_ALIGN_MIN then ODP_CONFIG_BUFFER_ALIGN_MIN else a0)"
  note d = assms [unfolded pool_create_geometry_def Let_def, folded a0_def, folded al_def]
  have "a0 \<le> 4096" using d by (auto split: if_splits)
  then have "al \<noteq> 0" "al \<le> 4096" by (auto simp: al_def word_le_nat_alt)
  then show thesis
    using d that [of al] by (auto split: if_splits option.splits)
qed

lemma create_geometry_ok:
  assumes g: "pool_create_geometry abi params = Inr (Some g)" and abi: "abi_ok abi"
    and num: "0 < pp_num params" "unat (pp_num params) * unat (g_blk_size g) < 2 ^ 32"
    and len: "unat (pp_size_len params) \<le> 2 ^ 29"
  shows "geo_ok g (pp_type params)" and "g_buf_num g = pp_num params" and "64 dvd unat (g_buf_stride g)"
    and "unat (g_buf_num g) * unat (g_buf_stride g) \<le> 2 ^ 31"
proof -
  obtain al where al: "al \<noteq> 0" "al \<le> 4096"
    and lim: "unat (g_buf_num g) \<le> ODP_BUFFER_MAX_BUFFERS div unat (g_buf_stride g div ODP_CACHE_LINE_SIZE)"
    and c: "pp_type params = ODP_POOL_BUFFER \<and> g = buffer_geometry abi params al \<or>
      pp_type params = ODP_POOL_PACKET \<and> packet_geometry abi params al = Some g \<or>
      pp_type params = ODP_POOL_TIMEOUT \<and> g = timeout_geometry abi params al"
    using g by (rule create_geometry_cases)
  have st: "64 dvd unat (g_buf_stride g)" "0 < g_buf_stride g" and nm: "g_buf_num g = pp_num params"
    using c abi packet_geometry_ok(7,8) [OF _ len]
    by (auto simp: abi_ok_def buffer_geometry_def timeout_geometry_def)
  then show "g_buf_num g = pp_num params" "64 dvd unat (g_buf_stride g)" by simp_all
  show lim31: "unat (g_buf_num g) * unat (g_buf_stride g) \<le> 2 ^ 31" by (rule stride_limit [OF st(1) lim])
  from c show "geo_ok g (pp_type params)"
  proof (elim disjE conjE)
    assume ty: "pp_type params = ODP_POOL_BUFFER" "g = buffer_geometry abi params al"
    then have "g_unseg g" by (simp add: buffer_geometry_def)
    with ty buffer_geometry_seg [OF al len, of abi] st nm num lim31 show ?thesis
      by (simp add: geo_ok_def geo_seg_def)
  next
    assume ty: "pp_type params = ODP_POOL_PACKET" and p: "packet_geometry abi params al = Some g"
    note pk = packet_geometry_ok [OF p len]
    have "unat (g_seg_len g) \<le> 65616" unfolding pk(6) by (rule packet_seg_len_bounds)
    with ty pk(1-5) st nm num lim31 show ?thesis by (simp add: geo_ok_def geo_seg_def)
  next
    assume ty: "pp_type params = ODP_POOL_TIMEOUT" "g = timeout_geometry abi params al"
    then have "g_unseg g" "g_blk_size g = 0" by (simp_all add: timeout_geometry_def)
    with ty st nm num lim31 show ?thesis by (simp add: geo_ok_def geo_seg_def)
  qed
qed

section \<open>Handles\<close>

lemma handle_roundtrip:
  assumes i: "unat (pl_pool_id pool) < ODP_CONFIG_POOLS" "i < unat (pl_buf_num pool)"
    and st: "64 dvd unat (pl_buf_stride pool)"
    and lim: "unat (pl_buf_num pool) * unat (pl_buf_stride pool) \<le> 2 ^ 31"
    and tbl: "unat (pl_pool_id pool) < length (pool_tbl s)" "pool_tbl s ! unat (pl_pool_id pool) = pool"
  shows "odp_buf_to_hdr s (odp_buffer_encode_handle pool (pl_pool_id pool) (hdr_at pool i)) = Inr (hdr_at pool i)"
    and "bits_seg (odp_buffer_encode_handle pool (pl_pool_id pool) (hdr_at pool i)) = 0"
    and "bits_pool_id (odp_buffer_encode_handle pool (pl_pool_id pool) (hdr_at pool i)) = pl_pool_id pool"
    and "unat (bits_index (odp_buffer_encode_handle pool (pl_pool_id pool) (hdr_at pool i))) =
      i * (unat (pl_buf_stride pool) div 64)"
proof -
  obtain k where k: "unat (pl_buf_stride pool) = 64 * k" using st by (auto elim: dvdE)
  let ?idx = "of_nat (i * k) :: u32" let ?h = "odp_buffer_encode_handle pool (pl_pool_id pool) (hdr_at pool i)"
  have k0: "i * k < 33554432"
  proof (cases "k = 0")
    case False
    then have "i * (64 * k) < unat (pl_buf_num pool) * (64 * k)" using i(2) by simp
    also have "\<dots> \<le> 2 ^ 31" using lim unfolding k .
    finally show ?thesis by simp
  qed simp
  then have idx: "unat ?idx = i * k" by (intro unat_of_nat_small) simp
  have "(hdr_at pool i - pl_mdata_addr pool) div 64 = int (i * k)"
    unfolding k by (simp add: mult.left_commute [of _ 64])
  then have h: "?h = bits_make (pl_pool_id pool) ?idx 0"
    unfolding odp_buffer_encode_handle_def by (metis of_int_of_nat_eq)
  have f: "bits_pool_id ?h = pl_pool_id pool" "bits_index ?h = ?idx" "bits_seg ?h = 0"
    unfolding h using bits_fields [of "pl_pool_id pool" ?idx 0] i(1) k0 idx by (simp_all add: word_less_nat_alt)
  show "bits_seg ?h = 0" "bits_pool_id ?h = pl_pool_id pool" by (rule f)+
  show "unat (bits_index ?h) = i * (unat (pl_buf_stride pool) div 64)" using f(2) idx k by simp
  have "unat (?idx * 64) = i * k * 64" using unat_mult_u32 [of ?idx 64] idx k0 by simp
  then show "odp_buf_to_hdr s ?h = Inr (hdr_at pool i)"
    using tbl k unfolding odp_buf_to_hdr_def get_pool_entry_def f by (simp add: mult.assoc mult.commute [of k])
qed

section \<open>A pool of the table\<close>

text \<open>
  \<open>pool_at st i B\<close>: slot \<open>i\<close> of the table holds a created pool that satisfies the invariant for the
  caches of all threads, with the blocks \<open>B\<close>.
\<close>

definition pool_at :: "odp_state \<Rightarrow> nat \<Rightarrow> addr multiset \<Rightarrow> bool" where
  "pool_at st i B \<longleftrightarrow>
    i < ODP_CONFIG_POOLS \<and> i < length (pool_tbl st) \<and>
    pl_pool_id (pool_tbl st ! i) = of_nat i \<and> pl_pool_hdl (pool_tbl st ! i) = of_nat i \<and>
    pl_pool_shm (pool_tbl st ! i) \<noteq> ODP_SHM_INVALID \<and>
    0 < pl_buf_stride (pool_tbl st ! i) \<and> 64 dvd unat (pl_buf_stride (pool_tbl st ! i)) \<and>
    unat (pl_buf_num (pool_tbl st ! i)) * unat (pl_buf_stride (pool_tbl st ! i)) \<le> 2 ^ 31 \<and>
    pp_num (pl_params (pool_tbl st ! i)) = pl_buf_num (pool_tbl st ! i) \<and>
    pool_inv (pool_tbl st ! i) (heap st) (\<lambda>t. local_caches st t i) B"

abbreviation allocated_at :: "odp_state \<Rightarrow> nat \<Rightarrow> addr set" where
  "allocated_at st i \<equiv> allocated (pool_tbl st ! i) (heap st)"

lemma pool_atD:
  assumes "pool_at st i B"
  shows "i < 16" "i < length (pool_tbl st)" "unat (of_nat i :: u32) = i"
    and "get_pool_entry st (of_nat i) = Inr (pool_tbl st ! i)"
    and "pl_pool_id (pool_tbl st ! i) = of_nat i" "pl_pool_hdl (pool_tbl st ! i) = of_nat i"
    and "pool_inv (pool_tbl st ! i) (heap st) (\<lambda>t. local_caches st t i) B"
proof -
  show u: "unat (of_nat i :: u32) = i" using assms by (intro unat_of_nat_small) (simp add: pool_at_def)
  show "i < 16" "i < length (pool_tbl st)" "pl_pool_id (pool_tbl st ! i) = of_nat i"
    "pl_pool_hdl (pool_tbl st ! i) = of_nat i"
    "pool_inv (pool_tbl st ! i) (heap st) (\<lambda>t. local_caches st t i) B"
    using assms by (simp_all add: pool_at_def)
  then show "get_pool_entry st (of_nat i) = Inr (pool_tbl st ! i)" by (simp add: get_pool_entry_def u)
qed

lemma pool_at_put:
  assumes "pool_at st i B" "pool_same pool' (pool_tbl st ! i)"
    and "pool_inv pool' hp' ((\<lambda>t. local_caches st t i)(tid := cache')) B"
  shows "pool_at (put_pool tid i cache' pool' hp' st) i B"
    and "pool_tbl (put_pool tid i cache' pool' hp' st) ! i = pool'"
    and "heap (put_pool tid i cache' pool' hp' st) = hp'"
proof -
  have "(\<lambda>t. local_caches (put_pool tid i cache' pool' hp' st) t i) = (\<lambda>t. local_caches st t i)(tid := cache')"
    by (auto simp: put_pool_def fun_eq_iff)
  with assms show "pool_at (put_pool tid i cache' pool' hp' st) i B"
    by (simp add: pool_at_def put_pool_def pool_same_def)
  show "pool_tbl (put_pool tid i cache' pool' hp' st) ! i = pool'" "heap (put_pool tid i cache' pool' hp' st) = hp'"
    using assms(1) by (simp_all add: put_pool_def pool_at_def)
qed

text \<open>Different blocks of a pool are at least one segment apart, so their contents do not overlap.\<close>

definition blocks_apart :: "u32 \<Rightarrow> addr multiset \<Rightarrow> bool" where
  "blocks_apart ss B \<longleftrightarrow> (\<forall>x\<in>#B. \<forall>y\<in>#B. x < y \<longrightarrow> x + int (unat ss) \<le> y)"

lemma blocks_apart_row:
  "blocks_apart ss (mset (map (\<lambda>i. base + int (i * unat ss)) [0..<n]))"
proof -
  have "base + int (i * unat ss) + int (unat ss) \<le> base + int (j * unat ss)"
    if "base + int (i * unat ss) < base + int (j * unat ss)" for i j
  proof -
    have "i < j" using that by (metis add_less_cancel_left mult_less_cancel2 of_nat_less_iff)
    then have "Suc i * unat ss \<le> j * unat ss" by (intro mult_le_mono1) simp
    then have "int (Suc i * unat ss) \<le> int (j * unat ss)" by (simp only: of_nat_le_iff)
    then show ?thesis by (simp add: algebra_simps del: of_nat_unat)
  qed
  then show ?thesis unfolding blocks_apart_def by auto
qed

lemma hdr_handle:
  assumes at: "pool_at st i B" and a: "a \<in> set (hdr_list (pool_tbl st ! i))"
  obtains k where "a = hdr_at (pool_tbl st ! i) k" "k < unat (pl_buf_num (pool_tbl st ! i))"
    "odp_buf_to_hdr st (bh_handle (bhdr (heap st) a)) = Inr a"
    "bits_seg (bh_handle (bhdr (heap st) a)) = 0" "bits_pool_id (bh_handle (bhdr (heap st) a)) = of_nat i"
    "unat (bits_index (bh_handle (bhdr (heap st) a))) = k * (unat (pl_buf_stride (pool_tbl st ! i)) div 64)"
    "bh_pool_hdl (bhdr (heap st) a) = of_nat i"
proof -
  let ?p = "pool_tbl st ! i"
  have "a \<in> hdr_at ?p ` {0..<unat (pl_buf_num ?p)}" using a unfolding hdr_list_def set_map set_upt .
  then obtain k where k: "a = hdr_at ?p k" "k < unat (pl_buf_num ?p)"
    by (rule imageE) (simp only: atLeastLessThan_iff)
  note d = pool_atD [OF at]
  obtain L bl where r: "pool_rep {} ?p (heap st) (\<lambda>t. local_caches st t i) L bl B"
    using d(7) by (auto simp: pool_inv_def)
  have ok: "hdr_ok ?p (heap st) a" using pool_rep_coreD(1) [OF r] a by (simp add: pool_core_def)
  have h: "bh_handle (bhdr (heap st) a) = odp_buffer_encode_handle ?p (pl_pool_id ?p) (hdr_at ?p k)"
    using ok d(5,6) k(1) by (simp add: hdr_ok_def pool_handle_to_index_def)
  have pre: "unat (pl_pool_id ?p) < ODP_CONFIG_POOLS" "64 dvd unat (pl_buf_stride ?p)"
    "unat (pl_buf_num ?p) * unat (pl_buf_stride ?p) \<le> 2 ^ 31" "unat (pl_pool_id ?p) < length (pool_tbl st)"
    "pool_tbl st ! unat (pl_pool_id ?p) = ?p"
    using at d(1-5) by (simp_all add: pool_at_def)
  note rt = handle_roundtrip [OF pre(1) k(2) pre(2-5)]
  have "bh_pool_hdl (bhdr (heap st) a) = of_nat i" using ok d(6) by (simp add: hdr_ok_def)
  then show thesis
    using that [OF k] rt d(5) unfolding h k(1) [symmetric] by simp
qed

section \<open>Allocation and free through handles\<close>

lemma buffer_alloc_at:
  assumes at: "pool_at st i B" and sz: "unat sz < 2 ^ 32"
  obtains r cache' pool' hp' where
    "buffer_alloc_entry tid (local_caches st tid i) (pool_tbl st ! i) (heap st) sz = Inr (r, cache', pool', hp')"
    "alloc_post (pool_tbl st ! i) (heap st) sz r pool' hp'"
    "pool_at (put_pool tid i cache' pool' hp' st) i B"
    "buffer_alloc tid (of_nat i) sz st =
      Inr (case r of None \<Rightarrow> ODP_BUFFER_INVALID | Some a \<Rightarrow> bh_handle (bhdr hp' a), put_pool tid i cache' pool' hp' st)"
proof -
  note d = pool_atD [OF at]
  obtain L bl where rep: "pool_rep {} (pool_tbl st ! i) (heap st) (\<lambda>t. local_caches st t i) L bl B"
    using d(7) by (auto simp: pool_inv_def)
  obtain r cache' pool' hp' where
    e: "buffer_alloc_entry tid (local_caches st tid i) (pool_tbl st ! i) (heap st) sz = Inr (r, cache', pool', hp')"
    and inv: "pool_inv pool' hp' ((\<lambda>t. local_caches st t i)(tid := cache')) B"
    and post: "alloc_post (pool_tbl st ! i) (heap st) sz r pool' hp'"
    using buffer_alloc_entry_total [OF rep sz, of tid tid] by auto
  have "pool_same pool' (pool_tbl st ! i)" using post by (simp add: alloc_post_def)
  from that [OF e post pool_at_put(1) [OF at this inv]] show thesis
    using d(3,4) e by (simp add: buffer_alloc_def pool_handle_to_index_def odp_hdr_to_buf_def split: option.split)
qed


lemma buffer_alloc_total:
  assumes at: "pool_at st i B" and sz: "unat sz < 2 ^ 32"
  shows "\<exists>h st'. buffer_alloc tid (of_nat i) sz st = Inr (h, st') \<and> pool_at st' i B \<and> pool_same (pool_tbl st' ! i) (pool_tbl st ! i) \<and>
    mem (heap st') = mem (heap st) \<and>
    (\<forall>x\<in>allocated_at st i. hdrs (heap st') x = hdrs (heap st) x) \<and>
    (h = ODP_BUFFER_INVALID \<and> allocated_at st' i = allocated_at st i \<or>
     (\<exists>a. a \<notin> allocated_at st i \<and> allocated_at st' i = insert a (allocated_at st i) \<and>
        odp_buf_to_hdr st' h = Inr a \<and> bits_seg h = 0 \<and>
        unat (pl_headroom (pool_tbl st ! i)) + unat sz + unat (pl_tailroom (pool_tbl st ! i))
          \<le> unat (bh_size (bhdr (heap st') a)) \<and>
        (pp_type (pl_params (pool_tbl st ! i)) = ODP_POOL_PACKET \<longrightarrow>
          packet_ok (hdrs (heap st') a) \<and> frame_len (hdrs (heap st') a) = ucast sz \<and>
          headroom (hdrs (heap st') a) = pl_headroom (pool_tbl st ! i))))"
proof -
  obtain r cache' pool' hp' where post: "alloc_post (pool_tbl st ! i) (heap st) sz r pool' hp'"
    and at': "pool_at (put_pool tid i cache' pool' hp' st) i B"
    and e: "buffer_alloc tid (of_nat i) sz st =
      Inr (case r of None \<Rightarrow> ODP_BUFFER_INVALID | Some a \<Rightarrow> bh_handle (bhdr hp' a), put_pool tid i cache' pool' hp' st)"
    by (rule buffer_alloc_at [OF at sz])
  let ?st' = "put_pool tid i cache' pool' hp' st"
  have s: "pool_tbl ?st' ! i = pool'" "heap ?st' = hp'"
    using pool_atD(2) [OF at] by (simp_all add: put_pool_def)
  show ?thesis
  proof (cases r)
    case None
    then show ?thesis using e at' post s by (auto simp: alloc_post_def)
  next
    case (Some a)
    have "a \<in> set (hdr_list (pool_tbl ?st' ! i))"
      using post Some s pool_same_hdr_list by (auto simp: alloc_post_def)
    then have "odp_buf_to_hdr ?st' (bh_handle (bhdr hp' a)) = Inr a" "bits_seg (bh_handle (bhdr hp' a)) = 0"
      using s(2) by (auto elim: hdr_handle [OF at'])
    then show ?thesis
      using e at' post s Some unfolding alloc_post_def
      by (intro exI [of _ "bh_handle (bhdr hp' a)"] exI [of _ ?st']) auto
  qed
qed

text \<open>
  C2: Allocation never goes wrong on a pool that satisfies the invariant, keeps the invariant, and
  either fails and hands out nothing, or returns the valid handle of a buffer that was free, big
  enough for headroom, data and tailroom, and for packet pools an initialised packet. The headers of the
  buffers handed out before and the data bytes are untouched.
\<close>

theorem buffer_alloc_correct:
  assumes at: "pool_at st i B" and sz: "unat sz < 2 ^ 32"
  shows "\<exists>h st'. buffer_alloc tid (of_nat i) sz st = Inr (h, st') \<and> pool_at st' i B \<and>
    mem (heap st') = mem (heap st) \<and>
    (\<forall>x\<in>allocated_at st i. hdrs (heap st') x = hdrs (heap st) x) \<and>
    (h = ODP_BUFFER_INVALID \<and> allocated_at st' i = allocated_at st i \<or>
     (\<exists>a. a \<notin> allocated_at st i \<and> allocated_at st' i = insert a (allocated_at st i) \<and>
        odp_buf_to_hdr st' h = Inr a \<and> bits_seg h = 0 \<and>
        unat (pl_headroom (pool_tbl st ! i)) + unat sz + unat (pl_tailroom (pool_tbl st ! i))
          \<le> unat (bh_size (bhdr (heap st') a)) \<and>
        (pp_type (pl_params (pool_tbl st ! i)) = ODP_POOL_PACKET \<longrightarrow>
          packet_ok (hdrs (heap st') a) \<and> frame_len (hdrs (heap st') a) = ucast sz \<and>
          headroom (hdrs (heap st') a) = pl_headroom (pool_tbl st ! i))))"
  using buffer_alloc_total [OF assms] by blast

lemma buffer_alloc_live:
  assumes at: "pool_at st i B" and sz: "unat sz < 2 ^ 32"
    and fit: "\<not> alloc_too_big (pool_tbl st ! i) (alloc_totsize (pool_tbl st ! i) sz)"
    and buf: "pl_bufcount (pool_tbl st ! i) \<noteq> 0 \<or> lc_freelist (local_caches st tid i) \<noteq> NULL"
    and blk: "alloc_totsize (pool_tbl st ! i) sz
      \<le> unat (pl_blkcount (pool_tbl st ! i)) * unat (pl_seg_size (pool_tbl st ! i))"
  shows "\<exists>a st'. buffer_alloc tid (of_nat i) sz st = Inr (bh_handle (bhdr (heap st') a), st') \<and>
    a \<in> allocated_at st' i \<and> a \<notin> allocated_at st i \<and> pool_at st' i B"
proof -
  let ?p = "pool_tbl st ! i"
  note d = pool_atD [OF at]
  obtain L bl where rep: "pool_rep {} ?p (heap st) (\<lambda>t. local_caches st t i) L bl B"
    using d(7) by (auto simp: pool_inv_def)
  have core: "pool_core ?p (heap st) (list_heads ?p (\<lambda>t. local_caches st t i)) L bl B"
    by (rule pool_rep_coreD(1) [OF rep])
  then have "linked (hdr_next (heap st)) (lc_freelist (local_caches st tid i)) (L (Some tid))"
    unfolding pool_core_def by (metis list_heads_simps(2))
  then have ne: "\<not> (L None = [] \<and> L (Some tid) = [])" using buf pool_rep_coreD(4) [OF rep] by auto
  have "unat (pl_blkcount ?p) \<le> length bl"
    using core by (simp add: pool_core_def unat_of_nat)
  then have "unat (pl_blkcount ?p) * unat (pl_seg_size ?p) \<le> length bl * unat (pl_seg_size ?p)"
    by (rule mult_le_mono1)
  then have nb: "\<not> length bl * unat (pl_seg_size ?p) < alloc_totsize ?p sz" using blk by linarith
  obtain r cache' pool' hp' where
    e: "buffer_alloc_entry tid (local_caches st tid i) ?p (heap st) sz = Inr (r, cache', pool', hp')"
    and post: "alloc_post ?p (heap st) sz r pool' hp'" and r: "r \<noteq> None"
    and inv: "pool_inv pool' hp' ((\<lambda>t. local_caches st t i)(tid := cache')) B"
    using buffer_alloc_entry_total [OF rep sz, of tid tid] fit ne nb by blast
  then obtain a where a: "r = Some a" by auto
  let ?st' = "put_pool tid i cache' pool' hp' st"
  have "buffer_alloc tid (of_nat i) sz st = Inr (bh_handle (bhdr (heap ?st') a), ?st')"
    using d(3,4) e a by (simp add: buffer_alloc_def pool_handle_to_index_def odp_hdr_to_buf_def put_pool_def)
  moreover have "a \<in> allocated_at ?st' i \<and> a \<notin> allocated_at st i"
    using post a d(2) by (simp add: alloc_post_def put_pool_def)
  moreover have "pool_at ?st' i B"
    using pool_at_put(1) [OF at _ inv] post by (simp add: alloc_post_def)
  ultimately show ?thesis by blast
qed

text \<open>
  C3: A request that the size test accepts succeeds whenever the caller's cache or the pool has a
  free buffer and the block free list can hold the request.
\<close>

theorem buffer_alloc_succeeds:
  assumes at: "pool_at st i B" and sz: "unat sz < 2 ^ 32"
    and fit: "\<not> alloc_too_big (pool_tbl st ! i) (alloc_totsize (pool_tbl st ! i) sz)"
    and buf: "pl_bufcount (pool_tbl st ! i) \<noteq> 0 \<or> lc_freelist (local_caches st tid i) \<noteq> NULL"
    and blk: "alloc_totsize (pool_tbl st ! i) sz
      \<le> unat (pl_blkcount (pool_tbl st ! i)) * unat (pl_seg_size (pool_tbl st ! i))"
  shows "\<exists>a st'. buffer_alloc tid (of_nat i) sz st = Inr (bh_handle (bhdr (heap st') a), st') \<and>
    a \<in> allocated_at st' i \<and> a \<notin> allocated_at st i"
  using buffer_alloc_live [OF assms] by blast

lemma odp_buffer_free_at:
  assumes at: "pool_at st i B" and a: "a \<in> allocated_at st i"
  shows "\<exists>st'. odp_buffer_free tid (bh_handle (bhdr (heap st) a)) st = Inr st' \<and> pool_at st' i B \<and> pool_same (pool_tbl st' ! i) (pool_tbl st ! i) \<and>
    allocated_at st' i = allocated_at st i - {a} \<and> mem (heap st') = mem (heap st) \<and>
    (\<forall>x. x \<noteq> a \<longrightarrow> hdrs (heap st') x = hdrs (heap st) x)"
proof -
  note d = pool_atD [OF at]
  have "a \<in> set (hdr_list (pool_tbl st ! i))" using a by (simp add: allocated_def)
  then have h: "odp_buf_to_hdr st (bh_handle (bhdr (heap st) a)) = Inr a" "bh_pool_hdl (bhdr (heap st) a) = of_nat i"
    by (auto elim: hdr_handle [OF at])
  obtain cache' pool' hp' where
    f: "buffer_free_entry (local_caches st tid i) (pool_tbl st ! i) (heap st) a = Inr (cache', pool', hp')"
    "pool_inv pool' hp' ((\<lambda>t. local_caches st t i)(tid := cache')) B" "pool_same pool' (pool_tbl st ! i)"
    "mem hp' = mem (heap st)" "allocated pool' hp' = allocated_at st i - {a}"
    "\<forall>x. x \<noteq> a \<longrightarrow> hdrs hp' x = hdrs (heap st) x"
    using buffer_free_entry_inv [OF d(7) a, of tid] by auto
  note put = pool_at_put [OF at f(3,2)]
  have "odp_buffer_free tid (bh_handle (bhdr (heap st) a)) st = Inr (put_pool tid i cache' pool' hp' st)"
    using h d(2-5) f(1)
    by (simp add: odp_buffer_free_def odp_buf_to_pool_def odp_pool_to_entry_def pool_handle_to_index_def Let_def)
  then show ?thesis using put f(3-6) by auto
qed

text \<open>
  C4: Freeing the handle of an allocated buffer succeeds, keeps the invariant, takes exactly that
  buffer out of the set of allocated buffers and leaves every other header and the data alone.
\<close>

theorem odp_buffer_free_correct:
  assumes at: "pool_at st i B" and a: "a \<in> allocated_at st i"
  shows "\<exists>st'. odp_buffer_free tid (bh_handle (bhdr (heap st) a)) st = Inr st' \<and> pool_at st' i B \<and>
    allocated_at st' i = allocated_at st i - {a} \<and> mem (heap st') = mem (heap st) \<and>
    (\<forall>x. x \<noteq> a \<longrightarrow> hdrs (heap st') x = hdrs (heap st) x)"
  using odp_buffer_free_at [OF assms] by blast

text \<open>The addresses of the blocks of a pool.\<close>

definition geo_blocks :: "pool_geometry \<Rightarrow> addr \<Rightarrow> addr list" where
  "geo_blocks g base = (if unat (g_blk_size g) \<le> ODP_MAX_INLINE_BUF then []
    else map (\<lambda>i. base + int (i * unat (geo_seg g))) [0..<geo_nblks g])"

lemma odp_pool_create_in:
  assumes abi: "abi_ok abi" and slot: "free_slot st = Some i" "i < ODP_CONFIG_POOLS"
    and id: "pl_pool_id (pool_tbl st ! i) = of_nat i" "pl_pool_hdl (pool_tbl st ! i) = of_nat i"
    and caches: "\<forall>t. lc_freelist (local_caches st t i) = NULL"
    and arr: "\<forall>a. length (bh_addr (bhdr (heap st) a)) = ODP_BUFFER_MAX_SEG"
    and geo: "pool_create_geometry abi (default_params p) = Inr (Some g)"
    and num: "0 < pp_num p" "unat (pp_num p) * unat (g_blk_size g) < 2 ^ 32" "unat (pp_size_len p) \<le> 2 ^ 29"
    and shm: "shm_reserve (pl_name (create_claim name (default_params p) g (pool_tbl st ! i))) (geo_pool_size g) = (shm, base)"
      "shm \<noteq> ODP_SHM_INVALID" "0 < base"
  shows "\<exists>st' B. odp_pool_create abi shm_reserve name (Some p) st = Some (Inr (of_nat i, st')) \<and>
    pool_at st' i B \<and> allocated_at st' i = {} \<and> pl_bufcount (pool_tbl st' ! i) = pp_num p \<and>
    pl_blkcount (pool_tbl st' ! i) = of_nat (size B) \<and>
    size B = (if unat (g_blk_size g) \<le> ODP_MAX_INLINE_BUF then 0 else geo_nblks g) \<and>
    local_caches st' = local_caches st \<and> pl_params (pool_tbl st' ! i) = default_params p \<and>
    pl_seg_size (pool_tbl st' ! i) = geo_seg g \<and> pl_headroom (pool_tbl st' ! i) = g_headroom g \<and>
    pl_tailroom (pool_tbl st' ! i) = g_tailroom g \<and> pl_unsegmented (pool_tbl st' ! i) = g_unseg g \<and>
    \<not> pl_predefined (pool_tbl st' ! i) \<and> blocks_apart (pl_seg_size (pool_tbl st' ! i)) B \<and>
    B = mset (geo_blocks g base) \<and> pl_buf_num (pool_tbl st' ! i) = g_buf_num g"
proof -
  let ?q = "default_params p" let ?c = "create_claim name ?q g (pool_tbl st ! i)"
  have q: "pp_num ?q = pp_num p" "unat (pp_size_len ?q) \<le> 2 ^ 29" "pp_type ?q = pp_type p"
    using num(3) by (simp_all add: default_params_def)
  have il: "i < length (pool_tbl st)"
    using slot(1) by (auto simp: free_slot_def find_Some_iff)
  note g = create_geometry_ok [OF geo abi _ _ q(2), unfolded q(1), OF num(1,2)]
  have c: "pp_type (pl_params ?c) = pp_type ?q" "pl_buf_num ?c = g_buf_num g" "pl_pool_hdl ?c = of_nat i"
    "pl_pool_id ?c = of_nat i" "pl_pool_size ?c = geo_pool_size g" "pl_params ?c = ?q"
    using id by (simp_all add: create_claim_def)
  have gk: "geo_ok g (pp_type (pl_params ?c))" using g(1) c(1) by simp
  have pr: "\<not> pl_predefined ?c" by (simp add: create_claim_def)
  define blks where "blks = (if unat (g_blk_size g) \<le> ODP_MAX_INLINE_BUF then []
    else map (\<lambda>i. base + int (i * unat (geo_seg g))) [0..<geo_nblks g])"
  have blks: "geo_blocks g base = blks" by (simp add: blks_def geo_blocks_def)
  have len: "length blks = (if unat (g_blk_size g) \<le> ODP_MAX_INLINE_BUF then 0 else geo_nblks g)"
    by (simp add: blks_def)
  obtain pool hp' where r: "create_in_slot abi g shm base ?c (heap st) = Some (Inr (pool, hp'))"
    "pool_inv pool hp' (\<lambda>t. local_caches st t i) (mset blks)" "allocated pool hp' = {}"
    "pl_bufcount pool = g_buf_num g" "pl_buf_num pool = g_buf_num g" "pl_blkcount pool = of_nat (length blks)"
    "pl_pool_shm pool = shm" "pl_pool_hdl pool = pl_pool_hdl ?c"
    "pl_params pool = pl_params ?c" "pl_pool_id pool = pl_pool_id ?c" "pl_buf_stride pool = g_buf_stride g"
    "pl_seg_size pool = geo_seg g" "pl_headroom pool = g_headroom g" "pl_tailroom pool = g_tailroom g"
    "pl_unsegmented pool = g_unseg g" "\<not> pl_predefined pool"
    using create_in_slot_inv [OF gk shm(3) c(2) caches arr, of abi shm, folded blks_def] pr by metis
  let ?st' = "st\<lparr>pool_tbl := (pool_tbl st)[i := pool], heap := hp'\<rparr>"
  have e: "odp_pool_create abi shm_reserve name (Some p) st = Some (Inr (of_nat i, ?st'))"
    using geo slot(1) shm r(1,8) c(3,5) by (simp add: odp_pool_create_def Let_def)
  have "pool_at ?st' i (mset blks)"
    using r g slot(2) il c shm(2) gk q(1) num(1) unfolding pool_at_def by (auto simp: geo_ok_def)
  moreover have "blocks_apart (geo_seg g) (mset blks)"
    unfolding blks_def using blocks_apart_row [of "geo_seg g" base "geo_nblks g"] by (simp add: blocks_apart_def)
  ultimately show ?thesis using e r il g(2) c(6) len blks by (intro exI [of _ ?st'] exI [of _ "mset blks"]) simp
qed

lemma odp_pool_create_at:
  assumes abi: "abi_ok abi" and slot: "free_slot st = Some i" "i < ODP_CONFIG_POOLS"
    and id: "pl_pool_id (pool_tbl st ! i) = of_nat i" "pl_pool_hdl (pool_tbl st ! i) = of_nat i"
    and caches: "\<forall>t. lc_freelist (local_caches st t i) = NULL"
    and arr: "\<forall>a. length (bh_addr (bhdr (heap st) a)) = ODP_BUFFER_MAX_SEG"
    and geo: "pool_create_geometry abi (default_params p) = Inr (Some g)"
    and num: "0 < pp_num p" "unat (pp_num p) * unat (g_blk_size g) < 2 ^ 32" "unat (pp_size_len p) \<le> 2 ^ 29"
    and shm: "shm_reserve (pl_name (create_claim name (default_params p) g (pool_tbl st ! i))) (geo_pool_size g) = (shm, base)"
      "shm \<noteq> ODP_SHM_INVALID" "0 < base"
  shows "\<exists>st' B. odp_pool_create abi shm_reserve name (Some p) st = Some (Inr (of_nat i, st')) \<and>
    pool_at st' i B \<and> allocated_at st' i = {} \<and> pl_bufcount (pool_tbl st' ! i) = pp_num p \<and>
    pl_blkcount (pool_tbl st' ! i) = of_nat (size B) \<and>
    size B = (if unat (g_blk_size g) \<le> ODP_MAX_INLINE_BUF then 0 else geo_nblks g) \<and>
    local_caches st' = local_caches st \<and> pl_params (pool_tbl st' ! i) = default_params p \<and>
    pl_seg_size (pool_tbl st' ! i) = geo_seg g \<and> pl_headroom (pool_tbl st' ! i) = g_headroom g \<and>
    pl_tailroom (pool_tbl st' ! i) = g_tailroom g \<and> pl_unsegmented (pool_tbl st' ! i) = g_unseg g \<and>
    \<not> pl_predefined (pool_tbl st' ! i) \<and> blocks_apart (pl_seg_size (pool_tbl st' ! i)) B"
  using odp_pool_create_in [where shm_reserve = shm_reserve and name = name, OF assms] by blast

text \<open>
  C1: Creation. In a table with a free slot, an accepted request whose sizes do not overflow fills
  the first free slot with a pool that satisfies the invariant: all \<open>num\<close> buffers are free,
  nothing is allocated, and the handle of the slot is returned.
\<close>

theorem odp_pool_create_correct:
  assumes abi: "abi_ok abi" and slot: "free_slot st = Some i" "i < ODP_CONFIG_POOLS"
    and id: "pl_pool_id (pool_tbl st ! i) = of_nat i" "pl_pool_hdl (pool_tbl st ! i) = of_nat i"
    and caches: "\<forall>t. lc_freelist (local_caches st t i) = NULL"
    and arr: "\<forall>a. length (bh_addr (bhdr (heap st) a)) = ODP_BUFFER_MAX_SEG"
    and geo: "pool_create_geometry abi (default_params p) = Inr (Some g)"
    and num: "0 < pp_num p" "unat (pp_num p) * unat (g_blk_size g) < 2 ^ 32" "unat (pp_size_len p) \<le> 2 ^ 29"
    and shm: "shm_reserve (pl_name (create_claim name (default_params p) g (pool_tbl st ! i))) (geo_pool_size g) = (shm, base)"
      "shm \<noteq> ODP_SHM_INVALID" "0 < base"
  shows "\<exists>st' B. odp_pool_create abi shm_reserve name (Some p) st = Some (Inr (of_nat i, st')) \<and>
    pool_at st' i B \<and> allocated_at st' i = {} \<and> pl_bufcount (pool_tbl st' ! i) = pp_num p \<and>
    pl_blkcount (pool_tbl st' ! i) = of_nat (size B) \<and> blocks_apart (pl_seg_size (pool_tbl st' ! i)) B \<and>
    (\<exists>nm. odp_pool_info (of_nat i) True st' = Inr (0, Some (nm, default_params p)))"
proof -
  obtain st' B where c: "odp_pool_create abi shm_reserve name (Some p) st = Some (Inr (of_nat i, st'))"
    "pool_at st' i B" "allocated_at st' i = {}" "pl_bufcount (pool_tbl st' ! i) = pp_num p"
    "pl_blkcount (pool_tbl st' ! i) = of_nat (size B)" "pl_params (pool_tbl st' ! i) = default_params p"
    "blocks_apart (pl_seg_size (pool_tbl st' ! i)) B"
    using odp_pool_create_at [where shm_reserve = shm_reserve and name = name, OF assms] by blast
  have "odp_pool_info (of_nat i) True st' = Inr (0, Some (pl_name (pool_tbl st' ! i), default_params p))"
    using pool_atD(4) [OF c(2)] c(6) by (simp add: odp_pool_info_def pool_handle_to_index_def)
  then show ?thesis using c by blast
qed

lemma hdr_list_distinct:
  assumes "0 < pl_buf_stride pool"
  shows "distinct (hdr_list pool)" "length (hdr_list pool) = unat (pl_buf_num pool)"
  using hdr_at_eq_iff [OF assms] unfolding hdr_list_def
  by (auto simp: distinct_map inj_on_def simp del: of_nat_unat of_nat_mult)

lemma free_hdrs_split: "free_hdrs L = set (L None) \<union> (\<Union>t. set (L (Some t)))"
  by (simp add: free_hdrs_def UNIV_option_conv)

lemma pool_full_iff:
  assumes r: "pool_rep {} pool hp caches L bl B" and st: "0 < pl_buf_stride pool"
  shows "pl_bufcount pool < pl_buf_num pool \<longleftrightarrow>
    \<not> (allocated pool hp = {} \<and> (\<forall>t. lc_freelist (caches t) = NULL))"
proof -
  note core = pool_rep_coreD(1) [OF r]
  have lk: "linked (hdr_next hp) (list_heads pool caches i) (L i)" for i using core by (simp add: pool_core_def)
  have fs: "free_hdrs L \<subseteq> set (hdr_list pool)" using core by (simp add: pool_core_def)
  then have sub: "set (L None) \<subseteq> set (hdr_list pool)" unfolding free_hdrs_def by blast
  have dj: "i \<noteq> j \<Longrightarrow> set (L i) \<inter> set (L j) = {}" for i j using core by (simp add: pool_core_def)
  have c: "card (set (L None)) = length (L None)" "card (set (hdr_list pool)) = unat (pl_buf_num pool)"
    using linked_distinct [OF lk [of None]] hdr_list_distinct [OF st] by (simp_all add: distinct_card)
  then have le: "length (L None) \<le> unat (pl_buf_num pool)" using card_mono [OF finite_set sub] by simp
  then have "unat (pl_bufcount pool) = length (L None)"
    using pool_rep_coreD(4) [OF r] by (simp add: order_le_less_trans unat_of_nat_small)
  then have 1: "pl_bufcount pool < pl_buf_num pool \<longleftrightarrow> set (L None) \<noteq> set (hdr_list pool)"
    using le c sub by (metis card_subset_eq finite_set le_neq_implies_less less_irrefl word_less_nat_alt)
  have nil: "lc_freelist (caches t) = NULL \<longleftrightarrow> L (Some t) = []" for t
    using lk [of "Some t"] by (cases "L (Some t)") auto
  have "set (L None) = set (hdr_list pool) \<longleftrightarrow> free_hdrs L = set (hdr_list pool) \<and> (\<forall>t. L (Some t) = [])"
  proof
    assume e: "set (L None) = set (hdr_list pool)"
    have em: "L (Some t) = []" for t
    proof -
      have "set (L (Some t)) \<subseteq> set (hdr_list pool)" using fs unfolding free_hdrs_def by blast
      moreover have "set (hdr_list pool) \<inter> set (L (Some t)) = {}" unfolding e [symmetric] by (rule dj) simp
      ultimately have "set (L (Some t)) = {}" by (metis Int_absorb1)
      then show ?thesis by simp
    qed
    then show "free_hdrs L = set (hdr_list pool) \<and> (\<forall>t. L (Some t) = [])"
      using e by (simp add: free_hdrs_split)
  next
    assume "free_hdrs L = set (hdr_list pool) \<and> (\<forall>t. L (Some t) = [])"
    then have "free_hdrs L = set (hdr_list pool)" "\<forall>t. L (Some t) = []" by blast+
    then show "set (L None) = set (hdr_list pool)" by (simp add: free_hdrs_split)
  qed
  then show ?thesis using 1 nil allocated_rep [OF r] fs by auto
qed

text \<open>
  C6: Destruction. On a created pool that is not predefined, \<open>odp_pool_destroy\<close> returns; it
  succeeds exactly when no buffer is allocated and no other thread caches buffers of the pool, and
  otherwise reports failure and keeps the pool.
\<close>

theorem odp_pool_destroy_iff:
  assumes at: "pool_at st i B" and np: "\<not> pl_predefined (pool_tbl st ! i)"
  shows "\<exists>r st'. odp_pool_destroy tid (of_nat i) st = Some (Inr (r, st')) \<and>
    (r = 0 \<longleftrightarrow> allocated_at st i = {} \<and> (\<forall>t. t \<noteq> tid \<longrightarrow> lc_freelist (local_caches st t i) = NULL)) \<and>
    (r = 0 \<longrightarrow> pl_pool_shm (pool_tbl st' ! i) = ODP_SHM_INVALID) \<and>
    (r \<noteq> 0 \<longrightarrow> r = -1 \<and> pool_at st' i B \<and> allocated_at st' i = allocated_at st i)"
proof -
  let ?p = "pool_tbl st ! i"
  note d = pool_atD [OF at]
  have shm: "pl_pool_shm ?p \<noteq> ODP_SHM_INVALID" "0 < pl_buf_stride ?p" using at by (simp_all add: pool_at_def)
  obtain cache' pool' hp' where f: "flush_cache (local_caches st tid i) ?p (heap st) = Some (Inr (cache', pool', hp'))"
    and inv: "pool_inv pool' hp' ((\<lambda>t. local_caches st t i)(tid := cache')) B" "lc_freelist cache' = NULL"
      "pool_same pool' ?p" "allocated pool' hp' = allocated_at st i"
    using flush_cache_inv [OF d(7), of tid] by auto
  obtain L bl where r: "pool_rep {} pool' hp' ((\<lambda>t. local_caches st t i)(tid := cache')) L bl B"
    using inv(1) by (auto simp: pool_inv_def)
  have st': "0 < pl_buf_stride pool'" using shm(2) inv(3) by (simp add: pool_same_def)
  have full: "pl_bufcount pool' < pl_buf_num pool' \<longleftrightarrow>
      \<not> (allocated_at st i = {} \<and> (\<forall>t. t \<noteq> tid \<longrightarrow> lc_freelist (local_caches st t i) = NULL))"
    unfolding pool_full_iff [OF r st'] inv(4) using inv(2) by auto
  note put = pool_at_put [OF at inv(3,1)]
  show ?thesis
  proof (cases "pl_bufcount pool' < pl_buf_num pool'")
    case True
    then have "odp_pool_destroy tid (of_nat i) st = Some (Inr (-1, put_pool tid i cache' pool' hp' st))"
      using d(3,4) f shm np by (simp add: odp_pool_destroy_def pool_handle_to_index_def)
    then show ?thesis using full True put inv(4) by auto
  next
    case False
    then have "odp_pool_destroy tid (of_nat i) st =
        Some (Inr (0, put_pool tid i cache' (pool'\<lparr>pl_pool_shm := ODP_SHM_INVALID\<rparr>) hp' st))"
      using d(3,4) f shm np by (simp add: odp_pool_destroy_def pool_handle_to_index_def)
    then show ?thesis using full False d(2) by (auto simp: put_pool_def)
  qed
qed

text \<open>
  C5: Handle validation. Among the handles that name pool \<open>i\<close>, \<open>odp_buffer_is_valid\<close> accepts
  exactly the handles of the buffers that are allocated.
\<close>

theorem odp_buffer_is_valid_iff:
  assumes at: "pool_at st i B" and h: "bits_pool_id h = of_nat i"
  shows "odp_buffer_is_valid st h =
    Inr (h \<in> (\<lambda>a. bh_handle (bhdr (heap st) a)) ` allocated_at st i)"
proof -
  let ?p = "pool_tbl st ! i"
  note d = pool_atD [OF at]
  obtain k where k: "unat (pl_buf_stride ?p) = 64 * k" using at by (auto simp: pool_at_def elim: dvdE)
  have k0: "0 < k" using at k by (simp add: pool_at_def word_less_nat_alt)
  have div: "unat (pl_buf_stride ?p div ODP_CACHE_LINE_SIZE) = k" by (simp add: unat_div_distrib k)
  then have nz: "pl_buf_stride ?p div ODP_CACHE_LINE_SIZE \<noteq> 0" using k0 by (metis neq0_conv unat_0)
  have num: "pp_num (pl_params ?p) = pl_buf_num ?p" "pl_pool_shm ?p \<noteq> ODP_SHM_INVALID"
    using at by (simp_all add: pool_at_def)
  obtain L bl where rep: "pool_rep {} ?p (heap st) (\<lambda>t. local_caches st t i) L bl B"
    using d(7) by (auto simp: pool_inv_def)
  have nn: "NULL \<notin> set (hdr_list ?p)" using pool_rep_coreD(1) [OF rep] by (simp add: pool_core_def)
  let ?x = "unat (bits_index h)"
  have md: "bits_index h mod (pl_buf_stride ?p div ODP_CACHE_LINE_SIZE) = 0 \<longleftrightarrow> ?x mod k = 0"
    by (simp add: word_eq_nat unat_mod_distrib div del: config_defs)
  have lt: "pp_num (pl_params ?p) \<le> bits_index h div (pl_buf_stride ?p div ODP_CACHE_LINE_SIZE) \<longleftrightarrow>
      \<not> ?x div k < unat (pl_buf_num ?p)"
    by (auto simp: word_le_nat_alt unat_div_distrib num(1) k)
  have "?x < 2 ^ 25" using take_bit_nat_less_exp [of 25] by (simp add: bits_index_def unat_take_bit)
  then have x64: "unat (bits_index h * ODP_CACHE_LINE_SIZE) = ?x * 64"
    using unat_mult_u32 [of "bits_index h" 64] by simp
  let ?a = "pl_mdata_addr ?p + int (?x * 64)"
  have val: "odp_buffer_is_valid st h = Inr (bits_seg h = 0 \<and> ?x mod k = 0 \<and> ?x div k < unat (pl_buf_num ?p) \<and>
      bh_allocator (bhdr (heap st) ?a) \<noteq> ODP_FREEBUF \<and> ?a \<noteq> NULL)"
    using d(1,3,4) nz num(2) md lt x64 unfolding odp_buffer_is_valid_def validate_buf_def h Let_def
    by (simp add: odp_pool_to_entry_def pool_handle_to_index_def del: of_nat_mult)
  have ah: "?a = hdr_at ?p (?x div k)" if "?x mod k = 0"
    using that k by (simp add: mult.left_commute flip: of_nat_mult) (metis dvd_div_mult_self mod_0_imp_dvd mult.commute)
  have inl: "hdr_at ?p j \<in> set (hdr_list ?p)" if "j < unat (pl_buf_num ?p)" for j
    using that unfolding hdr_list_def by (simp only: set_map set_upt) (rule imageI, simp)
  show ?thesis
  proof (rule trans [OF val], rule arg_cong [where f = Inr], rule iffI)
    assume v: "bits_seg h = 0 \<and> ?x mod k = 0 \<and> ?x div k < unat (pl_buf_num ?p) \<and>
      bh_allocator (bhdr (heap st) ?a) \<noteq> ODP_FREEBUF \<and> ?a \<noteq> NULL"
    then have a: "?a \<in> set (hdr_list ?p)" using ah inl by metis
    obtain j where j: "?a = hdr_at ?p j" "bits_seg (bh_handle (bhdr (heap st) ?a)) = 0"
      "bits_pool_id (bh_handle (bhdr (heap st) ?a)) = of_nat i"
      "unat (bits_index (bh_handle (bhdr (heap st) ?a))) = j * k"
      using hdr_handle [OF at a] k by (metis nonzero_mult_div_cancel_left zero_neq_numeral)
    have "j = ?x div k" using j(1) ah v hdr_at_eq_iff [of ?p j] at by (metis pool_at_def)
    then have "bits_index (bh_handle (bhdr (heap st) ?a)) = bits_index h"
      using j(4) v by (simp add: word_eq_nat mod_eq_0_iff_dvd)
    then have "h = bh_handle (bhdr (heap st) ?a)" using j v h by (metis bits_make_collapse)
    then show "h \<in> (\<lambda>a. bh_handle (bhdr (heap st) a)) ` allocated_at st i"
      using a v by (auto simp: allocated_def)
  next
    assume "h \<in> (\<lambda>a. bh_handle (bhdr (heap st) a)) ` allocated_at st i"
    then obtain a where a: "a \<in> set (hdr_list ?p)" "bh_allocator (bhdr (heap st) a) \<noteq> ODP_FREEBUF"
      "h = bh_handle (bhdr (heap st) a)" by (auto simp: allocated_def)
    obtain j where j: "a = hdr_at ?p j" "j < unat (pl_buf_num ?p)" "bits_seg h = 0" "?x = j * k"
      using hdr_handle [OF at a(1)] k unfolding a(3) by (metis nonzero_mult_div_cancel_left zero_neq_numeral)
    have "?a = a" using j(1,4) k by (simp add: mult.assoc mult.commute [of 64])
    moreover have "?x mod k = 0" "?x div k < unat (pl_buf_num ?p)" using j(2,4) k0 by simp_all
    moreover have "a \<noteq> NULL" using a(1) nn by blast
    ultimately show "bits_seg h = 0 \<and> ?x mod k = 0 \<and> ?x div k < unat (pl_buf_num ?p) \<and>
      bh_allocator (bhdr (heap st) ?a) \<noteq> ODP_FREEBUF \<and> ?a \<noteq> NULL"
      using j(3) a(2) by metis
  qed
qed

section \<open>A concrete pool\<close>

text \<open>
  The state after \<open>odp_pool_init_global\<close>, and after the creation of a packet pool with four
  packets in it; the properties are applied to it below.
\<close>

definition demo_abi :: odp_abi where
  "demo_abi = \<lparr>sizeof_buffer_hdr_stride = 128, sizeof_packet_hdr_stride = 256,
     sizeof_timeout_hdr_stride = 192, offsetof_addr_1 = 88\<rparr>"

definition demo_hdr :: odp_packet_hdr where
  "demo_hdr = \<lparr>buf_hdr = \<lparr>bh_next = NULL, bh_handle = 0, bh_zeroized = False, bh_hdrdata = False,
       bh_allocator = 0, bh_type = 0, bh_event_type = 0, bh_size = 0, bh_ref_count = 0,
       bh_pool_hdl = 0, bh_buf_u64 = 0, bh_uarea_addr = NULL, bh_uarea_size = 0,
       bh_segcount = 0, bh_segsize = 0, bh_addr = replicate 6 NULL\<rparr>,
     input_flags = 0, error_flags = 0, output_flags = 0, l2_offset = 0, l3_offset = 0, l4_offset = 0,
     payload_offset = 0, vlan_s_tag = 0, vlan_c_tag = 0, l3_protocol = 0, l3_len = 0, l4_protocol = 0,
     l4_len = 0, frame_len = 0, headroom = 0, tailroom = 0, pkt_input = 0\<rparr>"

definition demo_init :: odp_state where
  "demo_init = snd (odp_pool_init_global 4096
     \<lparr>pool_tbl = [], local_caches = (\<lambda>_ _. \<lparr>lc_freelist = NULL, lc_bufallocs = 0, lc_buffrees = 0\<rparr>),
      heap = \<lparr>hdrs = (\<lambda>_. demo_hdr), blk_next = (\<lambda>_. NULL), mem = (\<lambda>_. 0)\<rparr>\<rparr>)"

definition demo_param :: odp_pool_param where
  "demo_param = \<lparr>pp_type = ODP_POOL_PACKET, pp_num = 4, pp_size_len = 1500, pp_align_seg_len = 0, pp_uarea_size = 16\<rparr>"

definition demo_geo :: pool_geometry where
  "demo_geo = \<lparr>g_unseg = False, g_headroom = 66, g_tailroom = 0, g_buf_num = 4, g_blk_size = 1664,
     g_seg_len = 1664, g_buf_stride = 256, g_buf_align = 64, g_udata_size = 16, g_udata_stride = 16\<rparr>"

definition demo_pool_state :: odp_state where
  "demo_pool_state =
    (case odp_pool_create demo_abi (\<lambda>_ _. (1, 65536)) (Some ''pkts'') (Some demo_param) demo_init of
       Some (Inr (_, st)) \<Rightarrow> st | _ \<Rightarrow> demo_init)"

lemma demo_geometry: "pool_create_geometry demo_abi (default_params demo_param) = Inr (Some demo_geo)"
  by (simp add: pool_create_geometry_def default_params_def demo_param_def demo_geo_def demo_abi_def
      packet_geometry_def packet_seg_len_def ODP_ALIGN_ROUNDUP_def ODP_ALIGN_ROUNDDOWN_POWER_2_def Let_def)

lemma demo_hyps:
  "abi_ok demo_abi" "free_slot demo_init = Some 0"
  "pl_pool_id (pool_tbl demo_init ! 0) = of_nat 0" "pl_pool_hdl (pool_tbl demo_init ! 0) = of_nat 0"
  "\<forall>t. lc_freelist (local_caches demo_init t 0) = NULL"
  "\<forall>a. length (bh_addr (bhdr (heap demo_init) a)) = ODP_BUFFER_MAX_SEG"
proof -
  show "abi_ok demo_abi" by (simp add: abi_ok_def demo_abi_def)
  show "free_slot demo_init = Some 0"
    by (simp add: free_slot_def demo_init_def odp_pool_init_global_def zero_pool_entry_def ODP_SHM_INVALID_def upt_rec)
  show "pl_pool_id (pool_tbl demo_init ! 0) = of_nat 0" "pl_pool_hdl (pool_tbl demo_init ! 0) = of_nat 0"
    by (simp_all add: demo_init_def odp_pool_init_global_def pool_index_to_handle_def)
  show "\<forall>t. lc_freelist (local_caches demo_init t 0) = NULL"
    "\<forall>a. length (bh_addr (bhdr (heap demo_init) a)) = ODP_BUFFER_MAX_SEG"
    by (simp_all add: demo_init_def odp_pool_init_global_def demo_hdr_def)
qed

lemma demo_sizes: "0 < pp_num demo_param" "unat (pp_num demo_param) * unat (g_blk_size demo_geo) < 2 ^ 32"
  "unat (pp_size_len demo_param) \<le> 2 ^ 29"
  by (simp_all add: demo_param_def demo_geo_def)


lemma demo_pool:
  "odp_pool_create demo_abi (\<lambda>_ _. (1, 65536)) (Some ''pkts'') (Some demo_param) demo_init =
     Some (Inr (0, demo_pool_state)) \<and>
   (\<exists>B. pool_at demo_pool_state 0 B \<and> blocks_apart 1664 B) \<and> allocated_at demo_pool_state 0 = {} \<and>
   pl_bufcount (pool_tbl demo_pool_state ! 0) = 4 \<and> pl_blkcount (pool_tbl demo_pool_state ! 0) = 4 \<and>
   local_caches demo_pool_state = local_caches demo_init \<and>
   pl_seg_size (pool_tbl demo_pool_state ! 0) = 1664 \<and> pl_headroom (pool_tbl demo_pool_state ! 0) = 66 \<and>
   pl_tailroom (pool_tbl demo_pool_state ! 0) = 0 \<and> \<not> pl_unsegmented (pool_tbl demo_pool_state ! 0) \<and>
   \<not> pl_predefined (pool_tbl demo_pool_state ! 0) \<and>
   pp_type (pl_params (pool_tbl demo_pool_state ! 0)) = ODP_POOL_PACKET"
proof -
  have "\<exists>st' B. odp_pool_create demo_abi (\<lambda>_ _. (1, 65536)) (Some ''pkts'') (Some demo_param) demo_init =
        Some (Inr (of_nat 0, st')) \<and>
      pool_at st' 0 B \<and> allocated_at st' 0 = {} \<and> pl_bufcount (pool_tbl st' ! 0) = pp_num demo_param \<and>
      pl_blkcount (pool_tbl st' ! 0) = of_nat (size B) \<and>
      size B = (if unat (g_blk_size demo_geo) \<le> ODP_MAX_INLINE_BUF then 0 else geo_nblks demo_geo) \<and>
      local_caches st' = local_caches demo_init \<and> pl_params (pool_tbl st' ! 0) = default_params demo_param \<and>
      pl_seg_size (pool_tbl st' ! 0) = geo_seg demo_geo \<and> pl_headroom (pool_tbl st' ! 0) = g_headroom demo_geo \<and>
      pl_tailroom (pool_tbl st' ! 0) = g_tailroom demo_geo \<and> pl_unsegmented (pool_tbl st' ! 0) = g_unseg demo_geo \<and>
      \<not> pl_predefined (pool_tbl st' ! 0) \<and> blocks_apart (pl_seg_size (pool_tbl st' ! 0)) B"
    by (rule odp_pool_create_at [where i = 0 and shm = 1 and base = 65536, OF demo_hyps(1,2) _ demo_hyps(3-6)
          demo_geometry demo_sizes])
       (simp_all add: ODP_SHM_INVALID_def)
  moreover have "geo_nblks demo_geo = 4" "geo_seg demo_geo = 1664"
    by (simp_all add: geo_nblks_def geo_block_size_def geo_seg_def demo_geo_def)
  ultimately show ?thesis
    unfolding demo_pool_state_def by (auto simp: demo_param_def demo_geo_def default_params_def)
qed

definition demo_alloc_state :: odp_state where
  "demo_alloc_state = (case buffer_alloc 1 0 100 demo_pool_state of Inr (_, st) \<Rightarrow> st | Inl _ \<Rightarrow> demo_pool_state)"

lemma demo_request:
  "\<not> alloc_too_big (pool_tbl demo_pool_state ! 0) (alloc_totsize (pool_tbl demo_pool_state ! 0) 100)"
  "alloc_totsize (pool_tbl demo_pool_state ! 0) 100
     \<le> unat (pl_blkcount (pool_tbl demo_pool_state ! 0)) * unat (pl_seg_size (pool_tbl demo_pool_state ! 0))"
  using demo_pool by (simp_all add: alloc_too_big_def alloc_totsize_def)

lemma demo_alloc: "\<exists>a B. a \<in> allocated_at demo_alloc_state 0 \<and> pool_at demo_alloc_state 0 B"
proof -
  obtain B where at: "pool_at demo_pool_state 0 B" using demo_pool by blast
  have b: "pl_bufcount (pool_tbl demo_pool_state ! 0) \<noteq> 0 \<or> lc_freelist (local_caches demo_pool_state 1 0) \<noteq> NULL"
    using demo_pool by simp
  obtain a st' where "buffer_alloc 1 (of_nat 0) 100 demo_pool_state = Inr (bh_handle (bhdr (heap st') a), st')"
    "a \<in> allocated_at st' 0" "pool_at st' 0 B"
    using buffer_alloc_live [OF at _ demo_request(1) b demo_request(2)] by auto
  then show ?thesis unfolding demo_alloc_state_def by auto
qed

section \<open>The properties at the concrete pool\<close>

theorem odp_pool_create_correct_witness:
  "\<exists>st' B. odp_pool_create demo_abi (\<lambda>_ _. (1, 65536)) (Some ''pkts'') (Some demo_param) demo_init =
      Some (Inr (of_nat 0, st')) \<and>
    pool_at st' 0 B \<and> allocated_at st' 0 = {} \<and> pl_bufcount (pool_tbl st' ! 0) = pp_num demo_param \<and>
    pl_blkcount (pool_tbl st' ! 0) = of_nat (size B) \<and> blocks_apart (pl_seg_size (pool_tbl st' ! 0)) B \<and>
    (\<exists>nm. odp_pool_info (of_nat 0) True st' = Inr (0, Some (nm, default_params demo_param)))"
  by (rule odp_pool_create_correct [where i = 0 and shm = 1 and base = 65536, OF demo_hyps(1,2) _ demo_hyps(3-6)
        demo_geometry demo_sizes])
     (simp_all add: ODP_SHM_INVALID_def)

theorem buffer_alloc_correct_witness:
  "\<exists>B h st'. pool_at demo_pool_state 0 B \<and> buffer_alloc 1 0 100 demo_pool_state = Inr (h, st') \<and>
    pool_at st' 0 B \<and>
    (h = ODP_BUFFER_INVALID \<or> (\<exists>a. allocated_at st' 0 = {a} \<and> packet_ok (hdrs (heap st') a) \<and>
       frame_len (hdrs (heap st') a) = 100))"
proof -
  obtain B where at: "pool_at demo_pool_state 0 B" using demo_pool by blast
  have "unat (100 :: u64) < 2 ^ 32" by simp
  from buffer_alloc_correct [OF at this, of 1] demo_pool at show ?thesis by auto
qed

theorem buffer_alloc_succeeds_witness:
  "\<exists>a st'. buffer_alloc 1 0 100 demo_pool_state = Inr (bh_handle (bhdr (heap st') a), st') \<and>
    a \<in> allocated_at st' 0 \<and> a \<notin> allocated_at demo_pool_state 0"
proof -
  obtain B where at: "pool_at demo_pool_state 0 B" using demo_pool by blast
  have b: "pl_bufcount (pool_tbl demo_pool_state ! 0) \<noteq> 0 \<or> lc_freelist (local_caches demo_pool_state 1 0) \<noteq> NULL"
    using demo_pool by simp
  show ?thesis using buffer_alloc_succeeds [OF at _ demo_request(1) b demo_request(2)] by simp
qed

theorem odp_buffer_free_correct_witness:
  "\<exists>a st'. a \<in> allocated_at demo_alloc_state 0 \<and>
    odp_buffer_free 1 (bh_handle (bhdr (heap demo_alloc_state) a)) demo_alloc_state = Inr st' \<and>
    allocated_at st' 0 = allocated_at demo_alloc_state 0 - {a}"
proof -
  obtain a B where "a \<in> allocated_at demo_alloc_state 0" "pool_at demo_alloc_state 0 B" using demo_alloc by blast
  with odp_buffer_free_correct [of demo_alloc_state 0 B a 1] show ?thesis by blast
qed

theorem odp_pool_destroy_iff_witness:
  "(\<exists>st'. odp_pool_destroy 1 0 demo_pool_state = Some (Inr (0, st')))"
proof -
  obtain B where at: "pool_at demo_pool_state 0 B" using demo_pool by blast
  have c: "lc_freelist (local_caches demo_pool_state t 0) = NULL" for t using demo_pool demo_hyps(5) by simp
  show ?thesis using odp_pool_destroy_iff [OF at, of 1] demo_pool c by auto
qed

theorem odp_buffer_is_valid_iff_witness:
  "odp_buffer_is_valid demo_pool_state 0 = Inr False \<and>
   (\<exists>a\<in>allocated_at demo_alloc_state 0.
      odp_buffer_is_valid demo_alloc_state (bh_handle (bhdr (heap demo_alloc_state) a)) = Inr True)"
proof -
  obtain B where at: "pool_at demo_pool_state 0 B" using demo_pool by blast
  have "bits_pool_id 0 = of_nat 0" by (simp add: bits_pool_id_def)
  from odp_buffer_is_valid_iff [OF at this] have 1: "odp_buffer_is_valid demo_pool_state 0 = Inr False"
    using demo_pool by simp
  obtain a B' where a: "a \<in> allocated_at demo_alloc_state 0" and at': "pool_at demo_alloc_state 0 B'"
    using demo_alloc by blast
  have "bits_pool_id (bh_handle (bhdr (heap demo_alloc_state) a)) = of_nat 0"
    using a by (auto simp: allocated_def elim: hdr_handle [OF at'])
  from odp_buffer_is_valid_iff [OF at' this] show ?thesis using 1 a by auto
qed

end
