(* ===== verification/Odp_Parse.thy ===== *)
theory Odp_Parse
  imports Odp_Pool_Create
begin

text \<open>
  The packet parser of \<open>odp_packet.c\<close>: \<open>_odp_packet_parse\<close> and its helpers for IPv4, IPv6, TCP and
  UDP. A parser step gets the header, the parse pointer and the offset, which the code passes by
  reference, and returns them updated. The bytes are read from memory where the parse pointer
  stands, as the code reads them; header fields are read in network byte order.
\<close>

section \<open>Protocol constants\<close>

definition ODPH_ETH_LEN_MAX :: nat where "ODPH_ETH_LEN_MAX = 1514"
definition ODPH_ETHTYPE_IPV4 :: u16 where "ODPH_ETHTYPE_IPV4 = 0x0800"
definition ODPH_ETHTYPE_ARP :: u16 where "ODPH_ETHTYPE_ARP = 0x0806"
definition ODPH_ETHTYPE_VLAN :: u16 where "ODPH_ETHTYPE_VLAN = 0x8100"
definition ODPH_ETHTYPE_VLAN_OUTER :: u16 where "ODPH_ETHTYPE_VLAN_OUTER = 0x88A8"
definition ODPH_ETHTYPE_IPV6 :: u16 where "ODPH_ETHTYPE_IPV6 = 0x86dd"
definition ODPH_IPPROTO_HOPOPTS :: u8 where "ODPH_IPPROTO_HOPOPTS = 0"
definition ODPH_IPPROTO_ICMP :: u8 where "ODPH_IPPROTO_ICMP = 1"
definition ODPH_IPPROTO_TCP :: u8 where "ODPH_IPPROTO_TCP = 6"
definition ODPH_IPPROTO_UDP :: u8 where "ODPH_IPPROTO_UDP = 17"
definition ODPH_IPPROTO_ROUTE :: u8 where "ODPH_IPPROTO_ROUTE = 43"
definition ODPH_IPPROTO_FRAG :: u8 where "ODPH_IPPROTO_FRAG = 44"
definition ODPH_IPPROTO_AH :: u8 where "ODPH_IPPROTO_AH = 51"
definition ODPH_IPPROTO_ESP :: u8 where "ODPH_IPPROTO_ESP = 50"

lemmas proto_defs =
  ODPH_ETH_LEN_MAX_def ODPH_ETHTYPE_IPV4_def ODPH_ETHTYPE_ARP_def ODPH_ETHTYPE_VLAN_def
  ODPH_ETHTYPE_VLAN_OUTER_def ODPH_ETHTYPE_IPV6_def ODPH_IPPROTO_HOPOPTS_def ODPH_IPPROTO_ICMP_def
  ODPH_IPPROTO_TCP_def ODPH_IPPROTO_UDP_def ODPH_IPPROTO_ROUTE_def ODPH_IPPROTO_FRAG_def
  ODPH_IPPROTO_AH_def ODPH_IPPROTO_ESP_def

definition ODPH_IPV4HDR_VER :: "u8 \<Rightarrow> u8" where
  "ODPH_IPV4HDR_VER ver_ihl = drop_bit 4 (ver_ihl AND 0xf0)"

definition ODPH_IPV4HDR_IHL :: "u8 \<Rightarrow> u8" where
  "ODPH_IPV4HDR_IHL ver_ihl = ver_ihl AND 0x0f"

definition ODPH_IPV4HDR_IS_FRAGMENT :: "u16 \<Rightarrow> bool" where
  "ODPH_IPV4HDR_IS_FRAGMENT frag_offset \<longleftrightarrow> frag_offset AND 0x3fff \<noteq> 0"

text \<open>The four-bit \<open>hl\<close> field of the TCP header, the high half of byte 12.\<close>

definition tcp_hl :: "memory \<Rightarrow> addr \<Rightarrow> u32" where
  "tcp_hl m tcp = ucast (drop_bit 4 (m (tcp + 12)))"

section \<open>Layer 3 and layer 4\<close>

type_synonym parse_state = "odp_packet_hdr \<times> addr \<times> u32"

definition parse_ipv4 :: "memory \<Rightarrow> odp_packet_hdr \<Rightarrow> addr \<Rightarrow> u32 \<Rightarrow> u8 \<times> parse_state" where
  "parse_ipv4 m h parseptr offset =
    (let ver = ODPH_IPV4HDR_VER (m parseptr);
         ihl = ODPH_IPV4HDR_IHL (m parseptr);
         h1 = h\<lparr>l3_len := ucast (be16 m (parseptr + 2))\<rparr>
     in if ihl < 5 \<or> ver \<noteq> 4 \<or> l3_len h1 > frame_len h1 - offset
        then (0, set_error_flag EF_ip_err h1, parseptr, offset)
        else
          let h2 = (if ihl > 5 then set_input_flag IF_ipopt True h1 else h1);
              h3 = (if ODPH_IPV4HDR_IS_FRAGMENT (be16 m (parseptr + 6))
                    then set_input_flag IF_ipfrag True h2 else h2)
          in (m (parseptr + 9), h3, parseptr + int (unat ihl * 4), offset + ucast ihl * 4))"

text \<open>
  The do-while loop over the extension headers. It returns the address of the last extension
  header it stepped over. A wrapping offset could keep it running, so it is partial.
\<close>

partial_function (option) ipv6_ext_loop :: "memory \<Rightarrow> u32 \<Rightarrow> addr \<Rightarrow> u32 \<Rightarrow> (addr \<times> addr \<times> u32) option" where
  "ipv6_ext_loop m frame parseptr offset =
    (let extlen = 8 + unat (m (parseptr + 1)) * 8;
         offset1 = offset + of_nat extlen;
         next_hdr = m parseptr
     in if (next_hdr = ODPH_IPPROTO_HOPOPTS \<or> next_hdr = ODPH_IPPROTO_ROUTE) \<and> offset1 < frame
        then ipv6_ext_loop m frame (parseptr + int extlen) offset1
        else Some (parseptr, parseptr + int extlen, offset1))"

definition parse_ipv6 :: "memory \<Rightarrow> odp_packet_hdr \<Rightarrow> addr \<Rightarrow> u32 \<Rightarrow> (u8 \<times> parse_state) option" where
  "parse_ipv6 m h parseptr offset =
    (let payload_len = be16 m (parseptr + 4);
         next_hdr = m (parseptr + 6);
         h1 = h\<lparr>l3_len := ucast payload_len\<rparr>
     in if drop_bit 28 (be32 m parseptr) \<noteq> 6 \<or> l3_len h1 > frame_len h1 - offset
        then Some (0, set_error_flag EF_ip_err h1, parseptr, offset)
        else if next_hdr = ODPH_IPPROTO_HOPOPTS \<or> next_hdr = ODPH_IPPROTO_ROUTE
        then
          let h2 = set_input_flag IF_ipopt True h1
          in case ipv6_ext_loop m (frame_len h2) (parseptr + 40) (offset + 40) of
               None \<Rightarrow> None
             | Some (ext, ptr1, offset1) \<Rightarrow>
                 if offset1 \<ge> l3_offset h2 + ucast payload_len
                 then Some (0, set_error_flag EF_ip_err h2, ptr1, offset1)
                 else Some (m ext,
                        if m ext = ODPH_IPPROTO_FRAG then set_input_flag IF_ipfrag True h2 else h2,
                        ptr1, offset1)
        else
          Some (next_hdr,
            if next_hdr = ODPH_IPPROTO_FRAG
            then set_input_flag IF_ipfrag True (set_input_flag IF_ipopt True h1) else h1,
            parseptr + 40, offset + 40))"

definition parse_tcp :: "memory \<Rightarrow> odp_packet_hdr \<Rightarrow> addr \<Rightarrow> u32 \<Rightarrow> parse_state" where
  "parse_tcp m h parseptr offset =
    (let hl = tcp_hl m parseptr;
         h1 = (if hl < 5 then set_error_flag EF_tcp_err h
               else if hl * 4 > 20 then set_input_flag IF_tcpopt True h else h);
         h2 = h1\<lparr>l4_len := l3_len h1 + l3_offset h1 - l4_offset h1\<rparr>
     in (h2, parseptr + int (unat (hl * 4)), offset + hl * 4))"

definition parse_udp :: "memory \<Rightarrow> odp_packet_hdr \<Rightarrow> addr \<Rightarrow> u32 \<Rightarrow> parse_state" where
  "parse_udp m h parseptr offset =
    (let udplen = ucast (be16 m (parseptr + 4)) :: u32;
         h1 = (if udplen < 8 \<or> udplen > l3_len h + l3_offset h - l4_offset h
               then set_error_flag EF_udp_err h else h)
     in (h1\<lparr>l4_len := udplen\<rparr>, parseptr + 8, offset + 8))"

section \<open>The parser\<close>

text \<open>Resetting the metadata, and the flags that every Ethernet frame gets.\<close>

definition parse_reset :: "odp_packet_hdr \<Rightarrow> odp_packet_hdr" where
  "parse_reset h = h
    \<lparr>error_flags := 0, input_flags := 0, output_flags := 0, l2_offset := 0,
     l3_offset := ODP_PACKET_OFFSET_INVALID, l4_offset := ODP_PACKET_OFFSET_INVALID,
     payload_offset := ODP_PACKET_OFFSET_INVALID,
     vlan_s_tag := 0, vlan_c_tag := 0, l3_protocol := 0, l4_protocol := 0\<rparr>"

definition parse_eth :: "odp_packet_hdr \<Rightarrow> odp_packet_hdr" where
  "parse_eth h =
    (let h1 = set_input_flag IF_eth True h;
         h2 = (if unat (frame_len h1) > ODPH_ETH_LEN_MAX then set_input_flag IF_jumbo True h1 else h1)
     in set_input_flag IF_l2 True h2)"

text \<open>
  The VLAN headers. The state is the header, the pointer to the current type field, the offset and
  the type read there.
\<close>

definition parse_vlan_outer :: "memory \<Rightarrow> odp_packet_hdr \<Rightarrow> addr \<Rightarrow> u32 \<Rightarrow> u16 \<Rightarrow> odp_packet_hdr \<times> addr \<times> u32 \<times> u16" where
  "parse_vlan_outer m h parseptr offset ethtype =
    (if ethtype = ODPH_ETHTYPE_VLAN_OUTER
     then ((set_input_flag IF_vlan True (set_input_flag IF_vlan_qinq True h))
             \<lparr>vlan_s_tag := push_bit 16 (ucast ethtype) OR ucast (be16 m (parseptr + 2))\<rparr>,
           parseptr + 4, offset + 4, be16 m (parseptr + 4))
     else (h, parseptr, offset, ethtype))"

definition parse_vlan :: "memory \<Rightarrow> odp_packet_hdr \<Rightarrow> addr \<Rightarrow> u32 \<Rightarrow> u16 \<Rightarrow> odp_packet_hdr \<times> addr \<times> u32 \<times> u16" where
  "parse_vlan m h parseptr offset ethtype =
    (if ethtype = ODPH_ETHTYPE_VLAN
     then ((set_input_flag IF_vlan True h)
             \<lparr>vlan_c_tag := push_bit 16 (ucast ethtype) OR ucast (be16 m (parseptr + 2))\<rparr>,
           parseptr + 4, offset + 4, be16 m (parseptr + 4))
     else (h, parseptr, offset, ethtype))"

text \<open>SNAP against DIX framing; the boolean is the jump to \<open>parse_exit\<close>.\<close>

definition parse_snap ::
    "memory \<Rightarrow> odp_packet_hdr \<Rightarrow> addr \<Rightarrow> u32 \<Rightarrow> u16 \<Rightarrow> bool \<times> odp_packet_hdr \<times> addr \<times> u32 \<times> u16" where
  "parse_snap m h parseptr offset ethtype =
    (if unat ethtype < ODPH_ETH_LEN_MAX
     then
       let h1 = set_input_flag IF_snap True h
       in if ucast ethtype > frame_len h1 - offset
          then (True, set_error_flag EF_snap_len h1, parseptr, offset, ethtype)
          else (False, h1, parseptr + 8, offset + 8, be16 m (parseptr + 8))
     else (False, h, parseptr, offset, ethtype))"

definition parse_l3 ::
    "memory \<Rightarrow> odp_packet_hdr \<Rightarrow> addr \<Rightarrow> u32 \<Rightarrow> u16 \<Rightarrow> (u8 \<times> parse_state) option" where
  "parse_l3 m h parseptr offset ethtype =
    (let h1 = (set_input_flag IF_l3 True h)\<lparr>l3_offset := offset, l3_protocol := ucast ethtype\<rparr>
     in if ethtype = ODPH_ETHTYPE_IPV4
        then Some (parse_ipv4 m (set_input_flag IF_ipv4 True h1) parseptr offset)
        else if ethtype = ODPH_ETHTYPE_IPV6
        then parse_ipv6 m (set_input_flag IF_ipv6 True h1) parseptr offset
        else if ethtype = ODPH_ETHTYPE_ARP
        then Some (255, set_input_flag IF_arp True h1, parseptr, offset)
        else Some (255, (set_input_flag IF_l3 False h1)\<lparr>l3_offset := ODP_PACKET_OFFSET_INVALID\<rparr>,
                   parseptr, offset))"

definition parse_l4 :: "memory \<Rightarrow> odp_packet_hdr \<Rightarrow> addr \<Rightarrow> u32 \<Rightarrow> u8 \<Rightarrow> odp_packet_hdr" where
  "parse_l4 m h parseptr offset ip_proto =
    (let h1 = (set_input_flag IF_l4 True h)\<lparr>l4_offset := offset, l4_protocol := ucast ip_proto\<rparr>;
         (h2, _, offset2) =
           (if ip_proto = ODPH_IPPROTO_ICMP then (set_input_flag IF_icmp True h1, parseptr, offset)
            else if ip_proto = ODPH_IPPROTO_TCP then parse_tcp m (set_input_flag IF_tcp True h1) parseptr offset
            else if ip_proto = ODPH_IPPROTO_UDP then parse_udp m (set_input_flag IF_udp True h1) parseptr offset
            else if ip_proto = ODPH_IPPROTO_AH \<or> ip_proto = ODPH_IPPROTO_ESP
            then (set_input_flag IF_ipsec True h1, parseptr, offset)
            else ((set_input_flag IF_l4 False h1)\<lparr>l4_offset := ODP_PACKET_OFFSET_INVALID\<rparr>, parseptr, offset))
     in h2\<lparr>payload_offset := offset2\<rparr>)"

text \<open>
  \<open>_odp_packet_parse\<close>. The inner \<open>Inl\<close> is a map or a null pointer access that C leaves undefined;
  the result is the return value and the updated header.
\<close>

definition parse_frame :: "memory \<Rightarrow> odp_packet_hdr \<Rightarrow> addr \<Rightarrow> odp_packet_hdr option" where
  "parse_frame m h eth =
    (let (h1, ptr1, off1, ty1) = parse_vlan_outer m h (eth + 12) 14 (be16 m (eth + 12));
         (h2, ptr2, off2, ty2) = parse_vlan m h1 ptr1 off1 ty1;
         (exit, h3, ptr3, off3, ty3) = parse_snap m h2 ptr2 off2 ty2
     in if exit then Some h3
        else case parse_l3 m h3 (ptr3 + 2) off3 ty3 of
               None \<Rightarrow> None
             | Some (ip_proto, h4, ptr4, off4) \<Rightarrow> Some (parse_l4 m h4 ptr4 off4 ip_proto))"

definition odp_packet_parse :: "memory \<Rightarrow> odp_packet_hdr \<Rightarrow> (c_error + (int \<times> odp_packet_hdr)) option" where
  "odp_packet_parse m h =
    (let h0 = parse_eth (parse_reset h)
     in case packet_map h0 0 of
          Inl e \<Rightarrow> Some (Inl e)
        | Inr None \<Rightarrow> Some (Inl Null_Deref)
        | Inr (Some (eth, _)) \<Rightarrow>
            map_option (\<lambda>h1. Inr (if error_flags h1 \<noteq> 0 then 1 else 0, h1)) (parse_frame m h0 eth))"

section \<open>Flags\<close>

lemma input_flag_bit_less [simp]: "input_flag_bit f < 32"
  by (cases f) simp_all

lemma input_flag_bit_inj [simp]: "input_flag_bit f = input_flag_bit g \<longleftrightarrow> f = g"
  by (cases f; cases g) simp_all

lemma input_flag_set [simp]: "input_flag g (set_input_flag f v h) = (if g = f then v else input_flag g h)"
  using input_flag_bit_less [of f]
  by (auto simp: input_flag_def set_input_flag_def bit_set_bit_iff bit_unset_bit_iff)

lemma input_flag_upd [simp]:
  "input_flag f (h\<lparr>buf_hdr := x_buf_hdr\<rparr>) = input_flag f h"
  "input_flag f (h\<lparr>error_flags := x_error_flags\<rparr>) = input_flag f h"
  "input_flag f (h\<lparr>output_flags := x_output_flags\<rparr>) = input_flag f h"
  "input_flag f (h\<lparr>l2_offset := x_l2_offset\<rparr>) = input_flag f h"
  "input_flag f (h\<lparr>l3_offset := x_l3_offset\<rparr>) = input_flag f h"
  "input_flag f (h\<lparr>l4_offset := x_l4_offset\<rparr>) = input_flag f h"
  "input_flag f (h\<lparr>payload_offset := x_payload_offset\<rparr>) = input_flag f h"
  "input_flag f (h\<lparr>vlan_s_tag := x_vlan_s_tag\<rparr>) = input_flag f h"
  "input_flag f (h\<lparr>vlan_c_tag := x_vlan_c_tag\<rparr>) = input_flag f h"
  "input_flag f (h\<lparr>l3_protocol := x_l3_protocol\<rparr>) = input_flag f h"
  "input_flag f (h\<lparr>l3_len := x_l3_len\<rparr>) = input_flag f h"
  "input_flag f (h\<lparr>l4_protocol := x_l4_protocol\<rparr>) = input_flag f h"
  "input_flag f (h\<lparr>l4_len := x_l4_len\<rparr>) = input_flag f h"
  "input_flag f (h\<lparr>frame_len := x_frame_len\<rparr>) = input_flag f h"
  "input_flag f (h\<lparr>headroom := x_headroom\<rparr>) = input_flag f h"
  "input_flag f (h\<lparr>tailroom := x_tailroom\<rparr>) = input_flag f h"
  "input_flag f (h\<lparr>pkt_input := x_pkt_input\<rparr>) = input_flag f h"
  by (simp_all add: input_flag_def)

lemma input_flag_error [simp]: "input_flag f (set_error_flag e h) = input_flag f h"
  by (simp add: input_flag_def set_error_flag_def)

lemma input_flag_zero: "input_flags h = 0 \<Longrightarrow> \<not> input_flag f h"
  by (simp add: input_flag_def)

lemma set_error_nonzero [simp]: "error_flags (set_error_flag f h) \<noteq> 0"
proof -
  have "bit (set_bit (error_flag_bit f) (error_flags h)) (error_flag_bit f)"
    by (cases f) (simp_all add: bit_set_bit_iff)
  then show ?thesis by (auto simp: set_error_flag_def)
qed

text \<open>The two setters change the flag words only.\<close>

lemma set_flag_frame [simp]:
  "buf_hdr (set_input_flag f v h) = buf_hdr h" "frame_len (set_input_flag f v h) = frame_len h"
  "headroom (set_input_flag f v h) = headroom h" "tailroom (set_input_flag f v h) = tailroom h"
  "pkt_input (set_input_flag f v h) = pkt_input h" "l2_offset (set_input_flag f v h) = l2_offset h"
  "l3_offset (set_input_flag f v h) = l3_offset h" "l4_offset (set_input_flag f v h) = l4_offset h"
  "error_flags (set_input_flag f v h) = error_flags h" "l3_len (set_input_flag f v h) = l3_len h"
  "payload_offset (set_input_flag f v h) = payload_offset h" "l4_len (set_input_flag f v h) = l4_len h"
  "buf_hdr (set_error_flag e h) = buf_hdr h" "frame_len (set_error_flag e h) = frame_len h"
  "headroom (set_error_flag e h) = headroom h" "tailroom (set_error_flag e h) = tailroom h"
  "pkt_input (set_error_flag e h) = pkt_input h" "l2_offset (set_error_flag e h) = l2_offset h"
  "l3_offset (set_error_flag e h) = l3_offset h" "l4_offset (set_error_flag e h) = l4_offset h"
  "input_flags (set_error_flag e h) = input_flags h" "l3_len (set_error_flag e h) = l3_len h"
  "l3_protocol (set_input_flag f v h) = l3_protocol h" "l4_protocol (set_input_flag f v h) = l4_protocol h"
  "l3_protocol (set_error_flag e h) = l3_protocol h" "l4_protocol (set_error_flag e h) = l4_protocol h"
  by (simp_all add: set_input_flag_def set_error_flag_def)

section \<open>The extension header loop ends\<close>

lemma ipv6_ext_loop_total:
  assumes "unat frame \<le> 2 ^ 31" "unat offset \<le> 2 ^ 31 + 4096"
  shows "\<exists>ext ptr off. ipv6_ext_loop m frame parseptr offset = Some (ext, ptr, off) \<and>
    (m ext \<noteq> ODPH_IPPROTO_HOPOPTS \<and> m ext \<noteq> ODPH_IPPROTO_ROUTE \<or> frame \<le> off)"
  using assms(2)
proof (induction "2 ^ 31 + 8192 - unat offset" arbitrary: parseptr offset rule: less_induct)
  case less
  let ?len = "8 + unat (m (parseptr + 1)) * 8" let ?off = "offset + of_nat ?len"
  have l: "?len \<le> 2048" using unat_u8_bound [of "m (parseptr + 1)"] by linarith
  have u: "unat ?off = unat offset + ?len"
  proof -
    have "unat (of_nat ?len :: u32) = ?len" using l by (intro unat_of_nat_small) simp
    then show ?thesis using less.prems l by (subst unat_add_u32) simp_all
  qed
  show ?case
  proof (cases "(m parseptr = ODPH_IPPROTO_HOPOPTS \<or> m parseptr = ODPH_IPPROTO_ROUTE) \<and> ?off < frame")
    case True
    then have "unat ?off < unat frame" by (simp add: word_less_nat_alt)
    then have bound: "unat ?off \<le> 2 ^ 31 + 4096" using assms(1) by linarith
    have dec: "2 ^ 31 + 8192 - unat ?off < 2 ^ 31 + 8192 - unat offset" using u less.prems by simp
    have "ipv6_ext_loop m frame parseptr offset = ipv6_ext_loop m frame (parseptr + int ?len) ?off"
      using True by (subst ipv6_ext_loop.simps) (simp add: Let_def)
    then show ?thesis using less.hyps [OF dec bound, of "parseptr + int ?len"] by simp
  next
    case False
    then have "ipv6_ext_loop m frame parseptr offset = Some (parseptr, parseptr + int ?len, ?off)"
      by (subst ipv6_ext_loop.simps) (simp only: Let_def if_False)
    then show ?thesis using False by auto
  qed
qed

section \<open>What each layer leaves behind\<close>

definition same_data :: "odp_packet_hdr \<Rightarrow> odp_packet_hdr \<Rightarrow> bool" where
  "same_data h h' \<longleftrightarrow> buf_hdr h' = buf_hdr h \<and> frame_len h' = frame_len h \<and>
    headroom h' = headroom h \<and> tailroom h' = tailroom h \<and> pkt_input h' = pkt_input h \<and> l2_offset h' = l2_offset h"

lemma same_data_trans: "same_data h h1 \<Longrightarrow> same_data h1 h2 \<Longrightarrow> same_data h h2"
  by (simp add: same_data_def)

text \<open>After layer 2, after layer 3, and at the end.\<close>

definition l2_state :: "odp_packet_hdr \<Rightarrow> bool" where
  "l2_state h \<longleftrightarrow> input_flag IF_eth h \<and> input_flag IF_l2 h \<and> \<not> input_flag IF_unparsed h \<and>
    (input_flag IF_jumbo h \<longleftrightarrow> unat (frame_len h) > ODPH_ETH_LEN_MAX) \<and>
    \<not> input_flag IF_l3 h \<and> \<not> input_flag IF_l4 h \<and> \<not> input_flag IF_arp h \<and> \<not> input_flag IF_ipv4 h \<and>
    \<not> input_flag IF_ipv6 h \<and> \<not> input_flag IF_ipsec h \<and> \<not> input_flag IF_udp h \<and> \<not> input_flag IF_tcp h \<and>
    \<not> input_flag IF_icmp h \<and> \<not> input_flag IF_tcpopt h \<and>
    l3_offset h = ODP_PACKET_OFFSET_INVALID \<and> l4_offset h = ODP_PACKET_OFFSET_INVALID \<and>
    l3_protocol h = 0 \<and> l4_protocol h = 0"

text \<open>The flags of layer 3 and of layer 4 are those of the protocols on record.\<close>

definition l3_flags_match :: "odp_packet_hdr \<Rightarrow> bool" where
  "l3_flags_match h \<longleftrightarrow>
    (input_flag IF_ipv4 h \<longleftrightarrow> l3_protocol h = ucast ODPH_ETHTYPE_IPV4) \<and>
    (input_flag IF_ipv6 h \<longleftrightarrow> l3_protocol h = ucast ODPH_ETHTYPE_IPV6) \<and>
    (input_flag IF_arp h \<longleftrightarrow> l3_protocol h = ucast ODPH_ETHTYPE_ARP)"

definition l4_flags_match :: "odp_packet_hdr \<Rightarrow> bool" where
  "l4_flags_match h \<longleftrightarrow>
    (input_flag IF_icmp h \<longleftrightarrow> l4_protocol h = ucast ODPH_IPPROTO_ICMP) \<and>
    (input_flag IF_tcp h \<longleftrightarrow> l4_protocol h = ucast ODPH_IPPROTO_TCP) \<and>
    (input_flag IF_udp h \<longleftrightarrow> l4_protocol h = ucast ODPH_IPPROTO_UDP) \<and>
    (input_flag IF_ipsec h \<longleftrightarrow> l4_protocol h = ucast ODPH_IPPROTO_AH \<or> l4_protocol h = ucast ODPH_IPPROTO_ESP)"

definition l3_state :: "odp_packet_hdr \<Rightarrow> bool" where
  "l3_state h \<longleftrightarrow> input_flag IF_eth h \<and> input_flag IF_l2 h \<and> \<not> input_flag IF_unparsed h \<and>
    (input_flag IF_jumbo h \<longleftrightarrow> unat (frame_len h) > ODPH_ETH_LEN_MAX) \<and>
    (input_flag IF_l3 h \<longleftrightarrow> l3_offset h \<noteq> ODP_PACKET_OFFSET_INVALID) \<and>
    (input_flag IF_l3 h \<longleftrightarrow> input_flag IF_ipv4 h \<or> input_flag IF_ipv6 h \<or> input_flag IF_arp h) \<and>
    \<not> (input_flag IF_ipv4 h \<and> input_flag IF_ipv6 h) \<and> \<not> (input_flag IF_ipv4 h \<and> input_flag IF_arp h) \<and>
    \<not> (input_flag IF_ipv6 h \<and> input_flag IF_arp h) \<and>
    \<not> input_flag IF_l4 h \<and> \<not> input_flag IF_ipsec h \<and> \<not> input_flag IF_udp h \<and> \<not> input_flag IF_tcp h \<and>
    \<not> input_flag IF_icmp h \<and> \<not> input_flag IF_tcpopt h \<and> l4_offset h = ODP_PACKET_OFFSET_INVALID \<and>
    l3_flags_match h"

definition parsed :: "odp_packet_hdr \<Rightarrow> bool" where
  "parsed h \<longleftrightarrow> input_flag IF_eth h \<and> input_flag IF_l2 h \<and> \<not> input_flag IF_unparsed h \<and>
    (input_flag IF_jumbo h \<longleftrightarrow> unat (frame_len h) > ODPH_ETH_LEN_MAX) \<and>
    (input_flag IF_l3 h \<longleftrightarrow> l3_offset h \<noteq> ODP_PACKET_OFFSET_INVALID) \<and>
    (input_flag IF_l3 h \<longleftrightarrow> input_flag IF_ipv4 h \<or> input_flag IF_ipv6 h \<or> input_flag IF_arp h) \<and>
    \<not> (input_flag IF_ipv4 h \<and> input_flag IF_ipv6 h) \<and> \<not> (input_flag IF_ipv4 h \<and> input_flag IF_arp h) \<and>
    \<not> (input_flag IF_ipv6 h \<and> input_flag IF_arp h) \<and>
    (input_flag IF_l4 h \<longleftrightarrow> l4_offset h \<noteq> ODP_PACKET_OFFSET_INVALID) \<and>
    (input_flag IF_l4 h \<longleftrightarrow>
      input_flag IF_udp h \<or> input_flag IF_tcp h \<or> input_flag IF_icmp h \<or> input_flag IF_ipsec h) \<and>
    \<not> (input_flag IF_udp h \<and> input_flag IF_tcp h) \<and> \<not> (input_flag IF_udp h \<and> input_flag IF_icmp h) \<and>
    \<not> (input_flag IF_tcp h \<and> input_flag IF_icmp h) \<and> \<not> (input_flag IF_ipsec h \<and> input_flag IF_udp h) \<and>
    \<not> (input_flag IF_ipsec h \<and> input_flag IF_tcp h) \<and> \<not> (input_flag IF_ipsec h \<and> input_flag IF_icmp h) \<and>
    (input_flag IF_tcpopt h \<longrightarrow> input_flag IF_tcp h) \<and> l3_flags_match h \<and> l4_flags_match h"

lemma parse_eth_l2: "l2_state (parse_eth (parse_reset h))" "same_data (h\<lparr>l2_offset := 0\<rparr>) (parse_eth (parse_reset h))"
  by (simp_all add: parse_eth_def parse_reset_def l2_state_def same_data_def Let_def input_flag_zero)

lemma parse_vlan_outer_l2:
  assumes "parse_vlan_outer m h ptr off ty = (h', ptr', off', ty')" "l2_state h"
  shows "l2_state h'" "same_data h h'" "off' = off \<or> off' = off + 4"
  using assms by (auto simp: parse_vlan_outer_def l2_state_def same_data_def split: if_splits)

lemma parse_vlan_l2:
  assumes "parse_vlan m h ptr off ty = (h', ptr', off', ty')" "l2_state h"
  shows "l2_state h'" "same_data h h'" "off' = off \<or> off' = off + 4"
  using assms by (auto simp: parse_vlan_def l2_state_def same_data_def split: if_splits)

lemma parse_snap_l2:
  assumes "parse_snap m h ptr off ty = (ex, h', ptr', off', ty')" "l2_state h"
  shows "l2_state h'" "same_data h h'" "off' = off \<or> off' = off + 8"
  using assms by (auto simp: parse_snap_def l2_state_def same_data_def Let_def split: if_splits)

lemma parse_ipv4_l3:
  assumes p: "parse_ipv4 m h ptr off = (proto, h', ptr', off')" and o: "unat off \<le> 30"
  shows "same_data h h'" "\<forall>f. f \<noteq> IF_ipopt \<longrightarrow> f \<noteq> IF_ipfrag \<longrightarrow> input_flag f h' = input_flag f h"
    and "l3_offset h' = l3_offset h" "l4_offset h' = l4_offset h" "unat off' \<le> 1050" "l3_protocol h' = l3_protocol h"
proof -
  have ihl: "unat (ucast (ODPH_IPV4HDR_IHL b) * 4 :: u32) = unat (ODPH_IPV4HDR_IHL b) * 4" for b
    using unat_mult_u32 [of "ucast (ODPH_IPV4HDR_IHL b)" 4] unat_u8_bound [of "ODPH_IPV4HDR_IHL b"] by simp
  have "unat (off + ucast (ODPH_IPV4HDR_IHL (m ptr)) * 4) \<le> 1050"
    using unat_add_u32 [of off "ucast (ODPH_IPV4HDR_IHL (m ptr)) * 4"] ihl [of "m ptr"] o
      unat_u8_bound [of "ODPH_IPV4HDR_IHL (m ptr)"] by linarith
  then show "unat off' \<le> 1050" using p o by (auto simp: parse_ipv4_def Let_def split: if_splits)
  show "same_data h h'" using p by (auto simp: parse_ipv4_def Let_def same_data_def split: if_splits)
  show "\<forall>f. f \<noteq> IF_ipopt \<longrightarrow> f \<noteq> IF_ipfrag \<longrightarrow> input_flag f h' = input_flag f h"
    using p by (auto simp: parse_ipv4_def Let_def split: if_splits)
  show "l3_offset h' = l3_offset h" "l4_offset h' = l4_offset h" "l3_protocol h' = l3_protocol h"
    using p by (auto simp: parse_ipv4_def Let_def split: if_splits)
qed

lemma parse_ipv6_l3:
  assumes fl: "unat (frame_len h) \<le> 2 ^ 31" and o: "unat off \<le> 30" and l3: "l3_offset h = off"
  shows "\<exists>proto h' ptr' off'. parse_ipv6 m h ptr off = Some (proto, h', ptr', off') \<and> same_data h h' \<and>
    (\<forall>f. f \<noteq> IF_ipopt \<longrightarrow> f \<noteq> IF_ipfrag \<longrightarrow> input_flag f h' = input_flag f h) \<and>
    l3_offset h' = l3_offset h \<and> l4_offset h' = l4_offset h \<and> l3_protocol h' = l3_protocol h \<and>
    (unat off' \<le> 65600 \<or> proto = 0)"
proof -
  have o40: "unat (off + 40) = unat off + 40" using o unat_add_u32 [of off 40] by simp
  then have "unat (off + 40) \<le> 2 ^ 31 + 4096" using o by simp
  then obtain ext ptr1 off1 where lp: "ipv6_ext_loop m (frame_len h) (ptr + 40) (off + 40) = Some (ext, ptr1, off1)"
    using ipv6_ext_loop_total [OF fl] by blast
  have sm: "unat off1 \<le> 65600" if "\<not> off + ucast (be16 m (ptr + 4)) \<le> off1"
  proof -
    have "unat (off + ucast (be16 m (ptr + 4)) :: u32) = unat off + unat (be16 m (ptr + 4))"
      using unat_add_u32 [of off "ucast (be16 m (ptr + 4))"] o unat_u16_bound [of "be16 m (ptr + 4)"] by simp
    then have "unat off1 < unat off + unat (be16 m (ptr + 4))" using that by (simp add: word_le_nat_alt)
    then show ?thesis using o unat_u16_bound [of "be16 m (ptr + 4)"] by linarith
  qed
  show ?thesis
    using o o40 lp sm l3 unfolding parse_ipv6_def Let_def same_data_def
    by (auto simp: word_le_nat_alt)
qed

lemma offset_valid: "unat x < 2 ^ 27 \<Longrightarrow> x \<noteq> ODP_PACKET_OFFSET_INVALID"
  by (auto simp: ODP_PACKET_OFFSET_INVALID_def)

lemma proto_widen:
  "(ucast (x :: u16) :: u32) = ucast y \<longleftrightarrow> x = y" "(ucast (p :: u8) :: u32) = ucast q \<longleftrightarrow> p = q"
  by (simp_all add: word_eq_nat)

lemma parse_l3_ok:
  assumes st: "l2_state h" and fl: "unat (frame_len h) \<le> 2 ^ 31" and o: "unat off \<le> 30"
  shows "\<exists>proto h' ptr' off'. parse_l3 m h ptr off ty = Some (proto, h', ptr', off') \<and> same_data h h' \<and>
    l3_state h' \<and> (unat off' \<le> 65600 \<or> proto = 0)"
proof -
  let ?h1 = "(set_input_flag IF_l3 True h)\<lparr>l3_offset := off, l3_protocol := ucast ty\<rparr>"
  have ov: "off \<noteq> ODP_PACKET_OFFSET_INVALID" using o by (intro offset_valid) simp
  have ne: "ODPH_ETHTYPE_IPV6 \<noteq> ODPH_ETHTYPE_IPV4" by (simp add: proto_defs)
  consider "ty = ODPH_ETHTYPE_IPV4" | "ty = ODPH_ETHTYPE_IPV6"
    | "ty \<noteq> ODPH_ETHTYPE_IPV4" "ty \<noteq> ODPH_ETHTYPE_IPV6" by blast
  then show ?thesis
  proof cases
    case 1
    let ?h2 = "set_input_flag IF_ipv4 True ?h1"
    obtain proto h' ptr' off' where p: "parse_ipv4 m ?h2 ptr off = (proto, h', ptr', off')" by (metis prod_cases4)
    note q = parse_ipv4_l3 [OF p o]
    have "l3_state h'" using q(1-4,6) st ov 1
      unfolding l3_state_def l2_state_def same_data_def l3_flags_match_def by (simp add: proto_defs)
    moreover have "same_data h h'" using q(1) by (simp add: same_data_def)
    ultimately show ?thesis using p q(5) 1 unfolding parse_l3_def Let_def by auto
  next
    case 2
    let ?h2 = "set_input_flag IF_ipv6 True ?h1"
    have f2: "unat (frame_len ?h2) \<le> 2 ^ 31" "l3_offset ?h2 = off" using fl by simp_all
    obtain proto h' ptr' off' where p: "parse_ipv6 m ?h2 ptr off = Some (proto, h', ptr', off')"
      "same_data ?h2 h'" "\<forall>f. f \<noteq> IF_ipopt \<longrightarrow> f \<noteq> IF_ipfrag \<longrightarrow> input_flag f h' = input_flag f ?h2"
      "l3_offset h' = l3_offset ?h2" "l4_offset h' = l4_offset ?h2" "l3_protocol h' = l3_protocol ?h2"
      "unat off' \<le> 65600 \<or> proto = 0"
      using parse_ipv6_l3 [OF f2(1) o f2(2)] by metis
    have "l3_state h'" using p(2-6) st ov 2
      unfolding l3_state_def l2_state_def same_data_def l3_flags_match_def by (simp add: proto_defs)
    moreover have "same_data h h'" using p(2) by (simp add: same_data_def)
    ultimately show ?thesis using p(1,7) 2 ne unfolding parse_l3_def Let_def by auto
  next
    case 3
    then show ?thesis
      using st o ov unfolding parse_l3_def Let_def by (auto simp: same_data_def l3_state_def l2_state_def l3_flags_match_def proto_widen)
  qed
qed

lemma parse_l4_ok:
  assumes st: "l3_state h" and o: "unat off \<le> 65600 \<or> proto = 0"
  shows "same_data h (parse_l4 m h ptr off proto)" "parsed (parse_l4 m h ptr off proto)"
proof -
  have ov: "proto \<noteq> 0 \<Longrightarrow> off \<noteq> ODP_PACKET_OFFSET_INVALID" using o by (intro offset_valid) auto
  show "same_data h (parse_l4 m h ptr off proto)"
    by (simp add: parse_l4_def parse_tcp_def parse_udp_def Let_def same_data_def proto_defs)
  show "parsed (parse_l4 m h ptr off proto)"
    using st ov
    by (simp add: parse_l4_def parse_tcp_def parse_udp_def Let_def l3_state_def parsed_def l3_flags_match_def
        l4_flags_match_def proto_widen) (simp add: proto_defs, blast)
qed

lemma parse_frame_ok:
  assumes st: "l2_state h" and fl: "unat (frame_len h) \<le> 2 ^ 31"
  shows "\<exists>h'. parse_frame m h eth = Some h' \<and> same_data h h' \<and> parsed h'"
proof -
  obtain h1 ptr1 off1 ty1 where v1: "parse_vlan_outer m h (eth + 12) 14 (be16 m (eth + 12)) = (h1, ptr1, off1, ty1)"
    by (metis prod_cases4)
  obtain h2 ptr2 off2 ty2 where v2: "parse_vlan m h1 ptr1 off1 ty1 = (h2, ptr2, off2, ty2)" by (metis prod_cases4)
  obtain ex h3 ptr3 off3 ty3 where v3: "parse_snap m h2 ptr2 off2 ty2 = (ex, h3, ptr3, off3, ty3)" by (metis prod_cases5)
  note s1 = parse_vlan_outer_l2 [OF v1 st]
  note s2 = parse_vlan_l2 [OF v2 s1(1)]
  note s3 = parse_snap_l2 [OF v3 s2(1)]
  have sd: "same_data h h3" using same_data_trans [OF same_data_trans [OF s1(2) s2(2)] s3(2)] .
  have o: "unat off3 \<le> 30" using s1(3) s2(3) s3(3) by auto
  have f3: "unat (frame_len h3) \<le> 2 ^ 31" using sd fl by (simp add: same_data_def)
  obtain proto h4 ptr4 off4 where l3: "parse_l3 m h3 (ptr3 + 2) off3 ty3 = Some (proto, h4, ptr4, off4)"
    "same_data h3 h4" "l3_state h4" "unat off4 \<le> 65600 \<or> proto = 0"
    using parse_l3_ok [OF s3(1) f3 o] by metis
  note l4 = parse_l4_ok [OF l3(3,4)]
  have "ex \<Longrightarrow> parsed h3" using s3(1) by (simp add: parsed_def l2_state_def l3_flags_match_def l4_flags_match_def proto_defs)
  then show ?thesis
    using sd l3(1) same_data_trans [OF sd same_data_trans [OF l3(2) l4(1)]] l4(2)
    by (auto simp: parse_frame_def v1 v2 v3)
qed


lemma odp_packet_parse_total:
  assumes ok: "packet_ok h" and len: "0 < frame_len h" "unat (frame_len h) \<le> 2 ^ 31"
  shows "\<exists>r h'. odp_packet_parse m h = Some (Inr (r, h')) \<and>
    same_data (h\<lparr>l2_offset := 0\<rparr>) h' \<and> packet_ok h' \<and> parsed h' \<and>
    r = (if error_flags h' \<noteq> 0 then 1 else 0)"
proof -
  let ?h0 = "parse_eth (parse_reset h)"
  note l2 = parse_eth_l2 [of h]
  have ok0: "packet_ok ?h0" using ok l2(2) by (simp add: packet_ok_def same_data_def)
  have f0: "0 < frame_len ?h0" "unat (frame_len ?h0) \<le> 2 ^ 31" using len l2(2) by (simp_all add: same_data_def)
  obtain eth sl where pm: "packet_map ?h0 0 = Inr (Some (eth, sl))"
    using packet_map_in_frame [OF ok0 f0(1)] by metis
  obtain h' where p: "parse_frame m ?h0 eth = Some h'" "same_data ?h0 h'" "parsed h'"
    using parse_frame_ok [OF l2(1) f0(2)] by blast
  have "same_data (h\<lparr>l2_offset := 0\<rparr>) h'" using same_data_trans [OF l2(2) p(2)] .
  moreover from this have "packet_ok h'" using ok by (simp add: packet_ok_def same_data_def)
  ultimately show ?thesis using p(1,3) pm by (simp add: odp_packet_parse_def)
qed

text \<open>
  C7: The parser always returns on a well-formed packet of at most \<open>2\<^sup>3\<^sup>1\<close> bytes. It leaves data, lengths and
  buffer alone, returns 1 exactly when it set an error flag, and leaves the metadata consistent:
  each layer's offset is valid exactly when its flag is set, at most one of IPv4, IPv6 and ARP and at most one of
  ICMP, TCP, UDP and IPsec is flagged, the flagged protocol is the one on record for its layer, and the packet
  counts as parsed.
\<close>

theorem odp_packet_parse_correct:
  assumes ok: "packet_ok h" and len: "0 < frame_len h" "unat (frame_len h) \<le> 2 ^ 31"
  shows "\<exists>r h'. odp_packet_parse m h = Some (Inr (r, h')) \<and>
    same_data (h\<lparr>l2_offset := 0\<rparr>) h' \<and> packet_ok h' \<and> parsed h' \<and>
    r = (if error_flags h' \<noteq> 0 then 1 else 0)"
  using odp_packet_parse_total [OF assms] .

text \<open>The two layers of an IPv4 / UDP datagram, in plain numbers.\<close>

lemma parse_ipv4_plain:
  assumes vihl: "m p = 0x45" and len: "unat (be16 m (p + 2)) + unat off \<le> unat (frame_len h)"
    and nofrag: "be16 m (p + 6) = 0"
  shows "parse_ipv4 m h p off = (m (p + 9), h\<lparr>l3_len := ucast (be16 m (p + 2))\<rparr>, p + 20, off + 20)"
proof -
  have "unat (frame_len h - off) = unat (frame_len h) - unat off"
    using len by (intro unat_sub_small) (simp add: word_le_nat_alt)
  then have "\<not> ucast (be16 m (p + 2)) > frame_len h - off" using len by (simp add: word_less_nat_alt)
  then show ?thesis
    using vihl nofrag
    by (simp add: parse_ipv4_def Let_def ODPH_IPV4HDR_VER_def ODPH_IPV4HDR_IHL_def ODPH_IPV4HDR_IS_FRAGMENT_def)
qed

lemma parse_udp_plain:
  assumes "8 \<le> unat (be16 m (p + 4))" "unat (be16 m (p + 4)) + 20 \<le> unat (l3_len h)"
    and "l4_offset h = l3_offset h + 20"
  shows "parse_udp m h p off = (h\<lparr>l4_len := ucast (be16 m (p + 4))\<rparr>, p + 8, off + 8)"
proof -
  have eq: "l3_len h + l3_offset h - l4_offset h = l3_len h - 20" by (simp add: assms(3))
  have "unat (l3_len h - 20) = unat (l3_len h) - 20"
    using assms(2) by (subst unat_sub_small) (simp_all add: word_le_nat_alt)
  then have "\<not> ucast (be16 m (p + 4)) > l3_len h + l3_offset h - l4_offset h"
    unfolding eq using assms(2) by (simp add: word_less_nat_alt)
  moreover have "\<not> (ucast (be16 m (p + 4)) :: u32) < 8" using assms(1) by (simp add: word_less_nat_alt)
  ultimately show ?thesis by (simp add: parse_udp_def Let_def)
qed

text \<open>
  C8: A well-formed, unfragmented Ethernet / IPv4 / UDP frame without VLAN tags and IP options is classified
  exactly: layer 3 at 14, layer 4 at 34, payload at 42, the flags of Ethernet, IPv4 and UDP, and no error.
\<close>

theorem parse_ipv4_udp_frame:
  assumes len: "unat (frame_len h) \<le> ODPH_ETH_LEN_MAX"
    and eth: "packet_map h 0 = Inr (Some (eth, sl))"
    and ty: "be16 m (eth + 12) = ODPH_ETHTYPE_IPV4" and vihl: "m (eth + 14) = 0x45"
    and tot: "unat (be16 m (eth + 16)) + 14 \<le> unat (frame_len h)"
    and nofrag: "be16 m (eth + 20) = 0" and proto: "m (eth + 23) = ODPH_IPPROTO_UDP"
    and udp: "8 \<le> unat (be16 m (eth + 38))" "unat (be16 m (eth + 38)) + 20 \<le> unat (be16 m (eth + 16))"
  shows "\<exists>h'. odp_packet_parse m h = Some (Inr (0, h')) \<and>
    l2_offset h' = 0 \<and> l3_offset h' = 14 \<and> l4_offset h' = 34 \<and> payload_offset h' = 42 \<and>
    l3_len h' = ucast (be16 m (eth + 16)) \<and> l4_len h' = ucast (be16 m (eth + 38)) \<and>
    (\<forall>f. input_flag f h' \<longleftrightarrow> f \<in> {IF_eth, IF_l2, IF_l3, IF_l4, IF_ipv4, IF_udp})"
proof -
  let ?h0 = "parse_eth (parse_reset h)"
  let ?h1 = "set_input_flag IF_ipv4 True ((set_input_flag IF_l3 True ?h0)\<lparr>l3_offset := 14, l3_protocol := ucast ODPH_ETHTYPE_IPV4\<rparr>)"
  let ?h2 = "?h1\<lparr>l3_len := ucast (be16 m (eth + 16))\<rparr>"
  let ?h3 = "set_input_flag IF_udp True ((set_input_flag IF_l4 True ?h2)\<lparr>l4_offset := 34, l4_protocol := ucast ODPH_IPPROTO_UDP\<rparr>)"
  let ?h4 = "?h3\<lparr>l4_len := ucast (be16 m (eth + 38)), payload_offset := 42\<rparr>"
  have f0: "frame_len ?h0 = frame_len h" "buf_hdr ?h0 = buf_hdr h" "headroom ?h0 = headroom h"
    using parse_eth_l2(2) [of h] by (simp_all add: same_data_def)
  have pm: "packet_map ?h0 0 = Inr (Some (eth, sl))" using eth by (simp add: packet_map_def f0)
  have ip: "parse_ipv4 m ?h1 (eth + 14) 14 = (ODPH_IPPROTO_UDP, ?h2, eth + 34, 34)"
    using parse_ipv4_plain [of m "eth + 14" 14 ?h1] vihl tot nofrag proto f0(1) by (simp add: add.commute [of eth])
  have ud: "parse_udp m ?h3 (eth + 34) 34 = (?h3\<lparr>l4_len := ucast (be16 m (eth + 38))\<rparr>, eth + 42, 42)"
    using parse_udp_plain [of m "eth + 34" ?h3 34] udp by (simp add: add.commute [of eth])
  have "parse_ipv4 m ?h1 (14 + eth) 14 = (ODPH_IPPROTO_UDP, ?h2, eth + 34, 34)"
    using ip by (simp only: add.commute [of 14 eth])
  then have "parse_frame m ?h0 eth = Some ?h4"
    using ud by (simp add: parse_frame_def parse_vlan_outer_def parse_vlan_def parse_snap_def parse_l3_def
        parse_l4_def ty proto_defs Let_def)
  moreover have "error_flags ?h4 = 0" by (simp add: parse_eth_def parse_reset_def Let_def)
  ultimately have "odp_packet_parse m h = Some (Inr (0, ?h4))"
    using pm by (simp add: odp_packet_parse_def Let_def)
  moreover have "l2_offset ?h4 = 0" using parse_eth_l2(2) [of h] by (simp add: same_data_def)
  moreover have "input_flag f ?h4 \<longleftrightarrow> f \<in> {IF_eth, IF_l2, IF_l3, IF_l4, IF_ipv4, IF_udp}" for f
    using len by (simp add: parse_eth_def parse_reset_def Let_def input_flag_zero)
  ultimately show ?thesis by auto
qed


section \<open>A concrete frame\<close>

text \<open>
  A packet of 60 bytes in one segment of 1664 bytes at address 65536, behind 66 bytes of headroom,
  that holds an IPv4 / UDP datagram of 46 bytes.
\<close>

definition demo_pkt :: odp_packet_hdr where
  "demo_pkt = demo_hdr\<lparr>buf_hdr := (buf_hdr demo_hdr)\<lparr>bh_segsize := 1664, bh_segcount := 1,
     bh_addr := [65536, 0, 0, 0, 0, 0]\<rparr>, headroom := 66, frame_len := 60, tailroom := 1538\<rparr>"

definition demo_udp_mem :: memory where
  "demo_udp_mem = store_bytes (\<lambda>_. 0) (65536 + 66 + 12)
     [0x08, 0x00, 0x45, 0, 0, 46, 0, 0, 0, 0, 64, 17, 0, 0, 10, 0, 0, 1, 10, 0, 0, 2, 0, 1, 0, 2, 0, 26, 0, 0]"

lemma demo_pkt_ok: "packet_ok demo_pkt"
  by (simp add: packet_ok_def demo_pkt_def demo_hdr_def)

lemma demo_pkt_map: "packet_map demo_pkt 0 = Inr (Some (65602, 60))"
  by (simp add: packet_map_def buffer_map_def demo_pkt_def demo_hdr_def Let_def)

theorem odp_packet_parse_correct_witness:
  "\<exists>r h'. odp_packet_parse demo_udp_mem demo_pkt = Some (Inr (r, h')) \<and> packet_ok h' \<and> parsed h' \<and>
    r = (if error_flags h' \<noteq> 0 then 1 else 0)"
proof -
  have "0 < frame_len demo_pkt" "unat (frame_len demo_pkt) \<le> 2 ^ 31" by (simp_all add: demo_pkt_def)
  then show ?thesis using odp_packet_parse_correct [OF demo_pkt_ok, of demo_udp_mem] by blast
qed

theorem parse_ipv4_udp_frame_witness:
  "\<exists>h'. odp_packet_parse demo_udp_mem demo_pkt = Some (Inr (0, h')) \<and> l3_offset h' = 14 \<and>
    l4_offset h' = 34 \<and> payload_offset h' = 42 \<and> l3_len h' = 46 \<and> l4_len h' = 26 \<and> input_flag IF_udp h'"
proof -
  have b: "be16 demo_udp_mem 65614 = ODPH_ETHTYPE_IPV4" "demo_udp_mem 65616 = 0x45"
    "be16 demo_udp_mem 65618 = 46" "be16 demo_udp_mem 65622 = 0" "demo_udp_mem 65625 = ODPH_IPPROTO_UDP"
    "be16 demo_udp_mem 65640 = 26"
    by (simp_all add: be16_def demo_udp_mem_def store_bytes_def proto_defs)
  have "unat (frame_len demo_pkt) \<le> ODPH_ETH_LEN_MAX" by (simp add: demo_pkt_def proto_defs)
  from parse_ipv4_udp_frame [OF this demo_pkt_map, of demo_udp_mem] show ?thesis
    using b by (auto simp: demo_pkt_def)
qed

text \<open>
  The test after the extension headers compares an offset that counts the 40 bytes of the IPv6 header with
  layer 3 offset plus payload length, which does not. A datagram whose extension headers reach
  within 40 bytes of the end of its payload is rejected, however correct it is: for instance an
  8-byte hop-by-hop header followed by 20 bytes of UDP.
\<close>

lemma parse_ipv6_short_payload_rejected:
  assumes hdr: "drop_bit 28 (be32 m p) = 6" "m (p + 6) = ODPH_IPPROTO_HOPOPTS"
    and ext: "m (p + 40) = ODPH_IPPROTO_UDP" "m (p + 41) = 0"
    and pay: "be16 m (p + 4) = 28" and fl: "68 + unat off \<le> unat (frame_len h)" and l3: "l3_offset h = off"
    and off: "unat off \<le> 30"
  shows "\<exists>h' ptr' off'. parse_ipv6 m h p off = Some (0, h', ptr', off') \<and> error_flag EF_ip_err h'"
proof -
  have "ipv6_ext_loop m (frame_len h) (p + 40) (off + 40) = Some (p + 40, p + 48, off + 48)"
  proof -
    have "m (p + 40) \<noteq> ODPH_IPPROTO_HOPOPTS" "m (p + 40) \<noteq> ODPH_IPPROTO_ROUTE"
      unfolding ext(1) by (simp_all add: proto_defs)
    moreover have "m (41 + p) = 0" using ext(2) by (simp add: add.commute)
    ultimately show ?thesis by (subst ipv6_ext_loop.simps) (simp add: Let_def)
  qed
  moreover have "unat (off + 28) = unat off + 28" "unat (off + 48) = unat off + 48"
    using off unat_add_u32 [of off 28] unat_add_u32 [of off 48] by simp_all
  then have "off + 28 \<le> off + 48" by (simp add: word_le_nat_alt)
  moreover have "unat (frame_len h - off) = unat (frame_len h) - unat off"
    using fl by (intro unat_sub_small) (simp add: word_le_nat_alt)
  then have "\<not> 28 > frame_len h - off" using fl by (simp add: word_less_nat_alt)
  ultimately show ?thesis
    using hdr pay l3
    by (simp add: parse_ipv6_def Let_def error_flag_def set_error_flag_def bit_set_bit_iff)
qed

end
