(* ===== verification/Odp_Packet.thy ===== *)
theory Odp_Packet
  imports Odp_Parse
begin

text \<open>
  The packet API of \<open>odp_packet.c\<close> on the state of pools, caches and heap: allocation, pointers and
  lengths, head and tail, metadata, segments, data insertion and removal, copies. Calls that may run the parser
  are partial like it; calls that give C undefined behaviour return \<open>Inl\<close>.
\<close>

section \<open>Access to the header\<close>

definition ODP_PACKET_INVALID :: u32 where "ODP_PACKET_INVALID = 0xffffffff"

text \<open>\<open>odp_packet_hdr(pkt)\<close>, and reading and writing the header it returns.\<close>

definition packet_hdr_addr :: "odp_state \<Rightarrow> u32 \<Rightarrow> c_error + addr" where
  "packet_hdr_addr st pkt = odp_buf_to_hdr st pkt"

definition with_hdr :: "odp_state \<Rightarrow> u32 \<Rightarrow> (odp_packet_hdr \<Rightarrow> c_error + 'a) \<Rightarrow> c_error + 'a" where
  "with_hdr st pkt f = and_then (packet_hdr_addr st pkt) (\<lambda>a. f (hdrs (heap st) a))"

definition put_hdr :: "addr \<Rightarrow> odp_packet_hdr \<Rightarrow> odp_state \<Rightarrow> odp_state" where
  "put_hdr a h st = st\<lparr>heap := upd_hdr a (\<lambda>_. h) (heap st)\<rparr>"

definition put_mem :: "memory \<Rightarrow> odp_state \<Rightarrow> odp_state" where
  "put_mem m st = st\<lparr>heap := (heap st)\<lparr>mem := m\<rparr>\<rparr>"

definition map_addr :: "c_error + (addr \<times> u32) option \<Rightarrow> c_error + addr" where
  "map_addr r = and_then r (\<lambda>x. Inr (case x of None \<Rightarrow> NULL | Some (a, _) \<Rightarrow> a))"

section \<open>Alloc and free\<close>

definition odp_packet_alloc :: "nat \<Rightarrow> u32 \<Rightarrow> u32 \<Rightarrow> odp_state \<Rightarrow> c_error + (u32 \<times> odp_state)" where
  "odp_packet_alloc tid pool_hdl len st =
    and_then (odp_pool_to_entry st pool_hdl)
      (\<lambda>pool. if pp_type (pl_params pool) \<noteq> ODP_POOL_PACKET then Inr (ODP_PACKET_INVALID, st)
        else if len = 0
        then and_then (buffer_alloc tid pool_hdl (ucast (pp_size_len (pl_params pool))) st)
          (\<lambda>(pkt, st1).
             if pkt = ODP_PACKET_INVALID then Inr (pkt, st1)
             else and_then (packet_hdr_addr st1 pkt)
               (\<lambda>a. Inr (pkt, put_hdr a (pull_tail (hdrs (heap st1) a) (pp_size_len (pl_params pool))) st1)))
        else buffer_alloc tid pool_hdl (ucast len) st)"

definition odp_packet_alloc_default :: "nat \<Rightarrow> u32 \<Rightarrow> odp_state \<Rightarrow> c_error + (u32 \<times> odp_state)" where
  "odp_packet_alloc_default tid pool_hdl st =
    and_then (odp_pool_to_entry st pool_hdl)
      (\<lambda>pool. if pp_type (pl_params pool) \<noteq> ODP_POOL_PACKET then Inr (ODP_PACKET_INVALID, st)
        else buffer_alloc tid pool_hdl (ucast (pp_size_len (pl_params pool))) st)"

definition odp_packet_reset :: "odp_state \<Rightarrow> u32 \<Rightarrow> u32 \<Rightarrow> c_error + (int \<times> odp_state)" where
  "odp_packet_reset st pkt len =
    and_then (packet_hdr_addr st pkt)
      (\<lambda>a. and_then (odp_buf_to_pool st (bhdr (heap st) a))
        (\<lambda>pool. if pl_headroom pool + len + pl_tailroom pool > bh_size (bhdr (heap st) a) then Inr (-1, st)
                else Inr (0, put_hdr a (packet_init pool (hdrs (heap st) a) len) st)))"

section \<open>Pointers and lengths\<close>

definition odp_packet_head :: "odp_state \<Rightarrow> u32 \<Rightarrow> c_error + addr" where
  "odp_packet_head st pkt = with_hdr st pkt (\<lambda>h. and_then (buffer_map (buf_hdr h) 0 0) (\<lambda>(a, _). Inr a))"

definition odp_packet_buf_len :: "odp_state \<Rightarrow> u32 \<Rightarrow> c_error + u32" where
  "odp_packet_buf_len st pkt = with_hdr st pkt (\<lambda>h. Inr (bh_size (buf_hdr h)))"

definition odp_packet_data :: "odp_state \<Rightarrow> u32 \<Rightarrow> c_error + addr" where
  "odp_packet_data st pkt = with_hdr st pkt (\<lambda>h. map_addr (packet_map h 0))"

definition odp_packet_seg_len :: "odp_state \<Rightarrow> u32 \<Rightarrow> c_error + u32" where
  "odp_packet_seg_len st pkt =
    with_hdr st pkt (\<lambda>h. and_then (packet_map h 0) (\<lambda>r. case r of None \<Rightarrow> Inl Null_Deref | Some (_, n) \<Rightarrow> Inr n))"

definition odp_packet_len :: "odp_state \<Rightarrow> u32 \<Rightarrow> c_error + u32" where
  "odp_packet_len st pkt = with_hdr st pkt (\<lambda>h. Inr (frame_len h))"

definition odp_packet_headroom :: "odp_state \<Rightarrow> u32 \<Rightarrow> c_error + u32" where
  "odp_packet_headroom st pkt = with_hdr st pkt (\<lambda>h. Inr (headroom h))"

definition odp_packet_tailroom :: "odp_state \<Rightarrow> u32 \<Rightarrow> c_error + u32" where
  "odp_packet_tailroom st pkt = with_hdr st pkt (\<lambda>h. Inr (tailroom h))"

definition odp_packet_tail :: "odp_state \<Rightarrow> u32 \<Rightarrow> c_error + addr" where
  "odp_packet_tail st pkt = with_hdr st pkt (\<lambda>h. map_addr (packet_map h (frame_len h)))"

text \<open>
  The four calls that move head and tail: a request beyond the limit returns a null pointer and changes nothing.
\<close>

definition hdr_push_head :: "odp_packet_hdr \<Rightarrow> u32 \<Rightarrow> c_error + (addr \<times> odp_packet_hdr)" where
  "hdr_push_head h len =
    (if len > headroom h then Inr (NULL, h)
     else let h1 = push_head h len in and_then (map_addr (packet_map h1 0)) (\<lambda>a. Inr (a, h1)))"

definition hdr_pull_head :: "odp_packet_hdr \<Rightarrow> u32 \<Rightarrow> c_error + (addr \<times> odp_packet_hdr)" where
  "hdr_pull_head h len =
    (if len > frame_len h then Inr (NULL, h)
     else let h1 = pull_head h len in and_then (map_addr (packet_map h1 0)) (\<lambda>a. Inr (a, h1)))"

definition hdr_push_tail :: "odp_packet_hdr \<Rightarrow> u32 \<Rightarrow> c_error + (addr \<times> odp_packet_hdr)" where
  "hdr_push_tail h len =
    (let origin = frame_len h
     in if len > tailroom h then Inr (NULL, h)
        else let h1 = push_tail h len in and_then (map_addr (packet_map h1 origin)) (\<lambda>a. Inr (a, h1)))"

definition hdr_pull_tail :: "odp_packet_hdr \<Rightarrow> u32 \<Rightarrow> c_error + (addr \<times> odp_packet_hdr)" where
  "hdr_pull_tail h len =
    (if len > frame_len h then Inr (NULL, h)
     else let h1 = pull_tail h len in and_then (map_addr (packet_map h1 (frame_len h1))) (\<lambda>a. Inr (a, h1)))"

definition on_hdr ::
    "(odp_packet_hdr \<Rightarrow> u32 \<Rightarrow> c_error + (addr \<times> odp_packet_hdr)) \<Rightarrow> odp_state \<Rightarrow> u32 \<Rightarrow> u32 \<Rightarrow> c_error + (addr \<times> odp_state)" where
  "on_hdr f st pkt len =
    and_then (packet_hdr_addr st pkt)
      (\<lambda>a. and_then (f (hdrs (heap st) a) len) (\<lambda>(p, h1). Inr (p, put_hdr a h1 st)))"

definition odp_packet_push_head :: "odp_state \<Rightarrow> u32 \<Rightarrow> u32 \<Rightarrow> c_error + (addr \<times> odp_state)" where
  "odp_packet_push_head = on_hdr hdr_push_head"

definition odp_packet_pull_head :: "odp_state \<Rightarrow> u32 \<Rightarrow> u32 \<Rightarrow> c_error + (addr \<times> odp_state)" where
  "odp_packet_pull_head = on_hdr hdr_pull_head"

definition odp_packet_push_tail :: "odp_state \<Rightarrow> u32 \<Rightarrow> u32 \<Rightarrow> c_error + (addr \<times> odp_state)" where
  "odp_packet_push_tail = on_hdr hdr_push_tail"

definition odp_packet_pull_tail :: "odp_state \<Rightarrow> u32 \<Rightarrow> u32 \<Rightarrow> c_error + (addr \<times> odp_state)" where
  "odp_packet_pull_tail = on_hdr hdr_pull_tail"

text \<open>The address, the bytes that follow in the segment and the handle of the segment of a data offset.\<close>

definition odp_packet_offset :: "odp_state \<Rightarrow> u32 \<Rightarrow> u32 \<Rightarrow> c_error + (addr \<times> u32 \<times> u32) option" where
  "odp_packet_offset st pkt offset =
    with_hdr st pkt (\<lambda>h. and_then (packet_map h offset)
      (\<lambda>r. case r of
             None \<Rightarrow> Inr None
           | Some (a, len) \<Rightarrow>
               if a = NULL then Inr None
               else if bh_segsize (buf_hdr h) = 0 then Inl Div_By_Zero
               else Inr (Some (a, len, bits_set_seg ((headroom h + offset) div bh_segsize (buf_hdr h)) pkt))))"

section \<open>Meta-data\<close>

definition odp_packet_pool :: "odp_state \<Rightarrow> u32 \<Rightarrow> c_error + u32" where
  "odp_packet_pool st pkt = with_hdr st pkt (\<lambda>h. Inr (bh_pool_hdl (buf_hdr h)))"

definition odp_packet_input :: "odp_state \<Rightarrow> u32 \<Rightarrow> c_error + u32" where
  "odp_packet_input st pkt = with_hdr st pkt (\<lambda>h. Inr (pkt_input h))"

definition odp_packet_user_ptr :: "odp_state \<Rightarrow> u32 \<Rightarrow> c_error + u64" where
  "odp_packet_user_ptr st pkt = with_hdr st pkt (\<lambda>h. Inr (bh_buf_u64 (buf_hdr h)))"

definition odp_packet_user_ptr_set :: "odp_state \<Rightarrow> u32 \<Rightarrow> u64 \<Rightarrow> c_error + odp_state" where
  "odp_packet_user_ptr_set st pkt ctx =
    and_then (packet_hdr_addr st pkt)
      (\<lambda>a. Inr (put_hdr a (buf_hdr_map (\<lambda>b. b\<lparr>bh_buf_u64 := ctx\<rparr>) (hdrs (heap st) a)) st))"

definition odp_packet_user_area :: "odp_state \<Rightarrow> u32 \<Rightarrow> c_error + addr" where
  "odp_packet_user_area st pkt = with_hdr st pkt (\<lambda>h. Inr (bh_uarea_addr (buf_hdr h)))"

definition odp_packet_user_area_size :: "odp_state \<Rightarrow> u32 \<Rightarrow> c_error + u32" where
  "odp_packet_user_area_size st pkt = with_hdr st pkt (\<lambda>h. Inr (bh_uarea_size (buf_hdr h)))"

text \<open>\<open>if (pkt_hdr->input_flags.unparsed) _odp_packet_parse(pkt_hdr)\<close>, and what the calls do afterwards.\<close>

definition parse_if_needed :: "memory \<Rightarrow> odp_packet_hdr \<Rightarrow> (c_error + odp_packet_hdr) option" where
  "parse_if_needed m h =
    (if input_flag IF_unparsed h
     then map_option (\<lambda>r. and_then r (\<lambda>(_, h1). Inr h1)) (odp_packet_parse m h)
     else Some (Inr h))"

definition after_parse ::
    "odp_state \<Rightarrow> u32 \<Rightarrow> (odp_packet_hdr \<Rightarrow> c_error + ('a \<times> odp_packet_hdr)) \<Rightarrow> (c_error + ('a \<times> odp_state)) option" where
  "after_parse st pkt f =
    (case packet_hdr_addr st pkt of
       Inl e \<Rightarrow> Some (Inl e)
     | Inr a \<Rightarrow>
         map_option (\<lambda>r. and_then r (\<lambda>h. and_then (f h) (\<lambda>(x, h1). Inr (x, put_hdr a h1 st))))
           (parse_if_needed (mem (heap st)) (hdrs (heap st) a)))"

definition set_offset ::
    "odp_state \<Rightarrow> u32 \<Rightarrow> u32 \<Rightarrow> (odp_packet_hdr \<Rightarrow> odp_packet_hdr) \<Rightarrow> (c_error + (int \<times> odp_state)) option" where
  "set_offset st pkt offset upd =
    (case packet_hdr_addr st pkt of
       Inl e \<Rightarrow> Some (Inl e)
     | Inr a \<Rightarrow> if offset \<ge> frame_len (hdrs (heap st) a) then Some (Inr (-1, st))
                else after_parse st pkt (\<lambda>h. Inr (0, upd h)))"

text \<open>The pointer calls return the address and, through \<open>len\<close>, the bytes that follow in the segment; \<open>None\<close> is a null pointer.\<close>

definition odp_packet_l2_ptr :: "odp_state \<Rightarrow> u32 \<Rightarrow> (c_error + ((addr \<times> u32) option \<times> odp_state)) option" where
  "odp_packet_l2_ptr st pkt = after_parse st pkt (\<lambda>h. and_then (packet_map h (l2_offset h)) (\<lambda>p. Inr (p, h)))"

definition odp_packet_l2_offset :: "odp_state \<Rightarrow> u32 \<Rightarrow> (c_error + (u32 \<times> odp_state)) option" where
  "odp_packet_l2_offset st pkt = after_parse st pkt (\<lambda>h. Inr (l2_offset h, h))"

definition odp_packet_l2_offset_set :: "odp_state \<Rightarrow> u32 \<Rightarrow> u32 \<Rightarrow> (c_error + (int \<times> odp_state)) option" where
  "odp_packet_l2_offset_set st pkt offset = set_offset st pkt offset (\<lambda>h. h\<lparr>l2_offset := offset\<rparr>)"

definition odp_packet_l3_ptr :: "odp_state \<Rightarrow> u32 \<Rightarrow> (c_error + ((addr \<times> u32) option \<times> odp_state)) option" where
  "odp_packet_l3_ptr st pkt = after_parse st pkt (\<lambda>h. and_then (packet_map h (l3_offset h)) (\<lambda>p. Inr (p, h)))"

definition odp_packet_l3_offset :: "odp_state \<Rightarrow> u32 \<Rightarrow> (c_error + (u32 \<times> odp_state)) option" where
  "odp_packet_l3_offset st pkt = after_parse st pkt (\<lambda>h. Inr (l3_offset h, h))"

definition odp_packet_l3_offset_set :: "odp_state \<Rightarrow> u32 \<Rightarrow> u32 \<Rightarrow> (c_error + (int \<times> odp_state)) option" where
  "odp_packet_l3_offset_set st pkt offset = set_offset st pkt offset (\<lambda>h. h\<lparr>l3_offset := offset\<rparr>)"

definition odp_packet_l4_ptr :: "odp_state \<Rightarrow> u32 \<Rightarrow> (c_error + ((addr \<times> u32) option \<times> odp_state)) option" where
  "odp_packet_l4_ptr st pkt = after_parse st pkt (\<lambda>h. and_then (packet_map h (l4_offset h)) (\<lambda>p. Inr (p, h)))"

definition odp_packet_l4_offset :: "odp_state \<Rightarrow> u32 \<Rightarrow> (c_error + (u32 \<times> odp_state)) option" where
  "odp_packet_l4_offset st pkt = after_parse st pkt (\<lambda>h. Inr (l4_offset h, h))"

definition odp_packet_l4_offset_set :: "odp_state \<Rightarrow> u32 \<Rightarrow> u32 \<Rightarrow> (c_error + (int \<times> odp_state)) option" where
  "odp_packet_l4_offset_set st pkt offset = set_offset st pkt offset (\<lambda>h. h\<lparr>l4_offset := offset\<rparr>)"

section \<open>Segments\<close>

definition odp_packet_is_segmented :: "odp_state \<Rightarrow> u32 \<Rightarrow> c_error + bool" where
  "odp_packet_is_segmented st pkt = with_hdr st pkt (\<lambda>h. Inr (bh_segcount (buf_hdr h) > 1))"

definition odp_packet_num_segs :: "odp_state \<Rightarrow> u32 \<Rightarrow> c_error + u32" where
  "odp_packet_num_segs st pkt = with_hdr st pkt (\<lambda>h. Inr (bh_segcount (buf_hdr h)))"

definition odp_packet_first_seg :: "u32 \<Rightarrow> u32" where
  "odp_packet_first_seg pkt = pkt"

definition odp_packet_last_seg :: "odp_state \<Rightarrow> u32 \<Rightarrow> c_error + u32" where
  "odp_packet_last_seg st pkt = with_hdr st pkt (\<lambda>h. Inr (bits_set_seg (bh_segcount (buf_hdr h) - 1) pkt))"

definition odp_packet_next_seg :: "odp_state \<Rightarrow> u32 \<Rightarrow> u32 \<Rightarrow> c_error + u32" where
  "odp_packet_next_seg st pkt seg = with_hdr st pkt (\<lambda>h. Inr (segment_next (buf_hdr h) seg))"

definition odp_packet_seg_buf_addr :: "odp_state \<Rightarrow> u32 \<Rightarrow> u32 \<Rightarrow> c_error + addr" where
  "odp_packet_seg_buf_addr st pkt seg =
    with_hdr st pkt (\<lambda>h. map_addr (segment_map (buf_hdr h) seg (headroom h + frame_len h) 0))"

definition odp_packet_seg_buf_len :: "odp_state \<Rightarrow> u32 \<Rightarrow> c_error + u32" where
  "odp_packet_seg_buf_len st pkt = with_hdr st pkt (\<lambda>h. Inr (bh_segsize (buf_hdr h)))"

definition odp_packet_seg_data :: "odp_state \<Rightarrow> u32 \<Rightarrow> u32 \<Rightarrow> c_error + addr" where
  "odp_packet_seg_data st pkt seg =
    with_hdr st pkt (\<lambda>h. map_addr (segment_map (buf_hdr h) seg (frame_len h) (headroom h)))"

definition odp_packet_seg_data_len :: "odp_state \<Rightarrow> u32 \<Rightarrow> u32 \<Rightarrow> c_error + u32" where
  "odp_packet_seg_data_len st pkt seg =
    with_hdr st pkt (\<lambda>h. and_then (segment_map (buf_hdr h) seg (frame_len h) (headroom h))
      (\<lambda>r. Inr (case r of None \<Rightarrow> 0 | Some (_, len) \<Rightarrow> len)))"

section \<open>Copies\<close>

text \<open>
  The three copy loops. The variables of the loop are its arguments; \<open>seglen\<close> keeps its old value when the
  map returns a null pointer, in which case a copy of more than zero bytes is undefined and a copy of
  zero bytes repeats the same turn. \<open>None\<close> is a loop that does not end.
\<close>

partial_function (option) copydata_out_loop ::
    "odp_packet_hdr \<Rightarrow> memory \<Rightarrow> u32 \<Rightarrow> u32 \<Rightarrow> u32 \<Rightarrow> addr \<Rightarrow> (c_error + memory) option" where
  "copydata_out_loop h m offset len seglen dstaddr =
    (if len = 0 then Some (Inr m)
     else case packet_map h offset of
            Inl e \<Rightarrow> Some (Inl e)
          | Inr None \<Rightarrow> if seglen = 0 then copydata_out_loop h m offset len seglen dstaddr
                         else Some (Inl Null_Deref)
          | Inr (Some (mapaddr, seglen1)) \<Rightarrow>
              let cpylen = (if len > seglen1 then seglen1 else len)
              in copydata_out_loop h (memcpy m dstaddr mapaddr (unat cpylen)) (offset + cpylen) (len - cpylen)
                   seglen1 (dstaddr + int (unat cpylen)))"

definition odp_packet_copydata_out ::
    "odp_state \<Rightarrow> u32 \<Rightarrow> u32 \<Rightarrow> u32 \<Rightarrow> addr \<Rightarrow> (c_error + (int \<times> odp_state)) option" where
  "odp_packet_copydata_out st pkt offset len dst =
    (case packet_hdr_addr st pkt of
       Inl e \<Rightarrow> Some (Inl e)
     | Inr a \<Rightarrow>
         let h = hdrs (heap st) a
         in if offset + len > frame_len h then Some (Inr (-1, st))
            else map_option (\<lambda>r. and_then r (\<lambda>m. Inr (0, put_mem m st)))
                   (copydata_out_loop h (mem (heap st)) offset len 0 dst))"

partial_function (option) copydata_in_loop ::
    "odp_packet_hdr \<Rightarrow> memory \<Rightarrow> u32 \<Rightarrow> u32 \<Rightarrow> u32 \<Rightarrow> addr \<Rightarrow> (c_error + memory) option" where
  "copydata_in_loop h m offset len seglen srcaddr =
    (if len = 0 then Some (Inr m)
     else case packet_map h offset of
            Inl e \<Rightarrow> Some (Inl e)
          | Inr None \<Rightarrow> if seglen = 0 then copydata_in_loop h m offset len seglen srcaddr
                         else Some (Inl Null_Deref)
          | Inr (Some (mapaddr, seglen1)) \<Rightarrow>
              let cpylen = (if len > seglen1 then seglen1 else len)
              in copydata_in_loop h (memcpy m mapaddr srcaddr (unat cpylen)) (offset + cpylen) (len - cpylen)
                   seglen1 (srcaddr + int (unat cpylen)))"

definition odp_packet_copydata_in ::
    "odp_state \<Rightarrow> u32 \<Rightarrow> u32 \<Rightarrow> u32 \<Rightarrow> addr \<Rightarrow> (c_error + (int \<times> odp_state)) option" where
  "odp_packet_copydata_in st pkt offset len src =
    (case packet_hdr_addr st pkt of
       Inl e \<Rightarrow> Some (Inl e)
     | Inr a \<Rightarrow>
         let h = hdrs (heap st) a
         in if offset + len > frame_len h then Some (Inr (-1, st))
            else map_option (\<lambda>r. and_then r (\<lambda>m. Inr (0, put_mem m st)))
                   (copydata_in_loop h (mem (heap st)) offset len 0 src))"

text \<open>
  Copying between packets. \<open>srcseglen\<close> and \<open>dstseglen\<close> keep their values over a null map; a turn that
  copies nothing repeats itself.
\<close>

partial_function (option) copy_to_packet_loop ::
    "odp_packet_hdr \<Rightarrow> odp_packet_hdr \<Rightarrow> memory \<Rightarrow> u32 \<Rightarrow> u32 \<Rightarrow> u32 \<Rightarrow> u32 \<Rightarrow> u32 \<Rightarrow> (c_error + memory) option" where
  "copy_to_packet_loop srchdr dsthdr m srcoffset dstoffset len srcseglen dstseglen =
    (if len = 0 then Some (Inr m)
     else case packet_map srchdr srcoffset of
            Inl e \<Rightarrow> Some (Inl e)
          | Inr srcmap \<Rightarrow>
              (case packet_map dsthdr dstoffset of
                 Inl e \<Rightarrow> Some (Inl e)
               | Inr dstmap \<Rightarrow>
                   let (srcaddr, srcseglen1) = (case srcmap of None \<Rightarrow> (NULL, srcseglen) | Some r \<Rightarrow> r);
                       (dstaddr, dstseglen1) = (case dstmap of None \<Rightarrow> (NULL, dstseglen) | Some r \<Rightarrow> r);
                       minseg = (if dstseglen1 > srcseglen1 then srcseglen1 else dstseglen1);
                       cpylen = (if len > minseg then minseg else len)
                   in if (srcmap = None \<or> dstmap = None) \<and> cpylen \<noteq> 0 then Some (Inl Null_Deref)
                      else copy_to_packet_loop srchdr dsthdr (memcpy m dstaddr srcaddr (unat cpylen))
                             (srcoffset + cpylen) (dstoffset + cpylen) (len - cpylen) srcseglen1 dstseglen1))"

definition odp_packet_copy_to_packet ::
    "odp_state \<Rightarrow> u32 \<Rightarrow> u32 \<Rightarrow> u32 \<Rightarrow> u32 \<Rightarrow> u32 \<Rightarrow> (c_error + (int \<times> odp_state)) option" where
  "odp_packet_copy_to_packet st srcpkt srcoffset dstpkt dstoffset len =
    (case packet_hdr_addr st srcpkt of
       Inl e \<Rightarrow> Some (Inl e)
     | Inr a \<Rightarrow>
         (case packet_hdr_addr st dstpkt of
            Inl e \<Rightarrow> Some (Inl e)
          | Inr b \<Rightarrow>
              let srchdr = hdrs (heap st) a; dsthdr = hdrs (heap st) b
              in if srcoffset + len > frame_len srchdr \<or> dstoffset + len > frame_len dsthdr
                 then Some (Inr (-1, st))
                 else map_option (\<lambda>r. and_then r (\<lambda>m. Inr (0, put_mem m st)))
                        (copy_to_packet_loop srchdr dsthdr (mem (heap st)) srcoffset dstoffset len 0 0)))"

text \<open>
  The metadata that a packet made from another one inherits: input, user value, user area, reference count and
  parser results.
\<close>

definition copy_md :: "odp_packet_hdr \<Rightarrow> odp_packet_hdr \<Rightarrow> odp_packet_hdr" where
  "copy_md srchdr dsthdr =
    copy_packet_parser_metadata srchdr
      (buf_hdr_map (\<lambda>b. b\<lparr>bh_buf_u64 := bh_buf_u64 (buf_hdr srchdr), bh_ref_count := bh_ref_count (buf_hdr srchdr)\<rparr>)
        (dsthdr\<lparr>pkt_input := pkt_input srchdr\<rparr>))"

definition copy_uarea :: "odp_packet_hdr \<Rightarrow> odp_packet_hdr \<Rightarrow> memory \<Rightarrow> memory" where
  "copy_uarea srchdr dsthdr m =
    (let s = buf_hdr srchdr; d = buf_hdr dsthdr
     in if bh_uarea_addr d \<noteq> NULL \<and> bh_uarea_addr s \<noteq> NULL
        then memcpy m (bh_uarea_addr d) (bh_uarea_addr s)
               (unat (if bh_uarea_size d \<le> bh_uarea_size s then bh_uarea_size d else bh_uarea_size s))
        else m)"

definition odp_packet_copy_md_to_packet :: "odp_state \<Rightarrow> u32 \<Rightarrow> u32 \<Rightarrow> c_error + odp_state" where
  "odp_packet_copy_md_to_packet st srcpkt dstpkt =
    and_then (packet_hdr_addr st srcpkt) (\<lambda>a. and_then (packet_hdr_addr st dstpkt) (\<lambda>b.
      let srchdr = hdrs (heap st) a; dsthdr = hdrs (heap st) b
      in Inr (put_hdr b (copy_md srchdr dsthdr) (put_mem (copy_uarea srchdr dsthdr (mem (heap st))) st))))"

text \<open>
  The common part of \<open>odp_packet_add_data\<close> and \<open>odp_packet_rem_data\<close>: two copies into the new packet, then either
  the new packet is dropped or it takes over the metadata and the old packet is freed.
\<close>

definition replace_packet ::
    "nat \<Rightarrow> u32 \<Rightarrow> u32 \<Rightarrow> u32 \<times> u32 \<times> u32 \<Rightarrow> u32 \<times> u32 \<times> u32 \<Rightarrow> odp_state \<Rightarrow> (c_error + (u32 \<times> odp_state)) option" where
  "replace_packet tid pkt newpkt copy1 copy2 st =
    (let give_up = (\<lambda>st. Some (and_then (odp_packet_free tid newpkt st) (\<lambda>st1. Inr (ODP_PACKET_INVALID, st1))));
         (src1, dst1, len1) = copy1; (src2, dst2, len2) = copy2
     in case odp_packet_copy_to_packet st pkt src1 newpkt dst1 len1 of
          None \<Rightarrow> None
        | Some (Inl e) \<Rightarrow> Some (Inl e)
        | Some (Inr (r1, st1)) \<Rightarrow>
            if r1 \<noteq> 0 then give_up st1
            else (case odp_packet_copy_to_packet st1 pkt src2 newpkt dst2 len2 of
                    None \<Rightarrow> None
                  | Some (Inl e) \<Rightarrow> Some (Inl e)
                  | Some (Inr (r2, st2)) \<Rightarrow>
                      if r2 \<noteq> 0 then give_up st2
                      else Some (and_then (odp_packet_copy_md_to_packet st2 pkt newpkt)
                        (\<lambda>st3. and_then (odp_packet_free tid pkt st3) (\<lambda>st4. Inr (newpkt, st4))))))"

definition odp_packet_add_data ::
    "nat \<Rightarrow> u32 \<Rightarrow> u32 \<Rightarrow> u32 \<Rightarrow> odp_state \<Rightarrow> (c_error + (u32 \<times> odp_state)) option" where
  "odp_packet_add_data tid pkt offset len st =
    (case packet_hdr_addr st pkt of
       Inl e \<Rightarrow> Some (Inl e)
     | Inr a \<Rightarrow>
         let h = hdrs (heap st) a; pktlen = frame_len h
         in if offset > pktlen then Some (Inr (ODP_PACKET_INVALID, st))
            else (case odp_packet_alloc tid (bh_pool_hdl (buf_hdr h)) (pktlen + len) st of
                    Inl e \<Rightarrow> Some (Inl e)
                  | Inr (newpkt, st1) \<Rightarrow>
                      if newpkt = ODP_PACKET_INVALID then Some (Inr (newpkt, st1))
                      else replace_packet tid pkt newpkt (0, 0, offset) (offset, offset + len, pktlen - offset) st1))"

definition odp_packet_rem_data ::
    "nat \<Rightarrow> u32 \<Rightarrow> u32 \<Rightarrow> u32 \<Rightarrow> odp_state \<Rightarrow> (c_error + (u32 \<times> odp_state)) option" where
  "odp_packet_rem_data tid pkt offset len st =
    (case packet_hdr_addr st pkt of
       Inl e \<Rightarrow> Some (Inl e)
     | Inr a \<Rightarrow>
         let h = hdrs (heap st) a; pktlen = frame_len h
         in if offset > pktlen \<or> offset + len > pktlen then Some (Inr (ODP_PACKET_INVALID, st))
            else (case odp_packet_alloc tid (bh_pool_hdl (buf_hdr h)) (pktlen - len) st of
                    Inl e \<Rightarrow> Some (Inl e)
                  | Inr (newpkt, st1) \<Rightarrow>
                      if newpkt = ODP_PACKET_INVALID then Some (Inr (newpkt, st1))
                      else replace_packet tid pkt newpkt (0, 0, offset) (offset + len, offset, pktlen - offset - len) st1))"

text \<open>\<open>odp_packet_copy\<close> copies everything behind the buffer header, lengths included, then the data.\<close>

definition copy_meta :: "odp_packet_hdr \<Rightarrow> odp_packet_hdr \<Rightarrow> odp_packet_hdr" where
  "copy_meta srchdr newhdr = srchdr\<lparr>buf_hdr := buf_hdr newhdr\<rparr>"

definition odp_packet_copy :: "nat \<Rightarrow> u32 \<Rightarrow> u32 \<Rightarrow> odp_state \<Rightarrow> (c_error + (u32 \<times> odp_state)) option" where
  "odp_packet_copy tid pkt pool st =
    (case packet_hdr_addr st pkt of
       Inl e \<Rightarrow> Some (Inl e)
     | Inr a \<Rightarrow>
         (case odp_packet_alloc tid pool (frame_len (hdrs (heap st) a)) st of
            Inl e \<Rightarrow> Some (Inl e)
          | Inr (newpkt, st1) \<Rightarrow>
              if newpkt = ODP_PACKET_INVALID then Some (Inr (newpkt, st1))
              else (case packet_hdr_addr st1 newpkt of
                      Inl e \<Rightarrow> Some (Inl e)
                    | Inr b \<Rightarrow>
                        let srchdr = hdrs (heap st1) a;
                            st2 = put_hdr b (copy_meta srchdr (hdrs (heap st1) b)) st1
                        in (case odp_packet_copy_to_packet st2 pkt 0 newpkt 0 (frame_len (hdrs (heap st) a)) of
                              None \<Rightarrow> None
                            | Some (Inl e) \<Rightarrow> Some (Inl e)
                            | Some (Inr (r, st3)) \<Rightarrow>
                                if r \<noteq> 0
                                then Some (and_then (odp_packet_free tid newpkt st3) (\<lambda>st4. Inr (ODP_PACKET_INVALID, st4)))
                                else Some (Inr (newpkt, st3))))))"

definition odp_packet_is_valid :: "odp_state \<Rightarrow> u32 \<Rightarrow> c_error + bool" where
  "odp_packet_is_valid st pkt =
    and_then (validate_buf st pkt)
      (\<lambda>buf. Inr (buf \<noteq> NULL \<and> bh_type (bhdr (heap st) buf) = ODP_EVENT_PACKET))"

end
