(* ===== verification/Odp_User_Area.thy ===== *)
theory Odp_User_Area
  imports Odp_Pool_Create
begin

text \<open>
  The user areas of the packets of a pool (\<open>uarea_addr\<close>, \<open>uarea_size\<close> of \<open>odp_buffer_hdr_t\<close>): creation lays
  them out behind the headers, one per buffer, and allocation and free never move them. The theorems on
  replacing packets use that the areas overlap neither each other nor the blocks that hold packet data.
\<close>

definition uarea :: "odp_heap \<Rightarrow> addr \<Rightarrow> addr \<times> u32" where
  "uarea hp a = (bh_uarea_addr (bhdr hp a), bh_uarea_size (bhdr hp a))"

definition uarea_span :: "odp_heap \<Rightarrow> addr \<Rightarrow> addr set" where
  "uarea_span hp a = {fst (uarea hp a)..<fst (uarea hp a) + int (unat (snd (uarea hp a)))}"

definition uareas_apart :: "odp_state \<Rightarrow> nat \<Rightarrow> addr multiset \<Rightarrow> bool" where
  "uareas_apart st i B \<longleftrightarrow>
    (\<forall>a \<in> set (hdr_list (pool_tbl st ! i)).
      (\<forall>p \<in># B. uarea_span (heap st) a \<inter> {p..<p + int (unat (pl_seg_size (pool_tbl st ! i)))} = {}) \<and>
      (\<forall>b \<in> set (hdr_list (pool_tbl st ! i)). a \<noteq> b \<longrightarrow> uarea_span (heap st) a \<inter> uarea_span (heap st) b = {}))"

section \<open>Allocation and free\<close>

named_theorems uarea_keep \<open>operations that leave the user areas where they are\<close>

lemma uarea_upd_buf:
  "bh_uarea_addr (f (bhdr hp a)) = bh_uarea_addr (bhdr hp a) \<Longrightarrow>
   bh_uarea_size (f (bhdr hp a)) = bh_uarea_size (bhdr hp a) \<Longrightarrow> uarea (upd_buf a f hp) = uarea hp"
  by (rule ext) (simp add: uarea_def upd_buf_def upd_hdr_def)

lemma uarea_blk_next [simp]: "uarea (hp\<lparr>blk_next := n\<rparr>) = uarea hp"
  by (rule ext) (simp add: uarea_def)

lemma uarea_ret_blk [uarea_keep]: "ret_blk pool hp b = (pool', hp') \<Longrightarrow> uarea hp' = uarea hp"
  by (auto simp: ret_blk_def)

lemma uarea_ret_blks [uarea_keep]: "ret_blks n pool hp a = Inr (pool', hp') \<Longrightarrow> uarea hp' = uarea hp"
proof (induction n arbitrary: pool hp)
  case (Suc n)
  obtain pool2 hp2 where r: "ret_blk pool (upd_buf a (\<lambda>b. b\<lparr>bh_segcount := of_nat n\<rparr>) hp) (bh_addr (bhdr hp a) ! n) = (pool2, hp2)"
    by (metis surj_pair)
  then have "ret_blks n pool2 hp2 a = Inr (pool', hp')" using Suc.prems by (simp split: if_splits)
  from Suc.IH [OF this] uarea_ret_blk [OF r] show ?case by (simp add: uarea_upd_buf)
qed simp

lemma uarea_ret_buf_list [uarea_keep]: "ret_buf_list pool hp a = (pool', hp') \<Longrightarrow> uarea hp' = uarea hp"
  by (auto simp: ret_buf_list_def Let_def uarea_upd_buf)

lemma uarea_ret_buf [uarea_keep]: "ret_buf pool hp a = Inr (pool', hp') \<Longrightarrow> uarea hp' = uarea hp"
  by (auto simp: ret_buf_def Let_def and_then_Inr uarea_upd_buf dest!: uarea_keep split: if_splits)

lemma uarea_add_blks [uarea_keep]: "add_blks a n pool hp = Inr (ok, pool', hp') \<Longrightarrow> uarea hp' = uarea hp"
proof (induction a n pool hp rule: add_blks.induct)
  case (1 a n pool hp)
  then show ?case
    by (subst (asm) (2) add_blks.simps) (auto simp: Let_def uarea_upd_buf split: prod.splits if_splits)
qed

lemma uarea_get_buf [uarea_keep]: "get_buf tid pool hp = (a, pool', hp') \<Longrightarrow> uarea hp' = uarea hp"
  by (auto simp: get_buf_def Let_def uarea_upd_buf split: if_splits)

lemma uarea_get_local_buf [uarea_keep]:
  "get_local_buf tid cache pool hp n = Inr (a, cache', pool', hp') \<Longrightarrow> uarea hp' = uarea hp"
  by (auto simp: get_local_buf_def Let_def and_then_Inr uarea_upd_buf set_size_segs_def
      dest!: uarea_keep split: if_splits)

lemma uarea_alloc_from_pool [uarea_keep]:
  "alloc_from_pool tid pool hp n = Inr (a, pool', hp') \<Longrightarrow> uarea hp' = uarea hp"
  by (auto simp: alloc_from_pool_def Let_def and_then_Inr uarea_upd_buf set_size_segs_def
      dest!: uarea_keep split: if_splits prod.splits)

lemma uarea_alloc_finish: "uarea (alloc_finish pool hp a sz) = uarea hp"
  by (rule ext) (simp add: alloc_finish_def Let_def uarea_def upd_buf_def upd_hdr_def packet_init_def)

lemma uarea_buffer_alloc_entry [uarea_keep]:
  "buffer_alloc_entry tid cache pool hp sz = Inr (r, cache', pool', hp') \<Longrightarrow> uarea hp' = uarea hp"
  by (auto simp: buffer_alloc_entry_def Let_def and_then_Inr uarea_alloc_finish dest!: uarea_keep split: if_splits)

lemma uarea_buffer_alloc: "buffer_alloc tid pool sz st = Inr (h, st') \<Longrightarrow> uarea (heap st') = uarea (heap st)"
  by (auto simp: buffer_alloc_def Let_def and_then_Inr put_pool_def dest!: uarea_keep)

lemma uarea_odp_buffer_free: "odp_buffer_free tid buf st = Inr st' \<Longrightarrow> uarea (heap st') = uarea (heap st)"
  by (auto simp: odp_buffer_free_def buffer_free_entry_def ret_local_buf_def Let_def and_then_Inr put_pool_def
      uarea_upd_buf dest!: uarea_keep split: if_splits)

lemma uareas_apart_same:
  assumes "uareas_apart st i B" "uarea (heap st') = uarea (heap st)" "pool_same (pool_tbl st' ! i) (pool_tbl st ! i)"
  shows "uareas_apart st' i B"
proof -
  have "hdr_list (pool_tbl st' ! i) = hdr_list (pool_tbl st ! i)" "pl_seg_size (pool_tbl st' ! i) = pl_seg_size (pool_tbl st ! i)"
    using assms(3) by (simp_all add: pool_same_def hdr_list_def)
  then show ?thesis using assms(1,2) by (simp add: uareas_apart_def uarea_span_def)
qed

section \<open>Creation\<close>

lemma ret_buf_layout:
  assumes "ret_buf pool hp a = Inr (pool', hp')"
  shows "pl_udata_size pool' = pl_udata_size pool" "pl_buf_stride pool' = pl_buf_stride pool"
    "pl_mdata_addr pool' = pl_mdata_addr pool"
proof -
  have blks: "ret_blks n pool hp a = Inr (p, h) \<Longrightarrow> pl_udata_size p = pl_udata_size pool \<and>
      pl_buf_stride p = pl_buf_stride pool \<and> pl_mdata_addr p = pl_mdata_addr pool" for n p h pool hp
  proof (induction n arbitrary: pool hp)
    case (Suc n)
    obtain pool2 hp2 where r: "ret_blk pool (upd_buf a (\<lambda>b. b\<lparr>bh_segcount := of_nat n\<rparr>) hp) (bh_addr (bhdr hp a) ! n) = (pool2, hp2)"
      by (metis surj_pair)
    then have "ret_blks n pool2 hp2 a = Inr (p, h)" using Suc.prems by (simp split: if_splits)
    from Suc.IH [OF this] show ?case using r by (auto simp: ret_blk_def)
  qed simp
  have "pl_udata_size pool' = pl_udata_size pool \<and> pl_buf_stride pool' = pl_buf_stride pool \<and>
      pl_mdata_addr pool' = pl_mdata_addr pool"
  proof (cases "\<not> bh_hdrdata (bhdr hp a) \<and> bh_type (bhdr hp a) \<noteq> ODP_EVENT_BUFFER")
    case True
    then obtain p h where b: "ret_blks (unat (bh_segcount (bhdr hp a))) pool hp a = Inr (p, h)"
      "ret_buf_list p (upd_buf a (\<lambda>b. b\<lparr>bh_size := 0\<rparr>) h) a = (pool', hp')"
      using assms by (auto simp: ret_buf_def Let_def and_then_Inr)
    then show ?thesis using blks [OF b(1)] by (auto simp: ret_buf_list_def Let_def)
  next
    case False
    then show ?thesis using assms by (auto simp: ret_buf_def ret_buf_list_def Let_def)
  qed
  then show "pl_udata_size pool' = pl_udata_size pool" "pl_buf_stride pool' = pl_buf_stride pool"
    "pl_mdata_addr pool' = pl_mdata_addr pool" by simp_all
qed

lemma create_hdr_uarea:
  "bh_uarea_addr (create_hdr abi pool bs a udat b) = udat" "bh_uarea_size (create_hdr abi pool bs a udat b) = pl_udata_size pool"
  by (simp_all add: create_hdr_def Let_def)

lemma create_bufs_uareas:
  assumes "create_bufs abi bs us (pl_mdata_addr pool) (hdr_at pool k) udat pool hp = Some (Inr (pool', hp'))"
    and "0 < pl_buf_stride pool"
  shows "(\<forall>j \<le> k. uarea hp' (hdr_at pool j) = (udat - int ((k - j) * unat us), pl_udata_size pool)) \<and>
    (\<forall>x. (\<forall>j \<le> k. x \<noteq> hdr_at pool j) \<longrightarrow> uarea hp' x = uarea hp x) \<and> pl_mdata_addr pool' = pl_mdata_addr pool \<and>
    pl_buf_stride pool' = pl_buf_stride pool"
  using assms
proof (induction k arbitrary: pool hp udat)
  case (0 pool hp udat)
  obtain pool1 hp1 where r: "ret_buf pool (upd_buf (hdr_at pool 0) (create_hdr abi pool bs (hdr_at pool 0) udat) hp) (hdr_at pool 0) = Inr (pool1, hp1)"
    using 0(1) by (subst (asm) create_bufs.simps) (auto split: sum.splits)
  have "\<not> hdr_at pool 0 - int (unat (pl_buf_stride pool)) \<ge> pl_mdata_addr pool"
    using 0(2) by (simp add: word_less_nat_alt del: of_nat_unat)
  then have "pool' = pool1 \<and> hp' = hp1" using 0(1) r by (subst (asm) create_bufs.simps) (simp del: of_nat_unat)
  then show ?case using uarea_ret_buf [OF r] ret_buf_layout [OF r]
    by (auto simp: uarea_def upd_buf_def upd_hdr_def create_hdr_uarea fun_eq_iff)
next
  case (Suc k)
  obtain pool1 hp1 where r: "ret_buf pool (upd_buf (hdr_at pool (Suc k)) (create_hdr abi pool bs (hdr_at pool (Suc k)) udat) hp)
      (hdr_at pool (Suc k)) = Inr (pool1, hp1)"
    using Suc.prems(1) by (subst (asm) create_bufs.simps) (auto split: sum.splits)
  note same = ret_buf_layout [OF r]
  have prev: "hdr_at pool (Suc k) - int (unat (pl_buf_stride pool)) = hdr_at pool k"
    by (simp add: algebra_simps del: of_nat_unat)
  then have "hdr_at pool (Suc k) - int (unat (pl_buf_stride pool)) \<ge> pl_mdata_addr pool"
    by (metis le_add_same_cancel1 of_nat_0_le_iff)
  then have "create_bufs abi bs us (pl_mdata_addr pool) (hdr_at pool (Suc k)) udat pool hp =
      create_bufs abi bs us (pl_mdata_addr pool) (hdr_at pool k) (udat - int (unat us)) pool1 hp1"
    using r by (subst create_bufs.simps) (simp only: prev sum.case prod.case if_True)
  then have rec: "create_bufs abi bs us (pl_mdata_addr pool1) (hdr_at pool1 k) (udat - int (unat us)) pool1 hp1 = Some (Inr (pool', hp'))"
    using Suc.prems(1) same by simp
  have "0 < pl_buf_stride pool1" using Suc.prems(2) same by simp
  note IH = Suc.IH [OF rec this, unfolded same]
  have new: "\<forall>j \<le> k. hdr_at pool (Suc k) \<noteq> hdr_at pool j" by (simp only: hdr_at_eq_iff [OF Suc.prems(2)]) simp
  have u1: "uarea hp1 x = (if x = hdr_at pool (Suc k) then (udat, pl_udata_size pool) else uarea hp x)" for x
    unfolding uarea_ret_buf [OF r] by (simp add: uarea_def upd_buf_def upd_hdr_def create_hdr_uarea)
  have "uarea hp' (hdr_at pool j) = (udat - int ((Suc k - j) * unat us), pl_udata_size pool)" if "j \<le> Suc k" for j
  proof (cases "j = Suc k")
    case True
    have "uarea hp' (hdr_at pool (Suc k)) = uarea hp1 (hdr_at pool (Suc k))" using IH new by blast
    then show ?thesis using True u1 by simp
  next
    case False
    then have "j \<le> k" "Suc k - j = Suc (k - j)" using that by simp_all
    then have "uarea hp' (hdr_at pool j) = (udat - int (unat us) - int ((k - j) * unat us), pl_udata_size pool)" using IH by blast
    then show ?thesis unfolding \<open>Suc k - j = Suc (k - j)\<close> by (simp del: of_nat_unat)
  qed
  moreover have "uarea hp' x = uarea hp x" if "\<forall>j \<le> Suc k. x \<noteq> hdr_at pool j" for x
    using IH u1 [of x] that by (metis le_SucI order_refl)
  ultimately show ?case using IH by blast
qed

lemma create_blks_uarea:
  assumes "create_blks base blk pool hp = Some r"
  shows "uarea (snd r) = uarea hp \<and> hdr_list (fst r) = hdr_list pool \<and> pl_mdata_addr (fst r) = pl_mdata_addr pool \<and>
    pl_buf_stride (fst r) = pl_buf_stride pool"
proof (rule create_blks.raw_induct [where P = "\<lambda>_ _ pool hp r. uarea (snd r) = uarea hp \<and> hdr_list (fst r) = hdr_list pool \<and>
      pl_mdata_addr (fst r) = pl_mdata_addr pool \<and> pl_buf_stride (fst r) = pl_buf_stride pool", OF _ assms], goal_cases)
  case (1 rec base blk pool hp r)
  obtain pool1 hp1 where b: "ret_blk pool hp blk = (pool1, hp1)" by (metis surj_pair)
  have k: "uarea hp1 = uarea hp" "hdr_list pool1 = hdr_list pool" "pl_mdata_addr pool1 = pl_mdata_addr pool"
    "pl_buf_stride pool1 = pl_buf_stride pool"
    using uarea_ret_blk [OF b] b by (auto simp: ret_blk_def hdr_list_def)
  show ?case
  proof (cases "base \<le> blk - int (unat (pl_seg_size pool))")
    case True
    then have "rec base (blk - int (unat (pl_seg_size pool))) pool1 hp1 = Some r" using 1(2) b by simp
    from 1(1) [OF this] show ?thesis using k by simp
  next
    case False
    then have "r = (pool1, hp1)" using 1(2) b by simp
    then show ?thesis using k by simp
  qed
qed

text \<open>
  A pool that is created has its user areas behind the headers, in the order of the headers, if their total size is less than
  \<open>2\<^sup>3\<^sup>2\<close> bytes.
\<close>

lemma create_in_slot_uareas:
  assumes g: "geo_ok g type" and num: "pl_buf_num claimed = g_buf_num g"
    and us: "g_udata_size g \<le> g_udata_stride g" "unat (g_buf_num g) * unat (g_udata_stride g) < 2 ^ 32"
    and c: "create_in_slot abi g shm base claimed hp = Some (Inr (pool, hp'))"
  defines "ub \<equiv> base + int (unat (geo_block_size g)) + int (unat (geo_pad_size g)) + int (unat (geo_mdata_size g))"
  shows "pl_mdata_addr pool = base + int (unat (geo_block_size g)) + int (unat (geo_pad_size g)) \<and>
    (\<forall>j < unat (g_buf_num g). uarea hp' (hdr_at pool j) =
      (if g_udata_stride g = 0 then NULL else ub + int (j * unat (g_udata_stride g)), g_udata_size g)) \<and>
    pl_buf_stride pool = g_buf_stride g"
proof -
  define p0 where "p0 = create_layout g shm base claimed"
  let ?n = "unat (g_buf_num g)" let ?us = "g_udata_stride g"
  have p0: "pl_buf_stride p0 = g_buf_stride g" "pl_udata_size p0 = g_udata_size g" "pl_buf_num p0 = g_buf_num g"
    "pl_mdata_addr p0 = base + int (unat (geo_block_size g)) + int (unat (geo_pad_size g))"
    by (simp_all add: p0_def create_layout_def num)
  have n: "0 < ?n" and st: "0 < pl_buf_stride p0"
    using g p0(1) by (auto simp: geo_ok_def word_less_nat_alt)
  have "int (unat (geo_mdata_size g)) - int (unat (g_buf_stride g)) = int ((?n - 1) * unat (g_buf_stride g))"
    using n geo_sizes(1) [OF g] by (simp add: algebra_simps of_nat_diff del: of_nat_unat)
  then have buf: "pl_mdata_addr p0 + int (unat (geo_mdata_size g)) - int (unat (g_buf_stride g)) = hdr_at p0 (?n - 1)"
    unfolding p0(1) by linarith
  have "unat (ucast w :: u64) = unat w" for w :: u32
    by (simp add: unsigned_ucast_eq take_bit_nat_eq_self order_less_trans [OF unat_u32_bound])
  then have uz: "unat (geo_udata_size g) = ?n * unat ?us"
    using us(2) unat_mult_u32 [of "g_buf_num g" ?us] by (simp add: geo_udata_size_def)
  define udat where "udat = (if ?us = 0 then NULL
    else pl_mdata_addr p0 + int (unat (geo_mdata_size g)) + int (unat (geo_udata_size g)) - int (unat ?us))"
  have slot: "create_in_slot abi g shm base claimed hp =
      (case create_bufs abi (g_blk_size g) ?us (pl_mdata_addr p0) (hdr_at p0 (?n - 1)) udat p0 hp of
          None \<Rightarrow> None
        | Some (Inl e) \<Rightarrow> Some (Inl e)
        | Some (Inr (pool1, hp1)) \<Rightarrow>
            if unat (g_blk_size g) > ODP_MAX_INLINE_BUF
            then (case create_blks base (base + int (unat (geo_block_size g)) - int (unat (pl_seg_size p0))) pool1 hp1 of
                    None \<Rightarrow> None
                  | Some (pool2, hp2) \<Rightarrow> Some (Inr (create_finish g pool2, hp2)))
            else Some (Inr (create_finish g pool1, hp1)))"
    unfolding create_in_slot_def Let_def p0_def [symmetric] buf udat_def [symmetric] ..
  obtain pool1 hp1 where run: "create_bufs abi (g_blk_size g) ?us (pl_mdata_addr p0) (hdr_at p0 (?n - 1)) udat p0 hp = Some (Inr (pool1, hp1))"
    using c slot by (auto split: option.splits sum.splits)
  have fin: "uarea hp' = uarea hp1 \<and> pl_mdata_addr pool = pl_mdata_addr pool1 \<and> pl_buf_stride pool = pl_buf_stride pool1"
    using c run unfolding slot by (auto simp: create_finish_def dest!: create_blks_uarea split: if_splits option.splits)
  note areas = create_bufs_uareas [OF run st]
  have same: "pl_mdata_addr pool = pl_mdata_addr p0" "pl_buf_stride pool = pl_buf_stride p0" using fin areas by simp_all
  have "uarea hp' (hdr_at pool j) = (if ?us = 0 then NULL else ub + int (j * unat ?us), g_udata_size g)" if "j < ?n" for j
  proof -
    have "uarea hp' (hdr_at pool j) = (udat - int ((?n - 1 - j) * unat ?us), g_udata_size g)"
    proof -
      have "j \<le> ?n - 1" using that by simp
      then have "uarea hp1 (hdr_at p0 j) = (udat - int ((?n - 1 - j) * unat ?us), pl_udata_size p0)" using areas by blast
      then show ?thesis using fin unfolding same p0(2) by simp
    qed
    moreover have "int (?n * unat ?us) - int (unat ?us) - int ((?n - 1 - j) * unat ?us) = int (j * unat ?us)"
    proof -
      obtain d where "?n = Suc (j + d)" using less_imp_Suc_add [OF \<open>j < ?n\<close>] by blast
      then show ?thesis by (simp add: distrib_right del: of_nat_unat)
    qed
    ultimately show ?thesis using uz p0(4) by (auto simp: udat_def ub_def simp del: of_nat_unat of_nat_mult)
  qed
  moreover have "pl_mdata_addr pool = base + int (unat (geo_block_size g)) + int (unat (geo_pad_size g))"
    "pl_buf_stride pool = g_buf_stride g" using same p0(1,4) by (simp_all only:)
  ultimately show ?thesis by blast
qed

lemma geo_block_bound:
  assumes "geo_ok g type" "p \<in> set (geo_blocks g base)"
  shows "p + int (unat (geo_seg g)) \<le> base + int (unat (geo_block_size g))"
proof -
  have big: "ODP_MAX_INLINE_BUF < unat (g_blk_size g)" using assms(2) by (auto simp: geo_blocks_def split: if_splits)
  obtain k where k: "p = base + int (k * unat (geo_seg g))" "k < geo_nblks g"
  proof -
    have "p \<in> (\<lambda>i. base + int (i * unat (geo_seg g))) ` {0..<geo_nblks g}"
      using assms(2) big by (simp only: geo_blocks_def linorder_not_le [symmetric] if_False set_map set_upt)
    then show thesis by (rule imageE) (rule that, assumption, simp)
  qed
  have "k * unat (geo_seg g) + unat (geo_seg g) \<le> geo_nblks g * unat (geo_seg g)"
    using mult_le_mono1 [of "Suc k" "geo_nblks g" "unat (geo_seg g)"] k(2) by simp
  then show ?thesis using geo_sizes(2) [OF assms(1) big] k(1) by linarith
qed

lemma spans_apart:
  assumes "j \<noteq> k" "s \<le> d"
  shows "{b + int (j * d)..<b + int (j * d) + int s} \<inter> {b + int (k * d)..<b + int (k * d) + int s} = {}"
proof -
  have "x * d + d \<le> y * d" if "x < y" for x y :: nat using mult_le_mono1 [of "Suc x" y d] that by simp
  from this [of j k] this [of k j] show ?thesis using assms
    by (cases "j < k") (auto simp del: of_nat_mult)
qed

lemma nth_hdr:
  assumes "a \<in> set (map (hdr_at pool) [0..<n])"
  obtains j where "a = hdr_at pool j" "j < n"
proof -
  have "a \<in> hdr_at pool ` {0..<n}" using assms by (simp only: set_map set_upt)
  then show thesis by (rule imageE) (rule that, assumption, simp)
qed

text \<open>
  Creation lays out the user areas so that they overlap neither each other nor the blocks.
\<close>

lemma odp_pool_create_uareas:
  assumes abi: "abi_ok abi" and slot: "free_slot st = Some i" "i < ODP_CONFIG_POOLS"
    and geo: "pool_create_geometry abi (default_params p) = Inr (Some g)"
    and num: "0 < pp_num p" "unat (pp_num p) * unat (g_blk_size g) < 2 ^ 32" "unat (pp_size_len p) \<le> 2 ^ 29"
    and us: "g_udata_size g \<le> g_udata_stride g" "unat (pp_num p) * unat (g_udata_stride g) < 2 ^ 32"
    and shm: "shm_reserve (pl_name (create_claim name (default_params p) g (pool_tbl st ! i))) (geo_pool_size g) = (shm, base)"
      "shm \<noteq> ODP_SHM_INVALID" "0 < base"
    and c: "odp_pool_create abi shm_reserve name (Some p) st = Some (Inr (h, st'))"
      "pl_seg_size (pool_tbl st' ! i) = geo_seg g" "pl_buf_num (pool_tbl st' ! i) = g_buf_num g"
  shows "uareas_apart st' i (mset (geo_blocks g base)) \<and>
    (\<forall>a \<in> set (hdr_list (pool_tbl st' ! i)). g_udata_stride g \<noteq> 0 \<longrightarrow>
      base \<le> fst (uarea (heap st') a) \<and> snd (uarea (heap st') a) = g_udata_size g)"
proof -
  let ?q = "default_params p" let ?c = "create_claim name ?q g (pool_tbl st ! i)" let ?us = "unat (g_udata_stride g)"
  have q: "pp_num ?q = pp_num p" "unat (pp_size_len ?q) \<le> 2 ^ 29" using num(3) by (simp_all add: default_params_def)
  note g = create_geometry_ok [OF geo abi _ _ q(2), unfolded q(1), OF num(1,2)]
  have il: "i < length (pool_tbl st)" using slot(1) by (auto simp: free_slot_def find_Some_iff)
  have cl: "pl_buf_num ?c = g_buf_num g" "pl_pool_size ?c = geo_pool_size g" by (simp_all add: create_claim_def)
  obtain pool hp' where r: "create_in_slot abi g shm base ?c (heap st) = Some (Inr (pool, hp'))"
    "st' = st\<lparr>pool_tbl := (pool_tbl st)[i := pool], heap := hp'\<rparr>"
    using c(1) geo slot(1) shm(1,2) cl(2) by (auto simp: odp_pool_create_def Let_def and_then_Inr)
  have t: "pool_tbl st' ! i = pool" "heap st' = hp'" using r(2) il by simp_all
  define ub where "ub = base + int (unat (geo_block_size g)) + int (unat (geo_pad_size g)) + int (unat (geo_mdata_size g))"
  have "unat (g_buf_num g) * ?us < 2 ^ 32" using us(2) g(2) by simp
  note U = create_in_slot_uareas [OF g(1) cl(1) us(1) this r(1), folded ub_def]
  have z: "unat (g_udata_size g) \<le> ?us" using us(1) by (simp add: word_le_nat_alt)
  have sp: "uarea_span hp' (hdr_at pool j) =
      (if ?us = 0 then {} else {ub + int (j * ?us)..<ub + int (j * ?us) + int (unat (g_udata_size g))})"
    if "j < unat (g_buf_num g)" for j
  proof -
    have "uarea hp' (hdr_at pool j) = (if g_udata_stride g = 0 then NULL else ub + int (j * ?us), g_udata_size g)"
      using U that by blast
    moreover have "g_udata_stride g = 0 \<longleftrightarrow> ?us = 0" by (simp add: unat_eq_0)
    ultimately show ?thesis using z by (simp add: uarea_span_def del: of_nat_unat of_nat_mult)
  qed
  have hl: "hdr_list pool = map (hdr_at pool) [0..<unat (g_buf_num g)]" using c(3) t(1) by (simp add: hdr_list_def)
  have far: "p0 + int (unat (geo_seg g)) \<le> ub" if "p0 \<in> set (geo_blocks g base)" for p0
    using geo_block_bound [OF g(1) that] unfolding ub_def by linarith
  have "base \<le> fst (uarea hp' a) \<and> snd (uarea hp' a) = g_udata_size g" if "a \<in> set (hdr_list pool)" "g_udata_stride g \<noteq> 0" for a
  proof -
    obtain j where j: "a = hdr_at pool j" "j < unat (g_buf_num g)" using \<open>a \<in> set (hdr_list pool)\<close> unfolding hl by (rule nth_hdr)
    have "uarea hp' (hdr_at pool j) = (if g_udata_stride g = 0 then NULL else ub + int (j * ?us), g_udata_size g)"
      using U j(2) by blast
    then have "uarea hp' a = (ub + int (j * ?us), g_udata_size g)" unfolding j(1) using that(2) by (simp only: if_False)
    then show ?thesis by (simp add: ub_def)
  qed
  moreover have "uareas_apart st' i (mset (geo_blocks g base))"
    unfolding uareas_apart_def t hl
  proof (intro ballI conjI impI)
    fix a p0 assume a: "a \<in> set (map (hdr_at pool) [0..<unat (g_buf_num g)])" and p0: "p0 \<in># mset (geo_blocks g base)"
    obtain j where j: "a = hdr_at pool j" "j < unat (g_buf_num g)" by (rule nth_hdr [OF a])
    show "uarea_span hp' a \<inter> {p0..<p0 + int (unat (pl_seg_size pool))} = {}"
      using far [of p0] p0 c(2) t(1) sp [OF j(2)] j(1) by (auto simp del: of_nat_unat of_nat_mult)
  next
    fix a b assume a: "a \<in> set (map (hdr_at pool) [0..<unat (g_buf_num g)])" "b \<in> set (map (hdr_at pool) [0..<unat (g_buf_num g)])" "a \<noteq> b"
    obtain j k where j: "a = hdr_at pool j" "j < unat (g_buf_num g)" "b = hdr_at pool k" "k < unat (g_buf_num g)"
      using nth_hdr [OF a(1)] nth_hdr [OF a(2)] by metis
    then have "j \<noteq> k" using a(3) by auto
    then show "uarea_span hp' a \<inter> uarea_span hp' b = {}"
      using spans_apart [OF _ z, of j k ub] sp [OF j(2)] sp [OF j(4)] j(1,3) by (simp del: of_nat_unat of_nat_mult)
  qed
  ultimately show ?thesis unfolding t by blast
qed

section \<open>A pool with user areas\<close>

lemma demo_pool_uareas:
  "\<exists>B. pool_at demo_pool_state 0 B \<and> blocks_apart (pl_seg_size (pool_tbl demo_pool_state ! 0)) B \<and> uareas_apart demo_pool_state 0 B \<and>
    (\<forall>a \<in> set (hdr_list (pool_tbl demo_pool_state ! 0)). fst (uarea (heap demo_pool_state) a) \<noteq> NULL \<and>
      snd (uarea (heap demo_pool_state) a) = 16)"
proof -
  let ?cr = "odp_pool_create demo_abi (\<lambda>_ _. (1, 65536)) (Some ''pkts'') (Some demo_param) demo_init"
  have "\<exists>st' B. ?cr = Some (Inr (of_nat 0, st')) \<and>
      pool_at st' 0 B \<and> allocated_at st' 0 = {} \<and> pl_bufcount (pool_tbl st' ! 0) = pp_num demo_param \<and>
      pl_blkcount (pool_tbl st' ! 0) = of_nat (size B) \<and>
      size B = (if unat (g_blk_size demo_geo) \<le> ODP_MAX_INLINE_BUF then 0 else geo_nblks demo_geo) \<and>
      local_caches st' = local_caches demo_init \<and> pl_params (pool_tbl st' ! 0) = default_params demo_param \<and>
      pl_seg_size (pool_tbl st' ! 0) = geo_seg demo_geo \<and> pl_headroom (pool_tbl st' ! 0) = g_headroom demo_geo \<and>
      pl_tailroom (pool_tbl st' ! 0) = g_tailroom demo_geo \<and> pl_unsegmented (pool_tbl st' ! 0) = g_unseg demo_geo \<and>
      \<not> pl_predefined (pool_tbl st' ! 0) \<and> blocks_apart (pl_seg_size (pool_tbl st' ! 0)) B \<and>
      B = mset (geo_blocks demo_geo 65536) \<and> pl_buf_num (pool_tbl st' ! 0) = g_buf_num demo_geo"
    by (rule odp_pool_create_in [where i = 0 and shm = 1 and base = 65536, OF demo_hyps(1,2) _ demo_hyps(3-6)
          demo_geometry demo_sizes])
       (simp_all add: ODP_SHM_INVALID_def)
  then obtain B where c: "pool_at demo_pool_state 0 B" "pl_seg_size (pool_tbl demo_pool_state ! 0) = geo_seg demo_geo"
    "blocks_apart (pl_seg_size (pool_tbl demo_pool_state ! 0)) B" "B = mset (geo_blocks demo_geo 65536)"
    "?cr = Some (Inr (of_nat 0, demo_pool_state))" "pl_buf_num (pool_tbl demo_pool_state ! 0) = g_buf_num demo_geo"
    using demo_pool by auto
  have "pl_buf_num (pool_tbl demo_pool_state ! 0) = g_buf_num demo_geo" using c(6) by simp
  from odp_pool_create_uareas [OF demo_hyps(1,2) _ demo_geometry demo_sizes _ _ _ _ _ c(5,2) this, of 1 65536]
  have "uareas_apart demo_pool_state 0 B \<and> (\<forall>a \<in> set (hdr_list (pool_tbl demo_pool_state ! 0)).
      65536 \<le> fst (uarea (heap demo_pool_state) a) \<and> snd (uarea (heap demo_pool_state) a) = 16)"
    using c(4) by (simp add: demo_geo_def demo_param_def ODP_SHM_INVALID_def)
  then show ?thesis using c(1,3) by force
qed

end
