(* ===== verification/Odp_Packet_Correct.thy ===== *)
theory Odp_Packet_Correct
  imports Odp_Packet Odp_User_Area
begin

text \<open>
  Correctness of the packet API: moving head and tail, copying data out of, into and between packets, inserting
  and removing data, on packets that are handed out from a pool that satisfies its invariant; and the limits of the calls.
\<close>

section \<open>Bytes of a packet\<close>

definition pkt_addr :: "odp_packet_hdr \<Rightarrow> nat \<Rightarrow> addr" where
  "pkt_addr h i = byte_addr (buf_hdr h) (unat (headroom h) + i)"

lemma packet_bytes_addr: "packet_bytes m h = map (\<lambda>i. m (pkt_addr h i)) [0..<unat (frame_len h)]"
  by (simp add: packet_bytes_def pkt_addr_def)

lemma nth_packet_bytes: "i < unat (frame_len h) \<Longrightarrow> packet_bytes m h ! i = m (pkt_addr h i)"
  by (simp add: packet_bytes_addr)

text \<open>The map of an offset, with the run of consecutive bytes it stands for.\<close>

lemma packet_map_run:
  assumes ok: "packet_ok h" and off: "unat offset < unat (frame_len h)"
  obtains len where "packet_map h offset = Inr (Some (pkt_addr h (unat offset), len))"
    and "0 < unat len" "unat offset + unat len \<le> unat (frame_len h)"
    and "\<And>k. k < unat len \<Longrightarrow> pkt_addr h (unat offset + k) = pkt_addr h (unat offset) + int k"
proof -
  have "offset < frame_len h" using off by (simp add: word_less_nat_alt)
  with ok obtain len where l: "packet_map h offset = Inr (Some (byte_addr (buf_hdr h) (unat (headroom h) + unat offset), len))"
    "unat len = min (unat (frame_len h) - unat offset)
      (unat (bh_segsize (buf_hdr h)) - (unat (headroom h) + unat offset) mod unat (bh_segsize (buf_hdr h)))"
    "0 < unat len" by (rule packet_map_in_frame)
  have "pkt_addr h (unat offset + k) = pkt_addr h (unat offset) + int k" if "k < unat len" for k
    using that l(2) byte_addr_contiguous [of k "buf_hdr h" "unat (headroom h) + unat offset"]
    by (simp add: pkt_addr_def add.assoc)
  moreover have "unat offset + unat len \<le> unat (frame_len h)" using l(2) off by simp
  ultimately show thesis using that l(1,3) by (simp add: pkt_addr_def)
qed

section \<open>Head and tail\<close>

lemma packet_ok_frame:
  assumes "packet_ok h" "buf_hdr h' = buf_hdr h"
    and "unat (headroom h') + unat (frame_len h') + unat (tailroom h') =
      unat (headroom h) + unat (frame_len h) + unat (tailroom h)"
  shows "packet_ok h'"
  using assms by (simp add: packet_ok_def)

text \<open>
  The map at the end of the data, where \<open>odp_packet_push_tail\<close> and \<open>odp_packet_tail\<close> look, is defined as long as the
  offset lies inside the buffer.
\<close>

lemma packet_map_inside:
  assumes ok: "packet_ok h" and off: "unat offset \<le> unat (frame_len h)"
    and ins: "unat (headroom h) + unat offset < unat (bh_segsize (buf_hdr h)) * unat (bh_segcount (buf_hdr h))"
  shows "\<exists>len. packet_map h offset = Inr (Some (pkt_addr h (unat offset), len))"
proof -
  note D = packet_okD [OF ok]
  have o: "offset \<le> frame_len h" using off by (simp add: word_le_nat_alt)
  have s1: "unat (headroom h + offset) = unat (headroom h) + unat offset"
    using D off by (intro unat_add_u32) linarith
  have s2: "unat (headroom h + frame_len h) = unat (headroom h) + unat (frame_len h)"
    using D by (intro unat_add_u32) linarith
  have idx: "unat (headroom h + offset) div unat (bh_segsize (buf_hdr h)) < length (bh_addr (buf_hdr h))"
    unfolding s1 using packet_ok_seg_index [OF ok ins] D(1,6) by linarith
  have le: "headroom h + offset \<le> headroom h + frame_len h" using off by (simp add: word_le_nat_alt s1 s2)
  obtain len where "buffer_map (buf_hdr h) (headroom h + offset) (headroom h + frame_len h) =
      Inr (byte_addr (buf_hdr h) (unat (headroom h + offset)), len)"
    using buffer_map_eq [OF D(2) le idx] by metis
  then show ?thesis using o by (simp add: packet_map_def s1 pkt_addr_def)
qed

lemma hdr_push_head_ok:
  assumes ok: "packet_ok h" and len: "len \<le> headroom h" "0 < unat len + unat (frame_len h)"
  shows "hdr_push_head h len = Inr (pkt_addr (push_head h len) 0, (push_head h len)) \<and> packet_ok (push_head h len) \<and>
    unat (frame_len (push_head h len)) = unat (frame_len h) + unat len \<and> unat (headroom (push_head h len)) = unat (headroom h) - unat len \<and>
    (\<forall>i. pkt_addr (push_head h len) (unat len + i) = pkt_addr h i)"
proof -
  let ?h = "push_head h len"
  note D = packet_okD [OF ok]
  have l: "unat len \<le> unat (headroom h)" using len by (simp add: word_le_nat_alt)
  have u: "unat (headroom ?h) = unat (headroom h) - unat len" "unat (frame_len ?h) = unat (frame_len h) + unat len"
    using len l D(8) by (simp_all add: push_head_def unat_sub_small unat_add_u32)
  have ok': "packet_ok ?h" by (rule packet_ok_frame [OF ok]) (use u l in \<open>simp_all add: push_head_def\<close>)
  have "unat (0 :: u32) < unat (frame_len ?h)" unfolding u(2) using len(2) by auto
  then obtain n where "packet_map ?h 0 = Inr (Some (pkt_addr ?h 0, n))"
    using packet_map_run [OF ok', of 0] by (metis unat_0)
  moreover have "pkt_addr ?h (unat len + i) = pkt_addr h i" for i
    using u(1) l by (simp add: pkt_addr_def push_head_def flip: add.assoc)
  ultimately show ?thesis using u ok' len(1) by (auto simp: hdr_push_head_def map_addr_def Let_def)
qed

lemma hdr_pull_head_ok:
  assumes ok: "packet_ok h" and len: "len < frame_len h"
  shows "hdr_pull_head h len = Inr (pkt_addr h (unat len), (pull_head h len)) \<and> packet_ok (pull_head h len) \<and>
    unat (frame_len (pull_head h len)) = unat (frame_len h) - unat len \<and> unat (headroom (pull_head h len)) = unat (headroom h) + unat len \<and>
    (\<forall>i. pkt_addr (pull_head h len) i = pkt_addr h (unat len + i))"
proof -
  let ?h = "pull_head h len"
  note D = packet_okD [OF ok]
  have l: "unat len < unat (frame_len h)" using len by (simp add: word_less_nat_alt)
  have u: "unat (headroom ?h) = unat (headroom h) + unat len" "unat (frame_len ?h) = unat (frame_len h) - unat len"
    using len l D(8) by (simp_all add: pull_head_def unat_sub_small unat_add_u32)
  have ok': "packet_ok ?h" by (rule packet_ok_frame [OF ok]) (use u l in \<open>simp_all add: pull_head_def\<close>)
  have ad: "pkt_addr ?h i = pkt_addr h (unat len + i)" for i
    using u(1) by (simp add: pkt_addr_def pull_head_def add.assoc)
  have "unat (0 :: u32) < unat (frame_len ?h)" using u(2) l by simp
  then obtain n where "packet_map ?h 0 = Inr (Some (pkt_addr ?h 0, n))"
    using packet_map_run [OF ok', of 0] by (metis unat_0)
  then show ?thesis using u ok' len ad by (auto simp: hdr_pull_head_def map_addr_def Let_def)
qed

lemma hdr_push_tail_ok:
  assumes ok: "packet_ok h" and len: "len \<le> tailroom h" "0 < len"
  shows "hdr_push_tail h len = Inr (pkt_addr h (unat (frame_len h)), (push_tail h len)) \<and> packet_ok (push_tail h len) \<and>
    unat (frame_len (push_tail h len)) = unat (frame_len h) + unat len \<and> unat (tailroom (push_tail h len)) = unat (tailroom h) - unat len \<and>
    (\<forall>i. pkt_addr (push_tail h len) i = pkt_addr h i)"
proof -
  let ?h = "push_tail h len"
  note D = packet_okD [OF ok]
  have l: "unat len \<le> unat (tailroom h)" "0 < unat len" using len by (simp_all add: word_le_nat_alt word_less_nat_alt)
  have u: "unat (tailroom ?h) = unat (tailroom h) - unat len" "unat (frame_len ?h) = unat (frame_len h) + unat len"
    using len l D(8) by (simp_all add: push_tail_def unat_sub_small unat_add_u32)
  have ok': "packet_ok ?h" by (rule packet_ok_frame [OF ok]) (use u l in \<open>simp_all add: push_tail_def\<close>)
  have ad: "pkt_addr ?h i = pkt_addr h i" for i by (simp add: pkt_addr_def push_tail_def)
  have "unat (frame_len h) < unat (frame_len ?h)" using u(2) l by simp
  then obtain n where "packet_map ?h (frame_len h) = Inr (Some (pkt_addr ?h (unat (frame_len h)), n))"
    using packet_map_run [OF ok'] by metis
  then show ?thesis using u ok' len ad by (auto simp: hdr_push_tail_def map_addr_def Let_def)
qed

lemma hdr_pull_tail_ok:
  assumes ok: "packet_ok h" and len: "len \<le> frame_len h" "0 < len"
  shows "hdr_pull_tail h len = Inr (pkt_addr h (unat (frame_len h) - unat len), (pull_tail h len)) \<and> packet_ok (pull_tail h len) \<and>
    unat (frame_len (pull_tail h len)) = unat (frame_len h) - unat len \<and> unat (tailroom (pull_tail h len)) = unat (tailroom h) + unat len \<and>
    (\<forall>i. pkt_addr (pull_tail h len) i = pkt_addr h i)"
proof -
  let ?h = "pull_tail h len"
  note D = packet_okD [OF ok]
  have l: "unat len \<le> unat (frame_len h)" "0 < unat len" using len by (simp_all add: word_le_nat_alt word_less_nat_alt)
  have u: "unat (tailroom ?h) = unat (tailroom h) + unat len" "unat (frame_len ?h) = unat (frame_len h) - unat len"
    using len l D(8) by (simp_all add: pull_tail_def unat_sub_small unat_add_u32)
  have ok': "packet_ok ?h" by (rule packet_ok_frame [OF ok]) (use u l in \<open>simp_all add: pull_tail_def\<close>)
  have ad: "pkt_addr ?h i = pkt_addr h i" for i by (simp add: pkt_addr_def pull_tail_def)
  have b: "buf_hdr ?h = buf_hdr h" "headroom ?h = headroom h" by (simp_all add: pull_tail_def)
  have "unat (headroom ?h) + unat (frame_len ?h) < unat (bh_segsize (buf_hdr ?h)) * unat (bh_segcount (buf_hdr ?h))"
    unfolding b u(2) using D(7) l by linarith
  then obtain n where "packet_map ?h (frame_len ?h) = Inr (Some (pkt_addr ?h (unat (frame_len ?h)), n))"
    using packet_map_inside [OF ok' order_refl] by auto
  then show ?thesis using u ok' len ad by (auto simp: hdr_pull_tail_def map_addr_def Let_def)
qed

section \<open>Copies\<close>

text \<open>
  \<open>moved m m' src dst n\<close>: the \<open>n\<close> bytes at the addresses \<open>src 0, src 1, ...\<close> were copied to \<open>dst 0, dst 1, ...\<close>
  and nothing else changed. The specification of all copies.
\<close>

definition moved :: "memory \<Rightarrow> memory \<Rightarrow> (nat \<Rightarrow> addr) \<Rightarrow> (nat \<Rightarrow> addr) \<Rightarrow> nat \<Rightarrow> bool" where
  "moved m m' src dst n \<longleftrightarrow>
    (\<forall>i<n. m' (dst i) = m (src i)) \<and> (\<forall>a. a \<notin> dst ` {..<n} \<longrightarrow> m' a = m a)"

definition no_overlap :: "(nat \<Rightarrow> addr) \<Rightarrow> (nat \<Rightarrow> addr) \<Rightarrow> nat \<Rightarrow> bool" where
  "no_overlap src dst n \<longleftrightarrow> inj_on dst {..<n} \<and> src ` {..<n} \<inter> dst ` {..<n} = {}"

lemma moved_0 [simp]: "moved m m' src dst 0 \<longleftrightarrow> m' = m"
  by (auto simp: moved_def)

lemma no_overlap_split:
  assumes "no_overlap src dst (c + n)"
  shows "no_overlap (\<lambda>i. src (c + i)) (\<lambda>i. dst (c + i)) n"
proof -
  have inj: "inj_on dst {..<c + n}" and dis: "src ` {..<c + n} \<inter> dst ` {..<c + n} = {}"
    using assms by (auto simp: no_overlap_def)
  have "inj_on (\<lambda>i. dst (c + i)) {..<n}"
    by (rule inj_onI) (use inj_onD [OF inj] in fastforce)
  moreover have "(\<lambda>i. src (c + i)) ` {..<n} \<subseteq> src ` {..<c + n}" "(\<lambda>i. dst (c + i)) ` {..<n} \<subseteq> dst ` {..<c + n}" by auto
  ultimately show ?thesis using dis unfolding no_overlap_def by blast
qed

lemma moved_trans:
  assumes 1: "moved m m1 src dst c" and 2: "moved m1 m2 (\<lambda>i. src (c + i)) (\<lambda>i. dst (c + i)) n"
    and no: "no_overlap src dst (c + n)"
  shows "moved m m2 src dst (c + n)"
proof -
  have inj: "\<And>i j. i < c + n \<Longrightarrow> j < c + n \<Longrightarrow> dst i = dst j \<Longrightarrow> i = j"
    and dis: "\<And>i j. i < c + n \<Longrightarrow> j < c + n \<Longrightarrow> src i \<noteq> dst j"
    using no unfolding no_overlap_def inj_on_def by blast+
  have "m2 (dst i) = m (src i)" if i: "i < c + n" for i
  proof (cases "i < c")
    case True
    have "dst i \<notin> (\<lambda>i. dst (c + i)) ` {..<n}"
    proof
      assume "dst i \<in> (\<lambda>i. dst (c + i)) ` {..<n}"
      then obtain k where "k < n" "dst i = dst (c + k)" by auto
      then have "i = c + k" by (intro inj [OF i]) simp_all
      with True show False by simp
    qed
    then show ?thesis using 1 2 True by (simp add: moved_def)
  next
    case False
    then obtain k where k: "i = c + k" "k < n" using i by (metis add_less_cancel_left le_add_diff_inverse not_less)
    have "src i \<notin> dst ` {..<c}" using dis [OF i] by (metis imageE lessThan_iff trans_less_add1)
    then show ?thesis using 1 2 k by (simp add: moved_def)
  qed
  moreover have "m2 a = m a" if a: "a \<notin> dst ` {..<c + n}" for a
  proof -
    have "a \<notin> dst ` {..<c}" "a \<notin> (\<lambda>i. dst (c + i)) ` {..<n}" using a by auto
    then show ?thesis using 1 2 by (simp add: moved_def)
  qed
  ultimately show ?thesis by (simp add: moved_def)
qed

lemma memcpy_moved:
  assumes "\<And>k. k < n \<Longrightarrow> src k = s + int k" "\<And>k. k < n \<Longrightarrow> dst k = d + int k"
  shows "moved m (memcpy m d s n) src dst n"
proof -
  have "dst ` {..<n} = (\<lambda>k. d + int k) ` {..<n}" using assms(2) by (intro image_cong) auto
  moreover have "a < d \<or> d + int n \<le> a" if "a \<notin> (\<lambda>k. d + int k) ` {..<n}" for a
  proof (rule ccontr)
    assume "\<not> (a < d \<or> d + int n \<le> a)"
    then have "a = d + int (nat (a - d))" "nat (a - d) < n" by auto
    with that show False by blast
  qed
  ultimately show ?thesis using assms by (auto simp: moved_def memcpy_def store_bytes_out)
qed

text \<open>One turn of a loop: copy a run of \<open>cpylen\<close> bytes, then the rest.\<close>

definition cpy_len :: "u32 \<Rightarrow> u32 \<Rightarrow> u32" where "cpy_len len seglen = (if len > seglen then seglen else len)"

lemma cpy_len:
  assumes "0 < unat seglen" "0 < unat len"
  shows "0 < unat (cpy_len len seglen)" "unat (cpy_len len seglen) \<le> unat len" "unat (cpy_len len seglen) \<le> unat seglen"
    and "unat (len - cpy_len len seglen) = unat len - unat (cpy_len len seglen)"
  using assms by (auto simp: cpy_len_def word_less_nat_alt unat_sub_small)

lemma moved_turn:
  assumes c: "c \<le> n" and run: "\<And>k. k < c \<Longrightarrow> src k = s + int k" "\<And>k. k < c \<Longrightarrow> dst k = d + int k"
    and no: "no_overlap src dst n"
    and rest: "\<And>m1. no_overlap (\<lambda>i. src (c + i)) (\<lambda>i. dst (c + i)) (n - c) \<Longrightarrow>
      \<exists>m2. F m1 = Some (Inr m2) \<and> moved m1 m2 (\<lambda>i. src (c + i)) (\<lambda>i. dst (c + i)) (n - c)"
  shows "\<exists>m2. F (memcpy m d s c) = Some (Inr m2) \<and> moved m m2 src dst n"
proof -
  have n: "n = c + (n - c)" using c by simp
  have no': "no_overlap src dst (c + (n - c))" using no n by simp
  obtain m2 where m2: "F (memcpy m d s c) = Some (Inr m2)"
    "moved (memcpy m d s c) m2 (\<lambda>i. src (c + i)) (\<lambda>i. dst (c + i)) (n - c)"
    using rest [OF no_overlap_split [OF no']] by blast
  have "moved m m2 src dst (c + (n - c))"
    by (rule moved_trans [OF memcpy_moved m2(2) no']) (use run in auto)
  then show ?thesis using m2(1) n by metis
qed

lemma unat_add_in_frame:
  "unat c \<le> unat len \<Longrightarrow> unat (off :: u32) + unat len \<le> unat (x :: u32) \<Longrightarrow> unat (off + c) = unat off + unat c"
  by (rule unat_add_u32) (use unat_u32_bound [of x] in linarith)

lemma copydata_out_loop_ok:
  assumes "packet_ok h" "unat offset + unat len \<le> unat (frame_len h)"
    and "no_overlap (\<lambda>i. pkt_addr h (unat offset + i)) (\<lambda>i. dst + int i) (unat len)"
  shows "\<exists>m'. copydata_out_loop h m offset len seglen dst = Some (Inr m') \<and>
    moved m m' (\<lambda>i. pkt_addr h (unat offset + i)) (\<lambda>i. dst + int i) (unat len)"
  using assms(2,3)
proof (induction "unat len" arbitrary: offset len seglen dst m rule: less_induct)
  case less
  show ?case
  proof (cases "len = 0")
    case True
    then show ?thesis by (subst copydata_out_loop.simps) simp
  next
    case False
    then have l: "0 < unat len" by (simp add: unat_gt_0)
    have "unat offset < unat (frame_len h)" using l less.prems(1) by linarith
    with assms(1) obtain sl where s: "packet_map h offset = Inr (Some (pkt_addr h (unat offset), sl))"
      "0 < unat sl" "\<And>k. k < unat sl \<Longrightarrow> pkt_addr h (unat offset + k) = pkt_addr h (unat offset) + int k"
      by (rule packet_map_run) blast
    let ?c = "cpy_len len sl"
    note c = cpy_len [OF s(2) l]
    have o: "unat (offset + ?c) = unat offset + unat ?c"
      by (rule unat_add_in_frame [OF c(2) less.prems(1)])
    have "\<exists>m2. (\<lambda>m. copydata_out_loop h m (offset + ?c) (len - ?c) sl (dst + int (unat ?c)))
          (memcpy m dst (pkt_addr h (unat offset)) (unat ?c)) = Some (Inr m2) \<and>
        moved m m2 (\<lambda>i. pkt_addr h (unat offset + i)) (\<lambda>i. dst + int i) (unat len)"
    proof (rule moved_turn [OF c(2) _ _ less.prems(2)])
      fix m1 assume no: "no_overlap (\<lambda>i. pkt_addr h (unat offset + (unat ?c + i))) (\<lambda>i. dst + int (unat ?c + i)) (unat len - unat ?c)"
      show "\<exists>m2. copydata_out_loop h m1 (offset + ?c) (len - ?c) sl (dst + int (unat ?c)) = Some (Inr m2) \<and>
          moved m1 m2 (\<lambda>i. pkt_addr h (unat offset + (unat ?c + i))) (\<lambda>i. dst + int (unat ?c + i)) (unat len - unat ?c)"
        using less.hyps [of "len - ?c" "offset + ?c" "dst + int (unat ?c)" m1 sl] no c l less.prems(1)
        by (simp add: o add.assoc del: of_nat_unat)
    qed (use s(3) c(3) in auto)
    then show ?thesis using False s(1) by (subst copydata_out_loop.simps) (simp add: cpy_len_def Let_def del: of_nat_unat)
  qed
qed

lemma copydata_in_loop_ok:
  assumes "packet_ok h" "unat offset + unat len \<le> unat (frame_len h)"
    and "no_overlap (\<lambda>i. src + int i) (\<lambda>i. pkt_addr h (unat offset + i)) (unat len)"
  shows "\<exists>m'. copydata_in_loop h m offset len seglen src = Some (Inr m') \<and>
    moved m m' (\<lambda>i. src + int i) (\<lambda>i. pkt_addr h (unat offset + i)) (unat len)"
  using assms(2,3)
proof (induction "unat len" arbitrary: offset len seglen src m rule: less_induct)
  case less
  show ?case
  proof (cases "len = 0")
    case True
    then show ?thesis by (subst copydata_in_loop.simps) simp
  next
    case False
    then have l: "0 < unat len" by (simp add: unat_gt_0)
    have "unat offset < unat (frame_len h)" using l less.prems(1) by linarith
    with assms(1) obtain sl where s: "packet_map h offset = Inr (Some (pkt_addr h (unat offset), sl))"
      "0 < unat sl" "\<And>k. k < unat sl \<Longrightarrow> pkt_addr h (unat offset + k) = pkt_addr h (unat offset) + int k"
      by (rule packet_map_run) blast
    let ?c = "cpy_len len sl"
    note c = cpy_len [OF s(2) l]
    have o: "unat (offset + ?c) = unat offset + unat ?c"
      by (rule unat_add_in_frame [OF c(2) less.prems(1)])
    have "\<exists>m2. (\<lambda>m. copydata_in_loop h m (offset + ?c) (len - ?c) sl (src + int (unat ?c)))
          (memcpy m (pkt_addr h (unat offset)) src (unat ?c)) = Some (Inr m2) \<and>
        moved m m2 (\<lambda>i. src + int i) (\<lambda>i. pkt_addr h (unat offset + i)) (unat len)"
    proof (rule moved_turn [OF c(2) _ _ less.prems(2)])
      fix m1 assume no: "no_overlap (\<lambda>i. src + int (unat ?c + i)) (\<lambda>i. pkt_addr h (unat offset + (unat ?c + i))) (unat len - unat ?c)"
      show "\<exists>m2. copydata_in_loop h m1 (offset + ?c) (len - ?c) sl (src + int (unat ?c)) = Some (Inr m2) \<and>
          moved m1 m2 (\<lambda>i. src + int (unat ?c + i)) (\<lambda>i. pkt_addr h (unat offset + (unat ?c + i))) (unat len - unat ?c)"
        using less.hyps [of "len - ?c" "offset + ?c" "src + int (unat ?c)" m1 sl] no c l less.prems(1)
        by (simp add: o add.assoc del: of_nat_unat)
    qed (use s(3) c(3) in auto)
    then show ?thesis using False s(1) by (subst copydata_in_loop.simps) (simp add: cpy_len_def Let_def del: of_nat_unat)
  qed
qed

lemma copy_to_packet_loop_ok:
  assumes "packet_ok hs" "packet_ok hd1"
    and "unat so + unat len \<le> unat (frame_len hs)" "unat dof + unat len \<le> unat (frame_len hd1)"
    and "no_overlap (\<lambda>i. pkt_addr hs (unat so + i)) (\<lambda>i. pkt_addr hd1 (unat dof + i)) (unat len)"
  shows "\<exists>m'. copy_to_packet_loop hs hd1 m so dof len ssl dsl = Some (Inr m') \<and>
    moved m m' (\<lambda>i. pkt_addr hs (unat so + i)) (\<lambda>i. pkt_addr hd1 (unat dof + i)) (unat len)"
  using assms(3-5)
proof (induction "unat len" arbitrary: so dof len ssl dsl m rule: less_induct)
  case less
  show ?case
  proof (cases "len = 0")
    case True
    then show ?thesis by (subst copy_to_packet_loop.simps) simp
  next
    case False
    then have l: "0 < unat len" by (simp add: unat_gt_0)
    have "unat so < unat (frame_len hs)" "unat dof < unat (frame_len hd1)" using l less.prems(1,2) by linarith+
    obtain sl where s: "packet_map hs so = Inr (Some (pkt_addr hs (unat so), sl))"
      "0 < unat sl" "\<And>k. k < unat sl \<Longrightarrow> pkt_addr hs (unat so + k) = pkt_addr hs (unat so) + int k"
      by (rule packet_map_run [OF assms(1) \<open>unat so < unat (frame_len hs)\<close>]) blast
    obtain dl where d: "packet_map hd1 dof = Inr (Some (pkt_addr hd1 (unat dof), dl))"
      "0 < unat dl" "\<And>k. k < unat dl \<Longrightarrow> pkt_addr hd1 (unat dof + k) = pkt_addr hd1 (unat dof) + int k"
      by (rule packet_map_run [OF assms(2) \<open>unat dof < unat (frame_len hd1)\<close>]) blast
    let ?ms = "cpy_len dl sl"
    let ?c = "cpy_len len ?ms"
    note ms = cpy_len [OF s(2) d(2)]
    note c = cpy_len [OF ms(1) l]
    have o: "unat (so + ?c) = unat so + unat ?c" "unat (dof + ?c) = unat dof + unat ?c"
      by (rule unat_add_in_frame [OF c(2) less.prems(1)], rule unat_add_in_frame [OF c(2) less.prems(2)])
    have "\<exists>m2. (\<lambda>m. copy_to_packet_loop hs hd1 m (so + ?c) (dof + ?c) (len - ?c) sl dl)
          (memcpy m (pkt_addr hd1 (unat dof)) (pkt_addr hs (unat so)) (unat ?c)) = Some (Inr m2) \<and>
        moved m m2 (\<lambda>i. pkt_addr hs (unat so + i)) (\<lambda>i. pkt_addr hd1 (unat dof + i)) (unat len)"
    proof (rule moved_turn [OF c(2) _ _ less.prems(3)])
      fix m1 assume no: "no_overlap (\<lambda>i. pkt_addr hs (unat so + (unat ?c + i)))
          (\<lambda>i. pkt_addr hd1 (unat dof + (unat ?c + i))) (unat len - unat ?c)"
      show "\<exists>m2. copy_to_packet_loop hs hd1 m1 (so + ?c) (dof + ?c) (len - ?c) sl dl = Some (Inr m2) \<and>
          moved m1 m2 (\<lambda>i. pkt_addr hs (unat so + (unat ?c + i))) (\<lambda>i. pkt_addr hd1 (unat dof + (unat ?c + i)))
            (unat len - unat ?c)"
        using less.hyps [of "len - ?c" "so + ?c" "dof + ?c" m1 sl dl] no c l less.prems(1,2)
        by (simp add: o add.assoc del: of_nat_unat)
    qed (use s(3) d(3) c(3) ms in auto)
    then show ?thesis using False s(1) d(1)
      by (subst copy_to_packet_loop.simps) (simp add: cpy_len_def [of len] cpy_len_def [of dl] Let_def del: of_nat_unat)
  qed
qed

section \<open>Live packets\<close>

text \<open>
  \<open>live st i B a\<close>: slot \<open>i\<close> holds a packet pool with blocks \<open>B\<close> that do not overlap, and \<open>a\<close> is the header of a well
  formed packet that is handed out from it.
\<close>

definition live :: "odp_state \<Rightarrow> nat \<Rightarrow> addr multiset \<Rightarrow> addr \<Rightarrow> bool" where
  "live st i B a \<longleftrightarrow>
    pool_at st i B \<and> blocks_apart (pl_seg_size (pool_tbl st ! i)) B \<and>
    pp_type (pl_params (pool_tbl st ! i)) = ODP_POOL_PACKET \<and>
    a \<in> allocated_at st i \<and> packet_ok (hdrs (heap st) a)"

abbreviation handle_of :: "odp_state \<Rightarrow> addr \<Rightarrow> u32" where
  "handle_of st a \<equiv> bh_handle (bhdr (heap st) a)"

lemma owned_apart:
  assumes rep: "pool_rep X pool hp caches L bl B" and a: "a \<in> set (hdr_list pool)"
  shows "set (owned hp a) \<subseteq> set_mset B" "distinct (owned hp a)"
    and "b \<in> set (hdr_list pool) \<Longrightarrow> a \<noteq> b \<Longrightarrow> set (owned hp a) \<inter> set (owned hp b) = {}"
proof -
  let ?S = "set (hdr_list pool)" let ?f = "\<lambda>a. mset (owned hp a)"
  have sum: "mset bl + (\<Sum>a\<in>?S. ?f a) = B" and cnt: "\<forall>x. count B x \<le> 1"
    using rep by (simp_all add: pool_rep_def pool_core_def)
  have one: "?f a + (\<Sum>x\<in>?S - {a}. ?f x) = (\<Sum>x\<in>?S. ?f x)" by (rule sum.remove [symmetric]) (use a in auto)
  then have sub: "?f a \<subseteq># B" using sum by (metis mset_subset_eq_add_left mset_subset_eq_add_right subset_mset.order_trans)
  show "set (owned hp a) \<subseteq> set_mset B" using set_mset_mono [OF sub] by simp
  show "distinct (owned hp a)"
    using cnt mset_subset_eq_count [OF sub] unfolding distinct_count_atmost_1
    by (metis (no_types, opaque_lifting) count_greater_zero_iff dual_order.trans le_antisym less_one linorder_not_le not_gr_zero set_mset_mset)
  assume b: "b \<in> ?S" "a \<noteq> b"
  have two: "?f b + (\<Sum>x\<in>?S - {a} - {b}. ?f x) = (\<Sum>x\<in>?S - {a}. ?f x)" by (rule sum.remove [symmetric]) (use b in auto)
  show "set (owned hp a) \<inter> set (owned hp b) = {}"
  proof (rule ccontr)
    assume "\<not> ?thesis"
    then obtain x where "x \<in> set (owned hp a)" "x \<in> set (owned hp b)" by auto
    then have "1 \<le> count (?f a) x" "1 \<le> count (?f b) x" by (simp_all add: Suc_le_eq)
    moreover have "count B x = count (mset bl) x + (count (?f a) x + (count (?f b) x + count (\<Sum>x\<in>?S - {a} - {b}. ?f x) x))"
      unfolding sum [symmetric] one [symmetric] two [symmetric] by simp
    ultimately show False using cnt [rule_format, of x] by linarith
  qed
qed

lemma liveD:
  assumes "live st i B a"
  shows "pool_at st i B" "a \<in> allocated_at st i" "a \<in> set (hdr_list (pool_tbl st ! i))" "packet_ok (hdrs (heap st) a)"
    and "packet_hdr_addr st (handle_of st a) = Inr a"
    and "owned (heap st) a = take (unat (bh_segcount (bhdr (heap st) a))) (bh_addr (bhdr (heap st) a))"
    and "bh_segsize (bhdr (heap st) a) = pl_seg_size (pool_tbl st ! i)"
    and "bh_type (bhdr (heap st) a) = ODP_EVENT_PACKET"
proof -
  show *: "pool_at st i B" "a \<in> allocated_at st i" "packet_ok (hdrs (heap st) a)"
    using assms by (simp_all add: live_def)
  show hl: "a \<in> set (hdr_list (pool_tbl st ! i))" using *(2) by (simp add: allocated_def)
  show "packet_hdr_addr st (handle_of st a) = Inr a"
    using hdr_handle [OF *(1) hl] unfolding packet_hdr_addr_def by metis
  obtain L bl where r: "pool_rep {} (pool_tbl st ! i) (heap st) (\<lambda>t. local_caches st t i) L bl B"
    using pool_atD(7) [OF *(1)] by (auto simp: pool_inv_def)
  then have ok: "hdr_ok (pool_tbl st ! i) (heap st) a" and sh: "pool_shape (pool_tbl st ! i)"
    using hl by (simp_all add: pool_rep_def pool_core_def)
  have "\<not> bh_hdrdata (bhdr (heap st) a)"
    using ok sh assms by (auto simp: live_def pool_shape_def hdr_ok_def)
  then show "owned (heap st) a = take (unat (bh_segcount (bhdr (heap st) a))) (bh_addr (bhdr (heap st) a))"
    by (simp add: owned_def)
  show "bh_segsize (bhdr (heap st) a) = pl_seg_size (pool_tbl st ! i)" "bh_type (bhdr (heap st) a) = ODP_EVENT_PACKET"
    using ok assms by (simp_all add: hdr_ok_def live_def)
qed

text \<open>The space of a packet, headroom and tailroom included, and that no two bytes of live packets share an address.\<close>

definition pkt_space :: "odp_packet_hdr \<Rightarrow> nat" where
  "pkt_space h = unat (bh_segsize (buf_hdr h)) * unat (bh_segcount (buf_hdr h))"

lemma live_byte:
  assumes "live st i B a" "k < pkt_space (hdrs (heap st) a)"
  defines "ss \<equiv> unat (pl_seg_size (pool_tbl st ! i))"
  shows "byte_addr (bhdr (heap st) a) k = owned (heap st) a ! (k div ss) + int (k mod ss)"
    and "k div ss < length (owned (heap st) a)" "k mod ss < ss"
proof -
  note L = liveD [OF assms(1)] note D = packet_okD [OF L(4)]
  have ss: "ss = unat (bh_segsize (bhdr (heap st) a))" by (simp add: ss_def L(7))
  have "k div ss < unat (bh_segcount (bhdr (heap st) a))"
    unfolding ss by (rule packet_ok_seg_index [OF L(4)]) (use assms(2) in \<open>simp add: pkt_space_def\<close>)
  then show "k div ss < length (owned (heap st) a)" using D(1,6) by (simp add: L(6))
  then show "byte_addr (bhdr (heap st) a) k = owned (heap st) a ! (k div ss) + int (k mod ss)"
    by (simp add: byte_addr_def L(6) ss)
  show "k mod ss < ss" using D(3) by (simp add: ss)
qed

lemma live_bytes_apart:
  assumes a: "live st i B a" and b: "live st i B b"
    and k: "k < pkt_space (hdrs (heap st) a)" and l: "l < pkt_space (hdrs (heap st) b)"
    and eq: "byte_addr (bhdr (heap st) a) k = byte_addr (bhdr (heap st) b) l"
  shows "a = b \<and> k = l"
proof -
  let ?ss = "unat (pl_seg_size (pool_tbl st ! i))"
  let ?x = "owned (heap st) a ! (k div ?ss)" let ?y = "owned (heap st) b ! (l div ?ss)"
  note A = live_byte [OF a k] note Bb = live_byte [OF b l]
  obtain L bl where r: "pool_rep {} (pool_tbl st ! i) (heap st) (\<lambda>t. local_caches st t i) L bl B"
    using pool_atD(7) [OF liveD(1) [OF a]] by (auto simp: pool_inv_def)
  note oa = owned_apart [OF r liveD(3) [OF a]] note ob = owned_apart [OF r liveD(3) [OF b]]
  have in': "?x \<in> set (owned (heap st) a)" "?y \<in> set (owned (heap st) b)" using A(2) Bb(2) by simp_all
  then have mem: "?x \<in># B" "?y \<in># B" using oa(1) ob(1) by blast+
  have e: "?x + int (k mod ?ss) = ?y + int (l mod ?ss)" using eq A(1) Bb(1) by simp
  have apart: "\<forall>x\<in>#B. \<forall>y\<in>#B. x < y \<longrightarrow> x + int ?ss \<le> y" using a by (simp add: live_def blocks_apart_def)
  have xy: "?x = ?y"
  proof (rule linorder_cases [of ?x ?y])
    assume "?x < ?y" then have "?x + int ?ss \<le> ?y" using apart mem by blast
    then show ?thesis using e A(3) by linarith
  next
    assume "?y < ?x" then have "?y + int ?ss \<le> ?x" using apart mem by blast
    then show ?thesis using e Bb(3) by linarith
  qed
  have ab: "a = b" using oa(3) [OF liveD(3) [OF b]] in' xy by auto
  then have "k div ?ss = l div ?ss" using xy A(2) Bb(2) oa(2) by (simp add: nth_eq_iff_index_eq)
  moreover have "k mod ?ss = l mod ?ss" using e xy by simp
  ultimately show ?thesis using ab by (metis div_mult_mod_eq)
qed

lemma live_frame_space:
  assumes "live st i B a" "k < unat (frame_len (hdrs (heap st) a))"
  shows "unat (headroom (hdrs (heap st) a)) + k < pkt_space (hdrs (heap st) a)"
  using packet_okD(7) [OF liveD(4) [OF assms(1)]] assms(2) unfolding pkt_space_def by linarith

lemma live_no_overlap:
  assumes a: "live st i B a" and b: "live st i B b" and ne: "a \<noteq> b"
    and "s + n \<le> unat (frame_len (hdrs (heap st) a))" "d + n \<le> unat (frame_len (hdrs (heap st) b))"
  shows "no_overlap (\<lambda>i. pkt_addr (hdrs (heap st) a) (s + i)) (\<lambda>i. pkt_addr (hdrs (heap st) b) (d + i)) n"
proof -
  have fa: "unat (headroom (hdrs (heap st) a)) + (s + k) < pkt_space (hdrs (heap st) a)" if "k < n" for k
    by (rule live_frame_space [OF a]) (use assms(4) that in simp)
  have fb: "unat (headroom (hdrs (heap st) b)) + (d + k) < pkt_space (hdrs (heap st) b)" if "k < n" for k
    by (rule live_frame_space [OF b]) (use assms(5) that in simp)
  have "inj_on (\<lambda>i. pkt_addr (hdrs (heap st) b) (d + i)) {..<n}"
    by (rule inj_onI) (use live_bytes_apart [OF b b fb fb] in \<open>fastforce simp: pkt_addr_def\<close>)
  moreover have "pkt_addr (hdrs (heap st) a) (s + k) \<noteq> pkt_addr (hdrs (heap st) b) (d + l)" if "k < n" "l < n" for k l
    using live_bytes_apart [OF a b fa [OF that(1)] fb [OF that(2)]] ne by (auto simp: pkt_addr_def)
  ultimately show ?thesis unfolding no_overlap_def by blast
qed

lemma live_pkt_addr_inj:
  assumes a: "live st i B a"
  shows "inj_on (pkt_addr (hdrs (heap st) a)) {..<unat (frame_len (hdrs (heap st) a))}"
proof (rule inj_onI)
  fix k l assume "k \<in> {..<unat (frame_len (hdrs (heap st) a))}" "l \<in> {..<unat (frame_len (hdrs (heap st) a))}"
    and e: "pkt_addr (hdrs (heap st) a) k = pkt_addr (hdrs (heap st) a) l"
  then have "unat (headroom (hdrs (heap st) a)) + k < pkt_space (hdrs (heap st) a)"
    "unat (headroom (hdrs (heap st) a)) + l < pkt_space (hdrs (heap st) a)"
    using live_frame_space [OF a] by auto
  from live_bytes_apart [OF a a this] e show "k = l" by (simp add: pkt_addr_def)
qed

text \<open>
  The fields of a header the pool relies on; every packet call leaves them alone, so the pool invariant survives.
\<close>

definition same_view :: "odp_buffer_hdr \<Rightarrow> odp_buffer_hdr \<Rightarrow> bool" where
  "same_view b c \<longleftrightarrow>
    bh_next b = bh_next c \<and> bh_handle b = bh_handle c \<and> bh_hdrdata b = bh_hdrdata c \<and> bh_allocator b = bh_allocator c \<and>
    bh_type b = bh_type c \<and> bh_size b = bh_size c \<and> bh_pool_hdl b = bh_pool_hdl c \<and>
    bh_segcount b = bh_segcount c \<and> bh_segsize b = bh_segsize c \<and> bh_addr b = bh_addr c"

lemma same_view_refl [simp]: "same_view b b"
  by (simp add: same_view_def)

lemma pool_at_same_view:
  assumes v: "\<And>x. same_view (bhdr (heap st') x) (bhdr (heap st) x)" and bn: "blk_next (heap st') = blk_next (heap st)"
    and t: "pool_tbl st' = pool_tbl st" "local_caches st' = local_caches st"
  shows "pool_at st' i B = pool_at st i B" "allocated_at st' i = allocated_at st i"
proof -
  have n: "hdr_next (heap st') = hdr_next (heap st)" "\<And>a. bh_allocator (bhdr (heap st') a) = bh_allocator (bhdr (heap st) a)"
    using v by (simp_all add: same_view_def fun_eq_iff)
  have ow: "owned (heap st') = owned (heap st)" "hdr_ok p (heap st') = hdr_ok p (heap st)"
    "size_ok p (heap st') = size_ok p (heap st)" for p
    using v by (simp_all add: same_view_def owned_def hdr_ok_def size_ok_def fun_eq_iff)
  show "pool_at st' i B = pool_at st i B"
    by (simp add: pool_at_def pool_inv_def pool_rep_def pool_core_def n ow bn t)
  show "allocated_at st' i = allocated_at st i" by (simp add: allocated_def n t)
qed

lemma heap_put [simp]:
  "hdrs (heap (put_hdr a h st)) = (hdrs (heap st))(a := h)" "mem (heap (put_hdr a h st)) = mem (heap st)"
  "blk_next (heap (put_hdr a h st)) = blk_next (heap st)" "pool_tbl (put_hdr a h st) = pool_tbl st"
  "local_caches (put_hdr a h st) = local_caches st"
  "hdrs (heap (put_mem m st)) = hdrs (heap st)" "mem (heap (put_mem m st)) = m"
  "blk_next (heap (put_mem m st)) = blk_next (heap st)" "pool_tbl (put_mem m st) = pool_tbl st"
  "local_caches (put_mem m st) = local_caches st"
  by (simp_all add: put_hdr_def put_mem_def upd_hdr_def)

lemma put_hdr_same [simp]: "put_hdr a (hdrs (heap st) a) st = st"
  by (simp add: put_hdr_def upd_hdr_def)

lemma put_hdr_again: "put_hdr a h (put_hdr a h' st) = put_hdr a h st"
  by (simp add: put_hdr_def upd_hdr_def)

lemma live_put_hdr:
  assumes "live st i B a" "same_view (buf_hdr h) (bhdr (heap st) b)" "b = a \<longrightarrow> packet_ok h"
  shows "live (put_hdr b h st) i B a"
proof -
  have "same_view (bhdr (heap (put_hdr b h st)) x) (bhdr (heap st) x)" for x using assms(2) by simp
  note this pool_at_same_view [of "put_hdr b h st" st, OF this]
  then show ?thesis using assms by (auto simp: live_def)
qed

lemma live_put_mem: "live st i B a \<Longrightarrow> live (put_mem m st) i B a"
  using pool_at_same_view [of "put_mem m st" st] by (simp add: live_def)

lemma packet_hdr_addr_put [simp]:
  "packet_hdr_addr (put_hdr a h st) = packet_hdr_addr st" "packet_hdr_addr (put_mem m st) = packet_hdr_addr st"
  by (simp_all add: fun_eq_iff packet_hdr_addr_def odp_buf_to_hdr_def get_pool_entry_def)

lemma on_hdr_live:
  assumes "live st i B a" "f (hdrs (heap st) a) len = Inr (p, h)"
  shows "on_hdr f st (handle_of st a) len = Inr (p, put_hdr a h st)"
  using assms(2) liveD(5) [OF assms(1)] by (simp add: on_hdr_def)

lemma packet_bytes_shift:
  assumes "unat (frame_len h') = n + unat (frame_len h)" "\<And>i. pkt_addr h' (n + i) = pkt_addr h i"
  shows "drop n (packet_bytes m h') = packet_bytes m h"
  using assms by (intro nth_equalityI) (simp_all add: nth_packet_bytes)

lemma packet_bytes_prefix:
  assumes "unat (frame_len h) \<le> unat (frame_len h')" "\<And>i. pkt_addr h' i = pkt_addr h i"
  shows "take (unat (frame_len h)) (packet_bytes m h') = packet_bytes m h"
  using assms by (intro nth_equalityI) (simp_all add: nth_packet_bytes)

section \<open>Properties of head and tail\<close>

text \<open>
  C9: Extending a packet. \<open>odp_packet_push_head\<close> and \<open>odp_packet_push_tail\<close> refuse more bytes than the headroom or the
  tailroom has, returning a null pointer and changing nothing; otherwise the packet stays well formed, its old data
  follows (precedes) the new bytes, the returned pointer is the address of the first new byte, and
  pulling the same number of bytes gives undo exactly the state before.
\<close>

theorem odp_packet_push_correct:
  assumes a: "live st i B a" and f: "0 < frame_len (hdrs (heap st) a)" and l: "0 < len"
  defines "h \<equiv> hdrs (heap st) a" and "pkt \<equiv> handle_of st a" and "m \<equiv> mem (heap st)"
  shows "(if len > headroom h then odp_packet_push_head st pkt len = Inr (NULL, st)
      else \<exists>h'. odp_packet_push_head st pkt len = Inr (pkt_addr h' 0, put_hdr a h' st) \<and>
        live (put_hdr a h' st) i B a \<and> drop (unat len) (packet_bytes m h') = packet_bytes m h \<and>
        unat (frame_len h') = unat len + unat (frame_len h) \<and>
        odp_packet_pull_head (put_hdr a h' st) pkt len = Inr (pkt_addr h 0, st)) \<and>
    (if len > tailroom h then odp_packet_push_tail st pkt len = Inr (NULL, st)
      else \<exists>h'. odp_packet_push_tail st pkt len = Inr (pkt_addr h' (unat (frame_len h)), put_hdr a h' st) \<and>
        live (put_hdr a h' st) i B a \<and> take (unat (frame_len h)) (packet_bytes m h') = packet_bytes m h \<and>
        unat (frame_len h') = unat (frame_len h) + unat len \<and>
        odp_packet_pull_tail (put_hdr a h' st) pkt len = Inr (pkt_addr h' (unat (frame_len h)), st))" (is "?Head \<and> ?Tail")
proof
  have ok: "packet_ok h" and f': "0 < unat (frame_len h)" and l': "0 < unat len"
    using liveD(4) [OF a] f l by (simp_all add: h_def word_less_nat_alt)
  show ?Head
  proof (cases "len > headroom h")
    case True
    then show ?thesis using on_hdr_live [OF a, of hdr_push_head len NULL h]
      by (simp add: hdr_push_head_def odp_packet_push_head_def pkt_def h_def)
  next
    case False
    let ?h = "push_head h len"
    have up: "hdr_push_head h len = Inr (pkt_addr ?h 0, ?h)" "packet_ok ?h"
      "unat (frame_len ?h) = unat (frame_len h) + unat len" "\<And>i. pkt_addr ?h (unat len + i) = pkt_addr h i"
      using hdr_push_head_ok [OF ok, of len] False f' by auto
    have live: "live (put_hdr a ?h st) i B a" by (rule live_put_hdr [OF a]) (use up(2) in \<open>simp_all add: push_head_def h_def\<close>)
    have undo: "pull_head ?h len = h" by (simp add: push_head_def pull_head_def)
    have "len < frame_len ?h" using up(3) f' by (simp add: word_less_nat_alt)
    then have "hdr_pull_head ?h len = Inr (pkt_addr h 0, h)"
      using hdr_pull_head_ok [OF up(2), of len] up(4) [of 0] undo by simp
    then have "odp_packet_pull_head (put_hdr a ?h st) pkt len = Inr (pkt_addr h 0, st)"
      using on_hdr_live [OF live, of hdr_pull_head len] by (simp add: odp_packet_pull_head_def pkt_def put_hdr_again push_head_def h_def)
    moreover have "odp_packet_push_head st pkt len = Inr (pkt_addr ?h 0, put_hdr a ?h st)"
      using on_hdr_live [OF a] up(1) by (simp add: odp_packet_push_head_def pkt_def h_def)
    ultimately show ?thesis using False live up packet_bytes_shift [of ?h "unat len" h m] by auto
  qed
  show ?Tail
  proof (cases "len > tailroom h")
    case True
    then show ?thesis using on_hdr_live [OF a, of hdr_push_tail len NULL h]
      by (simp add: hdr_push_tail_def odp_packet_push_tail_def pkt_def h_def)
  next
    case False
    let ?h = "push_tail h len"
    have up: "hdr_push_tail h len = Inr (pkt_addr ?h (unat (frame_len h)), ?h)" "packet_ok ?h"
      "unat (frame_len ?h) = unat (frame_len h) + unat len" "\<And>i. pkt_addr ?h i = pkt_addr h i"
      using hdr_push_tail_ok [OF ok, of len] False l by auto
    have live: "live (put_hdr a ?h st) i B a" by (rule live_put_hdr [OF a]) (use up(2) in \<open>simp_all add: push_tail_def h_def\<close>)
    have undo: "pull_tail ?h len = h" by (simp add: push_tail_def pull_tail_def)
    have "len \<le> frame_len ?h" using up(3) by (simp add: word_le_nat_alt)
    then have "hdr_pull_tail ?h len = Inr (pkt_addr ?h (unat (frame_len h)), h)"
      using hdr_pull_tail_ok [OF up(2), of len] up(3) l undo by simp
    then have "odp_packet_pull_tail (put_hdr a ?h st) pkt len = Inr (pkt_addr ?h (unat (frame_len h)), st)"
      using on_hdr_live [OF live, of hdr_pull_tail len] by (simp add: odp_packet_pull_tail_def pkt_def put_hdr_again push_tail_def h_def)
    moreover have "odp_packet_push_tail st pkt len = Inr (pkt_addr ?h (unat (frame_len h)), put_hdr a ?h st)"
      using on_hdr_live [OF a] up(1,4) by (simp add: odp_packet_push_tail_def pkt_def h_def)
    ultimately show ?thesis using False live up packet_bytes_prefix [of h ?h m] by (auto intro!: exI [of _ ?h])
  qed
qed

text \<open>
  Trimming a packet. \<open>odp_packet_pull_head\<close> and \<open>odp_packet_pull_tail\<close> refuse more bytes than the packet has,
  returning a null pointer and changing nothing; otherwise exactly the first (last) \<open>len\<close> bytes of the data are gone, they
  are headroom (tailroom) now, and the returned pointer is the address of the new first byte (of the first
  byte after the data).
\<close>

theorem odp_packet_pull_correct:
  assumes a: "live st i B a" and l: "0 < len" "len \<noteq> frame_len (hdrs (heap st) a)"
  defines "h \<equiv> hdrs (heap st) a" and "pkt \<equiv> handle_of st a" and "m \<equiv> mem (heap st)"
  shows "if len > frame_len h
    then odp_packet_pull_head st pkt len = Inr (NULL, st) \<and> odp_packet_pull_tail st pkt len = Inr (NULL, st)
    else \<exists>hh ht.
      odp_packet_pull_head st pkt len = Inr (pkt_addr h (unat len), put_hdr a hh st) \<and> live (put_hdr a hh st) i B a \<and>
      packet_bytes m hh = drop (unat len) (packet_bytes m h) \<and> unat (headroom hh) = unat (headroom h) + unat len \<and>
      odp_packet_pull_tail st pkt len = Inr (pkt_addr ht (unat (frame_len ht)), put_hdr a ht st) \<and> live (put_hdr a ht st) i B a \<and>
      packet_bytes m ht = take (unat (frame_len h) - unat len) (packet_bytes m h) \<and>
      unat (tailroom ht) = unat (tailroom h) + unat len"
proof (cases "len > frame_len h")
  case True
  then show ?thesis using on_hdr_live [OF a, of hdr_pull_head len NULL h] on_hdr_live [OF a, of hdr_pull_tail len NULL h]
    by (simp add: hdr_pull_head_def hdr_pull_tail_def odp_packet_pull_head_def odp_packet_pull_tail_def pkt_def h_def)
next
  case False
  have ok: "packet_ok h" using liveD(4) [OF a] by (simp add: h_def)
  have lt: "len < frame_len h" using False l(2) by (simp add: h_def)
  let ?hh = "pull_head h len" and ?ht = "pull_tail h len"
  note H = hdr_pull_head_ok [OF ok lt]
  note T = hdr_pull_tail_ok [OF ok order_less_imp_le [OF lt] l(1)]
  have live: "live (put_hdr a ?hh st) i B a" "live (put_hdr a ?ht st) i B a"
    by (rule live_put_hdr [OF a]; use H T in \<open>simp add: pull_head_def pull_tail_def h_def\<close>)+
  have b: "packet_bytes m ?hh = drop (unat len) (packet_bytes m h)"
    using H lt by (intro packet_bytes_shift [symmetric]) (auto simp: word_less_nat_alt)
  have "packet_bytes m ?ht = take (unat (frame_len ?ht)) (packet_bytes m h)"
    by (rule packet_bytes_prefix [symmetric]) (use T in auto)
  then have t: "packet_bytes m ?ht = take (unat (frame_len h) - unat len) (packet_bytes m h)" using T by simp
  have e: "odp_packet_pull_head st pkt len = Inr (pkt_addr h (unat len), put_hdr a ?hh st)"
    "odp_packet_pull_tail st pkt len = Inr (pkt_addr ?ht (unat (frame_len ?ht)), put_hdr a ?ht st)"
    using on_hdr_live [OF a, of hdr_pull_head] on_hdr_live [OF a, of hdr_pull_tail] H T
    by (simp_all add: odp_packet_pull_head_def odp_packet_pull_tail_def pkt_def h_def)
  show ?thesis
    unfolding if_not_P [OF False] by (rule exI [of _ ?hh], rule exI [of _ ?ht]) (use e live b t H T in simp)
qed

section \<open>Properties of the copies\<close>

lemma no_wrap_test:
  "unat offset + unat len \<le> unat (frame_len h) \<Longrightarrow> \<not> offset + len > frame_len h"
  using unat_add_in_frame [of len len offset "frame_len h"] by (simp add: word_less_nat_alt)

lemma packet_bytes_cong:
  "(\<And>i. i < unat (frame_len h) \<Longrightarrow> m' (pkt_addr h i) = m (pkt_addr h i)) \<Longrightarrow> packet_bytes m' h = packet_bytes m h"
  by (simp add: packet_bytes_addr)

lemma moved_into_packet:
  assumes mv: "moved m m' src (\<lambda>i. pkt_addr h (off + i)) n" and fit: "off + n \<le> unat (frame_len h)"
    and inj: "inj_on (pkt_addr h) {..<unat (frame_len h)}"
  shows "packet_bytes m' h = overwrite off (map (\<lambda>i. m (src i)) [0..<n]) (packet_bytes m h)"
proof (rule nth_equalityI)
  fix i assume "i < length (packet_bytes m' h)"
  then have i: "i < unat (frame_len h)" by simp
  show "packet_bytes m' h ! i = overwrite off (map (\<lambda>i. m (src i)) [0..<n]) (packet_bytes m h) ! i"
  proof (cases "off \<le> i \<and> i < off + n")
    case True
    then have io: "i - off < n" by linarith
    then have "m' (pkt_addr h (off + (i - off))) = m (src (i - off))" using mv unfolding moved_def by blast
    then show ?thesis using True io i fit by (simp add: nth_overwrite nth_packet_bytes)
  next
    case False
    have "pkt_addr h i \<noteq> pkt_addr h (off + k)" if "k < n" for k
      using inj_onD [OF inj, of i "off + k"] i that fit False by auto
    then have "pkt_addr h i \<notin> (\<lambda>i. pkt_addr h (off + i)) ` {..<n}" by auto
    then have "m' (pkt_addr h i) = m (pkt_addr h i)" using mv by (simp add: moved_def)
    then show ?thesis using False i fit by (auto simp: nth_overwrite nth_packet_bytes)
  qed
qed (use fit in simp)

lemma window_apart:
  assumes "\<forall>k < F. p k \<notin> {d..<d + int n}" "off + n \<le> F" "k < n" "l < n"
  shows "p (off + k) \<noteq> d + int l"
proof -
  have "off + k < F" using assms(2,3) by simp
  then have "p (off + k) \<notin> {d..<d + int n}" using assms(1) by blast
  then show ?thesis using assms(4) by auto
qed

text \<open>
  C10: Copying out. For a window inside the packet and a destination outside its frame,
  \<open>odp_packet_copydata_out\<close> ends, returns 0, puts exactly the bytes of the window at the destination, whatever segments
  they are spread over, and changes nothing else.
\<close>

theorem odp_packet_copydata_out_correct:
  assumes a: "live st i B a" and w: "unat offset + unat len \<le> unat (frame_len (hdrs (heap st) a))"
    and dst: "\<forall>k < unat (frame_len (hdrs (heap st) a)). pkt_addr (hdrs (heap st) a) k \<notin> {dst..<dst + int (unat len)}"
  shows "\<exists>m'. odp_packet_copydata_out st (handle_of st a) offset len dst = Some (Inr (0, put_mem m' st)) \<and>
    load_bytes m' dst (unat len) =
      take (unat len) (drop (unat offset) (packet_bytes (mem (heap st)) (hdrs (heap st) a))) \<and>
    (\<forall>x. x \<notin> {dst..<dst + int (unat len)} \<longrightarrow> m' x = mem (heap st) x)"
proof -
  let ?h = "hdrs (heap st) a" let ?m = "mem (heap st)"
  have "no_overlap (\<lambda>i. pkt_addr ?h (unat offset + i)) (\<lambda>i. dst + int i) (unat len)"
    using window_apart [OF dst w] by (auto simp: no_overlap_def inj_on_def)
  from copydata_out_loop_ok [OF liveD(4) [OF a] w this] obtain m' where
    m': "copydata_out_loop ?h ?m offset len 0 dst = Some (Inr m')"
      "moved ?m m' (\<lambda>i. pkt_addr ?h (unat offset + i)) (\<lambda>i. dst + int i) (unat len)" by blast
  have "odp_packet_copydata_out st (handle_of st a) offset len dst = Some (Inr (0, put_mem m' st))"
    using liveD(5) [OF a] no_wrap_test [OF w] m'(1) by (simp add: odp_packet_copydata_out_def Let_def)
  moreover have "load_bytes m' dst (unat len) = take (unat len) (drop (unat offset) (packet_bytes ?m ?h))"
    using m'(2) w by (intro nth_equalityI) (auto simp: moved_def nth_packet_bytes simp del: of_nat_unat)
  moreover have "m' x = ?m x" if "x \<notin> {dst..<dst + int (unat len)}" for x
  proof -
    have "x \<notin> (\<lambda>i. dst + int i) ` {..<unat len}" using that by (auto simp del: of_nat_unat)
    then show ?thesis using m'(2) by (simp add: moved_def)
  qed
  ultimately show ?thesis by blast
qed

text \<open>
  C11: Copying in. For a window inside the packet and a source outside its frame, \<open>odp_packet_copydata_in\<close> ends,
  returns 0, replaces exactly the bytes of the window by those of the source and changes no byte outside the frame.
\<close>

theorem odp_packet_copydata_in_correct:
  assumes a: "live st i B a" and w: "unat offset + unat len \<le> unat (frame_len (hdrs (heap st) a))"
    and src: "\<forall>k < unat (frame_len (hdrs (heap st) a)). pkt_addr (hdrs (heap st) a) k \<notin> {src..<src + int (unat len)}"
  shows "\<exists>m'. odp_packet_copydata_in st (handle_of st a) offset len src = Some (Inr (0, put_mem m' st)) \<and>
    packet_bytes m' (hdrs (heap st) a) =
      overwrite (unat offset) (load_bytes (mem (heap st)) src (unat len)) (packet_bytes (mem (heap st)) (hdrs (heap st) a)) \<and>
    (\<forall>x. x \<notin> pkt_addr (hdrs (heap st) a) ` {..<unat (frame_len (hdrs (heap st) a))} \<longrightarrow> m' x = mem (heap st) x)"
proof -
  let ?h = "hdrs (heap st) a" let ?m = "mem (heap st)"
  note inj = live_pkt_addr_inj [OF a]
  have "inj_on (\<lambda>i. pkt_addr ?h (unat offset + i)) {..<unat len}"
    by (rule inj_onI) (use inj_onD [OF inj] w in fastforce)
  then have "no_overlap (\<lambda>i. src + int i) (\<lambda>i. pkt_addr ?h (unat offset + i)) (unat len)"
    using window_apart [OF src w] by (fastforce simp: no_overlap_def)
  from copydata_in_loop_ok [OF liveD(4) [OF a] w this] obtain m' where
    m': "copydata_in_loop ?h ?m offset len 0 src = Some (Inr m')"
      "moved ?m m' (\<lambda>i. src + int i) (\<lambda>i. pkt_addr ?h (unat offset + i)) (unat len)" by blast
  have "odp_packet_copydata_in st (handle_of st a) offset len src = Some (Inr (0, put_mem m' st))"
    using liveD(5) [OF a] no_wrap_test [OF w] m'(1) by (simp add: odp_packet_copydata_in_def Let_def)
  moreover have "packet_bytes m' ?h = overwrite (unat offset) (load_bytes ?m src (unat len)) (packet_bytes ?m ?h)"
    using moved_into_packet [OF m'(2) w inj] by (simp add: load_bytes_def)
  moreover have "m' x = ?m x" if "x \<notin> pkt_addr ?h ` {..<unat (frame_len ?h)}" for x
  proof -
    have "x \<notin> (\<lambda>i. pkt_addr ?h (unat offset + i)) ` {..<unat len}" using that w by auto
    then show ?thesis using m'(2) by (simp add: moved_def)
  qed
  ultimately show ?thesis by blast
qed

text \<open>
  Copying between two live packets of a pool; used below for the calls that replace a packet by a longer or shorter one.
\<close>

lemma copy_to_packet_live:
  assumes a: "live st i B a" and b: "live st i B b" and ne: "a \<noteq> b"
    and w: "unat so + unat len \<le> unat (frame_len (hdrs (heap st) a))" "unat dof + unat len \<le> unat (frame_len (hdrs (heap st) b))"
  defines "ha \<equiv> hdrs (heap st) a" and "hb \<equiv> hdrs (heap st) b" and "m \<equiv> mem (heap st)"
  obtains m' where
    "odp_packet_copy_to_packet st (handle_of st a) so (handle_of st b) dof len = Some (Inr (0, put_mem m' st))"
    "packet_bytes m' hb = overwrite (unat dof) (take (unat len) (drop (unat so) (packet_bytes m ha))) (packet_bytes m hb)"
    "\<And>x. x \<notin> pkt_addr hb ` {..<unat (frame_len hb)} \<Longrightarrow> m' x = m x"
proof -
  note no = live_no_overlap [OF a b ne w, folded ha_def hb_def]
  obtain m' where m': "copy_to_packet_loop ha hb m so dof len 0 0 = Some (Inr m')"
    "moved m m' (\<lambda>i. pkt_addr ha (unat so + i)) (\<lambda>i. pkt_addr hb (unat dof + i)) (unat len)"
    using copy_to_packet_loop_ok [OF liveD(4) [OF a] liveD(4) [OF b] w] no unfolding ha_def hb_def by blast
  have w': "unat so + unat len \<le> unat (frame_len ha)" "unat dof + unat len \<le> unat (frame_len hb)"
    using w by (simp_all add: ha_def hb_def)
  have "odp_packet_copy_to_packet st (handle_of st a) so (handle_of st b) dof len = Some (Inr (0, put_mem m' st))"
    using liveD(5) [OF a] liveD(5) [OF b] no_wrap_test [OF w'(1)] no_wrap_test [OF w'(2)] m'(1)
    by (simp add: odp_packet_copy_to_packet_def Let_def ha_def hb_def m_def)
  moreover have "map (\<lambda>i. m (pkt_addr ha (unat so + i))) [0..<unat len] = take (unat len) (drop (unat so) (packet_bytes m ha))"
    using w' by (intro nth_equalityI) (simp_all add: nth_packet_bytes)
  then have "packet_bytes m' hb = overwrite (unat dof) (take (unat len) (drop (unat so) (packet_bytes m ha))) (packet_bytes m hb)"
    using moved_into_packet [OF m'(2) w'(2)] live_pkt_addr_inj [OF b] by (simp add: hb_def)
  moreover have "m' x = m x" if "x \<notin> pkt_addr hb ` {..<unat (frame_len hb)}" for x
  proof -
    have "x \<notin> (\<lambda>i. pkt_addr hb (unat dof + i)) ` {..<unat len}" using that w' by auto
    then show ?thesis using m'(2) by (simp add: moved_def)
  qed
  ultimately show thesis by (rule that)
qed

lemma packet_bytes_elsewhere:
  assumes a: "live st i B a" and b: "live st i B b" and ne: "a \<noteq> b"
    and m': "\<And>x. x \<notin> pkt_addr (hdrs (heap st) b) ` {..<unat (frame_len (hdrs (heap st) b))} \<Longrightarrow> m' x = m x"
  shows "packet_bytes m' (hdrs (heap st) a) = packet_bytes m (hdrs (heap st) a)"
proof (rule packet_bytes_cong, rule m')
  fix k assume k: "k < unat (frame_len (hdrs (heap st) a))"
  have "pkt_addr (hdrs (heap st) a) k \<noteq> pkt_addr (hdrs (heap st) b) l" if "l < unat (frame_len (hdrs (heap st) b))" for l
    using live_bytes_apart [OF a b live_frame_space [OF a k] live_frame_space [OF b that]] ne by (auto simp: pkt_addr_def)
  then show "pkt_addr (hdrs (heap st) a) k \<notin> pkt_addr (hdrs (heap st) b) ` {..<unat (frame_len (hdrs (heap st) b))}" by auto
qed

section \<open>Adding and removing data\<close>

lemma live_mono:
  assumes "live st i B a" "pool_at st' i B" "pool_same (pool_tbl st' ! i) (pool_tbl st ! i)"
    and "hdrs (heap st') a = hdrs (heap st) a" "a \<in> allocated_at st' i"
  shows "live st' i B a"
  using assms by (simp add: live_def pool_same_def)

lemma live_handle_valid: "live st i B a \<Longrightarrow> handle_of st a \<noteq> ODP_PACKET_INVALID"
proof
  assume a: "live st i B a" "handle_of st a = ODP_PACKET_INVALID"
  have "bits_seg (handle_of st a) = 0" using hdr_handle [OF liveD(1,3) [OF a(1)]] by metis
  then have "bits_seg (0xffffffff :: u32) = 0" using a(2) by (simp add: ODP_PACKET_INVALID_def)
  then show False by (simp add: bits_seg_def)
qed

lemma packet_buffer_alloc_at:
  assumes at: "pool_at st i B" and ap: "blocks_apart (pl_seg_size (pool_tbl st ! i)) B"
    and ty: "pp_type (pl_params (pool_tbl st ! i)) = ODP_POOL_PACKET"
  obtains pkt st' where "buffer_alloc tid (of_nat i) (ucast (n :: u32)) st = Inr (pkt, st')"
    "mem (heap st') = mem (heap st)" "\<And>a. live st i B a \<Longrightarrow> live st' i B a \<and> hdrs (heap st') a = hdrs (heap st) a"
    "pkt = ODP_PACKET_INVALID \<and> allocated_at st' i = allocated_at st i \<or>
     (\<exists>b. pkt = handle_of st' b \<and> live st' i B b \<and> allocated_at st' i = insert b (allocated_at st i) \<and>
       b \<notin> allocated_at st i \<and> frame_len (hdrs (heap st') b) = n \<and>
       headroom (hdrs (heap st') b) = pl_headroom (pool_tbl st ! i))"
proof -
  note d = pool_atD [OF at]
  have u: "unat (ucast n :: u64) < 2 ^ 32" "(ucast (ucast n :: u64) :: u32) = n"
    by (simp_all add: unsigned_ucast_eq take_bit_nat_eq_self order_less_trans [OF unat_u32_bound] take_bit_word_eq_self)
  obtain r cache' pool' hp' where post: "alloc_post (pool_tbl st ! i) (heap st) (ucast n) r pool' hp'"
    and at': "pool_at (put_pool tid i cache' pool' hp' st) i B"
    and e: "buffer_alloc tid (of_nat i) (ucast n) st =
      Inr (case r of None \<Rightarrow> ODP_BUFFER_INVALID | Some a \<Rightarrow> bh_handle (bhdr hp' a), put_pool tid i cache' pool' hp' st)"
    by (rule buffer_alloc_at [OF at u(1)])
  let ?st' = "put_pool tid i cache' pool' hp' st"
  have s: "pool_tbl ?st' ! i = pool'" "heap ?st' = hp'" using d(2) by (simp_all add: put_pool_def)
  have ps: "pool_same pool' (pool_tbl st ! i)" "mem hp' = mem (heap st)"
    "\<forall>x\<in>allocated_at st i. hdrs hp' x = hdrs (heap st) x" using post by (simp_all add: alloc_post_def)
  have keep: "live ?st' i B a \<and> hdrs (heap ?st') a = hdrs (heap st) a" if a: "live st i B a" for a
    using live_mono [OF a at'] liveD(2) [OF a] ps(1,3) post s
    by (auto simp: alloc_post_def split: option.splits)
  show thesis
  proof (cases r)
    case None
    show thesis
      by (rule that [OF e _ keep]) (use None post ps s in \<open>auto simp: alloc_post_def ODP_PACKET_INVALID_def ODP_BUFFER_INVALID_def\<close>)
  next
    case (Some b)
    have "live ?st' i B b"
      using post at' ap ty s ps(1) Some unfolding live_def by (auto simp: alloc_post_def pool_same_def)
    then show thesis
      by (intro that [OF e _ keep]) (use Some post ps s u(2) ty in \<open>auto simp: alloc_post_def\<close>)
  qed
qed

text \<open>
  An empty packet is a buffer of the default size whose tail is pulled. What holds of the packets of the pool and of their user areas holds
  after the allocation of a packet of any length.
\<close>

lemma odp_packet_alloc_at:
  assumes at: "pool_at st i B" and ap: "blocks_apart (pl_seg_size (pool_tbl st ! i)) B"
    and ty: "pp_type (pl_params (pool_tbl st ! i)) = ODP_POOL_PACKET"
  obtains pkt st' where "odp_packet_alloc tid (of_nat i) n st = Inr (pkt, st')"
    "mem (heap st') = mem (heap st)" "\<And>a. live st i B a \<Longrightarrow> live st' i B a \<and> hdrs (heap st') a = hdrs (heap st) a"
    "pkt = ODP_PACKET_INVALID \<and> allocated_at st' i = allocated_at st i \<or>
     (\<exists>b. pkt = handle_of st' b \<and> live st' i B b \<and> allocated_at st' i = insert b (allocated_at st i) \<and>
       b \<notin> allocated_at st i \<and> frame_len (hdrs (heap st') b) = n \<and>
       headroom (hdrs (heap st') b) = pl_headroom (pool_tbl st ! i))"
proof -
  note d = pool_atD [OF at]
  let ?s = "pp_size_len (pl_params (pool_tbl st ! i))" let ?n = "if n = 0 then ?s else n"
  obtain pkt st' where al: "buffer_alloc tid (of_nat i) (ucast ?n) st = Inr (pkt, st')"
    "mem (heap st') = mem (heap st)" "\<And>a. live st i B a \<Longrightarrow> live st' i B a \<and> hdrs (heap st') a = hdrs (heap st) a"
    "pkt = ODP_PACKET_INVALID \<and> allocated_at st' i = allocated_at st i \<or>
     (\<exists>b. pkt = handle_of st' b \<and> live st' i B b \<and> allocated_at st' i = insert b (allocated_at st i) \<and>
       b \<notin> allocated_at st i \<and> frame_len (hdrs (heap st') b) = ?n \<and>
       headroom (hdrs (heap st') b) = pl_headroom (pool_tbl st ! i))"
    by (rule packet_buffer_alloc_at [OF at ap ty, of tid ?n]) blast
  have entry: "odp_pool_to_entry st (of_nat i) = Inr (pool_tbl st ! i)" using d(3,4) by (simp add: odp_pool_to_entry_def pool_handle_to_index_def)
  have valid: "handle_of st' b \<noteq> ODP_PACKET_INVALID" if "live st' i B b" for b using live_handle_valid [OF that] .
  show thesis
  proof (cases "n = 0 \<and> pkt \<noteq> ODP_PACKET_INVALID")
    case False
    then have "odp_packet_alloc tid (of_nat i) n st = Inr (pkt, st')" using al(1) ty entry by (auto simp: odp_packet_alloc_def)
    then show thesis by (rule that) (use al(2-4) False valid in auto)
  next
    case True
    then obtain b where b: "pkt = handle_of st' b" "live st' i B b" "allocated_at st' i = insert b (allocated_at st i)"
      "b \<notin> allocated_at st i" "frame_len (hdrs (heap st') b) = ?s" "headroom (hdrs (heap st') b) = pl_headroom (pool_tbl st ! i)" using al(4) by auto
    let ?h = "pull_tail (hdrs (heap st') b) ?s" let ?st = "put_hdr b ?h st'"
    have e: "odp_packet_alloc tid (of_nat i) n st = Inr (pkt, ?st)" using al(1) ty entry True b(1) liveD(5) [OF b(2)] by (simp add: odp_packet_alloc_def)
    have ok: "packet_ok ?h"
      using hdr_pull_tail_ok [OF liveD(4) [OF b(2)], of ?s] liveD(4) [OF b(2)] b(5) by (cases "?s = 0") (auto simp: pull_tail_def word_gt_0 packet_ok_def)
    have live: "live ?st i B c" if "live st' i B c" for c by (rule live_put_hdr [OF that]) (use ok in \<open>auto simp: pull_tail_def\<close>)
    have ne: "c \<noteq> b" if "live st i B c" for c using liveD(2) [OF that] b(4) by auto
    have "allocated_at ?st i = allocated_at st' i" by (auto simp: allocated_def pull_tail_def)
    moreover have "hdrs (heap ?st) b = ?h" "handle_of ?st b = pkt" using b(1) by (simp_all add: pull_tail_def)
    moreover have "frame_len ?h = n" "headroom ?h = pl_headroom (pool_tbl st ! i)" using True b(5,6) by (simp_all add: pull_tail_def)
    ultimately have "\<exists>b. pkt = handle_of ?st b \<and> live ?st i B b \<and> allocated_at ?st i = insert b (allocated_at st i) \<and>
       b \<notin> allocated_at st i \<and> frame_len (hdrs (heap ?st) b) = n \<and> headroom (hdrs (heap ?st) b) = pl_headroom (pool_tbl st ! i)"
      using b(3,4) live [OF b(2)] by metis
    then show thesis by (intro that [OF e]) (use al(2,3) live ne in simp_all)
  qed
qed

lemma odp_packet_free_live:
  assumes a: "live st i B a"
  obtains st' where "odp_packet_free tid (handle_of st a) st = Inr st'" "pool_at st' i B"
    "allocated_at st' i = allocated_at st i - {a}" "mem (heap st') = mem (heap st)"
    "\<And>b. live st i B b \<Longrightarrow> b \<noteq> a \<Longrightarrow> live st' i B b \<and> hdrs (heap st') b = hdrs (heap st) b"
proof -
  obtain st' where f: "odp_buffer_free tid (handle_of st a) st = Inr st'" "pool_at st' i B"
    "pool_same (pool_tbl st' ! i) (pool_tbl st ! i)" "allocated_at st' i = allocated_at st i - {a}"
    "mem (heap st') = mem (heap st)" "\<forall>x. x \<noteq> a \<longrightarrow> hdrs (heap st') x = hdrs (heap st) x"
    using odp_buffer_free_at [OF liveD(1,2) [OF a]] by blast
  have "live st' i B b \<and> hdrs (heap st') b = hdrs (heap st) b" if "live st i B b" "b \<noteq> a" for b
    using live_mono [OF that(1) f(2,3)] f(4,6) liveD(2) [OF that(1)] that(2) by auto
  with f(1) show thesis by (intro that [OF _ f(2,4,5)]) (auto simp: odp_packet_free_def)
qed

lemma same_view_copy_md [simp]:
  "same_view (buf_hdr (copy_md s d)) (buf_hdr d)" "headroom (copy_md s d) = headroom d"
  "frame_len (copy_md s d) = frame_len d" "tailroom (copy_md s d) = tailroom d"
  by (simp_all add: copy_md_def same_view_def copy_packet_parser_metadata_def)

lemma same_view_pkt:
  assumes "same_view (buf_hdr h) (buf_hdr h')" "headroom h = headroom h'" "frame_len h = frame_len h'" "tailroom h = tailroom h'"
  shows "packet_ok h = packet_ok h'" "packet_bytes m h = packet_bytes m h'"
  using assms by (auto simp: same_view_def packet_ok_def packet_bytes_def byte_addr_def)

text \<open>The metadata a packet keeps when it is replaced.\<close>

definition inherits :: "odp_packet_hdr \<Rightarrow> odp_packet_hdr \<Rightarrow> bool" where
  "inherits src dst \<longleftrightarrow> pkt_input dst = pkt_input src \<and> bh_buf_u64 (buf_hdr dst) = bh_buf_u64 (buf_hdr src) \<and>
    input_flags dst = input_flags src \<and> error_flags dst = error_flags src \<and>
    l2_offset dst = l2_offset src \<and> l3_offset dst = l3_offset src \<and> l4_offset dst = l4_offset src"

lemma inherits_copy_md: "inherits s (copy_md s d)"
  by (simp add: inherits_def copy_md_def copy_packet_parser_metadata_def)

text \<open>User areas: no byte of a packet is in one, and what copying one changes.\<close>

definition uarea_bytes :: "memory \<Rightarrow> odp_packet_hdr \<Rightarrow> u8 list" where
  "uarea_bytes m h = load_bytes m (bh_uarea_addr (buf_hdr h)) (unat (bh_uarea_size (buf_hdr h)))"

lemma frame_off_uarea:
  assumes a: "live st i B a" and k: "k < unat (frame_len (hdrs (heap st) a))"
    and ua: "uareas_apart st i B" and x: "x \<in> set (hdr_list (pool_tbl st ! i))"
  shows "pkt_addr (hdrs (heap st) a) k \<notin> uarea_span (heap st) x"
proof -
  let ?ss = "unat (pl_seg_size (pool_tbl st ! i))"
  note L = live_byte [OF a live_frame_space [OF a k]]
  obtain l bl where r: "pool_rep {} (pool_tbl st ! i) (heap st) (\<lambda>t. local_caches st t i) l bl B"
    using pool_atD(7) [OF liveD(1) [OF a]] by (auto simp: pool_inv_def)
  let ?p = "owned (heap st) a ! ((unat (headroom (hdrs (heap st) a)) + k) div ?ss)"
  have "?p \<in># B" using owned_apart(1) [OF r liveD(3) [OF a]] nth_mem [OF L(2)] by blast
  then have "uarea_span (heap st) x \<inter> {?p..<?p + int ?ss} = {}" using ua x unfolding uareas_apart_def by blast
  moreover have "pkt_addr (hdrs (heap st) a) k \<in> {?p..<?p + int ?ss}"
    unfolding pkt_addr_def L(1) using L(3) by (simp del: of_nat_unat)
  ultimately show ?thesis by blast
qed

lemma copy_uarea_frame: "x \<notin> uarea_span hp b \<Longrightarrow> copy_uarea s (hdrs hp b) m x = m x"
  by (auto simp: copy_uarea_def Let_def memcpy_def uarea_span_def uarea_def word_le_nat_alt simp del: of_nat_unat intro!: store_bytes_out)

lemma copy_uarea_bytes:
  assumes "bh_uarea_addr (buf_hdr s) \<noteq> NULL" "bh_uarea_addr (buf_hdr d) \<noteq> NULL"
    and n: "n = min (unat (bh_uarea_size (buf_hdr s))) (unat (bh_uarea_size (buf_hdr d)))"
  shows "take n (uarea_bytes (copy_uarea s d m) d) = take n (uarea_bytes m s)"
proof -
  have "(if bh_uarea_size (buf_hdr d) \<le> bh_uarea_size (buf_hdr s) then unat (bh_uarea_size (buf_hdr d)) else unat (bh_uarea_size (buf_hdr s))) = n"
    using n by (simp add: word_le_nat_alt)
  then have "copy_uarea s d m = memcpy m (bh_uarea_addr (buf_hdr d)) (bh_uarea_addr (buf_hdr s)) n"
    using assms(1,2) by (simp add: copy_uarea_def Let_def if_distrib [of unat])
  then show ?thesis using n by (intro nth_equalityI) (auto simp: uarea_bytes_def memcpy_def)
qed

lemma uarea_bytes_cong:
  "(\<And>x. x \<in> uarea_span hp a \<Longrightarrow> m' x = m x) \<Longrightarrow> uarea_bytes m' (hdrs hp a) = uarea_bytes m (hdrs hp a)"
  by (intro nth_equalityI) (auto simp: uarea_bytes_def uarea_span_def uarea_def simp del: of_nat_unat)

lemma uareas_put [simp]: "uarea (heap (put_mem m st)) = uarea (heap st)" "uarea (heap (put_hdr b (copy_md s (hdrs (heap st) b)) st)) = uarea (heap st)"
  by (simp_all add: fun_eq_iff uarea_def copy_md_def copy_packet_parser_metadata_def)

lemma odp_packet_alloc_uareas:
  assumes at: "pool_at st i B" and ty: "pp_type (pl_params (pool_tbl st ! i)) = ODP_POOL_PACKET"
    and al: "odp_packet_alloc tid (of_nat i) n st = Inr (pkt, st')" and ua: "uareas_apart st i B"
  shows "uareas_apart st' i B" "uarea (heap st') = uarea (heap st)"
proof -
  let ?n = "if n = 0 then pp_size_len (pl_params (pool_tbl st ! i)) else n"
  obtain st1 where b: "buffer_alloc tid (of_nat i) (ucast ?n) st = Inr (pkt, st1)"
    and s: "uarea (heap st') = uarea (heap st1)" "pool_tbl st' = pool_tbl st1"
    using al ty pool_atD(4) [OF at]
    by (auto simp: odp_packet_alloc_def odp_pool_to_entry_def pool_handle_to_index_def and_then_def uarea_def pull_tail_def fun_eq_iff
        split: sum.splits prod.splits if_splits)
  have "unat (ucast ?n :: u64) < 2 ^ 32"
    by (simp add: unsigned_ucast_eq take_bit_nat_eq_self order_less_trans [OF unat_u32_bound])
  then have "pool_same (pool_tbl st1 ! i) (pool_tbl st ! i)" using buffer_alloc_total [OF at, of "ucast ?n" tid] b by auto
  then show "uareas_apart st' i B" "uarea (heap st') = uarea (heap st)"
    using uareas_apart_same [OF ua] uarea_buffer_alloc [OF b] s by auto
qed

lemma odp_packet_free_uareas:
  assumes a: "live st i B a" and f: "odp_packet_free tid (handle_of st a) st = Inr st'" and ua: "uareas_apart st i B"
  shows "uareas_apart st' i B"
proof -
  have b: "odp_buffer_free tid (handle_of st a) st = Inr st'" using f by (simp add: odp_packet_free_def)
  then have "pool_same (pool_tbl st' ! i) (pool_tbl st ! i)" using odp_buffer_free_at [OF liveD(1,2) [OF a], of tid] by auto
  then show ?thesis using uareas_apart_same [OF ua] uarea_odp_buffer_free [OF b] by blast
qed

text \<open>What is kept of a packet that another call does not concern.\<close>

definition untouched :: "odp_state \<Rightarrow> odp_state \<Rightarrow> nat \<Rightarrow> addr multiset \<Rightarrow> addr \<Rightarrow> bool" where
  "untouched st st' i B c \<longleftrightarrow> live st' i B c \<and> hdrs (heap st') c = hdrs (heap st) c \<and>
    packet_bytes (mem (heap st')) (hdrs (heap st') c) = packet_bytes (mem (heap st)) (hdrs (heap st) c) \<and>
    uarea_bytes (mem (heap st')) (hdrs (heap st') c) = uarea_bytes (mem (heap st)) (hdrs (heap st) c)"

text \<open>The user area of the old packet is in that of the new one, as far as both reach.\<close>

definition uarea_copied :: "memory \<Rightarrow> odp_packet_hdr \<Rightarrow> memory \<Rightarrow> odp_packet_hdr \<Rightarrow> bool" where
  "uarea_copied m h m' h' \<longleftrightarrow>
    (bh_uarea_addr (buf_hdr h) \<noteq> NULL \<and> bh_uarea_addr (buf_hdr h') \<noteq> NULL \<longrightarrow>
     (let n = min (length (uarea_bytes m h)) (length (uarea_bytes m' h'))
      in take n (uarea_bytes m' h') = take n (uarea_bytes m h)))"

lemma replace_packet_live:
  assumes a: "live st i B a" and b: "live st i B b" and ne: "a \<noteq> b"
    and ua: "uareas_apart st i B"
    and w1: "unat s1 + unat n1 \<le> unat (frame_len (hdrs (heap st) a))" "unat d1 + unat n1 \<le> unat (frame_len (hdrs (heap st) b))"
    and w2: "unat s2 + unat n2 \<le> unat (frame_len (hdrs (heap st) a))" "unat d2 + unat n2 \<le> unat (frame_len (hdrs (heap st) b))"
  defines "ba \<equiv> packet_bytes (mem (heap st)) (hdrs (heap st) a)" and "bb \<equiv> packet_bytes (mem (heap st)) (hdrs (heap st) b)"
  obtains st' where "replace_packet tid (handle_of st a) (handle_of st b) (s1, d1, n1) (s2, d2, n2) st = Some (Inr (handle_of st b, st'))"
    "live st' i B b" "handle_of st' b = handle_of st b" "allocated_at st' i = allocated_at st i - {a}"
    "packet_bytes (mem (heap st')) (hdrs (heap st') b) =
      overwrite (unat d2) (take (unat n2) (drop (unat s2) ba)) (overwrite (unat d1) (take (unat n1) (drop (unat s1) ba)) bb)"
    "inherits (hdrs (heap st) a) (hdrs (heap st') b)" "frame_len (hdrs (heap st') b) = frame_len (hdrs (heap st) b)"
    "\<And>c. live st i B c \<Longrightarrow> c \<noteq> a \<Longrightarrow> c \<noteq> b \<Longrightarrow> untouched st st' i B c"
    "uarea_copied (mem (heap st)) (hdrs (heap st) a) (mem (heap st')) (hdrs (heap st') b)" "uareas_apart st' i B"
proof -
  let ?ha = "hdrs (heap st) a" and ?hb = "hdrs (heap st) b" and ?m = "mem (heap st)"
  obtain m1 where c1: "odp_packet_copy_to_packet st (handle_of st a) s1 (handle_of st b) d1 n1 = Some (Inr (0, put_mem m1 st))"
    "packet_bytes m1 ?hb = overwrite (unat d1) (take (unat n1) (drop (unat s1) ba)) bb"
    "\<And>x. x \<notin> pkt_addr ?hb ` {..<unat (frame_len ?hb)} \<Longrightarrow> m1 x = ?m x"
    using copy_to_packet_live [OF a b ne w1] unfolding ba_def bb_def by metis
  let ?st1 = "put_mem m1 st"
  have a1: "live ?st1 i B a" and b1: "live ?st1 i B b" using a b by (simp_all add: live_put_mem)
  have "packet_bytes m1 ?ha = ba" unfolding ba_def by (rule packet_bytes_elsewhere [OF a b ne c1(3)])
  then obtain m2 where c2: "odp_packet_copy_to_packet ?st1 (handle_of st a) s2 (handle_of st b) d2 n2 = Some (Inr (0, put_mem m2 ?st1))"
    "packet_bytes m2 ?hb = overwrite (unat d2) (take (unat n2) (drop (unat s2) ba)) (packet_bytes m1 ?hb)"
    "\<And>x. x \<notin> pkt_addr ?hb ` {..<unat (frame_len ?hb)} \<Longrightarrow> m2 x = m1 x"
    using copy_to_packet_live [OF a1 b1 ne, of s2 n2 d2] w2 by (metis heap_put(6,7))
  have pm: "put_mem m2 ?st1 = put_mem m2 st" by (simp add: put_mem_def)
  let ?m3 = "copy_uarea ?ha ?hb m2" let ?st3 = "put_hdr b (copy_md ?ha ?hb) (put_mem ?m3 st)"
  have md: "odp_packet_copy_md_to_packet (put_mem m2 st) (handle_of st a) (handle_of st b) = Inr ?st3"
    using liveD(5) [OF a] liveD(5) [OF b]
    by (simp add: odp_packet_copy_md_to_packet_def Let_def)
  have vw: "same_view (buf_hdr (copy_md ?ha ?hb)) (bhdr (heap (put_mem ?m3 st)) b)" by simp
  have ok3: "packet_ok (copy_md ?ha ?hb)" using liveD(4) [OF b] same_view_pkt(1) [of "copy_md ?ha ?hb" ?hb] by simp
  have live3: "live ?st3 i B c" if "live st i B c" for c
    by (rule live_put_hdr [OF live_put_mem [OF that] vw]) (use ok3 in blast)
  have al3: "allocated_at ?st3 i = allocated_at st i"
    by (rule pool_at_same_view(2)) (use vw in auto)
  have hs: "handle_of ?st3 a = handle_of st a" "handle_of ?st3 b = handle_of st b"
    using ne vw by (simp_all add: same_view_def)
  obtain st' where f: "odp_packet_free tid (handle_of st a) ?st3 = Inr st'" "pool_at st' i B"
    "allocated_at st' i = allocated_at st i - {a}" "mem (heap st') = ?m3"
    "\<And>c. live ?st3 i B c \<Longrightarrow> c \<noteq> a \<Longrightarrow> live st' i B c \<and> hdrs (heap st') c = hdrs (heap ?st3) c"
    using odp_packet_free_live [OF live3 [OF a], of tid] hs al3 by (metis heap_put(2,7))
  have ua3: "uareas_apart ?st3 i B" by (rule uareas_apart_same [OF ua]) (simp_all add: pool_same_def uareas_put [where st = "put_mem ?m3 st", simplified])
  have b_area: "b \<in> set (hdr_list (pool_tbl st ! i))" by (rule liveD(3) [OF b])
  have m3: "packet_bytes ?m3 (hdrs (heap st) c) = packet_bytes m2 (hdrs (heap st) c)" if "live st i B c" for c
    by (rule packet_bytes_cong) (use copy_uarea_frame frame_off_uarea [OF that _ ua b_area] in blast)
  have off_b: "m2 x = ?m x" if "x \<in> uarea_span (heap st) c" "c \<in> set (hdr_list (pool_tbl st ! i))" for x c
  proof -
    have "x \<notin> pkt_addr ?hb ` {..<unat (frame_len ?hb)}" using frame_off_uarea [OF b _ ua that(2)] that(1) by auto
    then show ?thesis using c1(3) c2(3) by simp
  qed
  have lb: "live st' i B b" and hb: "hdrs (heap st') b = copy_md ?ha ?hb"
    using f(5) [OF live3 [OF b]] ne by auto
  show thesis
  proof (rule that)
    show "replace_packet tid (handle_of st a) (handle_of st b) (s1, d1, n1) (s2, d2, n2) st = Some (Inr (handle_of st b, st'))"
      by (simp add: replace_packet_def Let_def c1(1) c2(1) pm md f(1))
    show "live st' i B b" by (rule lb)
    show "handle_of st' b = handle_of st b" unfolding hb using vw by (simp add: same_view_def)
    show "allocated_at st' i = allocated_at st i - {a}" by (rule f(3))
    show "packet_bytes (mem (heap st')) (hdrs (heap st') b) =
      overwrite (unat d2) (take (unat n2) (drop (unat s2) ba)) (overwrite (unat d1) (take (unat n1) (drop (unat s1) ba)) bb)"
      using same_view_pkt(2) [of "copy_md ?ha ?hb" ?hb ?m3] m3 [OF b] by (simp add: hb f(4) c2(2) c1(2))
    show "inherits ?ha (hdrs (heap st') b)" "frame_len (hdrs (heap st') b) = frame_len ?hb"
      by (simp_all add: hb inherits_copy_md)
    show "uareas_apart st' i B" by (rule odp_packet_free_uareas [OF live3 [OF a] _ ua3]) (use f(1) hs in simp)
    have "uarea_bytes m2 ?ha = uarea_bytes ?m ?ha" by (rule uarea_bytes_cong) (rule off_b [OF _ liveD(3) [OF a]])
    moreover have "uarea_bytes ?m3 (copy_md ?ha ?hb) = uarea_bytes ?m3 ?hb"
      by (simp add: uarea_bytes_def copy_md_def copy_packet_parser_metadata_def)
    moreover have "bh_uarea_addr (buf_hdr (copy_md ?ha ?hb)) = bh_uarea_addr (buf_hdr ?hb)"
      by (simp add: copy_md_def copy_packet_parser_metadata_def)
    ultimately show "uarea_copied ?m ?ha (mem (heap st')) (hdrs (heap st') b)"
      unfolding uarea_copied_def Let_def hb f(4) using copy_uarea_bytes [of ?ha ?hb _ m2]
      by (simp add: uarea_bytes_def)
    fix c assume c: "live st i B c" "c \<noteq> a" "c \<noteq> b"
    have cl: "c \<in> set (hdr_list (pool_tbl st ! i))" by (rule liveD(3) [OF c(1)])
    have "packet_bytes m2 (hdrs (heap st) c) = packet_bytes ?m (hdrs (heap st) c)"
      by (rule packet_bytes_elsewhere [OF c(1) b c(3)]) (use c1(3) c2(3) in auto)
    moreover have "uarea_bytes ?m3 (hdrs (heap st) c) = uarea_bytes ?m (hdrs (heap st) c)"
    proof (rule uarea_bytes_cong)
      fix x assume x: "x \<in> uarea_span (heap st) c"
      then have "x \<notin> uarea_span (heap st) b" using ua cl b_area c(3) unfolding uareas_apart_def by blast
      then show "?m3 x = ?m x" using copy_uarea_frame off_b [OF x cl] by simp
    qed
    ultimately show "untouched st st' i B c"
      unfolding untouched_def using f(4) f(5) [OF live3 [OF c(1)] c(2)] c(3) m3 [OF c(1)] by simp
  qed
qed

lemma overwrite_insert:
  assumes "off \<le> length xs" "length ys = length xs + n"
  shows "overwrite (off + n) (drop off xs) (overwrite 0 (take off xs) ys) = take off xs @ take n (drop off ys) @ drop off xs"
  using assms by (simp add: overwrite_def min_def)

lemma overwrite_delete:
  assumes "off + n \<le> length xs" "length ys = length xs - n"
  shows "overwrite off (drop (off + n) xs) (overwrite 0 (take off xs) ys) = take off xs @ drop (off + n) xs"
  using assms by (auto simp: overwrite_def min_def)

lemma live_pool_hdl: "live st i B a \<Longrightarrow> bh_pool_hdl (bhdr (heap st) a) = of_nat i"
  using hdr_handle [OF liveD(1,3)] by metis

text \<open>
  What \<open>odp_packet_add_data\<close> and \<open>odp_packet_rem_data\<close> may do on a live packet: fail and leave
  everything as it was, or hand out one new packet in place of the old one, with the given data.
\<close>

definition packet_replaced ::
    "(u8 list \<Rightarrow> bool) \<Rightarrow> nat \<Rightarrow> addr multiset \<Rightarrow> addr \<Rightarrow> odp_state \<Rightarrow> u32 \<Rightarrow> odp_state \<Rightarrow> bool" where
  "packet_replaced data i B a st r st' \<longleftrightarrow>
    r = ODP_PACKET_INVALID \<and> allocated_at st' i = allocated_at st i \<and> live st' i B a \<and>
      hdrs (heap st') a = hdrs (heap st) a \<and> mem (heap st') = mem (heap st) \<and> uareas_apart st' i B \<or>
    (\<exists>b. r = handle_of st' b \<and> live st' i B b \<and> b \<notin> allocated_at st i \<and>
      allocated_at st' i = insert b (allocated_at st i - {a}) \<and>
      data (packet_bytes (mem (heap st')) (hdrs (heap st') b)) \<and> inherits (hdrs (heap st) a) (hdrs (heap st') b) \<and>
      uarea_copied (mem (heap st)) (hdrs (heap st) a) (mem (heap st')) (hdrs (heap st') b) \<and> uareas_apart st' i B \<and>
      (\<forall>c. live st i B c \<longrightarrow> c \<noteq> a \<longrightarrow> untouched st st' i B c))"

lemma replace_new_packet:
  assumes a: "live st i B a" and ua: "uareas_apart st i B"
    and w1: "unat s1 + unat n1 \<le> unat (frame_len (hdrs (heap st) a))" "unat d1 + unat n1 \<le> unat n"
    and w2: "unat s2 + unat n2 \<le> unat (frame_len (hdrs (heap st) a))" "unat d2 + unat n2 \<le> unat n"
    and data: "\<And>bb. length bb = unat n \<Longrightarrow>
      data (overwrite (unat d2) (take (unat n2) (drop (unat s2) (packet_bytes (mem (heap st)) (hdrs (heap st) a))))
        (overwrite (unat d1) (take (unat n1) (drop (unat s1) (packet_bytes (mem (heap st)) (hdrs (heap st) a)))) bb))"
  obtains pkt st1 r st' where "odp_packet_alloc tid (of_nat i) n st = Inr (pkt, st1)"
    "(if pkt = ODP_PACKET_INVALID then Some (Inr (pkt, st1))
      else replace_packet tid (handle_of st a) pkt (s1, d1, n1) (s2, d2, n2) st1) = Some (Inr (r, st'))"
    "packet_replaced data i B a st r st'"
proof -
  have at: "pool_at st i B" "blocks_apart (pl_seg_size (pool_tbl st ! i)) B"
    "pp_type (pl_params (pool_tbl st ! i)) = ODP_POOL_PACKET" using a by (simp_all add: live_def)
  obtain pkt st1 where al: "odp_packet_alloc tid (of_nat i) n st = Inr (pkt, st1)" "mem (heap st1) = mem (heap st)"
    "\<And>c. live st i B c \<Longrightarrow> live st1 i B c \<and> hdrs (heap st1) c = hdrs (heap st) c"
    "pkt = ODP_PACKET_INVALID \<and> allocated_at st1 i = allocated_at st i \<or>
     (\<exists>b. pkt = handle_of st1 b \<and> live st1 i B b \<and> allocated_at st1 i = insert b (allocated_at st i) \<and>
       b \<notin> allocated_at st i \<and> frame_len (hdrs (heap st1) b) = n)"
    by (rule odp_packet_alloc_at [OF at, of tid n]) fastforce
  have a1: "live st1 i B a" and ha: "hdrs (heap st1) a = hdrs (heap st) a" using al(3) [OF a] by simp_all
  have ua1: "uareas_apart st1 i B" by (rule odp_packet_alloc_uareas [OF at(1,3) al(1) ua])
  from al(4) show thesis
  proof
    assume "pkt = ODP_PACKET_INVALID \<and> allocated_at st1 i = allocated_at st i"
    then show thesis using that [OF al(1), of ODP_PACKET_INVALID st1] al(2) a1 ha ua1 by (simp add: packet_replaced_def)
  next
    assume "\<exists>b. pkt = handle_of st1 b \<and> live st1 i B b \<and> allocated_at st1 i = insert b (allocated_at st i) \<and>
       b \<notin> allocated_at st i \<and> frame_len (hdrs (heap st1) b) = n"
    then obtain b where b: "pkt = handle_of st1 b" "live st1 i B b" "allocated_at st1 i = insert b (allocated_at st i)"
      "b \<notin> allocated_at st i" "frame_len (hdrs (heap st1) b) = n" by blast
    have ne: "a \<noteq> b" using b(4) liveD(2) [OF a] by auto
    have hyps: "uareas_apart st1 i B"
      "unat s1 + unat n1 \<le> unat (frame_len (hdrs (heap st1) a))" "unat d1 + unat n1 \<le> unat (frame_len (hdrs (heap st1) b))"
      "unat s2 + unat n2 \<le> unat (frame_len (hdrs (heap st1) a))" "unat d2 + unat n2 \<le> unat (frame_len (hdrs (heap st1) b))"
      using ua1 w1 w2 ha b(5) by simp_all
    obtain st' where r: "replace_packet tid (handle_of st a) (handle_of st1 b) (s1, d1, n1) (s2, d2, n2) st1 = Some (Inr (handle_of st1 b, st'))"
      "live st' i B b" "handle_of st' b = handle_of st1 b" "allocated_at st' i = allocated_at st1 i - {a}"
      "packet_bytes (mem (heap st')) (hdrs (heap st') b) =
        overwrite (unat d2) (take (unat n2) (drop (unat s2) (packet_bytes (mem (heap st)) (hdrs (heap st) a))))
         (overwrite (unat d1) (take (unat n1) (drop (unat s1) (packet_bytes (mem (heap st)) (hdrs (heap st) a))))
           (packet_bytes (mem (heap st)) (hdrs (heap st1) b)))"
      "inherits (hdrs (heap st) a) (hdrs (heap st') b)"
      "\<And>c. live st1 i B c \<Longrightarrow> c \<noteq> a \<Longrightarrow> c \<noteq> b \<Longrightarrow> untouched st1 st' i B c"
      "uarea_copied (mem (heap st)) (hdrs (heap st) a) (mem (heap st')) (hdrs (heap st') b)" "uareas_apart st' i B"
      by (rule replace_packet_live [OF a1 b(2) ne hyps, of tid, unfolded ha al(2)]) blast
    have d: "data (packet_bytes (mem (heap st')) (hdrs (heap st') b))" unfolding r(5) by (rule data) (simp add: b(5))
    have others: "untouched st st' i B c"
      if "live st i B c" "c \<noteq> a" for c
    proof -
      have "c \<noteq> b" using liveD(2) [OF that(1)] b(4) by auto
      then show ?thesis using r(7) [of c] al(2) al(3) [OF that(1)] that(2) unfolding untouched_def by metis
    qed
    have al': "allocated_at st' i = insert b (allocated_at st i - {a})" using r(4) b(3) ne by auto
    have "pkt = handle_of st' b" using r(3) b(1) by simp
    then have "packet_replaced data i B a st pkt st'"
      unfolding packet_replaced_def using r(2,6,8,9) b(4) al' d others by blast
    moreover have "pkt \<noteq> ODP_PACKET_INVALID" using live_handle_valid [OF b(2)] b(1) by simp
    ultimately show thesis using that [OF al(1), of pkt st'] r(1) b(1) ha by simp
  qed
qed



section \<open>Limits of the calls\<close>

text \<open>
  The length tests of the copies add in 32 bits. With an offset at the end of the data and a length that wraps the
  sum around to 0, \<open>odp_packet_copydata_out\<close> passes its test and its loop copies nothing for ever.
\<close>

lemma copydata_out_loop_stuck:
  assumes "packet_map h offset = Inr (Some (p, 0))" "len \<noteq> 0"
  shows "copydata_out_loop h m offset len seglen dst = None"
proof -
  let ?P = "\<lambda>h m off len sl d y. \<not> (packet_map h off = Inr (Some (p, 0)) \<and> len \<noteq> 0)"
  have "False" if "copydata_out_loop h m offset len seglen dst = Some y" for y
  proof -
    have "?P h m offset len seglen dst y"
    proof (rule copydata_out_loop.raw_induct [where P = ?P, OF _ that])
      fix loop h m off len sl d y
      assume IH: "\<And>h m off len sl d y. loop h m off len sl d = Some y \<Longrightarrow> ?P h m off len sl d y"
        and b: "(if len = 0 then Some (Inr m)
          else case packet_map h off of Inl e \<Rightarrow> Some (Inl e)
            | Inr None \<Rightarrow> if sl = 0 then loop h m off len sl d else Some (Inl Null_Deref)
            | Inr (Some (mapaddr, seglen1)) \<Rightarrow>
                let cpylen = if seglen1 < len then seglen1 else len
                in loop h (memcpy m d mapaddr (unat cpylen)) (off + cpylen) (len - cpylen) seglen1 (d + int (unat cpylen))) = Some y"
      show "?P h m off len sl d y"
      proof
        assume s: "packet_map h off = Inr (Some (p, 0)) \<and> len \<noteq> 0"
        then have "packet_map h off = Inr (Some (p, 0))" "len \<noteq> 0" "0 < len" by (auto simp: word_gt_0)
        then have "loop h (memcpy m d p 0) off len 0 d = Some y" using b by (simp add: Let_def)
        then show False using IH s by blast
      qed
    qed
    with assms show False by blast
  qed
  then show ?thesis by (cases "copydata_out_loop h m offset len seglen dst") auto
qed

lemma odp_packet_copydata_out_diverges:
  assumes a: "live st i B a" and tr: "0 < tailroom (hdrs (heap st) a)" and fl: "0 < frame_len (hdrs (heap st) a)"
  shows "odp_packet_copydata_out st (handle_of st a) (frame_len (hdrs (heap st) a)) (- frame_len (hdrs (heap st) a)) dst = None"
proof -
  let ?h = "hdrs (heap st) a"
  note ok = liveD(4) [OF a] note D = packet_okD [OF ok]
  have s: "unat (headroom ?h + frame_len ?h) = unat (headroom ?h) + unat (frame_len ?h)"
    using D by (intro unat_add_u32) linarith
  have "unat (headroom ?h) + unat (frame_len ?h) < unat (bh_segsize (buf_hdr ?h)) * unat (bh_segcount (buf_hdr ?h))"
    using D(7) tr by (simp add: word_less_nat_alt)
  then have "unat (headroom ?h + frame_len ?h) div unat (bh_segsize (buf_hdr ?h)) < length (bh_addr (buf_hdr ?h))"
    unfolding s using packet_ok_seg_index [OF ok] D(1,6) by fastforce
  from buffer_map_eq [OF D(2) order_refl this] obtain n where
    "buffer_map (buf_hdr ?h) (headroom ?h + frame_len ?h) (headroom ?h + frame_len ?h) =
      Inr (byte_addr (buf_hdr ?h) (unat (headroom ?h + frame_len ?h)), n)" "unat n = 0" by auto
  then have "packet_map ?h (frame_len ?h) = Inr (Some (byte_addr (buf_hdr ?h) (unat (headroom ?h + frame_len ?h)), 0))"
    by (simp add: packet_map_def unat_eq_0)
  from copydata_out_loop_stuck [OF this, of "- frame_len ?h"] fl show ?thesis
    using liveD(5) [OF a] by (simp add: odp_packet_copydata_out_def Let_def)
qed

text \<open>
  The address behind the last byte of a packet that fills all its segments is read from beyond the segment table;
  \<open>odp_packet_tail\<close> and \<open>odp_packet_push_tail\<close> by 0 bytes do that.
\<close>

lemma packet_map_end_out_of_bounds:
  assumes ok: "packet_ok h" and "tailroom h = 0" "bh_segcount (buf_hdr h) = 6"
  shows "packet_map h (frame_len h) = Inl Out_Of_Bounds"
proof -
  note D = packet_okD [OF ok]
  have s: "unat (headroom h + frame_len h) = unat (bh_segsize (buf_hdr h)) * 6"
    using unat_add_u32 [of "headroom h" "frame_len h"] D(7,8) assms(2,3) by simp
  then have "\<not> headroom h + frame_len h < bh_segsize (buf_hdr h)" by (simp add: word_less_nat_alt)
  moreover have "unat ((headroom h + frame_len h) div bh_segsize (buf_hdr h)) = 6"
    using s D(3) by (simp add: unat_div_distrib)
  ultimately show ?thesis using D(1,2) by (simp add: packet_map_def buffer_map_def)
qed

text \<open>
  \<open>odp_packet_copy\<close> gives the copy the headroom and tailroom of the source, whatever the buffer of the copy has:
  a packet that was trimmed at the head can get a copy that does not fit its segments.
\<close>

lemma copy_meta_breaks_packet:
  assumes "packet_ok src" "packet_ok new" "bh_segsize (buf_hdr src) = bh_segsize (buf_hdr new)"
    and "bh_segcount (buf_hdr new) \<noteq> bh_segcount (buf_hdr src)"
  shows "\<not> packet_ok (copy_meta src new)"
proof
  assume "packet_ok (copy_meta src new)"
  from packet_okD(7) [OF this] packet_okD(7) [OF assms(1)]
  have "unat (bh_segsize (buf_hdr new)) * unat (bh_segcount (buf_hdr new)) =
      unat (bh_segsize (buf_hdr new)) * unat (bh_segcount (buf_hdr src))" unfolding copy_meta_def assms(3) by auto
  then show False using packet_okD(3) [OF assms(2)] assms(4) by (simp add: word_eq_nat)
qed

section \<open>The properties at a concrete packet\<close>

definition demo_pkt_state :: odp_state where
  "demo_pkt_state = (case odp_packet_alloc 1 0 100 demo_pool_state of Inr (_, st) \<Rightarrow> st | Inl _ \<Rightarrow> demo_pool_state)"

lemma demo_live_uareas:
  "\<exists>B a. live demo_pkt_state 0 B a \<and> frame_len (hdrs (heap demo_pkt_state) a) = 100 \<and>
    headroom (hdrs (heap demo_pkt_state) a) = 66 \<and> uareas_apart demo_pkt_state 0 B \<and>
    bh_uarea_addr (bhdr (heap demo_pkt_state) a) \<noteq> NULL \<and> bh_uarea_size (bhdr (heap demo_pkt_state) a) = 16"
proof -
  obtain B where at: "pool_at demo_pool_state 0 B" and ap: "blocks_apart (pl_seg_size (pool_tbl demo_pool_state ! 0)) B"
    and ua: "uareas_apart demo_pool_state 0 B"
    and u16: "\<forall>a \<in> set (hdr_list (pool_tbl demo_pool_state ! 0)). fst (uarea (heap demo_pool_state) a) \<noteq> NULL \<and>
      snd (uarea (heap demo_pool_state) a) = 16" using demo_pool_uareas by auto
  have ty: "pp_type (pl_params (pool_tbl demo_pool_state ! 0)) = ODP_POOL_PACKET" using demo_pool by auto
  have b: "pl_bufcount (pool_tbl demo_pool_state ! 0) \<noteq> 0 \<or> lc_freelist (local_caches demo_pool_state 1 0) \<noteq> NULL"
    using demo_pool by simp
  obtain c st1 where live: "buffer_alloc 1 (of_nat 0) 100 demo_pool_state = Inr (bh_handle (bhdr (heap st1) c), st1)"
    "c \<in> allocated_at st1 0" "c \<notin> allocated_at demo_pool_state 0"
    using buffer_alloc_live [OF at _ demo_request(1) b demo_request(2)] by auto
  obtain pkt st' where al: "odp_packet_alloc 1 (of_nat 0) 100 demo_pool_state = Inr (pkt, st')"
    "pkt = ODP_PACKET_INVALID \<and> allocated_at st' 0 = allocated_at demo_pool_state 0 \<or>
     (\<exists>b. pkt = handle_of st' b \<and> live st' 0 B b \<and> allocated_at st' 0 = insert b (allocated_at demo_pool_state 0) \<and>
       b \<notin> allocated_at demo_pool_state 0 \<and> frame_len (hdrs (heap st') b) = 100 \<and>
       headroom (hdrs (heap st') b) = pl_headroom (pool_tbl demo_pool_state ! 0))"
    by (rule odp_packet_alloc_at [OF at ap ty, of 1 100]) blast
  have "st1 = st'" using live(1) al(1) pool_atD(4) [OF at] ty
    by (simp add: odp_packet_alloc_def odp_pool_to_entry_def pool_handle_to_index_def)
  then obtain b where b: "live st' 0 B b" "frame_len (hdrs (heap st') b) = 100" "headroom (hdrs (heap st') b) = 66"
    using live al demo_pool by auto
  have k: "uareas_apart st' 0 B" "uarea (heap st') = uarea (heap demo_pool_state)"
    by (rule odp_packet_alloc_uareas [OF at ty al(1) ua])+
  have "pool_same (pool_tbl st1 ! 0) (pool_tbl demo_pool_state ! 0)"
    using buffer_alloc_total [OF at, of 100 1] live(1) by auto
  then have "b \<in> set (hdr_list (pool_tbl demo_pool_state ! 0))"
    using liveD(3) [OF b(1)] \<open>st1 = st'\<close> by (simp add: pool_same_def hdr_list_def)
  then have "fst (uarea (heap st') b) \<noteq> NULL \<and> snd (uarea (heap st') b) = 16" unfolding k(2) by (rule u16 [rule_format])
  moreover have "demo_pkt_state = st'" using al(1) by (simp add: demo_pkt_state_def)
  ultimately show ?thesis using b k(1) by (auto simp: uarea_def)
qed

lemma demo_live:
  "\<exists>B a. live demo_pkt_state 0 B a \<and> frame_len (hdrs (heap demo_pkt_state) a) = 100 \<and>
    headroom (hdrs (heap demo_pkt_state) a) = 66"
  using demo_live_uareas by blast

lemma demo_region: "\<exists>p. \<forall>k < n. pkt_addr h k \<notin> {p..<p + int l}"
proof -
  have "pkt_addr h k < Max (insert 0 (pkt_addr h ` {..<n})) + 1" if "k < n" for k
    using Max_ge [of "insert 0 (pkt_addr h ` {..<n})" "pkt_addr h k"] that by auto
  then show ?thesis by (intro exI [of _ "Max (insert 0 (pkt_addr h ` {..<n})) + 1"]) fastforce
qed

theorem odp_packet_push_correct_witness:
  "\<exists>st B a h'. odp_packet_push_head st (handle_of st a) 14 = Inr (pkt_addr h' 0, put_hdr a h' st) \<and>
    live (put_hdr a h' st) 0 B a \<and> unat (frame_len h') = 114 \<and>
    drop 14 (packet_bytes (mem (heap st)) h') = packet_bytes (mem (heap st)) (hdrs (heap st) a)"
proof -
  obtain B a where l: "live demo_pkt_state 0 B a" "frame_len (hdrs (heap demo_pkt_state) a) = 100"
    "headroom (hdrs (heap demo_pkt_state) a) = 66" using demo_live by blast
  have "0 < frame_len (hdrs (heap demo_pkt_state) a)" "(0 :: u32) < 14" using l(2) by simp_all
  from odp_packet_push_correct [OF l(1) this] show ?thesis using l(2,3) by auto
qed

theorem odp_packet_pull_correct_witness:
  "\<exists>st B a hh. odp_packet_pull_head st (handle_of st a) 14 = Inr (pkt_addr (hdrs (heap st) a) 14, put_hdr a hh st) \<and>
    live (put_hdr a hh st) 0 B a \<and>
    packet_bytes (mem (heap st)) hh = drop 14 (packet_bytes (mem (heap st)) (hdrs (heap st) a))"
proof -
  obtain B a where l: "live demo_pkt_state 0 B a" "frame_len (hdrs (heap demo_pkt_state) a) = 100" using demo_live by blast
  have "(0 :: u32) < 14" "14 \<noteq> frame_len (hdrs (heap demo_pkt_state) a)" using l(2) by simp_all
  from odp_packet_pull_correct [OF l(1) this] show ?thesis using l(2) by auto
qed

theorem odp_packet_copydata_out_correct_witness:
  "\<exists>st a dst m'. odp_packet_copydata_out st (handle_of st a) 10 20 dst = Some (Inr (0, put_mem m' st)) \<and>
    load_bytes m' dst 20 = take 20 (drop 10 (packet_bytes (mem (heap st)) (hdrs (heap st) a)))"
proof -
  obtain B a where l: "live demo_pkt_state 0 B a" "frame_len (hdrs (heap demo_pkt_state) a) = 100" using demo_live by blast
  obtain dst where d: "\<forall>k < unat (frame_len (hdrs (heap demo_pkt_state) a)).
    pkt_addr (hdrs (heap demo_pkt_state) a) k \<notin> {dst..<dst + int (unat (20 :: u32))}" using demo_region by blast
  have w: "unat (10 :: u32) + unat (20 :: u32) \<le> unat (frame_len (hdrs (heap demo_pkt_state) a))" using l(2) by simp
  from odp_packet_copydata_out_correct [OF l(1) w d] show ?thesis by auto
qed

theorem odp_packet_copydata_in_correct_witness:
  "\<exists>st a src m'. odp_packet_copydata_in st (handle_of st a) 10 20 src = Some (Inr (0, put_mem m' st)) \<and>
    packet_bytes m' (hdrs (heap st) a) =
      overwrite 10 (load_bytes (mem (heap st)) src 20) (packet_bytes (mem (heap st)) (hdrs (heap st) a))"
proof -
  obtain B a where l: "live demo_pkt_state 0 B a" "frame_len (hdrs (heap demo_pkt_state) a) = 100" using demo_live by blast
  obtain src where d: "\<forall>k < unat (frame_len (hdrs (heap demo_pkt_state) a)).
    pkt_addr (hdrs (heap demo_pkt_state) a) k \<notin> {src..<src + int (unat (20 :: u32))}" using demo_region by blast
  have w: "unat (10 :: u32) + unat (20 :: u32) \<le> unat (frame_len (hdrs (heap demo_pkt_state) a))" using l(2) by simp
  from odp_packet_copydata_in_correct [OF l(1) w d] show ?thesis by auto
qed



end
