(* ===== verification/Odp_Packet_Flags.thy ===== *)
theory Odp_Packet_Flags
  imports Odp_Packet_Correct
begin

text \<open>
  The packet flags (\<open>odp_packet_flags.c\<close>): the macros \<open>retflag\<close> and \<open>setflag\<close>, which parse a packet that was not parsed
  yet, and the getters and setters made from them; they are a set of independent bits on top of the parser.
\<close>

definition retflag :: "odp_state \<Rightarrow> u32 \<Rightarrow> input_flag \<Rightarrow> (c_error + (bool \<times> odp_state)) option" where
  "retflag st p x = after_parse st p (\<lambda>pkt_hdr. Inr (input_flag x pkt_hdr, pkt_hdr))"

text \<open>\<open>v & 1\<close> is the lowest bit of the integer \<open>v\<close>.\<close>

definition setflag :: "odp_state \<Rightarrow> u32 \<Rightarrow> input_flag \<Rightarrow> int \<Rightarrow> (c_error + odp_state) option" where
  "setflag st p x v =
    map_option (\<lambda>r. and_then r (\<lambda>(_, st1). Inr st1))
      (after_parse st p (\<lambda>pkt_hdr. Inr ((), set_input_flag x (odd v) pkt_hdr)))"

definition odp_packet_has_error :: "odp_state \<Rightarrow> u32 \<Rightarrow> (c_error + (bool \<times> odp_state)) option" where
  "odp_packet_has_error st pkt = after_parse st pkt (\<lambda>pkt_hdr. Inr (error_flags pkt_hdr \<noteq> 0, pkt_hdr))"

section \<open>Get Input Flags\<close>

definition odp_packet_has_l2 :: "odp_state \<Rightarrow> u32 \<Rightarrow> (c_error + (bool \<times> odp_state)) option" where
  "odp_packet_has_l2 st pkt = retflag st pkt IF_l2"

definition odp_packet_has_l3 :: "odp_state \<Rightarrow> u32 \<Rightarrow> (c_error + (bool \<times> odp_state)) option" where
  "odp_packet_has_l3 st pkt = retflag st pkt IF_l3"

definition odp_packet_has_l4 :: "odp_state \<Rightarrow> u32 \<Rightarrow> (c_error + (bool \<times> odp_state)) option" where
  "odp_packet_has_l4 st pkt = retflag st pkt IF_l4"

definition odp_packet_has_eth :: "odp_state \<Rightarrow> u32 \<Rightarrow> (c_error + (bool \<times> odp_state)) option" where
  "odp_packet_has_eth st pkt = retflag st pkt IF_eth"

definition odp_packet_has_jumbo :: "odp_state \<Rightarrow> u32 \<Rightarrow> (c_error + (bool \<times> odp_state)) option" where
  "odp_packet_has_jumbo st pkt = retflag st pkt IF_jumbo"

definition odp_packet_has_vlan :: "odp_state \<Rightarrow> u32 \<Rightarrow> (c_error + (bool \<times> odp_state)) option" where
  "odp_packet_has_vlan st pkt = retflag st pkt IF_vlan"

definition odp_packet_has_vlan_qinq :: "odp_state \<Rightarrow> u32 \<Rightarrow> (c_error + (bool \<times> odp_state)) option" where
  "odp_packet_has_vlan_qinq st pkt = retflag st pkt IF_vlan_qinq"

definition odp_packet_has_arp :: "odp_state \<Rightarrow> u32 \<Rightarrow> (c_error + (bool \<times> odp_state)) option" where
  "odp_packet_has_arp st pkt = retflag st pkt IF_arp"

definition odp_packet_has_ipv4 :: "odp_state \<Rightarrow> u32 \<Rightarrow> (c_error + (bool \<times> odp_state)) option" where
  "odp_packet_has_ipv4 st pkt = retflag st pkt IF_ipv4"

definition odp_packet_has_ipv6 :: "odp_state \<Rightarrow> u32 \<Rightarrow> (c_error + (bool \<times> odp_state)) option" where
  "odp_packet_has_ipv6 st pkt = retflag st pkt IF_ipv6"

definition odp_packet_has_ipfrag :: "odp_state \<Rightarrow> u32 \<Rightarrow> (c_error + (bool \<times> odp_state)) option" where
  "odp_packet_has_ipfrag st pkt = retflag st pkt IF_ipfrag"

definition odp_packet_has_ipopt :: "odp_state \<Rightarrow> u32 \<Rightarrow> (c_error + (bool \<times> odp_state)) option" where
  "odp_packet_has_ipopt st pkt = retflag st pkt IF_ipopt"

definition odp_packet_has_ipsec :: "odp_state \<Rightarrow> u32 \<Rightarrow> (c_error + (bool \<times> odp_state)) option" where
  "odp_packet_has_ipsec st pkt = retflag st pkt IF_ipsec"

definition odp_packet_has_udp :: "odp_state \<Rightarrow> u32 \<Rightarrow> (c_error + (bool \<times> odp_state)) option" where
  "odp_packet_has_udp st pkt = retflag st pkt IF_udp"

definition odp_packet_has_tcp :: "odp_state \<Rightarrow> u32 \<Rightarrow> (c_error + (bool \<times> odp_state)) option" where
  "odp_packet_has_tcp st pkt = retflag st pkt IF_tcp"

definition odp_packet_has_sctp :: "odp_state \<Rightarrow> u32 \<Rightarrow> (c_error + (bool \<times> odp_state)) option" where
  "odp_packet_has_sctp st pkt = retflag st pkt IF_sctp"

definition odp_packet_has_icmp :: "odp_state \<Rightarrow> u32 \<Rightarrow> (c_error + (bool \<times> odp_state)) option" where
  "odp_packet_has_icmp st pkt = retflag st pkt IF_icmp"

section \<open>Set Input Flags\<close>

definition odp_packet_has_l2_set :: "odp_state \<Rightarrow> u32 \<Rightarrow> int \<Rightarrow> (c_error + odp_state) option" where
  "odp_packet_has_l2_set st pkt val = setflag st pkt IF_l2 val"

definition odp_packet_has_l3_set :: "odp_state \<Rightarrow> u32 \<Rightarrow> int \<Rightarrow> (c_error + odp_state) option" where
  "odp_packet_has_l3_set st pkt val = setflag st pkt IF_l3 val"

definition odp_packet_has_l4_set :: "odp_state \<Rightarrow> u32 \<Rightarrow> int \<Rightarrow> (c_error + odp_state) option" where
  "odp_packet_has_l4_set st pkt val = setflag st pkt IF_l4 val"

definition odp_packet_has_eth_set :: "odp_state \<Rightarrow> u32 \<Rightarrow> int \<Rightarrow> (c_error + odp_state) option" where
  "odp_packet_has_eth_set st pkt val = setflag st pkt IF_eth val"

definition odp_packet_has_jumbo_set :: "odp_state \<Rightarrow> u32 \<Rightarrow> int \<Rightarrow> (c_error + odp_state) option" where
  "odp_packet_has_jumbo_set st pkt val = setflag st pkt IF_jumbo val"

definition odp_packet_has_vlan_set :: "odp_state \<Rightarrow> u32 \<Rightarrow> int \<Rightarrow> (c_error + odp_state) option" where
  "odp_packet_has_vlan_set st pkt val = setflag st pkt IF_vlan val"

definition odp_packet_has_vlan_qinq_set :: "odp_state \<Rightarrow> u32 \<Rightarrow> int \<Rightarrow> (c_error + odp_state) option" where
  "odp_packet_has_vlan_qinq_set st pkt val = setflag st pkt IF_vlan_qinq val"

definition odp_packet_has_arp_set :: "odp_state \<Rightarrow> u32 \<Rightarrow> int \<Rightarrow> (c_error + odp_state) option" where
  "odp_packet_has_arp_set st pkt val = setflag st pkt IF_arp val"

definition odp_packet_has_ipv4_set :: "odp_state \<Rightarrow> u32 \<Rightarrow> int \<Rightarrow> (c_error + odp_state) option" where
  "odp_packet_has_ipv4_set st pkt val = setflag st pkt IF_ipv4 val"

definition odp_packet_has_ipv6_set :: "odp_state \<Rightarrow> u32 \<Rightarrow> int \<Rightarrow> (c_error + odp_state) option" where
  "odp_packet_has_ipv6_set st pkt val = setflag st pkt IF_ipv6 val"

definition odp_packet_has_ipfrag_set :: "odp_state \<Rightarrow> u32 \<Rightarrow> int \<Rightarrow> (c_error + odp_state) option" where
  "odp_packet_has_ipfrag_set st pkt val = setflag st pkt IF_ipfrag val"

definition odp_packet_has_ipopt_set :: "odp_state \<Rightarrow> u32 \<Rightarrow> int \<Rightarrow> (c_error + odp_state) option" where
  "odp_packet_has_ipopt_set st pkt val = setflag st pkt IF_ipopt val"

definition odp_packet_has_ipsec_set :: "odp_state \<Rightarrow> u32 \<Rightarrow> int \<Rightarrow> (c_error + odp_state) option" where
  "odp_packet_has_ipsec_set st pkt val = setflag st pkt IF_ipsec val"

definition odp_packet_has_udp_set :: "odp_state \<Rightarrow> u32 \<Rightarrow> int \<Rightarrow> (c_error + odp_state) option" where
  "odp_packet_has_udp_set st pkt val = setflag st pkt IF_udp val"

definition odp_packet_has_tcp_set :: "odp_state \<Rightarrow> u32 \<Rightarrow> int \<Rightarrow> (c_error + odp_state) option" where
  "odp_packet_has_tcp_set st pkt val = setflag st pkt IF_tcp val"

definition odp_packet_has_sctp_set :: "odp_state \<Rightarrow> u32 \<Rightarrow> int \<Rightarrow> (c_error + odp_state) option" where
  "odp_packet_has_sctp_set st pkt val = setflag st pkt IF_sctp val"

definition odp_packet_has_icmp_set :: "odp_state \<Rightarrow> u32 \<Rightarrow> int \<Rightarrow> (c_error + odp_state) option" where
  "odp_packet_has_icmp_set st pkt val = setflag st pkt IF_icmp val"

section \<open>The flags as independent bits\<close>

lemma set_input_flag_frame [simp]:
  "buf_hdr (set_input_flag f v h) = buf_hdr h" "packet_ok (set_input_flag f v h) = packet_ok h"
  "frame_len (set_input_flag f v h) = frame_len h" "error_flags (set_input_flag f v h) = error_flags h"
  by (simp_all add: set_input_flag_def packet_ok_def)

text \<open>Lazy parsing of a live packet: afterwards it counts as parsed, and parsing again does nothing.\<close>

lemma parse_if_needed_live:
  assumes a: "live st i B a" and len: "0 < frame_len (hdrs (heap st) a)" "unat (frame_len (hdrs (heap st) a)) \<le> 2 ^ 31"
  obtains h where "parse_if_needed (mem (heap st)) (hdrs (heap st) a) = Some (Inr h)" "\<not> input_flag IF_unparsed h"
    "packet_ok h" "buf_hdr h = bhdr (heap st) a" "frame_len h = frame_len (hdrs (heap st) a)"
proof (cases "input_flag IF_unparsed (hdrs (heap st) a)")
  case True
  obtain r h' where p: "odp_packet_parse (mem (heap st)) (hdrs (heap st) a) = Some (Inr (r, h'))"
    "same_data ((hdrs (heap st) a)\<lparr>l2_offset := 0\<rparr>) h'" "packet_ok h'" "parsed h'"
    using odp_packet_parse_total [OF liveD(4) [OF a] len] by blast
  then show ?thesis using True that by (simp add: parse_if_needed_def parsed_def same_data_def)
next
  case False
  then show ?thesis using that liveD(4) [OF a] by (simp add: parse_if_needed_def)
qed

lemma after_parse_live:
  assumes a: "live st i B a" and p: "parse_if_needed (mem (heap st)) (hdrs (heap st) a) = Some (Inr h)"
    and f: "f h = Inr (x, h1)"
  shows "after_parse st (handle_of st a) f = Some (Inr (x, put_hdr a h1 st))"
  using liveD(5) [OF a] p f by (simp add: after_parse_def)

text \<open>
  C14: The flags behave like independent bits. Every getter and setter returns on a live packet and keeps it well formed,
  reading a flag parses the packet at most once, and after setting one flag that flag reads as the
  lowest bit of the value given and every other flag reads as before.
\<close>

theorem setflag_retflag:
  assumes a: "live st i B a" and len: "0 < frame_len (hdrs (heap st) a)" "unat (frame_len (hdrs (heap st) a)) \<le> 2 ^ 31"
    and f: "f \<noteq> IF_unparsed"
  shows "\<exists>st' st1. setflag st (handle_of st a) f v = Some (Inr st') \<and> live st' i B a \<and> live st1 i B a \<and>
    (\<forall>g. \<exists>b. retflag st (handle_of st a) g = Some (Inr (b, st1)) \<and> retflag st1 (handle_of st a) g = Some (Inr (b, st1)) \<and>
      retflag st' (handle_of st a) g = Some (Inr (if g = f then odd v else b, st')))"
proof -
  obtain h where p: "parse_if_needed (mem (heap st)) (hdrs (heap st) a) = Some (Inr h)" "\<not> input_flag IF_unparsed h"
    "packet_ok h" "buf_hdr h = bhdr (heap st) a" by (rule parse_if_needed_live [OF a len])
  let ?h' = "set_input_flag f (odd v) h"
  let ?st1 = "put_hdr a h st" and ?st' = "put_hdr a ?h' st"
  have l1: "live ?st1 i B a" and l': "live ?st' i B a"
    by (rule live_put_hdr [OF a]; use p in simp)+
  have n: "parse_if_needed m h = Some (Inr h)" "parse_if_needed m ?h' = Some (Inr ?h')" for m
    using p(2) f by (simp_all add: parse_if_needed_def input_flag_set)
  have hd: "handle_of ?st1 a = handle_of st a" "handle_of ?st' a = handle_of st a" using p(4) by simp_all
  have "setflag st (handle_of st a) f v = Some (Inr ?st')"
    using after_parse_live [OF a p(1), of "\<lambda>h. Inr ((), set_input_flag f (odd v) h)" "()" ?h'] by (simp add: setflag_def)
  moreover have "retflag st (handle_of st a) g = Some (Inr (input_flag g h, ?st1))" for g
    unfolding retflag_def by (rule after_parse_live [OF a p(1)]) simp
  moreover have "retflag ?st1 (handle_of st a) g = Some (Inr (input_flag g h, ?st1))" for g
    using after_parse_live [OF l1, of h "\<lambda>h. Inr (input_flag g h, h)" "input_flag g h" h] n hd
    by (simp add: retflag_def put_hdr_again)
  moreover have "retflag ?st' (handle_of st a) g = Some (Inr (if g = f then odd v else input_flag g h, ?st'))" for g
    using after_parse_live [OF l', of ?h' "\<lambda>h. Inr (input_flag g h, h)" "input_flag g ?h'" ?h'] n hd
    by (simp add: retflag_def put_hdr_again input_flag_set)
  ultimately show ?thesis using l1 l' by blast
qed

theorem setflag_retflag_witness:
  "\<exists>st a st' st''. setflag st (handle_of st a) IF_udp 1 = Some (Inr st') \<and>
    odp_packet_has_udp st' (handle_of st a) = Some (Inr (True, st'')) \<and>
    (\<exists>b st1. odp_packet_has_tcp st (handle_of st a) = Some (Inr (b, st1)) \<and>
      odp_packet_has_tcp st' (handle_of st a) = Some (Inr (b, st'')))"
proof -
  obtain B a where l: "live demo_pkt_state 0 B a" "frame_len (hdrs (heap demo_pkt_state) a) = 100" using demo_live by blast
  have "0 < frame_len (hdrs (heap demo_pkt_state) a)" "unat (frame_len (hdrs (heap demo_pkt_state) a)) \<le> 2 ^ 31"
    using l(2) by simp_all
  from setflag_retflag [OF l(1) this, of IF_udp 1] obtain st' st1 where
    s: "setflag demo_pkt_state (handle_of demo_pkt_state a) IF_udp 1 = Some (Inr st')"
    and g: "\<And>g. \<exists>b. retflag demo_pkt_state (handle_of demo_pkt_state a) g = Some (Inr (b, st1)) \<and>
      retflag st' (handle_of demo_pkt_state a) g = Some (Inr (if g = IF_udp then odd (1 :: int) else b, st'))" by blast
  have "odp_packet_has_udp st' (handle_of demo_pkt_state a) = Some (Inr (True, st'))"
    using g [of IF_udp] by (auto simp: odp_packet_has_udp_def)
  moreover have "\<exists>b st1. odp_packet_has_tcp demo_pkt_state (handle_of demo_pkt_state a) = Some (Inr (b, st1)) \<and>
      odp_packet_has_tcp st' (handle_of demo_pkt_state a) = Some (Inr (b, st'))"
    using g [of IF_tcp] by (auto simp: odp_packet_has_tcp_def)
  ultimately show ?thesis using s by blast
qed

end
