(* ===== verification/Odp_Fifo.thy ===== *)
theory Odp_Fifo
  imports Main
begin

text \<open>
  The contract of a first-in first-out container that may accept or deliver fewer elements than asked for.
  The ring of the helper library and the queues of the platform provide it.
\<close>

datatype 'a fifo_op = Enq "'a list" | Deq nat

text \<open>A run of operations: what went in, what came out, and the container at the end.\<close>

fun fifo_run ::
    "('a list \<Rightarrow> 'q \<Rightarrow> nat \<times> 'q) \<Rightarrow> (nat \<Rightarrow> 'q \<Rightarrow> 'a list \<times> 'q) \<Rightarrow> 'a fifo_op list \<Rightarrow> 'q
      \<Rightarrow> 'a list \<times> 'a list \<times> 'q" where
  "fifo_run enq deq [] q = ([], [], q)"
| "fifo_run enq deq (Enq xs # ops) q =
    (let (k, q1) = enq xs q; (ins, outs, q2) = fifo_run enq deq ops q1 in (take k xs @ ins, outs, q2))"
| "fifo_run enq deq (Deq n # ops) q =
    (let (ys, q1) = deq n q; (ins, outs, q2) = fifo_run enq deq ops q1 in (ins, ys @ outs, q2))"

text \<open>
  \<open>ok_args xs q\<close> is what a caller has to grant to enqueue \<open>xs\<close>, for instance that linked elements are not in the
  container already.
\<close>

fun fifo_ok ::
    "('a list \<Rightarrow> 'q \<Rightarrow> bool) \<Rightarrow> ('a list \<Rightarrow> 'q \<Rightarrow> nat \<times> 'q) \<Rightarrow> (nat \<Rightarrow> 'q \<Rightarrow> 'a list \<times> 'q) \<Rightarrow> 'a fifo_op list \<Rightarrow> 'q \<Rightarrow> bool" where
  "fifo_ok ok enq deq [] q = True"
| "fifo_ok ok enq deq (Enq xs # ops) q = (ok xs q \<and> fifo_ok ok enq deq ops (snd (enq xs q)))"
| "fifo_ok ok enq deq (Deq n # ops) q = fifo_ok ok enq deq ops (snd (deq n q))"

locale fifo =
  fixes invar :: "'q \<Rightarrow> bool"
    and contents :: "'q \<Rightarrow> 'a list"
    and enq :: "'a list \<Rightarrow> 'q \<Rightarrow> nat \<times> 'q"
    and deq :: "nat \<Rightarrow> 'q \<Rightarrow> 'a list \<times> 'q"
    and ok_args :: "'a list \<Rightarrow> 'q \<Rightarrow> bool"
  assumes enq_fifo: "invar q \<Longrightarrow> ok_args xs q \<Longrightarrow> enq xs q = (k, q') \<Longrightarrow>
      invar q' \<and> k \<le> length xs \<and> contents q' = contents q @ take k xs"
    and deq_fifo: "invar q \<Longrightarrow> deq n q = (ys, q') \<Longrightarrow>
      invar q' \<and> length ys \<le> n \<and> contents q = ys @ contents q'"
begin

text \<open>Nothing is lost, duplicated or reordered.\<close>

lemma run_fifo:
  assumes "invar q" "fifo_ok ok_args enq deq ops q" "fifo_run enq deq ops q = (ins, outs, q')"
  shows "invar q' \<and> contents q @ ins = outs @ contents q'"
  using assms
proof (induction ops arbitrary: q ins outs q')
  case (Cons op ops)
  show ?case
  proof (cases op)
    case (Enq xs)
    obtain k q1 where e: "enq xs q = (k, q1)" by fastforce
    obtain ins1 outs1 q2 where r: "fifo_run enq deq ops q1 = (ins1, outs1, q2)" by (metis prod_cases3)
    have q1: "invar q1" "contents q1 = contents q @ take k xs"
      using enq_fifo [OF Cons.prems(1) _ e] Cons.prems(2) Enq by auto
    then show ?thesis using Cons.IH [OF q1(1) _ r] Cons.prems(2,3) e r Enq by auto
  next
    case (Deq n)
    obtain ys q1 where e: "deq n q = (ys, q1)" by fastforce
    obtain ins1 outs1 q2 where r: "fifo_run enq deq ops q1 = (ins1, outs1, q2)" by (metis prod_cases3)
    have q1: "invar q1" "contents q = ys @ contents q1" using deq_fifo [OF Cons.prems(1) e] by auto
    then show ?thesis using Cons.IH [OF q1(1) _ r] Cons.prems(2,3) e r Deq by auto
  qed
qed simp

end

end
