(* ===== verification/Odph_Ring.thy ===== *)
theory Odph_Ring
  imports Odp_Config Odp_Fifo
begin

text \<open>
  The lock-free ring of the helper library (\<open>helper/ring.c\<close>, \<open>ring.h\<close>): creation and lookup, the four enqueue and
  dequeue routines with their index arithmetic modulo \<open>2\<^sup>3\<^sup>2\<close> and their unrolled copies, and the
  entry points made from them. A call runs here without interference from other
  threads; \<open>Odph_Ring_Mt\<close> has the interleavings.
\<close>

section \<open>Types\<close>

datatype ring_behavior = ODPH_RING_QUEUE_FIXED | ODPH_RING_QUEUE_VARIABLE

definition ODPH_RING_NAMESIZE :: nat where "ODPH_RING_NAMESIZE = 32"
definition ODPH_RING_F_SP_ENQ :: u32 where "ODPH_RING_F_SP_ENQ = 1"
definition ODPH_RING_F_SC_DEQ :: u32 where "ODPH_RING_F_SC_DEQ = 2"
definition ODPH_RING_QUOT_EXCEED :: u32 where "ODPH_RING_QUOT_EXCEED = 0x80000000"
definition ODPH_RING_SZ_MASK :: u32 where "ODPH_RING_SZ_MASK = 0x0fffffff"

definition ENOENT :: int where "ENOENT = 2"
definition EINVAL :: int where "EINVAL = 22"
definition ENOBUFS :: int where "ENOBUFS = 105"
definition EDQUOT :: int where "EDQUOT = 122"

lemmas ring_const_defs [simp] =
  ODPH_RING_NAMESIZE_def ODPH_RING_F_SP_ENQ_def ODPH_RING_F_SC_DEQ_def ODPH_RING_QUOT_EXCEED_def ODPH_RING_SZ_MASK_def
  ENOENT_def EINVAL_def ENOBUFS_def EDQUOT_def

record ring_prod =
  pr_watermark :: u32
  pr_sp_enqueue :: bool
  pr_size :: u32
  pr_mask :: u32
  pr_head :: u32
  pr_tail :: u32

record ring_cons =
  co_sc_dequeue :: bool
  co_size :: u32
  co_mask :: u32
  co_head :: u32
  co_tail :: u32

record odph_ring =
  rg_name :: string
  rg_flags :: u32
  prod :: ring_prod
  cons :: ring_cons
  slots :: "addr list"

section \<open>The copies\<close>

text \<open>One assignment \<open>r->ring[idx] = obj_table[i]\<close>, and the reverse direction into the table.\<close>

definition put_slot :: "addr list \<Rightarrow> nat \<Rightarrow> nat \<Rightarrow> addr list \<Rightarrow> c_error + addr list" where
  "put_slot obj_table i idx ring =
    (if i < length obj_table \<and> idx < length ring then Inr (ring[idx := obj_table ! i]) else Inl Out_Of_Bounds)"

text \<open>The loop unrolled four times, the switch that falls through, and the two loops of the branch that wraps.\<close>

function enq_by_four :: "addr list \<Rightarrow> nat \<Rightarrow> nat \<Rightarrow> nat \<Rightarrow> addr list \<Rightarrow> c_error + (nat \<times> nat \<times> addr list)" where
  "enq_by_four obj_table lim i idx ring =
    (if i < lim
     then and_then (put_slot obj_table i idx ring) (\<lambda>ring1.
          and_then (put_slot obj_table (i + 1) (idx + 1) ring1) (\<lambda>ring2.
          and_then (put_slot obj_table (i + 2) (idx + 2) ring2) (\<lambda>ring3.
          and_then (put_slot obj_table (i + 3) (idx + 3) ring3) (\<lambda>ring4.
            enq_by_four obj_table lim (i + 4) (idx + 4) ring4))))
     else Inr (i, idx, ring))"
  by pat_completeness auto
termination by (relation "measure (\<lambda>(obj, lim, i, idx, ring). lim - i)") auto

definition enq_switch :: "addr list \<Rightarrow> nat \<Rightarrow> nat \<Rightarrow> nat \<Rightarrow> addr list \<Rightarrow> c_error + addr list" where
  "enq_switch obj_table rest i idx ring =
    (let one = (\<lambda>(i, idx, ring). and_then (put_slot obj_table i idx ring) (\<lambda>ring1. Inr (i + 1, idx + 1, ring1)));
         case1 = (\<lambda>s. and_then (one s) (\<lambda>(_, _, ring). Inr ring));
         case2 = (\<lambda>s. and_then (one s) case1);
         case3 = (\<lambda>s. and_then (one s) case2)
     in if rest = 3 then case3 (i, idx, ring)
        else if rest = 2 then case2 (i, idx, ring)
        else if rest = 1 then case1 (i, idx, ring)
        else Inr ring)"

function enq_to_end :: "addr list \<Rightarrow> nat \<Rightarrow> nat \<Rightarrow> nat \<Rightarrow> addr list \<Rightarrow> c_error + (nat \<times> addr list)" where
  "enq_to_end obj_table sz i idx ring =
    (if idx < sz
     then and_then (put_slot obj_table i idx ring) (enq_to_end obj_table sz (i + 1) (idx + 1))
     else Inr (i, ring))"
  by pat_completeness auto
termination by (relation "measure (\<lambda>(obj, sz, i, idx, ring). sz - idx)") auto

function enq_rest :: "addr list \<Rightarrow> nat \<Rightarrow> nat \<Rightarrow> nat \<Rightarrow> addr list \<Rightarrow> c_error + addr list" where
  "enq_rest obj_table n i idx ring =
    (if i < n
     then and_then (put_slot obj_table i idx ring) (enq_rest obj_table n (i + 1) (idx + 1))
     else Inr ring)"
  by pat_completeness auto
termination by (relation "measure (\<lambda>(obj, n, i, idx, ring). n - i)") auto

declare enq_by_four.simps [simp del] enq_to_end.simps [simp del] enq_rest.simps [simp del]

definition ENQUEUE_PTRS :: "odph_ring \<Rightarrow> addr list \<Rightarrow> u32 \<Rightarrow> u32 \<Rightarrow> u32 \<Rightarrow> c_error + addr list" where
  "ENQUEUE_PTRS r obj_table n prod_head msk =
    (let sz = pr_size (prod r); idx = prod_head AND msk
     in if idx + n < sz
        then and_then (enq_by_four obj_table (unat (n AND NOT 3)) 0 (unat idx) (slots r))
          (\<lambda>(i, idx1, ring). enq_switch obj_table (unat (n AND 3)) i idx1 ring)
        else and_then (enq_to_end obj_table (unat sz) 0 (unat idx) (slots r))
          (\<lambda>(i, ring). enq_rest obj_table (unat n) i 0 ring))"

text \<open>
  The copy out of the ring has the same shape with source and target exchanged: \<open>obj_table[i] = r->ring[idx]\<close>. The
  table is what the caller passes in; its length bounds the writes.
\<close>

function deq_by_four :: "addr list \<Rightarrow> nat \<Rightarrow> nat \<Rightarrow> nat \<Rightarrow> addr list \<Rightarrow> c_error + (nat \<times> nat \<times> addr list)" where
  "deq_by_four ring lim i idx obj_table =
    (if i < lim
     then and_then (put_slot ring idx i obj_table) (\<lambda>t1.
          and_then (put_slot ring (idx + 1) (i + 1) t1) (\<lambda>t2.
          and_then (put_slot ring (idx + 2) (i + 2) t2) (\<lambda>t3.
          and_then (put_slot ring (idx + 3) (i + 3) t3) (\<lambda>t4.
            deq_by_four ring lim (i + 4) (idx + 4) t4))))
     else Inr (i, idx, obj_table))"
  by pat_completeness auto
termination by (relation "measure (\<lambda>(ring, lim, i, idx, obj). lim - i)") auto

definition deq_switch :: "addr list \<Rightarrow> nat \<Rightarrow> nat \<Rightarrow> nat \<Rightarrow> addr list \<Rightarrow> c_error + addr list" where
  "deq_switch ring rest i idx obj_table = enq_switch ring rest idx i obj_table"

function deq_to_end :: "addr list \<Rightarrow> nat \<Rightarrow> nat \<Rightarrow> nat \<Rightarrow> addr list \<Rightarrow> c_error + (nat \<times> addr list)" where
  "deq_to_end ring sz i idx obj_table =
    (if idx < sz
     then and_then (put_slot ring idx i obj_table) (deq_to_end ring sz (i + 1) (idx + 1))
     else Inr (i, obj_table))"
  by pat_completeness auto
termination by (relation "measure (\<lambda>(ring, sz, i, idx, obj). sz - idx)") auto

function deq_rest :: "addr list \<Rightarrow> nat \<Rightarrow> nat \<Rightarrow> nat \<Rightarrow> addr list \<Rightarrow> c_error + addr list" where
  "deq_rest ring n i idx obj_table =
    (if i < n
     then and_then (put_slot ring idx i obj_table) (deq_rest ring n (i + 1) (idx + 1))
     else Inr obj_table)"
  by pat_completeness auto
termination by (relation "measure (\<lambda>(ring, n, i, idx, obj). n - i)") auto

declare deq_by_four.simps [simp del] deq_to_end.simps [simp del] deq_rest.simps [simp del]

definition DEQUEUE_PTRS :: "odph_ring \<Rightarrow> addr list \<Rightarrow> u32 \<Rightarrow> u32 \<Rightarrow> u32 \<Rightarrow> c_error + addr list" where
  "DEQUEUE_PTRS r obj_table n cons_head msk =
    (let sz = co_size (cons r); idx = cons_head AND msk
     in if idx + n < sz
        then and_then (deq_by_four (slots r) (unat (n AND NOT 3)) 0 (unat idx) obj_table)
          (\<lambda>(i, idx1, table). deq_switch (slots r) (unat (n AND 3)) i idx1 table)
        else and_then (deq_to_end (slots r) (unat sz) 0 (unat idx) obj_table)
          (\<lambda>(i, table). deq_rest (slots r) (unat n) i 0 table))"

section \<open>Enqueue and dequeue\<close>

text \<open>
  How many objects a call moves: \<open>Inl\<close> is an early return. \<open>room\<close> is \<open>free_entries\<close> or \<open>entries\<close>, \<open>err\<close> the error of a
  call that wants all or nothing.
\<close>

definition ring_amount :: "int \<Rightarrow> ring_behavior \<Rightarrow> u32 \<Rightarrow> u32 \<Rightarrow> int + u32" where
  "ring_amount err behavior n room =
    (if n > room
     then if behavior = ODPH_RING_QUEUE_FIXED then Inl (- err)
          else if room = 0 then Inl 0 else Inr room
     else Inr n)"

text \<open>The result of an enqueue; the cast to \<open>int\<close> makes the quota bit the sign.\<close>

definition enqueue_ret :: "odph_ring \<Rightarrow> ring_behavior \<Rightarrow> u32 \<Rightarrow> u32 \<Rightarrow> int" where
  "enqueue_ret r behavior free_entries n =
    (if (pr_mask (prod r) + 1) - free_entries + n > pr_watermark (prod r)
     then if behavior = ODPH_RING_QUEUE_FIXED then - EDQUOT else sint (n OR ODPH_RING_QUOT_EXCEED)
     else if behavior = ODPH_RING_QUEUE_FIXED then 0 else sint n)"

definition dequeue_ret :: "ring_behavior \<Rightarrow> u32 \<Rightarrow> int" where
  "dequeue_ret behavior n = (if behavior = ODPH_RING_QUEUE_FIXED then 0 else sint n)"

definition ring_sp_do_enqueue ::
    "odph_ring \<Rightarrow> addr list \<Rightarrow> u32 \<Rightarrow> ring_behavior \<Rightarrow> c_error + (int \<times> odph_ring)" where
  "ring_sp_do_enqueue r obj_table n behavior =
    (let msk = pr_mask (prod r); prod_head = pr_head (prod r); cons_tail = co_tail (cons r);
         free_entries = msk + cons_tail - prod_head
     in case ring_amount ENOBUFS behavior n free_entries of
          Inl ret \<Rightarrow> Inr (ret, r)
        | Inr n1 \<Rightarrow>
            let prod_next = prod_head + n1;
                r1 = r\<lparr>prod := (prod r)\<lparr>pr_head := prod_next\<rparr>\<rparr>
            in and_then (ENQUEUE_PTRS r1 obj_table n1 prod_head msk)
              (\<lambda>ring. Inr (enqueue_ret r1 behavior free_entries n1,
                           r1\<lparr>prod := (prod r1)\<lparr>pr_tail := prod_next\<rparr>, slots := ring\<rparr>)))"

text \<open>
  Without interference the compare-and-swap of the multi-producer routine succeeds at once. Its wait for earlier
  producers is a loop that ends at once or, when \<open>prod.tail\<close> is behind and nobody moves it, never: \<open>None\<close>.
\<close>

definition ring_mp_do_enqueue ::
    "odph_ring \<Rightarrow> addr list \<Rightarrow> u32 \<Rightarrow> ring_behavior \<Rightarrow> (c_error + (int \<times> odph_ring)) option" where
  "ring_mp_do_enqueue r obj_table n behavior =
    (let msk = pr_mask (prod r); prod_head = pr_head (prod r); cons_tail = co_tail (cons r);
         free_entries = msk + cons_tail - prod_head
     in case ring_amount ENOBUFS behavior n free_entries of
          Inl ret \<Rightarrow> Some (Inr (ret, r))
        | Inr n1 \<Rightarrow>
            let prod_next = prod_head + n1;
                r1 = r\<lparr>prod := (prod r)\<lparr>pr_head := prod_next\<rparr>\<rparr>
            in (case ENQUEUE_PTRS r1 obj_table n1 prod_head msk of
                  Inl e \<Rightarrow> Some (Inl e)
                | Inr ring \<Rightarrow>
                    if pr_tail (prod r1) \<noteq> prod_head then None
                    else Some (Inr (enqueue_ret r1 behavior free_entries n1,
                               r1\<lparr>prod := (prod r1)\<lparr>pr_tail := prod_next\<rparr>, slots := ring\<rparr>))))"

text \<open>The dequeue routines return the table with the objects they copied in.\<close>

definition ring_sc_do_dequeue ::
    "odph_ring \<Rightarrow> addr list \<Rightarrow> u32 \<Rightarrow> ring_behavior \<Rightarrow> c_error + (int \<times> addr list \<times> odph_ring)" where
  "ring_sc_do_dequeue r obj_table n behavior =
    (let msk = pr_mask (prod r); cons_head = co_head (cons r); prod_tail = pr_tail (prod r);
         entries = prod_tail - cons_head
     in case ring_amount ENOENT behavior n entries of
          Inl ret \<Rightarrow> Inr (ret, obj_table, r)
        | Inr n1 \<Rightarrow>
            let cons_next = cons_head + n1;
                r1 = r\<lparr>cons := (cons r)\<lparr>co_head := cons_next\<rparr>\<rparr>
            in and_then (DEQUEUE_PTRS r1 obj_table n1 cons_head msk)
              (\<lambda>table. Inr (dequeue_ret behavior n1, table, r1\<lparr>cons := (cons r1)\<lparr>co_tail := cons_next\<rparr>\<rparr>)))"

definition ring_mc_do_dequeue ::
    "odph_ring \<Rightarrow> addr list \<Rightarrow> u32 \<Rightarrow> ring_behavior \<Rightarrow> (c_error + (int \<times> addr list \<times> odph_ring)) option" where
  "ring_mc_do_dequeue r obj_table n behavior =
    (let msk = pr_mask (prod r); cons_head = co_head (cons r); prod_tail = pr_tail (prod r);
         entries = prod_tail - cons_head
     in case ring_amount ENOENT behavior n entries of
          Inl ret \<Rightarrow> Some (Inr (ret, obj_table, r))
        | Inr n1 \<Rightarrow>
            let cons_next = cons_head + n1;
                r1 = r\<lparr>cons := (cons r)\<lparr>co_head := cons_next\<rparr>\<rparr>
            in (case DEQUEUE_PTRS r1 obj_table n1 cons_head msk of
                  Inl e \<Rightarrow> Some (Inl e)
                | Inr table \<Rightarrow>
                    if co_tail (cons r1) \<noteq> cons_head then None
                    else Some (Inr (dequeue_ret behavior n1, table, r1\<lparr>cons := (cons r1)\<lparr>co_tail := cons_next\<rparr>\<rparr>))))"

definition odph_ring_mp_enqueue_bulk where
  "odph_ring_mp_enqueue_bulk r obj_table n = ring_mp_do_enqueue r obj_table n ODPH_RING_QUEUE_FIXED"

definition odph_ring_sp_enqueue_bulk where
  "odph_ring_sp_enqueue_bulk r obj_table n = ring_sp_do_enqueue r obj_table n ODPH_RING_QUEUE_FIXED"

definition odph_ring_mc_dequeue_bulk where
  "odph_ring_mc_dequeue_bulk r obj_table n = ring_mc_do_dequeue r obj_table n ODPH_RING_QUEUE_FIXED"

definition odph_ring_sc_dequeue_bulk where
  "odph_ring_sc_dequeue_bulk r obj_table n = ring_sc_do_dequeue r obj_table n ODPH_RING_QUEUE_FIXED"

definition odph_ring_mp_enqueue_burst where
  "odph_ring_mp_enqueue_burst r obj_table n = ring_mp_do_enqueue r obj_table n ODPH_RING_QUEUE_VARIABLE"

definition odph_ring_sp_enqueue_burst where
  "odph_ring_sp_enqueue_burst r obj_table n = ring_sp_do_enqueue r obj_table n ODPH_RING_QUEUE_VARIABLE"

definition odph_ring_mc_dequeue_burst where
  "odph_ring_mc_dequeue_burst r obj_table n = ring_mc_do_dequeue r obj_table n ODPH_RING_QUEUE_VARIABLE"

definition odph_ring_sc_dequeue_burst where
  "odph_ring_sc_dequeue_burst r obj_table n = ring_sc_do_dequeue r obj_table n ODPH_RING_QUEUE_VARIABLE"

definition odph_ring_enqueue_burst where
  "odph_ring_enqueue_burst r obj_table n =
    (if pr_sp_enqueue (prod r) then Some (odph_ring_sp_enqueue_burst r obj_table n)
     else odph_ring_mp_enqueue_burst r obj_table n)"

definition odph_ring_dequeue_burst where
  "odph_ring_dequeue_burst r obj_table n =
    (if co_sc_dequeue (cons r) then Some (odph_ring_sc_dequeue_burst r obj_table n)
     else odph_ring_mc_dequeue_burst r obj_table n)"

section \<open>State of a ring\<close>

definition odph_ring_set_water_mark :: "odph_ring \<Rightarrow> u32 \<Rightarrow> int \<times> odph_ring" where
  "odph_ring_set_water_mark r count =
    (if count \<ge> pr_size (prod r) then (- EINVAL, r)
     else (0, r\<lparr>prod := (prod r)\<lparr>pr_watermark := if count = 0 then pr_size (prod r) else count\<rparr>\<rparr>))"

definition odph_ring_full :: "odph_ring \<Rightarrow> bool" where
  "odph_ring_full r \<longleftrightarrow> (co_tail (cons r) - pr_tail (prod r) - 1) AND pr_mask (prod r) = 0"

definition odph_ring_empty :: "odph_ring \<Rightarrow> bool" where
  "odph_ring_empty r \<longleftrightarrow> co_tail (cons r) = pr_tail (prod r)"

definition odph_ring_count :: "odph_ring \<Rightarrow> u32" where
  "odph_ring_count r = (pr_tail (prod r) - co_tail (cons r)) AND pr_mask (prod r)"

definition odph_ring_free_count :: "odph_ring \<Rightarrow> u32" where
  "odph_ring_free_count r = (co_tail (cons r) - pr_tail (prod r) - 1) AND pr_mask (prod r)"

section \<open>Creation and lookup\<close>

text \<open>
  The list of all rings, in the order of creation. The shared memory service is a parameter: \<open>shm_alloc name size\<close> tells
  whether \<open>odp_shm_reserve\<close> and \<open>odp_shm_addr\<close> give memory, and with what contents of the slots.
\<close>

definition RING_VAL_IS_POWER_2 :: "u32 \<Rightarrow> bool" where
  "RING_VAL_IS_POWER_2 x \<longleftrightarrow> (x - 1) AND x = 0"

definition ring_init :: "string \<Rightarrow> u32 \<Rightarrow> u32 \<Rightarrow> addr list \<Rightarrow> odph_ring" where
  "ring_init name count flags mem0 =
    \<lparr>rg_name = take (ODPH_RING_NAMESIZE - 1) name, rg_flags = flags,
     prod = \<lparr>pr_watermark = count, pr_sp_enqueue = (flags AND ODPH_RING_F_SP_ENQ \<noteq> 0),
             pr_size = count, pr_mask = count - 1, pr_head = 0, pr_tail = 0\<rparr>,
     cons = \<lparr>co_sc_dequeue = (flags AND ODPH_RING_F_SC_DEQ \<noteq> 0),
             co_size = count, co_mask = count - 1, co_head = 0, co_tail = 0\<rparr>,
     slots = mem0\<rparr>"

definition odph_ring_create ::
    "(string \<Rightarrow> u32 \<Rightarrow> addr list option) \<Rightarrow> string \<Rightarrow> u32 \<Rightarrow> u32 \<Rightarrow> odph_ring list \<Rightarrow> odph_ring option \<times> odph_ring list" where
  "odph_ring_create shm_alloc name count flags rings =
    (if \<not> RING_VAL_IS_POWER_2 count \<or> count > ODPH_RING_SZ_MASK then (None, rings)
     else case shm_alloc (take (ODPH_RING_NAMESIZE - 1) name) count of
            None \<Rightarrow> (None, rings)
          | Some mem0 \<Rightarrow> let r = ring_init name count flags mem0 in (Some r, rings @ [r]))"

text \<open>\<open>strncmp\<close> of at most \<open>ODPH_RING_NAMESIZE\<close> characters of two terminated strings.\<close>

definition odph_ring_lookup :: "string \<Rightarrow> odph_ring list \<Rightarrow> odph_ring option" where
  "odph_ring_lookup name rings =
    find (\<lambda>r. take ODPH_RING_NAMESIZE name = take ODPH_RING_NAMESIZE (rg_name r)) rings"

end
