(* ===== verification/Odph_Ring_Mt.thy ===== *)
theory Odph_Ring_Mt
  imports Odph_Ring
begin

text \<open>
  The multi-producer and multi-consumer routines of the ring (\<open>helper/ring.c\<close>) as threads interleave them. Each access to the indices of the
  ring and each copy of an object is one step. A routine is the step it makes from each point it can be at, with the local variables that
  are live there. The copies go through the slots in the order of the unrolled loops.
\<close>

datatype ring_pc =
    R_Idle
  | R_Return int "addr list"
  | R_Abort c_error
  | MP_Head "addr list" u32 ring_behavior
  | MP_Tail "addr list" u32 ring_behavior u32
  | MP_Cas "addr list" u32 ring_behavior u32 u32 u32
  | MP_Copy "addr list" ring_behavior u32 u32 u32 nat
  | MP_Wait int "addr list" u32 u32
  | MC_Head "addr list" u32 ring_behavior
  | MC_Tail "addr list" u32 ring_behavior u32
  | MC_Cas "addr list" u32 ring_behavior u32 u32
  | MC_Copy "addr list" ring_behavior u32 u32 nat
  | MC_Wait "addr list" ring_behavior u32 u32

definition ring_slot :: "odph_ring \<Rightarrow> u32 \<Rightarrow> nat \<Rightarrow> nat" where
  "ring_slot r h i = unat ((h + of_nat i) AND pr_mask (prod r))"

fun ring_mp_do_enqueue_step :: "ring_pc \<Rightarrow> odph_ring \<Rightarrow> ring_pc \<times> odph_ring" where
  "ring_mp_do_enqueue_step (MP_Head obj_table mx behavior) r = (MP_Tail obj_table mx behavior (pr_head (prod r)), r)"
| "ring_mp_do_enqueue_step (MP_Tail obj_table mx behavior prod_head) r =
    (let free_entries = pr_mask (prod r) + co_tail (cons r) - prod_head
     in case ring_amount ENOBUFS behavior mx free_entries of
          Inl ret \<Rightarrow> (R_Return ret obj_table, r)
        | Inr n \<Rightarrow> (MP_Cas obj_table mx behavior prod_head free_entries n, r))"
| "ring_mp_do_enqueue_step (MP_Cas obj_table mx behavior prod_head free_entries n) r =
    (if pr_head (prod r) = prod_head
     then (MP_Copy obj_table behavior prod_head free_entries n 0, r\<lparr>prod := (prod r)\<lparr>pr_head := prod_head + n\<rparr>\<rparr>)
     else (MP_Head obj_table mx behavior, r))"
| "ring_mp_do_enqueue_step (MP_Copy obj_table behavior prod_head free_entries n i) r =
    (if i < unat n
     then (case put_slot obj_table i (ring_slot r prod_head i) (slots r) of
             Inl e \<Rightarrow> (R_Abort e, r)
           | Inr ring \<Rightarrow> (MP_Copy obj_table behavior prod_head free_entries n (i + 1), r\<lparr>slots := ring\<rparr>))
     else (MP_Wait (enqueue_ret r behavior free_entries n) obj_table prod_head n, r))"
| "ring_mp_do_enqueue_step (MP_Wait ret obj_table prod_head n) r =
    (if pr_tail (prod r) \<noteq> prod_head then (MP_Wait ret obj_table prod_head n, r)
     else (R_Return ret obj_table, r\<lparr>prod := (prod r)\<lparr>pr_tail := prod_head + n\<rparr>\<rparr>))"
| "ring_mp_do_enqueue_step p r = (p, r)"

fun ring_mc_do_dequeue_step :: "ring_pc \<Rightarrow> odph_ring \<Rightarrow> ring_pc \<times> odph_ring" where
  "ring_mc_do_dequeue_step (MC_Head obj_table mx behavior) r = (MC_Tail obj_table mx behavior (co_head (cons r)), r)"
| "ring_mc_do_dequeue_step (MC_Tail obj_table mx behavior cons_head) r =
    (let entries = pr_tail (prod r) - cons_head
     in case ring_amount ENOENT behavior mx entries of
          Inl ret \<Rightarrow> (R_Return ret obj_table, r)
        | Inr n \<Rightarrow> (MC_Cas obj_table mx behavior cons_head n, r))"
| "ring_mc_do_dequeue_step (MC_Cas obj_table mx behavior cons_head n) r =
    (if co_head (cons r) = cons_head
     then (MC_Copy obj_table behavior cons_head n 0, r\<lparr>cons := (cons r)\<lparr>co_head := cons_head + n\<rparr>\<rparr>)
     else (MC_Head obj_table mx behavior, r))"
| "ring_mc_do_dequeue_step (MC_Copy obj_table behavior cons_head n i) r =
    (if i < unat n
     then (case put_slot (slots r) (ring_slot r cons_head i) i obj_table of
             Inl e \<Rightarrow> (R_Abort e, r)
           | Inr table \<Rightarrow> (MC_Copy table behavior cons_head n (i + 1), r))
     else (MC_Wait obj_table behavior cons_head n, r))"
| "ring_mc_do_dequeue_step (MC_Wait obj_table behavior cons_head n) r =
    (if co_tail (cons r) \<noteq> cons_head then (MC_Wait obj_table behavior cons_head n, r)
     else (R_Return (dequeue_ret behavior n) obj_table, r\<lparr>cons := (cons r)\<lparr>co_tail := cons_head + n\<rparr>\<rparr>))"
| "ring_mc_do_dequeue_step p r = (p, r)"

end
