(* ===== verification/Odph_Ring_Correct.thy ===== *)
theory Odph_Ring_Correct
  imports Odph_Ring
begin

text \<open>
  The ring of the helper library is a bounded FIFO: the unrolled copies against consecutive slots modulo the size, the index
  arithmetic modulo \<open>2\<^sup>3\<^sup>2\<close>, every branch of the calls, and the interpretation of the FIFO contract.
\<close>

section \<open>The copies against a reference\<close>

lemma put_slot_in [simp]:
  "i < length obj \<Longrightarrow> idx < length ring \<Longrightarrow> put_slot obj i idx ring = Inr (ring[idx := obj ! i])"
  by (simp add: put_slot_def)

lemma overwrite_0 [simp]: "overwrite idx [] ring = ring"
  by (simp add: overwrite_def)

lemma overwrite_step:
  assumes "i + Suc c \<le> length obj" "idx + Suc c \<le> length ring"
  shows "overwrite (Suc idx) (take c (drop (Suc i) obj)) (ring[idx := obj ! i]) = overwrite idx (take (Suc c) (drop i obj)) ring"
proof -
  have "take (Suc c) (drop i obj) = obj ! i # take c (drop (Suc i) obj)"
    using assms by (simp flip: Cons_nth_drop_Suc)
  then show ?thesis using assms by (simp add: overwrite_def take_Suc_update min_def)
qed

lemma enq_rest_eq:
  assumes "n \<le> length obj" "idx + (n - i) \<le> length ring"
  shows "enq_rest obj n i idx ring = Inr (overwrite idx (take (n - i) (drop i obj)) ring)"
  using assms
proof (induction "n - i" arbitrary: i idx ring)
  case 0
  then show ?case by (subst enq_rest.simps) simp
next
  case (Suc c)
  have "i + Suc c \<le> length obj" "idx + Suc c \<le> length ring" using Suc.hyps(2) Suc.prems by linarith+
  note st = overwrite_step [OF this] and b = this
  have c: "n - i = Suc c" "n - Suc i = c" "i < n" using Suc.hyps(2) by linarith+
  have "enq_rest obj n i idx ring = enq_rest obj n (Suc i) (Suc idx) (ring[idx := obj ! i])"
    using b c(3) by (subst enq_rest.simps) simp
  then show ?case using Suc.hyps(1) [of "Suc i" "Suc idx" "ring[idx := obj ! i]"] b Suc.prems(1) unfolding c st by simp
qed

lemma enq_to_end_eq:
  assumes "i + (sz - idx) \<le> length obj" "sz \<le> length ring" "idx \<le> sz"
  shows "enq_to_end obj sz i idx ring = Inr (i + (sz - idx), overwrite idx (take (sz - idx) (drop i obj)) ring)"
  using assms
proof (induction "sz - idx" arbitrary: i idx ring)
  case 0
  then show ?case by (subst enq_to_end.simps) simp
next
  case (Suc c)
  have "i + Suc c \<le> length obj" "idx + Suc c \<le> length ring" using Suc.hyps(2) Suc.prems by linarith+
  note st = overwrite_step [OF this] and b = this
  have c: "sz - idx = Suc c" "sz - Suc idx = c" "idx < sz" using Suc.hyps(2) by linarith+
  have "enq_to_end obj sz i idx ring = enq_to_end obj sz (Suc i) (Suc idx) (ring[idx := obj ! i])"
    using b c(3) by (subst enq_to_end.simps) simp
  then show ?case
    using Suc.hyps(1) [of "Suc idx" "Suc i" "ring[idx := obj ! i]"] b Suc.prems(2) c(3) unfolding c st by simp
qed

text \<open>Four steps at a time, and up to three at the end.\<close>

lemma overwrite_four:
  assumes "i + 4 + c \<le> length obj" "idx + 4 + c \<le> length ring"
  shows "overwrite (idx + 4) (take c (drop (i + 4) obj))
      (ring[idx := obj ! i, idx + 1 := obj ! (i + 1), idx + 2 := obj ! (i + 2), idx + 3 := obj ! (i + 3)]) =
    overwrite idx (take (4 + c) (drop i obj)) ring"
  using assms overwrite_step [of i "3 + c" obj idx ring] overwrite_step [of "i + 1" "2 + c" obj "idx + 1" "ring[idx := obj ! i]"]
    overwrite_step [of "i + 2" "1 + c" obj "idx + 2" "ring[idx := obj ! i, idx + 1 := obj ! (i + 1)]"]
    overwrite_step [of "i + 3" c obj "idx + 3" "ring[idx := obj ! i, idx + 1 := obj ! (i + 1), idx + 2 := obj ! (i + 2)]"]
  by (simp add: numeral_eq_Suc)

lemma enq_by_four_eq:
  assumes "lim - i = 4 * m" "i \<le> lim" "lim \<le> length obj" "idx + (lim - i) \<le> length ring"
  shows "enq_by_four obj lim i idx ring = Inr (lim, idx + (lim - i), overwrite idx (take (lim - i) (drop i obj)) ring)"
  using assms
proof (induction m arbitrary: i idx ring)
  case 0
  then show ?case by (subst enq_by_four.simps) simp
next
  case (Suc m)
  let ?r = "ring[idx := obj ! i, idx + 1 := obj ! (i + 1), idx + 2 := obj ! (i + 2), idx + 3 := obj ! (i + 3)]"
  have b: "i + 4 + 4 * m \<le> length obj" "idx + 4 + 4 * m \<le> length ring" "i < lim" "lim - i = 4 + 4 * m" using Suc.prems by simp_all
  have "enq_by_four obj lim i idx ring = enq_by_four obj lim (i + 4) (idx + 4) ?r"
    using b by (subst enq_by_four.simps) simp
  also have "\<dots> = Inr (lim, idx + (lim - i), overwrite (idx + 4) (take (4 * m) (drop (i + 4) obj)) ?r)"
    using Suc.IH [of "i + 4" "idx + 4" ?r] b Suc.prems(3) by simp
  finally show ?case unfolding overwrite_four [OF b(1,2)] b(4) .
qed

lemma enq_switch_eq:
  assumes "i + rest \<le> length obj" "idx + rest \<le> length ring" "rest < 4"
  shows "enq_switch obj rest i idx ring = Inr (overwrite idx (take rest (drop i obj)) ring)"
proof -
  consider "rest = 0" | "rest = 1" | "rest = 2" | "rest = 3" using assms(3) by linarith
  then show ?thesis
  proof cases
    case 1 then show ?thesis by (simp add: enq_switch_def)
  next
    case 2 then show ?thesis using assms overwrite_step [of i 0 obj idx ring] by (simp add: enq_switch_def)
  next
    case 3 then show ?thesis
      using assms overwrite_step [of i 1 obj idx ring] overwrite_step [of "i + 1" 0 obj "idx + 1" "ring[idx := obj ! i]"]
      by (simp add: enq_switch_def numeral_eq_Suc)
  next
    case 4 then show ?thesis
      using assms overwrite_step [of i 2 obj idx ring] overwrite_step [of "i + 1" 1 obj "idx + 1" "ring[idx := obj ! i]"]
        overwrite_step [of "i + 2" 0 obj "idx + 2" "ring[idx := obj ! i, idx + 1 := obj ! (i + 1)]"]
      by (simp add: enq_switch_def numeral_eq_Suc)
  qed
qed

lemma overwrite_app:
  "idx + length xs + length ys \<le> length ring \<Longrightarrow>
    overwrite (idx + length xs) ys (overwrite idx xs ring) = overwrite idx (xs @ ys) ring"
  by (simp add: overwrite_def add.commute add.left_commute)

text \<open>The loops of the copy out are those of the copy in with the roles exchanged.\<close>

lemma deq_rest_enq: "deq_rest ring n i idx table = and_then (enq_to_end ring n idx i table) (\<lambda>(_, t). Inr t)"
proof (induction ring n i idx table rule: deq_rest.induct)
  case (1 ring n i idx table)
  show ?case
  proof (cases "i < n")
    case True
    then show ?thesis using 1
      by (subst deq_rest.simps, subst enq_to_end.simps) (cases "put_slot ring idx i table"; simp)
  next
    case False
    then show ?thesis by (subst deq_rest.simps, subst enq_to_end.simps) simp
  qed
qed

lemma deq_to_end_enq: "deq_to_end ring sz i idx table = and_then (enq_rest ring sz idx i table) (\<lambda>t. Inr (i + (sz - idx), t))"
proof (induction ring sz i idx table rule: deq_to_end.induct)
  case (1 ring sz i idx table)
  show ?case
  proof (cases "idx < sz")
    case True
    then have "Suc i + (sz - Suc idx) = i + (sz - idx)" by simp
    then show ?thesis using True 1
      by (subst deq_to_end.simps, subst enq_rest.simps) (cases "put_slot ring idx i table"; simp)
  next
    case False
    then show ?thesis by (subst deq_to_end.simps, subst enq_rest.simps) simp
  qed
qed

lemma deq_by_four_eq:
  assumes "lim - i = 4 * m" "i \<le> lim" "lim \<le> length table" "idx + (lim - i) \<le> length ring"
  shows "deq_by_four ring lim i idx table = Inr (lim, idx + (lim - i), overwrite i (take (lim - i) (drop idx ring)) table)"
  using assms
proof (induction m arbitrary: i idx table)
  case 0
  then show ?case by (subst deq_by_four.simps) simp
next
  case (Suc m)
  let ?t = "table[i := ring ! idx, i + 1 := ring ! (idx + 1), i + 2 := ring ! (idx + 2), i + 3 := ring ! (idx + 3)]"
  have b: "idx + 4 + 4 * m \<le> length ring" "i + 4 + 4 * m \<le> length table" "i < lim" "lim - i = 4 + 4 * m" using Suc.prems by simp_all
  have "deq_by_four ring lim i idx table = deq_by_four ring lim (i + 4) (idx + 4) ?t"
    using b by (subst deq_by_four.simps) simp
  also have "\<dots> = Inr (lim, idx + (lim - i), overwrite (i + 4) (take (4 * m) (drop (idx + 4) ring)) ?t)"
    using Suc.IH [of "i + 4" ?t "idx + 4"] b Suc.prems(3) by simp
  finally show ?case unfolding overwrite_four [OF b(1,2)] b(4) .
qed

section \<open>Index arithmetic\<close>

text \<open>The shape of a ring: a power of two of slots, and the mask that goes with it.\<close>

definition ring_wf :: "odph_ring \<Rightarrow> bool" where
  "ring_wf r \<longleftrightarrow> (\<exists>k<28. pr_size (prod r) = 2 ^ k) \<and> pr_mask (prod r) = pr_size (prod r) - 1 \<and>
    co_size (cons r) = pr_size (prod r) \<and> length (slots r) = unat (pr_size (prod r))"

abbreviation ring_sz :: "odph_ring \<Rightarrow> nat" where
  "ring_sz r \<equiv> unat (pr_size (prod r))"

lemma unat_pow2_u32: "k < 32 \<Longrightarrow> unat (2 ^ k :: u32) = 2 ^ k"
  using unat_of_nat_small [of "2 ^ k", where 'a = 32] power_strict_increasing [of k 32 "2 :: nat"] by simp

lemma and_mask_mod: "k < 32 \<Longrightarrow> unat ((x :: u32) AND (2 ^ k - 1)) = unat x mod 2 ^ k"
proof -
  have "x AND (2 ^ k - 1) = take_bit k x" by (simp add: take_bit_eq_mask mask_eq_exp_minus_1)
  then have "unat (x AND (2 ^ k - 1)) = take_bit k (unat x)" by simp
  then show ?thesis by (simp only: take_bit_eq_mod)
qed

lemma ring_wfD:
  assumes "ring_wf r"
  shows "0 < ring_sz r" "ring_sz r dvd 2 ^ 32" "ring_sz r \<le> 2 ^ 27" "unat (pr_mask (prod r)) = ring_sz r - 1"
    and "unat (x AND pr_mask (prod r)) = unat x mod ring_sz r" "co_size (cons r) = pr_size (prod r)"
    and "length (slots r) = ring_sz r"
proof -
  obtain k where k: "k < 28" "pr_size (prod r) = 2 ^ k" using assms by (auto simp: ring_wf_def)
  have sz: "ring_sz r = 2 ^ k" using k by (simp add: unat_pow2_u32)
  show pos: "0 < ring_sz r" "co_size (cons r) = pr_size (prod r)" "length (slots r) = ring_sz r"
    using assms sz by (simp_all add: ring_wf_def)
  show "ring_sz r dvd 2 ^ 32" unfolding sz using k(1) by (intro le_imp_power_dvd) simp
  have "(2 :: nat) ^ k \<le> 2 ^ 27" using k(1) by (intro power_increasing) simp_all
  then show "ring_sz r \<le> 2 ^ 27" by (simp only: sz)
  show "unat (pr_mask (prod r)) = ring_sz r - 1"
    using assms pos(1) by (simp add: ring_wf_def unat_sub_small Suc_le_eq)
  show "unat (x AND pr_mask (prod r)) = unat x mod ring_sz r"
    using assms k by (simp add: ring_wf_def and_mask_mod unat_pow2_u32)
qed

lemma unat_add_mod_dvd: "n dvd 2 ^ 32 \<Longrightarrow> unat ((x :: u32) + y) mod n = (unat x + unat y) mod n"
  by (simp add: unat_word_ariths mod_mod_cancel)

text \<open>The reference: \<open>ring_load\<close> reads, \<open>ring_store\<close> writes consecutive slots modulo the size.\<close>

definition ring_load :: "nat \<Rightarrow> nat \<Rightarrow> addr list \<Rightarrow> addr list" where
  "ring_load idx n ring = map (\<lambda>j. ring ! ((idx + j) mod length ring)) [0..<n]"

definition ring_store :: "nat \<Rightarrow> addr list \<Rightarrow> addr list \<Rightarrow> addr list" where
  "ring_store idx xs ring =
    (if idx + length xs \<le> length ring then overwrite idx xs ring
     else overwrite 0 (drop (length ring - idx) xs) (overwrite idx (take (length ring - idx) xs) ring))"

lemma and_not_split: "((n :: u32) AND NOT m) AND (n AND m) = 0" "(n AND NOT m) OR (n AND m) = n"
  by (rule bit_word_eqI; auto simp: bit_and_iff bit_or_iff bit_not_iff)+

lemma and3_split:
  "unat ((n :: u32) AND NOT 3) + unat (n AND 3) = unat n" "unat (n AND 3) < 4" "4 dvd unat (n AND NOT 3)"
proof -
  have m: "unat (n AND 3) = unat n mod 4" using and_mask_mod [of 2 n] by simp
  show s: "unat (n AND NOT 3) + unat (n AND 3) = unat n"
    using unat_or_disjoint [OF and_not_split(1) [of n 3]] unfolding and_not_split(2) by simp
  show "unat (n AND 3) < 4" by (simp add: m)
  have "unat (n AND NOT 3) = unat n - unat n mod 4" using s m by linarith
  then show "4 dvd unat (n AND NOT 3)" by (simp add: dvd_minus_mod)
qed

lemma ENQUEUE_PTRS_eq:
  assumes wf: "ring_wf r" and n: "unat n \<le> length obj" "unat n \<le> ring_sz r"
  shows "ENQUEUE_PTRS r obj n h (pr_mask (prod r)) =
    Inr (ring_store (unat h mod ring_sz r) (take (unat n) obj) (slots r))"
proof -
  let ?sz = "ring_sz r" and ?i = "unat h mod ring_sz r"
  note W = ring_wfD [OF wf]
  have idx: "unat (h AND pr_mask (prod r)) = ?i" "?i < ?sz" using W(1,5) by simp_all
  have "unat (h AND pr_mask (prod r)) + unat n < 4294967296" using idx n(2) W(3) by simp
  then have sum: "unat ((h AND pr_mask (prod r)) + n) = ?i + unat n" using unat_add_u32 idx(1) by simp
  show ?thesis
  proof (cases "?i + unat n < ?sz")
    case True
    let ?lim = "unat (n AND NOT 3)" and ?rest = "unat (n AND 3)"
    note a = and3_split [of n]
    obtain m where m: "?lim = 4 * m" using a(3) by (auto elim: dvdE)
    have 1: "enq_by_four obj ?lim 0 ?i (slots r) = Inr (?lim, ?i + ?lim, overwrite ?i (take ?lim obj) (slots r))"
      using enq_by_four_eq [of ?lim 0 m obj ?i "slots r"] m a n True W(7) by simp
    have len: "length (overwrite ?i (take ?lim obj) (slots r)) = ?sz" using True a n W(7) by (simp add: min_def)
    have 2: "enq_switch obj ?rest ?lim (?i + ?lim) (overwrite ?i (take ?lim obj) (slots r)) =
        Inr (overwrite (?i + ?lim) (take ?rest (drop ?lim obj)) (overwrite ?i (take ?lim obj) (slots r)))"
      by (rule enq_switch_eq) (use a n True len in simp_all)
    have lt: "length (take ?lim obj) = ?lim" "length (take ?rest (drop ?lim obj)) = ?rest" using a(1) n(1) by simp_all
    have "overwrite (?i + length (take ?lim obj)) (take ?rest (drop ?lim obj)) (overwrite ?i (take ?lim obj) (slots r)) =
        overwrite ?i (take ?lim obj @ take ?rest (drop ?lim obj)) (slots r)"
      by (rule overwrite_app) (use a(1) True W(7) in \<open>simp only: lt\<close>)
    moreover have "take ?lim obj @ take ?rest (drop ?lim obj) = take (unat n) obj" using a(1) by (metis take_add)
    ultimately show ?thesis
      using True n W(7) 1 2 idx sum lt by (simp add: ENQUEUE_PTRS_def Let_def word_less_nat_alt ring_store_def)
  next
    case False
    let ?c = "?sz - ?i"
    have 1: "enq_to_end obj ?sz 0 ?i (slots r) = Inr (?c, overwrite ?i (take ?c obj) (slots r))"
      using enq_to_end_eq [of 0 ?sz ?i obj "slots r"] False n idx(2) W(7) by simp
    have "length (take ?c obj) = ?c" using False n(1) by simp
    then have len: "length (overwrite ?i (take ?c obj) (slots r)) = ?sz"
      using length_overwrite [of ?i "take ?c obj" "slots r"] idx(2) W(7) by simp
    have 2: "enq_rest obj (unat n) ?c 0 (overwrite ?i (take ?c obj) (slots r)) =
        Inr (overwrite 0 (take (unat n - ?c) (drop ?c obj)) (overwrite ?i (take ?c obj) (slots r)))"
      by (rule enq_rest_eq) (use n False idx(2) len in simp_all)
    have "take (unat n - ?c) (drop ?c obj) = drop ?c (take (unat n) obj)" by (simp add: drop_take)
    moreover have "take ?c (take (unat n) obj) = take ?c obj" using False by (simp add: min_def)
    moreover have "?i + unat n = ?sz \<Longrightarrow> overwrite ?i (take ?c obj) (slots r) = overwrite ?i (take (unat n) obj) (slots r)"
      by (metis add_diff_cancel_left')
    ultimately show ?thesis
      using False n W(7) 1 2 idx sum
      by (auto simp: ENQUEUE_PTRS_def Let_def word_less_nat_alt ring_store_def min_def)
  qed
qed

lemma length_ring_load [simp]: "length (ring_load idx n ring) = n"
  by (simp add: ring_load_def)

lemma nth_ring_load [simp]: "j < n \<Longrightarrow> ring_load idx n ring ! j = ring ! ((idx + j) mod length ring)"
  by (simp add: ring_load_def)

lemma ring_load_straight: "idx + n \<le> length ring \<Longrightarrow> ring_load idx n ring = take n (drop idx ring)"
  by (rule nth_equalityI) simp_all

lemma ring_load_wrapped:
  assumes "idx < length ring" "length ring \<le> idx + n" "n \<le> length ring"
  shows "ring_load idx n ring = drop idx ring @ take (n - (length ring - idx)) ring"
proof (rule nth_equalityI)
  fix j assume "j < length (ring_load idx n ring)"
  then have j: "j < n" by simp
  show "ring_load idx n ring ! j = (drop idx ring @ take (n - (length ring - idx)) ring) ! j"
  proof (cases "idx + j < length ring")
    case True
    then show ?thesis using j assms by (simp add: nth_append less_diff_conv)
  next
    case False
    then have "(idx + j) mod length ring = idx + j - length ring" using j assms by (simp add: mod_if)
    moreover have "\<not> j < length ring - idx" "j - (length ring - idx) = idx + j - length ring" using False assms(1) by linarith+
    ultimately show ?thesis using j assms by (simp add: nth_append)
  qed
qed (use assms in simp)

lemma DEQUEUE_PTRS_eq:
  assumes wf: "ring_wf r" and n: "unat n \<le> length table" "unat n \<le> ring_sz r"
  shows "DEQUEUE_PTRS r table n h (pr_mask (prod r)) =
    Inr (overwrite 0 (ring_load (unat h mod ring_sz r) (unat n) (slots r)) table)"
proof -
  let ?sz = "ring_sz r" and ?i = "unat h mod ring_sz r"
  note W = ring_wfD [OF wf]
  have idx: "unat (h AND pr_mask (prod r)) = ?i" "?i < ?sz" using W(1,5) by simp_all
  have "unat (h AND pr_mask (prod r)) + unat n < 4294967296" using idx n(2) W(3) by simp
  then have sum: "unat ((h AND pr_mask (prod r)) + n) = ?i + unat n" using unat_add_u32 idx(1) by simp
  show ?thesis
  proof (cases "?i + unat n < ?sz")
    case True
    let ?lim = "unat (n AND NOT 3)" and ?rest = "unat (n AND 3)"
    let ?t = "overwrite 0 (take ?lim (drop ?i (slots r))) table"
    note a = and3_split [of n]
    obtain m where m: "?lim = 4 * m" using a(3) by (auto elim: dvdE)
    have 1: "deq_by_four (slots r) ?lim 0 ?i table = Inr (?lim, ?i + ?lim, ?t)"
      using deq_by_four_eq [of ?lim 0 m table ?i "slots r"] m a n True W(7) by simp
    have lt: "length (take ?lim (drop ?i (slots r))) = ?lim" "length (take ?rest (drop (?i + ?lim) (slots r))) = ?rest"
      using a(1) True W(7) by simp_all
    have len: "length ?t = length table" using lt a n by simp
    have 2: "deq_switch (slots r) ?rest ?lim (?i + ?lim) ?t =
        Inr (overwrite ?lim (take ?rest (drop (?i + ?lim) (slots r))) ?t)"
      unfolding deq_switch_def by (rule enq_switch_eq) (use a n True len W(7) in simp_all)
    have "overwrite (0 + length (take ?lim (drop ?i (slots r)))) (take ?rest (drop (?i + ?lim) (slots r))) ?t =
        overwrite 0 (take ?lim (drop ?i (slots r)) @ take ?rest (drop (?i + ?lim) (slots r))) table"
      by (rule overwrite_app) (use a(1) n(1) in \<open>simp only: lt\<close>)
    moreover have "take ?lim (drop ?i (slots r)) @ take ?rest (drop (?i + ?lim) (slots r)) = take (unat n) (drop ?i (slots r))"
      unfolding a(1) [symmetric] take_add drop_drop by (simp add: add.commute)
    ultimately show ?thesis
      using True W(6,7) 1 2 idx sum lt
      by (simp add: DEQUEUE_PTRS_def Let_def word_less_nat_alt ring_load_straight)
  next
    case False
    let ?c = "?sz - ?i"
    let ?t = "overwrite 0 (drop ?i (slots r)) table"
    have 1: "deq_to_end (slots r) ?sz 0 ?i table = Inr (?c, ?t)"
      unfolding deq_to_end_enq using enq_rest_eq [of ?sz "slots r" 0 ?i table] False n idx(2) W(7) by simp
    have len: "length ?t = length table" using False n idx(2) W(7) by simp
    have 2: "deq_rest (slots r) (unat n) ?c 0 ?t = Inr (overwrite ?c (take (unat n - ?c) (slots r)) ?t)"
      unfolding deq_rest_enq using enq_to_end_eq [of 0 "unat n" ?c "slots r" ?t] False n len W(7) idx(2) by simp
    have "overwrite (0 + length (drop ?i (slots r))) (take (unat n - ?c) (slots r)) ?t =
        overwrite 0 (drop ?i (slots r) @ take (unat n - ?c) (slots r)) table"
      by (rule overwrite_app) (use False n idx(2) W(7) in simp)
    then show ?thesis
      using False n W(6,7) 1 2 idx sum
      by (simp add: DEQUEUE_PTRS_def Let_def word_less_nat_alt ring_load_wrapped)
  qed
qed

lemma length_ring_store [simp]:
  "idx < length ring \<Longrightarrow> length xs \<le> length ring \<Longrightarrow> length (ring_store idx xs ring) = length ring"
  by (simp add: ring_store_def)

lemma nth_ring_store:
  assumes "idx < length ring" "length xs \<le> length ring" "j < length ring"
  shows "ring_store idx xs ring ! ((idx + j) mod length ring) =
    (if j < length xs then xs ! j else ring ! ((idx + j) mod length ring))"
proof -
  let ?n = "length ring" let ?p = "(idx + j) mod ?n"
  have p: "?p = (if idx + j < ?n then idx + j else idx + j - ?n)" "?p < ?n"
    using assms by (simp add: mod_if) (use assms in \<open>auto intro: mod_less_divisor\<close>)
  show ?thesis
  proof (cases "idx + length xs \<le> ?n")
    case True
    then show ?thesis using p assms by (auto simp: ring_store_def nth_overwrite)
  next
    case False
    let ?c = "?n - idx"
    have l: "length (overwrite idx (take ?c xs) ring) = ?n" using False assms(1) by simp
    show ?thesis
    proof (cases "idx + j < ?n")
      case True
      then have "\<not> ?p < length xs - ?c" using p(1) False assms(2) by auto
      then show ?thesis using True False p l assms by (simp add: ring_store_def nth_overwrite)
    next
      case nl: False
      then have "?p < idx" using p assms by auto
      then show ?thesis using nl False p l assms by (auto simp: ring_store_def nth_overwrite)
    qed
  qed
qed

text \<open>What is appended behind the elements in use reads back behind them.\<close>

lemma ring_load_store:
  assumes "0 < length ring" "n + length xs \<le> length ring"
  shows "ring_load a (n + length xs) (ring_store ((a + n) mod length ring) xs ring) = ring_load a n ring @ xs"
proof (rule nth_equalityI)
  let ?len = "length ring" let ?b = "(a + n) mod ?len"
  have b: "?b < ?len" using assms(1) by simp
  have l: "length (ring_store ?b xs ring) = ?len" using b assms(2) by simp
  fix j assume "j < length (ring_load a (n + length xs) (ring_store ?b xs ring))"
  then have j: "j < n + length xs" by simp
  show "ring_load a (n + length xs) (ring_store ?b xs ring) ! j = (ring_load a n ring @ xs) ! j"
  proof (cases "j < n")
    case True
    let ?k = "?len - n + j"
    have "(?b + ?k) mod ?len = (a + n + (?len - n + j)) mod ?len" by (simp add: mod_add_left_eq)
    also have "a + n + (?len - n + j) = a + j + ?len" using assms(2) by simp
    finally have "(?b + ?k) mod ?len = (a + j) mod ?len" by simp
    moreover have "?k < ?len" "\<not> ?k < length xs" using True assms(2) by simp_all
    ultimately show ?thesis using nth_ring_store [OF b _ \<open>?k < ?len\<close>, of xs] True j l assms(2) by (simp add: nth_append)
  next
    case False
    let ?k = "j - n"
    have "(?b + ?k) mod ?len = (a + n + (j - n)) mod ?len" by (simp only: mod_add_left_eq)
    also have "a + n + (j - n) = a + j" using False by simp
    finally have "(?b + ?k) mod ?len = (a + j) mod ?len" .
    moreover have "?k < ?len" "?k < length xs" using False j assms(2) by simp_all
    ultimately show ?thesis using nth_ring_store [OF b _ \<open>?k < ?len\<close>, of xs] False j l assms(2) by (simp add: nth_append)
  qed
qed simp

section \<open>The ring as a bounded FIFO\<close>

definition ring_inv :: "odph_ring \<Rightarrow> bool" where
  "ring_inv r \<longleftrightarrow> ring_wf r \<and> pr_head (prod r) = pr_tail (prod r) \<and> co_head (cons r) = co_tail (cons r) \<and>
    unat (pr_tail (prod r) - co_tail (cons r)) < ring_sz r"

definition ring_contents :: "odph_ring \<Rightarrow> addr list" where
  "ring_contents r =
    ring_load (unat (co_tail (cons r)) mod ring_sz r) (unat (pr_tail (prod r) - co_tail (cons r))) (slots r)"

abbreviation ring_room :: "odph_ring \<Rightarrow> nat" where
  "ring_room r \<equiv> ring_sz r - 1 - length (ring_contents r)"

lemma length_ring_contents: "length (ring_contents r) = unat (pr_tail (prod r) - co_tail (cons r))"
  by (simp add: ring_contents_def)

lemma ring_free_entries:
  assumes "ring_inv r"
  shows "unat (pr_mask (prod r) + co_tail (cons r) - pr_head (prod r)) = ring_room r"
proof -
  let ?c = "pr_tail (prod r) - co_tail (cons r)"
  have r: "ring_wf r" "pr_head (prod r) = pr_tail (prod r)" "unat ?c < ring_sz r" using assms by (simp_all add: ring_inv_def)
  have eq: "pr_mask (prod r) + co_tail (cons r) - pr_head (prod r) = pr_mask (prod r) - ?c" by (simp add: r(2))
  have "unat (pr_mask (prod r) - ?c) = unat (pr_mask (prod r)) - unat ?c"
    using r(3) ring_wfD(4) [OF r(1)] by (intro unat_sub_small) simp
  then show ?thesis unfolding eq using ring_wfD(4) [OF r(1)] by (simp add: length_ring_contents)
qed

text \<open>The state after \<open>m\<close> objects were put in or taken out.\<close>

definition ring_pushed :: "addr list \<Rightarrow> u32 \<Rightarrow> odph_ring \<Rightarrow> odph_ring" where
  "ring_pushed obj m r = r\<lparr>prod := (prod r)\<lparr>pr_head := pr_head (prod r) + m, pr_tail := pr_head (prod r) + m\<rparr>,
     slots := ring_store (unat (pr_head (prod r)) mod ring_sz r) (take (unat m) obj) (slots r)\<rparr>"

definition ring_popped :: "u32 \<Rightarrow> odph_ring \<Rightarrow> odph_ring" where
  "ring_popped m r = r\<lparr>cons := (cons r)\<lparr>co_head := co_head (cons r) + m, co_tail := co_head (cons r) + m\<rparr>\<rparr>"

lemma ring_pushed_ok:
  assumes inv: "ring_inv r" and m: "unat m \<le> ring_room r" "unat m \<le> length obj"
  shows "ring_inv (ring_pushed obj m r)" "ring_contents (ring_pushed obj m r) = ring_contents r @ take (unat m) obj"
proof -
  let ?c = "pr_tail (prod r) - co_tail (cons r)" and ?sz = "ring_sz r"
  have r: "ring_wf r" "pr_head (prod r) = pr_tail (prod r)" "co_head (cons r) = co_tail (cons r)" "unat ?c < ?sz"
    using inv by (simp_all add: ring_inv_def)
  note W = ring_wfD [OF r(1)]
  have cm: "unat ?c + unat m < ?sz" using m(1) r(4) by (simp add: length_ring_contents)
  have "unat (?c + m) = unat ?c + unat m" using cm W(3) by (intro unat_add_u32) simp
  moreover have e: "pr_tail (prod r) + m - co_tail (cons r) = ?c + m" by simp
  ultimately have cnt: "unat (pr_tail (prod r) + m - co_tail (cons r)) = unat ?c + unat m" by (simp only: e)
  have idx: "unat (pr_tail (prod r)) mod ?sz = (unat (co_tail (cons r)) mod ?sz + unat ?c) mod ?sz"
    using unat_add_mod_dvd [OF W(2), of "co_tail (cons r)" ?c] by (simp add: mod_add_left_eq)
  have lt: "length (take (unat m) obj) = unat m" using m(2) by simp
  have len: "length (ring_store (unat (pr_head (prod r)) mod ?sz) (take (unat m) obj) (slots r)) = ?sz"
    using W(1,7) cm lt by simp
  show "ring_inv (ring_pushed obj m r)"
    using r cnt cm len by (auto simp: ring_inv_def ring_pushed_def ring_wf_def)
  have "ring_load (unat (co_tail (cons r)) mod ?sz) (unat ?c + length (take (unat m) obj))
      (ring_store ((unat (co_tail (cons r)) mod ?sz + unat ?c) mod length (slots r)) (take (unat m) obj) (slots r)) =
    ring_load (unat (co_tail (cons r)) mod ?sz) (unat ?c) (slots r) @ take (unat m) obj"
    by (rule ring_load_store) (use W(1,7) cm lt in simp_all)
  then show "ring_contents (ring_pushed obj m r) = ring_contents r @ take (unat m) obj"
    by (simp add: ring_contents_def ring_pushed_def cnt r(2) lt W(7) idx del: length_take)
qed

lemma ring_popped_ok:
  assumes inv: "ring_inv r" and m: "unat m \<le> length (ring_contents r)"
  shows "ring_inv (ring_popped m r)" "ring_contents (ring_popped m r) = drop (unat m) (ring_contents r)"
proof -
  let ?c = "pr_tail (prod r) - co_tail (cons r)" and ?sz = "ring_sz r"
  have r: "ring_wf r" "pr_head (prod r) = pr_tail (prod r)" "co_head (cons r) = co_tail (cons r)" "unat ?c < ?sz"
    using inv by (simp_all add: ring_inv_def)
  note W = ring_wfD [OF r(1)]
  have mc: "unat m \<le> unat ?c" using m by (simp add: length_ring_contents)
  have e: "pr_tail (prod r) - (co_tail (cons r) + m) = ?c - m" by simp
  have cnt: "unat (pr_tail (prod r) - (co_tail (cons r) + m)) = unat ?c - unat m"
    unfolding e by (rule unat_sub_small [OF mc])
  show "ring_inv (ring_popped m r)"
    using r cnt mc by (auto simp: ring_inv_def ring_popped_def ring_wf_def)
  have idx: "unat (co_tail (cons r) + m) mod ?sz = (unat (co_tail (cons r)) mod ?sz + unat m) mod ?sz"
    using unat_add_mod_dvd [OF W(2)] by (simp add: mod_add_left_eq)
  show "ring_contents (ring_popped m r) = drop (unat m) (ring_contents r)"
    by (rule nth_equalityI)
      (simp_all add: ring_contents_def ring_popped_def cnt r(3) idx W(7) mod_add_left_eq add.assoc)
qed

text \<open>Every branch of the single-producer enqueue and of the single-consumer dequeue.\<close>

lemma ENQUEUE_PTRS_head [simp]: "ENQUEUE_PTRS (r\<lparr>prod := (prod r)\<lparr>pr_head := h\<rparr>\<rparr>) t m c k = ENQUEUE_PTRS r t m c k"
  by (simp add: ENQUEUE_PTRS_def Let_def)

lemma ring_sp_do_enqueue_eq:
  assumes inv: "ring_inv r" and n: "unat n \<le> length obj"
  shows "ring_sp_do_enqueue r obj n beh =
    (if unat n > ring_room r \<and> beh = ODPH_RING_QUEUE_FIXED then Inr (- ENOBUFS, r)
     else if unat n > ring_room r \<and> ring_room r = 0 then Inr (0, r)
     else let m = (if unat n > ring_room r then of_nat (ring_room r) else n)
          in Inr (enqueue_ret r beh (pr_mask (prod r) + co_tail (cons r) - pr_head (prod r)) m, ring_pushed obj m r))"
proof -
  let ?free = "pr_mask (prod r) + co_tail (cons r) - pr_head (prod r)"
  note fe = ring_free_entries [OF inv]
  have wf: "ring_wf r" using inv by (simp add: ring_inv_def)
  have free: "?free = of_nat (ring_room r)" unfolding fe [symmetric] by simp
  have cp: "ENQUEUE_PTRS (r\<lparr>prod := (prod r)\<lparr>pr_head := h\<rparr>\<rparr>) obj m (pr_head (prod r)) (pr_mask (prod r)) =
      Inr (ring_store (unat (pr_head (prod r)) mod ring_sz r) (take (unat m) obj) (slots r))" if "unat m \<le> unat n" "unat m \<le> ring_room r" for m h
    using ENQUEUE_PTRS_eq [OF wf, of m obj "pr_head (prod r)"] that n by simp
  have ret: "enqueue_ret (r\<lparr>prod := (prod r)\<lparr>pr_head := h\<rparr>\<rparr>) beh f m = enqueue_ret r beh f m" for h f m
    by (simp add: enqueue_ret_def)
  have fr0: "?free = 0 \<longleftrightarrow> ring_room r = 0" by (metis fe unat_0 unat_eq_0)
  show ?thesis
  proof (cases "unat n > ring_room r")
    case True
    then have gt: "n > ?free" by (simp add: word_less_nat_alt fe)
    have "unat (of_nat (ring_room r) :: u32) = ring_room r" using fe free by simp
    then show ?thesis using True gt fr0 cp [of "of_nat (ring_room r)"]
      by (auto simp: ring_sp_do_enqueue_def ring_amount_def Let_def ret ring_pushed_def free)
  next
    case False
    then have "\<not> n > ?free" by (simp add: word_less_nat_alt fe)
    then show ?thesis using False cp [of n]
      by (auto simp: ring_sp_do_enqueue_def ring_amount_def Let_def ret ring_pushed_def)
  qed
qed

lemma DEQUEUE_PTRS_head [simp]: "DEQUEUE_PTRS (r\<lparr>cons := (cons r)\<lparr>co_head := h\<rparr>\<rparr>) t m c k = DEQUEUE_PTRS r t m c k"
  by (simp add: DEQUEUE_PTRS_def Let_def)

lemma ring_sc_do_dequeue_eq:
  assumes inv: "ring_inv r" and n: "unat n \<le> length table"
  defines "cnt \<equiv> length (ring_contents r)"
  shows "ring_sc_do_dequeue r table n beh =
    (if unat n > cnt \<and> beh = ODPH_RING_QUEUE_FIXED then Inr (- ENOENT, table, r)
     else if unat n > cnt \<and> cnt = 0 then Inr (0, table, r)
     else let m = (if unat n > cnt then of_nat cnt else n)
          in Inr (dequeue_ret beh m, overwrite 0 (take (unat m) (ring_contents r)) table, ring_popped m r))"
proof -
  let ?e = "pr_tail (prod r) - co_head (cons r)"
  have r: "ring_wf r" "co_head (cons r) = co_tail (cons r)" "cnt < ring_sz r"
    using inv by (simp_all add: ring_inv_def cnt_def length_ring_contents)
  have e: "unat ?e = cnt" by (simp add: cnt_def length_ring_contents r(2))
  have e': "?e = of_nat cnt" by (simp flip: e)
  have cp: "DEQUEUE_PTRS (r\<lparr>cons := (cons r)\<lparr>co_head := h\<rparr>\<rparr>) table m (co_head (cons r)) (pr_mask (prod r)) =
      Inr (overwrite 0 (take (unat m) (ring_contents r)) table)" if "unat m \<le> unat n" "unat m \<le> cnt" for m h
  proof -
    have "take (unat m) (ring_contents r) = ring_load (unat (co_head (cons r)) mod ring_sz r) (unat m) (slots r)"
      using that(2) by (intro nth_equalityI) (simp_all add: cnt_def ring_contents_def r(2))
    then show ?thesis using DEQUEUE_PTRS_eq [OF r(1), of m table "co_head (cons r)"] that n r(3) by simp
  qed
  have e0: "?e = 0 \<longleftrightarrow> cnt = 0" by (metis e unat_0 unat_eq_0)
  show ?thesis
  proof (cases "unat n > cnt")
    case True
    then have gt: "n > ?e" by (simp add: word_less_nat_alt e)
    have "unat (of_nat cnt :: u32) = cnt" using e e' by simp
    then show ?thesis using True gt e0 cp [of "of_nat cnt"]
      by (auto simp: ring_sc_do_dequeue_def ring_amount_def Let_def ring_popped_def e')
  next
    case False
    then have "\<not> n > ?e" by (simp add: word_less_nat_alt e)
    then show ?thesis using False cp [of n]
      by (auto simp: ring_sc_do_dequeue_def ring_amount_def Let_def ring_popped_def)
  qed
qed

section \<open>Results\<close>

text \<open>Without interference the multi-producer and multi-consumer routines do what the single ones do.\<close>

lemma ring_mp_sp: "ring_inv r \<Longrightarrow> ring_mp_do_enqueue r obj n beh = Some (ring_sp_do_enqueue r obj n beh)"
  by (auto simp: ring_mp_do_enqueue_def ring_sp_do_enqueue_def ring_inv_def Let_def split: sum.split)

lemma ring_mc_sc: "ring_inv r \<Longrightarrow> ring_mc_do_dequeue r table n beh = Some (ring_sc_do_dequeue r table n beh)"
  by (auto simp: ring_mc_do_dequeue_def ring_sc_do_dequeue_def ring_inv_def Let_def split: sum.split)

lemma ring_over_watermark:
  assumes inv: "ring_inv r" and m: "unat m \<le> ring_room r"
  shows "(pr_mask (prod r) + 1) - (pr_mask (prod r) + co_tail (cons r) - pr_head (prod r)) + m > pr_watermark (prod r) \<longleftrightarrow>
    length (ring_contents r) + unat m \<ge> unat (pr_watermark (prod r))"
proof -
  let ?free = "pr_mask (prod r) + co_tail (cons r) - pr_head (prod r)" and ?cnt = "length (ring_contents r)"
  have wf: "ring_wf r" and c: "?cnt < ring_sz r" using inv by (simp_all add: ring_inv_def length_ring_contents)
  note W = ring_wfD [OF wf] note fe = ring_free_entries [OF inv]
  have sz: "pr_mask (prod r) + 1 = pr_size (prod r)" using wf by (simp add: ring_wf_def)
  have "unat (pr_size (prod r) - ?free) = ring_sz r - ring_room r"
    unfolding fe [symmetric] by (rule unat_sub_small) (simp add: fe)
  also have "\<dots> = ?cnt + 1" using c by simp
  finally have u: "unat (pr_size (prod r) - ?free) = ?cnt + 1" .
  have "unat (pr_size (prod r) - ?free + m) = ?cnt + 1 + unat m"
    using u m W(3) c by (subst unat_add_u32) simp_all
  then show ?thesis by (simp add: sz word_less_nat_alt less_Suc_eq_le)
qed

lemma odph_ring_enqueue_bulk_result:
  assumes inv: "ring_inv r" and n: "unat n \<le> length obj" "unat n \<le> ring_room r"
  shows "\<exists>r'. odph_ring_sp_enqueue_bulk r obj n = Inr (if length (ring_contents r) + unat n \<ge> unat (pr_watermark (prod r)) then - EDQUOT else 0, r') \<and>
    odph_ring_mp_enqueue_bulk r obj n = Some (odph_ring_sp_enqueue_bulk r obj n) \<and>
    ring_inv r' \<and> ring_contents r' = ring_contents r @ take (unat n) obj"
proof -
  note P = ring_pushed_ok [OF inv n(2,1)]
  have "length (ring_contents (ring_pushed obj n r)) = length (ring_contents r) + unat n" using n by (simp add: P(2))
  then show ?thesis
    using n(2) P inv ring_over_watermark [OF inv n(2)]
    by (simp add: odph_ring_sp_enqueue_bulk_def odph_ring_mp_enqueue_bulk_def ring_mp_sp ring_sp_do_enqueue_eq [OF inv n(1)] enqueue_ret_def)
qed

text \<open>
  C15: Enqueueing in bulk is all or nothing. The single and the multi-producer call both return, with the same result: with too
  little room they report \<open>-ENOBUFS\<close> and change nothing, otherwise the objects follow the ones in the ring, in order,
  also when the indices pass \<open>2\<^sup>3\<^sup>2\<close> and the slots wrap around. The result is then \<open>-EDQUOT\<close> if the ring holds more objects than
  the watermark, 0 if it holds fewer, and one of the two if it holds exactly as many.
\<close>

theorem odph_ring_enqueue_bulk_correct:
  assumes inv: "ring_inv r" and n: "unat n \<le> length obj"
  shows "\<exists>ret r'. odph_ring_sp_enqueue_bulk r obj n = Inr (ret, r') \<and> odph_ring_mp_enqueue_bulk r obj n = Some (Inr (ret, r')) \<and>
    ring_inv r' \<and>
    (if unat n > ring_room r then ret = - ENOBUFS \<and> r' = r
     else ring_contents r' = ring_contents r @ take (unat n) obj \<and> ret \<in> {0, - EDQUOT} \<and>
       (length (ring_contents r') > unat (pr_watermark (prod r)) \<longrightarrow> ret = - EDQUOT) \<and>
       (length (ring_contents r') < unat (pr_watermark (prod r)) \<longrightarrow> ret = 0))"
proof (cases "unat n > ring_room r")
  case True
  then show ?thesis using inv
    by (simp add: odph_ring_sp_enqueue_bulk_def odph_ring_mp_enqueue_bulk_def ring_mp_sp ring_sp_do_enqueue_eq [OF inv n])
next
  case False
  then show ?thesis using odph_ring_enqueue_bulk_result [OF inv n] n by auto
qed

text \<open>
  With exactly as many objects as the watermark the result is \<open>-EDQUOT\<close>, although the watermark is not exceeded: the
  code counts the entry that always stays free.
\<close>

lemma odph_ring_enqueue_at_watermark:
  assumes "ring_inv r" "unat n \<le> length obj" "unat n \<le> ring_room r"
    and "length (ring_contents r) + unat n = unat (pr_watermark (prod r))"
  shows "\<exists>r'. odph_ring_sp_enqueue_bulk r obj n = Inr (- EDQUOT, r')"
  using odph_ring_enqueue_bulk_result [OF assms(1-3)] assms(4) by auto

text \<open>
  Dequeueing in bulk is all or nothing. With too few objects in the ring the calls report \<open>-ENOENT\<close> and change neither the
  ring nor the table, otherwise they put the oldest \<open>n\<close> objects into the table, in order, and remove exactly them.
\<close>

theorem odph_ring_dequeue_bulk_correct:
  assumes inv: "ring_inv r" and n: "unat n \<le> length table"
  shows "\<exists>ret table' r'. odph_ring_sc_dequeue_bulk r table n = Inr (ret, table', r') \<and>
    odph_ring_mc_dequeue_bulk r table n = Some (Inr (ret, table', r')) \<and> ring_inv r' \<and>
    (if unat n > length (ring_contents r) then ret = - ENOENT \<and> table' = table \<and> r' = r
     else ret = 0 \<and> table' = take (unat n) (ring_contents r) @ drop (unat n) table \<and>
       ring_contents r' = drop (unat n) (ring_contents r))"
proof (cases "unat n > length (ring_contents r)")
  case True
  then show ?thesis using inv
    by (simp add: odph_ring_sc_dequeue_bulk_def odph_ring_mc_dequeue_bulk_def ring_mc_sc ring_sc_do_dequeue_eq [OF inv n])
next
  case False
  then have m: "unat n \<le> length (ring_contents r)" by simp
  have "overwrite 0 (take (unat n) (ring_contents r)) table = take (unat n) (ring_contents r) @ drop (unat n) table"
    using m by (simp add: overwrite_def min_def)
  then show ?thesis
    using False ring_popped_ok [OF inv m] inv
    by (simp add: odph_ring_sc_dequeue_bulk_def odph_ring_mc_dequeue_bulk_def ring_mc_sc ring_sc_do_dequeue_eq [OF inv n] dequeue_ret_def)
qed

section \<open>Bursts as a FIFO\<close>

text \<open>
  The burst calls as the operations of the FIFO interface. The number of objects accepted is the result without the quota bit; a
  dequeue gets a table of its own.
\<close>

definition ring_enq :: "addr list \<Rightarrow> odph_ring \<Rightarrow> nat \<times> odph_ring" where
  "ring_enq xs r =
    (case odph_ring_enqueue_burst r xs (of_nat (length xs)) of
       Some (Inr (ret, r')) \<Rightarrow> (nat (take_bit 31 ret), r') | _ \<Rightarrow> (0, r))"

definition ring_deq :: "nat \<Rightarrow> odph_ring \<Rightarrow> addr list \<times> odph_ring" where
  "ring_deq n r =
    (case odph_ring_dequeue_burst r (replicate n NULL) (of_nat n) of
       Some (Inr (ret, table, r')) \<Rightarrow> (take (nat ret) table, r') | _ \<Rightarrow> ([], r))"

lemma burst_ret:
  assumes "unat (m :: u32) < 2 ^ 31"
  shows "nat (take_bit 31 (sint m)) = unat m" "nat (take_bit 31 (sint (m OR ODPH_RING_QUOT_EXCEED))) = unat m" "nat (sint m) = unat m"
proof -
  have t: "take_bit 31 (sint w) = uint (take_bit 31 w)" for w :: u32
    by (simp add: sint_uint unsigned_take_bit_eq take_bit_signed_take_bit)
  have m: "take_bit 31 m = m" by (rule word_eq_nat [THEN iffD2]) (use assms in \<open>simp add: take_bit_nat_eq_self\<close>)
  have "take_bit 31 (m OR ODPH_RING_QUOT_EXCEED) = take_bit 31 m OR take_bit 31 ODPH_RING_QUOT_EXCEED" by (rule take_bit_or)
  then have q: "take_bit 31 (m OR ODPH_RING_QUOT_EXCEED) = m" by (simp add: m)
  show "nat (take_bit 31 (sint m)) = unat m" "nat (take_bit 31 (sint (m OR ODPH_RING_QUOT_EXCEED))) = unat m"
    unfolding t m q by simp_all
  have "uint m < 2 ^ 31" using assms by (metis of_nat_less_iff of_nat_numeral of_nat_power of_nat_unat uint_nat)
  then have "sint m = uint m"
    using signed_take_bit_int_eq_self [of 31 "uint m"] by (simp add: sint_uint order_trans [OF _ uint_ge_0])
  then show "nat (sint m) = unat m" by simp
qed

lemma ring_enq_spec:
  assumes inv: "ring_inv r" and e: "ring_enq xs r = (k, r')"
  shows "ring_inv r' \<and> k \<le> length xs \<and> ring_contents r' = ring_contents r @ take k xs"
proof -
  let ?n = "of_nat (length xs) :: u32"
  have wf: "ring_wf r" using inv by (simp add: ring_inv_def)
  have n: "unat ?n \<le> length xs" by (simp add: unat_of_nat)
  have burst: "odph_ring_enqueue_burst r xs ?n = Some (ring_sp_do_enqueue r xs ?n ODPH_RING_QUEUE_VARIABLE)"
    using ring_mp_sp [OF inv] by (simp add: odph_ring_enqueue_burst_def odph_ring_sp_enqueue_burst_def odph_ring_mp_enqueue_burst_def)
  show ?thesis
  proof (cases "unat ?n > ring_room r \<and> ring_room r = 0")
    case True
    then have "ring_enq xs r = (0, r)" unfolding ring_enq_def burst by (simp add: ring_sp_do_enqueue_eq [OF inv n])
    then show ?thesis using e inv by simp
  next
    case False
    define m where "m = (if unat ?n > ring_room r then of_nat (ring_room r) else ?n)"
    have "ring_room r < 2 ^ 31" using ring_wfD(3) [OF wf] by simp
    then have rr: "unat (of_nat (ring_room r) :: u32) = ring_room r" by (intro unat_of_nat_small) simp
    then have m: "unat m \<le> ring_room r" "unat m \<le> length xs" "unat m < 2 ^ 31"
      using n \<open>ring_room r < 2 ^ 31\<close> by (auto simp: m_def)
    have "ring_sp_do_enqueue r xs ?n ODPH_RING_QUEUE_VARIABLE =
        Inr (enqueue_ret r ODPH_RING_QUEUE_VARIABLE (pr_mask (prod r) + co_tail (cons r) - pr_head (prod r)) m, ring_pushed xs m r)"
      by (simp only: ring_sp_do_enqueue_eq [OF inv n, unfolded Let_def, folded m_def] ring_behavior.distinct simp_thms if_False
          if_not_P [OF False])
    then have "\<exists>ret. odph_ring_enqueue_burst r xs ?n = Some (Inr (ret, ring_pushed xs m r)) \<and> nat (take_bit 31 ret) = unat m"
      using burst burst_ret(1,2) [OF m(3)] by (simp add: enqueue_ret_def del: ODPH_RING_QUOT_EXCEED_def)
    then have "ring_enq xs r = (unat m, ring_pushed xs m r)" by (auto simp: ring_enq_def)
    then show ?thesis using e ring_pushed_ok [OF inv m(1,2)] m(2) by auto
  qed
qed

lemma ring_deq_spec:
  assumes inv: "ring_inv r" and e: "ring_deq n r = (ys, r')"
  shows "ring_inv r' \<and> length ys \<le> n \<and> ring_contents r = ys @ ring_contents r'"
proof -
  let ?n = "of_nat n :: u32" and ?t = "replicate n NULL" and ?cnt = "length (ring_contents r)"
  have wf: "ring_wf r" and c: "?cnt < ring_sz r" using inv by (simp_all add: ring_inv_def length_ring_contents)
  have n: "unat ?n \<le> length ?t" by (simp add: unat_of_nat)
  have burst: "odph_ring_dequeue_burst r ?t ?n = Some (ring_sc_do_dequeue r ?t ?n ODPH_RING_QUEUE_VARIABLE)"
    using ring_mc_sc [OF inv] by (simp add: odph_ring_dequeue_burst_def odph_ring_sc_dequeue_burst_def odph_ring_mc_dequeue_burst_def)
  show ?thesis
  proof (cases "unat ?n > ?cnt \<and> ?cnt = 0")
    case True
    then have "ring_deq n r = ([], r)" unfolding ring_deq_def burst by (simp add: ring_sc_do_dequeue_eq [OF inv n])
    then show ?thesis using e inv by simp
  next
    case False
    define m where "m = (if unat ?n > ?cnt then of_nat ?cnt else ?n)"
    have lt: "?cnt < 2 ^ 31" using ring_wfD(3) [OF wf] c by simp
    then have "unat (of_nat ?cnt :: u32) = ?cnt" by (intro unat_of_nat_small) simp
    then have m: "unat m \<le> ?cnt" "unat m \<le> n" "unat m < 2 ^ 31" using n lt by (auto simp: m_def)
    have "odph_ring_dequeue_burst r ?t ?n = Some (Inr (sint m, overwrite 0 (take (unat m) (ring_contents r)) ?t, ring_popped m r))"
      by (simp only: burst ring_sc_do_dequeue_eq [OF inv n, unfolded Let_def, folded m_def] dequeue_ret_def ring_behavior.distinct
          simp_thms if_False if_not_P [OF False])
    moreover have "take (unat m) (overwrite 0 (take (unat m) (ring_contents r)) ?t) = take (unat m) (ring_contents r)"
      using m(1) by (simp add: overwrite_def min_def)
    ultimately have "ring_deq n r = (take (unat m) (ring_contents r), ring_popped m r)"
      using burst_ret(3) [OF m(3)] by (simp add: ring_deq_def)
    then show ?thesis using e ring_popped_ok [OF inv m(1)] m by auto
  qed
qed

interpretation ring: fifo ring_inv ring_contents ring_enq ring_deq "\<lambda>_ _. True"
  by unfold_locales (use ring_enq_spec ring_deq_spec in blast)+


section \<open>Fill level, creation, lookup\<close>

lemma unat_not_u32: "unat (NOT (x :: u32)) = 4294967295 - unat x"
proof -
  have f: "unat (0xffffffff :: u32) = 4294967295" by simp
  have "(0xffffffff :: u32) = - 1" by simp
  then have "NOT x = 0xffffffff - x" by (simp add: not_eq_complement)
  moreover have "unat x \<le> unat (0xffffffff :: u32)" unfolding f using unat_u32_bound [of x] by linarith
  ultimately show ?thesis by (simp only: unat_sub_small f)
qed

lemma find_snoc: "find P xs = None \<Longrightarrow> P x \<Longrightarrow> find P (xs @ [x]) = Some x"
  by (induction xs) (auto split: if_splits)

lemma power_2_le_size_mask: "(2 :: nat) ^ k \<le> 0x0fffffff \<longleftrightarrow> k < 28"
proof
  assume "(2 :: nat) ^ k \<le> 0x0fffffff"
  then have "(2 :: nat) ^ k < 2 ^ 28" by simp
  then show "k < 28" by (rule power_less_imp_less_exp [rotated]) simp
next
  assume "k < 28"
  then have "(2 :: nat) ^ k \<le> 2 ^ 27" by (intro power_increasing) simp_all
  then show "(2 :: nat) ^ k \<le> 0x0fffffff" by simp
qed

lemma ring_levels:
  assumes inv: "ring_inv r"
  shows "unat (odph_ring_count r) = length (ring_contents r)"
    and "unat (odph_ring_free_count r) = ring_sz r - 1 - length (ring_contents r)"
    and "odph_ring_empty r \<longleftrightarrow> ring_contents r = []"
    and "odph_ring_full r \<longleftrightarrow> length (ring_contents r) = ring_sz r - 1"
proof -
  let ?c = "pr_tail (prod r) - co_tail (cons r)"
  have wf: "ring_wf r" and lt: "unat ?c < ring_sz r" using inv by (simp_all add: ring_inv_def)
  note W = ring_wfD [OF wf]
  show "unat (odph_ring_count r) = length (ring_contents r)"
    using lt W(5) by (simp add: odph_ring_count_def length_ring_contents)
  have "co_tail (cons r) - pr_tail (prod r) - 1 = - (?c + 1)" by simp
  then have neg: "co_tail (cons r) - pr_tail (prod r) - 1 = NOT ?c" by (simp add: not_eq_complement)
  have "unat (NOT ?c) = 2 ^ 32 - 1 - unat ?c" by (simp add: unat_not_u32)
  moreover obtain q where q: "2 ^ 32 = ring_sz r * q" using W(2) by (rule dvdE)
  moreover have "q > 0" using q by (cases q) simp_all
  ultimately have "unat (NOT ?c) = (ring_sz r - 1 - unat ?c) + ring_sz r * (q - 1)"
    using lt by (cases q) (simp_all add: algebra_simps)
  then have fc: "unat (odph_ring_free_count r) = ring_sz r - 1 - unat ?c"
    using W(1) unfolding odph_ring_free_count_def W(5) neg by simp
  then show "unat (odph_ring_free_count r) = ring_sz r - 1 - length (ring_contents r)" by (simp add: length_ring_contents)
  show "odph_ring_full r \<longleftrightarrow> length (ring_contents r) = ring_sz r - 1"
  proof -
    have "odph_ring_full r \<longleftrightarrow> unat (odph_ring_free_count r) = 0"
      by (simp only: odph_ring_full_def odph_ring_free_count_def unat_eq_0)
    then show ?thesis using fc lt by (auto simp: length_ring_contents)
  qed
  have "ring_contents r = [] \<longleftrightarrow> unat ?c = 0" by (simp only: length_0_conv [symmetric] length_ring_contents)
  then show "odph_ring_empty r \<longleftrightarrow> ring_contents r = []" by (auto simp: odph_ring_empty_def unat_eq_0)
qed

text \<open>
  The fill level functions agree with the contents: the count is their number, count and free count sum up to the size less
  the one slot that is never used, and the ring is empty or full exactly when no object or no room is left.
\<close>

theorem odph_ring_levels:
  assumes "ring_inv r"
  shows "unat (odph_ring_count r) = length (ring_contents r) \<and>
    unat (odph_ring_free_count r) = ring_sz r - 1 - length (ring_contents r) \<and>
    (odph_ring_empty r \<longleftrightarrow> ring_contents r = []) \<and> (odph_ring_full r \<longleftrightarrow> length (ring_contents r) = ring_sz r - 1)"
  using ring_levels [OF assms] by blast

definition ring8 :: odph_ring where
  "ring8 = (ring_init ''r'' 8 0 (replicate 8 NULL))
    \<lparr>prod := (prod (ring_init ''r'' 8 0 []))\<lparr>pr_head := 2, pr_tail := 2, pr_watermark := 4\<rparr>,
     cons := (cons (ring_init ''r'' 8 0 []))\<lparr>co_head := 0xfffffffe, co_tail := 0xfffffffe\<rparr>,
     slots := [10, 11, 0, 0, 0, 0, 12, 13]\<rparr>"

lemma ring8_inv: "ring_inv ring8"
proof -
  have "\<exists>k<28. (8 :: u32) = 2 ^ k" by (rule exI [of _ 3]) simp
  then show ?thesis by (simp add: ring_inv_def ring_wf_def ring8_def ring_init_def)
qed

lemma ring8_levels: "ring_sz ring8 = 8" "unat (pr_watermark (prod ring8)) = 4"
  by (simp_all add: ring8_def ring_init_def)

lemma ring8_contents: "ring_contents ring8 = [12, 13, 10, 11]"
  by (simp add: ring_contents_def ring8_def ring_init_def ring_load_def upt_rec)

theorem odph_ring_levels_witness:
  "odph_ring_count ring8 = 4 \<and> odph_ring_free_count ring8 = 3 \<and> \<not> odph_ring_empty ring8 \<and> \<not> odph_ring_full ring8"
proof -
  have "unat (odph_ring_count ring8) = 4 \<and> unat (odph_ring_free_count ring8) = 3 \<and> \<not> odph_ring_empty ring8 \<and> \<not> odph_ring_full ring8"
    using odph_ring_levels [OF ring8_inv] by (simp add: ring8_contents ring8_levels)
  then show ?thesis by (simp add: word_eq_nat)
qed

theorem odph_ring_enqueue_bulk_correct_witness:
  "\<exists>r'. odph_ring_mp_enqueue_bulk ring8 [21, 22, 23] 3 = Some (Inr (- EDQUOT, r')) \<and>
     ring_contents r' = [12, 13, 10, 11, 21, 22, 23]"
  using odph_ring_enqueue_bulk_correct [OF ring8_inv, of 3 "[21, 22, 23]"]
  by (auto simp: ring8_contents ring8_levels)

theorem odph_ring_dequeue_bulk_correct_witness:
  "\<exists>r'. odph_ring_sc_dequeue_bulk ring8 [0, 0, 0] 3 = Inr (0, [12, 13, 10], r') \<and> ring_contents r' = [11]"
  using odph_ring_dequeue_bulk_correct [OF ring8_inv, of 3 "[0, 0, 0]"] by (auto simp: ring8_contents)




text \<open>A ring of size 0 passes the test for a power of two, and its first enqueue writes outside the ring.\<close>

lemma odph_ring_create_size_0:
  "\<exists>r. fst (odph_ring_create (\<lambda>_ n. Some (replicate (unat n) NULL)) ''z'' 0 0 []) = Some r \<and>
     odph_ring_sp_enqueue_bulk r [1] 1 = Inl Out_Of_Bounds"
proof -
  have "enq_to_end [1] 0 0 0 [] = Inr (0, [])" by (subst enq_to_end.simps) simp
  moreover have "enq_rest [1] (Suc 0) 0 0 [] = Inl Out_Of_Bounds" by (subst enq_rest.simps) (simp add: put_slot_def)
  ultimately show ?thesis
    by (simp add: odph_ring_create_def RING_VAL_IS_POWER_2_def ring_init_def odph_ring_sp_enqueue_bulk_def
        ring_sp_do_enqueue_def ring_amount_def ENQUEUE_PTRS_def Let_def)
qed

text \<open>A ring with a name of 32 characters or more is not found under it: the copy in the ring is cut, the argument is not.\<close>

lemma odph_ring_lookup_long_name:
  assumes "length name \<ge> 32"
  shows "odph_ring_lookup name [ring_init name count flags mem0] = None"
proof -
  have "length (take 32 name) = 32" "length (take 31 name) = 31" using assms by simp_all
  then have "take 32 name \<noteq> take 31 name" by (metis numeral_eq_iff num.distinct(5) num.inject(1,2) num.simps)
  then show ?thesis by (simp add: odph_ring_lookup_def ring_init_def)
qed

end
