(* ===== verification/Odph_Ring_Mt_Correct.thy ===== *)
theory Odph_Ring_Mt_Correct
  imports Odph_Ring_Mt Odph_Ring_Correct "HOL-Library.Sublist"
begin

text \<open>
  The lock-free ring under all interleavings of producers and consumers. The indices are compared with counters that do not wrap around; the
  slots between the consumers' tail and the producers' head are divided among the threads that have reserved them.
\<close>

section \<open>Interleavings\<close>

text \<open>
  The ring, the point each thread is at, and what a run is judged by: the objects that producers have reserved slots for, in the order of the
  reservations (\<open>mt_log\<close>), the number of objects that consumers have reserved (\<open>mt_ch\<close>), the position a thread read from the head
  it works on, counted without wrap-around (\<open>mt_pos\<close>), and what completed calls have put in and taken out.
\<close>

record ring_mt =
  mt_ring :: odph_ring
  mt_pc :: "nat \<Rightarrow> ring_pc"
  mt_pos :: "nat \<Rightarrow> nat"
  mt_log :: "addr list"
  mt_ch :: nat
  mt_in :: "addr list list"
  mt_out :: "addr list list"

definition mt_note :: "ring_pc \<Rightarrow> ring_pc \<Rightarrow> nat \<Rightarrow> ring_mt \<Rightarrow> ring_mt" where
  "mt_note p p' t s =
    (case p of
       MP_Head _ _ _ \<Rightarrow> s\<lparr>mt_pos := (mt_pos s)(t := length (mt_log s))\<rparr>
     | MP_Cas obj _ _ _ _ n \<Rightarrow> (case p' of MP_Copy _ _ _ _ _ _ \<Rightarrow> s\<lparr>mt_log := mt_log s @ take (unat n) obj\<rparr> | _ \<Rightarrow> s)
     | MP_Wait _ obj _ n \<Rightarrow> (case p' of R_Return _ _ \<Rightarrow> s\<lparr>mt_in := mt_in s @ [take (unat n) obj]\<rparr> | _ \<Rightarrow> s)
     | MC_Head _ _ _ \<Rightarrow> s\<lparr>mt_pos := (mt_pos s)(t := mt_ch s)\<rparr>
     | MC_Cas _ _ _ _ n \<Rightarrow> (case p' of MC_Copy _ _ _ _ _ \<Rightarrow> s\<lparr>mt_ch := mt_ch s + unat n\<rparr> | _ \<Rightarrow> s)
     | MC_Wait table _ _ n \<Rightarrow> (case p' of R_Return _ _ \<Rightarrow> s\<lparr>mt_out := mt_out s @ [take (unat n) table]\<rparr> | _ \<Rightarrow> s)
     | _ \<Rightarrow> s)"

definition ring_at_rest :: "ring_pc \<Rightarrow> bool" where
  "ring_at_rest p \<longleftrightarrow> (case p of R_Idle \<Rightarrow> True | R_Return _ _ \<Rightarrow> True | _ \<Rightarrow> False)"

definition in_enqueue :: "ring_pc \<Rightarrow> bool" where
  "in_enqueue p \<longleftrightarrow> (case p of MP_Head _ _ _ \<Rightarrow> True | MP_Tail _ _ _ _ \<Rightarrow> True | MP_Cas _ _ _ _ _ _ \<Rightarrow> True | MP_Copy _ _ _ _ _ _ \<Rightarrow> True | MP_Wait _ _ _ _ \<Rightarrow> True | _ \<Rightarrow> False)"

definition in_dequeue :: "ring_pc \<Rightarrow> bool" where
  "in_dequeue p \<longleftrightarrow> (case p of MC_Head _ _ _ \<Rightarrow> True | MC_Tail _ _ _ _ \<Rightarrow> True | MC_Cas _ _ _ _ _ \<Rightarrow> True | MC_Copy _ _ _ _ _ \<Rightarrow> True | MC_Wait _ _ _ _ \<Rightarrow> True | _ \<Rightarrow> False)"

text \<open>
  Between reading a head and exchanging it, fewer than \<open>2\<^sup>3\<^sup>2\<close> objects less the size of the ring pass through it: the indices do not
  come back to the value that was read.
\<close>

definition mt_in_time :: "ring_mt \<Rightarrow> nat \<Rightarrow> bool" where
  "mt_in_time s t \<longleftrightarrow>
    (case mt_pc s t of MP_Tail _ _ _ _ \<Rightarrow> True | MP_Cas _ _ _ _ _ _ \<Rightarrow> True | MC_Tail _ _ _ _ \<Rightarrow> True | MC_Cas _ _ _ _ _ \<Rightarrow> True | _ \<Rightarrow> False) \<longrightarrow>
    length (mt_log s) + ring_sz (mt_ring s) < mt_pos s t + 2 ^ 32"

inductive ring_step :: "ring_mt \<Rightarrow> nat \<Rightarrow> ring_mt \<Rightarrow> bool" where
  call_enqueue: "ring_at_rest (mt_pc s t) \<Longrightarrow> 0 < n \<Longrightarrow> unat n \<le> length obj \<Longrightarrow> ring_step s t (s\<lparr>mt_pc := (mt_pc s)(t := MP_Head obj n behavior)\<rparr>)"
| call_dequeue: "ring_at_rest (mt_pc s t) \<Longrightarrow> 0 < n \<Longrightarrow> unat n \<le> length table \<Longrightarrow> ring_step s t (s\<lparr>mt_pc := (mt_pc s)(t := MC_Head table n behavior)\<rparr>)"
| enqueue: "in_enqueue (mt_pc s t) \<Longrightarrow> mt_in_time s t \<Longrightarrow> ring_mp_do_enqueue_step (mt_pc s t) (mt_ring s) = (p, r) \<Longrightarrow>
    ring_step s t (mt_note (mt_pc s t) p t (s\<lparr>mt_ring := r, mt_pc := (mt_pc s)(t := p)\<rparr>))"
| dequeue: "in_dequeue (mt_pc s t) \<Longrightarrow> mt_in_time s t \<Longrightarrow> ring_mc_do_dequeue_step (mt_pc s t) (mt_ring s) = (p, r) \<Longrightarrow>
    ring_step s t (mt_note (mt_pc s t) p t (s\<lparr>mt_ring := r, mt_pc := (mt_pc s)(t := p)\<rparr>))"

section \<open>The invariant\<close>

text \<open>The four indices, counted without wrap-around.\<close>

abbreviation mt_PH :: "ring_mt \<Rightarrow> nat" where "mt_PH s \<equiv> length (mt_log s)"
abbreviation mt_PT :: "ring_mt \<Rightarrow> nat" where "mt_PT s \<equiv> length (concat (mt_in s))"
abbreviation mt_CT :: "ring_mt \<Rightarrow> nat" where "mt_CT s \<equiv> length (concat (mt_out s))"
abbreviation mt_sz :: "ring_mt \<Rightarrow> nat" where "mt_sz s \<equiv> ring_sz (mt_ring s)"

text \<open>An object is in its slot.\<close>

definition mt_at :: "ring_mt \<Rightarrow> nat \<Rightarrow> bool" where
  "mt_at s x \<longleftrightarrow> slots (mt_ring s) ! (x mod mt_sz s) = mt_log s ! x"

text \<open>The positions a producer or a consumer has reserved.\<close>

definition prange :: "ring_mt \<Rightarrow> nat \<Rightarrow> nat set" where
  "prange s t = (case mt_pc s t of MP_Copy _ _ _ _ n _ \<Rightarrow> {mt_pos s t..<mt_pos s t + unat n} | MP_Wait _ _ _ n \<Rightarrow> {mt_pos s t..<mt_pos s t + unat n} | _ \<Rightarrow> {})"

definition crange :: "ring_mt \<Rightarrow> nat \<Rightarrow> nat set" where
  "crange s t = (case mt_pc s t of MC_Copy _ _ _ n _ \<Rightarrow> {mt_pos s t..<mt_pos s t + unat n} | MC_Wait _ _ _ n \<Rightarrow> {mt_pos s t..<mt_pos s t + unat n} | _ \<Rightarrow> {})"

definition wrote :: "ring_mt \<Rightarrow> nat \<Rightarrow> addr list \<Rightarrow> u32 \<Rightarrow> u32 \<Rightarrow> nat \<Rightarrow> bool" where
  "wrote s x obj h n i \<longleftrightarrow> h = of_nat x \<and> 0 < unat n \<and> unat n \<le> length obj \<and> i \<le> unat n \<and> mt_PT s \<le> x \<and> x + unat n \<le> mt_PH s \<and>
    take (unat n) (drop x (mt_log s)) = take (unat n) obj \<and> (\<forall>j<i. mt_at s (x + j))"

definition read :: "ring_mt \<Rightarrow> nat \<Rightarrow> addr list \<Rightarrow> u32 \<Rightarrow> u32 \<Rightarrow> nat \<Rightarrow> bool" where
  "read s x table h n i \<longleftrightarrow> h = of_nat x \<and> 0 < unat n \<and> unat n \<le> length table \<and> i \<le> unat n \<and> mt_CT s \<le> x \<and> x + unat n \<le> mt_ch s \<and>
    take i table = take i (drop x (mt_log s))"

definition thread_ok :: "ring_mt \<Rightarrow> nat \<Rightarrow> bool" where
  "thread_ok s t \<longleftrightarrow>
    (let x = mt_pos s t in
     case mt_pc s t of
       R_Abort _ \<Rightarrow> False
     | MP_Head obj mx _ \<Rightarrow> 0 < unat mx \<and> unat mx \<le> length obj
     | MP_Tail obj mx _ h \<Rightarrow> 0 < unat mx \<and> unat mx \<le> length obj \<and> h = of_nat x \<and> x \<le> mt_PH s
     | MP_Cas obj mx _ h _ n \<Rightarrow> 0 < unat mx \<and> unat mx \<le> length obj \<and> 0 < unat n \<and> unat n \<le> unat mx \<and> h = of_nat x \<and> x \<le> mt_PH s \<and>
         (x = mt_PH s \<longrightarrow> x + unat n < mt_CT s + mt_sz s)
     | MP_Copy obj _ h _ n i \<Rightarrow> wrote s x obj h n i
     | MP_Wait _ obj h n \<Rightarrow> wrote s x obj h n (unat n)
     | MC_Head table mx _ \<Rightarrow> 0 < unat mx \<and> unat mx \<le> length table
     | MC_Tail table mx _ h \<Rightarrow> 0 < unat mx \<and> unat mx \<le> length table \<and> h = of_nat x \<and> x \<le> mt_ch s
     | MC_Cas table mx _ h n \<Rightarrow> 0 < unat mx \<and> unat mx \<le> length table \<and> 0 < unat n \<and> unat n \<le> unat mx \<and> h = of_nat x \<and> x \<le> mt_ch s \<and>
         (x = mt_ch s \<longrightarrow> x + unat n \<le> mt_PT s)
     | MC_Copy table _ h n i \<Rightarrow> read s x table h n i
     | MC_Wait table _ h n \<Rightarrow> read s x table h n (unat n)
     | _ \<Rightarrow> True)"

definition ring_ok :: "ring_mt \<Rightarrow> bool" where
  "ring_ok s \<longleftrightarrow> ring_wf (mt_ring s) \<and>
    pr_head (prod (mt_ring s)) = of_nat (mt_PH s) \<and> pr_tail (prod (mt_ring s)) = of_nat (mt_PT s) \<and>
    co_head (cons (mt_ring s)) = of_nat (mt_ch s) \<and> co_tail (cons (mt_ring s)) = of_nat (mt_CT s) \<and>
    mt_CT s \<le> mt_ch s \<and> mt_ch s \<le> mt_PT s \<and> mt_PT s \<le> mt_PH s \<and> mt_PH s < mt_CT s + mt_sz s \<and>
    concat (mt_in s) = take (mt_PT s) (mt_log s) \<and> concat (mt_out s) = take (mt_CT s) (mt_log s) \<and>
    (\<forall>x. mt_CT s \<le> x \<and> x < mt_PT s \<longrightarrow> mt_at s x)"

definition ranges_ok :: "ring_mt \<Rightarrow> bool" where
  "ranges_ok s \<longleftrightarrow> (\<forall>t u. t \<noteq> u \<longrightarrow> prange s t \<inter> prange s u = {} \<and> crange s t \<inter> crange s u = {}) \<and>
    (\<Union>t. prange s t) = {mt_PT s..<mt_PH s} \<and> (\<Union>t. crange s t) = {mt_CT s..<mt_ch s}"

definition mt_inv :: "ring_mt \<Rightarrow> bool" where
  "mt_inv s \<longleftrightarrow> ring_ok s \<and> ranges_ok s \<and> (\<forall>t. thread_ok s t)"

section \<open>Facts about the invariant\<close>

lemma ring_okD:
  assumes "ring_ok s"
  shows "ring_wf (mt_ring s)" "pr_head (prod (mt_ring s)) = of_nat (mt_PH s)" "pr_tail (prod (mt_ring s)) = of_nat (mt_PT s)"
    "co_head (cons (mt_ring s)) = of_nat (mt_ch s)" "co_tail (cons (mt_ring s)) = of_nat (mt_CT s)"
    "mt_CT s \<le> mt_ch s" "mt_ch s \<le> mt_PT s" "mt_PT s \<le> mt_PH s" "mt_PH s < mt_CT s + mt_sz s"
    "concat (mt_in s) = take (mt_PT s) (mt_log s)" "concat (mt_out s) = take (mt_CT s) (mt_log s)"
    "mt_CT s \<le> x \<Longrightarrow> x < mt_PT s \<Longrightarrow> mt_at s x"
  using assms unfolding ring_ok_def by blast+

lemma mt_invD:
  assumes "mt_inv s"
  shows "ring_ok s" "ranges_ok s" "thread_ok s t"
  using assms by (simp_all add: mt_inv_def)

lemma ranges_okD:
  assumes "ranges_ok s"
  shows "t \<noteq> u \<Longrightarrow> prange s t \<inter> prange s u = {}" "t \<noteq> u \<Longrightarrow> crange s t \<inter> crange s u = {}"
    "prange s t \<subseteq> {mt_PT s..<mt_PH s}" "crange s t \<subseteq> {mt_CT s..<mt_ch s}"
    "(\<Union>t. prange s t) = {mt_PT s..<mt_PH s}" "(\<Union>t. crange s t) = {mt_CT s..<mt_ch s}"
proof -
  have d: "\<forall>t u. t \<noteq> u \<longrightarrow> prange s t \<inter> prange s u = {} \<and> crange s t \<inter> crange s u = {}"
    and P: "(\<Union>t. prange s t) = {mt_PT s..<mt_PH s}" and C: "(\<Union>t. crange s t) = {mt_CT s..<mt_ch s}"
    using assms by (simp_all add: ranges_ok_def)
  show "t \<noteq> u \<Longrightarrow> prange s t \<inter> prange s u = {}" "t \<noteq> u \<Longrightarrow> crange s t \<inter> crange s u = {}" using d by simp_all
  show "prange s t \<subseteq> {mt_PT s..<mt_PH s}" "crange s t \<subseteq> {mt_CT s..<mt_ch s}" unfolding P [symmetric] C [symmetric] by (rule UN_upper, simp)+
qed (use assms in \<open>simp_all add: ranges_ok_def\<close>)

text \<open>Two positions in the window of the ring have different slots.\<close>

lemma window_inj:
  assumes "c \<le> x" "c \<le> y" "x < c + k" "y < c + k" "x mod k = y mod (k :: nat)"
  shows "x = y"
proof -
  have *: "a = b" if "a \<le> b" "b < a + k" "a mod k = b mod k" for a b
  proof -
    have "k dvd b - a" using that(1,3) mod_eq_dvd_iff_nat [of a b k] by simp
    then have "b - a = 0" using that(2) by (auto dest: dvd_imp_le)
    then show ?thesis using that(1) by simp
  qed
  show ?thesis using * [of x y] * [of y x] assms by (cases "x \<le> y") simp_all
qed

lemma ring_slot_mod: "ring_wf r \<Longrightarrow> ring_slot r (of_nat x) i = (x + i) mod ring_sz r"
proof -
  assume w: "ring_wf r"
  have "unat (of_nat (x + i) :: u32) mod ring_sz r = (x + i) mod ring_sz r"
    using ring_wfD(2) [OF w] by (simp only: unsigned_of_nat take_bit_eq_mod nat_mod_distrib mod_mod_cancel semiring_1_class.of_nat_simps)
      (simp add: mod_mod_cancel)
  then show ?thesis using ring_wfD(5) [OF w] by (simp add: ring_slot_def)
qed

text \<open>What a thread relies on stays true when other threads move on, as long as they keep out of what it has reserved.\<close>

lemma wrote_keep:
  assumes w: "wrote s x obj h n i" and log: "mt_log s' = mt_log s @ xs" and "mt_PT s' \<le> x"
    and at: "\<And>j. j < unat n \<Longrightarrow> mt_at s (x + j) \<Longrightarrow> mt_at s' (x + j)"
  shows "wrote s' x obj h n i"
proof -
  have "\<forall>j<i. mt_at s' (x + j)" using w at by (auto simp: wrote_def)
  moreover have "take (unat n) (drop x (mt_log s')) = take (unat n) (drop x (mt_log s))" using w log by (simp add: wrote_def)
  ultimately show ?thesis using w assms(3) log by (simp add: wrote_def)
qed

lemma read_keep:
  assumes r: "read s x table h n i" and log: "mt_log s' = mt_log s @ xs" and "mt_CT s' \<le> x" "mt_ch s \<le> mt_ch s'" "mt_ch s \<le> mt_PH s"
  shows "read s' x table h n i"
proof -
  have "x + i \<le> mt_PH s" using r assms(5) by (simp add: read_def)
  then have "take i (drop x (mt_log s')) = take i (drop x (mt_log s))" using log by simp
  then show ?thesis using r assms(3,4) by (simp add: read_def)
qed

lemma thread_ok_keep:
  assumes ok: "thread_ok s u" and same: "mt_pc s' u = mt_pc s u" "mt_pos s' u = mt_pos s u" "mt_sz s' = mt_sz s"
    and log: "mt_log s' = mt_log s @ xs"
    and mono: "mt_PT s \<le> mt_PT s'" "mt_CT s \<le> mt_CT s'" "mt_ch s \<le> mt_ch s'" "mt_ch s \<le> mt_PH s"
    and pr: "\<And>x. x \<in> prange s u \<Longrightarrow> mt_PT s' \<le> x \<and> (mt_at s x \<longrightarrow> mt_at s' x)" and cr: "\<And>x. x \<in> crange s u \<Longrightarrow> mt_CT s' \<le> x"
  shows "thread_ok s' u"
proof (cases "mt_pc s u")
  case (MP_Copy obj beh h free n i)
  then have w: "wrote s (mt_pos s u) obj h n i" and p: "prange s u = {mt_pos s u..<mt_pos s u + unat n}" using ok by (simp_all add: thread_ok_def prange_def)
  have "wrote s' (mt_pos s u) obj h n i" using w pr p by (intro wrote_keep [OF w log]) (auto simp: wrote_def)
  then show ?thesis using MP_Copy same by (simp add: thread_ok_def)
next
  case (MP_Wait ret obj h n)
  then have w: "wrote s (mt_pos s u) obj h n (unat n)" and p: "prange s u = {mt_pos s u..<mt_pos s u + unat n}" using ok by (simp_all add: thread_ok_def prange_def)
  have "wrote s' (mt_pos s u) obj h n (unat n)" using w pr p by (intro wrote_keep [OF w log]) (auto simp: wrote_def)
  then show ?thesis using MP_Wait same by (simp add: thread_ok_def)
next
  case (MC_Copy table beh h n i)
  then have r: "read s (mt_pos s u) table h n i" and c: "crange s u = {mt_pos s u..<mt_pos s u + unat n}" using ok by (simp_all add: thread_ok_def crange_def)
  have "read s' (mt_pos s u) table h n i" using r cr c mono by (intro read_keep [OF r log]) (auto simp: read_def)
  then show ?thesis using MC_Copy same by (simp add: thread_ok_def)
next
  case (MC_Wait table beh h n)
  then have r: "read s (mt_pos s u) table h n (unat n)" and c: "crange s u = {mt_pos s u..<mt_pos s u + unat n}" using ok by (simp_all add: thread_ok_def crange_def)
  have "read s' (mt_pos s u) table h n (unat n)" using r cr c mono by (intro read_keep [OF r log]) (auto simp: read_def)
  then show ?thesis using MC_Wait same by (simp add: thread_ok_def)
qed (use ok same log mono in \<open>auto simp: thread_ok_def Let_def\<close>)

section \<open>Steps that change the state of one thread only\<close>

lemma mt_at_cong: "slots (mt_ring s') = slots (mt_ring s) \<Longrightarrow> mt_sz s' = mt_sz s \<Longrightarrow> mt_log s' ! x = mt_log s ! x \<Longrightarrow> mt_at s' x = mt_at s x"
  by (simp add: mt_at_def)

lemma range_cong: "mt_pc s' u = mt_pc s u \<Longrightarrow> mt_pos s' u = mt_pos s u \<Longrightarrow> prange s' u = prange s u \<and> crange s' u = crange s u"
  by (simp only: prange_def crange_def)

lemma quiet_inv:
  assumes inv: "mt_inv s" and s': "s' = s\<lparr>mt_pc := (mt_pc s)(t := p), mt_pos := (mt_pos s)(t := x)\<rparr>"
    and r: "prange s' t = prange s t" "crange s' t = crange s t" and t: "thread_ok s' t"
  shows "mt_inv s'"
proof -
  note D = mt_invD [OF inv]
  have eq: "mt_ring s' = mt_ring s" "mt_log s' = mt_log s" "mt_ch s' = mt_ch s" "mt_in s' = mt_in s" "mt_out s' = mt_out s" by (simp_all add: s')
  have at: "mt_at s' = mt_at s" by (rule ext) (simp add: mt_at_def eq)
  have "ring_ok s'" using D(1) unfolding ring_ok_def eq at .
  moreover have R: "prange s' u = prange s u \<and> crange s' u = crange s u" for u
    using r by (cases "u = t") (simp, intro range_cong, simp_all add: s')
  then have "ranges_ok s'" using D(2) by (simp add: ranges_ok_def eq)
  moreover have "thread_ok s' u" for u
  proof (cases "u = t")
    case False
    note K = ring_okD(6-8) [OF D(1)]
    have "x \<in> prange s u \<Longrightarrow> mt_PT s \<le> x" "x \<in> crange s u \<Longrightarrow> mt_CT s \<le> x" for x using ranges_okD(3,4) [OF D(2), of u] by auto
    moreover have "mt_pc s' u = mt_pc s u" "mt_pos s' u = mt_pos s u" using False by (simp_all add: s')
    ultimately show ?thesis using K by (intro thread_ok_keep [OF D(3) [of u], where xs = "[]"]) (auto simp: eq at)
  qed (simp add: t)
  ultimately show ?thesis by (simp add: mt_inv_def)
qed

lemma call_inv:
  assumes inv: "mt_inv s" and rest: "ring_at_rest (mt_pc s t)" and n: "0 < n" "unat n \<le> length obj"
  shows "mt_inv (s\<lparr>mt_pc := (mt_pc s)(t := MP_Head obj n beh)\<rparr>)" "mt_inv (s\<lparr>mt_pc := (mt_pc s)(t := MC_Head obj n beh)\<rparr>)"
proof -
  have e: "prange s t = {}" "crange s t = {}" using rest by (auto simp: ring_at_rest_def prange_def crange_def split: ring_pc.splits)
  have n0: "0 < unat n" using n(1) by (simp add: unat_gt_0 word_neq_0_conv)
  show "mt_inv (s\<lparr>mt_pc := (mt_pc s)(t := MP_Head obj n beh)\<rparr>)"
    by (rule quiet_inv [OF inv, where t = t and p = "MP_Head obj n beh" and x = "mt_pos s t"])
      (use e n n0 in \<open>simp_all add: prange_def crange_def thread_ok_def\<close>)
  show "mt_inv (s\<lparr>mt_pc := (mt_pc s)(t := MC_Head obj n beh)\<rparr>)"
    by (rule quiet_inv [OF inv, where t = t and p = "MC_Head obj n beh" and x = "mt_pos s t"])
      (use e n n0 in \<open>simp_all add: prange_def crange_def thread_ok_def\<close>)
qed

lemma amount_cases:
  assumes "ring_amount err beh mx room = Inr n" "0 < unat mx"
  shows "0 < unat n" "unat n \<le> unat mx" "unat n \<le> unat room"
proof -
  have "(n = mx \<and> mx \<le> room) \<or> (n = room \<and> room < mx \<and> room \<noteq> 0)"
    using assms(1) by (auto simp: ring_amount_def split: if_splits)
  then show "0 < unat n" "unat n \<le> unat mx" "unat n \<le> unat room"
    using assms(2) by (auto simp: word_le_nat_alt word_less_nat_alt unat_gt_0)
qed

text \<open>What a producer computes from the two indices it read is exact while nobody else has reserved, and at least the free room otherwise.\<close>

lemma free_entries_eq:
  assumes ok: "ring_ok s" and x: "x \<le> mt_PH s" and time: "mt_PH s + mt_sz s < x + 2 ^ 32"
  shows "unat (pr_mask (prod (mt_ring s)) + co_tail (cons (mt_ring s)) - of_nat x) = mt_sz s - 1 + mt_CT s - x"
proof -
  note D = ring_okD [OF ok] and W = ring_wfD [OF ring_okD(1) [OF ok]]
  have le: "x \<le> mt_sz s - 1 + mt_CT s" using x D(9) by linarith
  have m: "pr_mask (prod (mt_ring s)) = of_nat (mt_sz s - 1)" using W(4) by (metis of_nat_unat ucast_id)
  have "pr_mask (prod (mt_ring s)) + co_tail (cons (mt_ring s)) - of_nat x = of_nat (mt_sz s - 1 + mt_CT s - x)"
    using le unfolding m D(5) by (simp add: of_nat_diff)
  moreover have "mt_sz s - 1 + mt_CT s - x < 2 ^ 32" using time D(6-8) by simp
  ultimately show ?thesis by (simp only:) (rule unat_of_nat_small, simp)
qed

lemma entries_eq:
  assumes ok: "ring_ok s" and x: "x \<le> mt_ch s" and time: "mt_PH s + mt_sz s < x + 2 ^ 32"
  shows "unat (pr_tail (prod (mt_ring s)) - of_nat x) = mt_PT s - x"
proof -
  note D = ring_okD [OF ok]
  have "pr_tail (prod (mt_ring s)) - of_nat x = of_nat (mt_PT s - x)" using x D(7) unfolding D(3) by (simp add: of_nat_diff)
  moreover have "mt_PT s - x < 2 ^ 32" using time D(8) by simp
  ultimately show ?thesis by (simp only:) (rule unat_of_nat_small, simp)
qed

section \<open>Steps that move an index or write a slot\<close>

lemma UN_others: "(\<Union>u. f u) = {a..<b} \<Longrightarrow> (\<And>u. u \<noteq> t \<Longrightarrow> f u \<inter> f t = {}) \<Longrightarrow> (\<Union>u\<in>-{t}. f u) = {a..<b :: nat} - f t"
  by (drule sym) auto

lemma ranges_ok_upd:
  assumes R: "ranges_ok s" and same: "\<And>u. u \<noteq> t \<Longrightarrow> prange s' u = prange s u \<and> crange s' u = crange s u"
    and p: "prange s' t \<inter> ({mt_PT s..<mt_PH s} - prange s t) = {}" "prange s' t \<union> ({mt_PT s..<mt_PH s} - prange s t) = {mt_PT s'..<mt_PH s'}"
    and c: "crange s' t \<inter> ({mt_CT s..<mt_ch s} - crange s t) = {}" "crange s' t \<union> ({mt_CT s..<mt_ch s} - crange s t) = {mt_CT s'..<mt_ch s'}"
  shows "ranges_ok s'"
proof -
  note D = ranges_okD [OF R]
  have P: "(\<Union>u\<in>-{t}. prange s u) = {mt_PT s..<mt_PH s} - prange s t" by (rule UN_others [OF D(5) D(1)])
  have C: "(\<Union>u\<in>-{t}. crange s u) = {mt_CT s..<mt_ch s} - crange s t" by (rule UN_others [OF D(6) D(2)])
  have split: "(\<Union>u. f u) = f t \<union> (\<Union>u\<in>-{t}. f u)" for f :: "nat \<Rightarrow> nat set" by auto
  have UP: "(\<Union>u. prange s' u) = {mt_PT s'..<mt_PH s'}" unfolding split [of "prange s'"] p(2) [symmetric] P [symmetric] using same by simp
  have UC: "(\<Union>u. crange s' u) = {mt_CT s'..<mt_ch s'}" unfolding split [of "crange s'"] c(2) [symmetric] C [symmetric] using same by simp
  have apart: "prange s' t \<inter> prange s' u = {}" "crange s' t \<inter> crange s' u = {}" if "u \<noteq> t" for u
  proof -
    have "prange s u \<subseteq> {mt_PT s..<mt_PH s} - prange s t" "crange s u \<subseteq> {mt_CT s..<mt_ch s} - crange s t"
      using that D(1-4) [of u] D(1) [OF that] D(2) [OF that] by blast+
    then show "prange s' t \<inter> prange s' u = {}" "crange s' t \<inter> crange s' u = {}" using p(1) c(1) same [OF that] by blast+
  qed
  have "prange s' v \<inter> prange s' u = {} \<and> crange s' v \<inter> crange s' u = {}" if "v \<noteq> u" for v u
    using that apart [of u] apart [of v] same [of u] same [of v] D(1,2) [of v u] by (cases "u = t"; cases "v = t") (simp_all add: Int_commute)
  then show ?thesis unfolding ranges_ok_def using UP UC by simp
qed

lemma pos_of_word:
  assumes "(of_nat a :: u32) = of_nat b" "a \<le> b" "b < a + 2 ^ 32"
  shows "a = b"
  by (rule of_nat_eq_near [OF assms(1)]) (use assms(2,3) in simp_all)

lemma of_nat_unat_u32 [simp]: "of_nat (unat n) = (n :: u32)"
  by simp

lemma reserve_inv:
  assumes inv: "mt_inv s" and pc: "mt_pc s t = MP_Cas obj mx beh h free n" and time: "mt_in_time s t" and cas: "pr_head (prod (mt_ring s)) = h"
    and s': "s' = s\<lparr>mt_ring := (mt_ring s)\<lparr>prod := (prod (mt_ring s))\<lparr>pr_head := h + n\<rparr>\<rparr>, mt_pc := (mt_pc s)(t := MP_Copy obj beh h free n 0),
      mt_log := mt_log s @ take (unat n) obj\<rparr>"
  shows "mt_inv s'"
proof -
  note D = mt_invD [OF inv] and K = ring_okD [OF mt_invD(1) [OF inv]]
  have T: "0 < unat n" "unat n \<le> length obj" "h = of_nat (mt_pos s t)" "mt_pos s t \<le> mt_PH s"
    "mt_pos s t = mt_PH s \<Longrightarrow> mt_PH s + unat n < mt_CT s + mt_sz s"
    using D(3) [of t] pc by (simp_all add: thread_ok_def Let_def)
  have x: "mt_pos s t = mt_PH s"
    using cas K(2) T(3,4) time pc by (intro pos_of_word) (simp_all add: mt_in_time_def)
  have eq: "slots (mt_ring s') = slots (mt_ring s)" "mt_sz s' = mt_sz s" "mt_ch s' = mt_ch s" "mt_in s' = mt_in s" "mt_out s' = mt_out s"
    "mt_PH s' = mt_PH s + unat n" "mt_log s' = mt_log s @ take (unat n) obj" using T(2) by (simp_all add: s')
  have at: "mt_at s' y = mt_at s y" if "y < mt_PH s" for y using that by (intro mt_at_cong) (simp_all add: s' nth_append)
  have wf: "ring_wf (mt_ring s')" using K(1) by (simp add: s' ring_wf_def)
  have "pr_head (prod (mt_ring s')) = of_nat (mt_PH s')" unfolding eq(6) using T(3) x by (simp add: s')
  then have "ring_ok s'" unfolding ring_ok_def eq using K wf T(5) [OF x] at eq(6,7) by (simp add: s')
  moreover have "ranges_ok s'"
  proof (rule ranges_ok_upd [OF D(2), where t = t])
    show "prange s' u = prange s u \<and> crange s' u = crange s u" if "u \<noteq> t" for u using that by (intro range_cong) (simp_all add: s')
    have e: "prange s t = {}" "crange s t = {}" "crange s' t = {}" "prange s' t = {mt_PH s..<mt_PH s + unat n}"
      using pc x by (simp_all add: prange_def crange_def s')
    show "prange s' t \<inter> ({mt_PT s..<mt_PH s} - prange s t) = {}" "prange s' t \<union> ({mt_PT s..<mt_PH s} - prange s t) = {mt_PT s'..<mt_PH s'}"
      "crange s' t \<inter> ({mt_CT s..<mt_ch s} - crange s t) = {}" "crange s' t \<union> ({mt_CT s..<mt_ch s} - crange s t) = {mt_CT s'..<mt_ch s'}"
      unfolding e eq(3-6) using K(8) by auto
  qed
  moreover have "thread_ok s' u" for u
  proof (cases "u = t")
    case True
    have "wrote s' (mt_PH s) obj h n 0" using T(1,2,3) x K(8) by (simp add: wrote_def eq)
    then show ?thesis using True x by (simp add: thread_ok_def s')
  next
    case False
    have "mt_PT s \<le> y \<and> y < mt_PH s" if "y \<in> prange s u" for y using that ranges_okD(3) [OF D(2), of u] by auto
    moreover have "mt_CT s \<le> y" if "y \<in> crange s u" for y using that ranges_okD(4) [OF D(2), of u] by auto
    moreover have "mt_pc s' u = mt_pc s u" "mt_pos s' u = mt_pos s u" using False by (simp_all add: s')
    ultimately show ?thesis using K(7,8) at by (intro thread_ok_keep [OF D(3) [of u] _ _ eq(2,7)]) (auto simp: eq)
  qed
  ultimately show ?thesis by (simp add: mt_inv_def)
qed

lemma write_inv:
  assumes inv: "mt_inv s" and pc: "mt_pc s t = MP_Copy obj beh h free n i" and i: "i < unat n"
    and s': "s' = s\<lparr>mt_ring := (mt_ring s)\<lparr>slots := (slots (mt_ring s))[ring_slot (mt_ring s) h i := obj ! i]\<rparr>,
      mt_pc := (mt_pc s)(t := MP_Copy obj beh h free n (i + 1))\<rparr>"
  shows "mt_inv s'"
proof -
  note D = mt_invD [OF inv] and K = ring_okD [OF mt_invD(1) [OF inv]]
  let ?x = "mt_pos s t"
  have w: "wrote s ?x obj h n i" using D(3) [of t] pc by (simp add: thread_ok_def)
  then have T: "h = of_nat ?x" "unat n \<le> length obj" "mt_PT s \<le> ?x" "?x + unat n \<le> mt_PH s" "take (unat n) (drop ?x (mt_log s)) = take (unat n) obj"
    "\<forall>j<i. mt_at s (?x + j)" by (simp_all add: wrote_def)
  have slot: "ring_slot (mt_ring s) h i = (?x + i) mod mt_sz s" unfolding T(1) by (rule ring_slot_mod [OF K(1)])
  have val: "obj ! i = mt_log s ! (?x + i)"
    using arg_cong [OF T(5), of "\<lambda>xs. xs ! i"] i T(2,4) by simp
  have eq: "mt_sz s' = mt_sz s" "mt_log s' = mt_log s" "mt_ch s' = mt_ch s" "mt_in s' = mt_in s" "mt_out s' = mt_out s" "mt_pos s' = mt_pos s" by (simp_all add: s')
  have wf: "ring_wf (mt_ring s')" using K(1) by (simp add: s' ring_wf_def)
  have at: "mt_at s' y \<longleftrightarrow> y = ?x + i \<or> mt_at s y" if y: "mt_CT s \<le> y" "y < mt_PH s" for y
  proof (cases "y = ?x + i")
    case True
    have "(?x + i) mod mt_sz s < length (slots (mt_ring s))" using ring_wfD(1,7) [OF K(1)] by simp
    then show ?thesis unfolding True mt_at_def eq using val slot by (simp add: s')
  next
    case False
    have "y mod mt_sz s \<noteq> (?x + i) mod mt_sz s"
      using window_inj [of "mt_CT s" y "?x + i" "mt_sz s"] False y K(6-9) T(3,4) i by linarith
    then show ?thesis using False unfolding mt_at_def eq slot by (simp add: s' slot)
  qed
  have "ring_ok s'" unfolding ring_ok_def eq using K wf at by (auto simp: s')
  moreover have "ranges_ok s'"
  proof (rule ranges_ok_upd [OF D(2), where t = t])
    show "prange s' u = prange s u \<and> crange s' u = crange s u" if "u \<noteq> t" for u using that by (intro range_cong) (simp_all add: s')
    have e: "prange s' t = prange s t" "crange s' t = crange s t" using pc by (simp_all add: prange_def crange_def s')
    show "prange s' t \<inter> ({mt_PT s..<mt_PH s} - prange s t) = {}" "prange s' t \<union> ({mt_PT s..<mt_PH s} - prange s t) = {mt_PT s'..<mt_PH s'}"
      "crange s' t \<inter> ({mt_CT s..<mt_ch s} - crange s t) = {}" "crange s' t \<union> ({mt_CT s..<mt_ch s} - crange s t) = {mt_CT s'..<mt_ch s'}"
      unfolding e eq using ranges_okD(3,4) [OF D(2), of t] by auto
  qed
  moreover have "thread_ok s' u" for u
  proof (cases "u = t")
    case True
    have "mt_at s' (?x + j)" if "j < i + 1" for j
      using at [of "?x + j"] that i T(3,4,6) K(6,7) by (cases "j = i") auto
    then have "wrote s' ?x obj h n (i + 1)" unfolding wrote_def eq using w i by (simp add: wrote_def)
    then show ?thesis using True by (simp add: thread_ok_def s')
  next
    case False
    have "mt_PT s \<le> y \<and> y < mt_PH s" if "y \<in> prange s u" for y using that ranges_okD(3) [OF D(2), of u] by auto
    moreover have "mt_CT s \<le> y" if "y \<in> crange s u" for y using that ranges_okD(4) [OF D(2), of u] by auto
    moreover have "mt_pc s' u = mt_pc s u" using False by (simp add: s')
    moreover have "mt_CT s \<le> mt_PT s" using K(6,7) by simp
    ultimately show ?thesis using K(7,8) at eq
      by (intro thread_ok_keep [OF D(3) [of u] _ _ eq(1), where xs = "[]"]) (auto dest: order_trans)
  qed
  ultimately show ?thesis by (simp add: mt_inv_def)
qed

lemma publish_inv:
  assumes inv: "mt_inv s" and pc: "mt_pc s t = MP_Wait ret obj h n" and tl: "pr_tail (prod (mt_ring s)) = h"
    and s': "s' = s\<lparr>mt_ring := (mt_ring s)\<lparr>prod := (prod (mt_ring s))\<lparr>pr_tail := h + n\<rparr>\<rparr>, mt_pc := (mt_pc s)(t := R_Return ret obj),
      mt_in := mt_in s @ [take (unat n) obj]\<rparr>"
  shows "mt_inv s'"
proof -
  note D = mt_invD [OF inv] and K = ring_okD [OF mt_invD(1) [OF inv]]
  let ?x = "mt_pos s t"
  have w: "wrote s ?x obj h n (unat n)" using D(3) [of t] pc by (simp add: thread_ok_def)
  then have T: "h = of_nat ?x" "unat n \<le> length obj" "mt_PT s \<le> ?x" "?x + unat n \<le> mt_PH s" "take (unat n) (drop ?x (mt_log s)) = take (unat n) obj"
    "\<forall>j<unat n. mt_at s (?x + j)" by (simp_all add: wrote_def)
  have x: "?x = mt_PT s"
    using tl K(3,6-9) T(1,3,4) ring_wfD(3) [OF K(1)] by (intro pos_of_word [symmetric]) simp_all
  have eq: "slots (mt_ring s') = slots (mt_ring s)" "mt_sz s' = mt_sz s" "mt_log s' = mt_log s" "mt_ch s' = mt_ch s" "mt_out s' = mt_out s" "mt_pos s' = mt_pos s"
    "mt_PT s' = mt_PT s + unat n" using T(2) by (simp_all add: s')
  have at: "mt_at s' = mt_at s" by (rule ext) (simp add: mt_at_def eq)
  have wf: "ring_wf (mt_ring s')" using K(1) by (simp add: s' ring_wf_def)
  have "concat (mt_in s') = take (mt_PT s) (mt_log s) @ take (unat n) (drop (mt_PT s) (mt_log s))" using K(10) T(5) x by (simp add: s')
  then have "concat (mt_in s') = take (mt_PT s + unat n) (mt_log s)" by (simp only: take_add)
  moreover have "mt_at s y" if "mt_CT s \<le> y" "y < mt_PT s + unat n" for y
  proof (cases "y < mt_PT s")
    case False
    then show ?thesis using T(6) [rule_format, of "y - mt_PT s"] that x by auto
  qed (use that K(12) in blast)
  moreover have "pr_tail (prod (mt_ring s')) = of_nat (mt_PT s + unat n)" using T(1) x by (simp add: s')
  ultimately have "ring_ok s'" unfolding ring_ok_def eq at using K wf T(4) x by (simp add: s')
  moreover have "ranges_ok s'"
  proof (rule ranges_ok_upd [OF D(2), where t = t])
    show "prange s' u = prange s u \<and> crange s' u = crange s u" if "u \<noteq> t" for u using that by (intro range_cong) (simp_all add: s')
    have e: "prange s' t = {}" "crange s' t = crange s t" "crange s t = {}" "prange s t = {mt_PT s..<mt_PT s + unat n}"
      using pc x by (simp_all add: prange_def crange_def s')
    show "prange s' t \<inter> ({mt_PT s..<mt_PH s} - prange s t) = {}" "prange s' t \<union> ({mt_PT s..<mt_PH s} - prange s t) = {mt_PT s'..<mt_PH s'}"
      "crange s' t \<inter> ({mt_CT s..<mt_ch s} - crange s t) = {}" "crange s' t \<union> ({mt_CT s..<mt_ch s} - crange s t) = {mt_CT s'..<mt_ch s'}"
      unfolding e eq by auto
  qed
  moreover have "thread_ok s' u" for u
  proof (cases "u = t")
    case True
    then show ?thesis by (simp add: thread_ok_def s')
  next
    case False
    have "prange s t = {mt_PT s..<mt_PT s + unat n}" using pc x by (simp add: prange_def)
    then have "mt_PT s + unat n \<le> y" if "y \<in> prange s u" for y
      using that ranges_okD(3) [OF D(2), of u] ranges_okD(1) [OF D(2) False] by force
    moreover have "mt_CT s \<le> y" if "y \<in> crange s u" for y using that ranges_okD(4) [OF D(2), of u] by auto
    moreover have "mt_pc s' u = mt_pc s u" using False by (simp add: s')
    ultimately show ?thesis using K(7,8) at eq
      by (intro thread_ok_keep [OF D(3) [of u] _ _ eq(2), where xs = "[]"]) auto
  qed
  ultimately show ?thesis by (simp add: mt_inv_def)
qed

lemma take_inv:
  assumes inv: "mt_inv s" and pc: "mt_pc s t = MC_Cas table mx beh h n" and time: "mt_in_time s t" and cas: "co_head (cons (mt_ring s)) = h"
    and s': "s' = s\<lparr>mt_ring := (mt_ring s)\<lparr>cons := (cons (mt_ring s))\<lparr>co_head := h + n\<rparr>\<rparr>, mt_pc := (mt_pc s)(t := MC_Copy table beh h n 0),
      mt_ch := mt_ch s + unat n\<rparr>"
  shows "mt_inv s'"
proof -
  note D = mt_invD [OF inv] and K = ring_okD [OF mt_invD(1) [OF inv]]
  have T: "0 < unat n" "unat n \<le> length table" "h = of_nat (mt_pos s t)" "mt_pos s t \<le> mt_ch s" "mt_pos s t = mt_ch s \<Longrightarrow> mt_ch s + unat n \<le> mt_PT s"
    using D(3) [of t] pc by (simp_all add: thread_ok_def Let_def)
  have x: "mt_pos s t = mt_ch s"
    using cas K(4,7,8) T(3,4) time pc by (intro pos_of_word) (simp_all add: mt_in_time_def)
  have eq: "slots (mt_ring s') = slots (mt_ring s)" "mt_sz s' = mt_sz s" "mt_log s' = mt_log s" "mt_in s' = mt_in s" "mt_out s' = mt_out s" "mt_pos s' = mt_pos s"
    "mt_ch s' = mt_ch s + unat n" by (simp_all add: s')
  have at: "mt_at s' = mt_at s" by (rule ext) (simp add: mt_at_def eq)
  have wf: "ring_wf (mt_ring s')" using K(1) by (simp add: s' ring_wf_def)
  have "co_head (cons (mt_ring s')) = of_nat (mt_ch s + unat n)" using T(3) x by (simp add: s')
  then have "ring_ok s'" unfolding ring_ok_def eq at using K wf T(5) [OF x] by (simp add: s')
  moreover have "ranges_ok s'"
  proof (rule ranges_ok_upd [OF D(2), where t = t])
    show "prange s' u = prange s u \<and> crange s' u = crange s u" if "u \<noteq> t" for u using that by (intro range_cong) (simp_all add: s')
    have e: "prange s' t = {}" "prange s t = {}" "crange s t = {}" "crange s' t = {mt_ch s..<mt_ch s + unat n}"
      using pc x by (simp_all add: prange_def crange_def s')
    show "prange s' t \<inter> ({mt_PT s..<mt_PH s} - prange s t) = {}" "prange s' t \<union> ({mt_PT s..<mt_PH s} - prange s t) = {mt_PT s'..<mt_PH s'}"
      "crange s' t \<inter> ({mt_CT s..<mt_ch s} - crange s t) = {}" "crange s' t \<union> ({mt_CT s..<mt_ch s} - crange s t) = {mt_CT s'..<mt_ch s'}"
      unfolding e eq using K(6) by auto
  qed
  moreover have "thread_ok s' u" for u
  proof (cases "u = t")
    case True
    have "read s' (mt_ch s) table h n 0" using T(1,2,3) x K(6) by (simp add: read_def eq)
    then show ?thesis using True x by (simp add: thread_ok_def s')
  next
    case False
    have "mt_PT s \<le> y" if "y \<in> prange s u" for y using that ranges_okD(3) [OF D(2), of u] by auto
    moreover have "mt_CT s \<le> y" if "y \<in> crange s u" for y using that ranges_okD(4) [OF D(2), of u] by auto
    moreover have "mt_pc s' u = mt_pc s u" using False by (simp add: s')
    ultimately show ?thesis using K(7,8) at eq by (intro thread_ok_keep [OF D(3) [of u] _ _ eq(2), where xs = "[]"]) auto
  qed
  ultimately show ?thesis by (simp add: mt_inv_def)
qed

text \<open>A consumer reads the object that belongs to the position it reserved.\<close>

lemma copy_out_inv:
  assumes inv: "mt_inv s" and pc: "mt_pc s t = MC_Copy table beh h n i" and i: "i < unat n"
  shows "ring_slot (mt_ring s) h i < length (slots (mt_ring s))"
    and "mt_inv (s\<lparr>mt_pc := (mt_pc s)(t := MC_Copy (table[i := slots (mt_ring s) ! ring_slot (mt_ring s) h i]) beh h n (i + 1))\<rparr>)" (is "mt_inv ?s")
proof -
  note D = mt_invD [OF inv] and K = ring_okD [OF mt_invD(1) [OF inv]]
  let ?x = "mt_pos s t" and ?v = "slots (mt_ring s) ! ring_slot (mt_ring s) h i"
  have r: "read s ?x table h n i" using D(3) [of t] pc by (simp add: thread_ok_def)
  then have T: "h = of_nat ?x" "unat n \<le> length table" "mt_CT s \<le> ?x" "?x + unat n \<le> mt_ch s" "take i table = take i (drop ?x (mt_log s))"
    by (simp_all add: read_def)
  have slot: "ring_slot (mt_ring s) h i = (?x + i) mod mt_sz s" unfolding T(1) by (rule ring_slot_mod [OF K(1)])
  show "ring_slot (mt_ring s) h i < length (slots (mt_ring s))" using ring_wfD(1,7) [OF K(1)] by (simp add: slot)
  have xi: "mt_CT s \<le> ?x + i" "?x + i < mt_PT s" using T(3,4) i K(7) by simp_all
  have v: "?v = mt_log s ! (?x + i)" using K(12) [OF xi] by (simp add: slot mt_at_def)
  have "take (i + 1) (table[i := ?v]) = take i table @ [?v]" using take_Suc_update [of i table ?v] i T(2) by simp
  also have "\<dots> = take (i + 1) (drop ?x (mt_log s))" using v T(5) xi(2) K(8) by (simp add: take_Suc_conv_app_nth)
  finally have "read ?s ?x (table[i := ?v]) h n (i + 1)" using r i by (simp add: read_def)
  then show "mt_inv ?s"
    by (intro quiet_inv [OF inv, where t = t and p = "MC_Copy (table[i := ?v]) beh h n (i + 1)" and x = ?x])
      (simp_all add: thread_ok_def prange_def crange_def pc)
qed

lemma release_inv:
  assumes inv: "mt_inv s" and pc: "mt_pc s t = MC_Wait table beh h n" and tl: "co_tail (cons (mt_ring s)) = h"
    and s': "s' = s\<lparr>mt_ring := (mt_ring s)\<lparr>cons := (cons (mt_ring s))\<lparr>co_tail := h + n\<rparr>\<rparr>, mt_pc := (mt_pc s)(t := R_Return ret table),
      mt_out := mt_out s @ [take (unat n) table]\<rparr>"
  shows "mt_inv s'"
proof -
  note D = mt_invD [OF inv] and K = ring_okD [OF mt_invD(1) [OF inv]]
  let ?x = "mt_pos s t"
  have r: "read s ?x table h n (unat n)" using D(3) [of t] pc by (simp add: thread_ok_def)
  then have T: "h = of_nat ?x" "unat n \<le> length table" "mt_CT s \<le> ?x" "?x + unat n \<le> mt_ch s" "take (unat n) table = take (unat n) (drop ?x (mt_log s))"
    by (simp_all add: read_def)
  have x: "?x = mt_CT s"
    using tl K(5-9) T(1,3,4) ring_wfD(3) [OF K(1)] by (intro pos_of_word [symmetric]) simp_all
  have eq: "slots (mt_ring s') = slots (mt_ring s)" "mt_sz s' = mt_sz s" "mt_log s' = mt_log s" "mt_ch s' = mt_ch s" "mt_in s' = mt_in s" "mt_pos s' = mt_pos s"
    "mt_CT s' = mt_CT s + unat n" using T(2) by (simp_all add: s')
  have at: "mt_at s' = mt_at s" by (rule ext) (simp add: mt_at_def eq)
  have wf: "ring_wf (mt_ring s')" using K(1) by (simp add: s' ring_wf_def)
  have "concat (mt_out s') = take (mt_CT s) (mt_log s) @ take (unat n) (drop (mt_CT s) (mt_log s))" using K(11) T(5) x by (simp add: s')
  then have "concat (mt_out s') = take (mt_CT s + unat n) (mt_log s)" by (simp only: take_add)
  moreover have "co_tail (cons (mt_ring s')) = of_nat (mt_CT s + unat n)" using T(1) x by (simp add: s')
  ultimately have "ring_ok s'" unfolding ring_ok_def eq at using K wf T(4) x by (simp add: s')
  moreover have "ranges_ok s'"
  proof (rule ranges_ok_upd [OF D(2), where t = t])
    show "prange s' u = prange s u \<and> crange s' u = crange s u" if "u \<noteq> t" for u using that by (intro range_cong) (simp_all add: s')
    have e: "prange s' t = {}" "prange s t = {}" "crange s' t = {}" "crange s t = {mt_CT s..<mt_CT s + unat n}"
      using pc x by (simp_all add: prange_def crange_def s')
    show "prange s' t \<inter> ({mt_PT s..<mt_PH s} - prange s t) = {}" "prange s' t \<union> ({mt_PT s..<mt_PH s} - prange s t) = {mt_PT s'..<mt_PH s'}"
      "crange s' t \<inter> ({mt_CT s..<mt_ch s} - crange s t) = {}" "crange s' t \<union> ({mt_CT s..<mt_ch s} - crange s t) = {mt_CT s'..<mt_ch s'}"
      unfolding e eq by auto
  qed
  moreover have "thread_ok s' u" for u
  proof (cases "u = t")
    case True
    then show ?thesis by (simp add: thread_ok_def s')
  next
    case False
    have "crange s t = {mt_CT s..<mt_CT s + unat n}" using pc x by (simp add: crange_def)
    then have "mt_CT s + unat n \<le> y" if "y \<in> crange s u" for y
      using that ranges_okD(4) [OF D(2), of u] ranges_okD(2) [OF D(2) False] by force
    moreover have "mt_PT s \<le> y" if "y \<in> prange s u" for y using that ranges_okD(3) [OF D(2), of u] by auto
    moreover have "mt_pc s' u = mt_pc s u" using False by (simp add: s')
    ultimately show ?thesis using K(7,8) at eq by (intro thread_ok_keep [OF D(3) [of u] _ _ eq(2), where xs = "[]"]) auto
  qed
  ultimately show ?thesis by (simp add: mt_inv_def)
qed

section \<open>Every step keeps the invariant\<close>

lemma enqueue_step_inv:
  assumes inv: "mt_inv s" and run: "in_enqueue (mt_pc s t)" and time: "mt_in_time s t" and step: "ring_mp_do_enqueue_step (mt_pc s t) (mt_ring s) = (p, r)"
  shows "mt_inv (mt_note (mt_pc s t) p t (s\<lparr>mt_ring := r, mt_pc := (mt_pc s)(t := p)\<rparr>))" (is "mt_inv ?s")
proof -
  note D = mt_invD [OF inv] and K = ring_okD [OF mt_invD(1) [OF inv]]
  note quiet = quiet_inv [OF inv, where t = t and p = p]
  show ?thesis
  proof (cases "mt_pc s t")
    case (MP_Head obj mx beh)
    then show ?thesis using step D(3) [of t] K(2)
      by (intro quiet [where x = "mt_PH s"]) (auto simp: mt_note_def thread_ok_def Let_def prange_def crange_def)
  next
    case (MP_Tail obj mx beh h)
    let ?free = "pr_mask (prod (mt_ring s)) + co_tail (cons (mt_ring s)) - h"
    have T: "0 < unat mx" "unat mx \<le> length obj" "h = of_nat (mt_pos s t)" "mt_pos s t \<le> mt_PH s" using MP_Tail D(3) [of t] by (simp_all add: thread_ok_def Let_def)
    have free: "unat ?free = mt_sz s - 1 + mt_CT s - mt_pos s t" using free_entries_eq [OF D(1) T(4)] time MP_Tail T(3) by (simp add: mt_in_time_def)
    have r: "r = mt_ring s" using step MP_Tail by (auto simp: Let_def split: sum.splits)
    have pos: "(mt_pos s)(t := mt_pos s t) = mt_pos s" by simp
    show ?thesis
    proof (cases "ring_amount ENOBUFS beh mx ?free")
      case (Inl ret)
      then show ?thesis using step MP_Tail r
        by (intro quiet [where x = "mt_pos s t"]) (auto simp: mt_note_def thread_ok_def Let_def prange_def crange_def)
    next
      case (Inr n)
      note A = amount_cases [OF Inr T(1)]
      have p: "p = MP_Cas obj mx beh h ?free n" using step [unfolded MP_Tail] Inr by (auto simp: Let_def)
      have "mt_pos s t + unat n < mt_CT s + mt_sz s" if "mt_pos s t = mt_PH s"
        using A(3) free that K(9) ring_wfD(1) [OF K(1)] by linarith
      then show ?thesis using MP_Tail r p T A
        by (intro quiet [where x = "mt_pos s t"]) (auto simp: mt_note_def thread_ok_def Let_def prange_def crange_def)
    qed
  next
    case (MP_Cas obj mx beh h free n)
    show ?thesis
    proof (cases "pr_head (prod (mt_ring s)) = h")
      case True
      then have "p = MP_Copy obj beh h free n 0" "r = (mt_ring s)\<lparr>prod := (prod (mt_ring s))\<lparr>pr_head := h + n\<rparr>\<rparr>" using step MP_Cas by simp_all
      then show ?thesis by (intro reserve_inv [OF inv MP_Cas time True]) (simp add: mt_note_def MP_Cas)
    next
      case False
      then show ?thesis using step MP_Cas D(3) [of t]
        by (intro quiet [where x = "mt_pos s t"]) (auto simp: mt_note_def thread_ok_def Let_def prange_def crange_def)
    qed
  next
    case (MP_Copy obj beh h free n i)
    have w: "wrote s (mt_pos s t) obj h n i" using D(3) [of t] MP_Copy by (simp add: thread_ok_def)
    show ?thesis
    proof (cases "i < unat n")
      case True
      have "i < length obj" "ring_slot (mt_ring s) h i < length (slots (mt_ring s))"
        using w True ring_slot_mod [OF K(1)] ring_wfD(1,7) [OF K(1)] by (auto simp: wrote_def)
      then have "p = MP_Copy obj beh h free n (i + 1)" "r = (mt_ring s)\<lparr>slots := (slots (mt_ring s))[ring_slot (mt_ring s) h i := obj ! i]\<rparr>"
        using step MP_Copy True by (simp_all add: put_slot_def)
      then show ?thesis by (intro write_inv [OF inv MP_Copy True]) (simp add: mt_note_def MP_Copy)
    next
      case False
      then have "i = unat n" using w by (simp add: wrote_def)
      then show ?thesis using step MP_Copy w
        by (intro quiet [where x = "mt_pos s t"]) (auto simp: mt_note_def thread_ok_def Let_def prange_def crange_def wrote_def mt_at_def)
    qed
  next
    case (MP_Wait ret obj h n)
    show ?thesis
    proof (cases "pr_tail (prod (mt_ring s)) = h")
      case True
      then have "p = R_Return ret obj" "r = (mt_ring s)\<lparr>prod := (prod (mt_ring s))\<lparr>pr_tail := h + n\<rparr>\<rparr>" using step MP_Wait by simp_all
      then show ?thesis by (intro publish_inv [OF inv MP_Wait True]) (simp add: mt_note_def MP_Wait)
    next
      case False
      have "p = MP_Wait ret obj h n" "r = mt_ring s" using step [unfolded MP_Wait] False by auto
      then have "?s = s" using MP_Wait by (simp add: mt_note_def fun_upd_idem)
      then show ?thesis using inv by simp
    qed
  qed (use run in \<open>simp_all add: in_enqueue_def\<close>)
qed

lemma dequeue_step_inv:
  assumes inv: "mt_inv s" and run: "in_dequeue (mt_pc s t)" and time: "mt_in_time s t" and step: "ring_mc_do_dequeue_step (mt_pc s t) (mt_ring s) = (p, r)"
  shows "mt_inv (mt_note (mt_pc s t) p t (s\<lparr>mt_ring := r, mt_pc := (mt_pc s)(t := p)\<rparr>))" (is "mt_inv ?s")
proof -
  note D = mt_invD [OF inv] and K = ring_okD [OF mt_invD(1) [OF inv]]
  note quiet = quiet_inv [OF inv, where t = t and p = p]
  show ?thesis
  proof (cases "mt_pc s t")
    case (MC_Head table mx beh)
    then show ?thesis using step D(3) [of t] K(4)
      by (intro quiet [where x = "mt_ch s"]) (auto simp: mt_note_def thread_ok_def Let_def prange_def crange_def)
  next
    case (MC_Tail table mx beh h)
    let ?entries = "pr_tail (prod (mt_ring s)) - h"
    have T: "0 < unat mx" "unat mx \<le> length table" "h = of_nat (mt_pos s t)" "mt_pos s t \<le> mt_ch s" using MC_Tail D(3) [of t] by (simp_all add: thread_ok_def Let_def)
    have ent: "unat ?entries = mt_PT s - mt_pos s t" using entries_eq [OF D(1) T(4)] time MC_Tail T(3) by (simp add: mt_in_time_def)
    have r: "r = mt_ring s" using step MC_Tail by (auto simp: Let_def split: sum.splits)
    show ?thesis
    proof (cases "ring_amount ENOENT beh mx ?entries")
      case (Inl ret)
      then show ?thesis using step MC_Tail r
        by (intro quiet [where x = "mt_pos s t"]) (auto simp: mt_note_def thread_ok_def Let_def prange_def crange_def)
    next
      case (Inr n)
      note A = amount_cases [OF Inr T(1)]
      have p: "p = MC_Cas table mx beh h n" using step [unfolded MC_Tail] Inr by (auto simp: Let_def)
      have "mt_pos s t + unat n \<le> mt_PT s" using A(3) ent T(4) K(7) by linarith
      then show ?thesis using MC_Tail r p T A
        by (intro quiet [where x = "mt_pos s t"]) (auto simp: mt_note_def thread_ok_def Let_def prange_def crange_def)
    qed
  next
    case (MC_Cas table mx beh h n)
    show ?thesis
    proof (cases "co_head (cons (mt_ring s)) = h")
      case True
      then have "p = MC_Copy table beh h n 0" "r = (mt_ring s)\<lparr>cons := (cons (mt_ring s))\<lparr>co_head := h + n\<rparr>\<rparr>" using step MC_Cas by simp_all
      then show ?thesis by (intro take_inv [OF inv MC_Cas time True]) (simp add: mt_note_def MC_Cas)
    next
      case False
      then show ?thesis using step MC_Cas D(3) [of t]
        by (intro quiet [where x = "mt_pos s t"]) (auto simp: mt_note_def thread_ok_def Let_def prange_def crange_def)
    qed
  next
    case (MC_Copy table beh h n i)
    have w: "read s (mt_pos s t) table h n i" using D(3) [of t] MC_Copy by (simp add: thread_ok_def)
    show ?thesis
    proof (cases "i < unat n")
      case True
      note C = copy_out_inv [OF inv MC_Copy True]
      have "i < length table" using w True by (simp add: read_def)
      then have "p = MC_Copy (table[i := slots (mt_ring s) ! ring_slot (mt_ring s) h i]) beh h n (i + 1)" "r = mt_ring s"
        using step [unfolded MC_Copy] True C(1) by (auto simp: put_slot_def)
      then have "?s = s\<lparr>mt_pc := (mt_pc s)(t := MC_Copy (table[i := slots (mt_ring s) ! ring_slot (mt_ring s) h i]) beh h n (i + 1))\<rparr>"
        by (simp add: mt_note_def MC_Copy)
      then show ?thesis using C(2) by simp
    next
      case False
      then have "i = unat n" using w by (simp add: read_def)
      then show ?thesis using step MC_Copy w
        by (intro quiet [where x = "mt_pos s t"]) (auto simp: mt_note_def thread_ok_def Let_def prange_def crange_def read_def)
    qed
  next
    case (MC_Wait table beh h n)
    show ?thesis
    proof (cases "co_tail (cons (mt_ring s)) = h")
      case True
      then have "p = R_Return (dequeue_ret beh n) table" "r = (mt_ring s)\<lparr>cons := (cons (mt_ring s))\<lparr>co_tail := h + n\<rparr>\<rparr>" using step MC_Wait by simp_all
      then show ?thesis by (intro release_inv [OF inv MC_Wait True, where ret = "dequeue_ret beh n"]) (simp add: mt_note_def MC_Wait)
    next
      case False
      have "p = MC_Wait table beh h n" "r = mt_ring s" using step [unfolded MC_Wait] False by auto
      then have "?s = s" using MC_Wait by (simp add: mt_note_def fun_upd_idem)
      then show ?thesis using inv by simp
    qed
  qed (use run in \<open>simp_all add: in_dequeue_def\<close>)
qed

theorem ring_step_inv: "mt_inv s \<Longrightarrow> ring_step s t s' \<Longrightarrow> mt_inv s'"
  by (erule ring_step.cases) (use call_inv enqueue_step_inv dequeue_step_inv in blast)+

definition mt_start :: "odph_ring \<Rightarrow> ring_mt" where
  "mt_start r = \<lparr>mt_ring = r, mt_pc = (\<lambda>_. R_Idle), mt_pos = (\<lambda>_. 0), mt_log = [], mt_ch = 0, mt_in = [], mt_out = []\<rparr>"

lemma mt_start_inv:
  assumes "ring_wf r" "pr_head (prod r) = 0" "pr_tail (prod r) = 0" "co_head (cons r) = 0" "co_tail (cons r) = 0"
  shows "mt_inv (mt_start r)"
  using assms ring_wfD(1) [OF assms(1)]
  by (simp add: mt_inv_def ring_ok_def ranges_ok_def thread_ok_def prange_def crange_def mt_start_def)

lemma ring_init_wf: "k < 28 \<Longrightarrow> length mem0 = 2 ^ k \<Longrightarrow> ring_wf (ring_init name (2 ^ k) flags mem0)"
  by (auto simp: ring_wf_def ring_init_def unat_pow2_u32)

lemma ring_run_inv:
  assumes "runs ring_step (mt_start (ring_init name (2 ^ k) flags mem0)) s" "k < 28" "length mem0 = 2 ^ k"
  shows "mt_inv s"
proof (rule runs_invariant [OF assms(1)])
  show "mt_inv (mt_start (ring_init name (2 ^ k) flags mem0))"
    by (rule mt_start_inv [OF ring_init_wf [OF assms(2,3)]]) (simp_all add: ring_init_def)
qed (rule ring_step_inv)

section \<open>What follows\<close>

text \<open>The thread that all others wait for: it has the slots at the tail, and copies or can move the tail now.\<close>

definition mp_first :: "ring_mt \<Rightarrow> nat \<Rightarrow> bool" where
  "mp_first s u \<longleftrightarrow> (case mt_pc s u of MP_Copy _ _ h _ _ _ \<Rightarrow> h = pr_tail (prod (mt_ring s)) | MP_Wait _ _ h _ \<Rightarrow> h = pr_tail (prod (mt_ring s)) | _ \<Rightarrow> False)"

definition mc_first :: "ring_mt \<Rightarrow> nat \<Rightarrow> bool" where
  "mc_first s u \<longleftrightarrow> (case mt_pc s u of MC_Copy _ _ h _ _ \<Rightarrow> h = co_tail (cons (mt_ring s)) | MC_Wait _ _ h _ \<Rightarrow> h = co_tail (cons (mt_ring s)) | _ \<Rightarrow> False)"

lemma prange_at_tail:
  assumes inv: "mt_inv s" and u: "mt_PT s \<in> prange s u"
  shows "mp_first s u"
proof -
  note K = ring_okD [OF mt_invD(1) [OF inv]]
  have "mp_first s u" if "wrote s (mt_pos s u) obj h n i" "mt_PT s \<in> {mt_pos s u..<mt_pos s u + unat n}"
      "mt_pc s u = MP_Copy obj beh h free n i \<or> mt_pc s u = MP_Wait ret obj h n" for obj h n i beh free ret
    using that K(3) by (auto simp: wrote_def mp_first_def)
  then show ?thesis using u mt_invD(3) [OF inv, of u] by (auto simp: prange_def thread_ok_def split: ring_pc.splits)
qed

lemma crange_at_tail:
  assumes inv: "mt_inv s" and u: "mt_CT s \<in> crange s u"
  shows "mc_first s u"
proof -
  note K = ring_okD [OF mt_invD(1) [OF inv]]
  have "mc_first s u" if "read s (mt_pos s u) table h n i" "mt_CT s \<in> {mt_pos s u..<mt_pos s u + unat n}"
      "mt_pc s u = MC_Copy table beh h n i \<or> mt_pc s u = MC_Wait table beh h n" for table h n i beh
    using that K(5) by (auto simp: read_def mc_first_def)
  then show ?thesis using u mt_invD(3) [OF inv, of u] by (auto simp: crange_def thread_ok_def split: ring_pc.splits)
qed

lemma waiting_for_first:
  assumes inv: "mt_inv s"
  shows "mt_pc s t = MP_Wait ret obj h n \<Longrightarrow> \<exists>u. mp_first s u" and "mt_pc s t = MC_Wait table beh h' n' \<Longrightarrow> \<exists>u. mc_first s u"
proof -
  note R = ranges_okD [OF mt_invD(2) [OF inv]]
  assume "mt_pc s t = MP_Wait ret obj h n"
  then have "mt_pos s t \<in> prange s t" using mt_invD(3) [OF inv, of t] by (simp add: prange_def thread_ok_def Let_def wrote_def)
  then have "mt_PT s \<in> (\<Union>u. prange s u)" unfolding R(5) using R(3) [of t] by auto
  then show "\<exists>u. mp_first s u" using prange_at_tail [OF inv] by blast
next
  note R = ranges_okD [OF mt_invD(2) [OF inv]]
  assume "mt_pc s t = MC_Wait table beh h' n'"
  then have "mt_pos s t \<in> crange s t" using mt_invD(3) [OF inv, of t] by (simp add: crange_def thread_ok_def Let_def read_def)
  then have "mt_CT s \<in> (\<Union>u. crange s u)" unfolding R(6) using R(4) [of t] by auto
  then show "\<exists>u. mc_first s u" using crange_at_tail [OF inv] by blast
qed

lemma at_rest_contents:
  assumes inv: "mt_inv s" and rest: "\<And>t. ring_at_rest (mt_pc s t)"
  shows "ring_inv (mt_ring s) \<and> concat (mt_in s) = concat (mt_out s) @ ring_contents (mt_ring s)"
proof -
  note K = ring_okD [OF mt_invD(1) [OF inv]] and R = ranges_okD [OF mt_invD(2) [OF inv]]
  let ?k = "mt_PT s - mt_CT s"
  have "prange s t = {}" "crange s t = {}" for t using rest [of t] by (auto simp: ring_at_rest_def prange_def crange_def split: ring_pc.splits)
  then have e: "mt_PT s = mt_PH s" "mt_ch s = mt_CT s" using R(5,6) K(6,8) by auto
  have lt: "?k < mt_sz s" using K(6-9) by linarith
  have d: "pr_tail (prod (mt_ring s)) - co_tail (cons (mt_ring s)) = of_nat ?k" using K(3,5-7) by (simp add: of_nat_diff)
  have u: "unat (of_nat ?k :: u32) = ?k" using lt ring_wfD(3) [OF K(1)] by (intro unat_of_nat_small) simp
  have inv': "ring_inv (mt_ring s)" using K(1-5) e lt d u by (simp add: ring_inv_def)
  have idx: "(unat (co_tail (cons (mt_ring s))) mod mt_sz s + j) mod length (slots (mt_ring s)) = (mt_CT s + j) mod mt_sz s" for j
  proof -
    have "unat (of_nat (mt_CT s) :: u32) mod mt_sz s = mt_CT s mod mt_sz s"
      using ring_wfD(2) [OF K(1)] by (simp only: unsigned_of_nat take_bit_eq_mod nat_mod_distrib semiring_1_class.of_nat_simps) (simp add: mod_mod_cancel)
    then show ?thesis using ring_wfD(7) [OF K(1)] unfolding K(5) by (simp add: mod_add_left_eq)
  qed
  have at: "slots (mt_ring s) ! ((mt_CT s + j) mod mt_sz s) = mt_log s ! (mt_CT s + j)" if "j < ?k" for j
    using K(12) [of "mt_CT s + j"] that by (simp add: mt_at_def)
  have "ring_contents (mt_ring s) = map (\<lambda>j. mt_log s ! (mt_CT s + j)) [0..<?k]"
    unfolding ring_contents_def d u ring_load_def idx using at by simp
  also have "\<dots> = drop (mt_CT s) (mt_log s)" using e(1) K(6,7) by (intro nth_equalityI) simp_all
  finally have "concat (mt_out s) @ ring_contents (mt_ring s) = mt_log s" using K(11) by (metis append_take_drop_id)
  then show ?thesis using inv' K(10) e(1) by simp
qed

text \<open> C17: On a new ring that any number of threads use at once through the multi-producer and multi-consumer calls, in every
  interleaving: what completed dequeues took out, in the order they completed, is a prefix of what completed enqueues put in, in
  the order they completed; the ring never holds more than its size less one; no access is out of bounds; a thread that waits for its turn
  waits for one that copies or can move the tail; and when all calls have returned, the ring is consistent and holds
  exactly what was put in and not taken out.\<close>

theorem odph_ring_mt_fifo:
  assumes run: "runs ring_step (mt_start (ring_init name (2 ^ k) flags mem0)) s" and size: "k < 28" "length mem0 = 2 ^ k"
  shows "prefix (concat (mt_out s)) (concat (mt_in s)) \<and> length (concat (mt_in s)) - length (concat (mt_out s)) < ring_sz (mt_ring s) \<and>
    (\<forall>t e. mt_pc s t \<noteq> R_Abort e) \<and>
    (\<forall>t ret obj h n. mt_pc s t = MP_Wait ret obj h n \<longrightarrow> (\<exists>u. mp_first s u)) \<and>
    (\<forall>t table beh h n. mt_pc s t = MC_Wait table beh h n \<longrightarrow> (\<exists>u. mc_first s u)) \<and>
    ((\<forall>t. ring_at_rest (mt_pc s t)) \<longrightarrow> ring_inv (mt_ring s) \<and> concat (mt_in s) = concat (mt_out s) @ ring_contents (mt_ring s))"
proof (intro conjI allI impI)
  have inv: "mt_inv s" by (rule ring_run_inv [OF run size])
  note K = ring_okD [OF mt_invD(1) [OF inv]]
  have "concat (mt_out s) = take (mt_CT s) (concat (mt_in s))" using K(6,7,10,11) by (metis min.absorb1 order_trans take_take)
  then show "prefix (concat (mt_out s)) (concat (mt_in s))" by (metis take_is_prefix)
  show "mt_PT s - mt_CT s < mt_sz s" using K(6-9) by linarith
  show "mt_pc s t \<noteq> R_Abort e" for t e using mt_invD(3) [OF inv, of t] by (auto simp: thread_ok_def)
  show "\<exists>u. mp_first s u" if "mt_pc s t = MP_Wait ret obj h n" for t ret obj h n using waiting_for_first(1) [OF inv that] .
  show "\<exists>u. mc_first s u" if "mt_pc s t = MC_Wait table beh h n" for t table beh h n using waiting_for_first(2) [OF inv that] .
  assume "\<forall>t. ring_at_rest (mt_pc s t)"
  then show "ring_inv (mt_ring s)" "concat (mt_in s) = concat (mt_out s) @ ring_contents (mt_ring s)" using at_rest_contents [OF inv] by blast+
qed

text \<open>A call is refused only when there was too little room, or too few objects, at the moment it read the other index.\<close>

lemma odph_ring_mt_refused:
  assumes inv: "mt_inv s" and time: "mt_in_time s t"
  shows "mt_pc s t = MP_Tail obj mx beh h \<Longrightarrow> ring_mp_do_enqueue_step (mt_pc s t) (mt_ring s) = (R_Return ret obj', r) \<Longrightarrow>
      mt_sz s - 1 - (mt_PH s - mt_CT s) < unat mx"
    and "mt_pc s t = MC_Tail table mx beh h \<Longrightarrow> ring_mc_do_dequeue_step (mt_pc s t) (mt_ring s) = (R_Return ret obj', r) \<Longrightarrow> mt_PT s - mt_ch s < unat mx"
proof -
  note D = mt_invD [OF inv] and K = ring_okD [OF mt_invD(1) [OF inv]]
  have small: "unat room < unat mx" if "ring_amount err beh mx room = Inl ret'" for err room ret'
    using that by (auto simp: ring_amount_def word_less_nat_alt split: if_splits)
  show "mt_sz s - 1 - (mt_PH s - mt_CT s) < unat mx"
    if pc: "mt_pc s t = MP_Tail obj mx beh h" and st: "ring_mp_do_enqueue_step (mt_pc s t) (mt_ring s) = (R_Return ret obj', r)"
  proof -
    have T: "h = of_nat (mt_pos s t)" "mt_pos s t \<le> mt_PH s" using pc D(3) [of t] by (simp_all add: thread_ok_def Let_def)
    have "unat (pr_mask (prod (mt_ring s)) + co_tail (cons (mt_ring s)) - h) = mt_sz s - 1 + mt_CT s - mt_pos s t"
      using free_entries_eq [OF D(1) T(2)] time pc T(1) by (simp add: mt_in_time_def)
    moreover have "unat (pr_mask (prod (mt_ring s)) + co_tail (cons (mt_ring s)) - h) < unat mx"
      using st pc small by (auto simp: Let_def split: sum.splits)
    ultimately show ?thesis using T(2) K(6-9) by linarith
  qed
  show "mt_PT s - mt_ch s < unat mx"
    if pc: "mt_pc s t = MC_Tail table mx beh h" and st: "ring_mc_do_dequeue_step (mt_pc s t) (mt_ring s) = (R_Return ret obj', r)"
  proof -
    have T: "h = of_nat (mt_pos s t)" "mt_pos s t \<le> mt_ch s" using pc D(3) [of t] by (simp_all add: thread_ok_def Let_def)
    have "unat (pr_tail (prod (mt_ring s)) - h) = mt_PT s - mt_pos s t"
      using entries_eq [OF D(1) T(2)] time pc T(1) by (simp add: mt_in_time_def)
    moreover have "unat (pr_tail (prod (mt_ring s)) - h) < unat mx" using st pc small by (auto simp: Let_def split: sum.splits)
    ultimately show ?thesis using T(2) by linarith
  qed
qed

text \<open>A run: thread 0 puts one object into a ring of two slots.\<close>

definition mt_demo :: "ring_pc \<Rightarrow> u32 \<Rightarrow> u32 \<Rightarrow> addr list \<Rightarrow> addr list \<Rightarrow> addr list list \<Rightarrow> ring_mt" where
  "mt_demo p h tail mem lg fin =
    \<lparr>mt_ring = (ring_init ''r'' 2 0 mem)\<lparr>prod := (prod (ring_init ''r'' 2 0 mem))\<lparr>pr_head := h, pr_tail := tail\<rparr>\<rparr>,
     mt_pc = (\<lambda>_. R_Idle)(0 := p), mt_pos = (\<lambda>_. 0), mt_log = lg, mt_ch = 0, mt_in = fin, mt_out = []\<rparr>"

lemma mt_demo_step:
  assumes "in_enqueue p" "ring_mp_do_enqueue_step p (mt_ring (mt_demo p h tail mem lg fin)) = (p', r)"
    and "mt_note p p' 0 ((mt_demo p h tail mem lg fin)\<lparr>mt_ring := r, mt_pc := (mt_pc (mt_demo p h tail mem lg fin))(0 := p')\<rparr>) = s'"
    and "length lg + 2 < 2 ^ 32"
  shows "ring_step (mt_demo p h tail mem lg fin) 0 s'"
proof -
  have pc: "mt_pc (mt_demo p h tail mem lg fin) 0 = p" by (simp add: mt_demo_def)
  have t: "mt_in_time (mt_demo p h tail mem lg fin) 0" using assms(4) by (simp add: mt_in_time_def mt_demo_def ring_init_def)
  show ?thesis unfolding assms(3) [symmetric] using enqueue [of "mt_demo p h tail mem lg fin" 0 p' r] assms(1,2) t by (simp only: pc)
qed

lemmas mt_demo_simps = in_enqueue_def mt_note_def mt_demo_def ring_init_def ring_amount_def put_slot_def ring_slot_def enqueue_ret_def fun_upd_idem

lemma mt_demo_run: "runs ring_step (mt_start (ring_init ''r'' (2 ^ 1) 0 [0, 0])) (mt_demo (R_Return 0 [5]) 1 1 [5, 0] [5] [[5]])"
proof -
  let ?f = "ODPH_RING_QUEUE_FIXED"
  have s0: "mt_start (ring_init ''r'' (2 ^ 1) 0 [0, 0]) = mt_demo R_Idle 0 0 [0, 0] [] []"
    by (simp add: mt_start_def mt_demo_def ring_init_def fun_upd_idem)
  have c: "ring_step (mt_demo R_Idle 0 0 [0, 0] [] []) 0 (mt_demo (MP_Head [5] 1 ?f) 0 0 [0, 0] [] [])"
    using call_enqueue [of "mt_demo R_Idle 0 0 [0, 0] [] []" 0 1 "[5]" ?f] by (simp add: mt_demo_def ring_at_rest_def)
  have h: "ring_step (mt_demo (MP_Head [5] 1 ?f) 0 0 [0, 0] [] []) 0 (mt_demo (MP_Tail [5] 1 ?f 0) 0 0 [0, 0] [] [])"
    by (rule mt_demo_step, simp add: mt_demo_simps, simp add: mt_demo_simps, simp add: mt_demo_simps, simp)
  have tl: "ring_step (mt_demo (MP_Tail [5] 1 ?f 0) 0 0 [0, 0] [] []) 0 (mt_demo (MP_Cas [5] 1 ?f 0 1 1) 0 0 [0, 0] [] [])"
    by (rule mt_demo_step, simp add: mt_demo_simps, simp add: mt_demo_simps, simp add: mt_demo_simps, simp)
  have ca: "ring_step (mt_demo (MP_Cas [5] 1 ?f 0 1 1) 0 0 [0, 0] [] []) 0 (mt_demo (MP_Copy [5] ?f 0 1 1 0) 1 0 [0, 0] [5] [])"
    by (rule mt_demo_step, simp add: mt_demo_simps, simp add: mt_demo_simps, simp add: mt_demo_simps, simp)
  have cp: "ring_step (mt_demo (MP_Copy [5] ?f 0 1 1 0) 1 0 [0, 0] [5] []) 0 (mt_demo (MP_Copy [5] ?f 0 1 1 1) 1 0 [5, 0] [5] [])"
    by (rule mt_demo_step, simp add: mt_demo_simps, simp add: mt_demo_simps, simp add: mt_demo_simps, simp)
  have en: "ring_step (mt_demo (MP_Copy [5] ?f 0 1 1 1) 1 0 [5, 0] [5] []) 0 (mt_demo (MP_Wait 0 [5] 0 1) 1 0 [5, 0] [5] [])"
    by (rule mt_demo_step, simp add: mt_demo_simps, simp add: mt_demo_simps, simp add: mt_demo_simps, simp)
  have wt: "ring_step (mt_demo (MP_Wait 0 [5] 0 1) 1 0 [5, 0] [5] []) 0 (mt_demo (R_Return 0 [5]) 1 1 [5, 0] [5] [[5]])"
    by (rule mt_demo_step, simp add: mt_demo_simps, simp add: mt_demo_simps, simp add: mt_demo_simps, simp)
  note onw = runs_step [where step = ring_step]
  show ?thesis unfolding s0 by (rule onw [OF onw [OF onw [OF onw [OF onw [OF onw [OF onw [OF runs_refl c] h] tl] ca] cp] en] wt])
qed

theorem odph_ring_mt_fifo_witness:
  "\<exists>s. runs ring_step (mt_start (ring_init ''r'' (2 ^ 1) 0 [0, 0])) s \<and> mt_in s = [[5]] \<and> ring_inv (mt_ring s) \<and> ring_contents (mt_ring s) = [5]"
proof -
  let ?s = "mt_demo (R_Return 0 [5]) 1 1 [5, 0] [5] [[5]]"
  have "\<forall>t. ring_at_rest (mt_pc ?s t)" by (simp add: mt_demo_def ring_at_rest_def)
  then have "ring_inv (mt_ring ?s)" "concat (mt_in ?s) = concat (mt_out ?s) @ ring_contents (mt_ring ?s)"
    using odph_ring_mt_fifo [OF mt_demo_run] by simp_all
  then show ?thesis using mt_demo_run by (intro exI [of _ ?s]) (simp add: mt_demo_def)
qed

end
