(* ===== verification/Odp_Classification.thy ===== *)
theory Odp_Classification
  imports Odp_Packet
begin

text \<open>
  The classifier (\<open>odp_classification.c\<close>, \<open>odp_classification_inlines.h\<close>, \<open>odp_classification_datamodel.h\<close>): classes of service
  and matching rules in their tables, what an interface attaches, and the choice of a class for a packet. A queue, a class and a
  rule are named by their index in the table that holds them, so \<open>None\<close> is the null pointer.
\<close>

section \<open>Types\<close>

definition ODP_COS_MAX_ENTRY :: nat where "ODP_COS_MAX_ENTRY = 64"
definition ODP_PMRSET_MAX_ENTRY :: nat where "ODP_PMRSET_MAX_ENTRY = 64"
definition ODP_PMR_MAX_ENTRY :: nat where "ODP_PMR_MAX_ENTRY = 64"
definition ODP_PMRTERM_MAX :: nat where "ODP_PMRTERM_MAX = 8"
definition ODP_PKTIO_MAX_PMR :: nat where "ODP_PKTIO_MAX_PMR = 8"
definition ODP_COS_MAX_L2_QOS :: nat where "ODP_COS_MAX_L2_QOS = 8"
definition ODP_COS_MAX_L3_QOS :: nat where "ODP_COS_MAX_L3_QOS = 64"
definition ODP_PMR_TERM_BYTES_MAX :: nat where "ODP_PMR_TERM_BYTES_MAX = 8"
definition ODP_COS_NAME_LEN :: nat where "ODP_COS_NAME_LEN = 32"
definition ODP_COS_INVALID :: u32 where "ODP_COS_INVALID = 0xffffffff"
definition ODP_PMR_INVAL :: u32 where "ODP_PMR_INVAL = 0xffffffff"
definition ODP_PMR_SET_INVAL :: u32 where "ODP_PMR_SET_INVAL = 0xffffffff"

lemmas cls_const_defs [simp] =
  ODP_COS_MAX_ENTRY_def ODP_PMRSET_MAX_ENTRY_def ODP_PMR_MAX_ENTRY_def ODP_PMRTERM_MAX_def ODP_PKTIO_MAX_PMR_def
  ODP_COS_MAX_L2_QOS_def ODP_COS_MAX_L3_QOS_def ODP_PMR_TERM_BYTES_MAX_def ODP_COS_NAME_LEN_def
  ODP_COS_INVALID_def ODP_PMR_INVAL_def ODP_PMR_SET_INVAL_def

datatype pmr_term =
    ODP_PMR_LEN | ODP_PMR_ETHTYPE_0 | ODP_PMR_ETHTYPE_X | ODP_PMR_VLAN_ID_0 | ODP_PMR_VLAN_ID_X | ODP_PMR_DMAC
  | ODP_PMR_IPPROTO | ODP_PMR_UDP_DPORT | ODP_PMR_TCP_DPORT | ODP_PMR_UDP_SPORT | ODP_PMR_TCP_SPORT
  | ODP_PMR_SIP_ADDR | ODP_PMR_DIP_ADDR | ODP_PMR_SIP6_ADDR | ODP_PMR_DIP6_ADDR | ODP_PMR_IPSEC_SPI | ODP_PMR_LD_VNI
  | ODP_PMR_INNER_HDR_OFF

datatype drop_policy = ODP_COS_DROP_POOL | ODP_COS_DROP_NEVER

record pmr_term_value =
  pt_term :: pmr_term
  pt_val :: u64
  pt_mask :: u64

text \<open>A pointer to a rule points into the table of rules or, by a cast, into the table of rule sets.\<close>

datatype pmr_ref = Pmr nat | Pmr_Set nat

record cos_t =
  cos_queue :: "nat option"
  cos_pmr :: "pmr_ref option"
  cos_linked_cos :: "nat option"
  cos_valid :: bool
  cos_drop_policy :: drop_policy
  cos_flow_set :: u32
  cos_name :: string
  cos_headroom :: nat

text \<open>A rule has one term; a rule set continues the array of terms behind it to \<open>ODP_PMRTERM_MAX\<close> of them.\<close>

record pmr_t =
  pmr_valid :: bool
  pmr_count :: u32
  pmr_num :: u32
  pmr_terms :: "pmr_term_value list"

record cls_tbls =
  cos_tbl :: "cos_t list"
  pmr_tbl :: "pmr_t list"
  pmr_set_tbl :: "pmr_t list"

record classifier =
  cls_num_pmr :: nat
  cls_pmr :: "pmr_ref option list"
  cls_cos :: "nat option list"
  cls_error_cos :: "nat option"
  cls_default_cos :: "nat option"
  cls_l3_precedence :: bool
  cls_l2_cos :: "nat option list"
  cls_l3_cos :: "nat option list"
  cls_flow_set :: u32
  cls_headroom :: nat
  cls_skip :: nat

section \<open>Tables\<close>

definition first_index :: "('a \<Rightarrow> bool) \<Rightarrow> 'a list \<Rightarrow> nat option" where
  "first_index P xs = find (\<lambda>i. P (xs ! i)) [0..<length xs]"

definition get_cos_entry :: "cls_tbls \<Rightarrow> u32 \<Rightarrow> nat option" where
  "get_cos_entry t cos_id =
    (if ODP_COS_MAX_ENTRY \<le> unat cos_id \<or> cos_id = ODP_COS_INVALID then None
     else if \<not> cos_valid (cos_tbl t ! unat cos_id) then None else Some (unat cos_id))"

definition get_pmr_entry :: "cls_tbls \<Rightarrow> u32 \<Rightarrow> nat option" where
  "get_pmr_entry t pmr_id =
    (if ODP_PMR_MAX_ENTRY \<le> unat pmr_id \<or> pmr_id = ODP_PMR_INVAL then None
     else if \<not> pmr_valid (pmr_tbl t ! unat pmr_id) then None else Some (unat pmr_id))"

definition get_pmr_set_entry :: "cls_tbls \<Rightarrow> u32 \<Rightarrow> nat option" where
  "get_pmr_set_entry t pmr_set_id =
    (if ODP_PMRSET_MAX_ENTRY \<le> unat pmr_set_id \<or> pmr_set_id = ODP_PMR_SET_INVAL then None
     else if \<not> pmr_valid (pmr_set_tbl t ! unat pmr_set_id) then None else Some (unat pmr_set_id))"

definition upd_cos :: "nat \<Rightarrow> (cos_t \<Rightarrow> cos_t) \<Rightarrow> cls_tbls \<Rightarrow> cls_tbls" where
  "upd_cos i f t = t\<lparr>cos_tbl := (cos_tbl t)[i := f (cos_tbl t ! i)]\<rparr>"

definition upd_pmr :: "nat \<Rightarrow> (pmr_t \<Rightarrow> pmr_t) \<Rightarrow> cls_tbls \<Rightarrow> cls_tbls" where
  "upd_pmr i f t = t\<lparr>pmr_tbl := (pmr_tbl t)[i := f (pmr_tbl t ! i)]\<rparr>"

definition upd_pmr_set :: "nat \<Rightarrow> (pmr_t \<Rightarrow> pmr_t) \<Rightarrow> cls_tbls \<Rightarrow> cls_tbls" where
  "upd_pmr_set i f t = t\<lparr>pmr_set_tbl := (pmr_set_tbl t)[i := f (pmr_set_tbl t ! i)]\<rparr>"

definition odp_cos_create :: "string \<Rightarrow> cls_tbls \<Rightarrow> u32 \<times> cls_tbls" where
  "odp_cos_create name t =
    (case first_index (\<lambda>c. \<not> cos_valid c) (cos_tbl t) of
       Some i \<Rightarrow> (of_nat i, upd_cos i (\<lambda>c. c\<lparr>cos_name := take (ODP_COS_NAME_LEN - 1) name, cos_pmr := None,
           cos_linked_cos := None, cos_queue := None, cos_flow_set := 0, cos_headroom := 0, cos_valid := True\<rparr>) t)
     | None \<Rightarrow> (ODP_COS_INVALID, t))"

definition odp_cos_destroy :: "u32 \<Rightarrow> cls_tbls \<Rightarrow> int \<times> cls_tbls" where
  "odp_cos_destroy cos_id t =
    (case get_cos_entry t cos_id of
       None \<Rightarrow> (-1, t) | Some i \<Rightarrow> (0, upd_cos i (\<lambda>c. c\<lparr>cos_valid := False\<rparr>) t))"

text \<open>\<open>queue_to_qentry\<close> is address arithmetic; the index it yields is not checked here.\<close>

definition odp_cos_set_queue :: "u32 \<Rightarrow> u32 \<Rightarrow> cls_tbls \<Rightarrow> int \<times> cls_tbls" where
  "odp_cos_set_queue cos_id queue_id t =
    (case get_cos_entry t cos_id of
       None \<Rightarrow> (-1, t) | Some i \<Rightarrow> (0, upd_cos i (\<lambda>c. c\<lparr>cos_queue := Some (unat (queue_id - 1))\<rparr>) t))"

definition odp_cos_set_drop :: "u32 \<Rightarrow> drop_policy \<Rightarrow> cls_tbls \<Rightarrow> int \<times> cls_tbls" where
  "odp_cos_set_drop cos_id policy t =
    (case get_cos_entry t cos_id of
       None \<Rightarrow> (-1, t) | Some i \<Rightarrow> (0, upd_cos i (\<lambda>c. c\<lparr>cos_drop_policy := policy\<rparr>) t))"

definition odp_cos_pmr_cos :: "u32 \<Rightarrow> u32 \<Rightarrow> u32 \<Rightarrow> cls_tbls \<Rightarrow> int \<times> cls_tbls" where
  "odp_cos_pmr_cos pmr_id src_cos dst_cos t =
    (case (get_cos_entry t src_cos, get_cos_entry t dst_cos, get_pmr_entry t pmr_id) of
       (Some s, Some d, Some p) \<Rightarrow> (0, upd_cos s (\<lambda>c. c\<lparr>cos_pmr := Some (Pmr p), cos_linked_cos := Some d\<rparr>) t)
     | _ \<Rightarrow> (-1, t))"

section \<open>Rules\<close>

definition alloc_pmr :: "cls_tbls \<Rightarrow> (nat \<times> cls_tbls) option" where
  "alloc_pmr t =
    map_option (\<lambda>i. (i, upd_pmr i (\<lambda>p. p\<lparr>pmr_valid := True, pmr_count := 0, pmr_num := 0\<rparr>) t))
      (first_index (\<lambda>p. \<not> pmr_valid p) (pmr_tbl t))"

definition alloc_pmr_set :: "cls_tbls \<Rightarrow> (nat \<times> cls_tbls) option" where
  "alloc_pmr_set t =
    map_option (\<lambda>i. (i, upd_pmr_set i (\<lambda>p. p\<lparr>pmr_valid := True, pmr_num := 0, pmr_count := 0\<rparr>) t))
      (first_index (\<lambda>p. \<not> pmr_valid p) (pmr_set_tbl t))"

text \<open>\<open>memcpy\<close> of the first bytes of a 64-bit word that was set to zero, on a little-endian machine.\<close>

fun le_bytes :: "u8 list \<Rightarrow> u64" where
  "le_bytes [] = 0"
| "le_bytes (b # bs) = ucast b OR push_bit 8 (le_bytes bs)"

definition make_term :: "pmr_term \<Rightarrow> u8 list \<Rightarrow> u8 list \<Rightarrow> pmr_term_value" where
  "make_term trm val msk = \<lparr>pt_term = trm, pt_val = le_bytes val AND le_bytes msk, pt_mask = le_bytes msk\<rparr>"

definition odp_pmr_create :: "pmr_term \<Rightarrow> u8 list \<Rightarrow> u8 list \<Rightarrow> u32 \<Rightarrow> cls_tbls \<Rightarrow> u32 \<times> cls_tbls" where
  "odp_pmr_create trm val msk val_sz t =
    (if ODP_PMR_TERM_BYTES_MAX < unat val_sz then (ODP_PMR_INVAL, t)
     else case alloc_pmr t of
            None \<Rightarrow> (ODP_PMR_INVAL, t)
          | Some (i, t1) \<Rightarrow>
              (of_nat i, upd_pmr i (\<lambda>p. p\<lparr>pmr_num := 1,
                 pmr_terms := (pmr_terms p)[0 := make_term trm (take (unat val_sz) val) (take (unat val_sz) msk)]\<rparr>) t1))"

definition odp_pmr_destroy :: "u32 \<Rightarrow> cls_tbls \<Rightarrow> int \<times> cls_tbls" where
  "odp_pmr_destroy pmr_id t =
    (case get_pmr_entry t pmr_id of
       None \<Rightarrow> (-1, t) | Some i \<Rightarrow> (0, upd_pmr i (\<lambda>p. p\<lparr>pmr_valid := False\<rparr>) t))"

text \<open>The loop over the terms of a set; a term with too large a value is skipped and its slot keeps what it held.\<close>

type_synonym pmr_match = "pmr_term \<times> u8 list \<times> u8 list \<times> u32"

fun set_terms :: "nat \<Rightarrow> pmr_match list \<Rightarrow> pmr_term_value list \<Rightarrow> c_error + (int \<times> pmr_term_value list)" where
  "set_terms i [] tvs = Inr (0, tvs)"
| "set_terms i ((trm, val, msk, val_sz) # ms) tvs =
    (if sint val_sz > int ODP_PMR_TERM_BYTES_MAX then set_terms (i + 1) ms tvs
     else if sint val_sz < 0 then Inl Out_Of_Bounds
     else and_then (set_terms (i + 1) ms (tvs[i := make_term trm (take (unat val_sz) val) (take (unat val_sz) msk)]))
            (\<lambda>(count, tvs1). Inr (count + 1, tvs1)))"

definition odp_pmr_match_set_create ::
    "int \<Rightarrow> pmr_match list \<Rightarrow> cls_tbls \<Rightarrow> c_error + (int \<times> u32 option \<times> cls_tbls)" where
  "odp_pmr_match_set_create num_terms ms t =
    (if num_terms > int ODP_PMRTERM_MAX then Inr (-1, None, t)
     else case alloc_pmr_set t of
            None \<Rightarrow> Inr (-1, Some ODP_PMR_SET_INVAL, t)
          | Some (i, t1) \<Rightarrow>
              and_then (set_terms 0 (take (nat num_terms) ms) (pmr_terms (pmr_set_tbl t1 ! i)))
                (\<lambda>(count, tvs). Inr (count, Some (of_nat i),
                   upd_pmr_set i (\<lambda>p. p\<lparr>pmr_num := of_int num_terms, pmr_terms := tvs\<rparr>) t1)))"

definition odp_pmr_match_set_destroy :: "u32 \<Rightarrow> cls_tbls \<Rightarrow> int \<times> cls_tbls" where
  "odp_pmr_match_set_destroy pmr_set_id t =
    (case get_pmr_set_entry t pmr_set_id of
       None \<Rightarrow> (-1, t) | Some i \<Rightarrow> (0, upd_pmr_set i (\<lambda>p. p\<lparr>pmr_valid := False\<rparr>) t))"

fun pmr_term_num :: "pmr_term \<Rightarrow> nat" where
  "pmr_term_num ODP_PMR_LEN = 0" | "pmr_term_num ODP_PMR_ETHTYPE_0 = 1" | "pmr_term_num ODP_PMR_ETHTYPE_X = 2"
| "pmr_term_num ODP_PMR_VLAN_ID_0 = 3" | "pmr_term_num ODP_PMR_VLAN_ID_X = 4" | "pmr_term_num ODP_PMR_DMAC = 5"
| "pmr_term_num ODP_PMR_IPPROTO = 6" | "pmr_term_num ODP_PMR_UDP_DPORT = 7" | "pmr_term_num ODP_PMR_TCP_DPORT = 8"
| "pmr_term_num ODP_PMR_UDP_SPORT = 9" | "pmr_term_num ODP_PMR_TCP_SPORT = 10" | "pmr_term_num ODP_PMR_SIP_ADDR = 11"
| "pmr_term_num ODP_PMR_DIP_ADDR = 12" | "pmr_term_num ODP_PMR_SIP6_ADDR = 13" | "pmr_term_num ODP_PMR_DIP6_ADDR = 14"
| "pmr_term_num ODP_PMR_IPSEC_SPI = 15" | "pmr_term_num ODP_PMR_LD_VNI = 16" | "pmr_term_num ODP_PMR_INNER_HDR_OFF = 32"

definition odp_pmr_terms_cap :: u64 where
  "odp_pmr_terms_cap = fold (\<lambda>trm c. c OR push_bit (pmr_term_num trm) 1)
    [ODP_PMR_LEN, ODP_PMR_IPPROTO, ODP_PMR_UDP_DPORT, ODP_PMR_TCP_DPORT, ODP_PMR_UDP_SPORT, ODP_PMR_TCP_SPORT,
     ODP_PMR_SIP_ADDR, ODP_PMR_DIP_ADDR] 0"

definition odp_pmr_terms_avail :: "cls_tbls \<Rightarrow> nat" where
  "odp_pmr_terms_avail t = length (filter (\<lambda>p. \<not> pmr_valid p) (pmr_tbl t))"

section \<open>Attaching to an interface\<close>

text \<open>
  The setters of an interface: each first finds the interface, which is left to the caller here, and then changes its classifier.
\<close>

definition classifier_default_cos_set :: "cls_tbls \<Rightarrow> u32 \<Rightarrow> classifier \<Rightarrow> int \<times> classifier" where
  "classifier_default_cos_set t default_cos cls =
    (case get_cos_entry t default_cos of None \<Rightarrow> (-1, cls) | Some i \<Rightarrow> (0, cls\<lparr>cls_default_cos := Some i\<rparr>))"

definition classifier_error_cos_set :: "cls_tbls \<Rightarrow> u32 \<Rightarrow> classifier \<Rightarrow> int \<times> classifier" where
  "classifier_error_cos_set t error_cos cls =
    (case get_cos_entry t error_cos of None \<Rightarrow> (-1, cls) | Some i \<Rightarrow> (0, cls\<lparr>cls_error_cos := Some i\<rparr>))"

definition classifier_skip_set :: "u32 \<Rightarrow> classifier \<Rightarrow> int \<times> classifier" where
  "classifier_skip_set off cls = (0, cls\<lparr>cls_skip := unat off\<rparr>)"

definition classifier_headroom_set :: "u32 \<Rightarrow> classifier \<Rightarrow> int \<times> classifier" where
  "classifier_headroom_set hr cls = (0, cls\<lparr>cls_headroom := unat hr\<rparr>)"

text \<open>A write into an array; behind its end C leaves it undefined.\<close>

definition arr_put :: "'a list \<Rightarrow> nat \<Rightarrow> 'a \<Rightarrow> c_error + 'a list" where
  "arr_put xs i x = (if i < length xs then Inr (xs[i := x]) else Inl Out_Of_Bounds)"

text \<open>The loops over a table of QoS values and classes.\<close>

fun set_qos :: "cls_tbls \<Rightarrow> nat \<Rightarrow> (u8 \<times> u32) list \<Rightarrow> nat option list \<Rightarrow> c_error + nat option list" where
  "set_qos t lim [] tbl = Inr tbl"
| "set_qos t lim ((qos, cos_id) # qs) tbl =
    and_then
      (case get_cos_entry t cos_id of
         None \<Rightarrow> Inr tbl
       | Some c \<Rightarrow> if unat qos < lim then arr_put tbl (unat qos) (Some c) else Inr tbl)
      (\<lambda>tbl1. set_qos t lim qs tbl1)"

definition cos_with_l2_priority :: "cls_tbls \<Rightarrow> (u8 \<times> u32) list \<Rightarrow> classifier \<Rightarrow> c_error + (int \<times> classifier)" where
  "cos_with_l2_priority t qs cls =
    and_then (set_qos t ODP_COS_MAX_L2_QOS qs (cls_l2_cos cls)) (\<lambda>tbl. Inr (0, cls\<lparr>cls_l2_cos := tbl\<rparr>))"

definition cos_with_l3_qos :: "cls_tbls \<Rightarrow> (u8 \<times> u32) list \<Rightarrow> bool \<Rightarrow> classifier \<Rightarrow> c_error + (int \<times> classifier)" where
  "cos_with_l3_qos t qs l3_preference cls =
    and_then (set_qos t ODP_COS_MAX_L3_QOS qs (cls_l3_cos cls))
      (\<lambda>tbl. Inr (0, cls\<lparr>cls_l3_precedence := l3_preference, cls_l3_cos := tbl\<rparr>))"

text \<open>\<open>odp_pktio_pmr_cos\<close> and \<open>odp_pktio_pmr_match_set_cos\<close> differ in the table they look the rule up in.\<close>

definition attach_rule :: "cls_tbls \<Rightarrow> pmr_ref option \<Rightarrow> u32 \<Rightarrow> classifier \<Rightarrow> c_error + (int \<times> classifier)" where
  "attach_rule t pmr dst_cos cls =
    (case (pmr, get_cos_entry t dst_cos) of
       (Some p, Some c) \<Rightarrow>
         if ODP_PKTIO_MAX_PMR \<le> cls_num_pmr cls then Inr (-1, cls)
         else and_then (arr_put (cls_pmr cls) (cls_num_pmr cls) (Some p)) (\<lambda>pmrs.
              and_then (arr_put (cls_cos cls) (cls_num_pmr cls) (Some c)) (\<lambda>coss.
                Inr (0, cls\<lparr>cls_pmr := pmrs, cls_cos := coss, cls_num_pmr := cls_num_pmr cls + 1\<rparr>)))
     | _ \<Rightarrow> Inr (-1, cls))"

definition classifier_pmr_cos :: "cls_tbls \<Rightarrow> u32 \<Rightarrow> u32 \<Rightarrow> classifier \<Rightarrow> c_error + (int \<times> classifier)" where
  "classifier_pmr_cos t pmr_id dst_cos cls = attach_rule t (map_option Pmr (get_pmr_entry t pmr_id)) dst_cos cls"

definition classifier_pmr_match_set_cos :: "cls_tbls \<Rightarrow> u32 \<Rightarrow> u32 \<Rightarrow> classifier \<Rightarrow> c_error + (int \<times> classifier)" where
  "classifier_pmr_match_set_cos t pmr_set_id dst_cos cls =
    attach_rule t (map_option Pmr_Set (get_pmr_set_entry t pmr_set_id)) dst_cos cls"

definition pktio_classifier_init :: "classifier \<Rightarrow> classifier" where
  "pktio_classifier_init cls = cls
    \<lparr>cls_num_pmr := 0, cls_flow_set := 0, cls_error_cos := None, cls_default_cos := None, cls_headroom := 0, cls_skip := 0,
     cls_pmr := replicate ODP_PKTIO_MAX_PMR None, cls_cos := replicate ODP_PKTIO_MAX_PMR None\<rparr>"

section \<open>Matching a packet\<close>

text \<open>The value of a field against a term; the field is widened to 64 bits.\<close>

definition term_match :: "pmr_term_value \<Rightarrow> u64 \<Rightarrow> bool" where
  "term_match tv x \<longleftrightarrow> pt_val tv = x AND pt_mask tv"

definition verify_pmr_packet_len :: "odp_packet_hdr \<Rightarrow> pmr_term_value \<Rightarrow> bool" where
  "verify_pmr_packet_len h tv \<longleftrightarrow> term_match tv (ucast (frame_len h))"

abbreviation l3_at :: "addr \<Rightarrow> odp_packet_hdr \<Rightarrow> addr" where "l3_at p h \<equiv> p + int (unat (l3_offset h))"
abbreviation l4_at :: "addr \<Rightarrow> odp_packet_hdr \<Rightarrow> addr" where "l4_at p h \<equiv> p + int (unat (l4_offset h))"

definition verify_pmr_ip_proto :: "memory \<Rightarrow> addr \<Rightarrow> odp_packet_hdr \<Rightarrow> pmr_term_value \<Rightarrow> bool" where
  "verify_pmr_ip_proto m p h tv \<longleftrightarrow> input_flag IF_ipv4 h \<and> term_match tv (ucast (m (l3_at p h + 9)))"

definition verify_pmr_ipv4_saddr :: "memory \<Rightarrow> addr \<Rightarrow> odp_packet_hdr \<Rightarrow> pmr_term_value \<Rightarrow> bool" where
  "verify_pmr_ipv4_saddr m p h tv \<longleftrightarrow> input_flag IF_ipv4 h \<and> term_match tv (ucast (be32 m (l3_at p h + 12)))"

definition verify_pmr_ipv4_daddr :: "memory \<Rightarrow> addr \<Rightarrow> odp_packet_hdr \<Rightarrow> pmr_term_value \<Rightarrow> bool" where
  "verify_pmr_ipv4_daddr m p h tv \<longleftrightarrow> input_flag IF_ipv4 h \<and> term_match tv (ucast (be32 m (l3_at p h + 16)))"

definition verify_pmr_tcp_sport :: "memory \<Rightarrow> addr \<Rightarrow> odp_packet_hdr \<Rightarrow> pmr_term_value \<Rightarrow> bool" where
  "verify_pmr_tcp_sport m p h tv \<longleftrightarrow> input_flag IF_tcp h \<and> term_match tv (ucast (be16 m (l4_at p h)))"

definition verify_pmr_tcp_dport :: "memory \<Rightarrow> addr \<Rightarrow> odp_packet_hdr \<Rightarrow> pmr_term_value \<Rightarrow> bool" where
  "verify_pmr_tcp_dport m p h tv \<longleftrightarrow> input_flag IF_tcp h \<and> term_match tv (ucast (be16 m (l4_at p h + 2)))"

definition verify_pmr_udp_sport :: "memory \<Rightarrow> addr \<Rightarrow> odp_packet_hdr \<Rightarrow> pmr_term_value \<Rightarrow> bool" where
  "verify_pmr_udp_sport m p h tv \<longleftrightarrow> input_flag IF_udp h \<and> term_match tv (ucast (be16 m (l4_at p h)))"

definition verify_pmr_udp_dport :: "memory \<Rightarrow> addr \<Rightarrow> odp_packet_hdr \<Rightarrow> pmr_term_value \<Rightarrow> bool" where
  "verify_pmr_udp_dport m p h tv \<longleftrightarrow> input_flag IF_udp h \<and> term_match tv (ucast (be16 m (l4_at p h + 2)))"

definition verify_pmr_ipsec_spi :: "memory \<Rightarrow> addr \<Rightarrow> odp_packet_hdr \<Rightarrow> pmr_term_value \<Rightarrow> bool" where
  "verify_pmr_ipsec_spi m p h tv \<longleftrightarrow> input_flag IF_ipsec h \<and>
    (if l4_protocol h = ucast ODPH_IPPROTO_AH then term_match tv (ucast (be32 m (l4_at p h + 4)))
     else if l4_protocol h = ucast ODPH_IPPROTO_ESP then term_match tv (ucast (be32 m (l4_at p h)))
     else False)"

text \<open>The terms that are not implemented never match; the inner header offset is passed over.\<close>

definition verify_term :: "memory \<Rightarrow> addr \<Rightarrow> odp_packet_hdr \<Rightarrow> pmr_term_value \<Rightarrow> bool" where
  "verify_term m p h tv =
    (case pt_term tv of
       ODP_PMR_LEN \<Rightarrow> verify_pmr_packet_len h tv
     | ODP_PMR_IPPROTO \<Rightarrow> verify_pmr_ip_proto m p h tv
     | ODP_PMR_UDP_DPORT \<Rightarrow> verify_pmr_udp_dport m p h tv
     | ODP_PMR_TCP_DPORT \<Rightarrow> verify_pmr_tcp_dport m p h tv
     | ODP_PMR_UDP_SPORT \<Rightarrow> verify_pmr_udp_sport m p h tv
     | ODP_PMR_TCP_SPORT \<Rightarrow> verify_pmr_tcp_sport m p h tv
     | ODP_PMR_SIP_ADDR \<Rightarrow> verify_pmr_ipv4_saddr m p h tv
     | ODP_PMR_DIP_ADDR \<Rightarrow> verify_pmr_ipv4_daddr m p h tv
     | ODP_PMR_IPSEC_SPI \<Rightarrow> verify_pmr_ipsec_spi m p h tv
     | ODP_PMR_INNER_HDR_OFF \<Rightarrow> True
     | _ \<Rightarrow> False)"

text \<open>The loop stops at the first term that fails; a match is counted.\<close>

definition pmr_at :: "cls_tbls \<Rightarrow> pmr_ref \<Rightarrow> pmr_t" where
  "pmr_at t r = (case r of Pmr i \<Rightarrow> pmr_tbl t ! i | Pmr_Set i \<Rightarrow> pmr_set_tbl t ! i)"

definition upd_pmr_at :: "pmr_ref \<Rightarrow> (pmr_t \<Rightarrow> pmr_t) \<Rightarrow> cls_tbls \<Rightarrow> cls_tbls" where
  "upd_pmr_at r f t = (case r of Pmr i \<Rightarrow> upd_pmr i f t | Pmr_Set i \<Rightarrow> upd_pmr_set i f t)"

definition verify_pmr :: "pmr_ref \<Rightarrow> memory \<Rightarrow> addr \<Rightarrow> odp_packet_hdr \<Rightarrow> cls_tbls \<Rightarrow> bool \<times> cls_tbls" where
  "verify_pmr r m p h t =
    (if \<not> pmr_valid (pmr_at t r) then (False, t)
     else if list_all (verify_term m p h) (take (nat (sint (pmr_num (pmr_at t r)))) (pmr_terms (pmr_at t r)))
     then (True, upd_pmr_at r (\<lambda>x. x\<lparr>pmr_count := pmr_count x + 1\<rparr>) t)
     else (False, t))"

text \<open>
  The recursion follows the links between classes. They may form a cycle, so \<open>None\<close> is the recursion that does not end.
\<close>

partial_function (option) match_pmr_cos ::
    "nat option \<Rightarrow> memory \<Rightarrow> addr \<Rightarrow> pmr_ref option \<Rightarrow> odp_packet_hdr \<Rightarrow> cls_tbls \<Rightarrow> (nat option \<times> cls_tbls) option" where
  "match_pmr_cos cos m p pmr h t =
    (case (cos, pmr) of
       (Some c, Some r) \<Rightarrow>
         if \<not> cos_valid (cos_tbl t ! c) then Some (None, t)
         else (case verify_pmr r m p h t of
                 (ok, t1) \<Rightarrow>
                   if ok
                   then Option.bind (match_pmr_cos (cos_linked_cos (cos_tbl t1 ! c)) m p (cos_pmr (cos_tbl t1 ! c)) h t1)
                     (\<lambda>(retcos, t2). Some (if retcos = None then Some c else retcos, t2))
                   else Some (None, t1))
     | _ \<Rightarrow> Some (None, t))"

section \<open>Quality of service\<close>

text \<open>The macro for IPv6 is applied to the field as it is loaded, in the byte order of the machine.\<close>

definition le32 :: "memory \<Rightarrow> addr \<Rightarrow> u32" where
  "le32 m p = ucast (m p) OR push_bit 8 (ucast (m (p + 1))) OR push_bit 16 (ucast (m (p + 2))) OR push_bit 24 (ucast (m (p + 3)))"

definition ODPH_IPV4HDR_DSCP :: "u8 \<Rightarrow> u8" where "ODPH_IPV4HDR_DSCP tos = drop_bit 2 (tos AND 0xfc)"

definition ODPH_IPV6HDR_DSCP :: "u32 \<Rightarrow> u8" where
  "ODPH_IPV6HDR_DSCP ver_tc_flow = ucast (drop_bit 22 (ver_tc_flow AND 0x0fc00000) AND 0xff)"

definition match_qos_l3_cos :: "nat option list \<Rightarrow> memory \<Rightarrow> addr \<Rightarrow> odp_packet_hdr \<Rightarrow> nat option" where
  "match_qos_l3_cos l3_cos m p h =
    (if input_flag IF_l3 h \<and> input_flag IF_ipv4 h then l3_cos ! unat (ODPH_IPV4HDR_DSCP (m (l3_at p h + 1)))
     else if input_flag IF_l3 h \<and> input_flag IF_ipv6 h then l3_cos ! unat (ODPH_IPV6HDR_DSCP (le32 m (l3_at p h)))
     else None)"

text \<open>The VLAN header begins at the Ethernet type field, and its priority is in the second field.\<close>

definition match_qos_l2_cos :: "nat option list \<Rightarrow> memory \<Rightarrow> addr \<Rightarrow> odp_packet_hdr \<Rightarrow> nat option" where
  "match_qos_l2_cos l2_cos m p h =
    (if input_flag IF_l2 h \<and> input_flag IF_vlan h \<and> input_flag IF_eth h
     then l2_cos ! unat (drop_bit 13 (be16 m (p + int (unat (l2_offset h)) + 14)) AND 0x07)
     else None)"

definition match_qos_cos :: "classifier \<Rightarrow> memory \<Rightarrow> addr \<Rightarrow> odp_packet_hdr \<Rightarrow> nat option" where
  "match_qos_cos cls m p h =
    (let l3 = match_qos_l3_cos (cls_l3_cos cls) m p h; l2 = match_qos_l2_cos (cls_l2_cos cls) m p h
     in if cls_l3_precedence cls then if l3 \<noteq> None then l3 else l2
        else if l2 \<noteq> None then l2 else l3)"

section \<open>The class of a packet\<close>

text \<open>The rules of the interface in order; the result of the loop and the header the lazy parse leaves.\<close>

fun match_rules ::
    "(nat option \<times> pmr_ref option) list \<Rightarrow> memory \<Rightarrow> addr \<Rightarrow> odp_packet_hdr \<Rightarrow> cls_tbls \<Rightarrow> (nat option \<times> cls_tbls) option" where
  "match_rules [] m p h t = Some (None, t)"
| "match_rules ((cos, pmr) # rs) m p h t =
    Option.bind (match_pmr_cos cos m p pmr h t)
      (\<lambda>(cos1, t1). if cos1 \<noteq> None then Some (cos1, t1) else match_rules rs m p h t1)"

definition cls_rules :: "classifier \<Rightarrow> (nat option \<times> pmr_ref option) list" where
  "cls_rules cls = take (cls_num_pmr cls) (zip (cls_cos cls) (cls_pmr cls))"

definition pktio_select_cos ::
    "classifier \<Rightarrow> memory \<Rightarrow> addr \<Rightarrow> odp_packet_hdr \<Rightarrow> cls_tbls
      \<Rightarrow> (c_error + (nat option \<times> odp_packet_hdr \<times> cls_tbls)) option" where
  "pktio_select_cos cls m p h t =
    Option.bind (parse_if_needed m h) (\<lambda>r.
      (case r of
         Inl e \<Rightarrow> Some (Inl e)
       | Inr h1 \<Rightarrow>
           if error_flags h1 \<noteq> 0 then Some (Inr (cls_error_cos cls, h1, t))
           else Option.bind (match_rules (cls_rules cls) m p h1 t) (\<lambda>(cos, t1).
             Some (Inr (if cos \<noteq> None then cos
                        else case match_qos_cos cls m p h1 of None \<Rightarrow> cls_default_cos cls | Some c \<Rightarrow> Some c,
                        h1, t1)))))"

end
