(* ===== verification/Odp_Classification_Correct.thy ===== *)
theory Odp_Classification_Correct
  imports Odp_Classification
begin

text \<open>
  What the classifier computes: chains of linked classes, the class of a packet, creation and destruction of classes and
  rules, and the bounds of the arrays of an interface.
\<close>

section \<open>Chains of classes\<close>

text \<open>The classes and rules that follow each other by their links, up to the first null pointer.\<close>

inductive cos_chain :: "cls_tbls \<Rightarrow> nat option \<Rightarrow> pmr_ref option \<Rightarrow> (nat \<times> pmr_ref) list \<Rightarrow> bool" for t where
  no_cos: "cos_chain t None pmr []"
| no_pmr: "cos_chain t cos None []"
| link: "cos_chain t (cos_linked_cos (cos_tbl t ! c)) (cos_pmr (cos_tbl t ! c)) xs \<Longrightarrow>
    cos_chain t (Some c) (Some r) ((c, r) # xs)"

inductive_cases cos_chainE: "cos_chain t cos pmr xs"
inductive_simps cos_chain_Some: "cos_chain t (Some c) (Some r) xs"

definition link_rel :: "cls_tbls \<Rightarrow> (nat \<times> nat) set" where
  "link_rel t = {(d, c). c < length (cos_tbl t) \<and> cos_linked_cos (cos_tbl t ! c) = Some d}"

definition links_in :: "cls_tbls \<Rightarrow> bool" where
  "links_in t \<longleftrightarrow> (\<forall>c<length (cos_tbl t). \<forall>d. cos_linked_cos (cos_tbl t ! c) = Some d \<longrightarrow> d < length (cos_tbl t))"

text \<open>Tables that differ in the counters of the rules only.\<close>

definition clear_count :: "pmr_t \<Rightarrow> pmr_t" where "clear_count p = p\<lparr>pmr_count := 0\<rparr>"

definition same_rules :: "cls_tbls \<Rightarrow> cls_tbls \<Rightarrow> bool" where
  "same_rules t t' \<longleftrightarrow> cos_tbl t' = cos_tbl t \<and> map clear_count (pmr_tbl t') = map clear_count (pmr_tbl t) \<and>
    map clear_count (pmr_set_tbl t') = map clear_count (pmr_set_tbl t)"

lemma same_rules_refl [simp]: "same_rules t t"
  by (simp add: same_rules_def)

lemma same_rules_trans: "same_rules t t' \<Longrightarrow> same_rules t' t'' \<Longrightarrow> same_rules t t''"
  by (simp add: same_rules_def)

lemma same_rules_count: "same_rules t (upd_pmr_at r (\<lambda>x. x\<lparr>pmr_count := n x\<rparr>) t)"
proof -
  have "map clear_count (xs[i := (xs ! i)\<lparr>pmr_count := n (xs ! i)\<rparr>]) = map clear_count xs" for xs i
    by (cases "i < length xs")
      (auto simp: map_update clear_count_def list_update_beyond intro!: list_update_same_conv [THEN iffD2])
  then show ?thesis by (cases r) (simp_all add: same_rules_def upd_pmr_at_def upd_pmr_def upd_pmr_set_def)
qed

text \<open>Whether a class on the way is valid and its rule holds for the packet.\<close>

definition rule_ok :: "memory \<Rightarrow> addr \<Rightarrow> odp_packet_hdr \<Rightarrow> cls_tbls \<Rightarrow> nat \<times> pmr_ref \<Rightarrow> bool" where
  "rule_ok m p h t x \<longleftrightarrow> cos_valid (cos_tbl t ! fst x) \<and> pmr_valid (pmr_at t (snd x)) \<and>
    list_all (verify_term m p h) (take (nat (sint (pmr_num (pmr_at t (snd x))))) (pmr_terms (pmr_at t (snd x))))"

lemma clear_count_eqD:
  "clear_count a = clear_count b \<Longrightarrow> pmr_valid a = pmr_valid b \<and> pmr_num a = pmr_num b \<and> pmr_terms a = pmr_terms b"
  by (cases a; cases b) (simp add: clear_count_def)

lemma map_clear_nth:
  "map clear_count xs = map clear_count ys \<Longrightarrow> i < length xs \<Longrightarrow>
    pmr_valid (xs ! i) = pmr_valid (ys ! i) \<and> pmr_num (xs ! i) = pmr_num (ys ! i) \<and> pmr_terms (xs ! i) = pmr_terms (ys ! i)"
  by (rule clear_count_eqD) (metis length_map nth_map)

definition refs_ok :: "cls_tbls \<Rightarrow> pmr_ref \<Rightarrow> bool" where
  "refs_ok t r = (case r of Pmr i \<Rightarrow> i < length (pmr_tbl t) | Pmr_Set i \<Rightarrow> i < length (pmr_set_tbl t))"

lemma rule_ok_same:
  assumes "same_rules t t'" "refs_ok t (snd x)"
  shows "rule_ok m p h t' x = rule_ok m p h t x"
proof -
  have l: "length (pmr_tbl t') = length (pmr_tbl t)" "length (pmr_set_tbl t') = length (pmr_set_tbl t)"
    using assms(1) by (metis same_rules_def length_map)+
  have "pmr_valid (pmr_at t' (snd x)) = pmr_valid (pmr_at t (snd x)) \<and> pmr_num (pmr_at t' (snd x)) = pmr_num (pmr_at t (snd x)) \<and>
    pmr_terms (pmr_at t' (snd x)) = pmr_terms (pmr_at t (snd x))"
    using assms l map_clear_nth [of "pmr_tbl t'" "pmr_tbl t"] map_clear_nth [of "pmr_set_tbl t'" "pmr_set_tbl t"]
    by (cases "snd x") (simp_all add: refs_ok_def pmr_at_def same_rules_def)
  then show "rule_ok m p h t' x = rule_ok m p h t x" using assms(1) by (simp add: rule_ok_def same_rules_def)
qed

lemma refs_ok_same: "same_rules t t' \<Longrightarrow> refs_ok t' r = refs_ok t r"
  unfolding same_rules_def refs_ok_def by (metis length_map)

lemma verify_pmr_eq:
  assumes "cos_valid (cos_tbl t ! c)"
  shows "fst (verify_pmr r m p h t) = rule_ok m p h t (c, r)" "same_rules t (snd (verify_pmr r m p h t))"
  using assms same_rules_count [of t r "\<lambda>x. pmr_count x + 1"] by (auto simp: verify_pmr_def rule_ok_def)

lemma cos_chain_same: "cos_chain t cos pmr xs \<Longrightarrow> same_rules t t' \<Longrightarrow> cos_chain t' cos pmr xs"
  by (induction rule: cos_chain.induct) (auto intro: cos_chain.intros simp: same_rules_def)

text \<open>The last class on the way for which all rules so far held.\<close>

definition last_match :: "(nat \<times> pmr_ref \<Rightarrow> bool) \<Rightarrow> (nat \<times> pmr_ref) list \<Rightarrow> nat option" where
  "last_match ok xs = (let ys = takeWhile ok xs in if ys = [] then None else Some (fst (last ys)))"

lemma last_match_simps [simp]:
  "last_match ok [] = None"
  "last_match ok (x # xs) = (if ok x then (case last_match ok xs of None \<Rightarrow> Some (fst x) | Some c \<Rightarrow> Some c) else None)"
  by (simp_all add: last_match_def Let_def)

lemma match_pmr_cos_chain:
  assumes "cos_chain t cos pmr xs" "\<And>x. x \<in> set xs \<Longrightarrow> refs_ok t (snd x)"
  shows "\<exists>t'. match_pmr_cos cos m p pmr h t = Some (last_match (rule_ok m p h t) xs, t') \<and> same_rules t t'"
  using assms
proof (induction xs arbitrary: t cos pmr rule: list.induct)
  case Nil
  then have "cos = None \<or> pmr = None" by (auto elim: cos_chainE)
  then show ?case by (subst match_pmr_cos.simps) (auto split: option.split)
next
  case (Cons x xs)
  obtain c r where x: "x = (c, r)" "cos = Some c" "pmr = Some r"
    and ch: "cos_chain t (cos_linked_cos (cos_tbl t ! c)) (cos_pmr (cos_tbl t ! c)) xs"
    using Cons.prems(1) by (auto elim: cos_chainE)
  show ?case
  proof (cases "rule_ok m p h t x")
    case False
    have "\<exists>t'. match_pmr_cos cos m p pmr h t = Some (None, t') \<and> same_rules t t'"
    proof (cases "cos_valid (cos_tbl t ! c)")
      case True
      obtain ok t1 where v: "verify_pmr r m p h t = (ok, t1)" by (cases "verify_pmr r m p h t")
      then show ?thesis using verify_pmr_eq [OF True, of r m p h] False True x by (subst match_pmr_cos.simps) auto
    qed (subst match_pmr_cos.simps, simp add: x)
    then show ?thesis using False by simp
  next
    case True
    then have cv: "cos_valid (cos_tbl t ! c)" by (simp add: rule_ok_def x)
    obtain ok t1 where v: "verify_pmr r m p h t = (ok, t1)" by (cases "verify_pmr r m p h t")
    then have ok: "ok" and sr: "same_rules t t1" using verify_pmr_eq [OF cv, of r m p h] True x by auto
    have ct: "cos_tbl t1 = cos_tbl t" using sr by (simp add: same_rules_def)
    have rok: "refs_ok t1 (snd y)" if "y \<in> set xs" for y using refs_ok_same [OF sr] Cons.prems(2) that by simp
    from Cons.IH [OF cos_chain_same [OF ch sr] rok] obtain t2 where
      t2: "match_pmr_cos (cos_linked_cos (cos_tbl t ! c)) m p (cos_pmr (cos_tbl t ! c)) h t1 =
        Some (last_match (rule_ok m p h t1) xs, t2)" "same_rules t1 t2" by auto
    have lm: "last_match (rule_ok m p h t1) xs = last_match (rule_ok m p h t) xs"
      unfolding last_match_def using rule_ok_same [OF sr] Cons.prems(2) by (simp cong: takeWhile_cong)
    have "match_pmr_cos cos m p pmr h t = Some (last_match (rule_ok m p h t) (x # xs), t2)"
      using v ok cv True ct t2(1) x by (subst match_pmr_cos.simps) (auto simp: lm split: option.split)
    then show ?thesis using same_rules_trans [OF sr t2(2)] by blast
  qed
qed

text \<open>Without cycles every chain ends.\<close>

lemma cos_chain_exists:
  assumes "wf (link_rel t)" "links_in t" "\<And>c. cos = Some c \<Longrightarrow> c < length (cos_tbl t)"
  shows "\<exists>xs. cos_chain t cos pmr xs"
proof -
  have "c < length (cos_tbl t) \<longrightarrow> (\<exists>xs. cos_chain t (Some c) pmr xs)" for c pmr
    using assms(1)
  proof (induction c arbitrary: pmr rule: wf_induct_rule)
    case (less c)
    show ?case
    proof (cases pmr)
      case (Some r)
      have "\<exists>xs. cos_chain t (cos_linked_cos (cos_tbl t ! c)) (cos_pmr (cos_tbl t ! c)) xs" if "c < length (cos_tbl t)"
      proof (cases "cos_linked_cos (cos_tbl t ! c)")
        case (Some d)
        then show ?thesis using less(1) assms(2) that by (simp add: link_rel_def links_in_def)
      qed (auto intro: cos_chain.intros)
      then show ?thesis using Some by (auto intro: cos_chain.intros)
    qed (auto intro: cos_chain.intros)
  qed
  then show ?thesis using assms(3) by (cases cos) (auto intro: cos_chain.intros)
qed

section \<open>The class of a packet\<close>

text \<open>Every rule a class or an interface refers to is an entry of its table.\<close>

definition tbls_ok :: "cls_tbls \<Rightarrow> bool" where
  "tbls_ok t \<longleftrightarrow> links_in t \<and> (\<forall>c<length (cos_tbl t). \<forall>r. cos_pmr (cos_tbl t ! c) = Some r \<longrightarrow> refs_ok t r) \<and> wf (link_rel t)"

definition rule_refs :: "cls_tbls \<Rightarrow> nat option \<Rightarrow> pmr_ref option \<Rightarrow> bool" where
  "rule_refs t cos pmr \<longleftrightarrow> (\<forall>c. cos = Some c \<longrightarrow> c < length (cos_tbl t)) \<and> (\<forall>r. pmr = Some r \<longrightarrow> refs_ok t r)"

definition cls_ok :: "cls_tbls \<Rightarrow> classifier \<Rightarrow> bool" where
  "cls_ok t cls \<longleftrightarrow> (\<forall>(cos, pmr)\<in>set (cls_rules cls). rule_refs t cos pmr)"

lemma cos_chain_refs:
  assumes "cos_chain t cos pmr xs" "tbls_ok t" "rule_refs t cos pmr" "x \<in> set xs"
  shows "refs_ok t (snd x)"
  using assms by (induction rule: cos_chain.induct) (auto simp: rule_refs_def tbls_ok_def links_in_def)

lemma last_match_same:
  assumes "same_rules t t'" "\<And>x. x \<in> set xs \<Longrightarrow> refs_ok t (snd x)"
  shows "last_match (rule_ok m p h t') xs = last_match (rule_ok m p h t) xs"
  unfolding last_match_def using rule_ok_same [OF assms(1)] assms(2) by (simp cong: takeWhile_cong)

text \<open>The first rule of the interface that gives a class.\<close>

definition first_class :: "(nat option) list \<Rightarrow> nat option" where
  "first_class cs = (case find (\<lambda>c. c \<noteq> None) cs of None \<Rightarrow> None | Some c \<Rightarrow> c)"

lemma first_class_simps [simp]:
  "first_class [] = None" "first_class (c # cs) = (if c \<noteq> None then c else first_class cs)"
  by (simp_all add: first_class_def)

lemma match_rules_eq:
  assumes "list_all2 (\<lambda>(cos, pmr) xs. cos_chain t cos pmr xs) rs chs"
    and "\<forall>xs\<in>set chs. \<forall>x\<in>set xs. refs_ok t (snd x)"
  shows "\<exists>t'. match_rules rs m p h t = Some (first_class (map (last_match (rule_ok m p h t)) chs), t') \<and> same_rules t t'"
  using assms
proof (induction rs arbitrary: t chs rule: list.induct)
  case Nil
  then show ?case by simp
next
  case (Cons r rs)
  obtain cos pmr where r: "r = (cos, pmr)" by (cases r)
  obtain xs ys where chs: "chs = xs # ys" and ch: "cos_chain t cos pmr xs"
    and tl: "list_all2 (\<lambda>(cos, pmr) xs. cos_chain t cos pmr xs) rs ys"
    using Cons.prems(1) r by (auto simp: list_all2_Cons1)
  from match_pmr_cos_chain [OF ch, of m p h] Cons.prems(2) chs obtain t1 where
    t1: "match_pmr_cos cos m p pmr h t = Some (last_match (rule_ok m p h t) xs, t1)" "same_rules t t1" by auto
  show ?case
  proof (cases "last_match (rule_ok m p h t) xs")
    case (Some c)
    then show ?thesis using t1 r chs by simp
  next
    case None
    have "list_all2 (\<lambda>(cos, pmr) xs. cos_chain t1 cos pmr xs) rs ys"
      using tl by (rule list_all2_mono) (auto intro: cos_chain_same [OF _ t1(2)])
    moreover have "map (last_match (rule_ok m p h t1)) ys = map (last_match (rule_ok m p h t)) ys"
      unfolding map_eq_conv using last_match_same [OF t1(2)] Cons.prems(2) chs by (meson list.set_intros(2))
    moreover have "\<forall>zs\<in>set ys. \<forall>x\<in>set zs. refs_ok t1 (snd x)"
      using Cons.prems(2) chs by (simp add: refs_ok_same [OF t1(2)])
    ultimately show ?thesis using Cons.IH [of t1 ys] t1 None r chs same_rules_trans [OF t1(2)] by (auto cong: map_cong)
  qed
qed

text \<open>
  The class the QoS tables give: by the priority of the outer VLAN tag, the first three bits of the tag, and by the DSCP of the
  IP header, the first six bits of its second byte. For IPv6 the index is made of the bits of the flow label that the macro reads.
\<close>

definition l2_class :: "classifier \<Rightarrow> memory \<Rightarrow> addr \<Rightarrow> odp_packet_hdr \<Rightarrow> nat option" where
  "l2_class cls m p h =
    (if {IF_l2, IF_eth, IF_vlan} \<subseteq> {f. input_flag f h} then cls_l2_cos cls ! (unat (m (p + int (unat (l2_offset h)) + 14)) div 32) else None)"

definition l3_class :: "classifier \<Rightarrow> memory \<Rightarrow> addr \<Rightarrow> odp_packet_hdr \<Rightarrow> nat option" where
  "l3_class cls m p h =
    (if \<not> input_flag IF_l3 h then None
     else if input_flag IF_ipv4 h then cls_l3_cos cls ! (unat (m (l3_at p h + 1)) div 4)
     else if input_flag IF_ipv6 h then cls_l3_cos cls ! (unat (m (l3_at p h + 2)) div 64 + 4 * (unat (m (l3_at p h + 3)) mod 16))
     else None)"

lemma vlan_priority: "unat (drop_bit 13 (be16 m p) AND 7) = unat (m p) div 32"
proof -
  have k: "7 = (mask 3 :: u16)" by (simp add: mask_eq_exp_minus_1)
  have "drop_bit 13 (be16 m p) AND 7 = ucast (drop_bit 5 (m p))"
    unfolding k by (rule bit_word_eqI) (auto simp: be16_def bit_simps simp del: take_bit_eq_mod dest: bit_imp_le_length)
  moreover have "unat (ucast (drop_bit 5 (m p)) :: u16) = unat (drop_bit 5 (m p))"
    by (simp add: unsigned_ucast_eq take_bit_nat_eq_self order_less_trans [OF unat_u8_bound])
  moreover have "unat (drop_bit 5 (m p)) = unat (m p) div 32" by (simp add: drop_bit_eq_div unat_div_distrib)
  ultimately show ?thesis by simp
qed

lemma ipv4_dscp: "unat (ODPH_IPV4HDR_DSCP tos) = unat tos div 4"
proof -
  have k: "0xfc = push_bit 2 (mask 6 :: u8)" by (simp add: mask_eq_exp_minus_1)
  have "drop_bit 2 (tos AND 0xfc) = drop_bit 2 tos"
    unfolding k by (rule bit_word_eqI) (auto simp: bit_simps dest: bit_imp_le_length)
  then show ?thesis by (simp add: ODPH_IPV4HDR_DSCP_def drop_bit_eq_div unat_div_distrib)
qed

lemma ipv6_dscp: "unat (ODPH_IPV6HDR_DSCP (le32 m p)) = unat (m (p + 2)) div 64 + 4 * (unat (m (p + 3)) mod 16)"
proof -
  let ?a = "drop_bit 6 (m (p + 2))" let ?b = "push_bit 2 (take_bit 4 (m (p + 3)))"
  have k: "0x0fc00000 = push_bit 22 (mask 6 :: u32)" "0xff = (mask 8 :: u32)" by (simp_all add: mask_eq_exp_minus_1)
  have "ODPH_IPV6HDR_DSCP (le32 m p) = ?a OR ?b"
    unfolding ODPH_IPV6HDR_DSCP_def k
    by (rule bit_word_eqI) (auto simp: le32_def bit_simps dest: bit_imp_le_length)
  moreover have "?a AND ?b = 0" by (rule bit_word_eqI) (auto simp: bit_simps dest: bit_imp_le_length)
  moreover have "unat ?a = unat (m (p + 2)) div 64" by (simp add: drop_bit_eq_div unat_div_distrib)
  moreover have "unat ?b = 4 * (unat (m (p + 3)) mod 16)"
  proof -
    have "unat (take_bit 4 (m (p + 3))) = unat (m (p + 3)) mod 16" by (simp only: unat_take_bit) (simp add: take_bit_eq_mod)
    then have "unat (4 * take_bit 4 (m (p + 3))) = 4 * (unat (m (p + 3)) mod 16)"
      by (subst unat_mult_small) simp_all
    then show ?thesis by (simp add: push_bit_eq_mult mult.commute)
  qed
  ultimately show ?thesis by (simp add: unat_or_disjoint)
qed

lemma match_qos_spec: "match_qos_cos cls m p h = first_class (if cls_l3_precedence cls then [l3_class cls m p h, l2_class cls m p h]
    else [l2_class cls m p h, l3_class cls m p h])"
proof -
  have "match_qos_l2_cos (cls_l2_cos cls) m p h = l2_class cls m p h"
    by (auto simp: match_qos_l2_cos_def l2_class_def vlan_priority)
  moreover have "match_qos_l3_cos (cls_l3_cos cls) m p h = l3_class cls m p h"
    by (simp add: match_qos_l3_cos_def l3_class_def ipv4_dscp ipv6_dscp)
  ultimately show ?thesis by (simp add: match_qos_cos_def Let_def)
qed


section \<open>Tables\<close>

definition tbls_len :: "cls_tbls \<Rightarrow> bool" where
  "tbls_len t \<longleftrightarrow> length (cos_tbl t) = ODP_COS_MAX_ENTRY \<and> length (pmr_tbl t) = ODP_PMR_MAX_ENTRY \<and>
    length (pmr_set_tbl t) = ODP_PMRSET_MAX_ENTRY \<and> (\<forall>p\<in>set (pmr_tbl t). length (pmr_terms p) = 1)"

lemma first_index_Some:
  "first_index P xs = Some i \<longleftrightarrow> i < length xs \<and> P (xs ! i) \<and> (\<forall>j<i. \<not> P (xs ! j))"
  by (auto simp: first_index_def find_Some_iff nth_upt)

lemma first_index_None: "first_index P xs = None \<longleftrightarrow> (\<forall>x\<in>set xs. \<not> P x)"
  by (auto simp: first_index_def find_None_iff all_set_conv_all_nth)

lemma cos_tbl_upd_cos [simp]:
  "cos_tbl (upd_cos i f t) = (cos_tbl t)[i := f (cos_tbl t ! i)]" "pmr_tbl (upd_cos i f t) = pmr_tbl t"
  "pmr_set_tbl (upd_cos i f t) = pmr_set_tbl t"
  by (simp_all add: upd_cos_def)

lemma refs_ok_upd_cos [simp]: "refs_ok (upd_cos i f t) r = refs_ok t r"
  by (simp add: refs_ok_def split: pmr_ref.split)

lemma get_cos_entry_handle:
  assumes "tbls_len t" "i < 64"
  shows "get_cos_entry t (of_nat i) = (if cos_valid (cos_tbl t ! i) then Some i else None)"
proof -
  have u: "unat (of_nat i :: u32) = i" using assms(2) by (intro unat_of_nat_small) simp
  then have "(of_nat i :: u32) \<noteq> 0xffffffff" using assms(2) by (auto dest: arg_cong [where f = unat])
  then show ?thesis using assms u by (simp add: get_cos_entry_def)
qed

text \<open>
  Creating a class takes the first entry that is not in use and fails exactly when all 64 are; the new handle is valid, the
  class has no queue, rule or link, no other entry changes, and tables without cycles stay so. Destroying it makes
  exactly its handle invalid, so the entry is free again.
\<close>

theorem odp_cos_create_destroy:
  assumes len: "tbls_len t" and ok: "tbls_ok t"
  shows "case odp_cos_create name t of (cos_id, t') \<Rightarrow>
    if \<forall>c\<in>set (cos_tbl t). cos_valid c then cos_id = ODP_COS_INVALID \<and> t' = t
    else \<exists>i<64. cos_id = of_nat i \<and> get_cos_entry t cos_id = None \<and> get_cos_entry t' cos_id = Some i \<and>
      cos_queue (cos_tbl t' ! i) = None \<and> cos_pmr (cos_tbl t' ! i) = None \<and> cos_linked_cos (cos_tbl t' ! i) = None \<and>
      (\<forall>j. j \<noteq> i \<longrightarrow> cos_tbl t' ! j = cos_tbl t ! j) \<and> tbls_ok t' \<and>
      (case odp_cos_destroy cos_id t' of (ret, t'') \<Rightarrow> ret = 0 \<and> get_cos_entry t'' cos_id = None \<and>
         (\<forall>j<64. j \<noteq> i \<longrightarrow> get_cos_entry t'' (of_nat j) = get_cos_entry t (of_nat j)))"
proof (cases "first_index (\<lambda>c. \<not> cos_valid c) (cos_tbl t)")
  case None
  then show ?thesis using None by (simp add: odp_cos_create_def first_index_None [THEN iffD1, OF None])
next
  case (Some i)
  define f :: "cos_t \<Rightarrow> cos_t" where "f = (\<lambda>c. c\<lparr>cos_name := take (ODP_COS_NAME_LEN - 1) name, cos_pmr := None,
           cos_linked_cos := None, cos_queue := None, cos_flow_set := 0, cos_headroom := 0, cos_valid := True\<rparr>)"
  have f [simp]: "cos_valid (f c)" "cos_queue (f c) = None" "cos_pmr (f c) = None" "cos_linked_cos (f c) = None" for c
    by (simp_all add: f_def)
  let ?t = "upd_cos i f t"
  have cr: "odp_cos_create name t = (of_nat i, ?t)" using Some by (simp add: odp_cos_create_def f_def)
  have i: "i < length (cos_tbl t)" "\<not> cos_valid (cos_tbl t ! i)" using Some by (simp_all add: first_index_Some)
  have i64: "i < 64" using i(1) len by (simp add: tbls_len_def)
  have nall: "\<not> (\<forall>c\<in>set (cos_tbl t). cos_valid c)" using i nth_mem by blast
  have len': "tbls_len ?t" using len by (simp add: tbls_len_def)
  let ?u = "upd_cos i (\<lambda>c. c\<lparr>cos_valid := False\<rparr>) ?t"
  have len'': "tbls_len ?u" using len' by (simp add: tbls_len_def)
  have ge: "get_cos_entry t (of_nat i) = None" "get_cos_entry ?t (of_nat i) = Some i"
    using get_cos_entry_handle [OF len i64] get_cos_entry_handle [OF len' i64] i by simp_all
  have de: "odp_cos_destroy (of_nat i) ?t = (0, ?u)" by (simp add: odp_cos_destroy_def ge)
  have "link_rel ?t \<subseteq> link_rel t" using i(1) by (auto simp: link_rel_def nth_list_update)
  then have wf: "wf (link_rel ?t)" using ok by (auto simp: tbls_ok_def intro: wf_subset)
  have ok': "tbls_ok ?t"
    using wf ok i(1) by (auto simp: tbls_ok_def links_in_def nth_list_update split: if_splits)
  have gu: "get_cos_entry ?u (of_nat i) = None" using get_cos_entry_handle [OF len'' i64] i(1) by simp
  have gj: "get_cos_entry ?u (of_nat j) = get_cos_entry t (of_nat j)" if "j < 64" "j \<noteq> i" for j
    using get_cos_entry_handle [OF len'' that(1)] get_cos_entry_handle [OF len that(1)] that(2) by simp
  show ?thesis
    unfolding cr prod.case if_not_P [OF nall] using i(1) i64 ge ok' de gu gj
    by (intro exI [of _ i]) simp
qed

section \<open>Rules\<close>

text \<open>
  The fields of a packet that rules can name, as numbers, from the bytes of the frame in network order: the protocol is at byte 9 of the
  IPv4 header, the addresses are at 12 and 16, and the ports are the first two pairs of bytes of layer 4.
\<close>

definition net_num :: "u8 list \<Rightarrow> nat" where
  "net_num bs = foldl (\<lambda>n b. 256 * n + unat b) 0 bs"

definition field_of :: "pmr_term \<Rightarrow> memory \<Rightarrow> addr \<Rightarrow> odp_packet_hdr \<Rightarrow> nat option" where
  "field_of trm m p h =
    (let at = (\<lambda>flag pos n. if input_flag flag h then Some (net_num (load_bytes m (p + pos) n)) else None);
         l3 = int (unat (l3_offset h)); l4 = int (unat (l4_offset h))
     in case trm of
       ODP_PMR_LEN \<Rightarrow> Some (unat (frame_len h))
     | ODP_PMR_IPPROTO \<Rightarrow> at IF_ipv4 (l3 + 9) 1
     | ODP_PMR_SIP_ADDR \<Rightarrow> at IF_ipv4 (l3 + 12) 4
     | ODP_PMR_DIP_ADDR \<Rightarrow> at IF_ipv4 (l3 + 16) 4
     | ODP_PMR_UDP_SPORT \<Rightarrow> at IF_udp l4 2
     | ODP_PMR_UDP_DPORT \<Rightarrow> at IF_udp (l4 + 2) 2
     | ODP_PMR_TCP_SPORT \<Rightarrow> at IF_tcp l4 2
     | ODP_PMR_TCP_DPORT \<Rightarrow> at IF_tcp (l4 + 2) 2
     | _ \<Rightarrow> None)"

text \<open>The terms that \<open>odp_pmr_terms_cap\<close> announces.\<close>

definition announced :: "pmr_term \<Rightarrow> bool" where
  "announced trm \<longleftrightarrow> bit odp_pmr_terms_cap (pmr_term_num trm)"

lemma announced_iff:
  "announced trm \<longleftrightarrow> trm \<in> {ODP_PMR_LEN, ODP_PMR_IPPROTO, ODP_PMR_UDP_DPORT, ODP_PMR_TCP_DPORT, ODP_PMR_UDP_SPORT, ODP_PMR_TCP_SPORT,
     ODP_PMR_SIP_ADDR, ODP_PMR_DIP_ADDR}"
  by (cases trm) (simp_all add: announced_def odp_pmr_terms_cap_def bit_simps)

lemma unat_be16: "unat (be16 m p) = 256 * unat (m p) + unat (m (p + 1))"
proof -
  have "push_bit 8 (ucast (m p)) AND ucast (m (p + 1)) = (0 :: u16)"
    by (rule bit_word_eqI) (auto simp: bit_simps dest: bit_imp_le_length)
  moreover have u: "unat (ucast b :: u16) = unat b" for b :: u8
    by (simp add: unsigned_ucast_eq take_bit_nat_eq_self order_less_trans [OF unat_u8_bound])
  moreover have "unat (push_bit 8 (ucast (m p)) :: u16) = 256 * unat (m p)"
  proof -
    have "unat (256 * ucast (m p) :: u16) = 256 * unat (m p)" using unat_u8_bound [of "m p"] by (subst unat_mult_small) (simp_all add: u)
    then show ?thesis by (simp add: push_bit_eq_mult mult.commute)
  qed
  ultimately show ?thesis by (simp add: be16_def unat_or_disjoint)
qed

lemma unat_be32: "unat (be32 m p) = 65536 * unat (be16 m p) + unat (be16 m (p + 2))"
proof -
  have "push_bit 16 (ucast (be16 m p)) AND ucast (be16 m (p + 2)) = (0 :: u32)"
    by (rule bit_word_eqI) (auto simp: bit_simps dest: bit_imp_le_length)
  moreover have "unat (push_bit 16 (ucast (be16 m p)) :: u32) = 65536 * unat (be16 m p)"
  proof -
    have "unat (65536 * ucast (be16 m p) :: u32) = 65536 * unat (be16 m p)"
      using unat_u16_bound [of "be16 m p"] by (subst unat_mult_u32) simp_all
    then show ?thesis by (simp add: push_bit_eq_mult mult.commute)
  qed
  ultimately show ?thesis by (simp add: be32_def unat_or_disjoint)
qed

lemma net_num_loads:
  "net_num (load_bytes m p 1) = unat (m p)" "net_num (load_bytes m p 2) = unat (be16 m p)" "net_num (load_bytes m p 4) = unat (be32 m p)"
proof -
  have u: "[0..<1] = [0]" "[0..<2] = [0, 1]" "[0..<4] = [0, 1, 2, 3 :: nat]" by (simp_all add: upt_rec)
  show "net_num (load_bytes m p 1) = unat (m p)" by (simp add: net_num_def load_bytes_def)
  show "net_num (load_bytes m p 2) = unat (be16 m p)" unfolding net_num_def load_bytes_def u by (simp add: unat_be16)
  have "p + 2 + 1 = p + 3" by simp
  then show "net_num (load_bytes m p 4) = unat (be32 m p)"
    unfolding net_num_def load_bytes_def u unat_be32 unat_be16 by (simp add: add.commute [of 3 p])
qed

lemma widen_of_nat: "ucast (x :: u8) = (of_nat (unat x) :: u64)" "ucast (y :: u16) = (of_nat (unat y) :: u64)"
  "ucast (z :: u32) = (of_nat (unat z) :: u64)"
  by simp_all

lemma verify_term_field:
  assumes "announced (pt_term tv)"
  shows "verify_term m p h tv \<longleftrightarrow> (\<exists>v. field_of (pt_term tv) m p h = Some v \<and> term_match tv (of_nat v))"
  using assms unfolding announced_iff verify_term_def field_of_def Let_def
  by (cases "pt_term tv") (simp_all add: net_num_loads net_num_loads(1) [simplified] add.assoc verify_pmr_packet_len_def verify_pmr_ip_proto_def verify_pmr_ipv4_saddr_def
      verify_pmr_ipv4_daddr_def verify_pmr_tcp_sport_def verify_pmr_tcp_dport_def verify_pmr_udp_sport_def verify_pmr_udp_dport_def)

lemma pmr_at_upd_pmr: "i < length (pmr_tbl t) \<Longrightarrow> pmr_at (upd_pmr i f t) (Pmr i) = f (pmr_at t (Pmr i))"
  by (simp add: pmr_at_def upd_pmr_def)

text \<open>
  C21: Creating a rule from a term, a value and a mask refuses a value of more than eight bytes, and any when all entries are
  in use. Otherwise it gives a handle, and for each term that \<open>odp_pmr_terms_cap\<close> announces the rule holds for a packet
  exactly when the packet has the field of the term and the field, as a number, agrees with the value in the bits of the mask.
  For the protocol term the packet must not be an IPv6 packet, whose next header the code does not look at.
\<close>

theorem odp_pmr_create_verify:
  assumes len: "tbls_len t"
  shows "case odp_pmr_create trm val msk val_sz t of (pmr_id, t') \<Rightarrow>
    if unat val_sz > 8 \<or> (\<forall>p\<in>set (pmr_tbl t). pmr_valid p) then pmr_id = ODP_PMR_INVAL \<and> t' = t
    else \<exists>i. get_pmr_entry t' pmr_id = Some i \<and>
      (announced trm \<and> \<not> (trm = ODP_PMR_IPPROTO \<and> input_flag IF_ipv6 h) \<longrightarrow>
        (fst (verify_pmr (Pmr i) m p h t') \<longleftrightarrow>
          (\<exists>v. field_of trm m p h = Some v \<and> of_nat v AND le_bytes (take (unat val_sz) msk) =
            le_bytes (take (unat val_sz) val) AND le_bytes (take (unat val_sz) msk))))"
proof (cases "unat val_sz > 8 \<or> first_index (\<lambda>p. \<not> pmr_valid p) (pmr_tbl t) = None")
  case True
  then have "odp_pmr_create trm val msk val_sz t = (ODP_PMR_INVAL, t)" by (auto simp: odp_pmr_create_def alloc_pmr_def)
  moreover have "unat val_sz > 8 \<or> (\<forall>p\<in>set (pmr_tbl t). pmr_valid p)" using True by (auto simp: first_index_None)
  ultimately show ?thesis by simp
next
  case False
  then obtain i where sz: "unat val_sz \<le> 8" and fi: "first_index (\<lambda>p. \<not> pmr_valid p) (pmr_tbl t) = Some i" by auto
  have i: "i < length (pmr_tbl t)" "\<not> pmr_valid (pmr_tbl t ! i)" using fi by (simp_all add: first_index_Some)
  have i64: "i < 64" and tl: "length (pmr_terms (pmr_tbl t ! i)) = 1" using len i(1) by (simp_all add: tbls_len_def)
  define tv where "tv = make_term trm (take (unat val_sz) val) (take (unat val_sz) msk)"
  let ?t = "upd_pmr i (\<lambda>p. p\<lparr>pmr_num := 1, pmr_terms := (pmr_terms p)[0 := tv]\<rparr>)
     (upd_pmr i (\<lambda>p. p\<lparr>pmr_valid := True, pmr_count := 0, pmr_num := 0\<rparr>) t)"
  have cr: "odp_pmr_create trm val msk val_sz t = (of_nat i, ?t)"
    using sz fi by (simp add: odp_pmr_create_def alloc_pmr_def tv_def)
  have u: "unat (of_nat i :: u32) = i" using i64 by (intro unat_of_nat_small) simp
  then have ne: "(of_nat i :: u32) \<noteq> 0xffffffff" using i64 by (auto dest: arg_cong [where f = unat])
  have at: "pmr_at ?t (Pmr i) = (pmr_tbl t ! i)\<lparr>pmr_valid := True, pmr_count := 0, pmr_num := 1, pmr_terms := [tv]\<rparr>"
  proof -
    have "(pmr_terms (pmr_tbl t ! i))[0 := tv] = [tv]" using tl by (cases "pmr_terms (pmr_tbl t ! i)") auto
    then show ?thesis using i(1) by (simp add: pmr_at_def upd_pmr_def)
  qed
  have ge: "get_pmr_entry ?t (of_nat i) = Some i" using i(1) i64 u ne by (simp add: get_pmr_entry_def upd_pmr_def)
  have vf: "fst (verify_pmr (Pmr i) m p h ?t) = verify_term m p h tv" by (simp add: verify_pmr_def at)
  have nall: "\<not> (unat val_sz > 8 \<or> (\<forall>p\<in>set (pmr_tbl t). pmr_valid p))" using sz i nth_mem by auto
  have tm: "term_match tv x \<longleftrightarrow> x AND le_bytes (take (unat val_sz) msk) =
      le_bytes (take (unat val_sz) val) AND le_bytes (take (unat val_sz) msk)" for x
    by (auto simp: term_match_def tv_def make_term_def)
  have trm: "pt_term tv = trm" by (simp add: tv_def make_term_def)
  show ?thesis unfolding cr prod.case if_not_P [OF nall] using vf ge verify_term_field [of tv m p h] trm tm by (intro exI [of _ i]) auto
qed

text \<open>An IPv6 packet never matches a rule on the protocol, whatever its next header is.\<close>

lemma ipproto_ipv6_never:
  assumes "pt_term tv = ODP_PMR_IPPROTO" "\<not> input_flag IF_ipv4 h"
  shows "\<not> verify_term m p h tv"
  using assms by (simp add: verify_term_def verify_pmr_ip_proto_def)

text \<open>The lists of a classifier have their array sizes and the count of rules stays within them.\<close>

definition cls_wf :: "classifier \<Rightarrow> bool" where
  "cls_wf cls \<longleftrightarrow> length (cls_pmr cls) = ODP_PKTIO_MAX_PMR \<and> length (cls_cos cls) = ODP_PKTIO_MAX_PMR \<and>
    cls_num_pmr cls \<le> ODP_PKTIO_MAX_PMR \<and> length (cls_l2_cos cls) = ODP_COS_MAX_L2_QOS \<and>
    length (cls_l3_cos cls) = ODP_COS_MAX_L3_QOS"

text \<open>What a table of QoS values and classes assigns to a value: the last valid class given for it, or what it had.\<close>

definition qos_given :: "cls_tbls \<Rightarrow> (u8 \<times> u32) list \<Rightarrow> nat \<Rightarrow> nat option \<Rightarrow> nat option" where
  "qos_given t qs q old =
    (case find (\<lambda>(qos, cos_id). unat qos = q \<and> get_cos_entry t cos_id \<noteq> None) (rev qs) of
       None \<Rightarrow> old | Some (_, cos_id) \<Rightarrow> get_cos_entry t cos_id)"

lemma find_append: "find P (xs @ ys) = (case find P xs of None \<Rightarrow> find P ys | Some x \<Rightarrow> Some x)"
  by (induction xs) simp_all

lemma set_qos_correct:
  "length tbl = lim \<Longrightarrow> set_qos t lim qs tbl = Inr (map (\<lambda>q. qos_given t qs q (tbl ! q)) [0..<lim])"
proof (induction t lim qs tbl rule: set_qos.induct)
  case (1 t lim tbl)
  then show ?case by (auto simp: qos_given_def intro: nth_equalityI)
next
  case (2 t lim qos cos_id qs tbl)
  define tbl1 where "tbl1 = (case get_cos_entry t cos_id of None \<Rightarrow> tbl | Some c \<Rightarrow> tbl[unat qos := Some c])"
  have w: "(case get_cos_entry t cos_id of None \<Rightarrow> Inr tbl
      | Some c \<Rightarrow> if unat qos < lim then arr_put tbl (unat qos) (Some c) else Inr tbl) = Inr tbl1"
    using 2(2) by (auto simp: tbl1_def arr_put_def list_update_beyond split: option.split)
  have l: "length tbl1 = lim" using 2(2) by (auto simp: tbl1_def split: option.split)
  have "qos_given t ((qos, cos_id) # qs) q (tbl ! q) = qos_given t qs q (tbl1 ! q)" if "q < lim" for q
    using 2(2) that by (auto simp: qos_given_def find_append tbl1_def nth_list_update split: option.splits)
  then have "map (\<lambda>q. qos_given t ((qos, cos_id) # qs) q (tbl ! q)) [0..<lim] = map (\<lambda>q. qos_given t qs q (tbl1 ! q)) [0..<lim]"
    by simp
  then show ?case using 2(1) [OF l] w by simp
qed

text \<open>Attaching a rule of either kind.\<close>

definition attach_result :: "pmr_ref option \<Rightarrow> nat option \<Rightarrow> classifier \<Rightarrow> c_error + (int \<times> classifier) \<Rightarrow> bool" where
  "attach_result pmr cos cls r \<longleftrightarrow>
    (\<exists>ret cls'. r = Inr (ret, cls') \<and> cls_wf cls' \<and>
      (case (pmr, cos) of
         (Some p, Some c) \<Rightarrow>
           if length (cls_rules cls) = 8 then ret = -1 \<and> cls' = cls
           else ret = 0 \<and> cls_rules cls' = cls_rules cls @ [(Some c, Some p)]
       | _ \<Rightarrow> ret = -1 \<and> cls' = cls))"

lemma attach_rule_ok:
  assumes wf: "cls_wf cls"
  shows "attach_result pmr (get_cos_entry t dst_cos) cls (attach_rule t pmr dst_cos cls)"
proof -
  have len: "length (cls_rules cls) = cls_num_pmr cls" using wf by (simp add: cls_wf_def cls_rules_def)
  have app: "cls_rules (cls\<lparr>cls_pmr := (cls_pmr cls)[cls_num_pmr cls := Some r], cls_cos := (cls_cos cls)[cls_num_pmr cls := Some c],
      cls_num_pmr := Suc (cls_num_pmr cls)\<rparr>) = cls_rules cls @ [(Some c, Some r)]" if "cls_num_pmr cls < 8" for r c
    using wf that by (simp add: cls_rules_def cls_wf_def take_Suc_conv_app_nth take_zip)
  show ?thesis
    using wf app unfolding attach_result_def attach_rule_def
    by (auto simp: arr_put_def len cls_wf_def split: option.splits)
qed

text \<open>
  C22: The setters of an interface never write outside their arrays. Attaching a rule or a set of rules fails and changes
  nothing if a handle is invalid or eight rules are attached already; otherwise the rule comes after those attached
  before. The tables of layer 2 and layer 3 take, for each value below their sizes of 8 and 64, the last valid class
  given for it and leave the others alone; values beyond are passed over. All keep the sizes of the arrays and the
  number of rules, and so do the setters of the default and the error class and the initialisation, after which no rule is attached.
\<close>

theorem classifier_attach:
  assumes "cls_wf cls"
  shows "attach_result (map_option Pmr (get_pmr_entry t pmr_id)) (get_cos_entry t dst_cos) cls (classifier_pmr_cos t pmr_id dst_cos cls) \<and>
    attach_result (map_option Pmr_Set (get_pmr_set_entry t set_id)) (get_cos_entry t dst_cos) cls
      (classifier_pmr_match_set_cos t set_id dst_cos cls) \<and>
    (\<exists>cls'. cos_with_l2_priority t qs cls = Inr (0, cls') \<and> cls_wf cls' \<and>
      cls' = cls\<lparr>cls_l2_cos := map (\<lambda>q. qos_given t qs q (cls_l2_cos cls ! q)) [0..<8]\<rparr>) \<and>
    (\<exists>cls'. cos_with_l3_qos t qs pref cls = Inr (0, cls') \<and> cls_wf cls' \<and>
      cls' = cls\<lparr>cls_l3_precedence := pref, cls_l3_cos := map (\<lambda>q. qos_given t qs q (cls_l3_cos cls ! q)) [0..<64]\<rparr>) \<and>
    cls_wf (snd (classifier_default_cos_set t dst_cos cls)) \<and> cls_wf (snd (classifier_error_cos_set t dst_cos cls)) \<and>
    cls_wf (pktio_classifier_init cls) \<and> cls_rules (pktio_classifier_init cls) = []"
proof -
  have "\<exists>cls'. cos_with_l2_priority t qs cls = Inr (0, cls') \<and> cls_wf cls' \<and>
      cls' = cls\<lparr>cls_l2_cos := map (\<lambda>q. qos_given t qs q (cls_l2_cos cls ! q)) [0..<8]\<rparr>"
    using assms set_qos_correct [of "cls_l2_cos cls" 8 t qs] by (simp add: cos_with_l2_priority_def cls_wf_def)
  moreover have "\<exists>cls'. cos_with_l3_qos t qs pref cls = Inr (0, cls') \<and> cls_wf cls' \<and>
      cls' = cls\<lparr>cls_l3_precedence := pref, cls_l3_cos := map (\<lambda>q. qos_given t qs q (cls_l3_cos cls ! q)) [0..<64]\<rparr>"
    using assms set_qos_correct [of "cls_l3_cos cls" 64 t qs] by (simp add: cos_with_l3_qos_def cls_wf_def)
  moreover have "cls_wf (snd (classifier_default_cos_set t dst_cos cls))" "cls_wf (snd (classifier_error_cos_set t dst_cos cls))"
    "cls_wf (pktio_classifier_init cls)" "cls_rules (pktio_classifier_init cls) = []"
    using assms by (auto simp: cls_wf_def classifier_default_cos_set_def classifier_error_cos_set_def
        pktio_classifier_init_def cls_rules_def split: option.split)
  ultimately show ?thesis
    unfolding classifier_pmr_cos_def classifier_pmr_match_set_cos_def using attach_rule_ok [OF assms] by blast
qed

section \<open>Instances and findings\<close>

text \<open>A class 0 that refines to class 1, and two rules on the packet length: always, and exactly 60 bytes.\<close>

definition no_cos_t :: cos_t where
  "no_cos_t = \<lparr>cos_queue = None, cos_pmr = None, cos_linked_cos = None, cos_valid = False, cos_drop_policy = ODP_COS_DROP_POOL,
    cos_flow_set = 0, cos_name = [], cos_headroom = 0\<rparr>"

definition len_rule :: "u64 \<Rightarrow> u64 \<Rightarrow> pmr_t" where
  "len_rule v k = \<lparr>pmr_valid = True, pmr_count = 0, pmr_num = 1, pmr_terms = [\<lparr>pt_term = ODP_PMR_LEN, pt_val = v, pt_mask = k\<rparr>]\<rparr>"

definition demo_tbls :: cls_tbls where
  "demo_tbls =
    \<lparr>cos_tbl = [no_cos_t\<lparr>cos_valid := True, cos_pmr := Some (Pmr 1), cos_linked_cos := Some 1\<rparr>, no_cos_t\<lparr>cos_valid := True\<rparr>]
       @ replicate 62 no_cos_t,
     pmr_tbl = [len_rule 0 0, len_rule 60 0xffff] @ replicate 62 ((len_rule 0 0)\<lparr>pmr_valid := False\<rparr>),
     pmr_set_tbl = replicate 64 ((len_rule 0 0)\<lparr>pmr_valid := False\<rparr>)\<rparr>"

definition demo_cls :: classifier where
  "demo_cls = \<lparr>cls_num_pmr = 1, cls_pmr = Some (Pmr 0) # replicate 7 None, cls_cos = Some 0 # replicate 7 None,
    cls_error_cos = None, cls_default_cos = None, cls_l3_precedence = False, cls_l2_cos = replicate 8 None,
    cls_l3_cos = replicate 64 None, cls_flow_set = 0, cls_headroom = 0, cls_skip = 0\<rparr>"

definition demo_parsed :: odp_packet_hdr where
  "demo_parsed = demo_pkt\<lparr>input_flags := 0, error_flags := 0, frame_len := 60\<rparr>"

lemma demo_tbls_len: "tbls_len demo_tbls"
  by (simp add: tbls_len_def demo_tbls_def len_rule_def)

lemma demo_tbls_nth:
  "c < 64 \<Longrightarrow> cos_linked_cos (cos_tbl demo_tbls ! c) = (if c = 0 then Some 1 else None)"
  "c < 64 \<Longrightarrow> cos_pmr (cos_tbl demo_tbls ! c) = (if c = 0 then Some (Pmr 1) else None)"
  by (auto simp: demo_tbls_def nth_append nth_Cons no_cos_t_def split: nat.split)

lemma demo_tbls_ok: "tbls_ok demo_tbls"
proof -
  have len: "length (cos_tbl demo_tbls) = 64" "length (pmr_tbl demo_tbls) = 64" by (simp_all add: demo_tbls_def)
  have "link_rel demo_tbls \<subseteq> {(1, 0)}" by (auto simp: link_rel_def len demo_tbls_nth split: if_splits)
  then have "wf (link_rel demo_tbls)" by (rule wf_subset [rotated]) (auto intro!: wf_insert [THEN iffD2])
  then show ?thesis by (auto simp: tbls_ok_def links_in_def len demo_tbls_nth refs_ok_def split: if_splits)
qed

lemma demo_cls_wf: "cls_wf demo_cls" "cls_ok demo_tbls demo_cls"
  by (simp_all add: cls_wf_def demo_cls_def cls_ok_def cls_rules_def rule_refs_def refs_ok_def demo_tbls_def)


theorem odp_cos_create_destroy_witness:
  "\<exists>i<64. fst (odp_cos_create ''c'' demo_tbls) = of_nat i \<and> get_cos_entry (snd (odp_cos_create ''c'' demo_tbls)) (of_nat i) = Some i"
proof -
  have "\<not> (\<forall>c\<in>set (cos_tbl demo_tbls). cos_valid c)" by (simp add: demo_tbls_def no_cos_t_def)
  from odp_cos_create_destroy [OF demo_tbls_len demo_tbls_ok, of "''c''", unfolded case_prod_beta if_not_P [OF this]]
  show ?thesis by metis
qed

theorem odp_pmr_create_verify_witness:
  "\<exists>i t'. odp_pmr_create ODP_PMR_LEN [60] [255] 1 demo_tbls = (i, t') \<and>
     (\<exists>k. get_pmr_entry t' i = Some k \<and> fst (verify_pmr (Pmr k) (\<lambda>_. 0) 0 demo_parsed t'))"
proof -
  have "\<not> (\<forall>p\<in>set (pmr_tbl demo_tbls). pmr_valid p)" by (simp add: demo_tbls_def len_rule_def)
  then have nall: "\<not> (unat (1 :: u32) > 8 \<or> (\<forall>p\<in>set (pmr_tbl demo_tbls). pmr_valid p))" by simp
  have ann: "announced ODP_PMR_LEN \<and> \<not> (ODP_PMR_LEN = ODP_PMR_IPPROTO \<and> input_flag IF_ipv6 demo_parsed)" by (simp add: announced_iff)
  have holds: "\<exists>v. field_of ODP_PMR_LEN (\<lambda>_. 0) 0 demo_parsed = Some v \<and> of_nat v AND le_bytes (take (unat (1 :: u32)) [255]) =
      le_bytes (take (unat (1 :: u32)) [60]) AND le_bytes (take (unat (1 :: u32)) [255])"
    by (simp add: field_of_def demo_parsed_def)
  show ?thesis
    using odp_pmr_create_verify [OF demo_tbls_len, where trm = ODP_PMR_LEN and val = "[60]" and msk = "[255]" and val_sz = 1
      and m = "\<lambda>_. 0" and p = 0 and h = demo_parsed,
        unfolded case_prod_beta if_not_P [OF nall]] holds ann by (metis prod.collapse)
qed

theorem classifier_attach_witness:
  "\<exists>cls'. classifier_pmr_cos demo_tbls 1 1 demo_cls = Inr (0, cls') \<and>
    cls_rules cls' = [(Some 0, Some (Pmr 0)), (Some 1, Some (Pmr 1))]"
proof -
  have g: "get_pmr_entry demo_tbls 1 = Some 1" "get_cos_entry demo_tbls 1 = Some 1"
    by (simp_all add: get_pmr_entry_def get_cos_entry_def demo_tbls_def len_rule_def)
  have r: "cls_rules demo_cls = [(Some 0, Some (Pmr 0))]" by (simp add: cls_rules_def demo_cls_def)
  show ?thesis using classifier_attach [OF demo_cls_wf(1), of demo_tbls 1 1 0 "[]" False, THEN conjunct1]
    by (auto simp: g r attach_result_def)
qed

text \<open>
  A class linked to itself by a rule that holds is accepted, and the recursion of the match never ends.
\<close>

lemma match_pmr_cos_cycle:
  assumes "match_pmr_cos cos m p pmr h t = Some y"
  shows "\<not> (cos = Some c \<and> pmr = Some r \<and> rule_ok m p h t (c, r) \<and> refs_ok t r \<and>
    cos_linked_cos (cos_tbl t ! c) = Some c \<and> cos_pmr (cos_tbl t ! c) = Some r)"
proof -
  let ?loops = "\<lambda>cos m p pmr h t. cos = Some c \<and> pmr = Some r \<and> rule_ok m p h t (c, r) \<and> refs_ok t r \<and>
    cos_linked_cos (cos_tbl t ! c) = Some c \<and> cos_pmr (cos_tbl t ! c) = Some r"
  show ?thesis
  proof (rule match_pmr_cos.raw_induct [where P = "\<lambda>cos m p pmr h t y. \<not> ?loops cos m p pmr h t", OF _ assms])
    fix rec cos m p pmr h t y
    assume IH: "\<And>cos m p pmr h t y. rec cos m p pmr h t = Some y \<Longrightarrow> \<not> ?loops cos m p pmr h t"
      and b: "(case (cos, pmr) of
       (Some c, Some r) \<Rightarrow>
         if \<not> cos_valid (cos_tbl t ! c) then Some (None, t)
         else (case verify_pmr r m p h t of
                 (ok, t1) \<Rightarrow>
                   if ok
                   then Option.bind (rec (cos_linked_cos (cos_tbl t1 ! c)) m p (cos_pmr (cos_tbl t1 ! c)) h t1)
                     (\<lambda>(retcos, t2). Some (if retcos = None then Some c else retcos, t2))
                   else Some (None, t1))
     | _ \<Rightarrow> Some (None, t)) = Some y"
    show "\<not> ?loops cos m p pmr h t"
    proof
      assume a: "?loops cos m p pmr h t"
      then have cv: "cos_valid (cos_tbl t ! c)" by (simp add: rule_ok_def)
      obtain ok t1 where v: "verify_pmr r m p h t = (ok, t1)" by (cases "verify_pmr r m p h t")
      have sr: "same_rules t t1" and ok: "ok" using verify_pmr_eq [OF cv, of r m p h] v a by auto
      have ct: "cos_tbl t1 = cos_tbl t" using sr by (simp add: same_rules_def)
      obtain z where z: "rec (Some c) m p (Some r) h t1 = Some z" using b a cv v ok ct by (auto simp: bind_eq_Some_conv)
      have "rule_ok m p h t1 (c, r)" "refs_ok t1 r" using rule_ok_same [OF sr, of "(c, r)"] refs_ok_same [OF sr] a by simp_all
      then show False using IH [OF z] a ct by simp
    qed
  qed
qed

text \<open>Opening an interface again keeps the QoS tables of its last use.\<close>

lemma pktio_classifier_init_keeps_qos:
  "cls_l2_cos (pktio_classifier_init cls) = cls_l2_cos cls" "cls_l3_cos (pktio_classifier_init cls) = cls_l3_cos cls"
  by (simp_all add: pktio_classifier_init_def)

text \<open>
  The class of an IPv6 packet is taken from bits of the flow label: on a little-endian machine the traffic class, which is in the
  first two bytes, does not matter.
\<close>

lemma low_bytes_masked: "(ucast (a :: u8) OR push_bit 8 (ucast (b :: u8))) AND push_bit 22 c = (0 :: u32)"
  by (rule bit_word_eqI) (auto simp: bit_simps dest: bit_imp_le_length)

lemma ipv6_dscp_ignores_traffic_class:
  assumes "m' (p + 2) = m (p + 2)" "m' (p + 3) = m (p + 3)"
  shows "ODPH_IPV6HDR_DSCP (le32 m' p) = ODPH_IPV6HDR_DSCP (le32 m p)"
proof -
  have k: "push_bit 22 0x3f = (0x0fc00000 :: u32)" by simp
  have "le32 x p AND 0x0fc00000 = (push_bit 16 (ucast (x (p + 2))) OR push_bit 24 (ucast (x (p + 3)))) AND 0x0fc00000" for x
    using low_bytes_masked [of "x p" "x (p + 1)" "0x3f", unfolded k]
    by (simp only: le32_def bit.conj_disj_distrib2 or.assoc [symmetric] or.left_neutral)
  then show ?thesis using assms by (simp add: ODPH_IPV6HDR_DSCP_def)
qed

end
