(* ===== verification/Odp_Queue.thy ===== *)
theory Odp_Queue
  imports Odp_Pool_Create Odp_Fifo
begin

text \<open>
  Queues (\<open>odp_queue.c\<close>, \<open>odp_queue_internal.h\<close>): the queue entry and what its four routines do to the linked list of
  buffer headers and to the status between taking and releasing the lock of the entry.
\<close>

section \<open>Types\<close>

datatype queue_type = ODP_QUEUE_TYPE_SCHED | ODP_QUEUE_TYPE_POLL | ODP_QUEUE_TYPE_PKTIN | ODP_QUEUE_TYPE_PKTOUT

datatype sched_sync = ODP_SCHED_SYNC_NONE | ODP_SCHED_SYNC_ATOMIC | ODP_SCHED_SYNC_ORDERED

text \<open>The status constants are numbered, and the code compares them.\<close>

datatype queue_status =
  QUEUE_STATUS_FREE | QUEUE_STATUS_DESTROYED | QUEUE_STATUS_READY | QUEUE_STATUS_NOTSCHED | QUEUE_STATUS_SCHED

primrec status_num :: "queue_status \<Rightarrow> nat" where
  "status_num QUEUE_STATUS_FREE = 0"
| "status_num QUEUE_STATUS_DESTROYED = 1"
| "status_num QUEUE_STATUS_READY = 2"
| "status_num QUEUE_STATUS_NOTSCHED = 3"
| "status_num QUEUE_STATUS_SCHED = 4"

instantiation queue_status :: linorder
begin

definition less_eq_queue_status :: "queue_status \<Rightarrow> queue_status \<Rightarrow> bool" where
  "less_eq_queue_status s t \<longleftrightarrow> status_num s \<le> status_num t"

definition less_queue_status :: "queue_status \<Rightarrow> queue_status \<Rightarrow> bool" where
  "less_queue_status s t \<longleftrightarrow> status_num s < status_num t"

instance
proof
  fix s t :: queue_status
  show "s \<le> t \<Longrightarrow> t \<le> s \<Longrightarrow> s = t"
    by (cases s; cases t; simp add: less_eq_queue_status_def)
qed (auto simp: less_eq_queue_status_def less_queue_status_def)

end

lemma less_READY [simp]: "s < QUEUE_STATUS_READY \<longleftrightarrow> s = QUEUE_STATUS_FREE \<or> s = QUEUE_STATUS_DESTROYED"
  by (cases s) (simp_all add: less_queue_status_def)

record queue_param =
  qp_prio :: int
  qp_sync :: sched_sync
  qp_group :: int
  qp_context :: addr

text \<open>The four function pointers of an entry are always set together.\<close>

datatype queue_funcs = Queue_Funcs | Pktin_Funcs | Pktout_Funcs

record queue_entry =
  q_head :: addr
  q_tail :: addr
  q_status :: queue_status
  q_funcs :: queue_funcs
  q_handle :: u32
  q_pri_queue :: u32
  q_cmd_ev :: u32
  q_type :: queue_type
  q_param :: queue_param
  q_pktin :: u32
  q_pktout :: u32
  q_name :: string

definition ODP_QUEUE_INVALID :: u32 where "ODP_QUEUE_INVALID = 0"
definition ODP_EVENT_INVALID :: u32 where "ODP_EVENT_INVALID = 0xffffffff"
definition ODP_QUEUE_NAME_LEN :: nat where "ODP_QUEUE_NAME_LEN = 32"
definition QUEUE_MULTI_MAX :: int where "QUEUE_MULTI_MAX = 8"
definition ODP_CONFIG_SCHED_PRIOS :: nat where "ODP_CONFIG_SCHED_PRIOS = 8"
definition ODP_SCHED_PRIO_DEFAULT :: int where "ODP_SCHED_PRIO_DEFAULT = int ODP_CONFIG_SCHED_PRIOS div 2"
definition ODP_SCHED_PRIO_LOWEST :: int where "ODP_SCHED_PRIO_LOWEST = int ODP_CONFIG_SCHED_PRIOS - 1"
definition ODP_SCHED_GROUP_ALL :: int where "ODP_SCHED_GROUP_ALL = 0"

lemmas queue_const_defs [simp] =
  ODP_QUEUE_INVALID_def ODP_EVENT_INVALID_def ODP_QUEUE_NAME_LEN_def QUEUE_MULTI_MAX_def ODP_CONFIG_SCHED_PRIOS_def
  ODP_SCHED_PRIO_DEFAULT_def ODP_SCHED_PRIO_LOWEST_def ODP_SCHED_GROUP_ALL_def

definition queue_to_id :: "u32 \<Rightarrow> u32" where "queue_to_id handle = handle - 1"

definition queue_from_id :: "u32 \<Rightarrow> u32" where "queue_from_id queue_id = queue_id + 1"

definition queue_is_atomic :: "queue_entry \<Rightarrow> bool" where
  "queue_is_atomic qe \<longleftrightarrow> qp_sync (q_param qe) = ODP_SCHED_SYNC_ATOMIC"

section \<open>Initialisation of an entry\<close>

text \<open>\<open>odp_queue_param_init\<close> and the defaults; a zeroed parameter block is the highest priority and no synchronisation.\<close>

definition odp_queue_param_init :: queue_param where
  "odp_queue_param_init = \<lparr>qp_prio = 0, qp_sync = ODP_SCHED_SYNC_NONE, qp_group = 0, qp_context = NULL\<rparr>"

definition default_queue_param :: queue_param where
  "default_queue_param = odp_queue_param_init
    \<lparr>qp_prio := ODP_SCHED_PRIO_DEFAULT, qp_sync := ODP_SCHED_SYNC_ATOMIC, qp_group := ODP_SCHED_GROUP_ALL\<rparr>"

definition queue_init :: "queue_entry \<Rightarrow> string \<Rightarrow> queue_type \<Rightarrow> queue_param option \<Rightarrow> queue_entry" where
  "queue_init queue name type param = queue
    \<lparr>q_name := take (ODP_QUEUE_NAME_LEN - 1) name,
     q_type := type,
     q_param := (case param of Some p \<Rightarrow> p | None \<Rightarrow> default_queue_param),
     q_funcs := (case type of ODP_QUEUE_TYPE_PKTIN \<Rightarrow> Pktin_Funcs | ODP_QUEUE_TYPE_PKTOUT \<Rightarrow> Pktout_Funcs | _ \<Rightarrow> Queue_Funcs),
     q_head := NULL, q_tail := NULL,
     q_pri_queue := ODP_QUEUE_INVALID, q_cmd_ev := ODP_EVENT_INVALID\<rparr>"

section \<open>The critical sections\<close>

definition set_next :: "addr \<Rightarrow> addr \<Rightarrow> odp_heap \<Rightarrow> odp_heap" where
  "set_next a n hp = upd_buf a (\<lambda>b. b\<lparr>bh_next := n\<rparr>) hp"

text \<open>
  The result of an enqueue: \<open>None\<close> is the bad status; the boolean is \<open>sched\<close>, whether the queue has to be given to the scheduler.
\<close>

definition sched_status :: "queue_entry \<Rightarrow> bool \<times> queue_entry" where
  "sched_status q =
    (if q_status q = QUEUE_STATUS_NOTSCHED then (True, q\<lparr>q_status := QUEUE_STATUS_SCHED\<rparr>) else (False, q))"

definition enq_locked :: "queue_entry \<Rightarrow> odp_heap \<Rightarrow> addr \<Rightarrow> (bool \<times> queue_entry \<times> odp_heap) option" where
  "enq_locked q hp bh =
    (if q_status q < QUEUE_STATUS_READY then None
     else
       let (q1, hp1) =
         (if q_head q = NULL
          then (q\<lparr>q_head := bh, q_tail := bh\<rparr>, set_next bh NULL hp)
          else (q\<lparr>q_tail := bh\<rparr>, set_next bh NULL (set_next (q_tail q) bh hp)));
         (sch, q2) = sched_status q1
       in Some (sch, q2, hp1))"

text \<open>The loop that chains the headers before the lock is taken; with \<open>num \<le> 0\<close> the code then uses element \<open>num - 1\<close>.\<close>

fun link_chain :: "addr list \<Rightarrow> odp_heap \<Rightarrow> odp_heap" where
  "link_chain (a # b # as) hp = link_chain (b # as) (set_next a b hp)"
| "link_chain [a] hp = set_next a NULL hp"
| "link_chain [] hp = hp"

definition enq_multi_chain :: "odp_heap \<Rightarrow> addr list \<Rightarrow> int \<Rightarrow> c_error + odp_heap" where
  "enq_multi_chain hp bhs num =
    (if num \<le> 0 \<or> int (length bhs) < num then Inl Out_Of_Bounds
     else Inr (link_chain (take (nat num) bhs) hp))"

definition enq_multi_locked ::
    "queue_entry \<Rightarrow> odp_heap \<Rightarrow> addr list \<Rightarrow> int \<Rightarrow> (bool \<times> queue_entry \<times> odp_heap) option" where
  "enq_multi_locked q hp bhs num =
    (if q_status q < QUEUE_STATUS_READY then None
     else
       let (q1, hp1) =
         (if q_head q = NULL then (q\<lparr>q_head := bhs ! 0\<rparr>, hp)
          else (q, set_next (q_tail q) (bhs ! 0) hp));
         q2 = q1\<lparr>q_tail := bhs ! nat (num - 1)\<rparr>;
         (sch, q3) = sched_status q2
       in Some (sch, q3, hp1))"

definition unsched :: "queue_entry \<Rightarrow> queue_entry" where
  "unsched q = (if q_status q = QUEUE_STATUS_SCHED then q\<lparr>q_status := QUEUE_STATUS_NOTSCHED\<rparr> else q)"

text \<open>\<open>queue_deq\<close> takes and releases the lock itself; \<open>NULL\<close> is its result on an empty queue.\<close>

definition queue_deq :: "queue_entry \<Rightarrow> odp_heap \<Rightarrow> addr \<times> queue_entry \<times> odp_heap" where
  "queue_deq q hp =
    (if q_head q = NULL then (NULL, unsched q, hp)
     else
       let bh = q_head q;
           q1 = q\<lparr>q_head := hdr_next hp bh\<rparr>;
           hp1 = set_next bh NULL hp;
           q2 = (if q_head q1 = NULL then q1\<lparr>q_tail := NULL\<rparr> else q1)
       in (bh, q2, hp1))"

text \<open>The loop over at most \<open>num\<close> headers; \<open>None\<close> of the routine is the result -1.\<close>

fun deq_loop :: "nat \<Rightarrow> addr \<Rightarrow> odp_heap \<Rightarrow> addr list \<times> addr \<times> odp_heap" where
  "deq_loop 0 hdr hp = ([], hdr, hp)"
| "deq_loop (Suc n) hdr hp =
    (if hdr = NULL then ([], hdr, hp)
     else let (bufs, hdr1, hp1) = deq_loop n (hdr_next hp hdr) (set_next hdr NULL hp) in (hdr # bufs, hdr1, hp1))"

definition queue_deq_multi ::
    "queue_entry \<Rightarrow> odp_heap \<Rightarrow> int \<Rightarrow> addr list option \<times> queue_entry \<times> odp_heap" where
  "queue_deq_multi q hp num =
    (if q_status q < QUEUE_STATUS_READY then (None, q, hp)
     else if q_head q = NULL then (Some [], unsched q, hp)
     else
       let (bufs, hdr, hp1) = deq_loop (nat num) (q_head q) hp;
           q1 = q\<lparr>q_head := hdr\<rparr>;
           q2 = (if hdr = NULL then q1\<lparr>q_tail := NULL\<rparr> else q1)
       in (Some bufs, q2, hp1))"

section \<open>The list of a queue\<close>

lemma hdr_next_set_next [simp]: "hdr_next (set_next a n hp) = (hdr_next hp)(a := n)"
  by (rule ext) (simp add: set_next_def)

lemma bhdr_set_next [simp]: "bh_next (bhdr (set_next a n hp) a) = n" "x \<noteq> a \<Longrightarrow> bhdr (set_next a n hp) x = bhdr hp x"
  by (simp_all add: set_next_def)

lemma set_next_frame [simp]: "blk_next (set_next a n hp) = blk_next hp" "mem (set_next a n hp) = mem hp"
  by (simp_all add: set_next_def)

text \<open>Two heaps that differ in next fields only, and there only on \<open>A\<close>.\<close>

definition next_only :: "addr set \<Rightarrow> odp_heap \<Rightarrow> odp_heap \<Rightarrow> bool" where
  "next_only A hp hp' \<longleftrightarrow> blk_next hp' = blk_next hp \<and> mem hp' = mem hp \<and>
    (\<forall>a. buf_hdr_map (\<lambda>b. b\<lparr>bh_next := NULL\<rparr>) (hdrs hp' a) = buf_hdr_map (\<lambda>b. b\<lparr>bh_next := NULL\<rparr>) (hdrs hp a)) \<and>
    (\<forall>a. a \<notin> A \<longrightarrow> hdrs hp' a = hdrs hp a)"

lemma next_only_refl [simp]: "next_only A hp hp"
  by (simp add: next_only_def)

lemma next_only_set_next: "a \<in> A \<Longrightarrow> next_only A hp (set_next a n hp)"
  by (auto simp: next_only_def set_next_def upd_buf_def upd_hdr_def)

lemma next_only_trans: "next_only A hp hp1 \<Longrightarrow> next_only A hp1 hp2 \<Longrightarrow> next_only A hp hp2"
  by (simp add: next_only_def)

lemma next_only_mono: "next_only A hp hp' \<Longrightarrow> A \<subseteq> B \<Longrightarrow> next_only B hp hp'"
  by (auto simp: next_only_def)

lemma next_onlyD: "next_only A hp hp' \<Longrightarrow> a \<notin> A \<Longrightarrow> hdr_next hp' a = hdr_next hp a"
  by (simp add: next_only_def)

section \<open>Joining and splitting linked lists\<close>

lemma linked_join:
  assumes "linked nxt p xs" "xs \<noteq> []" "linked nxt (hd ys) ys" "ys \<noteq> []" "set xs \<inter> set ys = {}"
  shows "linked (nxt(last xs := hd ys)) p (xs @ ys)"
  using assms
proof (induction xs arbitrary: p)
  case (Cons x xs)
  show ?case
  proof (cases "xs = []")
    case True
    moreover have "linked (nxt(x := hd ys)) (hd ys) ys" using Cons.prems by (subst linked_fun_upd) auto
    ultimately show ?thesis using Cons.prems by (simp del: fun_upd_apply) simp
  next
    case False
    have "x \<noteq> last xs" using linked_distinct [OF Cons.prems(1)] False by auto
    then show ?thesis using False Cons by auto
  qed
qed simp

lemma link_chain_ok:
  assumes "distinct as" "NULL \<notin> set as"
  shows "(as \<noteq> [] \<longrightarrow> linked (hdr_next (link_chain as hp)) (hd as) as) \<and> next_only (set as) hp (link_chain as hp)"
  using assms
proof (induction as hp rule: link_chain.induct)
  case (1 a b as hp)
  let ?hp = "link_chain (b # as) (set_next a b hp)"
  have ih: "linked (hdr_next ?hp) b (b # as)" "next_only (set (b # as)) (set_next a b hp) ?hp" using 1 by auto
  have "hdr_next ?hp a = b" using next_onlyD [OF ih(2), of a] 1(2) by simp
  then have "linked (hdr_next (link_chain (a # b # as) hp)) a (a # b # as)" using ih(1) 1(3) by simp
  moreover have "next_only (set (a # b # as)) hp (link_chain (a # b # as) hp)"
    unfolding link_chain.simps by (rule next_only_trans [OF next_only_set_next next_only_mono [OF ih(2)]]) auto
  ultimately show ?case by simp
next
  case (2 a hp)
  then show ?case by (simp add: next_only_set_next)
qed simp_all

lemma deq_loop_ok:
  assumes "linked (hdr_next hp) p xs"
  shows "\<exists>hp'. deq_loop n p hp = (take n xs, (if n < length xs then xs ! n else NULL), hp') \<and>
    linked (hdr_next hp') (if n < length xs then xs ! n else NULL) (drop n xs) \<and>
    next_only (set (take n xs)) hp hp'"
  using assms
proof (induction n arbitrary: p xs hp)
  case 0
  then show ?case by (cases xs) auto
next
  case (Suc n)
  show ?case
  proof (cases xs)
    case Nil
    then show ?thesis using Suc.prems by simp
  next
    case (Cons x ys)
    have x: "p = x" "x \<noteq> NULL" "x \<notin> set ys" using Suc.prems linked_distinct [OF Suc.prems] Cons by auto
    have "linked (hdr_next (set_next x NULL hp)) (hdr_next hp x) ys"
      unfolding hdr_next_set_next using Suc.prems x(3) Cons by (subst linked_fun_upd) auto
    from Suc.IH [OF this] obtain hp' where
      hp': "deq_loop n (hdr_next hp x) (set_next x NULL hp) = (take n ys, (if n < length ys then ys ! n else NULL), hp')"
      "linked (hdr_next hp') (if n < length ys then ys ! n else NULL) (drop n ys)"
      "next_only (set (take n ys)) (set_next x NULL hp) hp'" by blast
    have "next_only (set (take (Suc n) xs)) hp hp'"
      by (rule next_only_trans [OF next_only_set_next next_only_mono [OF hp'(3)]]) (auto simp: Cons)
    then show ?thesis using hp' x Cons by auto
  qed
qed

section \<open>Queues as lists of headers\<close>

definition queue_rep :: "queue_entry \<Rightarrow> odp_heap \<Rightarrow> addr list \<Rightarrow> bool" where
  "queue_rep q hp xs \<longleftrightarrow> linked (hdr_next hp) (q_head q) xs \<and> q_tail q = (if xs = [] then NULL else last xs)"

lemma queue_rep_unique: "queue_rep q hp xs \<Longrightarrow> queue_rep q hp ys \<Longrightarrow> xs = ys"
  by (auto simp: queue_rep_def intro: linked_unique)

lemma queue_rep_empty: "queue_rep q hp xs \<Longrightarrow> q_head q = NULL \<longleftrightarrow> xs = []"
  by (cases xs) (auto simp: queue_rep_def)

lemma queue_rep_status [simp]: "queue_rep (q\<lparr>q_status := s\<rparr>) hp xs = queue_rep q hp xs"
  by (simp add: queue_rep_def)

text \<open>What happens to other memory leaves a queue alone.\<close>

lemma queue_rep_frame: "queue_rep q hp xs \<Longrightarrow> next_only A hp hp' \<Longrightarrow> set xs \<inter> A = {} \<Longrightarrow> queue_rep q hp' xs"
  unfolding queue_rep_def next_only_def by (auto elim!: iffD1 [OF linked_cong_on, rotated])

lemma queue_rep_nonnull: "queue_rep q hp xs \<Longrightarrow> NULL \<notin> set xs \<and> distinct xs"
  by (auto simp: queue_rep_def dest: linked_nonnull linked_distinct)

text \<open>The effect of an enqueue on the status.\<close>

definition enq_status :: "queue_status \<Rightarrow> queue_status" where
  "enq_status s = (if s = QUEUE_STATUS_NOTSCHED then QUEUE_STATUS_SCHED else s)"

definition live_queue :: "queue_entry \<Rightarrow> bool" where
  "live_queue q \<longleftrightarrow> \<not> q_status q < QUEUE_STATUS_READY"

text \<open>Everything of an entry but the list and the status.\<close>

definition queue_same :: "queue_entry \<Rightarrow> queue_entry \<Rightarrow> bool" where
  "queue_same q q' \<longleftrightarrow> q' = q\<lparr>q_head := q_head q', q_tail := q_tail q', q_status := q_status q'\<rparr>"

lemma queue_same_refl [simp]: "queue_same q q"
  by (simp add: queue_same_def)

lemma sched_status_eq: "sched_status q = (q_status q = QUEUE_STATUS_NOTSCHED, q\<lparr>q_status := enq_status (q_status q)\<rparr>)"
  by (simp add: sched_status_def enq_status_def)

lemma enq_multi_ok:
  assumes rep: "queue_rep q hp xs" and live: "live_queue q"
    and as: "as \<noteq> []" "linked (hdr_next hp) (hd as) as" "set as \<inter> set xs = {}" "as = take (nat num) bhs" "0 < num" "num \<le> int (length bhs)"
  shows "\<exists>q' hp'. enq_multi_locked q hp bhs num = Some (q_status q = QUEUE_STATUS_NOTSCHED, q', hp') \<and>
    queue_rep q' hp' (xs @ as) \<and> q_status q' = enq_status (q_status q) \<and> queue_same q q' \<and> next_only (set xs) hp hp'"
proof -
  have hd: "hd as = bhs ! 0" and last: "last as = bhs ! nat (num - 1)"
    using as(1,4-6) nat_diff_distrib [of 1 num] by (auto simp: hd_conv_nth last_conv_nth min_def nat_less_iff le_nat_iff)
  show ?thesis
  proof (cases "xs = []")
    case True
    then have "q_head q = NULL" using rep by (simp add: queue_rep_def)
    then show ?thesis
      using True live as(1,2) hd last rep
      by (auto simp: enq_multi_locked_def live_queue_def sched_status_eq queue_rep_def queue_same_def enq_status_def)
  next
    case False
    then have nn: "q_head q \<noteq> NULL" and tl: "q_tail q = last xs" using queue_rep_empty [OF rep] rep by (auto simp: queue_rep_def)
    have l: "linked ((hdr_next hp)(last xs := hd as)) (q_head q) (xs @ as)"
      using linked_join [OF _ False as(2,1)] rep as(3) by (auto simp: queue_rep_def)
    have "next_only (set xs) hp (set_next (last xs) (bhs ! 0) hp)" using False by (intro next_only_set_next) simp
    then show ?thesis
      using False live nn tl l as(1) hd last
      by (auto simp: enq_multi_locked_def live_queue_def sched_status_eq queue_rep_def queue_same_def enq_status_def)
  qed
qed

text \<open>One header: the single enqueue is the multiple one.\<close>

lemma enq_locked_multi:
  assumes "a \<noteq> q_tail q \<or> q_head q = NULL"
  shows "enq_locked q hp a = enq_multi_locked q (link_chain [a] hp) [a] 1"
proof -
  have "set_next a n (set_next b m hp) = set_next b m (set_next a n hp)" if "a \<noteq> b" for b n m
    using that by (auto simp: set_next_def upd_buf_def upd_hdr_def fun_upd_twist)
  then show ?thesis using assms by (auto simp: enq_locked_def enq_multi_locked_def sched_status_eq)
qed

lemma deq_multi_ok:
  assumes rep: "queue_rep q hp xs" and live: "live_queue q"
  shows "\<exists>q' hp'. queue_deq_multi q hp num = (Some (take (nat num) xs), q', hp') \<and> queue_rep q' hp' (drop (nat num) xs) \<and>
    q_status q' = (if xs = [] \<and> q_status q = QUEUE_STATUS_SCHED then QUEUE_STATUS_NOTSCHED else q_status q) \<and>
    queue_same q q' \<and> next_only (set (take (nat num) xs)) hp hp'"
proof (cases "xs = []")
  case True
  then have "q_head q = NULL" using rep by (simp add: queue_rep_def)
  then show ?thesis using True live rep by (auto simp: queue_deq_multi_def live_queue_def unsched_def queue_same_def)
next
  case False
  let ?n = "nat num"
  have nn: "q_head q \<noteq> NULL" using False queue_rep_empty [OF rep] by simp
  from rep obtain hp' where
    hp': "deq_loop ?n (q_head q) hp = (take ?n xs, (if ?n < length xs then xs ! ?n else NULL), hp')"
    "linked (hdr_next hp') (if ?n < length xs then xs ! ?n else NULL) (drop ?n xs)" "next_only (set (take ?n xs)) hp hp'"
    using deq_loop_ok [of hp "q_head q" xs ?n] by (auto simp: queue_rep_def)
  have xn: "?n < length xs \<Longrightarrow> xs ! ?n \<noteq> NULL" using queue_rep_nonnull [OF rep] nth_mem by metis
  show ?thesis
    using False live nn hp' xn rep
    by (auto simp: queue_deq_multi_def live_queue_def queue_rep_def queue_same_def)
qed

text \<open>A single dequeue takes one header, also from an entry that is not live, and never fails.\<close>

lemma deq_ok:
  assumes rep: "queue_rep q hp xs"
  shows "\<exists>q' hp'. queue_deq q hp = (if xs = [] then NULL else hd xs, q', hp') \<and> queue_rep q' hp' (tl xs) \<and>
    q_status q' = (if xs = [] \<and> q_status q = QUEUE_STATUS_SCHED then QUEUE_STATUS_NOTSCHED else q_status q) \<and>
    queue_same q q' \<and> next_only (set (take 1 xs)) hp hp'"
proof (cases xs)
  case Nil
  then show ?thesis using rep by (auto simp: queue_deq_def queue_rep_def unsched_def queue_same_def)
next
  case (Cons x ys)
  have x: "q_head q = x" "x \<noteq> NULL" "linked (hdr_next hp) (hdr_next hp x) ys" "x \<notin> set ys"
    using rep queue_rep_nonnull [OF rep] Cons by (auto simp: queue_rep_def)
  have l: "linked ((hdr_next hp)(x := NULL)) (hdr_next hp x) ys" using x(3,4) by (subst linked_fun_upd)
  have "hdr_next hp x = NULL \<longleftrightarrow> ys = []" using x(3) by (cases ys) auto
  then show ?thesis
    using Cons x rep l
    by (auto simp: queue_deq_def queue_rep_def queue_same_def next_only_set_next Let_def)
qed

section \<open>A queue is a FIFO\<close>

text \<open>The operations of the FIFO contract on an entry and the heap, and the list it stands for.\<close>

definition queue_put :: "addr list \<Rightarrow> queue_entry \<times> odp_heap \<Rightarrow> nat \<times> queue_entry \<times> odp_heap" where
  "queue_put as s =
    (case s of (q, hp) \<Rightarrow>
       (case enq_multi_chain hp as (int (length as)) of
          Inl _ \<Rightarrow> (0, s)
        | Inr hp1 \<Rightarrow>
            (case enq_multi_locked q hp1 as (int (length as)) of
               None \<Rightarrow> (0, q, hp1)
             | Some (_, q', hp') \<Rightarrow> (length as, q', hp'))))"

definition queue_get :: "nat \<Rightarrow> queue_entry \<times> odp_heap \<Rightarrow> addr list \<times> queue_entry \<times> odp_heap" where
  "queue_get n s =
    (case s of (q, hp) \<Rightarrow>
       (case queue_deq_multi q hp (int n) of
          (None, q', hp') \<Rightarrow> ([], q', hp')
        | (Some ys, q', hp') \<Rightarrow> (ys, q', hp')))"

definition queue_list :: "queue_entry \<times> odp_heap \<Rightarrow> addr list" where
  "queue_list s = (case s of (q, hp) \<Rightarrow> (THE xs. queue_rep q hp xs))"

definition queue_ok :: "queue_entry \<times> odp_heap \<Rightarrow> bool" where
  "queue_ok s \<longleftrightarrow> (case s of (q, hp) \<Rightarrow> \<exists>xs. queue_rep q hp xs)"

definition fresh_args :: "addr list \<Rightarrow> queue_entry \<times> odp_heap \<Rightarrow> bool" where
  "fresh_args as s \<longleftrightarrow> as \<noteq> [] \<and> distinct as \<and> NULL \<notin> set as \<and> set as \<inter> set (queue_list s) = {}"

lemma queue_list_eq [simp]: "queue_rep q hp xs \<Longrightarrow> queue_list (q, hp) = xs"
  using queue_rep_unique by (auto simp: queue_list_def)

lemma queue_put_spec:
  assumes "queue_ok s" "fresh_args as s" "queue_put as s = (k, s')"
  shows "queue_ok s' \<and> k \<le> length as \<and> queue_list s' = queue_list s @ take k as"
proof -
  obtain q hp where s: "s = (q, hp)" by (cases s)
  obtain xs where rep: "queue_rep q hp xs" using assms(1) by (auto simp: queue_ok_def s)
  have as: "as \<noteq> []" "distinct as" "NULL \<notin> set as" "set as \<inter> set xs = {}"
    using assms(2) rep by (simp_all add: fresh_args_def s)
  let ?hp = "link_chain as hp"
  have chain: "enq_multi_chain hp as (int (length as)) = Inr ?hp" using as(1) by (simp add: enq_multi_chain_def)
  have lc: "linked (hdr_next ?hp) (hd as) as" "next_only (set as) hp ?hp" using link_chain_ok [OF as(2,3)] as(1) by auto
  have rep1: "queue_rep q ?hp xs" using queue_rep_frame [OF rep lc(2)] as(4) by auto
  show ?thesis
  proof (cases "live_queue q")
    case False
    then have "queue_put as s = (0, q, ?hp)" by (auto simp: queue_put_def s chain enq_multi_locked_def live_queue_def)
    then show ?thesis using assms(3) rep rep1 by (auto simp: s queue_ok_def)
  next
    case True
    from enq_multi_ok [OF rep1 True as(1) lc(1) as(4), of "int (length as)" as] as(1) obtain q' hp' where
      "enq_multi_locked q ?hp as (int (length as)) = Some (q_status q = QUEUE_STATUS_NOTSCHED, q', hp')"
      "queue_rep q' hp' (xs @ as)" by auto
    then show ?thesis using assms(3) rep by (auto simp: s queue_ok_def queue_put_def chain)
  qed
qed

lemma queue_get_spec:
  assumes "queue_ok s" "queue_get n s = (ys, s')"
  shows "queue_ok s' \<and> length ys \<le> n \<and> queue_list s = ys @ queue_list s'"
proof -
  obtain q hp where s: "s = (q, hp)" by (cases s)
  obtain xs where rep: "queue_rep q hp xs" using assms(1) by (auto simp: queue_ok_def s)
  show ?thesis
  proof (cases "live_queue q")
    case False
    then have "queue_get n s = ([], s)" by (auto simp: queue_get_def s queue_deq_multi_def live_queue_def)
    then show ?thesis using assms by auto
  next
    case True
    from deq_multi_ok [OF rep True, of "int n"] obtain q' hp' where
      "queue_deq_multi q hp (int n) = (Some (take n xs), q', hp')" "queue_rep q' hp' (drop n xs)" by auto
    then show ?thesis using assms(2) rep by (auto simp: s queue_ok_def queue_get_def)
  qed
qed

interpretation queue: fifo queue_ok queue_list queue_put queue_get fresh_args
  by unfold_locales (use queue_put_spec queue_get_spec in blast)+

text \<open>
  C19: First in, first out. Whatever headers the enqueues and dequeues of a queue move through its linked list, and whatever the
  status of the queue makes them refuse, what was in the queue followed by what was accepted is what was delivered followed
  by what is still in the queue. Callers only enqueue headers that are not in the queue.
\<close>

theorem queue_fifo:
  assumes "queue_ok s" "fifo_ok fresh_args queue_put queue_get ops s" "fifo_run queue_put queue_get ops s = (ins, outs, s')"
  shows "queue_ok s' \<and> queue_list s @ ins = outs @ queue_list s'"
  using assms by (rule queue.run_fifo)

definition demo_queue :: queue_entry where
  "demo_queue = \<lparr>q_head = 0, q_tail = 0, q_status = QUEUE_STATUS_NOTSCHED, q_funcs = Queue_Funcs, q_handle = 1, q_pri_queue = 0,
    q_cmd_ev = 0, q_type = ODP_QUEUE_TYPE_SCHED, q_param = default_queue_param, q_pktin = 0, q_pktout = 0, q_name = []\<rparr>"

definition demo_heap :: odp_heap where
  "demo_heap = \<lparr>hdrs = (\<lambda>_. demo_hdr), blk_next = (\<lambda>_. NULL), mem = (\<lambda>_. 0)\<rparr>"

lemma demo_queue_rep: "queue_rep demo_queue demo_heap []"
  by (simp add: queue_rep_def demo_queue_def)

theorem queue_fifo_witness:
  "case fifo_run queue_put queue_get [Enq [64, 128], Deq 1] (demo_queue, demo_heap) of (ins, outs, s') \<Rightarrow>
     queue_ok s' \<and> ins = outs @ queue_list s'"
proof -
  have ok: "queue_ok (demo_queue, demo_heap)" using demo_queue_rep by (auto simp: queue_ok_def)
  have "fifo_ok fresh_args queue_put queue_get [Enq [64, 128], Deq 1] (demo_queue, demo_heap)"
    by (simp add: fresh_args_def queue_list_eq [OF demo_queue_rep])
  from queue_fifo [OF ok this] show ?thesis by (simp add: queue_list_eq [OF demo_queue_rep] split: prod.split)
qed

end
