(* ===== verification/Odp_System.thy ===== *)
theory Odp_System
  imports Odp_Queue Odp_Classification
begin

text \<open>
  The queue table, the scheduler's data and the packet interfaces in one state, because they call each other: an enqueue to a
  queue that is not scheduled enqueues the queue's command to a priority queue, and an enqueue to an output queue sends
  through an interface, which for the loopback device is an enqueue again (\<open>odp_queue.c\<close>, \<open>odp_schedule.c\<close>,
  \<open>odp_packet_io.c\<close>, \<open>pktio/loop.c\<close>).
\<close>

section \<open>State\<close>

definition QUEUES_PER_PRIO :: nat where "QUEUES_PER_PRIO = 4"
definition MAX_DEQ :: nat where "MAX_DEQ = 4"
definition ODP_CONFIG_PKTIO_ENTRIES :: nat where "ODP_CONFIG_PKTIO_ENTRIES = 64"
definition ODP_PKTIO_INVALID :: u32 where "ODP_PKTIO_INVALID = 0"
definition IF_NAMESIZE :: nat where "IF_NAMESIZE = 16"

lemmas system_const_defs [simp] =
  QUEUES_PER_PRIO_def MAX_DEQ_def ODP_CONFIG_PKTIO_ENTRIES_def ODP_PKTIO_INVALID_def IF_NAMESIZE_def

text \<open>The scheduler's tables, indexed by priority and sub queue.\<close>

record sched_t =
  sc_pri_queue :: "u32 list list"
  sc_pri_mask :: "u8 list"
  sc_pool :: u32
  sc_pri_count :: "u32 list list"

text \<open>A command points to a queue entry or to an interface; both are named by their index in the table.\<close>

datatype sched_cmd = Cmd_Dequeue nat | Cmd_Poll_Pktin (cmd_pktio: u32) (cmd_pe: nat) (cmd_prio: int)

record sched_local_t =
  sl_pri_queue :: u32
  sl_cmd_ev :: u32
  sl_buf_hdr :: "addr list"
  sl_qe :: "nat option"
  sl_num :: nat
  sl_index :: nat
  sl_pause :: bool

text \<open>The operations table of an interface: none yet, the loopback device, or one of the two socket devices.\<close>

datatype pktio_ops = No_Ops | Loop_Ops | Sock_Ops

datatype pktio_state = STATE_START | STATE_STOP

record pktio_entry =
  pe_ops :: pktio_ops
  pe_taken :: bool
  pe_cls_enabled :: bool
  pe_handle :: u32
  pe_inq_default :: u32
  pe_outq_default :: u32
  pe_loopq :: u32
  pe_promisc :: bool
  pe_state :: pktio_state
  pe_name :: string
  pe_cls :: classifier

record odp_sys =
  base :: odp_state
  queue_tbl :: "queue_entry list"
  sched :: sched_t
  sched_cmds :: "addr \<Rightarrow> sched_cmd"
  sched_locals :: "nat \<Rightarrow> sched_local_t"
  pktio_tbl :: "pktio_entry list"
  cls :: cls_tbls

text \<open>
  The socket devices reach the kernel and are a parameter: what a send or a receive of an interface returns and does to
  the pools, which are all it can change.
\<close>

record sock_dev =
  dev_send :: "nat \<Rightarrow> u32 list \<Rightarrow> odp_state \<Rightarrow> int \<times> odp_state"
  dev_recv :: "nat \<Rightarrow> nat \<Rightarrow> odp_state \<Rightarrow> (int \<times> u32 list) \<times> odp_state"

abbreviation sys_heap :: "odp_sys \<Rightarrow> odp_heap" where
  "sys_heap sys \<equiv> heap (base sys)"

definition set_heap :: "odp_heap \<Rightarrow> odp_sys \<Rightarrow> odp_sys" where
  "set_heap hp sys = sys\<lparr>base := (base sys)\<lparr>heap := hp\<rparr>\<rparr>"

definition put_queue :: "nat \<Rightarrow> queue_entry \<Rightarrow> odp_heap \<Rightarrow> odp_sys \<Rightarrow> odp_sys" where
  "put_queue i q hp sys = set_heap hp (sys\<lparr>queue_tbl := (queue_tbl sys)[i := q]\<rparr>)"

abbreviation qentry :: "odp_sys \<Rightarrow> nat \<Rightarrow> queue_entry" where
  "qentry sys i \<equiv> queue_tbl sys ! i"

definition queue_to_qentry :: "odp_sys \<Rightarrow> u32 \<Rightarrow> c_error + nat" where
  "queue_to_qentry sys handle =
    (let i = unat (queue_to_id handle) in if i < length (queue_tbl sys) then Inr i else Inl Out_Of_Bounds)"

definition pktio_to_id :: "u32 \<Rightarrow> nat" where "pktio_to_id pktio = unat (pktio - 1)"

text \<open>\<open>None\<close> is the \<open>NULL\<close> result.\<close>

definition get_pktio_entry :: "odp_sys \<Rightarrow> u32 \<Rightarrow> nat option" where
  "get_pktio_entry sys pktio =
    (if pktio = ODP_PKTIO_INVALID \<or> unat pktio > ODP_CONFIG_PKTIO_ENTRIES then None else Some (pktio_to_id pktio))"

section \<open>Enqueue\<close>

lemma and_then_cong [fundef_cong]: "r = r' \<Longrightarrow> (\<And>x. r' = Inr x \<Longrightarrow> f x = g x) \<Longrightarrow> and_then r f = and_then r' g"
  by (cases r') simp_all

text \<open>The headers of a table of handles.\<close>

fun bufs_to_hdrs :: "odp_state \<Rightarrow> u32 list \<Rightarrow> c_error + addr list" where
  "bufs_to_hdrs st [] = Inr []"
| "bufs_to_hdrs st (b # bs) =
    and_then (odp_buf_to_hdr st b) (\<lambda>a. and_then (bufs_to_hdrs st bs) (\<lambda>as. Inr (a # as)))"

definition notsched_count :: "odp_sys \<Rightarrow> nat" where
  "notsched_count sys = length (filter (\<lambda>q. q_status q = QUEUE_STATUS_NOTSCHED) (queue_tbl sys))"

lemma filter_update_less:
  "i < length xs \<Longrightarrow> P (xs ! i) \<Longrightarrow> \<not> P y \<Longrightarrow> length (filter P (xs[i := y])) < length (filter P xs)"
proof (induction xs arbitrary: i)
  case (Cons x xs)
  then show ?case by (cases i) auto
qed simp

lemma notsched_count_put:
  "i < length (queue_tbl sys) \<Longrightarrow> q_status (qentry sys i) = QUEUE_STATUS_NOTSCHED \<Longrightarrow> q_status q \<noteq> QUEUE_STATUS_NOTSCHED \<Longrightarrow>
    notsched_count (put_queue i q hp sys) < notsched_count sys"
  by (auto simp: notsched_count_def put_queue_def set_heap_def intro: filter_update_less)

lemma notsched_count_step:
  "i < length (queue_tbl sys) \<Longrightarrow> q_status (qentry sys i) = QUEUE_STATUS_NOTSCHED \<Longrightarrow> q_status q = QUEUE_STATUS_SCHED \<Longrightarrow>
    6 + 8 * notsched_count (put_queue i q hp sys) < 8 * notsched_count sys"
  using notsched_count_put [of i sys q hp] by simp

lemma enq_locked_sched:
  "enq_locked q hp a = Some (True, q', hp') \<Longrightarrow> q_status q = QUEUE_STATUS_NOTSCHED \<and> q_status q' = QUEUE_STATUS_SCHED"
  by (auto simp: enq_locked_def sched_status_def Let_def split: if_splits prod.splits)

lemma enq_multi_locked_sched:
  "enq_multi_locked q hp as n = Some (True, q', hp') \<Longrightarrow> q_status q = QUEUE_STATUS_NOTSCHED \<and> q_status q' = QUEUE_STATUS_SCHED"
  by (auto simp: enq_multi_locked_def sched_status_def Let_def split: if_splits prod.splits)

text \<open>
  The recursion ends because each enqueue that calls the scheduler takes a queue out of the state \<open>NOTSCHED\<close>.
  A result other than 0 of the enqueue to the priority queue aborts. The table of headers in \<open>loopback_send\<close> has room
  for \<open>QUEUE_MULTI_MAX\<close> of them.
\<close>

function odp_queue_enq :: "sock_dev \<Rightarrow> u32 \<Rightarrow> u32 \<Rightarrow> odp_sys \<Rightarrow> c_error + (int \<times> odp_sys)"
  and queue_enq :: "sock_dev \<Rightarrow> nat \<Rightarrow> addr \<Rightarrow> odp_sys \<Rightarrow> c_error + (int \<times> odp_sys)"
  and queue_enq_multi :: "sock_dev \<Rightarrow> nat \<Rightarrow> addr list \<Rightarrow> int \<Rightarrow> odp_sys \<Rightarrow> c_error + (int \<times> odp_sys)"
  and pktout_enqueue :: "sock_dev \<Rightarrow> nat \<Rightarrow> addr \<Rightarrow> odp_sys \<Rightarrow> c_error + (int \<times> odp_sys)"
  and odp_pktio_send :: "sock_dev \<Rightarrow> u32 \<Rightarrow> u32 list \<Rightarrow> odp_sys \<Rightarrow> c_error + (int \<times> odp_sys)"
  and loopback_send :: "sock_dev \<Rightarrow> nat \<Rightarrow> u32 list \<Rightarrow> odp_sys \<Rightarrow> c_error + (int \<times> odp_sys)"
  where
  "odp_queue_enq dev handle ev sys =
    and_then (queue_to_qentry sys handle) (\<lambda>i.
    and_then (odp_buf_to_hdr (base sys) ev) (\<lambda>a.
      (case q_funcs (qentry sys i) of
         Queue_Funcs \<Rightarrow> queue_enq dev i a sys
       | Pktin_Funcs \<Rightarrow> Inl Aborted
       | Pktout_Funcs \<Rightarrow> pktout_enqueue dev i a sys)))"
| "queue_enq dev i a sys =
    (if \<not> i < length (queue_tbl sys) then Inl Out_Of_Bounds
     else case enq_locked (qentry sys i) (sys_heap sys) a of
       None \<Rightarrow> Inr (-1, sys)
     | Some (sch, q, hp) \<Rightarrow>
         if sch
         then and_then (odp_queue_enq dev (q_pri_queue q) (q_cmd_ev q) (put_queue i q hp sys))
           (\<lambda>(ret, sys2). if ret \<noteq> 0 then Inl Aborted else Inr (0, sys2))
         else Inr (0, put_queue i q hp sys))"
| "queue_enq_multi dev i as num sys =
    (if \<not> i < length (queue_tbl sys) then Inl Out_Of_Bounds
     else and_then (enq_multi_chain (sys_heap sys) as num) (\<lambda>hp1.
       (case enq_multi_locked (qentry sys i) hp1 as num of
          None \<Rightarrow> Inr (-1, set_heap hp1 sys)
        | Some (sch, q, hp) \<Rightarrow>
            if sch
            then and_then (odp_queue_enq dev (q_pri_queue q) (q_cmd_ev q) (put_queue i q hp sys))
              (\<lambda>(ret, sys2). if ret \<noteq> 0 then Inl Aborted else Inr (num, sys2))
            else Inr (num, put_queue i q hp sys))))"
| "pktout_enqueue dev i a sys =
    and_then (odp_pktio_send dev (q_pktout (qentry sys i)) [bh_handle (bhdr (sys_heap sys) a)] sys)
      (\<lambda>(nbr, sys1). Inr (if nbr = 1 then 0 else -1, sys1))"
| "odp_pktio_send dev io pkt_table sys =
    (case get_pktio_entry sys io of
       None \<Rightarrow> Inr (-1, sys)
     | Some k \<Rightarrow>
         (case pe_ops (pktio_tbl sys ! k) of
            No_Ops \<Rightarrow> Inl Null_Deref
          | Loop_Ops \<Rightarrow> loopback_send dev k pkt_table sys
          | Sock_Ops \<Rightarrow> let (pkts, st) = dev_send dev k pkt_table (base sys) in Inr (pkts, sys\<lparr>base := st\<rparr>)))"
| "loopback_send dev k pkt_tbl sys =
    (if pe_state (pktio_tbl sys ! k) = STATE_STOP then Inr (-1, sys)
     else if int (length pkt_tbl) > QUEUE_MULTI_MAX then Inl Out_Of_Bounds
     else and_then (bufs_to_hdrs (base sys) pkt_tbl) (\<lambda>hdr_tbl.
          and_then (queue_to_qentry sys (pe_loopq (pktio_tbl sys ! k))) (\<lambda>i.
            queue_enq_multi dev i hdr_tbl (int (length pkt_tbl)) sys)))"
  by pat_completeness auto
termination
  by (relation "measure (\<lambda>x. case x of
         Inl (Inl (dev, handle, ev, sys)) \<Rightarrow> 8 * notsched_count sys + 7
       | Inl (Inr (Inl (dev, i, a, sys))) \<Rightarrow> 8 * notsched_count sys + 1
       | Inl (Inr (Inr (dev, i, as, num, sys))) \<Rightarrow> 8 * notsched_count sys + 1
       | Inr (Inl (dev, i, a, sys)) \<Rightarrow> 8 * notsched_count sys + 6
       | Inr (Inr (Inl (dev, io, pkts, sys))) \<Rightarrow> 8 * notsched_count sys + 5
       | Inr (Inr (Inr (dev, k, pkts, sys))) \<Rightarrow> 8 * notsched_count sys + 4)")
    (auto dest!: enq_locked_sched enq_multi_locked_sched intro: notsched_count_step)

declare odp_queue_enq.simps [simp del] queue_enq.simps [simp del] queue_enq_multi.simps [simp del]
  pktout_enqueue.simps [simp del] odp_pktio_send.simps [simp del] loopback_send.simps [simp del]

text \<open>The routines that an entry's function pointers lead to for several events at once.\<close>

definition pktout_enq_multi :: "sock_dev \<Rightarrow> nat \<Rightarrow> addr list \<Rightarrow> int \<Rightarrow> odp_sys \<Rightarrow> c_error + (int \<times> odp_sys)" where
  "pktout_enq_multi dev i as num sys =
    odp_pktio_send dev (q_pktout (qentry sys i)) (map (\<lambda>a. bh_handle (bhdr (sys_heap sys) a)) (take (nat num) as)) sys"

definition odp_queue_enq_multi :: "sock_dev \<Rightarrow> u32 \<Rightarrow> u32 list \<Rightarrow> int \<Rightarrow> odp_sys \<Rightarrow> c_error + (int \<times> odp_sys)" where
  "odp_queue_enq_multi dev handle ev num sys =
    (let num1 = (if num > QUEUE_MULTI_MAX then QUEUE_MULTI_MAX else num)
     in if int (length ev) < num1 then Inl Out_Of_Bounds
        else and_then (queue_to_qentry sys handle) (\<lambda>i.
             and_then (bufs_to_hdrs (base sys) (take (nat num1) ev)) (\<lambda>as.
               (case q_funcs (qentry sys i) of
                  Queue_Funcs \<Rightarrow> queue_enq_multi dev i as num1 sys
                | Pktin_Funcs \<Rightarrow> Inl Aborted
                | Pktout_Funcs \<Rightarrow> pktout_enq_multi dev i as num1 sys))))"

section \<open>Receiving\<close>

text \<open>A call that may not end, may fail, or returns.\<close>

definition run_then :: "(c_error + 'a) option \<Rightarrow> ('a \<Rightarrow> (c_error + 'b) option) \<Rightarrow> (c_error + 'b) option" where
  "run_then r f = (case r of None \<Rightarrow> None | Some (Inl e) \<Rightarrow> Some (Inl e) | Some (Inr x) \<Rightarrow> f x)"

lemma run_then_simps [simp]:
  "run_then None f = None" "run_then (Some (Inl e)) f = Some (Inl e)" "run_then (Some (Inr x)) f = f x"
  by (simp_all add: run_then_def)

definition upd_pkt :: "u32 \<Rightarrow> (odp_packet_hdr \<Rightarrow> odp_packet_hdr) \<Rightarrow> odp_sys \<Rightarrow> c_error + odp_sys" where
  "upd_pkt pkt f sys =
    and_then (packet_hdr_addr (base sys) pkt) (\<lambda>a. Inr (sys\<lparr>base := put_hdr a (f (hdrs (sys_heap sys) a)) (base sys)\<rparr>))"

fun upd_pkts :: "u32 list \<Rightarrow> (odp_packet_hdr \<Rightarrow> odp_packet_hdr) \<Rightarrow> odp_sys \<Rightarrow> c_error + odp_sys" where
  "upd_pkts [] f sys = Inr sys"
| "upd_pkts (pkt # pkts) f sys = and_then (upd_pkt pkt f sys) (upd_pkts pkts f)"

definition loopback_recv :: "nat \<Rightarrow> nat \<Rightarrow> odp_sys \<Rightarrow> c_error + ((int \<times> u32 list) \<times> odp_sys)" where
  "loopback_recv k len sys =
    (if pe_state (pktio_tbl sys ! k) = STATE_STOP then Inr ((-1, []), sys)
     else and_then (queue_to_qentry sys (pe_loopq (pktio_tbl sys ! k))) (\<lambda>i.
       (case queue_deq_multi (qentry sys i) (sys_heap sys) (int len) of
          (None, q, hp) \<Rightarrow> Inr ((-1, []), put_queue i q hp sys)
        | (Some hdr_tbl, q, hp) \<Rightarrow>
            if int (length hdr_tbl) > QUEUE_MULTI_MAX then Inl Out_Of_Bounds
            else
              let pkts = map (\<lambda>a. odp_hdr_to_buf (bhdr hp a)) hdr_tbl
              in and_then (upd_pkts pkts odp_packet_reset_parse (put_queue i q hp sys))
                   (\<lambda>sys1. Inr ((int (length hdr_tbl), pkts), sys1)))))"

definition odp_pktio_recv :: "sock_dev \<Rightarrow> u32 \<Rightarrow> nat \<Rightarrow> odp_sys \<Rightarrow> c_error + ((int \<times> u32 list) \<times> odp_sys)" where
  "odp_pktio_recv dev io len sys =
    (case get_pktio_entry sys io of
       None \<Rightarrow> Inr ((-1, []), sys)
     | Some k \<Rightarrow>
         and_then
           (case pe_ops (pktio_tbl sys ! k) of
              No_Ops \<Rightarrow> Inl Null_Deref
            | Loop_Ops \<Rightarrow> loopback_recv k len sys
            | Sock_Ops \<Rightarrow> let (r, st) = dev_recv dev k len (base sys) in Inr (r, sys\<lparr>base := st\<rparr>))
           (\<lambda>((pkts, pkt_table), sys1).
              if pkts < 0 then Inr ((pkts, []), sys1)
              else and_then (upd_pkts (take (nat pkts) pkt_table) (\<lambda>h. h\<lparr>pkt_input := io\<rparr>) sys1)
                     (\<lambda>sys2. Inr ((pkts, take (nat pkts) pkt_table), sys2))))"

section \<open>Classification\<close>

definition packet_classifier :: "sock_dev \<Rightarrow> u32 \<Rightarrow> u32 \<Rightarrow> odp_sys \<Rightarrow> (c_error + (int \<times> odp_sys)) option" where
  "packet_classifier dev pktio pkt sys =
    (case get_pktio_entry sys pktio of
       None \<Rightarrow> Some (Inr (-1, sys))
     | Some k \<Rightarrow>
         run_then (Some (packet_hdr_addr (base sys) pkt)) (\<lambda>a.
         run_then (Some (odp_packet_data (base sys) pkt)) (\<lambda>pkt_addr.
         run_then (pktio_select_cos (pe_cls (pktio_tbl sys ! k)) (mem (sys_heap sys)) pkt_addr (hdrs (sys_heap sys) a) (cls sys))
           (\<lambda>(cos, h, t).
             let sys1 = sys\<lparr>base := put_hdr a h (base sys), cls := t\<rparr>
             in case cos of
                  None \<Rightarrow> Some (Inr (-1, sys1))
                | Some c \<Rightarrow>
                    (case cos_queue (cos_tbl t ! c) of
                       None \<Rightarrow> Some (Inl Null_Deref)
                     | Some i \<Rightarrow> Some (queue_enq dev i a sys1))))))"

text \<open>The loop over received packets: the headers of those the classifier did not take.\<close>

fun classify_all ::
    "sock_dev \<Rightarrow> bool \<Rightarrow> u32 \<Rightarrow> u32 list \<Rightarrow> odp_sys \<Rightarrow> (c_error + (addr list \<times> odp_sys)) option" where
  "classify_all dev enabled pktio [] sys = Some (Inr ([], sys))"
| "classify_all dev enabled pktio (pkt # pkts) sys =
    run_then (Some (odp_buf_to_hdr (base sys) pkt)) (\<lambda>a.
    run_then (if enabled then packet_classifier dev pktio pkt sys else Some (Inr (-1, sys))) (\<lambda>(ret, sys1).
    run_then (classify_all dev enabled pktio pkts sys1) (\<lambda>(as, sys2).
      Some (Inr (if ret < 0 then a # as else as, sys2)))))"

text \<open>\<open>None\<close> in the result is the null header.\<close>

definition pktin_dequeue :: "sock_dev \<Rightarrow> nat \<Rightarrow> odp_sys \<Rightarrow> (c_error + (addr \<times> odp_sys)) option" where
  "pktin_dequeue dev i sys =
    (case queue_deq (qentry sys i) (sys_heap sys) of
       (a, q, hp) \<Rightarrow>
         let sys1 = put_queue i q hp sys
         in if a \<noteq> NULL then Some (Inr (a, sys1))
            else run_then (Some (odp_pktio_recv dev (q_pktin (qentry sys1 i)) (nat QUEUE_MULTI_MAX) sys1)) (\<lambda>((pkts, tbl), sys2).
              if pkts \<le> 0 then Some (Inr (NULL, sys2))
              else run_then (classify_all dev True (q_pktin (qentry sys2 i)) tbl sys2) (\<lambda>(as, sys3).
                (case as of
                   [] \<Rightarrow> Some (Inr (NULL, sys3))
                 | [b] \<Rightarrow> Some (Inr (b, sys3))
                 | b # bs \<Rightarrow>
                     run_then (Some (queue_enq_multi dev i bs (int (length bs)) sys3)) (\<lambda>(_, sys4). Some (Inr (b, sys4)))))))"

definition pktin_deq_multi ::
    "sock_dev \<Rightarrow> nat \<Rightarrow> int \<Rightarrow> odp_sys \<Rightarrow> (c_error + ((int \<times> addr list) \<times> odp_sys)) option" where
  "pktin_deq_multi dev i num sys =
    (case queue_deq_multi (qentry sys i) (sys_heap sys) num of
       (r, q, hp) \<Rightarrow>
         let sys1 = put_queue i q hp sys;
             nbr = (case r of None \<Rightarrow> -1 | Some bufs \<Rightarrow> int (length bufs));
             res = (nbr, case r of None \<Rightarrow> [] | Some bufs \<Rightarrow> bufs)
         in if nbr > num then Some (Inl Aborted)
            else if nbr = num then Some (Inr (res, sys1))
            else run_then (Some (odp_pktio_recv dev (q_pktin (qentry sys1 i)) (nat QUEUE_MULTI_MAX) sys1)) (\<lambda>((pkts, tbl), sys2).
              if pkts \<le> 0 then Some (Inr (res, sys2))
              else run_then (classify_all dev True (q_pktin (qentry sys2 i)) tbl sys2) (\<lambda>(as, sys3).
                if as = [] then Some (Inr (res, sys3))
                else run_then (Some (queue_enq_multi dev i as (int (length as)) sys3)) (\<lambda>(_, sys4). Some (Inr (res, sys4))))))"

text \<open>Polling an interface for the scheduler; \<open>-1\<close> tells it to stop.\<close>

definition pktin_poll :: "sock_dev \<Rightarrow> nat \<Rightarrow> odp_sys \<Rightarrow> (c_error + (int \<times> odp_sys)) option" where
  "pktin_poll dev k sys =
    (let entry = pktio_tbl sys ! k
     in if \<not> pe_taken entry then Some (Inr (-1, sys))
        else if pe_inq_default entry = ODP_QUEUE_INVALID then Some (Inr (-1, sys))
        else if pe_state entry = STATE_STOP then Some (Inr (0, sys))
        else run_then (Some (odp_pktio_recv dev (pe_handle entry) (nat QUEUE_MULTI_MAX) sys)) (\<lambda>((num, tbl), sys1).
          if num < 0 then Some (Inr (-1, sys1))
          else run_then (classify_all dev (pe_cls_enabled entry) (pe_handle entry) tbl sys1) (\<lambda>(as, sys2).
            if as = [] then Some (Inr (0, sys2))
            else run_then (Some (queue_to_qentry sys2 (pe_inq_default entry))) (\<lambda>i.
                 run_then (Some (queue_enq_multi dev i as (int (length as)) sys2)) (\<lambda>(_, sys3). Some (Inr (0, sys3)))))))"

section \<open>Dequeue\<close>

definition odp_queue_deq :: "sock_dev \<Rightarrow> u32 \<Rightarrow> odp_sys \<Rightarrow> (c_error + (u32 \<times> odp_sys)) option" where
  "odp_queue_deq dev handle sys =
    run_then (Some (queue_to_qentry sys handle)) (\<lambda>i.
    run_then
      (case q_funcs (qentry sys i) of
         Queue_Funcs \<Rightarrow> (case queue_deq (qentry sys i) (sys_heap sys) of (a, q, hp) \<Rightarrow> Some (Inr (a, put_queue i q hp sys)))
       | Pktin_Funcs \<Rightarrow> pktin_dequeue dev i sys
       | Pktout_Funcs \<Rightarrow> Some (Inl Aborted))
      (\<lambda>(a, sys1). Some (Inr (if a \<noteq> NULL then bh_handle (bhdr (sys_heap sys1) a) else ODP_EVENT_INVALID, sys1))))"

definition odp_queue_deq_multi :: "sock_dev \<Rightarrow> u32 \<Rightarrow> int \<Rightarrow> odp_sys \<Rightarrow> (c_error + ((int \<times> u32 list) \<times> odp_sys)) option" where
  "odp_queue_deq_multi dev handle num sys =
    (let num1 = (if num > QUEUE_MULTI_MAX then QUEUE_MULTI_MAX else num)
     in run_then (Some (queue_to_qentry sys handle)) (\<lambda>i.
        run_then
          (case q_funcs (qentry sys i) of
             Queue_Funcs \<Rightarrow>
               (case queue_deq_multi (qentry sys i) (sys_heap sys) num1 of
                  (None, q, hp) \<Rightarrow> Some (Inr ((-1, []), put_queue i q hp sys))
                | (Some bufs, q, hp) \<Rightarrow> Some (Inr ((int (length bufs), bufs), put_queue i q hp sys)))
           | Pktin_Funcs \<Rightarrow> pktin_deq_multi dev i num1 sys
           | Pktout_Funcs \<Rightarrow> Some (Inl Aborted))
          (\<lambda>((ret, bufs), sys1). Some (Inr ((ret, map (\<lambda>a. bh_handle (bhdr (sys_heap sys1) a)) bufs), sys1)))))"

end
