(* ===== verification/Odp_Time.thy ===== *)
theory Odp_Time
  imports Odp_Prelude
begin

text \<open>
  Time in CPU cycles (\<open>odp_time.c\<close>, \<open>arch/linux/odp_time_cycles.c\<close>). The CPU frequency that \<open>odp_sys_cpu_hz\<close> returns, and the reading of the
  system's clock, are arguments.
\<close>

definition GIGA :: u64 where "GIGA = 1000000000"

definition UINT64_MAX :: u64 where "UINT64_MAX = 0xffffffffffffffff"

definition odp_time_diff_cycles :: "u64 \<Rightarrow> u64 \<Rightarrow> u64" where
  "odp_time_diff_cycles t1 t2 = (if t2 > t1 then t2 - t1 else t2 + (UINT64_MAX - t1))"

definition odp_time_cycles_to_ns :: "u64 \<Rightarrow> u64 \<Rightarrow> c_error + u64" where
  "odp_time_cycles_to_ns hz cycles =
    (if hz = 0 then Inl Div_By_Zero
     else if cycles > UINT64_MAX div GIGA then Inr (cycles div hz * GIGA)
     else Inr (cycles * GIGA div hz))"

definition odp_time_ns_to_cycles :: "u64 \<Rightarrow> u64 \<Rightarrow> c_error + u64" where
  "odp_time_ns_to_cycles hz ns =
    (if hz = 0 then Inl Div_By_Zero
     else if ns > UINT64_MAX div hz then Inr (ns div GIGA * hz)
     else Inr (ns * hz div GIGA))"

text \<open>The clock of the portable build: seconds and nanoseconds of a monotonic clock; \<open>None\<close> stands for a clock that cannot be read.\<close>

definition odp_time_cycles :: "u64 \<Rightarrow> (u64 \<times> u64) option \<Rightarrow> c_error + u64" where
  "odp_time_cycles hz time =
    (case time of None \<Rightarrow> Inl Aborted | Some (sec, ns) \<Rightarrow> Inr (sec * hz + ns * hz div GIGA))"

lemmas time_const_defs [simp] = GIGA_def UINT64_MAX_def

text \<open>Differences: exact while the counter does not wrap, one less than the true distance when it does, and never zero.\<close>

lemma unat_max64: "unat (UINT64_MAX :: u64) = 2 ^ 64 - 1"
  by simp

lemma diff_cycles_forward: "t1 < t2 \<Longrightarrow> unat (odp_time_diff_cycles t1 t2) = unat t2 - unat t1"
  by (simp add: odp_time_diff_cycles_def unat_sub less_imp_le)

lemma diff_cycles_wrapped:
  assumes "t2 \<le> t1"
  shows "unat (odp_time_diff_cycles t1 t2) = 2 ^ 64 - 1 - (unat t1 - unat t2)"
proof -
  have "unat (UINT64_MAX - t1) = 2 ^ 64 - 1 - unat t1"
    using unsigned_less [of t1, where ?'a = nat] by (subst unat_sub) (simp_all add: word_le_nat_alt)
  moreover have "unat t2 \<le> unat t1" "unat t1 < 2 ^ 64" using assms unsigned_less [of t1, where ?'a = nat] by (simp_all add: word_le_nat_alt)
  ultimately show ?thesis using assms by (simp add: odp_time_diff_cycles_def unat_word_ariths leD)
qed

text \<open>Conversions: within the first branch the result is the exact quotient; beyond it the result is rounded to whole seconds.\<close>

lemma ns_to_cycles_exact:
  assumes "hz \<noteq> 0" "unat ns * unat hz < 2 ^ 64"
  shows "\<exists>c. odp_time_ns_to_cycles hz ns = Inr c \<and> unat c = unat ns * unat hz div 10 ^ 9"
proof -
  have "unat ns \<le> (2 ^ 64 - 1) div unat hz"
    using assms by (simp add: less_eq_div_iff_mult_less_eq unat_gt_0)
  then have "\<not> ns > UINT64_MAX div hz" by (simp add: word_less_nat_alt unat_div)
  then show ?thesis using assms by (simp add: odp_time_ns_to_cycles_def unat_div unat_word_ariths)
qed

lemma cycles_to_ns_exact:
  assumes "hz \<noteq> 0" "unat cycles * 10 ^ 9 < 2 ^ 64"
  shows "\<exists>n. odp_time_cycles_to_ns hz cycles = Inr n \<and> unat n = unat cycles * 10 ^ 9 div unat hz"
proof -
  have "\<not> cycles > UINT64_MAX div GIGA" using assms(2) by (simp add: word_less_nat_alt unat_div)
  then show ?thesis using assms by (simp add: odp_time_cycles_to_ns_def unat_div unat_word_ariths)
qed

lemma div_roundtrip:
  fixes n hz g :: nat
  assumes "0 < hz" "0 < g"
  shows "n * hz div g * g div hz \<le> n" "n \<le> n * hz div g * g div hz + g div hz + 1"
proof -
  let ?c = "n * hz div g" let ?m = "?c * g div hz"
  have "?c * g \<le> n * hz" by (rule div_times_less_eq_dividend)
  then show "?m \<le> n" using div_le_mono [of "?c * g" "n * hz" hz] assms(1) by simp
  have "n * hz < ?c * g + g" using mod_less_divisor [OF assms(2), of "n * hz"] div_mult_mod_eq [of "n * hz" g] by linarith
  moreover have "?c * g < ?m * hz + hz" using mod_less_divisor [OF assms(1), of "?c * g"] div_mult_mod_eq [of "?c * g" hz] by linarith
  moreover have "g < g div hz * hz + hz" using mod_less_divisor [OF assms(1), of g] div_mult_mod_eq [of g hz] by linarith
  ultimately have "n * hz < (?m + g div hz + 2) * hz" by (simp add: algebra_simps)
  then have "n < ?m + g div hz + 2" using assms(1) by (simp only: mult_less_cancel2)
  then show "n \<le> ?m + g div hz + 1" by linarith
qed

section \<open>Properties\<close>

text \<open>
  Converting nanoseconds to cycles and back loses at most one tick of the clock. While the product of time and frequency fits
  64 bits and the frequency is not 0, both conversions succeed, the result is not later than the original time, and it is at most
  one cycle and one nanosecond earlier.
\<close>

theorem time_conversion_roundtrip:
  assumes "hz \<noteq> 0" "unat ns * unat hz < 2 ^ 64"
  shows "\<exists>c n. odp_time_ns_to_cycles hz ns = Inr c \<and> odp_time_cycles_to_ns hz c = Inr n \<and> n \<le> ns \<and>
    unat ns \<le> unat n + 10 ^ 9 div unat hz + 1"
proof -
  have h: "0 < unat hz" using assms(1) by (simp add: unat_gt_0)
  obtain c where c: "odp_time_ns_to_cycles hz ns = Inr c" "unat c = unat ns * unat hz div 10 ^ 9"
    using ns_to_cycles_exact [OF assms] by blast
  have "unat c * 10 ^ 9 \<le> unat ns * unat hz" unfolding c(2) by (rule div_times_less_eq_dividend)
  then obtain n where n: "odp_time_cycles_to_ns hz c = Inr n" "unat n = unat c * 10 ^ 9 div unat hz"
    using cycles_to_ns_exact [OF assms(1), of c] assms(2) by auto
  have "unat n \<le> unat ns" "unat ns \<le> unat n + 10 ^ 9 div unat hz + 1"
    unfolding n(2) c(2) by (rule div_roundtrip [OF h]; simp)+
  then show ?thesis using c(1) n(1) by (auto simp: word_le_nat_alt)
qed

theorem time_conversion_roundtrip_witness:
  "\<exists>c n. odp_time_ns_to_cycles 2400000000 1000 = Inr c \<and> odp_time_cycles_to_ns 2400000000 c = Inr n \<and> n \<le> 1000 \<and>
    unat (1000 :: u64) \<le> unat n + 10 ^ 9 div unat (2400000000 :: u64) + 1"
  by (rule time_conversion_roundtrip) simp_all

end
