(* ===== verification/Odp_Schedule.thy ===== *)
theory Odp_Schedule
  imports Odp_System Odp_Time
begin

text \<open>
  The scheduler (\<open>odp_schedule.c\<close>) and the part of \<open>odp_queue.c\<close> that creates and destroys queues together with it: one command
  buffer per scheduled queue, moved between a priority queue and the threads that hold an atomic queue.
\<close>

section \<open>Priorities\<close>

definition pri_id_queue :: "u32 \<Rightarrow> nat" where
  "pri_id_queue queue = unat ((of_nat (QUEUES_PER_PRIO - 1) :: u32) AND queue_to_id queue)"

definition pri_id_pktio :: "u32 \<Rightarrow> nat" where
  "pri_id_pktio pktio = unat ((of_nat (QUEUES_PER_PRIO - 1) :: u32) AND of_nat (pktio_to_id pktio))"

text \<open>Access to the tables by priority; the priority of a queue comes from its creator and is not checked by the code.\<close>

definition prio_ok :: "int \<Rightarrow> bool" where
  "prio_ok prio \<longleftrightarrow> 0 \<le> prio \<and> prio < int ODP_CONFIG_SCHED_PRIOS"

definition upd2 :: "nat \<Rightarrow> nat \<Rightarrow> ('a \<Rightarrow> 'a) \<Rightarrow> 'a list list \<Rightarrow> 'a list list" where
  "upd2 i j f xss = xss[i := (xss ! i)[j := f (xss ! i ! j)]]"

definition pri_set :: "nat \<Rightarrow> int \<Rightarrow> odp_sys \<Rightarrow> c_error + (u32 \<times> odp_sys)" where
  "pri_set id0 prio sys =
    (if \<not> prio_ok prio then Inl Out_Of_Bounds
     else
       let p = nat prio; s = sched sys;
           s1 = s\<lparr>sc_pri_mask := (sc_pri_mask s)[p := sc_pri_mask s ! p OR push_bit id0 1],
                  sc_pri_count := upd2 p id0 (\<lambda>c. c + 1) (sc_pri_count s)\<rparr>
       in Inr (sc_pri_queue s ! p ! id0, sys\<lparr>sched := s1\<rparr>))"

definition pri_clr :: "nat \<Rightarrow> int \<Rightarrow> odp_sys \<Rightarrow> c_error + odp_sys" where
  "pri_clr id0 prio sys =
    (if \<not> prio_ok prio then Inl Out_Of_Bounds
     else
       let p = nat prio; s = sched sys;
           s1 = s\<lparr>sc_pri_count := upd2 p id0 (\<lambda>c. c - 1) (sc_pri_count s)\<rparr>;
           s2 = (if sc_pri_count s1 ! p ! id0 = 0
                 then s1\<lparr>sc_pri_mask := (sc_pri_mask s1)[p := sc_pri_mask s1 ! p AND NOT (push_bit id0 1)]\<rparr>
                 else s1)
       in Inr (sys\<lparr>sched := s2\<rparr>))"

definition pri_set_queue :: "u32 \<Rightarrow> int \<Rightarrow> odp_sys \<Rightarrow> c_error + (u32 \<times> odp_sys)" where
  "pri_set_queue queue prio = pri_set (pri_id_queue queue) prio"

definition pri_set_pktio :: "u32 \<Rightarrow> int \<Rightarrow> odp_sys \<Rightarrow> c_error + (u32 \<times> odp_sys)" where
  "pri_set_pktio pktio prio = pri_set (pri_id_pktio pktio) prio"

definition pri_clr_queue :: "u32 \<Rightarrow> int \<Rightarrow> odp_sys \<Rightarrow> c_error + odp_sys" where
  "pri_clr_queue queue prio = pri_clr (pri_id_queue queue) prio"

definition pri_clr_pktio :: "u32 \<Rightarrow> int \<Rightarrow> odp_sys \<Rightarrow> c_error + odp_sys" where
  "pri_clr_pktio pktio prio = pri_clr (pri_id_pktio pktio) prio"

section \<open>Commands\<close>

definition sys_buffer_alloc :: "nat \<Rightarrow> u32 \<Rightarrow> odp_sys \<Rightarrow> c_error + (u32 \<times> odp_sys)" where
  "sys_buffer_alloc tid pool sys =
    and_then (odp_buffer_alloc tid pool (base sys)) (\<lambda>(buf, st). Inr (buf, sys\<lparr>base := st\<rparr>))"

definition set_cmd :: "u32 \<Rightarrow> sched_cmd \<Rightarrow> odp_sys \<Rightarrow> c_error + odp_sys" where
  "set_cmd buf c sys =
    and_then (odp_buffer_addr (base sys) buf) (\<lambda>p. Inr (sys\<lparr>sched_cmds := (sched_cmds sys)(p := c)\<rparr>))"

definition get_cmd :: "u32 \<Rightarrow> odp_sys \<Rightarrow> c_error + sched_cmd" where
  "get_cmd buf sys = and_then (odp_buffer_addr (base sys) buf) (\<lambda>p. Inr (sched_cmds sys p))"

definition upd_queue :: "nat \<Rightarrow> (queue_entry \<Rightarrow> queue_entry) \<Rightarrow> odp_sys \<Rightarrow> odp_sys" where
  "upd_queue i f sys = sys\<lparr>queue_tbl := (queue_tbl sys)[i := f (qentry sys i)]\<rparr>"

definition schedule_queue_init :: "nat \<Rightarrow> nat \<Rightarrow> odp_sys \<Rightarrow> c_error + (int \<times> odp_sys)" where
  "schedule_queue_init tid i sys =
    and_then (sys_buffer_alloc tid (sc_pool (sched sys)) sys) (\<lambda>(buf, sys1).
      if buf = ODP_BUFFER_INVALID then Inr (-1, sys1)
      else and_then (set_cmd buf (Cmd_Dequeue i) sys1) (\<lambda>sys2.
           and_then (pri_set_queue (q_handle (qentry sys2 i)) (qp_prio (q_param (qentry sys2 i))) sys2) (\<lambda>(pq, sys3).
             Inr (0, upd_queue i (\<lambda>q. q\<lparr>q_cmd_ev := buf, q_pri_queue := pq\<rparr>) sys3))))"

definition schedule_queue_destroy :: "nat \<Rightarrow> nat \<Rightarrow> odp_sys \<Rightarrow> c_error + odp_sys" where
  "schedule_queue_destroy tid i sys =
    and_then (odp_event_free tid (q_cmd_ev (qentry sys i)) (base sys)) (\<lambda>st.
    and_then (pri_clr_queue (q_handle (qentry sys i)) (qp_prio (q_param (qentry sys i))) (sys\<lparr>base := st\<rparr>)) (\<lambda>sys1.
      Inr (upd_queue i (\<lambda>q. q\<lparr>q_cmd_ev := ODP_EVENT_INVALID, q_pri_queue := ODP_QUEUE_INVALID\<rparr>) sys1)))"

definition schedule_pktio_start :: "sock_dev \<Rightarrow> nat \<Rightarrow> u32 \<Rightarrow> int \<Rightarrow> odp_sys \<Rightarrow> c_error + (int \<times> odp_sys)" where
  "schedule_pktio_start dev tid pktio prio sys =
    and_then (sys_buffer_alloc tid (sc_pool (sched sys)) sys) (\<lambda>(buf, sys1).
      if buf = ODP_BUFFER_INVALID then Inr (-1, sys1)
      else (case get_pktio_entry sys1 pktio of
              None \<Rightarrow> Inl Null_Deref
            | Some k \<Rightarrow>
                and_then (set_cmd buf (Cmd_Poll_Pktin pktio k prio) sys1) (\<lambda>sys2.
                and_then (pri_set_pktio pktio prio sys2) (\<lambda>(pq, sys3).
                and_then (odp_queue_enq dev pq buf sys3) (\<lambda>(ret, sys4).
                  if ret \<noteq> 0 then Inl Aborted else Inr (0, sys4))))))"

section \<open>Creating and destroying queues\<close>

definition odp_queue_create :: "nat \<Rightarrow> string \<Rightarrow> queue_type \<Rightarrow> queue_param option \<Rightarrow> odp_sys \<Rightarrow> c_error + (u32 \<times> odp_sys)" where
  "odp_queue_create tid name type param sys =
    (case first_index (\<lambda>q. q_status q = QUEUE_STATUS_FREE) (queue_tbl sys) of
       None \<Rightarrow> Inr (ODP_QUEUE_INVALID, sys)
     | Some i \<Rightarrow>
         let scheduled = (type = ODP_QUEUE_TYPE_SCHED \<or> type = ODP_QUEUE_TYPE_PKTIN);
             sys1 = upd_queue i (\<lambda>q. (queue_init q name type param)
               \<lparr>q_status := if scheduled then QUEUE_STATUS_NOTSCHED else QUEUE_STATUS_READY\<rparr>) sys;
             handle = q_handle (qentry sys1 i)
         in if handle \<noteq> ODP_QUEUE_INVALID \<and> scheduled
            then and_then (schedule_queue_init tid i sys1) (\<lambda>(ret, sys2).
              Inr (if ret \<noteq> 0 then ODP_QUEUE_INVALID else handle, sys2))
            else Inr (handle, sys1))"

definition queue_destroy_finalize :: "nat \<Rightarrow> nat \<Rightarrow> odp_sys \<Rightarrow> c_error + odp_sys" where
  "queue_destroy_finalize tid i sys =
    (if q_status (qentry sys i) = QUEUE_STATUS_DESTROYED
     then schedule_queue_destroy tid i (upd_queue i (\<lambda>q. q\<lparr>q_status := QUEUE_STATUS_FREE\<rparr>) sys)
     else Inr sys)"

definition odp_queue_destroy :: "nat \<Rightarrow> u32 \<Rightarrow> odp_sys \<Rightarrow> c_error + (int \<times> odp_sys)" where
  "odp_queue_destroy tid handle sys =
    and_then (queue_to_qentry sys handle) (\<lambda>i.
      let q = qentry sys i
      in if q_status q = QUEUE_STATUS_FREE then Inr (-1, sys)
         else if q_status q = QUEUE_STATUS_DESTROYED then Inr (-1, sys)
         else if q_head q \<noteq> NULL then Inr (-1, sys)
         else (case q_status q of
             QUEUE_STATUS_READY \<Rightarrow> Inr (0, upd_queue i (\<lambda>q. q\<lparr>q_status := QUEUE_STATUS_FREE\<rparr>) sys)
           | QUEUE_STATUS_NOTSCHED \<Rightarrow>
               and_then (schedule_queue_destroy tid i (upd_queue i (\<lambda>q. q\<lparr>q_status := QUEUE_STATUS_FREE\<rparr>) sys))
                 (\<lambda>sys1. Inr (0, sys1))
           | QUEUE_STATUS_SCHED \<Rightarrow> Inr (0, upd_queue i (\<lambda>q. q\<lparr>q_status := QUEUE_STATUS_DESTROYED\<rparr>) sys)
           | _ \<Rightarrow> Inl Aborted))"

definition odp_queue_lookup :: "string \<Rightarrow> odp_sys \<Rightarrow> u32" where
  "odp_queue_lookup name sys =
    (case find (\<lambda>q. q_status q \<noteq> QUEUE_STATUS_FREE \<and> q_name q = name) (queue_tbl sys) of
       None \<Rightarrow> ODP_QUEUE_INVALID | Some q \<Rightarrow> q_handle q)"

definition odp_queue_context_set :: "u32 \<Rightarrow> addr \<Rightarrow> odp_sys \<Rightarrow> c_error + (int \<times> odp_sys)" where
  "odp_queue_context_set handle context sys =
    and_then (queue_to_qentry sys handle)
      (\<lambda>i. Inr (0, upd_queue i (\<lambda>q. q\<lparr>q_param := (q_param q)\<lparr>qp_context := context\<rparr>\<rparr>) sys))"

definition queue_field :: "(queue_entry \<Rightarrow> 'a) \<Rightarrow> u32 \<Rightarrow> odp_sys \<Rightarrow> c_error + 'a" where
  "queue_field f handle sys = and_then (queue_to_qentry sys handle) (\<lambda>i. Inr (f (qentry sys i)))"

definition odp_queue_context :: "u32 \<Rightarrow> odp_sys \<Rightarrow> c_error + addr" where
  "odp_queue_context = queue_field (\<lambda>q. qp_context (q_param q))"

definition odp_queue_type :: "u32 \<Rightarrow> odp_sys \<Rightarrow> c_error + queue_type" where
  "odp_queue_type = queue_field q_type"

definition odp_queue_sched_type :: "u32 \<Rightarrow> odp_sys \<Rightarrow> c_error + sched_sync" where
  "odp_queue_sched_type = queue_field (\<lambda>q. qp_sync (q_param q))"

definition odp_queue_sched_prio :: "u32 \<Rightarrow> odp_sys \<Rightarrow> c_error + int" where
  "odp_queue_sched_prio = queue_field (\<lambda>q. qp_prio (q_param q))"

definition odp_queue_sched_group :: "u32 \<Rightarrow> odp_sys \<Rightarrow> c_error + int" where
  "odp_queue_sched_group = queue_field (\<lambda>q. qp_group (q_param q))"

text \<open>The table after the start: zeroed, with the handles set; -1 stands for a failed reservation or release of shared memory.\<close>

definition zero_queue :: "nat \<Rightarrow> queue_entry" where
  "zero_queue i = \<lparr>q_head = NULL, q_tail = NULL, q_status = QUEUE_STATUS_FREE, q_funcs = Queue_Funcs, q_handle = queue_from_id (of_nat i),
    q_pri_queue = 0, q_cmd_ev = 0, q_type = ODP_QUEUE_TYPE_SCHED, q_param = odp_queue_param_init, q_pktin = 0, q_pktout = 0, q_name = []\<rparr>"

definition odp_queue_init_global :: "bool \<Rightarrow> odp_sys \<Rightarrow> int \<times> odp_sys" where
  "odp_queue_init_global shm_ok sys =
    (if \<not> shm_ok then (-1, sys) else (0, sys\<lparr>queue_tbl := map zero_queue [0..<ODP_CONFIG_QUEUES]\<rparr>))"

definition odp_queue_term_global :: "int \<Rightarrow> odp_sys \<Rightarrow> int" where
  "odp_queue_term_global shm_free_ret sys =
    (if (\<exists>q\<in>set (queue_tbl sys). q_status q \<noteq> QUEUE_STATUS_FREE) \<or> shm_free_ret < 0 then -1 else 0)"

section \<open>Threads\<close>

abbreviation slocal :: "odp_sys \<Rightarrow> nat \<Rightarrow> sched_local_t" where
  "slocal sys tid \<equiv> sched_locals sys tid"

definition set_local :: "nat \<Rightarrow> sched_local_t \<Rightarrow> odp_sys \<Rightarrow> odp_sys" where
  "set_local tid l sys = sys\<lparr>sched_locals := (sched_locals sys)(tid := l)\<rparr>"

definition sched_local_init :: sched_local_t where
  "sched_local_init = \<lparr>sl_pri_queue = ODP_QUEUE_INVALID, sl_cmd_ev = ODP_EVENT_INVALID, sl_buf_hdr = replicate MAX_DEQ NULL,
    sl_qe = None, sl_num = 0, sl_index = 0, sl_pause = False\<rparr>"

definition odp_schedule_init_local :: "nat \<Rightarrow> odp_sys \<Rightarrow> int \<times> odp_sys" where
  "odp_schedule_init_local tid sys = (0, set_local tid sched_local_init sys)"

definition odp_schedule_release_atomic :: "sock_dev \<Rightarrow> nat \<Rightarrow> odp_sys \<Rightarrow> c_error + odp_sys" where
  "odp_schedule_release_atomic dev tid sys =
    (let l = slocal sys tid
     in if sl_pri_queue l \<noteq> ODP_QUEUE_INVALID \<and> sl_num l = 0
        then and_then (odp_queue_enq dev (sl_pri_queue l) (sl_cmd_ev l) sys) (\<lambda>(ret, sys1).
          if ret \<noteq> 0 then Inl Aborted
          else Inr (set_local tid ((slocal sys1 tid)\<lparr>sl_pri_queue := ODP_QUEUE_INVALID\<rparr>) sys1))
        else Inr sys)"

definition odp_schedule_term_local :: "sock_dev \<Rightarrow> nat \<Rightarrow> odp_sys \<Rightarrow> c_error + (int \<times> odp_sys)" where
  "odp_schedule_term_local dev tid sys =
    (if sl_num (slocal sys tid) \<noteq> 0 then Inr (-1, sys)
     else and_then (odp_schedule_release_atomic dev tid sys) (\<lambda>sys1. Inr (0, set_local tid sched_local_init sys1)))"

definition odp_schedule_pause :: "nat \<Rightarrow> odp_sys \<Rightarrow> odp_sys" where
  "odp_schedule_pause tid sys = set_local tid ((slocal sys tid)\<lparr>sl_pause := True\<rparr>) sys"

definition odp_schedule_resume :: "nat \<Rightarrow> odp_sys \<Rightarrow> odp_sys" where
  "odp_schedule_resume tid sys = set_local tid ((slocal sys tid)\<lparr>sl_pause := False\<rparr>) sys"

fun copy_events :: "nat \<Rightarrow> odp_heap \<Rightarrow> sched_local_t \<Rightarrow> u32 list \<times> sched_local_t" where
  "copy_events 0 hp l = ([], l)"
| "copy_events (Suc mx) hp l =
    (if sl_num l = 0 then ([], l)
     else
       let hdr = sl_buf_hdr l ! sl_index l;
           (evs, l1) = copy_events mx hp (l\<lparr>sl_index := sl_index l + 1, sl_num := sl_num l - 1\<rparr>)
       in (bh_handle (bhdr hp hdr) # evs, l1))"

section \<open>Scheduling\<close>

text \<open>
  One sub queue of a priority. \<open>None\<close> in the result is \<open>continue\<close>, otherwise the handle of the queue and its events are returned.
\<close>

definition deliver ::
    "sock_dev \<Rightarrow> nat \<Rightarrow> u32 \<Rightarrow> u32 \<Rightarrow> nat \<Rightarrow> addr list \<Rightarrow> nat \<Rightarrow> odp_sys \<Rightarrow> c_error + ((u32 \<times> u32 list) option \<times> odp_sys)" where
  "deliver dev tid pri_q ev i bufs max_num sys =
    (let l = slocal sys tid;
         l1 = l\<lparr>sl_buf_hdr := bufs @ drop (length bufs) (sl_buf_hdr l), sl_num := length bufs, sl_index := 0, sl_qe := Some i\<rparr>;
         (evs, l2) = copy_events max_num (sys_heap sys) l1
     in and_then
          (if queue_is_atomic (qentry sys i)
           then Inr (set_local tid (l2\<lparr>sl_pri_queue := pri_q, sl_cmd_ev := ev\<rparr>) sys)
           else and_then (odp_queue_enq dev pri_q ev (set_local tid l2 sys)) (\<lambda>(ret, sys1).
             if ret \<noteq> 0 then Inl Aborted else Inr sys1))
          (\<lambda>sys2. Inr (Some (q_handle (qentry sys2 i), evs), sys2)))"

definition run_poll_cmd ::
    "sock_dev \<Rightarrow> nat \<Rightarrow> u32 \<Rightarrow> u32 \<Rightarrow> u32 \<Rightarrow> nat \<Rightarrow> int \<Rightarrow> odp_sys \<Rightarrow> (c_error + odp_sys) option" where
  "run_poll_cmd dev tid pri_q ev pktio k prio sys =
    run_then (pktin_poll dev k sys) (\<lambda>(ret, sys1).
      Some (if ret \<noteq> 0
            then and_then (pri_clr_pktio pktio prio sys1) (\<lambda>sys2.
                 and_then (odp_buffer_free tid ev (base sys2)) (\<lambda>st. Inr (sys2\<lparr>base := st\<rparr>)))
            else and_then (odp_queue_enq dev pri_q ev sys1) (\<lambda>(ret, sys2). if ret \<noteq> 0 then Inl Aborted else Inr sys2)))"

definition run_dequeue_cmd ::
    "sock_dev \<Rightarrow> nat \<Rightarrow> u32 \<Rightarrow> u32 \<Rightarrow> nat \<Rightarrow> nat \<Rightarrow> nat \<Rightarrow> odp_sys \<Rightarrow> c_error + ((u32 \<times> u32 list) option \<times> odp_sys)" where
  "run_dequeue_cmd dev tid pri_q ev i max_num max_deq sys =
    (case queue_deq_multi (qentry sys i) (sys_heap sys) (int max_deq) of
       (None, q, hp) \<Rightarrow> and_then (queue_destroy_finalize tid i (put_queue i q hp sys)) (\<lambda>sys1. Inr (None, sys1))
     | (Some bufs, q, hp) \<Rightarrow>
         if bufs = [] then Inr (None, put_queue i q hp sys)
         else deliver dev tid pri_q ev i bufs max_num (put_queue i q hp sys))"

definition sched_sub ::
    "sock_dev \<Rightarrow> nat \<Rightarrow> nat \<Rightarrow> nat \<Rightarrow> nat \<Rightarrow> nat \<Rightarrow> odp_sys \<Rightarrow> (c_error + ((u32 \<times> u32 list) option \<times> odp_sys)) option" where
  "sched_sub dev tid p id0 max_num max_deq sys =
    (if \<not> bit (sc_pri_mask (sched sys) ! p) id0 then Some (Inr (None, sys))
     else
       let pri_q = sc_pri_queue (sched sys) ! p ! id0
       in run_then (odp_queue_deq dev pri_q sys) (\<lambda>(ev, sys1).
            if ev = ODP_BUFFER_INVALID then Some (Inr (None, sys1))
            else run_then (Some (get_cmd ev sys1)) (\<lambda>c.
              (case c of
                 Cmd_Poll_Pktin pktio k prio \<Rightarrow>
                   run_then (run_poll_cmd dev tid pri_q ev pktio k prio sys1) (\<lambda>sys2. Some (Inr (None, sys2)))
               | Cmd_Dequeue i \<Rightarrow> Some (run_dequeue_cmd dev tid pri_q ev i max_num max_deq sys1)))))"

fun sched_subs ::
    "nat list \<Rightarrow> sock_dev \<Rightarrow> nat \<Rightarrow> nat \<Rightarrow> nat \<Rightarrow> nat \<Rightarrow> odp_sys \<Rightarrow> (c_error + ((u32 \<times> u32 list) option \<times> odp_sys)) option" where
  "sched_subs [] dev tid p max_num max_deq sys = Some (Inr (None, sys))"
| "sched_subs (id0 # ids) dev tid p max_num max_deq sys =
    run_then (sched_sub dev tid p id0 max_num max_deq sys) (\<lambda>(r, sys1).
      if r \<noteq> None then Some (Inr (r, sys1)) else sched_subs ids dev tid p max_num max_deq sys1)"

fun sched_prios ::
    "nat list \<Rightarrow> sock_dev \<Rightarrow> nat \<Rightarrow> nat \<Rightarrow> nat \<Rightarrow> odp_sys \<Rightarrow> (c_error + ((u32 \<times> u32 list) option \<times> odp_sys)) option" where
  "sched_prios [] dev tid max_num max_deq sys = Some (Inr (None, sys))"
| "sched_prios (p # ps) dev tid max_num max_deq sys =
    (if sc_pri_mask (sched sys) ! p = 0 then sched_prios ps dev tid max_num max_deq sys
     else run_then (sched_subs (map (\<lambda>j. (tid + j) mod QUEUES_PER_PRIO) [0..<QUEUES_PER_PRIO]) dev tid p max_num max_deq sys)
       (\<lambda>(r, sys1). if r \<noteq> None then Some (Inr (r, sys1)) else sched_prios ps dev tid max_num max_deq sys1))"

text \<open>The result: the queue the events come from, if any, and the events.\<close>

definition schedule ::
    "sock_dev \<Rightarrow> nat \<Rightarrow> nat \<Rightarrow> nat \<Rightarrow> odp_sys \<Rightarrow> (c_error + ((u32 \<times> u32 list) option \<times> odp_sys)) option" where
  "schedule dev tid max_num max_deq sys =
    (if sl_num (slocal sys tid) \<noteq> 0
     then
       let (evs, l) = copy_events max_num (sys_heap sys) (slocal sys tid)
       in (case sl_qe l of
             None \<Rightarrow> Some (Inl Null_Deref)
           | Some i \<Rightarrow> Some (Inr (Some (q_handle (qentry sys i), evs), set_local tid l sys)))
     else run_then (Some (odp_schedule_release_atomic dev tid sys)) (\<lambda>sys1.
       if sl_pause (slocal sys1 tid) then Some (Inr (None, sys1))
       else sched_prios [0..<ODP_CONFIG_SCHED_PRIOS] dev tid max_num max_deq sys1))"

section \<open>Waiting for events\<close>

definition ODP_SCHED_WAIT :: u64 where "ODP_SCHED_WAIT = 0"
definition ODP_SCHED_NO_WAIT :: u64 where "ODP_SCHED_NO_WAIT = 1"

text \<open>
  The loop around \<open>schedule\<close>. What the other threads do before a turn of the loop and the readings of the cycle counter are arguments,
  indexed by the number of the turn. The loop need not end, which is the result \<open>None\<close>.
\<close>

partial_function (option) schedule_loop ::
    "(nat \<Rightarrow> odp_sys \<Rightarrow> odp_sys) \<Rightarrow> (nat \<Rightarrow> u64) \<Rightarrow> sock_dev \<Rightarrow> nat \<Rightarrow> u64 \<Rightarrow> nat \<Rightarrow> nat \<Rightarrow> nat \<Rightarrow> u64 \<Rightarrow> odp_sys \<Rightarrow>
     (c_error + ((u32 \<times> u32 list) option \<times> odp_sys)) option" where
  "schedule_loop others clock dev tid wait max_num max_deq n start_cycle sys =
    (case schedule dev tid max_num max_deq (others n sys) of
       None \<Rightarrow> None
     | Some (Inl e) \<Rightarrow> Some (Inl e)
     | Some (Inr (r, sys1)) \<Rightarrow>
         if (case r of None \<Rightarrow> False | Some (h, evs) \<Rightarrow> evs \<noteq> []) then Some (Inr (r, sys1))
         else if wait = ODP_SCHED_WAIT then schedule_loop others clock dev tid wait max_num max_deq (n + 1) start_cycle sys1
         else if wait = ODP_SCHED_NO_WAIT then Some (Inr (r, sys1))
         else if start_cycle = 0 then schedule_loop others clock dev tid wait max_num max_deq (n + 1) (clock n) sys1
         else if wait < odp_time_diff_cycles start_cycle (clock n) then Some (Inr (r, sys1))
         else schedule_loop others clock dev tid wait max_num max_deq (n + 1) start_cycle sys1)"

text \<open>The event, or the invalid handle, and the queue handle that was written, if any.\<close>

definition odp_schedule ::
    "(nat \<Rightarrow> odp_sys \<Rightarrow> odp_sys) \<Rightarrow> (nat \<Rightarrow> u64) \<Rightarrow> sock_dev \<Rightarrow> nat \<Rightarrow> u64 \<Rightarrow> odp_sys \<Rightarrow> (c_error + ((u32 \<times> u32 option) \<times> odp_sys)) option" where
  "odp_schedule others clock dev tid wait sys =
    run_then (schedule_loop others clock dev tid wait 1 MAX_DEQ 0 0 sys) (\<lambda>(r, sys1).
      Some (Inr (case r of
                   None \<Rightarrow> (ODP_EVENT_INVALID, None)
                 | Some (h, evs) \<Rightarrow> (case evs of [] \<Rightarrow> ODP_EVENT_INVALID | ev # _ \<Rightarrow> ev, Some h), sys1)))"

text \<open>The number of events is given as a signed integer and converted to an unsigned one.\<close>

definition odp_schedule_multi ::
    "(nat \<Rightarrow> odp_sys \<Rightarrow> odp_sys) \<Rightarrow> (nat \<Rightarrow> u64) \<Rightarrow> sock_dev \<Rightarrow> nat \<Rightarrow> u64 \<Rightarrow> int \<Rightarrow> odp_sys \<Rightarrow>
     (c_error + ((u32 list \<times> u32 option) \<times> odp_sys)) option" where
  "odp_schedule_multi others clock dev tid wait num sys =
    run_then (schedule_loop others clock dev tid wait (unat (word_of_int num :: u32)) MAX_DEQ 0 0 sys) (\<lambda>(r, sys1).
      Some (Inr (case r of None \<Rightarrow> ([], None) | Some (h, evs) \<Rightarrow> (evs, Some h), sys1)))"

definition odp_schedule_wait_time :: "u64 \<Rightarrow> u64 \<Rightarrow> c_error + u64" where
  "odp_schedule_wait_time hz ns = odp_time_ns_to_cycles hz (if ns \<le> ODP_SCHED_NO_WAIT then ODP_SCHED_NO_WAIT + 1 else ns)"

definition odp_schedule_num_prio :: int where
  "odp_schedule_num_prio = int ODP_CONFIG_SCHED_PRIOS"

section \<open>Start and end\<close>

definition NUM_SCHED_CMD :: nat where "NUM_SCHED_CMD = ODP_CONFIG_QUEUES + ODP_CONFIG_PKTIO_ENTRIES"

text \<open>The names of the priority queues: the two digits of the priority and of the sub queue.\<close>

definition two_digits :: "nat \<Rightarrow> string" where
  "two_digits i = [char_of (48 + i div 10), char_of (48 + i - 10 * (i div 10))]"

definition pri_queue_name :: "nat \<Rightarrow> nat \<Rightarrow> string" where
  "pri_queue_name i j = ''odp_pri'' @ two_digits i @ ''_'' @ two_digits j"

fun create_pri_queues :: "(nat \<times> nat) list \<Rightarrow> nat \<Rightarrow> odp_sys \<Rightarrow> c_error + (int \<times> odp_sys)" where
  "create_pri_queues [] tid sys = Inr (0, sys)"
| "create_pri_queues ((i, j) # ijs) tid sys =
    and_then (odp_queue_create tid (pri_queue_name i j) ODP_QUEUE_TYPE_POLL None sys) (\<lambda>(queue, sys1).
      if queue = ODP_QUEUE_INVALID then Inr (-1, sys1)
      else create_pri_queues ijs tid
        (sys1\<lparr>sched := (sched sys1)\<lparr>sc_pri_queue := upd2 i j (\<lambda>_. queue) (sc_pri_queue (sched sys1)),
           sc_pri_mask := (sc_pri_mask (sched sys1))[i := 0]\<rparr>\<rparr>))"

definition all_sub_queues :: "(nat \<times> nat) list" where
  "all_sub_queues = concat (map (\<lambda>i. map (Pair i) [0..<QUEUES_PER_PRIO]) [0..<ODP_CONFIG_SCHED_PRIOS])"

definition zero_sched :: sched_t where
  "zero_sched = \<lparr>sc_pri_queue = replicate ODP_CONFIG_SCHED_PRIOS (replicate QUEUES_PER_PRIO 0), sc_pri_mask = replicate ODP_CONFIG_SCHED_PRIOS 0,
    sc_pool = 0, sc_pri_count = replicate ODP_CONFIG_SCHED_PRIOS (replicate QUEUES_PER_PRIO 0)\<rparr>"

text \<open>The result of reserving the shared memory of the scheduler and the size of a command are arguments, as for \<open>odp_pool_create\<close>.\<close>

definition odp_schedule_init_global ::
    "odp_abi \<Rightarrow> (string \<Rightarrow> u64 \<Rightarrow> u32 \<times> addr) \<Rightarrow> bool \<Rightarrow> u32 \<Rightarrow> nat \<Rightarrow> odp_sys \<Rightarrow> (c_error + (int \<times> odp_sys)) option" where
  "odp_schedule_init_global abi shm_reserve shm_ok cmd_size tid sys =
    (if \<not> shm_ok then Some (Inr (-1, sys))
     else
       run_then (odp_pool_create abi shm_reserve (Some ''odp_sched_pool'')
           (Some \<lparr>pp_type = ODP_POOL_BUFFER, pp_num = of_nat NUM_SCHED_CMD, pp_size_len = cmd_size, pp_align_seg_len = 0, pp_uarea_size = 0\<rparr>)
           (base sys)) (\<lambda>(pool, st).
         let sys1 = sys\<lparr>base := st, sched := zero_sched\<rparr>
         in if pool = ODP_POOL_INVALID then Some (Inr (-1, sys1))
            else Some (create_pri_queues all_sub_queues tid (sys1\<lparr>sched := zero_sched\<lparr>sc_pool := pool\<rparr>\<rparr>))))"

text \<open>At the end the commands left in a priority queue are taken out; a queue that was destroyed while scheduled is freed then.\<close>

partial_function (option) drain_pri_queue :: "sock_dev \<Rightarrow> nat \<Rightarrow> u32 \<Rightarrow> odp_sys \<Rightarrow> (c_error + odp_sys) option" where
  "drain_pri_queue dev tid pri_q sys =
    (case odp_queue_deq dev pri_q sys of
       None \<Rightarrow> None
     | Some (Inl e) \<Rightarrow> Some (Inl e)
     | Some (Inr (ev, sys1)) \<Rightarrow>
         if ev = ODP_EVENT_INVALID then Some (Inr sys1)
         else
           (case get_cmd ev sys1 of
              Inl e \<Rightarrow> Some (Inl e)
            | Inr (Cmd_Dequeue i) \<Rightarrow>
                (case queue_deq_multi (qentry sys1 i) (sys_heap sys1) 1 of
                   (None, q, hp) \<Rightarrow>
                     (case queue_destroy_finalize tid i (put_queue i q hp sys1) of
                        Inl e \<Rightarrow> Some (Inl e) | Inr sys2 \<Rightarrow> drain_pri_queue dev tid pri_q sys2)
                 | (Some _, q, hp) \<Rightarrow> drain_pri_queue dev tid pri_q (put_queue i q hp sys1))
            | Inr (Cmd_Poll_Pktin pktio k prio) \<Rightarrow>
                (case odp_buffer_free tid ev (base sys1) of
                   Inl e \<Rightarrow> Some (Inl e) | Inr st \<Rightarrow> drain_pri_queue dev tid pri_q (sys1\<lparr>base := st\<rparr>))))"

fun destroy_pri_queues :: "(nat \<times> nat) list \<Rightarrow> sock_dev \<Rightarrow> nat \<Rightarrow> int \<Rightarrow> odp_sys \<Rightarrow> (c_error + (int \<times> odp_sys)) option" where
  "destroy_pri_queues [] dev tid rc sys = Some (Inr (rc, sys))"
| "destroy_pri_queues ((i, j) # ijs) dev tid rc sys =
    (let pri_q = sc_pri_queue (sched sys) ! i ! j
     in run_then (drain_pri_queue dev tid pri_q sys) (\<lambda>sys1.
        run_then (Some (odp_queue_destroy tid pri_q sys1)) (\<lambda>(ret, sys2).
          destroy_pri_queues ijs dev tid (if ret \<noteq> 0 then -1 else rc) sys2)))"

definition odp_schedule_term_global :: "sock_dev \<Rightarrow> nat \<Rightarrow> int \<Rightarrow> odp_sys \<Rightarrow> (c_error + (int \<times> odp_sys)) option" where
  "odp_schedule_term_global dev tid shm_free_ret sys =
    run_then (destroy_pri_queues all_sub_queues dev tid 0 sys) (\<lambda>(rc, sys1).
    run_then (odp_pool_destroy tid (sc_pool (sched sys1)) (base sys1)) (\<lambda>(ret, st).
      Some (Inr (if ret \<noteq> 0 \<or> shm_free_ret < 0 then -1 else rc, sys1\<lparr>base := st\<rparr>))))"

end
