(* ===== verification/Odp_Pktio.thy ===== *)
theory Odp_Pktio
  imports Odp_Schedule
begin

text \<open>
  Opening, closing and configuring packet interfaces (\<open>odp_packet_io.c\<close>, \<open>pktio/loop.c\<close>, \<open>pktio/io_ops.c\<close>), and the classifier calls that
  take an interface (\<open>odp_classification.c\<close>). Sending and receiving are in the theory of the shared state.
\<close>

section \<open>Devices\<close>

text \<open>
  The two socket devices ask the kernel; what their calls return is an argument. The first argument of \<open>ctl_open\<close> tells the memory mapped
  device (True) from the other.
\<close>

record sock_ctl =
  ctl_open :: "bool \<Rightarrow> nat \<Rightarrow> string \<Rightarrow> u32 \<Rightarrow> int"
  ctl_close :: "nat \<Rightarrow> int"
  ctl_mtu :: "nat \<Rightarrow> int"
  ctl_promisc_set :: "nat \<Rightarrow> bool \<Rightarrow> int"
  ctl_promisc_get :: "nat \<Rightarrow> int"
  ctl_mac :: "nat \<Rightarrow> int \<times> u8 list"

definition upd_pktio :: "nat \<Rightarrow> (pktio_entry \<Rightarrow> pktio_entry) \<Rightarrow> odp_sys \<Rightarrow> odp_sys" where
  "upd_pktio k f sys = sys\<lparr>pktio_tbl := (pktio_tbl sys)[k := f (pktio_tbl sys ! k)]\<rparr>"

text \<open>Decimal numbers as \<open>printf\<close> writes them.\<close>

fun dec_digits :: "nat \<Rightarrow> string" where
  "dec_digits n = (if n < 10 then [char_of (48 + n)] else dec_digits (n div 10) @ [char_of (48 + n mod 10)])"

declare dec_digits.simps [simp del]

definition PKTIO_LOOP_MTU :: int where "PKTIO_LOOP_MTU = 1500"
definition ETH_ALEN :: int where "ETH_ALEN = 6"

definition pktio_loop_mac :: "u8 list" where
  "pktio_loop_mac = [0x02, 0xe9, 0x34, 0x80, 0x73, 0x01]"

definition loopback_open :: "nat \<Rightarrow> u32 \<Rightarrow> nat \<Rightarrow> string \<Rightarrow> odp_sys \<Rightarrow> c_error + (int \<times> odp_sys)" where
  "loopback_open tid pktio k devname sys =
    (if devname \<noteq> ''loop'' then Inr (-1, sys)
     else
       and_then (odp_queue_create tid (dec_digits (unat pktio) @ ''-pktio_loopq'') ODP_QUEUE_TYPE_POLL None sys) (\<lambda>(loopq, sys1).
         let sys2 = upd_pktio k (\<lambda>e. e\<lparr>pe_loopq := loopq\<rparr>) sys1
         in if loopq = ODP_QUEUE_INVALID then Inr (-1, sys2)
            else Inr (0, upd_pktio k (\<lambda>e. e\<lparr>pe_state := STATE_STOP\<rparr>) sys2)))"

definition loopback_close :: "nat \<Rightarrow> nat \<Rightarrow> odp_sys \<Rightarrow> c_error + (int \<times> odp_sys)" where
  "loopback_close tid k sys = odp_queue_destroy tid (pe_loopq (pktio_tbl sys ! k)) sys"

definition loopback_mtu_get :: int where
  "loopback_mtu_get = PKTIO_LOOP_MTU"

definition loopback_mac_addr_get :: "int \<times> u8 list" where
  "loopback_mac_addr_get = (ETH_ALEN, pktio_loop_mac)"

definition loopback_promisc_mode_set :: "nat \<Rightarrow> bool \<Rightarrow> odp_sys \<Rightarrow> int \<times> odp_sys" where
  "loopback_promisc_mode_set k enable sys = (0, upd_pktio k (\<lambda>e. e\<lparr>pe_promisc := enable\<rparr>) sys)"

definition loopback_promisc_mode_get :: "nat \<Rightarrow> odp_sys \<Rightarrow> int" where
  "loopback_promisc_mode_get k sys = (if pe_promisc (pktio_tbl sys ! k) then 1 else 0)"

text \<open>Starting and stopping only set the state, for all three devices.\<close>

definition loopback_start :: "nat \<Rightarrow> odp_sys \<Rightarrow> int \<times> odp_sys" where
  "loopback_start k sys = (0, upd_pktio k (\<lambda>e. e\<lparr>pe_state := STATE_START\<rparr>) sys)"

definition loopback_stop :: "nat \<Rightarrow> odp_sys \<Rightarrow> int \<times> odp_sys" where
  "loopback_stop k sys = (0, upd_pktio k (\<lambda>e. e\<lparr>pe_state := STATE_STOP\<rparr>) sys)"

definition sock_start :: "nat \<Rightarrow> odp_sys \<Rightarrow> int \<times> odp_sys" where
  "sock_start k sys = (0, upd_pktio k (\<lambda>e. e\<lparr>pe_state := STATE_START\<rparr>) sys)"

definition sock_stop :: "nat \<Rightarrow> odp_sys \<Rightarrow> int \<times> odp_sys" where
  "sock_stop k sys = (0, upd_pktio k (\<lambda>e. e\<lparr>pe_state := STATE_STOP\<rparr>) sys)"

section \<open>Entries\<close>

definition is_free :: "pktio_entry \<Rightarrow> bool" where "is_free entry \<longleftrightarrow> \<not> pe_taken entry"

definition set_free :: "pktio_entry \<Rightarrow> pktio_entry" where "set_free entry = entry\<lparr>pe_taken := False\<rparr>"

definition set_taken :: "pktio_entry \<Rightarrow> pktio_entry" where "set_taken entry = entry\<lparr>pe_taken := True\<rparr>"

definition init_pktio_entry :: "pktio_entry \<Rightarrow> pktio_entry" where
  "init_pktio_entry entry =
    (let e = set_taken entry
     in e\<lparr>pe_cls_enabled := True, pe_inq_default := ODP_QUEUE_INVALID, pe_cls := pktio_classifier_init (pe_cls e)\<rparr>)"

definition alloc_lock_pktio_entry :: "odp_sys \<Rightarrow> u32 \<times> odp_sys" where
  "alloc_lock_pktio_entry sys =
    (case first_index is_free (pktio_tbl sys) of
       None \<Rightarrow> (ODP_PKTIO_INVALID, sys)
     | Some i \<Rightarrow> (of_nat (i + 1), upd_pktio i init_pktio_entry sys))"

definition free_pktio_entry :: "u32 \<Rightarrow> odp_sys \<Rightarrow> int \<times> odp_sys" where
  "free_pktio_entry io sys =
    (case get_pktio_entry sys io of None \<Rightarrow> (-1, sys) | Some k \<Rightarrow> (0, upd_pktio k set_free sys))"

text \<open>The devices in the order of \<open>pktio_if_ops\<close>: the first that opens is used. Opening a socket sets the state.\<close>

definition open_device ::
    "sock_ctl \<Rightarrow> nat \<Rightarrow> u32 \<Rightarrow> nat \<Rightarrow> string \<Rightarrow> u32 \<Rightarrow> odp_sys \<Rightarrow> c_error + (int \<times> odp_sys)" where
  "open_device ctl tid pktio k dev pool sys =
    and_then (loopback_open tid pktio k dev sys) (\<lambda>(ret, sys1).
      if ret = 0 then Inr (0, upd_pktio k (\<lambda>e. e\<lparr>pe_ops := Loop_Ops\<rparr>) sys1)
      else if ctl_open ctl True k dev pool = 0 \<or> ctl_open ctl False k dev pool = 0
      then Inr (0, upd_pktio k (\<lambda>e. e\<lparr>pe_ops := Sock_Ops, pe_state := STATE_STOP\<rparr>) sys1)
      else Inr (-1, sys1))"

definition setup_pktio_entry :: "sock_ctl \<Rightarrow> nat \<Rightarrow> string \<Rightarrow> u32 \<Rightarrow> odp_sys \<Rightarrow> c_error + (u32 \<times> odp_sys)" where
  "setup_pktio_entry ctl tid dev pool sys =
    (if length dev \<ge> IF_NAMESIZE then Inr (ODP_PKTIO_INVALID, sys)
     else
       let (pktio, sys1) = alloc_lock_pktio_entry sys
       in if pktio = ODP_PKTIO_INVALID then Inr (ODP_PKTIO_INVALID, sys1)
          else (case get_pktio_entry sys1 pktio of
                  None \<Rightarrow> Inr (ODP_PKTIO_INVALID, sys1)
                | Some k \<Rightarrow>
                    and_then (open_device ctl tid pktio k dev pool sys1) (\<lambda>(ret, sys2).
                      if ret \<noteq> 0
                      then Inr (ODP_PKTIO_INVALID,
                        upd_pktio k (\<lambda>e. e\<lparr>pe_handle := ODP_PKTIO_INVALID\<rparr>) (snd (free_pktio_entry pktio sys2)))
                      else Inr (pktio,
                        upd_pktio k (\<lambda>e. e\<lparr>pe_handle := pktio\<rparr>) (upd_pktio k (\<lambda>e. e\<lparr>pe_name := dev\<rparr>) sys2)))))"

text \<open>The entry whose name agrees in the first \<open>IF_NAMESIZE\<close> characters.\<close>

definition odp_pktio_lookup :: "string \<Rightarrow> odp_sys \<Rightarrow> u32" where
  "odp_pktio_lookup dev sys =
    (case first_index (\<lambda>e. \<not> is_free e \<and> take IF_NAMESIZE (pe_name e) = take IF_NAMESIZE dev) (pktio_tbl sys) of
       None \<Rightarrow> ODP_PKTIO_INVALID | Some i \<Rightarrow> of_nat (i + 1))"

definition odp_pktio_open :: "sock_ctl \<Rightarrow> nat \<Rightarrow> string \<Rightarrow> u32 \<Rightarrow> odp_sys \<Rightarrow> c_error + (u32 \<times> odp_sys)" where
  "odp_pktio_open ctl tid dev pool sys =
    (if odp_pktio_lookup dev sys \<noteq> ODP_PKTIO_INVALID then Inr (ODP_PKTIO_INVALID, sys)
     else setup_pktio_entry ctl tid dev pool sys)"

definition odp_pktio_close :: "sock_ctl \<Rightarrow> nat \<Rightarrow> u32 \<Rightarrow> odp_sys \<Rightarrow> c_error + (int \<times> odp_sys)" where
  "odp_pktio_close ctl tid pktio sys =
    (case get_pktio_entry sys pktio of
       None \<Rightarrow> Inr (-1, sys)
     | Some k \<Rightarrow>
         if is_free (pktio_tbl sys ! k) then Inr (-1, sys)
         else
           and_then
             (case pe_ops (pktio_tbl sys ! k) of
                No_Ops \<Rightarrow> Inl Null_Deref
              | Loop_Ops \<Rightarrow> loopback_close tid k sys
              | Sock_Ops \<Rightarrow> Inr (ctl_close ctl k, sys))
             (\<lambda>(res, sys1).
                let (res2, sys2) = free_pktio_entry pktio sys1
                in Inr (if res \<noteq> 0 \<or> res2 \<noteq> 0 then -1 else 0, sys2)))"

text \<open>Starting and stopping do not ask whether the entry is free.\<close>

definition odp_pktio_start :: "u32 \<Rightarrow> odp_sys \<Rightarrow> c_error + (int \<times> odp_sys)" where
  "odp_pktio_start pktio sys =
    (case get_pktio_entry sys pktio of
       None \<Rightarrow> Inr (-1, sys)
     | Some k \<Rightarrow>
         (case pe_ops (pktio_tbl sys ! k) of
            No_Ops \<Rightarrow> Inl Null_Deref | Loop_Ops \<Rightarrow> Inr (loopback_start k sys) | Sock_Ops \<Rightarrow> Inr (sock_start k sys)))"

definition odp_pktio_stop :: "u32 \<Rightarrow> odp_sys \<Rightarrow> c_error + (int \<times> odp_sys)" where
  "odp_pktio_stop pktio sys =
    (case get_pktio_entry sys pktio of
       None \<Rightarrow> Inr (-1, sys)
     | Some k \<Rightarrow>
         (case pe_ops (pktio_tbl sys ! k) of
            No_Ops \<Rightarrow> Inl Null_Deref | Loop_Ops \<Rightarrow> Inr (loopback_stop k sys) | Sock_Ops \<Rightarrow> Inr (sock_stop k sys)))"

section \<open>Queues of an interface\<close>

definition odp_pktio_inq_setdef :: "sock_dev \<Rightarrow> nat \<Rightarrow> u32 \<Rightarrow> u32 \<Rightarrow> odp_sys \<Rightarrow> c_error + (int \<times> odp_sys)" where
  "odp_pktio_inq_setdef dev tid pktio queue sys =
    (case get_pktio_entry sys pktio of
       None \<Rightarrow> Inr (-1, sys)
     | Some k \<Rightarrow>
         if queue = ODP_QUEUE_INVALID then Inr (-1, sys)
         else
           and_then (queue_to_qentry sys queue) (\<lambda>i.
             if q_type (qentry sys i) \<noteq> ODP_QUEUE_TYPE_PKTIN then Inr (-1, sys)
             else
               and_then (schedule_pktio_start dev tid pktio ODP_SCHED_PRIO_LOWEST
                   (upd_queue i (\<lambda>q. q\<lparr>q_pktin := pktio\<rparr>) (upd_pktio k (\<lambda>e. e\<lparr>pe_inq_default := queue\<rparr>) sys)))
                 (\<lambda>(ret, sys1). Inr (if ret \<noteq> 0 then -1 else 0, sys1))))"

definition odp_pktio_inq_remdef :: "u32 \<Rightarrow> odp_sys \<Rightarrow> c_error + (int \<times> odp_sys)" where
  "odp_pktio_inq_remdef pktio sys =
    (case get_pktio_entry sys pktio of
       None \<Rightarrow> Inr (-1, sys)
     | Some k \<Rightarrow>
         and_then (queue_to_qentry sys (pe_inq_default (pktio_tbl sys ! k))) (\<lambda>i.
           Inr (0, upd_pktio k (\<lambda>e. e\<lparr>pe_inq_default := ODP_QUEUE_INVALID\<rparr>)
                     (upd_queue i (\<lambda>q. q\<lparr>q_pktin := ODP_PKTIO_INVALID\<rparr>) sys))))"

definition odp_pktio_inq_getdef :: "u32 \<Rightarrow> odp_sys \<Rightarrow> u32" where
  "odp_pktio_inq_getdef pktio sys =
    (case get_pktio_entry sys pktio of None \<Rightarrow> ODP_QUEUE_INVALID | Some k \<Rightarrow> pe_inq_default (pktio_tbl sys ! k))"

definition odp_pktio_outq_getdef :: "u32 \<Rightarrow> odp_sys \<Rightarrow> u32" where
  "odp_pktio_outq_getdef pktio sys =
    (case get_pktio_entry sys pktio of None \<Rightarrow> ODP_QUEUE_INVALID | Some k \<Rightarrow> pe_outq_default (pktio_tbl sys ! k))"

section \<open>Properties of an interface\<close>

text \<open>The calls that need an open interface.\<close>

definition with_open ::
    "u32 \<Rightarrow> odp_sys \<Rightarrow> 'a \<Rightarrow> (nat \<Rightarrow> c_error + 'a) \<Rightarrow> c_error + 'a" where
  "with_open pktio sys fail f =
    (case get_pktio_entry sys pktio of None \<Rightarrow> Inr fail | Some k \<Rightarrow> if is_free (pktio_tbl sys ! k) then Inr fail else f k)"

definition odp_pktio_mtu :: "sock_ctl \<Rightarrow> u32 \<Rightarrow> odp_sys \<Rightarrow> c_error + int" where
  "odp_pktio_mtu ctl pktio sys = with_open pktio sys (-1) (\<lambda>k.
    (case pe_ops (pktio_tbl sys ! k) of
       No_Ops \<Rightarrow> Inl Null_Deref | Loop_Ops \<Rightarrow> Inr loopback_mtu_get | Sock_Ops \<Rightarrow> Inr (ctl_mtu ctl k)))"

definition odp_pktio_promisc_mode_set :: "sock_ctl \<Rightarrow> u32 \<Rightarrow> bool \<Rightarrow> odp_sys \<Rightarrow> c_error + (int \<times> odp_sys)" where
  "odp_pktio_promisc_mode_set ctl pktio enable sys = with_open pktio sys (-1, sys) (\<lambda>k.
    (case pe_ops (pktio_tbl sys ! k) of
       No_Ops \<Rightarrow> Inl Null_Deref
     | Loop_Ops \<Rightarrow> Inr (loopback_promisc_mode_set k enable sys)
     | Sock_Ops \<Rightarrow> Inr (ctl_promisc_set ctl k enable, sys)))"

definition odp_pktio_promisc_mode :: "sock_ctl \<Rightarrow> u32 \<Rightarrow> odp_sys \<Rightarrow> c_error + int" where
  "odp_pktio_promisc_mode ctl pktio sys = with_open pktio sys (-1) (\<lambda>k.
    (case pe_ops (pktio_tbl sys ! k) of
       No_Ops \<Rightarrow> Inl Null_Deref | Loop_Ops \<Rightarrow> Inr (loopback_promisc_mode_get k sys) | Sock_Ops \<Rightarrow> Inr (ctl_promisc_get ctl k)))"

text \<open>The result and the bytes that are written.\<close>

definition odp_pktio_mac_addr :: "sock_ctl \<Rightarrow> u32 \<Rightarrow> int \<Rightarrow> odp_sys \<Rightarrow> c_error + (int \<times> u8 list)" where
  "odp_pktio_mac_addr ctl pktio addr_size sys =
    (if addr_size < ETH_ALEN then Inr (-1, [])
     else with_open pktio sys (-1, []) (\<lambda>k.
       (case pe_ops (pktio_tbl sys ! k) of
          No_Ops \<Rightarrow> Inl Null_Deref | Loop_Ops \<Rightarrow> Inr loopback_mac_addr_get | Sock_Ops \<Rightarrow> Inr (ctl_mac ctl k))))"

section \<open>Classification of an interface\<close>

definition on_classifier :: "u32 \<Rightarrow> (classifier \<Rightarrow> c_error + (int \<times> classifier)) \<Rightarrow> odp_sys \<Rightarrow> c_error + (int \<times> odp_sys)" where
  "on_classifier pktio f sys =
    (case get_pktio_entry sys pktio of
       None \<Rightarrow> Inr (-1, sys)
     | Some k \<Rightarrow> and_then (f (pe_cls (pktio_tbl sys ! k))) (\<lambda>(ret, c). Inr (ret, upd_pktio k (\<lambda>e. e\<lparr>pe_cls := c\<rparr>) sys)))"

definition odp_pktio_default_cos_set :: "u32 \<Rightarrow> u32 \<Rightarrow> odp_sys \<Rightarrow> c_error + (int \<times> odp_sys)" where
  "odp_pktio_default_cos_set pktio cos sys = on_classifier pktio (\<lambda>c. Inr (classifier_default_cos_set (cls sys) cos c)) sys"

definition odp_pktio_error_cos_set :: "u32 \<Rightarrow> u32 \<Rightarrow> odp_sys \<Rightarrow> c_error + (int \<times> odp_sys)" where
  "odp_pktio_error_cos_set pktio cos sys = on_classifier pktio (\<lambda>c. Inr (classifier_error_cos_set (cls sys) cos c)) sys"

definition odp_pktio_skip_set :: "u32 \<Rightarrow> u32 \<Rightarrow> odp_sys \<Rightarrow> c_error + (int \<times> odp_sys)" where
  "odp_pktio_skip_set pktio off sys = on_classifier pktio (\<lambda>c. Inr (classifier_skip_set off c)) sys"

definition odp_pktio_headroom_set :: "u32 \<Rightarrow> u32 \<Rightarrow> odp_sys \<Rightarrow> c_error + (int \<times> odp_sys)" where
  "odp_pktio_headroom_set pktio hr sys = on_classifier pktio (\<lambda>c. Inr (classifier_headroom_set hr c)) sys"

definition odp_cos_with_l2_priority :: "u32 \<Rightarrow> (u8 \<times> u32) list \<Rightarrow> odp_sys \<Rightarrow> c_error + (int \<times> odp_sys)" where
  "odp_cos_with_l2_priority pktio qs sys = on_classifier pktio (cos_with_l2_priority (cls sys) qs) sys"

definition odp_cos_with_l3_qos :: "u32 \<Rightarrow> (u8 \<times> u32) list \<Rightarrow> bool \<Rightarrow> odp_sys \<Rightarrow> c_error + (int \<times> odp_sys)" where
  "odp_cos_with_l3_qos pktio qs l3_preference sys = on_classifier pktio (cos_with_l3_qos (cls sys) qs l3_preference) sys"

definition odp_pktio_pmr_cos :: "u32 \<Rightarrow> u32 \<Rightarrow> u32 \<Rightarrow> odp_sys \<Rightarrow> c_error + (int \<times> odp_sys)" where
  "odp_pktio_pmr_cos pmr_id src_pktio dst_cos sys = on_classifier src_pktio (classifier_pmr_cos (cls sys) pmr_id dst_cos) sys"

definition odp_pktio_pmr_match_set_cos :: "u32 \<Rightarrow> u32 \<Rightarrow> u32 \<Rightarrow> odp_sys \<Rightarrow> c_error + (int \<times> odp_sys)" where
  "odp_pktio_pmr_match_set_cos pmr_set_id src_pktio dst_cos sys =
    on_classifier src_pktio (classifier_pmr_match_set_cos (cls sys) pmr_set_id dst_cos) sys"

section \<open>Start and end\<close>

definition zero_classifier :: classifier where
  "zero_classifier = \<lparr>cls_num_pmr = 0, cls_pmr = replicate ODP_PKTIO_MAX_PMR None, cls_cos = replicate ODP_PKTIO_MAX_PMR None,
    cls_error_cos = None, cls_default_cos = None, cls_l3_precedence = False, cls_l2_cos = replicate ODP_COS_MAX_L2_QOS None,
    cls_l3_cos = replicate ODP_COS_MAX_L3_QOS None, cls_flow_set = 0, cls_headroom = 0, cls_skip = 0\<rparr>"

definition zero_pktio_entry :: pktio_entry where
  "zero_pktio_entry = \<lparr>pe_ops = No_Ops, pe_taken = False, pe_cls_enabled = False, pe_handle = 0, pe_inq_default = 0, pe_outq_default = 0,
    pe_loopq = 0, pe_promisc = False, pe_state = STATE_START, pe_name = [], pe_cls = zero_classifier\<rparr>"

text \<open>A default output queue for every interface; the result of reserving the shared memory of the table is an argument.\<close>

fun create_outqs :: "nat list \<Rightarrow> nat \<Rightarrow> odp_sys \<Rightarrow> c_error + (int \<times> odp_sys)" where
  "create_outqs [] tid sys = Inr (0, sys)"
| "create_outqs (n # ns) tid sys =
    and_then (odp_queue_create tid (dec_digits n @ ''-pktio_outq_default'') ODP_QUEUE_TYPE_PKTOUT None sys) (\<lambda>(qid, sys1).
      if qid = ODP_QUEUE_INVALID then Inr (-1, sys1)
      else and_then (queue_to_qentry sys1 qid) (\<lambda>i.
        create_outqs ns tid (upd_queue i (\<lambda>q. q\<lparr>q_pktout := of_nat n\<rparr>) (upd_pktio (n - 1) (\<lambda>e. e\<lparr>pe_outq_default := qid\<rparr>) sys1))))"

definition odp_pktio_init_global :: "bool \<Rightarrow> nat \<Rightarrow> odp_sys \<Rightarrow> c_error + (int \<times> odp_sys)" where
  "odp_pktio_init_global shm_ok tid sys =
    (if \<not> shm_ok then Inr (-1, sys)
     else create_outqs [1..<ODP_CONFIG_PKTIO_ENTRIES + 1] tid (sys\<lparr>pktio_tbl := replicate ODP_CONFIG_PKTIO_ENTRIES zero_pktio_entry\<rparr>))"

fun destroy_outqs :: "nat list \<Rightarrow> nat \<Rightarrow> odp_sys \<Rightarrow> c_error + odp_sys" where
  "destroy_outqs [] tid sys = Inr sys"
| "destroy_outqs (n # ns) tid sys =
    and_then (odp_queue_destroy tid (pe_outq_default (pktio_tbl sys ! (n - 1))) sys) (\<lambda>(_, sys1). destroy_outqs ns tid sys1)"

definition odp_pktio_term_global :: "int \<Rightarrow> nat \<Rightarrow> odp_sys \<Rightarrow> c_error + (int \<times> odp_sys)" where
  "odp_pktio_term_global shm_free_ret tid sys =
    and_then (destroy_outqs [1..<ODP_CONFIG_PKTIO_ENTRIES + 1] tid sys) (\<lambda>sys1. Inr (shm_free_ret, sys1))"

end
