(* ===== verification/Odp_Schedule_Inv.thy ===== *)
theory Odp_Schedule_Inv
  imports Odp_Schedule
begin

text \<open>
  The invariant of the scheduler: every queue as a list, the place of the command of every scheduled queue, and the data of the
  threads; enqueue, release of an atomic queue and the search for events keep it and do not abort.
\<close>

section \<open>All queues as lists\<close>

text \<open>\<open>L i\<close> are the headers in queue \<open>i\<close>; no header is in two queues.\<close>

definition queues_rep :: "odp_sys \<Rightarrow> (nat \<Rightarrow> addr list) \<Rightarrow> bool" where
  "queues_rep sys L \<longleftrightarrow>
    (\<forall>i<length (queue_tbl sys). queue_rep (qentry sys i) (sys_heap sys) (L i)) \<and>
    (\<forall>i<length (queue_tbl sys). \<forall>j<length (queue_tbl sys). i \<noteq> j \<longrightarrow> set (L i) \<inter> set (L j) = {})"

definition in_queues :: "odp_sys \<Rightarrow> (nat \<Rightarrow> addr list) \<Rightarrow> addr set" where
  "in_queues sys L = (\<Union>i<length (queue_tbl sys). set (L i))"

lemma put_queue_simps [simp]:
  "queue_tbl (put_queue i q hp sys) = (queue_tbl sys)[i := q]" "sys_heap (put_queue i q hp sys) = hp"
  "pool_tbl (base (put_queue i q hp sys)) = pool_tbl (base sys)" "sched (put_queue i q hp sys) = sched sys"
  "sched_cmds (put_queue i q hp sys) = sched_cmds sys" "sched_locals (put_queue i q hp sys) = sched_locals sys"
  "pktio_tbl (put_queue i q hp sys) = pktio_tbl sys" "cls (put_queue i q hp sys) = cls sys"
  by (simp_all add: put_queue_def set_heap_def)

lemma queues_repD: "queues_rep sys L \<Longrightarrow> i < length (queue_tbl sys) \<Longrightarrow> queue_rep (qentry sys i) (sys_heap sys) (L i)"
  by (simp add: queues_rep_def)

lemma queues_rep_put:
  assumes rep: "queues_rep sys L" and i: "i < length (queue_tbl sys)" and q: "queue_rep q hp xs"
    and fr: "next_only A (sys_heap sys) hp" and A: "\<And>j. j < length (queue_tbl sys) \<Longrightarrow> j \<noteq> i \<Longrightarrow> set (L j) \<inter> A = {}"
    and dis: "\<And>j. j < length (queue_tbl sys) \<Longrightarrow> j \<noteq> i \<Longrightarrow> set (L j) \<inter> set xs = {}"
  shows "queues_rep (put_queue i q hp sys) (L(i := xs))"
proof -
  have "queue_rep (qentry sys j) hp (L j)" if "j < length (queue_tbl sys)" "j \<noteq> i" for j
    using queue_rep_frame [OF queues_repD [OF rep that(1)] fr A [OF that]] .
  moreover have "set (L j) \<inter> set (L k) = {}" if "j < length (queue_tbl sys)" "k < length (queue_tbl sys)" "j \<noteq> k" for j k
    using rep that by (simp add: queues_rep_def)
  moreover have "set (L j) \<inter> set xs = {} \<and> set xs \<inter> set (L j) = {}" if "j < length (queue_tbl sys)" "j \<noteq> i" for j
    using dis [OF that] by blast
  ultimately show ?thesis using q i by (simp add: queues_rep_def nth_list_update)
qed

text \<open>One header at the end of a queue.\<close>

lemma enq_locked_ok:
  assumes rep: "queues_rep sys L" and i: "i < length (queue_tbl sys)" and live: "live_queue (qentry sys i)"
    and a: "a \<noteq> NULL" "a \<notin> in_queues sys L"
  shows "\<exists>q hp. enq_locked (qentry sys i) (sys_heap sys) a = Some (q_status (qentry sys i) = QUEUE_STATUS_NOTSCHED, q, hp) \<and>
    queues_rep (put_queue i q hp sys) (L(i := L i @ [a])) \<and> q_status q = enq_status (q_status (qentry sys i)) \<and>
    queue_same (qentry sys i) q \<and> next_only (set (L i) \<union> {a}) (sys_heap sys) hp"
proof -
  let ?q = "qentry sys i" and ?hp = "sys_heap sys" and ?hp1 = "link_chain [a] (sys_heap sys)"
  have ai: "a \<notin> set (L j)" if "j < length (queue_tbl sys)" for j using a(2) that by (auto simp: in_queues_def)
  have lc: "linked (hdr_next ?hp1) a [a]" "next_only {a} ?hp ?hp1" using link_chain_ok [of "[a]" ?hp] a(1) by auto
  have rep1: "queue_rep ?q ?hp1 (L i)" using queue_rep_frame [OF queues_repD [OF rep i] lc(2)] ai [OF i] by auto
  have "a \<noteq> q_tail ?q \<or> q_head ?q = NULL"
    using queues_repD [OF rep i] ai [OF i] by (cases "L i = []") (auto simp: queue_rep_def)
  then have eq: "enq_locked ?q ?hp a = enq_multi_locked ?q ?hp1 [a] 1" by (rule enq_locked_multi)
  from enq_multi_ok [OF rep1 live, of "[a]" 1 "[a]"] lc(1) ai [OF i] obtain q hp where
    q: "enq_multi_locked ?q ?hp1 [a] 1 = Some (q_status ?q = QUEUE_STATUS_NOTSCHED, q, hp)"
    "queue_rep q hp (L i @ [a])" "q_status q = enq_status (q_status ?q)" "queue_same ?q q" "next_only (set (L i)) ?hp1 hp" by auto
  have fr: "next_only (set (L i) \<union> {a}) ?hp hp"
    using next_only_trans [OF next_only_mono [OF lc(2)] next_only_mono [OF q(5)]] by auto
  have "queues_rep (put_queue i q hp sys) (L(i := L i @ [a]))"
    by (rule queues_rep_put [OF rep i q(2) fr]) (use rep i ai in \<open>auto simp: queues_rep_def\<close>)
  then show ?thesis using q fr eq by auto
qed

text \<open>Headers from the front of a queue.\<close>

lemma take_drop_queues:
  assumes rep: "queues_rep sys L" and i: "i < length (queue_tbl sys)"
    and q: "queue_rep q hp (drop n (L i))" and fr: "next_only (set (take n (L i))) (sys_heap sys) hp"
  shows "queues_rep (put_queue i q hp sys) (L(i := drop n (L i)))"
proof (rule queues_rep_put [OF rep i q fr])
  fix j assume j: "j < length (queue_tbl sys)" "j \<noteq> i"
  then have "set (L j) \<inter> set (L i) = {}" using rep i by (simp add: queues_rep_def)
  then show "set (L j) \<inter> set (take n (L i)) = {}" "set (L j) \<inter> set (drop n (L i)) = {}"
    using set_take_subset [of n "L i"] set_drop_subset [of n "L i"] by auto
qed

lemma deq_queues:
  assumes rep: "queues_rep sys L" and i: "i < length (queue_tbl sys)"
  shows "\<exists>q hp. queue_deq (qentry sys i) (sys_heap sys) = (if L i = [] then NULL else hd (L i), q, hp) \<and>
    queues_rep (put_queue i q hp sys) (L(i := tl (L i))) \<and> queue_same (qentry sys i) q \<and>
    q_status q = (if L i = [] \<and> q_status (qentry sys i) = QUEUE_STATUS_SCHED then QUEUE_STATUS_NOTSCHED else q_status (qentry sys i)) \<and>
    next_only (set (take 1 (L i))) (sys_heap sys) hp"
proof -
  from deq_ok [OF queues_repD [OF rep i]] obtain q hp where
    q: "queue_deq (qentry sys i) (sys_heap sys) = (if L i = [] then NULL else hd (L i), q, hp)" "queue_rep q hp (tl (L i))"
    "q_status q = (if L i = [] \<and> q_status (qentry sys i) = QUEUE_STATUS_SCHED then QUEUE_STATUS_NOTSCHED else q_status (qentry sys i))"
    "queue_same (qentry sys i) q" "next_only (set (take 1 (L i))) (sys_heap sys) hp" by auto
  have "queues_rep (put_queue i q hp sys) (L(i := tl (L i)))"
    using take_drop_queues [OF rep i, of q hp 1] q(2,5) by (simp add: drop_Suc)
  then show ?thesis using q by blast
qed

lemma deq_multi_queues:
  assumes rep: "queues_rep sys L" and i: "i < length (queue_tbl sys)" and live: "live_queue (qentry sys i)"
  shows "\<exists>q hp. queue_deq_multi (qentry sys i) (sys_heap sys) (int n) = (Some (take n (L i)), q, hp) \<and>
    queues_rep (put_queue i q hp sys) (L(i := drop n (L i))) \<and> queue_same (qentry sys i) q \<and>
    q_status q = (if L i = [] \<and> q_status (qentry sys i) = QUEUE_STATUS_SCHED then QUEUE_STATUS_NOTSCHED else q_status (qentry sys i)) \<and>
    next_only (set (take n (L i))) (sys_heap sys) hp"
proof -
  from deq_multi_ok [OF queues_repD [OF rep i] live, of "int n"] obtain q hp where
    q: "queue_deq_multi (qentry sys i) (sys_heap sys) (int n) = (Some (take n (L i)), q, hp)" "queue_rep q hp (drop n (L i))"
    "q_status q = (if L i = [] \<and> q_status (qentry sys i) = QUEUE_STATUS_SCHED then QUEUE_STATUS_NOTSCHED else q_status (qentry sys i))"
    "queue_same (qentry sys i) q" "next_only (set (take n (L i))) (sys_heap sys) hp" by auto
  then show ?thesis using take_drop_queues [OF rep i q(2,5)] by blast
qed

section \<open>Where the command of a queue is\<close>

text \<open>
  The scheduled queues \<open>S\<close>, the header of the command of each (\<open>cmd\<close>) and the index of its priority queue (\<open>pri\<close>) do not change while
  queues are used; what changes is where the commands are: in a priority queue, or with a thread (\<open>H\<close>).
\<close>

record sched_map =
  sm_queues :: "nat set"
  sm_cmd :: "nat \<Rightarrow> addr"
  sm_pri :: "nat \<Rightarrow> nat"

text \<open>What the tables say about a scheduled queue.\<close>

definition sched_queue :: "sched_map \<Rightarrow> odp_sys \<Rightarrow> nat \<Rightarrow> bool" where
  "sched_queue M sys i \<longleftrightarrow>
    (let q = qentry sys i
     in i < length (queue_tbl sys) \<and> q_funcs q \<noteq> Pktout_Funcs \<and> q_cmd_ev q \<noteq> ODP_EVENT_INVALID \<and>
        odp_buf_to_hdr (base sys) (q_cmd_ev q) = Inr (sm_cmd M i) \<and> sm_cmd M i \<noteq> NULL \<and>
        bh_handle (bhdr (sys_heap sys) (sm_cmd M i)) = q_cmd_ev q \<and> get_cmd (q_cmd_ev q) sys = Inr (Cmd_Dequeue i) \<and>
        queue_to_qentry sys (q_handle q) = Inr i \<and> q_pri_queue q \<noteq> ODP_QUEUE_INVALID \<and> queue_to_qentry sys (q_pri_queue q) = Inr (sm_pri M i))"

definition pri_queue_ok :: "odp_sys \<Rightarrow> nat \<Rightarrow> bool" where
  "pri_queue_ok sys j \<longleftrightarrow> j < length (queue_tbl sys) \<and> q_status (qentry sys j) = QUEUE_STATUS_READY \<and> q_funcs (qentry sys j) = Queue_Funcs"

text \<open>The indices of all priority queues.\<close>

definition pri_queues :: "odp_sys \<Rightarrow> nat set" where
  "pri_queues sys = {j. \<exists>p<ODP_CONFIG_SCHED_PRIOS. \<exists>k<QUEUES_PER_PRIO. queue_to_qentry sys (sc_pri_queue (sched sys) ! p ! k) = Inr j}"

definition sched_static :: "sched_map \<Rightarrow> odp_sys \<Rightarrow> bool" where
  "sched_static M sys \<longleftrightarrow>
    (\<forall>i\<in>sm_queues M. sched_queue M sys i \<and> sm_pri M i \<in> pri_queues sys \<and> i \<notin> pri_queues sys) \<and>
    inj_on (sm_cmd M) (sm_queues M) \<and> (\<forall>j\<in>pri_queues sys. pri_queue_ok sys j) \<and>
    (\<forall>p<ODP_CONFIG_SCHED_PRIOS. \<forall>k<QUEUES_PER_PRIO. \<exists>j. queue_to_qentry sys (sc_pri_queue (sched sys) ! p ! k) = Inr j)"

text \<open>
  Where the commands are. \<open>H tid\<close> is the queue whose command a thread holds. A queue that is not scheduled is empty and its command is
  nowhere; the command of a scheduled queue is in its priority queue or with a thread, and not in both.
\<close>

definition held :: "(nat \<Rightarrow> nat option) \<Rightarrow> nat \<Rightarrow> bool" where
  "held H i \<longleftrightarrow> (\<exists>tid. H tid = Some i)"

definition cmds_ok ::
    "sched_map \<Rightarrow> nat set \<Rightarrow> (nat \<Rightarrow> queue_status) \<Rightarrow> addr set \<Rightarrow> (nat \<Rightarrow> addr list) \<Rightarrow> (nat \<Rightarrow> nat option) \<Rightarrow> bool" where
  "cmds_ok M P st Q L H \<longleftrightarrow>
    (\<forall>i\<in>sm_queues M.
       (st i = QUEUE_STATUS_NOTSCHED \<and> L i = [] \<and> sm_cmd M i \<notin> Q \<and> \<not> held H i) \<or>
       (st i = QUEUE_STATUS_SCHED \<and>
          (sm_cmd M i \<in> set (L (sm_pri M i)) \<and> \<not> held H i \<or> sm_cmd M i \<notin> Q \<and> held H i))) \<and>
    (\<forall>j\<in>P. set (L j) \<subseteq> sm_cmd M ` sm_queues M)"

text \<open>The thread-local data: what a thread holds, and where pre-scheduled events come from.\<close>

definition local_ok :: "sched_map \<Rightarrow> odp_sys \<Rightarrow> nat option \<Rightarrow> sched_local_t \<Rightarrow> bool" where
  "local_ok M sys h l \<longleftrightarrow>
    (case h of
       None \<Rightarrow> sl_pri_queue l = ODP_QUEUE_INVALID
     | Some i \<Rightarrow> i \<in> sm_queues M \<and> queue_is_atomic (qentry sys i) \<and> sl_pri_queue l = q_pri_queue (qentry sys i) \<and>
         sl_cmd_ev l = q_cmd_ev (qentry sys i) \<and> sl_qe l = Some i) \<and>
    length (sl_buf_hdr l) = MAX_DEQ \<and> sl_index l + sl_num l \<le> MAX_DEQ \<and>
    (sl_num l \<noteq> 0 \<longrightarrow> (\<exists>i\<in>sm_queues M. sl_qe l = Some i \<and> (queue_is_atomic (qentry sys i) \<longrightarrow> h = Some i)))"

definition locals_ok :: "sched_map \<Rightarrow> odp_sys \<Rightarrow> (nat \<Rightarrow> nat option) \<Rightarrow> bool" where
  "locals_ok M sys H \<longleftrightarrow>
    (\<forall>t u i. H t = Some i \<longrightarrow> H u = Some i \<longrightarrow> t = u) \<and> (\<forall>t. local_ok M sys (H t) (slocal sys t))"

abbreviation qstat :: "odp_sys \<Rightarrow> nat \<Rightarrow> queue_status" where
  "qstat sys \<equiv> (\<lambda>i. q_status (qentry sys i))"

definition sched_dyn :: "sched_map \<Rightarrow> odp_sys \<Rightarrow> (nat \<Rightarrow> addr list) \<Rightarrow> (nat \<Rightarrow> nat option) \<Rightarrow> bool" where
  "sched_dyn M sys L H \<longleftrightarrow> cmds_ok M (pri_queues sys) (qstat sys) (in_queues sys L) L H \<and> locals_ok M sys H"

definition sched_inv :: "sched_map \<Rightarrow> odp_sys \<Rightarrow> (nat \<Rightarrow> addr list) \<Rightarrow> (nat \<Rightarrow> nat option) \<Rightarrow> bool" where
  "sched_inv M sys L H \<longleftrightarrow> queues_rep sys L \<and> sched_static M sys \<and> sched_dyn M sys L H"

section \<open>What queue operations leave alone\<close>

lemma next_only_field:
  assumes "next_only A hp hp'"
  shows "bh_handle (bhdr hp' a) = bh_handle (bhdr hp a)" "bh_addr (bhdr hp' a) = bh_addr (bhdr hp a)"
proof -
  have "buf_hdr (buf_hdr_map (\<lambda>b. b\<lparr>bh_next := NULL\<rparr>) (hdrs hp' a)) = buf_hdr (buf_hdr_map (\<lambda>b. b\<lparr>bh_next := NULL\<rparr>) (hdrs hp a))"
    using assms by (simp add: next_only_def)
  then have "(bhdr hp' a)\<lparr>bh_next := NULL\<rparr> = (bhdr hp a)\<lparr>bh_next := NULL\<rparr>" by simp
  then show "bh_handle (bhdr hp' a) = bh_handle (bhdr hp a)" "bh_addr (bhdr hp' a) = bh_addr (bhdr hp a)"
    by (metis odp_buffer_hdr.select_convs odp_buffer_hdr.surjective odp_buffer_hdr.update_convs(1))+
qed

text \<open>Two states that agree in everything the fixed part of the invariant reads.\<close>

definition sys_same :: "odp_sys \<Rightarrow> odp_sys \<Rightarrow> bool" where
  "sys_same sys sys' \<longleftrightarrow> pool_tbl (base sys') = pool_tbl (base sys) \<and> length (queue_tbl sys') = length (queue_tbl sys) \<and>
    (\<forall>i<length (queue_tbl sys). queue_same (qentry sys i) (qentry sys' i)) \<and> next_only UNIV (sys_heap sys) (sys_heap sys') \<and>
    sched sys' = sched sys \<and> sched_cmds sys' = sched_cmds sys \<and> pktio_tbl sys' = pktio_tbl sys \<and> cls sys' = cls sys"

lemma queue_sameD:
  assumes "queue_same q q'"
  shows "q_funcs q' = q_funcs q" "q_cmd_ev q' = q_cmd_ev q" "q_pri_queue q' = q_pri_queue q" "q_param q' = q_param q"
    "q_handle q' = q_handle q" "q_pktin q' = q_pktin q"
  using assms unfolding queue_same_def
  by (metis queue_entry.surjective queue_entry.update_convs(1-3) queue_entry.select_convs)+

lemma queue_same_trans: "queue_same q q1 \<Longrightarrow> queue_same q1 q2 \<Longrightarrow> queue_same q q2"
  unfolding queue_same_def by (cases q; cases q1; cases q2) simp

lemma sys_same_refl [simp]: "sys_same sys sys"
  by (simp add: sys_same_def)

lemma sys_same_trans: "sys_same a b \<Longrightarrow> sys_same b c \<Longrightarrow> sys_same a c"
  unfolding sys_same_def by (auto intro: queue_same_trans next_only_trans)

lemma sys_same_put:
  assumes "i < length (queue_tbl sys)" "queue_same (qentry sys i) q" "next_only A (sys_heap sys) hp"
  shows "sys_same sys (put_queue i q hp sys)"
  using assms next_only_mono [OF assms(3), of UNIV] by (auto simp: sys_same_def nth_list_update)

lemma sys_same_local [simp]: "sys_same sys (set_local tid l sys)"
  by (simp add: sys_same_def set_local_def)

lemma sys_same_reads:
  assumes "sys_same sys sys'"
  shows "queue_to_qentry sys' h = queue_to_qentry sys h" "odp_buf_to_hdr (base sys') b = odp_buf_to_hdr (base sys) b"
    "get_cmd b sys' = get_cmd b sys" "pri_queues sys' = pri_queues sys"
    "bh_handle (bhdr (sys_heap sys') a) = bh_handle (bhdr (sys_heap sys) a)" "in_queues sys' L = in_queues sys L"
proof -
  have p: "pool_tbl (base sys') = pool_tbl (base sys)" "length (queue_tbl sys') = length (queue_tbl sys)" "sched sys' = sched sys"
    "sched_cmds sys' = sched_cmds sys" and n: "next_only UNIV (sys_heap sys) (sys_heap sys')" using assms by (simp_all add: sys_same_def)
  show q: "queue_to_qentry sys' h = queue_to_qentry sys h" for h by (simp add: queue_to_qentry_def p)
  show o: "odp_buf_to_hdr (base sys') b = odp_buf_to_hdr (base sys) b" for b by (simp add: odp_buf_to_hdr_def get_pool_entry_def p)
  show "get_cmd b sys' = get_cmd b sys"
    unfolding get_cmd_def odp_buffer_addr_def o p next_only_field [OF n] by (cases "odp_buf_to_hdr (base sys) b") simp_all
  show "pri_queues sys' = pri_queues sys" by (simp add: pri_queues_def q p)
  show "bh_handle (bhdr (sys_heap sys') a) = bh_handle (bhdr (sys_heap sys) a)" by (rule next_only_field [OF n])
  show "in_queues sys' L = in_queues sys L" by (simp add: in_queues_def p)
qed

lemma sched_queue_same: "sys_same sys sys' \<Longrightarrow> sched_queue M sys i \<Longrightarrow> sched_queue M sys' i"
  using sys_same_reads [of sys sys'] queue_sameD [of "qentry sys i" "qentry sys' i"]
  by (simp add: sched_queue_def Let_def sys_same_def)

lemma sched_static_same:
  assumes "sys_same sys sys'" "sched_static M sys" "\<And>j. j \<in> pri_queues sys \<Longrightarrow> q_status (qentry sys' j) = QUEUE_STATUS_READY"
  shows "sched_static M sys'"
proof -
  have "pri_queue_ok sys' j" if "j \<in> pri_queues sys" for j
  proof -
    have "pri_queue_ok sys j" using assms(2) that by (simp add: sched_static_def)
    then show ?thesis using assms(1) assms(3) [OF that] queue_sameD(1) [of "qentry sys j" "qentry sys' j"]
      by (simp add: pri_queue_ok_def sys_same_def)
  qed
  then show ?thesis using assms(1,2) sched_queue_same [OF assms(1)] sys_same_reads [OF assms(1)]
    by (simp add: sched_static_def sys_same_def)
qed

lemma local_ok_same:
  assumes "sys_same sys sys'" "sched_static M sys"
  shows "local_ok M sys' h l = local_ok M sys h l"
proof -
  have qs: "queue_same (qentry sys i) (qentry sys' i)" if "i \<in> sm_queues M" for i
    using assms that by (auto simp: sched_static_def sched_queue_def Let_def sys_same_def)
  have "queue_is_atomic (qentry sys' i) = queue_is_atomic (qentry sys i)" "q_pri_queue (qentry sys' i) = q_pri_queue (qentry sys i)"
    "q_cmd_ev (qentry sys' i) = q_cmd_ev (qentry sys i)" if "i \<in> sm_queues M" for i
    using queue_sameD(2-4) [OF qs [OF that]] by (simp_all add: queue_is_atomic_def)
  then show ?thesis by (auto simp: local_ok_def split: option.splits)
qed

lemma locals_ok_same:
  "sys_same sys sys' \<Longrightarrow> sched_locals sys' = sched_locals sys \<Longrightarrow> sched_static M sys \<Longrightarrow> locals_ok M sys H \<Longrightarrow> locals_ok M sys' H"
  by (simp add: locals_ok_def local_ok_same)

lemma local_okD:
  assumes "locals_ok M sys H"
  shows "H t = None \<Longrightarrow> sl_pri_queue (slocal sys t) = ODP_QUEUE_INVALID"
    "H t = Some i \<Longrightarrow> i \<in> sm_queues M" "H t = Some i \<Longrightarrow> queue_is_atomic (qentry sys i)"
    "H t = Some i \<Longrightarrow> sl_pri_queue (slocal sys t) = q_pri_queue (qentry sys i)"
    "H t = Some i \<Longrightarrow> sl_cmd_ev (slocal sys t) = q_cmd_ev (qentry sys i)"
    "length (sl_buf_hdr (slocal sys t)) = MAX_DEQ" "sl_index (slocal sys t) + sl_num (slocal sys t) \<le> MAX_DEQ"
    "H t = Some i \<Longrightarrow> H u = Some i \<Longrightarrow> t = u"
    "H t = Some i \<Longrightarrow> sl_qe (slocal sys t) = Some i"
proof -
  have "local_ok M sys (H t) (slocal sys t)" using assms by (simp add: locals_ok_def)
  then show "H t = None \<Longrightarrow> sl_pri_queue (slocal sys t) = ODP_QUEUE_INVALID"
    "H t = Some i \<Longrightarrow> i \<in> sm_queues M" "H t = Some i \<Longrightarrow> queue_is_atomic (qentry sys i)"
    "H t = Some i \<Longrightarrow> sl_pri_queue (slocal sys t) = q_pri_queue (qentry sys i)"
    "H t = Some i \<Longrightarrow> sl_cmd_ev (slocal sys t) = q_cmd_ev (qentry sys i)"
    "length (sl_buf_hdr (slocal sys t)) = MAX_DEQ" "sl_index (slocal sys t) + sl_num (slocal sys t) \<le> MAX_DEQ"
    "H t = Some i \<Longrightarrow> sl_qe (slocal sys t) = Some i"
    by (auto simp: local_ok_def)
  show "H t = Some i \<Longrightarrow> H u = Some i \<Longrightarrow> t = u" using assms by (simp add: locals_ok_def)
qed

lemma local_ok_num:
  assumes "locals_ok M sys H" "sl_num (slocal sys t) \<noteq> 0"
  obtains i where "i \<in> sm_queues M" "sl_qe (slocal sys t) = Some i" "queue_is_atomic (qentry sys i) \<Longrightarrow> H t = Some i"
proof -
  have "local_ok M sys (H t) (slocal sys t)" using assms by (simp add: locals_ok_def)
  then show ?thesis using assms(2) that by (auto simp: local_ok_def)
qed

text \<open>A thread changes its own data.\<close>

lemma locals_ok_upd:
  assumes "locals_ok M sys H" "sys_same sys sys'" "sched_locals sys' = (sched_locals sys)(tid := l)" "sched_static M sys"
    and "local_ok M sys r l" "\<And>i t. r = Some i \<Longrightarrow> H t = Some i \<Longrightarrow> t = tid"
  shows "locals_ok M sys' (H(tid := r))"
  using assms(1,3,5,6) by (auto simp: locals_ok_def local_ok_same [OF assms(2,4)])

section \<open>Enqueue\<close>

lemma put_queue_status:
  "i < length (queue_tbl sys) \<Longrightarrow> q_status (queue_tbl (put_queue i q hp sys) ! j) = (if j = i then q_status q else q_status (qentry sys j))"
  by simp

text \<open>An enqueue that the scheduler does not take part in.\<close>

lemma odp_queue_enq_plain:
  assumes rep: "queues_rep sys L" and j: "j < length (queue_tbl sys)" "queue_to_qentry sys handle = Inr j"
    and q: "q_funcs (qentry sys j) = Queue_Funcs" "live_queue (qentry sys j)" "q_status (qentry sys j) \<noteq> QUEUE_STATUS_NOTSCHED"
    and a: "odp_buf_to_hdr (base sys) ev = Inr a" "a \<noteq> NULL" "a \<notin> in_queues sys L"
  shows "\<exists>sys'. odp_queue_enq dev handle ev sys = Inr (0, sys') \<and> queues_rep sys' (L(j := L j @ [a])) \<and> sys_same sys sys' \<and>
    sched_locals sys' = sched_locals sys \<and> (\<forall>k. q_status (qentry sys' k) = q_status (qentry sys k))"
proof -
  from enq_locked_ok [OF rep j(1) q(2) a(2,3)] q(3) obtain q' hp where
    e: "enq_locked (qentry sys j) (sys_heap sys) a = Some (False, q', hp)" "queues_rep (put_queue j q' hp sys) (L(j := L j @ [a]))"
    "q_status q' = enq_status (q_status (qentry sys j))" "queue_same (qentry sys j) q'" "next_only (set (L j) \<union> {a}) (sys_heap sys) hp"
    by auto
  have "odp_queue_enq dev handle ev sys = Inr (0, put_queue j q' hp sys)"
    using j q(1) a(1) e(1) by (simp add: odp_queue_enq.simps queue_enq.simps)
  moreover have "q_status q' = q_status (qentry sys j)" using e(3) q(3) by (simp add: enq_status_def)
  ultimately show ?thesis using e sys_same_put [OF j(1) e(4,5)] put_queue_status [OF j(1)] by auto
qed

lemma in_queues_upd:
  "i < length (queue_tbl sys) \<Longrightarrow> in_queues sys (L(i := xs)) = (\<Union>j\<in>{..<length (queue_tbl sys)} - {i}. set (L j)) \<union> set xs"
  by (auto simp: in_queues_def split: if_splits)

lemma in_queues_snoc: "i < length (queue_tbl sys) \<Longrightarrow> in_queues sys (L(i := L i @ [a])) = insert a (in_queues sys L)"
  by (auto simp: in_queues_def split: if_splits)

text \<open>Facts of the invariant about one scheduled queue.\<close>

lemma sched_invD:
  assumes "sched_inv M sys L H"
  shows "queues_rep sys L" "sched_static M sys" "sched_dyn M sys L H"
  using assms by (simp_all add: sched_inv_def)

lemma sched_queueD:
  assumes "sched_static M sys" "i \<in> sm_queues M"
  shows "i < length (queue_tbl sys)" "odp_buf_to_hdr (base sys) (q_cmd_ev (qentry sys i)) = Inr (sm_cmd M i)" "sm_cmd M i \<noteq> NULL"
    "bh_handle (bhdr (sys_heap sys) (sm_cmd M i)) = q_cmd_ev (qentry sys i)"
    "get_cmd (q_cmd_ev (qentry sys i)) sys = Inr (Cmd_Dequeue i)" "queue_to_qentry sys (q_pri_queue (qentry sys i)) = Inr (sm_pri M i)"
    "q_cmd_ev (qentry sys i) \<noteq> ODP_EVENT_INVALID" "q_pri_queue (qentry sys i) \<noteq> ODP_QUEUE_INVALID"
    "sm_pri M i \<in> pri_queues sys" "i \<notin> pri_queues sys" "pri_queue_ok sys (sm_pri M i)" "sm_pri M i \<noteq> i" "queue_to_qentry sys (q_handle (qentry sys i)) = Inr i"
  using assms unfolding sched_static_def sched_queue_def Let_def by auto

lemma sched_live:
  "sched_dyn M sys L H \<Longrightarrow> i \<in> sm_queues M \<Longrightarrow> live_queue (qentry sys i)"
  by (auto simp: sched_dyn_def cmds_ok_def live_queue_def)

text \<open>Putting the command of a queue back into its priority queue.\<close>

lemma enq_cmd:
  assumes rep: "queues_rep sys L" and st: "sched_static M sys" and i: "i \<in> sm_queues M" and c: "sm_cmd M i \<notin> in_queues sys L"
  shows "\<exists>sys'. odp_queue_enq dev (q_pri_queue (qentry sys i)) (q_cmd_ev (qentry sys i)) sys = Inr (0, sys') \<and>
    queues_rep sys' (L(sm_pri M i := L (sm_pri M i) @ [sm_cmd M i])) \<and> sys_same sys sys' \<and> sched_locals sys' = sched_locals sys \<and>
    (\<forall>k. q_status (qentry sys' k) = q_status (qentry sys k)) \<and> sched_static M sys'"
proof -
  note D = sched_queueD [OF st i]
  have p: "sm_pri M i < length (queue_tbl sys)" "q_funcs (qentry sys (sm_pri M i)) = Queue_Funcs"
    "q_status (qentry sys (sm_pri M i)) = QUEUE_STATUS_READY" using D(11) by (simp_all add: pri_queue_ok_def)
  from odp_queue_enq_plain [OF rep p(1) D(6) p(2) _ _ D(2,3) c] p(3) obtain sys' where
    s: "odp_queue_enq dev (q_pri_queue (qentry sys i)) (q_cmd_ev (qentry sys i)) sys = Inr (0, sys')"
    "queues_rep sys' (L(sm_pri M i := L (sm_pri M i) @ [sm_cmd M i]))" "sys_same sys sys'" "sched_locals sys' = sched_locals sys"
    "\<forall>k. q_status (qentry sys' k) = q_status (qentry sys k)" by (auto simp: live_queue_def)
  have "sched_static M sys'"
    by (rule sched_static_same [OF s(3) st]) (use s(5) st in \<open>auto simp: sched_static_def pri_queue_ok_def\<close>)
  then show ?thesis using s by blast
qed

text \<open>
  An event for a scheduled queue goes to its end; if the queue was not scheduled, its command goes to the priority queue.
\<close>

definition sched_enqueued :: "sched_map \<Rightarrow> odp_sys \<Rightarrow> nat \<Rightarrow> addr \<Rightarrow> (nat \<Rightarrow> addr list) \<Rightarrow> nat \<Rightarrow> addr list" where
  "sched_enqueued M sys i a L =
    (let L1 = L(i := L i @ [a])
     in if q_status (qentry sys i) = QUEUE_STATUS_NOTSCHED then L1(sm_pri M i := L (sm_pri M i) @ [sm_cmd M i]) else L1)"

lemma odp_queue_enq_sched:
  assumes inv: "sched_inv M sys L H" and i: "i \<in> sm_queues M" "queue_to_qentry sys handle = Inr i" "q_funcs (qentry sys i) = Queue_Funcs"
    and a: "odp_buf_to_hdr (base sys) ev = Inr a" "a \<noteq> NULL" "a \<notin> in_queues sys L" "a \<notin> sm_cmd M ` sm_queues M"
  shows "\<exists>sys'. odp_queue_enq dev handle ev sys = Inr (0, sys') \<and> sched_inv M sys' (sched_enqueued M sys i a L) H \<and> sys_same sys sys' \<and>
    sched_locals sys' = sched_locals sys"
proof -
  note I = sched_invD [OF inv] note D = sched_queueD [OF I(2) i(1)]
  let ?L1 = "L(i := L i @ [a])" and ?st = "q_status (qentry sys i)"
  have live: "live_queue (qentry sys i)" by (rule sched_live [OF I(3) i(1)])
  from enq_locked_ok [OF I(1) D(1) live a(2,3)] obtain q hp where
    e: "enq_locked (qentry sys i) (sys_heap sys) a = Some (?st = QUEUE_STATUS_NOTSCHED, q, hp)" "queues_rep (put_queue i q hp sys) ?L1"
    "q_status q = enq_status ?st" "queue_same (qentry sys i) q" "next_only (set (L i) \<union> {a}) (sys_heap sys) hp" by auto
  let ?s1 = "put_queue i q hp sys"
  have same1: "sys_same sys ?s1" by (rule sys_same_put [OF D(1) e(4,5)])
  note R1 = sys_same_reads [OF same1]
  have stat1: "q_status (qentry ?s1 k) = (if k = i then enq_status ?st else q_status (qentry sys k))" for k
    using put_queue_status [OF D(1)] e(3) by simp
  have st1: "sched_static M ?s1"
    by (rule sched_static_same [OF same1 I(2)]) (use stat1 D(10) I(2) in \<open>auto simp: sched_static_def pri_queue_ok_def\<close>)
  have sched: "enq_status ?st = QUEUE_STATUS_SCHED" using I(3) i(1) by (auto simp: sched_dyn_def cmds_ok_def enq_status_def)
  have ri: "r \<noteq> i" if "r \<in> pri_queues sys" for r using that D(10) by auto
  show ?thesis
  proof (cases "?st = QUEUE_STATUS_NOTSCHED")
    case False
    have "odp_queue_enq dev handle ev sys = Inr (0, ?s1)"
      using D(1) i(2,3) a(1) e(1) False by (simp add: odp_queue_enq.simps queue_enq.simps)
    moreover have "cmds_ok M (pri_queues sys) (qstat ?s1) (insert a (in_queues sys L)) ?L1 H"
      using I(3) False stat1 sched a(4) ri unfolding sched_dyn_def cmds_ok_def by auto
    then have "sched_dyn M ?s1 ?L1 H"
      using locals_ok_same [OF same1 _ I(2)] I(3) unfolding sched_dyn_def R1 in_queues_snoc [OF D(1)] by simp
    ultimately show ?thesis using e(2) st1 False same1 by (auto simp: sched_inv_def sched_enqueued_def)
  next
    case True
    have cn: "sm_cmd M i \<notin> in_queues sys L" "L i = []" "\<not> held H i" using I(3) i(1) True by (auto simp: sched_dyn_def cmds_ok_def)
    have ca: "sm_cmd M i \<noteq> a" using a(4) i(1) by auto
    then have c1: "sm_cmd M i \<notin> in_queues ?s1 ?L1" using cn(1) by (simp only: R1(6) in_queues_snoc [OF D(1)]) simp
    have qs: "q_pri_queue (qentry ?s1 i) = q_pri_queue q" "q_cmd_ev (qentry ?s1 i) = q_cmd_ev q" using D(1) by simp_all
    from enq_cmd [OF e(2) st1 i(1) c1, of dev] obtain s2 where
      s2: "odp_queue_enq dev (q_pri_queue q) (q_cmd_ev q) ?s1 = Inr (0, s2)"
      "queues_rep s2 (?L1(sm_pri M i := ?L1 (sm_pri M i) @ [sm_cmd M i]))" "sys_same ?s1 s2" "sched_locals s2 = sched_locals ?s1"
      "\<forall>k. q_status (qentry s2 k) = q_status (qentry ?s1 k)" "sched_static M s2" unfolding qs by auto
    have L2: "?L1(sm_pri M i := ?L1 (sm_pri M i) @ [sm_cmd M i]) = sched_enqueued M sys i a L"
      using True D(12) by (simp add: sched_enqueued_def)
    have same2: "sys_same sys s2" by (rule sys_same_trans [OF same1 s2(3)])
    note R2 = sys_same_reads [OF same2]
    have "odp_queue_enq dev handle ev sys = Inr (0, s2)"
      using D(1) i(2,3) a(1) e(1) True s2(1) by (simp add: odp_queue_enq.simps [of dev handle] queue_enq.simps)
    moreover have "sched_dyn M s2 (sched_enqueued M sys i a L) H"
    proof -
      have pl: "sm_pri M i < length (queue_tbl sys)" using D(11) by (simp add: pri_queue_ok_def)
      have iq: "in_queues sys (sched_enqueued M sys i a L) = insert (sm_cmd M i) (insert a (in_queues sys L))"
        using in_queues_snoc [of "sm_pri M i" sys ?L1 "sm_cmd M i"] in_queues_snoc [OF D(1), of L a] pl L2 by simp
      have inj: "sm_cmd M k \<noteq> sm_cmd M i" if "k \<in> sm_queues M" "k \<noteq> i" for k
        using I(2) that i(1) by (auto simp: sched_static_def inj_on_def)
      have Lk: "sched_enqueued M sys i a L k = (if k = i then L i @ [a] else if k = sm_pri M i then L k @ [sm_cmd M i] else L k)" for k
        using True D(12) by (simp add: sched_enqueued_def)
      have "cmds_ok M (pri_queues sys) (qstat s2) (insert (sm_cmd M i) (insert a (in_queues sys L))) (sched_enqueued M sys i a L) H"
        unfolding cmds_ok_def
      proof (intro conjI ballI)
        fix k assume k: "k \<in> sm_queues M"
        have kp: "k \<noteq> sm_pri M i" "sm_pri M k \<noteq> i" using sched_queueD(9,10) [OF I(2) k] D(9,10) by auto
        show "qstat s2 k = QUEUE_STATUS_NOTSCHED \<and> sched_enqueued M sys i a L k = [] \<and>
            sm_cmd M k \<notin> insert (sm_cmd M i) (insert a (in_queues sys L)) \<and> \<not> held H k \<or>
          qstat s2 k = QUEUE_STATUS_SCHED \<and>
            (sm_cmd M k \<in> set (sched_enqueued M sys i a L (sm_pri M k)) \<and> \<not> held H k \<or>
             sm_cmd M k \<notin> insert (sm_cmd M i) (insert a (in_queues sys L)) \<and> held H k)"
        proof (cases "k = i")
          case True
          then show ?thesis using cn(3) stat1 [of i] sched s2(5) D(12) by (simp add: Lk)
        next
          case False
          then show ?thesis using I(3) k kp stat1 [of k] s2(5) inj [OF k False] a(4) by (auto simp: sched_dyn_def cmds_ok_def Lk)
        qed
      next
        fix j assume "j \<in> pri_queues sys"
        then show "set (sched_enqueued M sys i a L j) \<subseteq> sm_cmd M ` sm_queues M"
          using I(3) ri i(1) D(9) by (auto simp: sched_dyn_def cmds_ok_def Lk)
      qed
      moreover have "locals_ok M s2 H" using locals_ok_same [OF same2 _ I(2)] I(3) s2(4) by (simp add: sched_dyn_def)
      ultimately show ?thesis by (simp add: sched_dyn_def R2 iq)
    qed
    ultimately show ?thesis using s2 L2 same2 by (auto simp: sched_inv_def)
  qed
qed

section \<open>Threads\<close>

lemma set_local_simps [simp]:
  "queue_tbl (set_local tid l sys) = queue_tbl sys" "base (set_local tid l sys) = base sys" "sched (set_local tid l sys) = sched sys"
  "slocal (set_local tid l sys) t = (if t = tid then l else slocal sys t)"
  by (simp_all add: set_local_def)

lemma queues_rep_local [simp]: "queues_rep (set_local tid l sys) L = queues_rep sys L"
  by (simp add: queues_rep_def)

lemma sched_static_local: "sched_static M sys \<Longrightarrow> sched_static M (set_local tid l sys)"
  by (rule sched_static_same [OF sys_same_local]) (auto simp: sched_static_def pri_queue_ok_def)

lemma held_None: "locals_ok M sys H \<Longrightarrow> H tid = Some i \<Longrightarrow> held (H(tid := None)) k = (held H k \<and> k \<noteq> i)"
  using local_okD(8) [of M sys H] unfolding held_def by (metis fun_upd_apply option.distinct(1) option.inject)

text \<open>Putting back the command that was held by no queue and no other thread.\<close>

lemma cmds_ok_return:
  assumes ok: "cmds_ok M P st Q L H" and i: "i \<in> sm_queues M" "sm_pri M i \<in> P" "i \<notin> P" "st i = QUEUE_STATUS_SCHED"
    and H': "\<And>k. held H' k = (held H k \<and> k \<noteq> i)" and dis: "\<And>k. k \<in> sm_queues M \<Longrightarrow> k \<notin> P"
    and inj: "inj_on (sm_cmd M) (sm_queues M)"
  shows "cmds_ok M P st (insert (sm_cmd M i) Q) (L(sm_pri M i := L (sm_pri M i) @ [sm_cmd M i])) H'"
  unfolding cmds_ok_def
proof (intro conjI ballI)
  fix k assume k: "k \<in> sm_queues M"
  have kp: "k \<noteq> sm_pri M i" using dis [OF k] i(2) by auto
  have ne: "k \<noteq> i \<Longrightarrow> sm_cmd M k \<noteq> sm_cmd M i" using inj k i(1) by (auto simp: inj_on_def)
  have "st k = QUEUE_STATUS_NOTSCHED \<and> L k = [] \<and> sm_cmd M k \<notin> Q \<and> \<not> held H k \<or>
       st k = QUEUE_STATUS_SCHED \<and> (sm_cmd M k \<in> set (L (sm_pri M k)) \<and> \<not> held H k \<or> sm_cmd M k \<notin> Q \<and> held H k)"
    using ok k by (simp add: cmds_ok_def)
  then show "st k = QUEUE_STATUS_NOTSCHED \<and> (L(sm_pri M i := L (sm_pri M i) @ [sm_cmd M i])) k = [] \<and>
      sm_cmd M k \<notin> insert (sm_cmd M i) Q \<and> \<not> held H' k \<or>
    st k = QUEUE_STATUS_SCHED \<and>
      (sm_cmd M k \<in> set ((L(sm_pri M i := L (sm_pri M i) @ [sm_cmd M i])) (sm_pri M k)) \<and> \<not> held H' k \<or>
       sm_cmd M k \<notin> insert (sm_cmd M i) Q \<and> held H' k)"
    using kp ne H' [of k] i(4) by (cases "k = i") auto
next
  fix j assume "j \<in> P"
  then show "set ((L(sm_pri M i := L (sm_pri M i) @ [sm_cmd M i])) j) \<subseteq> sm_cmd M ` sm_queues M"
    using ok i(1,2) by (auto simp: cmds_ok_def)
qed

lemma static_disjoint: "sched_static M sys \<Longrightarrow> k \<in> sm_queues M \<Longrightarrow> k \<notin> pri_queues sys"
  "sched_static M sys \<Longrightarrow> inj_on (sm_cmd M) (sm_queues M)"
  by (auto simp: sched_static_def)

text \<open>Releasing an atomic queue puts its command back; without one, nothing happens.\<close>

lemma release_atomic_inv:
  assumes inv: "sched_inv M sys L H"
  shows "\<exists>sys' L' H'. odp_schedule_release_atomic dev tid sys = Inr sys' \<and> sched_inv M sys' L' H' \<and> sys_same sys sys' \<and>
    (\<forall>k. k \<notin> pri_queues sys \<longrightarrow> L' k = L k) \<and> (\<forall>t. t \<noteq> tid \<longrightarrow> H' t = H t) \<and> sl_num (slocal sys' tid) = sl_num (slocal sys tid) \<and>
    H' tid = (if sl_num (slocal sys tid) = 0 then None else H tid) \<and> (\<forall>t. t \<noteq> tid \<longrightarrow> slocal sys' t = slocal sys t) \<and>
    (sl_num (slocal sys tid) \<noteq> 0 \<longrightarrow> sys' = sys \<and> L' = L \<and> H' = H) \<and> qstat sys' = qstat sys \<and>
    sl_pause (slocal sys' tid) = sl_pause (slocal sys tid)"
proof -
  note I = sched_invD [OF inv] let ?l = "slocal sys tid"
  have lo: "locals_ok M sys H" and co: "cmds_ok M (pri_queues sys) (qstat sys) (in_queues sys L) L H" using I(3) by (auto simp: sched_dyn_def)
  show ?thesis
  proof (cases "sl_num ?l = 0 \<and> H tid \<noteq> None")
    case False
    then have "odp_schedule_release_atomic dev tid sys = Inr sys"
      using local_okD(1) [OF lo, of tid] by (auto simp: odp_schedule_release_atomic_def Let_def)
    then show ?thesis using inv False by (intro exI [of _ sys] exI [of _ L] exI [of _ H]) auto
  next
    case True
    then obtain i where h: "H tid = Some i" and n0: "sl_num ?l = 0" by auto
    have i: "i \<in> sm_queues M" and l: "sl_pri_queue ?l = q_pri_queue (qentry sys i)" "sl_cmd_ev ?l = q_cmd_ev (qentry sys i)"
      using local_okD(2,4,5) [OF lo h] by simp_all
    note D = sched_queueD [OF I(2) i]
    have hi: "held H i" using h by (auto simp: held_def)
    have c: "sm_cmd M i \<notin> in_queues sys L" "qstat sys i = QUEUE_STATUS_SCHED" using co i hi by (auto simp: cmds_ok_def)
    from enq_cmd [OF I(1,2) i c(1), of dev] obtain s1 where
      s1: "odp_queue_enq dev (q_pri_queue (qentry sys i)) (q_cmd_ev (qentry sys i)) sys = Inr (0, s1)"
      "queues_rep s1 (L(sm_pri M i := L (sm_pri M i) @ [sm_cmd M i]))" "sys_same sys s1" "sched_locals s1 = sched_locals sys"
      "\<forall>k. q_status (qentry s1 k) = q_status (qentry sys k)" "sched_static M s1" by auto
    let ?s2 = "set_local tid ((slocal s1 tid)\<lparr>sl_pri_queue := ODP_QUEUE_INVALID\<rparr>) s1"
    let ?L = "L(sm_pri M i := L (sm_pri M i) @ [sm_cmd M i])" and ?H = "H(tid := None)"
    have run: "odp_schedule_release_atomic dev tid sys = Inr ?s2"
      using D(8) n0 s1(1) by (simp add: odp_schedule_release_atomic_def l)
    have same: "sys_same sys ?s2" by (rule sys_same_trans [OF s1(3) sys_same_local])
    note R = sys_same_reads [OF same]
    have "locals_ok M ?s2 ?H"
      by (rule locals_ok_upd [OF lo same _ I(2), where l = "(slocal sys tid)\<lparr>sl_pri_queue := ODP_QUEUE_INVALID\<rparr>"])
        (use s1(4) n0 local_okD(6,7) [OF lo, of tid] in \<open>simp_all add: set_local_def local_ok_def\<close>)
    moreover have "cmds_ok M (pri_queues sys) (qstat sys) (insert (sm_cmd M i) (in_queues sys L)) ?L ?H"
      by (rule cmds_ok_return [OF co i D(9,10) c(2) held_None [OF lo h] static_disjoint [OF I(2)]])
    moreover have "in_queues sys ?L = insert (sm_cmd M i) (in_queues sys L)"
      using in_queues_snoc [of "sm_pri M i" sys L] D(11) by (simp add: pri_queue_ok_def)
    moreover have "qstat ?s2 = qstat sys" using s1(5) by auto
    ultimately have "sched_dyn M ?s2 ?L ?H" unfolding sched_dyn_def R by simp
    then have "sched_inv M ?s2 ?L ?H" using s1(2) sched_static_local [OF s1(6)] by (simp add: sched_inv_def)
    then show ?thesis
      using run same D(9) n0 s1(4,5) by (intro exI [of _ ?s2] exI [of _ ?L] exI [of _ ?H]) auto
  qed
qed

section \<open>Commands on the move\<close>

lemma cmds_ok_mono:
  assumes "cmds_ok M P st Q L H" "Q' \<subseteq> Q" "\<And>j. j \<in> P \<Longrightarrow> L' j = L j" "\<And>i. i \<in> sm_queues M \<Longrightarrow> sm_pri M i \<in> P"
    "\<And>i. i \<in> sm_queues M \<Longrightarrow> L i = [] \<Longrightarrow> L' i = []"
  shows "cmds_ok M P st Q' L' H"
  using assms unfolding cmds_ok_def by (auto dest!: subsetD)

lemma in_queues_shrink: "set ys \<subseteq> set (L j) \<Longrightarrow> in_queues sys (L(j := ys)) \<subseteq> in_queues sys L"
  unfolding in_queues_def by (rule UN_mono) auto

lemma held_Some: "H tid = None \<Longrightarrow> held (H(tid := Some i)) k = (held H k \<or> k = i)"
  unfolding held_def by (metis fun_upd_apply option.distinct(1) option.inject)

text \<open>A thread takes the command at the front of a priority queue.\<close>

lemma cmds_ok_take:
  assumes ok: "cmds_ok M P st Q L H" and i: "i \<in> sm_queues M" "sm_pri M i \<in> P" and L: "L (sm_pri M i) = sm_cmd M i # cs"
    and h: "H tid = None" and Q': "sm_cmd M i \<notin> Q'" "\<And>x. x \<in> Q' \<Longrightarrow> x \<in> Q" and Q: "set (L (sm_pri M i)) \<subseteq> Q"
    and dis: "\<And>k. k \<in> sm_queues M \<Longrightarrow> k \<notin> P" and inj: "inj_on (sm_cmd M) (sm_queues M)"
  shows "st i = QUEUE_STATUS_SCHED" "\<not> held H i" "cmds_ok M P st Q' (L(sm_pri M i := cs)) (H(tid := Some i))"
proof -
  show si: "st i = QUEUE_STATUS_SCHED" and nh: "\<not> held H i" using ok i Q L by (auto simp: cmds_ok_def)
  note hk = held_Some [of H, OF h]
  show "cmds_ok M P st Q' (L(sm_pri M i := cs)) (H(tid := Some i))"
    unfolding cmds_ok_def
  proof (intro conjI ballI)
    fix k assume k: "k \<in> sm_queues M"
    have kp: "k \<noteq> sm_pri M i" using dis [OF k] i(2) by auto
    have ne: "k \<noteq> i \<Longrightarrow> sm_cmd M k \<noteq> sm_cmd M i" using inj k i(1) by (auto simp: inj_on_def)
    have "st k = QUEUE_STATUS_NOTSCHED \<and> L k = [] \<and> sm_cmd M k \<notin> Q \<and> \<not> held H k \<or>
       st k = QUEUE_STATUS_SCHED \<and> (sm_cmd M k \<in> set (L (sm_pri M k)) \<and> \<not> held H k \<or> sm_cmd M k \<notin> Q \<and> held H k)"
      using ok k by (simp add: cmds_ok_def)
    then show "st k = QUEUE_STATUS_NOTSCHED \<and> (L(sm_pri M i := cs)) k = [] \<and> sm_cmd M k \<notin> Q' \<and> \<not> held (H(tid := Some i)) k \<or>
      st k = QUEUE_STATUS_SCHED \<and>
        (sm_cmd M k \<in> set ((L(sm_pri M i := cs)) (sm_pri M k)) \<and> \<not> held (H(tid := Some i)) k \<or>
         sm_cmd M k \<notin> Q' \<and> held (H(tid := Some i)) k)"
      using kp ne Q' si L by (cases "k = i") (auto simp: hk)
  next
    fix j assume "j \<in> P"
    then have "set (L j) \<subseteq> sm_cmd M ` sm_queues M" using ok by (simp add: cmds_ok_def)
    then show "set ((L(sm_pri M i := cs)) j) \<subseteq> sm_cmd M ` sm_queues M" using L by (auto split: if_splits)
  qed
qed

text \<open>The command of an empty queue is dropped.\<close>

lemma cmds_ok_drop:
  assumes ok: "cmds_ok M P st Q L (H(tid := Some i))" and i: "L i = []" "sm_cmd M i \<notin> Q" and h: "H tid = None" "\<not> held H i"
  shows "cmds_ok M P (st(i := QUEUE_STATUS_NOTSCHED)) Q L H"
  using ok i h(2) unfolding cmds_ok_def held_Some [of H, OF h(1)] by auto

lemma copy_events_eq:
  assumes "sl_index l + sl_num l \<le> length (sl_buf_hdr l)"
  shows "copy_events n hp l =
    (map (\<lambda>a. bh_handle (bhdr hp a)) (take (min n (sl_num l)) (drop (sl_index l) (sl_buf_hdr l))),
     l\<lparr>sl_index := sl_index l + min n (sl_num l), sl_num := sl_num l - min n (sl_num l)\<rparr>)"
  using assms
proof (induction n arbitrary: l)
  case (Suc n)
  show ?case
  proof (cases "sl_num l")
    case (Suc m)
    then show ?thesis using Suc.IH [of "l\<lparr>sl_index := sl_index l + 1, sl_num := sl_num l - 1\<rparr>"] Suc.prems
      by (simp add: Cons_nth_drop_Suc [symmetric])
  qed simp
qed simp

section \<open>One sub queue\<close>

text \<open>Taking an event from a priority queue.\<close>

lemma deq_pri_queue:
  assumes inv: "sched_inv M sys L H" and h: "queue_to_qentry sys handle = Inr j" "j \<in> pri_queues sys"
  shows "\<exists>sys1. odp_queue_deq dev handle sys =
      Some (Inr (if L j = [] then ODP_EVENT_INVALID else bh_handle (bhdr (sys_heap sys) (hd (L j))), sys1)) \<and>
    queues_rep sys1 (L(j := tl (L j))) \<and> sys_same sys sys1 \<and> qstat sys1 = qstat sys \<and> sched_locals sys1 = sched_locals sys \<and>
    sched_static M sys1"
proof -
  note I = sched_invD [OF inv]
  have j: "j < length (queue_tbl sys)" "q_status (qentry sys j) = QUEUE_STATUS_READY" "q_funcs (qentry sys j) = Queue_Funcs"
    using I(2) h(2) by (auto simp: sched_static_def pri_queue_ok_def)
  from deq_queues [OF I(1) j(1)] j(2) obtain q hp where
    d: "queue_deq (qentry sys j) (sys_heap sys) = (if L j = [] then NULL else hd (L j), q, hp)"
    "queues_rep (put_queue j q hp sys) (L(j := tl (L j)))" "queue_same (qentry sys j) q" "q_status q = q_status (qentry sys j)"
    "next_only (set (take 1 (L j))) (sys_heap sys) hp" by auto
  let ?s = "put_queue j q hp sys"
  have same: "sys_same sys ?s" by (rule sys_same_put [OF j(1) d(3,5)])
  have st: "qstat ?s = qstat sys" using put_queue_status [OF j(1), of q hp] d(4) by (intro ext) auto
  have "sched_static M ?s"
    by (rule sched_static_same [OF same I(2)]) (use fun_cong [OF st] I(2) in \<open>auto simp: sched_static_def pri_queue_ok_def\<close>)
  moreover have "hd (L j) \<noteq> NULL" if "L j \<noteq> []"
    using queue_rep_nonnull [OF queues_repD [OF I(1) j(1)]] that by (metis hd_in_set)
  then have "odp_queue_deq dev handle sys =
      Some (Inr (if L j = [] then ODP_EVENT_INVALID else bh_handle (bhdr (sys_heap sys) (hd (L j))), ?s))"
    using h(1) j(3) d(1) next_only_field(1) [OF d(5)] by (simp add: odp_queue_deq_def)
  ultimately show ?thesis using d(2) same st by (intro exI [of _ ?s]) simp
qed

text \<open>The state between taking a command and putting it back: thread \<open>tid\<close> holds it, but its local data do not say so yet.\<close>

definition cmd_taken :: "sched_map \<Rightarrow> odp_sys \<Rightarrow> (nat \<Rightarrow> addr list) \<Rightarrow> (nat \<Rightarrow> nat option) \<Rightarrow> nat \<Rightarrow> nat \<Rightarrow> bool" where
  "cmd_taken M sys L H tid i \<longleftrightarrow> queues_rep sys L \<and> sched_static M sys \<and> i \<in> sm_queues M \<and> H tid = None \<and> \<not> held H i \<and>
    locals_ok M sys H \<and> cmds_ok M (pri_queues sys) (qstat sys) (in_queues sys L) L (H(tid := Some i)) \<and>
    qstat sys i = QUEUE_STATUS_SCHED \<and> sm_cmd M i \<notin> in_queues sys L"

lemma take_cmd:
  assumes inv: "sched_inv M sys L H" and h: "queue_to_qentry sys handle = Inr j" "j \<in> pri_queues sys"
    and L: "L j = c # cs" and t: "H tid = None"
  shows "\<exists>sys1 i. i \<in> sm_queues M \<and> c = sm_cmd M i \<and> sm_pri M i = j \<and>
    odp_queue_deq dev handle sys = Some (Inr (q_cmd_ev (qentry sys i), sys1)) \<and> cmd_taken M sys1 (L(j := cs)) H tid i \<and>
    get_cmd (q_cmd_ev (qentry sys i)) sys1 = Inr (Cmd_Dequeue i) \<and> sys_same sys sys1 \<and> sched_locals sys1 = sched_locals sys \<and>
    qstat sys1 = qstat sys"
proof -
  note I = sched_invD [OF inv]
  have lo: "locals_ok M sys H" and co: "cmds_ok M (pri_queues sys) (qstat sys) (in_queues sys L) L H" using I(3) by (auto simp: sched_dyn_def)
  have j: "j < length (queue_tbl sys)" using I(2) h(2) by (auto simp: sched_static_def pri_queue_ok_def)
  obtain i where i: "i \<in> sm_queues M" "c = sm_cmd M i" using co h(2) L by (fastforce simp: cmds_ok_def)
  note D = sched_queueD [OF I(2) i(1)]
  have cq: "c \<in> in_queues sys L" using L j unfolding in_queues_def by (intro UN_I [of j]) simp_all
  have "c \<in> set (L (sm_pri M i))" using co i cq by (auto simp: cmds_ok_def)
  moreover have "sm_pri M i < length (queue_tbl sys)" using D(11) by (simp add: pri_queue_ok_def)
  ultimately have pj: "sm_pri M i = j" using I(1) j L unfolding queues_rep_def by (metis disjoint_iff list.set_intros(1))
  from deq_pri_queue [OF inv h, of dev] L D(4) i(2) obtain sys1 where
    s: "odp_queue_deq dev handle sys = Some (Inr (q_cmd_ev (qentry sys i), sys1))" "queues_rep sys1 (L(j := cs))" "sys_same sys sys1"
    "qstat sys1 = qstat sys" "sched_locals sys1 = sched_locals sys" "sched_static M sys1" by auto
  note R = sys_same_reads [OF s(3)]
  have dist: "c \<notin> set cs" using queue_rep_nonnull [OF queues_repD [OF I(1) j]] L by simp
  have c1: "c \<notin> in_queues sys (L(j := cs))"
  proof -
    have "c \<notin> set (L k)" if "k < length (queue_tbl sys)" "k \<noteq> j" for k
      using I(1) that j L unfolding queues_rep_def by (metis disjoint_iff list.set_intros(1))
    then show ?thesis using dist by (auto simp: in_queues_upd [OF j])
  qed
  have sub: "x \<in> in_queues sys L" if "x \<in> in_queues sys (L(j := cs))" for x
    using that in_queues_shrink [of cs L j sys] L by auto
  have Q: "set (L (sm_pri M i)) \<subseteq> in_queues sys L" using j pj by (auto simp: in_queues_def)
  have Li: "L (sm_pri M i) = sm_cmd M i # cs" using L pj i(2) by simp
  have c2: "sm_cmd M i \<notin> in_queues sys (L(j := cs))" using c1 i(2) by simp
  note T = cmds_ok_take [where Q' = "in_queues sys (L(j := cs))", OF co i(1) D(9) Li t c2 sub Q static_disjoint [OF I(2)]]
  have "cmd_taken M sys1 (L(j := cs)) H tid i"
    using T pj c2 i(1) s(2,6) t locals_ok_same [OF s(3,5) I(2) lo] fun_cong [OF s(4), of i] unfolding cmd_taken_def R s(4) by simp
  then show ?thesis using i pj s R(3) D(5) by (intro exI [of _ sys1] exI [of _ i]) simp
qed

text \<open>The events that a thread has taken from a queue and not yet handed out.\<close>

definition pending :: "sched_local_t \<Rightarrow> addr list" where
  "pending l = take (sl_num l) (drop (sl_index l) (sl_buf_hdr l))"

definition took_from :: "nat \<Rightarrow> nat \<Rightarrow> addr list \<Rightarrow> odp_sys \<Rightarrow> odp_sys \<Rightarrow> bool" where
  "took_from tid i as sys sys' \<longleftrightarrow> (\<forall>t. t \<noteq> tid \<longrightarrow> slocal sys' t = slocal sys t) \<and> pending (slocal sys' tid) = as \<and> sl_qe (slocal sys' tid) = Some i"

text \<open>After the events were taken, the command is kept by the thread, put back, or dropped.\<close>

lemma deliver_inv:
  assumes tk: "cmd_taken M sys L H tid i" and ev: "ev = q_cmd_ev (qentry sys i)" "pri_q = q_pri_queue (qentry sys i)"
    and bufs: "bufs \<noteq> []" "length bufs \<le> MAX_DEQ"
  shows "\<exists>sys' L' H'. deliver dev tid pri_q ev i bufs max_num sys =
      Inr (Some (q_handle (qentry sys i), map (\<lambda>a. bh_handle (bhdr (sys_heap sys) a)) (take max_num bufs)), sys') \<and>
    sched_inv M sys' L' H' \<and> sys_same sys sys' \<and> (\<forall>k. k \<notin> pri_queues sys \<longrightarrow> L' k = L k) \<and> H' = H(tid := if queue_is_atomic (qentry sys i) then Some i else None) \<and>
    took_from tid i (drop max_num bufs) sys sys'"
proof -
  have K: "queues_rep sys L" "sched_static M sys" "i \<in> sm_queues M" "H tid = None" "\<not> held H i" "locals_ok M sys H"
    "cmds_ok M (pri_queues sys) (qstat sys) (in_queues sys L) L (H(tid := Some i))" "qstat sys i = QUEUE_STATUS_SCHED"
    "sm_cmd M i \<notin> in_queues sys L" using tk by (simp_all add: cmd_taken_def)
  note D = sched_queueD [OF K(2,3)]
  define l1 where "l1 = (slocal sys tid)\<lparr>sl_buf_hdr := bufs @ drop (length bufs) (sl_buf_hdr (slocal sys tid)), sl_num := length bufs,
    sl_index := 0, sl_qe := Some i\<rparr>"
  let ?evs = "map (\<lambda>a. bh_handle (bhdr (sys_heap sys) a)) (take max_num bufs)"
  define l2 where "l2 = l1\<lparr>sl_index := min max_num (length bufs), sl_num := length bufs - min max_num (length bufs)\<rparr>"
  have ln: "length (sl_buf_hdr (slocal sys tid)) = MAX_DEQ" by (rule local_okD(6) [OF K(6)])
  have ce: "copy_events max_num (sys_heap sys) l1 = (?evs, l2)"
    using bufs(2) ln by (subst copy_events_eq) (simp_all add: l1_def l2_def min_def)
  have l2: "sl_qe l2 = Some i" "sl_pri_queue l2 = ODP_QUEUE_INVALID" "length (sl_buf_hdr l2) = MAX_DEQ" "sl_index l2 + sl_num l2 \<le> MAX_DEQ"
    using bufs(2) ln local_okD(1) [OF K(6,4)] by (simp_all add: l1_def l2_def)
  have pe: "pending l2 = drop max_num bufs" using bufs(2) ln by (simp add: l1_def l2_def pending_def min_def)
  show ?thesis
  proof (cases "queue_is_atomic (qentry sys i)")
    case True
    let ?l = "l2\<lparr>sl_pri_queue := pri_q, sl_cmd_ev := ev\<rparr>" let ?s = "set_local tid ?l sys"
    have run: "deliver dev tid pri_q ev i bufs max_num sys = Inr (Some (q_handle (qentry sys i), ?evs), ?s)"
      using True ce by (simp add: deliver_def l1_def Let_def)
    have same: "sys_same sys ?s" by simp
    note R = sys_same_reads [OF same]
    have "locals_ok M ?s (H(tid := Some i))"
      by (rule locals_ok_upd [OF K(6) same _ K(2), where l = ?l])
        (use l2 K(3,5) True ev in \<open>auto simp: set_local_def local_ok_def held_def\<close>)
    then have "sched_inv M ?s L (H(tid := Some i))"
      using K(1,7) sched_static_local [OF K(2)] unfolding sched_inv_def sched_dyn_def R by simp
    moreover have "took_from tid i (drop max_num bufs) sys ?s" using pe l2 by (simp add: took_from_def pending_def)
    ultimately show ?thesis using run same True by (intro exI [of _ ?s] exI [of _ L] exI [of _ "H(tid := Some i)"]) auto
  next
    case False
    let ?s1 = "set_local tid l2 sys"
    have st1: "sched_static M ?s1" by (rule sched_static_local [OF K(2)])
    note R1 = sys_same_reads [OF sys_same_local]
    have cn: "sm_cmd M i \<notin> in_queues ?s1 L" using K(9) R1 by simp
    have rp1: "queues_rep ?s1 L" using K(1) by simp
    from enq_cmd [OF rp1 st1 K(3) cn, of dev] obtain s2 where
      s2: "odp_queue_enq dev pri_q ev ?s1 = Inr (0, s2)" "queues_rep s2 (L(sm_pri M i := L (sm_pri M i) @ [sm_cmd M i]))"
      "sys_same ?s1 s2" "sched_locals s2 = sched_locals ?s1" "\<forall>k. q_status (qentry s2 k) = q_status (qentry ?s1 k)" "sched_static M s2"
      by (auto simp: ev)
    let ?L = "L(sm_pri M i := L (sm_pri M i) @ [sm_cmd M i])"
    have same: "sys_same sys s2" by (rule sys_same_trans [OF sys_same_local s2(3)])
    note R = sys_same_reads [OF same]
    have qh: "q_handle (qentry s2 i) = q_handle (qentry sys i)"
      using same D(1) by (intro queue_sameD(5)) (simp add: sys_same_def)
    have run: "deliver dev tid pri_q ev i bufs max_num sys = Inr (Some (q_handle (qentry sys i), ?evs), s2)"
      using False ce s2(1) qh by (simp add: deliver_def l1_def Let_def)
    have "locals_ok M s2 (H(tid := None))"
      by (rule locals_ok_upd [OF K(6) same _ K(2), where l = l2])
        (use l2 K(3) False s2(4) in \<open>auto simp: set_local_def local_ok_def\<close>)
    then have lo: "locals_ok M s2 H" using K(4) by (simp add: fun_upd_idem)
    have hh: "held H k = (held (H(tid := Some i)) k \<and> k \<noteq> i)" for k using held_Some [of H, OF K(4)] K(5) by auto
    have "cmds_ok M (pri_queues sys) (qstat sys) (insert (sm_cmd M i) (in_queues sys L)) ?L H"
      by (rule cmds_ok_return [OF K(7,3) D(9,10) K(8) hh static_disjoint [OF K(2)]])
    moreover have "in_queues sys ?L = insert (sm_cmd M i) (in_queues sys L)"
      using in_queues_snoc [of "sm_pri M i" sys L] D(11) by (simp add: pri_queue_ok_def)
    moreover have "qstat s2 = qstat sys" using s2(5) by auto
    ultimately have "sched_inv M s2 ?L H" using s2(2,6) lo unfolding sched_inv_def sched_dyn_def R by simp
    moreover have "took_from tid i (drop max_num bufs) sys s2" using pe l2 s2(4) by (simp add: took_from_def pending_def set_local_def)
    ultimately show ?thesis using run same False D(9) K(4) by (intro exI [of _ s2] exI [of _ ?L] exI [of _ H]) auto
  qed
qed

text \<open>Running a command: an empty queue leaves the scheduler, otherwise events from the front of the queue are delivered.\<close>

definition sched_result ::
    "sched_map \<Rightarrow> nat \<Rightarrow> nat \<Rightarrow> nat \<Rightarrow> odp_sys \<Rightarrow> (nat \<Rightarrow> addr list) \<Rightarrow> (nat \<Rightarrow> nat option) \<Rightarrow>
     odp_sys \<Rightarrow> (nat \<Rightarrow> addr list) \<Rightarrow> (nat \<Rightarrow> nat option) \<Rightarrow> (u32 \<times> u32 list) option \<Rightarrow> bool"
  where
  "sched_result M tid max_num max_deq sys L H sys' L' H' r \<longleftrightarrow>
    (case r of
       None \<Rightarrow> (\<forall>k. k \<notin> pri_queues sys \<longrightarrow> L' k = L k) \<and> sched_locals sys' = sched_locals sys \<and> H' = H
     | Some (handle, evs) \<Rightarrow> \<exists>i\<in>sm_queues M. L i \<noteq> [] \<and> handle = q_handle (qentry sys i) \<and>
         evs = map (\<lambda>a. bh_handle (bhdr (sys_heap sys) a)) (take max_num (take max_deq (L i))) \<and>
         L' i = drop max_deq (L i) \<and> (\<forall>k. k \<noteq> i \<longrightarrow> k \<notin> pri_queues sys \<longrightarrow> L' k = L k) \<and>
         took_from tid i (drop max_num (take max_deq (L i))) sys sys' \<and> \<not> held H i \<and>
         H' = H(tid := if queue_is_atomic (qentry sys i) then Some i else None))"

definition sched_set :: "sched_map \<Rightarrow> odp_sys \<Rightarrow> nat set" where
  "sched_set M sys = {i \<in> sm_queues M. q_status (qentry sys i) = QUEUE_STATUS_SCHED}"

lemma run_dequeue_inv:
  assumes tk: "cmd_taken M sys L H tid i" and ev: "ev = q_cmd_ev (qentry sys i)" "pri_q = q_pri_queue (qentry sys i)"
    and md: "0 < max_deq" "max_deq \<le> MAX_DEQ"
  shows "\<exists>r sys' L' H'. run_dequeue_cmd dev tid pri_q ev i max_num max_deq sys = Inr (r, sys') \<and> sched_inv M sys' L' H' \<and>
    sys_same sys sys' \<and> sched_result M tid max_num max_deq sys L H sys' L' H' r \<and>
    (r = None \<longrightarrow> sched_set M sys' \<subset> sched_set M sys)"
proof -
  have K: "queues_rep sys L" "sched_static M sys" "i \<in> sm_queues M" "H tid = None" "\<not> held H i" "locals_ok M sys H"
    "cmds_ok M (pri_queues sys) (qstat sys) (in_queues sys L) L (H(tid := Some i))" "qstat sys i = QUEUE_STATUS_SCHED"
    "sm_cmd M i \<notin> in_queues sys L" using tk by (simp_all add: cmd_taken_def)
  note D = sched_queueD [OF K(2,3)]
  have live: "live_queue (qentry sys i)" using K(8) by (simp add: live_queue_def)
  from deq_multi_queues [OF K(1) D(1) live, of max_deq] K(8) obtain q hp where
    d: "queue_deq_multi (qentry sys i) (sys_heap sys) (int max_deq) = (Some (take max_deq (L i)), q, hp)"
    "queues_rep (put_queue i q hp sys) (L(i := drop max_deq (L i)))" "queue_same (qentry sys i) q"
    "q_status q = (if L i = [] then QUEUE_STATUS_NOTSCHED else QUEUE_STATUS_SCHED)"
    "next_only (set (take max_deq (L i))) (sys_heap sys) hp" by auto
  let ?s = "put_queue i q hp sys" and ?L = "L(i := drop max_deq (L i))"
  have same: "sys_same sys ?s" by (rule sys_same_put [OF D(1) d(3,5)])
  note R = sys_same_reads [OF same]
  have st: "qstat ?s k = (if k = i then q_status q else qstat sys k)" for k using put_queue_status [OF D(1)] by simp
  have static: "sched_static M ?s"
    by (rule sched_static_same [OF same K(2)]) (use st D(10) K(2) in \<open>auto simp: sched_static_def pri_queue_ok_def\<close>)
  have lo: "locals_ok M ?s H" by (rule locals_ok_same [OF same _ K(2,6)]) simp
  have sub: "in_queues sys ?L \<subseteq> in_queues sys L" by (rule in_queues_shrink) (rule set_drop_subset)
  have co: "cmds_ok M (pri_queues sys) (qstat sys) (in_queues sys ?L) ?L (H(tid := Some i))"
    by (rule cmds_ok_mono [OF K(7) sub]) (use D(10) sched_queueD(9) [OF K(2)] in auto)
  show ?thesis
  proof (cases "L i = []")
    case True
    have run: "run_dequeue_cmd dev tid pri_q ev i max_num max_deq sys = Inr (None, ?s)" using d(1) True by (simp add: run_dequeue_cmd_def)
    have qs: "qstat ?s = (qstat sys)(i := QUEUE_STATUS_NOTSCHED)" using st d(4) True by (intro ext) auto
    have lt: "sched_set M ?s \<subset> sched_set M sys"
    proof (rule psubsetI)
      show "sched_set M ?s \<subseteq> sched_set M sys" using fun_cong [OF qs] by (auto simp: sched_set_def split: if_splits)
      have "i \<in> sched_set M sys" "i \<notin> sched_set M ?s" using K(3,8) fun_cong [OF qs, of i] by (auto simp: sched_set_def)
      then show "sched_set M ?s \<noteq> sched_set M sys" by auto
    qed
    note qs moreover have "cmds_ok M (pri_queues sys) ((qstat sys)(i := QUEUE_STATUS_NOTSCHED)) (in_queues sys ?L) ?L H"
      by (rule cmds_ok_drop [OF co _ _ K(4,5)]) (use True K(9) sub in auto)
    ultimately have "sched_inv M ?s ?L H" using d(2) static lo unfolding sched_inv_def sched_dyn_def R by simp
    then show ?thesis using run same K(4) True lt by (intro exI [of _ None] exI [of _ ?s] exI [of _ ?L] exI [of _ H]) (auto simp: sched_result_def)
  next
    case False
    have "qstat ?s = qstat sys" using st d(4) False K(8) by (intro ext) auto
    then have tk1: "cmd_taken M ?s ?L H tid i"
      using d(2) static lo K(3-5,9) co sub st [of i] d(4) False unfolding cmd_taken_def R by auto
    have evs: "ev = q_cmd_ev (qentry ?s i)" "pri_q = q_pri_queue (qentry ?s i)" "q_handle (qentry ?s i) = q_handle (qentry sys i)"
      "queue_is_atomic (qentry ?s i) = queue_is_atomic (qentry sys i)"
      using queue_sameD [OF d(3)] D(1) ev by (simp_all add: queue_is_atomic_def)
    have ne: "take max_deq (L i) \<noteq> []" using False md(1) by simp
    have le: "length (take max_deq (L i)) \<le> MAX_DEQ" using md(2) by simp
    from deliver_inv [OF tk1 evs(1,2) ne le, where max_num = max_num and dev = dev] obtain sys' L' H' where
      r: "deliver dev tid pri_q ev i (take max_deq (L i)) max_num ?s =
        Inr (Some (q_handle (qentry ?s i), map (\<lambda>a. bh_handle (bhdr hp a)) (take max_num (take max_deq (L i)))), sys')"
      "sched_inv M sys' L' H'" "sys_same ?s sys'" "\<forall>k. k \<notin> pri_queues ?s \<longrightarrow> L' k = ?L k" "H' = H(tid := if queue_is_atomic (qentry ?s i) then Some i else None)"
      "took_from tid i (drop max_num (take max_deq (L i))) ?s sys'" by auto
    have tf: "took_from tid i (drop max_num (take max_deq (L i))) sys sys'" using r(6) by (simp add: took_from_def)
    have "run_dequeue_cmd dev tid pri_q ev i max_num max_deq sys =
        Inr (Some (q_handle (qentry sys i), map (\<lambda>a. bh_handle (bhdr (sys_heap sys) a)) (take max_num (take max_deq (L i)))), sys')"
      using d(1) ne r(1) evs(3) next_only_field(1) [OF d(5)] by (simp add: run_dequeue_cmd_def)
    then show ?thesis
      using r(2-5) tf K(3,5) False D(10) evs(4) sys_same_trans [OF same r(3)] unfolding R
      by (intro exI [of _ "Some (q_handle (qentry sys i), map (\<lambda>a. bh_handle (bhdr (sys_heap sys) a)) (take max_num (take max_deq (L i))))"]
          exI [of _ sys'] exI [of _ L'] exI [of _ H']) (auto simp: sched_result_def)
  qed
qed

section \<open>The search over priorities\<close>

text \<open>What every part of the search keeps: it never aborts, and it gives a result that agrees with the queues.\<close>

text \<open>
  A search of the sub queues \<open>V\<close> that finds nothing either took a queue off the schedule or found all of them without commands.
\<close>

definition idle_search :: "sched_map \<Rightarrow> (nat \<times> nat) set \<Rightarrow> odp_sys \<Rightarrow> (nat \<Rightarrow> addr list) \<Rightarrow> odp_sys \<Rightarrow> (nat \<Rightarrow> addr list) \<Rightarrow> bool" where
  "idle_search M V sys L sys' L' \<longleftrightarrow>
    sched_set M sys' \<subset> sched_set M sys \<or>
    (sched_set M sys' = sched_set M sys \<and> L' = L \<and>
     (\<forall>p k j. (p, k) \<in> V \<longrightarrow> bit (sc_pri_mask (sched sys) ! p) k \<longrightarrow> queue_to_qentry sys (sc_pri_queue (sched sys) ! p ! k) = Inr j \<longrightarrow> L j = []))"

lemma idle_search_trans:
  assumes "idle_search M V1 sys L sys1 L1" "idle_search M V2 sys1 L1 sys2 L2" "sys_same sys sys1"
  shows "idle_search M (V1 \<union> V2) sys L sys2 L2"
proof -
  have s: "sched sys1 = sched sys" using assms(3) by (simp add: sys_same_def)
  show ?thesis
  proof (cases "sched_set M sys2 \<subset> sched_set M sys")
    case False
    then have e: "sched_set M sys1 = sched_set M sys" "L1 = L" "sched_set M sys2 = sched_set M sys1" "L2 = L1"
      using assms(1,2) by (auto simp: idle_search_def)
    then show ?thesis using assms(1,2) False by (auto simp: idle_search_def s sys_same_reads(1) [OF assms(3)])
  qed (simp add: idle_search_def)
qed

definition sched_run ::
    "sched_map \<Rightarrow> (nat \<times> nat) set \<Rightarrow> nat \<Rightarrow> nat \<Rightarrow> nat \<Rightarrow> odp_sys \<Rightarrow> (nat \<Rightarrow> addr list) \<Rightarrow> (nat \<Rightarrow> nat option) \<Rightarrow>
     (c_error + ((u32 \<times> u32 list) option \<times> odp_sys)) option \<Rightarrow> bool" where
  "sched_run M V tid max_num max_deq sys L H res \<longleftrightarrow>
    (\<exists>r sys' L' H'. res = Some (Inr (r, sys')) \<and> sched_inv M sys' L' H' \<and> sys_same sys sys' \<and>
       sched_result M tid max_num max_deq sys L H sys' L' H' r \<and> (r = None \<longrightarrow> idle_search M V sys L sys' L'))"

lemma sched_run_none:
  "sched_inv M sys L H \<Longrightarrow> H tid = None \<Longrightarrow> (\<And>p k. (p, k) \<in> V \<Longrightarrow> \<not> bit (sc_pri_mask (sched sys) ! p) k) \<Longrightarrow>
    sched_run M V tid max_num max_deq sys L H (Some (Inr (None, sys)))"
  unfolding sched_run_def by (intro exI [of _ None] exI [of _ sys] exI [of _ L] exI [of _ H]) (auto simp: sched_result_def idle_search_def)

lemma sched_result_trans:
  assumes r: "sched_result M tid max_num max_deq sys1 L1 H sys2 L2 H2 r" and same: "sys_same sys sys1" and st: "sched_static M sys"
    and L1: "\<And>k. k \<notin> pri_queues sys \<Longrightarrow> L1 k = L k" and l: "sched_locals sys1 = sched_locals sys"
  shows "sched_result M tid max_num max_deq sys L H sys2 L2 H2 r"
proof -
  note R = sys_same_reads [OF same]
  show ?thesis
  proof (cases r)
    case None
    then show ?thesis using r L1 l by (simp add: sched_result_def R)
  next
    case (Some x)
    then obtain handle evs where x: "r = Some (handle, evs)" by (cases x) auto
    from r x obtain i where i: "i \<in> sm_queues M" "L1 i \<noteq> []" "handle = q_handle (qentry sys1 i)"
      "evs = map (\<lambda>a. bh_handle (bhdr (sys_heap sys) a)) (take max_num (take max_deq (L1 i)))" "L2 i = drop max_deq (L1 i)"
      "\<forall>k. k \<noteq> i \<longrightarrow> k \<notin> pri_queues sys \<longrightarrow> L2 k = L1 k" "took_from tid i (drop max_num (take max_deq (L1 i))) sys1 sys2"
      "\<not> held H i" "H2 = H(tid := if queue_is_atomic (qentry sys1 i) then Some i else None)"
      by (auto simp: sched_result_def R)
    note D = sched_queueD [OF st i(1)]
    have Li: "L1 i = L i" by (rule L1 [OF D(10)])
    have "queue_same (qentry sys i) (qentry sys1 i)" using same D(1) by (simp add: sys_same_def)
    then have "q_handle (qentry sys1 i) = q_handle (qentry sys i)" "queue_is_atomic (qentry sys1 i) = queue_is_atomic (qentry sys i)"
      by (simp_all add: queue_sameD queue_is_atomic_def)
    moreover have "took_from tid i (drop max_num (take max_deq (L i))) sys sys2" using i(7) l Li by (simp add: took_from_def)
    ultimately show ?thesis using i Li L1 unfolding x sched_result_def by (auto intro!: bexI [of _ i])
  qed
qed

lemma sched_run_trans:
  assumes inv: "sched_inv M sys L H" "H tid = None" and run: "sched_run M V1 tid max_num max_deq sys L H res"
    and next0: "\<And>sys1 L1 H1. sched_inv M sys1 L1 H1 \<Longrightarrow> H1 tid = None \<Longrightarrow> sys_same sys sys1 \<Longrightarrow> sched_run M V2 tid max_num max_deq sys1 L1 H1 (f sys1)"
  shows "sched_run M (V1 \<union> V2) tid max_num max_deq sys L H (run_then res (\<lambda>(r, sys1). if r \<noteq> None then Some (Inr (r, sys1)) else f sys1))"
proof -
  note I = sched_invD [OF inv(1)]
  from run obtain r sys1 L1 H1 where
    1: "res = Some (Inr (r, sys1))" "sched_inv M sys1 L1 H1" "sys_same sys sys1" 
    "sched_result M tid max_num max_deq sys L H sys1 L1 H1 r" "r = None \<Longrightarrow> idle_search M V1 sys L sys1 L1" unfolding sched_run_def by auto
  show ?thesis
  proof (cases r)
    case None
    have HH: "H1 = H" using 1(4) None by (simp add: sched_result_def)
    then have "H1 tid = None" using inv(2) by simp
    from next0 [OF 1(2) this 1(3)] HH obtain r2 sys2 L2 H2 where
      2: "f sys1 = Some (Inr (r2, sys2))" "sched_inv M sys2 L2 H2" "sys_same sys1 sys2" 
      "sched_result M tid max_num max_deq sys1 L1 H sys2 L2 H2 r2" "r2 = None \<Longrightarrow> idle_search M V2 sys1 L1 sys2 L2" unfolding sched_run_def by auto
    have "sched_result M tid max_num max_deq sys L H sys2 L2 H2 r2"
      by (rule sched_result_trans [OF 2(4) 1(3) I(2)]) (use 1(4) None in \<open>simp_all add: sched_result_def\<close>)
    moreover have "r2 = None \<Longrightarrow> idle_search M (V1 \<union> V2) sys L sys2 L2"
      using idle_search_trans [OF 1(5) [OF None] 2(5) 1(3)] .
    ultimately show ?thesis using 1 2 None sys_same_trans [OF 1(3) 2(3)] unfolding sched_run_def by auto
  next
    case (Some x)
    then show ?thesis using 1 unfolding sched_run_def by auto
  qed
qed

lemma queue_to_qentry_inj: "queue_to_qentry sys h = Inr j \<Longrightarrow> queue_to_qentry sys h' = Inr j \<Longrightarrow> h = h'"
  by (auto simp: queue_to_qentry_def queue_to_id_def Let_def split: if_splits) (metis unsigned_word_eqI diff_add_cancel)

lemma sched_sub_run:
  assumes inv: "sched_inv M sys L H" and t: "H tid = None" and p: "p < ODP_CONFIG_SCHED_PRIOS" "id0 < QUEUES_PER_PRIO"
    and md: "0 < max_deq" "max_deq \<le> MAX_DEQ"
  shows "sched_run M {(p, id0)} tid max_num max_deq sys L H (sched_sub dev tid p id0 max_num max_deq sys)"
proof (cases "bit (sc_pri_mask (sched sys) ! p) id0")
  case False
  then show ?thesis using sched_run_none [of M sys L H, OF inv t, of "{(p, id0)}"] by (simp add: sched_sub_def)
next
  case True
  note I = sched_invD [OF inv]
  let ?pq = "sc_pri_queue (sched sys) ! p ! id0"
  obtain j where j: "queue_to_qentry sys ?pq = Inr j" using I(2) p unfolding sched_static_def by meson
  then have jp: "j \<in> pri_queues sys" using p unfolding pri_queues_def by blast
  show ?thesis
  proof (cases "L j")
    case Nil
    from deq_pri_queue [OF inv j jp, of dev] Nil obtain sys1 where
      s: "odp_queue_deq dev ?pq sys = Some (Inr (ODP_EVENT_INVALID, sys1))" "queues_rep sys1 L" "sys_same sys sys1"
      "qstat sys1 = qstat sys" "sched_locals sys1 = sched_locals sys" "sched_static M sys1" by (auto simp: fun_upd_idem)
    have "sched_sub dev tid p id0 max_num max_deq sys = Some (Inr (None, sys1))" using True s(1) by (simp add: sched_sub_def ODP_BUFFER_INVALID_def)
    moreover have "sched_inv M sys1 L H"
      using I(3) s(2,6) locals_ok_same [OF s(3,5) I(2)] unfolding sched_inv_def sched_dyn_def sys_same_reads [OF s(3)] s(4) by simp
    moreover have "idle_search M {(p, id0)} sys L sys1 L"
      using j Nil fun_cong [OF s(4)] by (auto simp: idle_search_def sched_set_def)
    ultimately show ?thesis using s(3,5) t unfolding sched_run_def
      by (intro exI [of _ None] exI [of _ sys1] exI [of _ L] exI [of _ H]) (simp add: sched_result_def)
  next
    case (Cons c cs)
    from take_cmd [OF inv j jp Cons t, of dev] obtain sys1 i where
      c: "i \<in> sm_queues M" "sm_pri M i = j" "odp_queue_deq dev ?pq sys = Some (Inr (q_cmd_ev (qentry sys i), sys1))"
      "cmd_taken M sys1 (L(j := cs)) H tid i" "get_cmd (q_cmd_ev (qentry sys i)) sys1 = Inr (Cmd_Dequeue i)" "sys_same sys sys1"
      "sched_locals sys1 = sched_locals sys" "qstat sys1 = qstat sys" by auto
    note D = sched_queueD [OF I(2) c(1)]
    have qs: "queue_same (qentry sys i) (qentry sys1 i)" using c(6) D(1) by (simp add: sys_same_def)
    have pq: "q_pri_queue (qentry sys1 i) = ?pq" "q_cmd_ev (qentry sys i) = q_cmd_ev (qentry sys1 i)"
      using queue_sameD [OF qs] queue_to_qentry_inj [OF _ j] D(6) c(2) by simp_all
    from run_dequeue_inv [OF c(4) pq(2) pq(1) [symmetric] md, of dev max_num] obtain r sys2 L2 H2 where
      d: "run_dequeue_cmd dev tid ?pq (q_cmd_ev (qentry sys i)) i max_num max_deq sys1 = Inr (r, sys2)" "sched_inv M sys2 L2 H2"
      "sys_same sys1 sys2" "sched_result M tid max_num max_deq sys1 (L(j := cs)) H sys2 L2 H2 r"
      "r = None \<longrightarrow> sched_set M sys2 \<subset> sched_set M sys1" by blast
    have "r = None \<longrightarrow> idle_search M {(p, id0)} sys L sys2 L2"
      using d(5) fun_cong [OF c(8)] by (simp add: idle_search_def sched_set_def)
    moreover
have "sched_sub dev tid p id0 max_num max_deq sys = Some (Inr (r, sys2))"
      using True c(3,5) d(1) D(7) by (simp add: sched_sub_def ODP_BUFFER_INVALID_def)
    moreover have "sched_result M tid max_num max_deq sys L H sys2 L2 H2 r"
      by (rule sched_result_trans [OF d(4) c(6) I(2)]) (use jp c(7) in auto)
    ultimately show ?thesis using d sys_same_trans [OF c(6) d(3)] unfolding sched_run_def by blast
  qed
qed

lemma sched_subs_run:
  assumes "sched_inv M sys L H" "H tid = None" "p < ODP_CONFIG_SCHED_PRIOS" "\<forall>x\<in>set ids. x < QUEUES_PER_PRIO" "0 < max_deq" "max_deq \<le> MAX_DEQ"
  shows "sched_run M ({p} \<times> set ids) tid max_num max_deq sys L H (sched_subs ids dev tid p max_num max_deq sys)"
  using assms
proof (induction ids arbitrary: sys L H)
  case Nil
  then show ?case using sched_run_none [of M sys L H tid "{}"] by simp
next
  case (Cons x xs)
  have V: "{p} \<times> set (x # xs) = {(p, x)} \<union> {p} \<times> set xs" by auto
  show ?case unfolding sched_subs.simps V
    by (rule sched_run_trans [OF Cons.prems(1,2) sched_sub_run [OF Cons.prems(1-3)]]) (use Cons in simp_all)
qed

lemma sub_ids: "set (map (\<lambda>j. (tid + j) mod QUEUES_PER_PRIO) [0..<QUEUES_PER_PRIO]) = {..<QUEUES_PER_PRIO}"
proof -
  have "x \<in> (\<lambda>j. (tid + j) mod 4) ` {0..<4}" if "x < 4" for x
  proof (rule image_eqI [of _ _ "(x + 4 - tid mod 4) mod 4"])
    have "(tid + (x + 4 - tid mod 4) mod 4) mod 4 = (tid mod 4 + (x + 4 - tid mod 4)) mod 4" by (metis mod_add_left_eq mod_add_right_eq)
    also have "tid mod 4 + (x + 4 - tid mod 4) = x + 4" using mod_less_divisor [of 4 tid] by linarith
    finally show "x = (tid + (x + 4 - tid mod 4) mod 4) mod 4" using that by simp
  qed simp
  then show ?thesis by auto
qed

lemma sched_prios_run:
  assumes "sched_inv M sys L H" "H tid = None" "\<forall>p\<in>set ps. p < ODP_CONFIG_SCHED_PRIOS" "0 < max_deq" "max_deq \<le> MAX_DEQ"
  shows "sched_run M (set ps \<times> {..<QUEUES_PER_PRIO}) tid max_num max_deq sys L H (sched_prios ps dev tid max_num max_deq sys)"
  using assms
proof (induction ps arbitrary: sys L H)
  case Nil
  then show ?case using sched_run_none [of M sys L H tid "{}"] by simp
next
  case (Cons p ps)
  let ?V = "set ps \<times> {..<QUEUES_PER_PRIO}" let ?ids = "map (\<lambda>j. (tid + j) mod QUEUES_PER_PRIO) [0..<QUEUES_PER_PRIO]"
  have V: "set (p # ps) \<times> {..<QUEUES_PER_PRIO} = {p} \<times> set ?ids \<union> ?V" unfolding sub_ids by auto
  show ?case
  proof (cases "sc_pri_mask (sched sys) ! p = 0")
    case True
    have "sched_run M ({p} \<times> set ?ids) tid max_num max_deq sys L H (Some (Inr (None, sys)))"
      by (rule sched_run_none [OF Cons.prems(1,2)]) (use True in auto)
    from sched_run_trans [OF Cons.prems(1,2) this, where f = "sched_prios ps dev tid max_num max_deq" and ?V2.0 = ?V] Cons True
    show ?thesis unfolding V by simp
  next
    case False
    have ids: "\<forall>x\<in>set ?ids. x < QUEUES_PER_PRIO" by auto
    have p: "p < ODP_CONFIG_SCHED_PRIOS" using Cons.prems(3) by simp
    show ?thesis unfolding sched_prios.simps if_not_P [OF False] V
      by (rule sched_run_trans [OF Cons.prems(1,2) sched_subs_run [OF Cons.prems(1,2) p ids Cons.prems(4,5)]]) (use Cons in simp_all)
  qed
qed

end
