(* ===== verification/Odp_Schedule_Correct.thy ===== *)
theory Odp_Schedule_Correct
  imports Odp_Schedule_Inv "HOL-Library.Sublist"
begin

text \<open>
  Runs of the scheduler: any interleaving of enqueues and calls of \<open>schedule\<close> by any threads. No step aborts, an atomic queue is held by at
  most one thread and keeps the order of its events, and waiting for an event ends when there is one.
\<close>

section \<open>A call of the scheduler\<close>

text \<open>What a call gives: events left over from the last one, or what the search finds after the atomic queue was released.\<close>

lemma copy_pending:
  assumes "length (sl_buf_hdr l) = MAX_DEQ" "sl_index l + sl_num l \<le> MAX_DEQ"
  shows "\<exists>l'. copy_events n hp l = (map (\<lambda>a. bh_handle (bhdr hp a)) (take n (pending l)), l') \<and> pending l' = drop n (pending l) \<and>
    l' = l\<lparr>sl_index := sl_index l', sl_num := sl_num l'\<rparr> \<and> sl_index l' + sl_num l' \<le> MAX_DEQ \<and> (sl_num l = 0 \<longrightarrow> sl_num l' = 0)"
proof -
  have le: "sl_index l + sl_num l \<le> length (sl_buf_hdr l)" using assms by simp
  let ?l = "l\<lparr>sl_index := sl_index l + min n (sl_num l), sl_num := sl_num l - min n (sl_num l)\<rparr>"
  have "take n (pending l) = take (min n (sl_num l)) (drop (sl_index l) (sl_buf_hdr l))" by (simp add: pending_def)
  moreover have "pending ?l = drop n (pending l)"
    by (cases "n \<le> sl_num l") (simp_all add: pending_def drop_take min_def add.commute)
  ultimately show ?thesis using assms copy_events_eq [OF le, of n hp] by (intro exI [of _ ?l]) simp
qed

lemma schedule_leftover:
  assumes inv: "sched_inv M sys L H" and n: "sl_num (slocal sys tid) \<noteq> 0"
  shows "\<exists>i sys'. i \<in> sm_queues M \<and> sl_qe (slocal sys tid) = Some i \<and>
    schedule dev tid max_num max_deq sys = Some (Inr (Some (q_handle (qentry sys i),
      map (\<lambda>a. bh_handle (bhdr (sys_heap sys) a)) (take max_num (pending (slocal sys tid)))), sys')) \<and>
    sched_inv M sys' L H \<and> sys_same sys sys' \<and> took_from tid i (drop max_num (pending (slocal sys tid))) sys sys' \<and>
    (queue_is_atomic (qentry sys i) \<longrightarrow> H tid = Some i)"
proof -
  note I = sched_invD [OF inv]
  have lo: "locals_ok M sys H" and co: "cmds_ok M (pri_queues sys) (qstat sys) (in_queues sys L) L H" using I(3) by (auto simp: sched_dyn_def)
  from local_ok_num [OF lo n] obtain i where
    i: "i \<in> sm_queues M" "sl_qe (slocal sys tid) = Some i" "queue_is_atomic (qentry sys i) \<Longrightarrow> H tid = Some i" by blast
  from copy_pending [OF local_okD(6,7) [OF lo], where n = max_num and hp = "sys_heap sys"] obtain l' where
    c: "copy_events max_num (sys_heap sys) (slocal sys tid) =
      (map (\<lambda>a. bh_handle (bhdr (sys_heap sys) a)) (take max_num (pending (slocal sys tid))), l')"
    "pending l' = drop max_num (pending (slocal sys tid))"
    "l' = (slocal sys tid)\<lparr>sl_index := sl_index l', sl_num := sl_num l'\<rparr>" "sl_index l' + sl_num l' \<le> MAX_DEQ" by blast
  have f: "sl_qe l' = Some i" "sl_pri_queue l' = sl_pri_queue (slocal sys tid)" "sl_cmd_ev l' = sl_cmd_ev (slocal sys tid)"
    "sl_buf_hdr l' = sl_buf_hdr (slocal sys tid)" using i(2) by (subst c(3); simp)+
  let ?s = "set_local tid l' sys"
  have "locals_ok M ?s (H(tid := H tid))"
  proof (rule locals_ok_upd [OF lo sys_same_local _ I(2), where l = l'])
    have "local_ok M sys (H tid) (slocal sys tid)" using lo by (simp add: locals_ok_def)
    then show "local_ok M sys (H tid) l'" using f c(4) i by (auto simp: local_ok_def split: option.splits)
  qed (use local_okD(8) [OF lo] in \<open>auto simp: set_local_def\<close>)
  then have lo1: "locals_ok M ?s H" by simp
  have "sched_inv M ?s L H"
    using I(1) co lo1 sched_static_local [OF I(2)] unfolding sched_inv_def sched_dyn_def sys_same_reads [OF sys_same_local] by simp
  then show ?thesis using n c(1,2) f(1) i by (intro exI [of _ i] exI [of _ ?s]) (simp add: schedule_def took_from_def)
qed

text \<open>The events of an atomic queue that were not handed out yet: those its holder still has, then those in the queue.\<close>

definition waiting :: "odp_sys \<Rightarrow> (nat \<Rightarrow> addr list) \<Rightarrow> (nat \<Rightarrow> nat option) \<Rightarrow> nat \<Rightarrow> addr list \<Rightarrow> bool" where
  "waiting sys L H i ws \<longleftrightarrow> (\<exists>t. H t = Some i \<and> ws = pending (slocal sys t) @ L i) \<or> (\<not> held H i \<and> ws = L i)"

definition handle_at :: "odp_sys \<Rightarrow> addr \<Rightarrow> u32" where
  "handle_at sys a = bh_handle (bhdr (sys_heap sys) a)"

lemma handle_at_same: "sys_same sys sys' \<Longrightarrow> handle_at sys' a = handle_at sys a"
  by (simp add: handle_at_def sys_same_reads)

lemma handle_same: "sys_same sys sys' \<Longrightarrow> sched_static M sys \<Longrightarrow> i \<in> sm_queues M \<Longrightarrow> q_handle (qentry sys' i) = q_handle (qentry sys i)"
  using sched_queueD(1) [of M sys i] by (intro queue_sameD(5)) (simp add: sys_same_def)

lemma handle_inj:
  "sched_static M sys \<Longrightarrow> i \<in> sm_queues M \<Longrightarrow> k \<in> sm_queues M \<Longrightarrow> q_handle (qentry sys i) = q_handle (qentry sys k) \<Longrightarrow> i = k"
  by (metis sched_queueD(13) sum.inject(2))

text \<open>The events that a result gives for one queue.\<close>

fun got :: "u32 \<Rightarrow> (u32 \<times> u32 list) option \<Rightarrow> u32 list" where
  "got handle None = []"
| "got handle (Some (h, evs)) = (if h = handle then evs else [])"

definition fifo_kept ::
    "sched_map \<Rightarrow> odp_sys \<Rightarrow> (nat \<Rightarrow> addr list) \<Rightarrow> (nat \<Rightarrow> nat option) \<Rightarrow> odp_sys \<Rightarrow> (nat \<Rightarrow> addr list) \<Rightarrow> (nat \<Rightarrow> nat option) \<Rightarrow>
     (u32 \<times> u32 list) option \<Rightarrow> bool" where
  "fifo_kept M sys L H sys' L' H' r \<longleftrightarrow>
    (\<forall>i\<in>sm_queues M. queue_is_atomic (qentry sys i) \<longrightarrow>
       (\<forall>ws. waiting sys L H i ws \<longrightarrow>
          (\<exists>ws'. waiting sys' L' H' i ws' \<and> map (handle_at sys) ws = got (q_handle (qentry sys i)) r @ map (handle_at sys) ws')))"

lemma fifo_kept_leftover:
  assumes lo: "locals_ok M sys H" and st: "sched_static M sys" and n: "sl_num (slocal sys tid) \<noteq> 0"
    and j: "j \<in> sm_queues M" "sl_qe (slocal sys tid) = Some j" "queue_is_atomic (qentry sys j) \<Longrightarrow> H tid = Some j"
    and tf: "took_from tid j (drop max_num (pending (slocal sys tid))) sys sys'"
  shows "fifo_kept M sys L H sys' L H (Some (q_handle (qentry sys j), map (handle_at sys) (take max_num (pending (slocal sys tid)))))"
  unfolding fifo_kept_def
proof (intro ballI impI allI)
  fix i ws assume i: "i \<in> sm_queues M" "queue_is_atomic (qentry sys i)" and w: "waiting sys L H i ws"
  show "\<exists>ws'. waiting sys' L H i ws' \<and> map (handle_at sys) ws = got (q_handle (qentry sys i))
      (Some (q_handle (qentry sys j), map (handle_at sys) (take max_num (pending (slocal sys tid))))) @ map (handle_at sys) ws'"
  proof (cases "i = j")
    case True
    then have h: "H tid = Some i" using i j by simp
    then have ws: "ws = pending (slocal sys tid) @ L i" using w local_okD(8) [OF lo _ h] unfolding waiting_def held_def by blast
    have "waiting sys' L H i (drop max_num (pending (slocal sys tid)) @ L i)" using h tf by (auto simp: waiting_def took_from_def)
    moreover have "map (handle_at sys) ws = map (handle_at sys) (take max_num (pending (slocal sys tid))) @
        map (handle_at sys) (drop max_num (pending (slocal sys tid)) @ L i)"
      unfolding ws map_append [symmetric] append_assoc [symmetric] append_take_drop_id ..
    ultimately show ?thesis unfolding True [symmetric] got.simps by (intro exI [of _ "drop max_num (pending (slocal sys tid)) @ L i"] conjI) simp_all
  next
    case False
    have "slocal sys' t = slocal sys t" if "H t = Some i" for t
    proof -
      have "t \<noteq> tid" using local_okD(9) [OF lo that] j(2) False by auto
      then show ?thesis using tf by (simp add: took_from_def)
    qed
    then have "waiting sys' L H i ws" using w unfolding waiting_def by metis
    then show ?thesis using False handle_inj [OF st i(1) j(1)] by auto
  qed
qed

lemma fifo_kept_result:
  assumes r: "sched_result M tid max_num max_deq sys L H sys' L' H' r" and st: "sched_static M sys" and h: "H tid = None"
  shows "fifo_kept M sys L H sys' L' H' r"
  unfolding fifo_kept_def
proof (intro ballI impI allI)
  fix i ws assume i: "i \<in> sm_queues M" "queue_is_atomic (qentry sys i)" and w: "waiting sys L H i ws"
  have ip: "i \<notin> pri_queues sys" by (rule sched_queueD(10) [OF st i(1)])
  show "\<exists>ws'. waiting sys' L' H' i ws' \<and> map (handle_at sys) ws = got (q_handle (qentry sys i)) r @ map (handle_at sys) ws'"
  proof (cases r)
    case None
    then have "waiting sys' L' H' i ws" using r w ip by (simp add: sched_result_def waiting_def)
    then show ?thesis using None by auto
  next
    case (Some x)
    then obtain handle evs where x: "r = Some (handle, evs)" by (cases x) auto
    from r x obtain j where j: "j \<in> sm_queues M" "handle = q_handle (qentry sys j)"
      "evs = map (handle_at sys) (take max_num (take max_deq (L j)))" "L' j = drop max_deq (L j)"
      "\<forall>k. k \<noteq> j \<longrightarrow> k \<notin> pri_queues sys \<longrightarrow> L' k = L k" "took_from tid j (drop max_num (take max_deq (L j))) sys sys'"
      "\<not> held H j" "H' = H(tid := if queue_is_atomic (qentry sys j) then Some j else None)"
      by (auto simp: sched_result_def handle_at_def)
    show ?thesis
    proof (cases "i = j")
      case True
      have ws: "ws = L i" using w j(7) True by (auto simp: waiting_def held_def)
      let ?ws = "drop max_num (take max_deq (L i)) @ drop max_deq (L i)"
      have "waiting sys' L' H' i ?ws" using j(4,6,8) True i(2) unfolding waiting_def took_from_def by (intro disjI1 exI [of _ tid]) simp
      moreover have "map (handle_at sys) ws = map (handle_at sys) (take max_num (take max_deq (L i))) @ map (handle_at sys) ?ws"
        unfolding ws map_append [symmetric] append_assoc [symmetric] append_take_drop_id ..
      ultimately show ?thesis using True x j(2,3) by (intro exI [of _ ?ws] conjI) simp_all
    next
      case False
      have "H' t = Some i \<longleftrightarrow> H t = Some i" for t using j(8) False h by auto
      moreover have "slocal sys' t = slocal sys t" if "H t = Some i" for t using j(6) that h unfolding took_from_def by (metis option.distinct(1))
      ultimately have "waiting sys' L' H' i ws" using w j(5) ip False unfolding waiting_def held_def by auto
      then show ?thesis using False handle_inj [OF st i(1) j(1)] x j(2) by auto
    qed
  qed
qed

lemma fifo_kept_trans:
  assumes "fifo_kept M sys L H sys1 L1 H1 None" "fifo_kept M sys1 L1 H1 sys2 L2 H2 r" "sys_same sys sys1" "sched_static M sys"
  shows "fifo_kept M sys L H sys2 L2 H2 r"
  unfolding fifo_kept_def
proof (intro ballI impI allI)
  fix i ws assume i: "i \<in> sm_queues M" "queue_is_atomic (qentry sys i)" and w: "waiting sys L H i ws"
  have "queue_same (qentry sys i) (qentry sys1 i)" using assms(3) sched_queueD(1) [OF assms(4) i(1)] by (simp add: sys_same_def)
  then have q: "queue_is_atomic (qentry sys1 i)" "q_handle (qentry sys1 i) = q_handle (qentry sys i)"
    using i(2) by (simp_all add: queue_sameD queue_is_atomic_def)
  have h: "map (handle_at sys1) xs = map (handle_at sys) xs" for xs using handle_at_same [OF assms(3)] by simp
  from assms(1) i w obtain w1 where w1: "waiting sys1 L1 H1 i w1" "map (handle_at sys) ws = map (handle_at sys) w1" by (auto simp: fifo_kept_def)
  from assms(2) i(1) q(1) w1(1) obtain w2 where
    "waiting sys2 L2 H2 i w2" "map (handle_at sys1) w1 = got (q_handle (qentry sys1 i)) r @ map (handle_at sys1) w2" unfolding fifo_kept_def by blast
  then show "\<exists>ws'. waiting sys2 L2 H2 i ws' \<and> map (handle_at sys) ws = got (q_handle (qentry sys i)) r @ map (handle_at sys) ws'"
    unfolding h q(2) w1(2) by blast
qed

lemma fifo_kept_refl: "fifo_kept M sys L H sys L H None"
  by (auto simp: fifo_kept_def)

lemma release_fifo:
  assumes inv: "sched_inv M sys L H"
  shows "\<exists>sys' L' H'. odp_schedule_release_atomic dev tid sys = Inr sys' \<and> sched_inv M sys' L' H' \<and> sys_same sys sys' \<and>
    fifo_kept M sys L H sys' L' H' None \<and> (sl_num (slocal sys tid) = 0 \<longrightarrow> H' tid = None) \<and> (\<forall>t. t \<noteq> tid \<longrightarrow> H' t = H t) \<and>
    (\<forall>k. k \<notin> pri_queues sys \<longrightarrow> L' k = L k) \<and> qstat sys' = qstat sys \<and>
    sl_pause (slocal sys' tid) = sl_pause (slocal sys tid) \<and> sl_num (slocal sys' tid) = sl_num (slocal sys tid)"
proof -
  note I = sched_invD [OF inv]
  have lo: "locals_ok M sys H" using I(3) by (simp add: sched_dyn_def)
  from release_atomic_inv [OF inv, of dev tid] obtain sys' L' H' where
    r: "odp_schedule_release_atomic dev tid sys = Inr sys'" "sched_inv M sys' L' H'" "sys_same sys sys'"
    "\<forall>k. k \<notin> pri_queues sys \<longrightarrow> L' k = L k" "\<forall>t. t \<noteq> tid \<longrightarrow> H' t = H t"
    "H' tid = (if sl_num (slocal sys tid) = 0 then None else H tid)" "\<forall>t. t \<noteq> tid \<longrightarrow> slocal sys' t = slocal sys t"
    "sl_num (slocal sys tid) \<noteq> 0 \<longrightarrow> sys' = sys \<and> L' = L \<and> H' = H"
    "qstat sys' = qstat sys" "sl_pause (slocal sys' tid) = sl_pause (slocal sys tid)" "sl_num (slocal sys' tid) = sl_num (slocal sys tid)" by blast
  have "fifo_kept M sys L H sys' L' H' None"
  proof (cases "sl_num (slocal sys tid) = 0")
    case True
    then have pn: "pending (slocal sys tid) = []" by (simp add: pending_def)
    have "waiting sys' L' H' i ws" if i: "i \<in> sm_queues M" and w: "waiting sys L H i ws" for i ws
    proof (cases "H tid = Some i")
      case h: True
      have "ws = L i" using w pn local_okD(8) [OF lo _ h] unfolding waiting_def by (metis append_Nil)
      moreover have "\<not> held H' i" using r(5,6) True local_okD(8) [OF lo _ h] unfolding held_def by (metis option.distinct(1))
      ultimately show ?thesis using r(4) sched_queueD(10) [OF I(2) i] by (simp add: waiting_def)
    next
      case False
      have e: "H' t = Some i \<longleftrightarrow> H t = Some i" for t using r(5,6) True False by (cases "t = tid") auto
      have "slocal sys' t = slocal sys t" if "H t = Some i" for t using r(7) False that by metis
      then show ?thesis using w e r(4) sched_queueD(10) [OF I(2) i] unfolding waiting_def held_def by metis
    qed
    then show ?thesis by (auto simp: fifo_kept_def)
  next
    case False
    then show ?thesis using r(8) fifo_kept_refl by simp
  qed
  then show ?thesis using r(1-6,9-11) by (intro exI [of _ sys'] exI [of _ L'] exI [of _ H']) simp
qed

text \<open>Events of an atomic queue are given to a thread only when no other thread holds the queue.\<close>

definition only_holder :: "sched_map \<Rightarrow> odp_sys \<Rightarrow> (nat \<Rightarrow> nat option) \<Rightarrow> nat \<Rightarrow> (u32 \<times> u32 list) option \<Rightarrow> bool" where
  "only_holder M sys H tid r \<longleftrightarrow>
    (\<forall>h evs. r = Some (h, evs) \<longrightarrow>
      (\<exists>i\<in>sm_queues M. h = q_handle (qentry sys i) \<and> (queue_is_atomic (qentry sys i) \<longrightarrow> (\<forall>t. t \<noteq> tid \<longrightarrow> H t \<noteq> Some i))))"

text \<open>
  The priority queue of a scheduled queue is marked as used. When a search finds nothing although such a queue has events and is not held
  by another thread, some empty queue was taken off the schedule.
\<close>

definition prio_marked :: "odp_sys \<Rightarrow> nat \<Rightarrow> bool" where
  "prio_marked sys i \<longleftrightarrow>
    (\<exists>p<ODP_CONFIG_SCHED_PRIOS. \<exists>k<QUEUES_PER_PRIO. bit (sc_pri_mask (sched sys) ! p) k \<and> sc_pri_queue (sched sys) ! p ! k = q_pri_queue (qentry sys i))"

definition busy_progress :: "sched_map \<Rightarrow> odp_sys \<Rightarrow> (nat \<Rightarrow> addr list) \<Rightarrow> (nat \<Rightarrow> nat option) \<Rightarrow> nat \<Rightarrow> odp_sys \<Rightarrow> bool" where
  "busy_progress M sys L H tid sys' \<longleftrightarrow>
    (\<forall>i\<in>sm_queues M. L i \<noteq> [] \<longrightarrow> (\<forall>t. t \<noteq> tid \<longrightarrow> H t \<noteq> Some i) \<longrightarrow> prio_marked sys i \<longrightarrow> sched_set M sys' \<subset> sched_set M sys)"

lemma idle_search_busy:
  assumes inv: "sched_inv M sys L H" and id: "idle_search M ({..<ODP_CONFIG_SCHED_PRIOS} \<times> {..<QUEUES_PER_PRIO}) sys L sys' L'"
    and i: "i \<in> sm_queues M" "L i \<noteq> []" "\<not> held H i" "prio_marked sys i"
  shows "sched_set M sys' \<subset> sched_set M sys"
proof -
  note I = sched_invD [OF inv] note D = sched_queueD [OF I(2) i(1)]
  have "cmds_ok M (pri_queues sys) (qstat sys) (in_queues sys L) L H" using I(3) by (simp add: sched_dyn_def)
  then have c: "L (sm_pri M i) \<noteq> []" using i(1-3) unfolding cmds_ok_def by fastforce
  from i(4) obtain p k where pk: "p < ODP_CONFIG_SCHED_PRIOS" "k < QUEUES_PER_PRIO" "bit (sc_pri_mask (sched sys) ! p) k"
    "sc_pri_queue (sched sys) ! p ! k = q_pri_queue (qentry sys i)" unfolding prio_marked_def by blast
  have "queue_to_qentry sys (sc_pri_queue (sched sys) ! p ! k) = Inr (sm_pri M i)" using D(6) pk(4) by simp
  then have "\<not> (\<forall>p k j. (p, k) \<in> {..<ODP_CONFIG_SCHED_PRIOS} \<times> {..<QUEUES_PER_PRIO} \<longrightarrow> bit (sc_pri_mask (sched sys) ! p) k \<longrightarrow>
      queue_to_qentry sys (sc_pri_queue (sched sys) ! p ! k) = Inr j \<longrightarrow> L j = [])" using c pk(1-3) by blast
  then show ?thesis using id unfolding idle_search_def by blast
qed

lemma pending_nonempty: "locals_ok M sys H \<Longrightarrow> sl_num (slocal sys t) \<noteq> 0 \<Longrightarrow> pending (slocal sys t) \<noteq> []"
  using local_okD(6,7) [of M sys H t] by (auto simp: pending_def)

text \<open>A call of the scheduler always returns, keeps the invariant, and takes events of an atomic queue in their order.\<close>

lemma schedule_inv:
  assumes inv: "sched_inv M sys L H"
  shows "\<exists>r sys' L' H'. schedule dev tid max_num MAX_DEQ sys = Some (Inr (r, sys')) \<and> sched_inv M sys' L' H' \<and> sys_same sys sys' \<and>
    fifo_kept M sys L H sys' L' H' r \<and> only_holder M sys H tid r \<and>
    (r = None \<longrightarrow> (\<forall>k. k \<notin> pri_queues sys \<longrightarrow> L' k = L k) \<and> (\<forall>t. t \<noteq> tid \<longrightarrow> H' t = H t) \<and>
      sl_pause (slocal sys' tid) = sl_pause (slocal sys tid) \<and> (\<not> sl_pause (slocal sys tid) \<longrightarrow> busy_progress M sys L H tid sys')) \<and>
    (\<forall>h evs. r = Some (h, evs) \<longrightarrow> 0 < max_num \<longrightarrow> evs \<noteq> [])"
proof (cases "sl_num (slocal sys tid) = 0")
  case False
  note I = sched_invD [OF inv]
  have lo: "locals_ok M sys H" using I(3) by (simp add: sched_dyn_def)
  from schedule_leftover [OF inv False, of dev max_num MAX_DEQ] obtain i sys' where
    s: "i \<in> sm_queues M" "sl_qe (slocal sys tid) = Some i"
    "schedule dev tid max_num MAX_DEQ sys = Some (Inr (Some (q_handle (qentry sys i),
      map (handle_at sys) (take max_num (pending (slocal sys tid)))), sys'))"
    "sched_inv M sys' L H" "sys_same sys sys'" "took_from tid i (drop max_num (pending (slocal sys tid))) sys sys'"
    "queue_is_atomic (qentry sys i) \<Longrightarrow> H tid = Some i" unfolding handle_at_def by blast
  have "only_holder M sys H tid (Some (q_handle (qentry sys i), map (handle_at sys) (take max_num (pending (slocal sys tid)))))"
    using s(1,7) local_okD(8) [OF lo] unfolding only_holder_def by blast
  moreover have "take max_num (pending (slocal sys tid)) \<noteq> []" if "0 < max_num" using pending_nonempty [OF lo False] that by simp
  ultimately show ?thesis using s(3-5) fifo_kept_leftover [OF lo I(2) False s(1,2,7,6), of L]
    by (intro exI [of _ "Some (q_handle (qentry sys i), map (handle_at sys) (take max_num (pending (slocal sys tid))))"] exI [of _ sys']
        exI [of _ L] exI [of _ H]) simp
next
  case True
  from release_fifo [OF inv, of dev tid] True obtain sys1 L1 H1 where
    r: "odp_schedule_release_atomic dev tid sys = Inr sys1" "sched_inv M sys1 L1 H1" "sys_same sys sys1"
    "fifo_kept M sys L H sys1 L1 H1 None" "H1 tid = None" "\<forall>t. t \<noteq> tid \<longrightarrow> H1 t = H t"
    "\<forall>k. k \<notin> pri_queues sys \<longrightarrow> L1 k = L k" "qstat sys1 = qstat sys" "sl_pause (slocal sys1 tid) = sl_pause (slocal sys tid)" by blast
  show ?thesis
  proof (cases "sl_pause (slocal sys1 tid)")
    case p: True
    then have "schedule dev tid max_num MAX_DEQ sys = Some (Inr (None, sys1))" using True r(1) by (simp add: schedule_def)
    moreover have "only_holder M sys H tid None" by (simp add: only_holder_def)
    ultimately show ?thesis using r(2-4,6,7,9) p by (intro exI [of _ None] exI [of _ sys1] exI [of _ L1] exI [of _ H1]) simp
  next
    case False
    note I = sched_invD [OF inv] note I1 = sched_invD [OF r(2)]
    have "sched_run M (set [0..<ODP_CONFIG_SCHED_PRIOS] \<times> {..<QUEUES_PER_PRIO}) tid max_num MAX_DEQ sys1 L1 H1 (sched_prios [0..<ODP_CONFIG_SCHED_PRIOS] dev tid max_num MAX_DEQ sys1)"
      by (rule sched_prios_run [OF r(2,5)]) simp_all
    then obtain x sys2 L2 H2 where
      x: "sched_prios [0..<ODP_CONFIG_SCHED_PRIOS] dev tid max_num MAX_DEQ sys1 = Some (Inr (x, sys2))" "sched_inv M sys2 L2 H2"
      "sys_same sys1 sys2" "sched_result M tid max_num MAX_DEQ sys1 L1 H1 sys2 L2 H2 x"
      "x = None \<Longrightarrow> idle_search M (set [0..<ODP_CONFIG_SCHED_PRIOS] \<times> {..<QUEUES_PER_PRIO}) sys1 L1 sys2 L2" unfolding sched_run_def by blast
    have f: "fifo_kept M sys L H sys2 L2 H2 x"
      by (rule fifo_kept_trans [OF r(4) fifo_kept_result [OF x(4) I1(2) r(5)] r(3) I(2)])
    have "schedule dev tid max_num MAX_DEQ sys = Some (Inr (x, sys2))"
      using True False r(1) x(1) unfolding schedule_def by simp
    moreover have "only_holder M sys H tid x"
      unfolding only_holder_def
    proof (intro allI impI)
      fix h evs assume e: "x = Some (h, evs)"
      from x(4) e obtain i where i: "i \<in> sm_queues M" "h = q_handle (qentry sys1 i)" "\<not> held H1 i" by (auto simp: sched_result_def)
      show "\<exists>i\<in>sm_queues M. h = q_handle (qentry sys i) \<and> (queue_is_atomic (qentry sys i) \<longrightarrow> (\<forall>t. t \<noteq> tid \<longrightarrow> H t \<noteq> Some i))"
        using i r(6) handle_same [OF r(3) I(2) i(1)] unfolding held_def by (intro bexI [of _ i]) auto
    qed
    moreover have "busy_progress M sys L H tid sys2" if n: "x = None"
      unfolding busy_progress_def
    proof (intro ballI impI)
      fix i assume i: "i \<in> sm_queues M" "L i \<noteq> []" "\<forall>t. t \<noteq> tid \<longrightarrow> H t \<noteq> Some i" "prio_marked sys i"
      have "queue_same (qentry sys i) (qentry sys1 i)" using r(3) sched_queueD(1) [OF I(2) i(1)] by (simp add: sys_same_def)
      then have "q_pri_queue (qentry sys1 i) = q_pri_queue (qentry sys i)" "sched sys1 = sched sys"
        using r(3) by (simp_all add: queue_sameD sys_same_def)
      then have pm: "prio_marked sys1 i" using i(4) by (simp only: prio_marked_def)
      have "L1 i \<noteq> []" "\<not> held H1 i" using r(5-7) i(2,3) sched_queueD(10) [OF I(2) i(1)] unfolding held_def by (auto, metis option.distinct(1))
      from idle_search_busy [OF r(2) _ i(1) this pm, of sys2 L2] x(5) [OF n] have "sched_set M sys2 \<subset> sched_set M sys1"
        by (simp add: atLeast0LessThan)
      then show "sched_set M sys2 \<subset> sched_set M sys" using fun_cong [OF r(8)] by (simp add: sched_set_def)
    qed
    moreover have "(\<forall>k. k \<notin> pri_queues sys \<longrightarrow> L2 k = L k) \<and> (\<forall>t. t \<noteq> tid \<longrightarrow> H2 t = H t) \<and>
        sl_pause (slocal sys2 tid) = sl_pause (slocal sys tid)" if "x = None"
      using x(4) that r(6,7,9) sys_same_reads(4) [OF r(3)] by (simp add: sched_result_def)
    moreover have "\<forall>h evs. x = Some (h, evs) \<longrightarrow> 0 < max_num \<longrightarrow> evs \<noteq> []" using x(4) by (auto simp: sched_result_def)
    ultimately show ?thesis using x(2) sys_same_trans [OF r(3) x(3)] f
      by (intro exI [of _ x] exI [of _ sys2] exI [of _ L2] exI [of _ H2]) simp
  qed
qed

section \<open>Runs of the scheduler\<close>

text \<open>What threads do: enqueue, ask for events, release the atomic context, pause and resume.\<close>

datatype sched_act =
    Act_Enq u32 u32
  | Act_Schedule nat "(u32 \<times> u32 list) option"
  | Act_Release nat
  | Act_Pause nat
  | Act_Resume nat

text \<open>
  The events a caller may enqueue are its own: the event has a header that is in no queue, and it is not the command of a scheduled
  queue. Each call takes effect at once; the locks of the queues give this for the operations on one queue.
\<close>

definition own_event :: "sched_map \<Rightarrow> odp_sys \<Rightarrow> u32 \<Rightarrow> bool" where
  "own_event M sys ev \<longleftrightarrow>
    (\<exists>a. odp_buf_to_hdr (base sys) ev = Inr a \<and> a \<noteq> NULL \<and> bh_handle (bhdr (sys_heap sys) a) = ev \<and>
       (\<forall>L. queues_rep sys L \<longrightarrow> a \<notin> in_queues sys L)) \<and>
    (\<forall>i\<in>sm_queues M. q_cmd_ev (qentry sys i) \<noteq> ev)"

inductive sched_step :: "sock_dev \<Rightarrow> sched_map \<Rightarrow> odp_sys \<Rightarrow> sched_act \<Rightarrow> odp_sys \<Rightarrow> bool" for dev M where
  step_enq: "i \<in> sm_queues M \<Longrightarrow> q_funcs (qentry sys i) = Queue_Funcs \<Longrightarrow> own_event M sys ev \<Longrightarrow>
    odp_queue_enq dev (q_handle (qentry sys i)) ev sys = Inr (0, sys') \<Longrightarrow> sched_step dev M sys (Act_Enq (q_handle (qentry sys i)) ev) sys'"
| step_schedule: "schedule dev tid max_num MAX_DEQ sys = Some (Inr (r, sys')) \<Longrightarrow> sched_step dev M sys (Act_Schedule tid r) sys'"
| step_release: "odp_schedule_release_atomic dev tid sys = Inr sys' \<Longrightarrow> sched_step dev M sys (Act_Release tid) sys'"
| step_pause: "sched_step dev M sys (Act_Pause tid) (odp_schedule_pause tid sys)"
| step_resume: "sched_step dev M sys (Act_Resume tid) (odp_schedule_resume tid sys)"

inductive_cases step_enqE: "sched_step dev M sys (Act_Enq h ev) sys'"
inductive_cases step_scheduleE: "sched_step dev M sys (Act_Schedule tid r) sys'"

inductive sched_runs :: "sock_dev \<Rightarrow> sched_map \<Rightarrow> odp_sys \<Rightarrow> sched_act list \<Rightarrow> odp_sys \<Rightarrow> bool" for dev M sys0 where
  runs_start: "sched_runs dev M sys0 [] sys0"
| runs_step: "sched_runs dev M sys0 tr sys \<Longrightarrow> sched_step dev M sys act sys' \<Longrightarrow> sched_runs dev M sys0 (tr @ [act]) sys'"

text \<open>What was enqueued to a queue, and what was taken from it.\<close>

fun act_in :: "u32 \<Rightarrow> sched_act \<Rightarrow> u32 list" where
  "act_in handle (Act_Enq h ev) = (if h = handle then [ev] else [])"
| "act_in handle act = []"

fun act_out :: "u32 \<Rightarrow> sched_act \<Rightarrow> u32 list" where
  "act_out handle (Act_Schedule tid r) = got handle r"
| "act_out handle act = []"

definition enqueued :: "u32 \<Rightarrow> sched_act list \<Rightarrow> u32 list" where
  "enqueued handle tr = concat (map (act_in handle) tr)"

definition delivered :: "u32 \<Rightarrow> sched_act list \<Rightarrow> u32 list" where
  "delivered handle tr = concat (map (act_out handle) tr)"

lemma sched_inv_pause:
  assumes inv: "sched_inv M sys L H"
  shows "sched_inv M (set_local tid ((slocal sys tid)\<lparr>sl_pause := p\<rparr>) sys) L H"
    "fifo_kept M sys L H (set_local tid ((slocal sys tid)\<lparr>sl_pause := p\<rparr>) sys) L H None"
proof -
  note I = sched_invD [OF inv] let ?s = "set_local tid ((slocal sys tid)\<lparr>sl_pause := p\<rparr>) sys"
  have lo: "locals_ok M sys H" and co: "cmds_ok M (pri_queues sys) (qstat sys) (in_queues sys L) L H" using I(3) by (auto simp: sched_dyn_def)
  have "local_ok M sys (H tid) ((slocal sys tid)\<lparr>sl_pause := p\<rparr>) = local_ok M sys (H tid) (slocal sys tid)" by (cases "H tid") (simp_all add: local_ok_def)
  then have "locals_ok M ?s (H(tid := H tid))"
    by (intro locals_ok_upd [OF lo sys_same_local _ I(2), where l = "(slocal sys tid)\<lparr>sl_pause := p\<rparr>"])
      (use lo local_okD(8) [OF lo] in \<open>auto simp: set_local_def locals_ok_def\<close>)
  then show "sched_inv M ?s L H"
    using I(1) co sched_static_local [OF I(2)] unfolding sched_inv_def sched_dyn_def sys_same_reads [OF sys_same_local] by simp
  have "pending (slocal ?s t) = pending (slocal sys t)" for t by (simp add: pending_def)
  then show "fifo_kept M sys L H ?s L H None" unfolding fifo_kept_def waiting_def by auto
qed

text \<open>Each step keeps the invariant and accounts for the events of the atomic queues.\<close>

definition fifo_step ::
    "sched_map \<Rightarrow> odp_sys \<Rightarrow> (nat \<Rightarrow> addr list) \<Rightarrow> (nat \<Rightarrow> nat option) \<Rightarrow> odp_sys \<Rightarrow> (nat \<Rightarrow> addr list) \<Rightarrow> (nat \<Rightarrow> nat option) \<Rightarrow>
     sched_act \<Rightarrow> bool" where
  "fifo_step M sys L H sys' L' H' act \<longleftrightarrow>
    (\<forall>i\<in>sm_queues M. queue_is_atomic (qentry sys i) \<longrightarrow>
       (\<forall>ws. waiting sys L H i ws \<longrightarrow>
          (\<exists>ws'. waiting sys' L' H' i ws' \<and>
            map (handle_at sys) ws @ act_in (q_handle (qentry sys i)) act = act_out (q_handle (qentry sys i)) act @ map (handle_at sys) ws')))"

lemma fifo_kept_step:
  "fifo_kept M sys L H sys' L' H' r \<Longrightarrow> (\<And>h. act_in h act = []) \<Longrightarrow> (\<And>h. act_out h act = got h r) \<Longrightarrow> fifo_step M sys L H sys' L' H' act"
  by (simp add: fifo_kept_def fifo_step_def)

lemma enq_step:
  assumes inv: "sched_inv M sys L H" and i: "i \<in> sm_queues M" "q_funcs (qentry sys i) = Queue_Funcs" and ev: "own_event M sys ev"
  shows "\<exists>sys' L'. odp_queue_enq dev (q_handle (qentry sys i)) ev sys = Inr (0, sys') \<and> sched_inv M sys' L' H \<and> sys_same sys sys' \<and>
    fifo_step M sys L H sys' L' H (Act_Enq (q_handle (qentry sys i)) ev)"
proof -
  note I = sched_invD [OF inv] note D = sched_queueD [OF I(2) i(1)]
  from ev obtain a where a: "odp_buf_to_hdr (base sys) ev = Inr a" "a \<noteq> NULL" "handle_at sys a = ev" "a \<notin> in_queues sys L"
    using I(1) unfolding own_event_def handle_at_def by blast
  have ac: "a \<notin> sm_cmd M ` sm_queues M" using ev a(3) sched_queueD(4) [OF I(2)] unfolding own_event_def handle_at_def by (metis imageE)
  from odp_queue_enq_sched [OF inv i(1) D(13) i(2) a(1,2,4) ac, of dev] obtain sys' where
    s: "odp_queue_enq dev (q_handle (qentry sys i)) ev sys = Inr (0, sys')" "sched_inv M sys' (sched_enqueued M sys i a L) H"
    "sys_same sys sys'" "sched_locals sys' = sched_locals sys" by blast
  let ?L = "sched_enqueued M sys i a L"
  have "fifo_step M sys L H sys' ?L H (Act_Enq (q_handle (qentry sys i)) ev)"
    unfolding fifo_step_def
  proof (intro ballI impI allI)
    fix k ws assume k: "k \<in> sm_queues M" and w: "waiting sys L H k ws"
    have "k \<noteq> sm_pri M i" using sched_queueD(10) [OF I(2) k] D(9) by auto
    then have "?L k = (if k = i then L k @ [a] else L k)" by (simp add: sched_enqueued_def Let_def)
    then have "waiting sys' ?L H k (if k = i then ws @ [a] else ws)" using w s(4) by (auto simp: waiting_def)
    then show "\<exists>ws'. waiting sys' ?L H k ws' \<and> map (handle_at sys) ws @ act_in (q_handle (qentry sys k)) (Act_Enq (q_handle (qentry sys i)) ev) =
        act_out (q_handle (qentry sys k)) (Act_Enq (q_handle (qentry sys i)) ev) @ map (handle_at sys) ws'"
      using a(3) handle_inj [OF I(2) i(1) k] by (cases "k = i") auto
  qed
  then show ?thesis using s by blast
qed

lemma sched_step_inv:
  assumes st: "sched_step dev M sys act sys'" and inv: "sched_inv M sys L H"
  shows "\<exists>L' H'. sched_inv M sys' L' H' \<and> sys_same sys sys' \<and> fifo_step M sys L H sys' L' H' act"
  using st
proof cases
  case (step_enq i ev)
  then show ?thesis using enq_step [OF inv step_enq(2-4), of dev] by auto
next
  case (step_schedule tid max_num r)
  then show ?thesis using schedule_inv [OF inv, of dev tid max_num] fifo_kept_step [where act = act and r = r] by fastforce
next
  case (step_release tid)
  then show ?thesis using release_fifo [OF inv, of dev tid] fifo_kept_step [where act = act and r = None] by fastforce
next
  case (step_pause tid)
  then show ?thesis using sched_inv_pause [OF inv, of tid True] fifo_kept_step [where act = act and r = None]
    by (intro exI [of _ L] exI [of _ H]) (simp add: odp_schedule_pause_def)
next
  case (step_resume tid)
  then show ?thesis using sched_inv_pause [OF inv, of tid False] fifo_kept_step [where act = act and r = None]
    by (intro exI [of _ L] exI [of _ H]) (simp add: odp_schedule_resume_def)
qed

text \<open>The start: nothing in any queue, no queue scheduled, every thread after its initialisation.\<close>

definition sched_start :: "sched_map \<Rightarrow> odp_sys \<Rightarrow> bool" where
  "sched_start M sys \<longleftrightarrow> sched_static M sys \<and> (\<forall>i<length (queue_tbl sys). q_head (qentry sys i) = NULL \<and> q_tail (qentry sys i) = NULL) \<and>
    (\<forall>i\<in>sm_queues M. q_status (qentry sys i) = QUEUE_STATUS_NOTSCHED) \<and> (\<forall>t. slocal sys t = sched_local_init)"

lemma sched_start_inv: "sched_start M sys \<Longrightarrow> sched_inv M sys (\<lambda>_. []) (\<lambda>_. None)"
  by (auto simp: sched_start_def sched_inv_def queues_rep_def queue_rep_def sched_dyn_def cmds_ok_def in_queues_def held_def locals_ok_def
      local_ok_def sched_local_init_def)

lemma enqueued_snoc [simp]: "enqueued h (tr @ [act]) = enqueued h tr @ act_in h act"
  by (simp add: enqueued_def)

lemma delivered_snoc [simp]: "delivered h (tr @ [act]) = delivered h tr @ act_out h act"
  by (simp add: delivered_def)

lemma atomic_same:
  "sys_same sys sys' \<Longrightarrow> sched_static M sys \<Longrightarrow> i \<in> sm_queues M \<Longrightarrow> queue_is_atomic (qentry sys' i) = queue_is_atomic (qentry sys i)"
  using sched_queueD(1) [of M sys i] queue_sameD(4) [of "qentry sys i" "qentry sys' i"] by (simp add: sys_same_def queue_is_atomic_def)

lemma sched_runs_inv:
  assumes "sched_runs dev M sys0 tr sys" "sched_start M sys0"
  shows "\<exists>L H. sched_inv M sys L H \<and> sys_same sys0 sys \<and>
    (\<forall>i\<in>sm_queues M. queue_is_atomic (qentry sys0 i) \<longrightarrow>
       (\<exists>ws. waiting sys L H i ws \<and> enqueued (q_handle (qentry sys0 i)) tr = delivered (q_handle (qentry sys0 i)) tr @ map (handle_at sys) ws))"
  using assms(1)
proof induction
  case runs_start
  have "waiting sys0 (\<lambda>_. []) (\<lambda>_. None) i []" for i by (simp add: waiting_def held_def)
  then show ?case using sched_start_inv [OF assms(2)]
    by (intro exI [of _ "\<lambda>_. []"] exI [of _ "\<lambda>_. None"]) (auto simp: enqueued_def delivered_def)
next
  case (runs_step tr sys act sys')
  then obtain L H where inv: "sched_inv M sys L H" "sys_same sys0 sys" and
    f: "\<And>i. i \<in> sm_queues M \<Longrightarrow> queue_is_atomic (qentry sys0 i) \<Longrightarrow> \<exists>ws. waiting sys L H i ws \<and>
      enqueued (q_handle (qentry sys0 i)) tr = delivered (q_handle (qentry sys0 i)) tr @ map (handle_at sys) ws" by blast
  note I = sched_invD [OF inv(1)]
  have st0: "sched_static M sys0" using assms(2) by (simp add: sched_start_def)
  from sched_step_inv [OF runs_step.hyps(2) inv(1)] obtain L' H' where
    s: "sched_inv M sys' L' H'" "sys_same sys sys'" "fifo_step M sys L H sys' L' H' act" by blast
  have "\<exists>ws. waiting sys' L' H' i ws \<and>
      enqueued (q_handle (qentry sys0 i)) (tr @ [act]) = delivered (q_handle (qentry sys0 i)) (tr @ [act]) @ map (handle_at sys') ws"
    if i: "i \<in> sm_queues M" "queue_is_atomic (qentry sys0 i)" for i
  proof -
    from f [OF i] obtain ws where w: "waiting sys L H i ws"
      "enqueued (q_handle (qentry sys0 i)) tr = delivered (q_handle (qentry sys0 i)) tr @ map (handle_at sys) ws" by blast
    have q: "queue_is_atomic (qentry sys i)" "q_handle (qentry sys i) = q_handle (qentry sys0 i)"
      using atomic_same [OF inv(2) st0 i(1)] handle_same [OF inv(2) st0 i(1)] i(2) by simp_all
    have h: "map (handle_at sys') xs = map (handle_at sys) xs" for xs using handle_at_same [OF s(2)] by simp
    from s(3) i(1) q(1) w(1) obtain ws' where "waiting sys' L' H' i ws'"
      "map (handle_at sys) ws @ act_in (q_handle (qentry sys0 i)) act = act_out (q_handle (qentry sys0 i)) act @ map (handle_at sys) ws'"
      unfolding fifo_step_def q(2) [symmetric] by blast
    then show ?thesis using w(2) unfolding h by (intro exI [of _ ws']) simp
  qed
  then show ?case using s(1) sys_same_trans [OF inv(2) s(2)] by blast
qed

section \<open>Waiting ends\<close>

text \<open>
  With no other thread interfering, the loop of \<open>odp_schedule\<close> finds an event: each turn without one takes an empty queue off the
  schedule, and there are finitely many.
\<close>

lemma finite_sched_set: "sched_static M sys \<Longrightarrow> finite (sched_set M sys)"
  by (rule finite_subset [of _ "{..<length (queue_tbl sys)}"]) (auto simp: sched_set_def sched_queueD(1))

text \<open>The priorities of all scheduled queues are marked: what the creation of the queues leaves, and no step changes.\<close>

definition prios_marked :: "sched_map \<Rightarrow> odp_sys \<Rightarrow> bool" where
  "prios_marked M sys \<longleftrightarrow> (\<forall>i\<in>sm_queues M. prio_marked sys i)"

lemma prio_marked_same: "sys_same sys sys' \<Longrightarrow> sched_static M sys \<Longrightarrow> i \<in> sm_queues M \<Longrightarrow> prio_marked sys' i = prio_marked sys i"
  using sched_queueD(1) [of M sys i] queue_sameD(3) [of "qentry sys i" "qentry sys' i"] by (simp add: prio_marked_def sys_same_def)

lemma schedule_loop_returns:
  assumes "sched_inv M sys L H" "i \<in> sm_queues M" "L i \<noteq> []" "\<forall>t. t \<noteq> tid \<longrightarrow> H t \<noteq> Some i" "prio_marked sys i"
    "\<not> sl_pause (slocal sys tid)" "0 < max_num"
  shows "\<exists>h ev evs sys'. schedule_loop (\<lambda>_ s. s) clock dev tid ODP_SCHED_WAIT max_num MAX_DEQ n start sys = Some (Inr (Some (h, ev # evs), sys'))"
  using assms
proof (induction "card (sched_set M sys)" arbitrary: sys L H n rule: less_induct)
  case less
  note I = sched_invD [OF less.prems(1)]
  from schedule_inv [OF less.prems(1), of dev tid max_num] obtain r sys' L' H' where
    s: "schedule dev tid max_num MAX_DEQ sys = Some (Inr (r, sys'))" "sched_inv M sys' L' H'" "sys_same sys sys'"
    "r = None \<longrightarrow> (\<forall>k. k \<notin> pri_queues sys \<longrightarrow> L' k = L k) \<and> (\<forall>t. t \<noteq> tid \<longrightarrow> H' t = H t) \<and>
      sl_pause (slocal sys' tid) = sl_pause (slocal sys tid) \<and> (\<not> sl_pause (slocal sys tid) \<longrightarrow> busy_progress M sys L H tid sys')"
    "\<forall>h evs. r = Some (h, evs) \<longrightarrow> 0 < max_num \<longrightarrow> evs \<noteq> []" by blast
  show ?case
  proof (cases r)
    case None
    have "sched_set M sys' \<subset> sched_set M sys" using s(4) None less.prems(2-6) unfolding busy_progress_def by blast
    then have c: "card (sched_set M sys') < card (sched_set M sys)" by (rule psubset_card_mono [OF finite_sched_set [OF I(2)]])
    have "L' i \<noteq> []" "\<forall>t. t \<noteq> tid \<longrightarrow> H' t \<noteq> Some i" "\<not> sl_pause (slocal sys' tid)"
      using s(4) None less.prems(3,4,6) sched_queueD(10) [OF I(2) less.prems(2)] by simp_all
    from less.hyps [OF c s(2) less.prems(2) this(1,2) _ this(3) less.prems(7), of "n + 1"] less.prems(5)
      prio_marked_same [OF s(3) I(2) less.prems(2)]
    show ?thesis by (subst schedule_loop.simps) (simp add: s(1) None del: system_const_defs)
  next
    case (Some x)
    then obtain h ev evs where "r = Some (h, ev # evs)" using s(5) less.prems(7) by (cases x; cases "snd x") auto
    then show ?thesis by (subst schedule_loop.simps) (simp add: s(1) del: system_const_defs)
  qed
qed

section \<open>Properties of the scheduler\<close>

definition holds_queue :: "odp_sys \<Rightarrow> nat \<Rightarrow> nat \<Rightarrow> bool" where
  "holds_queue sys t i \<longleftrightarrow> sl_pri_queue (slocal sys t) \<noteq> ODP_QUEUE_INVALID \<and> sl_qe (slocal sys t) = Some i"

lemma holds_queue_iff:
  assumes "sched_inv M sys L H"
  shows "holds_queue sys t i \<longleftrightarrow> H t = Some i"
proof -
  note I = sched_invD [OF assms]
  have lo: "locals_ok M sys H" using I(3) by (simp add: sched_dyn_def)
  show ?thesis
  proof (cases "H t")
    case None
    then show ?thesis using local_okD(1) [OF lo None] by (simp add: holds_queue_def)
  next
    case (Some j)
    then show ?thesis using local_okD(2,4,9) [OF lo Some] sched_queueD(8) [OF I(2)] by (auto simp: holds_queue_def)
  qed
qed

text \<open>
  C23: The scheduler never aborts. Starting with empty queues, after any sequence of enqueues to scheduled queues, calls of the scheduler by
  any threads, releases, pauses and resumes: the next call of \<open>schedule\<close> and of \<open>odp_schedule_release_atomic\<close> returns without an error,
  and an enqueue of an event that the caller owns succeeds.
\<close>

theorem scheduler_safe:
  assumes "sched_start M sys0" "sched_runs dev M sys0 tr sys"
  shows "(\<exists>r sys'. schedule dev tid max_num MAX_DEQ sys = Some (Inr (r, sys'))) \<and>
    (\<exists>sys'. odp_schedule_release_atomic dev tid sys = Inr sys') \<and>
    (\<forall>i\<in>sm_queues M. \<forall>ev. q_funcs (qentry sys i) = Queue_Funcs \<longrightarrow> own_event M sys ev \<longrightarrow>
       (\<exists>sys'. odp_queue_enq dev (q_handle (qentry sys i)) ev sys = Inr (0, sys')))"
proof -
  from sched_runs_inv [OF assms(2,1)] obtain L H where inv: "sched_inv M sys L H" by blast
  have "\<exists>r sys'. schedule dev tid max_num MAX_DEQ sys = Some (Inr (r, sys'))" using schedule_inv [OF inv, of dev tid max_num] by blast
  moreover have "\<exists>sys'. odp_schedule_release_atomic dev tid sys = Inr sys'" using release_fifo [OF inv, of dev tid] by blast
  moreover have "\<exists>sys'. odp_queue_enq dev (q_handle (qentry sys i)) ev sys = Inr (0, sys')"
    if "i \<in> sm_queues M" "q_funcs (qentry sys i) = Queue_Funcs" "own_event M sys ev" for i ev
    using enq_step [OF inv that, of dev] by blast
  ultimately show ?thesis by blast
qed


text \<open>
  C25: An atomic queue keeps the order of its events through the scheduler. In any run, what threads received from the queue is
  a prefix of what was enqueued to it, in that order; when the queue is empty and no thread has events of it left, everything was received.
\<close>

theorem atomic_queue_fifo:
  assumes "sched_start M sys0" "sched_runs dev M sys0 tr sys" "i \<in> sm_queues M" "queue_is_atomic (qentry sys0 i)"
  shows "prefix (delivered (q_handle (qentry sys0 i)) tr) (enqueued (q_handle (qentry sys0 i)) tr) \<and>
    (q_head (qentry sys i) = NULL \<and> (\<forall>t. sl_qe (slocal sys t) = Some i \<longrightarrow> sl_num (slocal sys t) = 0) \<longrightarrow>
       delivered (q_handle (qentry sys0 i)) tr = enqueued (q_handle (qentry sys0 i)) tr)"
proof -
  from sched_runs_inv [OF assms(2,1)] assms(3,4) obtain L H ws where inv: "sched_inv M sys L H" and w: "waiting sys L H i ws"
    "enqueued (q_handle (qentry sys0 i)) tr = delivered (q_handle (qentry sys0 i)) tr @ map (handle_at sys) ws" by blast
  note I = sched_invD [OF inv]
  have lo: "locals_ok M sys H" using I(3) by (simp add: sched_dyn_def)
  have "ws = []" if "q_head (qentry sys i) = NULL" "\<forall>t. sl_qe (slocal sys t) = Some i \<longrightarrow> sl_num (slocal sys t) = 0"
  proof -
    have "L i = []" using queue_rep_empty [OF queues_repD [OF I(1) sched_queueD(1) [OF I(2) assms(3)]]] that(1) by simp
    moreover have "pending (slocal sys t) = []" if "H t = Some i" for t
      using local_okD(9) [OF lo that] \<open>\<forall>t. sl_qe (slocal sys t) = Some i \<longrightarrow> sl_num (slocal sys t) = 0\<close> by (simp add: pending_def)
    ultimately show ?thesis using w(1) by (auto simp: waiting_def)
  qed
  then show ?thesis using w(2) by auto
qed

text \<open>
  C26: Waiting for an event ends. The start is the one that the creation of the queues leads to: empty queues, and the priority of each scheduled queue
  marked in the mask that the search goes by. After any run of the scheduler from there: when a scheduled queue has an event, no other thread holds the queue
  and the caller has not paused its scheduling (\<open>odp_schedule_pause\<close>; a paused caller that waits gets nothing new until it resumes), then \<open>odp_schedule\<close> with
  \<open>ODP_SCHED_WAIT\<close> returns an event and the queue it is from, even with no other thread running.
\<close>

theorem odp_schedule_wait_returns:
  assumes "sched_start M sys0" "prios_marked M sys0" "sched_runs dev M sys0 tr sys" "i \<in> sm_queues M" "q_head (qentry sys i) \<noteq> NULL"
    "\<forall>t. holds_queue sys t i \<longrightarrow> t = tid" "\<not> sl_pause (slocal sys tid)"
  shows "\<exists>ev h sys'. odp_schedule (\<lambda>_ s. s) clock dev tid ODP_SCHED_WAIT sys = Some (Inr ((ev, Some h), sys'))"
proof -
  from sched_runs_inv [OF assms(3,1)] obtain L H where inv: "sched_inv M sys L H" "sys_same sys0 sys" by blast
  note I = sched_invD [OF inv(1)]
  have pm: "prio_marked sys i"
    using prio_marked_same [OF inv(2) _ assms(4)] assms(1,2,4) by (simp add: sched_start_def prios_marked_def)
  have l: "L i \<noteq> []" using queue_rep_empty [OF queues_repD [OF I(1) sched_queueD(1) [OF I(2) assms(4)]]] assms(5) by simp
  have h: "\<forall>t. t \<noteq> tid \<longrightarrow> H t \<noteq> Some i" using assms(6) holds_queue_iff [OF inv(1)] by auto
  from schedule_loop_returns [OF inv(1) assms(4) l h pm assms(7), of 1 clock dev 0 0] show ?thesis by (auto simp: odp_schedule_def)
qed

section \<open>A concrete system\<close>

text \<open>One pool, one priority queue and one atomic queue; the command of the queue is buffer 1 of the pool, an event is buffer 2.\<close>

definition demo_sched_hdr :: "addr \<Rightarrow> odp_packet_hdr" where
  "demo_sched_hdr a = demo_hdr\<lparr>buf_hdr := (buf_hdr demo_hdr)\<lparr>bh_handle := if a = 4160 then 8 else 16, bh_addr := [a]\<rparr>\<rparr>"

definition demo_dev :: sock_dev where
  "demo_dev = \<lparr>dev_send = (\<lambda>_ pkts st. (int (length pkts), st)), dev_recv = (\<lambda>_ _ st. ((0, []), st))\<rparr>"

definition demo_sys :: odp_sys where
  "demo_sys = \<lparr>base = demo_init\<lparr>pool_tbl := [zero_pool_entry\<lparr>pl_mdata_addr := 4096\<rparr>],
       heap := \<lparr>hdrs = demo_sched_hdr, blk_next = (\<lambda>_. NULL), mem = (\<lambda>_. 0)\<rparr>\<rparr>,
     queue_tbl = [demo_queue\<lparr>q_status := QUEUE_STATUS_READY\<rparr>,
       demo_queue\<lparr>q_handle := 2, q_pri_queue := 1, q_cmd_ev := 8\<rparr>],
     sched = \<lparr>sc_pri_queue = replicate 8 (replicate 4 1), sc_pri_mask = replicate 8 15, sc_pool = 0, sc_pri_count = replicate 8 (replicate 4 1)\<rparr>,
     sched_cmds = (\<lambda>_. Cmd_Dequeue 1), sched_locals = (\<lambda>_. sched_local_init), pktio_tbl = [],
     cls = \<lparr>cos_tbl = [], pmr_tbl = [], pmr_set_tbl = []\<rparr>\<rparr>"

definition demo_map :: sched_map where
  "demo_map = \<lparr>sm_queues = {1}, sm_cmd = (\<lambda>_. 4160), sm_pri = (\<lambda>_. 0)\<rparr>"

lemma demo_pri_queues: "pri_queues demo_sys = {0}"
proof -
  have "queue_to_qentry demo_sys (sc_pri_queue (sched demo_sys) ! p ! k) = Inr 0" if "p < 8" "k < 4" for p k
    using that by (simp add: demo_sys_def queue_to_qentry_def queue_to_id_def)
  then show ?thesis by (auto simp: pri_queues_def intro!: exI [of _ 0])
qed

lemma demo_buf: "odp_buf_to_hdr (base demo_sys) 8 = Inr 4160" "odp_buf_to_hdr (base demo_sys) 16 = Inr 4224"
  by (simp_all add: odp_buf_to_hdr_def get_pool_entry_def bits_pool_id_def bits_index_def demo_sys_def)

lemma demo_static: "sched_static demo_map demo_sys"
  using demo_pri_queues demo_buf
  by (simp add: sched_static_def sched_queue_def pri_queue_ok_def demo_map_def queue_to_qentry_def queue_to_id_def get_cmd_def odp_buffer_addr_def)
    (simp add: demo_sys_def demo_queue_def demo_sched_hdr_def Let_def)

lemma demo_start: "sched_start demo_map demo_sys"
  unfolding sched_start_def using demo_static by (auto simp: demo_sys_def demo_queue_def demo_map_def less_Suc_eq)

lemma demo_own: "own_event demo_map demo_sys 16"
proof -
  have "4224 \<notin> in_queues demo_sys L" if "queues_rep demo_sys L" for L
  proof -
    have "L i = []" if "i < length (queue_tbl demo_sys)" for i
      using queue_rep_empty [OF queues_repD [OF \<open>queues_rep demo_sys L\<close> that]] that by (auto simp: demo_sys_def demo_queue_def less_Suc_eq)
    then show ?thesis by (auto simp: in_queues_def)
  qed
  moreover have "bh_handle (bhdr (sys_heap demo_sys) 4224) = 16" "q_cmd_ev (qentry demo_sys 1) = 8"
    by (simp_all add: demo_sys_def demo_sched_hdr_def)
  ultimately show ?thesis using demo_buf(2) unfolding own_event_def by (intro conjI exI [of _ 4224]) (auto simp: demo_map_def)
qed

lemma demo_queue_facts: "q_handle (qentry demo_sys 1) = 2" "q_funcs (qentry demo_sys 1) = Queue_Funcs"
  "queue_is_atomic (qentry demo_sys 1)" "1 \<in> sm_queues demo_map"
  by (simp_all add: demo_sys_def demo_queue_def demo_map_def queue_is_atomic_def default_queue_param_def)

definition demo_sys1 :: odp_sys where
  "demo_sys1 = (case odp_queue_enq demo_dev 2 16 demo_sys of Inr (_, s) \<Rightarrow> s | Inl _ \<Rightarrow> demo_sys)"

lemma demo_run1:
  "sched_runs demo_dev demo_map demo_sys [Act_Enq 2 16] demo_sys1 \<and> q_head (qentry demo_sys1 1) \<noteq> NULL \<and> sys_same demo_sys demo_sys1 \<and>
    sched_locals demo_sys1 = sched_locals demo_sys"
proof -
  note I = sched_start_inv [OF demo_start]
  have "4224 \<notin> in_queues demo_sys (\<lambda>_. [])" "4224 \<notin> sm_cmd demo_map ` sm_queues demo_map" by (auto simp: in_queues_def demo_map_def)
  moreover have "queue_to_qentry demo_sys 2 = Inr 1" by (simp add: demo_sys_def queue_to_qentry_def queue_to_id_def)
  ultimately obtain s where s: "odp_queue_enq demo_dev 2 16 demo_sys = Inr (0, s)"
    "sched_inv demo_map s (sched_enqueued demo_map demo_sys 1 4224 (\<lambda>_. [])) (\<lambda>_. None)" "sys_same demo_sys s"
    "sched_locals s = sched_locals demo_sys"
    using odp_queue_enq_sched [OF I demo_queue_facts(4) _ demo_queue_facts(2) demo_buf(2), of 2 demo_dev] by auto
  have d: "demo_sys1 = s" by (simp add: demo_sys1_def s(1))
  have l: "1 < length (queue_tbl s)" using s(3) by (simp add: sys_same_def demo_sys_def)
  have "sched_enqueued demo_map demo_sys 1 4224 (\<lambda>_. []) 1 \<noteq> []" by (simp add: sched_enqueued_def demo_map_def Let_def)
  then have "q_head (qentry s 1) \<noteq> NULL" using queue_rep_empty [OF queues_repD [OF sched_invD(1) [OF s(2)] l]] by simp
  moreover have "odp_queue_enq demo_dev (q_handle (qentry demo_sys 1)) 16 demo_sys = Inr (0, s)" using s(1) demo_queue_facts(1) by simp
  from runs_step [OF runs_start step_enq [OF demo_queue_facts(4,2) demo_own this]]
  have "sched_runs demo_dev demo_map demo_sys [Act_Enq 2 16] s" unfolding demo_queue_facts(1) append_Nil .
  ultimately show ?thesis using s(3,4) d by simp
qed

theorem scheduler_safe_witness:
  "\<exists>r sys'. schedule demo_dev 3 1 MAX_DEQ demo_sys1 = Some (Inr (r, sys'))"
  using scheduler_safe [OF demo_start conjunct1 [OF demo_run1], of 3 1] by blast


theorem atomic_queue_fifo_witness:
  "\<exists>r sys'. sched_runs demo_dev demo_map demo_sys [Act_Enq 2 16, Act_Schedule 3 r] sys' \<and>
    prefix (delivered 2 [Act_Enq 2 16, Act_Schedule 3 r]) [16]"
proof -
  obtain r sys' where s: "schedule demo_dev 3 1 MAX_DEQ demo_sys1 = Some (Inr (r, sys'))"
    using sched_runs_inv [OF conjunct1 [OF demo_run1] demo_start] schedule_inv by blast
  from runs_step [OF conjunct1 [OF demo_run1] step_schedule [OF s]]
  have run: "sched_runs demo_dev demo_map demo_sys [Act_Enq 2 16, Act_Schedule 3 r] sys'" by simp
  have "enqueued 2 [Act_Enq 2 16, Act_Schedule 3 r] = [16]" by (simp add: enqueued_def)
  then show ?thesis using run conjunct1 [OF atomic_queue_fifo [OF demo_start run demo_queue_facts(4,3)]] unfolding demo_queue_facts(1) by metis
qed

theorem odp_schedule_wait_returns_witness:
  "\<exists>ev h sys'. odp_schedule (\<lambda>_ s. s) (\<lambda>_. 0) demo_dev 3 ODP_SCHED_WAIT demo_sys1 = Some (Inr ((ev, Some h), sys'))"
proof -
  note R = demo_run1
  have "prio_marked demo_sys 1" unfolding prio_marked_def
    by (intro exI [of _ 0] conjI) (simp_all add: demo_sys_def demo_queue_def bit_numeral_rec)
  then have pm: "prios_marked demo_map demo_sys" by (simp add: prios_marked_def demo_map_def)
  have l: "slocal demo_sys1 t = sched_local_init" for t using R by (simp add: demo_sys_def)
  have h: "\<forall>t. holds_queue demo_sys1 t 1 \<longrightarrow> t = 3" unfolding holds_queue_def l by (simp add: sched_local_init_def)
  have p: "\<not> sl_pause (slocal demo_sys1 3)" unfolding l by (simp add: sched_local_init_def)
  show ?thesis
    by (rule odp_schedule_wait_returns [OF demo_start pm conjunct1 [OF R] demo_queue_facts(4) _ h p]) (use R in blast)
qed

end
