(* ===== verification/Odp_Pktio_Correct.thy ===== *)
theory Odp_Pktio_Correct
  imports Odp_Pktio Odp_Schedule_Correct Odp_Classification_Correct
begin

text \<open>
  Packet interfaces: opening and closing the loop device, and what it sends is what it receives.
\<close>

section \<open>The loop device\<close>

text \<open>Several headers at the end of a queue that the scheduler does not know.\<close>

lemma queue_enq_multi_ready:
  assumes rep: "queues_rep sys L" and j: "j < length (queue_tbl sys)" "q_status (qentry sys j) = QUEUE_STATUS_READY"
    and as: "as \<noteq> []" "distinct as" "NULL \<notin> set as" "set as \<inter> in_queues sys L = {}"
  shows "\<exists>sys'. queue_enq_multi dev j as (int (length as)) sys = Inr (int (length as), sys') \<and> queues_rep sys' (L(j := L j @ as)) \<and>
    sys_same sys sys' \<and> sched_locals sys' = sched_locals sys \<and> (\<forall>k. qstat sys' k = qstat sys k)"
proof -
  let ?q = "qentry sys j" and ?hp = "sys_heap sys" and ?hp1 = "link_chain as (sys_heap sys)"
  have dis: "set (L i) \<inter> set as = {}" if "i < length (queue_tbl sys)" for i using as(4) that by (auto simp: in_queues_def)
  have lc: "linked (hdr_next ?hp1) (hd as) as" "next_only (set as) ?hp ?hp1" using link_chain_ok [OF as(2,3), of ?hp] as(1) by auto
  have rep1: "queue_rep ?q ?hp1 (L j)" by (rule queue_rep_frame [OF queues_repD [OF rep j(1)] lc(2) dis [OF j(1)]])
  have live: "live_queue ?q" using j(2) by (simp add: live_queue_def)
  from enq_multi_ok [OF rep1 live as(1) lc(1), of "int (length as)" as] dis [OF j(1)] as(1) obtain q hp where
    q: "enq_multi_locked ?q ?hp1 as (int (length as)) = Some (False, q, hp)" "queue_rep q hp (L j @ as)" "q_status q = enq_status (q_status ?q)"
    "queue_same ?q q" "next_only (set (L j)) ?hp1 hp" by (auto simp: j(2) Int_commute)
  have fr: "next_only (set (L j) \<union> set as) ?hp hp"
    using next_only_trans [OF next_only_mono [OF lc(2)] next_only_mono [OF q(5)]] by auto
  have dj: "set (L i) \<inter> (set (L j) \<union> set as) = {}" if "i < length (queue_tbl sys)" "i \<noteq> j" for i
    using rep j(1) that dis [OF that(1)] unfolding queues_rep_def Int_Un_distrib by simp
  have "queues_rep (put_queue j q hp sys) (L(j := L j @ as))"
    by (rule queues_rep_put [OF rep j(1) q(2) fr]) (use dj in \<open>simp_all only: set_append\<close>)
  moreover have "queue_enq_multi dev j as (int (length as)) sys = Inr (int (length as), put_queue j q hp sys)"
    using j(1) as(1) q(1) by (simp add: queue_enq_multi.simps enq_multi_chain_def)
  moreover have "q_status q = q_status ?q" using q(3) j(2) by (simp add: enq_status_def)
  ultimately show ?thesis using sys_same_put [OF j(1) q(4) fr] j(1)
    by (intro exI [of _ "put_queue j q hp sys"]) (simp add: nth_list_update)
qed

lemma bufs_to_hdrs_map:
  "length as = length bs \<Longrightarrow> \<forall>i<length bs. odp_buf_to_hdr st (bs ! i) = Inr (as ! i) \<Longrightarrow> bufs_to_hdrs st bs = Inr as"
proof (induction bs arbitrary: as)
  case (Cons b bs)
  then obtain a as' where a: "as = a # as'" by (cases as) auto
  have "odp_buf_to_hdr st b = Inr a" using Cons.prems(2) a by (metis length_Cons nth_Cons_0 zero_less_Suc)
  moreover have "bufs_to_hdrs st bs = Inr as'"
  proof (rule Cons.IH)
    show "\<forall>i<length bs. odp_buf_to_hdr st (bs ! i) = Inr (as' ! i)" using Cons.prems(2) a by (metis length_Cons not_less_eq nth_Cons_Suc)
  qed (use Cons.prems(1) a in simp)
  ultimately show ?case by (simp add: a)
qed simp

text \<open>Updates of several packet headers.\<close>

definition upd_hdrs :: "addr set \<Rightarrow> (odp_packet_hdr \<Rightarrow> odp_packet_hdr) \<Rightarrow> odp_sys \<Rightarrow> odp_sys" where
  "upd_hdrs A f sys = set_heap ((sys_heap sys)\<lparr>hdrs := (\<lambda>a. if a \<in> A then f (hdrs (sys_heap sys) a) else hdrs (sys_heap sys) a)\<rparr>) sys"

lemma upd_hdrs_simps [simp]:
  "pool_tbl (base (upd_hdrs A f sys)) = pool_tbl (base sys)" "queue_tbl (upd_hdrs A f sys) = queue_tbl sys"
  "pktio_tbl (upd_hdrs A f sys) = pktio_tbl sys" "mem (sys_heap (upd_hdrs A f sys)) = mem (sys_heap sys)"
  "hdrs (sys_heap (upd_hdrs A f sys)) a = (if a \<in> A then f (hdrs (sys_heap sys) a) else hdrs (sys_heap sys) a)"
  by (simp_all add: upd_hdrs_def set_heap_def)

lemma buf_to_hdr_pool: "pool_tbl st' = pool_tbl st \<Longrightarrow> odp_buf_to_hdr st' b = odp_buf_to_hdr st b"
  by (simp add: odp_buf_to_hdr_def get_pool_entry_def)

lemma upd_pkts_hdrs:
  assumes "length as = length bs" "\<forall>i<length bs. odp_buf_to_hdr (base sys) (bs ! i) = Inr (as ! i)" "distinct as"
  shows "upd_pkts bs f sys = Inr (upd_hdrs (set as) f sys)"
  using assms
proof (induction bs arbitrary: as sys)
  case Nil
  then show ?case by (simp add: upd_hdrs_def set_heap_def)
next
  case (Cons b bs)
  then obtain a as' where a: "as = a # as'" by (cases as) auto
  have b: "odp_buf_to_hdr (base sys) b = Inr a" using Cons.prems(2) a by (metis length_Cons nth_Cons_0 zero_less_Suc)
  have u: "upd_pkt b f sys = Inr (upd_hdrs {a} f sys)"
    using b by (simp add: upd_pkt_def packet_hdr_addr_def put_hdr_def upd_hdr_def upd_hdrs_def set_heap_def fun_eq_iff)
  have "upd_pkts bs f (upd_hdrs {a} f sys) = Inr (upd_hdrs (set as') f (upd_hdrs {a} f sys))"
  proof (rule Cons.IH)
    show "\<forall>i<length bs. odp_buf_to_hdr (base (upd_hdrs {a} f sys)) (bs ! i) = Inr (as' ! i)"
      using Cons.prems(2) a buf_to_hdr_pool [OF upd_hdrs_simps(1)] by (metis length_Cons not_less_eq nth_Cons_Suc)
  qed (use Cons.prems(1,3) a in simp_all)
  moreover have "upd_hdrs (set as') f (upd_hdrs {a} f sys) = upd_hdrs (set as) f sys"
    using Cons.prems(3) a by (auto simp: upd_hdrs_def set_heap_def fun_eq_iff)
  ultimately show ?case using u by simp
qed

text \<open>An open and started interface of the loop device whose queue is \<open>j\<close>.\<close>

definition loop_up :: "odp_sys \<Rightarrow> u32 \<Rightarrow> nat \<Rightarrow> nat \<Rightarrow> bool" where
  "loop_up sys io k j \<longleftrightarrow> get_pktio_entry sys io = Some k \<and> pe_ops (pktio_tbl sys ! k) = Loop_Ops \<and>
    pe_state (pktio_tbl sys ! k) = STATE_START \<and> queue_to_qentry sys (pe_loopq (pktio_tbl sys ! k)) = Inr j \<and>
    q_status (qentry sys j) = QUEUE_STATUS_READY"

text \<open>Packets that a caller owns: their headers are distinct and in no queue.\<close>

definition own_packets :: "odp_sys \<Rightarrow> u32 list \<Rightarrow> addr list \<Rightarrow> bool" where
  "own_packets sys pkts as \<longleftrightarrow> length as = length pkts \<and> distinct as \<and> NULL \<notin> set as \<and>
    (\<forall>i<length pkts. odp_buf_to_hdr (base sys) (pkts ! i) = Inr (as ! i) \<and> bh_handle (bhdr (sys_heap sys) (as ! i)) = pkts ! i)"

lemma own_packets_same: "sys_same sys sys' \<Longrightarrow> own_packets sys pkts as \<Longrightarrow> own_packets sys' pkts as"
  by (simp add: own_packets_def sys_same_reads)

lemma own_packets_handles: "own_packets sys pkts as \<Longrightarrow> map (\<lambda>a. odp_hdr_to_buf (bhdr (sys_heap sys) a)) as = pkts"
  by (simp add: own_packets_def odp_hdr_to_buf_def list_eq_iff_nth_eq)

lemma loop_up_same:
  assumes "sys_same sys sys'" "qstat sys' j = qstat sys j" "loop_up sys io k j"
  shows "loop_up sys' io k j"
  using assms by (simp add: loop_up_def sys_same_reads get_pktio_entry_def) (simp add: sys_same_def)

lemma loop_send:
  assumes up: "loop_up sys io k j" and rep: "queues_rep sys L" and own: "own_packets sys pkts as"
    and n: "pkts \<noteq> []" "int (length pkts) \<le> QUEUE_MULTI_MAX" and fresh: "set as \<inter> in_queues sys L = {}"
  shows "\<exists>sys'. odp_pktio_send dev io pkts sys = Inr (int (length pkts), sys') \<and> queues_rep sys' (L(j := L j @ as)) \<and> sys_same sys sys' \<and>
    loop_up sys' io k j"
proof -
  have u: "get_pktio_entry sys io = Some k" "pe_ops (pktio_tbl sys ! k) = Loop_Ops" "pe_state (pktio_tbl sys ! k) = STATE_START"
    "queue_to_qentry sys (pe_loopq (pktio_tbl sys ! k)) = Inr j" "q_status (qentry sys j) = QUEUE_STATUS_READY"
    using up by (simp_all add: loop_up_def)
  have jl: "j < length (queue_tbl sys)" using u(4) by (auto simp: queue_to_qentry_def Let_def split: if_splits)
  have o: "length as = length pkts" "distinct as" "NULL \<notin> set as" using own by (simp_all add: own_packets_def)
  have "bufs_to_hdrs (base sys) pkts = Inr as" by (rule bufs_to_hdrs_map) (use own in \<open>simp_all add: own_packets_def\<close>)
  moreover from queue_enq_multi_ready [OF rep jl u(5) _ o(2,3) fresh, of dev] n(1) o(1) obtain sys' where
    s: "queue_enq_multi dev j as (int (length as)) sys = Inr (int (length as), sys')" "queues_rep sys' (L(j := L j @ as))" "sys_same sys sys'"
    "\<forall>i. qstat sys' i = qstat sys i" by fastforce
  ultimately have "odp_pktio_send dev io pkts sys = Inr (int (length pkts), sys')"
    using u n(2) o(1) by (simp add: odp_pktio_send.simps loopback_send.simps)
  then show ?thesis using s loop_up_same [OF s(3) _ up] by blast
qed

lemma next_only_hdr:
  assumes "next_only A hp hp'" shows "(hdrs hp' a)\<lparr>buf_hdr := b\<rparr> = (hdrs hp a)\<lparr>buf_hdr := b\<rparr>"
proof -
  have "buf_hdr_map (\<lambda>b. b\<lparr>bh_next := NULL\<rparr>) (hdrs hp' a) = buf_hdr_map (\<lambda>b. b\<lparr>bh_next := NULL\<rparr>) (hdrs hp a)"
    using assms by (simp add: next_only_def)
  then show ?thesis by (cases "hdrs hp' a"; cases "hdrs hp a") simp
qed

text \<open>Receiving takes packets from the front of the queue, forgets what was parsed and notes the interface.\<close>

definition received :: "u32 \<Rightarrow> odp_packet_hdr \<Rightarrow> odp_packet_hdr" where
  "received io h = h\<lparr>input_flags := ODP_PACKET_UNPARSED, pkt_input := io\<rparr>"

lemma loop_recv:
  assumes up: "loop_up sys io k j" and rep: "queues_rep sys L" and own: "own_packets sys pkts (take n (L j))" and n: "int n \<le> QUEUE_MULTI_MAX"
  shows "\<exists>sys'. odp_pktio_recv dev io n sys = Inr ((int (length pkts), pkts), sys') \<and> mem (sys_heap sys') = mem (sys_heap sys) \<and>
    (\<forall>a\<in>set (take n (L j)). (hdrs (sys_heap sys') a)\<lparr>buf_hdr := buf_hdr (hdrs (sys_heap sys) a)\<rparr> = received io (hdrs (sys_heap sys) a)) \<and>
    queue_tbl sys' = (queue_tbl sys)[j := qentry sys' j] \<and> queue_rep (qentry sys' j) (sys_heap sys') (drop n (L j))"
proof -
  have u: "get_pktio_entry sys io = Some k" "pe_ops (pktio_tbl sys ! k) = Loop_Ops" "pe_state (pktio_tbl sys ! k) = STATE_START"
    "queue_to_qentry sys (pe_loopq (pktio_tbl sys ! k)) = Inr j" "q_status (qentry sys j) = QUEUE_STATUS_READY"
    using up by (simp_all add: loop_up_def)
  let ?as = "take n (L j)"
  have jl: "j < length (queue_tbl sys)" using u(4) by (auto simp: queue_to_qentry_def Let_def split: if_splits)
  have live: "live_queue (qentry sys j)" using u(5) by (simp add: live_queue_def)
  from deq_multi_queues [OF rep jl live, of n] obtain q hp where
    d: "queue_deq_multi (qentry sys j) (sys_heap sys) (int n) = (Some ?as, q, hp)" "queues_rep (put_queue j q hp sys) (L(j := drop n (L j)))"
    "queue_same (qentry sys j) q" "next_only (set ?as) (sys_heap sys) hp" by auto
  let ?s = "put_queue j q hp sys"
  have same: "sys_same sys ?s" by (rule sys_same_put [OF jl d(3,4)])
  have own1: "own_packets ?s pkts ?as" by (rule own_packets_same [OF same own])
  let ?s1 = "upd_hdrs (set ?as) odp_packet_reset_parse ?s" let ?s2 = "upd_hdrs (set ?as) (\<lambda>h. h\<lparr>pkt_input := io\<rparr>) ?s1"
  have o: "length ?as = length pkts" "distinct ?as" and b: "\<forall>i<length pkts. odp_buf_to_hdr (base ?s) (pkts ! i) = Inr (?as ! i)"
    using own1 by (simp_all add: own_packets_def)
  have up1: "upd_pkts pkts odp_packet_reset_parse ?s = Inr ?s1" by (rule upd_pkts_hdrs [OF o(1) b o(2)])
  have b1: "\<forall>i<length pkts. odp_buf_to_hdr (base ?s1) (pkts ! i) = Inr (?as ! i)" using b buf_to_hdr_pool [OF upd_hdrs_simps(1)] by metis
  have up2: "upd_pkts pkts (\<lambda>h. h\<lparr>pkt_input := io\<rparr>) ?s1 = Inr ?s2" by (rule upd_pkts_hdrs [OF o(1) b1 o(2)])
  have len: "\<not> int (length ?as) > QUEUE_MULTI_MAX" using n by (simp add: min_def)
  have hs: "map (\<lambda>a. odp_hdr_to_buf (bhdr hp a)) ?as = pkts" using own_packets_handles [OF own1] by simp
  have lr: "loopback_recv k n sys = Inr ((int (length ?as), pkts), ?s1)"
    using u d(1) len hs up1 unfolding loopback_recv_def by simp
  have run: "odp_pktio_recv dev io n sys = Inr ((int (length pkts), pkts), ?s2)"
    using u lr o(1) up2 unfolding odp_pktio_recv_def by simp
  have m: "mem hp = mem (sys_heap sys)" using d(4) by (simp add: next_only_def)
  have h: "(hdrs (sys_heap ?s2) a)\<lparr>buf_hdr := buf_hdr (hdrs (sys_heap sys) a)\<rparr> = received io (hdrs (sys_heap sys) a)" if "a \<in> set ?as" for a
  proof -
    have "(hdrs (sys_heap ?s2) a)\<lparr>buf_hdr := buf_hdr (hdrs (sys_heap sys) a)\<rparr> = received io ((hdrs hp a)\<lparr>buf_hdr := buf_hdr (hdrs (sys_heap sys) a)\<rparr>)"
      using that by (simp add: received_def odp_packet_reset_parse_def)
    then show ?thesis by (simp add: next_only_hdr [OF d(4)])
  qed
  have "hdr_next (sys_heap ?s2) = hdr_next hp" by (auto simp: odp_packet_reset_parse_def)
  then have "queue_rep (qentry ?s2 j) (sys_heap ?s2) (drop n (L j))"
    using queues_repD [OF d(2), of j] jl by (simp add: queue_rep_def del: upd_hdrs_simps(5))
  then show ?thesis using run m h jl by (intro exI [of _ ?s2]) simp
qed

section \<open>Opening and closing\<close>

lemma upd_pktio_simps [simp]:
  "pktio_tbl (upd_pktio k f sys) = (pktio_tbl sys)[k := f (pktio_tbl sys ! k)]" "queue_tbl (upd_pktio k f sys) = queue_tbl sys"
  "base (upd_pktio k f sys) = base sys" "get_pktio_entry (upd_pktio k f sys) io = get_pktio_entry sys io"
  by (simp_all add: upd_pktio_def get_pktio_entry_def)

lemma upd_queue_simps [simp]:
  "queue_tbl (upd_queue i f sys) = (queue_tbl sys)[i := f (qentry sys i)]" "pktio_tbl (upd_queue i f sys) = pktio_tbl sys"
  "base (upd_queue i f sys) = base sys" "get_pktio_entry (upd_queue i f sys) io = get_pktio_entry sys io"
  by (simp_all add: upd_queue_def get_pktio_entry_def)

text \<open>The tables as the start of the system leaves them: their sizes, and the handle of every queue.\<close>

definition tables_ok :: "odp_sys \<Rightarrow> bool" where
  "tables_ok sys \<longleftrightarrow> length (pktio_tbl sys) = ODP_CONFIG_PKTIO_ENTRIES \<and> length (queue_tbl sys) = ODP_CONFIG_QUEUES \<and>
    (\<forall>i<ODP_CONFIG_QUEUES. q_handle (qentry sys i) = queue_from_id (of_nat i))"

lemma entry_of_handle:
  assumes "k < ODP_CONFIG_PKTIO_ENTRIES"
  shows "get_pktio_entry sys (of_nat (k + 1)) = Some k" "of_nat (k + 1) \<noteq> (ODP_PKTIO_INVALID :: u32)"
proof -
  have u: "unat (of_nat (k + 1) :: u32) = k + 1" using assms by (intro unat_of_nat_small) simp
  then show n: "of_nat (k + 1) \<noteq> (ODP_PKTIO_INVALID :: u32)" by (metis ODP_PKTIO_INVALID_def Suc_eq_plus1 nat.distinct(1) unsigned_0)
  have "pktio_to_id (of_nat (k + 1)) = k" using assms unat_of_nat_small [of k, where ?'a = 32] by (simp add: pktio_to_id_def)
  then show "get_pktio_entry sys (of_nat (k + 1)) = Some k" using assms n u by (simp add: get_pktio_entry_def)
qed

lemma queue_of_handle:
  assumes "i < ODP_CONFIG_QUEUES" "length (queue_tbl sys) = ODP_CONFIG_QUEUES"
  shows "queue_to_qentry sys (queue_from_id (of_nat i)) = Inr i" "queue_from_id (of_nat i) \<noteq> ODP_QUEUE_INVALID"
proof -
  have u: "unat (of_nat i :: u32) = i" using assms by (intro unat_of_nat_small) simp
  then show "queue_to_qentry sys (queue_from_id (of_nat i)) = Inr i"
    using assms by (simp add: queue_to_qentry_def queue_to_id_def queue_from_id_def)
  have "unat (of_nat (i + 1) :: u32) = i + 1" using assms(1) by (intro unat_of_nat_small) simp
  then have "of_nat (i + 1) \<noteq> (0 :: u32)" by (metis Suc_eq_plus1 nat.distinct(1) unsigned_0)
  then show "queue_from_id (of_nat i) \<noteq> ODP_QUEUE_INVALID" by (simp add: queue_from_id_def ODP_QUEUE_INVALID_def add.commute)
qed

lemma create_poll:
  assumes ok: "tables_ok sys" and i: "first_index (\<lambda>q. q_status q = QUEUE_STATUS_FREE) (queue_tbl sys) = Some i"
  shows "odp_queue_create tid name ODP_QUEUE_TYPE_POLL None sys = Inr (queue_from_id (of_nat i),
      upd_queue i (\<lambda>q. (queue_init q name ODP_QUEUE_TYPE_POLL None)\<lparr>q_status := QUEUE_STATUS_READY\<rparr>) sys)" "i < ODP_CONFIG_QUEUES"
proof -
  show l: "i < ODP_CONFIG_QUEUES" using ok i by (auto simp: tables_ok_def first_index_Some)
  then show "odp_queue_create tid name ODP_QUEUE_TYPE_POLL None sys = Inr (queue_from_id (of_nat i),
      upd_queue i (\<lambda>q. (queue_init q name ODP_QUEUE_TYPE_POLL None)\<lparr>q_status := QUEUE_STATUS_READY\<rparr>) sys)"
    using ok i by (simp add: odp_queue_create_def tables_ok_def queue_init_def)
qed

lemma lookup_none: "odp_pktio_lookup dev sys = ODP_PKTIO_INVALID \<longleftrightarrow>
    first_index (\<lambda>e. \<not> is_free e \<and> take IF_NAMESIZE (pe_name e) = take IF_NAMESIZE dev) (pktio_tbl sys) = None"
  if "length (pktio_tbl sys) = ODP_CONFIG_PKTIO_ENTRIES"
  using entry_of_handle(2) that by (auto simp: odp_pktio_lookup_def first_index_Some split: option.splits)

text \<open>
  The state after opening the loop device: entry \<open>k\<close> is taken and stopped, queue \<open>i\<close> is its queue, nothing else changed.
\<close>

definition loop_opened :: "nat \<Rightarrow> nat \<Rightarrow> odp_sys \<Rightarrow> odp_sys \<Rightarrow> bool" where
  "loop_opened k i sys sys' \<longleftrightarrow>
    (let e = pktio_tbl sys' ! k; q = qentry sys' i
     in pe_taken e \<and> pe_ops e = Loop_Ops \<and> pe_state e = STATE_STOP \<and> pe_name e = ''loop'' \<and> pe_handle e = of_nat (k + 1) \<and>
        pe_inq_default e = ODP_QUEUE_INVALID \<and> pe_loopq e = queue_from_id (of_nat i) \<and>
        q_status q = QUEUE_STATUS_READY \<and> q_funcs q = Queue_Funcs \<and> q_head q = NULL \<and> q_tail q = NULL) \<and>
    pktio_tbl sys' = (pktio_tbl sys)[k := pktio_tbl sys' ! k] \<and> queue_tbl sys' = (queue_tbl sys)[i := qentry sys' i] \<and> base sys' = base sys"

lemma open_loop:
  assumes ok: "tables_ok sys" and k: "first_index is_free (pktio_tbl sys) = Some k" and i: "first_index (\<lambda>q. q_status q = QUEUE_STATUS_FREE) (queue_tbl sys) = Some i"
    and n: "odp_pktio_lookup ''loop'' sys = ODP_PKTIO_INVALID"
  shows "\<exists>sys'. odp_pktio_open ctl tid ''loop'' pool sys = Inr (of_nat (k + 1), sys') \<and> loop_opened k i sys sys'"
proof -
  have kl: "k < ODP_CONFIG_PKTIO_ENTRIES" "k < length (pktio_tbl sys)" using ok k by (auto simp: tables_ok_def first_index_Some)
  note E = entry_of_handle [OF kl(1)]
  let ?s1 = "upd_pktio k init_pktio_entry sys"
  have i1: "first_index (\<lambda>q. q_status q = QUEUE_STATUS_FREE) (queue_tbl ?s1) = Some i" using i by simp
  have ok1: "tables_ok ?s1" using ok by (simp add: tables_ok_def)
  note Q = create_poll [OF ok1 i1]
  have il: "i < length (queue_tbl sys)" "length (queue_tbl sys) = ODP_CONFIG_QUEUES" using Q(2) ok by (simp_all add: tables_ok_def)
  have qn: "queue_from_id (of_nat i) \<noteq> ODP_QUEUE_INVALID" by (rule queue_of_handle [OF Q(2) il(2)])
  have "\<exists>s2. open_device ctl tid (of_nat (k + 1)) k ''loop'' pool ?s1 = Inr (0, s2) \<and>
      s2 = upd_pktio k (\<lambda>e. e\<lparr>pe_ops := Loop_Ops\<rparr>) (upd_pktio k (\<lambda>e. e\<lparr>pe_state := STATE_STOP\<rparr>) (upd_pktio k (\<lambda>e. e\<lparr>pe_loopq := queue_from_id (of_nat i)\<rparr>)
        (upd_queue i (\<lambda>q. (queue_init q (dec_digits (unat (of_nat (k + 1) :: u32)) @ ''-pktio_loopq'') ODP_QUEUE_TYPE_POLL None)\<lparr>q_status := QUEUE_STATUS_READY\<rparr>) ?s1)))"
    using Q(1) qn unfolding open_device_def loopback_open_def Let_def by simp
  then obtain s2 where s2: "open_device ctl tid (of_nat (k + 1)) k ''loop'' pool ?s1 = Inr (0, s2)"
    "s2 = upd_pktio k (\<lambda>e. e\<lparr>pe_ops := Loop_Ops\<rparr>) (upd_pktio k (\<lambda>e. e\<lparr>pe_state := STATE_STOP\<rparr>) (upd_pktio k (\<lambda>e. e\<lparr>pe_loopq := queue_from_id (of_nat i)\<rparr>)
        (upd_queue i (\<lambda>q. (queue_init q (dec_digits (unat (of_nat (k + 1) :: u32)) @ ''-pktio_loopq'') ODP_QUEUE_TYPE_POLL None)\<lparr>q_status := QUEUE_STATUS_READY\<rparr>) ?s1)))" by blast
  let ?s3 = "upd_pktio k (\<lambda>e. e\<lparr>pe_handle := of_nat (k + 1)\<rparr>) (upd_pktio k (\<lambda>e. e\<lparr>pe_name := ''loop''\<rparr>) s2)"
  have a: "alloc_lock_pktio_entry sys = (of_nat (k + 1), ?s1)" using k by (simp add: alloc_lock_pktio_entry_def)
  have g: "get_pktio_entry ?s1 (of_nat (k + 1)) = Some k" using E(1) by simp
  have "setup_pktio_entry ctl tid ''loop'' pool sys = Inr (of_nat (k + 1), ?s3)"
    using a E(2) g s2(1) unfolding setup_pktio_entry_def by simp
  then have "odp_pktio_open ctl tid ''loop'' pool sys = Inr (of_nat (k + 1), ?s3)" using n by (simp add: odp_pktio_open_def)
  moreover have "loop_opened k i sys ?s3"
    using kl(2) il(1) unfolding loop_opened_def s2(2) by (simp add: Let_def queue_init_def init_pktio_entry_def set_taken_def)
  ultimately show ?thesis by blast
qed

lemma lookup_opened:
  assumes ok: "tables_ok sys" and k: "first_index is_free (pktio_tbl sys) = Some k" and n: "odp_pktio_lookup ''loop'' sys = ODP_PKTIO_INVALID"
    and o: "loop_opened k i sys sys'"
  shows "odp_pktio_lookup ''loop'' sys' = of_nat (k + 1)"
proof -
  have len: "length (pktio_tbl sys) = ODP_CONFIG_PKTIO_ENTRIES" "k < length (pktio_tbl sys)" using ok k by (auto simp: tables_ok_def first_index_Some)
  let ?P = "\<lambda>e. \<not> is_free e \<and> take IF_NAMESIZE (pe_name e) = take IF_NAMESIZE ''loop''"
  have none: "\<not> ?P (pktio_tbl sys ! j)" if "j < length (pktio_tbl sys)" for j
    using n that unfolding lookup_none [OF len(1)] first_index_None by (metis nth_mem)
  have e: "pktio_tbl sys' = (pktio_tbl sys)[k := pktio_tbl sys' ! k]" and p: "?P (pktio_tbl sys' ! k)"
    using o by (simp_all add: loop_opened_def Let_def is_free_def)
  have "pktio_tbl sys' ! j = pktio_tbl sys ! j" if "j \<noteq> k" for j using that by (subst e) simp
  moreover have "length (pktio_tbl sys') = length (pktio_tbl sys)" by (subst e) simp
  ultimately have "first_index ?P (pktio_tbl sys') = Some k" unfolding first_index_Some using p none len(2) by simp
  then show ?thesis by (simp only: odp_pktio_lookup_def option.case)
qed

lemma close_loop:
  assumes ok: "tables_ok sys" and k: "first_index is_free (pktio_tbl sys) = Some k" and n: "odp_pktio_lookup ''loop'' sys = ODP_PKTIO_INVALID"
    and i: "i < ODP_CONFIG_QUEUES" and o: "loop_opened k i sys sys'"
  shows "\<exists>sys''. odp_pktio_close ctl tid (of_nat (k + 1)) sys' = Inr (0, sys'') \<and> odp_pktio_lookup ''loop'' sys'' = ODP_PKTIO_INVALID \<and>
    is_free (pktio_tbl sys'' ! k) \<and> q_status (qentry sys'' i) = QUEUE_STATUS_FREE \<and>
    (\<forall>m. m \<noteq> k \<longrightarrow> pktio_tbl sys'' ! m = pktio_tbl sys ! m) \<and> (\<forall>m. m \<noteq> i \<longrightarrow> qentry sys'' m = qentry sys m)"
proof -
  have len: "length (pktio_tbl sys) = ODP_CONFIG_PKTIO_ENTRIES" "k < length (pktio_tbl sys)" "length (queue_tbl sys) = ODP_CONFIG_QUEUES"
    using ok k by (auto simp: tables_ok_def first_index_Some)
  have e: "pktio_tbl sys' = (pktio_tbl sys)[k := pktio_tbl sys' ! k]" "queue_tbl sys' = (queue_tbl sys)[i := qentry sys' i]"
    and p: "pe_taken (pktio_tbl sys' ! k)" "pe_ops (pktio_tbl sys' ! k) = Loop_Ops" "pe_loopq (pktio_tbl sys' ! k) = queue_from_id (of_nat i)"
    "q_status (qentry sys' i) = QUEUE_STATUS_READY" "q_head (qentry sys' i) = NULL"
    using o by (simp_all add: loop_opened_def Let_def)
  have l': "length (pktio_tbl sys') = length (pktio_tbl sys)" "length (queue_tbl sys') = length (queue_tbl sys)" by (subst e, simp)+
  have m: "pktio_tbl sys' ! j = pktio_tbl sys ! j" if "j \<noteq> k" for j using that by (subst e) simp
  have mq: "qentry sys' j = qentry sys j" if "j \<noteq> i" for j using that by (subst e) simp
  note E = entry_of_handle [of k] note Q = queue_of_handle [OF i, of sys']
  let ?s = "upd_queue i (\<lambda>q. q\<lparr>q_status := QUEUE_STATUS_FREE\<rparr>) sys'" let ?s2 = "upd_pktio k set_free ?s"
  have g: "get_pktio_entry sys' (of_nat (k + 1)) = Some k" using E(1) len(1,2) by simp
  have cl: "loopback_close tid k sys' = Inr (0, ?s)"
    using Q(1) p(3-5) l'(2) len(3) by (simp add: loopback_close_def odp_queue_destroy_def)
  have fr: "free_pktio_entry (of_nat (k + 1)) ?s = (0, ?s2)" using g by (simp add: free_pktio_entry_def)
  have run: "odp_pktio_close ctl tid (of_nat (k + 1)) sys' = Inr (0, ?s2)"
    using g p(1,2) cl fr unfolding odp_pktio_close_def by (simp add: is_free_def)
  have "\<not> (\<not> is_free x \<and> take IF_NAMESIZE (pe_name x) = take IF_NAMESIZE ''loop'')" if "x \<in> set (pktio_tbl ?s2)" for x
  proof -
    from that obtain j where j: "j < length (pktio_tbl sys)" "x = pktio_tbl ?s2 ! j" by (auto simp: in_set_conv_nth l')
    show ?thesis
    proof (cases "j = k")
      case True
      then show ?thesis using j len(2) l' by (simp add: set_free_def is_free_def)
    next
      case False
      then have "x = pktio_tbl sys ! j" using j m by simp
      then show ?thesis using n j(1) unfolding lookup_none [OF len(1)] first_index_None by (metis nth_mem)
    qed
  qed
  then have "odp_pktio_lookup ''loop'' ?s2 = ODP_PKTIO_INVALID"
    using len(1) l' by (subst lookup_none) (simp_all only: first_index_None upd_pktio_simps upd_queue_simps length_list_update, blast)
  then show ?thesis using run m mq len l' i by (intro exI [of _ ?s2]) (simp add: set_free_def is_free_def)
qed

section \<open>Properties\<close>

text \<open>
  Opening and closing the loop device. With a free entry and a free queue, and no interface of that name open, opening takes
  the first of each, leaves the interface stopped with an empty queue of its own, makes it found by its name and refuses to open
  the name again; closing it gives both back, no interface of that name is found any more, and every other interface and queue is
  as before.
\<close>

theorem odp_pktio_open_close:
  assumes "tables_ok sys" "first_index is_free (pktio_tbl sys) = Some k"
    "first_index (\<lambda>q. q_status q = QUEUE_STATUS_FREE) (queue_tbl sys) = Some i" "odp_pktio_lookup ''loop'' sys = ODP_PKTIO_INVALID"
  shows "\<exists>sys1 sys2. odp_pktio_open ctl tid ''loop'' pool sys = Inr (of_nat (k + 1), sys1) \<and> loop_opened k i sys sys1 \<and>
    odp_pktio_lookup ''loop'' sys1 = of_nat (k + 1) \<and> odp_pktio_open ctl tid ''loop'' pool sys1 = Inr (ODP_PKTIO_INVALID, sys1) \<and>
    odp_pktio_close ctl tid (of_nat (k + 1)) sys1 = Inr (0, sys2) \<and> odp_pktio_lookup ''loop'' sys2 = ODP_PKTIO_INVALID \<and>
    is_free (pktio_tbl sys2 ! k) \<and> q_status (qentry sys2 i) = QUEUE_STATUS_FREE \<and>
    (\<forall>m. m \<noteq> k \<longrightarrow> pktio_tbl sys2 ! m = pktio_tbl sys ! m) \<and> (\<forall>m. m \<noteq> i \<longrightarrow> qentry sys2 m = qentry sys m)"
proof -
  from open_loop [OF assms, of ctl tid pool] obtain sys1 where
    o: "odp_pktio_open ctl tid ''loop'' pool sys = Inr (of_nat (k + 1), sys1)" "loop_opened k i sys sys1" by blast
  have i: "i < ODP_CONFIG_QUEUES" and k: "k < ODP_CONFIG_PKTIO_ENTRIES" using assms(1-3) by (auto simp: tables_ok_def first_index_Some)
  have l: "odp_pktio_lookup ''loop'' sys1 = of_nat (k + 1)" by (rule lookup_opened [OF assms(1,2,4) o(2)])
  have again: "odp_pktio_open ctl tid ''loop'' pool sys1 = Inr (ODP_PKTIO_INVALID, sys1)"
    unfolding odp_pktio_open_def l using entry_of_handle(2) [OF k] by (rule if_P)
  show ?thesis using o l again close_loop [OF assms(1,2,4) i o(2), of ctl tid] by blast
qed

text \<open>
  C27: The loop device gives back what it was given. Packets that the caller owns, sent through a started loop interface with an
  empty queue, are received from it in the same order, all of them, with their bytes and their metadata unchanged except that they are
  marked as not parsed and carry the interface they came from.
\<close>

theorem loopback_roundtrip:
  assumes "loop_up sys io k j" "queues_rep sys L" "L j = []" "own_packets sys pkts as" "pkts \<noteq> []" "int (length pkts) \<le> QUEUE_MULTI_MAX"
    "set as \<inter> in_queues sys L = {}"
  shows "\<exists>sys1 sys2. odp_pktio_send dev io pkts sys = Inr (int (length pkts), sys1) \<and>
    odp_pktio_recv dev io (nat QUEUE_MULTI_MAX) sys1 = Inr ((int (length pkts), pkts), sys2) \<and> mem (sys_heap sys2) = mem (sys_heap sys) \<and>
    (\<forall>a\<in>set as. (hdrs (sys_heap sys2) a)\<lparr>buf_hdr := buf_hdr (hdrs (sys_heap sys) a)\<rparr> = received io (hdrs (sys_heap sys) a))"
proof -
  from loop_send [OF assms(1,2,4-7), of dev] obtain sys1 where
    s: "odp_pktio_send dev io pkts sys = Inr (int (length pkts), sys1)" "queues_rep sys1 (L(j := L j @ as))" "sys_same sys sys1" "loop_up sys1 io k j"
    by blast
  let ?L = "L(j := L j @ as)"
  have t: "take (nat QUEUE_MULTI_MAX) (?L j) = as" using assms(3,4,6) by (simp add: own_packets_def)
  have own: "own_packets sys1 pkts (take (nat QUEUE_MULTI_MAX) (?L j))" unfolding t by (rule own_packets_same [OF s(3) assms(4)])
  from loop_recv [OF s(4,2) own, of dev] obtain sys2 where
    r: "odp_pktio_recv dev io (nat QUEUE_MULTI_MAX) sys1 = Inr ((int (length pkts), pkts), sys2)" "mem (sys_heap sys2) = mem (sys_heap sys1)"
    "\<forall>a\<in>set as. (hdrs (sys_heap sys2) a)\<lparr>buf_hdr := buf_hdr (hdrs (sys_heap sys1) a)\<rparr> = received io (hdrs (sys_heap sys1) a)"
    unfolding t by (auto simp: QUEUE_MULTI_MAX_def)
  have nx: "next_only UNIV (sys_heap sys) (sys_heap sys1)" using s(3) by (simp add: sys_same_def)
  have h: "(hdrs (sys_heap sys2) a)\<lparr>buf_hdr := buf_hdr (hdrs (sys_heap sys) a)\<rparr> = received io (hdrs (sys_heap sys) a)" if "a \<in> set as" for a
  proof -
    let ?b = "buf_hdr (hdrs (sys_heap sys) a)"
    have "(hdrs (sys_heap sys2) a)\<lparr>buf_hdr := ?b\<rparr> = ((hdrs (sys_heap sys2) a)\<lparr>buf_hdr := buf_hdr (hdrs (sys_heap sys1) a)\<rparr>)\<lparr>buf_hdr := ?b\<rparr>" by simp
    also have "\<dots> = received io ((hdrs (sys_heap sys1) a)\<lparr>buf_hdr := ?b\<rparr>)" using r(3) that by (simp add: received_def)
    also have "\<dots> = received io (hdrs (sys_heap sys) a)" by (simp add: next_only_hdr [OF nx])
    finally show ?thesis .
  qed
  have "mem (sys_heap sys2) = mem (sys_heap sys)" using r(2) nx by (simp add: next_only_def)
  then show ?thesis using s(1) r(1) h by blast
qed

text \<open>Closing reports a failure when packets are left in the loop device, but gives the entry back all the same.\<close>

lemma odp_pktio_close_frees_on_failure:
  assumes "loop_up sys io k j" "k < length (pktio_tbl sys)" "pe_taken (pktio_tbl sys ! k)" "q_head (qentry sys j) \<noteq> NULL"
  shows "\<exists>sys'. odp_pktio_close ctl tid io sys = Inr (-1, sys') \<and> is_free (pktio_tbl sys' ! k) \<and> qentry sys' j = qentry sys j"
  using assms by (simp add: loop_up_def odp_pktio_close_def is_free_def loopback_close_def odp_queue_destroy_def free_pktio_entry_def set_free_def Let_def)

section \<open>Concrete interfaces\<close>

definition demo_ctl :: sock_ctl where
  "demo_ctl = \<lparr>ctl_open = (\<lambda>_ _ _ _. -1), ctl_close = (\<lambda>_. 0), ctl_mtu = (\<lambda>_. 1500), ctl_promisc_set = (\<lambda>_ _. 0), ctl_promisc_get = (\<lambda>_. 0),
    ctl_mac = (\<lambda>_. (6, [2, 0, 0, 0, 0, 1]))\<rparr>"

definition demo_io :: odp_sys where
  "demo_io = demo_sys\<lparr>queue_tbl := map zero_queue [0..<ODP_CONFIG_QUEUES], pktio_tbl := replicate ODP_CONFIG_PKTIO_ENTRIES zero_pktio_entry\<rparr>"

lemma demo_io_ok:
  "tables_ok demo_io" "first_index is_free (pktio_tbl demo_io) = Some 0"
  "first_index (\<lambda>q. q_status q = QUEUE_STATUS_FREE) (queue_tbl demo_io) = Some 0" "odp_pktio_lookup ''loop'' demo_io = ODP_PKTIO_INVALID"
proof -
  show "tables_ok demo_io" by (simp add: tables_ok_def demo_io_def zero_queue_def)
  show "first_index is_free (pktio_tbl demo_io) = Some 0"
    "first_index (\<lambda>q. q_status q = QUEUE_STATUS_FREE) (queue_tbl demo_io) = Some 0"
    by (simp_all add: first_index_Some demo_io_def zero_pktio_entry_def is_free_def zero_queue_def)
  have "length (pktio_tbl demo_io) = ODP_CONFIG_PKTIO_ENTRIES" by (simp add: demo_io_def)
  from lookup_none [OF this] show "odp_pktio_lookup ''loop'' demo_io = ODP_PKTIO_INVALID"
    by (simp add: first_index_None demo_io_def zero_pktio_entry_def is_free_def)
qed

theorem odp_pktio_open_close_witness:
  "\<exists>sys1 sys2. odp_pktio_open demo_ctl 1 ''loop'' 0 demo_io = Inr (1, sys1) \<and> odp_pktio_lookup ''loop'' sys1 = 1 \<and>
    odp_pktio_close demo_ctl 1 1 sys1 = Inr (0, sys2) \<and> odp_pktio_lookup ''loop'' sys2 = ODP_PKTIO_INVALID"
proof -
  obtain sys1 sys2 where "odp_pktio_open demo_ctl 1 ''loop'' 0 demo_io = Inr (of_nat (0 + 1), sys1)" "odp_pktio_lookup ''loop'' sys1 = of_nat (0 + 1)"
    "odp_pktio_close demo_ctl 1 (of_nat (0 + 1)) sys1 = Inr (0, sys2)" "odp_pktio_lookup ''loop'' sys2 = ODP_PKTIO_INVALID"
    using odp_pktio_open_close [OF demo_io_ok, of demo_ctl 1 0] by blast
  then show ?thesis by (intro exI [of _ sys1] exI [of _ sys2]) simp
qed

definition demo_loop :: odp_sys where
  "demo_loop = demo_sys\<lparr>pktio_tbl := [zero_pktio_entry\<lparr>pe_ops := Loop_Ops, pe_taken := True, pe_loopq := 1\<rparr>]\<rparr>"

theorem loopback_roundtrip_witness:
  "\<exists>sys1 sys2. odp_pktio_send demo_dev 1 [8] demo_loop = Inr (1, sys1) \<and> odp_pktio_recv demo_dev 1 8 sys1 = Inr ((1, [8]), sys2) \<and>
    mem (sys_heap sys2) = mem (sys_heap demo_loop)"
proof -
  have up: "loop_up demo_loop 1 0 0"
    by (simp add: loop_up_def demo_loop_def demo_sys_def zero_pktio_entry_def get_pktio_entry_def pktio_to_id_def queue_to_qentry_def queue_to_id_def)
  have rep: "queues_rep demo_loop (\<lambda>_. [])"
    by (auto simp: queues_rep_def queue_rep_def demo_loop_def demo_sys_def demo_queue_def less_Suc_eq)
  have b: "odp_buf_to_hdr (base demo_loop) 8 = Inr 4160" using demo_buf(1) by (simp add: demo_loop_def)
  have own: "own_packets demo_loop [8] [4160]"
    using b by (simp add: own_packets_def) (simp add: demo_loop_def demo_sys_def demo_sched_hdr_def)
  obtain sys1 sys2 where "odp_pktio_send demo_dev 1 [8] demo_loop = Inr (int (length [8 :: u32]), sys1)"
    "odp_pktio_recv demo_dev 1 (nat QUEUE_MULTI_MAX) sys1 = Inr ((int (length [8 :: u32]), [8]), sys2)" "mem (sys_heap sys2) = mem (sys_heap demo_loop)"
    using loopback_roundtrip [OF up rep refl own, of demo_dev] by (auto simp: QUEUE_MULTI_MAX_def in_queues_def)
  then show ?thesis by (intro exI [of _ sys1] exI [of _ sys2]) (simp add: QUEUE_MULTI_MAX_def)
qed

end
