(* ===== verification/Odp_Timer.thy ===== *)
theory Odp_Timer
  imports Odp_Schedule
begin

text \<open>
  Timer pools, timers and timeouts (\<open>odp_timer.c\<close>), in the build with a lock per timer: what happens under the lock of a timer is one
  step. A timeout is a buffer; an expired timer enqueues it to the queue of the timer. Assertions are checked, as in a debug build.
\<close>

section \<open>State\<close>

definition TMO_UNUSED :: u64 where "TMO_UNUSED = 0xFFFFFFFFFFFFFFFF"
definition TMO_INACTIVE :: u64 where "TMO_INACTIVE = 0x8000000000000000"
definition MAX_TIMER_POOLS :: nat where "MAX_TIMER_POOLS = 255"
definition INDEX_BITS :: nat where "INDEX_BITS = 24"
definition ODP_TIMER_INVALID :: u32 where "ODP_TIMER_INVALID = 0xffffffff"
definition ODP_TIMEOUT_INVALID :: u32 where "ODP_TIMEOUT_INVALID = 0"
definition ODP_TIMER_POOL_NAME_LEN :: nat where "ODP_TIMER_POOL_NAME_LEN = 32"

definition ODP_TIMER_SUCCESS :: int where "ODP_TIMER_SUCCESS = 0"
definition ODP_TIMER_TOOEARLY :: int where "ODP_TIMER_TOOEARLY = -1"
definition ODP_TIMER_TOOLATE :: int where "ODP_TIMER_TOOLATE = -2"
definition ODP_TIMER_NOEVENT :: int where "ODP_TIMER_NOEVENT = -3"

lemmas timer_const_defs = TMO_UNUSED_def TMO_INACTIVE_def MAX_TIMER_POOLS_def INDEX_BITS_def ODP_TIMER_INVALID_def
  ODP_TIMER_SUCCESS_def ODP_TIMER_TOOEARLY_def ODP_TIMER_TOOLATE_def ODP_TIMER_NOEVENT_def

datatype timer_clk_src = ODP_CLOCK_CPU | ODP_CLOCK_EXT

record timer_pool_param =
  tpp_res_ns :: u64
  tpp_min_tmo :: u64
  tpp_max_tmo :: u64
  tpp_num_timers :: u32
  tpp_priv :: int
  tpp_clk_src :: timer_clk_src

record tick_buf =
  tb_exp_tck :: u64
  tb_tmo_buf :: u32

text \<open>The queue of a free timer holds the index of the next free one.\<close>

record odp_timer =
  tim_user_ptr :: addr
  tim_queue :: u32

record timer_pool =
  tp_cur_tick :: u64
  tp_min_rel_tck :: u64
  tp_max_rel_tck :: u64
  tp_tick_buf :: "tick_buf list"
  tp_timers :: "odp_timer list"
  tp_high_wm :: u32
  tp_num_alloc :: u32
  tp_first_free :: u32
  tp_idx :: u32
  tp_param :: timer_pool_param
  tp_name :: string

text \<open>The fields that a timeout adds to the buffer header.\<close>

record timeout_hdr =
  tmo_expiration :: u64
  tmo_user_ptr :: addr
  tmo_timer :: u32

record timer_sys =
  ts_sys :: odp_sys
  ts_pools :: "timer_pool option list"
  ts_num_pools :: u32
  ts_tmo :: "addr \<Rightarrow> timeout_hdr"

definition assert_then :: "bool \<Rightarrow> (c_error + 'a) \<Rightarrow> c_error + 'a" where
  "assert_then c r = (if c then r else Inl Aborted)"

section \<open>Timers\<close>

definition timer_init :: "u32 \<Rightarrow> addr \<Rightarrow> odp_timer \<times> tick_buf" where
  "timer_init q up = (\<lparr>tim_user_ptr = up, tim_queue = q\<rparr>, \<lparr>tb_exp_tck = TMO_INACTIVE, tb_tmo_buf = ODP_BUFFER_INVALID\<rparr>)"

definition timer_fini :: "tick_buf \<Rightarrow> c_error + odp_timer" where
  "timer_fini tb =
    assert_then (tb_exp_tck tb = TMO_UNUSED) (assert_then (tb_tmo_buf tb = ODP_BUFFER_INVALID)
      (Inr \<lparr>tim_user_ptr = NULL, tim_queue = ODP_QUEUE_INVALID\<rparr>))"

definition get_next_free :: "odp_timer \<Rightarrow> u32" where
  "get_next_free tim = tim_queue tim"

definition set_next_free :: "odp_timer \<Rightarrow> u32 \<Rightarrow> c_error + odp_timer" where
  "set_next_free tim nf = assert_then (tim_queue tim = ODP_QUEUE_INVALID) (Inr (tim\<lparr>tim_queue := nf\<rparr>))"

definition handle_to_tp :: "timer_sys \<Rightarrow> u32 \<Rightarrow> c_error + nat" where
  "handle_to_tp ts hdl =
    (let tp_idx = unat (drop_bit INDEX_BITS hdl)
     in if tp_idx < MAX_TIMER_POOLS \<and> ts_pools ts ! tp_idx \<noteq> None then Inr tp_idx else Inl Aborted)"

definition handle_to_idx :: "u32 \<Rightarrow> timer_pool \<Rightarrow> c_error + nat" where
  "handle_to_idx hdl tp =
    (let idx = take_bit INDEX_BITS hdl in if idx < tp_high_wm tp then Inr (unat idx) else Inl Aborted)"

definition tp_idx_to_handle :: "timer_pool \<Rightarrow> nat \<Rightarrow> c_error + u32" where
  "tp_idx_to_handle tp idx = assert_then (idx < 2 ^ INDEX_BITS) (Inr (push_bit INDEX_BITS (tp_idx tp) OR of_nat idx))"

definition get_tp :: "timer_sys \<Rightarrow> nat \<Rightarrow> c_error + timer_pool" where
  "get_tp ts p = (if p < length (ts_pools ts) then (case ts_pools ts ! p of None \<Rightarrow> Inl Null_Deref | Some tp \<Rightarrow> Inr tp) else Inl Null_Deref)"

definition put_tp :: "nat \<Rightarrow> timer_pool \<Rightarrow> timer_sys \<Rightarrow> timer_sys" where
  "put_tp p tp ts = ts\<lparr>ts_pools := (ts_pools ts)[p := Some tp]\<rparr>"

definition set_tb :: "nat \<Rightarrow> tick_buf \<Rightarrow> timer_pool \<Rightarrow> timer_pool" where
  "set_tb idx tb tp = tp\<lparr>tp_tick_buf := (tp_tick_buf tp)[idx := tb]\<rparr>"

section \<open>Pools\<close>

definition odp_timer_tick_to_ns :: "timer_pool \<Rightarrow> u64 \<Rightarrow> u64" where
  "odp_timer_tick_to_ns tp ticks = ticks * tpp_res_ns (tp_param tp)"

definition odp_timer_ns_to_tick :: "timer_pool_param \<Rightarrow> u64 \<Rightarrow> c_error + u64" where
  "odp_timer_ns_to_tick param ns = (if tpp_res_ns param = 0 then Inl Div_By_Zero else Inr (ns div tpp_res_ns param))"

text \<open>
  A pool with all timers in the free list, in the order of their indices. Shared memory (\<open>False\<close>: none is left, which aborts) and the POSIX
  timer that drives the pool (\<open>False\<close>: it cannot be created) are arguments. The result is the index of the pool, \<open>None\<close> for \<open>NULL\<close>.
\<close>

definition odp_timer_pool_new ::
    "bool \<Rightarrow> bool \<Rightarrow> string \<Rightarrow> timer_pool_param \<Rightarrow> timer_sys \<Rightarrow> c_error + (nat option \<times> timer_sys)" where
  "odp_timer_pool_new shm_ok itimer_ok name param ts =
    (let tp_idx = ts_num_pools ts
     in if unat tp_idx \<ge> MAX_TIMER_POOLS then Inr (None, ts)
        else if \<not> shm_ok then Inl Aborted
        else
          and_then (odp_timer_ns_to_tick param (tpp_min_tmo param)) (\<lambda>min_rel.
          and_then (odp_timer_ns_to_tick param (tpp_max_tmo param)) (\<lambda>max_rel.
            let n = unat (tpp_num_timers param);
                tp = \<lparr>tp_cur_tick = 0, tp_min_rel_tck = min_rel, tp_max_rel_tck = max_rel,
                  tp_tick_buf = replicate n \<lparr>tb_exp_tck = TMO_UNUSED, tb_tmo_buf = ODP_BUFFER_INVALID\<rparr>,
                  tp_timers = map (\<lambda>i. \<lparr>tim_user_ptr = NULL, tim_queue = of_nat (i + 1)\<rparr>) [0..<n],
                  tp_high_wm = 0, tp_num_alloc = 0, tp_first_free = 0, tp_idx = tp_idx, tp_param = param,
                  tp_name = take (ODP_TIMER_POOL_NAME_LEN - 1) name\<rparr>
            in if tpp_clk_src param = ODP_CLOCK_CPU \<and> \<not> itimer_ok then Inl Aborted
               else Inr (Some (unat tp_idx), (put_tp (unat tp_idx) tp ts)\<lparr>ts_num_pools := tp_idx + 1\<rparr>))))"

definition odp_timer_pool_create ::
    "bool \<Rightarrow> bool \<Rightarrow> string \<Rightarrow> timer_pool_param \<Rightarrow> timer_sys \<Rightarrow> c_error + (nat option \<times> timer_sys)" where
  "odp_timer_pool_create shm_ok itimer_ok name param ts =
    (if tpp_res_ns param = 0 then Inr (None, ts) else odp_timer_pool_new shm_ok itimer_ok name param ts)"

definition odp_timer_pool_del :: "bool \<Rightarrow> nat \<Rightarrow> timer_sys \<Rightarrow> c_error + timer_sys" where
  "odp_timer_pool_del shm_ok p ts =
    and_then (get_tp ts p) (\<lambda>tp.
      if tp_num_alloc tp \<noteq> 0 \<or> \<not> shm_ok then Inl Aborted
      else Inr (ts\<lparr>ts_pools := (ts_pools ts)[unat (tp_idx tp) := None]\<rparr>))"

definition odp_timer_pool_destroy :: "bool \<Rightarrow> nat \<Rightarrow> timer_sys \<Rightarrow> c_error + timer_sys" where
  "odp_timer_pool_destroy = odp_timer_pool_del"

definition odp_timer_current_tick :: "timer_pool \<Rightarrow> u64" where
  "odp_timer_current_tick tp = tp_cur_tick tp"

definition odp_timer_pool_info :: "timer_pool \<Rightarrow> int \<times> (timer_pool_param \<times> u32 \<times> u32 \<times> string)" where
  "odp_timer_pool_info tp = (0, (tp_param tp, tp_num_alloc tp, tp_high_wm tp, tp_name tp))"

section \<open>Allocating and freeing timers\<close>

definition timer_alloc :: "u32 \<Rightarrow> addr \<Rightarrow> timer_pool \<Rightarrow> c_error + (u32 \<times> timer_pool)" where
  "timer_alloc queue user_ptr tp =
    (if tp_num_alloc tp < tpp_num_timers (tp_param tp)
     then assert_then (tp_first_free tp \<noteq> tpp_num_timers (tp_param tp))
       (let idx = unat (tp_first_free tp)
        in if \<not> idx < length (tp_timers tp) then Inl Out_Of_Bounds
           else
             let (tim, tb) = timer_init queue user_ptr;
                 na = tp_num_alloc tp + 1;
                 tp1 = tp\<lparr>tp_num_alloc := na, tp_first_free := get_next_free (tp_timers tp ! idx),
                   tp_timers := (tp_timers tp)[idx := tim], tp_tick_buf := (tp_tick_buf tp)[idx := tb],
                   tp_high_wm := if na > tp_high_wm tp then na else tp_high_wm tp\<rparr>
             in and_then (tp_idx_to_handle tp1 idx) (\<lambda>hdl. Inr (hdl, tp1)))
     else Inr (ODP_TIMER_INVALID, tp))"

definition timer_cancel :: "nat \<Rightarrow> u64 \<Rightarrow> timer_pool \<Rightarrow> u32 \<times> timer_pool" where
  "timer_cancel idx new_state tp =
    (tb_tmo_buf (tp_tick_buf tp ! idx), set_tb idx \<lparr>tb_exp_tck = new_state, tb_tmo_buf = ODP_BUFFER_INVALID\<rparr> tp)"

definition timer_free :: "nat \<Rightarrow> timer_pool \<Rightarrow> c_error + (u32 \<times> timer_pool)" where
  "timer_free idx tp =
    (let (old_buf, tp1) = timer_cancel idx TMO_UNUSED tp
     in and_then (timer_fini (tp_tick_buf tp1 ! idx)) (\<lambda>tim.
        and_then (set_next_free tim (tp_first_free tp1)) (\<lambda>tim1.
          assert_then (tp_num_alloc tp1 \<noteq> 0)
            (Inr (old_buf, tp1\<lparr>tp_timers := (tp_timers tp1)[idx := tim1], tp_first_free := of_nat idx, tp_num_alloc := tp_num_alloc tp1 - 1\<rparr>)))))"

definition odp_timer_alloc :: "nat \<Rightarrow> u32 \<Rightarrow> addr \<Rightarrow> timer_sys \<Rightarrow> c_error + (u32 \<times> timer_sys)" where
  "odp_timer_alloc p queue user_ptr ts =
    (if queue = ODP_QUEUE_INVALID then Inl Aborted
     else and_then (get_tp ts p) (\<lambda>tp. and_then (timer_alloc queue user_ptr tp) (\<lambda>(hdl, tp1). Inr (hdl, put_tp p tp1 ts))))"

text \<open>The calls that take a timer handle.\<close>

definition with_timer :: "u32 \<Rightarrow> timer_sys \<Rightarrow> (nat \<Rightarrow> timer_pool \<Rightarrow> nat \<Rightarrow> c_error + 'a) \<Rightarrow> c_error + 'a" where
  "with_timer hdl ts f =
    and_then (handle_to_tp ts hdl) (\<lambda>p. and_then (get_tp ts p) (\<lambda>tp. and_then (handle_to_idx hdl tp) (\<lambda>idx. f p tp idx)))"

definition odp_timer_free :: "u32 \<Rightarrow> timer_sys \<Rightarrow> c_error + (u32 \<times> timer_sys)" where
  "odp_timer_free hdl ts = with_timer hdl ts (\<lambda>p tp idx. and_then (timer_free idx tp) (\<lambda>(old_buf, tp1). Inr (old_buf, put_tp p tp1 ts)))"

section \<open>Setting and cancelling\<close>

text \<open>
  \<open>None\<close> is a missing or invalid timeout. The result tells success and, when a timeout was given, the old timeout.
\<close>

definition timer_reset ::
    "nat \<Rightarrow> nat \<Rightarrow> timer_pool \<Rightarrow> u64 \<Rightarrow> u32 option \<Rightarrow> timer_sys \<Rightarrow> c_error + ((bool \<times> u32 option) \<times> timer_sys)" where
  "timer_reset p idx tp abs_tck tmo_buf ts =
    (let tb = tp_tick_buf tp ! idx
     in case tmo_buf of
          None \<Rightarrow>
            if tb_tmo_buf tb \<noteq> ODP_BUFFER_INVALID
            then Inr ((True, None), put_tp p (set_tb idx (tb\<lparr>tb_exp_tck := abs_tck\<rparr>) tp) ts)
            else Inr ((False, None), ts)
        | Some buf \<Rightarrow>
            and_then (odp_event_type (base (ts_sys ts)) buf) (\<lambda>ty.
            and_then (if ty = ODP_EVENT_TIMEOUT
                      then and_then (odp_buf_to_hdr (base (ts_sys ts)) buf) (\<lambda>a.
                           and_then (tp_idx_to_handle tp idx) (\<lambda>hdl.
                             Inr (ts\<lparr>ts_tmo := (ts_tmo ts)(a := (ts_tmo ts a)\<lparr>tmo_timer := hdl,
                               tmo_user_ptr := tim_user_ptr (tp_timers tp ! idx)\<rparr>)\<rparr>)))
                      else Inr ts) (\<lambda>ts1.
              Inr ((True, Some (tb_tmo_buf tb)), put_tp p (set_tb idx \<lparr>tb_exp_tck = abs_tck, tb_tmo_buf = buf\<rparr> tp) ts1))))"

definition tmo_arg :: "u32 option \<Rightarrow> u32 option" where
  "tmo_arg ev = (case ev of None \<Rightarrow> None | Some b \<Rightarrow> if b = ODP_BUFFER_INVALID then None else Some b)"

definition timer_set :: "u32 \<Rightarrow> (timer_pool \<Rightarrow> u64) \<Rightarrow> (timer_pool \<Rightarrow> bool) \<Rightarrow> (timer_pool \<Rightarrow> bool) \<Rightarrow> u32 option \<Rightarrow> timer_sys \<Rightarrow>
    c_error + ((int \<times> u32 option) \<times> timer_sys)" where
  "timer_set hdl abs_tck early late tmo_ev ts =
    with_timer hdl ts (\<lambda>p tp idx.
      if early tp then Inr ((ODP_TIMER_TOOEARLY, tmo_ev), ts)
      else if late tp then Inr ((ODP_TIMER_TOOLATE, tmo_ev), ts)
      else and_then (timer_reset p idx tp (abs_tck tp) (tmo_arg tmo_ev) ts) (\<lambda>((ok, old), ts1).
        Inr ((if ok then ODP_TIMER_SUCCESS else ODP_TIMER_NOEVENT, case old of None \<Rightarrow> tmo_ev | Some b \<Rightarrow> Some b), ts1)))"

text \<open>The result code and the timeout variable of the caller, if there is one, after the call.\<close>

definition odp_timer_set_abs :: "u32 \<Rightarrow> u64 \<Rightarrow> u32 option \<Rightarrow> timer_sys \<Rightarrow> c_error + ((int \<times> u32 option) \<times> timer_sys)" where
  "odp_timer_set_abs hdl abs_tck tmo_ev ts =
    timer_set hdl (\<lambda>_. abs_tck) (\<lambda>tp. abs_tck < tp_cur_tick tp + tp_min_rel_tck tp) (\<lambda>tp. abs_tck > tp_cur_tick tp + tp_max_rel_tck tp) tmo_ev ts"

definition odp_timer_set_rel :: "u32 \<Rightarrow> u64 \<Rightarrow> u32 option \<Rightarrow> timer_sys \<Rightarrow> c_error + ((int \<times> u32 option) \<times> timer_sys)" where
  "odp_timer_set_rel hdl rel_tck tmo_ev ts =
    timer_set hdl (\<lambda>tp. tp_cur_tick tp + rel_tck) (\<lambda>tp. rel_tck < tp_min_rel_tck tp) (\<lambda>tp. rel_tck > tp_max_rel_tck tp) tmo_ev ts"

text \<open>\<open>None\<close>: the variable of the caller is not written.\<close>

definition odp_timer_cancel :: "u32 \<Rightarrow> timer_sys \<Rightarrow> c_error + ((int \<times> u32 option) \<times> timer_sys)" where
  "odp_timer_cancel hdl ts =
    with_timer hdl ts (\<lambda>p tp idx.
      let (old_buf, tp1) = timer_cancel idx TMO_INACTIVE tp
      in Inr (if old_buf \<noteq> ODP_BUFFER_INVALID then (0, Some old_buf) else (-1, None), put_tp p tp1 ts))"

section \<open>Expiration\<close>

text \<open>What happens under the lock: the tick that was found and the timeout that was taken.\<close>

definition expire_locked :: "nat \<Rightarrow> u64 \<Rightarrow> timer_pool \<Rightarrow> (u64 \<times> u32) \<times> timer_pool" where
  "expire_locked idx tick tp =
    (let tb = tp_tick_buf tp ! idx; exp_tck = tb_exp_tck tb
     in if exp_tck \<le> tick \<and> tb_tmo_buf tb \<noteq> ODP_BUFFER_INVALID
        then ((exp_tck, tb_tmo_buf tb), set_tb idx \<lparr>tb_exp_tck = exp_tck OR TMO_INACTIVE, tb_tmo_buf = ODP_BUFFER_INVALID\<rparr> tp)
        else ((exp_tck, ODP_BUFFER_INVALID), tp))"

definition timer_expire :: "sock_dev \<Rightarrow> nat \<Rightarrow> nat \<Rightarrow> u64 \<Rightarrow> timer_sys \<Rightarrow> c_error + (nat \<times> timer_sys)" where
  "timer_expire dev p idx tick ts =
    and_then (get_tp ts p) (\<lambda>tp.
      let ((exp_tck, tmo_buf), tp1) = expire_locked idx tick tp; ts1 = put_tp p tp1 ts
      in if tmo_buf = ODP_BUFFER_INVALID then Inr (0, ts1)
         else
           and_then (odp_event_type (base (ts_sys ts1)) tmo_buf) (\<lambda>ty.
           and_then (if ty = ODP_EVENT_TIMEOUT
                     then and_then (odp_buf_to_hdr (base (ts_sys ts1)) tmo_buf) (\<lambda>a.
                       Inr (ts1\<lparr>ts_tmo := (ts_tmo ts1)(a := (ts_tmo ts1 a)\<lparr>tmo_expiration := exp_tck\<rparr>)\<rparr>))
                     else Inr ts1) (\<lambda>ts2.
           and_then (odp_queue_enq dev (tim_queue (tp_timers tp ! idx)) tmo_buf (ts_sys ts2)) (\<lambda>(rc, sys).
             if rc \<noteq> 0 then Inl Aborted else Inr (1, ts2\<lparr>ts_sys := sys\<rparr>)))))"

text \<open>The scan over the timers below the watermark.\<close>

fun expire_scan :: "nat list \<Rightarrow> sock_dev \<Rightarrow> nat \<Rightarrow> u64 \<Rightarrow> timer_sys \<Rightarrow> c_error + (nat \<times> timer_sys)" where
  "expire_scan [] dev p tick ts = Inr (0, ts)"
| "expire_scan (i # is) dev p tick ts =
    and_then (get_tp ts p) (\<lambda>tp.
    and_then (if tb_exp_tck (tp_tick_buf tp ! i) \<le> tick then timer_expire dev p i tick ts else Inr (0, ts)) (\<lambda>(n, ts1).
    and_then (expire_scan is dev p tick ts1) (\<lambda>(m, ts2). Inr (n + m, ts2))))"

definition odp_timer_pool_expire :: "sock_dev \<Rightarrow> nat \<Rightarrow> u64 \<Rightarrow> timer_sys \<Rightarrow> c_error + (nat \<times> timer_sys)" where
  "odp_timer_pool_expire dev p tick ts =
    and_then (get_tp ts p) (\<lambda>tp.
      assert_then (tp_high_wm tp \<le> tpp_num_timers (tp_param tp)) (expire_scan [0..<unat (tp_high_wm tp)] dev p tick ts))"

text \<open>One tick of the POSIX timer; \<open>scan\<close> is whether no other scan is running.\<close>

definition timer_notify :: "sock_dev \<Rightarrow> bool \<Rightarrow> nat \<Rightarrow> timer_sys \<Rightarrow> c_error + timer_sys" where
  "timer_notify dev scan p ts =
    and_then (get_tp ts p) (\<lambda>tp.
      let prev_tick = tp_cur_tick tp; ts1 = put_tp p (tp\<lparr>tp_cur_tick := prev_tick + 1\<rparr>) ts
      in if scan then and_then (odp_timer_pool_expire dev p prev_tick ts1) (\<lambda>(_, ts2). Inr ts2) else Inr ts1)"

section \<open>Timeouts\<close>

definition timeout_hdr_of :: "u32 \<Rightarrow> timer_sys \<Rightarrow> c_error + timeout_hdr" where
  "timeout_hdr_of tmo ts = and_then (odp_buf_to_hdr (base (ts_sys ts)) tmo) (\<lambda>a. Inr (ts_tmo ts a))"

definition odp_timeout_from_event :: "u32 \<Rightarrow> timer_sys \<Rightarrow> c_error + u32" where
  "odp_timeout_from_event ev ts =
    and_then (odp_event_type (base (ts_sys ts)) ev) (\<lambda>ty. if ty \<noteq> ODP_EVENT_TIMEOUT then Inl Aborted else Inr ev)"

definition odp_timeout_to_event :: "u32 \<Rightarrow> u32" where
  "odp_timeout_to_event tmo = tmo"

definition odp_timeout_fresh :: "u32 \<Rightarrow> timer_sys \<Rightarrow> c_error + bool" where
  "odp_timeout_fresh tmo ts =
    and_then (timeout_hdr_of tmo ts) (\<lambda>hdr.
      with_timer (tmo_timer hdr) ts (\<lambda>p tp idx. Inr (tmo_expiration hdr = tb_exp_tck (tp_tick_buf tp ! idx) AND NOT TMO_INACTIVE)))"

definition odp_timeout_timer :: "u32 \<Rightarrow> timer_sys \<Rightarrow> c_error + u32" where
  "odp_timeout_timer tmo ts = and_then (timeout_hdr_of tmo ts) (\<lambda>hdr. Inr (tmo_timer hdr))"

definition odp_timeout_tick :: "u32 \<Rightarrow> timer_sys \<Rightarrow> c_error + u64" where
  "odp_timeout_tick tmo ts = and_then (timeout_hdr_of tmo ts) (\<lambda>hdr. Inr (tmo_expiration hdr))"

definition odp_timeout_user_ptr :: "u32 \<Rightarrow> timer_sys \<Rightarrow> c_error + addr" where
  "odp_timeout_user_ptr tmo ts = and_then (timeout_hdr_of tmo ts) (\<lambda>hdr. Inr (tmo_user_ptr hdr))"

definition odp_timeout_alloc :: "nat \<Rightarrow> u32 \<Rightarrow> timer_sys \<Rightarrow> c_error + (u32 \<times> timer_sys)" where
  "odp_timeout_alloc tid pool ts =
    and_then (odp_buffer_alloc tid pool (base (ts_sys ts))) (\<lambda>(buf, st).
      let ts1 = ts\<lparr>ts_sys := (ts_sys ts)\<lparr>base := st\<rparr>\<rparr>
      in if buf = ODP_BUFFER_INVALID then Inr (ODP_TIMEOUT_INVALID, ts1)
         else and_then (odp_timeout_from_event buf ts1) (\<lambda>tmo. Inr (tmo, ts1)))"

definition odp_timer_init_global :: "timer_sys \<Rightarrow> int \<times> timer_sys" where
  "odp_timer_init_global ts = (0, ts\<lparr>ts_num_pools := 0\<rparr>)"

end
