(* ===== verification/Odp_Timer_Correct.thy ===== *)
theory Odp_Timer_Correct
  imports Odp_Timer Odp_Schedule_Correct
begin

text \<open>
  Timers: the free list of a pool, the state of a timer as its user sees it, setting and cancelling against a specification on that state,
  and the scan that sends due timeouts to their queues, for any queues that accept events (locale \<open>event_sink\<close>), polled or scheduled.
\<close>

section \<open>Handles\<close>

unbundle bit_operations_syntax

lemma small_not_bit: "i < 2 ^ m \<Longrightarrow> m \<le> n \<Longrightarrow> \<not> bit (i :: nat) n"
proof -
  assume "i < 2 ^ m" "m \<le> n"
  then have "i < 2 ^ n" by (meson less_le_trans power_increasing one_le_numeral)
  then show ?thesis by (simp add: bit_iff_odd)
qed

lemma handle_parts:
  assumes "p < MAX_TIMER_POOLS" "i < 2 ^ INDEX_BITS"
  defines "h \<equiv> push_bit INDEX_BITS (of_nat p) OR (of_nat i :: u32)"
  shows "take_bit INDEX_BITS h = of_nat i" "unat (drop_bit INDEX_BITS h) = p" "h \<noteq> ODP_TIMER_INVALID"
proof -
  have i: "n < 24" if "bit i n" for n using small_not_bit [of i 24 n] assms(2) that by (cases "n < 24") (auto simp: INDEX_BITS_def)
  have p: "n < 8" if "bit p n" for n using small_not_bit [of p 8 n] assms(1) that by (cases "n < 8") (auto simp: MAX_TIMER_POOLS_def)
  show "take_bit INDEX_BITS h = of_nat i" by (rule bit_word_eqI) (auto simp: h_def INDEX_BITS_def bit_simps dest: i)
  have d: "drop_bit INDEX_BITS h = of_nat p" by (rule bit_word_eqI) (auto simp: h_def INDEX_BITS_def bit_simps dest: i p)
  then show u: "unat (drop_bit INDEX_BITS h) = p" using assms(1) by (simp add: MAX_TIMER_POOLS_def unat_of_nat_small)
  show "h \<noteq> ODP_TIMER_INVALID"
  proof
    assume "h = ODP_TIMER_INVALID"
    then have "unat (drop_bit INDEX_BITS h) = 255" by (simp add: ODP_TIMER_INVALID_def INDEX_BITS_def)
    then show False using u assms(1) by (simp add: MAX_TIMER_POOLS_def)
  qed
qed

section \<open>The state of a timer\<close>

text \<open>What a timer is to its user: free, without a timeout, or set to a tick with a timeout.\<close>

datatype timer_state = Timer_Free | Timer_Idle | Timer_Set u64 u32

definition state_of :: "tick_buf \<Rightarrow> timer_state" where
  "state_of tb = (if tb_exp_tck tb = TMO_UNUSED then Timer_Free
    else if tb_tmo_buf tb = ODP_BUFFER_INVALID then Timer_Idle else Timer_Set (tb_exp_tck tb) (tb_tmo_buf tb))"

abbreviation timer_st :: "timer_pool \<Rightarrow> nat \<Rightarrow> timer_state" where
  "timer_st tp i \<equiv> state_of (tp_tick_buf tp ! i)"

text \<open>The free list, through the queue fields of the free timers.\<close>

fun free_chain :: "odp_timer list \<Rightarrow> nat \<Rightarrow> nat list \<Rightarrow> nat \<Rightarrow> bool" where
  "free_chain tims cur [] n \<longleftrightarrow> cur = n"
| "free_chain tims cur (i # is) n \<longleftrightarrow> cur = i \<and> i < length tims \<and> free_chain tims (unat (tim_queue (tims ! i))) is n"

lemma free_chain_upd: "free_chain tims cur is n \<Longrightarrow> i \<notin> set is \<Longrightarrow> free_chain (tims[i := t]) cur is n"
  by (induction "is" arbitrary: cur) auto

text \<open>A timer that is not free: it has a timeout exactly when its tick is not marked inactive.\<close>

definition used_ok :: "tick_buf \<Rightarrow> bool" where
  "used_ok tb \<longleftrightarrow> tb_exp_tck tb \<noteq> TMO_UNUSED \<and> (tb_tmo_buf tb = ODP_BUFFER_INVALID \<longleftrightarrow> TMO_INACTIVE \<le> tb_exp_tck tb)"

definition timer_inv :: "timer_pool \<Rightarrow> nat list \<Rightarrow> bool" where
  "timer_inv tp fl \<longleftrightarrow>
    (let n = unat (tpp_num_timers (tp_param tp)); hw = unat (tp_high_wm tp)
     in length (tp_tick_buf tp) = n \<and> length (tp_timers tp) = n \<and> n \<le> 2 ^ INDEX_BITS \<and> unat (tp_idx tp) < MAX_TIMER_POOLS \<and>
        free_chain (tp_timers tp) (unat (tp_first_free tp)) fl n \<and>
        (\<exists>freed. fl = freed @ [hw..<n] \<and> set freed \<subseteq> {..<hw} \<and> distinct freed) \<and> hw \<le> n \<and> unat (tp_num_alloc tp) + length fl = n \<and>
        (\<forall>i\<in>set fl. tp_tick_buf tp ! i = \<lparr>tb_exp_tck = TMO_UNUSED, tb_tmo_buf = ODP_BUFFER_INVALID\<rparr>) \<and>
        (\<forall>i<n. i \<notin> set fl \<longrightarrow> used_ok (tp_tick_buf tp ! i)))"

lemma timer_invD:
  assumes "timer_inv tp fl"
  shows "length (tp_tick_buf tp) = unat (tpp_num_timers (tp_param tp))" "length (tp_timers tp) = unat (tpp_num_timers (tp_param tp))"
    "unat (tpp_num_timers (tp_param tp)) \<le> 2 ^ INDEX_BITS" "unat (tp_idx tp) < MAX_TIMER_POOLS"
    "free_chain (tp_timers tp) (unat (tp_first_free tp)) fl (unat (tpp_num_timers (tp_param tp)))"
    "\<exists>freed. fl = freed @ [unat (tp_high_wm tp)..<unat (tpp_num_timers (tp_param tp))] \<and> set freed \<subseteq> {..<unat (tp_high_wm tp)} \<and> distinct freed"
    "unat (tp_high_wm tp) \<le> unat (tpp_num_timers (tp_param tp))" "unat (tp_num_alloc tp) + length fl = unat (tpp_num_timers (tp_param tp))"
    "i \<in> set fl \<Longrightarrow> tp_tick_buf tp ! i = \<lparr>tb_exp_tck = TMO_UNUSED, tb_tmo_buf = ODP_BUFFER_INVALID\<rparr>"
    "i < unat (tpp_num_timers (tp_param tp)) \<Longrightarrow> i \<notin> set fl \<Longrightarrow> used_ok (tp_tick_buf tp ! i)"
    "distinct fl" "set fl \<subseteq> {..<unat (tpp_num_timers (tp_param tp))}"
proof -
  note A = assms [unfolded timer_inv_def Let_def]
  show "length (tp_tick_buf tp) = unat (tpp_num_timers (tp_param tp))" "length (tp_timers tp) = unat (tpp_num_timers (tp_param tp))"
    "unat (tpp_num_timers (tp_param tp)) \<le> 2 ^ INDEX_BITS" "unat (tp_idx tp) < MAX_TIMER_POOLS"
    "free_chain (tp_timers tp) (unat (tp_first_free tp)) fl (unat (tpp_num_timers (tp_param tp)))"
    "unat (tp_num_alloc tp) + length fl = unat (tpp_num_timers (tp_param tp))"
    "i \<in> set fl \<Longrightarrow> tp_tick_buf tp ! i = \<lparr>tb_exp_tck = TMO_UNUSED, tb_tmo_buf = ODP_BUFFER_INVALID\<rparr>"
    "i < unat (tpp_num_timers (tp_param tp)) \<Longrightarrow> i \<notin> set fl \<Longrightarrow> used_ok (tp_tick_buf tp ! i)" using A by auto
  show hw: "unat (tp_high_wm tp) \<le> unat (tpp_num_timers (tp_param tp))" using A by simp
  show f: "\<exists>freed. fl = freed @ [unat (tp_high_wm tp)..<unat (tpp_num_timers (tp_param tp))] \<and> set freed \<subseteq> {..<unat (tp_high_wm tp)} \<and> distinct freed"
    using A by simp
  then show "distinct fl" by fastforce
  show "set fl \<subseteq> {..<unat (tpp_num_timers (tp_param tp))}" using f hw by fastforce
qed

section \<open>Allocation\<close>

lemma unat_Suc:
  assumes "x < (y :: u32)"
  shows "unat (x + 1) = unat x + 1"
proof -
  have "unat x < unat y" "unat y < 2 ^ 32" using assms unsigned_less [of y, where ?'a = nat] by (simp_all add: word_less_nat_alt)
  then have "Suc (unat x) < 2 ^ 32" by linarith
  then show ?thesis by (simp add: unat_word_ariths)
qed

lemma state_of_free: "state_of \<lparr>tb_exp_tck = TMO_UNUSED, tb_tmo_buf = b\<rparr> = Timer_Free"
  by (simp add: state_of_def)

lemma idx_handle:
  assumes "timer_inv tp fl" "i < unat (tpp_num_timers (tp_param tp))"
  shows "\<exists>h. tp_idx_to_handle tp i = Inr h \<and> h \<noteq> ODP_TIMER_INVALID \<and> unat (drop_bit INDEX_BITS h) = unat (tp_idx tp) \<and>
    take_bit INDEX_BITS h = of_nat i"
proof -
  note D = timer_invD [OF assms(1)]
  have l: "i < 2 ^ INDEX_BITS" using assms(2) D(3) by simp
  show ?thesis using handle_parts [OF D(4) l] l by (simp add: tp_idx_to_handle_def assert_then_def)
qed

lemma timer_alloc_ok:
  assumes inv: "timer_inv tp (i # fl)"
  shows "\<exists>h tp'. timer_alloc q up tp = Inr (h, tp') \<and> timer_inv tp' fl \<and> tp_idx_to_handle tp' i = Inr h \<and> h \<noteq> ODP_TIMER_INVALID \<and>
    tp_tick_buf tp' = (tp_tick_buf tp)[i := \<lparr>tb_exp_tck = TMO_INACTIVE, tb_tmo_buf = ODP_BUFFER_INVALID\<rparr>] \<and>
    tp_timers tp' = (tp_timers tp)[i := \<lparr>tim_user_ptr = up, tim_queue = q\<rparr>] \<and> i < unat (tp_high_wm tp') \<and>
    tp_idx tp' = tp_idx tp \<and> tp_param tp' = tp_param tp \<and> tp_cur_tick tp' = tp_cur_tick tp \<and> tp_num_alloc tp' = tp_num_alloc tp + 1 \<and>
    tp_first_free tp' = tim_queue (tp_timers tp ! i) \<and> tp_min_rel_tck tp' = tp_min_rel_tck tp \<and> tp_max_rel_tck tp' = tp_max_rel_tck tp \<and>
    tp_name tp' = tp_name tp"
proof -
  note D = timer_invD [OF inv] let ?n = "unat (tpp_num_timers (tp_param tp))"
  have ff: "unat (tp_first_free tp) = i" "i < ?n" "i < length (tp_timers tp)" using D(2,5) by auto
  have na: "tp_num_alloc tp < tpp_num_timers (tp_param tp)" using D(8) by (simp add: word_less_nat_alt)
  then have na1: "unat (tp_num_alloc tp + 1) = unat (tp_num_alloc tp) + 1" by (rule unat_Suc)
  have fn: "tp_first_free tp \<noteq> tpp_num_timers (tp_param tp)" using ff by auto
  let ?hw = "if tp_num_alloc tp + 1 > tp_high_wm tp then tp_num_alloc tp + 1 else tp_high_wm tp"
  let ?tb = "\<lparr>tb_exp_tck = TMO_INACTIVE, tb_tmo_buf = ODP_BUFFER_INVALID\<rparr>"
  let ?tp = "tp\<lparr>tp_num_alloc := tp_num_alloc tp + 1, tp_first_free := tim_queue (tp_timers tp ! i),
    tp_timers := (tp_timers tp)[i := \<lparr>tim_user_ptr = up, tim_queue = q\<rparr>], tp_tick_buf := (tp_tick_buf tp)[i := ?tb], tp_high_wm := ?hw\<rparr>"
  have hw: "(\<exists>freed. fl = freed @ [unat ?hw..<?n] \<and> set freed \<subseteq> {..<unat ?hw} \<and> distinct freed) \<and> unat ?hw \<le> ?n \<and> i < unat ?hw"
  proof -
    from D(6) obtain freed where f: "i # fl = freed @ [unat (tp_high_wm tp)..<?n]" "set freed \<subseteq> {..<unat (tp_high_wm tp)}" "distinct freed" by blast
    show ?thesis
    proof (cases freed)
      case Nil
      then have h: "i = unat (tp_high_wm tp)" "fl = [unat (tp_high_wm tp) + 1..<?n]"
        using f(1) ff(2) D(7) by (cases "unat (tp_high_wm tp) < ?n"; simp add: upt_rec [of "unat (tp_high_wm tp)"])+
      then have "unat (tp_num_alloc tp) = unat (tp_high_wm tp)" using D(8) ff(2) by simp
      then have "unat ?hw = unat (tp_high_wm tp) + 1" using na1 by (simp add: word_less_nat_alt)
      then show ?thesis using h ff(2) by simp
    next
      case (Cons a freed')
      then have h: "a = i" "fl = freed' @ [unat (tp_high_wm tp)..<?n]" using f(1) by auto
      have "length freed \<le> unat (tp_high_wm tp)" using f(2,3) card_mono [of "{..<unat (tp_high_wm tp)}" "set freed"] by (simp add: distinct_card)
      then have "unat (tp_num_alloc tp) + 1 \<le> unat (tp_high_wm tp)" using D(7,8) h(2) Cons by simp
      then have "?hw = tp_high_wm tp" using na1 by (simp add: word_less_nat_alt)
      then show ?thesis using h f(2,3) Cons D(7) by auto
    qed
  qed
  have "free_chain (tp_timers tp) (unat (tim_queue (tp_timers tp ! i))) fl ?n" using D(5) by simp
  then have ch: "free_chain ((tp_timers tp)[i := \<lparr>tim_user_ptr = up, tim_queue = q\<rparr>]) (unat (tim_queue (tp_timers tp ! i))) fl ?n"
    by (rule free_chain_upd) (use D(11) in simp)
  have ok: "used_ok ?tb" by (simp add: used_ok_def TMO_INACTIVE_def TMO_UNUSED_def)
  have inv': "timer_inv ?tp fl"
    unfolding timer_inv_def Let_def using D(1-4,8) hw ch na1
  proof (simp, intro conjI ballI allI impI)
    fix j assume "j \<in> set fl"
    then show "(tp_tick_buf tp)[i := ?tb] ! j = \<lparr>tb_exp_tck = TMO_UNUSED, tb_tmo_buf = ODP_BUFFER_INVALID\<rparr>"
      using D(9) [of j] D(11) by (cases "j = i") auto
  next
    fix j assume "j < ?n" "j \<notin> set fl"
    then show "used_ok ((tp_tick_buf tp)[i := ?tb] ! j)" using D(1,10) ok by (cases "j = i") auto
  qed
  have il: "i < unat (tpp_num_timers (tp_param ?tp))" using ff(2) by simp
  from idx_handle [OF inv' il] obtain h where h: "tp_idx_to_handle ?tp i = Inr h" "h \<noteq> ODP_TIMER_INVALID" by blast
  have "timer_alloc q up tp = Inr (h, ?tp)"
    using na fn ff(3) h(1) unfolding timer_alloc_def assert_then_def timer_init_def get_next_free_def Let_def ff(1) prod.case by simp
  then show ?thesis using inv' h hw by (intro exI [of _ h] exI [of _ ?tp]) simp
qed

lemma timer_alloc_full:
  assumes inv: "timer_inv tp []"
  shows "timer_alloc q up tp = Inr (ODP_TIMER_INVALID, tp)"
proof -
  have "\<not> tp_num_alloc tp < tpp_num_timers (tp_param tp)" using timer_invD(8) [OF inv] by (simp add: word_less_nat_alt)
  then show ?thesis by (simp add: timer_alloc_def)
qed

lemma used_below_hw:
  assumes inv: "timer_inv tp fl" and i: "i < unat (tpp_num_timers (tp_param tp))" "i \<notin> set fl"
  shows "i < unat (tp_high_wm tp)"
  using timer_invD(6) [OF inv] i by fastforce

lemma timer_free_ok:
  assumes inv: "timer_inv tp fl" and i: "i < unat (tpp_num_timers (tp_param tp))" "i \<notin> set fl"
  shows "\<exists>tp'. timer_free i tp = Inr (tb_tmo_buf (tp_tick_buf tp ! i), tp') \<and> timer_inv tp' (i # fl) \<and>
    tp_tick_buf tp' = (tp_tick_buf tp)[i := \<lparr>tb_exp_tck = TMO_UNUSED, tb_tmo_buf = ODP_BUFFER_INVALID\<rparr>] \<and>
    tp_idx tp' = tp_idx tp \<and> tp_param tp' = tp_param tp \<and> tp_high_wm tp' = tp_high_wm tp \<and> tp_num_alloc tp' = tp_num_alloc tp - 1"
proof -
  note D = timer_invD [OF inv] let ?n = "unat (tpp_num_timers (tp_param tp))"
  have ih: "i < unat (tp_high_wm tp)" by (rule used_below_hw [OF inv i])
  have lt: "length fl < ?n"
  proof -
    have "set fl \<subset> {..<?n}" using D(12) i by auto
    then have "card (set fl) < ?n" using psubset_card_mono [of "{..<?n}" "set fl"] by simp
    then show ?thesis using D(11) by (simp add: distinct_card)
  qed
  have na: "tp_num_alloc tp \<noteq> 0" using D(8) lt by auto
  then have na1: "unat (tp_num_alloc tp - 1) = unat (tp_num_alloc tp) - 1" by (rule unat_minus_one)
  let ?tb = "\<lparr>tb_exp_tck = TMO_UNUSED, tb_tmo_buf = ODP_BUFFER_INVALID\<rparr>"
  let ?tim = "\<lparr>tim_user_ptr = NULL, tim_queue = tp_first_free tp\<rparr>"
  let ?tp = "tp\<lparr>tp_tick_buf := (tp_tick_buf tp)[i := ?tb], tp_timers := (tp_timers tp)[i := ?tim], tp_first_free := of_nat i,
    tp_num_alloc := tp_num_alloc tp - 1\<rparr>"
  have il: "i < 2 ^ 32" using i(1) D(3) by (simp add: INDEX_BITS_def)
  have un: "unat (of_nat i :: u32) = i" using il by (simp add: unat_of_nat_small)
  have il2: "i < length (tp_timers tp)" using i(1) D(2) by simp
  have ch: "free_chain ((tp_timers tp)[i := ?tim]) (unat (tp_first_free tp)) fl ?n"
    by (rule free_chain_upd [OF D(5) i(2)])
  have "timer_free i tp = Inr (tb_tmo_buf (tp_tick_buf tp ! i), ?tp)"
    using i(1) D(1) na by (simp add: timer_free_def timer_cancel_def set_tb_def timer_fini_def set_next_free_def assert_then_def)
  moreover have "timer_inv ?tp (i # fl)"
  proof -
    from D(6) obtain freed where f: "fl = freed @ [unat (tp_high_wm tp)..<?n]" "set freed \<subseteq> {..<unat (tp_high_wm tp)}" "distinct freed" by blast
    have ex: "\<exists>freed. i # fl = freed @ [unat (tp_high_wm tp)..<?n] \<and> set freed \<subseteq> {..<unat (tp_high_wm tp)} \<and> distinct freed"
      by (rule exI [of _ "i # freed"]) (use f i(2) ih in auto)
    have na2: "unat (tp_num_alloc tp - 1) + length (i # fl) = ?n" using na na1 D(8) by (simp add: unat_gt_0 [symmetric])
    have u: "\<forall>j\<in>set (i # fl). (tp_tick_buf tp)[i := ?tb] ! j = ?tb" using D(1,9) i(1) by (auto simp: nth_list_update)
    have v: "\<forall>j<?n. j \<notin> set (i # fl) \<longrightarrow> used_ok ((tp_tick_buf tp)[i := ?tb] ! j)" using D(10) by simp
    show ?thesis unfolding timer_inv_def Let_def using D(1-4,7) ex na2 u v ch un il2 by simp
  qed
  ultimately show ?thesis by (intro exI [of _ ?tp]) simp
qed

section \<open>Calls with a timer handle\<close>

definition timer_sys_ok :: "timer_sys \<Rightarrow> nat \<Rightarrow> timer_pool \<Rightarrow> nat list \<Rightarrow> bool" where
  "timer_sys_ok ts p tp fl \<longleftrightarrow> length (ts_pools ts) = MAX_TIMER_POOLS \<and> p < MAX_TIMER_POOLS \<and> ts_pools ts ! p = Some tp \<and>
    unat (tp_idx tp) = p \<and> timer_inv tp fl"

text \<open>The handle of a timer that is in use.\<close>

definition timer_handle :: "timer_pool \<Rightarrow> nat list \<Rightarrow> nat \<Rightarrow> u32 \<Rightarrow> bool" where
  "timer_handle tp fl i h \<longleftrightarrow> i < unat (tpp_num_timers (tp_param tp)) \<and> i \<notin> set fl \<and> tp_idx_to_handle tp i = Inr h"

lemma get_tp_ok: "timer_sys_ok ts p tp fl \<Longrightarrow> get_tp ts p = Inr tp"
  by (simp add: timer_sys_ok_def get_tp_def)

lemma put_tp_ok:
  "timer_sys_ok ts p tp fl \<Longrightarrow> timer_inv tp' fl' \<Longrightarrow> tp_idx tp' = tp_idx tp \<Longrightarrow> ts_pools ts' = ts_pools ts \<Longrightarrow> timer_sys_ok (put_tp p tp' ts') p tp' fl'"
  by (simp add: timer_sys_ok_def put_tp_def)

lemma with_timer_ok:
  assumes ok: "timer_sys_ok ts p tp fl" and h: "timer_handle tp fl i h"
  shows "with_timer h ts f = f p tp i"
proof -
  have inv: "timer_inv tp fl" and p: "unat (tp_idx tp) = p" "p < MAX_TIMER_POOLS" "ts_pools ts ! p = Some tp" using ok by (simp_all add: timer_sys_ok_def)
  have i: "i < unat (tpp_num_timers (tp_param tp))" "i \<notin> set fl" "tp_idx_to_handle tp i = Inr h" using h by (simp_all add: timer_handle_def)
  from idx_handle [OF inv i(1)] i(3) have q: "unat (drop_bit INDEX_BITS h) = p" "take_bit INDEX_BITS h = of_nat i" using p(1) by auto
  have il: "unat (of_nat i :: u32) = i" using i(1) timer_invD(3) [OF inv] by (intro unat_of_nat_small) (simp add: INDEX_BITS_def)
  have lt: "of_nat i < tp_high_wm tp" using used_below_hw [OF inv i(1,2)] il by (simp add: word_less_nat_alt)
  have "handle_to_tp ts h = Inr p" using q(1) p by (simp add: handle_to_tp_def)
  moreover have "handle_to_idx h tp = Inr i" using q(2) il lt by (simp add: handle_to_idx_def)
  ultimately show ?thesis using get_tp_ok [OF ok] by (simp add: with_timer_def)
qed

section \<open>Setting a timer\<close>

text \<open>What a timer that is set promises, on its abstract state: the code, the timeout variable of the caller, the new state.\<close>

fun timeout_of :: "timer_state \<Rightarrow> u32" where
  "timeout_of (Timer_Set t b) = b"
| "timeout_of _ = ODP_BUFFER_INVALID"

fun set_spec :: "bool \<Rightarrow> bool \<Rightarrow> u64 \<Rightarrow> u32 option \<Rightarrow> timer_state \<Rightarrow> (int \<times> u32 option) \<times> timer_state" where
  "set_spec early late t ev st =
    (if early then ((ODP_TIMER_TOOEARLY, ev), st)
     else if late then ((ODP_TIMER_TOOLATE, ev), st)
     else case tmo_arg ev of
       None \<Rightarrow> (case st of Timer_Set _ b \<Rightarrow> ((ODP_TIMER_SUCCESS, ev), Timer_Set t b) | _ \<Rightarrow> ((ODP_TIMER_NOEVENT, ev), st))
     | Some b \<Rightarrow> ((ODP_TIMER_SUCCESS, Some (timeout_of st)), Timer_Set t b))"

fun cancel_spec :: "timer_state \<Rightarrow> (int \<times> u32 option) \<times> timer_state" where
  "cancel_spec (Timer_Set t b) = ((0, Some b), Timer_Idle)"
| "cancel_spec st = ((-1, None), Timer_Idle)"

lemma used_state:
  assumes "used_ok tb"
  shows "state_of tb = (if tb_tmo_buf tb = ODP_BUFFER_INVALID then Timer_Idle else Timer_Set (tb_exp_tck tb) (tb_tmo_buf tb))"
    "timeout_of (state_of tb) = tb_tmo_buf tb"
  using assms by (auto simp: state_of_def used_ok_def)

lemma timer_inv_set_tb:
  assumes inv: "timer_inv tp fl" and i: "i < unat (tpp_num_timers (tp_param tp))" "i \<notin> set fl" and tb: "used_ok tb"
  shows "timer_inv (set_tb i tb tp) fl"
proof -
  note D = timer_invD [OF inv]
  have "\<forall>j\<in>set fl. (tp_tick_buf tp)[i := tb] ! j = \<lparr>tb_exp_tck = TMO_UNUSED, tb_tmo_buf = ODP_BUFFER_INVALID\<rparr>"
    using D(9) i(2) by (metis nth_list_update_neq)
  moreover have "\<forall>j<unat (tpp_num_timers (tp_param tp)). j \<notin> set fl \<longrightarrow> used_ok ((tp_tick_buf tp)[i := tb] ! j)"
    using D(1,10) tb i(1) by (simp add: nth_list_update)
  ultimately show ?thesis using D(1-8) by (simp add: timer_inv_def Let_def set_tb_def)
qed

lemma timer_handle_set_tb: "timer_handle tp fl i h \<Longrightarrow> timer_handle (set_tb j tb tp) fl i h"
  by (simp add: timer_handle_def set_tb_def tp_idx_to_handle_def)

lemma set_tb_sel [simp]: "tp_tick_buf (set_tb i tb tp) = (tp_tick_buf tp)[i := tb]" "tp_idx (set_tb i tb tp) = tp_idx tp"
  "tp_param (set_tb i tb tp) = tp_param tp" "tp_timers (set_tb i tb tp) = tp_timers tp" "tp_cur_tick (set_tb i tb tp) = tp_cur_tick tp"
  by (simp_all add: set_tb_def)

text \<open>A timeout that a caller may set: a valid buffer.\<close>

definition tmo_ok :: "timer_sys \<Rightarrow> u32 option \<Rightarrow> bool" where
  "tmo_ok ts ev \<longleftrightarrow> (case tmo_arg ev of None \<Rightarrow> True | Some b \<Rightarrow> \<exists>a. odp_buf_to_hdr (base (ts_sys ts)) b = Inr a)"

lemma tmo_arg_valid: "tmo_arg ev = Some b \<Longrightarrow> b \<noteq> ODP_BUFFER_INVALID"
  by (auto simp: tmo_arg_def split: option.splits if_splits)

lemma timer_set_ok:
  assumes ok: "timer_sys_ok ts p tp fl" and h: "timer_handle tp fl i h" and ev: "tmo_ok ts ev"
    and t: "\<not> early tp \<Longrightarrow> \<not> late tp \<Longrightarrow> abs_tck tp < TMO_INACTIVE"
  shows "\<exists>ts' tp'. timer_set h abs_tck early late ev ts = Inr (fst (set_spec (early tp) (late tp) (abs_tck tp) ev (timer_st tp i)), ts') \<and>
    timer_sys_ok ts' p tp' fl \<and> timer_handle tp' fl i h \<and> timer_st tp' i = snd (set_spec (early tp) (late tp) (abs_tck tp) ev (timer_st tp i)) \<and>
    (\<forall>j. j \<noteq> i \<longrightarrow> tp_tick_buf tp' ! j = tp_tick_buf tp ! j) \<and> tp_timers tp' = tp_timers tp \<and> ts_sys ts' = ts_sys ts"
proof -
  have inv: "timer_inv tp fl" using ok by (simp add: timer_sys_ok_def)
  note D = timer_invD [OF inv]
  have i: "i < unat (tpp_num_timers (tp_param tp))" "i \<notin> set fl" "tp_idx_to_handle tp i = Inr h" using h by (simp_all add: timer_handle_def)
  let ?tb = "tp_tick_buf tp ! i"
  have u: "used_ok ?tb" by (rule D(10) [OF i(1,2)])
  have il: "i < length (tp_tick_buf tp)" using i(1) D(1) by simp
  note W = with_timer_ok [OF ok h]
  show ?thesis
  proof (cases "early tp \<or> late tp")
    case True
    then show ?thesis using ok h by (auto simp: timer_set_def W)
  next
    case False
    then have tt: "abs_tck tp < TMO_INACTIVE" using t by simp
    then have nu: "abs_tck tp \<noteq> TMO_UNUSED" by (auto simp: TMO_INACTIVE_def TMO_UNUSED_def)
    show ?thesis
    proof (cases "tmo_arg ev")
      case None
      show ?thesis
      proof (cases "tb_tmo_buf ?tb = ODP_BUFFER_INVALID")
        case b: True
        then show ?thesis using ok h False None used_state(1) [OF u] by (auto simp: timer_set_def W timer_reset_def)
      next
        case b: False
        let ?n = "?tb\<lparr>tb_exp_tck := abs_tck tp\<rparr>"
        have un: "used_ok ?n" using b tt nu by (auto simp: used_ok_def)
        have "timer_set h abs_tck early late ev ts = Inr ((ODP_TIMER_SUCCESS, ev), put_tp p (set_tb i ?n tp) ts)"
          using False None b by (simp add: timer_set_def W timer_reset_def)
        moreover have "timer_sys_ok (put_tp p (set_tb i ?n tp) ts) p (set_tb i ?n tp) fl"
          by (rule put_tp_ok [OF ok timer_inv_set_tb [OF inv i(1,2) un]]) simp_all
        ultimately show ?thesis
          using False None b used_state(1) [OF u] used_state(1) [OF un] il timer_handle_set_tb [OF h]
          by (intro exI [of _ "put_tp p (set_tb i ?n tp) ts"] exI [of _ "set_tb i ?n tp"]) (simp add: put_tp_def)
      qed
    next
      case (Some b)
      let ?n = "\<lparr>tb_exp_tck = abs_tck tp, tb_tmo_buf = b\<rparr>"
      have bv: "b \<noteq> ODP_BUFFER_INVALID" by (rule tmo_arg_valid [OF Some])
      have un: "used_ok ?n" using bv tt nu by (auto simp: used_ok_def)
      from ev Some obtain a where a: "odp_buf_to_hdr (base (ts_sys ts)) b = Inr a" by (auto simp: tmo_ok_def)
      then have ty: "odp_event_type (base (ts_sys ts)) b = Inr (bh_event_type (bhdr (sys_heap (ts_sys ts)) a))"
        by (simp add: odp_event_type_def odp_buffer_event_type_def)
      define ts1 where "ts1 = (if bh_event_type (bhdr (sys_heap (ts_sys ts)) a) = ODP_EVENT_TIMEOUT
        then ts\<lparr>ts_tmo := (ts_tmo ts)(a := (ts_tmo ts a)\<lparr>tmo_timer := h, tmo_user_ptr := tim_user_ptr (tp_timers tp ! i)\<rparr>)\<rparr> else ts)"
      have ts1: "ts_pools ts1 = ts_pools ts" "ts_sys ts1 = ts_sys ts" by (simp_all add: ts1_def)
      have "timer_set h abs_tck early late ev ts = Inr ((ODP_TIMER_SUCCESS, Some (tb_tmo_buf ?tb)), put_tp p (set_tb i ?n tp) ts1)"
        using False Some a ty i(3) by (simp add: timer_set_def W timer_reset_def ts1_def)
      moreover have "timer_sys_ok (put_tp p (set_tb i ?n tp) ts1) p (set_tb i ?n tp) fl"
        by (rule put_tp_ok [OF ok timer_inv_set_tb [OF inv i(1,2) un]]) (simp_all add: ts1)
      ultimately show ?thesis
        using False Some bv used_state(2) [OF u] used_state(1) [OF un] il timer_handle_set_tb [OF h] ts1
        by (intro exI [of _ "put_tp p (set_tb i ?n tp) ts1"] exI [of _ "set_tb i ?n tp"]) (simp add: put_tp_def)
    qed
  qed
qed

lemma timer_cancel_ok:
  assumes ok: "timer_sys_ok ts p tp fl" and h: "timer_handle tp fl i h"
  shows "\<exists>ts' tp'. odp_timer_cancel h ts = Inr (fst (cancel_spec (timer_st tp i)), ts') \<and>
    timer_sys_ok ts' p tp' fl \<and> timer_handle tp' fl i h \<and> timer_st tp' i = snd (cancel_spec (timer_st tp i)) \<and>
    (\<forall>j. j \<noteq> i \<longrightarrow> tp_tick_buf tp' ! j = tp_tick_buf tp ! j) \<and> tp_timers tp' = tp_timers tp \<and> ts_sys ts' = ts_sys ts"
proof -
  have inv: "timer_inv tp fl" using ok by (simp add: timer_sys_ok_def)
  note D = timer_invD [OF inv]
  have i: "i < unat (tpp_num_timers (tp_param tp))" "i \<notin> set fl" using h by (simp_all add: timer_handle_def)
  have u: "used_ok (tp_tick_buf tp ! i)" by (rule D(10) [OF i])
  let ?n = "\<lparr>tb_exp_tck = TMO_INACTIVE, tb_tmo_buf = ODP_BUFFER_INVALID\<rparr>"
  have un: "used_ok ?n" by (simp add: used_ok_def TMO_INACTIVE_def TMO_UNUSED_def)
  have "timer_sys_ok (put_tp p (set_tb i ?n tp) ts) p (set_tb i ?n tp) fl"
    by (rule put_tp_ok [OF ok timer_inv_set_tb [OF inv i un]]) simp_all
  moreover have "odp_timer_cancel h ts = Inr (fst (cancel_spec (timer_st tp i)), put_tp p (set_tb i ?n tp) ts)"
    using used_state(1) [OF u] by (auto simp: odp_timer_cancel_def with_timer_ok [OF ok h] timer_cancel_def)
  moreover have "snd (cancel_spec (timer_st tp i)) = Timer_Idle" by (cases "timer_st tp i") simp_all
  ultimately show ?thesis
    using used_state(1) [OF un] i(1) D(1) timer_handle_set_tb [OF h]
    by (intro exI [of _ "put_tp p (set_tb i ?n tp) ts"] exI [of _ "set_tb i ?n tp"]) (simp add: put_tp_def)
qed

section \<open>Where timeouts go\<close>

text \<open>
  What a timer needs of the queues it sends its timeouts to: an enqueue of a header that no queue has succeeds, appends it and leaves the
  other queues alone. \<open>rep\<close> relates the state to the contents of the queues, \<open>own\<close> are the headers the queues have.
\<close>

locale event_sink =
  fixes rep :: "odp_sys \<Rightarrow> (nat \<Rightarrow> addr list) \<Rightarrow> bool" and own :: "odp_sys \<Rightarrow> (nat \<Rightarrow> addr list) \<Rightarrow> addr set" and dests :: "nat set"
  assumes enq: "\<lbrakk>rep sys L; j \<in> dests; queue_to_qentry sys h = Inr j; odp_buf_to_hdr (base sys) ev = Inr a; a \<noteq> NULL; a \<notin> own sys L\<rbrakk> \<Longrightarrow>
    \<exists>sys' L'. odp_queue_enq dev h ev sys = Inr (0, sys') \<and> rep sys' L' \<and> own sys' L' \<subseteq> insert a (own sys L) \<and> sys_same sys sys' \<and>
      (\<forall>k\<in>dests. L' k = (if k = j then L k @ [a] else L k))"

text \<open>Polled queues.\<close>

definition polled_rep :: "nat set \<Rightarrow> odp_sys \<Rightarrow> (nat \<Rightarrow> addr list) \<Rightarrow> bool" where
  "polled_rep D sys L \<longleftrightarrow> queues_rep sys L \<and>
    (\<forall>j\<in>D. j < length (queue_tbl sys) \<and> q_funcs (qentry sys j) = Queue_Funcs \<and> live_queue (qentry sys j) \<and>
      q_status (qentry sys j) \<noteq> QUEUE_STATUS_NOTSCHED)"

interpretation polled: event_sink "polled_rep D" in_queues D for D
proof
  fix sys L j h ev a dev
  assume r: "polled_rep D sys L" and j: "j \<in> D" "queue_to_qentry sys h = Inr j"
    and a: "odp_buf_to_hdr (base sys) ev = Inr a" "a \<noteq> NULL" "a \<notin> in_queues sys L"
  have q: "j < length (queue_tbl sys)" "q_funcs (qentry sys j) = Queue_Funcs" "live_queue (qentry sys j)"
    "q_status (qentry sys j) \<noteq> QUEUE_STATUS_NOTSCHED" "queues_rep sys L" using r j(1) by (simp_all add: polled_rep_def)
  from odp_queue_enq_plain [OF q(5,1) j(2) q(2-4) a] obtain sys' where
    s: "odp_queue_enq dev h ev sys = Inr (0, sys')" "queues_rep sys' (L(j := L j @ [a]))" "sys_same sys sys'"
    "\<forall>k. q_status (qentry sys' k) = q_status (qentry sys k)" by blast
  have "polled_rep D sys' (L(j := L j @ [a]))"
    using r s(2-4) queue_sameD(1) by (auto simp: polled_rep_def sys_same_def live_queue_def)
  moreover have "in_queues sys' (L(j := L j @ [a])) = insert a (in_queues sys L)"
    unfolding sys_same_reads(6) [OF s(3)] by (rule in_queues_snoc [OF q(1)])
  ultimately show "\<exists>sys' L'. odp_queue_enq dev h ev sys = Inr (0, sys') \<and> polled_rep D sys' L' \<and> in_queues sys' L' \<subseteq> insert a (in_queues sys L) \<and>
      sys_same sys sys' \<and> (\<forall>k\<in>D. L' k = (if k = j then L k @ [a] else L k))"
    using s(1,3) by (intro exI [of _ sys'] exI [of _ "L(j := L j @ [a])"]) auto
qed

text \<open>Scheduled queues: the scheduler learns of the event.\<close>

definition scheduled_rep :: "sched_map \<Rightarrow> (nat \<Rightarrow> nat option) \<Rightarrow> odp_sys \<Rightarrow> (nat \<Rightarrow> addr list) \<Rightarrow> bool" where
  "scheduled_rep M H sys L \<longleftrightarrow> sched_inv M sys L H \<and> (\<forall>j\<in>sm_queues M. q_funcs (qentry sys j) = Queue_Funcs)"

definition scheduled_own :: "sched_map \<Rightarrow> odp_sys \<Rightarrow> (nat \<Rightarrow> addr list) \<Rightarrow> addr set" where
  "scheduled_own M sys L = in_queues sys L \<union> sm_cmd M ` sm_queues M"

lemma sched_enqueued_own:
  assumes "sched_static M sys" "i \<in> sm_queues M"
  shows "scheduled_own M sys (sched_enqueued M sys i a L) \<subseteq> insert a (scheduled_own M sys L)"
    and "k \<in> sm_queues M \<Longrightarrow> sched_enqueued M sys i a L k = (if k = i then L k @ [a] else L k)"
proof -
  note D = sched_queueD [OF assms]
  show "scheduled_own M sys (sched_enqueued M sys i a L) \<subseteq> insert a (scheduled_own M sys L)"
    using assms(2) D(1) by (auto simp: scheduled_own_def in_queues_def sched_enqueued_def Let_def split: if_splits)
  show "k \<in> sm_queues M \<Longrightarrow> sched_enqueued M sys i a L k = (if k = i then L k @ [a] else L k)"
    using static_disjoint [OF assms(1)] D(9,12) by (auto simp: sched_enqueued_def Let_def)
qed

interpretation scheduled: event_sink "scheduled_rep M H" "scheduled_own M" "sm_queues M" for M H
proof
  fix sys L j h ev a dev
  assume r: "scheduled_rep M H sys L" and j: "j \<in> sm_queues M" "queue_to_qentry sys h = Inr j"
    and a: "odp_buf_to_hdr (base sys) ev = Inr a" "a \<noteq> NULL" "a \<notin> scheduled_own M sys L"
  have i: "sched_inv M sys L H" and f: "q_funcs (qentry sys j) = Queue_Funcs" using r j(1) by (simp_all add: scheduled_rep_def)
  have a': "a \<notin> in_queues sys L" "a \<notin> sm_cmd M ` sm_queues M" using a(3) by (auto simp: scheduled_own_def)
  from odp_queue_enq_sched [OF i j f a(1,2) a'] obtain sys' where
    s: "odp_queue_enq dev h ev sys = Inr (0, sys')" "sched_inv M sys' (sched_enqueued M sys j a L) H" "sys_same sys sys'" by blast
  note st = sched_invD(2) [OF i]
  have "q_funcs (qentry sys' k) = Queue_Funcs" if "k \<in> sm_queues M" for k
    using r that s(3) queue_sameD(1) [of "qentry sys k" "qentry sys' k"] sched_queueD(1) [OF st that] by (simp add: scheduled_rep_def sys_same_def)
  then have "scheduled_rep M H sys' (sched_enqueued M sys j a L)" using s(2) by (simp add: scheduled_rep_def)
  moreover have "scheduled_own M sys' (sched_enqueued M sys j a L) \<subseteq> insert a (scheduled_own M sys L)"
    using sched_enqueued_own(1) [OF st j(1)] by (simp add: scheduled_own_def sys_same_reads(6) [OF s(3)])
  ultimately show "\<exists>sys' L'. odp_queue_enq dev h ev sys = Inr (0, sys') \<and> scheduled_rep M H sys' L' \<and> scheduled_own M sys' L' \<subseteq> insert a (scheduled_own M sys L) \<and>
      sys_same sys sys' \<and> (\<forall>k\<in>sm_queues M. L' k = (if k = j then L k @ [a] else L k))"
    using s(1,3) sched_enqueued_own(2) [OF st j(1)] by (intro exI [of _ sys'] exI [of _ "sched_enqueued M sys j a L"]) simp
qed

section \<open>Expiration\<close>

definition armed :: "timer_pool \<Rightarrow> nat \<Rightarrow> bool" where
  "armed tp i \<longleftrightarrow> tb_tmo_buf (tp_tick_buf tp ! i) \<noteq> ODP_BUFFER_INVALID"

definition due :: "timer_pool \<Rightarrow> u64 \<Rightarrow> nat \<Rightarrow> bool" where
  "due tp tick i \<longleftrightarrow> armed tp i \<and> tb_exp_tck (tp_tick_buf tp ! i) \<le> tick"

text \<open>The header of the timeout of a timer that is set, and the queue it goes to.\<close>

definition tmo_addr :: "odp_sys \<Rightarrow> timer_pool \<Rightarrow> nat \<Rightarrow> c_error + addr" where
  "tmo_addr sys tp i = odp_buf_to_hdr (base sys) (tb_tmo_buf (tp_tick_buf tp ! i))"

definition tmo_dest :: "odp_sys \<Rightarrow> timer_pool \<Rightarrow> nat \<Rightarrow> c_error + nat" where
  "tmo_dest sys tp i = queue_to_qentry sys (tim_queue (tp_timers tp ! i))"

text \<open>The timeouts of the timers that are set are different buffers, in no queue, and have a queue to go to.\<close>

definition timeouts_owned :: "addr set \<Rightarrow> nat set \<Rightarrow> odp_sys \<Rightarrow> timer_pool \<Rightarrow> nat set \<Rightarrow> bool" where
  "timeouts_owned own dests sys tp I \<longleftrightarrow>
    (\<forall>i\<in>I. armed tp i \<longrightarrow> (\<exists>a j. tmo_addr sys tp i = Inr a \<and> a \<noteq> NULL \<and> a \<notin> own \<and> tmo_dest sys tp i = Inr j \<and> j \<in> dests)) \<and>
    inj_on (tmo_addr sys tp) {i \<in> I. armed tp i}"

definition expired_tb :: "tick_buf \<Rightarrow> tick_buf" where
  "expired_tb tb = \<lparr>tb_exp_tck = tb_exp_tck tb OR TMO_INACTIVE, tb_tmo_buf = ODP_BUFFER_INVALID\<rparr>"

lemma expired_used:
  assumes "tb_exp_tck tb < TMO_INACTIVE - 1"
  shows "used_ok (expired_tb tb)" "state_of (expired_tb tb) = Timer_Idle"
    "tb_exp_tck (expired_tb tb) AND NOT TMO_INACTIVE = tb_exp_tck tb"
proof -
  let ?e = "tb_exp_tck tb"
  have lt: "uint ?e < 2 ^ 63 - 1" using assms by (simp add: TMO_INACTIVE_def word_less_def)
  have t: "TMO_INACTIVE = push_bit 63 1" by (simp add: TMO_INACTIVE_def)
  have p: "bit TMO_INACTIVE n \<longleftrightarrow> n = 63" for n unfolding t bit_push_bit_iff by (auto simp: bit_1_iff)
  have "uint ?e div 2 ^ 63 = 0" using lt by simp
  then have "\<not> bit (uint ?e) 63" by (simp add: bit_iff_odd)
  then have b: "\<not> bit ?e 63" by (simp add: bit_uint_iff)
  have "?e OR TMO_INACTIVE = ?e + 2 ^ 63"
  proof -
    have "?e AND TMO_INACTIVE = 0" by (rule bit_word_eqI) (use b in \<open>auto simp: p bit_simps\<close>)
    then show ?thesis using disjunctive_add_eq_or [of ?e TMO_INACTIVE] by (simp add: TMO_INACTIVE_def)
  qed
  then have u: "uint (?e OR TMO_INACTIVE) = uint ?e + 2 ^ 63" using lt by (simp add: uint_plus_if' )
  have n: "?e OR TMO_INACTIVE \<noteq> TMO_UNUSED" "TMO_INACTIVE \<le> ?e OR TMO_INACTIVE"
    using u lt by (auto simp: TMO_UNUSED_def TMO_INACTIVE_def word_le_def)
  then show "used_ok (expired_tb tb)" "state_of (expired_tb tb) = Timer_Idle" by (simp_all add: used_ok_def expired_tb_def state_of_def)
  show "tb_exp_tck (expired_tb tb) AND NOT TMO_INACTIVE = ?e"
    by (rule bit_word_eqI) (use b in \<open>auto simp: expired_tb_def p bit_simps\<close>)
qed

lemma event_type_same:
  assumes "sys_same sys sys'"
  shows "odp_event_type (base sys') b = odp_event_type (base sys) b"
proof -
  have n: "next_only UNIV (sys_heap sys) (sys_heap sys')" using assms by (simp add: sys_same_def)
  have "bh_event_type (bhdr (sys_heap sys') a) = bh_event_type (bhdr (sys_heap sys) a)" for a
  proof -
    have "buf_hdr (buf_hdr_map (\<lambda>b. b\<lparr>bh_next := NULL\<rparr>) (hdrs (sys_heap sys') a)) = buf_hdr (buf_hdr_map (\<lambda>b. b\<lparr>bh_next := NULL\<rparr>) (hdrs (sys_heap sys) a))"
      using n by (simp add: next_only_def)
    then have "(bhdr (sys_heap sys') a)\<lparr>bh_next := NULL\<rparr> = (bhdr (sys_heap sys) a)\<lparr>bh_next := NULL\<rparr>" by simp
    then show ?thesis by (metis odp_buffer_hdr.select_convs odp_buffer_hdr.surjective odp_buffer_hdr.update_convs(1))
  qed
  then show ?thesis
    by (cases "odp_buf_to_hdr (base sys) b") (simp_all add: odp_event_type_def odp_buffer_event_type_def sys_same_reads(2) [OF assms])
qed

lemma armed_used:
  assumes "timer_inv tp fl" "i < unat (tpp_num_timers (tp_param tp))" "armed tp i"
  shows "i \<notin> set fl" "used_ok (tp_tick_buf tp ! i)"
proof -
  show f: "i \<notin> set fl" using timer_invD(9) [OF assms(1), of i] assms(3) by (auto simp: armed_def)
  show "used_ok (tp_tick_buf tp ! i)" by (rule timer_invD(10) [OF assms(1,2) f])
qed

lemma tmo_same:
  assumes "sys_same sys sys'"
  shows "tmo_addr sys' tp i = tmo_addr sys tp i" "tmo_dest sys' tp i = tmo_dest sys tp i"
  by (simp_all add: tmo_addr_def tmo_dest_def sys_same_reads [OF assms])

lemma tmo_set_tb:
  assumes "k \<noteq> i"
  shows "armed (set_tb i tb tp) k = armed tp k" "due (set_tb i tb tp) tick k = due tp tick k" "tmo_addr sys (set_tb i tb tp) k = tmo_addr sys tp k"
    "tmo_dest sys (set_tb i tb tp) k = tmo_dest sys tp k"
  using assms by (simp_all add: armed_def due_def tmo_addr_def tmo_dest_def)

text \<open>The timeouts that are left when one went into a queue.\<close>

lemma timeouts_owned_step:
  assumes o: "timeouts_owned own dests sys tp (insert i I)" and i: "i \<notin> I" "armed tp i" "tmo_addr sys tp i = Inr a"
    and s: "sys_same sys sys'" and own': "own' \<subseteq> insert a own"
  shows "timeouts_owned own' dests sys' (set_tb i tb tp) I"
proof -
  have ne: "k \<noteq> i" if "k \<in> I" for k using that i(1) by auto
  have inj: "inj_on (tmo_addr sys tp) {k \<in> insert i I. armed tp k}" using o by (simp add: timeouts_owned_def)
  have "\<exists>b j. tmo_addr sys tp k = Inr b \<and> b \<noteq> NULL \<and> b \<notin> own' \<and> tmo_dest sys tp k = Inr j \<and> j \<in> dests" if k: "k \<in> I" "armed tp k" for k
  proof -
    from o k obtain b j where b: "tmo_addr sys tp k = Inr b" "b \<noteq> NULL" "b \<notin> own" "tmo_dest sys tp k = Inr j" "j \<in> dests"
      unfolding timeouts_owned_def by blast
    have "b \<noteq> a" using inj_onD [OF inj, of k i] b(1) i k ne [OF k(1)] by auto
    then show ?thesis using b own' by auto
  qed
  moreover have "inj_on (tmo_addr sys tp) {k \<in> I. armed tp k}" by (rule inj_on_subset [OF inj]) auto
  moreover have "{k \<in> I. armed (set_tb i tb tp) k} = {k \<in> I. armed tp k}" using tmo_set_tb(1) ne by auto
  moreover have "inj_on (tmo_addr sys (set_tb i tb tp)) {k \<in> I. armed tp k} = inj_on (tmo_addr sys tp) {k \<in> I. armed tp k}"
    by (rule inj_on_cong) (use tmo_set_tb(3) ne in auto)
  moreover have "tmo_addr sys' (set_tb i tb tp) = tmo_addr sys (set_tb i tb tp)" by (rule ext) (simp add: tmo_same [OF s])
  ultimately show ?thesis using tmo_set_tb ne by (simp add: timeouts_owned_def tmo_same(2) [OF s])
qed

lemma timeouts_owned_mono: "timeouts_owned own dests sys tp I \<Longrightarrow> J \<subseteq> I \<Longrightarrow> timeouts_owned own dests sys tp J"
  unfolding timeouts_owned_def by (blast intro: inj_on_subset)

text \<open>The fields of a timeout after the expiration of its timer.\<close>

definition stamped :: "timer_sys \<Rightarrow> timer_sys \<Rightarrow> timer_pool \<Rightarrow> nat list \<Rightarrow> bool" where
  "stamped ts ts' tp is \<longleftrightarrow>
    (\<forall>a. (\<forall>i\<in>set is. tmo_addr (ts_sys ts) tp i \<noteq> Inr a) \<longrightarrow> ts_tmo ts' a = ts_tmo ts a) \<and>
    (\<forall>i\<in>set is. \<forall>a. tmo_addr (ts_sys ts) tp i = Inr a \<longrightarrow>
      odp_event_type (base (ts_sys ts)) (tb_tmo_buf (tp_tick_buf tp ! i)) = Inr ODP_EVENT_TIMEOUT \<longrightarrow>
      ts_tmo ts' a = (ts_tmo ts a)\<lparr>tmo_expiration := tb_exp_tck (tp_tick_buf tp ! i)\<rparr>)"

context event_sink
begin

lemma timer_expire_step:
  assumes rep: "rep (ts_sys ts) L" and ok: "timer_sys_ok ts p tp fl" and i: "i < unat (tpp_num_timers (tp_param tp))" "due tp tick i"
    and t: "tick < TMO_INACTIVE - 1" and own: "timeouts_owned (own (ts_sys ts) L) dests (ts_sys ts) tp I" "i \<in> I"
  shows "\<exists>ts' L' a j. timer_expire dev p i tick ts = Inr (1, ts') \<and> timer_sys_ok ts' p (set_tb i (expired_tb (tp_tick_buf tp ! i)) tp) fl \<and>
    rep (ts_sys ts') L' \<and> own (ts_sys ts') L' \<subseteq> insert a (own (ts_sys ts) L) \<and> sys_same (ts_sys ts) (ts_sys ts') \<and>
    tmo_addr (ts_sys ts) tp i = Inr a \<and> tmo_dest (ts_sys ts) tp i = Inr j \<and> (\<forall>k\<in>dests. L' k = (if k = j then L k @ [a] else L k)) \<and>
    stamped ts ts' tp [i]"
proof -
  let ?tb = "tp_tick_buf tp ! i" and ?sys = "ts_sys ts"
  have arm: "armed tp i" and le: "tb_exp_tck ?tb \<le> tick" using i(2) by (simp_all add: due_def)
  have inv: "timer_inv tp fl" using ok by (simp add: timer_sys_ok_def)
  note U = armed_used [OF inv i(1) arm]
  have lt: "tb_exp_tck ?tb < TMO_INACTIVE - 1" using le t by (rule le_less_trans)
  let ?tp = "set_tb i (expired_tb ?tb) tp" let ?ts1 = "put_tp p ?tp ts"
  have ok1: "timer_sys_ok ?ts1 p ?tp fl"
    by (rule put_tp_ok [OF ok timer_inv_set_tb [OF inv i(1) U(1) expired_used(1) [OF lt]]]) simp_all
  from own arm obtain a j where a: "tmo_addr ?sys tp i = Inr a" "a \<noteq> NULL" "a \<notin> own ?sys L" "tmo_dest ?sys tp i = Inr j" "j \<in> dests"
    unfolding timeouts_owned_def by blast
  from enq [OF rep a(5) a(4) [unfolded tmo_dest_def] a(1) [unfolded tmo_addr_def] a(2,3)] obtain sys' L' where
    e: "odp_queue_enq dev (tim_queue (tp_timers tp ! i)) (tb_tmo_buf ?tb) ?sys = Inr (0, sys')" "rep sys' L'"
    "own sys' L' \<subseteq> insert a (own ?sys L)" "sys_same ?sys sys'" "\<forall>k\<in>dests. L' k = (if k = j then L k @ [a] else L k)" by blast
  let ?ty = "bh_event_type (bhdr (sys_heap ?sys) a)"
  have ty: "odp_event_type (base ?sys) (tb_tmo_buf ?tb) = Inr ?ty"
    using a(1) by (simp add: tmo_addr_def odp_event_type_def odp_buffer_event_type_def)
  define ts2 where "ts2 = (if ?ty = ODP_EVENT_TIMEOUT then ?ts1\<lparr>ts_tmo := (ts_tmo ts)(a := (ts_tmo ts a)\<lparr>tmo_expiration := tb_exp_tck ?tb\<rparr>)\<rparr> else ?ts1)"
  have s2: "ts_sys ts2 = ?sys" "ts_pools ts2 = ts_pools ?ts1" by (simp_all add: ts2_def put_tp_def)
  have x: "expire_locked i tick tp = ((tb_exp_tck ?tb, tb_tmo_buf ?tb), ?tp)"
    using arm le by (simp add: expire_locked_def armed_def expired_tb_def Let_def)
  have "timer_expire dev p i tick ts = Inr (1, ts2\<lparr>ts_sys := sys'\<rparr>)"
    using arm ty a(1) e(1) s2(1) unfolding timer_expire_def get_tp_ok [OF ok] and_then_simps x Let_def prod.case
    by (simp add: armed_def tmo_addr_def put_tp_def ts2_def)
  moreover have "timer_sys_ok (ts2\<lparr>ts_sys := sys'\<rparr>) p ?tp fl" using ok1 s2 by (simp add: timer_sys_ok_def)
  moreover have "stamped ts (ts2\<lparr>ts_sys := sys'\<rparr>) tp [i]" using a(1) ty by (simp add: stamped_def ts2_def put_tp_def)
  ultimately show ?thesis using a e by (intro exI [of _ "ts2\<lparr>ts_sys := sys'\<rparr>"] exI [of _ L'] exI [of _ a] exI [of _ j]) simp
qed

end

lemma timer_expire_not_due:
  assumes ok: "timer_sys_ok ts p tp fl" and i: "\<not> due tp tick i"
  shows "(if tb_exp_tck (tp_tick_buf tp ! i) \<le> tick then timer_expire dev p i tick ts else Inr (0, ts)) = Inr (0, ts)"
proof (cases "tb_exp_tck (tp_tick_buf tp ! i) \<le> tick")
  case True
  then have "expire_locked i tick tp = ((tb_exp_tck (tp_tick_buf tp ! i), ODP_BUFFER_INVALID), tp)"
    using i by (simp add: due_def armed_def expire_locked_def Let_def)
  moreover have "put_tp p tp ts = ts" using ok list_update_id [of "ts_pools ts" p] by (simp add: timer_sys_ok_def put_tp_def)
  ultimately show ?thesis using True by (simp add: timer_expire_def get_tp_ok [OF ok])
qed simp

lemma stamped_trans:
  assumes s: "stamped ts ts1 tp [i]" "stamped ts1 ts' tp1 is" and same: "sys_same (ts_sys ts) (ts_sys ts1)"
    and tp1: "tp1 = set_tb i tb tp" and i: "i \<notin> set is" "tmo_addr (ts_sys ts) tp i = Inr a" "\<And>k. k \<in> set is \<Longrightarrow> tmo_addr (ts_sys ts) tp k \<noteq> Inr a"
  shows "stamped ts ts' tp (i # is)"
proof -
  have ne: "k \<noteq> i" if "k \<in> set is" for k using that i(1) by auto
  have eq: "tmo_addr (ts_sys ts1) tp1 k = tmo_addr (ts_sys ts) tp k" "tp_tick_buf tp1 ! k = tp_tick_buf tp ! k" if "k \<in> set is" for k
    using ne [OF that] by (simp_all add: tp1 tmo_same [OF same] tmo_set_tb)
  have a: "ts_tmo ts' a = ts_tmo ts1 a" using s(2) i(3) eq(1) by (simp add: stamped_def)
  show ?thesis unfolding stamped_def
  proof (intro conjI allI impI ballI)
    fix b assume "\<forall>k\<in>set (i # is). tmo_addr (ts_sys ts) tp k \<noteq> Inr b"
    then show "ts_tmo ts' b = ts_tmo ts b" using s eq(1) by (simp add: stamped_def)
  next
    fix k b assume k: "k \<in> set (i # is)" "tmo_addr (ts_sys ts) tp k = Inr b"
      and ty: "odp_event_type (base (ts_sys ts)) (tb_tmo_buf (tp_tick_buf tp ! k)) = Inr ODP_EVENT_TIMEOUT"
    show "ts_tmo ts' b = (ts_tmo ts b)\<lparr>tmo_expiration := tb_exp_tck (tp_tick_buf tp ! k)\<rparr>"
    proof (cases "k = i")
      case True
      then have "b = a" using k(2) i(2) by simp
      then show ?thesis using s(1) k(2) ty a True by (simp add: stamped_def)
    next
      case False
      then have m: "k \<in> set is" using k(1) by simp
      have "b \<noteq> a" using i(3) [OF m] k(2) by auto
      then have "ts_tmo ts1 b = ts_tmo ts b" using s(1) i(2) by (auto simp: stamped_def)
      moreover have "ts_tmo ts' b = (ts_tmo ts1 b)\<lparr>tmo_expiration := tb_exp_tck (tp_tick_buf tp1 ! k)\<rparr>"
        using s(2) m k(2) ty eq [OF m] event_type_same [OF same] unfolding stamped_def by metis
      ultimately show ?thesis using eq(2) [OF m] by simp
    qed
  qed
qed

text \<open>The result of a scan over the timers \<open>is\<close>.\<close>

definition expired_from :: "timer_pool \<Rightarrow> timer_pool \<Rightarrow> nat list \<Rightarrow> bool" where
  "expired_from tp tp' ds \<longleftrightarrow> tp_timers tp' = tp_timers tp \<and> tp_param tp' = tp_param tp \<and>
    (\<forall>i. tp_tick_buf tp' ! i = (if i \<in> set ds then expired_tb (tp_tick_buf tp ! i) else tp_tick_buf tp ! i))"

definition sent_to :: "odp_sys \<Rightarrow> timer_pool \<Rightarrow> nat list \<Rightarrow> nat \<Rightarrow> addr list" where
  "sent_to sys tp ds j = map (\<lambda>i. projr (tmo_addr sys tp i)) (filter (\<lambda>i. tmo_dest sys tp i = Inr j) ds)"

lemma sent_to_Nil [simp]: "sent_to sys tp [] j = []"
  by (simp add: sent_to_def)

lemma sent_to_step:
  assumes "sys_same sys sys'" "i \<notin> set ds"
  shows "sent_to sys' (set_tb i tb tp) ds j = sent_to sys tp ds j"
proof -
  have ne: "k \<noteq> i" if "k \<in> set ds" for k using that assms(2) by auto
  have "filter (\<lambda>k. tmo_dest sys' (set_tb i tb tp) k = Inr j) ds = filter (\<lambda>k. tmo_dest sys tp k = Inr j) ds"
    by (rule filter_cong) (use ne tmo_set_tb(4) in \<open>simp_all add: tmo_same [OF assms(1)]\<close>)
  then show ?thesis unfolding sent_to_def by (simp add: tmo_same [OF assms(1)] ne tmo_set_tb(3))
qed

context event_sink
begin

lemma expire_scan_ok:
  assumes "rep (ts_sys ts) L" "timer_sys_ok ts p tp fl" "tick < TMO_INACTIVE - 1" "distinct is"
    "set is \<subseteq> {..<unat (tpp_num_timers (tp_param tp))}" "timeouts_owned (own (ts_sys ts) L) dests (ts_sys ts) tp (set is)"
  shows "\<exists>ts' tp' L'. expire_scan is dev p tick ts = Inr (length (filter (due tp tick) is), ts') \<and> timer_sys_ok ts' p tp' fl \<and>
    rep (ts_sys ts') L' \<and> sys_same (ts_sys ts) (ts_sys ts') \<and> expired_from tp tp' (filter (due tp tick) is) \<and>
    stamped ts ts' tp (filter (due tp tick) is) \<and> (\<forall>j\<in>dests. L' j = L j @ sent_to (ts_sys ts) tp (filter (due tp tick) is) j)"
  using assms
proof (induction "is" arbitrary: ts tp L)
  case Nil
  then show ?case by (intro exI [of _ ts] exI [of _ tp] exI [of _ L]) (simp add: expired_from_def stamped_def)
next
  case (Cons i "is")
  have i: "i < unat (tpp_num_timers (tp_param tp))" "i \<notin> set is" "distinct is" "set is \<subseteq> {..<unat (tpp_num_timers (tp_param tp))}"
    using Cons.prems(4,5) by auto
  show ?case
  proof (cases "due tp tick i")
    case False
    have "timeouts_owned (own (ts_sys ts) L) dests (ts_sys ts) tp (set is)" by (rule timeouts_owned_mono [OF Cons.prems(6)]) auto
    note IH = Cons.IH [OF Cons.prems(1-3) i(3,4) this]
    moreover have "expire_scan (i # is) dev p tick ts = expire_scan is dev p tick ts"
      using timer_expire_not_due [OF Cons.prems(2) False]
      by (cases "expire_scan is dev p tick ts") (simp_all add: get_tp_ok [OF Cons.prems(2)])
    ultimately show ?thesis using False by simp
  next
    case True
    let ?tp = "set_tb i (expired_tb (tp_tick_buf tp ! i)) tp"
    have arm: "armed tp i" and le: "tb_exp_tck (tp_tick_buf tp ! i) \<le> tick" using True by (simp_all add: due_def)
    have m: "i \<in> set (i # is)" by simp
    from timer_expire_step [OF Cons.prems(1,2) i(1) True Cons.prems(3,6) m, of dev] obtain ts1 L1 a j where
      s: "timer_expire dev p i tick ts = Inr (1, ts1)" "timer_sys_ok ts1 p ?tp fl" "rep (ts_sys ts1) L1"
      "own (ts_sys ts1) L1 \<subseteq> insert a (own (ts_sys ts) L)" "sys_same (ts_sys ts) (ts_sys ts1)" "tmo_addr (ts_sys ts) tp i = Inr a"
      "tmo_dest (ts_sys ts) tp i = Inr j" "\<forall>k\<in>dests. L1 k = (if k = j then L k @ [a] else L k)" "stamped ts ts1 tp [i]" by blast
    have ow: "timeouts_owned (own (ts_sys ts) L) dests (ts_sys ts) tp (insert i (set is))" using Cons.prems(6) by simp
    have ow1: "timeouts_owned (own (ts_sys ts1) L1) dests (ts_sys ts1) ?tp (set is)"
      by (rule timeouts_owned_step [OF ow i(2) arm s(6,5,4)])
    have is1: "set is \<subseteq> {..<unat (tpp_num_timers (tp_param ?tp))}" using i(4) by simp
    let ?ds = "filter (due tp tick) is"
    have ne: "k \<noteq> i" if "k \<in> set is" for k using that i(2) by auto
    have d: "filter (due ?tp tick) is = ?ds" by (rule filter_cong) (use ne tmo_set_tb(2) in simp_all)
    from Cons.IH [OF s(3,2) Cons.prems(3) i(3) is1 ow1] obtain ts' tp' L' where
      r: "expire_scan is dev p tick ts1 = Inr (length ?ds, ts')" "timer_sys_ok ts' p tp' fl" "rep (ts_sys ts') L'"
      "sys_same (ts_sys ts1) (ts_sys ts')" "expired_from ?tp tp' ?ds" "stamped ts1 ts' ?tp ?ds"
      "\<forall>j\<in>dests. L' j = L1 j @ sent_to (ts_sys ts1) ?tp ?ds j" unfolding d by blast
    have ids: "i \<notin> set ?ds" using i(2) by simp
    have "stamped ts ts' tp (i # ?ds)"
    proof (rule stamped_trans [OF s(9) r(6) s(5) refl ids s(6)])
      fix k assume k: "k \<in> set ?ds"
      have "inj_on (tmo_addr (ts_sys ts) tp) {k \<in> insert i (set is). armed tp k}" using ow by (simp add: timeouts_owned_def)
      from inj_onD [OF this, of k i] show "tmo_addr (ts_sys ts) tp k \<noteq> Inr a" using k arm s(6) ne by (auto simp: due_def)
    qed
    moreover have "expired_from tp tp' (i # ?ds)"
    proof -
      have il: "i < length (tp_tick_buf tp)" using i(1) timer_invD(1) [of tp fl] Cons.prems(2) by (simp add: timer_sys_ok_def)
      have "tp_tick_buf tp' ! k = (if k \<in> set (i # ?ds) then expired_tb (tp_tick_buf tp ! k) else tp_tick_buf tp ! k)" for k
        using r(5) i(2) il by (cases "k = i") (simp_all add: expired_from_def)
      then show ?thesis using r(5) by (simp add: expired_from_def)
    qed
    moreover have "\<forall>k\<in>dests. L' k = L k @ sent_to (ts_sys ts) tp (i # ?ds) k"
      using r(7) s(6-8) sent_to_step [OF s(5) ids] by (simp add: sent_to_def)
    moreover have "expire_scan (i # is) dev p tick ts = Inr (length (i # ?ds), ts')"
      using s(1) r(1) le by (simp add: get_tp_ok [OF Cons.prems(2)])
    ultimately show ?thesis using True r(2,3) sys_same_trans [OF s(5) r(4)] by (intro exI [of _ ts'] exI [of _ tp'] exI [of _ L']) simp
  qed
qed

lemma pool_expire_ok:
  assumes "rep (ts_sys ts) L" "timer_sys_ok ts p tp fl" "tick < TMO_INACTIVE - 1"
    "timeouts_owned (own (ts_sys ts) L) dests (ts_sys ts) tp {..<unat (tp_high_wm tp)}"
  defines "ds \<equiv> filter (due tp tick) [0..<unat (tp_high_wm tp)]"
  shows "\<exists>ts' tp' L'. odp_timer_pool_expire dev p tick ts = Inr (length ds, ts') \<and> timer_sys_ok ts' p tp' fl \<and> rep (ts_sys ts') L' \<and>
    sys_same (ts_sys ts) (ts_sys ts') \<and> expired_from tp tp' ds \<and> stamped ts ts' tp ds \<and> (\<forall>j\<in>dests. L' j = L j @ sent_to (ts_sys ts) tp ds j)"
proof -
  have inv: "timer_inv tp fl" using assms(2) by (simp add: timer_sys_ok_def)
  note hw = timer_invD(7) [OF inv]
  then have "tp_high_wm tp \<le> tpp_num_timers (tp_param tp)" by (simp add: word_le_nat_alt)
  then have "odp_timer_pool_expire dev p tick ts = expire_scan [0..<unat (tp_high_wm tp)] dev p tick ts"
    by (simp add: odp_timer_pool_expire_def get_tp_ok [OF assms(2)] assert_then_def)
  moreover have "set [0..<unat (tp_high_wm tp)] \<subseteq> {..<unat (tpp_num_timers (tp_param tp))}" using hw by auto
  moreover have "timeouts_owned (own (ts_sys ts) L) dests (ts_sys ts) tp (set [0..<unat (tp_high_wm tp)])"
    using assms(4) by (simp add: atLeast0LessThan [symmetric])
  ultimately show ?thesis using expire_scan_ok [OF assms(1-3) distinct_upt] unfolding ds_def by simp
qed

end

section \<open>Creating a pool\<close>

lemma free_chain_new:
  assumes "i \<le> n" "n < 2 ^ 32"
  shows "free_chain (map (\<lambda>i. \<lparr>tim_user_ptr = NULL, tim_queue = of_nat (i + 1)\<rparr>) [0..<n]) i [i..<n] n"
  using assms(1)
proof (induction "n - i" arbitrary: i)
  case (Suc k)
  then have i: "i < n" "k = n - Suc i" by simp_all
  then have "unat (of_nat (i + 1) :: u32) = i + 1" using assms(2) by (intro unat_of_nat_small) simp
  then show ?case using Suc.hyps(1) [of "Suc i"] i by (simp add: upt_rec [of i])
qed simp

lemma odp_timer_pool_create_ok:
  assumes len: "length (ts_pools ts) = MAX_TIMER_POOLS" and n: "unat (tpp_num_timers param) \<le> 2 ^ INDEX_BITS"
    and res: "tpp_res_ns param \<noteq> 0" and room: "unat (ts_num_pools ts) < MAX_TIMER_POOLS"
  shows "\<exists>tp ts'. odp_timer_pool_create True True name param ts = Inr (Some (unat (ts_num_pools ts)), ts') \<and>
    timer_sys_ok ts' (unat (ts_num_pools ts)) tp [0..<unat (tpp_num_timers param)] \<and> tp_param tp = param \<and> tp_cur_tick tp = 0 \<and>
    tp_min_rel_tck tp = tpp_min_tmo param div tpp_res_ns param \<and> tp_max_rel_tck tp = tpp_max_tmo param div tpp_res_ns param \<and>
    ts_sys ts' = ts_sys ts \<and> ts_num_pools ts' = ts_num_pools ts + 1"
proof -
  let ?n = "unat (tpp_num_timers param)" and ?i = "ts_num_pools ts"
  define tp where "tp = \<lparr>tp_cur_tick = 0, tp_min_rel_tck = tpp_min_tmo param div tpp_res_ns param,
    tp_max_rel_tck = tpp_max_tmo param div tpp_res_ns param, tp_tick_buf = replicate ?n \<lparr>tb_exp_tck = TMO_UNUSED, tb_tmo_buf = ODP_BUFFER_INVALID\<rparr>,
    tp_timers = map (\<lambda>i. \<lparr>tim_user_ptr = NULL, tim_queue = of_nat (i + 1)\<rparr>) [0..<?n],
    tp_high_wm = 0, tp_num_alloc = 0, tp_first_free = 0, tp_idx = ?i, tp_param = param, tp_name = take (ODP_TIMER_POOL_NAME_LEN - 1) name\<rparr>"
  have "?n < 2 ^ 32" using unsigned_less [of "tpp_num_timers param", where ?'a = nat] by simp
  then have "free_chain (tp_timers tp) 0 [0..<?n] ?n" unfolding tp_def using free_chain_new [of 0 ?n] by simp
  then have inv: "timer_inv tp [0..<?n]" using n room by (simp add: timer_inv_def tp_def)
  have cr: "odp_timer_pool_create True True name param ts = Inr (Some (unat ?i), (put_tp (unat ?i) tp ts)\<lparr>ts_num_pools := ?i + 1\<rparr>)"
    using res room by (simp add: odp_timer_pool_create_def odp_timer_pool_new_def odp_timer_ns_to_tick_def tp_def Let_def)
  have ok: "timer_sys_ok ((put_tp (unat ?i) tp ts)\<lparr>ts_num_pools := ?i + 1\<rparr>) (unat ?i) tp [0..<?n]"
    using len room inv by (simp add: timer_sys_ok_def put_tp_def tp_def)
  show ?thesis unfolding cr
    by (rule exI [of _ tp], rule exI [of _ "(put_tp (unat ?i) tp ts)\<lparr>ts_num_pools := ?i + 1\<rparr>"], intro conjI refl ok)
      (simp_all add: tp_def put_tp_def)
qed

section \<open>Allocation and freeing\<close>

text \<open>
  A timer pool without a free timer refuses an allocation and does not change. Otherwise the first timer of the free list becomes idle with
  the queue and pointer given, under a handle that leads to it; every other timer is left alone. Freeing it again returns no timeout and
  restores the free list, the number of allocated timers and every tick buffer.
\<close>

theorem odp_timer_alloc_free:
  assumes ok: "timer_sys_ok ts p tp fl" and q: "queue \<noteq> ODP_QUEUE_INVALID"
  shows "(fl = [] \<and> odp_timer_alloc p queue up ts = Inr (ODP_TIMER_INVALID, ts)) \<or>
    (\<exists>i fl' h ts1 tp1 ts2 tp2. fl = i # fl' \<and> odp_timer_alloc p queue up ts = Inr (h, ts1) \<and> h \<noteq> ODP_TIMER_INVALID \<and>
      timer_sys_ok ts1 p tp1 fl' \<and> timer_handle tp1 fl' i h \<and> timer_st tp i = Timer_Free \<and> timer_st tp1 i = Timer_Idle \<and>
      tp_timers tp1 ! i = \<lparr>tim_user_ptr = up, tim_queue = queue\<rparr> \<and>
      (\<forall>j. j \<noteq> i \<longrightarrow> tp_tick_buf tp1 ! j = tp_tick_buf tp ! j \<and> tp_timers tp1 ! j = tp_timers tp ! j) \<and>
      odp_timer_free h ts1 = Inr (ODP_BUFFER_INVALID, ts2) \<and> timer_sys_ok ts2 p tp2 fl \<and> tp_tick_buf tp2 = tp_tick_buf tp \<and>
      tp_num_alloc tp2 = tp_num_alloc tp)"
proof (cases fl)
  case Nil
  have inv: "timer_inv tp []" using ok Nil by (simp add: timer_sys_ok_def)
  have "put_tp p tp ts = ts" using ok list_update_id [of "ts_pools ts" p] by (simp add: timer_sys_ok_def put_tp_def)
  then show ?thesis using Nil q by (simp add: odp_timer_alloc_def get_tp_ok [OF ok] timer_alloc_full [OF inv])
next
  case (Cons i fl')
  have inv: "timer_inv tp (i # fl')" using ok Cons by (simp add: timer_sys_ok_def)
  note D = timer_invD [OF inv]
  from timer_alloc_ok [OF inv, of queue up] obtain h tp1 where
    a: "timer_alloc queue up tp = Inr (h, tp1)" "timer_inv tp1 fl'" "tp_idx_to_handle tp1 i = Inr h" "h \<noteq> ODP_TIMER_INVALID"
    "tp_tick_buf tp1 = (tp_tick_buf tp)[i := \<lparr>tb_exp_tck = TMO_INACTIVE, tb_tmo_buf = ODP_BUFFER_INVALID\<rparr>]"
    "tp_timers tp1 = (tp_timers tp)[i := \<lparr>tim_user_ptr = up, tim_queue = queue\<rparr>]" "tp_idx tp1 = tp_idx tp" "tp_param tp1 = tp_param tp"
    "tp_num_alloc tp1 = tp_num_alloc tp + 1" by blast
  let ?ts1 = "put_tp p tp1 ts"
  have il: "i < unat (tpp_num_timers (tp_param tp1))" "i \<notin> set fl'" using D(11,12) a(8) by auto
  have ilen: "i < length (tp_tick_buf tp)" "i < length (tp_timers tp)" using il(1) a(8) D(1,2) by simp_all
  have ok1: "timer_sys_ok ?ts1 p tp1 fl'" by (rule put_tp_ok [OF ok a(2,7)]) simp
  have h: "timer_handle tp1 fl' i h" using il a(3) by (simp add: timer_handle_def)
  from timer_free_ok [OF a(2) il] obtain tp2 where
    f: "timer_free i tp1 = Inr (tb_tmo_buf (tp_tick_buf tp1 ! i), tp2)" "timer_inv tp2 (i # fl')"
    "tp_tick_buf tp2 = (tp_tick_buf tp1)[i := \<lparr>tb_exp_tck = TMO_UNUSED, tb_tmo_buf = ODP_BUFFER_INVALID\<rparr>]" "tp_idx tp2 = tp_idx tp1"
    "tp_num_alloc tp2 = tp_num_alloc tp1 - 1" by blast
  have free: "odp_timer_free h ?ts1 = Inr (ODP_BUFFER_INVALID, put_tp p tp2 ?ts1)"
    using f(1) a(5) ilen by (simp add: odp_timer_free_def with_timer_ok [OF ok1 h])
  have ok2: "timer_sys_ok (put_tp p tp2 ?ts1) p tp2 fl" unfolding Cons by (rule put_tp_ok [OF ok1 f(2,4)]) simp
  have tbi: "tp_tick_buf tp ! i = \<lparr>tb_exp_tck = TMO_UNUSED, tb_tmo_buf = ODP_BUFFER_INVALID\<rparr>" by (rule D(9)) simp
  have st: "timer_st tp i = Timer_Free" "timer_st tp1 i = Timer_Idle"
    using tbi a(5) ilen by (simp_all add: state_of_def TMO_UNUSED_def TMO_INACTIVE_def)
  have tb2: "tp_tick_buf tp2 = tp_tick_buf tp" using f(3) a(5) tbi by (metis list_update_overwrite list_update_id)
  have al: "odp_timer_alloc p queue up ts = Inr (h, ?ts1)" using q by (simp add: odp_timer_alloc_def get_tp_ok [OF ok] a(1))
  show ?thesis
    by (rule disjI2, rule exI [of _ i], rule exI [of _ fl'], rule exI [of _ h], rule exI [of _ ?ts1], rule exI [of _ tp1],
        rule exI [of _ "put_tp p tp2 ?ts1"], rule exI [of _ tp2])
      (use Cons al a(4-6,9) ok1 h st ilen free ok2 tb2 f(5) in simp)
qed

section \<open>Setting and cancelling\<close>

text \<open>A call on timer \<open>i\<close> that does what the specification says and touches no other timer, queue or buffer.\<close>

definition timer_call :: "timer_sys \<Rightarrow> nat \<Rightarrow> timer_pool \<Rightarrow> nat list \<Rightarrow> nat \<Rightarrow> u32 \<Rightarrow>
    c_error + ((int \<times> u32 option) \<times> timer_sys) \<Rightarrow> (int \<times> u32 option) \<times> timer_state \<Rightarrow> bool" where
  "timer_call ts p tp fl i h r spec \<longleftrightarrow>
    (\<exists>ts' tp'. r = Inr (fst spec, ts') \<and> timer_sys_ok ts' p tp' fl \<and> timer_handle tp' fl i h \<and> timer_st tp' i = snd spec \<and>
      (\<forall>j. j \<noteq> i \<longrightarrow> tp_tick_buf tp' ! j = tp_tick_buf tp ! j) \<and> tp_timers tp' = tp_timers tp \<and> ts_sys ts' = ts_sys ts)"

lemma cur_plus: "unat (x :: u64) + unat y < 2 ^ 63 \<Longrightarrow> unat (x + y) = unat x + unat y"
  by (simp add: unat_word_ariths)

text \<open>
  C31: On the state of a timer, which is idle or set to a tick with a timeout, setting and cancelling are what the API promises. A tick
  nearer than the minimum or farther than the maximum of the pool is refused and changes nothing. A timeout given replaces the one of the
  timer, which goes back to the caller. Without one only a timer that is set is moved. Cancelling makes the timer idle and returns its
  timeout, or fails when it had none. Other timers, the queues and the pools of buffers are not touched.
\<close>

theorem odp_timer_set_cancel:
  assumes ok: "timer_sys_ok ts p tp fl" and h: "timer_handle tp fl i h" and ev: "tmo_ok ts ev"
    and b: "unat (tp_cur_tick tp) + unat (tp_min_rel_tck tp) < 2 ^ 63" "unat (tp_cur_tick tp) + unat (tp_max_rel_tck tp) < 2 ^ 63"
  shows "timer_call ts p tp fl i h (odp_timer_set_abs h t ev ts)
      (set_spec (unat t < unat (tp_cur_tick tp) + unat (tp_min_rel_tck tp)) (unat (tp_cur_tick tp) + unat (tp_max_rel_tck tp) < unat t)
        t ev (timer_st tp i)) \<and>
    timer_call ts p tp fl i h (odp_timer_set_rel h t ev ts)
      (set_spec (t < tp_min_rel_tck tp) (tp_max_rel_tck tp < t) (tp_cur_tick tp + t) ev (timer_st tp i)) \<and>
    timer_call ts p tp fl i h (odp_timer_cancel h ts) (cancel_spec (timer_st tp i))"
proof (intro conjI)
  note P = cur_plus [OF b(1)] cur_plus [OF b(2)]
  have in63: "unat (TMO_INACTIVE) = 2 ^ 63" by (simp add: TMO_INACTIVE_def)
  have "t < TMO_INACTIVE" if "\<not> t > tp_cur_tick tp + tp_max_rel_tck tp"
    using that P(2) b(2) in63 by (simp add: word_less_nat_alt)
  then show "timer_call ts p tp fl i h (odp_timer_set_abs h t ev ts)
      (set_spec (unat t < unat (tp_cur_tick tp) + unat (tp_min_rel_tck tp)) (unat (tp_cur_tick tp) + unat (tp_max_rel_tck tp) < unat t)
        t ev (timer_st tp i))"
    using timer_set_ok [OF ok h ev, where abs_tck = "\<lambda>_. t" and early = "\<lambda>tp. t < tp_cur_tick tp + tp_min_rel_tck tp"
        and late = "\<lambda>tp. t > tp_cur_tick tp + tp_max_rel_tck tp"]
    unfolding timer_call_def odp_timer_set_abs_def P [symmetric] word_less_nat_alt [symmetric] by blast
  have "tp_cur_tick tp + t < TMO_INACTIVE" if "\<not> t > tp_max_rel_tck tp"
  proof -
    have le: "unat (tp_cur_tick tp) + unat t < 2 ^ 63" using that b(2) by (simp add: word_less_nat_alt)
    show ?thesis using cur_plus [OF le] le in63 by (simp add: word_less_nat_alt)
  qed
  then show "timer_call ts p tp fl i h (odp_timer_set_rel h t ev ts)
      (set_spec (t < tp_min_rel_tck tp) (tp_max_rel_tck tp < t) (tp_cur_tick tp + t) ev (timer_st tp i))"
    using timer_set_ok [OF ok h ev, where abs_tck = "\<lambda>tp. tp_cur_tick tp + t" and early = "\<lambda>tp. t < tp_min_rel_tck tp"
        and late = "\<lambda>tp. t > tp_max_rel_tck tp"]
    unfolding timer_call_def odp_timer_set_rel_def by blast
  show "timer_call ts p tp fl i h (odp_timer_cancel h ts) (cancel_spec (timer_st tp i))"
    using timer_cancel_ok [OF ok h] unfolding timer_call_def by blast
qed

section \<open>Expiration into scheduled queues\<close>

lemma expired_states:
  assumes "expired_from tp tp' ds" "\<And>i. i \<in> set ds \<Longrightarrow> tb_exp_tck (tp_tick_buf tp ! i) < TMO_INACTIVE - 1"
  shows "timer_st tp' i = (if i \<in> set ds then Timer_Idle else timer_st tp i)"
  using assms expired_used(2) by (simp add: expired_from_def)

text \<open>The timeout of a timer that has expired and was not set again is fresh and tells the tick it was set to.\<close>

lemma expired_fresh:
  assumes ok: "timer_sys_ok ts p tp fl" "timer_sys_ok ts' p tp' fl" and same: "sys_same (ts_sys ts) (ts_sys ts')"
    and st: "stamped ts ts' tp ds" "expired_from tp tp' ds" and i: "i \<in> set ds" "i < unat (tpp_num_timers (tp_param tp))" "armed tp i"
    and lt: "tb_exp_tck (tp_tick_buf tp ! i) < TMO_INACTIVE - 1"
    and ty: "odp_event_type (base (ts_sys ts)) (tb_tmo_buf (tp_tick_buf tp ! i)) = Inr ODP_EVENT_TIMEOUT"
    and a: "tmo_addr (ts_sys ts) tp i = Inr a" and h: "tp_idx_to_handle tp i = Inr (tmo_timer (ts_tmo ts a))"
  shows "odp_timeout_fresh (tb_tmo_buf (tp_tick_buf tp ! i)) ts' = Inr True"
    "odp_timeout_tick (tb_tmo_buf (tp_tick_buf tp ! i)) ts' = Inr (tb_exp_tck (tp_tick_buf tp ! i))"
proof -
  let ?tb = "tp_tick_buf tp ! i"
  have inv: "timer_inv tp fl" using ok(1) by (simp add: timer_sys_ok_def)
  have idx: "tp_idx tp' = tp_idx tp" using ok by (simp add: timer_sys_ok_def word_unat_eq_iff)
  have t: "ts_tmo ts' a = (ts_tmo ts a)\<lparr>tmo_expiration := tb_exp_tck ?tb\<rparr>" using st(1) i(1) a ty by (simp add: stamped_def)
  have hd: "timer_handle tp' fl i (tmo_timer (ts_tmo ts a))"
    using h i(2) armed_used(1) [OF inv i(2,3)] st(2) idx by (simp add: timer_handle_def expired_from_def tp_idx_to_handle_def)
  have hdr: "timeout_hdr_of (tb_tmo_buf ?tb) ts' = Inr (ts_tmo ts' a)"
    using a sys_same_reads(2) [OF same] by (simp add: timeout_hdr_of_def tmo_addr_def)
  have "tp_tick_buf tp' ! i = expired_tb ?tb" using st(2) i(1) by (simp add: expired_from_def)
  then show "odp_timeout_fresh (tb_tmo_buf ?tb) ts' = Inr True"
    using expired_used(3) [OF lt] by (simp add: odp_timeout_fresh_def hdr t with_timer_ok [OF ok(2) hd])
  show "odp_timeout_tick (tb_tmo_buf ?tb) ts' = Inr (tb_exp_tck ?tb)" by (simp add: odp_timeout_tick_def hdr t)
qed

text \<open>
  C32: A scan of a timer pool at a tick, for timers whose queues are scheduled, returns the number of timers that are set and due. Exactly
  these become idle. Each scheduled queue gets the timeouts of its due timers at its end, in the order of the timers, and the scheduler
  stays consistent, so the timeouts will be scheduled. A timeout delivered tells the tick its timer was set to, and is fresh when it
  belongs to the timer.
\<close>

theorem odp_timer_pool_expire_correct:
  assumes inv: "sched_inv M (ts_sys ts) L H" and fn: "\<forall>j\<in>sm_queues M. q_funcs (qentry (ts_sys ts) j) = Queue_Funcs"
    and ok: "timer_sys_ok ts p tp fl" and t: "tick < TMO_INACTIVE - 1"
    and own: "timeouts_owned (in_queues (ts_sys ts) L \<union> sm_cmd M ` sm_queues M) (sm_queues M) (ts_sys ts) tp {..<unat (tp_high_wm tp)}"
  shows "\<exists>ts' tp' L'. odp_timer_pool_expire dev p tick ts = Inr (length (filter (due tp tick) [0..<unat (tp_high_wm tp)]), ts') \<and>
    timer_sys_ok ts' p tp' fl \<and> sched_inv M (ts_sys ts') L' H \<and>
    (\<forall>i<unat (tp_high_wm tp). timer_st tp' i = (if due tp tick i then Timer_Idle else timer_st tp i)) \<and>
    (\<forall>j\<in>sm_queues M. L' j = L j @ sent_to (ts_sys ts) tp (filter (due tp tick) [0..<unat (tp_high_wm tp)]) j) \<and>
    (\<forall>i<unat (tp_high_wm tp). \<forall>a. due tp tick i \<and> tmo_addr (ts_sys ts) tp i = Inr a \<and>
      odp_event_type (base (ts_sys ts)) (tb_tmo_buf (tp_tick_buf tp ! i)) = Inr ODP_EVENT_TIMEOUT \<and>
      tp_idx_to_handle tp i = Inr (tmo_timer (ts_tmo ts a)) \<longrightarrow>
      odp_timeout_fresh (tb_tmo_buf (tp_tick_buf tp ! i)) ts' = Inr True \<and>
      odp_timeout_tick (tb_tmo_buf (tp_tick_buf tp ! i)) ts' = Inr (tb_exp_tck (tp_tick_buf tp ! i)))"
proof -
  let ?ds = "filter (due tp tick) [0..<unat (tp_high_wm tp)]"
  have rep: "scheduled_rep M H (ts_sys ts) L" using inv fn by (simp add: scheduled_rep_def)
  from scheduled.pool_expire_ok [OF rep ok t own [folded scheduled_own_def], of dev] obtain ts' tp' L' where
    r: "odp_timer_pool_expire dev p tick ts = Inr (length ?ds, ts')" "timer_sys_ok ts' p tp' fl" "scheduled_rep M H (ts_sys ts') L'"
    "sys_same (ts_sys ts) (ts_sys ts')" "expired_from tp tp' ?ds" "stamped ts ts' tp ?ds"
    "\<forall>j\<in>sm_queues M. L' j = L j @ sent_to (ts_sys ts) tp ?ds j" by blast
  have lt: "tb_exp_tck (tp_tick_buf tp ! i) < TMO_INACTIVE - 1" if "due tp tick i" for i using that t by (auto simp: due_def intro: le_less_trans)
  have n: "i < unat (tpp_num_timers (tp_param tp))" if "i < unat (tp_high_wm tp)" for i
    using that timer_invD(7) ok by (fastforce simp: timer_sys_ok_def)
  have st: "timer_st tp' i = (if due tp tick i then Timer_Idle else timer_st tp i)" if "i < unat (tp_high_wm tp)" for i
    using expired_states [OF r(5), of i] lt that by simp
  have fr: "odp_timeout_fresh (tb_tmo_buf (tp_tick_buf tp ! i)) ts' = Inr True \<and>
      odp_timeout_tick (tb_tmo_buf (tp_tick_buf tp ! i)) ts' = Inr (tb_exp_tck (tp_tick_buf tp ! i))"
    if i: "i < unat (tp_high_wm tp)" "due tp tick i" and a: "tmo_addr (ts_sys ts) tp i = Inr a"
      "odp_event_type (base (ts_sys ts)) (tb_tmo_buf (tp_tick_buf tp ! i)) = Inr ODP_EVENT_TIMEOUT"
      "tp_idx_to_handle tp i = Inr (tmo_timer (ts_tmo ts a))" for i a
    using expired_fresh [OF ok r(2,4,6,5) _ n [OF i(1)] _ lt [OF i(2)] a(2,1,3)] i by (simp add: due_def)
  show ?thesis using r(1,2,3,7) st fr unfolding scheduled_rep_def by blast
qed

section \<open>A concrete timer pool\<close>

definition demo_param :: timer_pool_param where
  "demo_param = \<lparr>tpp_res_ns = 10, tpp_min_tmo = 20, tpp_max_tmo = 1000, tpp_num_timers = 2, tpp_priv = 0, tpp_clk_src = ODP_CLOCK_CPU\<rparr>"

text \<open>Two timers: the first is set to tick 5 with buffer 16 for queue 2, the second is free.\<close>

definition demo_tp :: timer_pool where
  "demo_tp = \<lparr>tp_cur_tick = 3, tp_min_rel_tck = 2, tp_max_rel_tck = 100,
     tp_tick_buf = [\<lparr>tb_exp_tck = 5, tb_tmo_buf = 16\<rparr>, \<lparr>tb_exp_tck = TMO_UNUSED, tb_tmo_buf = ODP_BUFFER_INVALID\<rparr>],
     tp_timers = [\<lparr>tim_user_ptr = 0, tim_queue = 2\<rparr>, \<lparr>tim_user_ptr = 0, tim_queue = 2\<rparr>],
     tp_high_wm = 1, tp_num_alloc = 1, tp_first_free = 1, tp_idx = 0, tp_param = demo_param, tp_name = ''demo''\<rparr>"

definition demo_ts :: timer_sys where
  "demo_ts = \<lparr>ts_sys = demo_sys, ts_pools = Some demo_tp # replicate 254 None, ts_num_pools = 1,
     ts_tmo = (\<lambda>_. \<lparr>tmo_expiration = 0, tmo_user_ptr = 0, tmo_timer = 0\<rparr>)\<rparr>"

lemma demo_timer_ok: "timer_sys_ok demo_ts 0 demo_tp [1]"
  by (simp add: timer_sys_ok_def demo_ts_def timer_inv_def demo_tp_def demo_param_def used_ok_def less_Suc_eq timer_const_defs ODP_BUFFER_INVALID_def
      upt_rec) (auto simp: less_2_cases_iff)

lemma demo_timer_handle: "timer_handle demo_tp [1] 0 0"
  by (simp add: timer_handle_def demo_tp_def demo_param_def tp_idx_to_handle_def assert_then_def)

theorem odp_timer_alloc_free_witness:
  "\<exists>h ts1 ts2. odp_timer_alloc 0 2 7 demo_ts = Inr (h, ts1) \<and> odp_timer_free h ts1 = Inr (ODP_BUFFER_INVALID, ts2)"
  using odp_timer_alloc_free [OF demo_timer_ok, of 2 7] by (auto simp: ODP_QUEUE_INVALID_def)

theorem odp_timer_set_cancel_witness:
  "\<exists>ts1 ts2. odp_timer_set_abs 0 9 (Some 8) demo_ts = Inr ((ODP_TIMER_SUCCESS, Some 16), ts1) \<and>
    odp_timer_cancel 0 demo_ts = Inr ((0, Some 16), ts2)"
proof -
  have "tmo_ok demo_ts (Some 8)" using demo_buf(1) by (simp add: tmo_ok_def tmo_arg_def demo_ts_def)
  moreover have "timer_st demo_tp 0 = Timer_Set 5 16" by (simp add: demo_tp_def state_of_def TMO_UNUSED_def ODP_BUFFER_INVALID_def)
  moreover have "tp_cur_tick demo_tp = 3" "tp_min_rel_tck demo_tp = 2" "tp_max_rel_tck demo_tp = 100" by (simp_all add: demo_tp_def)
  ultimately show ?thesis using odp_timer_set_cancel [OF demo_timer_ok demo_timer_handle, of "Some 8" 9]
    by (auto simp: timer_call_def tmo_arg_def ODP_BUFFER_INVALID_def)
qed

theorem odp_timer_pool_expire_correct_witness:
  "\<exists>ts' L'. odp_timer_pool_expire demo_dev 0 7 demo_ts = Inr (1, ts') \<and> sched_inv demo_map (ts_sys ts') L' (\<lambda>_. None) \<and> L' 1 = [4224]"
proof -
  have I: "sched_inv demo_map (ts_sys demo_ts) (\<lambda>_. []) (\<lambda>_. None)" using sched_start_inv [OF demo_start] by (simp add: demo_ts_def)
  have hw: "unat (tp_high_wm demo_tp) = 1" by (simp add: demo_tp_def)
  have a: "tmo_addr (ts_sys demo_ts) demo_tp 0 = Inr 4224" using demo_buf(2) by (simp add: tmo_addr_def demo_ts_def demo_tp_def)
  have d: "tmo_dest (ts_sys demo_ts) demo_tp 0 = Inr 1"
    by (simp add: tmo_dest_def demo_ts_def demo_tp_def demo_sys_def queue_to_qentry_def queue_to_id_def)
  have own: "timeouts_owned (in_queues (ts_sys demo_ts) (\<lambda>_. []) \<union> sm_cmd demo_map ` sm_queues demo_map) (sm_queues demo_map) (ts_sys demo_ts)
      demo_tp {..<unat (tp_high_wm demo_tp)}"
    unfolding hw timeouts_owned_def using a d by (auto simp: in_queues_def demo_map_def inj_on_def)
  have f: "\<forall>j\<in>sm_queues demo_map. q_funcs (qentry (ts_sys demo_ts) j) = Queue_Funcs"
    using demo_queue_facts(2) by (simp add: demo_map_def demo_ts_def)
  have t: "(7 :: u64) < TMO_INACTIVE - 1" by (simp add: TMO_INACTIVE_def)
  have du: "due demo_tp 7 0" by (simp add: due_def armed_def demo_tp_def ODP_BUFFER_INVALID_def)
  have m: "1 \<in> sm_queues demo_map" by (simp add: demo_map_def)
  from odp_timer_pool_expire_correct [OF I f demo_timer_ok t own, of demo_dev, unfolded hw] obtain ts' L' where
    "odp_timer_pool_expire demo_dev 0 7 demo_ts = Inr (length (filter (due demo_tp 7) [0..<1]), ts')"
    "sched_inv demo_map (ts_sys ts') L' (\<lambda>_. None)"
    "\<forall>j\<in>sm_queues demo_map. L' j = [] @ sent_to (ts_sys demo_ts) demo_tp (filter (due demo_tp 7) [0..<1]) j" by blast
  then show ?thesis using du a d m by (intro exI [of _ ts'] exI [of _ L']) (simp add: sent_to_def)
qed

end
