(* ===== verification/Odp_Locks.thy ===== *)
theory Odp_Locks
  imports Odp_Config
begin

text \<open>
  The synchronizers: \<open>odp_ticketlock.c\<close>, \<open>odp_spinlock.c\<close>, \<open>odp_rwlock.c\<close> and \<open>odp_barrier.c\<close>, over the atomic operations of
  \<open>odp/atomic.h\<close> and \<open>odp_atomic_internal.h\<close>. Each access to an atomic variable is one step, in one order for all threads. A function of
  the code is the step it makes from each point it can be at; the point is its program counter with the local variables that are live there.
\<close>

section \<open>Atomic operations\<close>

text \<open>The result of the operation and the new value of the variable.\<close>

definition odp_atomic_init_u32 :: "u32 \<Rightarrow> u32" where
  "odp_atomic_init_u32 val = val"

definition odp_atomic_load_u32 :: "u32 \<Rightarrow> u32" where
  "odp_atomic_load_u32 atom = atom"

definition odp_atomic_fetch_inc_u32 :: "u32 \<Rightarrow> u32 \<times> u32" where
  "odp_atomic_fetch_inc_u32 atom = (atom, atom + 1)"

definition odp_atomic_sub_u32 :: "u32 \<Rightarrow> u32 \<Rightarrow> u32" where
  "odp_atomic_sub_u32 atom val = atom - val"

definition atomic_u32_load_mm :: "u32 \<Rightarrow> u32" where
  "atomic_u32_load_mm atom = atom"

definition atomic_u32_store_mm :: "u32 \<Rightarrow> u32" where
  "atomic_u32_store_mm val = val"

definition atomic_u32_cmp_xchg_strong_mm :: "u32 \<Rightarrow> u32 \<Rightarrow> u32 \<Rightarrow> bool \<times> u32" where
  "atomic_u32_cmp_xchg_strong_mm atom expected val = (if atom = expected then (True, val) else (False, atom))"

definition atomic_u32_sub_mm :: "u32 \<Rightarrow> u32 \<Rightarrow> u32" where
  "atomic_u32_sub_mm atom val = atom - val"

definition atomic_flag_init :: "bool \<Rightarrow> bool" where
  "atomic_flag_init val = val"

definition atomic_flag_load :: "bool \<Rightarrow> bool" where
  "atomic_flag_load flag = flag"

definition atomic_flag_tas :: "bool \<Rightarrow> bool \<times> bool" where
  "atomic_flag_tas flag = (flag, True)"

definition atomic_flag_clear :: bool where
  "atomic_flag_clear = False"

lemmas atomic_defs [simp] = odp_atomic_init_u32_def odp_atomic_load_u32_def odp_atomic_fetch_inc_u32_def odp_atomic_sub_u32_def
  atomic_u32_load_mm_def atomic_u32_store_mm_def atomic_u32_cmp_xchg_strong_mm_def atomic_u32_sub_mm_def atomic_flag_init_def
  atomic_flag_load_def atomic_flag_tas_def atomic_flag_clear_def

section \<open>Ticket lock\<close>

record odp_ticketlock =
  next_ticket :: u32
  cur_ticket :: u32

definition odp_ticketlock_init :: odp_ticketlock where
  "odp_ticketlock_init = \<lparr>next_ticket = odp_atomic_init_u32 0, cur_ticket = odp_atomic_init_u32 0\<rparr>"

text \<open>Outside, spinning with a ticket, in \<open>trylock\<close> before the second load and before the exchange, owner, in \<open>unlock\<close> before the store.\<close>

datatype ticket_pc = TK_Idle | TK_Wait u32 | TK_Try u32 | TK_Cas u32 | TK_Held | TK_Unlock u32

fun odp_ticketlock_lock :: "ticket_pc \<Rightarrow> odp_ticketlock \<Rightarrow> (ticket_pc \<times> odp_ticketlock) option" where
  "odp_ticketlock_lock TK_Idle l = (let (ticket, v) = odp_atomic_fetch_inc_u32 (next_ticket l) in Some (TK_Wait ticket, l\<lparr>next_ticket := v\<rparr>))"
| "odp_ticketlock_lock (TK_Wait ticket) l = (if ticket \<noteq> atomic_u32_load_mm (cur_ticket l) then Some (TK_Wait ticket, l) else Some (TK_Held, l))"
| "odp_ticketlock_lock _ l = None"

fun odp_ticketlock_trylock :: "ticket_pc \<Rightarrow> odp_ticketlock \<Rightarrow> (ticket_pc \<times> odp_ticketlock) option" where
  "odp_ticketlock_trylock TK_Idle l = Some (TK_Try (odp_atomic_load_u32 (next_ticket l)), l)"
| "odp_ticketlock_trylock (TK_Try nxt) l = (if nxt = odp_atomic_load_u32 (cur_ticket l) then Some (TK_Cas nxt, l) else Some (TK_Idle, l))"
| "odp_ticketlock_trylock (TK_Cas nxt) l =
    (let (ok, v) = atomic_u32_cmp_xchg_strong_mm (next_ticket l) nxt (nxt + 1)
     in Some (if ok then TK_Held else TK_Idle, l\<lparr>next_ticket := v\<rparr>))"
| "odp_ticketlock_trylock _ l = None"

fun odp_ticketlock_unlock :: "ticket_pc \<Rightarrow> odp_ticketlock \<Rightarrow> (ticket_pc \<times> odp_ticketlock) option" where
  "odp_ticketlock_unlock TK_Held l = Some (TK_Unlock (atomic_u32_load_mm (cur_ticket l)), l)"
| "odp_ticketlock_unlock (TK_Unlock cur) l = Some (TK_Idle, l\<lparr>cur_ticket := atomic_u32_store_mm (cur + 1)\<rparr>)"
| "odp_ticketlock_unlock _ l = None"

definition odp_ticketlock_is_locked :: "odp_ticketlock \<Rightarrow> bool" where
  "odp_ticketlock_is_locked l \<longleftrightarrow> odp_atomic_load_u32 (cur_ticket l) \<noteq> odp_atomic_load_u32 (next_ticket l)"

section \<open>Spinlock\<close>

record odp_spinlock =
  sp_lock :: bool

definition odp_spinlock_init :: odp_spinlock where
  "odp_spinlock_init = \<lparr>sp_lock = atomic_flag_init False\<rparr>"

text \<open>Outside, before a further test-and-set, in the inner loop, owner.\<close>

datatype spin_pc = SP_Idle | SP_Tas | SP_Spin | SP_Held

definition spin_tas :: "spin_pc \<Rightarrow> odp_spinlock \<Rightarrow> (spin_pc \<times> odp_spinlock) option" where
  "spin_tas busy l = (let (old, v) = atomic_flag_tas (sp_lock l) in Some (if old then busy else SP_Held, l\<lparr>sp_lock := v\<rparr>))"

fun odp_spinlock_lock :: "spin_pc \<Rightarrow> odp_spinlock \<Rightarrow> (spin_pc \<times> odp_spinlock) option" where
  "odp_spinlock_lock SP_Idle l = spin_tas SP_Spin l"
| "odp_spinlock_lock SP_Tas l = spin_tas SP_Spin l"
| "odp_spinlock_lock SP_Spin l = (if atomic_flag_load (sp_lock l) then Some (SP_Spin, l) else Some (SP_Tas, l))"
| "odp_spinlock_lock SP_Held l = None"

fun odp_spinlock_trylock :: "spin_pc \<Rightarrow> odp_spinlock \<Rightarrow> (spin_pc \<times> odp_spinlock) option" where
  "odp_spinlock_trylock SP_Idle l = spin_tas SP_Idle l"
| "odp_spinlock_trylock _ l = None"

fun odp_spinlock_unlock :: "spin_pc \<Rightarrow> odp_spinlock \<Rightarrow> (spin_pc \<times> odp_spinlock) option" where
  "odp_spinlock_unlock SP_Held l = Some (SP_Idle, l\<lparr>sp_lock := atomic_flag_clear\<rparr>)"
| "odp_spinlock_unlock _ l = None"

definition odp_spinlock_is_locked :: "odp_spinlock \<Rightarrow> bool" where
  "odp_spinlock_is_locked l \<longleftrightarrow> atomic_flag_load (sp_lock l)"

section \<open>Reader/writer lock\<close>

record odp_rwlock =
  rw_cnt :: u32

definition odp_rwlock_init :: odp_rwlock where
  "odp_rwlock_init = \<lparr>rw_cnt = odp_atomic_init_u32 0\<rparr>"

text \<open>Outside; in each locking function before the load and before the exchange; owner.\<close>

datatype rw_pc = RW_Idle | RW_Read_Load | RW_Read_Cas u32 | RW_Reading | RW_Write_Load | RW_Write_Cas | RW_Writing

definition read_load :: "odp_rwlock \<Rightarrow> (rw_pc \<times> odp_rwlock) option" where
  "read_load l = (let cnt = atomic_u32_load_mm (rw_cnt l) in if sint cnt < 0 then Some (RW_Read_Load, l) else Some (RW_Read_Cas cnt, l))"

fun odp_rwlock_read_lock :: "rw_pc \<Rightarrow> odp_rwlock \<Rightarrow> (rw_pc \<times> odp_rwlock) option" where
  "odp_rwlock_read_lock RW_Idle l = read_load l"
| "odp_rwlock_read_lock RW_Read_Load l = read_load l"
| "odp_rwlock_read_lock (RW_Read_Cas cnt) l =
    (let (ok, v) = atomic_u32_cmp_xchg_strong_mm (rw_cnt l) cnt (cnt + 1)
     in Some (if ok then RW_Reading else RW_Read_Load, l\<lparr>rw_cnt := v\<rparr>))"
| "odp_rwlock_read_lock _ l = None"

fun odp_rwlock_read_unlock :: "rw_pc \<Rightarrow> odp_rwlock \<Rightarrow> (rw_pc \<times> odp_rwlock) option" where
  "odp_rwlock_read_unlock RW_Reading l = Some (RW_Idle, l\<lparr>rw_cnt := atomic_u32_sub_mm (rw_cnt l) 1\<rparr>)"
| "odp_rwlock_read_unlock _ l = None"

definition write_load :: "odp_rwlock \<Rightarrow> (rw_pc \<times> odp_rwlock) option" where
  "write_load l = (let cnt = atomic_u32_load_mm (rw_cnt l) in if cnt \<noteq> 0 then Some (RW_Write_Load, l) else Some (RW_Write_Cas, l))"

fun odp_rwlock_write_lock :: "rw_pc \<Rightarrow> odp_rwlock \<Rightarrow> (rw_pc \<times> odp_rwlock) option" where
  "odp_rwlock_write_lock RW_Idle l = write_load l"
| "odp_rwlock_write_lock RW_Write_Load l = write_load l"
| "odp_rwlock_write_lock RW_Write_Cas l =
    (let (ok, v) = atomic_u32_cmp_xchg_strong_mm (rw_cnt l) 0 (-1)
     in Some (if ok then RW_Writing else RW_Write_Load, l\<lparr>rw_cnt := v\<rparr>))"
| "odp_rwlock_write_lock _ l = None"

fun odp_rwlock_write_unlock :: "rw_pc \<Rightarrow> odp_rwlock \<Rightarrow> (rw_pc \<times> odp_rwlock) option" where
  "odp_rwlock_write_unlock RW_Writing l = Some (RW_Idle, l\<lparr>rw_cnt := atomic_u32_store_mm 0\<rparr>)"
| "odp_rwlock_write_unlock _ l = None"

section \<open>Barrier\<close>

record odp_barrier =
  bar_count :: u32
  bar_bar :: u32

definition odp_barrier_init :: "int \<Rightarrow> odp_barrier" where
  "odp_barrier_init count = \<lparr>bar_count = word_of_int count, bar_bar = odp_atomic_init_u32 0\<rparr>"

text \<open>Outside, before the wrap around, in the loop with \<open>wasless\<close>.\<close>

datatype barrier_pc = BR_Idle | BR_Wrap | BR_Spin bool

fun odp_barrier_wait :: "barrier_pc \<Rightarrow> odp_barrier \<Rightarrow> barrier_pc \<times> odp_barrier" where
  "odp_barrier_wait BR_Idle b =
    (let (count, v) = odp_atomic_fetch_inc_u32 (bar_bar b); wasless = count < bar_count b
     in (if count = 2 * bar_count b - 1 then BR_Wrap else BR_Spin wasless, b\<lparr>bar_bar := v\<rparr>))"
| "odp_barrier_wait BR_Wrap b = (BR_Idle, b\<lparr>bar_bar := odp_atomic_sub_u32 (bar_bar b) (2 * bar_count b)\<rparr>)"
| "odp_barrier_wait (BR_Spin wasless) b =
    (if (odp_atomic_load_u32 (bar_bar b) < bar_count b) = wasless then (BR_Spin wasless, b) else (BR_Idle, b))"

end
