(* ===== verification/Odp_Locks_Correct.thy ===== *)
theory Odp_Locks_Correct
  imports Odp_Locks "HOL-Library.Sublist"
begin

text \<open>
  The synchronizers under all interleavings of their atomic accesses: mutual exclusion and order of the ticket lock, mutual exclusion of the
  spinlock, exclusion of writers by the reader/writer lock, rounds of the barrier. The locale \<open>mutex\<close> states what a lock promises and proves
  once what it is for: critical sections behave as single steps, which is how the other theories treat what the code does under a lock.
\<close>

section \<open>Mutual exclusion and what it is for\<close>

text \<open>
  A lock that lets one thread in at a time. A client of it reads shared data, computes, and writes them back, all between taking and releasing
  the lock; between these steps other threads run.
\<close>

record ('s, 'd) client =
  cl_lock :: 's
  cl_data :: 'd
  cl_tmp :: "nat \<Rightarrow> 'd option"
  cl_log :: "('d \<Rightarrow> 'd) list"

inductive client_step :: "('s \<Rightarrow> nat \<Rightarrow> 's \<Rightarrow> bool) \<Rightarrow> ('s \<Rightarrow> nat \<Rightarrow> bool) \<Rightarrow> ('s, 'd) client \<Rightarrow> nat \<Rightarrow> ('s, 'd) client \<Rightarrow> bool"
  for step holds where
  client_lock: "step (cl_lock c) t l \<Longrightarrow> cl_tmp c t = None \<Longrightarrow> client_step step holds c t (c\<lparr>cl_lock := l\<rparr>)"
| client_read: "holds (cl_lock c) t \<Longrightarrow> cl_tmp c t = None \<Longrightarrow> client_step step holds c t (c\<lparr>cl_tmp := (cl_tmp c)(t := Some (cl_data c))\<rparr>)"
| client_write: "holds (cl_lock c) t \<Longrightarrow> cl_tmp c t = Some d \<Longrightarrow>
    client_step step holds c t (c\<lparr>cl_data := f d, cl_tmp := (cl_tmp c)(t := None), cl_log := cl_log c @ [f]\<rparr>)"

definition client_init :: "'s \<Rightarrow> 'd \<Rightarrow> ('s, 'd) client" where
  "client_init s d = \<lparr>cl_lock = s, cl_data = d, cl_tmp = (\<lambda>_. None), cl_log = []\<rparr>"

locale mutex =
  fixes start :: 's and step :: "'s \<Rightarrow> nat \<Rightarrow> 's \<Rightarrow> bool" and holds :: "'s \<Rightarrow> nat \<Rightarrow> bool" and inv :: "'s \<Rightarrow> bool"
  assumes inv_start: "inv start"
    and inv_step: "inv s \<Longrightarrow> step s t s' \<Longrightarrow> inv s'"
    and exclusive: "inv s \<Longrightarrow> holds s t \<Longrightarrow> holds s u \<Longrightarrow> t = u"
    and others: "inv s \<Longrightarrow> step s t s' \<Longrightarrow> u \<noteq> t \<Longrightarrow> holds s' u = holds s u"
begin

lemma inv_runs: "runs step start s \<Longrightarrow> inv s"
  by (erule runs_invariant [of step start s inv]) (use inv_start inv_step in blast)+

lemma mutual_exclusion: "runs step start s \<Longrightarrow> holds s t \<Longrightarrow> holds s u \<Longrightarrow> t = u"
  using inv_runs exclusive by blast

text \<open>The updates of the shared data happen as if each were one step.\<close>

definition client_ok :: "'d \<Rightarrow> ('s, 'd) client \<Rightarrow> bool" where
  "client_ok d0 c \<longleftrightarrow> inv (cl_lock c) \<and> (\<forall>t d. cl_tmp c t = Some d \<longrightarrow> holds (cl_lock c) t \<and> d = cl_data c) \<and>
    cl_data c = fold (\<lambda>f. f) (cl_log c) d0"

lemma client_ok_step:
  assumes "client_ok d0 c" "client_step step holds c t c'"
  shows "client_ok d0 c'"
  using assms(2)
proof cases
  case (client_lock l)
  have "holds l u" if "cl_tmp c u = Some d" for u d
  proof -
    have "u \<noteq> t" using that client_lock(3) by auto
    then show ?thesis using others [OF _ client_lock(2)] assms(1) that by (auto simp: client_ok_def)
  qed
  then show ?thesis using assms(1) client_lock inv_step by (auto simp: client_ok_def)
next
  case client_read
  then show ?thesis using assms(1) by (auto simp: client_ok_def)
next
  case (client_write d f)
  have "u = t" if "cl_tmp c u = Some e" for u e
    using that assms(1) client_write(2) exclusive by (auto simp: client_ok_def)
  then have n: "((cl_tmp c)(t := None)) u = None" for u by (cases "cl_tmp c u") auto
  have "d = cl_data c" using assms(1) client_write(3) unfolding client_ok_def by blast
  then show ?thesis using assms(1) n unfolding client_write(1) by (simp add: client_ok_def)
qed

lemma serial_updates:
  assumes "runs (client_step step holds) (client_init start d0) c"
  shows "cl_data c = fold (\<lambda>f. f) (cl_log c) d0"
proof -
  have "client_ok d0 (client_init start d0)" using inv_start by (simp add: client_ok_def client_init_def)
  then have "client_ok d0 c" by (rule runs_invariant [OF assms, of "client_ok d0"]) (rule client_ok_step)
  then show ?thesis by (simp add: client_ok_def)
qed

end

section \<open>Ticket lock\<close>

text \<open>
  The lock and the threads, with a history: who took tickets, who got the lock, and for a thread in \<open>trylock\<close> the number of tickets
  taken when it read \<open>next_ticket\<close>.
\<close>

record ticket_sys =
  tk_lock :: odp_ticketlock
  tk_pc :: "nat \<Rightarrow> ticket_pc"
  tk_order :: "nat list"
  tk_served :: "nat list"
  tk_seen :: "nat \<Rightarrow> nat"

definition ticket_start :: ticket_sys where
  "ticket_start = \<lparr>tk_lock = odp_ticketlock_init, tk_pc = (\<lambda>_. TK_Idle), tk_order = [], tk_served = [], tk_seen = (\<lambda>_. 0)\<rparr>"

text \<open>
  Tickets repeat after \<open>2 ^ 32\<close> of them. A thread in the middle of \<open>trylock\<close> is assumed not to be overtaken by as many tickets; without that,
  the exchange would take a repeated ticket for the one it read.
\<close>

inductive ticket_step :: "nat \<Rightarrow> ticket_sys \<Rightarrow> nat \<Rightarrow> ticket_sys \<Rightarrow> bool" for N where
  ticket_lock: "t < N \<Longrightarrow> odp_ticketlock_lock (tk_pc s t) (tk_lock s) = Some (pc, l) \<Longrightarrow>
    ticket_step N s t (s\<lparr>tk_lock := l, tk_pc := (tk_pc s)(t := pc),
      tk_order := (if tk_pc s t = TK_Idle then tk_order s @ [t] else tk_order s),
      tk_served := (if pc = TK_Held then tk_served s @ [t] else tk_served s)\<rparr>)"
| ticket_trylock: "t < N \<Longrightarrow> odp_ticketlock_trylock (tk_pc s t) (tk_lock s) = Some (pc, l) \<Longrightarrow>
    tk_pc s t \<noteq> TK_Idle \<longrightarrow> length (tk_order s) < tk_seen s t + 2 ^ 32 \<Longrightarrow>
    ticket_step N s t (s\<lparr>tk_lock := l, tk_pc := (tk_pc s)(t := pc),
      tk_order := (if pc = TK_Held then tk_order s @ [t] else tk_order s),
      tk_served := (if pc = TK_Held then tk_served s @ [t] else tk_served s),
      tk_seen := (if tk_pc s t = TK_Idle then (tk_seen s)(t := length (tk_order s)) else tk_seen s)\<rparr>)"
| ticket_unlock: "t < N \<Longrightarrow> odp_ticketlock_unlock (tk_pc s t) (tk_lock s) = Some (pc, l) \<Longrightarrow>
    ticket_step N s t (s\<lparr>tk_lock := l, tk_pc := (tk_pc s)(t := pc)\<rparr>)"

fun tk_owner :: "ticket_pc \<Rightarrow> bool" where
  "tk_owner TK_Held = True"
| "tk_owner (TK_Unlock _) = True"
| "tk_owner _ = False"

fun tk_waits :: "ticket_pc \<Rightarrow> bool" where
  "tk_waits (TK_Wait _) = True"
| "tk_waits _ = False"

text \<open>The first \<open>r\<close> tickets are done; the others are those of the owner, if there is one, and of the waiting threads, in order.\<close>

definition ticket_at :: "nat \<Rightarrow> nat \<Rightarrow> ticket_sys \<Rightarrow> bool" where
  "ticket_at N r s \<longleftrightarrow>
    (let ord = tk_order s; pc = tk_pc s; q = drop r ord
     in r \<le> length ord \<and> distinct q \<and> set q \<subseteq> {..<N} \<and> next_ticket (tk_lock s) = of_nat (length ord) \<and> cur_ticket (tk_lock s) = of_nat r \<and>
        (\<forall>t. (tk_owner (pc t) \<or> tk_waits (pc t)) = (t \<in> set q)) \<and>
        (\<forall>k. r \<le> k \<and> k < length ord \<longrightarrow> pc (ord ! k) = TK_Wait (of_nat k) \<or> k = r \<and> (pc (ord ! k) = TK_Held \<or> pc (ord ! k) = TK_Unlock (of_nat r))) \<and>
        tk_served s = take (if r < length ord \<and> tk_owner (pc (ord ! r)) then Suc r else r) ord \<and>
        (\<forall>t n. pc t = TK_Try n \<or> pc t = TK_Cas n \<longrightarrow> n = of_nat (tk_seen s t) \<and> tk_seen s t \<le> length ord) \<and>
        (\<forall>t n. pc t = TK_Cas n \<longrightarrow> tk_seen s t \<le> r))"

definition ticket_inv :: "nat \<Rightarrow> ticket_sys \<Rightarrow> bool" where
  "ticket_inv N s \<longleftrightarrow> (\<exists>r. ticket_at N r s)"

lemma ticket_inv_start: "ticket_inv N ticket_start"
  unfolding ticket_inv_def by (rule exI [of _ 0]) (simp add: ticket_at_def ticket_start_def odp_ticketlock_init_def)

lemma ticket_atD:
  assumes "ticket_at N r s"
  shows "r \<le> length (tk_order s)" "distinct (drop r (tk_order s))" "set (drop r (tk_order s)) \<subseteq> {..<N}"
    "next_ticket (tk_lock s) = of_nat (length (tk_order s))" "cur_ticket (tk_lock s) = of_nat r"
    "(tk_owner (tk_pc s t) \<or> tk_waits (tk_pc s t)) = (t \<in> set (drop r (tk_order s)))"
    "r \<le> k \<Longrightarrow> k < length (tk_order s) \<Longrightarrow> tk_pc s (tk_order s ! k) = TK_Wait (of_nat k) \<or>
      k = r \<and> (tk_pc s (tk_order s ! k) = TK_Held \<or> tk_pc s (tk_order s ! k) = TK_Unlock (of_nat r))"
    "tk_served s = take (if r < length (tk_order s) \<and> tk_owner (tk_pc s (tk_order s ! r)) then Suc r else r) (tk_order s)"
    "tk_pc s t = TK_Try n \<or> tk_pc s t = TK_Cas n \<Longrightarrow> n = of_nat (tk_seen s t) \<and> tk_seen s t \<le> length (tk_order s)"
    "tk_pc s t = TK_Cas n \<Longrightarrow> tk_seen s t \<le> r"
  using assms unfolding ticket_at_def Let_def by blast+

lemma ticket_waiting:
  assumes "ticket_at N r s" "N < 2 ^ 32"
  shows "length (tk_order s) < r + 2 ^ 32"
proof -
  note D = ticket_atD [OF assms(1)]
  have "length (drop r (tk_order s)) \<le> N"
    using distinct_card [OF D(2)] card_mono [OF _ D(3)] by simp
  then show ?thesis using D(1) assms(2) by simp
qed

lemma drop_index:
  assumes "distinct (drop r xs)" "r \<le> i" "i < length xs" "r \<le> j" "j < length xs" "xs ! i = xs ! j"
  shows "i = j"
proof -
  have "drop r xs ! (i - r) = drop r xs ! (j - r)" using assms by simp
  then have "i - r = j - r" using assms(2-5) nth_eq_iff_index_eq [OF assms(1), of "i - r" "j - r"] by simp
  then show ?thesis using assms(2,4) by simp
qed

lemma in_drop:
  assumes "t \<in> set (drop r xs)"
  obtains k where "r \<le> k" "k < length xs" "t = xs ! k"
proof -
  from assms obtain i where "i < length xs - r" "t = drop r xs ! i" by (auto simp: in_set_conv_nth)
  then show thesis by (intro that [of "r + i"]) auto
qed

lemma not_in_drop: "t \<notin> set (drop r xs) \<Longrightarrow> r \<le> k \<Longrightarrow> k < length xs \<Longrightarrow> xs ! k \<noteq> t"
  using nth_mem [of "k - r" "drop r xs"] by auto

text \<open>The owner has the oldest ticket that is not done.\<close>

lemma ticket_owner:
  assumes "ticket_at N r s" "tk_owner (tk_pc s t)"
  shows "r < length (tk_order s)" "t = tk_order s ! r" "tk_pc s t = TK_Held \<or> tk_pc s t = TK_Unlock (of_nat r)"
proof -
  note D = ticket_atD [OF assms(1)]
  from D(6) [of t] assms(2) obtain k where k: "r \<le> k" "k < length (tk_order s)" "t = tk_order s ! k" by (auto elim: in_drop)
  with D(7) [OF k(1,2)] assms(2) have "k = r" by auto
  then show "r < length (tk_order s)" "t = tk_order s ! r" "tk_pc s t = TK_Held \<or> tk_pc s t = TK_Unlock (of_nat r)"
    using D(7) [OF k(1,2)] k assms(2) by auto
qed

text \<open>A thread that sees its ticket has the oldest one.\<close>

lemma ticket_turn:
  assumes "ticket_at N r s" "N < 2 ^ 32" "tk_pc s t = TK_Wait (cur_ticket (tk_lock s))"
  shows "r < length (tk_order s)" "t = tk_order s ! r"
proof -
  note D = ticket_atD [OF assms(1)]
  from D(6) [of t] assms(3) obtain k where k: "r \<le> k" "k < length (tk_order s)" "t = tk_order s ! k" by (auto elim: in_drop)
  then have "(of_nat k :: u32) = of_nat r" using D(5) D(7) [OF k(1,2)] assms(3) by auto
  then have "k = r" by (rule of_nat_eq_near) (use k ticket_waiting [OF assms(1,2)] in simp_all)
  then show "r < length (tk_order s)" "t = tk_order s ! r" using k by simp_all
qed

text \<open>A thread outside the queue changes its program counter to another one outside.\<close>

lemma ticket_outside:
  assumes at: "ticket_at N r s" and pc: "\<not> tk_owner (tk_pc s t)" "\<not> tk_waits (tk_pc s t)" "\<not> tk_owner p" "\<not> tk_waits p"
    and s': "tk_order s' = tk_order s" "tk_pc s' = (tk_pc s)(t := p)" "tk_lock s' = tk_lock s" "tk_served s' = tk_served s"
    and seen: "\<And>u. u \<noteq> t \<Longrightarrow> tk_seen s' u = tk_seen s u"
    and tr: "\<And>n. p = TK_Try n \<or> p = TK_Cas n \<Longrightarrow> n = of_nat (tk_seen s' t) \<and> tk_seen s' t \<le> length (tk_order s)"
    and cas: "\<And>n. p = TK_Cas n \<Longrightarrow> tk_seen s' t \<le> r"
  shows "ticket_at N r s'"
proof -
  note D = ticket_atD [OF at]
  have t: "t \<notin> set (drop r (tk_order s))" using D(6) [of t] pc by simp
  note ne = not_in_drop [OF t]
  have "(tk_owner (tk_pc s' u) \<or> tk_waits (tk_pc s' u)) = (u \<in> set (drop r (tk_order s)))" for u
    using D(6) [of u] t pc by (simp add: s')
  moreover have "tk_pc s' (tk_order s ! k) = tk_pc s (tk_order s ! k)" if "r \<le> k" "k < length (tk_order s)" for k
    using ne [OF that] by (simp add: s')
  moreover have "n = of_nat (tk_seen s' u) \<and> tk_seen s' u \<le> length (tk_order s)" if "tk_pc s' u = TK_Try n \<or> tk_pc s' u = TK_Cas n" for u n
    using that tr [of n] D(9) [of u n] seen [of u] by (cases "u = t") (auto simp: s')
  moreover have "tk_seen s' u \<le> r" if "tk_pc s' u = TK_Cas n" for u n
    using that cas [of n] D(10) [of u n] seen [of u] by (cases "u = t") (auto simp: s')
  moreover have "tk_served s = take (if r < length (tk_order s) \<and> tk_owner (tk_pc s' (tk_order s ! r)) then Suc r else r) (tk_order s)"
    using D(8) ne [of r] pc(3) by (auto simp: s')
  ultimately show ?thesis
    unfolding ticket_at_def Let_def s'(1,3,4) using D(1-5,7) by simp
qed

text \<open>A new ticket at the end.\<close>

lemma ticket_join:
  assumes at: "ticket_at N r s" and t: "t < N" "\<not> tk_owner (tk_pc s t)" "\<not> tk_waits (tk_pc s t)"
    and s': "tk_order s' = tk_order s @ [t]" "tk_pc s' = (tk_pc s)(t := p)" "tk_seen s' = tk_seen s"
      "tk_lock s' = (tk_lock s)\<lparr>next_ticket := of_nat (length (tk_order s)) + 1\<rparr>"
    and p: "p = TK_Wait (of_nat (length (tk_order s))) \<and> tk_served s' = tk_served s \<or>
      p = TK_Held \<and> r = length (tk_order s) \<and> tk_served s' = tk_served s @ [t]"
  shows "ticket_at N r s'"
proof -
  note D = ticket_atD [OF at] let ?n = "length (tk_order s)"
  have tn: "t \<notin> set (drop r (tk_order s))" using D(6) [of t] t by simp
  note ne = not_in_drop [OF tn]
  have dr: "drop r (tk_order s') = drop r (tk_order s) @ [t]" using D(1) by (simp add: s')
  have "(tk_owner (tk_pc s' u) \<or> tk_waits (tk_pc s' u)) = (u \<in> set (drop r (tk_order s')))" for u
    using D(6) [of u] p unfolding dr by (auto simp: s')
  moreover have "tk_pc s' (tk_order s' ! k) = TK_Wait (of_nat k) \<or> k = r \<and> (tk_pc s' (tk_order s' ! k) = TK_Held \<or> tk_pc s' (tk_order s' ! k) = TK_Unlock (of_nat r))"
    if "r \<le> k" "k < length (tk_order s')" for k
    using that ne [of k] D(7) [of k] p by (cases "k = ?n") (auto simp: s' nth_append)
  moreover have "tk_served s' = take (if r < length (tk_order s') \<and> tk_owner (tk_pc s' (tk_order s' ! r)) then Suc r else r) (tk_order s')"
    using D(1,8) p ne [of r] by (cases "r = ?n") (auto simp: s' nth_append)
  moreover have "n = of_nat (tk_seen s' u) \<and> tk_seen s' u \<le> length (tk_order s')" if "tk_pc s' u = TK_Try n \<or> tk_pc s' u = TK_Cas n" for u n
    using that D(9) [of u n] p by (cases "u = t") (auto simp: s')
  moreover have "tk_seen s' u \<le> r" if "tk_pc s' u = TK_Cas n" for u n using that D(10) [of u n] p by (cases "u = t") (auto simp: s')
  moreover have "r \<le> length (tk_order s')" "distinct (drop r (tk_order s'))" "set (drop r (tk_order s')) \<subseteq> {..<N}"
    using D(1-3) t(1) tn unfolding dr by (auto simp: s'(1))
  moreover have "next_ticket (tk_lock s') = of_nat (length (tk_order s'))" "cur_ticket (tk_lock s') = of_nat r" using D(5) by (simp_all add: s' add.commute)
  ultimately show ?thesis unfolding ticket_at_def Let_def by blast
qed

text \<open>The owner, or the thread whose turn it is, changes its program counter.\<close>

lemma ticket_front:
  assumes at: "ticket_at N r s" and t: "r < length (tk_order s)" "t = tk_order s ! r"
    and p: "p = TK_Held \<or> p = TK_Unlock (of_nat r)"
    and s': "tk_order s' = tk_order s" "tk_pc s' = (tk_pc s)(t := p)" "tk_seen s' = tk_seen s" "tk_lock s' = tk_lock s"
      "tk_served s' = (if tk_owner (tk_pc s t) then tk_served s else tk_served s @ [t])"
  shows "ticket_at N r s'"
proof -
  note D = ticket_atD [OF at]
  have tin: "t \<in> set (drop r (tk_order s))" using t by (auto simp: in_set_conv_nth intro!: exI [of _ 0])
  have ne: "tk_order s ! k \<noteq> t" if "r < k" "k < length (tk_order s)" for k
    using drop_index [OF D(2), of k r] that t by auto
  have "(tk_owner (tk_pc s' u) \<or> tk_waits (tk_pc s' u)) = (u \<in> set (drop r (tk_order s)))" for u
    using D(6) [of u] tin p by (auto simp: s')
  moreover have "tk_pc s' (tk_order s ! k) = TK_Wait (of_nat k) \<or> k = r \<and> (tk_pc s' (tk_order s ! k) = TK_Held \<or> tk_pc s' (tk_order s ! k) = TK_Unlock (of_nat r))"
    if "r \<le> k" "k < length (tk_order s)" for k
    using that ne [of k] D(7) [of k] p t by (cases "k = r") (auto simp: s')
  moreover have "tk_served s' = take (if r < length (tk_order s) \<and> tk_owner (tk_pc s' (tk_order s ! r)) then Suc r else r) (tk_order s)"
    using D(8) p t take_Suc_conv_app_nth [OF t(1)] by (auto simp: s')
  moreover have "n = of_nat (tk_seen s' u) \<and> tk_seen s' u \<le> length (tk_order s)" if "tk_pc s' u = TK_Try n \<or> tk_pc s' u = TK_Cas n" for u n
    using that D(9) [of u n] p by (cases "u = t") (auto simp: s')
  moreover have "tk_seen s' u \<le> r" if "tk_pc s' u = TK_Cas n" for u n using that D(10) [of u n] p by (cases "u = t") (auto simp: s')
  ultimately show ?thesis unfolding ticket_at_def Let_def s'(1,4) using D(1-5) by blast
qed

text \<open>The owner leaves.\<close>

lemma ticket_leave:
  assumes at: "ticket_at N r s" and t: "tk_pc s t = TK_Unlock c"
    and s': "tk_order s' = tk_order s" "tk_pc s' = (tk_pc s)(t := TK_Idle)" "tk_seen s' = tk_seen s"
      "tk_lock s' = (tk_lock s)\<lparr>cur_ticket := c + 1\<rparr>" "tk_served s' = tk_served s"
  shows "ticket_at N (Suc r) s'"
proof -
  note D = ticket_atD [OF at]
  have own: "tk_owner (tk_pc s t)" using t by simp
  note O = ticket_owner [OF at own]
  have c: "c = of_nat r" using O(3) t by simp
  have dr: "drop r (tk_order s) = t # drop (Suc r) (tk_order s)" using Cons_nth_drop_Suc [OF O(1)] O(2) by simp
  have ne: "tk_order s ! k \<noteq> t" if "r < k" "k < length (tk_order s)" for k
    using drop_index [OF D(2), of k r] that O by auto
  have wait: "tk_pc s' (tk_order s ! k) = TK_Wait (of_nat k)" if "Suc r \<le> k" "k < length (tk_order s)" for k
    using that ne [of k] D(7) [of k] by (simp add: s')
  have "(tk_owner (tk_pc s' u) \<or> tk_waits (tk_pc s' u)) = (u \<in> set (drop (Suc r) (tk_order s)))" for u
    using D(6) [of u] D(2) unfolding dr by (auto simp: s')
  moreover have "tk_served s = take (if Suc r < length (tk_order s) \<and> tk_owner (tk_pc s' (tk_order s ! Suc r)) then Suc (Suc r) else Suc r) (tk_order s)"
    using D(8) O(1,2) own wait [of "Suc r"] by auto
  moreover have "n = of_nat (tk_seen s u) \<and> tk_seen s u \<le> length (tk_order s)" if "tk_pc s' u = TK_Try n \<or> tk_pc s' u = TK_Cas n" for u n
    using that D(9) [of u n] by (cases "u = t") (auto simp: s')
  moreover have "tk_seen s u \<le> Suc r" if "tk_pc s' u = TK_Cas n" for u n using that D(10) [of u n] by (cases "u = t") (auto simp: s')
  moreover have "Suc r \<le> length (tk_order s)" "distinct (drop (Suc r) (tk_order s))" "set (drop (Suc r) (tk_order s)) \<subseteq> {..<N}"
    using O(1) D(2,3) unfolding dr by auto
  moreover have "next_ticket (tk_lock s') = of_nat (length (tk_order s))" "cur_ticket (tk_lock s') = of_nat (Suc r)" using D(4) by (simp_all add: s' c add.commute)
  ultimately show ?thesis unfolding ticket_at_def Let_def s'(1,3,5) using wait by blast
qed

lemma ticket_inv_step:
  assumes inv: "ticket_inv N s" and N: "N < 2 ^ 32" and st: "ticket_step N s t s'"
  shows "ticket_inv N s'"
proof -
  from inv obtain r where at: "ticket_at N r s" by (auto simp: ticket_inv_def)
  note D = ticket_atD [OF at] note W = ticket_waiting [OF at N]
  have "ticket_at N r s' \<or> ticket_at N (Suc r) s'"
    using st
  proof cases
    case (ticket_lock pc l)
    show ?thesis
    proof (cases "tk_pc s t")
      case TK_Idle
      then show ?thesis using ticket_lock D(4) by (intro disjI1 ticket_join [OF at ticket_lock(2), of s' pc]) auto
    next
      case (TK_Wait k)
      show ?thesis
      proof (cases "k = cur_ticket (tk_lock s)")
        case True
        then show ?thesis using ticket_lock TK_Wait ticket_turn [OF at N, of t]
          by (intro disjI1 ticket_front [OF at, of t pc]) auto
      next
        case False
        then have "s' = s" using ticket_lock TK_Wait by (auto simp: fun_upd_idem)
        then show ?thesis using at by simp
      qed
    qed (use ticket_lock in simp_all)
  next
    case (ticket_trylock pc l)
    show ?thesis
    proof (cases "tk_pc s t")
      case TK_Idle
      then show ?thesis using ticket_trylock D(4) by (intro disjI1 ticket_outside [OF at, of t pc]) auto
    next
      case (TK_Try n)
      note T = D(9) [of t n, OF disjI1 [OF TK_Try]]
      have lap: "length (tk_order s) < tk_seen s t + 2 ^ 32" using ticket_trylock(4) TK_Try by simp
      have seen: "tk_seen s t \<le> r" if "n = cur_ticket (tk_lock s)"
      proof -
        have "(of_nat (tk_seen s t) :: u32) = of_nat r" using that T D(5) by simp
        then have "tk_seen s t = r" by (rule of_nat_eq_near) (use T W D(1) lap in linarith)+
        then show ?thesis by simp
      qed
      show ?thesis using ticket_trylock TK_Try T seen by (intro disjI1 ticket_outside [OF at, of t pc]) (auto split: if_splits)
    next
      case (TK_Cas n)
      note T = D(9) [of t n, OF disjI2 [OF TK_Cas]]
      have lap: "length (tk_order s) < tk_seen s t + 2 ^ 32" using ticket_trylock(4) TK_Cas by simp
      show ?thesis
      proof (cases "next_ticket (tk_lock s) = n")
        case True
        then have "(of_nat (tk_seen s t) :: u32) = of_nat (length (tk_order s))" using T D(4) by simp
        then have "tk_seen s t = length (tk_order s)" by (rule of_nat_eq_near) (use T lap in linarith)+
        then have r: "r = length (tk_order s)" using D(1) D(10) [OF TK_Cas] by simp
        show ?thesis using ticket_trylock TK_Cas True r D(4) by - (rule disjI1, rule ticket_join [OF at ticket_trylock(2), of s' pc]; auto)
      next
        case False
        then show ?thesis using ticket_trylock TK_Cas by (intro disjI1 ticket_outside [OF at, of t pc]) auto
      qed
    qed (use ticket_trylock in simp_all)
  next
    case (ticket_unlock pc l)
    show ?thesis
    proof (cases "tk_pc s t")
      case TK_Held
      then show ?thesis using ticket_unlock ticket_owner [OF at, of t] D(5) by - (rule disjI1, rule ticket_front [OF at, of t pc]; auto)
    next
      case (TK_Unlock c)
      then show ?thesis using ticket_unlock by (intro disjI2 ticket_leave [OF at TK_Unlock]) auto
    qed (use ticket_unlock in simp_all)
  qed
  then show ?thesis by (auto simp: ticket_inv_def)
qed

abbreviation ticket_holds :: "ticket_sys \<Rightarrow> nat \<Rightarrow> bool" where
  "ticket_holds s t \<equiv> tk_owner (tk_pc s t)"

lemma ticket_step_others: "ticket_step N s t s' \<Longrightarrow> u \<noteq> t \<Longrightarrow> tk_pc s' u = tk_pc s u"
  by (erule ticket_step.cases) simp_all

interpretation ticket: mutex ticket_start "ticket_step ODP_CONFIG_MAX_THREADS" ticket_holds "ticket_inv ODP_CONFIG_MAX_THREADS"
proof
  have N: "ODP_CONFIG_MAX_THREADS < 2 ^ 32" by (simp add: ODP_CONFIG_MAX_THREADS_def)
  show "ticket_inv ODP_CONFIG_MAX_THREADS s'" if "ticket_inv ODP_CONFIG_MAX_THREADS s" "ticket_step ODP_CONFIG_MAX_THREADS s t s'" for s t s'
    by (rule ticket_inv_step [OF that(1) N that(2)])
  show "t = u" if i: "ticket_inv ODP_CONFIG_MAX_THREADS s" and h: "ticket_holds s t" "ticket_holds s u" for s t u
  proof -
    from i obtain r where "ticket_at ODP_CONFIG_MAX_THREADS r s" by (auto simp: ticket_inv_def)
    from ticket_owner(2) [OF this h(1)] ticket_owner(2) [OF this h(2)] show ?thesis by simp
  qed
qed (simp_all add: ticket_inv_start ticket_step_others)

text \<open>
  C34: However threads interleave in taking, trying and releasing a ticket lock, one atomic access at a time and with tickets wrapping around, at
  most one thread owns it. The lock is given in the order in which tickets were taken. When threads wait and no thread owns the lock, the
  one with the oldest ticket gets it at its next look. The lock reads as locked exactly when a thread owns it or waits for it.
\<close>

theorem ticketlock_correct:
  assumes run: "runs (ticket_step ODP_CONFIG_MAX_THREADS) ticket_start s"
  shows "(\<forall>t u. ticket_holds s t \<and> ticket_holds s u \<longrightarrow> t = u) \<and> prefix (tk_served s) (tk_order s) \<and>
    ((\<exists>t. tk_waits (tk_pc s t)) \<and> (\<forall>t. \<not> ticket_holds s t) \<longrightarrow>
      (\<exists>w. w = tk_order s ! length (tk_served s) \<and> odp_ticketlock_lock (tk_pc s w) (tk_lock s) = Some (TK_Held, tk_lock s))) \<and>
    (odp_ticketlock_is_locked (tk_lock s) \<longleftrightarrow> (\<exists>t. ticket_holds s t \<or> tk_waits (tk_pc s t)))"
proof (intro conjI)
  show "\<forall>t u. ticket_holds s t \<and> ticket_holds s u \<longrightarrow> t = u" using ticket.mutual_exclusion [OF run] by blast
  from ticket.inv_runs [OF run] obtain r where at: "ticket_at ODP_CONFIG_MAX_THREADS r s" by (auto simp: ticket_inv_def)
  note D = ticket_atD [OF at]
  show "prefix (tk_served s) (tk_order s)" unfolding D(8) by (rule take_is_prefix)
  have "\<exists>w. w = tk_order s ! length (tk_served s) \<and> odp_ticketlock_lock (tk_pc s w) (tk_lock s) = Some (TK_Held, tk_lock s)"
    if w: "tk_waits (tk_pc s t)" and n: "\<forall>t. \<not> ticket_holds s t" for t
  proof -
    have r: "r < length (tk_order s)" using D(6) [of t] w by (cases "r < length (tk_order s)") auto
    have "length (tk_served s) = r" using D(8) n r by simp
    moreover have "tk_pc s (tk_order s ! r) = TK_Wait (of_nat r)" using D(7) [of r] r n [rule_format, of "tk_order s ! r"] by auto
    ultimately show ?thesis using D(5) by simp
  qed
  then show "(\<exists>t. tk_waits (tk_pc s t)) \<and> (\<forall>t. \<not> ticket_holds s t) \<longrightarrow>
      (\<exists>w. w = tk_order s ! length (tk_served s) \<and> odp_ticketlock_lock (tk_pc s w) (tk_lock s) = Some (TK_Held, tk_lock s))" by blast
  have "odp_ticketlock_is_locked (tk_lock s) \<longleftrightarrow> r \<noteq> length (tk_order s)"
  proof -
    have "(of_nat r :: u32) = of_nat (length (tk_order s)) \<longleftrightarrow> r = length (tk_order s)"
      using of_nat_eq_near [of r "length (tk_order s)"] D(1) ticket_waiting [OF at] by (auto simp: ODP_CONFIG_MAX_THREADS_def)
    then show ?thesis using D(4,5) by (simp add: odp_ticketlock_is_locked_def)
  qed
  also have "\<dots> \<longleftrightarrow> (\<exists>t. t \<in> set (drop r (tk_order s)))" using D(1) by (cases "drop r (tk_order s)") auto
  finally show "odp_ticketlock_is_locked (tk_lock s) \<longleftrightarrow> (\<exists>t. ticket_holds s t \<or> tk_waits (tk_pc s t))" using D(6) by simp
qed

section \<open>Spinlock\<close>

record spin_sys =
  ss_lock :: odp_spinlock
  ss_pc :: "nat \<Rightarrow> spin_pc"

definition spin_start :: spin_sys where
  "spin_start = \<lparr>ss_lock = odp_spinlock_init, ss_pc = (\<lambda>_. SP_Idle)\<rparr>"

inductive spin_step :: "spin_sys \<Rightarrow> nat \<Rightarrow> spin_sys \<Rightarrow> bool" where
  spin_lock: "odp_spinlock_lock (ss_pc s t) (ss_lock s) = Some (pc, l) \<Longrightarrow> spin_step s t (s\<lparr>ss_lock := l, ss_pc := (ss_pc s)(t := pc)\<rparr>)"
| spin_trylock: "odp_spinlock_trylock (ss_pc s t) (ss_lock s) = Some (pc, l) \<Longrightarrow> spin_step s t (s\<lparr>ss_lock := l, ss_pc := (ss_pc s)(t := pc)\<rparr>)"
| spin_unlock: "odp_spinlock_unlock (ss_pc s t) (ss_lock s) = Some (pc, l) \<Longrightarrow> spin_step s t (s\<lparr>ss_lock := l, ss_pc := (ss_pc s)(t := pc)\<rparr>)"

abbreviation spin_holds :: "spin_sys \<Rightarrow> nat \<Rightarrow> bool" where
  "spin_holds s t \<equiv> ss_pc s t = SP_Held"

definition spin_inv :: "spin_sys \<Rightarrow> bool" where
  "spin_inv s \<longleftrightarrow> (if sp_lock (ss_lock s) then \<exists>!t. spin_holds s t else \<forall>t. \<not> spin_holds s t)"

text \<open>What a call can do to the lock and the owner.\<close>

lemma spin_effect:
  assumes "spin_step s t s'"
  shows "\<exists>pc. ss_pc s' = (ss_pc s)(t := pc) \<and>
    (pc \<noteq> SP_Held \<and> ss_pc s t \<noteq> SP_Held \<and> sp_lock (ss_lock s') = sp_lock (ss_lock s) \<or>
     pc = SP_Held \<and> ss_pc s t \<noteq> SP_Held \<and> \<not> sp_lock (ss_lock s) \<and> sp_lock (ss_lock s') \<or>
     pc \<noteq> SP_Held \<and> ss_pc s t = SP_Held \<and> \<not> sp_lock (ss_lock s'))"
  using assms
proof cases
  case (spin_lock pc l)
  then show ?thesis by (cases "ss_pc s t") (auto simp: spin_tas_def split: if_splits intro!: exI [of _ pc])
next
  case (spin_trylock pc l)
  then show ?thesis by (cases "ss_pc s t") (auto simp: spin_tas_def split: if_splits intro!: exI [of _ pc])
next
  case (spin_unlock pc l)
  then show ?thesis by (cases "ss_pc s t") (auto intro!: exI [of _ pc])
qed

interpretation spin: mutex spin_start spin_step spin_holds spin_inv
proof
  show "spin_inv spin_start" by (simp add: spin_inv_def spin_start_def odp_spinlock_init_def)
  show "spin_inv s'" if i: "spin_inv s" and st: "spin_step s t s'" for s t s'
  proof -
    from spin_effect [OF st] obtain pc where e: "ss_pc s' = (ss_pc s)(t := pc)"
      "pc \<noteq> SP_Held \<and> ss_pc s t \<noteq> SP_Held \<and> sp_lock (ss_lock s') = sp_lock (ss_lock s) \<or>
       pc = SP_Held \<and> ss_pc s t \<noteq> SP_Held \<and> \<not> sp_lock (ss_lock s) \<and> sp_lock (ss_lock s') \<or>
       pc \<noteq> SP_Held \<and> ss_pc s t = SP_Held \<and> \<not> sp_lock (ss_lock s')" by blast
    from e(2) show ?thesis
    proof (elim disjE conjE)
      assume a: "pc \<noteq> SP_Held" "ss_pc s t \<noteq> SP_Held" "sp_lock (ss_lock s') = sp_lock (ss_lock s)"
      then have "spin_holds s' u = spin_holds s u" for u by (simp add: e(1))
      then show ?thesis using i a(3) by (simp add: spin_inv_def)
    next
      assume a: "pc = SP_Held" "\<not> sp_lock (ss_lock s)" "sp_lock (ss_lock s')"
      then have "spin_holds s' u = (u = t)" for u using i by (simp add: e(1) spin_inv_def)
      then show ?thesis using a(3) by (simp add: spin_inv_def)
    next
      assume a: "pc \<noteq> SP_Held" "ss_pc s t = SP_Held" "\<not> sp_lock (ss_lock s')"
      then have "\<not> spin_holds s' u" for u using i by (auto simp: e(1) spin_inv_def split: if_splits)
      then show ?thesis using a(3) by (simp add: spin_inv_def)
    qed
  qed
  show "t = u" if "spin_inv s" "spin_holds s t" "spin_holds s u" for s t u using that by (auto simp: spin_inv_def split: if_splits)
  show "spin_holds s' u = spin_holds s u" if "spin_inv s" "spin_step s t s'" "u \<noteq> t" for s t s' u
    using spin_effect [OF that(2)] that(3) by auto
qed

section \<open>Reader/writer lock\<close>

record rw_sys =
  rs_lock :: odp_rwlock
  rs_pc :: "nat \<Rightarrow> rw_pc"

definition rw_start :: rw_sys where
  "rw_start = \<lparr>rs_lock = odp_rwlock_init, rs_pc = (\<lambda>_. RW_Idle)\<rparr>"

inductive rw_step :: "nat \<Rightarrow> rw_sys \<Rightarrow> nat \<Rightarrow> rw_sys \<Rightarrow> bool" for N where
  rw_step_read_lock: "t < N \<Longrightarrow> odp_rwlock_read_lock (rs_pc s t) (rs_lock s) = Some (pc, l) \<Longrightarrow> rw_step N s t (s\<lparr>rs_lock := l, rs_pc := (rs_pc s)(t := pc)\<rparr>)"
| rw_step_read_unlock: "t < N \<Longrightarrow> odp_rwlock_read_unlock (rs_pc s t) (rs_lock s) = Some (pc, l) \<Longrightarrow> rw_step N s t (s\<lparr>rs_lock := l, rs_pc := (rs_pc s)(t := pc)\<rparr>)"
| rw_step_write_lock: "t < N \<Longrightarrow> odp_rwlock_write_lock (rs_pc s t) (rs_lock s) = Some (pc, l) \<Longrightarrow> rw_step N s t (s\<lparr>rs_lock := l, rs_pc := (rs_pc s)(t := pc)\<rparr>)"
| rw_step_write_unlock: "t < N \<Longrightarrow> odp_rwlock_write_unlock (rs_pc s t) (rs_lock s) = Some (pc, l) \<Longrightarrow> rw_step N s t (s\<lparr>rs_lock := l, rs_pc := (rs_pc s)(t := pc)\<rparr>)"

definition readers :: "rw_sys \<Rightarrow> nat set" where
  "readers s = {t. rs_pc s t = RW_Reading}"

definition writers :: "rw_sys \<Rightarrow> nat set" where
  "writers s = {t. rs_pc s t = RW_Writing}"

definition rw_inv :: "nat \<Rightarrow> rw_sys \<Rightarrow> bool" where
  "rw_inv N s \<longleftrightarrow> readers s \<subseteq> {..<N} \<and>
    (writers s = {} \<and> rw_cnt (rs_lock s) = of_nat (card (readers s)) \<or> (\<exists>w. writers s = {w} \<and> readers s = {} \<and> rw_cnt (rs_lock s) = -1)) \<and>
    (\<forall>t c. rs_pc s t = RW_Read_Cas c \<longrightarrow> 0 \<le> sint c)"

lemma rw_inv_start: "rw_inv N rw_start"
  by (simp add: rw_inv_def rw_start_def odp_rwlock_init_def readers_def writers_def)

text \<open>The ways a step can change who has the lock.\<close>

inductive rw_effect :: "u32 \<Rightarrow> rw_pc \<Rightarrow> u32 \<Rightarrow> rw_pc \<Rightarrow> bool" where
  rw_none: "p \<notin> {RW_Reading, RW_Writing} \<Longrightarrow> p' \<notin> {RW_Reading, RW_Writing} \<Longrightarrow> (\<And>n. p' = RW_Read_Cas n \<Longrightarrow> 0 \<le> sint n) \<Longrightarrow> rw_effect c p c p'"
| rw_read: "rw_effect c (RW_Read_Cas c) (c + 1) RW_Reading"
| rw_read_end: "rw_effect c RW_Reading (c - 1) RW_Idle"
| rw_write: "rw_effect 0 RW_Write_Cas (-1) RW_Writing"
| rw_write_end: "rw_effect c RW_Writing 0 RW_Idle"

lemma rw_step_effect:
  assumes "rw_step N s t s'"
  shows "t < N" "\<exists>p. rs_pc s' = (rs_pc s)(t := p) \<and> rw_effect (rw_cnt (rs_lock s)) (rs_pc s t) (rw_cnt (rs_lock s')) p"
proof -
  show "t < N" using assms by cases
  show "\<exists>p. rs_pc s' = (rs_pc s)(t := p) \<and> rw_effect (rw_cnt (rs_lock s)) (rs_pc s t) (rw_cnt (rs_lock s')) p"
    using assms
  proof cases
    case (rw_step_read_lock pc l)
    then show ?thesis
      by (cases "rs_pc s t") (auto simp: read_load_def Let_def intro!: exI [of _ pc] rw_effect.intros split: if_splits)
  next
    case (rw_step_read_unlock pc l)
    then show ?thesis by (cases "rs_pc s t") (auto intro!: exI [of _ pc] rw_effect.intros)
  next
    case (rw_step_write_lock pc l)
    then show ?thesis
      by (cases "rs_pc s t") (auto simp: write_load_def Let_def intro!: exI [of _ pc] rw_effect.intros split: if_splits)
  next
    case (rw_step_write_unlock pc l)
    then show ?thesis by (cases "rs_pc s t") (auto intro!: exI [of _ pc] rw_effect.intros)
  qed
qed

lemma rw_count_small:
  assumes "R \<subseteq> {..<N :: nat}" "N < 2 ^ 31"
  shows "card R < 2 ^ 31"
  using card_mono [OF _ assms(1)] assms(2) by simp

lemma rw_inv_step:
  assumes inv: "rw_inv N s" and N: "N < 2 ^ 31" and st: "rw_step N s t s'"
  shows "rw_inv N s'"
proof -
  from rw_step_effect [OF st] obtain p where t: "t < N" and pc: "rs_pc s' = (rs_pc s)(t := p)"
    and e: "rw_effect (rw_cnt (rs_lock s)) (rs_pc s t) (rw_cnt (rs_lock s')) p" by blast
  let ?R = "readers s" and ?W = "writers s" and ?c = "rw_cnt (rs_lock s)"
  have sub: "?R \<subseteq> {..<N}" and fin: "finite ?R" using inv by (auto simp: rw_inv_def intro: finite_subset)
  note small = rw_count_small [OF sub N]
  have I: "?W = {} \<and> ?c = of_nat (card ?R) \<or> (\<exists>w. ?W = {w} \<and> ?R = {} \<and> ?c = -1)" using inv by (simp add: rw_inv_def)
  have R': "readers s' = (if p = RW_Reading then insert t ?R else ?R - {t})" and W': "writers s' = (if p = RW_Writing then insert t ?W else ?W - {t})"
    by (auto simp: readers_def writers_def pc)
  have tR: "t \<in> ?R \<longleftrightarrow> rs_pc s t = RW_Reading" and tW: "t \<in> ?W \<longleftrightarrow> rs_pc s t = RW_Writing" by (simp_all add: readers_def writers_def)
  have cas: "\<forall>u c. rs_pc s' u = RW_Read_Cas c \<longrightarrow> 0 \<le> sint c" if "\<And>c. p = RW_Read_Cas c \<Longrightarrow> 0 \<le> sint c"
    using inv that by (auto simp: rw_inv_def pc)
  from e show ?thesis
  proof cases
    case rw_none
    then have "readers s' = ?R" "writers s' = ?W" using R' W' tR tW by auto
    then show ?thesis using sub I cas rw_none by (simp add: rw_inv_def)
  next
    case (rw_read)
    then have "0 \<le> sint ?c" using inv by (auto simp: rw_inv_def)
    then have "?c \<noteq> -1" by auto
    then have "?W = {}" "?c = of_nat (card ?R)" using I by auto
    moreover have "t \<notin> ?R" "t \<notin> ?W" using tR tW rw_read by simp_all
    ultimately show ?thesis using sub t fin cas rw_read R' W' by (simp add: rw_inv_def add.commute)
  next
    case (rw_read_end)
    then have tin: "t \<in> ?R" using tR by simp
    then have "?W = {}" "?c = of_nat (card ?R)" using I by auto
    moreover have "card ?R = Suc (card (?R - {t}))" using card.remove [OF fin tin] .
    ultimately show ?thesis using sub cas rw_read_end R' W' by (auto simp: rw_inv_def)
  next
    case rw_write
    then have "of_nat (card ?R) = (0 :: u32) \<and> ?W = {}" using I by auto
    then have "card ?R = 0" "?W = {}" using small word_of_nat_eq_0_iff [where ?'a = 32] by (auto dest: dvd_imp_le)
    then show ?thesis using fin cas rw_write R' W' by (simp add: rw_inv_def)
  next
    case (rw_write_end)
    then have "t \<in> ?W" using tW by simp
    then have "?W = {t}" "?R = {}" using I by auto
    then show ?thesis using cas rw_write_end R' W' by (simp add: rw_inv_def)
  qed
qed

interpretation writer: mutex rw_start "rw_step ODP_CONFIG_MAX_THREADS" "\<lambda>s t. rs_pc s t = RW_Writing" "rw_inv ODP_CONFIG_MAX_THREADS"
proof
  have N: "ODP_CONFIG_MAX_THREADS < 2 ^ 31" by (simp add: ODP_CONFIG_MAX_THREADS_def)
  show "rw_inv ODP_CONFIG_MAX_THREADS s'" if "rw_inv ODP_CONFIG_MAX_THREADS s" "rw_step ODP_CONFIG_MAX_THREADS s t s'" for s t s'
    by (rule rw_inv_step [OF that(1) N that(2)])
  show "t = u" if i: "rw_inv ODP_CONFIG_MAX_THREADS s" and "rs_pc s t = RW_Writing" "rs_pc s u = RW_Writing" for s t u
  proof -
    have "t \<in> writers s" "u \<in> writers s" using that by (simp_all add: writers_def)
    then show ?thesis using i by (auto simp: rw_inv_def)
  qed
  show "(rs_pc s' u = RW_Writing) = (rs_pc s u = RW_Writing)"
    if "rw_inv ODP_CONFIG_MAX_THREADS s" "rw_step ODP_CONFIG_MAX_THREADS s t s'" "u \<noteq> t" for s t s' u
    using rw_step_effect(2) [OF that(2)] that(3) by auto
qed (rule rw_inv_start)

text \<open>
  C36: However threads interleave, a thread that has a reader/writer lock for writing has it alone: no other thread writes and none reads. The counter
  is \<open>-1\<close> with a writer and otherwise the number of readers, so a lock that nobody has is given to the next thread that asks for it.
\<close>

theorem rwlock_correct:
  assumes run: "runs (rw_step ODP_CONFIG_MAX_THREADS) rw_start s"
  shows "(\<forall>t u. rs_pc s t = RW_Writing \<and> (rs_pc s u = RW_Writing \<or> rs_pc s u = RW_Reading) \<longrightarrow> t = u) \<and>
    rw_cnt (rs_lock s) = (if \<exists>t. rs_pc s t = RW_Writing then -1 else of_nat (card {t. rs_pc s t = RW_Reading})) \<and>
    ((\<forall>t. rs_pc s t \<noteq> RW_Writing \<and> rs_pc s t \<noteq> RW_Reading) \<longrightarrow>
      odp_rwlock_read_lock RW_Idle (rs_lock s) = Some (RW_Read_Cas 0, rs_lock s) \<and>
      odp_rwlock_read_lock (RW_Read_Cas 0) (rs_lock s) = Some (RW_Reading, (rs_lock s)\<lparr>rw_cnt := 1\<rparr>) \<and>
      odp_rwlock_write_lock RW_Idle (rs_lock s) = Some (RW_Write_Cas, rs_lock s) \<and>
      odp_rwlock_write_lock RW_Write_Cas (rs_lock s) = Some (RW_Writing, (rs_lock s)\<lparr>rw_cnt := -1\<rparr>))"
proof (intro conjI)
  have inv: "rw_inv ODP_CONFIG_MAX_THREADS s" by (rule writer.inv_runs [OF run])
  have I: "writers s = {} \<and> rw_cnt (rs_lock s) = of_nat (card (readers s)) \<or> (\<exists>w. writers s = {w} \<and> readers s = {} \<and> rw_cnt (rs_lock s) = -1)"
    using inv by (simp add: rw_inv_def)
  show "\<forall>t u. rs_pc s t = RW_Writing \<and> (rs_pc s u = RW_Writing \<or> rs_pc s u = RW_Reading) \<longrightarrow> t = u"
    using writer.mutual_exclusion [OF run] I unfolding readers_def writers_def by blast
  show c: "rw_cnt (rs_lock s) = (if \<exists>t. rs_pc s t = RW_Writing then -1 else of_nat (card {t. rs_pc s t = RW_Reading}))"
    using I unfolding readers_def writers_def by auto
  show "(\<forall>t. rs_pc s t \<noteq> RW_Writing \<and> rs_pc s t \<noteq> RW_Reading) \<longrightarrow>
      odp_rwlock_read_lock RW_Idle (rs_lock s) = Some (RW_Read_Cas 0, rs_lock s) \<and>
      odp_rwlock_read_lock (RW_Read_Cas 0) (rs_lock s) = Some (RW_Reading, (rs_lock s)\<lparr>rw_cnt := 1\<rparr>) \<and>
      odp_rwlock_write_lock RW_Idle (rs_lock s) = Some (RW_Write_Cas, rs_lock s) \<and>
      odp_rwlock_write_lock RW_Write_Cas (rs_lock s) = Some (RW_Writing, (rs_lock s)\<lparr>rw_cnt := -1\<rparr>)"
    using c by (auto simp: read_load_def write_load_def)
qed

section \<open>Barrier\<close>

text \<open>The barrier and its threads, with the number of calls each thread has begun and has returned from.\<close>

record bar_sys =
  bs_bar :: odp_barrier
  bs_pc :: "nat \<Rightarrow> barrier_pc"
  bs_in :: "nat \<Rightarrow> nat"
  bs_out :: "nat \<Rightarrow> nat"

definition bar_start :: "nat \<Rightarrow> bar_sys" where
  "bar_start n = \<lparr>bs_bar = odp_barrier_init (int n), bs_pc = (\<lambda>_. BR_Idle), bs_in = (\<lambda>_. 0), bs_out = (\<lambda>_. 0)\<rparr>"

inductive bar_step :: "nat \<Rightarrow> bar_sys \<Rightarrow> nat \<Rightarrow> bar_sys \<Rightarrow> bool" for n where
  bar_step: "t < n \<Longrightarrow> odp_barrier_wait (bs_pc s t) (bs_bar s) = (pc, b) \<Longrightarrow>
    bar_step n s t (s\<lparr>bs_bar := b, bs_pc := (bs_pc s)(t := pc),
      bs_in := (if bs_pc s t = BR_Idle then (bs_in s)(t := bs_in s t + 1) else bs_in s),
      bs_out := (if pc = BR_Idle then (bs_out s)(t := bs_out s t + 1) else bs_out s)\<rparr>)"

definition arrived :: "nat \<Rightarrow> nat \<Rightarrow> bar_sys \<Rightarrow> nat set" where
  "arrived n r s = {t. t < n \<and> bs_in s t = Suc r}"

text \<open>
  After \<open>r\<close> complete rounds: the threads that have arrived for the next one spin; the others are outside or on their way out of round
  \<open>r\<close>. The counter is in the lower half of its cycle in even rounds; when the upper half is full, one thread is about to wrap it.
\<close>

definition bar_at :: "nat \<Rightarrow> nat \<Rightarrow> bar_sys \<Rightarrow> bool" where
  "bar_at n r s \<longleftrightarrow>
    bar_count (bs_bar s) = of_nat n \<and> card (arrived n r s) < n \<and>
    (\<forall>t<n. bs_in s t = Suc r \<and> bs_pc s t = BR_Spin (even r) \<or>
      bs_in s t = r \<and> (bs_pc s t = BR_Idle \<or> bs_pc s t = BR_Spin (odd r) \<or> bs_pc s t = BR_Wrap)) \<and>
    (\<forall>t<n. bs_out s t + (if bs_pc s t = BR_Idle then 0 else 1) = bs_in s t) \<and>
    (if \<exists>w<n. bs_pc s w = BR_Wrap
     then even r \<and> arrived n r s = {} \<and> (\<exists>w<n. bs_pc s w = BR_Wrap \<and> (\<forall>t<n. t \<noteq> w \<longrightarrow> bs_pc s t = BR_Spin False)) \<and> bar_bar (bs_bar s) = of_nat (2 * n)
     else bar_bar (bs_bar s) = of_nat ((if even r then 0 else n) + card (arrived n r s)))"

lemma of_nat_u32_less: "a < 2 ^ 32 \<Longrightarrow> b < 2 ^ 32 \<Longrightarrow> (of_nat a < (of_nat b :: u32)) = (a < b)"
  by (simp add: word_less_nat_alt unat_of_nat_small)

lemma of_nat_u32_eq: "a < 2 ^ 32 \<Longrightarrow> b < 2 ^ 32 \<Longrightarrow> (of_nat a = (of_nat b :: u32)) = (a = b)"
  using of_nat_eq_near [of a b] by auto

lemma arrived_finite [simp]: "finite (arrived n r s)"
  by (simp add: arrived_def)

lemma bar_at_start:
  assumes "0 < n"
  shows "bar_at n 0 (bar_start n)"
  using assms by (simp add: bar_at_def bar_start_def odp_barrier_init_def arrived_def)

text \<open>A thread arrives.\<close>

lemma bar_arrive:
  assumes at: "bar_at n r s" and n: "2 * n < 2 ^ 32" and t: "t < n" "bs_pc s t = BR_Idle" and st: "odp_barrier_wait BR_Idle (bs_bar s) = (pc, b)"
    and s': "s' = s\<lparr>bs_bar := b, bs_pc := (bs_pc s)(t := pc), bs_in := (bs_in s)(t := bs_in s t + 1)\<rparr>"
  shows "bar_at n r s' \<or> bar_at n (Suc r) s'"
proof -
  let ?K = "arrived n r s" and ?base = "if even r then 0 else n"
  note D = at [unfolded bar_at_def]
  have nw: "\<not> (\<exists>w<n. bs_pc s w = BR_Wrap)" using D t by (auto split: if_splits)
  have inr: "bs_in s t = r" using D t by force
  have bar: "bar_bar (bs_bar s) = of_nat (?base + card ?K)" "bar_count (bs_bar s) = of_nat n" using D nw by simp_all
  have k: "card ?K < n" "t \<notin> ?K" using D inr by (auto simp: arrived_def)
  have less: "(bar_bar (bs_bar s) < bar_count (bs_bar s)) = even r"
    unfolding bar using k n of_nat_u32_less [of "?base + card ?K" n] by auto
  have two: "2 * (of_nat n :: u32) - 1 = of_nat (2 * n - 1)" using k by (simp add: of_nat_diff)
  have eq: "(bar_bar (bs_bar s) = 2 * bar_count (bs_bar s) - 1) = (odd r \<and> Suc (card ?K) = n)"
    unfolding bar two using k n of_nat_u32_eq [of "?base + card ?K" "2 * n - 1"] by auto
  have pc: "pc = (if odd r \<and> Suc (card ?K) = n then BR_Wrap else BR_Spin (even r))"
    and b: "b = (bs_bar s)\<lparr>bar_bar := of_nat (?base + Suc (card ?K))\<rparr>"
    using st less eq bar(1) by (auto simp: Let_def add.commute)
  have K': "arrived n r s' = insert t ?K" using t inr by (auto simp: arrived_def s')
  have pcs: "bs_in s u = Suc r \<and> bs_pc s u = BR_Spin (even r) \<or> bs_in s u = r \<and> (bs_pc s u = BR_Idle \<or> bs_pc s u = BR_Spin (odd r))" if "u < n" for u
    using D nw that by blast
  have outs: "\<forall>u<n. bs_out s' u + (if bs_pc s' u = BR_Idle then 0 else 1) = bs_in s' u" using D t pc by (auto simp: s')
  show ?thesis
  proof (cases "Suc (card ?K) = n")
    case False
    then have nw': "\<not> (\<exists>w<n. bs_pc s' w = BR_Wrap)" using nw pc by (auto simp: s')
    have "\<forall>u<n. bs_in s' u = Suc r \<and> bs_pc s' u = BR_Spin (even r) \<or>
        bs_in s' u = r \<and> (bs_pc s' u = BR_Idle \<or> bs_pc s' u = BR_Spin (odd r) \<or> bs_pc s' u = BR_Wrap)"
      using pcs pc False inr by (simp add: s') blast
    moreover have c: "card (insert t ?K) = Suc (card ?K)" using k(2) by simp
    moreover have "bar_count (bs_bar s') = of_nat n" "bar_bar (bs_bar s') = of_nat (?base + Suc (card ?K))" using bar(2) by (simp_all add: s' b)
    moreover have "Suc (card ?K) < n" using False k(1) by simp
    ultimately have "bar_at n r s'" unfolding bar_at_def K' if_not_P [OF nw'] c using outs by blast
    then show ?thesis ..
  next
    case True
    have "insert t ?K = {..<n}" by (rule card_subset_eq) (use True k t in \<open>auto simp: arrived_def\<close>)
    then have "u \<in> ?K" if "u < n" "u \<noteq> t" for u using that by blast
    then have all: "bs_in s u = Suc r \<and> bs_pc s u = BR_Spin (even r)" if "u < n" "u \<noteq> t" for u
      using that pcs [OF that(1)] by (simp add: arrived_def)
    have "bs_in s' u \<noteq> Suc (Suc r)" if "u < n" for u using all [OF that] inr by (cases "u = t") (simp_all add: s')
    then have K2: "arrived n (Suc r) s' = {}" by (simp add: arrived_def)
    have "bar_at n (Suc r) s'"
    proof (cases "even r")
      case e: True
      then have nw': "\<not> (\<exists>w<n. bs_pc s' w = BR_Wrap)" using nw pc by (auto simp: s')
      have "\<forall>u<n. bs_in s' u = Suc r \<and> bs_pc s' u = BR_Spin (odd (Suc r))" using all pc e inr by (simp add: s')
      then show ?thesis unfolding bar_at_def K2 if_not_P [OF nw'] using e True outs bar(2) t(1) by (intro conjI) (simp_all add: s' b)
    next
      case o: False
      then have w: "bs_pc s' t = BR_Wrap" using pc True by (simp add: s')
      have oth: "\<forall>u<n. u \<noteq> t \<longrightarrow> bs_pc s' u = BR_Spin False" using all o by (simp add: s')
      have "bar_bar (bs_bar s') = of_nat (2 * n)" using o True by (simp add: s' b)
      moreover have ex: "\<exists>w<n. bs_pc s' w = BR_Wrap" using w t(1) by blast
      moreover have "\<forall>u<n. bs_in s' u = Suc r \<and> (bs_pc s' u = BR_Spin (odd (Suc r)) \<or> bs_pc s' u = BR_Wrap)"
        using all o inr w by (simp add: s')
      moreover have "\<exists>w<n. bs_pc s' w = BR_Wrap \<and> (\<forall>t<n. t \<noteq> w \<longrightarrow> bs_pc s' t = BR_Spin False)" using w t(1) oth by blast
      moreover have "bar_count (bs_bar s') = of_nat n" using bar(2) by (simp add: s' b)
      ultimately show ?thesis unfolding bar_at_def K2 if_P [OF ex] using o True outs by (intro conjI) simp_all
    qed
    then show ?thesis ..
  qed
qed

text \<open>Whether a thread in the loop leaves it.\<close>

lemma bar_spin:
  assumes at: "bar_at n r s" and n: "2 * n < 2 ^ 32" and t: "t < n" "bs_pc s t = BR_Spin w"
  shows "((bar_bar (bs_bar s) < bar_count (bs_bar s)) = w) = (bs_in s t = Suc r \<or> (\<exists>w<n. bs_pc s w = BR_Wrap))"
proof -
  note D = at [unfolded bar_at_def]
  have pcs: "bs_in s t = Suc r \<and> w = even r \<or> bs_in s t = r \<and> w = odd r" using D t by fastforce
  have cnt: "bar_count (bs_bar s) = of_nat n" using D by blast
  show ?thesis
  proof (cases "\<exists>w<n. bs_pc s w = BR_Wrap")
    case True
    have "even r" "arrived n r s = {}" "bar_bar (bs_bar s) = of_nat (2 * n)" using D True by simp_all
    then have "\<not> bar_bar (bs_bar s) < bar_count (bs_bar s)" "w = False"
      using cnt n of_nat_u32_less [of "2 * n" n] pcs t(1) by (auto simp: arrived_def)
    then show ?thesis using True by simp
  next
    case False
    have "bar_bar (bs_bar s) = of_nat ((if even r then 0 else n) + card (arrived n r s))" "card (arrived n r s) < n" using D False by simp_all
    then have "(bar_bar (bs_bar s) < bar_count (bs_bar s)) = even r"
      using cnt n of_nat_u32_less [of "(if even r then 0 else n) + card (arrived n r s)" n] by auto
    then show ?thesis using pcs False by auto
  qed
qed

text \<open>A thread leaves round \<open>r\<close>.\<close>

lemma bar_leave:
  assumes at: "bar_at n r s" and t: "t < n" "bs_in s t = r" "bs_pc s t \<noteq> BR_Idle" and nw: "\<forall>u<n. u \<noteq> t \<longrightarrow> bs_pc s u \<noteq> BR_Wrap"
    and b: "bar_count b = of_nat n" "bar_bar b = of_nat ((if even r then 0 else n) + card (arrived n r s))"
    and s': "s' = s\<lparr>bs_bar := b, bs_pc := (bs_pc s)(t := BR_Idle), bs_out := (bs_out s)(t := bs_out s t + 1)\<rparr>"
  shows "bar_at n r s'"
proof -
  note D = at [unfolded bar_at_def]
  have K: "arrived n r s' = arrived n r s" by (simp add: arrived_def s')
  have nw': "\<not> (\<exists>w<n. bs_pc s' w = BR_Wrap)" using nw by (auto simp: s')
  have "\<forall>u<n. bs_in s' u = Suc r \<and> bs_pc s' u = BR_Spin (even r) \<or>
      bs_in s' u = r \<and> (bs_pc s' u = BR_Idle \<or> bs_pc s' u = BR_Spin (odd r) \<or> bs_pc s' u = BR_Wrap)"
    using D t by (simp add: s')
  moreover have "\<forall>u<n. bs_out s' u + (if bs_pc s' u = BR_Idle then 0 else 1) = bs_in s' u" using D t by (simp add: s') force
  moreover have "card (arrived n r s) < n" using D by blast
  ultimately show ?thesis unfolding bar_at_def K if_not_P [OF nw'] using b by (simp add: s')
qed

lemma bar_at_step:
  assumes at: "bar_at n r s" and n: "2 * n < 2 ^ 32" and st: "bar_step n s t s'"
  shows "bar_at n r s' \<or> bar_at n (Suc r) s'"
  using st
proof cases
  case (bar_step pc b)
  note D = at [unfolded bar_at_def] note t = bar_step(2)
  show ?thesis
  proof (cases "bs_pc s t")
    case BR_Idle
    then have "odp_barrier_wait BR_Idle (bs_bar s) = (pc, b)" "pc \<noteq> BR_Idle" using bar_step(3) by (auto split: if_splits)
    then show ?thesis using bar_step BR_Idle by (intro bar_arrive [OF at n t BR_Idle]) simp_all
  next
    case BR_Wrap
    then have ex: "\<exists>w<n. bs_pc s w = BR_Wrap" using t by blast
    have W: "even r" "arrived n r s = {}" "bar_bar (bs_bar s) = of_nat (2 * n)" "bar_count (bs_bar s) = of_nat n"
      "\<exists>w<n. bs_pc s w = BR_Wrap \<and> (\<forall>t<n. t \<noteq> w \<longrightarrow> bs_pc s t = BR_Spin False)" using D ex by simp_all
    have inr: "bs_in s t = r" using D t BR_Wrap by force
    from W(5) obtain w where w: "w < n" "\<forall>u<n. u \<noteq> w \<longrightarrow> bs_pc s u = BR_Spin False" by blast
    then have "t = w" using BR_Wrap t by auto
    then have oth: "\<forall>u<n. u \<noteq> t \<longrightarrow> bs_pc s u \<noteq> BR_Wrap" using w by simp
    have "pc = BR_Idle" "b = (bs_bar s)\<lparr>bar_bar := 0\<rparr>" using bar_step(3) BR_Wrap W(3,4) by auto
    then show ?thesis using bar_step(1) BR_Wrap inr W by (intro disjI1 bar_leave [OF at t _ _ oth]) simp_all
  next
    case (BR_Spin w)
    note S = bar_spin [OF at n t BR_Spin]
    show ?thesis
    proof (cases "bs_in s t = Suc r \<or> (\<exists>w<n. bs_pc s w = BR_Wrap)")
      case True
      then have "pc = BR_Spin w" "b = bs_bar s" using bar_step(3) BR_Spin S by auto
      then have "s' = s" using bar_step(1) BR_Spin by (simp add: fun_upd_idem)
      then show ?thesis using at by simp
    next
      case False
      then have p: "pc = BR_Idle" "b = bs_bar s" using bar_step(3) BR_Spin S by auto
      have inr: "bs_in s t = r" using D t False by blast
      have "bar_count (bs_bar s) = of_nat n" "bar_bar (bs_bar s) = of_nat ((if even r then 0 else n) + card (arrived n r s))" using D False by simp_all
      then show ?thesis using bar_step(1) BR_Spin inr p False by (intro disjI1 bar_leave [OF at t, where b = b]) simp_all
    qed
  qed
qed

lemma bar_inv:
  assumes "runs (bar_step n) (bar_start n) s" "0 < n" "2 * n < 2 ^ 32"
  shows "\<exists>r. bar_at n r s"
proof (rule runs_invariant [OF assms(1), of "\<lambda>s. \<exists>r. bar_at n r s"])
  show "\<exists>r. bar_at n r (bar_start n)" using bar_at_start [OF assms(2)] by blast
  show "\<exists>r. bar_at n r b" if "\<exists>r. bar_at n r a" "bar_step n a t b" for a t b
    using that bar_at_step [OF _ assms(3)] by blast
qed

text \<open>
  C37: However the \<open>n\<close> threads of a barrier interleave, over any number of rounds, no thread returns from its \<open>k\<close>-th wait before every thread
  has begun its \<open>k\<close>-th wait. When all threads have begun the wait a thread is in, the thread returns at its next look at the counter, or
  one thread is at the point of wrapping the counter, after which it does.
\<close>

theorem barrier_correct:
  assumes run: "runs (bar_step n) (bar_start n) s" and n: "0 < n" "2 * n < 2 ^ 32"
  shows "(\<forall>t<n. \<forall>u<n. bs_out s t \<le> bs_in s u) \<and>
    (\<forall>t<n. bs_pc s t \<noteq> BR_Idle \<and> (\<forall>u<n. bs_in s t \<le> bs_in s u) \<longrightarrow>
      fst (odp_barrier_wait (bs_pc s t) (bs_bar s)) = BR_Idle \<or> (\<exists>w<n. bs_pc s w = BR_Wrap \<and>
        fst (odp_barrier_wait (bs_pc s t) (snd (odp_barrier_wait BR_Wrap (bs_bar s)))) = BR_Idle))"
proof -
  from bar_inv [OF run n] obtain r where at: "bar_at n r s" by blast
  note D = at [unfolded bar_at_def]
  have io: "bs_out s t + (if bs_pc s t = BR_Idle then 0 else 1) = bs_in s t" "bs_in s t = Suc r \<and> bs_pc s t = BR_Spin (even r) \<or> bs_in s t = r"
    if "t < n" for t using D that by blast+
  have "bs_out s t \<le> r \<and> r \<le> bs_in s t" if "t < n" for t using io [OF that] by auto
  then have safe: "\<forall>t<n. \<forall>u<n. bs_out s t \<le> bs_in s u" by (meson le_trans)
  have "fst (odp_barrier_wait (bs_pc s t) (bs_bar s)) = BR_Idle \<or> (\<exists>w<n. bs_pc s w = BR_Wrap \<and>
        fst (odp_barrier_wait (bs_pc s t) (snd (odp_barrier_wait BR_Wrap (bs_bar s)))) = BR_Idle)"
    if t: "t < n" "bs_pc s t \<noteq> BR_Idle" and all: "\<forall>u<n. bs_in s t \<le> bs_in s u" for t
  proof -
    have "bs_in s t \<noteq> Suc r"
    proof
      assume a: "bs_in s t = Suc r"
      have "bs_in s u = Suc r" if "u < n" for u using all [rule_format, OF that] io(2) [OF that] a by linarith
      then have "arrived n r s = {..<n}" by (auto simp: arrived_def)
      then show False using D by simp
    qed
    then have inr: "bs_in s t = r" using io(2) [OF t(1)] by blast
    then have "bs_pc s t = BR_Idle \<or> bs_pc s t = BR_Spin (odd r) \<or> bs_pc s t = BR_Wrap" using D t(1) by fastforce
    then consider "bs_pc s t = BR_Spin (odd r)" | "bs_pc s t = BR_Wrap" using t(2) by blast
    then show ?thesis
    proof cases
      case 1
      show ?thesis
      proof (cases "\<exists>w<n. bs_pc s w = BR_Wrap")
        case True
        have "even r" "bar_bar (bs_bar s) = of_nat (2 * n)" "bar_count (bs_bar s) = of_nat n" using D True by simp_all
        moreover have "(0 :: u32) < of_nat n" using n of_nat_u32_less [of 0 n] by simp
        ultimately show ?thesis using True 1 by auto
      next
        case False
        then show ?thesis using bar_spin [OF at n(2) t(1) 1] inr 1 by auto
      qed
    qed simp
  qed
  then show ?thesis using safe by blast
qed

section \<open>Critical sections\<close>

text \<open>
  C35: Shared data that threads read, compute on and write back in separate steps while they have a ticket lock, a spinlock or the write side of a
  reader/writer lock are updated as if each critical section were one step: whatever the interleaving, the data are the
  result of the updates applied one after the other, and none is lost.
\<close>

theorem critical_sections_serial:
  assumes ticket: "runs (client_step (ticket_step ODP_CONFIG_MAX_THREADS) ticket_holds) (client_init ticket_start d) c1"
    and spin: "runs (client_step spin_step spin_holds) (client_init spin_start d) c2"
    and writer: "runs (client_step (rw_step ODP_CONFIG_MAX_THREADS) (\<lambda>s t. rs_pc s t = RW_Writing)) (client_init rw_start d) c3"
  shows "cl_data c1 = fold (\<lambda>f. f) (cl_log c1) d \<and> cl_data c2 = fold (\<lambda>f. f) (cl_log c2) d \<and> cl_data c3 = fold (\<lambda>f. f) (cl_log c3) d"
  using ticket.serial_updates [OF ticket] spin.serial_updates [OF spin] writer.serial_updates [OF writer] by blast

section \<open>Concrete runs\<close>

definition ticket_demo1 :: ticket_sys where
  "ticket_demo1 = \<lparr>tk_lock = \<lparr>next_ticket = 1, cur_ticket = 0\<rparr>, tk_pc = (\<lambda>_. TK_Idle)(0 := TK_Wait 0), tk_order = [0], tk_served = [], tk_seen = (\<lambda>_. 0)\<rparr>"

definition ticket_demo2 :: ticket_sys where
  "ticket_demo2 = \<lparr>tk_lock = \<lparr>next_ticket = 1, cur_ticket = 0\<rparr>, tk_pc = (\<lambda>_. TK_Idle)(0 := TK_Held), tk_order = [0], tk_served = [0], tk_seen = (\<lambda>_. 0)\<rparr>"

lemma ticket_demo_steps:
  "ticket_step ODP_CONFIG_MAX_THREADS ticket_start 0 ticket_demo1" "ticket_step ODP_CONFIG_MAX_THREADS ticket_demo1 0 ticket_demo2"
  using ticket_lock [of 0 ODP_CONFIG_MAX_THREADS ticket_start "TK_Wait 0" "\<lparr>next_ticket = 1, cur_ticket = 0\<rparr>"]
    ticket_lock [of 0 ODP_CONFIG_MAX_THREADS ticket_demo1 TK_Held "\<lparr>next_ticket = 1, cur_ticket = 0\<rparr>"]
  by (simp_all add: ticket_start_def ticket_demo1_def ticket_demo2_def odp_ticketlock_init_def ODP_CONFIG_MAX_THREADS_def)

lemma ticket_demo_run: "runs (ticket_step ODP_CONFIG_MAX_THREADS) ticket_start ticket_demo2"
  by (rule runs_step [where step = "ticket_step ODP_CONFIG_MAX_THREADS", OF runs_step [where step = "ticket_step ODP_CONFIG_MAX_THREADS"]],
      rule runs_refl) (rule ticket_demo_steps)+

theorem ticketlock_correct_witness:
  "runs (ticket_step ODP_CONFIG_MAX_THREADS) ticket_start ticket_demo2 \<and> prefix (tk_served ticket_demo2) (tk_order ticket_demo2) \<and>
    odp_ticketlock_is_locked (tk_lock ticket_demo2)"
proof -
  have "ticket_holds ticket_demo2 0" by (simp add: ticket_demo2_def)
  then show ?thesis using ticketlock_correct [OF ticket_demo_run] ticket_demo_run by blast
qed

definition spin_demo :: spin_sys where
  "spin_demo = \<lparr>ss_lock = \<lparr>sp_lock = True\<rparr>, ss_pc = (\<lambda>_. SP_Idle)(0 := SP_Held)\<rparr>"

lemma spin_demo_step: "spin_step spin_start 0 spin_demo"
  using spin_lock [of spin_start 0 SP_Held "\<lparr>sp_lock = True\<rparr>"]
  by (simp add: spin_start_def spin_demo_def spin_tas_def odp_spinlock_init_def)

lemma spin_demo_run: "runs spin_step spin_start spin_demo"
  by (rule runs_step [where step = spin_step, OF runs_refl spin_demo_step])

definition rw_demo1 :: rw_sys where
  "rw_demo1 = \<lparr>rs_lock = \<lparr>rw_cnt = 0\<rparr>, rs_pc = (\<lambda>_. RW_Idle)(0 := RW_Write_Cas)\<rparr>"

definition rw_demo2 :: rw_sys where
  "rw_demo2 = \<lparr>rs_lock = \<lparr>rw_cnt = -1\<rparr>, rs_pc = (\<lambda>_. RW_Idle)(0 := RW_Writing)\<rparr>"

lemma rw_demo_steps: "rw_step ODP_CONFIG_MAX_THREADS rw_start 0 rw_demo1" "rw_step ODP_CONFIG_MAX_THREADS rw_demo1 0 rw_demo2"
  using rw_step_write_lock [of 0 ODP_CONFIG_MAX_THREADS rw_start RW_Write_Cas "\<lparr>rw_cnt = 0\<rparr>"]
    rw_step_write_lock [of 0 ODP_CONFIG_MAX_THREADS rw_demo1 RW_Writing "\<lparr>rw_cnt = -1\<rparr>"]
  by (simp_all add: rw_start_def rw_demo1_def rw_demo2_def odp_rwlock_init_def ODP_CONFIG_MAX_THREADS_def write_load_def)

lemma rw_demo_run: "runs (rw_step ODP_CONFIG_MAX_THREADS) rw_start rw_demo2"
  by (rule runs_step [where step = "rw_step ODP_CONFIG_MAX_THREADS", OF runs_step [where step = "rw_step ODP_CONFIG_MAX_THREADS"]],
      rule runs_refl) (rule rw_demo_steps)+

theorem rwlock_correct_witness:
  "runs (rw_step ODP_CONFIG_MAX_THREADS) rw_start rw_demo2 \<and> rw_cnt (rs_lock rw_demo2) = -1 \<and> rs_pc rw_demo2 0 = RW_Writing \<and> rs_pc rw_demo2 1 \<noteq> RW_Reading"
proof -
  note r = rw_demo_run
  have w: "rs_pc rw_demo2 0 = RW_Writing" by (simp add: rw_demo2_def)
  have "rs_pc rw_demo2 1 = RW_Reading \<Longrightarrow> (0 :: nat) = 1" using rwlock_correct [OF r] w by blast
  moreover have "rw_cnt (rs_lock rw_demo2) = -1" using rwlock_correct [OF r] w by auto
  ultimately show ?thesis using r w by auto
qed

text \<open>A client takes the lock, reads, and writes the successor of what it read.\<close>

lemma client_demo:
  assumes "runs step start s" "holds s t"
  shows "\<exists>c. runs (client_step step holds) (client_init start (5 :: nat)) c \<and> cl_log c = [Suc]"
proof -
  have r: "runs (client_step step holds) (client_init start 5) ((client_init start (5 :: nat))\<lparr>cl_lock := s\<rparr>)"
    using assms(1)
  proof induction
    case (runs_refl s)
    have "client_init s (5 :: nat) = (client_init s 5)\<lparr>cl_lock := s\<rparr>" by (simp add: client_init_def)
    then show ?case using runs.runs_refl by metis
  next
    case (runs_step s s1 u s2)
    have "client_step step holds ((client_init s (5 :: nat))\<lparr>cl_lock := s1\<rparr>) u (((client_init s 5)\<lparr>cl_lock := s1\<rparr>)\<lparr>cl_lock := s2\<rparr>)"
      by (rule client_lock) (use runs_step in \<open>simp_all add: client_init_def\<close>)
    then show ?case using runs.runs_step [OF runs_step.IH] by simp
  qed
  let ?c = "(client_init start (5 :: nat))\<lparr>cl_lock := s\<rparr>" let ?c1 = "?c\<lparr>cl_tmp := (cl_tmp ?c)(t := Some (cl_data ?c))\<rparr>"
  have "client_step step holds ?c t ?c1" by (rule client_read) (use assms(2) in \<open>simp_all add: client_init_def\<close>)
  moreover have "client_step step holds ?c1 t (?c1\<lparr>cl_data := Suc 5, cl_tmp := (cl_tmp ?c1)(t := None), cl_log := cl_log ?c1 @ [Suc]\<rparr>)"
    by (rule client_write) (use assms(2) in \<open>simp_all add: client_init_def\<close>)
  ultimately show ?thesis using runs_step [OF runs_step [OF r]] by (fastforce simp: client_init_def)
qed

theorem critical_sections_serial_witness:
  "\<exists>c1 c2 c3. runs (client_step (ticket_step ODP_CONFIG_MAX_THREADS) ticket_holds) (client_init ticket_start 5) c1 \<and> cl_data c1 = (6 :: nat) \<and>
    runs (client_step spin_step spin_holds) (client_init spin_start 5) c2 \<and> cl_data c2 = (6 :: nat) \<and>
    runs (client_step (rw_step ODP_CONFIG_MAX_THREADS) (\<lambda>s t. rs_pc s t = RW_Writing)) (client_init rw_start 5) c3 \<and> cl_data c3 = (6 :: nat)"
proof -
  have "ticket_holds ticket_demo2 0" "spin_holds spin_demo 0" "rs_pc rw_demo2 0 = RW_Writing" by (simp_all add: ticket_demo2_def spin_demo_def rw_demo2_def)
  then obtain c1 c2 c3 where c:
    "runs (client_step (ticket_step ODP_CONFIG_MAX_THREADS) ticket_holds) (client_init ticket_start (5 :: nat)) c1" "cl_log c1 = [Suc]"
    "runs (client_step spin_step spin_holds) (client_init spin_start (5 :: nat)) c2" "cl_log c2 = [Suc]"
    "runs (client_step (rw_step ODP_CONFIG_MAX_THREADS) (\<lambda>s t. rs_pc s t = RW_Writing)) (client_init rw_start (5 :: nat)) c3" "cl_log c3 = [Suc]"
    using client_demo [OF ticket_demo_run, of ticket_holds 0]
      client_demo [OF spin_demo_run, of spin_holds 0]
      client_demo [OF rw_demo_run, of "\<lambda>s t. rs_pc s t = RW_Writing" 0] by metis
  then show ?thesis using critical_sections_serial [OF c(1,3,5)] by auto
qed

definition bar_demo :: bar_sys where
  "bar_demo = \<lparr>bs_bar = \<lparr>bar_count = 2, bar_bar = 1\<rparr>, bs_pc = (\<lambda>_. BR_Idle)(0 := BR_Spin True), bs_in = (\<lambda>_. 0)(0 := 1), bs_out = (\<lambda>_. 0)\<rparr>"

theorem barrier_correct_witness:
  "runs (bar_step 2) (bar_start 2) bar_demo \<and> bs_out bar_demo 0 \<le> bs_in bar_demo 1"
proof -
  have "bar_step 2 (bar_start 2) 0 bar_demo"
    using bar_step [of 0 2 "bar_start 2" "BR_Spin True" "\<lparr>bar_count = 2, bar_bar = 1\<rparr>"]
    by (simp add: bar_start_def bar_demo_def odp_barrier_init_def)
  then have r: "runs (bar_step 2) (bar_start 2) bar_demo" by (rule runs_step [where step = "bar_step 2", OF runs_refl])
  from barrier_correct [OF r] show ?thesis using r by simp
qed

end
