(* ===== verification/Odp_Mask.thy ===== *)
theory Odp_Mask
  imports Odp_Prelude
begin

text \<open>
  CPU masks with their text form (\<open>odp_cpumask.c\<close>, \<open>odp_cpumask_task.c\<close>) and thread masks (\<open>odp_thrmask.c\<close>), which are CPU masks.
\<close>

section \<open>CPU masks\<close>

definition CPU_SETSIZE :: nat where "CPU_SETSIZE = 1024"

text \<open>A bit per CPU. The macros of the C library ignore numbers outside of the set.\<close>

type_synonym odp_cpumask = "bool list"

definition odp_cpumask_zero :: odp_cpumask where
  "odp_cpumask_zero = replicate CPU_SETSIZE False"

definition odp_cpumask_set :: "int \<Rightarrow> odp_cpumask \<Rightarrow> odp_cpumask" where
  "odp_cpumask_set cpu m = (if 0 \<le> cpu \<and> cpu < int CPU_SETSIZE then m[nat cpu := True] else m)"

definition odp_cpumask_clr :: "int \<Rightarrow> odp_cpumask \<Rightarrow> odp_cpumask" where
  "odp_cpumask_clr cpu m = (if 0 \<le> cpu \<and> cpu < int CPU_SETSIZE then m[nat cpu := False] else m)"

definition odp_cpumask_isset :: "odp_cpumask \<Rightarrow> int \<Rightarrow> bool" where
  "odp_cpumask_isset m cpu \<longleftrightarrow> 0 \<le> cpu \<and> cpu < int CPU_SETSIZE \<and> m ! nat cpu"

definition odp_cpumask_setall :: "odp_cpumask \<Rightarrow> odp_cpumask" where
  "odp_cpumask_setall m = fold odp_cpumask_set (map int [0..<CPU_SETSIZE]) m"

definition odp_cpumask_count :: "odp_cpumask \<Rightarrow> nat" where
  "odp_cpumask_count m = length (filter (\<lambda>b. b) m)"

definition odp_cpumask_and :: "odp_cpumask \<Rightarrow> odp_cpumask \<Rightarrow> odp_cpumask" where
  "odp_cpumask_and src1 src2 = map2 (\<lambda>a b. a \<and> b) src1 src2"

definition odp_cpumask_or :: "odp_cpumask \<Rightarrow> odp_cpumask \<Rightarrow> odp_cpumask" where
  "odp_cpumask_or src1 src2 = map2 (\<lambda>a b. a \<or> b) src1 src2"

definition odp_cpumask_xor :: "odp_cpumask \<Rightarrow> odp_cpumask \<Rightarrow> odp_cpumask" where
  "odp_cpumask_xor src1 src2 = map2 (\<lambda>a b. a \<noteq> b) src1 src2"

definition odp_cpumask_equal :: "odp_cpumask \<Rightarrow> odp_cpumask \<Rightarrow> bool" where
  "odp_cpumask_equal mask1 mask2 \<longleftrightarrow> mask1 = mask2"

definition odp_cpumask_copy :: "odp_cpumask \<Rightarrow> odp_cpumask" where
  "odp_cpumask_copy src = src"

text \<open>The first CPU of a list that is in the mask, \<open>-1\<close> if none is.\<close>

fun scan_mask :: "odp_cpumask \<Rightarrow> int list \<Rightarrow> int" where
  "scan_mask m [] = -1"
| "scan_mask m (cpu # cpus) = (if odp_cpumask_isset m cpu then cpu else scan_mask m cpus)"

definition odp_cpumask_first :: "odp_cpumask \<Rightarrow> int" where
  "odp_cpumask_first m = scan_mask m (map int [0..<CPU_SETSIZE])"

definition odp_cpumask_last :: "odp_cpumask \<Rightarrow> int" where
  "odp_cpumask_last m = scan_mask m (map int (rev [0..<CPU_SETSIZE]))"

definition odp_cpumask_next :: "odp_cpumask \<Rightarrow> int \<Rightarrow> int" where
  "odp_cpumask_next m cpu = scan_mask m [cpu + 1..int CPU_SETSIZE - 1]"

section \<open>Text form\<close>

text \<open>The value of a hexadecimal digit.\<close>

definition hex_value :: "char \<Rightarrow> nat option" where
  "hex_value c =
    (let n = of_char c
     in if of_char (CHR ''0'') \<le> n \<and> n \<le> of_char (CHR ''9'') then Some (n - of_char (CHR ''0''))
        else if of_char (CHR ''A'') \<le> n \<and> n \<le> of_char (CHR ''F'') then Some (n - of_char (CHR ''A'') + 10)
        else if of_char (CHR ''a'') \<le> n \<and> n \<le> of_char (CHR ''f'') then Some (n - of_char (CHR ''a'') + 10)
        else None)"

definition set_nibble :: "nat \<Rightarrow> int \<Rightarrow> odp_cpumask \<Rightarrow> odp_cpumask" where
  "set_nibble value cpu m = fold (\<lambda>idx m. if bit value idx then odp_cpumask_set (cpu + int idx) m else m) [0..<4] m"

text \<open>The loop from the last digit; \<open>None\<close> when a character is not a digit.\<close>

fun from_str_loop :: "string \<Rightarrow> int \<Rightarrow> odp_cpumask \<Rightarrow> odp_cpumask option" where
  "from_str_loop [] cpu cpuset = Some cpuset"
| "from_str_loop (c # cs) cpu cpuset =
    (if cpu < int CPU_SETSIZE
     then (case hex_value c of None \<Rightarrow> None | Some value \<Rightarrow> from_str_loop cs (cpu + 4) (set_nibble value cpu cpuset))
     else Some cpuset)"

definition odp_cpumask_from_str :: "string \<Rightarrow> odp_cpumask" where
  "odp_cpumask_from_str str_in =
    (let str = (if 2 \<le> length str_in \<and> (str_in ! 1 = CHR ''x'' \<or> str_in ! 1 = CHR ''X'') then drop 2 str_in else str_in)
     in case from_str_loop (rev str) 0 odp_cpumask_zero of None \<Rightarrow> odp_cpumask_zero | Some cpuset \<Rightarrow> cpuset)"

definition hex_char :: "nat \<Rightarrow> char" where
  "hex_char value = (if value < 10 then char_of (of_char (CHR ''0'') + value) else char_of (of_char (CHR ''A'') + value - 10))"

text \<open>The loop from the highest CPU down.\<close>

fun to_str_loop :: "odp_cpumask \<Rightarrow> nat \<Rightarrow> nat \<Rightarrow> string" where
  "to_str_loop m cpu value =
    (let value1 = (if odp_cpumask_isset m (int cpu) then or value (push_bit (cpu mod 4) 1) else value);
         out = (if cpu mod 4 = 0 then [hex_char value1] else []);
         value2 = (if cpu mod 4 = 0 then 0 else value1)
     in if cpu = 0 then out else out @ to_str_loop m (cpu - 1) value2)"

declare to_str_loop.simps [simp del]

text \<open>The result and the string written, without its terminating null character.\<close>

definition odp_cpumask_to_str :: "odp_cpumask \<Rightarrow> int \<Rightarrow> int \<times> string option" where
  "odp_cpumask_to_str m len =
    (let cpu = odp_cpumask_last m; nibbles = cpu div 4 + 1
     in if len < 4 then (-1, None)
        else if cpu < 0 then (4, Some ''0x0'')
        else if len < 3 + nibbles then (-1, None)
        else let str = ''0x'' @ to_str_loop m (nat cpu) 0 in (int (length str) + 1, Some str))"

section \<open>Default masks\<close>

text \<open>The CPUs the process may run on are the result of a system call.\<close>

fun worker_loop :: "odp_cpumask \<Rightarrow> nat \<Rightarrow> int \<Rightarrow> int \<Rightarrow> odp_cpumask \<Rightarrow> int \<times> odp_cpumask" where
  "worker_loop cpuset 0 num cpu m = (cpu, m)"
| "worker_loop cpuset (Suc i) num cpu m =
    (if cpu < num
     then if odp_cpumask_isset cpuset (int i) then worker_loop cpuset i num (cpu + 1) (odp_cpumask_set (int i) m)
          else worker_loop cpuset i num cpu m
     else (cpu, m))"

definition odp_cpumask_def_worker :: "odp_cpumask option \<Rightarrow> int \<Rightarrow> c_error + (int \<times> odp_cpumask)" where
  "odp_cpumask_def_worker affinity num =
    (case affinity of
       None \<Rightarrow> Inl Aborted
     | Some cpuset \<Rightarrow>
         let num1 = (if num = 0 \<or> int CPU_SETSIZE < num then int (odp_cpumask_count cpuset) else num)
         in Inr (worker_loop cpuset CPU_SETSIZE num1 0 odp_cpumask_zero))"

definition odp_cpumask_def_control :: "int \<times> odp_cpumask" where
  "odp_cpumask_def_control = (1, odp_cpumask_set 0 odp_cpumask_zero)"

section \<open>Thread masks\<close>

record odp_thrmask =
  thr_m :: odp_cpumask

definition odp_thrmask_from_str :: "string \<Rightarrow> odp_thrmask" where "odp_thrmask_from_str str = \<lparr>thr_m = odp_cpumask_from_str str\<rparr>"
definition odp_thrmask_to_str :: "odp_thrmask \<Rightarrow> int \<Rightarrow> int \<times> string option" where "odp_thrmask_to_str m len = odp_cpumask_to_str (thr_m m) len"
definition odp_thrmask_zero :: odp_thrmask where "odp_thrmask_zero = \<lparr>thr_m = odp_cpumask_zero\<rparr>"
definition odp_thrmask_set :: "int \<Rightarrow> odp_thrmask \<Rightarrow> odp_thrmask" where "odp_thrmask_set thr m = m\<lparr>thr_m := odp_cpumask_set thr (thr_m m)\<rparr>"
definition odp_thrmask_setall :: "odp_thrmask \<Rightarrow> odp_thrmask" where "odp_thrmask_setall m = m\<lparr>thr_m := odp_cpumask_setall (thr_m m)\<rparr>"
definition odp_thrmask_clr :: "int \<Rightarrow> odp_thrmask \<Rightarrow> odp_thrmask" where "odp_thrmask_clr thr m = m\<lparr>thr_m := odp_cpumask_clr thr (thr_m m)\<rparr>"
definition odp_thrmask_isset :: "odp_thrmask \<Rightarrow> int \<Rightarrow> bool" where "odp_thrmask_isset m thr = odp_cpumask_isset (thr_m m) thr"
definition odp_thrmask_count :: "odp_thrmask \<Rightarrow> nat" where "odp_thrmask_count m = odp_cpumask_count (thr_m m)"
definition odp_thrmask_and :: "odp_thrmask \<Rightarrow> odp_thrmask \<Rightarrow> odp_thrmask" where "odp_thrmask_and s1 s2 = \<lparr>thr_m = odp_cpumask_and (thr_m s1) (thr_m s2)\<rparr>"
definition odp_thrmask_or :: "odp_thrmask \<Rightarrow> odp_thrmask \<Rightarrow> odp_thrmask" where "odp_thrmask_or s1 s2 = \<lparr>thr_m = odp_cpumask_or (thr_m s1) (thr_m s2)\<rparr>"
definition odp_thrmask_xor :: "odp_thrmask \<Rightarrow> odp_thrmask \<Rightarrow> odp_thrmask" where "odp_thrmask_xor s1 s2 = \<lparr>thr_m = odp_cpumask_xor (thr_m s1) (thr_m s2)\<rparr>"
definition odp_thrmask_equal :: "odp_thrmask \<Rightarrow> odp_thrmask \<Rightarrow> bool" where "odp_thrmask_equal m1 m2 = odp_cpumask_equal (thr_m m1) (thr_m m2)"
definition odp_thrmask_copy :: "odp_thrmask \<Rightarrow> odp_thrmask" where "odp_thrmask_copy src = \<lparr>thr_m = odp_cpumask_copy (thr_m src)\<rparr>"
definition odp_thrmask_first :: "odp_thrmask \<Rightarrow> int" where "odp_thrmask_first m = odp_cpumask_first (thr_m m)"
definition odp_thrmask_last :: "odp_thrmask \<Rightarrow> int" where "odp_thrmask_last m = odp_cpumask_last (thr_m m)"
definition odp_thrmask_next :: "odp_thrmask \<Rightarrow> int \<Rightarrow> int" where "odp_thrmask_next m thr = odp_cpumask_next (thr_m m) thr"

end
