(* ===== verification/Odp_Mask_Correct.thy ===== *)
theory Odp_Mask_Correct
  imports Odp_Mask
begin

text \<open>
  The text form of a CPU mask. The printer works down from the highest CPU of the mask, one digit for four CPUs; the reader works up from
  the last digit. Both are related to the digits \<open>nibble m k\<close> of the mask: the printer writes them from the highest to the lowest, and
  after reading \<open>k\<close> of them the reader has the first \<open>4 * k\<close> CPUs of the mask.
\<close>

section \<open>Searching a mask\<close>

definition cpumask_ok :: "odp_cpumask \<Rightarrow> bool" where
  "cpumask_ok m \<longleftrightarrow> length m = CPU_SETSIZE"

lemma scan_mask_cases:
  "(scan_mask m xs = -1 \<and> (\<forall>x\<in>set xs. \<not> odp_cpumask_isset m x)) \<or>
   (\<exists>ys x zs. xs = ys @ x # zs \<and> scan_mask m xs = x \<and> odp_cpumask_isset m x \<and> (\<forall>y\<in>set ys. \<not> odp_cpumask_isset m y))"
proof (induction xs)
  case (Cons a xs)
  show ?case
  proof (cases "odp_cpumask_isset m a")
    case True
    then show ?thesis by (intro disjI2 exI [of _ "[]"]) auto
  next
    case False
    from Cons.IH show ?thesis
    proof
      assume "\<exists>ys x zs. xs = ys @ x # zs \<and> scan_mask m xs = x \<and> odp_cpumask_isset m x \<and> (\<forall>y\<in>set ys. \<not> odp_cpumask_isset m y)"
      then obtain ys x zs where "xs = ys @ x # zs" "scan_mask m xs = x" "odp_cpumask_isset m x" "\<forall>y\<in>set ys. \<not> odp_cpumask_isset m y" by blast
      then show ?thesis using False by (intro disjI2 exI [of _ "a # ys"] exI [of _ x] exI [of _ zs]) auto
    qed (use False in auto)
  qed
qed simp

lemma rev_upt_split: "rev [0..<n] = ys @ x # zs \<Longrightarrow> ys = rev [Suc x..<n] \<and> x < n"
proof -
  assume a: "rev [0..<n] = ys @ x # zs"
  then have e: "[0..<n] = rev zs @ x # rev ys" by (metis rev_append rev_rev_ident rev.simps(2) append.assoc append_Cons append_Nil)
  have "length (rev zs) < n" using arg_cong [OF e, of length] by simp
  then have x: "x = length zs" "x < n" using arg_cong [OF e, of "\<lambda>l. l ! length (rev zs)"] by (simp_all add: nth_append)
  have "rev ys = drop (Suc x) [0..<n]" unfolding e x by simp
  then have "rev ys = [Suc x..<n]" by simp
  then show ?thesis using x by (metis rev_rev_ident)
qed

text \<open>The last CPU of a mask.\<close>

lemma cpumask_last:
  "(odp_cpumask_last m = -1 \<and> (\<forall>i<CPU_SETSIZE. \<not> m ! i)) \<or>
   (\<exists>l<CPU_SETSIZE. odp_cpumask_last m = int l \<and> m ! l \<and> (\<forall>i. l < i \<and> i < CPU_SETSIZE \<longrightarrow> \<not> m ! i))"
  using scan_mask_cases [of m "map int (rev [0..<CPU_SETSIZE])"]
proof
  assume a: "scan_mask m (map int (rev [0..<CPU_SETSIZE])) = -1 \<and> (\<forall>x\<in>set (map int (rev [0..<CPU_SETSIZE])). \<not> odp_cpumask_isset m x)"
  then have "\<not> m ! i" if "i < CPU_SETSIZE" for i using that by (auto simp: odp_cpumask_isset_def)
  then show ?thesis using a by (simp add: odp_cpumask_last_def)
next
  assume "\<exists>ys x zs. map int (rev [0..<CPU_SETSIZE]) = ys @ x # zs \<and> scan_mask m (map int (rev [0..<CPU_SETSIZE])) = x \<and> odp_cpumask_isset m x \<and>
    (\<forall>y\<in>set ys. \<not> odp_cpumask_isset m y)"
  then obtain ys x zs where s: "map int (rev [0..<CPU_SETSIZE]) = ys @ x # zs" "scan_mask m (map int (rev [0..<CPU_SETSIZE])) = x" "odp_cpumask_isset m x"
    "\<forall>y\<in>set ys. \<not> odp_cpumask_isset m y" by blast
  from s(1) obtain ys' l zs' where l: "rev [0..<CPU_SETSIZE] = ys' @ l # zs'" "ys = map int ys'" "x = int l"
    by (auto simp: map_eq_append_conv map_eq_Cons_conv)
  from rev_upt_split [OF l(1)] have ys': "ys' = rev [Suc l..<CPU_SETSIZE]" "l < CPU_SETSIZE" by simp_all
  have "\<not> m ! i" if "l < i" "i < CPU_SETSIZE" for i using s(4) that unfolding l(2) ys'(1) by (auto simp: odp_cpumask_isset_def)
  then show ?thesis using s(2,3) l(3) ys'(2) by (intro disjI2 exI [of _ l]) (auto simp: odp_cpumask_last_def odp_cpumask_isset_def)
qed

section \<open>Printing\<close>

text \<open>The hexadecimal digit of four CPUs.\<close>

definition nibble :: "odp_cpumask \<Rightarrow> nat \<Rightarrow> nat" where
  "nibble m q = of_bool (m ! (4 * q)) + 2 * of_bool (m ! (4 * q + 1)) + 4 * of_bool (m ! (4 * q + 2)) + 8 * of_bool (m ! (4 * q + 3))"

lemma nibble_less: "nibble m q < 16"
  by (simp add: nibble_def)

lemma four_bits:
  "bit (of_bool a + 2 * of_bool b + 4 * of_bool c + 8 * of_bool d :: nat) i \<longleftrightarrow> i = 0 \<and> a \<or> i = 1 \<and> b \<or> i = 2 \<and> c \<or> i = 3 \<and> d"
proof -
  have s: "of_bool a + 2 * of_bool b + 4 * of_bool c + 8 * of_bool d = (of_bool a + 2 * (of_bool b + 2 * (of_bool c + 2 * of_bool d)) :: nat)" by simp
  show ?thesis unfolding s by (cases i; cases "i - 1"; cases "i - 2"; cases "i - 3") (auto simp: bit_Suc bit_0)
qed

lemma nibble_bit: "i < 4 \<Longrightarrow> bit (nibble m q) i = m ! (4 * q + i)"
  unfolding nibble_def four_bits by (auto simp: numeral_eq_Suc less_Suc_eq)

lemma hex_value_char:
  assumes "v < 16"
  shows "hex_value (hex_char v) = Some v"
proof -
  have "v \<in> {0,1,2,3,4,5,6,7,8,9,10,11,12,13,14,15}" using assms by (simp add: numeral_eq_Suc less_Suc_eq)
  then show ?thesis by (elim insertE emptyE; simp add: hex_value_def hex_char_def Let_def)
qed

lemma or_bits1: "or (8 * of_bool d + 4 * of_bool c + 2 * of_bool b :: nat) 1 = 8 * of_bool d + 4 * of_bool c + 2 * of_bool b + 1"
proof -
  have "or (2 :: nat) 1 = 3" by simp
  then have "or (Suc (Suc 0)) 1 = 3" by (simp only: numeral_2_eq_2)
  then show ?thesis by (cases d; cases c; cases b) (simp_all del: One_nat_def)
qed

lemma or_bits2: "or (8 * of_bool d + 4 * of_bool c :: nat) 2 = 8 * of_bool d + 4 * of_bool c + 2"
  by (cases d; cases c; simp)

lemma or_bits4: "or (8 * of_bool d :: nat) 4 = 8 * of_bool d + 4"
  by (cases d; simp)

text \<open>One step of the loop, at CPU \<open>4 * q + r\<close>.\<close>

lemma to_str_loop_step:
  assumes "r < 4" "4 * q + r < CPU_SETSIZE"
  shows "to_str_loop m (4 * q + r) v =
    (let v1 = (if m ! (4 * q + r) then or v (push_bit r 1) else v)
     in if r = 0 then hex_char v1 # (if q = 0 then [] else to_str_loop m (4 * (q - 1) + 3) 0) else to_str_loop m (4 * q + (r - 1)) v1)"
proof -
  have r: "(4 * q + r) mod 4 = r" using assms(1) by simp
  have i: "odp_cpumask_isset m (int (4 * q + r)) = m ! (4 * q + r)" using assms(2) unfolding odp_cpumask_isset_def nat_int by simp
  have p: "4 * q + r - 1 = 4 * q + (r - 1)" if "r \<noteq> 0" using that by simp
  have p0: "4 * q - 1 = 4 * (q - 1) + 3" if "q \<noteq> 0" using that by (cases q) simp_all
  show ?thesis
    unfolding to_str_loop.simps [of m "4 * q + r"] r i using p p0 by (cases "r = 0"; cases "q = 0") (simp_all add: Let_def)
qed

lemma to_str_digit:
  assumes q: "4 * q + 3 < CPU_SETSIZE" and r: "r < 4" and above: "\<And>i. r < i \<Longrightarrow> i < 4 \<Longrightarrow> \<not> m ! (4 * q + i)"
  shows "to_str_loop m (4 * q + r) 0 = hex_char (nibble m q) # (if q = 0 then [] else to_str_loop m (4 * (q - 1) + 3) 0)"
proof -
  let ?b = "\<lambda>i. of_bool (m ! (4 * q + i)) :: nat"
  have k: "4 * q + i < CPU_SETSIZE" if "i < 4" for i using q that by simp
  let ?rest = "hex_char (nibble m q) # (if q = 0 then [] else to_str_loop m (4 * (q - 1) + 3) 0)"
  have s0: "to_str_loop m (4 * q) (8 * ?b 3 + 4 * ?b 2 + 2 * ?b 1) = ?rest"
  proof -
    have "(if m ! (4 * q + 0) then or (8 * ?b 3 + 4 * ?b 2 + 2 * ?b 1) (push_bit 0 1) else 8 * ?b 3 + 4 * ?b 2 + 2 * ?b 1) = nibble m q"
      using or_bits1 [of "m ! (4 * q + 3)" "m ! (4 * q + 2)" "m ! (4 * q + 1)"] by (cases "m ! (4 * q)") (simp_all add: nibble_def)
    then show ?thesis using to_str_loop_step [of 0 q m "8 * ?b 3 + 4 * ?b 2 + 2 * ?b 1"] k [of 0] unfolding Let_def by (simp only: add_0_right zero_less_numeral if_True simp_thms)
  qed
  have s1: "to_str_loop m (4 * q + 1) (8 * ?b 3 + 4 * ?b 2) = ?rest"
  proof -
    have "(if m ! (4 * q + 1) then or (8 * ?b 3 + 4 * ?b 2) (push_bit 1 1) else 8 * ?b 3 + 4 * ?b 2) = 8 * ?b 3 + 4 * ?b 2 + 2 * ?b 1"
      using or_bits2 [of "m ! (4 * q + 3)" "m ! (4 * q + 2)"] by (cases "m ! (4 * q + 1)") (simp_all del: One_nat_def)
    then show ?thesis using to_str_loop_step [of 1 q m "8 * ?b 3 + 4 * ?b 2"] k [of 1] s0 unfolding Let_def by simp
  qed
  have s2: "to_str_loop m (4 * q + 2) (8 * ?b 3) = ?rest"
  proof -
    have "(if m ! (4 * q + 2) then or (8 * ?b 3) (push_bit 2 1) else 8 * ?b 3) = 8 * ?b 3 + 4 * ?b 2"
      using or_bits4 [of "m ! (4 * q + 3)"] by (cases "m ! (4 * q + 2)") simp_all
    then show ?thesis using to_str_loop_step [of 2 q m "8 * ?b 3"] k [of 2] s1 unfolding Let_def by simp
  qed
  have s3: "to_str_loop m (4 * q + 3) 0 = ?rest"
  proof -
    have "(if m ! (4 * q + 3) then or 0 (push_bit 3 1) else 0) = 8 * ?b 3" by simp
    then show ?thesis using to_str_loop_step [of 3 q m 0] k [of 3] s2 unfolding Let_def by simp
  qed
  consider "r = 0" | "r = 1" | "r = 2" | "r = 3" using r by linarith
  then show ?thesis
  proof cases
    case 1 then show ?thesis using s0 above [of 1] above [of 2] above [of 3] by simp
  next
    case 2 then show ?thesis using s1 above [of 2] above [of 3] by simp
  next
    case 3 then show ?thesis using s2 above [of 3] by simp
  next
    case 4 then show ?thesis using s3 by simp
  qed
qed

lemma to_str_all: "4 * q + 3 < CPU_SETSIZE \<Longrightarrow> to_str_loop m (4 * q + 3) 0 = map (\<lambda>k. hex_char (nibble m k)) (rev [0..<Suc q])"
proof (induction q)
  case 0
  then show ?case using to_str_digit [of 0 3 m] by simp
next
  case (Suc q)
  then show ?case using to_str_digit [of "Suc q" 3 m] by simp
qed

text \<open>The digits of a mask whose last CPU is \<open>l\<close>.\<close>

lemma to_str_digits:
  assumes l: "l < CPU_SETSIZE" and above: "\<And>i. l < i \<Longrightarrow> i < CPU_SETSIZE \<Longrightarrow> \<not> m ! i"
  shows "to_str_loop m l 0 = map (\<lambda>k. hex_char (nibble m k)) (rev [0..<Suc (l div 4)])"
proof -
  let ?q = "l div 4" and ?r = "l mod 4"
  have lq: "l = 4 * ?q + ?r" by simp
  have q: "4 * ?q + 3 < CPU_SETSIZE" using l unfolding CPU_SETSIZE_def by presburger
  have "to_str_loop m (4 * ?q + ?r) 0 = hex_char (nibble m ?q) # (if ?q = 0 then [] else to_str_loop m (4 * (?q - 1) + 3) 0)"
  proof (rule to_str_digit [OF q])
    fix i assume i: "?r < i" "i < 4"
    then have "l < 4 * ?q + i" using lq by linarith
    then show "\<not> m ! (4 * ?q + i)" using above i q by simp
  qed simp
  then have "to_str_loop m l 0 = hex_char (nibble m ?q) # (if ?q = 0 then [] else to_str_loop m (4 * (?q - 1) + 3) 0)"
    unfolding lq [symmetric] .
  then show ?thesis using to_str_all [of "?q - 1" m] q by (cases ?q) simp_all
qed

section \<open>Reading\<close>

text \<open>A mask of which only the first \<open>4 * k\<close> CPUs have been read.\<close>

definition partial_mask :: "odp_cpumask \<Rightarrow> nat \<Rightarrow> odp_cpumask" where
  "partial_mask m k = take (4 * k) m @ replicate (CPU_SETSIZE - 4 * k) False"

lemma set_nibble_length [simp]: "length (set_nibble v c m) = length m"
proof -
  have "length (fold (\<lambda>idx m. if bit v idx then odp_cpumask_set (c + int idx) m else m) is m) = length m" for "is"
    by (induction "is" arbitrary: m) (simp_all add: odp_cpumask_set_def)
  then show ?thesis by (simp add: set_nibble_def)
qed

lemma set_nibble_nth:
  assumes "cpumask_ok m" "4 * k + 3 < CPU_SETSIZE" "j < CPU_SETSIZE"
  shows "set_nibble v (4 * int k) m ! j = (m ! j \<or> 4 * k \<le> j \<and> j < 4 * k + 4 \<and> bit v (j - 4 * k))"
proof -
  have step: "(fold (\<lambda>idx m. if bit v idx then odp_cpumask_set (4 * int k + int idx) m else m) [0..<n] m) ! j =
      (m ! j \<or> 4 * k \<le> j \<and> j < 4 * k + n \<and> bit v (j - 4 * k)) \<and>
    length (fold (\<lambda>idx m. if bit v idx then odp_cpumask_set (4 * int k + int idx) m else m) [0..<n] m) = CPU_SETSIZE" if "n \<le> 4" for n
    using that
  proof (induction n)
    case 0
    then show ?case using assms(1) by (auto simp: cpumask_ok_def)
  next
    case (Suc n)
    have n: "4 * k + n < CPU_SETSIZE" "nat (4 * int k + int n) = 4 * k + n" using Suc.prems assms(2) by simp_all
    have j: "j < 4 * k + Suc n \<longleftrightarrow> j < 4 * k + n \<or> j = 4 * k + n" by auto
    show ?case using Suc assms(3) n unfolding j by (auto simp: odp_cpumask_set_def nth_list_update)
  qed
  show ?thesis unfolding set_nibble_def using step [of 4] by simp
qed

lemma partial_mask_ok: "cpumask_ok m \<Longrightarrow> 4 * k \<le> CPU_SETSIZE \<Longrightarrow> cpumask_ok (partial_mask m k)"
  by (simp add: cpumask_ok_def partial_mask_def)

lemma partial_mask_nth: "cpumask_ok m \<Longrightarrow> 4 * k \<le> CPU_SETSIZE \<Longrightarrow> j < CPU_SETSIZE \<Longrightarrow> partial_mask m k ! j = (j < 4 * k \<and> m ! j)"
  by (auto simp: cpumask_ok_def partial_mask_def nth_append)

lemma read_digit:
  assumes "cpumask_ok m" "4 * k + 3 < CPU_SETSIZE"
  shows "set_nibble (nibble m k) (4 * int k) (partial_mask m k) = partial_mask m (Suc k)"
proof (rule nth_equalityI)
  have k: "4 * k \<le> CPU_SETSIZE" "4 * Suc k \<le> CPU_SETSIZE" using assms(2) by simp_all
  note ok = partial_mask_ok [OF assms(1) k(1)] partial_mask_ok [OF assms(1) k(2)]
  show "length (set_nibble (nibble m k) (4 * int k) (partial_mask m k)) = length (partial_mask m (Suc k))" using ok by (simp add: cpumask_ok_def)
  fix j assume "j < length (set_nibble (nibble m k) (4 * int k) (partial_mask m k))"
  then have j: "j < CPU_SETSIZE" using ok(1) by (simp add: cpumask_ok_def)
  have "bit (nibble m k) (j - 4 * k) = m ! j" if "4 * k \<le> j" "j < 4 * k + 4" using nibble_bit [of "j - 4 * k" m k] that by simp
  then show "set_nibble (nibble m k) (4 * int k) (partial_mask m k) ! j = partial_mask m (Suc k) ! j"
    unfolding set_nibble_nth [OF ok(1) assms(2) j] partial_mask_nth [OF assms(1) k(1) j] partial_mask_nth [OF assms(1) k(2) j] by auto
qed

lemma read_digits:
  assumes "cpumask_ok m" "4 * n \<le> CPU_SETSIZE" "k \<le> n"
  shows "from_str_loop (map (\<lambda>k. hex_char (nibble m k)) [k..<n]) (4 * int k) (partial_mask m k) = Some (partial_mask m n)"
  using assms(3)
proof (induction "n - k" arbitrary: k)
  case (Suc d)
  then have k: "k < n" "4 * k + 3 < CPU_SETSIZE" "4 * int k < int CPU_SETSIZE" using assms(2) by simp_all
  have e: "4 * int k + 4 = 4 * int (Suc k)" by simp
  have "from_str_loop (map (\<lambda>k. hex_char (nibble m k)) [Suc k..<n]) (4 * int (Suc k)) (partial_mask m (Suc k)) = Some (partial_mask m n)"
    by (rule Suc.hyps(1)) (use Suc k in simp_all)
  then show ?case using k(1,3) unfolding upt_conv_Cons [OF k(1)] list.map from_str_loop.simps
    by (simp only: if_True hex_value_char [OF nibble_less] option.case read_digit [OF assms(1) k(2)] e)
qed simp

section \<open>Round trip\<close>

text \<open>
  C40: Printing a CPU or thread mask and reading the text gives the same mask. Printing succeeds exactly when the buffer has room for the prefix, one
  hexadecimal digit for every four CPUs up to the last one in the mask, and the terminating null character; it returns the size used.
\<close>

theorem odp_cpumask_str_roundtrip:
  assumes ok: "cpumask_ok m"
  shows "(\<exists>str. odp_cpumask_to_str m len = (int (length str) + 1, Some str) \<and> odp_cpumask_from_str str = m \<and>
      length str = 3 + nat (odp_cpumask_last m) div 4 \<and> int (length str) + 1 \<le> len) \<or>
    odp_cpumask_to_str m len = (-1, None) \<and> len < 4 + int (nat (odp_cpumask_last m) div 4)"
  using cpumask_last [of m]
proof
  assume l: "odp_cpumask_last m = -1 \<and> (\<forall>i<CPU_SETSIZE. \<not> m ! i)"
  then have z: "m = odp_cpumask_zero" using ok by (intro nth_equalityI) (simp_all add: cpumask_ok_def odp_cpumask_zero_def)
  have "set_nibble 0 0 odp_cpumask_zero = odp_cpumask_zero" by (simp add: set_nibble_def upt_rec)
  moreover have "hex_value (CHR ''0'') = Some 0" by (simp add: hex_value_def)
  ultimately have "odp_cpumask_from_str ''0x0'' = m" using z by (simp add: odp_cpumask_from_str_def CPU_SETSIZE_def)
  then show ?thesis using l by (simp add: odp_cpumask_to_str_def Let_def)
next
  assume "\<exists>l<CPU_SETSIZE. odp_cpumask_last m = int l \<and> m ! l \<and> (\<forall>i. l < i \<and> i < CPU_SETSIZE \<longrightarrow> \<not> m ! i)"
  then obtain l where l: "l < CPU_SETSIZE" "odp_cpumask_last m = int l" "\<And>i. l < i \<Longrightarrow> i < CPU_SETSIZE \<Longrightarrow> \<not> m ! i" by blast
  define ds where "ds = map (\<lambda>k. hex_char (nibble m k)) (rev [0..<Suc (l div 4)])"
  have d: "to_str_loop m l 0 = ds" using to_str_digits [OF l(1)] l(3) by (simp add: ds_def)
  have n: "4 * Suc (l div 4) \<le> CPU_SETSIZE" using l(1) unfolding CPU_SETSIZE_def by presburger
  have "partial_mask m 0 = odp_cpumask_zero" by (simp add: partial_mask_def odp_cpumask_zero_def)
  moreover have "4 * int 0 = 0" by simp
  ultimately have "from_str_loop (rev ds) 0 odp_cpumask_zero = Some (partial_mask m (Suc (l div 4)))"
    using read_digits [OF ok n le0] by (simp only: ds_def rev_map rev_rev_ident)
  moreover have "partial_mask m (Suc (l div 4)) = m"
  proof (rule nth_equalityI)
    show "length (partial_mask m (Suc (l div 4))) = length m" using partial_mask_ok [OF ok n] ok by (simp add: cpumask_ok_def)
    fix j assume "j < length (partial_mask m (Suc (l div 4)))"
    then have j: "j < CPU_SETSIZE" using partial_mask_ok [OF ok n] by (simp add: cpumask_ok_def)
    have "j < 4 * Suc (l div 4)" if "m ! j" using l(3) [of j] that j by (cases "l < j") simp_all
    then show "partial_mask m (Suc (l div 4)) ! j = m ! j" unfolding partial_mask_nth [OF ok n j] by blast
  qed
  ultimately have rd: "odp_cpumask_from_str (''0x'' @ ds) = m" by (simp add: odp_cpumask_from_str_def)
  have len: "length ds = Suc (l div 4)" by (simp add: ds_def)
  show ?thesis
  proof (cases "len < 4 + int (l div 4)")
    case True
    then show ?thesis using l(2) by (simp add: odp_cpumask_to_str_def Let_def zdiv_int)
  next
    case False
    then have "odp_cpumask_to_str m len = (int (length (''0x'' @ ds)) + 1, Some (''0x'' @ ds))"
      using l(2) d by (simp add: odp_cpumask_to_str_def Let_def zdiv_int)
    then show ?thesis using rd len False l(2) by (intro disjI1 exI [of _ "''0x'' @ ds"]) simp
  qed
qed

theorem odp_cpumask_str_roundtrip_witness:
  "\<exists>str. odp_cpumask_to_str (odp_cpumask_set 9 odp_cpumask_zero) 100 = (int (length str) + 1, Some str) \<and>
    odp_cpumask_from_str str = odp_cpumask_set 9 odp_cpumask_zero"
proof -
  have ok: "cpumask_ok (odp_cpumask_set 9 odp_cpumask_zero)" by (simp add: cpumask_ok_def odp_cpumask_set_def odp_cpumask_zero_def)
  have nth: "(odp_cpumask_set 9 odp_cpumask_zero) ! i = (i = 9)" if "i < CPU_SETSIZE" for i
    using that by (auto simp: odp_cpumask_set_def odp_cpumask_zero_def CPU_SETSIZE_def nth_list_update)
  have "odp_cpumask_set 9 odp_cpumask_zero ! 9" using nth [of 9] by (simp add: CPU_SETSIZE_def)
  then obtain l where "l < CPU_SETSIZE" "odp_cpumask_last (odp_cpumask_set 9 odp_cpumask_zero) = int l" "odp_cpumask_set 9 odp_cpumask_zero ! l"
    using cpumask_last [of "odp_cpumask_set 9 odp_cpumask_zero"] unfolding CPU_SETSIZE_def by auto
  then have "odp_cpumask_last (odp_cpumask_set 9 odp_cpumask_zero) = 9" using nth [of l] by simp
  then show ?thesis using odp_cpumask_str_roundtrip [OF ok, of 100] by auto
qed

end
