(* ===== verification/Odp_Shm.thy ===== *)
theory Odp_Shm
  imports Odp_Config
begin

unbundle bit_operations_syntax

text \<open>
  Shared memory blocks (\<open>odp_shared_memory.c\<close>): the table of blocks, reservation with huge or normal pages, lookup, address, information
  and release. The calls of the operating system are parameters that act on a state of their own. What happens under the lock of the table
  is one step.
\<close>

section \<open>The system calls\<close>

text \<open>
  \<open>os_mmap length huge anonymous fd\<close> gives the address of the mapping, \<open>None\<close> stands for \<open>MAP_FAILED\<close>. The other calls give the number they
  return in C.
\<close>

record 'os shm_os =
  os_shm_open :: "string \<Rightarrow> 'os \<Rightarrow> int \<times> 'os"
  os_shm_unlink :: "string \<Rightarrow> 'os \<Rightarrow> int \<times> 'os"
  os_ftruncate :: "int \<Rightarrow> u64 \<Rightarrow> 'os \<Rightarrow> int \<times> 'os"
  os_mmap :: "u64 \<Rightarrow> bool \<Rightarrow> bool \<Rightarrow> int \<Rightarrow> 'os \<Rightarrow> u64 option \<times> 'os"
  os_munmap :: "u64 \<Rightarrow> u64 \<Rightarrow> 'os \<Rightarrow> int \<times> 'os"

section \<open>The table\<close>

definition ODP_SHM_NAME_LEN :: nat where "ODP_SHM_NAME_LEN = 32"
definition ODP_SHM_SW_ONLY :: u32 where "ODP_SHM_SW_ONLY = 0x1"
definition ODP_SHM_PROC :: u32 where "ODP_SHM_PROC = 0x2"

record shm_block =
  sb_name :: string
  sb_size :: u64
  sb_align :: u64
  sb_alloc_size :: u64
  sb_addr_orig :: u64
  sb_addr :: u64
  sb_huge :: bool
  sb_hdl :: u32
  sb_flags :: u32
  sb_page_sz :: u64
  sb_fd :: int

record 'os shm_sys =
  shm_tbl :: "shm_block list"
  shm_world :: 'os

definition zero_block :: shm_block where
  "zero_block = \<lparr>sb_name = '''', sb_size = 0, sb_align = 0, sb_alloc_size = 0, sb_addr_orig = 0, sb_addr = 0, sb_huge = False, sb_hdl = 0,
    sb_flags = 0, sb_page_sz = 0, sb_fd = 0\<rparr>"

definition from_handle :: "u32 \<Rightarrow> u32" where "from_handle shm = shm - 1"
definition to_handle :: "u32 \<Rightarrow> u32" where "to_handle index = index + 1"

text \<open>\<open>tbl_addr\<close> is the mapping made for the table.\<close>

definition odp_shm_init_global :: "u64 option \<Rightarrow> 'os shm_sys \<Rightarrow> int \<times> 'os shm_sys" where
  "odp_shm_init_global tbl_addr s =
    (case tbl_addr of None \<Rightarrow> (-1, s) | Some _ \<Rightarrow> (0, s\<lparr>shm_tbl := replicate ODP_CONFIG_SHM_BLOCKS zero_block\<rparr>))"

definition odp_shm_term_global :: "'os shm_os \<Rightarrow> u64 \<Rightarrow> u64 \<Rightarrow> 'os shm_sys \<Rightarrow> int \<times> 'os shm_sys" where
  "odp_shm_term_global os tbl_addr tbl_size s = (let (ret, w) = os_munmap os tbl_addr tbl_size (shm_world s) in (ret, s\<lparr>shm_world := w\<rparr>))"

definition odp_shm_init_local :: int where "odp_shm_init_local = 0"

definition find_block :: "string \<Rightarrow> shm_block list \<Rightarrow> nat option" where
  "find_block name tbl = find (\<lambda>i. name = sb_name (tbl ! i)) [0..<ODP_CONFIG_SHM_BLOCKS]"

definition free_block :: "shm_block list \<Rightarrow> nat option" where
  "free_block tbl = find (\<lambda>i. sb_addr (tbl ! i) = 0) [0..<ODP_CONFIG_SHM_BLOCKS]"

section \<open>Release\<close>

definition odp_shm_free :: "'os shm_os \<Rightarrow> u32 \<Rightarrow> 'os shm_sys \<Rightarrow> int \<times> 'os shm_sys" where
  "odp_shm_free os shm s =
    (if shm = ODP_SHM_INVALID then (-1, s)
     else let i = from_handle shm in
       if of_nat ODP_CONFIG_SHM_BLOCKS \<le> i then (-1, s)
       else let block = shm_tbl s ! unat i in
         if sb_addr block = 0 then (0, s)
         else let (ret, w) = os_munmap os (sb_addr_orig block) (sb_alloc_size block) (shm_world s) in
           if ret \<noteq> 0 then (-1, s\<lparr>shm_world := w\<rparr>)
           else let (ret2, w2) = (if sb_flags block AND ODP_SHM_PROC \<noteq> 0 then os_shm_unlink os (sb_name block) w else (0, w)) in
             if ret2 \<noteq> 0 then (-1, s\<lparr>shm_world := w2\<rparr>)
             else (0, s\<lparr>shm_tbl := (shm_tbl s)[unat i := zero_block], shm_world := w2\<rparr>))"

section \<open>Reservation\<close>

text \<open>
  The two attempts to map memory. \<open>None\<close>: the reservation fails at once. \<open>Some None\<close>: no mapping was made, \<open>Some (Some addr)\<close>: it is at
  \<open>addr\<close>.
\<close>

definition map_pages :: "'os shm_os \<Rightarrow> bool \<Rightarrow> u64 \<Rightarrow> bool \<Rightarrow> int \<Rightarrow> 'os \<Rightarrow> u64 option option \<times> 'os" where
  "map_pages os proc len huge fd w =
    (let (ret, w1) = (if proc then os_ftruncate os fd len w else (0, w))
     in if ret = -1 then (None, w1) else let (addr, w2) = os_mmap os len huge (\<not> proc) fd w1 in (Some addr, w2))"

definition reserve_map :: "'os shm_os \<Rightarrow> bool \<Rightarrow> bool \<Rightarrow> u64 \<Rightarrow> u64 \<Rightarrow> u64 \<Rightarrow> u64 \<Rightarrow> int \<Rightarrow> 'os \<Rightarrow> (u64 \<times> u64 \<times> bool \<times> u64) option \<times> 'os" where
  "reserve_map os proc need_huge_page alloc_hp_size alloc_size huge_sz page_sz fd w =
    (case (if need_huge_page then map_pages os proc alloc_hp_size True fd w else (Some None, w)) of
       (None, w1) \<Rightarrow> (None, w1)
     | (Some (Some addr), w1) \<Rightarrow> (Some (addr, alloc_hp_size, True, huge_sz), w1)
     | (Some None, w1) \<Rightarrow>
         (case map_pages os proc alloc_size False fd w1 of
            (Some (Some addr), w2) \<Rightarrow> (Some (addr, alloc_size, False, page_sz), w2)
          | (_, w2) \<Rightarrow> (None, w2)))"

definition fill_block :: "string \<Rightarrow> u64 \<Rightarrow> u64 \<Rightarrow> u32 \<Rightarrow> int \<Rightarrow> u64 \<times> u64 \<times> bool \<times> u64 \<Rightarrow> shm_block \<Rightarrow> shm_block" where
  "fill_block name sz align flags fd m block =
    (case m of (addr, alloc_size, huge, page_sz) \<Rightarrow>
      block\<lparr>sb_alloc_size := alloc_size, sb_huge := huge, sb_page_sz := page_sz, sb_addr_orig := addr,
        sb_name := take (ODP_SHM_NAME_LEN - 1) name, sb_size := sz, sb_align := align, sb_flags := flags, sb_fd := fd,
        sb_addr := ODP_ALIGN_ROUNDUP addr align\<rparr>)"

text \<open>\<open>page_sz\<close> and \<open>huge_sz\<close> are the page sizes the system reports. Rounding the address up divides by the alignment.\<close>

definition odp_shm_reserve ::
  "'os shm_os \<Rightarrow> u64 \<Rightarrow> u64 \<Rightarrow> string \<Rightarrow> u64 \<Rightarrow> u64 \<Rightarrow> u32 \<Rightarrow> 'os shm_sys \<Rightarrow> c_error + (u32 \<times> 'os shm_sys)" where
  "odp_shm_reserve os page_sz huge_sz name sz align flags s =
    (let alloc_size = sz + align;
         need_huge_page = (huge_sz \<noteq> 0 \<and> page_sz < alloc_size);
         alloc_hp_size = (sz + align + (huge_sz - 1)) AND (- huge_sz);
         proc = (flags AND ODP_SHM_PROC \<noteq> 0);
         (fd, w) = (if proc then os_shm_open os name (shm_world s) else (-1, shm_world s))
     in if proc \<and> fd = -1 then Inr (ODP_SHM_INVALID, s\<lparr>shm_world := w\<rparr>)
        else if find_block name (shm_tbl s) \<noteq> None then Inr (ODP_SHM_INVALID, s\<lparr>shm_world := w\<rparr>)
        else case free_block (shm_tbl s) of
            None \<Rightarrow> Inr (ODP_SHM_INVALID, s\<lparr>shm_world := w\<rparr>)
          | Some i \<Rightarrow>
              let block = (shm_tbl s ! i)\<lparr>sb_hdl := to_handle (of_nat i)\<rparr>
              in case reserve_map os proc need_huge_page alloc_hp_size alloc_size huge_sz page_sz fd w of
                   (None, w1) \<Rightarrow> Inr (ODP_SHM_INVALID, s\<lparr>shm_tbl := (shm_tbl s)[i := block], shm_world := w1\<rparr>)
                 | (Some m, w1) \<Rightarrow>
                     if align = 0 then Inl Div_By_Zero
                     else Inr (to_handle (of_nat i), s\<lparr>shm_tbl := (shm_tbl s)[i := fill_block name sz align flags fd m block], shm_world := w1\<rparr>))"

section \<open>Lookup\<close>

definition odp_shm_lookup :: "string \<Rightarrow> 'os shm_sys \<Rightarrow> u32" where
  "odp_shm_lookup name s = (case find_block name (shm_tbl s) of None \<Rightarrow> ODP_SHM_INVALID | Some i \<Rightarrow> sb_hdl (shm_tbl s ! i))"

definition odp_shm_addr :: "u32 \<Rightarrow> 'os shm_sys \<Rightarrow> u64" where
  "odp_shm_addr shm s = (let i = from_handle shm in if of_nat (ODP_CONFIG_SHM_BLOCKS - 1) < i then 0 else sb_addr (shm_tbl s ! unat i))"

record shm_info =
  si_name :: string
  si_addr :: u64
  si_size :: u64
  si_page_size :: u64
  si_flags :: u32

definition odp_shm_info :: "u32 \<Rightarrow> 'os shm_sys \<Rightarrow> shm_info option" where
  "odp_shm_info shm s =
    (let i = from_handle shm in
     if of_nat (ODP_CONFIG_SHM_BLOCKS - 1) < i then None
     else let block = shm_tbl s ! unat i
          in Some \<lparr>si_name = sb_name block, si_addr = sb_addr block, si_size = sb_size block, si_page_size = sb_page_sz block, si_flags = sb_flags block\<rparr>)"

end
