(* ===== verification/Odp_Thread.thy ===== *)
theory Odp_Thread
  imports Odp_Mask Odp_Shm
begin

text \<open>Thread ids (\<open>odp_thread.c\<close>). What happens under the lock of the table is one step.\<close>

datatype thread_type = ODP_THREAD_WORKER | ODP_THREAD_CONTROL

record thread_state =
  th_thr :: int
  th_cpu :: int
  th_type :: thread_type

record thread_globals =
  tg_thr :: "thread_state list"
  tg_all :: odp_thrmask
  tg_worker :: odp_thrmask
  tg_control :: odp_thrmask
  tg_num :: u32
  tg_num_worker :: u32
  tg_num_control :: u32

text \<open>The shared table and the pointer \<open>this_thread\<close> of every thread of the process, as the index it points to.\<close>

record thread_sys =
  thread_globals :: thread_globals
  this_thread :: "nat \<Rightarrow> nat option"

text \<open>\<open>shm_ok\<close>: the block of shared memory could be reserved.\<close>

definition odp_thread_init_global :: "bool \<Rightarrow> thread_sys \<Rightarrow> int \<times> thread_sys" where
  "odp_thread_init_global shm_ok s =
    (if \<not> shm_ok then (-1, s)
     else (0, s\<lparr>thread_globals := \<lparr>tg_thr = replicate ODP_CONFIG_MAX_THREADS \<lparr>th_thr = 0, th_cpu = 0, th_type = ODP_THREAD_WORKER\<rparr>,
       tg_all = odp_thrmask_zero, tg_worker = odp_thrmask_zero, tg_control = odp_thrmask_zero, tg_num = 0, tg_num_worker = 0, tg_num_control = 0\<rparr>\<rparr>))"

definition odp_thread_term_global :: "'os shm_os \<Rightarrow> 'os shm_sys \<Rightarrow> int \<times> 'os shm_sys" where
  "odp_thread_term_global os s = odp_shm_free os (odp_shm_lookup ''odp_thread_globals'' s) s"

fun free_thr :: "odp_thrmask \<Rightarrow> nat list \<Rightarrow> nat option" where
  "free_thr m [] = None"
| "free_thr m (thr # thrs) = (if \<not> odp_thrmask_isset m (int thr) then Some thr else free_thr m thrs)"

definition alloc_id :: "thread_type \<Rightarrow> thread_globals \<Rightarrow> int \<times> thread_globals" where
  "alloc_id type g =
    (if unat (tg_num g) \<ge> ODP_CONFIG_MAX_THREADS then (-1, g)
     else case free_thr (tg_all g) [0..<ODP_CONFIG_MAX_THREADS] of
       None \<Rightarrow> (-2, g)
     | Some thr \<Rightarrow>
         let g1 = g\<lparr>tg_all := odp_thrmask_set (int thr) (tg_all g)\<rparr>;
             g2 = (if type = ODP_THREAD_WORKER
                   then g1\<lparr>tg_worker := odp_thrmask_set (int thr) (tg_worker g1), tg_num_worker := tg_num_worker g1 + 1\<rparr>
                   else g1\<lparr>tg_control := odp_thrmask_set (int thr) (tg_control g1), tg_num_control := tg_num_control g1 + 1\<rparr>)
         in (int thr, g2\<lparr>tg_num := tg_num g2 + 1\<rparr>))"

definition free_id :: "int \<Rightarrow> thread_globals \<Rightarrow> int \<times> thread_globals" where
  "free_id thr g =
    (if thr < 0 \<or> thr \<ge> int ODP_CONFIG_MAX_THREADS then (-1, g)
     else if \<not> odp_thrmask_isset (tg_all g) thr then (-1, g)
     else
       let g1 = g\<lparr>tg_all := odp_thrmask_clr thr (tg_all g)\<rparr>;
           g2 = (if th_type (tg_thr g ! nat thr) = ODP_THREAD_WORKER
                 then g1\<lparr>tg_worker := odp_thrmask_clr thr (tg_worker g1), tg_num_worker := tg_num_worker g1 - 1\<rparr>
                 else g1\<lparr>tg_control := odp_thrmask_clr thr (tg_control g1), tg_num_control := tg_num_control g1 - 1\<rparr>);
           g3 = g2\<lparr>tg_num := tg_num g2 - 1\<rparr>
       in (sint (tg_num g3), g3))"

text \<open>\<open>cpu\<close> is the result of \<open>sched_getcpu\<close>, \<open>t\<close> the thread of the process.\<close>

definition odp_thread_init_local :: "int \<Rightarrow> nat \<Rightarrow> thread_type \<Rightarrow> thread_sys \<Rightarrow> int \<times> thread_sys" where
  "odp_thread_init_local cpu t type s =
    (let (i, g) = alloc_id type (thread_globals s); s1 = s\<lparr>thread_globals := g\<rparr>
     in if i < 0 then (-1, s1)
        else if cpu < 0 then (-1, s1)
        else (0, s1\<lparr>thread_globals := g\<lparr>tg_thr := (tg_thr g)[nat i := \<lparr>th_thr = i, th_cpu = cpu, th_type = type\<rparr>]\<rparr>,
               this_thread := (this_thread s1)(t := Some (nat i))\<rparr>))"

definition this_state :: "nat \<Rightarrow> thread_sys \<Rightarrow> c_error + thread_state" where
  "this_state t s = (case this_thread s t of None \<Rightarrow> Inl Null_Deref | Some i \<Rightarrow> Inr (tg_thr (thread_globals s) ! i))"

definition odp_thread_term_local :: "nat \<Rightarrow> thread_sys \<Rightarrow> c_error + (int \<times> thread_sys)" where
  "odp_thread_term_local t s =
    and_then (this_state t s) (\<lambda>me.
      let (num, g) = free_id (th_thr me) (thread_globals s)
      in Inr (if num < 0 then -1 else num, s\<lparr>thread_globals := g\<rparr>))"

definition odp_thread_id :: "nat \<Rightarrow> thread_sys \<Rightarrow> c_error + int" where
  "odp_thread_id t s = and_then (this_state t s) (\<lambda>me. Inr (th_thr me))"

definition odp_thread_count :: "thread_sys \<Rightarrow> int" where
  "odp_thread_count s = sint (tg_num (thread_globals s))"

definition odp_thread_type :: "nat \<Rightarrow> thread_sys \<Rightarrow> c_error + thread_type" where
  "odp_thread_type t s = and_then (this_state t s) (\<lambda>me. Inr (th_type me))"

definition odp_cpu_id :: "nat \<Rightarrow> thread_sys \<Rightarrow> c_error + int" where
  "odp_cpu_id t s = and_then (this_state t s) (\<lambda>me. Inr (th_cpu me))"

definition odp_thrmask_worker :: "thread_sys \<Rightarrow> int \<times> odp_thrmask" where
  "odp_thrmask_worker s = (sint (tg_num_worker (thread_globals s)), odp_thrmask_copy (tg_worker (thread_globals s)))"

definition odp_thrmask_control :: "thread_sys \<Rightarrow> int \<times> odp_thrmask" where
  "odp_thrmask_control s = (sint (tg_num_control (thread_globals s)), odp_thrmask_copy (tg_control (thread_globals s)))"

end
