(* ===== verification/Odp_Thread_Correct.thy ===== *)
theory Odp_Thread_Correct
  imports Odp_Thread Odp_Mask_Correct
begin

text \<open>
  Thread ids. The masks of the thread table are read as sets of ids, and the table is shown to stay consistent while threads start and end in
  any order, also when a start fails because all ids are taken or because the CPU of the thread is not known.
\<close>

section \<open>Masks as sets\<close>

definition thr_set :: "odp_thrmask \<Rightarrow> nat set" where
  "thr_set m = {i. i < CPU_SETSIZE \<and> thr_m m ! i}"

definition thrmask_ok :: "odp_thrmask \<Rightarrow> bool" where
  "thrmask_ok m \<longleftrightarrow> cpumask_ok (thr_m m)"

lemma thr_set_finite [simp]: "finite (thr_set m)"
  by (simp add: thr_set_def)

lemma thrmask_isset: "odp_thrmask_isset m (int i) \<longleftrightarrow> i \<in> thr_set m"
  by (auto simp: odp_thrmask_isset_def odp_cpumask_isset_def thr_set_def)

lemma thrmask_zero: "thrmask_ok odp_thrmask_zero \<and> thr_set odp_thrmask_zero = {}"
  by (auto simp: odp_thrmask_zero_def odp_cpumask_zero_def thr_set_def thrmask_ok_def cpumask_ok_def)

lemma thrmask_set:
  assumes "thrmask_ok m" "i < CPU_SETSIZE"
  shows "thrmask_ok (odp_thrmask_set (int i) m) \<and> thr_set (odp_thrmask_set (int i) m) = insert i (thr_set m)"
  using assms by (auto simp: odp_thrmask_set_def odp_cpumask_set_def thr_set_def thrmask_ok_def cpumask_ok_def nth_list_update)

lemma thrmask_clr:
  assumes "thrmask_ok m" "i < CPU_SETSIZE"
  shows "thrmask_ok (odp_thrmask_clr (int i) m) \<and> thr_set (odp_thrmask_clr (int i) m) = thr_set m - {i}"
  using assms by (auto simp: odp_thrmask_clr_def odp_cpumask_clr_def thr_set_def thrmask_ok_def cpumask_ok_def nth_list_update)

section \<open>Allocation of ids\<close>

lemma free_thr_upt:
  "(free_thr m [a..<b] = None \<and> {a..<b} \<subseteq> thr_set m) \<or>
   (\<exists>i. free_thr m [a..<b] = Some i \<and> a \<le> i \<and> i < b \<and> i \<notin> thr_set m \<and> {a..<i} \<subseteq> thr_set m)"
proof (induction "b - a" arbitrary: a)
  case (Suc n)
  then have ab: "a < b" by simp
  show ?case
  proof (cases "a \<in> thr_set m")
    case True
    then have f: "free_thr m [a..<b] = free_thr m [Suc a..<b]" using ab by (simp add: upt_conv_Cons thrmask_isset)
    have e: "{a..<j} = insert a {Suc a..<j}" if "a < j" for j using that by auto
    from Suc(1) [of "Suc a"] Suc(2) show ?thesis unfolding f using True ab e by fastforce
  next
    case False
    then have "free_thr m [a..<b] = Some a" using ab by (simp add: upt_conv_Cons thrmask_isset)
    then show ?thesis using False ab by auto
  qed
qed auto

text \<open>What the table says: the masks as sets, and the counters that go with them.\<close>

definition thr_table :: "thread_globals \<Rightarrow> bool" where
  "thr_table g \<longleftrightarrow>
    thrmask_ok (tg_all g) \<and> thrmask_ok (tg_worker g) \<and> thrmask_ok (tg_control g) \<and> length (tg_thr g) = ODP_CONFIG_MAX_THREADS \<and>
    thr_set (tg_all g) = thr_set (tg_worker g) \<union> thr_set (tg_control g) \<and> thr_set (tg_worker g) \<inter> thr_set (tg_control g) = {} \<and>
    thr_set (tg_all g) \<subseteq> {..<ODP_CONFIG_MAX_THREADS} \<and>
    tg_num g = of_nat (card (thr_set (tg_all g))) \<and> tg_num_worker g = of_nat (card (thr_set (tg_worker g))) \<and>
    tg_num_control g = of_nat (card (thr_set (tg_control g)))"

definition thr_of_type :: "thread_type \<Rightarrow> thread_globals \<Rightarrow> nat set" where
  "thr_of_type type g = (case type of ODP_THREAD_WORKER \<Rightarrow> thr_set (tg_worker g) | ODP_THREAD_CONTROL \<Rightarrow> thr_set (tg_control g))"

lemma max_threads_fit: "i < ODP_CONFIG_MAX_THREADS \<Longrightarrow> i < CPU_SETSIZE"
  by (simp add: ODP_CONFIG_MAX_THREADS_def CPU_SETSIZE_def)

lemma thr_table_card: "thr_table g \<Longrightarrow> card (thr_set (tg_all g)) \<le> ODP_CONFIG_MAX_THREADS"
proof -
  assume "thr_table g"
  then have "thr_set (tg_all g) \<subseteq> {..<ODP_CONFIG_MAX_THREADS}" by (auto simp: thr_table_def)
  then show ?thesis using card_mono [of "{..<ODP_CONFIG_MAX_THREADS}"] by (metis card_lessThan finite_lessThan)
qed

lemma small_word: "n \<le> 128 \<Longrightarrow> unat (of_nat n :: u32) = n \<and> sint (of_nat n :: u32) = int n"
proof -
  assume n: "n \<le> 128"
  have u: "unat (of_nat n :: u32) = n" using n by (simp add: unat_of_nat)
  have "sint (of_nat n :: u32) = signed_take_bit 31 (uint (of_nat n :: u32))" by (simp add: sint_uint)
  also have "uint (of_nat n :: u32) = int n" using n by (simp add: uint_nat unat_of_nat)
  also have "signed_take_bit 31 (int n) = int n" using n by (simp add: signed_take_bit_int_eq_self)
  finally show ?thesis using u by simp
qed

lemma thr_table_num: "thr_table g \<Longrightarrow> unat (tg_num g) = card (thr_set (tg_all g)) \<and> sint (tg_num g) = int (card (thr_set (tg_all g)))"
proof -
  assume t: "thr_table g"
  have c: "card (thr_set (tg_all g)) \<le> 128" using thr_table_card [OF t] by (simp add: ODP_CONFIG_MAX_THREADS_def)
  have n: "tg_num g = of_nat (card (thr_set (tg_all g)))" using t unfolding thr_table_def by blast
  show ?thesis unfolding n by (rule small_word [OF c])
qed

definition other_type :: "thread_type \<Rightarrow> thread_type" where
  "other_type type = (case type of ODP_THREAD_WORKER \<Rightarrow> ODP_THREAD_CONTROL | ODP_THREAD_CONTROL \<Rightarrow> ODP_THREAD_WORKER)"

lemma card_of_nat_insert: "finite A \<Longrightarrow> i \<notin> A \<Longrightarrow> (of_nat (card (insert i A)) :: u32) = of_nat (card A) + 1"
  by (simp add: algebra_simps)

lemma card_of_nat_remove: "finite A \<Longrightarrow> i \<in> A \<Longrightarrow> (of_nat (card (A - {i})) :: u32) = of_nat (card A) - 1"
  by (metis card_of_nat_insert Diff_iff finite_Diff insert_Diff singletonI add_diff_cancel)

lemma thr_tableI:
  assumes "thrmask_ok (tg_all g)" "thrmask_ok (tg_worker g)" "thrmask_ok (tg_control g)" "length (tg_thr g) = ODP_CONFIG_MAX_THREADS"
    and "thr_set (tg_all g) = A" "thr_set (tg_worker g) = W" "thr_set (tg_control g) = C"
    and "tg_num g = of_nat (card A)" "tg_num_worker g = of_nat (card W)" "tg_num_control g = of_nat (card C)"
    and "A = W \<union> C" "W \<inter> C = {}" "A \<subseteq> {..<ODP_CONFIG_MAX_THREADS}"
  shows "thr_table g"
  using assms unfolding thr_table_def by blast

text \<open>An id is given while there is one: the lowest that is free.\<close>

lemma alloc_id_full:
  assumes "thr_table g" "card (thr_set (tg_all g)) = ODP_CONFIG_MAX_THREADS"
  shows "alloc_id type g = (-1, g)"
  using assms thr_table_num [OF assms(1)] by (simp add: alloc_id_def)

lemma alloc_id_ok:
  assumes t: "thr_table g" and room: "card (thr_set (tg_all g)) < ODP_CONFIG_MAX_THREADS"
  obtains i g' where "alloc_id type g = (int i, g')" "thr_table g'" "tg_thr g' = tg_thr g" "i < ODP_CONFIG_MAX_THREADS"
    "i = (LEAST i. i \<notin> thr_set (tg_all g))" "i \<notin> thr_set (tg_all g)"
    "thr_set (tg_all g') = insert i (thr_set (tg_all g))"
    "thr_of_type type g' = insert i (thr_of_type type g)" "thr_of_type (other_type type) g' = thr_of_type (other_type type) g"
proof -
  have n: "\<not> ODP_CONFIG_MAX_THREADS \<le> unat (tg_num g)" using thr_table_num [OF t] room by simp
  have "\<not> {0..<ODP_CONFIG_MAX_THREADS} \<subseteq> thr_set (tg_all g)"
    using room card_mono [of "thr_set (tg_all g)" "{0..<ODP_CONFIG_MAX_THREADS}"] by auto
  then obtain i where f: "free_thr (tg_all g) [0..<ODP_CONFIG_MAX_THREADS] = Some i"
    and i: "i < ODP_CONFIG_MAX_THREADS" "i \<notin> thr_set (tg_all g)" "{0..<i} \<subseteq> thr_set (tg_all g)"
    using free_thr_upt [of "tg_all g" 0 ODP_CONFIG_MAX_THREADS] by auto
  have l: "i = (LEAST i. i \<notin> thr_set (tg_all g))" using i(2,3) by (intro Least_equality [symmetric]) (auto simp: subset_iff not_less [symmetric])
  have c: "i < CPU_SETSIZE" by (rule max_threads_fit [OF i(1)])
  have ok: "thrmask_ok (tg_all g)" "thrmask_ok (tg_worker g)" "thrmask_ok (tg_control g)" "length (tg_thr g) = ODP_CONFIG_MAX_THREADS"
    and sets: "thr_set (tg_all g) = thr_set (tg_worker g) \<union> thr_set (tg_control g)" "thr_set (tg_worker g) \<inter> thr_set (tg_control g) = {}"
    "thr_set (tg_all g) \<subseteq> {..<ODP_CONFIG_MAX_THREADS}"
    and nums: "tg_num g = of_nat (card (thr_set (tg_all g)))" "tg_num_worker g = of_nat (card (thr_set (tg_worker g)))"
    "tg_num_control g = of_nat (card (thr_set (tg_control g)))"
    using t unfolding thr_table_def by blast+
  have w: "i \<notin> thr_set (tg_worker g)" "i \<notin> thr_set (tg_control g)" using i(2) sets(1) by auto
  note s = ok thrmask_set [OF ok(1) c] thrmask_set [OF ok(2) c] thrmask_set [OF ok(3) c]
  note k = card_of_nat_insert [OF thr_set_finite i(2)] card_of_nat_insert [OF thr_set_finite w(1)] card_of_nat_insert [OF thr_set_finite w(2)]
  show thesis
  proof (cases type)
    case ODP_THREAD_WORKER
    let ?g = "g\<lparr>tg_all := odp_thrmask_set (int i) (tg_all g), tg_worker := odp_thrmask_set (int i) (tg_worker g),
      tg_num_worker := tg_num_worker g + 1, tg_num := tg_num g + 1\<rparr>"
    have a: "alloc_id type g = (int i, ?g)" using n f ODP_THREAD_WORKER by (simp add: alloc_id_def)
    have "thr_table ?g"
      by (rule thr_tableI [where A = "insert i (thr_set (tg_all g))" and W = "insert i (thr_set (tg_worker g))" and C = "thr_set (tg_control g)"];
        ((simp add: s nums; fail) | (subst k, simp add: nums; fail) | (use sets w i in auto; fail)))
    then show thesis using that [OF a] i l s ODP_THREAD_WORKER by (simp add: thr_of_type_def other_type_def)
  next
    case ODP_THREAD_CONTROL
    let ?g = "g\<lparr>tg_all := odp_thrmask_set (int i) (tg_all g), tg_control := odp_thrmask_set (int i) (tg_control g),
      tg_num_control := tg_num_control g + 1, tg_num := tg_num g + 1\<rparr>"
    have a: "alloc_id type g = (int i, ?g)" using n f ODP_THREAD_CONTROL by (simp add: alloc_id_def)
    have "thr_table ?g"
      by (rule thr_tableI [where A = "insert i (thr_set (tg_all g))" and W = "thr_set (tg_worker g)" and C = "insert i (thr_set (tg_control g))"];
        ((simp add: s nums; fail) | (subst k, simp add: nums; fail) | (use sets w i in auto; fail)))
    then show thesis using that [OF a] i l s ODP_THREAD_CONTROL by (simp add: thr_of_type_def other_type_def)
  qed
qed

lemma free_id_ok:
  assumes t: "thr_table g" and i: "i \<in> thr_of_type type g" and ty: "th_type (tg_thr g ! i) = type"
  obtains g' where "free_id (int i) g = (int (card (thr_set (tg_all g'))), g')" "thr_table g'" "tg_thr g' = tg_thr g"
    "thr_set (tg_all g') = thr_set (tg_all g) - {i}"
    "thr_of_type type g' = thr_of_type type g - {i}" "thr_of_type (other_type type) g' = thr_of_type (other_type type) g"
proof -
  have ok: "thrmask_ok (tg_all g)" "thrmask_ok (tg_worker g)" "thrmask_ok (tg_control g)" "length (tg_thr g) = ODP_CONFIG_MAX_THREADS"
    and sets: "thr_set (tg_all g) = thr_set (tg_worker g) \<union> thr_set (tg_control g)" "thr_set (tg_worker g) \<inter> thr_set (tg_control g) = {}"
    "thr_set (tg_all g) \<subseteq> {..<ODP_CONFIG_MAX_THREADS}"
    and nums: "tg_num g = of_nat (card (thr_set (tg_all g)))" "tg_num_worker g = of_nat (card (thr_set (tg_worker g)))"
    "tg_num_control g = of_nat (card (thr_set (tg_control g)))"
    using t unfolding thr_table_def by blast+
  have ia: "i \<in> thr_set (tg_all g)" using i sets(1) by (auto simp: thr_of_type_def split: thread_type.splits)
  then have im: "i < ODP_CONFIG_MAX_THREADS" using sets(3) by auto
  have c: "i < CPU_SETSIZE" by (rule max_threads_fit [OF im])
  note s = ok thrmask_clr [OF ok(1) c] thrmask_clr [OF ok(2) c] thrmask_clr [OF ok(3) c]
  have guard: "\<not> (int i < 0 \<or> int i \<ge> int ODP_CONFIG_MAX_THREADS)" "odp_thrmask_isset (tg_all g) (int i)"
    using im ia by (simp_all add: thrmask_isset)
  show thesis
  proof (cases type)
    case ODP_THREAD_WORKER
    let ?g = "g\<lparr>tg_all := odp_thrmask_clr (int i) (tg_all g), tg_worker := odp_thrmask_clr (int i) (tg_worker g),
      tg_num_worker := tg_num_worker g - 1, tg_num := tg_num g - 1\<rparr>"
    have w: "i \<in> thr_set (tg_worker g)" "i \<notin> thr_set (tg_control g)" using i sets(2) ODP_THREAD_WORKER by (auto simp: thr_of_type_def)
    note k = card_of_nat_remove [OF thr_set_finite ia] card_of_nat_remove [OF thr_set_finite w(1)]
    have T: "thr_table ?g"
      by (rule thr_tableI [where A = "thr_set (tg_all g) - {i}" and W = "thr_set (tg_worker g) - {i}" and C = "thr_set (tg_control g)"];
        ((simp add: s nums; fail) | (subst k, simp add: nums; fail) | (use sets w i in auto; fail)))
    have a: "free_id (int i) g = (int (card (thr_set (tg_all ?g))), ?g)"
      using guard ty ODP_THREAD_WORKER conjunct2 [OF thr_table_num [OF T]] by (simp add: free_id_def)
    show thesis using that [OF a T] s ODP_THREAD_WORKER by (simp add: thr_of_type_def other_type_def)
  next
    case ODP_THREAD_CONTROL
    let ?g = "g\<lparr>tg_all := odp_thrmask_clr (int i) (tg_all g), tg_control := odp_thrmask_clr (int i) (tg_control g),
      tg_num_control := tg_num_control g - 1, tg_num := tg_num g - 1\<rparr>"
    have w: "i \<in> thr_set (tg_control g)" "i \<notin> thr_set (tg_worker g)" using i sets(2) ODP_THREAD_CONTROL by (auto simp: thr_of_type_def)
    note k = card_of_nat_remove [OF thr_set_finite ia] card_of_nat_remove [OF thr_set_finite w(1)]
    have T: "thr_table ?g"
      by (rule thr_tableI [where A = "thr_set (tg_all g) - {i}" and W = "thr_set (tg_worker g)" and C = "thr_set (tg_control g) - {i}"];
        ((simp add: s nums; fail) | (subst k, simp add: nums; fail) | (use sets w i in auto; fail)))
    have a: "free_id (int i) g = (int (card (thr_set (tg_all ?g))), ?g)"
      using guard ty ODP_THREAD_CONTROL conjunct2 [OF thr_table_num [OF T]] by (simp add: free_id_def)
    show thesis using that [OF a T] s ODP_THREAD_CONTROL by (simp add: thr_of_type_def other_type_def)
  qed
qed

section \<open>The life of threads\<close>

text \<open>
  A history: the state, the type each running thread was started with, and the ids that were taken for a thread that then did not start.
  A thread starts when it is not running and ends when it is.
\<close>

record thread_hist =
  h_sys :: thread_sys
  h_run :: "nat \<Rightarrow> thread_type option"
  h_lost :: "nat set"

abbreviation ids_used :: "thread_sys \<Rightarrow> nat set" where
  "ids_used s \<equiv> thr_set (tg_all (thread_globals s))"

inductive thread_reachable :: "thread_hist \<Rightarrow> bool" where
  global: "odp_thread_init_global True s0 = (0, s) \<Longrightarrow> thread_reachable \<lparr>h_sys = s, h_run = (\<lambda>_. None), h_lost = {}\<rparr>"
| start: "thread_reachable h \<Longrightarrow> h_run h t = None \<Longrightarrow> odp_thread_init_local cpu t type (h_sys h) = (0, s) \<Longrightarrow>
    thread_reachable (h\<lparr>h_sys := s, h_run := (h_run h)(t \<mapsto> type)\<rparr>)"
| no_start: "thread_reachable h \<Longrightarrow> h_run h t = None \<Longrightarrow> odp_thread_init_local cpu t type (h_sys h) = (-1, s) \<Longrightarrow>
    thread_reachable (h\<lparr>h_sys := s, h_lost := h_lost h \<union> (ids_used s - ids_used (h_sys h))\<rparr>)"
| stop: "thread_reachable h \<Longrightarrow> h_run h t = Some type \<Longrightarrow> odp_thread_term_local t (h_sys h) = Inr (num, s) \<Longrightarrow>
    thread_reachable (h\<lparr>h_sys := s, h_run := (h_run h)(t := None)\<rparr>)"

definition runs_with :: "thread_sys \<Rightarrow> nat \<Rightarrow> thread_type \<Rightarrow> nat \<Rightarrow> bool" where
  "runs_with s t type i \<longleftrightarrow> this_thread s t = Some i \<and> i \<in> thr_of_type type (thread_globals s) \<and>
    th_thr (tg_thr (thread_globals s) ! i) = int i \<and> th_type (tg_thr (thread_globals s) ! i) = type"

definition thread_inv :: "thread_hist \<Rightarrow> bool" where
  "thread_inv h \<longleftrightarrow> thr_table (thread_globals (h_sys h)) \<and>
    ids_used (h_sys h) = {i. \<exists>t type. h_run h t = Some type \<and> this_thread (h_sys h) t = Some i} \<union> h_lost h \<and>
    (\<forall>t type. h_run h t = Some type \<longrightarrow> (\<exists>i. runs_with (h_sys h) t type i \<and> i \<notin> h_lost h)) \<and>
    (\<forall>t u i. h_run h t \<noteq> None \<and> h_run h u \<noteq> None \<and> this_thread (h_sys h) t = Some i \<and> this_thread (h_sys h) u = Some i \<longrightarrow> t = u)"

lemma thr_of_type_used: "thr_table g \<Longrightarrow> i \<in> thr_of_type type g \<Longrightarrow> i \<in> thr_set (tg_all g)"
  unfolding thr_table_def thr_of_type_def by (cases type) auto

lemma type_cases: "type' = type \<or> type' = other_type type"
  by (cases type; cases type') (simp_all add: other_type_def)

lemma init_local_full:
  assumes "thr_table (thread_globals s)" "card (ids_used s) = ODP_CONFIG_MAX_THREADS"
  shows "odp_thread_init_local cpu t type s = (-1, s)"
  using alloc_id_full [OF assms] by (simp add: odp_thread_init_local_def)

lemma init_local_room:
  assumes T: "thr_table (thread_globals s)" and room: "card (ids_used s) < ODP_CONFIG_MAX_THREADS"
  obtains i g' where "odp_thread_init_local cpu t type s =
      (if cpu < 0 then (-1, s\<lparr>thread_globals := g'\<rparr>)
       else (0, s\<lparr>thread_globals := g'\<lparr>tg_thr := (tg_thr g')[i := \<lparr>th_thr = int i, th_cpu = cpu, th_type = type\<rparr>]\<rparr>,
              this_thread := (this_thread s)(t := Some i)\<rparr>))"
    "thr_table g'" "tg_thr g' = tg_thr (thread_globals s)" "i < ODP_CONFIG_MAX_THREADS" "i = (LEAST i. i \<notin> ids_used s)" "i \<notin> ids_used s"
    "thr_set (tg_all g') = insert i (ids_used s)" "thr_of_type type g' = insert i (thr_of_type type (thread_globals s))"
    "thr_of_type (other_type type) g' = thr_of_type (other_type type) (thread_globals s)"
proof (rule alloc_id_ok [OF T room, of type])
  fix i g'
  assume a: "alloc_id type (thread_globals s) = (int i, g')"
  have "odp_thread_init_local cpu t type s =
      (if cpu < 0 then (-1, s\<lparr>thread_globals := g'\<rparr>)
       else (0, s\<lparr>thread_globals := g'\<lparr>tg_thr := (tg_thr g')[i := \<lparr>th_thr = int i, th_cpu = cpu, th_type = type\<rparr>]\<rparr>,
              this_thread := (this_thread s)(t := Some i)\<rparr>))"
    using a by (simp add: odp_thread_init_local_def)
  then show "\<lbrakk>thr_table g'; tg_thr g' = tg_thr (thread_globals s); i < ODP_CONFIG_MAX_THREADS; i = (LEAST i. i \<notin> ids_used s); i \<notin> ids_used s;
    thr_set (tg_all g') = insert i (ids_used s); thr_of_type type g' = insert i (thr_of_type type (thread_globals s));
    thr_of_type (other_type type) g' = thr_of_type (other_type type) (thread_globals s)\<rbrakk> \<Longrightarrow> thesis"
    by (rule that)
qed

lemma thr_table_thr: "thr_table (g\<lparr>tg_thr := xs\<rparr>) \<longleftrightarrow> thr_table g \<and> length xs = ODP_CONFIG_MAX_THREADS" if "length (tg_thr g) = ODP_CONFIG_MAX_THREADS"
  using that by (auto simp: thr_table_def)

lemma thr_of_type_thr [simp]: "thr_of_type type (g\<lparr>tg_thr := xs\<rparr>) = thr_of_type type g"
  by (cases type) (simp_all add: thr_of_type_def)

lemma thr_table_length: "thr_table g \<Longrightarrow> length (tg_thr g) = ODP_CONFIG_MAX_THREADS"
  by (simp add: thr_table_def)

lemma thread_invD:
  assumes "thread_inv h"
  shows "thr_table (thread_globals (h_sys h))"
    and "ids_used (h_sys h) = {i. \<exists>t type. h_run h t = Some type \<and> this_thread (h_sys h) t = Some i} \<union> h_lost h"
    and "h_run h t = Some type \<Longrightarrow> \<exists>i. runs_with (h_sys h) t type i \<and> i \<notin> h_lost h"
    and "h_run h t \<noteq> None \<Longrightarrow> h_run h u \<noteq> None \<Longrightarrow> this_thread (h_sys h) t = Some i \<Longrightarrow> this_thread (h_sys h) u = Some i \<Longrightarrow> t = u"
  using assms unfolding thread_inv_def by blast+

lemma thread_invI:
  assumes "h_sys h = s" "h_run h = run" "h_lost h = lost" "thr_table (thread_globals s)"
    and "ids_used s = {i. \<exists>t type. run t = Some type \<and> this_thread s t = Some i} \<union> lost"
    and "\<And>t type. run t = Some type \<Longrightarrow> \<exists>i. runs_with s t type i \<and> i \<notin> lost"
    and "\<And>t u i. run t \<noteq> None \<Longrightarrow> run u \<noteq> None \<Longrightarrow> this_thread s t = Some i \<Longrightarrow> this_thread s u = Some i \<Longrightarrow> t = u"
  shows "thread_inv h"
  using assms unfolding thread_inv_def by blast

lemma runs_with_used: "thr_table (thread_globals s) \<Longrightarrow> runs_with s t type i \<Longrightarrow> i \<in> ids_used s"
  by (auto simp: runs_with_def intro: thr_of_type_used)

text \<open>An id that is in use keeps its meaning when another id is taken or given back.\<close>

lemma runs_with_keep:
  assumes r: "runs_with s u type i" and i: "i \<in> thr_of_type type (thread_globals s')" and "tg_thr (thread_globals s') ! i = tg_thr (thread_globals s) ! i"
    and "this_thread s' u = this_thread s u"
  shows "runs_with s' u type i"
  using assms by (simp add: runs_with_def)

lemma thread_inv_global: "odp_thread_init_global True s0 = (0, s) \<Longrightarrow> thread_inv \<lparr>h_sys = s, h_run = (\<lambda>_. None), h_lost = {}\<rparr>"
  by (auto simp: odp_thread_init_global_def thread_inv_def thr_table_def thrmask_zero)

lemma thread_inv_start:
  assumes inv: "thread_inv h" and t: "h_run h t = None" and ok: "odp_thread_init_local cpu t type (h_sys h) = (0, s)"
  shows "thread_inv (h\<lparr>h_sys := s, h_run := (h_run h)(t \<mapsto> type)\<rparr>)"
proof -
  let ?s = "h_sys h"
  note D = thread_invD [OF inv]
  have "card (ids_used ?s) \<noteq> ODP_CONFIG_MAX_THREADS" using init_local_full [OF D(1)] ok by auto
  then have "card (ids_used ?s) < ODP_CONFIG_MAX_THREADS" using thr_table_card [OF D(1)] by simp
  then obtain i g where e: "odp_thread_init_local cpu t type ?s =
      (if cpu < 0 then (-1, ?s\<lparr>thread_globals := g\<rparr>)
       else (0, ?s\<lparr>thread_globals := g\<lparr>tg_thr := (tg_thr g)[i := \<lparr>th_thr = int i, th_cpu = cpu, th_type = type\<rparr>]\<rparr>,
              this_thread := (this_thread ?s)(t := Some i)\<rparr>))"
    and g: "thr_table g" "tg_thr g = tg_thr (thread_globals ?s)" "i < ODP_CONFIG_MAX_THREADS" "i \<notin> ids_used ?s"
      "thr_set (tg_all g) = insert i (ids_used ?s)" "thr_of_type type g = insert i (thr_of_type type (thread_globals ?s))"
      "thr_of_type (other_type type) g = thr_of_type (other_type type) (thread_globals ?s)"
    using init_local_room [OF D(1)] by metis
  have s: "s = ?s\<lparr>thread_globals := g\<lparr>tg_thr := (tg_thr g)[i := \<lparr>th_thr = int i, th_cpu = cpu, th_type = type\<rparr>]\<rparr>,
              this_thread := (this_thread ?s)(t := Some i)\<rparr>"
    using ok e by (simp split: if_splits)
  have len: "length (tg_thr g) = ODP_CONFIG_MAX_THREADS" by (rule thr_table_length [OF g(1)])
  have T: "thr_table (thread_globals s)" using g(1) len by (simp add: s thr_table_thr)
  have mono: "j \<in> thr_of_type ty g" if "j \<in> thr_of_type ty (thread_globals ?s)" for j ty using that g(6,7) type_cases [of ty type] by auto
  have new: "runs_with s t type i" using g(3,6) len by (simp add: s runs_with_def)
  have old: "runs_with s u ty j" if "runs_with ?s u ty j" "u \<noteq> t" for u ty j
  proof (rule runs_with_keep [OF that(1)])
    have "j \<noteq> i" using runs_with_used [OF D(1) that(1)] g(4) by auto
    then show "tg_thr (thread_globals s) ! j = tg_thr (thread_globals ?s) ! j" by (simp add: s g(2))
  qed (use that mono in \<open>auto simp: s runs_with_def\<close>)
  have lost: "i \<notin> h_lost h" using D(2) g(4) by auto
  have used: "j \<in> ids_used ?s" if "h_run h u \<noteq> None" "this_thread ?s u = Some j" for u j using that D(2) by auto
  have this_new: "this_thread s u = (if u = t then Some i else this_thread ?s u)" for u by (simp add: s)
  show ?thesis
  proof (rule thread_invI [where s = s and run = "(h_run h)(t \<mapsto> type)" and lost = "h_lost h"])
    have "ids_used s = insert i (ids_used ?s)" using g(5) by (simp add: s)
    also have "\<dots> = {j. \<exists>u ty. ((h_run h)(t \<mapsto> type)) u = Some ty \<and> this_thread s u = Some j} \<union> h_lost h"
      unfolding D(2) this_new using t by (auto split: if_splits) (metis option.distinct(1))
    finally show "ids_used s = {j. \<exists>u ty. ((h_run h)(t \<mapsto> type)) u = Some ty \<and> this_thread s u = Some j} \<union> h_lost h" .
  next
    fix u ty assume "((h_run h)(t \<mapsto> type)) u = Some ty"
    then show "\<exists>j. runs_with s u ty j \<and> j \<notin> h_lost h" using new lost old D(3) [of u ty] by (cases "u = t") auto
  next
    fix u v j
    assume "((h_run h)(t \<mapsto> type)) u \<noteq> None" "((h_run h)(t \<mapsto> type)) v \<noteq> None" "this_thread s u = Some j" "this_thread s v = Some j"
    then show "u = v" using D(4) [of u v j] used [of u j] used [of v j] g(4) by (auto simp: this_new split: if_splits)
  qed (simp_all add: T)
qed

lemma thread_inv_no_start:
  assumes inv: "thread_inv h" and t: "h_run h t = None" and no: "odp_thread_init_local cpu t type (h_sys h) = (-1, s)"
  shows "thread_inv (h\<lparr>h_sys := s, h_lost := h_lost h \<union> (ids_used s - ids_used (h_sys h))\<rparr>)"
proof (cases "card (ids_used (h_sys h)) = ODP_CONFIG_MAX_THREADS")
  case True
  then have "s = h_sys h" using init_local_full [OF thread_invD(1) [OF inv]] no by simp
  then show ?thesis using inv by (simp add: thread_inv_def)
next
  case False
  let ?s = "h_sys h"
  note D = thread_invD [OF inv]
  have "card (ids_used ?s) < ODP_CONFIG_MAX_THREADS" using False thr_table_card [OF D(1)] by simp
  then obtain i g where e: "odp_thread_init_local cpu t type ?s =
      (if cpu < 0 then (-1, ?s\<lparr>thread_globals := g\<rparr>)
       else (0, ?s\<lparr>thread_globals := g\<lparr>tg_thr := (tg_thr g)[i := \<lparr>th_thr = int i, th_cpu = cpu, th_type = type\<rparr>]\<rparr>,
              this_thread := (this_thread ?s)(t := Some i)\<rparr>))"
    and g: "thr_table g" "tg_thr g = tg_thr (thread_globals ?s)" "i \<notin> ids_used ?s" "thr_set (tg_all g) = insert i (ids_used ?s)"
      "thr_of_type type g = insert i (thr_of_type type (thread_globals ?s))"
      "thr_of_type (other_type type) g = thr_of_type (other_type type) (thread_globals ?s)"
    using init_local_room [OF D(1)] by metis
  have s: "s = ?s\<lparr>thread_globals := g\<rparr>" using no e by (simp split: if_splits)
  have mono: "j \<in> thr_of_type ty g" if "j \<in> thr_of_type ty (thread_globals ?s)" for j ty using that g(5,6) type_cases [of ty type] by auto
  have new: "ids_used s - ids_used ?s = {i}" using g(3,4) by (auto simp: s)
  have old: "runs_with s u ty j" if "runs_with ?s u ty j" for u ty j
    using that mono by (intro runs_with_keep [OF that]) (auto simp: s g(2) runs_with_def)
  show ?thesis
  proof (rule thread_invI [where s = s and run = "h_run h" and lost = "h_lost h \<union> {i}"])
    show "thr_table (thread_globals s)" using g(1) by (simp add: s)
    have "ids_used s = insert i (ids_used ?s)" using g(4) by (simp add: s)
    also have "\<dots> = {j. \<exists>u ty. h_run h u = Some ty \<and> this_thread s u = Some j} \<union> (h_lost h \<union> {i})" unfolding D(2) by (auto simp: s)
    finally show "ids_used s = {j. \<exists>u ty. h_run h u = Some ty \<and> this_thread s u = Some j} \<union> (h_lost h \<union> {i})" .
  next
    fix u ty assume "h_run h u = Some ty"
    then show "\<exists>j. runs_with s u ty j \<and> j \<notin> h_lost h \<union> {i}"
      using old D(3) [of u ty] runs_with_used [OF D(1)] g(3) by (metis Un_iff singletonD)
  next
    fix u v j
    assume "h_run h u \<noteq> None" "h_run h v \<noteq> None" "this_thread s u = Some j" "this_thread s v = Some j"
    then show "u = v" using D(4) [of u v j] by (simp add: s)
  qed (simp_all add: new)
qed

lemma this_state_ok: "runs_with s t type i \<Longrightarrow> this_state t s = Inr (tg_thr (thread_globals s) ! i)"
  by (simp add: this_state_def runs_with_def)

lemma term_local_ok:
  assumes inv: "thread_inv h" and r: "runs_with (h_sys h) t type i"
  obtains g where "odp_thread_term_local t (h_sys h) = Inr (int (card (thr_set (tg_all g))), h_sys h\<lparr>thread_globals := g\<rparr>)" "thr_table g"
    "tg_thr g = tg_thr (thread_globals (h_sys h))" "thr_set (tg_all g) = ids_used (h_sys h) - {i}"
    "thr_of_type type g = thr_of_type type (thread_globals (h_sys h)) - {i}"
    "thr_of_type (other_type type) g = thr_of_type (other_type type) (thread_globals (h_sys h))"
proof (rule free_id_ok [OF thread_invD(1) [OF inv], of i type])
  show "i \<in> thr_of_type type (thread_globals (h_sys h))" "th_type (tg_thr (thread_globals (h_sys h)) ! i) = type"
    using r by (simp_all add: runs_with_def)
  fix g assume f: "free_id (int i) (thread_globals (h_sys h)) = (int (card (thr_set (tg_all g))), g)"
  have "odp_thread_term_local t (h_sys h) = Inr (int (card (thr_set (tg_all g))), h_sys h\<lparr>thread_globals := g\<rparr>)"
    using r f by (simp add: odp_thread_term_local_def this_state_ok [OF r] runs_with_def)
  then show "\<lbrakk>thr_table g; tg_thr g = tg_thr (thread_globals (h_sys h)); thr_set (tg_all g) = ids_used (h_sys h) - {i};
    thr_of_type type g = thr_of_type type (thread_globals (h_sys h)) - {i};
    thr_of_type (other_type type) g = thr_of_type (other_type type) (thread_globals (h_sys h))\<rbrakk> \<Longrightarrow> thesis"
    by (rule that)
qed

lemma thread_inv_stop:
  assumes inv: "thread_inv h" and t: "h_run h t = Some type" and ok: "odp_thread_term_local t (h_sys h) = Inr (num, s)"
  shows "thread_inv (h\<lparr>h_sys := s, h_run := (h_run h)(t := None)\<rparr>)"
proof -
  let ?s = "h_sys h"
  note D = thread_invD [OF inv]
  obtain i where i: "runs_with ?s t type i" "i \<notin> h_lost h" using D(3) [OF t] by blast
  obtain g where e: "odp_thread_term_local t ?s = Inr (int (card (thr_set (tg_all g))), ?s\<lparr>thread_globals := g\<rparr>)"
    and g: "thr_table g" "tg_thr g = tg_thr (thread_globals ?s)" "thr_set (tg_all g) = ids_used ?s - {i}"
      "thr_of_type type g = thr_of_type type (thread_globals ?s) - {i}"
      "thr_of_type (other_type type) g = thr_of_type (other_type type) (thread_globals ?s)"
    by (rule term_local_ok [OF inv i(1)])
  have s: "s = ?s\<lparr>thread_globals := g\<rparr>" using ok e by simp
  have it: "this_thread ?s t = Some i" using i(1) by (simp add: runs_with_def)
  have differ: "j \<noteq> i" if "h_run h u = Some ty" "this_thread ?s u = Some j" "u \<noteq> t" for u ty j
    using D(4) [of u t j] that t it by auto
  have mono: "j \<in> thr_of_type ty g" if "j \<in> thr_of_type ty (thread_globals ?s)" "j \<noteq> i" for j ty
    using that g(4,5) type_cases [of ty type] by auto
  show ?thesis
  proof (rule thread_invI [where s = s and run = "(h_run h)(t := None)" and lost = "h_lost h"])
    show "thr_table (thread_globals s)" using g(1) by (simp add: s)
    have "ids_used s = ids_used ?s - {i}" using g(3) by (simp add: s)
    also have "\<dots> = {j. \<exists>u ty. ((h_run h)(t := None)) u = Some ty \<and> this_thread ?s u = Some j} \<union> h_lost h"
    proof -
      have "j \<in> ids_used ?s - {i} \<longleftrightarrow> (\<exists>u ty. ((h_run h)(t := None)) u = Some ty \<and> this_thread ?s u = Some j) \<or> j \<in> h_lost h" for j
        unfolding D(2) using differ it i(2) by (auto split: if_splits) (metis option.inject)
      then show ?thesis by blast
    qed
    finally show "ids_used s = {j. \<exists>u ty. ((h_run h)(t := None)) u = Some ty \<and> this_thread s u = Some j} \<union> h_lost h" by (simp add: s)
  next
    fix u ty assume u: "((h_run h)(t := None)) u = Some ty"
    then have ut: "u \<noteq> t" "h_run h u = Some ty" by (auto split: if_splits)
    obtain j where j: "runs_with ?s u ty j" "j \<notin> h_lost h" using D(3) [OF ut(2)] by blast
    have "j \<noteq> i" using differ [OF ut(2) _ ut(1)] j(1) by (simp add: runs_with_def)
    then have "runs_with s u ty j" using j(1) mono [of j ty] by (intro runs_with_keep [OF j(1)]) (auto simp: s g(2) runs_with_def)
    then show "\<exists>j. runs_with s u ty j \<and> j \<notin> h_lost h" using j(2) by blast
  next
    fix u v j
    assume "((h_run h)(t := None)) u \<noteq> None" "((h_run h)(t := None)) v \<noteq> None" "this_thread s u = Some j" "this_thread s v = Some j"
    then show "u = v" using D(4) [of u v j] by (simp add: s split: if_splits)
  qed simp_all
qed

theorem thread_reachable_inv: "thread_reachable h \<Longrightarrow> thread_inv h"
  by (induction rule: thread_reachable.induct) (blast intro: thread_inv_global thread_inv_start thread_inv_no_start thread_inv_stop)+

lemma thread_count:
  assumes inv: "thread_inv h"
  shows "finite {t. h_run h t \<noteq> None} \<and> card (ids_used (h_sys h)) = card {t. h_run h t \<noteq> None} + card (h_lost h)"
proof -
  let ?s = "h_sys h" and ?R = "{t. h_run h t \<noteq> None}" and ?f = "\<lambda>t. the (this_thread (h_sys h) t)"
  note D = thread_invD [OF inv]
  have some: "\<exists>i. this_thread ?s t = Some i \<and> i \<notin> h_lost h" if "t \<in> ?R" for t
    using that D(3) by (fastforce simp: runs_with_def)
  have inj: "inj_on ?f ?R" 
  proof (rule inj_onI)
    fix t u assume tu: "t \<in> ?R" "u \<in> ?R" "?f t = ?f u"
    obtain i j where "this_thread ?s t = Some i" "this_thread ?s u = Some j" using some [OF tu(1)] some [OF tu(2)] by blast
    then show "t = u" using D(4) [of t u i] tu by simp
  qed
  have im: "?f ` ?R = {i. \<exists>t type. h_run h t = Some type \<and> this_thread ?s t = Some i}" (is "_ = ?I")
  proof
    show "?f ` ?R \<subseteq> ?I" using some by fastforce
    show "?I \<subseteq> ?f ` ?R" by (auto intro: rev_image_eqI)
  qed
  have u: "ids_used ?s = ?f ` ?R \<union> h_lost h" unfolding im by (rule D(2))
  have "finite (?f ` ?R)" "finite (h_lost h)" using u thr_set_finite [of "tg_all (thread_globals ?s)"] by (simp_all add: finite_Un)
  moreover have "?f ` ?R \<inter> h_lost h = {}" using some by fastforce
  ultimately show ?thesis unfolding u using inj by (simp add: card_Un_disjoint card_image finite_image_iff)
qed

text \<open> C38: In every history of threads that start and end, every running thread has an id below the limit, with the type it was
  started with, in the mask of that type; no two running threads have the same id; the count of threads is the number of running threads
  and of ids lost to failed starts; a start takes the lowest free id, or fails when all ids are taken, and the end of a thread
  gives its id back and returns the number of threads left.\<close>

theorem odp_thread_ids_correct:
  assumes h: "thread_reachable h"
  shows "(\<forall>t type. h_run h t = Some type \<longrightarrow>
      (\<exists>i<ODP_CONFIG_MAX_THREADS. odp_thread_id t (h_sys h) = Inr (int i) \<and> odp_thread_type t (h_sys h) = Inr type \<and>
        odp_thrmask_isset (snd (case type of ODP_THREAD_WORKER \<Rightarrow> odp_thrmask_worker (h_sys h) | ODP_THREAD_CONTROL \<Rightarrow> odp_thrmask_control (h_sys h))) (int i))) \<and>
    (\<forall>t u. h_run h t \<noteq> None \<and> h_run h u \<noteq> None \<and> odp_thread_id t (h_sys h) = odp_thread_id u (h_sys h) \<longrightarrow> t = u) \<and>
    odp_thread_count (h_sys h) = int (card {t. h_run h t \<noteq> None} + card (h_lost h)) \<and>
    (\<forall>t type cpu. 0 \<le> cpu \<longrightarrow>
      (if odp_thread_count (h_sys h) = int ODP_CONFIG_MAX_THREADS then odp_thread_init_local cpu t type (h_sys h) = (-1, h_sys h)
       else \<exists>s. odp_thread_init_local cpu t type (h_sys h) = (0, s) \<and>
         odp_thread_id t s = Inr (int (LEAST i. \<not> odp_thrmask_isset (tg_all (thread_globals (h_sys h))) (int i))))) \<and>
    (\<forall>t type. h_run h t = Some type \<longrightarrow> (\<exists>s. odp_thread_term_local t (h_sys h) = Inr (odp_thread_count (h_sys h) - 1, s) \<and>
      odp_thread_count s = odp_thread_count (h_sys h) - 1))"
proof -
  let ?s = "h_sys h"
  have inv: "thread_inv h" by (rule thread_reachable_inv [OF h])
  note D = thread_invD [OF inv]
  have id_is: "odp_thread_id t ?s = Inr (int i)" "odp_thread_type t ?s = Inr type" if "runs_with ?s t type i" for t type i
    using that this_state_ok [OF that] by (simp_all add: odp_thread_id_def odp_thread_type_def runs_with_def)
  have cnt: "odp_thread_count s = int (card (ids_used s))" if "thr_table (thread_globals s)" for s
    using thr_table_num [OF that] by (simp add: odp_thread_count_def)
  have A: "\<exists>i<ODP_CONFIG_MAX_THREADS. odp_thread_id t ?s = Inr (int i) \<and> odp_thread_type t ?s = Inr type \<and>
        odp_thrmask_isset (snd (case type of ODP_THREAD_WORKER \<Rightarrow> odp_thrmask_worker ?s | ODP_THREAD_CONTROL \<Rightarrow> odp_thrmask_control ?s)) (int i)"
    if t: "h_run h t = Some type" for t type
  proof -
    obtain i where i: "runs_with ?s t type i" using D(3) [OF t] by blast
    have m: "i < ODP_CONFIG_MAX_THREADS" using runs_with_used [OF D(1) i] D(1) by (auto simp: thr_table_def)
    have "i \<in> thr_of_type type (thread_globals ?s)" using i by (simp add: runs_with_def)
    then have "odp_thrmask_isset (snd (case type of ODP_THREAD_WORKER \<Rightarrow> odp_thrmask_worker ?s | ODP_THREAD_CONTROL \<Rightarrow> odp_thrmask_control ?s)) (int i)"
      by (cases type) (simp_all add: thrmask_isset thr_of_type_def odp_thrmask_worker_def odp_thrmask_control_def odp_thrmask_copy_def odp_cpumask_copy_def thr_set_def)
    then show ?thesis using m id_is [OF i] by blast
  qed
  have B: "t = u" if tu: "h_run h t \<noteq> None" "h_run h u \<noteq> None" "odp_thread_id t ?s = odp_thread_id u ?s" for t u
  proof -
    obtain ty ty' where "h_run h t = Some ty" "h_run h u = Some ty'" using tu by blast
    then obtain i j where r: "runs_with ?s t ty i" "runs_with ?s u ty' j" using D(3) by meson
    then have "i = j" using tu(3) id_is(1) [OF r(1)] id_is(1) [OF r(2)] by simp
    then show ?thesis using D(4) [OF tu(1,2)] r by (simp add: runs_with_def)
  qed
  have C: "odp_thread_count ?s = int (card {t. h_run h t \<noteq> None} + card (h_lost h))" using cnt [OF D(1)] thread_count [OF inv] by simp
  have E: "if odp_thread_count ?s = int ODP_CONFIG_MAX_THREADS then odp_thread_init_local cpu t type ?s = (-1, ?s)
       else \<exists>s. odp_thread_init_local cpu t type ?s = (0, s) \<and>
         odp_thread_id t s = Inr (int (LEAST i. \<not> odp_thrmask_isset (tg_all (thread_globals ?s)) (int i)))" if "0 \<le> cpu" for t type cpu
  proof (cases "card (ids_used ?s) = ODP_CONFIG_MAX_THREADS")
    case True
    then show ?thesis using init_local_full [OF D(1) True] cnt [OF D(1)] by simp
  next
    case False
    then have room: "card (ids_used ?s) < ODP_CONFIG_MAX_THREADS" using thr_table_card [OF D(1)] by simp
    obtain i g where "odp_thread_init_local cpu t type ?s =
      (if cpu < 0 then (-1, ?s\<lparr>thread_globals := g\<rparr>)
       else (0, ?s\<lparr>thread_globals := g\<lparr>tg_thr := (tg_thr g)[i := \<lparr>th_thr = int i, th_cpu = cpu, th_type = type\<rparr>]\<rparr>,
              this_thread := (this_thread ?s)(t := Some i)\<rparr>))"
      and "thr_table g" "i < ODP_CONFIG_MAX_THREADS" "i = (LEAST i. i \<notin> ids_used ?s)"
      by (rule init_local_room [OF D(1) room, of cpu t type])
    then show ?thesis using False that cnt [OF D(1)] thr_table_length [of g]
      by (simp add: odp_thread_id_def this_state_def thrmask_isset)
  qed
  have F: "\<exists>s. odp_thread_term_local t ?s = Inr (odp_thread_count ?s - 1, s) \<and> odp_thread_count s = odp_thread_count ?s - 1"
    if t: "h_run h t = Some type" for t type
  proof -
    obtain i where i: "runs_with ?s t type i" using D(3) [OF t] by blast
    obtain g where g: "odp_thread_term_local t ?s = Inr (int (card (thr_set (tg_all g))), ?s\<lparr>thread_globals := g\<rparr>)" "thr_table g"
      "thr_set (tg_all g) = ids_used ?s - {i}"
      by (rule term_local_ok [OF inv i])
    have k: "i \<in> ids_used ?s" by (rule runs_with_used [OF D(1) i])
    then have "card (ids_used ?s) > 0" by (auto simp: card_gt_0_iff)
    then have "int (card (ids_used ?s - {i})) = int (card (ids_used ?s)) - 1" using k by simp
    then show ?thesis using g cnt [OF D(1)] cnt [of "?s\<lparr>thread_globals := g\<rparr>"] by simp
  qed
  show ?thesis using A B C E F by blast
qed

theorem odp_thread_ids_correct_witness:
  "\<exists>h. thread_reachable h \<and> h_run h 7 = Some ODP_THREAD_CONTROL \<and> h_run h 8 = None \<and> odp_thread_count (h_sys h) = 1 \<and>
    odp_thread_id 7 (h_sys h) = Inr 0 \<and> fst (odp_thread_init_local 2 8 ODP_THREAD_WORKER (h_sys h)) = 0 \<and>
    map_sum (\<lambda>e. e) fst (odp_thread_term_local 7 (h_sys h)) = Inr 0"
proof -
  obtain s0 where s0: "odp_thread_init_global True undefined = (0, s0)" by (simp add: odp_thread_init_global_def)
  let ?h = "\<lparr>h_sys = s0, h_run = (\<lambda>_. None), h_lost = {}\<rparr> :: thread_hist"
  have r: "thread_reachable ?h" by (rule global [OF s0])
  have e: "\<not> odp_thrmask_isset (tg_all (thread_globals s0)) (int i)" for i
    using s0 conjunct2 [OF thrmask_zero] by (auto simp: odp_thread_init_global_def thrmask_isset)
  note c0 = odp_thread_ids_correct [OF r]
  have "odp_thread_count s0 = 0" using c0 by simp
  then obtain s where s: "odp_thread_init_local 3 7 ODP_THREAD_CONTROL s0 = (0, s)" "odp_thread_id 7 s = Inr (int (LEAST i. True))"
    using conjunct1 [OF conjunct2 [OF conjunct2 [OF conjunct2 [OF c0]]], rule_format, of 3 7 ODP_THREAD_CONTROL] e by (auto simp: ODP_CONFIG_MAX_THREADS_def)
  have least: "(LEAST i :: nat. True) = 0" by (rule Least_equality) simp_all
  let ?h1 = "?h\<lparr>h_sys := s, h_run := (h_run ?h)(7 \<mapsto> ODP_THREAD_CONTROL)\<rparr>"
  have r1: "thread_reachable ?h1" by (rule start [OF r]) (use s in simp_all)
  note c1 = odp_thread_ids_correct [OF r1]
  have n1: "odp_thread_count s = 1" using conjunct1 [OF conjunct2 [OF conjunct2 [OF c1]]] by simp
  have i1: "fst (odp_thread_init_local 2 8 ODP_THREAD_WORKER s) = 0"
    using conjunct1 [OF conjunct2 [OF conjunct2 [OF conjunct2 [OF c1]]], rule_format, of 2 8 ODP_THREAD_WORKER] n1 by (auto simp: ODP_CONFIG_MAX_THREADS_def)
  have t1: "map_sum (\<lambda>e. e) fst (odp_thread_term_local 7 s) = Inr 0"
    using conjunct2 [OF conjunct2 [OF conjunct2 [OF conjunct2 [OF c1]]], rule_format, of 7 ODP_THREAD_CONTROL] n1 by auto
  show ?thesis using r1 n1 i1 t1 s(2) least by (intro exI [of _ ?h1]) simp
qed

text \<open>An id whose start failed because the CPU is not known stays taken: nothing gives it back.\<close>

lemma odp_thread_init_local_lost:
  assumes "thread_reachable h" "odp_thread_count (h_sys h) < int ODP_CONFIG_MAX_THREADS" "cpu < 0"
  shows "\<exists>s. odp_thread_init_local cpu t type (h_sys h) = (-1, s) \<and> odp_thread_count s = odp_thread_count (h_sys h) + 1 \<and> this_thread s = this_thread (h_sys h)"
proof -
  note D = thread_invD(1) [OF thread_reachable_inv [OF assms(1)]]
  have room: "card (ids_used (h_sys h)) < ODP_CONFIG_MAX_THREADS" using assms(2) thr_table_num [OF D] by (simp add: odp_thread_count_def)
  obtain i g where g: "odp_thread_init_local cpu t type (h_sys h) =
      (if cpu < 0 then (-1, h_sys h\<lparr>thread_globals := g\<rparr>)
       else (0, h_sys h\<lparr>thread_globals := g\<lparr>tg_thr := (tg_thr g)[i := \<lparr>th_thr = int i, th_cpu = cpu, th_type = type\<rparr>]\<rparr>,
              this_thread := (this_thread (h_sys h))(t := Some i)\<rparr>))"
    and T: "thr_table g" and i: "i \<notin> ids_used (h_sys h)" "thr_set (tg_all g) = insert i (ids_used (h_sys h))"
    by (rule init_local_room [OF D room, of cpu t type])
  show ?thesis using g assms(3) i thr_table_num [OF T] thr_table_num [OF D] by (simp add: odp_thread_count_def)
qed

end
