(* ===== verification/Odp_Shm_Correct.thy ===== *)
theory Odp_Shm_Correct
  imports Odp_Shm
begin

unbundle bit_operations_syntax

text \<open>
  Shared memory: under what the manual pages promise of \<open>mmap\<close> and \<open>munmap\<close>, every block in use lies in a mapping of its own, aligned and
  with all its bytes, and is found by its name.
\<close>

section \<open>What the system calls promise\<close>

definition span :: "u64 \<Rightarrow> u64 \<Rightarrow> nat set" where
  "span a n = {unat a..<unat a + unat n}"

text \<open>A new mapping: not at address 0, not empty, within the address space and apart from all mappings that exist.\<close>

definition fresh_span :: "(u64 \<times> u64) set \<Rightarrow> u64 \<Rightarrow> u64 \<Rightarrow> bool" where
  "fresh_span m a n \<longleftrightarrow> a \<noteq> 0 \<and> n \<noteq> 0 \<and> unat a + unat n \<le> 2 ^ 64 \<and> (\<forall>(b, k)\<in>m. span a n \<inter> span b k = {})"

text \<open>
  The manual pages: \<open>mmap\<close> adds a new mapping or fails, \<open>munmap\<close> removes a mapping or fails, the calls on files leave the mappings alone.
  \<open>mapped\<close> reads the mappings off the state of the system.
\<close>

definition os_ok :: "'os shm_os \<Rightarrow> ('os \<Rightarrow> (u64 \<times> u64) set) \<Rightarrow> bool" where
  "os_ok os mapped \<longleftrightarrow>
    (\<forall>n huge anon fd w w'. os_mmap os n huge anon fd w = (None, w') \<longrightarrow> mapped w' = mapped w) \<and>
    (\<forall>n huge anon fd w a w'. os_mmap os n huge anon fd w = (Some a, w') \<longrightarrow> fresh_span (mapped w) a n \<and> mapped w' = insert (a, n) (mapped w)) \<and>
    (\<forall>a n w w'. os_munmap os a n w = (0, w') \<and> (a, n) \<in> mapped w \<longrightarrow> mapped w' = mapped w - {(a, n)}) \<and>
    (\<forall>a n w ret w'. os_munmap os a n w = (ret, w') \<and> ret \<noteq> 0 \<longrightarrow> mapped w' = mapped w) \<and>
    (\<forall>fd n w. mapped (snd (os_ftruncate os fd n w)) = mapped w) \<and>
    (\<forall>name w. mapped (snd (os_shm_open os name w)) = mapped w) \<and>
    (\<forall>name w. mapped (snd (os_shm_unlink os name w)) = mapped w)"

lemma os_okD:
  assumes "os_ok os mapped"
  shows "os_mmap os n huge anon fd w = (None, w') \<Longrightarrow> mapped w' = mapped w"
    and "os_mmap os n huge anon fd w = (Some a, w') \<Longrightarrow> fresh_span (mapped w) a n \<and> mapped w' = insert (a, n) (mapped w)"
    and "os_munmap os a n w = (0, w') \<Longrightarrow> (a, n) \<in> mapped w \<Longrightarrow> mapped w' = mapped w - {(a, n)}"
    and "os_munmap os a n w = (ret, w') \<Longrightarrow> ret \<noteq> 0 \<Longrightarrow> mapped w' = mapped w"
    and "os_ftruncate os fd n w = (ret, w') \<Longrightarrow> mapped w' = mapped w"
    and "os_shm_open os name w = (ret, w') \<Longrightarrow> mapped w' = mapped w"
    and "os_shm_unlink os name w = (ret, w') \<Longrightarrow> mapped w' = mapped w"
  using assms unfolding os_ok_def by (metis snd_conv)+

section \<open>The two attempts to map memory\<close>

lemma map_pages_spec:
  assumes ok: "os_ok os mapped" and m: "map_pages os proc n huge fd w = (r, w')"
  shows "(case r of Some (Some a) \<Rightarrow> fresh_span (mapped w) a n \<and> mapped w' = insert (a, n) (mapped w) | _ \<Rightarrow> mapped w' = mapped w)"
proof -
  obtain ret w1 where t: "(if proc then os_ftruncate os fd n w else (0, w)) = (ret, w1)" by (cases "if proc then os_ftruncate os fd n w else (0, w)") auto
  have w1: "mapped w1 = mapped w" using t os_okD(5) [OF ok] by (auto split: if_splits)
  obtain a w2 where a: "os_mmap os n huge (\<not> proc) fd w1 = (a, w2)" by (cases "os_mmap os n huge (\<not> proc) fd w1") auto
  show ?thesis
  proof (cases "ret = -1")
    case True
    then show ?thesis using m t w1 by (simp add: map_pages_def)
  next
    case False
    then have "r = Some a" "w' = w2" using m t a by (simp_all add: map_pages_def)
    then show ?thesis
    proof (cases a)
      case None
      then show ?thesis using \<open>r = Some a\<close> \<open>w' = w2\<close> os_okD(1) [OF ok a [unfolded None]] w1 by simp
    next
      case (Some b)
      then show ?thesis using \<open>r = Some a\<close> \<open>w' = w2\<close> os_okD(2) [OF ok a [unfolded Some]] w1 by simp
    qed
  qed
qed

lemma reserve_map_spec:
  assumes ok: "os_ok os mapped" and m: "reserve_map os proc need hp_size normal huge_sz page_sz fd w = (r, w')"
  shows "(case r of None \<Rightarrow> mapped w' = mapped w
     | Some (a, n, huge, pg) \<Rightarrow> fresh_span (mapped w) a n \<and> mapped w' = insert (a, n) (mapped w) \<and> (n = normal \<and> \<not> huge \<or> need \<and> n = hp_size \<and> huge))"
proof -
  obtain r1 w1 where h: "(if need then map_pages os proc hp_size True fd w else (Some None, w)) = (r1, w1)" by (meson surj_pair)
  have s1: "case r1 of Some (Some a) \<Rightarrow> need \<and> fresh_span (mapped w) a hp_size \<and> mapped w1 = insert (a, hp_size) (mapped w) | _ \<Rightarrow> mapped w1 = mapped w"
    using h map_pages_spec [OF ok, of proc hp_size True fd w r1 w1] by (auto split: if_splits option.splits)
  obtain r2 w2 where n: "map_pages os proc normal False fd w1 = (r2, w2)" by (meson surj_pair)
  note s2 = map_pages_spec [OF ok n]
  show ?thesis using m s1 s2 unfolding reserve_map_def h prod.case n by (auto split: option.splits)
qed

text \<open>The size for huge pages is the size rounded up to whole pages.\<close>

lemma huge_size:
  assumes h: "unat huge_sz = 2 ^ k" and fit: "unat n + 2 ^ k \<le> 2 ^ 64"
  shows "unat n \<le> unat ((n + (huge_sz - 1)) AND (- huge_sz :: u64))"
proof -
  have nz: "huge_sz \<noteq> 0" using h by auto
  have neg: "- huge_sz = NOT (huge_sz - 1)" by (simp add: not_eq_complement)
  have u: "unat (n + (huge_sz - 1)) = unat n + (2 ^ k - 1)"
  proof -
    have "unat (huge_sz - 1) = 2 ^ k - 1" using unat_minus_one [OF nz] h by simp
    moreover have "unat n + (2 ^ k - 1) < 2 ^ 64" using fit by (simp add: less_le_trans)
    ultimately show ?thesis using unat_add_small [of n "huge_sz - 1"] by simp
  qed
  have "unat ((n + (huge_sz - 1)) AND (- huge_sz)) = 2 ^ k * ((unat n + (2 ^ k - 1)) div 2 ^ k)"
    using rounddown_power_2 [OF h, of "n + (huge_sz - 1)"] by (simp add: ODP_ALIGN_ROUNDDOWN_POWER_2_def neg u h)
  moreover have "unat n \<le> 2 ^ k * ((unat n + (2 ^ k - 1)) div 2 ^ k)"
    using round_up_bounds [of "2 ^ k" "unat n"] by (simp add: round_up_def add_diff_eq)
  ultimately show ?thesis by simp
qed

section \<open>The invariant of the table\<close>

text \<open>
  A block in use has its handle, a name, and an aligned address in its own mapping with its size behind it; the mappings of blocks do not
  overlap and their names differ. A free block has no name.
\<close>

definition block_ok :: "(u64 \<times> u64) set \<Rightarrow> nat \<Rightarrow> shm_block \<Rightarrow> bool" where
  "block_ok m i b \<longleftrightarrow> sb_hdl b = of_nat i + 1 \<and> sb_name b \<noteq> '''' \<and> (sb_addr_orig b, sb_alloc_size b) \<in> m \<and> sb_alloc_size b \<noteq> 0 \<and>
    unat (sb_align b) dvd unat (sb_addr b) \<and> unat (sb_addr_orig b) \<le> unat (sb_addr b) \<and>
    unat (sb_addr b) + unat (sb_size b) \<le> unat (sb_addr_orig b) + unat (sb_alloc_size b)"

definition blocks_apart :: "shm_block \<Rightarrow> shm_block \<Rightarrow> bool" where
  "blocks_apart b c \<longleftrightarrow> sb_name b \<noteq> sb_name c \<and> span (sb_addr_orig b) (sb_alloc_size b) \<inter> span (sb_addr_orig c) (sb_alloc_size c) = {}"

definition tbl_ok :: "(u64 \<times> u64) set \<Rightarrow> shm_block list \<Rightarrow> bool" where
  "tbl_ok m tbl \<longleftrightarrow> length tbl = ODP_CONFIG_SHM_BLOCKS \<and>
    (\<forall>i<ODP_CONFIG_SHM_BLOCKS. if sb_addr (tbl ! i) = 0 then sb_name (tbl ! i) = '''' else block_ok m i (tbl ! i)) \<and>
    (\<forall>i<ODP_CONFIG_SHM_BLOCKS. \<forall>j<ODP_CONFIG_SHM_BLOCKS. i \<noteq> j \<and> sb_addr (tbl ! i) \<noteq> 0 \<and> sb_addr (tbl ! j) \<noteq> 0 \<longrightarrow> blocks_apart (tbl ! i) (tbl ! j))"

definition shm_inv :: "('os \<Rightarrow> (u64 \<times> u64) set) \<Rightarrow> 'os shm_sys \<Rightarrow> bool" where
  "shm_inv mapped s \<longleftrightarrow> tbl_ok (mapped (shm_world s)) (shm_tbl s)"

lemma tbl_okD:
  assumes "tbl_ok m tbl"
  shows "length tbl = ODP_CONFIG_SHM_BLOCKS"
    and "i < ODP_CONFIG_SHM_BLOCKS \<Longrightarrow> sb_addr (tbl ! i) = 0 \<Longrightarrow> sb_name (tbl ! i) = ''''"
    and "i < ODP_CONFIG_SHM_BLOCKS \<Longrightarrow> sb_addr (tbl ! i) \<noteq> 0 \<Longrightarrow> block_ok m i (tbl ! i)"
    and "i < ODP_CONFIG_SHM_BLOCKS \<Longrightarrow> j < ODP_CONFIG_SHM_BLOCKS \<Longrightarrow> i \<noteq> j \<Longrightarrow> sb_addr (tbl ! i) \<noteq> 0 \<Longrightarrow> sb_addr (tbl ! j) \<noteq> 0 \<Longrightarrow> blocks_apart (tbl ! i) (tbl ! j)"
  using assms unfolding tbl_ok_def by metis+

lemma tbl_okI:
  assumes "length tbl = ODP_CONFIG_SHM_BLOCKS"
    and "\<And>i. i < ODP_CONFIG_SHM_BLOCKS \<Longrightarrow> sb_addr (tbl ! i) = 0 \<Longrightarrow> sb_name (tbl ! i) = ''''"
    and "\<And>i. i < ODP_CONFIG_SHM_BLOCKS \<Longrightarrow> sb_addr (tbl ! i) \<noteq> 0 \<Longrightarrow> block_ok m i (tbl ! i)"
    and "\<And>i j. i < ODP_CONFIG_SHM_BLOCKS \<Longrightarrow> j < ODP_CONFIG_SHM_BLOCKS \<Longrightarrow> i \<noteq> j \<Longrightarrow> sb_addr (tbl ! i) \<noteq> 0 \<Longrightarrow> sb_addr (tbl ! j) \<noteq> 0 \<Longrightarrow> blocks_apart (tbl ! i) (tbl ! j)"
  shows "tbl_ok m tbl"
  using assms unfolding tbl_ok_def by auto

lemma blocks_apart_sym: "blocks_apart b c \<Longrightarrow> blocks_apart c b"
  by (auto simp: blocks_apart_def)

lemma block_ok_mono: "block_ok m i b \<Longrightarrow> m \<subseteq> m' \<Longrightarrow> block_ok m' i b"
  by (auto simp: block_ok_def)

lemma find_upt_cases:
  "(find P [0..<n] = None \<and> (\<forall>i<n. \<not> P i)) \<or> (\<exists>i. find P [0..<n] = Some i \<and> i < n \<and> P i \<and> (\<forall>j<i. \<not> P j))"
proof (cases "find P [0..<n]")
  case None
  then show ?thesis by (auto simp: find_None_iff)
next
  case (Some i)
  then obtain j where j: "j < length [0..<n]" "P ([0..<n] ! j)" "i = [0..<n] ! j" "\<forall>k<j. \<not> P ([0..<n] ! k)" unfolding find_Some_iff by metis
  then have "i = j" "i < n" by simp_all
  then show ?thesis using Some j by auto
qed

text \<open>A name is found at the block in use that has it.\<close>

lemma lookup_used:
  assumes t: "tbl_ok m tbl" and i: "i < ODP_CONFIG_SHM_BLOCKS" and u: "sb_addr (tbl ! i) \<noteq> 0"
  shows "find_block (sb_name (tbl ! i)) tbl = Some i"
proof -
  have ne: "sb_name (tbl ! j) \<noteq> sb_name (tbl ! i)" if j: "j < ODP_CONFIG_SHM_BLOCKS" "j \<noteq> i" for j
  proof (cases "sb_addr (tbl ! j) = 0")
    case True
    then show ?thesis using tbl_okD(2) [OF t j(1)] tbl_okD(3) [OF t i u] by (auto simp: block_ok_def)
  next
    case False
    then show ?thesis using tbl_okD(4) [OF t j(1) i j(2) False u] by (simp add: blocks_apart_def)
  qed
  show ?thesis using find_upt_cases [of "\<lambda>j. sb_name (tbl ! i) = sb_name (tbl ! j)" ODP_CONFIG_SHM_BLOCKS] i ne unfolding find_block_def by metis
qed

lemma find_block_None: "find_block name tbl = None \<longleftrightarrow> (\<forall>i<ODP_CONFIG_SHM_BLOCKS. sb_name (tbl ! i) \<noteq> name)"
  unfolding find_block_def by (auto simp: find_None_iff)

lemma find_block_used:
  assumes t: "tbl_ok m tbl" and n: "name \<noteq> ''''" and f: "find_block name tbl = Some i"
  shows "i < ODP_CONFIG_SHM_BLOCKS \<and> sb_addr (tbl ! i) \<noteq> 0 \<and> sb_name (tbl ! i) = name"
  using f tbl_okD(2) [OF t] n find_upt_cases [of "\<lambda>i. name = sb_name (tbl ! i)" ODP_CONFIG_SHM_BLOCKS] unfolding find_block_def by fastforce

lemma handle_index: "i < ODP_CONFIG_SHM_BLOCKS \<Longrightarrow> unat (from_handle (to_handle (of_nat i))) = i \<and> to_handle (of_nat i) \<noteq> ODP_SHM_INVALID"
proof -
  assume i: "i < ODP_CONFIG_SHM_BLOCKS"
  then have lt: "i < 64" by (simp add: ODP_CONFIG_SHM_BLOCKS_def ODP_CONFIG_POOLS_def)
  have u: "unat (of_nat i :: u32) = i" using lt by (simp add: unat_of_nat)
  then have "unat (of_nat i + 1 :: u32) = i + 1" using lt unat_add_u32 [of "of_nat i" 1] by simp
  then have "(of_nat i + 1 :: u32) \<noteq> 0" by (metis Suc_eq_plus1 nat.distinct(1) unat_0)
  then show ?thesis using u by (simp add: from_handle_def to_handle_def ODP_SHM_INVALID_def)
qed

section \<open>Reservation and release keep the invariant\<close>

lemma tbl_ok_hdl:
  assumes t: "tbl_ok m tbl" and i: "i < ODP_CONFIG_SHM_BLOCKS" "sb_addr (tbl ! i) = 0"
  shows "tbl_ok m (tbl[i := (tbl ! i)\<lparr>sb_hdl := h\<rparr>])"
  using i tbl_okD [OF t] by (intro tbl_okI) (auto simp: nth_list_update split: if_splits)

lemma tbl_ok_free:
  assumes t: "tbl_ok m tbl" and i: "i < ODP_CONFIG_SHM_BLOCKS" "sb_addr (tbl ! i) \<noteq> 0"
  shows "tbl_ok (m - {(sb_addr_orig (tbl ! i), sb_alloc_size (tbl ! i))}) (tbl[i := zero_block])"
proof (rule tbl_okI)
  note D = tbl_okD [OF t]
  show "length (tbl[i := zero_block]) = ODP_CONFIG_SHM_BLOCKS" using D(1) by simp
  fix j assume j: "j < ODP_CONFIG_SHM_BLOCKS"
  show "sb_name (tbl[i := zero_block] ! j) = ''''" if "sb_addr (tbl[i := zero_block] ! j) = 0"
    using that D(1) D(2) [OF j] i by (cases "i = j") (simp_all add: zero_block_def)
  show "block_ok (m - {(sb_addr_orig (tbl ! i), sb_alloc_size (tbl ! i))}) j (tbl[i := zero_block] ! j)" if a: "sb_addr (tbl[i := zero_block] ! j) \<noteq> 0"
  proof -
    have ij: "i \<noteq> j" using a i D(1) by (auto simp: zero_block_def)
    then have u: "sb_addr (tbl ! j) \<noteq> 0" using a by simp
    have b: "block_ok m i (tbl ! i)" "block_ok m j (tbl ! j)" using D(3) i j u by blast+
    have "span (sb_addr_orig (tbl ! i)) (sb_alloc_size (tbl ! i)) \<inter> span (sb_addr_orig (tbl ! j)) (sb_alloc_size (tbl ! j)) = {}"
      using D(4) [OF i(1) j ij i(2) u] by (simp add: blocks_apart_def)
    then have "(sb_addr_orig (tbl ! j), sb_alloc_size (tbl ! j)) \<noteq> (sb_addr_orig (tbl ! i), sb_alloc_size (tbl ! i))"
      using b(1) by (auto simp: span_def block_ok_def unat_gt_0)
    then show ?thesis using b(2) ij by (simp add: block_ok_def)
  qed
  fix k assume k: "k < ODP_CONFIG_SHM_BLOCKS" and jk: "j \<noteq> k" and a: "sb_addr (tbl[i := zero_block] ! j) \<noteq> 0" "sb_addr (tbl[i := zero_block] ! k) \<noteq> 0"
  have "i \<noteq> j" "i \<noteq> k" using a i D(1) by (auto simp: zero_block_def)
  then show "blocks_apart (tbl[i := zero_block] ! j) (tbl[i := zero_block] ! k)" using a D(4) [OF j k jk] by simp
qed

text \<open>The block a reservation fills in lies in its new mapping.\<close>

lemma fill_block_ok:
  assumes f: "fresh_span m a n" and al: "align \<noteq> 0" and fit: "unat sz + unat align \<le> unat n"
    and name: "name \<noteq> ''''" "length name < ODP_SHM_NAME_LEN" and h: "sb_hdl b = of_nat i + 1"
    and c_def: "c = fill_block name sz align flags fd (a, n, huge, pg) b"
  shows "sb_addr c \<noteq> 0 \<and> block_ok (insert (a, n) m) i c \<and> sb_name c = name \<and> sb_hdl c = of_nat i + 1 \<and> sb_size c = sz \<and> sb_align c = align \<and>
    sb_addr_orig c = a \<and> sb_alloc_size c = n"
proof -
  have n: "unat a + unat n \<le> 2 ^ 64" "a \<noteq> 0" "n \<noteq> 0" using f by (simp_all add: fresh_span_def)
  have ap: "0 < unat align" using al by (simp add: unat_gt_0)
  have r: "unat (ODP_ALIGN_ROUNDUP a align) = round_up (unat a) (unat align)" using fit n by (intro unat_roundup [OF al]) simp
  note bd = round_up_bounds [OF ap, of "unat a"]
  have nz: "ODP_ALIGN_ROUNDUP a align \<noteq> 0" using r bd n(2) by (metis le_zero_eq unat_0 unat_eq_zero)
  show ?thesis unfolding c_def fill_block_def block_ok_def using n nz r bd fit name h by (auto simp: ODP_SHM_NAME_LEN_def)
qed

lemma tbl_ok_fill:
  assumes t: "tbl_ok m tbl" and i: "i < ODP_CONFIG_SHM_BLOCKS" "sb_addr (tbl ! i) = 0" and f: "fresh_span m a n"
    and c: "sb_addr c \<noteq> 0" "block_ok (insert (a, n) m) i c" "sb_addr_orig c = a" "sb_alloc_size c = n"
    and new: "\<forall>j<ODP_CONFIG_SHM_BLOCKS. sb_name (tbl ! j) \<noteq> sb_name c"
  shows "tbl_ok (insert (a, n) m) (tbl[i := c])"
proof (rule tbl_okI)
  note D = tbl_okD [OF t]
  have apart: "blocks_apart c (tbl ! j)" if "j < ODP_CONFIG_SHM_BLOCKS" "sb_addr (tbl ! j) \<noteq> 0" for j
  proof -
    have "(sb_addr_orig (tbl ! j), sb_alloc_size (tbl ! j)) \<in> m" using D(3) [OF that] by (simp add: block_ok_def)
    then have "span a n \<inter> span (sb_addr_orig (tbl ! j)) (sb_alloc_size (tbl ! j)) = {}" using f by (auto simp: fresh_span_def)
    then show ?thesis using new that c by (auto simp: blocks_apart_def)
  qed
  show "length (tbl[i := c]) = ODP_CONFIG_SHM_BLOCKS" using D(1) by simp
  fix j assume j: "j < ODP_CONFIG_SHM_BLOCKS"
  show "sb_name (tbl[i := c] ! j) = ''''" if "sb_addr (tbl[i := c] ! j) = 0" using that D(1) D(2) [OF j] i c(1) by (cases "i = j") simp_all
  show "block_ok (insert (a, n) m) j (tbl[i := c] ! j)" if "sb_addr (tbl[i := c] ! j) \<noteq> 0"
    using that D(1) D(3) [OF j] i c(2) by (cases "i = j") (auto intro: block_ok_mono)
  fix k assume k: "k < ODP_CONFIG_SHM_BLOCKS" and jk: "j \<noteq> k" and a: "sb_addr (tbl[i := c] ! j) \<noteq> 0" "sb_addr (tbl[i := c] ! k) \<noteq> 0"
  show "blocks_apart (tbl[i := c] ! j) (tbl[i := c] ! k)"
    using a jk apart [OF j] apart [OF k] D(4) [OF j k jk] D(1) i by (cases "i = j"; cases "i = k") (auto intro: blocks_apart_sym)
qed

definition reserve_args :: "u64 \<Rightarrow> string \<Rightarrow> u64 \<Rightarrow> u64 \<Rightarrow> bool" where
  "reserve_args huge_sz name sz align \<longleftrightarrow> align \<noteq> 0 \<and> name \<noteq> '''' \<and> length name < ODP_SHM_NAME_LEN \<and>
    (huge_sz = 0 \<or> (\<exists>k. unat huge_sz = 2 ^ k)) \<and> unat sz + unat align + unat huge_sz < 2 ^ 64"

lemma alloc_fits:
  assumes a: "reserve_args huge_sz name sz align" and n: "n = sz + align \<or> huge_sz \<noteq> 0 \<and> n = (sz + align + (huge_sz - 1)) AND (- huge_sz)"
  shows "unat sz + unat align \<le> unat n"
proof -
  have lt: "unat sz + unat align + unat huge_sz < 2 ^ 64" using a by (simp add: reserve_args_def)
  then have s: "unat (sz + align) = unat sz + unat align" by (intro unat_add_small) simp
  show ?thesis
  proof (cases "n = sz + align")
    case False
    then have n: "huge_sz \<noteq> 0" "n = (sz + align + (huge_sz - 1)) AND (- huge_sz)" using n by simp_all
    then obtain k where "unat huge_sz = 2 ^ k" using a by (auto simp: reserve_args_def)
    then show ?thesis using huge_size [of huge_sz k "sz + align"] lt s n(2) by simp
  qed (simp add: s)
qed

text \<open>How a reservation can end: with no change to the blocks but for the handle of a free one, or with a block filled in.\<close>

lemma reserve_cases:
  assumes ok: "os_ok os mapped" and inv: "shm_inv mapped s" and args: "reserve_args huge_sz name sz align"
  obtains (fails) w where "odp_shm_reserve os page_sz huge_sz name sz align flags s = Inr (ODP_SHM_INVALID, s\<lparr>shm_world := w\<rparr>)"
      "mapped w = mapped (shm_world s)"
  | (no_memory) w i where "odp_shm_reserve os page_sz huge_sz name sz align flags s =
        Inr (ODP_SHM_INVALID, s\<lparr>shm_tbl := (shm_tbl s)[i := (shm_tbl s ! i)\<lparr>sb_hdl := to_handle (of_nat i)\<rparr>], shm_world := w\<rparr>)"
      "mapped w = mapped (shm_world s)" "i < ODP_CONFIG_SHM_BLOCKS" "sb_addr (shm_tbl s ! i) = 0"
  | (reserved) w i a n c where "odp_shm_reserve os page_sz huge_sz name sz align flags s =
        Inr (to_handle (of_nat i), s\<lparr>shm_tbl := (shm_tbl s)[i := c], shm_world := w\<rparr>)"
      "mapped w = insert (a, n) (mapped (shm_world s))" "fresh_span (mapped (shm_world s)) a n" "i < ODP_CONFIG_SHM_BLOCKS"
      "sb_addr (shm_tbl s ! i) = 0" "find_block name (shm_tbl s) = None" "block_ok (insert (a, n) (mapped (shm_world s))) i c" "sb_name c = name"
      "sb_addr c \<noteq> 0" "sb_size c = sz" "sb_align c = align" "sb_addr_orig c = a" "sb_alloc_size c = n"
proof -
  define proc where "proc = (flags AND ODP_SHM_PROC \<noteq> 0)"
  define need where "need = (huge_sz \<noteq> 0 \<and> page_sz < sz + align)"
  define hp where "hp = (sz + align + (huge_sz - 1)) AND (- huge_sz)"
  obtain fd w where o: "(if proc then os_shm_open os name (shm_world s) else (-1, shm_world s)) = (fd, w)" by (meson surj_pair)
  have w: "mapped w = mapped (shm_world s)" using o os_okD(6) [OF ok] by (auto split: if_splits)
  note e = odp_shm_reserve_def Let_def proc_def [symmetric] need_def [symmetric] hp_def [symmetric] o prod.case
  show thesis
  proof (cases "proc \<and> fd = -1 \<or> find_block name (shm_tbl s) \<noteq> None \<or> free_block (shm_tbl s) = None")
    case True
    then show thesis using fails [of w] w unfolding e by (auto split: option.splits)
  next
    case False
    then obtain i where i: "free_block (shm_tbl s) = Some i" and found: "find_block name (shm_tbl s) = None" and p: "\<not> (proc \<and> fd = -1)" by auto
    have free: "i < ODP_CONFIG_SHM_BLOCKS" "sb_addr (shm_tbl s ! i) = 0"
      using i find_upt_cases [of "\<lambda>i. sb_addr (shm_tbl s ! i) = 0" ODP_CONFIG_SHM_BLOCKS] unfolding free_block_def by auto
    let ?b = "(shm_tbl s ! i)\<lparr>sb_hdl := to_handle (of_nat i)\<rparr>"
    obtain r w1 where m: "reserve_map os proc need hp (sz + align) huge_sz page_sz fd w = (r, w1)" by (meson surj_pair)
    note spec = reserve_map_spec [OF ok m]
    have al: "align \<noteq> 0" using args by (simp add: reserve_args_def)
    show thesis
    proof (cases r)
      case None
      have "odp_shm_reserve os page_sz huge_sz name sz align flags s = Inr (ODP_SHM_INVALID, s\<lparr>shm_tbl := (shm_tbl s)[i := ?b], shm_world := w1\<rparr>)"
        unfolding e using p found i m None by auto
      then show thesis using no_memory [OF _ _ free] spec None w by simp
    next
      case (Some x)
      obtain a n huge pg where x: "x = (a, n, huge, pg)" by (cases x)
      define c where "c = fill_block name sz align flags fd (a, n, huge, pg) ?b"
      have r: "odp_shm_reserve os page_sz huge_sz name sz align flags s = Inr (to_handle (of_nat i), s\<lparr>shm_tbl := (shm_tbl s)[i := c], shm_world := w1\<rparr>)"
        unfolding e c_def using p found i m Some x al by auto
      have f: "fresh_span (mapped (shm_world s)) a n" "mapped w1 = insert (a, n) (mapped (shm_world s))" "n = sz + align \<or> need \<and> n = hp"
        using spec Some x w by auto
      have fit: "unat sz + unat align \<le> unat n" using f(3) by (intro alloc_fits [OF args]) (auto simp: need_def hp_def)
      have nm: "name \<noteq> ''''" "length name < ODP_SHM_NAME_LEN" using args by (simp_all add: reserve_args_def)
      have h: "sb_hdl ?b = of_nat i + 1" by (simp add: to_handle_def)
      note c = fill_block_ok [OF f(1) al fit nm h c_def]
      show thesis using reserved [OF r f(2,1) free found] c by blast
    qed
  qed
qed

lemma shm_blocks_64: "ODP_CONFIG_SHM_BLOCKS = 64"
  by (simp add: ODP_CONFIG_SHM_BLOCKS_def ODP_CONFIG_POOLS_def)

text \<open>A handle names a block, by its index, or nothing.\<close>

lemma handle_cases:
  obtains (bad) "(of_nat (ODP_CONFIG_SHM_BLOCKS - 1) :: u32) < from_handle h"
  | (block) i where "i < ODP_CONFIG_SHM_BLOCKS" "h = to_handle (of_nat i)" "\<not> (of_nat (ODP_CONFIG_SHM_BLOCKS - 1) :: u32) < from_handle h"
      "unat (from_handle h) = i"
proof (cases "(of_nat (ODP_CONFIG_SHM_BLOCKS - 1) :: u32) < from_handle h")
  case False
  let ?i = "unat (from_handle h)"
  have "?i \<le> 63" using False by (simp add: word_less_nat_alt shm_blocks_64)
  moreover have "h = to_handle (of_nat ?i)" by (simp add: to_handle_def from_handle_def)
  ultimately show thesis using block [of ?i] False by (simp add: shm_blocks_64)
qed (rule bad)

lemma info_block: "i < ODP_CONFIG_SHM_BLOCKS \<Longrightarrow> odp_shm_info (to_handle (of_nat i)) s =
    Some \<lparr>si_name = sb_name (shm_tbl s ! i), si_addr = sb_addr (shm_tbl s ! i), si_size = sb_size (shm_tbl s ! i),
      si_page_size = sb_page_sz (shm_tbl s ! i), si_flags = sb_flags (shm_tbl s ! i)\<rparr>"
  and addr_block: "i < ODP_CONFIG_SHM_BLOCKS \<Longrightarrow> odp_shm_addr (to_handle (of_nat i)) s = sb_addr (shm_tbl s ! i)"
proof -
  assume i: "i < ODP_CONFIG_SHM_BLOCKS"
  have u: "unat (from_handle (to_handle (of_nat i))) = i" using handle_index [OF i] by simp
  then have "\<not> (of_nat (ODP_CONFIG_SHM_BLOCKS - 1) :: u32) < from_handle (to_handle (of_nat i))"
    using i by (simp add: word_less_nat_alt shm_blocks_64)
  then show "odp_shm_info (to_handle (of_nat i)) s =
    Some \<lparr>si_name = sb_name (shm_tbl s ! i), si_addr = sb_addr (shm_tbl s ! i), si_size = sb_size (shm_tbl s ! i),
      si_page_size = sb_page_sz (shm_tbl s ! i), si_flags = sb_flags (shm_tbl s ! i)\<rparr>"
    "odp_shm_addr (to_handle (of_nat i)) s = sb_addr (shm_tbl s ! i)"
    using u by (simp_all add: odp_shm_info_def odp_shm_addr_def Let_def)
qed

lemma info_bad: "(of_nat (ODP_CONFIG_SHM_BLOCKS - 1) :: u32) < from_handle h \<Longrightarrow> odp_shm_info h s = None"
  by (simp add: odp_shm_info_def Let_def)

lemma info_other:
  assumes "\<And>j. j < ODP_CONFIG_SHM_BLOCKS \<Longrightarrow> h = to_handle (of_nat j) \<Longrightarrow>
      sb_name (shm_tbl s' ! j) = sb_name (shm_tbl s ! j) \<and> sb_addr (shm_tbl s' ! j) = sb_addr (shm_tbl s ! j) \<and> sb_size (shm_tbl s' ! j) = sb_size (shm_tbl s ! j) \<and>
      sb_page_sz (shm_tbl s' ! j) = sb_page_sz (shm_tbl s ! j) \<and> sb_flags (shm_tbl s' ! j) = sb_flags (shm_tbl s ! j)"
  shows "odp_shm_info h s' = odp_shm_info h s"
proof (cases h rule: handle_cases)
  case bad
  then show ?thesis by (simp add: info_bad)
next
  case (block i)
  then show ?thesis using assms [OF block(1,2)] info_block [OF block(1), of s] info_block [OF block(1), of s'] by simp
qed

text \<open>The bytes of a block in use lie in its mapping.\<close>

lemma block_bytes: "block_ok m i b \<Longrightarrow> span (sb_addr b) (sb_size b) \<subseteq> span (sb_addr_orig b) (sb_alloc_size b)"
  by (auto simp: block_ok_def span_def)

lemma shm_lookup_None: "shm_inv mapped s \<Longrightarrow> name \<noteq> '''' \<Longrightarrow> find_block name (shm_tbl s) = None \<longleftrightarrow> odp_shm_lookup name s = ODP_SHM_INVALID"
proof -
  assume inv: "shm_inv mapped s" and n: "name \<noteq> ''''"
  then have t: "tbl_ok (mapped (shm_world s)) (shm_tbl s)" by (simp add: shm_inv_def)
  show ?thesis
  proof (cases "find_block name (shm_tbl s)")
    case (Some i)
    have i: "i < ODP_CONFIG_SHM_BLOCKS" "sb_addr (shm_tbl s ! i) \<noteq> 0" using find_block_used [OF t n Some] by simp_all
    have "sb_hdl (shm_tbl s ! i) = to_handle (of_nat i)" using tbl_okD(3) [OF t i] by (simp add: block_ok_def to_handle_def)
    then show ?thesis using Some handle_index [OF i(1)] by (simp add: odp_shm_lookup_def)
  qed (simp add: odp_shm_lookup_def)
qed

text \<open> C39: A reservation returns: it either fails and leaves what is known of every block, or gives the handle of a block that
  was free, found by its name from now on, with an aligned address and all its bytes in a new mapping. The bytes of no other block are among them, and
  nothing changes for the other blocks. The table stays consistent. The arguments must not overflow 64 bits and the name must fit.\<close>

theorem odp_shm_reserve_correct:
  assumes ok: "os_ok os mapped" and inv: "shm_inv mapped s" and args: "reserve_args huge_sz name sz align"
  shows "\<exists>shm s'. odp_shm_reserve os page_sz huge_sz name sz align flags s = Inr (shm, s') \<and> shm_inv mapped s' \<and>
    (if shm = ODP_SHM_INVALID then mapped (shm_world s') = mapped (shm_world s) \<and> (\<forall>h. odp_shm_info h s' = odp_shm_info h s)
     else odp_shm_lookup name s = ODP_SHM_INVALID \<and> odp_shm_lookup name s' = shm \<and>
       odp_shm_addr shm s = 0 \<and> odp_shm_addr shm s' \<noteq> 0 \<and> unat align dvd unat (odp_shm_addr shm s') \<and>
       (\<exists>a n. fresh_span (mapped (shm_world s)) a n \<and> mapped (shm_world s') = insert (a, n) (mapped (shm_world s)) \<and>
         span (odp_shm_addr shm s') sz \<subseteq> span a n) \<and>
       (\<forall>h. h \<noteq> shm \<longrightarrow> odp_shm_info h s' = odp_shm_info h s \<and>
         (\<forall>b. odp_shm_info h s = Some b \<and> si_addr b \<noteq> 0 \<longrightarrow> span (si_addr b) (si_size b) \<inter> span (odp_shm_addr shm s') sz = {})))"
proof -
  have t: "tbl_ok (mapped (shm_world s)) (shm_tbl s)" using inv by (simp add: shm_inv_def)
  have nm: "name \<noteq> ''''" using args by (simp add: reserve_args_def)
  note D = tbl_okD [OF t]
  show ?thesis
  proof (cases rule: reserve_cases [OF ok inv args, of page_sz flags, case_names fails no_memory reserved])
    case (fails w)
    then show ?thesis using t by (intro exI [of _ ODP_SHM_INVALID] exI [of _ "s\<lparr>shm_world := w\<rparr>"]) (auto simp: shm_inv_def odp_shm_info_def Let_def)
  next
    case (no_memory w i)
    let ?s = "s\<lparr>shm_tbl := (shm_tbl s)[i := (shm_tbl s ! i)\<lparr>sb_hdl := to_handle (of_nat i)\<rparr>], shm_world := w\<rparr>"
    have "odp_shm_info h ?s = odp_shm_info h s" for h using D(1) no_memory(3) by (intro info_other) (auto simp: nth_list_update)
    moreover have "shm_inv mapped ?s" using tbl_ok_hdl [OF t no_memory(3,4)] no_memory(2) by (simp add: shm_inv_def)
    ultimately show ?thesis using no_memory(1,2) by auto
  next
    case (reserved w i a n c)
    let ?s = "s\<lparr>shm_tbl := (shm_tbl s)[i := c], shm_world := w\<rparr>" and ?h = "to_handle (of_nat i) :: u32"
    have new: "\<forall>j<ODP_CONFIG_SHM_BLOCKS. sb_name (shm_tbl s ! j) \<noteq> sb_name c" using reserved(6,8) by (simp add: find_block_None)
    have t': "tbl_ok (insert (a, n) (mapped (shm_world s))) ((shm_tbl s)[i := c])"
      by (rule tbl_ok_fill [OF t reserved(4,5,3,9,7,12,13) new])
    have inv': "shm_inv mapped ?s" using t' reserved(2) by (simp add: shm_inv_def)
    have ci: "(shm_tbl s)[i := c] ! i = c" using D(1) reserved(4) by simp
    have found: "odp_shm_lookup name ?s = ?h"
      using lookup_used [OF t' reserved(4)] ci reserved(7,8,9) by (simp add: odp_shm_lookup_def block_ok_def to_handle_def)
    have addr: "odp_shm_addr ?h ?s = sb_addr c" "odp_shm_addr ?h s = 0" using addr_block [OF reserved(4), of ?s] addr_block [OF reserved(4), of s] ci reserved(5) by simp_all
    have bytes: "span (sb_addr c) sz \<subseteq> span a n" using block_bytes [OF reserved(7)] reserved(10,12,13) by simp
    have other: "odp_shm_info h ?s = odp_shm_info h s" if "h \<noteq> ?h" for h using that D(1) reserved(4) by (intro info_other) (auto simp: nth_list_update)
    have apart: "span (si_addr b) (si_size b) \<inter> span (sb_addr c) sz = {}" if "odp_shm_info h s = Some b" "si_addr b \<noteq> 0" for h b
    proof (cases h rule: handle_cases)
      case bad
      then show ?thesis using that info_bad [OF bad, of s] by simp
    next
      case (block j)
      then have b: "si_addr b = sb_addr (shm_tbl s ! j)" "si_size b = sb_size (shm_tbl s ! j)" using that(1) info_block [OF block(1), of s] by auto
      have "block_ok (mapped (shm_world s)) j (shm_tbl s ! j)" using D(3) [OF block(1)] that(2) b by simp
      then have "span (si_addr b) (si_size b) \<subseteq> span (sb_addr_orig (shm_tbl s ! j)) (sb_alloc_size (shm_tbl s ! j))"
        "span a n \<inter> span (sb_addr_orig (shm_tbl s ! j)) (sb_alloc_size (shm_tbl s ! j)) = {}"
        using block_bytes b reserved(3) by (auto simp: fresh_span_def block_ok_def)
      then show ?thesis using bytes by blast
    qed
    have al: "unat align dvd unat (sb_addr c)" using reserved(7,11) by (auto simp: block_ok_def)
    have h: "?h \<noteq> ODP_SHM_INVALID" using handle_index [OF reserved(4)] by simp
    have rest: "\<forall>h. h \<noteq> ?h \<longrightarrow> odp_shm_info h ?s = odp_shm_info h s \<and>
        (\<forall>b. odp_shm_info h s = Some b \<and> si_addr b \<noteq> 0 \<longrightarrow> span (si_addr b) (si_size b) \<inter> span (odp_shm_addr ?h ?s) sz = {})"
      using other apart unfolding addr(1) by blast
    have place: "\<exists>a n. fresh_span (mapped (shm_world s)) a n \<and> mapped (shm_world ?s) = insert (a, n) (mapped (shm_world s)) \<and>
         span (odp_shm_addr ?h ?s) sz \<subseteq> span a n" using reserved(2,3) bytes unfolding addr(1) by (intro exI [of _ a] exI [of _ n]) simp
    show ?thesis
      by (intro exI [of _ ?h] exI [of _ ?s]) (use reserved(1,6,9) inv' found addr rest place al h shm_lookup_None [OF inv nm] in simp)
  qed
qed

text \<open>A system that maps memory behind all that is mapped and accepts every release.\<close>

definition demo_next :: "(u64 \<times> u64) list \<Rightarrow> nat" where
  "demo_next w = fold max (map (\<lambda>(a, n). unat a + unat n) w) 4096"

definition demo_os :: "(u64 \<times> u64) list shm_os" where
  "demo_os = \<lparr>os_shm_open = (\<lambda>_ w. (3, w)), os_shm_unlink = (\<lambda>_ w. (0, w)), os_ftruncate = (\<lambda>_ _ w. (0, w)),
    os_mmap = (\<lambda>n _ _ _ w. if n \<noteq> 0 \<and> demo_next w + unat n \<le> 2 ^ 64 then (Some (of_nat (demo_next w)), (of_nat (demo_next w), n) # w) else (None, w)),
    os_munmap = (\<lambda>a n w. (0, filter (\<lambda>m. m \<noteq> (a, n)) w))\<rparr>"

lemma fold_max_upper: "x \<in> set xs \<or> x \<le> y \<Longrightarrow> x \<le> fold max xs (y :: nat)"
proof (induction xs arbitrary: y)
  case (Cons z zs)
  from Cons.prems have "x \<in> set zs \<or> x \<le> max z y" by auto
  then have "x \<le> fold max zs (max z y)" by (rule Cons.IH)
  then show ?case by simp
qed simp

lemma demo_os_ok: "os_ok demo_os set"
proof -
  have above: "unat b + unat k \<le> demo_next w" if "(b, k) \<in> set w" for b k w
    unfolding demo_next_def by (rule fold_max_upper) (use that in force)
  have low: "4096 \<le> demo_next w" for w unfolding demo_next_def by (rule fold_max_upper) simp
  have "fresh_span (set w) (of_nat (demo_next w)) n" if n: "n \<noteq> 0" "demo_next w + unat n \<le> 2 ^ 64" for w n
  proof -
    have "0 < unat n" using n(1) by (simp add: unat_gt_0)
    then have u: "unat (of_nat (demo_next w) :: u64) = demo_next w" using n(2) by (intro unat_of_nat_small) simp
    then have "(of_nat (demo_next w) :: u64) \<noteq> 0" using low [of w] by auto
    moreover have "span (of_nat (demo_next w)) n \<inter> span b k = {}" if "(b, k) \<in> set w" for b k
      using above [OF that] by (auto simp: span_def u)
    ultimately show ?thesis using n u by (auto simp: fresh_span_def)
  qed
  then show ?thesis by (auto simp: os_ok_def demo_os_def split: if_splits)
qed

definition demo_shm :: "(u64 \<times> u64) list shm_sys" where
  "demo_shm = \<lparr>shm_tbl = replicate ODP_CONFIG_SHM_BLOCKS zero_block, shm_world = []\<rparr>"

lemma demo_shm_inv: "shm_inv set demo_shm"
  unfolding shm_inv_def demo_shm_def shm_sys.select_convs by (rule tbl_okI) (simp_all add: zero_block_def)

lemma demo_reserve: "\<exists>s. odp_shm_reserve demo_os 4096 0x200000 ''ring'' 100 64 0 demo_shm = Inr (1, s)"
proof -
  have f: "find_block ''ring'' (shm_tbl demo_shm) = None" by (simp add: find_block_None demo_shm_def zero_block_def)
  have n: "free_block (shm_tbl demo_shm) = Some 0"
    unfolding free_block_def shm_blocks_64 by (subst upt_conv_Cons) (simp_all add: demo_shm_def zero_block_def shm_blocks_64)
  show ?thesis unfolding odp_shm_reserve_def using f n
    by (simp add: Let_def reserve_map_def map_pages_def demo_os_def demo_shm_def demo_next_def to_handle_def)
qed

theorem odp_shm_reserve_correct_witness:
  "os_ok demo_os set \<and> (\<exists>s. odp_shm_reserve demo_os 4096 0x200000 ''ring'' 100 64 0 demo_shm = Inr (1, s) \<and> shm_inv set s \<and>
    odp_shm_lookup ''ring'' s = 1 \<and> odp_shm_addr 1 s \<noteq> 0 \<and> 64 dvd unat (odp_shm_addr 1 s))"
proof -
  obtain s where s: "odp_shm_reserve demo_os 4096 0x200000 ''ring'' 100 64 0 demo_shm = Inr (1, s)" using demo_reserve by blast
  have "reserve_args 0x200000 ''ring'' 100 64" by (simp add: reserve_args_def ODP_SHM_NAME_LEN_def exI [of _ 21])
  from odp_shm_reserve_correct [OF demo_os_ok demo_shm_inv this, of 4096 0] s demo_os_ok show ?thesis by (auto simp: ODP_SHM_INVALID_def)
qed

text \<open>Releasing a block removes its mapping and its name and nothing else, or fails and keeps the block.\<close>

lemma odp_shm_free_correct:
  assumes ok: "os_ok os mapped" and inv: "shm_inv mapped s" and used: "odp_shm_addr shm s \<noteq> 0"
    and unlink: "\<And>name w. fst (os_shm_unlink os name w) = 0"
  shows "case odp_shm_free os shm s of (ret, s') \<Rightarrow> shm_inv mapped s' \<and>
    (if ret = 0 then odp_shm_addr shm s' = 0 \<and> (\<forall>h. h \<noteq> shm \<longrightarrow> odp_shm_info h s' = odp_shm_info h s) \<and>
       (\<forall>b. odp_shm_info shm s = Some b \<longrightarrow> odp_shm_lookup (si_name b) s' = ODP_SHM_INVALID)
     else shm_tbl s' = shm_tbl s)"
proof (cases shm rule: handle_cases)
  case bad
  then show ?thesis using used by (simp add: odp_shm_addr_def Let_def)
next
  case (block i)
  have t: "tbl_ok (mapped (shm_world s)) (shm_tbl s)" using inv by (simp add: shm_inv_def)
  note D = tbl_okD [OF t]
  let ?b = "shm_tbl s ! i"
  have u: "sb_addr ?b \<noteq> 0" using used block addr_block [OF block(1), of s] by simp
  have nz: "shm \<noteq> ODP_SHM_INVALID" "\<not> of_nat ODP_CONFIG_SHM_BLOCKS \<le> from_handle shm"
    using handle_index [OF block(1)] block by (simp_all add: word_le_nat_alt shm_blocks_64)
  obtain ret w where m: "os_munmap os (sb_addr_orig ?b) (sb_alloc_size ?b) (shm_world s) = (ret, w)" by (meson surj_pair)
  have b: "block_ok (mapped (shm_world s)) i ?b" by (rule D(3) [OF block(1) u])
  show ?thesis
  proof (cases "ret = 0")
    case False
    then have "odp_shm_free os shm s = (-1, s\<lparr>shm_world := w\<rparr>)" using nz u m block(4) by (simp add: odp_shm_free_def Let_def)
    then show ?thesis using os_okD(4) [OF ok m False] t by (simp add: shm_inv_def)
  next
    case True
    obtain w2 where l: "(if sb_flags ?b AND ODP_SHM_PROC \<noteq> 0 then os_shm_unlink os (sb_name ?b) w else (0, w)) = (0, w2)"
      using unlink [of "sb_name ?b" w] by (cases "sb_flags ?b AND ODP_SHM_PROC = 0"; cases "os_shm_unlink os (sb_name ?b) w") simp_all
    have w2: "mapped w2 = mapped w" using l os_okD(7) [OF ok] by (auto split: if_splits)
    let ?s = "s\<lparr>shm_tbl := (shm_tbl s)[i := zero_block], shm_world := w2\<rparr>"
    have r: "odp_shm_free os shm s = (0, ?s)" using nz u m True l block(4) by (simp add: odp_shm_free_def Let_def)
    have "mapped w = mapped (shm_world s) - {(sb_addr_orig ?b, sb_alloc_size ?b)}"
      using os_okD(3) [OF ok] m True b by (simp add: block_ok_def)
    then have inv': "shm_inv mapped ?s" using tbl_ok_free [OF t block(1) u] w2 by (simp add: shm_inv_def)
    have other: "odp_shm_info h ?s = odp_shm_info h s" if "h \<noteq> shm" for h using that block D(1) by (intro info_other) (auto simp: nth_list_update)
    have gone: "odp_shm_addr shm ?s = 0" using addr_block [OF block(1), of ?s] block D(1) by (simp add: zero_block_def)
    have name: "find_block (sb_name ?b) ((shm_tbl s)[i := zero_block]) = None"
      unfolding find_block_None
    proof (intro allI impI)
      fix j assume j: "j < ODP_CONFIG_SHM_BLOCKS"
      show "sb_name ((shm_tbl s)[i := zero_block] ! j) \<noteq> sb_name ?b"
      proof (cases "i = j \<or> sb_addr (shm_tbl s ! j) = 0")
        case True
        then show ?thesis using b D(1) D(2) [OF j] block(1) by (auto simp: nth_list_update zero_block_def block_ok_def)
      next
        case False
        then show ?thesis using D(4) [OF j block(1)] u by (auto simp: blocks_apart_def)
      qed
    qed
    have "odp_shm_lookup (si_name bl) ?s = ODP_SHM_INVALID" if "odp_shm_info shm s = Some bl" for bl
      using that name info_block [OF block(1), of s] block by (auto simp: odp_shm_lookup_def)
    then show ?thesis unfolding r using inv' other gone by simp
  qed
qed

text \<open>An alignment of 0 divides by zero when there is memory.\<close>

lemma odp_shm_reserve_align_0:
  assumes "flags AND ODP_SHM_PROC = 0" "find_block name (shm_tbl s) = None" "free_block (shm_tbl s) = Some i" "huge_sz = 0"
    and "os_mmap os sz False True (-1) (shm_world s) = (Some a, w)"
  shows "odp_shm_reserve os page_sz huge_sz name sz 0 flags s = Inl Div_By_Zero"
  using assms by (simp add: odp_shm_reserve_def reserve_map_def map_pages_def Let_def)

text \<open>Free blocks answer to the empty name: when no memory could be mapped, it is found with a handle that is not invalid.\<close>

lemma odp_shm_lookup_empty_name:
  assumes "flags AND ODP_SHM_PROC = 0" "find_block name (shm_tbl s) = None" "huge_sz = 0" "\<forall>b\<in>set (shm_tbl s). b = zero_block"
    and "length (shm_tbl s) = ODP_CONFIG_SHM_BLOCKS" and "os_mmap os (sz + align) False True (-1) (shm_world s) = (None, w)"
  shows "\<exists>s'. odp_shm_reserve os page_sz huge_sz name sz align flags s = Inr (ODP_SHM_INVALID, s') \<and>
    odp_shm_lookup '''' s' \<noteq> ODP_SHM_INVALID \<and> odp_shm_addr (odp_shm_lookup '''' s') s' = 0"
proof -
  have tbl: "shm_tbl s = zero_block # replicate 63 zero_block"
    using assms(4,5) replicate_eqI [of "shm_tbl s" 64 zero_block] by (simp add: shm_blocks_64 numeral_eq_Suc)
  have f: "free_block (shm_tbl s) = Some 0" "find_block '''' ((shm_tbl s)[0 := zero_block\<lparr>sb_hdl := 1\<rparr>]) = Some 0"
    unfolding free_block_def find_block_def tbl shm_blocks_64 by (subst upt_conv_Cons; simp add: zero_block_def)+
  let ?s = "s\<lparr>shm_tbl := (shm_tbl s)[0 := zero_block\<lparr>sb_hdl := 1\<rparr>], shm_world := w\<rparr>"
  have r: "odp_shm_reserve os page_sz huge_sz name sz align flags s = Inr (ODP_SHM_INVALID, ?s)"
    using assms f(1) by (simp add: odp_shm_reserve_def reserve_map_def map_pages_def Let_def tbl to_handle_def)
  have "odp_shm_lookup '''' ?s = 1" using f(2) by (simp add: odp_shm_lookup_def tbl)
  moreover have "odp_shm_addr 1 ?s = 0" using addr_block [of 0 ?s] by (simp add: shm_blocks_64 to_handle_def tbl zero_block_def)
  ultimately show ?thesis using r by (auto simp: ODP_SHM_INVALID_def)
qed

end
