(* ===== verification/Odp_Crypto.thy ===== *)
theory Odp_Crypto
  imports Odp_Schedule Odp_Packet Odp_Shm
begin

unbundle bit_operations_syntax

text \<open>
  Crypto sessions and operations (\<open>odp_crypto.c\<close>). The ciphers and hashes of OpenSSL are parameters. A session is named by its index in the
  table of sessions; the free sessions are linked through the table. Keys are read when a session is created, the initialization vector
  is read through its pointer when an operation runs, as in the code.
\<close>

section \<open>Types\<close>

text \<open>What the code uses of OpenSSL: key schedules, triple DES in CBC mode on a list of bytes, and the MD5 message authentication code.\<close>

record 'ks openssl =
  ssl_zero_key :: 'ks
  DES_set_key :: "u8 list \<Rightarrow> 'ks"
  DES_ede3_cbc_encrypt :: "u8 list \<Rightarrow> 'ks \<Rightarrow> 'ks \<Rightarrow> 'ks \<Rightarrow> u8 list \<Rightarrow> bool \<Rightarrow> u8 list"
  HMAC_md5 :: "u8 list \<Rightarrow> u8 list \<Rightarrow> u8 list"

datatype crypto_op = ODP_CRYPTO_OP_ENCODE | ODP_CRYPTO_OP_DECODE
datatype crypto_op_mode = ODP_CRYPTO_SYNC | ODP_CRYPTO_ASYNC
datatype cipher_alg = ODP_CIPHER_ALG_NULL | ODP_CIPHER_ALG_DES | ODP_CIPHER_ALG_3DES_CBC
datatype auth_alg = ODP_AUTH_ALG_NULL | ODP_AUTH_ALG_MD5_96

datatype ses_create_err =
    ODP_CRYPTO_SES_CREATE_ERR_NONE | ODP_CRYPTO_SES_CREATE_ERR_ENOMEM | ODP_CRYPTO_SES_CREATE_ERR_INV_CIPHER | ODP_CRYPTO_SES_CREATE_ERR_INV_AUTH

datatype crypto_alg_err =
    ODP_CRYPTO_ALG_ERR_NONE | ODP_CRYPTO_ALG_ERR_DATA_SIZE | ODP_CRYPTO_ALG_ERR_KEY_SIZE | ODP_CRYPTO_ALG_ERR_ICV_CHECK | ODP_CRYPTO_ALG_ERR_IV_INVALID

datatype crypto_hw_err = ODP_CRYPTO_HW_ERR_NONE | ODP_CRYPTO_HW_ERR_DMA | ODP_CRYPTO_HW_ERR_BP_DEPLETED

text \<open>The functions the pointers of a session can point to.\<close>

datatype crypto_func = No_Func | Null_Crypto_Routine | Des_Encrypt | Des_Decrypt | Md5_Gen | Md5_Check

record 'ks crypto_session =
  cs_next :: "nat option"
  cs_op :: crypto_op
  cs_do_cipher_first :: bool
  cs_compl_queue :: u32
  cs_output_pool :: u32
  cs_cipher_alg :: cipher_alg
  cs_iv_data :: addr
  cs_iv_len :: u32
  cs_ks1 :: 'ks
  cs_ks2 :: 'ks
  cs_ks3 :: 'ks
  cs_cipher_func :: crypto_func
  cs_auth_alg :: auth_alg
  cs_md5_key :: "u8 list"
  cs_md5_bytes :: u32
  cs_auth_func :: crypto_func

record crypto_session_params =
  sp_op :: crypto_op
  sp_auth_cipher_text :: bool
  sp_pref_mode :: crypto_op_mode
  sp_cipher_alg :: cipher_alg
  sp_cipher_key :: addr
  sp_cipher_key_len :: u32
  sp_iv :: addr
  sp_iv_len :: u32
  sp_auth_alg :: auth_alg
  sp_auth_key :: addr
  sp_auth_key_len :: u32
  sp_compl_queue :: u32
  sp_output_pool :: u32

record crypto_op_params =
  op_session :: nat
  op_ctx :: addr
  op_pkt :: u32
  op_out_pkt :: u32
  op_override_iv_ptr :: addr
  op_hash_result_offset :: u32
  op_cipher_offset :: u32
  op_cipher_length :: u32
  op_auth_offset :: u32
  op_auth_length :: u32

record crypto_op_result =
  res_ok :: bool
  res_ctx :: addr
  res_pkt :: u32
  res_cipher_alg_err :: crypto_alg_err
  res_cipher_hw_err :: crypto_hw_err
  res_auth_alg_err :: crypto_alg_err
  res_auth_hw_err :: crypto_hw_err

text \<open>The field \<open>op_result\<close> of packet headers, by the address of the header; \<open>cr_magic\<close> is its magic number.\<close>

record 'ks crypto_sys =
  cr_sys :: odp_sys
  cr_sessions :: "'ks crypto_session list"
  cr_free :: "nat option"
  cr_magic :: "addr \<Rightarrow> u32"
  cr_result :: "addr \<Rightarrow> crypto_op_result"

definition MAX_SESSIONS :: nat where "MAX_SESSIONS = 32"
definition OP_RESULT_MAGIC :: u32 where "OP_RESULT_MAGIC = 0x91919191"

definition zero_session :: "'ks openssl \<Rightarrow> 'ks crypto_session" where
  "zero_session ssl = \<lparr>cs_next = None, cs_op = ODP_CRYPTO_OP_ENCODE, cs_do_cipher_first = False, cs_compl_queue = 0, cs_output_pool = 0,
    cs_cipher_alg = ODP_CIPHER_ALG_NULL, cs_iv_data = NULL, cs_iv_len = 0, cs_ks1 = ssl_zero_key ssl, cs_ks2 = ssl_zero_key ssl,
    cs_ks3 = ssl_zero_key ssl, cs_cipher_func = No_Func, cs_auth_alg = ODP_AUTH_ALG_NULL, cs_md5_key = replicate 16 0, cs_md5_bytes = 0,
    cs_auth_func = No_Func\<rparr>"

section \<open>Sessions\<close>

definition alloc_session :: "'ks crypto_sys \<Rightarrow> nat option \<times> 'ks crypto_sys" where
  "alloc_session c = (case cr_free c of None \<Rightarrow> (None, c) | Some i \<Rightarrow> (Some i, c\<lparr>cr_free := cs_next (cr_sessions c ! i)\<rparr>))"

definition free_session :: "nat \<Rightarrow> 'ks crypto_sys \<Rightarrow> 'ks crypto_sys" where
  "free_session i c = c\<lparr>cr_sessions := (cr_sessions c)[i := (cr_sessions c ! i)\<lparr>cs_next := cr_free c\<rparr>], cr_free := Some i\<rparr>"

definition process_des_params :: "'ks openssl \<Rightarrow> memory \<Rightarrow> crypto_session_params \<Rightarrow> 'ks crypto_session \<Rightarrow> int \<times> 'ks crypto_session" where
  "process_des_params ssl m p s =
    (if \<not> (sp_iv_len p = 0 \<or> sp_iv_len p = 8) then (-1, s)
     else (0, s\<lparr>cs_cipher_func := (if sp_op p = ODP_CRYPTO_OP_ENCODE then Des_Encrypt else Des_Decrypt),
       cs_ks1 := DES_set_key ssl (load_bytes m (sp_cipher_key p) 8), cs_ks2 := DES_set_key ssl (load_bytes m (sp_cipher_key p + 8) 8),
       cs_ks3 := DES_set_key ssl (load_bytes m (sp_cipher_key p + 16) 8)\<rparr>))"

definition process_md5_params :: "memory \<Rightarrow> crypto_session_params \<Rightarrow> u32 \<Rightarrow> 'ks crypto_session \<Rightarrow> int \<times> 'ks crypto_session" where
  "process_md5_params m p bits s =
    (0, s\<lparr>cs_auth_func := (if sp_op p = ODP_CRYPTO_OP_ENCODE then Md5_Gen else Md5_Check), cs_md5_bytes := bits div 8,
       cs_md5_key := load_bytes m (sp_auth_key p) 16\<rparr>)"

text \<open>The result, the session if one was made, and the status.\<close>

definition odp_crypto_session_create ::
  "'ks openssl \<Rightarrow> crypto_session_params \<Rightarrow> 'ks crypto_sys \<Rightarrow> (int \<times> nat option \<times> ses_create_err) \<times> 'ks crypto_sys" where
  "odp_crypto_session_create ssl p c =
    (case alloc_session c of
       (None, c1) \<Rightarrow> ((-1, None, ODP_CRYPTO_SES_CREATE_ERR_ENOMEM), c1)
     | (Some i, c1) \<Rightarrow>
         let m = mem (heap (base (cr_sys c1)));
             put = (\<lambda>s. c1\<lparr>cr_sessions := (cr_sessions c1)[i := s]\<rparr>);
             s1 = (cr_sessions c1 ! i)\<lparr>
               cs_do_cipher_first := (if sp_op p = ODP_CRYPTO_OP_ENCODE then sp_auth_cipher_text p else \<not> sp_auth_cipher_text p),
               cs_op := sp_op p, cs_compl_queue := sp_compl_queue p, cs_cipher_alg := sp_cipher_alg p, cs_iv_data := sp_iv p,
               cs_iv_len := sp_iv_len p, cs_auth_alg := sp_auth_alg p, cs_output_pool := sp_output_pool p\<rparr>;
             (rc, s2) = (case sp_cipher_alg p of
                 ODP_CIPHER_ALG_NULL \<Rightarrow> (0, s1\<lparr>cs_cipher_func := Null_Crypto_Routine\<rparr>)
               | ODP_CIPHER_ALG_DES \<Rightarrow> process_des_params ssl m p s1
               | ODP_CIPHER_ALG_3DES_CBC \<Rightarrow> process_des_params ssl m p s1)
         in if rc \<noteq> 0 then ((-1, None, ODP_CRYPTO_SES_CREATE_ERR_INV_CIPHER), put s2)
            else let (rc2, s3) = (case sp_auth_alg p of
                ODP_AUTH_ALG_NULL \<Rightarrow> (0, s2\<lparr>cs_auth_func := Null_Crypto_Routine\<rparr>)
              | ODP_AUTH_ALG_MD5_96 \<Rightarrow> process_md5_params m p 96 s2)
            in if rc2 \<noteq> 0 then ((-1, None, ODP_CRYPTO_SES_CREATE_ERR_INV_AUTH), put s3)
               else ((0, Some i, ODP_CRYPTO_SES_CREATE_ERR_NONE), put s3))"

definition odp_crypto_session_destroy :: "'ks openssl \<Rightarrow> nat \<Rightarrow> 'ks crypto_sys \<Rightarrow> int \<times> 'ks crypto_sys" where
  "odp_crypto_session_destroy ssl i c = (0, free_session i (c\<lparr>cr_sessions := (cr_sessions c)[i := zero_session ssl]\<rparr>))"

section \<open>Algorithms\<close>

text \<open>Each works on the bytes behind \<open>data\<close>, the address of the output packet, and returns its error code.\<close>

definition null_crypto_routine :: "memory \<Rightarrow> crypto_alg_err \<times> memory" where
  "null_crypto_routine m = (ODP_CRYPTO_ALG_ERR_NONE, m)"

definition md5_gen :: "'ks openssl \<Rightarrow> crypto_op_params \<Rightarrow> 'ks crypto_session \<Rightarrow> addr \<Rightarrow> memory \<Rightarrow> crypto_alg_err \<times> memory" where
  "md5_gen ssl p s data m =
    (let icv = data + int (unat (op_hash_result_offset p));
         hash = HMAC_md5 ssl (cs_md5_key s) (load_bytes m (data + int (unat (op_auth_offset p))) (unat (op_auth_length p)))
     in (ODP_CRYPTO_ALG_ERR_NONE, store_bytes m icv (take (unat (cs_md5_bytes s)) hash)))"

definition md5_check :: "'ks openssl \<Rightarrow> crypto_op_params \<Rightarrow> 'ks crypto_session \<Rightarrow> addr \<Rightarrow> memory \<Rightarrow> crypto_alg_err \<times> memory" where
  "md5_check ssl p s data m =
    (let icv = data + int (unat (op_hash_result_offset p)); bytes = unat (cs_md5_bytes s);
         hash_in = load_bytes m icv bytes;
         m1 = store_bytes m icv (replicate bytes 0);
         hash_out = HMAC_md5 ssl (cs_md5_key s) (load_bytes m1 (data + int (unat (op_auth_offset p))) (unat (op_auth_length p)))
     in (if hash_in \<noteq> take bytes hash_out then ODP_CRYPTO_ALG_ERR_ICV_CHECK else ODP_CRYPTO_ALG_ERR_NONE, m1))"

definition iv_ptr :: "crypto_op_params \<Rightarrow> 'ks crypto_session \<Rightarrow> addr" where
  "iv_ptr p s = (if op_override_iv_ptr p \<noteq> NULL then op_override_iv_ptr p else cs_iv_data s)"

definition des_crypt :: "'ks openssl \<Rightarrow> bool \<Rightarrow> crypto_op_params \<Rightarrow> 'ks crypto_session \<Rightarrow> addr \<Rightarrow> memory \<Rightarrow> crypto_alg_err \<times> memory" where
  "des_crypt ssl enc p s data m =
    (if iv_ptr p s = NULL then (ODP_CRYPTO_ALG_ERR_IV_INVALID, m)
     else let iv = load_bytes m (iv_ptr p s) 8; data1 = data + int (unat (op_cipher_offset p))
          in (ODP_CRYPTO_ALG_ERR_NONE,
              store_bytes m data1 (DES_ede3_cbc_encrypt ssl (load_bytes m data1 (unat (op_cipher_length p))) (cs_ks1 s) (cs_ks2 s) (cs_ks3 s) iv enc)))"

definition des_encrypt where "des_encrypt ssl = des_crypt ssl True"
definition des_decrypt where "des_decrypt ssl = des_crypt ssl False"

text \<open>A call through one of the function pointers of the session; the data must be there when the function gets to use them.\<close>

definition call_func :: "'ks openssl \<Rightarrow> crypto_func \<Rightarrow> crypto_op_params \<Rightarrow> 'ks crypto_session \<Rightarrow> odp_state \<Rightarrow> c_error + (crypto_alg_err \<times> odp_state)" where
  "call_func ssl f p s st =
    (let on_data = (\<lambda>used g. and_then (odp_packet_data st (op_out_pkt p)) (\<lambda>data.
           if used \<and> data = NULL then Inl Null_Deref else let (rc, m) = g data (mem (heap st)) in Inr (rc, put_mem m st)))
     in case f of
          No_Func \<Rightarrow> Inl Null_Deref
        | Null_Crypto_Routine \<Rightarrow> (let (rc, m) = null_crypto_routine (mem (heap st)) in Inr (rc, put_mem m st))
        | Des_Encrypt \<Rightarrow> on_data (iv_ptr p s \<noteq> NULL) (des_encrypt ssl p s)
        | Des_Decrypt \<Rightarrow> on_data (iv_ptr p s \<noteq> NULL) (des_decrypt ssl p s)
        | Md5_Gen \<Rightarrow> on_data True (md5_gen ssl p s)
        | Md5_Check \<Rightarrow> on_data True (md5_check ssl p s))"

section \<open>Operation\<close>

text \<open>The output packet: the input packet itself, the one given, or one from the pool of the session, with a copy of the input.\<close>

definition resolve_output :: "nat \<Rightarrow> crypto_op_params \<Rightarrow> 'ks crypto_session \<Rightarrow> odp_state \<Rightarrow> (c_error + (crypto_op_params \<times> odp_state)) option" where
  "resolve_output tid p s st =
    run_then (Some (if op_out_pkt p = ODP_PACKET_INVALID \<and> cs_output_pool s \<noteq> ODP_POOL_INVALID
        then and_then (odp_packet_len st (op_pkt p)) (\<lambda>len.
             and_then (odp_packet_alloc tid (cs_output_pool s) len st) (\<lambda>(pkt, st1). Inr (p\<lparr>op_out_pkt := pkt\<rparr>, st1)))
        else Inr (p, st)))
      (\<lambda>(p1, st1).
         if op_pkt p1 = op_out_pkt p1 then Some (Inr (p1, st1))
         else if op_out_pkt p1 = ODP_PACKET_INVALID then Some (Inl Aborted)
         else run_then (Some (odp_packet_len st1 (op_pkt p1))) (\<lambda>len.
              run_then (odp_packet_copy_to_packet st1 (op_pkt p1) 0 (op_out_pkt p1) 0 len) (\<lambda>(_, st2).
              run_then (Some (odp_packet_copy_md_to_packet st2 (op_pkt p1) (op_out_pkt p1))) (\<lambda>st3.
              run_then (Some (odp_packet_free tid (op_pkt p1) st3)) (\<lambda>st4.
                Some (Inr (p1\<lparr>op_pkt := ODP_PACKET_INVALID\<rparr>, st4)))))))"

definition run_algorithms :: "'ks openssl \<Rightarrow> crypto_op_params \<Rightarrow> 'ks crypto_session \<Rightarrow> odp_state \<Rightarrow> c_error + (crypto_alg_err \<times> crypto_alg_err \<times> odp_state)" where
  "run_algorithms ssl p s st =
    (if cs_do_cipher_first s
     then and_then (call_func ssl (cs_cipher_func s) p s st) (\<lambda>(rc_cipher, st1).
          and_then (call_func ssl (cs_auth_func s) p s st1) (\<lambda>(rc_auth, st2). Inr (rc_cipher, rc_auth, st2)))
     else and_then (call_func ssl (cs_auth_func s) p s st) (\<lambda>(rc_auth, st1).
          and_then (call_func ssl (cs_cipher_func s) p s st1) (\<lambda>(rc_cipher, st2). Inr (rc_cipher, rc_auth, st2))))"

definition local_result :: "crypto_op_params \<Rightarrow> crypto_alg_err \<Rightarrow> crypto_alg_err \<Rightarrow> crypto_op_result" where
  "local_result p rc_cipher rc_auth =
    \<lparr>res_ok = (rc_cipher = ODP_CRYPTO_ALG_ERR_NONE \<and> rc_auth = ODP_CRYPTO_ALG_ERR_NONE), res_ctx = op_ctx p, res_pkt = op_out_pkt p,
     res_cipher_alg_err = rc_cipher, res_cipher_hw_err = ODP_CRYPTO_HW_ERR_NONE, res_auth_alg_err = rc_auth, res_auth_hw_err = ODP_CRYPTO_HW_ERR_NONE\<rparr>"

text \<open>The completion event is the output packet, with the result in its header.\<close>

definition post_completion :: "sock_dev \<Rightarrow> nat \<Rightarrow> u32 \<Rightarrow> u32 \<Rightarrow> crypto_op_result \<Rightarrow> 'ks crypto_sys \<Rightarrow> c_error + (int \<times> 'ks crypto_sys)" where
  "post_completion dev tid queue ev res c =
    and_then (odp_buffer_event_type_set (base (cr_sys c)) ev ODP_EVENT_CRYPTO_COMPL) (\<lambda>st.
    and_then (packet_hdr_addr st ev) (\<lambda>a.
      let c1 = c\<lparr>cr_sys := (cr_sys c)\<lparr>base := st\<rparr>, cr_magic := (cr_magic c)(a := OP_RESULT_MAGIC), cr_result := (cr_result c)(a := res)\<rparr>
      in and_then (odp_queue_enq dev queue ev (cr_sys c1)) (\<lambda>(ret, sys1).
           if ret \<noteq> 0
           then and_then (odp_event_free tid ev (base sys1)) (\<lambda>st2. Inr (-1, c1\<lparr>cr_sys := sys1\<lparr>base := st2\<rparr>\<rparr>))
           else Inr (0, c1\<lparr>cr_sys := sys1\<rparr>))))"

text \<open>
  The number returned, whether the result was posted, the result if it is returned, and the parameters, which the call changes.
  \<open>want\<close> tells whether the caller gave a place for the result.
\<close>

definition odp_crypto_operation ::
  "'ks openssl \<Rightarrow> sock_dev \<Rightarrow> nat \<Rightarrow> bool \<Rightarrow> crypto_op_params \<Rightarrow> 'ks crypto_sys \<Rightarrow>
    (c_error + ((int \<times> bool option \<times> crypto_op_result option \<times> crypto_op_params) \<times> 'ks crypto_sys)) option" where
  "odp_crypto_operation ssl dev tid want params c =
    (let s = cr_sessions c ! op_session params
     in run_then (resolve_output tid params s (base (cr_sys c))) (\<lambda>(p, st).
        run_then (Some (run_algorithms ssl p s st)) (\<lambda>(rc_cipher, rc_auth, st1).
          let res = local_result p rc_cipher rc_auth; c1 = c\<lparr>cr_sys := (cr_sys c)\<lparr>base := st1\<rparr>\<rparr>
          in if cs_compl_queue s \<noteq> ODP_QUEUE_INVALID
             then run_then (Some (post_completion dev tid (cs_compl_queue s) (op_out_pkt p) res c1)) (\<lambda>(ret, c2).
                  Some (Inr ((ret, if ret = 0 then Some True else None, None, p), c2)))
             else if \<not> want then Some (Inr ((-1, None, None, p), c1))
             else Some (Inr ((0, Some False, Some res, p), c1)))))"

section \<open>Completion events\<close>

definition odp_crypto_compl_from_event :: "odp_state \<Rightarrow> u32 \<Rightarrow> c_error + u32" where
  "odp_crypto_compl_from_event st ev = and_then (odp_event_type st ev) (\<lambda>ty. if ty \<noteq> ODP_EVENT_CRYPTO_COMPL then Inl Aborted else Inr ev)"

definition odp_crypto_compl_to_event :: "u32 \<Rightarrow> u32" where
  "odp_crypto_compl_to_event completion_event = completion_event"

definition odp_crypto_compl_result :: "u32 \<Rightarrow> 'ks crypto_sys \<Rightarrow> c_error + crypto_op_result" where
  "odp_crypto_compl_result completion_event c =
    and_then (packet_hdr_addr (base (cr_sys c)) (odp_crypto_compl_to_event completion_event)) (\<lambda>a.
      if cr_magic c a \<noteq> OP_RESULT_MAGIC then Inl Aborted else Inr (cr_result c a))"

section \<open>Start and end\<close>

definition odp_crypto_init_global :: "'ks openssl \<Rightarrow> bool \<Rightarrow> 'ks crypto_sys \<Rightarrow> c_error + (int \<times> 'ks crypto_sys)" where
  "odp_crypto_init_global ssl shm_ok c =
    (if \<not> shm_ok then Inl Null_Deref
     else Inr (0, fold (\<lambda>idx c. free_session idx c) [0..<MAX_SESSIONS] (c\<lparr>cr_sessions := replicate MAX_SESSIONS (zero_session ssl), cr_free := None\<rparr>)))"

partial_function (option) count_free :: "'ks crypto_session list \<Rightarrow> nat option \<Rightarrow> nat \<Rightarrow> nat option" where
  "count_free ss session cnt = (case session of None \<Rightarrow> Some cnt | Some i \<Rightarrow> count_free ss (cs_next (ss ! i)) (cnt + 1))"

definition odp_crypto_term_global :: "'os shm_os \<Rightarrow> 'ks crypto_sys \<Rightarrow> 'os shm_sys \<Rightarrow> (int \<times> 'os shm_sys) option" where
  "odp_crypto_term_global os c shm =
    map_option (\<lambda>cnt. let rc = (if cnt \<noteq> MAX_SESSIONS then -1 else 0); (ret, shm1) = odp_shm_free os (odp_shm_lookup ''crypto_pool'' shm) shm
                        in (if ret < 0 then -1 else rc, shm1))
      (count_free (cr_sessions c) (cr_free c) 0)"

text \<open>\<open>rand\<close> is the result of the random number generator, which fills the buffer.\<close>

definition odp_random_data :: "int \<Rightarrow> int \<Rightarrow> int" where
  "odp_random_data rand len = (if rand = 1 then len else -1)"

end
