(* ===== verification/Odp_Crypto_Correct.thy ===== *)
theory Odp_Crypto_Correct
  imports Odp_Crypto Odp_Packet_Correct Odp_Schedule_Correct
begin

text \<open>
  Crypto sessions and operations are correct: the two algorithms of a decoding session undo those of the encoding session made from the same
  parameters, in either order; the table of sessions and its free list over all sequences of creations and destructions; and the round
  trip of a packet through two operations.
\<close>

section \<open>Memory\<close>

definition apart :: "addr \<Rightarrow> nat \<Rightarrow> addr \<Rightarrow> nat \<Rightarrow> bool" where
  "apart p n q k \<longleftrightarrow> p + int n \<le> q \<or> q + int k \<le> p"

lemma store_load_same: "store_bytes m p (load_bytes m p n) = m"
  by (rule ext) (auto simp: store_bytes_def load_bytes_def)

lemma store_store_same: "length bs = length cs \<Longrightarrow> store_bytes (store_bytes m p bs) p cs = store_bytes m p cs"
  by (rule ext) (auto simp: store_bytes_def)

lemma load_store_apart: "apart p (length bs) q n \<Longrightarrow> load_bytes (store_bytes m p bs) q n = load_bytes m q n"
  by (rule nth_equalityI) (auto simp: apart_def store_bytes_def)

lemma store_store_apart: "apart p (length bs) q (length cs) \<Longrightarrow> store_bytes (store_bytes m p bs) q cs = store_bytes (store_bytes m q cs) p bs"
  by (rule ext) (auto simp: apart_def store_bytes_def)

lemma apart_sym: "apart p n q k \<longleftrightarrow> apart q k p n"
  by (auto simp: apart_def)

section \<open>What OpenSSL promises\<close>

text \<open>
  Triple DES in CBC mode on whole blocks keeps the length and decryption undoes encryption with the same keys and initialization vector; the
  MD5 code has 16 bytes.
\<close>

definition ssl_ok :: "'ks openssl \<Rightarrow> bool" where
  "ssl_ok ssl \<longleftrightarrow>
    (\<forall>d k1 k2 k3 iv e. 8 dvd length d \<and> length iv = 8 \<longrightarrow> length (DES_ede3_cbc_encrypt ssl d k1 k2 k3 iv e) = length d) \<and>
    (\<forall>d k1 k2 k3 iv. 8 dvd length d \<and> length iv = 8 \<longrightarrow>
      DES_ede3_cbc_encrypt ssl (DES_ede3_cbc_encrypt ssl d k1 k2 k3 iv True) k1 k2 k3 iv False = d) \<and>
    (\<forall>key d. length (HMAC_md5 ssl key d) = 16)"

lemma ssl_okD:
  assumes "ssl_ok ssl"
  shows "8 dvd length d \<Longrightarrow> length iv = 8 \<Longrightarrow> length (DES_ede3_cbc_encrypt ssl d k1 k2 k3 iv e) = length d"
    and "8 dvd length d \<Longrightarrow> length iv = 8 \<Longrightarrow> DES_ede3_cbc_encrypt ssl (DES_ede3_cbc_encrypt ssl d k1 k2 k3 iv True) k1 k2 k3 iv False = d"
    and "length (HMAC_md5 ssl key d) = 16"
  using assms unfolding ssl_ok_def by blast+

section \<open>The algorithms on memory\<close>

definition alg :: "'ks openssl \<Rightarrow> crypto_func \<Rightarrow> crypto_op_params \<Rightarrow> 'ks crypto_session \<Rightarrow> addr \<Rightarrow> memory \<Rightarrow> crypto_alg_err \<times> memory" where
  "alg ssl f p s data m =
    (case f of Des_Encrypt \<Rightarrow> des_encrypt ssl p s data m | Des_Decrypt \<Rightarrow> des_decrypt ssl p s data m | Md5_Gen \<Rightarrow> md5_gen ssl p s data m
     | Md5_Check \<Rightarrow> md5_check ssl p s data m | _ \<Rightarrow> (ODP_CRYPTO_ALG_ERR_NONE, m))"

lemma call_func_alg:
  assumes "odp_packet_data st (op_out_pkt p) = Inr data" "data \<noteq> NULL" "f \<noteq> No_Func"
  shows "call_func ssl f p s st = (case alg ssl f p s data (mem (heap st)) of (rc, m) \<Rightarrow> Inr (rc, put_mem m st))"
  using assms by (cases f) (simp_all add: call_func_def alg_def null_crypto_routine_def Let_def)

lemma odp_packet_data_put_mem [simp]: "odp_packet_data (put_mem m st) pkt = odp_packet_data st pkt"
  by (simp add: odp_packet_data_def with_hdr_def)

text \<open>Where the parts of a packet are: the part to cipher, the part to authenticate and the place of the code.\<close>

definition cipher_at :: "crypto_op_params \<Rightarrow> addr \<Rightarrow> addr" where "cipher_at p data = data + int (unat (op_cipher_offset p))"
definition auth_at :: "crypto_op_params \<Rightarrow> addr \<Rightarrow> addr" where "auth_at p data = data + int (unat (op_auth_offset p))"
definition icv_at :: "crypto_op_params \<Rightarrow> addr \<Rightarrow> addr" where "icv_at p data = data + int (unat (op_hash_result_offset p))"

abbreviation cipher_len :: "crypto_op_params \<Rightarrow> nat" where "cipher_len p \<equiv> unat (op_cipher_length p)"
abbreviation auth_len :: "crypto_op_params \<Rightarrow> nat" where "auth_len p \<equiv> unat (op_auth_length p)"

text \<open>A pair of sessions made with the same keys, one to encode and one to decode.\<close>

definition matching :: "'ks crypto_session \<Rightarrow> 'ks crypto_session \<Rightarrow> bool" where
  "matching e d \<longleftrightarrow> cs_iv_data e = cs_iv_data d \<and> cs_do_cipher_first d = (\<not> cs_do_cipher_first e) \<and>
    (cs_cipher_func e = Null_Crypto_Routine \<and> cs_cipher_func d = Null_Crypto_Routine \<or>
     cs_cipher_func e = Des_Encrypt \<and> cs_cipher_func d = Des_Decrypt \<and> cs_ks1 e = cs_ks1 d \<and> cs_ks2 e = cs_ks2 d \<and> cs_ks3 e = cs_ks3 d) \<and>
    (cs_auth_func e = Null_Crypto_Routine \<and> cs_auth_func d = Null_Crypto_Routine \<or>
     cs_auth_func e = Md5_Gen \<and> cs_auth_func d = Md5_Check \<and> cs_md5_key e = cs_md5_key d \<and> cs_md5_bytes e = 12 \<and> cs_md5_bytes d = 12)"

text \<open>
  The layout an operation needs: whole blocks to cipher, an initialization vector that the operation does not overwrite, a code that is not
  in what it authenticates unless it is 0 there, and that encryption does not touch when it comes first.
\<close>

definition layout_ok :: "'ks crypto_session \<Rightarrow> crypto_op_params \<Rightarrow> addr \<Rightarrow> memory \<Rightarrow> bool" where
  "layout_ok e p data m \<longleftrightarrow>
    (cs_cipher_func e = Des_Encrypt \<longrightarrow> 8 dvd cipher_len p \<and> iv_ptr p e \<noteq> NULL \<and> apart (cipher_at p data) (cipher_len p) (iv_ptr p e) 8) \<and>
    (cs_auth_func e = Md5_Gen \<longrightarrow> apart (icv_at p data) 12 (auth_at p data) (auth_len p) \<or> load_bytes m (icv_at p data) 12 = replicate 12 0) \<and>
    (cs_cipher_func e = Des_Encrypt \<and> cs_auth_func e = Md5_Gen \<longrightarrow> apart (icv_at p data) 12 (iv_ptr p e) 8 \<and>
      (cs_do_cipher_first e \<longrightarrow> apart (icv_at p data) 12 (cipher_at p data) (cipher_len p)))"

text \<open>The memory with the place of the code cleared.\<close>

definition cleared :: "'ks crypto_session \<Rightarrow> crypto_op_params \<Rightarrow> addr \<Rightarrow> memory \<Rightarrow> memory" where
  "cleared e p data m = (if cs_auth_func e = Md5_Gen then store_bytes m (icv_at p data) (replicate 12 0) else m)"

section \<open>Decoding undoes encoding\<close>

abbreviation enc_mem :: "'ks openssl \<Rightarrow> 'ks crypto_session \<Rightarrow> crypto_op_params \<Rightarrow> addr \<Rightarrow> memory \<Rightarrow> memory" where
  "enc_mem ssl e p data m \<equiv> snd (alg ssl (cs_cipher_func e) p e data m)"

lemma iv_ptr_matching: "matching e d \<Longrightarrow> iv_ptr p' d = iv_ptr p' e"
  by (simp add: matching_def iv_ptr_def)

text \<open>Decryption after encryption, also when bytes elsewhere were stored in between.\<close>

lemma cipher_undo:
  assumes ssl: "ssl_ok ssl" and mt: "matching e d" and lay: "layout_ok e p data m0"
    and bs: "cs_cipher_func e = Des_Encrypt \<longrightarrow> bs = [] \<or> apart q (length bs) (iv_ptr p e) 8 \<and> apart q (length bs) (cipher_at p data) (cipher_len p)"
  shows "alg ssl (cs_cipher_func e) p e data m = (ODP_CRYPTO_ALG_ERR_NONE, enc_mem ssl e p data m)"
    and "alg ssl (cs_cipher_func d) p d data (store_bytes (enc_mem ssl e p data m) q bs) = (ODP_CRYPTO_ALG_ERR_NONE, store_bytes m q bs)"
proof -
  consider (null) "cs_cipher_func e = Null_Crypto_Routine" "cs_cipher_func d = Null_Crypto_Routine"
    | (des) "cs_cipher_func e = Des_Encrypt" "cs_cipher_func d = Des_Decrypt" using mt by (auto simp: matching_def)
  then have "alg ssl (cs_cipher_func e) p e data m = (ODP_CRYPTO_ALG_ERR_NONE, enc_mem ssl e p data m) \<and>
    alg ssl (cs_cipher_func d) p d data (store_bytes (enc_mem ssl e p data m) q bs) = (ODP_CRYPTO_ALG_ERR_NONE, store_bytes m q bs)"
  proof cases
    case null
    then show ?thesis by (simp add: alg_def)
  next
    case des
    let ?C = "cipher_at p data" and ?n = "cipher_len p" and ?iv = "iv_ptr p e"
    let ?E = "\<lambda>b iv x. DES_ede3_cbc_encrypt ssl x (cs_ks1 e) (cs_ks2 e) (cs_ks3 e) iv b"
    have L: "8 dvd ?n" "?iv \<noteq> NULL" "apart ?C ?n ?iv 8" using lay des(1) by (simp_all add: layout_ok_def)
    have keys: "cs_ks1 d = cs_ks1 e" "cs_ks2 d = cs_ks2 e" "cs_ks3 d = cs_ks3 e" using mt des by (simp_all add: matching_def)
    define iv where "iv = load_bytes m ?iv 8"
    define x where "x = ?E True iv (load_bytes m ?C ?n)"
    have lx: "length x = ?n" unfolding x_def iv_def using ssl_okD(1) [OF ssl] L(1) by simp
    have e: "alg ssl (cs_cipher_func e) p e data m = (ODP_CRYPTO_ALG_ERR_NONE, store_bytes m ?C x)"
      using des(1) L(2) by (simp add: alg_def des_encrypt_def des_crypt_def Let_def cipher_at_def x_def iv_def)
    let ?m = "store_bytes (store_bytes m ?C x) q bs"
    have out: "bs = [] \<or> apart q (length bs) ?iv 8 \<and> apart q (length bs) ?C ?n" using bs des(1) by simp
    have iv': "load_bytes ?m ?iv 8 = iv"
      using out load_store_apart [of q bs ?iv 8 "store_bytes m ?C x"] load_store_apart [of ?C x ?iv 8 m] L(3) lx by (auto simp: iv_def)
    have c': "load_bytes ?m ?C ?n = x"
      using out load_store_apart [of q bs ?C ?n "store_bytes m ?C x"] load_store_same [of m ?C x] lx by auto
    have dx: "?E False iv x = load_bytes m ?C ?n" unfolding x_def using ssl_okD(2) [OF ssl] L(1) by (simp add: iv_def)
    have d: "alg ssl (cs_cipher_func d) p d data ?m = (ODP_CRYPTO_ALG_ERR_NONE, store_bytes ?m ?C (load_bytes m ?C ?n))"
      using des(2) L(2) c' iv' dx by (simp add: alg_def des_decrypt_def des_crypt_def Let_def cipher_at_def iv_ptr_matching [OF mt] keys)
    have "store_bytes ?m ?C (load_bytes m ?C ?n) = store_bytes m q bs"
    proof (cases "bs = []")
      case True
      then show ?thesis using store_store_same [of x "load_bytes m ?C ?n" m ?C] lx by (simp add: store_load_same)
    next
      case False
      then have "store_bytes ?m ?C (load_bytes m ?C ?n) = store_bytes (store_bytes (store_bytes m ?C x) ?C (load_bytes m ?C ?n)) q bs"
        using out by (intro store_store_apart) simp
      then show ?thesis using store_store_same [of x "load_bytes m ?C ?n" m ?C] lx by (simp add: store_load_same)
    qed
    then show ?thesis using e d by simp
  qed
  then show "alg ssl (cs_cipher_func e) p e data m = (ODP_CRYPTO_ALG_ERR_NONE, enc_mem ssl e p data m)"
    "alg ssl (cs_cipher_func d) p d data (store_bytes (enc_mem ssl e p data m) q bs) = (ODP_CRYPTO_ALG_ERR_NONE, store_bytes m q bs)" by blast+
qed

text \<open>The check accepts the code that was generated, and clears it.\<close>

lemma auth_undo:
  assumes ssl: "ssl_ok ssl" and mt: "matching e d"
    and icv: "cs_auth_func e = Md5_Gen \<longrightarrow> apart (icv_at p data) 12 (auth_at p data) (auth_len p) \<or> load_bytes m (icv_at p data) 12 = replicate 12 0"
  obtains h where "alg ssl (cs_auth_func e) p e data m = (ODP_CRYPTO_ALG_ERR_NONE, store_bytes m (icv_at p data) h)"
    "length h = (if cs_auth_func e = Md5_Gen then 12 else 0)"
    "alg ssl (cs_auth_func d) p d data (store_bytes m (icv_at p data) h) = (ODP_CRYPTO_ALG_ERR_NONE, cleared e p data m)"
proof -
  consider (null) "cs_auth_func e = Null_Crypto_Routine" "cs_auth_func d = Null_Crypto_Routine"
    | (md5) "cs_auth_func e = Md5_Gen" "cs_auth_func d = Md5_Check" "cs_md5_key d = cs_md5_key e" "cs_md5_bytes e = 12" "cs_md5_bytes d = 12"
    using mt by (auto simp: matching_def)
  then show thesis
  proof cases
    case null
    then show thesis using that [of "[]"] by (simp add: alg_def cleared_def)
  next
    case md5
    let ?I = "icv_at p data" and ?A = "auth_at p data" and ?n = "auth_len p"
    define h where "h = take 12 (HMAC_md5 ssl (cs_md5_key e) (load_bytes m ?A ?n))"
    have lh: "length h = 12" unfolding h_def using ssl_okD(3) [OF ssl] by simp
    have g: "alg ssl (cs_auth_func e) p e data m = (ODP_CRYPTO_ALG_ERR_NONE, store_bytes m ?I h)"
      using md5 by (simp add: alg_def md5_gen_def Let_def icv_at_def auth_at_def h_def)
    let ?z = "replicate 12 (0 :: u8)"
    have z: "store_bytes (store_bytes m ?I h) ?I ?z = store_bytes m ?I ?z" using lh by (intro store_store_same) simp
    have same: "load_bytes (store_bytes m ?I ?z) ?A ?n = load_bytes m ?A ?n"
    proof (cases "apart ?I 12 ?A ?n")
      case True
      then show ?thesis by (intro load_store_apart) simp
    next
      case False
      then have "load_bytes m ?I 12 = ?z" using icv md5(1) by simp
      then have "store_bytes m ?I ?z = m" using store_load_same [of m ?I 12] by simp
      then show ?thesis by simp
    qed
    have "load_bytes (store_bytes m ?I h) ?I 12 = h" using load_store_same [of m ?I h] lh by simp
    then have c: "alg ssl (cs_auth_func d) p d data (store_bytes m ?I h) = (ODP_CRYPTO_ALG_ERR_NONE, cleared e p data m)"
      using md5 z same by (simp add: alg_def md5_check_def Let_def icv_at_def auth_at_def h_def cleared_def)
    show thesis using that [OF g _ c] lh md5(1) by simp
  qed
qed

lemma alg_op_session [simp]: "alg ssl f (p\<lparr>op_session := k\<rparr>) s data m = alg ssl f p s data m"
  by (simp add: alg_def des_encrypt_def des_decrypt_def des_crypt_def md5_gen_def md5_check_def iv_ptr_def split: crypto_func.split)

lemma put_mem_put_mem [simp]: "put_mem m (put_mem m' st) = put_mem m st"
  by (simp add: put_mem_def)

lemma mem_put_mem [simp]: "mem (heap (put_mem m st)) = m"
  by (simp add: put_mem_def)

lemma store_nil [simp]: "store_bytes m q [] = m"
  by (rule ext) (auto simp: store_bytes_def)

text \<open>The two algorithms of a session run on the memory, in the order the session has them.\<close>

definition first_func :: "'ks crypto_session \<Rightarrow> crypto_func" where
  "first_func s = (if cs_do_cipher_first s then cs_cipher_func s else cs_auth_func s)"

definition second_func :: "'ks crypto_session \<Rightarrow> crypto_func" where
  "second_func s = (if cs_do_cipher_first s then cs_auth_func s else cs_cipher_func s)"

lemma run_algorithms_alg:
  assumes "odp_packet_data st (op_out_pkt p) = Inr data" "data \<noteq> NULL" "cs_cipher_func s \<noteq> No_Func" "cs_auth_func s \<noteq> No_Func"
    and "alg ssl (first_func s) p s data (mem (heap st)) = (ODP_CRYPTO_ALG_ERR_NONE, m1)"
    and "alg ssl (second_func s) p s data m1 = (ODP_CRYPTO_ALG_ERR_NONE, m2)"
  shows "run_algorithms ssl p s st = Inr (ODP_CRYPTO_ALG_ERR_NONE, ODP_CRYPTO_ALG_ERR_NONE, put_mem m2 st)"
  using assms call_func_alg [of st p data "first_func s" ssl s] call_func_alg [of "put_mem m1 st" p data "second_func s" ssl s]
  by (auto simp: run_algorithms_def first_func_def second_func_def split: if_splits)

lemma matching_funcs:
  "matching e d \<Longrightarrow> cs_cipher_func e \<noteq> No_Func \<and> cs_auth_func e \<noteq> No_Func \<and> cs_cipher_func d \<noteq> No_Func \<and> cs_auth_func d \<noteq> No_Func"
  by (auto simp: matching_def)

text \<open>Encryption that comes before the code leaves the place of the code alone.\<close>

lemma icv_kept:
  assumes "ssl_ok ssl" "matching e d" "layout_ok e p data m" "cs_do_cipher_first e" "cs_auth_func e = Md5_Gen"
  shows "load_bytes (enc_mem ssl e p data m) (icv_at p data) 12 = load_bytes m (icv_at p data) 12"
proof (cases "cs_cipher_func e = Des_Encrypt")
  case True
  let ?C = "cipher_at p data" and ?n = "cipher_len p"
  let ?x = "DES_ede3_cbc_encrypt ssl (load_bytes m ?C ?n) (cs_ks1 e) (cs_ks2 e) (cs_ks3 e) (load_bytes m (iv_ptr p e) 8) True"
  have L: "8 dvd ?n" "iv_ptr p e \<noteq> NULL" "apart ?C ?n (icv_at p data) 12"
    using True assms(3,4,5) by (simp_all add: layout_ok_def apart_sym)
  have "length ?x = ?n" using ssl_okD(1) [OF assms(1)] L(1) by simp
  then have "load_bytes (store_bytes m ?C ?x) (icv_at p data) 12 = load_bytes m (icv_at p data) 12"
    using L(3) by (intro load_store_apart) simp
  then show ?thesis using True L(2) by (simp add: alg_def des_encrypt_def des_crypt_def Let_def cipher_at_def)
next
  case False
  then have "cs_cipher_func e = Null_Crypto_Routine" using assms(2) by (auto simp: matching_def)
  then show ?thesis by (simp add: alg_def)
qed

lemma cleared_store: "cleared e p data m = store_bytes m (icv_at p data) (if cs_auth_func e = Md5_Gen then replicate 12 0 else [])"
  by (simp add: cleared_def)

lemma encode_decode_mem:
  assumes ssl: "ssl_ok ssl" and mt: "matching e d" and lay: "layout_ok e p data m"
  obtains m1 m2 m3 where "alg ssl (first_func e) p e data m = (ODP_CRYPTO_ALG_ERR_NONE, m1)"
    "alg ssl (second_func e) p e data m1 = (ODP_CRYPTO_ALG_ERR_NONE, m2)"
    "alg ssl (first_func d) p d data m2 = (ODP_CRYPTO_ALG_ERR_NONE, m3)"
    "alg ssl (second_func d) p d data m3 = (ODP_CRYPTO_ALG_ERR_NONE, cleared e p data m)"
proof (cases "cs_do_cipher_first e")
  case True
  let ?m = "enc_mem ssl e p data m" and ?z = "if cs_auth_func e = Md5_Gen then replicate 12 (0 :: u8) else []"
  have df: "\<not> cs_do_cipher_first d" using mt True by (simp add: matching_def)
  have icv: "cs_auth_func e = Md5_Gen \<longrightarrow> apart (icv_at p data) 12 (auth_at p data) (auth_len p) \<or> load_bytes ?m (icv_at p data) 12 = replicate 12 0"
    using icv_kept [OF ssl mt lay True] lay by (auto simp: layout_ok_def)
  obtain h where h: "alg ssl (cs_auth_func e) p e data ?m = (ODP_CRYPTO_ALG_ERR_NONE, store_bytes ?m (icv_at p data) h)"
    "alg ssl (cs_auth_func d) p d data (store_bytes ?m (icv_at p data) h) = (ODP_CRYPTO_ALG_ERR_NONE, cleared e p data ?m)"
    using auth_undo [OF ssl mt icv] by blast
  have ap: "cs_cipher_func e = Des_Encrypt \<longrightarrow> ?z = [] \<or> apart (icv_at p data) (length ?z) (iv_ptr p e) 8 \<and>
      apart (icv_at p data) (length ?z) (cipher_at p data) (cipher_len p)" using lay True by (simp add: layout_ok_def)
  note c = cipher_undo [OF ssl mt lay ap, of m]
  show ?thesis using that [of ?m] c h True df by (simp add: first_func_def second_func_def cleared_store del: if_split)
next
  case False
  have df: "cs_do_cipher_first d" using mt False by (simp add: matching_def)
  have icv: "cs_auth_func e = Md5_Gen \<longrightarrow> apart (icv_at p data) 12 (auth_at p data) (auth_len p) \<or> load_bytes m (icv_at p data) 12 = replicate 12 0"
    using lay by (simp add: layout_ok_def)
  obtain h where h: "alg ssl (cs_auth_func e) p e data m = (ODP_CRYPTO_ALG_ERR_NONE, store_bytes m (icv_at p data) h)"
    "alg ssl (cs_auth_func d) p d data (store_bytes m (icv_at p data) h) = (ODP_CRYPTO_ALG_ERR_NONE, cleared e p data m)"
    using auth_undo [OF ssl mt icv] by blast
  note c = cipher_undo [OF ssl mt lay, of "[]" 0 "store_bytes m (icv_at p data) h", simplified]
  show ?thesis using that [of "store_bytes m (icv_at p data) h"] c h False df by (simp add: first_func_def second_func_def)
qed

text \<open>The algorithms of the decoding session bring back the memory that the encoding session was given, with the code cleared.\<close>

lemma run_algorithms_roundtrip:
  assumes "ssl_ok ssl" "matching e d" "layout_ok e p data (mem (heap st))" "odp_packet_data st (op_out_pkt p) = Inr data" "data \<noteq> NULL"
  obtains m where "run_algorithms ssl p e st = Inr (ODP_CRYPTO_ALG_ERR_NONE, ODP_CRYPTO_ALG_ERR_NONE, put_mem m st)"
    "\<And>k. run_algorithms ssl (p\<lparr>op_session := k\<rparr>) d (put_mem m st) =
      Inr (ODP_CRYPTO_ALG_ERR_NONE, ODP_CRYPTO_ALG_ERR_NONE, put_mem (cleared e p data (mem (heap st))) st)"
proof -
  obtain m1 m2 m3 where a: "alg ssl (first_func e) p e data (mem (heap st)) = (ODP_CRYPTO_ALG_ERR_NONE, m1)"
    "alg ssl (second_func e) p e data m1 = (ODP_CRYPTO_ALG_ERR_NONE, m2)"
    "alg ssl (first_func d) p d data m2 = (ODP_CRYPTO_ALG_ERR_NONE, m3)"
    "alg ssl (second_func d) p d data m3 = (ODP_CRYPTO_ALG_ERR_NONE, cleared e p data (mem (heap st)))"
    using encode_decode_mem [OF assms(1-3)] by blast
  note f = matching_funcs [OF assms(2)]
  have "run_algorithms ssl p e st = Inr (ODP_CRYPTO_ALG_ERR_NONE, ODP_CRYPTO_ALG_ERR_NONE, put_mem m2 st)"
    using run_algorithms_alg [OF assms(4,5) _ _ a(1,2)] f by simp
  moreover have "run_algorithms ssl (p\<lparr>op_session := k\<rparr>) d (put_mem m2 st) =
      Inr (ODP_CRYPTO_ALG_ERR_NONE, ODP_CRYPTO_ALG_ERR_NONE, put_mem (cleared e p data (mem (heap st))) st)" for k
    using run_algorithms_alg [of "put_mem m2 st" "p\<lparr>op_session := k\<rparr>" data d ssl m3 "cleared e p data (mem (heap st))"] assms(4,5) a(3,4) f by simp
  ultimately show thesis by (rule that)
qed

section \<open>The table of sessions\<close>

text \<open>\<open>free_chain ss h xs\<close>: the free sessions linked from \<open>h\<close> are \<open>xs\<close>, in this order.\<close>

fun free_chain :: "'ks crypto_session list \<Rightarrow> nat option \<Rightarrow> nat list \<Rightarrow> bool" where
  "free_chain ss h [] = (h = None)"
| "free_chain ss h (x # xs) = (h = Some x \<and> x < length ss \<and> free_chain ss (cs_next (ss ! x)) xs)"

lemma free_chain_update: "i \<notin> set xs \<Longrightarrow> free_chain (ss[i := s]) h xs = free_chain ss h xs"
  by (induction xs arbitrary: h) auto

lemma free_chain_None: "free_chain ss None xs \<longleftrightarrow> xs = []"
  by (cases xs) auto

lemma free_chain_Some: "free_chain ss (Some i) xs \<longleftrightarrow> (\<exists>ys. xs = i # ys \<and> i < length ss \<and> free_chain ss (cs_next (ss ! i)) ys)"
  by (cases xs) auto

lemma count_free_chain: "free_chain ss h xs \<Longrightarrow> count_free ss h n = Some (n + length xs)"
proof (induction xs arbitrary: h n)
  case Nil
  then show ?case by (simp add: count_free.simps)
next
  case (Cons x xs)
  from Cons.prems Cons.IH [of "cs_next (ss ! x)" "n + 1"] show ?case by (subst count_free.simps) simp
qed

definition sessions_inv :: "nat list \<Rightarrow> 'ks crypto_sys \<Rightarrow> bool" where
  "sessions_inv xs c \<longleftrightarrow> length (cr_sessions c) = MAX_SESSIONS \<and> distinct xs \<and> set xs \<subseteq> {..<MAX_SESSIONS} \<and> free_chain (cr_sessions c) (cr_free c) xs"

lemma free_session_inv:
  assumes "sessions_inv xs c" "i < MAX_SESSIONS" "i \<notin> set xs"
  shows "sessions_inv (i # xs) (free_session i c)"
  using assms by (simp add: sessions_inv_def free_session_def free_chain_update)

lemma free_sessions_inv:
  "sessions_inv xs c \<Longrightarrow> distinct is \<Longrightarrow> set is \<inter> set xs = {} \<Longrightarrow> set is \<subseteq> {..<MAX_SESSIONS} \<Longrightarrow>
    sessions_inv (rev is @ xs) (fold free_session is c)"
proof (induction "is" arbitrary: xs c)
  case Nil
  then show ?case by simp
next
  case (Cons i "is")
  have "sessions_inv (i # xs) (free_session i c)" using Cons.prems by (intro free_session_inv) auto
  then have "sessions_inv (rev is @ (i # xs)) (fold free_session is (free_session i c))" using Cons.prems by (intro Cons.IH) auto
  then show ?case by simp
qed

lemma odp_crypto_init_global_inv:
  assumes "odp_crypto_init_global ssl shm_ok c = Inr (r, c1)"
  shows "r = 0" "sessions_inv (rev [0..<MAX_SESSIONS]) c1" "cr_sys c1 = cr_sys c"
proof -
  let ?c = "c\<lparr>cr_sessions := replicate MAX_SESSIONS (zero_session ssl), cr_free := None\<rparr>"
  have c1: "r = 0 \<and> c1 = fold free_session [0..<MAX_SESSIONS] ?c" using assms by (simp add: odp_crypto_init_global_def split: if_splits)
  then show "r = 0" by simp
  have "sessions_inv [] ?c" by (simp add: sessions_inv_def)
  then show "sessions_inv (rev [0..<MAX_SESSIONS]) c1" using free_sessions_inv [of "[]" ?c "[0..<MAX_SESSIONS]"] c1
    by (simp add: subset_eq)
  have "cr_sys (fold free_session is b) = cr_sys b" for "is" and b :: "'a crypto_sys"
    by (induction "is" arbitrary: b) (simp_all add: free_session_def)
  then show "cr_sys c1 = cr_sys c" using c1 by simp
qed

text \<open>What creating a session does: the number returned, the session and the free sessions after it. A refused cipher leaves its session out of the table.\<close>

definition cipher_refused :: "crypto_session_params \<Rightarrow> bool" where
  "cipher_refused p \<longleftrightarrow> sp_cipher_alg p \<noteq> ODP_CIPHER_ALG_NULL \<and> sp_iv_len p \<noteq> 0 \<and> sp_iv_len p \<noteq> 8"

lemma create_empty:
  assumes "sessions_inv [] c"
  shows "odp_crypto_session_create ssl p c = ((-1, None, ODP_CRYPTO_SES_CREATE_ERR_ENOMEM), c)"
  using assms by (simp add: sessions_inv_def odp_crypto_session_create_def alloc_session_def)

lemma create_refused:
  assumes "sessions_inv (x # xs) c" "cipher_refused p"
  shows "fst (odp_crypto_session_create ssl p c) = (-1, None, ODP_CRYPTO_SES_CREATE_ERR_INV_CIPHER) \<and>
    sessions_inv xs (snd (odp_crypto_session_create ssl p c))"
  using assms
  by (cases "sp_cipher_alg p")
    (simp_all add: sessions_inv_def odp_crypto_session_create_def alloc_session_def process_des_params_def cipher_refused_def Let_def free_chain_update)

definition new_session :: "'ks openssl \<Rightarrow> memory \<Rightarrow> crypto_session_params \<Rightarrow> 'ks crypto_session \<Rightarrow> 'ks crypto_session" where
  "new_session ssl m p s =
    (let s1 = s\<lparr>cs_do_cipher_first := (if sp_op p = ODP_CRYPTO_OP_ENCODE then sp_auth_cipher_text p else \<not> sp_auth_cipher_text p),
               cs_op := sp_op p, cs_compl_queue := sp_compl_queue p, cs_cipher_alg := sp_cipher_alg p, cs_iv_data := sp_iv p,
               cs_iv_len := sp_iv_len p, cs_auth_alg := sp_auth_alg p, cs_output_pool := sp_output_pool p\<rparr>;
         s2 = (if sp_cipher_alg p = ODP_CIPHER_ALG_NULL then s1\<lparr>cs_cipher_func := Null_Crypto_Routine\<rparr> else snd (process_des_params ssl m p s1))
     in if sp_auth_alg p = ODP_AUTH_ALG_NULL then s2\<lparr>cs_auth_func := Null_Crypto_Routine\<rparr> else snd (process_md5_params m p 96 s2))"

lemma new_session_next [simp]: "cs_next (new_session ssl m p s) = cs_next s"
  by (simp add: new_session_def Let_def process_des_params_def process_md5_params_def)

lemma create_ok:
  assumes "sessions_inv (x # xs) c" "\<not> cipher_refused p"
  shows "odp_crypto_session_create ssl p c = ((0, Some x, ODP_CRYPTO_SES_CREATE_ERR_NONE),
      c\<lparr>cr_free := cs_next (cr_sessions c ! x),
        cr_sessions := (cr_sessions c)[x := new_session ssl (mem (heap (base (cr_sys c)))) p (cr_sessions c ! x)]\<rparr>)"
    and "sessions_inv xs (snd (odp_crypto_session_create ssl p c))"
proof -
  have rc: "sp_cipher_alg p \<noteq> ODP_CIPHER_ALG_NULL \<Longrightarrow> fst (process_des_params ssl m p s) = 0" for m s
    using assms(2) by (auto simp: process_des_params_def cipher_refused_def)
  have head: "cr_free c = Some x" using assms(1) by (simp add: sessions_inv_def)
  show 1: "odp_crypto_session_create ssl p c = ((0, Some x, ODP_CRYPTO_SES_CREATE_ERR_NONE),
      c\<lparr>cr_free := cs_next (cr_sessions c ! x),
        cr_sessions := (cr_sessions c)[x := new_session ssl (mem (heap (base (cr_sys c)))) p (cr_sessions c ! x)]\<rparr>)"
    using head by (cases "sp_cipher_alg p"; cases "sp_auth_alg p")
      (simp_all add: odp_crypto_session_create_def alloc_session_def new_session_def Let_def process_md5_params_def split_def rc)
  show "sessions_inv xs (snd (odp_crypto_session_create ssl p c))"
    unfolding 1 using assms(1) by (simp add: sessions_inv_def free_chain_update)
qed

lemma destroy_inv:
  assumes "sessions_inv xs c" "i < MAX_SESSIONS" "i \<notin> set xs"
  shows "sessions_inv (i # xs) (snd (odp_crypto_session_destroy ssl i c))"
proof -
  have "sessions_inv xs (c\<lparr>cr_sessions := (cr_sessions c)[i := zero_session ssl]\<rparr>)"
    using assms by (simp add: sessions_inv_def free_chain_update)
  then show ?thesis using assms(2,3) by (simp add: odp_crypto_session_destroy_def free_session_inv)
qed

section \<open>Clients\<close>

text \<open>
  What clients do to the table: they create sessions, and destroy sessions they hold. The state is the set of sessions held, the number of
  sessions that were lost in a refused creation, and the system.
\<close>

type_synonym 'ks session_state = "nat set \<times> nat \<times> 'ks crypto_sys"

inductive session_step :: "'ks openssl \<Rightarrow> 'ks session_state \<Rightarrow> 'ks session_state \<Rightarrow> bool" for ssl where
  session_created: "odp_crypto_session_create ssl p c = ((0, Some i, status), c1) \<Longrightarrow> session_step ssl (inuse, lost, c) (insert i inuse, lost, c1)"
| session_refused: "odp_crypto_session_create ssl p c = ((-1, None, status), c1) \<Longrightarrow>
    session_step ssl (inuse, lost, c) (inuse, if status = ODP_CRYPTO_SES_CREATE_ERR_ENOMEM then lost else lost + 1, c1)"
| session_destroyed: "i \<in> inuse \<Longrightarrow> odp_crypto_session_destroy ssl i c = (r, c1) \<Longrightarrow> session_step ssl (inuse, lost, c) (inuse - {i}, lost, c1)"

inductive_cases session_stepE: "session_step ssl a b"

definition table_inv :: "'ks session_state \<Rightarrow> bool" where
  "table_inv = (\<lambda>(inuse, lost, c). \<exists>xs. sessions_inv xs c \<and> inuse \<inter> set xs = {} \<and> inuse \<subseteq> {..<MAX_SESSIONS} \<and> card inuse + lost + length xs = MAX_SESSIONS)"

lemma create_cases:
  assumes "sessions_inv xs c"
  obtains (empty) "xs = []" "odp_crypto_session_create ssl p c = ((-1, None, ODP_CRYPTO_SES_CREATE_ERR_ENOMEM), c)"
  | (refused) x ys where "xs = x # ys" "cipher_refused p" "fst (odp_crypto_session_create ssl p c) = (-1, None, ODP_CRYPTO_SES_CREATE_ERR_INV_CIPHER)"
      "sessions_inv ys (snd (odp_crypto_session_create ssl p c))"
  | (created) x ys where "xs = x # ys" "\<not> cipher_refused p" "fst (odp_crypto_session_create ssl p c) = (0, Some x, ODP_CRYPTO_SES_CREATE_ERR_NONE)"
      "sessions_inv ys (snd (odp_crypto_session_create ssl p c))"
proof (cases xs)
  case Nil
  then show thesis using empty create_empty assms by blast
next
  case (Cons x ys)
  then have inv: "sessions_inv (x # ys) c" using assms by simp
  show thesis
  proof (cases "cipher_refused p")
    case True
    then show thesis using refused [OF Cons] create_refused [OF inv] by blast
  next
    case False
    then show thesis using created [OF Cons] create_ok [OF inv] by simp
  qed
qed

lemma session_step_inv:
  assumes "session_step ssl a b" "table_inv a"
  shows "table_inv b"
  using assms(1)
proof cases
  case (session_created p c i status c1 inuse lost)
  obtain xs where xs: "sessions_inv xs c" "inuse \<inter> set xs = {}" "inuse \<subseteq> {..<MAX_SESSIONS}" "card inuse + lost + length xs = MAX_SESSIONS"
    using assms(2) session_created(1) by (auto simp: table_inv_def)
  from xs(1) show ?thesis
  proof (cases rule: create_cases [where ssl = ssl and p = p, case_names empty refused created])
    case (created x ys)
    have "i = x" "sessions_inv ys c1" using created session_created(3) by simp_all
    moreover have "x \<notin> set ys" "x < MAX_SESSIONS" using xs(1) created(1) by (simp_all add: sessions_inv_def)
    moreover have "finite inuse" using xs(3) finite_subset by blast
    ultimately show ?thesis unfolding table_inv_def session_created(2) using xs created(1) by (auto intro!: exI [of _ ys])
  qed (use session_created(3) in simp_all)
next
  case (session_refused p c status c1 inuse lost)
  obtain xs where xs: "sessions_inv xs c" "inuse \<inter> set xs = {}" "inuse \<subseteq> {..<MAX_SESSIONS}" "card inuse + lost + length xs = MAX_SESSIONS"
    using assms(2) session_refused(1) by (auto simp: table_inv_def)
  from xs(1) show ?thesis
  proof (cases rule: create_cases [where ssl = ssl and p = p, case_names empty refused created])
    case empty
    then show ?thesis unfolding table_inv_def session_refused(2) using xs session_refused(3) by auto
  next
    case (refused x ys)
    then show ?thesis unfolding table_inv_def session_refused(2) using xs session_refused(3) by (auto intro!: exI [of _ ys])
  qed (use session_refused(3) in simp_all)
next
  case (session_destroyed i inuse c r c1 lost)
  obtain xs where xs: "sessions_inv xs c" "inuse \<inter> set xs = {}" "inuse \<subseteq> {..<MAX_SESSIONS}" "card inuse + lost + length xs = MAX_SESSIONS"
    using assms(2) session_destroyed(1) by (auto simp: table_inv_def)
  have i: "i < MAX_SESSIONS" "i \<notin> set xs" "c1 = snd (odp_crypto_session_destroy ssl i c)" using xs session_destroyed(3,4) by auto
  have "finite inuse" using xs(3) finite_subset by blast
  then have "card (inuse - {i}) + 1 = card inuse" using session_destroyed(3) by (metis card_Suc_Diff1 Suc_eq_plus1)
  then show ?thesis unfolding table_inv_def session_destroyed(2)
    using xs destroy_inv [OF xs(1) i(1,2), of ssl] i(3) by (auto intro!: exI [of _ "i # xs"])
qed

lemma table_inv_init:
  assumes "odp_crypto_init_global ssl True c = Inr (r, c1)"
  shows "table_inv ({}, 0, c1)"
  using odp_crypto_init_global_inv(2) [OF assms] unfolding table_inv_def by (auto intro!: exI [of _ "rev [0..<MAX_SESSIONS]"])

text \<open>
  From the start, whatever sequence of sessions clients create and destroy: a session that is created is one of the table that no client
  holds; creation fails for lack of sessions only when every session is held or lost; and the count at termination is the number of sessions
  that are neither held nor lost, so it finds all of them exactly when every session was destroyed and no creation was refused.
\<close>

theorem odp_crypto_session_table:
  assumes "odp_crypto_init_global ssl True c0 = Inr (r, c1)" and "(session_step ssl)\<^sup>*\<^sup>* ({}, 0, c1) (inuse, lost, c)"
  shows "\<And>p i status c2. odp_crypto_session_create ssl p c = ((0, Some i, status), c2) \<Longrightarrow> i < MAX_SESSIONS \<and> i \<notin> inuse"
    and "\<And>p. snd (snd (fst (odp_crypto_session_create ssl p c))) = ODP_CRYPTO_SES_CREATE_ERR_ENOMEM \<longleftrightarrow> card inuse + lost = MAX_SESSIONS"
    and "count_free (cr_sessions c) (cr_free c) 0 = Some (MAX_SESSIONS - card inuse - lost)"
    and "count_free (cr_sessions c) (cr_free c) 0 = Some MAX_SESSIONS \<longleftrightarrow> inuse = {} \<and> lost = 0"
proof -
  have "table_inv (inuse, lost, c)"
    using assms(2) by (induction rule: rtranclp_induct) (use table_inv_init [OF assms(1)] session_step_inv in blast)+
  then obtain xs where xs: "sessions_inv xs c" "inuse \<inter> set xs = {}" "inuse \<subseteq> {..<MAX_SESSIONS}" "card inuse + lost + length xs = MAX_SESSIONS"
    by (auto simp: table_inv_def)
  have fin: "finite inuse" using xs(3) finite_subset by blast
  show "i < MAX_SESSIONS \<and> i \<notin> inuse" if "odp_crypto_session_create ssl p c = ((0, Some i, status), c2)" for p i status c2
    using xs(1) by (cases rule: create_cases [where ssl = ssl and p = p]) (use that xs in \<open>auto simp: sessions_inv_def\<close>)
  show "snd (snd (fst (odp_crypto_session_create ssl p c))) = ODP_CRYPTO_SES_CREATE_ERR_ENOMEM \<longleftrightarrow> card inuse + lost = MAX_SESSIONS" for p
    using xs(1) by (cases rule: create_cases [where ssl = ssl and p = p]) (use xs(4) in auto)
  have n: "count_free (cr_sessions c) (cr_free c) 0 = Some (length xs)" using count_free_chain [of "cr_sessions c" "cr_free c" xs 0] xs(1) by (simp add: sessions_inv_def)
  then show "count_free (cr_sessions c) (cr_free c) 0 = Some (MAX_SESSIONS - card inuse - lost)" using xs(4) by simp
  show "count_free (cr_sessions c) (cr_free c) 0 = Some MAX_SESSIONS \<longleftrightarrow> inuse = {} \<and> lost = 0" unfolding n using xs(4) fin by auto
qed

section \<open>Encoding and decoding a packet\<close>

text \<open>
  The layout a pair of operations needs, in the parameters of the session and of the operation: whole blocks to cipher, an initialization
  vector that the operation does not overwrite, a code that is not in what it authenticates unless it is 0 there, and that encryption
  does not touch when it comes first.
\<close>

definition iv_of :: "crypto_session_params \<Rightarrow> crypto_op_params \<Rightarrow> addr" where
  "iv_of sp p = (if op_override_iv_ptr p \<noteq> NULL then op_override_iv_ptr p else sp_iv sp)"

definition crypto_layout :: "crypto_session_params \<Rightarrow> crypto_op_params \<Rightarrow> addr \<Rightarrow> memory \<Rightarrow> bool" where
  "crypto_layout sp p data m \<longleftrightarrow>
    (sp_cipher_alg sp \<noteq> ODP_CIPHER_ALG_NULL \<longrightarrow>
      8 dvd cipher_len p \<and> iv_of sp p \<noteq> NULL \<and> apart (cipher_at p data) (cipher_len p) (iv_of sp p) 8) \<and>
    (sp_auth_alg sp \<noteq> ODP_AUTH_ALG_NULL \<longrightarrow>
      apart (icv_at p data) 12 (auth_at p data) (auth_len p) \<or> load_bytes m (icv_at p data) 12 = replicate 12 0) \<and>
    (sp_cipher_alg sp \<noteq> ODP_CIPHER_ALG_NULL \<and> sp_auth_alg sp \<noteq> ODP_AUTH_ALG_NULL \<longrightarrow> apart (icv_at p data) 12 (iv_of sp p) 8 \<and>
      (sp_auth_cipher_text sp \<longrightarrow> apart (icv_at p data) 12 (cipher_at p data) (cipher_len p)))"

definition code_cleared :: "crypto_session_params \<Rightarrow> crypto_op_params \<Rightarrow> addr \<Rightarrow> memory \<Rightarrow> memory" where
  "code_cleared sp p data m = (if sp_auth_alg sp \<noteq> ODP_AUTH_ALG_NULL then store_bytes m (icv_at p data) (replicate 12 0) else m)"

lemmas new_session_defs = new_session_def Let_def process_des_params_def process_md5_params_def

lemma new_session_fields [simp]:
  "cs_compl_queue (new_session ssl m sp s) = sp_compl_queue sp" "cs_output_pool (new_session ssl m sp s) = sp_output_pool sp"
  "cs_iv_data (new_session ssl m sp s) = sp_iv sp"
  by (simp_all add: new_session_defs)

lemma new_session_funcs:
  assumes "sp_op sp = ODP_CRYPTO_OP_ENCODE" "\<not> cipher_refused sp"
  shows "cs_cipher_func (new_session ssl m sp s) = Des_Encrypt \<longleftrightarrow> sp_cipher_alg sp \<noteq> ODP_CIPHER_ALG_NULL"
    and "cs_auth_func (new_session ssl m sp s) = Md5_Gen \<longleftrightarrow> sp_auth_alg sp \<noteq> ODP_AUTH_ALG_NULL"
    and "cs_do_cipher_first (new_session ssl m sp s) = sp_auth_cipher_text sp"
  using assms by (auto simp: new_session_defs cipher_refused_def)

lemma new_sessions_matching:
  assumes "sp_op sp = ODP_CRYPTO_OP_ENCODE" "\<not> cipher_refused sp"
  shows "matching (new_session ssl m sp s) (new_session ssl m (sp\<lparr>sp_op := ODP_CRYPTO_OP_DECODE\<rparr>) t)"
  using assms by (auto simp: matching_def new_session_defs cipher_refused_def)

lemma iv_ptr_new [simp]: "iv_ptr (p\<lparr>op_session := k\<rparr>) (new_session ssl m sp s) = iv_of sp p"
  by (simp add: iv_ptr_def iv_of_def)

lemma crypto_layout_ok:
  assumes "sp_op sp = ODP_CRYPTO_OP_ENCODE" "\<not> cipher_refused sp" "crypto_layout sp p data m"
  shows "layout_ok (new_session ssl m' sp s) (p\<lparr>op_session := k\<rparr>) data m"
    and "cleared (new_session ssl m' sp s) (p\<lparr>op_session := k\<rparr>) data m = code_cleared sp p data m"
  using assms
  by (simp_all add: layout_ok_def crypto_layout_def new_session_funcs cleared_def code_cleared_def cipher_at_def icv_at_def auth_at_def)

definition good_result :: "crypto_op_params \<Rightarrow> crypto_op_result" where
  "good_result p = local_result p ODP_CRYPTO_ALG_ERR_NONE ODP_CRYPTO_ALG_ERR_NONE"

text \<open>An operation in place, without a completion queue, that finds no error.\<close>

lemma operation_in_place:
  assumes "op_out_pkt p = op_pkt p" "op_pkt p \<noteq> ODP_PACKET_INVALID" "cs_compl_queue (cr_sessions c ! op_session p) = ODP_QUEUE_INVALID"
    and "run_algorithms ssl p (cr_sessions c ! op_session p) (base (cr_sys c)) = Inr (ODP_CRYPTO_ALG_ERR_NONE, ODP_CRYPTO_ALG_ERR_NONE, st)"
  shows "odp_crypto_operation ssl dev tid True p c = Some (Inr ((0, Some False, Some (good_result p), p), c\<lparr>cr_sys := (cr_sys c)\<lparr>base := st\<rparr>\<rparr>))"
  using assms by (simp add: odp_crypto_operation_def resolve_output_def good_result_def Let_def)

text \<open>
  C30: Two sessions made from the same parameters, one to encode and one to decode, take different entries of the table, and decoding undoes
  encoding: for a packet that is processed in place, both operations return the result at once, without an error, and after both all of
  memory, the bytes of the packet included, is as before, except that the place of the authentication code is cleared. It holds for
  every choice of cipher and authentication and for both orders of the two, for every implementation of the algorithms by OpenSSL
  in which decryption undoes encryption.
\<close>

theorem odp_crypto_roundtrip:
  fixes ssl :: "'ks openssl"
  assumes "ssl_ok ssl" and "sessions_inv free c" "2 \<le> length free"
    and sp: "sp_op sp = ODP_CRYPTO_OP_ENCODE" "\<not> cipher_refused sp" "sp_compl_queue sp = ODP_QUEUE_INVALID"
    and p: "op_pkt p = pkt" "op_out_pkt p = pkt" "pkt \<noteq> ODP_PACKET_INVALID"
    and data: "odp_packet_data (base (cr_sys c)) pkt = Inr data" "data \<noteq> NULL"
    and lay: "crypto_layout sp p data (mem (heap (base (cr_sys c))))"
  shows "\<exists>i j c1 c2 c3 c4. odp_crypto_session_create ssl sp c = ((0, Some i, ODP_CRYPTO_SES_CREATE_ERR_NONE), c1) \<and>
    odp_crypto_session_create ssl (sp\<lparr>sp_op := ODP_CRYPTO_OP_DECODE\<rparr>) c1 = ((0, Some j, ODP_CRYPTO_SES_CREATE_ERR_NONE), c2) \<and> i \<noteq> j \<and>
    odp_crypto_operation ssl dev tid True (p\<lparr>op_session := i\<rparr>) c2 = Some (Inr ((0, Some False, Some (good_result p), p\<lparr>op_session := i\<rparr>), c3)) \<and>
    odp_crypto_operation ssl dev tid True (p\<lparr>op_session := j\<rparr>) c3 = Some (Inr ((0, Some False, Some (good_result p), p\<lparr>op_session := j\<rparr>), c4)) \<and>
    cr_sys c4 = (cr_sys c)\<lparr>base := put_mem (code_cleared sp p data (mem (heap (base (cr_sys c))))) (base (cr_sys c))\<rparr>"
proof -
  obtain i j xs where free: "free = i # j # xs" using assms(3) by (cases free; cases "tl free") auto
  have inv: "sessions_inv (i # j # xs) c" using assms(2) free by simp
  let ?st = "base (cr_sys c)" let ?m = "mem (heap ?st)" let ?dp = "sp\<lparr>sp_op := ODP_CRYPTO_OP_DECODE\<rparr>"
  define c1 where "c1 = snd (odp_crypto_session_create ssl sp c)"
  define c2 where "c2 = snd (odp_crypto_session_create ssl ?dp c1)"
  have 1: "odp_crypto_session_create ssl sp c = ((0, Some i, ODP_CRYPTO_SES_CREATE_ERR_NONE), c1)" "sessions_inv (j # xs) c1"
    "cr_sys c1 = cr_sys c" "cr_sessions c1 = (cr_sessions c)[i := new_session ssl ?m sp (cr_sessions c ! i)]"
    unfolding c1_def using create_ok [OF inv sp(2), of ssl] by simp_all
  have "\<not> cipher_refused ?dp" using sp(2) by (simp add: cipher_refused_def)
  then have 2: "odp_crypto_session_create ssl ?dp c1 = ((0, Some j, ODP_CRYPTO_SES_CREATE_ERR_NONE), c2)" "cr_sys c2 = cr_sys c"
    "cr_sessions c2 = (cr_sessions c1)[j := new_session ssl ?m ?dp (cr_sessions c1 ! j)]"
    unfolding c2_def using create_ok [OF 1(2), of ?dp ssl] 1(3) by simp_all
  have ij: "i \<noteq> j" "i < length (cr_sessions c)" "j < length (cr_sessions c)" using inv by (auto simp: sessions_inv_def)
  define e where "e = new_session ssl ?m sp (cr_sessions c ! i)"
  define d where "d = new_session ssl ?m ?dp (cr_sessions c1 ! j)"
  have ed: "cr_sessions c2 ! i = e" "cr_sessions c2 ! j = d" using 1(4) 2(3) ij by (simp_all add: e_def d_def)
  have mt: "matching e d" unfolding e_def d_def by (rule new_sessions_matching [OF sp(1,2)])
  have lo: "layout_ok e (p\<lparr>op_session := i\<rparr>) data ?m" "cleared e (p\<lparr>op_session := i\<rparr>) data ?m = code_cleared sp p data ?m"
    unfolding e_def by (rule crypto_layout_ok [OF sp(1,2) lay])+
  have "odp_packet_data ?st (op_out_pkt (p\<lparr>op_session := i\<rparr>)) = Inr data" using data(1) p(2) by simp
  then obtain m where m: "run_algorithms ssl (p\<lparr>op_session := i\<rparr>) e ?st = Inr (ODP_CRYPTO_ALG_ERR_NONE, ODP_CRYPTO_ALG_ERR_NONE, put_mem m ?st)"
    "\<And>k. run_algorithms ssl ((p\<lparr>op_session := i\<rparr>)\<lparr>op_session := k\<rparr>) d (put_mem m ?st) =
      Inr (ODP_CRYPTO_ALG_ERR_NONE, ODP_CRYPTO_ALG_ERR_NONE, put_mem (code_cleared sp p data ?m) ?st)"
    using run_algorithms_roundtrip [OF assms(1) mt lo(1) _ data(2)] unfolding lo(2) by blast
  have q: "cs_compl_queue e = ODP_QUEUE_INVALID" "cs_compl_queue d = ODP_QUEUE_INVALID" using sp(3) by (simp_all add: e_def d_def)
  have g: "good_result (p\<lparr>op_session := k\<rparr>) = good_result p" for k by (simp add: good_result_def local_result_def)
  let ?c3 = "c2\<lparr>cr_sys := (cr_sys c2)\<lparr>base := put_mem m ?st\<rparr>\<rparr>"
  have "odp_crypto_operation ssl dev tid True (p\<lparr>op_session := i\<rparr>) c2 = Some (Inr ((0, Some False, Some (good_result p), p\<lparr>op_session := i\<rparr>), ?c3))"
    using operation_in_place [of "p\<lparr>op_session := i\<rparr>" c2 ssl _ dev tid] p q(1) m(1) ed(1) 2(2) g by simp
  moreover have "odp_crypto_operation ssl dev tid True (p\<lparr>op_session := j\<rparr>) ?c3 = Some (Inr ((0, Some False, Some (good_result p), p\<lparr>op_session := j\<rparr>),
      ?c3\<lparr>cr_sys := (cr_sys ?c3)\<lparr>base := put_mem (code_cleared sp p data ?m) ?st\<rparr>\<rparr>))"
    using operation_in_place [of "p\<lparr>op_session := j\<rparr>" ?c3 ssl _ dev tid] p q(2) m(2) [of j] ed(2) g by simp
  ultimately show ?thesis using 1(1) 2(1,2) ij(1) by fastforce
qed

section \<open>A concrete operation\<close>

text \<open>A cipher that adds the key to each byte, and a code that is a sum; a packet at address 4160 with its code behind the data.\<close>

definition sum_ssl :: "u8 openssl" where
  "sum_ssl = \<lparr>ssl_zero_key = 0, DES_set_key = (\<lambda>k. fold (+) k 1),
     DES_ede3_cbc_encrypt = (\<lambda>d k1 k2 k3 iv e. map (\<lambda>b. if e then b + k1 else b - k1) d),
     HMAC_md5 = (\<lambda>key d. replicate 16 (fold (+) (key @ d) 0))\<rparr>"

lemma sum_ssl_ok: "ssl_ok sum_ssl"
  by (simp add: ssl_ok_def sum_ssl_def comp_def)

definition demo_sp :: crypto_session_params where
  "demo_sp = \<lparr>sp_op = ODP_CRYPTO_OP_ENCODE, sp_auth_cipher_text = True, sp_pref_mode = ODP_CRYPTO_SYNC, sp_cipher_alg = ODP_CIPHER_ALG_3DES_CBC,
     sp_cipher_key = 9000, sp_cipher_key_len = 24, sp_iv = 9100, sp_iv_len = 8, sp_auth_alg = ODP_AUTH_ALG_MD5_96, sp_auth_key = 9200,
     sp_auth_key_len = 16, sp_compl_queue = ODP_QUEUE_INVALID, sp_output_pool = ODP_POOL_INVALID\<rparr>"

definition demo_op :: crypto_op_params where
  "demo_op = \<lparr>op_session = 0, op_ctx = NULL, op_pkt = 8, op_out_pkt = 8, op_override_iv_ptr = NULL, op_hash_result_offset = 48,
     op_cipher_offset = 8, op_cipher_length = 40, op_auth_offset = 0, op_auth_length = 48\<rparr>"

definition demo_crypto :: "u8 crypto_sys" where
  "demo_crypto = \<lparr>cr_sys = demo_sys\<lparr>base := (base demo_sys)\<lparr>heap := (heap (base demo_sys))\<lparr>hdrs := (\<lambda>a.
       let h = demo_sched_hdr a in h\<lparr>frame_len := 64, buf_hdr := (buf_hdr h)\<lparr>bh_segcount := 1, bh_segsize := 256\<rparr>\<rparr>)\<rparr>\<rparr>\<rparr>,
     cr_sessions = [], cr_free = None, cr_magic = (\<lambda>_. 0), cr_result = (\<lambda>_. good_result demo_op)\<rparr>"

lemma demo_crypto_data: "odp_packet_data (base (cr_sys demo_crypto)) 8 = Inr 4160"
  by code_simp

lemma demo_crypto_layout: "crypto_layout demo_sp demo_op 4160 m"
  by (simp add: crypto_layout_def demo_sp_def demo_op_def iv_of_def cipher_at_def icv_at_def auth_at_def apart_def)

theorem odp_crypto_roundtrip_witness:
  "\<exists>c i j c1 c2 c3 c4. odp_crypto_init_global sum_ssl True demo_crypto = Inr (0, c) \<and>
    odp_crypto_session_create sum_ssl demo_sp c = ((0, Some i, ODP_CRYPTO_SES_CREATE_ERR_NONE), c1) \<and>
    odp_crypto_session_create sum_ssl (demo_sp\<lparr>sp_op := ODP_CRYPTO_OP_DECODE\<rparr>) c1 = ((0, Some j, ODP_CRYPTO_SES_CREATE_ERR_NONE), c2) \<and> i \<noteq> j \<and>
    odp_crypto_operation sum_ssl demo_dev 1 True (demo_op\<lparr>op_session := i\<rparr>) c2 =
      Some (Inr ((0, Some False, Some (good_result demo_op), demo_op\<lparr>op_session := i\<rparr>), c3)) \<and>
    odp_crypto_operation sum_ssl demo_dev 1 True (demo_op\<lparr>op_session := j\<rparr>) c3 =
      Some (Inr ((0, Some False, Some (good_result demo_op), demo_op\<lparr>op_session := j\<rparr>), c4)) \<and>
    mem (heap (base (cr_sys c4))) = (\<lambda>_. 0)"
proof -
  obtain c where c: "odp_crypto_init_global sum_ssl True demo_crypto = Inr (0, c)" by (simp add: odp_crypto_init_global_def)
  note i = odp_crypto_init_global_inv(2,3) [OF c]
  have len: "2 \<le> length (rev [0..<MAX_SESSIONS])" by (simp add: MAX_SESSIONS_def)
  have sp: "sp_op demo_sp = ODP_CRYPTO_OP_ENCODE" "\<not> cipher_refused demo_sp" "sp_compl_queue demo_sp = ODP_QUEUE_INVALID"
    by (simp_all add: demo_sp_def cipher_refused_def)
  have op: "op_pkt demo_op = 8" "op_out_pkt demo_op = 8" "(8 :: u32) \<noteq> ODP_PACKET_INVALID" by (simp_all add: demo_op_def ODP_PACKET_INVALID_def)
  have data: "odp_packet_data (base (cr_sys c)) 8 = Inr 4160" "(4160 :: addr) \<noteq> NULL" using demo_crypto_data i(2) by simp_all
  have m: "mem (heap (base (cr_sys c))) = (\<lambda>_. 0)" using i(2) by (simp add: demo_crypto_def demo_sys_def)
  have "code_cleared demo_sp demo_op 4160 (\<lambda>_. 0) = (\<lambda>_. 0)" by (rule ext) (auto simp: code_cleared_def store_bytes_def)
  then show ?thesis using odp_crypto_roundtrip [OF sum_ssl_ok i(1) len sp op data demo_crypto_layout, of demo_dev 1] c m by fastforce
qed

end
