(* ===== verification/Odp_Init.thy ===== *)
theory Odp_Init
  imports Odp_Pktio Odp_Timer Odp_Thread Odp_Shm Odp_Crypto
begin

text \<open>
  Start and termination of an instance (\<open>odp_init.c\<close>): the components of the library in the order the code starts and ends them, with the blocks
  of shared memory they reserve and release, for the process (\<open>odp_init_global\<close>, \<open>odp_term_global\<close>) and for each thread (\<open>odp_init_local\<close>,
  \<open>odp_term_local\<close>).
\<close>

section \<open>The instance\<close>

text \<open>
  The state of all components. The timer and crypto states contain a system of their own, which is set from \<open>in_sys\<close> when they are
  used. \<open>in_sched_shm\<close> is the handle the scheduler keeps of its block. The functions to log and to abort are given by their addresses.
\<close>

record ('os, 'ks) odp_instance =
  in_log_fn :: addr
  in_abort_fn :: addr
  in_shm :: "'os shm_sys"
  in_threads :: thread_sys
  in_sys :: odp_sys
  in_sched_shm :: u32
  in_timers :: timer_sys
  in_crypto :: "'ks crypto_sys"

text \<open>
  What the start depends on: the operating system, the page sizes, the size and alignment of every block of shared memory by its name, the sizes of
  buffer headers and of a command of the scheduler, where the table of blocks was mapped and how long it is, and the default
  functions to log and to abort.
\<close>

record 'os init_env =
  e_os :: "'os shm_os"
  e_page_sz :: u64
  e_huge_sz :: u64
  e_blk :: "string \<Rightarrow> u64 \<times> u64"
  e_abi :: odp_abi
  e_cmd_size :: u32
  e_tbl_addr :: "u64 option"
  e_tbl_size :: u64
  e_override_log :: addr
  e_override_abort :: addr

type_synonym ('os, 'ks) init_result = "(c_error + (int \<times> ('os, 'ks) odp_instance)) option"

definition env_reserve :: "'os init_env \<Rightarrow> string \<Rightarrow> u64 \<Rightarrow> u64 \<Rightarrow> 'os shm_sys \<Rightarrow> c_error + (u32 \<times> 'os shm_sys)" where
  "env_reserve env name sz align = odp_shm_reserve (e_os env) (e_page_sz env) (e_huge_sz env) name sz align 0"

text \<open>A component reserves its block and goes on with the handle and the address.\<close>

definition with_block ::
  "'os init_env \<Rightarrow> string \<Rightarrow> (u32 \<Rightarrow> u64 \<Rightarrow> ('os, 'ks) odp_instance \<Rightarrow> ('os, 'ks) init_result) \<Rightarrow> ('os, 'ks) odp_instance \<Rightarrow> ('os, 'ks) init_result" where
  "with_block env name f inst =
    (case env_reserve env name (fst (e_blk env name)) (snd (e_blk env name)) (in_shm inst) of
       Inl e \<Rightarrow> Some (Inl e) | Inr (shm, s) \<Rightarrow> f shm (odp_shm_addr shm s) (inst\<lparr>in_shm := s\<rparr>))"

section \<open>Start of the components\<close>

definition init_shm :: "'os init_env \<Rightarrow> ('os, 'ks) odp_instance \<Rightarrow> ('os, 'ks) init_result" where
  "init_shm env inst = (let (r, s) = odp_shm_init_global (e_tbl_addr env) (in_shm inst) in Some (Inr (r, inst\<lparr>in_shm := s\<rparr>)))"

definition init_threads :: "'os init_env \<Rightarrow> ('os, 'ks) odp_instance \<Rightarrow> ('os, 'ks) init_result" where
  "init_threads env = with_block env ''odp_thread_globals'' (\<lambda>shm a inst.
     let (r, t) = odp_thread_init_global (a \<noteq> 0) (in_threads inst) in Some (Inr (r, inst\<lparr>in_threads := t\<rparr>)))"

definition init_pools :: "'os init_env \<Rightarrow> ('os, 'ks) odp_instance \<Rightarrow> ('os, 'ks) init_result" where
  "init_pools env = with_block env ''odp_buffer_pools'' (\<lambda>shm a inst.
     let (r, st) = odp_pool_init_global (int (unat a)) (base (in_sys inst)) in Some (Inr (r, inst\<lparr>in_sys := (in_sys inst)\<lparr>base := st\<rparr>\<rparr>)))"

definition init_queues :: "'os init_env \<Rightarrow> ('os, 'ks) odp_instance \<Rightarrow> ('os, 'ks) init_result" where
  "init_queues env = with_block env ''odp_queues'' (\<lambda>shm a inst.
     let (r, sys) = odp_queue_init_global (a \<noteq> 0) (in_sys inst) in Some (Inr (r, inst\<lparr>in_sys := sys\<rparr>)))"

text \<open>
  The scheduler also creates a pool, which reserves a block of its own. \<open>pool_block\<close> is the name and the size of that block when the creation gets to
  the reservation, \<open>pool_reserve\<close> what the reservation returns.
\<close>

definition pool_block :: "odp_abi \<Rightarrow> string option \<Rightarrow> odp_pool_param option \<Rightarrow> odp_state \<Rightarrow> (string \<times> u64) option" where
  "pool_block abi name params0 st =
    (case params0 of
       None \<Rightarrow> None
     | Some p \<Rightarrow>
         (case pool_create_geometry abi (default_params p) of
            Inr (Some g) \<Rightarrow> map_option (\<lambda>i. let claimed = create_claim name (default_params p) g (pool_tbl st ! i) in (pl_name claimed, pl_pool_size claimed)) (free_slot st)
          | _ \<Rightarrow> None))"

definition pool_reserve :: "'os init_env \<Rightarrow> 'os shm_sys \<Rightarrow> string \<Rightarrow> u64 \<Rightarrow> u32 \<times> addr" where
  "pool_reserve env s name sz =
    (case env_reserve env name sz ODP_PAGE_SIZE s of Inl e \<Rightarrow> (ODP_SHM_INVALID, NULL) | Inr (shm, s1) \<Rightarrow> (shm, int (unat (odp_shm_addr shm s1))))"

definition sched_pool_param :: "'os init_env \<Rightarrow> odp_pool_param" where
  "sched_pool_param env = \<lparr>pp_type = ODP_POOL_BUFFER, pp_num = of_nat NUM_SCHED_CMD, pp_size_len = e_cmd_size env, pp_align_seg_len = 0, pp_uarea_size = 0\<rparr>"

definition init_schedule :: "'os init_env \<Rightarrow> nat \<Rightarrow> ('os, 'ks) odp_instance \<Rightarrow> ('os, 'ks) init_result" where
  "init_schedule env tid = with_block env ''odp_scheduler'' (\<lambda>shm a inst.
     let s = in_shm inst;
         s1 = (if a = 0 then s
               else case pool_block (e_abi env) (Some ''odp_sched_pool'') (Some (sched_pool_param env)) (base (in_sys inst)) of
                 None \<Rightarrow> s
               | Some (name, sz) \<Rightarrow> (case env_reserve env name sz ODP_PAGE_SIZE s of Inl e \<Rightarrow> s | Inr (_, s1) \<Rightarrow> s1))
     in run_then (odp_schedule_init_global (e_abi env) (pool_reserve env s) (a \<noteq> 0) (e_cmd_size env) tid (in_sys inst)) (\<lambda>(r, sys).
          Some (Inr (r, inst\<lparr>in_shm := s1, in_sys := sys, in_sched_shm := shm\<rparr>))))"

definition init_pktio :: "'os init_env \<Rightarrow> nat \<Rightarrow> ('os, 'ks) odp_instance \<Rightarrow> ('os, 'ks) init_result" where
  "init_pktio env tid = with_block env ''odp_pktio_entries'' (\<lambda>shm a inst.
     Some (and_then (odp_pktio_init_global (a \<noteq> 0) tid (in_sys inst)) (\<lambda>(r, sys). Inr (r, inst\<lparr>in_sys := sys\<rparr>))))"

definition init_timers :: "('os, 'ks) odp_instance \<Rightarrow> ('os, 'ks) init_result" where
  "init_timers inst = (let (r, ts) = odp_timer_init_global ((in_timers inst)\<lparr>ts_sys := in_sys inst\<rparr>) in Some (Inr (r, inst\<lparr>in_timers := ts, in_sys := ts_sys ts\<rparr>)))"

definition init_crypto :: "'os init_env \<Rightarrow> 'ks openssl \<Rightarrow> ('os, 'ks) odp_instance \<Rightarrow> ('os, 'ks) init_result" where
  "init_crypto env ssl = with_block env ''crypto_pool'' (\<lambda>shm a inst.
     Some (and_then (odp_crypto_init_global ssl (a \<noteq> 0) ((in_crypto inst)\<lparr>cr_sys := in_sys inst\<rparr>)) (\<lambda>(r, c).
       Inr (r, inst\<lparr>in_crypto := c, in_sys := cr_sys c\<rparr>))))"

text \<open>The three tables of the classifier. A failure releases the blocks that were reserved before it.\<close>

definition zero_cos :: cos_t where
  "zero_cos = \<lparr>cos_queue = None, cos_pmr = None, cos_linked_cos = None, cos_valid = False, cos_drop_policy = ODP_COS_DROP_POOL, cos_flow_set = 0,
    cos_name = [], cos_headroom = 0\<rparr>"

definition zero_pmr :: "nat \<Rightarrow> pmr_t" where
  "zero_pmr n = \<lparr>pmr_valid = False, pmr_count = 0, pmr_num = 0, pmr_terms = replicate n \<lparr>pt_term = ODP_PMR_LEN, pt_val = 0, pt_mask = 0\<rparr>\<rparr>"

definition release :: "'os init_env \<Rightarrow> u32 list \<Rightarrow> ('os, 'ks) odp_instance \<Rightarrow> ('os, 'ks) odp_instance" where
  "release env shms inst = inst\<lparr>in_shm := fold (\<lambda>shm s. snd (odp_shm_free (e_os env) shm s)) shms (in_shm inst)\<rparr>"

definition cls_block ::
  "'os init_env \<Rightarrow> string \<Rightarrow> u32 list \<Rightarrow> (cls_tbls \<Rightarrow> cls_tbls) \<Rightarrow> (u32 \<Rightarrow> ('os, 'ks) odp_instance \<Rightarrow> ('os, 'ks) init_result) \<Rightarrow>
    ('os, 'ks) odp_instance \<Rightarrow> ('os, 'ks) init_result" where
  "cls_block env name before tbl next_blk = with_block env name (\<lambda>shm a inst.
     if shm = ODP_SHM_INVALID then Some (Inr (-1, release env before inst))
     else if a = 0 then Some (Inr (-1, release env (shm # before) inst))
     else next_blk shm (inst\<lparr>in_sys := (in_sys inst)\<lparr>cls := tbl (cls (in_sys inst))\<rparr>\<rparr>))"

definition odp_classification_init_global :: "'os init_env \<Rightarrow> ('os, 'ks) odp_instance \<Rightarrow> ('os, 'ks) init_result" where
  "odp_classification_init_global env =
    cls_block env ''shm_odp_cos_tbl'' [] (\<lambda>t. t\<lparr>cos_tbl := replicate ODP_COS_MAX_ENTRY zero_cos\<rparr>) (\<lambda>cos_shm.
    cls_block env ''shm_odp_pmr_tbl'' [cos_shm] (\<lambda>t. t\<lparr>pmr_tbl := replicate ODP_PMR_MAX_ENTRY (zero_pmr 1)\<rparr>) (\<lambda>pmr_shm.
    cls_block env ''shm_odp_pmr_set_tbl'' [pmr_shm, cos_shm] (\<lambda>t. t\<lparr>pmr_set_tbl := replicate ODP_PMRSET_MAX_ENTRY (zero_pmr ODP_PMRTERM_MAX)\<rparr>)
      (\<lambda>_ inst. Some (Inr (0, inst)))))"

section \<open>Start and termination of the process\<close>

text \<open>A failure of a component ends the start; what was started before stays.\<close>

definition then_init :: "('os, 'ks) init_result \<Rightarrow> (('os, 'ks) odp_instance \<Rightarrow> ('os, 'ks) init_result) \<Rightarrow> ('os, 'ks) init_result" where
  "then_init r f = run_then r (\<lambda>(ret, inst). if ret \<noteq> 0 then Some (Inr (-1, inst)) else f inst)"

text \<open>\<open>params\<close>: the functions the application gives, \<open>NULL\<close> for none.\<close>

definition set_functions :: "'os init_env \<Rightarrow> (addr \<times> addr) option \<Rightarrow> ('os, 'ks) odp_instance \<Rightarrow> ('os, 'ks) odp_instance" where
  "set_functions env params inst =
    (let i1 = inst\<lparr>in_log_fn := e_override_log env, in_abort_fn := e_override_abort env\<rparr>
     in case params of
          None \<Rightarrow> i1
        | Some (log_fn, abort_fn) \<Rightarrow>
            let i2 = (if log_fn \<noteq> NULL then i1\<lparr>in_log_fn := log_fn\<rparr> else i1)
            in if abort_fn \<noteq> NULL then i2\<lparr>in_abort_fn := abort_fn\<rparr> else i2)"

definition odp_init_global :: "'os init_env \<Rightarrow> 'ks openssl \<Rightarrow> nat \<Rightarrow> (addr \<times> addr) option \<Rightarrow> ('os, 'ks) odp_instance \<Rightarrow> ('os, 'ks) init_result" where
  "odp_init_global env ssl tid params inst =
    then_init (init_shm env (set_functions env params inst)) (\<lambda>i1.
    then_init (init_threads env i1) (\<lambda>i2.
    then_init (init_pools env i2) (\<lambda>i3.
    then_init (init_queues env i3) (\<lambda>i4.
    then_init (init_schedule env tid i4) (\<lambda>i5.
    then_init (init_pktio env tid i5) (\<lambda>i6.
    then_init (init_timers i6) (\<lambda>i7.
    then_init (init_crypto env ssl i7) (\<lambda>i8.
    then_init (odp_classification_init_global env i8) (\<lambda>i9. Some (Inr (0, i9)))))))))))"

text \<open>Termination goes through all components whatever they return. \<open>done_rc\<close> adds what one of them returned to the result.\<close>

definition done_rc :: "int \<Rightarrow> int \<Rightarrow> int" where
  "done_rc rc ret = (if ret \<noteq> 0 then -1 else rc)"

definition free_named :: "'os init_env \<Rightarrow> string \<Rightarrow> ('os, 'ks) odp_instance \<Rightarrow> int \<times> ('os, 'ks) odp_instance" where
  "free_named env name inst =
    (let (ret, s) = odp_shm_free (e_os env) (odp_shm_lookup name (in_shm inst)) (in_shm inst) in (ret, inst\<lparr>in_shm := s\<rparr>))"

definition odp_classification_term_global :: "'os init_env \<Rightarrow> ('os, 'ks) odp_instance \<Rightarrow> int \<times> ('os, 'ks) odp_instance" where
  "odp_classification_term_global env inst =
    (let (r1, i1) = free_named env ''shm_odp_cos_tbl'' inst; (r2, i2) = free_named env ''shm_odp_pmr_tbl'' i1;
         (r3, i3) = free_named env ''shm_odp_pmr_set_tbl'' i2
     in (if r1 < 0 \<or> r2 < 0 \<or> r3 < 0 then -1 else 0, i3))"

definition term_crypto :: "'os init_env \<Rightarrow> ('os, 'ks) odp_instance \<Rightarrow> ('os, 'ks) init_result" where
  "term_crypto env inst =
    map_option (\<lambda>(r, s). Inr (r, inst\<lparr>in_shm := s\<rparr>)) (odp_crypto_term_global (e_os env) (in_crypto inst) (in_shm inst))"

definition term_pktio :: "'os init_env \<Rightarrow> nat \<Rightarrow> ('os, 'ks) odp_instance \<Rightarrow> ('os, 'ks) init_result" where
  "term_pktio env tid inst =
    (let (ret, i1) = free_named env ''odp_pktio_entries'' inst
     in Some (and_then (odp_pktio_term_global ret tid (in_sys inst)) (\<lambda>(r, sys). Inr (r, i1\<lparr>in_sys := sys\<rparr>))))"

text \<open>The scheduler destroys its pool, which releases the block of the pool when no command is allocated any more, and then releases its own block.\<close>

definition term_schedule :: "'os init_env \<Rightarrow> sock_dev \<Rightarrow> nat \<Rightarrow> ('os, 'ks) odp_instance \<Rightarrow> ('os, 'ks) init_result" where
  "term_schedule env dev tid inst =
    (let pool = unat (pool_handle_to_index (sc_pool (sched (in_sys inst)))); block = pl_pool_shm (pool_tbl (base (in_sys inst)) ! pool)
     in run_then (odp_schedule_term_global dev tid 0 (in_sys inst)) (\<lambda>(r, sys).
        let s1 = (if pl_pool_shm (pool_tbl (base sys) ! pool) = ODP_SHM_INVALID then snd (odp_shm_free (e_os env) block (in_shm inst)) else in_shm inst);
            (ret, s2) = odp_shm_free (e_os env) (in_sched_shm inst) s1
        in Some (Inr (if ret < 0 then -1 else r, inst\<lparr>in_shm := s2, in_sys := sys\<rparr>))))"

definition term_queues :: "'os init_env \<Rightarrow> ('os, 'ks) odp_instance \<Rightarrow> int \<times> ('os, 'ks) odp_instance" where
  "term_queues env inst = (let (ret, i1) = free_named env ''odp_queues'' inst in (odp_queue_term_global ret (in_sys inst), i1))"

definition term_pools :: "'os init_env \<Rightarrow> ('os, 'ks) odp_instance \<Rightarrow> int \<times> ('os, 'ks) odp_instance" where
  "term_pools env inst = (let (ret, i1) = free_named env ''odp_buffer_pools'' inst in (odp_pool_term_global ret (base (in_sys inst)), i1))"

definition term_threads :: "'os init_env \<Rightarrow> ('os, 'ks) odp_instance \<Rightarrow> int \<times> ('os, 'ks) odp_instance" where
  "term_threads env inst = (let (ret, s) = odp_thread_term_global (e_os env) (in_shm inst) in (ret, inst\<lparr>in_shm := s\<rparr>))"

definition term_shm :: "'os init_env \<Rightarrow> ('os, 'ks) odp_instance \<Rightarrow> int \<times> ('os, 'ks) odp_instance" where
  "term_shm env inst =
    (case e_tbl_addr env of
       None \<Rightarrow> (-1, inst)
     | Some a \<Rightarrow> let (ret, s) = odp_shm_term_global (e_os env) a (e_tbl_size env) (in_shm inst) in (ret, inst\<lparr>in_shm := s\<rparr>))"

definition odp_term_global :: "'os init_env \<Rightarrow> sock_dev \<Rightarrow> nat \<Rightarrow> ('os, 'ks) odp_instance \<Rightarrow> ('os, 'ks) init_result" where
  "odp_term_global env dev tid inst =
    (let (r1, i1) = odp_classification_term_global env inst
     in run_then (term_crypto env i1) (\<lambda>(r2, i2).
        run_then (term_pktio env tid i2) (\<lambda>(r3, i3).
        run_then (term_schedule env dev tid i3) (\<lambda>(r4, i4).
          let (r5, i5) = term_queues env i4; (r6, i6) = term_pools env i5; (r7, i7) = term_threads env i6; (r8, i8) = term_shm env i7
          in Some (Inr (foldl done_rc 0 [r1, r2, r3, r4, r5, r6, r7, r8], i8))))))"

section \<open>Start and end of a thread\<close>

definition odp_pktio_init_local :: int where "odp_pktio_init_local = 0"

definition odp_init_local :: "int \<Rightarrow> nat \<Rightarrow> thread_type \<Rightarrow> ('os, 'ks) odp_instance \<Rightarrow> int \<times> ('os, 'ks) odp_instance" where
  "odp_init_local cpu t type inst =
    (if odp_shm_init_local \<noteq> 0 then (-1, inst)
     else let (r1, thr) = odp_thread_init_local cpu t type (in_threads inst); i1 = inst\<lparr>in_threads := thr\<rparr>
     in if r1 \<noteq> 0 then (-1, i1)
        else if odp_pktio_init_local \<noteq> 0 then (-1, i1)
        else let (r2, sys) = odp_schedule_init_local t (in_sys i1); i2 = i1\<lparr>in_sys := sys\<rparr>
        in if r2 \<noteq> 0 then (-1, i2) else (0, i2))"

definition odp_term_local :: "sock_dev \<Rightarrow> nat \<Rightarrow> ('os, 'ks) odp_instance \<Rightarrow> ('os, 'ks) init_result" where
  "odp_term_local dev t inst =
    run_then (Some (odp_schedule_term_local dev t (in_sys inst))) (\<lambda>(r1, sys1).
    run_then (odp_pool_term_local t (base sys1)) (\<lambda>(r2, st).
    run_then (Some (odp_thread_term_local t (in_threads inst))) (\<lambda>(rc_thd, thr).
      let rc = done_rc (done_rc 0 r1) r2
      in Some (Inr (if rc_thd < 0 then -1 else if rc = 0 then rc_thd else rc,
           inst\<lparr>in_sys := sys1\<lparr>base := st\<rparr>, in_threads := thr\<rparr>)))))"

end
