(* ===== verification/Odp_Init_Tables.thy ===== *)
theory Odp_Init_Tables
  imports Odp_Init Odp_Shm_Correct Odp_Crypto_Correct Odp_Pktio_Correct Odp_Thread_Correct Odp_Classification_Correct
begin

text \<open>
  The tables while components start: blocks of shared memory that are only reserved, queues that are only created, the pool of the scheduler
  before the first event, and the invariant of the scheduler for every scheduled queue that is created then.
\<close>

section \<open>Shared memory at the start\<close>

text \<open>The table of blocks while components only reserve: the first entries are used, the others are empty.\<close>

definition shm_has :: "shm_block list \<Rightarrow> 'os shm_sys \<Rightarrow> bool" where
  "shm_has bs s \<longleftrightarrow> shm_tbl s = bs @ replicate (ODP_CONFIG_SHM_BLOCKS - length bs) zero_block \<and> length bs \<le> ODP_CONFIG_SHM_BLOCKS \<and>
    (\<forall>i<length bs. sb_addr (bs ! i) \<noteq> 0 \<and> sb_hdl (bs ! i) = to_handle (of_nat i) \<and> sb_flags (bs ! i) = 0)"

text \<open>The operating system maps memory \<open>k\<close> more times, not at address 0 and in the lower half of the address space.\<close>

fun os_serves :: "'os shm_os \<Rightarrow> nat \<Rightarrow> 'os \<Rightarrow> bool" where
  "os_serves os 0 w = True"
| "os_serves os (Suc k) w = (\<forall>n huge anon fd. unat n < 2 ^ 41 \<longrightarrow>
     (\<exists>a w'. os_mmap os n huge anon fd w = (Some a, w') \<and> a \<noteq> 0 \<and> unat a < 2 ^ 63 \<and> os_serves os k w'))"

lemma roundup_nonzero:
  assumes "a \<noteq> (0 :: u64)" "unat a < 2 ^ 63" "0 < unat align" "unat align < 2 ^ 40"
  shows "ODP_ALIGN_ROUNDUP a align \<noteq> 0"
proof -
  have "unat (ODP_ALIGN_ROUNDUP a align) = round_up (unat a) (unat align)" using assms(2-4) by (intro unat_roundup) auto
  moreover have "unat a \<le> round_up (unat a) (unat align)" using round_up_bounds [OF assms(3), of "unat a"] by simp
  moreover have "0 < unat a" using assms(1) by (simp add: unat_gt_0)
  ultimately show ?thesis by (metis leD unat_0)
qed

lemma shm_has_nth: "shm_has bs s \<Longrightarrow> i < ODP_CONFIG_SHM_BLOCKS \<Longrightarrow> shm_tbl s ! i = (if i < length bs then bs ! i else zero_block)"
  by (auto simp: shm_has_def nth_append)

lemma shm_has_free: "shm_has bs s \<Longrightarrow> length bs < ODP_CONFIG_SHM_BLOCKS \<Longrightarrow> free_block (shm_tbl s) = Some (length bs)"
proof -
  assume has: "shm_has bs s" "length bs < ODP_CONFIG_SHM_BLOCKS"
  have z: "sb_addr (shm_tbl s ! length bs) = 0" using shm_has_nth [OF has] by (simp add: zero_block_def)
  have u: "sb_addr (shm_tbl s ! j) \<noteq> 0" if "j < length bs" for j using shm_has_nth [OF has(1), of j] has that by (auto simp: shm_has_def)
  from find_upt_cases [of "\<lambda>i. sb_addr (shm_tbl s ! i) = 0" ODP_CONFIG_SHM_BLOCKS] show "free_block (shm_tbl s) = Some (length bs)"
    unfolding free_block_def using has(2) z u by (metis linorder_neqE_nat)
qed

lemma shm_has_new: "shm_has bs s \<Longrightarrow> name \<noteq> '''' \<Longrightarrow> name \<notin> sb_name ` set bs \<Longrightarrow> find_block name (shm_tbl s) = None"
  by (auto simp: find_block_None shm_has_nth zero_block_def)

lemma shm_has_put:
  assumes "shm_has bs s" "length bs < ODP_CONFIG_SHM_BLOCKS" "sb_addr b \<noteq> 0" "sb_hdl b = to_handle (of_nat (length bs))" "sb_flags b = 0"
  shows "shm_has (bs @ [b]) (s\<lparr>shm_tbl := (shm_tbl s)[length bs := b], shm_world := w\<rparr>)"
proof -
  obtain n where n: "ODP_CONFIG_SHM_BLOCKS - length bs = Suc n" using assms(2) by (metis Suc_diff_Suc)
  then have "ODP_CONFIG_SHM_BLOCKS - Suc (length bs) = n" by simp
  then show ?thesis using assms n by (auto simp: shm_has_def nth_append less_Suc_eq)
qed

lemma reserve_next:
  assumes has: "shm_has bs s" "length bs < ODP_CONFIG_SHM_BLOCKS" "name \<noteq> ''''" "name \<notin> sb_name ` set bs" "length name < ODP_SHM_NAME_LEN"
    and sz: "unat sz + unat align < 2 ^ 40" "align \<noteq> 0" "unat huge_sz < 2 ^ 40" and os: "os_serves os (Suc k) (shm_world s)"
  obtains b w where "odp_shm_reserve os page_sz huge_sz name sz align 0 s =
      Inr (to_handle (of_nat (length bs)), s\<lparr>shm_tbl := (shm_tbl s)[length bs := b], shm_world := w\<rparr>)"
    "sb_name b = name" "sb_addr b \<noteq> 0" "sb_hdl b = to_handle (of_nat (length bs))" "sb_flags b = 0" "os_serves os k w"
proof -
  let ?n1 = "(sz + align + (huge_sz - 1)) AND (- huge_sz)"
  have "unat (sz + align) = unat sz + unat align" using sz(1) by (intro unat_add_lem [THEN iffD1]) simp
  then have s1: "unat (sz + align) < 2 ^ 40" using sz(1) by simp
  have s2: "unat ?n1 < 2 ^ 41" if "huge_sz \<noteq> 0"
  proof -
    have h: "unat (huge_sz - 1) < 2 ^ 40" using sz(3) that by (simp add: unat_minus_one)
    have "unat ?n1 \<le> unat (sz + align + (huge_sz - 1))" by (simp add: word_and_le2 flip: word_le_nat_alt)
    also have "\<dots> \<le> unat (sz + align) + unat (huge_sz - 1)" by (simp add: unat_word_ariths)
    finally show ?thesis using s1 h by simp
  qed
  have m: "\<exists>a w'. os_mmap os n huge anon fd (shm_world s) = (Some a, w') \<and> a \<noteq> 0 \<and> unat a < 2 ^ 63 \<and> os_serves os k w'" if "unat n < 2 ^ 41" for n huge anon fd
    using os that by simp
  obtain a len hg pg w where r: "reserve_map os False (huge_sz \<noteq> 0 \<and> page_sz < sz + align) ?n1 (sz + align) huge_sz page_sz (-1) (shm_world s) = (Some (a, len, hg, pg), w)"
    "a \<noteq> 0" "unat a < 2 ^ 63" "os_serves os k w"
  proof (cases "huge_sz \<noteq> 0 \<and> page_sz < sz + align")
    case True
    then obtain a w where "os_mmap os ?n1 True True (-1) (shm_world s) = (Some a, w)" "a \<noteq> 0" "unat a < 2 ^ 63" "os_serves os k w" using m [OF s2, of True True "-1"] by blast
    then show thesis using that True by (simp add: reserve_map_def map_pages_def)
  next
    case False
    have "unat (sz + align) < 2 ^ 41" using s1 by simp
    then obtain a w where "os_mmap os (sz + align) False True (-1) (shm_world s) = (Some a, w)" "a \<noteq> 0" "unat a < 2 ^ 63" "os_serves os k w" using m [of "sz + align" False True "-1"] by blast
    then show thesis using that False by (simp add: reserve_map_def map_pages_def)
  qed
  let ?b = "fill_block name sz align 0 (-1) (a, len, hg, pg) ((shm_tbl s ! length bs)\<lparr>sb_hdl := to_handle (of_nat (length bs))\<rparr>)"
  have al: "0 < unat align" "unat align < 2 ^ 40" using sz by (simp_all add: unat_gt_0)
  have "ODP_ALIGN_ROUNDUP a align \<noteq> 0" by (rule roundup_nonzero [OF r(2,3) al])
  then have b: "sb_name ?b = name" "sb_addr ?b \<noteq> 0" "sb_hdl ?b = to_handle (of_nat (length bs))" "sb_flags ?b = 0" using has(5) by (simp_all add: fill_block_def)
  have "odp_shm_reserve os page_sz huge_sz name sz align 0 s = Inr (to_handle (of_nat (length bs)), s\<lparr>shm_tbl := (shm_tbl s)[length bs := ?b], shm_world := w\<rparr>)"
    using shm_has_new [OF has(1,3,4)] shm_has_free [OF has(1,2)] r(1) sz(2) by (simp add: odp_shm_reserve_def Let_def)
  then show thesis using that b r(4) by blast
qed

section \<open>Queues at the start\<close>

text \<open>While queues are only created, the first \<open>n\<close> entries of the table are in use; all queues are empty.\<close>

definition queues_made :: "nat \<Rightarrow> odp_sys \<Rightarrow> bool" where
  "queues_made n sys \<longleftrightarrow> length (queue_tbl sys) = ODP_CONFIG_QUEUES \<and>
    (\<forall>i<ODP_CONFIG_QUEUES. q_handle (qentry sys i) = queue_from_id (of_nat i) \<and> q_head (qentry sys i) = NULL \<and> q_tail (qentry sys i) = NULL \<and>
       (q_status (qentry sys i) = QUEUE_STATUS_FREE \<longleftrightarrow> n \<le> i))"

lemma queues_madeD:
  assumes "queues_made n sys" "i < ODP_CONFIG_QUEUES"
  shows "q_handle (qentry sys i) = queue_from_id (of_nat i)" "q_head (qentry sys i) = NULL" "q_tail (qentry sys i) = NULL"
    "q_status (qentry sys i) = QUEUE_STATUS_FREE \<longleftrightarrow> n \<le> i" "i < length (queue_tbl sys)"
  using assms by (simp_all add: queues_made_def)

lemma queues_made_next:
  assumes "queues_made n sys" "n < ODP_CONFIG_QUEUES"
  shows "first_index (\<lambda>q. q_status q = QUEUE_STATUS_FREE) (queue_tbl sys) = Some n"
  using assms by (auto simp: first_index_Some queues_made_def)

lemma queues_made_full: "queues_made n sys \<Longrightarrow> ODP_CONFIG_QUEUES \<le> n \<Longrightarrow> first_index (\<lambda>q. q_status q = QUEUE_STATUS_FREE) (queue_tbl sys) = None"
  by (auto simp: first_index_None queues_made_def in_set_conv_nth)

lemma handle_entry:
  assumes "i < ODP_CONFIG_QUEUES"
  shows "queue_to_id (queue_from_id (of_nat i)) = of_nat i" "unat (of_nat i :: u32) = i" "queue_from_id (of_nat i) \<noteq> ODP_QUEUE_INVALID"
    and "length (queue_tbl sys) = ODP_CONFIG_QUEUES \<Longrightarrow> queue_to_qentry sys (queue_from_id (of_nat i)) = Inr i"
proof -
  show id: "queue_to_id (queue_from_id (of_nat i)) = of_nat i" by (simp add: queue_to_id_def queue_from_id_def)
  show u: "unat (of_nat i :: u32) = i" using assms by (intro unat_of_nat_small) simp
  have "unat (of_nat (Suc i) :: u32) = Suc i" using assms by (intro unat_of_nat_small) simp
  then have "(of_nat (Suc i) :: u32) \<noteq> 0" by (metis nat.distinct(1) unat_0)
  then show "queue_from_id (of_nat i) \<noteq> ODP_QUEUE_INVALID" by (simp add: queue_from_id_def ODP_QUEUE_INVALID_def add.commute)
  show "queue_to_qentry sys (queue_from_id (of_nat i)) = Inr i" if "length (queue_tbl sys) = ODP_CONFIG_QUEUES"
    using that assms u by (simp add: queue_to_qentry_def id)
qed

lemma queues_made_put:
  assumes "queues_made n sys" "n < ODP_CONFIG_QUEUES" "q_head q = NULL" "q_tail q = NULL" "q_status q \<noteq> QUEUE_STATUS_FREE" "q_handle q = q_handle (qentry sys n)"
    and "queue_tbl sys' = (queue_tbl sys)[n := q]"
  shows "queues_made (Suc n) sys'"
  using assms by (auto simp: queues_made_def nth_list_update)

lemma queues_made_keep:
  assumes "queues_made n sys" "i < ODP_CONFIG_QUEUES" "queue_tbl sys' = (queue_tbl sys)[i := f (qentry sys i)]"
    and "\<And>q. q_head (f q) = q_head q \<and> q_tail (f q) = q_tail q \<and> q_status (f q) = q_status q \<and> q_handle (f q) = q_handle q"
  shows "queues_made n sys'"
  using assms by (auto simp: queues_made_def nth_list_update)

text \<open>Creating a queue that is not scheduled.\<close>

definition plain_queue :: "string \<Rightarrow> queue_type \<Rightarrow> queue_entry \<Rightarrow> queue_entry" where
  "plain_queue name type q = (queue_init q name type None)\<lparr>q_status := QUEUE_STATUS_READY\<rparr>"

lemma plain_queue_simps [simp]:
  "q_head (plain_queue name type q) = NULL" "q_tail (plain_queue name type q) = NULL" "q_status (plain_queue name type q) = QUEUE_STATUS_READY"
  "q_handle (plain_queue name type q) = q_handle q"
  "q_funcs (plain_queue name ODP_QUEUE_TYPE_POLL q) = Queue_Funcs" "q_funcs (plain_queue name ODP_QUEUE_TYPE_PKTOUT q) = Pktout_Funcs"
  by (simp_all add: plain_queue_def queue_init_def)

lemma create_plain:
  assumes "queues_made n sys" "n < ODP_CONFIG_QUEUES" "type = ODP_QUEUE_TYPE_POLL \<or> type = ODP_QUEUE_TYPE_PKTOUT"
  shows "odp_queue_create tid name type None sys = Inr (queue_from_id (of_nat n), upd_queue n (plain_queue name type) sys)"
    and "queues_made (Suc n) (upd_queue n (plain_queue name type) sys)"
proof -
  note d = queues_madeD [OF assms(1,2)]
  show "odp_queue_create tid name type None sys = Inr (queue_from_id (of_nat n), upd_queue n (plain_queue name type) sys)"
    unfolding odp_queue_create_def queues_made_next [OF assms(1,2)] using d assms(3)
    by (auto simp: Let_def upd_queue_def plain_queue_def queue_init_def)
  show "queues_made (Suc n) (upd_queue n (plain_queue name type) sys)"
    by (rule queues_made_put [OF assms(1,2)]) (simp_all add: upd_queue_def)
qed

lemma upd_queue_fields [simp]:
  "base (upd_queue i f sys) = base sys" "sched (upd_queue i f sys) = sched sys" "sched_cmds (upd_queue i f sys) = sched_cmds sys"
  "sched_locals (upd_queue i f sys) = sched_locals sys" "pktio_tbl (upd_queue i f sys) = pktio_tbl sys" "cls (upd_queue i f sys) = cls sys"
  "queue_tbl (upd_queue i f sys) = (queue_tbl sys)[i := f (qentry sys i)]"
  by (simp_all add: upd_queue_def)

section \<open>Priority queues\<close>

definition sched_shape :: "sched_t \<Rightarrow> bool" where
  "sched_shape s \<longleftrightarrow> length (sc_pri_queue s) = ODP_CONFIG_SCHED_PRIOS \<and> (\<forall>p<ODP_CONFIG_SCHED_PRIOS. length (sc_pri_queue s ! p) = QUEUES_PER_PRIO) \<and>
    length (sc_pri_mask s) = ODP_CONFIG_SCHED_PRIOS"

text \<open>The entries \<open>ds\<close> of the table of priority queues name the first queues, in this order.\<close>

definition pri_at :: "(nat \<times> nat) list \<Rightarrow> sched_t \<Rightarrow> bool" where
  "pri_at ds s \<longleftrightarrow> (\<forall>j<length ds. sc_pri_queue s ! fst (ds ! j) ! snd (ds ! j) = queue_from_id (of_nat j))"

definition polled :: "nat \<Rightarrow> odp_sys \<Rightarrow> bool" where
  "polled n sys \<longleftrightarrow> (\<forall>m<n. q_status (qentry sys m) = QUEUE_STATUS_READY \<and> q_funcs (qentry sys m) = Queue_Funcs)"

definition rest_same :: "odp_sys \<Rightarrow> odp_sys \<Rightarrow> bool" where
  "rest_same sys sys' \<longleftrightarrow> base sys' = base sys \<and> sched_cmds sys' = sched_cmds sys \<and> sched_locals sys' = sched_locals sys \<and> cls sys' = cls sys"

lemma rest_same_trans: "rest_same a b \<Longrightarrow> rest_same b c \<Longrightarrow> rest_same a c"
  by (simp add: rest_same_def)

lemma sched_shape_upd2: "sched_shape s \<Longrightarrow> sc_pri_queue s' = upd2 p k f (sc_pri_queue s) \<Longrightarrow> length (sc_pri_mask s') = length (sc_pri_mask s) \<Longrightarrow> sched_shape s'"
  by (cases "p < length (sc_pri_queue s)") (auto simp: sched_shape_def upd2_def nth_list_update)

lemma pri_at_snoc:
  assumes "pri_at ds s" "sched_shape s" "(p, k) \<notin> set ds" "p < ODP_CONFIG_SCHED_PRIOS" "k < QUEUES_PER_PRIO"
    and "sc_pri_queue s' = upd2 p k (\<lambda>_. queue_from_id (of_nat (length ds))) (sc_pri_queue s)"
  shows "pri_at (ds @ [(p, k)]) s'"
proof -
  have new: "sc_pri_queue s' ! p ! k = queue_from_id (of_nat (length ds))" using assms(2,4-6) by (simp add: upd2_def sched_shape_def)
  have "sc_pri_queue s' ! fst (ds ! j) ! snd (ds ! j) = queue_from_id (of_nat j)" if "j < length ds" for j
  proof -
    have "ds ! j \<noteq> (p, k)" using assms(3) that nth_mem by metis
    then have "sc_pri_queue s' ! fst (ds ! j) ! snd (ds ! j) = sc_pri_queue s ! fst (ds ! j) ! snd (ds ! j)"
      using assms(2,4,6) by (cases "fst (ds ! j) = p") (auto simp: upd2_def nth_list_update sched_shape_def prod_eq_iff)
    then show ?thesis using assms(1) that by (simp add: pri_at_def)
  qed
  then show ?thesis using new by (auto simp: pri_at_def nth_append less_Suc_eq)
qed

lemma create_pri_queues_run:
  assumes "queues_made (length ds) sys" "length ds + length ijs \<le> ODP_CONFIG_QUEUES" "distinct (ds @ ijs)" "polled (length ds) sys" "pri_at ds (sched sys)" "sched_shape (sched sys)"
    and "\<forall>(p, k)\<in>set ijs. p < ODP_CONFIG_SCHED_PRIOS \<and> k < QUEUES_PER_PRIO"
  shows "\<exists>sys'. create_pri_queues ijs tid sys = Inr (0, sys') \<and> queues_made (length (ds @ ijs)) sys' \<and> polled (length (ds @ ijs)) sys' \<and>
    pri_at (ds @ ijs) (sched sys') \<and> sched_shape (sched sys') \<and> rest_same sys sys' \<and> sc_pool (sched sys') = sc_pool (sched sys)"
  using assms
proof (induction ijs arbitrary: ds sys)
  case Nil
  then show ?case by (simp add: rest_same_def)
next
  case (Cons pk ijs)
  obtain p k where pk: "pk = (p, k)" by (cases pk)
  let ?n = "length ds"
  have n: "?n < ODP_CONFIG_QUEUES" using Cons.prems(2) by simp
  have bd: "(p, k) \<notin> set ds" "p < ODP_CONFIG_SCHED_PRIOS" "k < QUEUES_PER_PRIO" using Cons.prems(3,7) pk by auto
  let ?s = "upd_queue ?n (plain_queue (pri_queue_name p k) ODP_QUEUE_TYPE_POLL) sys"
  let ?sc = "(sched ?s)\<lparr>sc_pri_queue := upd2 p k (\<lambda>_. queue_from_id (of_nat ?n)) (sc_pri_queue (sched ?s)), sc_pri_mask := (sc_pri_mask (sched ?s))[p := 0]\<rparr>"
  let ?s1 = "?s\<lparr>sched := ?sc\<rparr>"
  have ty: "ODP_QUEUE_TYPE_POLL = ODP_QUEUE_TYPE_POLL \<or> ODP_QUEUE_TYPE_POLL = ODP_QUEUE_TYPE_PKTOUT" by simp
  note c = create_plain(1) [OF Cons.prems(1) n ty, of tid "pri_queue_name p k"] create_plain(2) [OF Cons.prems(1) n ty, of "pri_queue_name p k"]
  have step: "create_pri_queues (pk # ijs) tid sys = create_pri_queues ijs tid ?s1"
    using c(1) handle_entry(3) [OF n] pk by simp
  have q1: "queues_made (length (ds @ [pk])) ?s1" using c(2) by (simp add: queues_made_def)
  have po: "polled (length (ds @ [pk])) ?s1" using Cons.prems(4) n queues_madeD(5) [OF Cons.prems(1) n] by (auto simp: polled_def nth_list_update)
  have pn: "pri_at (ds @ [pk]) (sched ?s1)" unfolding pk by (rule pri_at_snoc [OF Cons.prems(5,6) bd]) simp
  have sh: "sched_shape (sched ?s1)" using sched_shape_upd2 [OF Cons.prems(6), of ?sc p k] by simp
  have rs: "rest_same sys ?s1" by (simp add: rest_same_def)
  have "length (ds @ [pk]) + length ijs \<le> ODP_CONFIG_QUEUES" "distinct ((ds @ [pk]) @ ijs)" "\<forall>(p, k)\<in>set ijs. p < ODP_CONFIG_SCHED_PRIOS \<and> k < QUEUES_PER_PRIO"
    using Cons.prems(2,3,7) by auto
  from Cons.IH [OF q1 this(1,2) po pn sh this(3)] obtain sys' where IH: "create_pri_queues ijs tid ?s1 = Inr (0, sys')"
    "queues_made (length ((ds @ [pk]) @ ijs)) sys'" "polled (length ((ds @ [pk]) @ ijs)) sys'" "pri_at ((ds @ [pk]) @ ijs) (sched sys')"
    "sched_shape (sched sys')" "rest_same ?s1 sys'" "sc_pool (sched sys') = sc_pool (sched ?s1)" by blast
  show ?case unfolding step using IH rest_same_trans [OF rs IH(6)] by (intro exI [of _ sys']) simp
qed

section \<open>Output queues\<close>

text \<open>The interfaces \<open>ds\<close> have the queues from \<open>lo\<close> on as their output queues, in this order.\<close>

definition outq_at :: "nat list \<Rightarrow> nat \<Rightarrow> odp_sys \<Rightarrow> bool" where
  "outq_at ds lo sys \<longleftrightarrow> (\<forall>j<length ds. pe_outq_default (pktio_tbl sys ! (ds ! j - 1)) = queue_from_id (of_nat (lo + j)) \<and>
    q_status (qentry sys (lo + j)) = QUEUE_STATUS_READY)"

definition unused_pktio :: "odp_sys \<Rightarrow> bool" where
  "unused_pktio sys \<longleftrightarrow> length (pktio_tbl sys) = ODP_CONFIG_PKTIO_ENTRIES \<and> (\<forall>e\<in>set (pktio_tbl sys). e\<lparr>pe_outq_default := 0\<rparr> = zero_pktio_entry)"

lemma unused_pktio_upd:
  assumes "unused_pktio sys"
  shows "unused_pktio (upd_pktio k (\<lambda>e. e\<lparr>pe_outq_default := q\<rparr>) sys)"
proof -
  have "e\<lparr>pe_outq_default := 0\<rparr> = zero_pktio_entry" if "e \<in> set ((pktio_tbl sys)[k := (pktio_tbl sys ! k)\<lparr>pe_outq_default := q\<rparr>])" for e
  proof (cases "k < length (pktio_tbl sys)")
    case True
    from set_update_subset_insert that have "e = (pktio_tbl sys ! k)\<lparr>pe_outq_default := q\<rparr> \<or> e \<in> set (pktio_tbl sys)" by fastforce
    then show ?thesis using assms True by (auto simp: unused_pktio_def)
  next
    case False
    then have "(pktio_tbl sys)[k := (pktio_tbl sys ! k)\<lparr>pe_outq_default := q\<rparr>] = pktio_tbl sys" by (simp add: list_update_beyond)
    then show ?thesis using assms that by (auto simp: unused_pktio_def)
  qed
  then show ?thesis using assms by (simp add: unused_pktio_def upd_pktio_def)
qed

lemma create_outqs_run:
  assumes "queues_made (lo + length ds) sys" "lo + length ds + length ns \<le> ODP_CONFIG_QUEUES" "distinct (ds @ ns)" "outq_at ds lo sys" "unused_pktio sys"
    and "\<forall>k\<in>set (ds @ ns). 1 \<le> k \<and> k \<le> ODP_CONFIG_PKTIO_ENTRIES"
  shows "\<exists>sys'. create_outqs ns tid sys = Inr (0, sys') \<and> queues_made (lo + length (ds @ ns)) sys' \<and> outq_at (ds @ ns) lo sys' \<and>
    unused_pktio sys' \<and> rest_same sys sys' \<and> sched sys' = sched sys \<and> (\<forall>m<lo + length ds. qentry sys' m = qentry sys m)"
  using assms
proof (induction ns arbitrary: ds sys)
  case Nil
  then show ?case by (simp add: rest_same_def)
next
  case (Cons k ns)
  let ?n = "lo + length ds"
  have n: "?n < ODP_CONFIG_QUEUES" using Cons.prems(2) by simp
  have k: "k - 1 < length (pktio_tbl sys)" "1 \<le> k" using Cons.prems(5,6) by (auto simp: unused_pktio_def)
  let ?name = "dec_digits k @ ''-pktio_outq_default''"
  let ?s = "upd_queue ?n (plain_queue ?name ODP_QUEUE_TYPE_PKTOUT) sys"
  let ?s1 = "upd_pktio (k - 1) (\<lambda>e. e\<lparr>pe_outq_default := queue_from_id (of_nat ?n)\<rparr>) ?s"
  let ?s2 = "upd_queue ?n (\<lambda>q. q\<lparr>q_pktout := of_nat k\<rparr>) ?s1"
  have ty: "ODP_QUEUE_TYPE_PKTOUT = ODP_QUEUE_TYPE_POLL \<or> ODP_QUEUE_TYPE_PKTOUT = ODP_QUEUE_TYPE_PKTOUT" by simp
  note c = create_plain(1) [OF Cons.prems(1) n ty, of tid ?name] create_plain(2) [OF Cons.prems(1) n ty, of ?name]
  have len: "length (queue_tbl ?s) = ODP_CONFIG_QUEUES" using c(2) by (simp only: queues_made_def)
  have step: "create_outqs (k # ns) tid sys = create_outqs ns tid ?s2"
    using c(1) handle_entry(3) [OF n] handle_entry(4) [OF n len] by simp
  have "queues_made (Suc ?n) ?s2"
    by (rule queues_made_keep [OF c(2) n, where f = "\<lambda>q. q\<lparr>q_pktout := of_nat k\<rparr>"]) (simp_all add: upd_pktio_def)
  then have q2: "queues_made (lo + length (ds @ [k])) ?s2" by simp
  have un: "unused_pktio ?s2" using unused_pktio_upd [of ?s] Cons.prems(5) by (simp add: unused_pktio_def)
  have old: "qentry ?s2 m = qentry sys m" if "m < ?n" for m using that by (simp add: upd_pktio_def)
  have nm: "outq_at (ds @ [k]) lo ?s2"
  proof -
    have "pe_outq_default (pktio_tbl ?s2 ! (ds ! j - 1)) = queue_from_id (of_nat (lo + j))" if j: "j < length ds" for j
    proof -
      have "ds ! j \<noteq> k" "1 \<le> ds ! j" using Cons.prems(3,6) j nth_mem by fastforce+
      then have "ds ! j - 1 \<noteq> k - 1" using k(2) by simp
      then show ?thesis using Cons.prems(4) j by (simp add: outq_at_def upd_pktio_def)
    qed
    moreover have "q_status (qentry ?s2 (lo + j)) = QUEUE_STATUS_READY" if "j < length ds" for j using old [of "lo + j"] that Cons.prems(4) by (simp add: outq_at_def)
    moreover have "q_status (qentry ?s2 ?n) = QUEUE_STATUS_READY" "pe_outq_default (pktio_tbl ?s2 ! (k - 1)) = queue_from_id (of_nat ?n)"
      using k(1) len n by (simp_all add: upd_pktio_def)
    ultimately show ?thesis by (auto simp: outq_at_def nth_append less_Suc_eq)
  qed
  have "lo + length (ds @ [k]) + length ns \<le> ODP_CONFIG_QUEUES" "distinct ((ds @ [k]) @ ns)" "\<forall>k\<in>set ((ds @ [k]) @ ns). 1 \<le> k \<and> k \<le> ODP_CONFIG_PKTIO_ENTRIES" using Cons.prems(2,3,6) by auto
  from Cons.IH [OF q2 this(1,2) nm un this(3)] obtain sys' where IH: "create_outqs ns tid ?s2 = Inr (0, sys')" "queues_made (lo + length ((ds @ [k]) @ ns)) sys'"
    "outq_at ((ds @ [k]) @ ns) lo sys'" "unused_pktio sys'" "rest_same ?s2 sys'" "sched sys' = sched ?s2" "\<forall>m<lo + length (ds @ [k]). qentry sys' m = qentry ?s2 m" by blast
  have rs: "rest_same sys ?s2" by (simp add: rest_same_def upd_pktio_def)
  show ?case unfolding step using IH rest_same_trans [OF rs IH(5)] old by (intro exI [of _ sys']) (simp add: upd_pktio_def)
qed

section \<open>Buffers with their data in the header\<close>

text \<open>In a pool of small buffers the data of a buffer is at a fixed place in its header.\<close>

definition inline_data :: "odp_abi \<Rightarrow> pool_entry \<Rightarrow> odp_heap \<Rightarrow> bool" where
  "inline_data abi pool hp \<longleftrightarrow> (\<forall>a\<in>set (hdr_list pool). bh_addr (bhdr hp a) ! 0 = a + offsetof_addr_1 abi)"

lemma ret_buf_inline:
  assumes "0 < blk" "unat blk \<le> ODP_MAX_INLINE_BUF" "length (bh_addr (bhdr hp a)) = ODP_BUFFER_MAX_SEG"
    and "ret_buf pool (upd_buf a (create_hdr abi pool blk a udat) hp) a = Inr (pool1, hp1)"
  shows "bh_addr (bhdr hp1 a) ! 0 = a + offsetof_addr_1 abi" "x \<noteq> a \<Longrightarrow> hdrs hp1 x = hdrs hp x"
  using assms by (auto simp: ret_buf_def ret_buf_list_def create_hdr_def Let_def upd_buf_def upd_hdr_def)

lemma create_bufs_inline:
  assumes "0 < pl_buf_stride pool" "k < n" "0 < pl_mdata_addr pool" "bufs_done pool hp (Suc k) n"
    and "0 < pl_blk_size pool" "unat (pl_blk_size pool) \<le> ODP_MAX_INLINE_BUF"
    and "create_bufs abi (pl_blk_size pool) us (pl_mdata_addr pool) (hdr_at pool k) udat pool hp = Some (Inr (pool', hp'))"
  shows "(\<forall>i\<le>k. bh_addr (bhdr hp' (hdr_at pool i)) ! 0 = hdr_at pool i + offsetof_addr_1 abi) \<and> (\<forall>i>k. hdrs hp' (hdr_at pool i) = hdrs hp (hdr_at pool i))"
  using assms
proof (induction k arbitrary: pool hp udat)
  case (0 pool hp udat)
  obtain pool1 hp1 where r: "ret_buf pool (upd_buf (hdr_at pool 0) (create_hdr abi pool (pl_blk_size pool) (hdr_at pool 0) udat) hp) (hdr_at pool 0) = Inr (pool1, hp1)"
    using create_bufs_step [OF 0(1-4)] by metis
  have len: "length (bh_addr (bhdr hp (hdr_at pool 0))) = ODP_BUFFER_MAX_SEG" using 0(2,4) unfolding bufs_done_def by blast
  have "\<not> hdr_at pool 0 - int (unat (pl_buf_stride pool)) \<ge> pl_mdata_addr pool" using 0(1) by (simp add: word_less_nat_alt del: of_nat_unat)
  then have "hp' = hp1" using 0(7) r by (subst (asm) create_bufs.simps) (simp del: of_nat_unat)
  moreover have "hdr_at pool i \<noteq> hdr_at pool 0" if "0 < i" for i using hdr_at_eq_iff [OF 0(1), of i 0] that by blast
  ultimately show ?case using ret_buf_inline [OF 0(5,6) len r] by (metis le_zero_eq)
next
  case (Suc k)
  obtain pool1 hp1 where r: "ret_buf pool (upd_buf (hdr_at pool (Suc k)) (create_hdr abi pool (pl_blk_size pool) (hdr_at pool (Suc k)) udat) hp) (hdr_at pool (Suc k)) = Inr (pool1, hp1)"
    "bufs_done pool1 hp1 (Suc k) n" "pool_same pool1 pool"
    using create_bufs_step [OF Suc.prems(1-4)] by metis
  have len: "length (bh_addr (bhdr hp (hdr_at pool (Suc k)))) = ODP_BUFFER_MAX_SEG" using Suc.prems(2,4) unfolding bufs_done_def by blast
  have same: "pl_mdata_addr pool1 = pl_mdata_addr pool" "pl_buf_stride pool1 = pl_buf_stride pool" "pl_blk_size pool1 = pl_blk_size pool"
    using r(3) by (simp_all add: pool_same_def)
  have prev: "hdr_at pool (Suc k) - int (unat (pl_buf_stride pool)) = hdr_at pool k" by (simp add: algebra_simps del: of_nat_unat)
  then have "hdr_at pool (Suc k) - int (unat (pl_buf_stride pool)) \<ge> pl_mdata_addr pool" by (metis le_add_same_cancel1 of_nat_0_le_iff)
  then have run: "create_bufs abi (pl_blk_size pool1) us (pl_mdata_addr pool1) (hdr_at pool1 k) (udat - int (unat us)) pool1 hp1 = Some (Inr (pool', hp'))"
    using Suc.prems(7) r(1) unfolding same by (subst (asm) create_bufs.simps) (simp only: prev sum.case prod.case if_True)
  have ps: "0 < pl_buf_stride pool1" "k < n" "0 < pl_mdata_addr pool1" "0 < pl_blk_size pool1" "unat (pl_blk_size pool1) \<le> ODP_MAX_INLINE_BUF" using Suc.prems same by simp_all
  note IH = Suc.IH [OF ps(1-3) r(2) ps(4,5) run, unfolded same]
  note here = ret_buf_inline [OF Suc.prems(5,6) len r(1)]
  have other: "hdr_at pool i \<noteq> hdr_at pool (Suc k)" if "Suc k < i" for i using hdr_at_eq_iff [OF Suc.prems(1), of i "Suc k"] that by blast
  have 1: "bh_addr (bhdr hp' (hdr_at pool i)) ! 0 = hdr_at pool i + offsetof_addr_1 abi" if "i \<le> Suc k" for i
    using IH here(1) that by (metis le_SucE lessI)
  have 2: "hdrs hp' (hdr_at pool i) = hdrs hp (hdr_at pool i)" if "Suc k < i" for i using IH here(2) [OF other [OF that]] that by (metis Suc_lessD)
  show ?case using 1 2 by blast
qed

lemma create_in_slot_inline:
  assumes g: "geo_ok g type" and adr: "0 < adr" and num: "pl_buf_num claimed = g_buf_num g"
    and arr: "\<forall>a. length (bh_addr (bhdr hp a)) = ODP_BUFFER_MAX_SEG"
    and blk: "0 < g_blk_size g" "unat (g_blk_size g) \<le> ODP_MAX_INLINE_BUF"
    and run: "create_in_slot abi g shm adr claimed hp = Some (Inr (pool, hp'))"
  shows "inline_data abi pool hp'" "pl_blk_size pool = g_blk_size g" "pl_pool_shm pool = shm" "pl_buf_num pool = g_buf_num g" "pl_predefined pool = pl_predefined claimed"
proof -
  define p0 where "p0 = create_layout g shm adr claimed"
  let ?n = "unat (g_buf_num g)"
  have p0: "pl_buf_stride p0 = g_buf_stride g" "pl_blk_size p0 = g_blk_size g" "pl_buf_num p0 = g_buf_num g" "pl_buf_freelist p0 = NULL"
    "pl_mdata_addr p0 = adr + int (unat (geo_block_size g)) + int (unat (geo_pad_size g))"
    by (simp_all add: p0_def create_layout_def num)
  have n: "0 < ?n" and st: "0 < pl_buf_stride p0" and m: "0 < pl_mdata_addr p0"
    using g adr p0(1,5) by (auto simp: geo_ok_def word_less_nat_alt simp del: of_nat_unat)
  have d0: "bufs_done p0 hp (Suc (?n - 1)) ?n" using n arr p0(4) by (simp add: bufs_done_def)
  have "int (unat (geo_mdata_size g)) - int (unat (g_buf_stride g)) = int ((?n - 1) * unat (g_buf_stride g))"
    using n geo_sizes(1) [OF g] by (simp add: algebra_simps of_nat_diff del: of_nat_unat)
  then have buf: "pl_mdata_addr p0 + int (unat (geo_mdata_size g)) - int (unat (g_buf_stride g)) = hdr_at p0 (?n - 1)"
    unfolding p0(1) by linarith
  define udat where "udat = (if g_udata_stride g = 0 then NULL
    else pl_mdata_addr p0 + int (unat (geo_mdata_size g)) + int (unat (geo_udata_size g)) - int (unat (g_udata_stride g)))"
  have k: "?n - 1 < ?n" using n by simp
  obtain pool1 hp1 where c: "create_bufs abi (pl_blk_size p0) (g_udata_stride g) (pl_mdata_addr p0) (hdr_at p0 (?n - 1)) udat p0 hp = Some (Inr (pool1, hp1))"
    "pool_same pool1 p0" using create_bufs_run [OF st k m d0, of abi "g_udata_stride g" udat] by blast
  have "\<not> unat (g_blk_size g) > ODP_MAX_INLINE_BUF" using blk(2) by simp
  then have "create_in_slot abi g shm adr claimed hp = Some (Inr (create_finish g pool1, hp1))"
    using c(1) unfolding create_in_slot_def Let_def p0_def [symmetric] buf udat_def [symmetric] p0(2) by (simp only: option.case sum.case prod.case if_False)
  then have e: "pool = create_finish g pool1" "hp' = hp1" using run by simp_all
  have bs: "0 < pl_blk_size p0" "unat (pl_blk_size p0) \<le> ODP_MAX_INLINE_BUF" using blk p0(2) by simp_all
  note i = create_bufs_inline [OF st k m d0 bs c(1)]
  have "hdr_list pool = map (hdr_at p0) [0..<?n]" using c(2) p0(3) by (simp add: hdr_list_def e(1) create_finish_def pool_same_def)
  then have "a \<in> hdr_at p0 ` {0..<?n}" if "a \<in> set (hdr_list pool)" for a using that by (metis set_map set_upt)
  then show "inline_data abi pool hp'" unfolding inline_data_def e(2) using i by fastforce
  show "pl_blk_size pool = g_blk_size g" "pl_pool_shm pool = shm" "pl_buf_num pool = g_buf_num g" "pl_predefined pool = pl_predefined claimed"
    using c(2) num by (simp_all add: e(1) create_finish_def pool_same_def p0_def create_layout_def)
qed

section \<open>The pool of the scheduler\<close>

text \<open>What the start needs of the sizes: commands that fit into a buffer header and headers of a size that allows enough of them.\<close>

definition sizes_ok :: "'os init_env \<Rightarrow> bool" where
  "sizes_ok env \<longleftrightarrow> abi_ok (e_abi env) \<and> unat (sizeof_buffer_hdr_stride (e_abi env)) \<le> 2 ^ 20 \<and>
    0 < e_cmd_size env \<and> unat (e_cmd_size env) \<le> ODP_MAX_INLINE_BUF"

definition sched_geo :: "'os init_env \<Rightarrow> pool_geometry" where
  "sched_geo env = buffer_geometry (e_abi env) (sched_pool_param env) ODP_CACHE_LINE_SIZE"

lemma sched_geo_simps:
  assumes "sizes_ok env"
  shows "g_blk_size (sched_geo env) = e_cmd_size env" "g_unseg (sched_geo env)" "g_headroom (sched_geo env) = 0" "g_tailroom (sched_geo env) = 0"
    "g_buf_num (sched_geo env) = 1088" "g_udata_stride (sched_geo env) = 0" "g_buf_stride (sched_geo env) = sizeof_buffer_hdr_stride (e_abi env)"
  using assms by (simp_all add: sched_geo_def buffer_geometry_def sched_pool_param_def sizes_ok_def NUM_SCHED_CMD_def)

lemma sched_pool_geometry:
  assumes "sizes_ok env"
  shows "pool_create_geometry (e_abi env) (default_params (sched_pool_param env)) = Inr (Some (sched_geo env))"
proof -
  let ?s = "sizeof_buffer_hdr_stride (e_abi env)"
  have s: "64 dvd unat ?s" "0 < unat ?s" "unat ?s \<le> 2 ^ 20" using assms by (simp_all add: sizes_ok_def abi_ok_def word_less_nat_alt)
  have d: "unat (?s div 64) = unat ?s div 64" by (simp add: unat_div_distrib)
  then have nz: "?s div 64 \<noteq> 0" "0 < unat ?s div 64" using s by (auto simp: dvd_div_eq_0_iff simp flip: unat_eq_zero)
  have "unat ?s div 64 \<le> 2 ^ 20 div 64" using s(3) by (rule div_le_mono)
  then have "33554432 div 16384 \<le> 33554432 div (unat ?s div 64)" using nz(2) by (intro div_le_mono2) simp_all
  then have "1088 \<le> 33554432 div (unat ?s div 64)" by simp
  moreover have "default_params (sched_pool_param env) = sched_pool_param env" by (simp add: default_params_def sched_pool_param_def)
  ultimately show ?thesis using nz(1) d
    by (simp add: pool_create_geometry_def sched_geo_def buffer_geometry_def sched_pool_param_def NUM_SCHED_CMD_def Let_def ODP_ALIGN_ROUNDDOWN_POWER_2_def)
qed

lemma sched_pool_size:
  assumes "sizes_ok env"
  shows "unat (geo_pool_size (sched_geo env)) + unat (ODP_PAGE_SIZE :: u64) < 2 ^ 40"
proof -
  note g = sched_geo_simps [OF assms]
  have b: "geo_block_size (sched_geo env) = 0" using assms g(1) by (simp add: geo_block_size_def sizes_ok_def)
  let ?m = "geo_mdata_size (sched_geo env)"
  have "unat ?m \<le> unat (g_buf_num (sched_geo env) * g_buf_stride (sched_geo env))" by (simp add: geo_mdata_size_def unsigned_ucast_eq take_bit_nat_less_eq_self)
  also have "\<dots> < 2 ^ LENGTH(32)" by (rule unsigned_less)
  finally have "unat ?m < 2 ^ 32" by simp
  moreover have "unat (ODP_ALIGN_ROUNDUP ?m 4096) = round_up (unat ?m) (unat (4096 :: u64))" using calculation by (intro unat_roundup) simp_all
  moreover have "round_up (unat ?m) 4096 < unat ?m + 4096" using round_up_bounds [of 4096 "unat ?m"] by simp
  moreover have "geo_pool_size (sched_geo env) = ODP_ALIGN_ROUNDUP ?m 4096"
    using b g(6) by (simp add: geo_pool_size_def geo_pad_size_def geo_udata_size_def ODP_PAGE_SIZE_ROUNDUP_def ODP_CACHE_LINE_SIZE_ROUNDUP_def ODP_ALIGN_ROUNDUP_def)
  ultimately show ?thesis by simp
qed

lemma unat_ucast_u32_u64: "unat (ucast (x :: u32) :: u64) = unat x"
  by (simp add: unsigned_ucast_eq take_bit_nat_eq_self less_trans [OF unsigned_less])

text \<open>A pool of small buffers that no thread has cached: the buffers of the scheduler before the first event.\<close>

definition small_pool :: "odp_abi \<Rightarrow> u32 \<Rightarrow> odp_state \<Rightarrow> bool" where
  "small_pool abi len st \<longleftrightarrow>
    (let p = pool_tbl st ! 0
     in pp_type (pl_params p) = ODP_POOL_BUFFER \<and> pp_size_len (pl_params p) = len \<and> pl_blk_size p = len \<and> pl_seg_size p = len \<and> pl_unsegmented p \<and>
        pl_headroom p = 0 \<and> pl_tailroom p = 0 \<and> unat len \<le> ODP_MAX_INLINE_BUF \<and> inline_data abi p (heap st)) \<and>
    (\<forall>t. lc_freelist (local_caches st t 0) = NULL) \<and> (\<exists>B. pool_at st 0 B)"

definition same_pools :: "odp_state \<Rightarrow> odp_state \<Rightarrow> bool" where
  "same_pools st st' \<longleftrightarrow> (\<forall>i. i \<noteq> 0 \<longrightarrow> pool_tbl st' ! i = pool_tbl st ! i) \<and> length (pool_tbl st') = length (pool_tbl st) \<and>
    pool_same (pool_tbl st' ! 0) (pool_tbl st ! 0)"

lemma small_head:
  assumes at: "pool_at st 0 B" and sm: "small_pool abi len st" and buf: "pl_bufcount (pool_tbl st ! 0) \<noteq> 0"
  shows "pl_buf_freelist (pool_tbl st ! 0) \<noteq> NULL" "bh_size (bhdr (heap st) (pl_buf_freelist (pool_tbl st ! 0))) = len"
    "bh_type (bhdr (heap st) (pl_buf_freelist (pool_tbl st ! 0))) = ODP_POOL_BUFFER"
proof -
  let ?p = "pool_tbl st ! 0" let ?a = "pl_buf_freelist ?p"
  obtain L bl where rep: "pool_rep {} ?p (heap st) (\<lambda>t. local_caches st t 0) L bl B" using pool_atD(7) [OF at] by (auto simp: pool_inv_def)
  note core = pool_rep_coreD(1) [OF rep]
  have "length (L None) \<noteq> 0" using buf pool_rep_coreD(4) [OF rep] by auto
  moreover have "linked (hdr_next (heap st)) ?a (L None)" using core unfolding pool_core_def by (metis list_heads_simps(1))
  ultimately have a: "?a \<noteq> NULL" "?a \<in> set (L None)" by (cases "L None"; simp)+
  moreover have "free_hdrs L \<subseteq> set (hdr_list ?p)" using core by (simp add: pool_core_def)
  ultimately have "?a \<in> set (hdr_list ?p)" unfolding free_hdrs_def by blast
  then have "hdr_ok ?p (heap st) ?a" "size_ok ?p (heap st) ?a" using core pool_rep_coreD(5) [OF rep] by (auto simp: pool_core_def)
  then show "?a \<noteq> NULL" "bh_size (bhdr (heap st) ?a) = len" "bh_type (bhdr (heap st) ?a) = ODP_POOL_BUFFER"
    using a(1) sm by (simp_all add: hdr_ok_def size_ok_def small_pool_def Let_def)
qed

lemma small_alloc_entry:
  assumes at: "pool_at st 0 B" and sm: "small_pool abi len st" and buf: "pl_bufcount (pool_tbl st ! 0) \<noteq> 0"
  shows "\<exists>pool' hp'. buffer_alloc_entry tid (local_caches st tid 0) (pool_tbl st ! 0) (heap st) (ucast len) =
      Inr (Some (pl_buf_freelist (pool_tbl st ! 0)), local_caches st tid 0, pool', hp') \<and>
    pl_bufcount pool' = pl_bufcount (pool_tbl st ! 0) - 1 \<and> (\<forall>x. bh_addr (bhdr hp' x) = bh_addr (bhdr (heap st) x))"
proof -
  let ?p = "pool_tbl st ! 0" let ?a = "pl_buf_freelist ?p"
  note h = small_head [OF assms]
  have f: "lc_freelist (local_caches st tid 0) = NULL" "pl_unsegmented ?p" "pl_seg_size ?p = len" "pl_headroom ?p = 0" "pl_tailroom ?p = 0"
    using sm by (simp_all add: small_pool_def Let_def)
  have t: "alloc_totsize ?p (ucast len) = unat len" using f by (simp add: alloc_totsize_def unat_ucast_u32_u64)
  obtain pool1 hp1 where g: "get_buf tid ?p (heap st) = (?a, pool1, hp1)" "pl_bufcount pool1 = pl_bufcount ?p - 1"
    "hp1 = upd_buf ?a (\<lambda>b. b\<lparr>bh_allocator := int tid\<rparr>) (heap st)"
    using h(1) by (simp add: get_buf_def Let_def)
  have "bh_size (bhdr hp1 ?a) = len" "bh_type (bhdr hp1 ?a) = ODP_POOL_BUFFER" using h g(3) by simp_all
  then have "buffer_alloc_entry tid (local_caches st tid 0) ?p (heap st) (ucast len) =
      Inr (Some ?a, local_caches st tid 0, pool1, upd_buf ?a (\<lambda>b. b\<lparr>bh_zeroized := pl_zeroized pool1\<rparr>) hp1)"
    using f t g(1) h(1) by (simp add: buffer_alloc_entry_def get_local_buf_def alloc_from_pool_def alloc_too_big_def alloc_finish_def Let_def)
  moreover have "bh_addr (bhdr (upd_buf ?a (\<lambda>b. b\<lparr>bh_zeroized := pl_zeroized pool1\<rparr>) hp1) x) = bh_addr (bhdr (heap st) x)" for x
    unfolding g(3) by (simp add: upd_buf_def upd_hdr_def)
  ultimately show ?thesis using g(2) by blast
qed

lemma small_alloc:
  assumes at: "pool_at st 0 B" and sm: "small_pool abi len st" and buf: "pl_bufcount (pool_tbl st ! 0) \<noteq> 0"
  obtains a st' where "odp_buffer_alloc tid 0 st = Inr (bh_handle (bhdr (heap st') a), st')" "pool_at st' 0 B" "small_pool abi len st'"
    "a \<in> set (hdr_list (pool_tbl st ! 0))" "a \<notin> allocated_at st 0" "allocated_at st' 0 = insert a (allocated_at st 0)"
    "odp_buf_to_hdr st' (bh_handle (bhdr (heap st') a)) = Inr a" "\<forall>x\<in>allocated_at st 0. hdrs (heap st') x = hdrs (heap st) x"
    "same_pools st st'" "pl_bufcount (pool_tbl st' ! 0) = pl_bufcount (pool_tbl st ! 0) - 1"
proof -
  let ?p = "pool_tbl st ! 0" let ?a = "pl_buf_freelist ?p"
  have len: "unat len \<le> 40" "pp_size_len (pl_params ?p) = len" using sm by (simp_all add: small_pool_def Let_def)
  have sz: "unat (ucast len :: u64) < 2 ^ 32" using len(1) by (simp add: unat_ucast_u32_u64)
  obtain pool' hp' where e: "buffer_alloc_entry tid (local_caches st tid 0) ?p (heap st) (ucast len) = Inr (Some ?a, local_caches st tid 0, pool', hp')"
    "pl_bufcount pool' = pl_bufcount ?p - 1" "\<forall>x. bh_addr (bhdr hp' x) = bh_addr (bhdr (heap st) x)" using small_alloc_entry [OF assms] by blast
  obtain r c q h where at': "buffer_alloc_entry tid (local_caches st tid 0) ?p (heap st) (ucast len) = Inr (r, c, q, h)"
    "alloc_post ?p (heap st) (ucast len) r q h" "pool_at (put_pool tid 0 c q h st) 0 B"
    "buffer_alloc tid (of_nat 0) (ucast len) st = Inr (case r of None \<Rightarrow> ODP_BUFFER_INVALID | Some a \<Rightarrow> bh_handle (bhdr h a), put_pool tid 0 c q h st)"
    by (rule buffer_alloc_at [OF at sz])
  have rc: "r = Some ?a" "c = local_caches st tid 0" "q = pool'" "h = hp'" using at'(1) e(1) by simp_all
  let ?st = "put_pool tid 0 (local_caches st tid 0) pool' hp' st"
  note d = pool_atD [OF at]
  have tbl: "pool_tbl ?st ! 0 = pool'" "heap ?st = hp'" using d(2) by (simp_all add: put_pool_def)
  have post: "pool_same pool' ?p" "\<forall>x\<in>allocated_at st 0. hdrs hp' x = hdrs (heap st) x" "?a \<in> set (hdr_list ?p)" "?a \<notin> allocated_at st 0"
    "allocated pool' hp' = insert ?a (allocated_at st 0)" using at'(2) rc by (simp_all add: alloc_post_def)
  have at1: "pool_at ?st 0 B" using at'(3) rc by simp
  have hl: "hdr_list pool' = hdr_list ?p" using post(1) by (simp add: hdr_list_def pool_same_def)
  have "odp_buffer_alloc tid 0 st = Inr (bh_handle (bhdr (heap ?st) ?a), ?st)"
    using at'(4) rc len(2) d(4) tbl by (simp add: odp_buffer_alloc_def odp_pool_to_entry_def pool_handle_to_index_def)
  moreover have "small_pool abi len ?st"
    using sm post(1) e(3) at1 tbl hl by (auto simp: small_pool_def Let_def pool_same_def inline_data_def put_pool_def)
  moreover have "odp_buf_to_hdr ?st (bh_handle (bhdr (heap ?st) ?a)) = Inr ?a"
    by (rule hdr_handle [OF at1, of ?a]) (use post(3) hl tbl in simp_all)
  moreover have "same_pools st ?st" using post(1) tbl by (simp add: same_pools_def put_pool_def)
  ultimately show thesis using that [of ?st ?a] at1 post e(2) tbl by simp
qed

section \<open>Scheduled queues\<close>

abbreviation NUM_PRI_QUEUES :: nat where "NUM_PRI_QUEUES \<equiv> ODP_CONFIG_SCHED_PRIOS * QUEUES_PER_PRIO"

text \<open>The start of the scheduler without the threads.\<close>

definition sched_ready :: "sched_map \<Rightarrow> odp_sys \<Rightarrow> bool" where
  "sched_ready M sys \<longleftrightarrow> sched_static M sys \<and> (\<forall>i<length (queue_tbl sys). q_head (qentry sys i) = NULL \<and> q_tail (qentry sys i) = NULL) \<and>
    (\<forall>i\<in>sm_queues M. q_status (qentry sys i) = QUEUE_STATUS_NOTSCHED) \<and> prios_marked M sys"

lemma sched_start_iff: "sched_start M sys \<and> prios_marked M sys \<longleftrightarrow> sched_ready M sys \<and> (\<forall>t. slocal sys t = sched_local_init)"
  by (auto simp: sched_start_def sched_ready_def)

text \<open>
  A system after the start and the creation of queues: the first \<open>n\<close> queues are in use, among them the scheduled queues of \<open>M\<close>, each with a command of the
  pool of the scheduler; the first queues are the priority queues.
\<close>

definition started :: "odp_abi \<Rightarrow> u32 \<Rightarrow> sched_map \<Rightarrow> nat \<Rightarrow> odp_sys \<Rightarrow> bool" where
  "started abi len M n sys \<longleftrightarrow>
    queues_made n sys \<and> sched_ready M sys \<and> small_pool abi len (base sys) \<and> sc_pool (sched sys) = 0 \<and>
    pl_bufcount (pool_tbl (base sys) ! 0) = of_nat (NUM_SCHED_CMD - card (sm_queues M)) \<and>
    allocated_at (base sys) 0 = sm_cmd M ` sm_queues M \<and> sm_queues M \<subseteq> {NUM_PRI_QUEUES..<n} \<and> NUM_PRI_QUEUES \<le> n \<and>
    sched_shape (sched sys) \<and> pri_at all_sub_queues (sched sys) \<and> polled NUM_PRI_QUEUES sys"

lemma set_all_sub_queues: "(p, k) \<in> set all_sub_queues \<longleftrightarrow> p < ODP_CONFIG_SCHED_PRIOS \<and> k < QUEUES_PER_PRIO"
  unfolding all_sub_queues_def by (force simp del: ODP_CONFIG_SCHED_PRIOS_def QUEUES_PER_PRIO_def)

lemma all_sub_queues_facts: "length all_sub_queues = NUM_PRI_QUEUES" "distinct all_sub_queues" "\<forall>(p, k)\<in>set all_sub_queues. p < ODP_CONFIG_SCHED_PRIOS \<and> k < QUEUES_PER_PRIO"
proof -
  show "length all_sub_queues = NUM_PRI_QUEUES" "distinct all_sub_queues" by code_simp+
  show "\<forall>(p, k)\<in>set all_sub_queues. p < ODP_CONFIG_SCHED_PRIOS \<and> k < QUEUES_PER_PRIO" using set_all_sub_queues by blast
qed

lemma pri_queues_named:
  assumes "pri_at all_sub_queues (sched sys)" "length (queue_tbl sys) = ODP_CONFIG_QUEUES"
  shows "pri_queues sys \<subseteq> {..<NUM_PRI_QUEUES}"
    and "p < ODP_CONFIG_SCHED_PRIOS \<Longrightarrow> k < QUEUES_PER_PRIO \<Longrightarrow>
      \<exists>m<NUM_PRI_QUEUES. sc_pri_queue (sched sys) ! p ! k = queue_from_id (of_nat m) \<and> queue_to_qentry sys (sc_pri_queue (sched sys) ! p ! k) = Inr m \<and> m \<in> pri_queues sys"
proof -
  have *: "\<exists>m<NUM_PRI_QUEUES. sc_pri_queue (sched sys) ! p ! k = queue_from_id (of_nat m) \<and> queue_to_qentry sys (sc_pri_queue (sched sys) ! p ! k) = Inr m"
    if "p < ODP_CONFIG_SCHED_PRIOS" "k < QUEUES_PER_PRIO" for p k
  proof -
    have "(p, k) \<in> set all_sub_queues" using that by (simp add: set_all_sub_queues)
    then obtain m where "m < length all_sub_queues" "all_sub_queues ! m = (p, k)" by (metis in_set_conv_nth)
    then have m: "m < NUM_PRI_QUEUES" "sc_pri_queue (sched sys) ! p ! k = queue_from_id (of_nat m)" using assms(1) all_sub_queues_facts(1) unfolding pri_at_def by fastforce+
    moreover have "queue_to_qentry sys (queue_from_id (of_nat m)) = Inr m" using m(1) assms(2) by (intro handle_entry(4)) simp_all
    ultimately show ?thesis by auto
  qed
  show "pri_queues sys \<subseteq> {..<NUM_PRI_QUEUES}" unfolding pri_queues_def using * by fastforce
  show "\<exists>m<NUM_PRI_QUEUES. sc_pri_queue (sched sys) ! p ! k = queue_from_id (of_nat m) \<and> queue_to_qentry sys (sc_pri_queue (sched sys) ! p ! k) = Inr m \<and> m \<in> pri_queues sys"
    if "p < ODP_CONFIG_SCHED_PRIOS" "k < QUEUES_PER_PRIO" using * [OF that] that unfolding pri_queues_def by blast
qed

lemma buf_to_hdr_same: "same_pools st st' \<Longrightarrow> odp_buf_to_hdr st' b = odp_buf_to_hdr st b"
proof -
  assume s: "same_pools st st'"
  have "pl_mdata_addr (pool_tbl st' ! i) = pl_mdata_addr (pool_tbl st ! i)" for i using s by (cases "i = 0") (simp_all add: same_pools_def pool_same_def)
  then show ?thesis using s by (simp add: odp_buf_to_hdr_def get_pool_entry_def same_pools_def)
qed

lemma pri_id_less: "pri_id_queue q < QUEUES_PER_PRIO"
proof -
  have "(3 :: u32) AND queue_to_id q \<le> 3" by (rule word_and_le2)
  then have "unat ((3 :: u32) AND queue_to_id q) \<le> unat (3 :: u32)" by (simp only: word_le_nat_alt)
  then show ?thesis by (simp add: pri_id_queue_def)
qed

text \<open>What is in the tables after the creation of scheduled queue \<open>n\<close> with command \<open>a\<close>.\<close>

definition sched_added :: "string \<Rightarrow> queue_param \<Rightarrow> nat \<Rightarrow> addr \<Rightarrow> u32 \<Rightarrow> odp_sys \<Rightarrow> odp_sys \<Rightarrow> bool" where
  "sched_added name prm n a off_pq sys sys' \<longleftrightarrow>
    (let p = nat (qp_prio prm); k = pri_id_queue (queue_from_id (of_nat n)) in
       off_pq = sc_pri_queue (sched sys) ! p ! k \<and> sc_pri_mask (sched sys') = (sc_pri_mask (sched sys))[p := sc_pri_mask (sched sys) ! p OR push_bit k 1]) \<and>
    queue_tbl sys' = (queue_tbl sys)[n := (queue_init (qentry sys n) name ODP_QUEUE_TYPE_SCHED (Some prm))
      \<lparr>q_status := QUEUE_STATUS_NOTSCHED, q_cmd_ev := bh_handle (bhdr (sys_heap sys') a), q_pri_queue := off_pq\<rparr>] \<and>
    sc_pri_queue (sched sys') = sc_pri_queue (sched sys) \<and> sc_pool (sched sys') = sc_pool (sched sys) \<and> sched_locals sys' = sched_locals sys \<and>
    sched_cmds sys' = (sched_cmds sys)(bh_addr (bhdr (sys_heap sys') a) ! 0 := Cmd_Dequeue n) \<and> pktio_tbl sys' = pktio_tbl sys \<and> cls sys' = cls sys"

lemma create_sched:
  assumes "queues_made n sys" "n < ODP_CONFIG_QUEUES" "prio_ok (qp_prio prm)" "sc_pool (sched sys) = 0"
    and al: "odp_buffer_alloc tid 0 (base sys) = Inr (bh_handle (bhdr (heap st) a), st)" "odp_buf_to_hdr st (bh_handle (bhdr (heap st) a)) = Inr a"
      "bh_handle (bhdr (heap st) a) \<noteq> ODP_BUFFER_INVALID"
  shows "\<exists>sys'. odp_queue_create tid name ODP_QUEUE_TYPE_SCHED (Some prm) sys = Inr (queue_from_id (of_nat n), sys') \<and> base sys' = st \<and>
    sched_added name prm n a (sc_pri_queue (sched sys) ! nat (qp_prio prm) ! pri_id_queue (queue_from_id (of_nat n))) sys sys'"
proof -
  note d = queues_madeD [OF assms(1,2)]
  let ?q = "\<lambda>q. (queue_init q name ODP_QUEUE_TYPE_SCHED (Some prm))\<lparr>q_status := QUEUE_STATUS_NOTSCHED\<rparr>"
  let ?sys1 = "upd_queue n ?q sys" let ?sys2 = "?sys1\<lparr>base := st, sched_cmds := (sched_cmds sys)(bh_addr (bhdr (heap st) a) ! 0 := Cmd_Dequeue n)\<rparr>"
  have h: "q_handle (qentry ?sys1 n) = queue_from_id (of_nat n)" "qp_prio (q_param (qentry ?sys1 n)) = qp_prio prm"
    using d by (simp_all add: queue_init_def)
  have "sys_buffer_alloc tid (sc_pool (sched ?sys1)) ?sys1 = Inr (bh_handle (bhdr (heap st) a), ?sys1\<lparr>base := st\<rparr>)"
    using al(1) assms(4) by (simp add: sys_buffer_alloc_def)
  moreover have "set_cmd (bh_handle (bhdr (heap st) a)) (Cmd_Dequeue n) (?sys1\<lparr>base := st\<rparr>) = Inr ?sys2"
    using al(2) by (simp add: set_cmd_def odp_buffer_addr_def)
  ultimately show ?thesis
    unfolding odp_queue_create_def queues_made_next [OF assms(1,2)] using h al(3) assms(3) handle_entry(3) [OF assms(2)] d(5)
    by (simp add: Let_def schedule_queue_init_def pri_set_queue_def pri_set_def sched_added_def)
qed

lemma same_pools_refl: "same_pools st st"
  by (simp add: same_pools_def pool_same_def)

text \<open>The creation marks the priority of the new queue and keeps the marks of the others.\<close>

lemma added_marked:
  assumes add: "sched_added name prm n a pq sys sys'" and pm: "prios_marked M sys" and n: "n < length (queue_tbl sys)" "n \<notin> sm_queues M"
    and prio: "prio_ok (qp_prio prm)" and sh: "sched_shape (sched sys)"
  shows "prios_marked \<lparr>sm_queues = insert n (sm_queues M), sm_cmd = c, sm_pri = r\<rparr> sys'"
proof -
  note A = add [unfolded sched_added_def Let_def]
  let ?p = "nat (qp_prio prm)" let ?k = "pri_id_queue (queue_from_id (of_nat n))"
  have p: "?p < ODP_CONFIG_SCHED_PRIOS" using prio by (auto simp: prio_ok_def)
  have len: "length (sc_pri_mask (sched sys)) = ODP_CONFIG_SCHED_PRIOS" using sh by (simp add: sched_shape_def)
  have keep: "bit (sc_pri_mask (sched sys') ! q) j" if "bit (sc_pri_mask (sched sys) ! q) j" for q j
    using that A p len by (cases "q = ?p") (simp_all add: bit_or_iff)
  have "prio_marked sys' i" if "i \<in> sm_queues M" for i
  proof -
    have "prio_marked sys i" "i \<noteq> n" using pm n(2) that by (auto simp: prios_marked_def)
    then show ?thesis using keep A unfolding prio_marked_def by fastforce
  qed
  moreover have "prio_marked sys' n"
  proof -
    have "?k < 8" using pri_id_less [of "queue_from_id (of_nat n)"] by simp
    then have "bit (sc_pri_mask (sched sys') ! ?p) ?k" using A p len by (simp add: bit_or_iff bit_exp_iff)
    moreover have "sc_pri_queue (sched sys') ! ?p ! ?k = q_pri_queue (qentry sys' n)" using A n(1) by simp
    ultimately show ?thesis unfolding prio_marked_def using p pri_id_less by blast
  qed
  ultimately show ?thesis by (simp add: prios_marked_def)
qed

text \<open>The invariant of the scheduler after the creation, for the map with the new queue.\<close>

lemma added_start:
  assumes qm: "queues_made n sys" "n < ODP_CONFIG_QUEUES" and st: "sched_ready M sys" and sm: "small_pool abi len (base sys)"
    and al: "allocated_at (base sys) 0 = sm_cmd M ` sm_queues M" and low: "sm_queues M \<subseteq> {NUM_PRI_QUEUES..<n}" "NUM_PRI_QUEUES \<le> n"
    and pn: "pri_at all_sub_queues (sched sys)" and sh: "sched_shape (sched sys)" and prio: "prio_ok (qp_prio prm)"
    and new: "a \<in> set (hdr_list (pool_tbl (base sys) ! 0))" "a \<notin> allocated_at (base sys) 0" "odp_buf_to_hdr (base sys') (bh_handle (bhdr (sys_heap sys') a)) = Inr a"
      "bh_handle (bhdr (sys_heap sys') a) \<noteq> ODP_BUFFER_INVALID" "\<forall>x\<in>allocated_at (base sys) 0. hdrs (sys_heap sys') x = hdrs (sys_heap sys) x" "same_pools (base sys) (base sys')"
      "small_pool abi len (base sys')"
    and add: "sched_added name prm n a pq sys sys'" and pq: "m < NUM_PRI_QUEUES" "pq = queue_from_id (of_nat m)" "m \<in> pri_queues sys"
  shows "sched_ready \<lparr>sm_queues = insert n (sm_queues M), sm_cmd = (sm_cmd M)(n := a), sm_pri = (sm_pri M)(n := m)\<rparr> sys'" (is "sched_ready ?M sys'")
proof -
  note A = add [unfolded sched_added_def Let_def]
  have len: "length (queue_tbl sys) = ODP_CONFIG_QUEUES" "length (queue_tbl sys') = ODP_CONFIG_QUEUES" using qm(1) A by (simp_all add: queues_made_def)
  have tq: "queue_to_qentry sys' q = queue_to_qentry sys q" for q using len by (simp add: queue_to_qentry_def)
  have pq': "pri_queues sys' = pri_queues sys" using A by (simp add: pri_queues_def tq)
  have lowp: "pri_queues sys \<subseteq> {..<NUM_PRI_QUEUES}" by (rule pri_queues_named(1) [OF pn len(1)])
  have old: "qentry sys' i = qentry sys i" if "i \<noteq> n" for i using A that by simp
  have here: "qentry sys' n = (queue_init (qentry sys n) name ODP_QUEUE_TYPE_SCHED (Some prm))
      \<lparr>q_status := QUEUE_STATUS_NOTSCHED, q_cmd_ev := bh_handle (bhdr (sys_heap sys') a), q_pri_queue := pq\<rparr>" using A len(1) qm(2) by simp
  have hl: "hdr_list (pool_tbl (base sys') ! 0) = hdr_list (pool_tbl (base sys) ! 0)" using new(6) by (simp add: same_pools_def hdr_list_def pool_same_def)
  have ad: "bh_addr (bhdr (sys_heap sys') x) ! 0 = x + offsetof_addr_1 abi" if "x \<in> set (hdr_list (pool_tbl (base sys) ! 0))" for x
    using new(7) that hl by (simp add: small_pool_def inline_data_def Let_def)
  have S: "sched_static M sys" "\<And>i. i \<in> sm_queues M \<Longrightarrow> q_status (qentry sys i) = QUEUE_STATUS_NOTSCHED"
    using st by (simp_all add: sched_ready_def)
  have a0: "a \<noteq> NULL"
  proof -
    obtain B where "pool_at (base sys) 0 B" using sm by (auto simp: small_pool_def)
    from pool_atD(7) [OF this] obtain L bl where "pool_rep {} (pool_tbl (base sys) ! 0) (sys_heap sys) (\<lambda>t. local_caches (base sys) t 0) L bl B" by (auto simp: pool_inv_def)
    from pool_rep_coreD(1) [OF this] show ?thesis using new(1) by (auto simp: pool_core_def)
  qed
  have q1: "sched_queue ?M sys' i \<and> sm_pri ?M i \<in> pri_queues sys' \<and> i \<notin> pri_queues sys'" if i: "i \<in> sm_queues M" for i
  proof -
    have ne: "i \<noteq> n" using low(1) i by auto
    have O: "sched_queue M sys i" "sm_pri M i \<in> pri_queues sys" "i \<notin> pri_queues sys" using S(1) i by (simp_all add: sched_static_def)
    have c: "sm_cmd M i \<in> allocated_at (base sys) 0" using al i by blast
    then have "sm_cmd M i \<in> set (hdr_list (pool_tbl (base sys) ! 0))" "sm_cmd M i \<noteq> a" using new(2) by (auto simp: allocated_def)
    then have "bh_addr (bhdr (sys_heap sys') (sm_cmd M i)) ! 0 \<noteq> bh_addr (bhdr (sys_heap sys') a) ! 0" using ad new(1) by simp
    moreover have "hdrs (sys_heap sys') (sm_cmd M i) = hdrs (sys_heap sys) (sm_cmd M i)" using new(5) c by blast
    ultimately show ?thesis using O ne A old [OF ne] pq'
      by (auto simp: sched_queue_def Let_def tq buf_to_hdr_same [OF new(6)] get_cmd_def odp_buffer_addr_def)
  qed
  have q2: "sched_queue ?M sys' n \<and> sm_pri ?M n \<in> pri_queues sys' \<and> n \<notin> pri_queues sys'"
  proof -
    have "n \<notin> pri_queues sys" using lowp low(2) by auto
    moreover have "q_handle (qentry sys n) = queue_from_id (of_nat n)" by (rule queues_madeD(1) [OF qm])
    moreover have "m < ODP_CONFIG_QUEUES" using pq(1) by simp
    ultimately show ?thesis using here new(3,4) qm(2) a0 pq A handle_entry(4) [OF qm(2) len(1)] handle_entry(3) [of m] handle_entry(4) [of m sys] len
      by (simp add: sched_queue_def Let_def tq pq' get_cmd_def odp_buffer_addr_def queue_init_def ODP_BUFFER_INVALID_def)
  qed
  have pk: "pri_queue_ok sys' j" if "j \<in> pri_queues sys'" for j
  proof -
    have "j \<noteq> n" using that pq' lowp low(2) by auto
    moreover have "pri_queue_ok sys j" using S(1) that pq' by (simp add: sched_static_def)
    ultimately show ?thesis using old len by (simp add: pri_queue_ok_def)
  qed
  have "inj_on (sm_cmd ?M) (sm_queues ?M)"
  proof -
    have "inj_on (sm_cmd M) (sm_queues M)" using S(1) by (simp add: sched_static_def)
    moreover have "n \<notin> sm_queues M" using low(1) by auto
    moreover have "a \<notin> sm_cmd M ` sm_queues M" using new(2) al by simp
    ultimately show ?thesis by (auto simp: inj_on_def)
  qed
  then have "sched_static ?M sys'" using S(1) q1 q2 pk A unfolding sched_static_def by (simp add: tq)
  moreover have "q_head (qentry sys' i) = NULL \<and> q_tail (qentry sys' i) = NULL" if "i < length (queue_tbl sys')" for i
    using queues_madeD(2,3) [OF qm(1), of i] old here len that by (cases "i = n") (simp_all add: queue_init_def)
  moreover have "q_status (qentry sys' i) = QUEUE_STATUS_NOTSCHED" if "i \<in> sm_queues ?M" for i
    using S(2) old here that by (cases "i = n") simp_all
  moreover have "prios_marked ?M sys'"
    by (rule added_marked [OF add _ _ _ prio sh]) (use st low(1) qm(2) len in \<open>auto simp: sched_ready_def\<close>)
  ultimately show ?thesis using A by (simp add: sched_ready_def)
qed

text \<open>Every creation of a scheduled queue succeeds while there is a free queue: the commands suffice.\<close>

lemma create_sched_started:
  assumes s: "started abi len M n sys" and n: "n < ODP_CONFIG_QUEUES" and prio: "prio_ok (qp_prio prm)"
  obtains M' sys' where "odp_queue_create tid name ODP_QUEUE_TYPE_SCHED (Some prm) sys = Inr (queue_from_id (of_nat n), sys')" "started abi len M' (Suc n) sys'"
    "sm_queues M' = insert n (sm_queues M)" "q_param (qentry sys' n) = prm" "\<And>i. i \<noteq> n \<Longrightarrow> qentry sys' i = qentry sys i"
    "pktio_tbl sys' = pktio_tbl sys" "cls sys' = cls sys" "sched_locals sys' = sched_locals sys"
proof -
  note D = s [unfolded started_def]
  have qm: "queues_made n sys" and sm: "small_pool abi len (base sys)" and sp: "sc_pool (sched sys) = 0" and pn: "pri_at all_sub_queues (sched sys)" and sh: "sched_shape (sched sys)"
    and low: "sm_queues M \<subseteq> {NUM_PRI_QUEUES..<n}" "NUM_PRI_QUEUES \<le> n" and al0: "allocated_at (base sys) 0 = sm_cmd M ` sm_queues M" using D by blast+
  obtain B where at: "pool_at (base sys) 0 B" using sm by (auto simp: small_pool_def)
  have card: "card (sm_queues M) \<le> n - NUM_PRI_QUEUES" using card_mono [OF _ low(1)] by simp
  then have c1: "card (sm_queues M) < NUM_SCHED_CMD" using n low(2) by (simp add: NUM_SCHED_CMD_def)
  have bc: "pl_bufcount (pool_tbl (base sys) ! 0) = of_nat (NUM_SCHED_CMD - card (sm_queues M))" using D by blast
  have "(of_nat (NUM_SCHED_CMD - card (sm_queues M)) :: u32) \<noteq> 0"
  proof -
    have "unat (of_nat (NUM_SCHED_CMD - card (sm_queues M)) :: u32) = NUM_SCHED_CMD - card (sm_queues M)" by (intro unat_of_nat_small) (simp add: NUM_SCHED_CMD_def)
    then show ?thesis using c1 by (metis less_not_refl2 unat_0 zero_less_diff)
  qed
  then have ne: "pl_bufcount (pool_tbl (base sys) ! 0) \<noteq> 0" using bc by simp
  obtain a st where al: "odp_buffer_alloc tid 0 (base sys) = Inr (bh_handle (bhdr (heap st) a), st)" "pool_at st 0 B" "small_pool abi len st"
    "a \<in> set (hdr_list (pool_tbl (base sys) ! 0))" "a \<notin> allocated_at (base sys) 0" "allocated_at st 0 = insert a (allocated_at (base sys) 0)"
    "odp_buf_to_hdr st (bh_handle (bhdr (heap st) a)) = Inr a" "\<forall>x\<in>allocated_at (base sys) 0. hdrs (heap st) x = hdrs (sys_heap sys) x"
    "same_pools (base sys) st" "pl_bufcount (pool_tbl st ! 0) = pl_bufcount (pool_tbl (base sys) ! 0) - 1" by (rule small_alloc [OF at sm ne])
  have inv: "bh_handle (bhdr (heap st) a) \<noteq> ODP_BUFFER_INVALID"
  proof -
    have "a \<in> set (hdr_list (pool_tbl st ! 0))" using al(6) by (auto simp: allocated_def)
    then have "bits_pool_id (bh_handle (bhdr (heap st) a)) = of_nat 0" by (auto elim: hdr_handle [OF al(2)])
    moreover have "bits_pool_id ODP_BUFFER_INVALID \<noteq> of_nat 0" by code_simp
    ultimately show ?thesis by metis
  qed
  let ?pq = "sc_pri_queue (sched sys) ! nat (qp_prio prm) ! pri_id_queue (queue_from_id (of_nat n))"
  have len: "length (queue_tbl sys) = ODP_CONFIG_QUEUES" using qm by (simp add: queues_made_def)
  have "nat (qp_prio prm) < ODP_CONFIG_SCHED_PRIOS" using prio by (auto simp: prio_ok_def)
  from pri_queues_named(2) [OF pn len this pri_id_less] obtain m where m: "m < NUM_PRI_QUEUES" "?pq = queue_from_id (of_nat m)" "m \<in> pri_queues sys" by blast
  obtain sys' where c: "odp_queue_create tid name ODP_QUEUE_TYPE_SCHED (Some prm) sys = Inr (queue_from_id (of_nat n), sys')" "base sys' = st"
    "sched_added name prm n a ?pq sys sys'" using create_sched [OF qm n prio sp al(1,7) inv] by blast
  note A = c(3) [unfolded sched_added_def Let_def]
  let ?M = "\<lparr>sm_queues = insert n (sm_queues M), sm_cmd = (sm_cmd M)(n := a), sm_pri = (sm_pri M)(n := m)\<rparr>"
  have st': "sched_ready M sys" using D by blast
  have start: "sched_ready ?M sys'"
    by (rule added_start [OF qm n st' sm al0 low pn sh prio al(4,5) _ _ _ _ _ c(3) m]) (use c(2) al inv in simp_all)
  have fin: "finite (sm_queues M)" "n \<notin> sm_queues M" using low(1) finite_subset by auto
  then have "NUM_SCHED_CMD - card (sm_queues M) = Suc (NUM_SCHED_CMD - card (insert n (sm_queues M)))" using c1 by simp
  then have bc': "pl_bufcount (pool_tbl (base sys') ! 0) = of_nat (NUM_SCHED_CMD - card (sm_queues ?M))" using al(10) c(2) bc by simp
  have qm': "queues_made (Suc n) sys'"
    by (rule queues_made_put [OF qm n, where q = "qentry sys' n"]) (use A n len in \<open>simp_all add: queue_init_def\<close>)
  have alc: "allocated_at (base sys') 0 = sm_cmd ?M ` sm_queues ?M" using al(6) al0 c(2) fin(2) by (auto simp: image_iff)
  have po: "polled NUM_PRI_QUEUES sys'" using D A low(2) by (simp add: polled_def)
  have "pri_at all_sub_queues (sched sys')" "sched_shape (sched sys')" using D A by (simp_all add: pri_at_def sched_shape_def)
  then have "started abi len ?M (Suc n) sys'" unfolding started_def using start qm' bc' alc po al(3) c(2) A sp low by auto
  then show thesis by (rule that [OF c(1)]) (use A n len in \<open>simp_all add: queue_init_def\<close>)
qed

end
