(* ===== verification/Odp_Init_Correct.thy ===== *)
theory Odp_Init_Correct
  imports Odp_Init_Tables
begin

text \<open>
  The start of an instance is correct: every component reserves its block and starts, and what is reached is the state from which the theorems on
  the components hold, above all the invariant of the scheduler for all queues that an application can create. The end of the process undoes it.
\<close>

section \<open>Reserving the blocks of the components\<close>

definition shm_names :: "string list \<Rightarrow> 'os shm_sys \<Rightarrow> bool" where
  "shm_names ns s \<longleftrightarrow> (\<exists>bs. shm_has bs s \<and> map sb_name bs = ns)"

text \<open>Sizes of blocks that are not absurd.\<close>

definition blocks_fit :: "'os init_env \<Rightarrow> bool" where
  "blocks_fit env \<longleftrightarrow> (\<forall>name. snd (e_blk env name) \<noteq> 0 \<and> unat (fst (e_blk env name)) + unat (snd (e_blk env name)) < 2 ^ 40) \<and> unat (e_huge_sz env) < 2 ^ 40"

lemma env_reserve_next:
  assumes fit: "unat sz + unat align < 2 ^ 40" "align \<noteq> 0" "unat (e_huge_sz env) < 2 ^ 40" and ns: "shm_names ns s" "length ns < ODP_CONFIG_SHM_BLOCKS"
    and nm: "name \<noteq> ''''" "name \<notin> set ns" "length name < ODP_SHM_NAME_LEN" and os: "os_serves (e_os env) (Suc k) (shm_world s)"
  obtains shm s' where "env_reserve env name sz align s = Inr (shm, s')" "shm = to_handle (of_nat (length ns))" "shm \<noteq> ODP_SHM_INVALID" "odp_shm_addr shm s' \<noteq> 0"
    "shm_names (ns @ [name]) s'" "os_serves (e_os env) k (shm_world s')"
proof -
  obtain bs where bs: "shm_has bs s" "map sb_name bs = ns" using ns(1) by (auto simp: shm_names_def)
  then have l: "length bs < ODP_CONFIG_SHM_BLOCKS" "name \<notin> sb_name ` set bs" using ns(2) nm(2) by auto
  let ?h = "to_handle (of_nat (length bs)) :: u32"
  obtain b w where r: "odp_shm_reserve (e_os env) (e_page_sz env) (e_huge_sz env) name sz align 0 s =
      Inr (?h, s\<lparr>shm_tbl := (shm_tbl s)[length bs := b], shm_world := w\<rparr>)" "sb_name b = name" "sb_addr b \<noteq> 0" "sb_hdl b = to_handle (of_nat (length bs))" "sb_flags b = 0" "os_serves (e_os env) k w"
    by (rule reserve_next [OF bs(1) l(1) nm(1) l(2) nm(3) fit os])
  let ?s = "s\<lparr>shm_tbl := (shm_tbl s)[length bs := b], shm_world := w\<rparr>"
  have has: "shm_has (bs @ [b]) ?s" by (rule shm_has_put [OF bs(1) l(1) r(3-5)])
  have "odp_shm_addr ?h ?s = b_addr" if "b_addr = sb_addr b" for b_addr using addr_block [OF l(1), of ?s] shm_has_nth [OF has l(1)] that by simp
  moreover have "shm_names (ns @ [name]) ?s" unfolding shm_names_def using has bs(2) r(2) by (intro exI [of _ "bs @ [b]"]) simp
  ultimately show thesis using that [of ?h ?s] r handle_index [OF l(1)] bs(2) by (auto simp: env_reserve_def)
qed

lemma with_block_next:
  assumes "blocks_fit env" "shm_names ns (in_shm inst)" "length ns < ODP_CONFIG_SHM_BLOCKS" "name \<noteq> ''''" "name \<notin> set ns" "length name < ODP_SHM_NAME_LEN"
    and "os_serves (e_os env) (Suc k) (shm_world (in_shm inst))"
  obtains shm a s where "with_block env name f inst = f shm a (inst\<lparr>in_shm := s\<rparr>)" "shm = to_handle (of_nat (length ns))" "shm \<noteq> ODP_SHM_INVALID" "a \<noteq> 0"
    "shm_names (ns @ [name]) s" "os_serves (e_os env) k (shm_world s)"
proof -
  have fit: "unat (fst (e_blk env name)) + unat (snd (e_blk env name)) < 2 ^ 40" "snd (e_blk env name) \<noteq> 0" "unat (e_huge_sz env) < 2 ^ 40"
    using assms(1) by (simp_all add: blocks_fit_def)
  show thesis by (rule env_reserve_next [OF fit assms(2-7)]) (use that in \<open>simp add: with_block_def\<close>)
qed

section \<open>The scheduler at the start\<close>

lemma started_more:
  assumes s: "started abi len M n sys" and q: "queues_made n' sys'" "n \<le> n'" "\<forall>m<n. qentry sys' m = qentry sys m"
    and r: "base sys' = base sys" "sched sys' = sched sys" "sched_cmds sys' = sched_cmds sys"
  shows "started abi len M n' sys'"
proof -
  note D = s [unfolded started_def]
  have len: "length (queue_tbl sys') = ODP_CONFIG_QUEUES" "length (queue_tbl sys) = ODP_CONFIG_QUEUES" using q(1) D by (simp_all add: queues_made_def)
  have tq: "queue_to_qentry sys' h = queue_to_qentry sys h" for h using len by (simp add: queue_to_qentry_def)
  have pq: "pri_queues sys' = pri_queues sys" using r by (simp add: pri_queues_def tq)
  have low: "pri_queues sys \<subseteq> {..<NUM_PRI_QUEUES}" using D len by (intro pri_queues_named(1)) simp_all
  have old: "qentry sys' i = qentry sys i" if "i \<in> sm_queues M \<or> i < NUM_PRI_QUEUES" for i
  proof -
    have "sm_queues M \<subseteq> {NUM_PRI_QUEUES..<n}" "NUM_PRI_QUEUES \<le> n" using D by blast+
    then have "i < n" using that by auto
    then show ?thesis using q(3) by blast
  qed
  have st: "sched_ready M sys" using D by blast
  have "sched_queue M sys' i = sched_queue M sys i" if "i \<in> sm_queues M" for i
    using old that r len by (simp add: sched_queue_def Let_def tq get_cmd_def)
  moreover have "pri_queue_ok sys' j = pri_queue_ok sys j" if "j \<in> pri_queues sys" for j
  proof -
    have "j < NUM_PRI_QUEUES" using low that by auto
    then show ?thesis using old len by (simp add: pri_queue_ok_def)
  qed
  ultimately have "sched_static M sys'" using st r by (simp add: sched_ready_def sched_static_def pq tq)
  moreover have "q_head (qentry sys' i) = NULL \<and> q_tail (qentry sys' i) = NULL" if "i < length (queue_tbl sys')" for i
    using queues_madeD(2,3) [OF q(1), of i] that len by simp
  moreover have "q_status (qentry sys' i) = QUEUE_STATUS_NOTSCHED" if "i \<in> sm_queues M" for i using st old that by (simp add: sched_ready_def)
  moreover have "prios_marked M sys'" using st old r by (simp add: sched_ready_def prios_marked_def prio_marked_def)
  ultimately have "sched_ready M sys'" using st r by (simp add: sched_ready_def)
  moreover have "polled NUM_PRI_QUEUES sys'" using D old by (simp add: polled_def)
  ultimately show ?thesis unfolding started_def using D q r by auto
qed

abbreviation no_queues :: sched_map where "no_queues \<equiv> \<lparr>sm_queues = {}, sm_cmd = (\<lambda>_. NULL), sm_pri = (\<lambda>_. 0)\<rparr>"

lemma pools_ready:
  assumes "odp_pool_init_global ta st0 = (0, st)"
  shows "st = st0\<lparr>pool_tbl := pool_tbl st\<rparr>" "local_caches st = local_caches st0" "heap st = heap st0" "length (pool_tbl st) = ODP_CONFIG_POOLS"
    "free_slot st = Some 0" "pl_pool_id (pool_tbl st ! 0) = 0" "pl_pool_hdl (pool_tbl st ! 0) = 0"
    "i < ODP_CONFIG_POOLS \<Longrightarrow> pl_pool_shm (pool_tbl st ! i) = ODP_SHM_INVALID"
proof -
  let ?e = "\<lambda>i :: nat. zero_pool_entry\<lparr>pl_pool_hdl := pool_index_to_handle (of_nat i), pl_pool_id := of_nat i, pl_bufcount := 0, pl_blkcount := 0, pl_stats := zero_stats\<rparr>"
  have s: "st = st0\<lparr>pool_tbl := map ?e [0..<ODP_CONFIG_POOLS]\<rparr>"
    using assms by (cases "ta = NULL") (simp_all add: odp_pool_init_global_def del: ODP_CONFIG_POOLS_def)
  have p: "(0 :: nat) < ODP_CONFIG_POOLS" by simp
  have t: "pool_tbl st = map ?e [0..<ODP_CONFIG_POOLS]" unfolding s by simp
  then show len: "length (pool_tbl st) = ODP_CONFIG_POOLS" by (simp only: length_map length_upt diff_zero)
  have e: "pool_tbl st ! 0 = ?e 0" unfolding t using p by (simp only: nth_map length_upt nth_upt diff_zero add_0)
  show "st = st0\<lparr>pool_tbl := pool_tbl st\<rparr>" "local_caches st = local_caches st0" "heap st = heap st0" unfolding t by (simp_all only: s, simp_all)
  show "pl_pool_id (pool_tbl st ! 0) = 0" "pl_pool_hdl (pool_tbl st ! 0) = 0" unfolding e by (simp_all add: pool_index_to_handle_def)
  show "pl_pool_shm (pool_tbl st ! i) = ODP_SHM_INVALID" if "i < ODP_CONFIG_POOLS"
  proof -
    have "pool_tbl st ! i = ?e i" unfolding t using that by (simp only: nth_map length_upt nth_upt diff_zero add_0)
    then show ?thesis by (simp add: zero_pool_entry_def ODP_SHM_INVALID_def)
  qed
  have "[0..<ODP_CONFIG_POOLS] = 0 # [1..<ODP_CONFIG_POOLS]" using upt_conv_Cons [OF p] by simp
  then show "free_slot st = Some 0" unfolding free_slot_def len using e by (simp add: zero_pool_entry_def ODP_SHM_INVALID_def)
qed

text \<open>The pool of the scheduler, whose block is \<open>shm\<close>, is the only one.\<close>

definition only_pool :: "u32 \<Rightarrow> odp_state \<Rightarrow> bool" where
  "only_pool shm st \<longleftrightarrow> length (pool_tbl st) = ODP_CONFIG_POOLS \<and> pl_pool_shm (pool_tbl st ! 0) = shm \<and> pl_buf_num (pool_tbl st ! 0) = of_nat NUM_SCHED_CMD \<and>
    \<not> pl_predefined (pool_tbl st ! 0) \<and> (\<forall>i. 0 < i \<and> i < ODP_CONFIG_POOLS \<longrightarrow> pl_pool_shm (pool_tbl st ! i) = ODP_SHM_INVALID)"

lemma sched_pool_created:
  assumes sz: "sizes_ok env" and tbl: "odp_pool_init_global ta st0 = (0, st)"
    and caches: "\<forall>t i. lc_freelist (local_caches st0 t i) = NULL" and arr: "\<forall>a. length (bh_addr (bhdr (heap st0) a)) = ODP_BUFFER_MAX_SEG"
    and shm: "res ''odp_sched_pool'' (geo_pool_size (sched_geo env)) = (shm, adr)" "shm \<noteq> ODP_SHM_INVALID" "0 < adr"
  obtains st' where "odp_pool_create (e_abi env) res (Some ''odp_sched_pool'') (Some (sched_pool_param env)) st = Some (Inr (0, st'))"
    "small_pool (e_abi env) (e_cmd_size env) st'" "allocated_at st' 0 = {}" "pl_bufcount (pool_tbl st' ! 0) = of_nat NUM_SCHED_CMD"
    "only_pool shm st'"
proof -
  let ?p = "sched_pool_param env" let ?g = "sched_geo env"
  note lc = pools_ready [OF tbl]
  have slot: "free_slot st = Some 0" by (rule lc(5))
  have geo: "pool_create_geometry (e_abi env) (default_params ?p) = Inr (Some ?g)" by (rule sched_pool_geometry [OF sz])
  have dp: "default_params ?p = ?p" by (simp add: default_params_def sched_pool_param_def)
  have abi: "abi_ok (e_abi env)" "0 < e_cmd_size env" "unat (e_cmd_size env) \<le> ODP_MAX_INLINE_BUF" using sz by (simp_all add: sizes_ok_def)
  note g = sched_geo_simps [OF sz]
  have ids: "pl_pool_id (pool_tbl st ! 0) = of_nat 0" "pl_pool_hdl (pool_tbl st ! 0) = of_nat 0" using lc(6,7) by simp_all
  have cs: "\<forall>t. lc_freelist (local_caches st t 0) = NULL" "\<forall>a. length (bh_addr (bhdr (heap st) a)) = ODP_BUFFER_MAX_SEG" using caches arr lc(2,3) by simp_all
  have num: "0 < pp_num ?p" "unat (pp_num ?p) * unat (g_blk_size ?g) < 2 ^ 32" "unat (pp_size_len ?p) \<le> 2 ^ 29"
    using abi g(1) by (simp_all add: sched_pool_param_def NUM_SCHED_CMD_def)
  let ?c = "create_claim (Some ''odp_sched_pool'') (default_params ?p) ?g (pool_tbl st ! 0)"
  have nm: "pl_name ?c = ''odp_sched_pool''" "pl_pool_size ?c = geo_pool_size ?g" "pl_buf_num ?c = g_buf_num ?g" by (simp_all add: create_claim_def ODP_POOL_NAME_LEN_def)
  have sh: "res (pl_name ?c) (geo_pool_size ?g) = (shm, adr)" unfolding nm(1) by (rule shm(1))
  have pools: "(0 :: nat) < ODP_CONFIG_POOLS" by simp
  obtain st' B where c: "odp_pool_create (e_abi env) res (Some ''odp_sched_pool'') (Some ?p) st = Some (Inr (of_nat 0, st'))" "pool_at st' 0 B" "allocated_at st' 0 = {}"
    "pl_bufcount (pool_tbl st' ! 0) = pp_num ?p" "local_caches st' = local_caches st" "pl_params (pool_tbl st' ! 0) = default_params ?p"
    "pl_seg_size (pool_tbl st' ! 0) = geo_seg ?g" "pl_headroom (pool_tbl st' ! 0) = g_headroom ?g" "pl_tailroom (pool_tbl st' ! 0) = g_tailroom ?g"
    "pl_unsegmented (pool_tbl st' ! 0) = g_unseg ?g"
    using odp_pool_create_at [OF abi(1) slot pools ids cs geo num, where shm_reserve = res and name = "Some ''odp_sched_pool''" and shm = shm and base = adr, OF sh shm(2,3)] by blast
  obtain pool hp where s: "create_in_slot (e_abi env) ?g shm adr ?c (heap st) = Some (Inr (pool, hp))" "st' = st\<lparr>pool_tbl := (pool_tbl st)[0 := pool], heap := hp\<rparr>"
  proof -
    have "map_option (\<lambda>r. and_then r (\<lambda>(pool, hp). Inr (pl_pool_hdl pool, st\<lparr>pool_tbl := (pool_tbl st)[0 := pool], heap := hp\<rparr>)))
        (create_in_slot (e_abi env) ?g shm adr ?c (heap st)) = Some (Inr (of_nat 0, st'))"
      using c(1) geo slot shm(1,2) nm(1,2) by (simp add: odp_pool_create_def Let_def)
    then show thesis using that by (auto simp: and_then_Inr)
  qed
  have gok: "geo_ok ?g (pp_type (default_params ?p))"
    by (rule create_geometry_ok(1) [OF geo abi(1)]) (use num dp in simp_all)
  have bl: "0 < g_blk_size ?g" "unat (g_blk_size ?g) \<le> ODP_MAX_INLINE_BUF" using g(1) abi by simp_all
  have "pool_tbl st' ! 0 = pool" "heap st' = hp" using s(2) lc(4) by simp_all
  then have il: "inline_data (e_abi env) (pool_tbl st' ! 0) (heap st')" "pl_blk_size (pool_tbl st' ! 0) = e_cmd_size env" "pl_pool_shm (pool_tbl st' ! 0) = shm"
    "pl_buf_num (pool_tbl st' ! 0) = g_buf_num ?g" "pl_predefined (pool_tbl st' ! 0) = pl_predefined ?c"
    using create_in_slot_inline [OF gok shm(3) nm(3) cs(2) bl s(1)] g(1) by simp_all
  have "pl_pool_shm (pool_tbl st' ! i) = ODP_SHM_INVALID" if "0 < i" "i < ODP_CONFIG_POOLS" for i using s(2) lc(8) [OF that(2)] that(1) by simp
  then have only: "only_pool shm st'" using il(3-5) s(2) lc(4) g(5) by (simp add: only_pool_def create_claim_def NUM_SCHED_CMD_def)
  have "small_pool (e_abi env) (e_cmd_size env) st'"
    using il(1,2) c dp g abi(3) cs(1) by (auto simp: small_pool_def Let_def geo_seg_def sched_pool_param_def)
  then show thesis using that [of st'] c only by (simp add: sched_pool_param_def)
qed

lemma queues_made_init: "odp_queue_init_global True sys = (0, sys') \<Longrightarrow> queues_made 0 sys'"
  by (auto simp: odp_queue_init_global_def queues_made_def zero_queue_def nth_map simp del: ODP_CONFIG_QUEUES_def)

text \<open>The scheduler without queues is ready.\<close>

lemma started_empty:
  assumes q: "queues_made n sys" "NUM_PRI_QUEUES \<le> n" and p: "polled NUM_PRI_QUEUES sys" "pri_at all_sub_queues (sched sys)"
    "sched_shape (sched sys)" "sc_pool (sched sys) = 0"
    and b: "small_pool abi len (base sys)" "allocated_at (base sys) 0 = {}" "pl_bufcount (pool_tbl (base sys) ! 0) = of_nat NUM_SCHED_CMD"
  shows "started abi len no_queues n sys"
proof -
  have len: "length (queue_tbl sys) = ODP_CONFIG_QUEUES" using q(1) by (simp add: queues_made_def)
  note pn = pri_queues_named [OF p(2) len]
  have "pri_queue_ok sys j" if "j \<in> pri_queues sys" for j using that pn(1) p(1) len by (auto simp: pri_queue_ok_def polled_def)
  then have "sched_static no_queues sys" using pn(2) unfolding sched_static_def by fastforce
  moreover have "q_head (qentry sys i) = NULL \<and> q_tail (qentry sys i) = NULL" if "i < length (queue_tbl sys)" for i
    using queues_madeD(2,3) [OF q(1)] that len by simp
  ultimately have "sched_ready no_queues sys" by (simp add: sched_ready_def prios_marked_def)
  then show ?thesis unfolding started_def using assms by simp
qed

lemma init_schedule_run:
  assumes fit: "blocks_fit env" "sizes_ok env" and ns: "shm_names ns (in_shm inst)" "length ns + 1 < ODP_CONFIG_SHM_BLOCKS" "''odp_scheduler'' \<notin> set ns" "''odp_sched_pool'' \<notin> set ns"
    and os: "os_serves (e_os env) (Suc (Suc k)) (shm_world (in_shm inst))"
    and p: "odp_pool_init_global ta st0 = (0, base (in_sys inst))" "\<forall>t i. lc_freelist (local_caches st0 t i) = NULL"
      "\<forall>a. length (bh_addr (bhdr (heap st0) a)) = ODP_BUFFER_MAX_SEG"
    and q: "queues_made 0 (in_sys inst)"
  obtains shm s sys where "init_schedule env tid inst = Some (Inr (0, inst\<lparr>in_shm := s, in_sys := sys, in_sched_shm := shm\<rparr>))"
    "started (e_abi env) (e_cmd_size env) no_queues NUM_PRI_QUEUES sys" "shm_names (ns @ [''odp_scheduler'', ''odp_sched_pool'']) s" "os_serves (e_os env) k (shm_world s)"
    "sched_locals sys = sched_locals (in_sys inst)" "shm = to_handle (of_nat (length ns))" "only_pool (to_handle (of_nat (Suc (length ns)))) (base sys)"
proof -
  let ?g = "sched_geo env"
  define f :: "u32 \<Rightarrow> u64 \<Rightarrow> ('a, 'b) odp_instance \<Rightarrow> ('a, 'b) init_result" where "f = (\<lambda>shm a inst. let s = in_shm inst;
         s1 = (if a = 0 then s
               else case pool_block (e_abi env) (Some ''odp_sched_pool'') (Some (sched_pool_param env)) (base (in_sys inst)) of
                 None \<Rightarrow> s
               | Some (name, sz) \<Rightarrow> (case env_reserve env name sz ODP_PAGE_SIZE s of Inl e \<Rightarrow> s | Inr (_, s1) \<Rightarrow> s1))
     in run_then (odp_schedule_init_global (e_abi env) (pool_reserve env s) (a \<noteq> 0) (e_cmd_size env) tid (in_sys inst)) (\<lambda>(r, sys).
          Some (Inr (r, inst\<lparr>in_shm := s1, in_sys := sys, in_sched_shm := shm\<rparr>))))"
  have nm: "''odp_scheduler'' \<noteq> ''''" "length ''odp_scheduler'' < ODP_SHM_NAME_LEN" "''odp_sched_pool'' \<noteq> ''''" "length ''odp_sched_pool'' < ODP_SHM_NAME_LEN"
    by (simp_all add: ODP_SHM_NAME_LEN_def)
  have l: "length ns < ODP_CONFIG_SHM_BLOCKS" "length (ns @ [''odp_scheduler'']) < ODP_CONFIG_SHM_BLOCKS" "''odp_sched_pool'' \<notin> set (ns @ [''odp_scheduler''])" using ns(2,4) by simp_all
  obtain shm a s where r: "with_block env ''odp_scheduler'' f inst = f shm a (inst\<lparr>in_shm := s\<rparr>)" "shm = to_handle (of_nat (length ns))" "shm \<noteq> ODP_SHM_INVALID" "a \<noteq> 0"
    "shm_names (ns @ [''odp_scheduler'']) s" "os_serves (e_os env) (Suc k) (shm_world s)"
    by (rule with_block_next [OF fit(1) ns(1) l(1) nm(1) ns(3) nm(2) os, where f = f])
  have hs: "unat (e_huge_sz env) < 2 ^ 40" using fit(1) by (simp add: blocks_fit_def)
  have pg: "(ODP_PAGE_SIZE :: u64) \<noteq> 0" by simp
  obtain shm2 s2 where r2: "env_reserve env ''odp_sched_pool'' (geo_pool_size ?g) ODP_PAGE_SIZE s = Inr (shm2, s2)" "shm2 = to_handle (of_nat (length (ns @ [''odp_scheduler''])))" "shm2 \<noteq> ODP_SHM_INVALID" "odp_shm_addr shm2 s2 \<noteq> 0"
    "shm_names ((ns @ [''odp_scheduler'']) @ [''odp_sched_pool'']) s2" "os_serves (e_os env) k (shm_world s2)"
    by (rule env_reserve_next [OF sched_pool_size [OF fit(2)] pg hs r(5) l(2) nm(3) l(3) nm(4) r(6)])
  have res: "pool_reserve env s ''odp_sched_pool'' (geo_pool_size ?g) = (shm2, int (unat (odp_shm_addr shm2 s2)))" using r2(1) by (simp add: pool_reserve_def del: of_nat_unat)
  have pos: "0 < int (unat (odp_shm_addr shm2 s2))" using r2(4) by (simp add: unat_gt_0 del: of_nat_unat)
  obtain st where c: "odp_pool_create (e_abi env) (pool_reserve env s) (Some ''odp_sched_pool'') (Some (sched_pool_param env)) (base (in_sys inst)) = Some (Inr (0, st))"
    "small_pool (e_abi env) (e_cmd_size env) st" "allocated_at st 0 = {}" "pl_bufcount (pool_tbl st ! 0) = of_nat NUM_SCHED_CMD" "only_pool shm2 st"
    by (rule sched_pool_created [where res = "pool_reserve env s", OF fit(2) p res r2(3) pos])
  let ?sys1 = "(in_sys inst)\<lparr>base := st, sched := zero_sched\<lparr>sc_pool := 0\<rparr>\<rparr>"
  have sh: "queues_made (length []) ?sys1" "length [] + length all_sub_queues \<le> ODP_CONFIG_QUEUES" "distinct ([] @ all_sub_queues)" "polled (length []) ?sys1" "pri_at [] (sched ?sys1)"
    "sched_shape (sched ?sys1)" using q all_sub_queues_facts by (simp_all add: queues_made_def sched_shape_def zero_sched_def polled_def pri_at_def)
  from create_pri_queues_run [OF sh all_sub_queues_facts(3), of tid] obtain sys where
    cp: "create_pri_queues all_sub_queues tid ?sys1 = Inr (0, sys)" "queues_made NUM_PRI_QUEUES sys" "polled NUM_PRI_QUEUES sys"
      "pri_at all_sub_queues (sched sys)" "sched_shape (sched sys)" "rest_same ?sys1 sys" "sc_pool (sched sys) = 0"
    unfolding append_Nil all_sub_queues_facts(1) by auto
  have rs: "base sys = st" "sched_locals sys = sched_locals (in_sys inst)" using cp(6) by (simp_all add: rest_same_def)
  have pb: "pool_block (e_abi env) (Some ''odp_sched_pool'') (Some (sched_pool_param env)) (base (in_sys inst)) = Some (''odp_sched_pool'', geo_pool_size ?g)"
    using sched_pool_geometry [OF fit(2)] pools_ready(5) [OF p(1)] by (simp add: pool_block_def create_claim_def ODP_POOL_NAME_LEN_def Let_def)
  have "odp_schedule_init_global (e_abi env) (pool_reserve env s) True (e_cmd_size env) tid (in_sys inst) = Some (Inr (0, sys))"
    using c(1) cp(1) by (simp add: odp_schedule_init_global_def sched_pool_param_def run_then_def Let_def ODP_POOL_INVALID_def)
  then have "f shm a (inst\<lparr>in_shm := s\<rparr>) = Some (Inr (0, inst\<lparr>in_shm := s2, in_sys := sys, in_sched_shm := shm\<rparr>))"
    using r(4) pb r2(1) by (simp add: f_def run_then_def Let_def)
  then have i: "init_schedule env tid inst = Some (Inr (0, inst\<lparr>in_shm := s2, in_sys := sys, in_sched_shm := shm\<rparr>))"
    unfolding init_schedule_def f_def [symmetric] using r(1) by (simp only:)
  have "started (e_abi env) (e_cmd_size env) no_queues NUM_PRI_QUEUES sys"
    by (rule started_empty [OF cp(2) le_refl cp(3-5,7)]) (use c rs in simp_all)
  then show thesis using that [OF i] r2 rs r(2) c(5) by simp
qed

section \<open>The other components at the start\<close>

text \<open>The names of the blocks of shared memory, in the order of their reservation.\<close>

definition start_blocks :: "string list" where
  "start_blocks = [''odp_thread_globals'', ''odp_buffer_pools'', ''odp_queues'', ''odp_scheduler'', ''odp_sched_pool'', ''odp_pktio_entries'', ''crypto_pool'',
    ''shm_odp_cos_tbl'', ''shm_odp_pmr_tbl'', ''shm_odp_pmr_set_tbl'']"

text \<open>The first \<open>k\<close> blocks are reserved and the operating system serves the others.\<close>

definition blocks_at :: "'os init_env \<Rightarrow> nat \<Rightarrow> 'os shm_sys \<Rightarrow> bool" where
  "blocks_at env k s \<longleftrightarrow> shm_names (take k start_blocks) s \<and> os_serves (e_os env) (10 - k) (shm_world s)"

lemma start_block_names:
  assumes "k < 10"
  shows "start_blocks ! k \<noteq> ''''" "start_blocks ! k \<notin> set (take k start_blocks)" "length (start_blocks ! k) < ODP_SHM_NAME_LEN"
    "take (Suc k) start_blocks = take k start_blocks @ [start_blocks ! k]" "length (take k start_blocks) = k"
proof -
  have "\<forall>k<10. start_blocks ! k \<noteq> '''' \<and> start_blocks ! k \<notin> set (take k start_blocks) \<and> length (start_blocks ! k) < ODP_SHM_NAME_LEN" by code_simp
  then show "start_blocks ! k \<noteq> ''''" "start_blocks ! k \<notin> set (take k start_blocks)" "length (start_blocks ! k) < ODP_SHM_NAME_LEN" using assms by blast+
  have "length start_blocks = 10" by (simp add: start_blocks_def)
  then show "take (Suc k) start_blocks = take k start_blocks @ [start_blocks ! k]" "length (take k start_blocks) = k" using assms by (simp_all add: take_Suc_conv_app_nth)
qed

lemma with_start_block:
  assumes "blocks_fit env" "blocks_at env k (in_shm inst)" "k < 10" "name = start_blocks ! k"
  obtains shm a s where "with_block env name f inst = f shm a (inst\<lparr>in_shm := s\<rparr>)" "shm \<noteq> ODP_SHM_INVALID" "a \<noteq> 0" "blocks_at env (Suc k) s"
proof -
  note n = start_block_names [OF assms(3)]
  have l: "length (take k start_blocks) < ODP_CONFIG_SHM_BLOCKS" using n(5) assms(3) by (simp add: ODP_CONFIG_SHM_BLOCKS_def)
  have "10 - k = Suc (10 - Suc k)" using assms(3) by simp
  then have s: "shm_names (take k start_blocks) (in_shm inst)" "os_serves (e_os env) (Suc (10 - Suc k)) (shm_world (in_shm inst))" using assms(2) by (simp_all only: blocks_at_def)
  show thesis unfolding assms(4)
    by (rule with_block_next [OF assms(1) s(1) l n(1-3) s(2), where f = f]) (rule that, simp_all add: blocks_at_def n(4) assms(4))
qed

lemma init_shm_run:
  assumes "e_tbl_addr env \<noteq> None" "os_serves (e_os env) 10 (shm_world (in_shm inst))"
  obtains s where "init_shm env inst = Some (Inr (0, inst\<lparr>in_shm := s\<rparr>))" "blocks_at env 0 s"
proof -
  let ?s = "(in_shm inst)\<lparr>shm_tbl := replicate ODP_CONFIG_SHM_BLOCKS zero_block\<rparr>"
  have "shm_has [] ?s" by (simp add: shm_has_def)
  then have "blocks_at env 0 ?s" using assms(2) by (simp add: blocks_at_def shm_names_def)
  moreover have "init_shm env inst = Some (Inr (0, inst\<lparr>in_shm := ?s\<rparr>))" using assms(1) by (auto simp: init_shm_def odp_shm_init_global_def)
  ultimately show thesis using that by blast
qed

lemma init_threads_run:
  assumes "blocks_fit env" "blocks_at env 0 (in_shm inst)"
  obtains s t where "init_threads env inst = Some (Inr (0, inst\<lparr>in_shm := s, in_threads := t\<rparr>))" "blocks_at env 1 s" "odp_thread_init_global True (in_threads inst) = (0, t)"
proof (rule with_start_block [OF assms, where name = "''odp_thread_globals''"])
  fix shm a s assume "with_block env ''odp_thread_globals'' (\<lambda>shm a inst. let (r, t) = odp_thread_init_global (a \<noteq> 0) (in_threads inst) in Some (Inr (r, inst\<lparr>in_threads := t\<rparr>))) inst =
      (let (r, t) = odp_thread_init_global (a \<noteq> 0) (in_threads (inst\<lparr>in_shm := s\<rparr>)) in Some (Inr (r, inst\<lparr>in_shm := s\<rparr>\<lparr>in_threads := t\<rparr>)))"
    "a \<noteq> (0 :: u64)" "blocks_at env (Suc 0) s"
  then show thesis by (intro that) (auto simp: init_threads_def odp_thread_init_global_def Let_def)
qed (simp_all add: start_blocks_def)

lemma init_pools_run:
  assumes "blocks_fit env" "blocks_at env 1 (in_shm inst)"
  obtains s st ta where "init_pools env inst = Some (Inr (0, inst\<lparr>in_shm := s, in_sys := (in_sys inst)\<lparr>base := st\<rparr>\<rparr>))" "blocks_at env 2 s"
    "odp_pool_init_global ta (base (in_sys inst)) = (0, st)"
proof (rule with_start_block [OF assms, where name = "''odp_buffer_pools''"])
  fix shm a s assume b: "with_block env ''odp_buffer_pools'' (\<lambda>shm a inst. let (r, st) = odp_pool_init_global (int (unat a)) (base (in_sys inst)) in Some (Inr (r, inst\<lparr>in_sys := (in_sys inst)\<lparr>base := st\<rparr>\<rparr>))) inst =
      (let (r, st) = odp_pool_init_global (int (unat a)) (base (in_sys (inst\<lparr>in_shm := s\<rparr>))) in Some (Inr (r, inst\<lparr>in_shm := s\<rparr>\<lparr>in_sys := (in_sys (inst\<lparr>in_shm := s\<rparr>))\<lparr>base := st\<rparr>\<rparr>)))"
    "a \<noteq> (0 :: u64)" "blocks_at env (Suc 1) s"
  have nz: "int (unat a) \<noteq> NULL" using b(2) by (simp add: uint_0_iff)
  obtain st where st: "odp_pool_init_global (int (unat a)) (base (in_sys inst)) = (0, st)" using nz by (simp add: odp_pool_init_global_def del: of_nat_unat ODP_CONFIG_POOLS_def)
  then have "init_pools env inst = Some (Inr (0, inst\<lparr>in_shm := s, in_sys := (in_sys inst)\<lparr>base := st\<rparr>\<rparr>))" unfolding init_pools_def b(1) by (simp del: of_nat_unat)
  moreover have "blocks_at env 2 s" using b(3) by (simp add: numeral_2_eq_2)
  ultimately show thesis using that st by blast
qed (simp_all add: start_blocks_def)

lemma init_queues_run:
  assumes "blocks_fit env" "blocks_at env 2 (in_shm inst)"
  obtains s sys where "init_queues env inst = Some (Inr (0, inst\<lparr>in_shm := s, in_sys := sys\<rparr>))" "blocks_at env 3 s" "queues_made 0 sys" "base sys = base (in_sys inst)"
    "sched_locals sys = sched_locals (in_sys inst)"
proof (rule with_start_block [OF assms, where name = "''odp_queues''"])
  fix shm a s assume b: "with_block env ''odp_queues'' (\<lambda>shm a inst. let (r, sys) = odp_queue_init_global (a \<noteq> 0) (in_sys inst) in Some (Inr (r, inst\<lparr>in_sys := sys\<rparr>))) inst =
      (let (r, sys) = odp_queue_init_global (a \<noteq> 0) (in_sys (inst\<lparr>in_shm := s\<rparr>)) in Some (Inr (r, inst\<lparr>in_shm := s\<rparr>\<lparr>in_sys := sys\<rparr>)))"
    "a \<noteq> (0 :: u64)" "blocks_at env (Suc 2) s"
  obtain sys where q: "odp_queue_init_global True (in_sys inst) = (0, sys)" "base sys = base (in_sys inst)" "sched_locals sys = sched_locals (in_sys inst)"
    by (simp add: odp_queue_init_global_def del: ODP_CONFIG_QUEUES_def)
  then have "init_queues env inst = Some (Inr (0, inst\<lparr>in_shm := s, in_sys := sys\<rparr>))" unfolding init_queues_def b(1) using b(2) by simp
  then show thesis using that b(3) q queues_made_init by simp
qed (simp_all add: start_blocks_def)

lemma init_schedule_start:
  assumes fit: "blocks_fit env" "sizes_ok env" and b: "blocks_at env 3 (in_shm inst)"
    and p: "odp_pool_init_global ta st0 = (0, base (in_sys inst))" "\<forall>t i. lc_freelist (local_caches st0 t i) = NULL"
      "\<forall>a. length (bh_addr (bhdr (heap st0) a)) = ODP_BUFFER_MAX_SEG"
    and q: "queues_made 0 (in_sys inst)"
  obtains shm s sys where "init_schedule env tid inst = Some (Inr (0, inst\<lparr>in_shm := s, in_sys := sys, in_sched_shm := shm\<rparr>))" "blocks_at env 5 s"
    "started (e_abi env) (e_cmd_size env) no_queues NUM_PRI_QUEUES sys" "sched_locals sys = sched_locals (in_sys inst)" "shm = to_handle 3" "only_pool (to_handle 4) (base sys)"
proof -
  have e: "take 5 start_blocks = take 3 start_blocks @ [''odp_scheduler'', ''odp_sched_pool'']" "(10 :: nat) - 3 = Suc (Suc (10 - 5))"
    "length (take 3 start_blocks) + 1 < ODP_CONFIG_SHM_BLOCKS" "''odp_scheduler'' \<notin> set (take 3 start_blocks)" "''odp_sched_pool'' \<notin> set (take 3 start_blocks)"
    by (simp_all add: start_blocks_def ODP_CONFIG_SHM_BLOCKS_def)
  have s: "shm_names (take 3 start_blocks) (in_shm inst)" "os_serves (e_os env) (Suc (Suc (10 - 5))) (shm_world (in_shm inst))"
    using b unfolding blocks_at_def e(2) by blast+
  obtain shm s' sys where r: "init_schedule env tid inst = Some (Inr (0, inst\<lparr>in_shm := s', in_sys := sys, in_sched_shm := shm\<rparr>))"
    "started (e_abi env) (e_cmd_size env) no_queues NUM_PRI_QUEUES sys" "shm_names (take 3 start_blocks @ [''odp_scheduler'', ''odp_sched_pool'']) s'"
    "os_serves (e_os env) (10 - 5) (shm_world s')" "sched_locals sys = sched_locals (in_sys inst)"
    "shm = to_handle (of_nat (length (take 3 start_blocks)))" "only_pool (to_handle (of_nat (Suc (length (take 3 start_blocks))))) (base sys)"
    by (rule init_schedule_run [OF fit s(1) e(3-5) s(2) p q])
  have "shm = to_handle 3" "only_pool (to_handle 4) (base sys)" using r(6,7) by (simp_all add: start_blocks_def)
  then show thesis by (intro that [OF r(1) _ r(2,5)]) (unfold blocks_at_def e(1), intro conjI r(3,4))
qed

lemma init_pktio_run:
  assumes b: "blocks_fit env" "blocks_at env 5 (in_shm inst)" and st: "started abi len no_queues NUM_PRI_QUEUES (in_sys inst)"
  obtains s sys where "init_pktio env tid inst = Some (Inr (0, inst\<lparr>in_shm := s, in_sys := sys\<rparr>))" "blocks_at env 6 s"
    "started abi len no_queues (NUM_PRI_QUEUES + ODP_CONFIG_PKTIO_ENTRIES) sys" "unused_pktio sys"
    "outq_at [1..<ODP_CONFIG_PKTIO_ENTRIES + 1] NUM_PRI_QUEUES sys" "sched_locals sys = sched_locals (in_sys inst)" "base sys = base (in_sys inst)"
proof (rule with_start_block [OF b, where name = "''odp_pktio_entries''"])
  fix shm a s assume w: "with_block env ''odp_pktio_entries'' (\<lambda>shm a inst. Some (and_then (odp_pktio_init_global (a \<noteq> 0) tid (in_sys inst)) (\<lambda>(r, sys). Inr (r, inst\<lparr>in_sys := sys\<rparr>)))) inst =
      Some (and_then (odp_pktio_init_global (a \<noteq> 0) tid (in_sys (inst\<lparr>in_shm := s\<rparr>))) (\<lambda>(r, sys). Inr (r, inst\<lparr>in_shm := s\<rparr>\<lparr>in_sys := sys\<rparr>)))"
    "a \<noteq> (0 :: u64)" "blocks_at env (Suc 5) s"
  let ?sys = "(in_sys inst)\<lparr>pktio_tbl := replicate ODP_CONFIG_PKTIO_ENTRIES zero_pktio_entry\<rparr>" let ?ns = "[1..<ODP_CONFIG_PKTIO_ENTRIES + 1]"
  have ns: "set ?ns = {1..ODP_CONFIG_PKTIO_ENTRIES}" "length ?ns = ODP_CONFIG_PKTIO_ENTRIES" by (auto simp del: ODP_CONFIG_PKTIO_ENTRIES_def upt_Suc)
  have qm: "queues_made (NUM_PRI_QUEUES + length []) ?sys" using st by (simp add: started_def queues_made_def)
  have un: "NUM_PRI_QUEUES + length [] + length ?ns \<le> ODP_CONFIG_QUEUES" "distinct ([] @ ?ns)" "outq_at [] NUM_PRI_QUEUES ?sys" "unused_pktio ?sys"
    "\<forall>k\<in>set ([] @ ?ns). 1 \<le> k \<and> k \<le> ODP_CONFIG_PKTIO_ENTRIES"
    unfolding append_Nil ns by (simp_all add: outq_at_def unused_pktio_def zero_pktio_entry_def)
  from create_outqs_run [OF qm un, of tid] obtain sys where c: "create_outqs ?ns tid ?sys = Inr (0, sys)"
    "queues_made (NUM_PRI_QUEUES + ODP_CONFIG_PKTIO_ENTRIES) sys" "outq_at ?ns NUM_PRI_QUEUES sys"
    "unused_pktio sys" "rest_same ?sys sys" "sched sys = sched ?sys" "\<forall>m<NUM_PRI_QUEUES. qentry sys m = qentry ?sys m"
    unfolding append_Nil ns(2) list.size(3) add_0_right by blast
  have rs: "base sys = base (in_sys inst)" "sched_cmds sys = sched_cmds (in_sys inst)" "sched_locals sys = sched_locals (in_sys inst)" using c(5) by (simp_all add: rest_same_def)
  have "started abi len no_queues (NUM_PRI_QUEUES + ODP_CONFIG_PKTIO_ENTRIES) sys"
    by (rule started_more [OF st c(2)]) (use c(6,7) rs in simp_all)
  moreover have "odp_pktio_init_global True tid (in_sys inst) = Inr (0, sys)" using c(1) by (simp only: odp_pktio_init_global_def not_True_eq_False if_False)
  then have "init_pktio env tid inst = Some (Inr (0, inst\<lparr>in_shm := s, in_sys := sys\<rparr>))" unfolding init_pktio_def w(1) using w(2) by simp
  moreover have "blocks_at env 6 s" using w(3) by simp
  ultimately show thesis using that c(3,4) rs(1,3) by blast
qed (simp_all add: start_blocks_def)

lemma init_crypto_run:
  assumes "blocks_fit env" "blocks_at env 6 (in_shm inst)"
  obtains s c where "init_crypto env ssl inst = Some (Inr (0, inst\<lparr>in_shm := s, in_crypto := c\<rparr>))" "blocks_at env 7 s" "sessions_inv (rev [0..<MAX_SESSIONS]) c"
proof (rule with_start_block [OF assms, where name = "''crypto_pool''"])
  fix shm a s assume w: "with_block env ''crypto_pool'' (\<lambda>shm a inst. Some (and_then (odp_crypto_init_global ssl (a \<noteq> 0) ((in_crypto inst)\<lparr>cr_sys := in_sys inst\<rparr>)) (\<lambda>(r, c). Inr (r, inst\<lparr>in_crypto := c, in_sys := cr_sys c\<rparr>)))) inst =
      Some (and_then (odp_crypto_init_global ssl (a \<noteq> 0) ((in_crypto (inst\<lparr>in_shm := s\<rparr>))\<lparr>cr_sys := in_sys (inst\<lparr>in_shm := s\<rparr>)\<rparr>)) (\<lambda>(r, c). Inr (r, inst\<lparr>in_shm := s\<rparr>\<lparr>in_crypto := c, in_sys := cr_sys c\<rparr>)))"
    "a \<noteq> (0 :: u64)" "blocks_at env (Suc 6) s"
  obtain r c where c: "odp_crypto_init_global ssl True ((in_crypto inst)\<lparr>cr_sys := in_sys inst\<rparr>) = Inr (r, c)" by (simp add: odp_crypto_init_global_def)
  note i = odp_crypto_init_global_inv [OF c]
  have "init_crypto env ssl inst = Some (Inr (0, inst\<lparr>in_shm := s, in_crypto := c\<rparr>))" unfolding init_crypto_def w(1) using w(2) c i by simp
  moreover have "blocks_at env 7 s" using w(3) by simp
  ultimately show thesis using that i(2) by blast
qed (simp_all add: start_blocks_def)

lemma cls_block_run:
  assumes "blocks_fit env" "blocks_at env k (in_shm inst)" "k < 10" "name = start_blocks ! k"
  obtains shm s where "cls_block env name before tbl nxt inst = nxt shm (inst\<lparr>in_shm := s, in_sys := (in_sys inst)\<lparr>cls := tbl (cls (in_sys inst))\<rparr>\<rparr>)" "blocks_at env (Suc k) s"
proof -
  define f where "f = (\<lambda>shm a inst. if shm = ODP_SHM_INVALID then Some (Inr (-1 :: int, release env before inst))
     else if a = (0 :: u64) then Some (Inr (-1, release env (shm # before) inst))
     else nxt shm (inst\<lparr>in_sys := (in_sys inst)\<lparr>cls := tbl (cls (in_sys inst))\<rparr>\<rparr>))"
  show thesis
    by (rule with_start_block [OF assms, where f = f]) (rule that, simp_all add: cls_block_def f_def)
qed

definition no_rules :: cls_tbls where
  "no_rules = \<lparr>cos_tbl = replicate ODP_COS_MAX_ENTRY zero_cos, pmr_tbl = replicate ODP_PMR_MAX_ENTRY (zero_pmr 1),
    pmr_set_tbl = replicate ODP_PMRSET_MAX_ENTRY (zero_pmr ODP_PMRTERM_MAX)\<rparr>"

lemma init_classification_run:
  assumes fit: "blocks_fit env" and b: "blocks_at env 7 (in_shm inst)"
  obtains s where "odp_classification_init_global env inst = Some (Inr (0, inst\<lparr>in_shm := s, in_sys := (in_sys inst)\<lparr>cls := no_rules\<rparr>\<rparr>))" "blocks_at env 10 s"
proof -
  have n: "''shm_odp_cos_tbl'' = start_blocks ! 7" "''shm_odp_pmr_tbl'' = start_blocks ! 8" "''shm_odp_pmr_set_tbl'' = start_blocks ! 9" by (simp_all add: start_blocks_def)
  have k: "Suc 7 = 8" "Suc 8 = 9" "Suc 9 = (10 :: nat)" by simp_all
  define n3 :: "u32 \<Rightarrow> ('a, 'b) odp_instance \<Rightarrow> ('a, 'b) init_result" where "n3 = (\<lambda>_ inst. Some (Inr (0, inst)))"
  define n2 where "n2 = (\<lambda>cos_shm pmr_shm. cls_block env ''shm_odp_pmr_set_tbl'' [pmr_shm, cos_shm] (\<lambda>t. t\<lparr>pmr_set_tbl := pmr_set_tbl no_rules\<rparr>) n3)"
  define n1 where "n1 = (\<lambda>cos_shm. cls_block env ''shm_odp_pmr_tbl'' [cos_shm] (\<lambda>t. t\<lparr>pmr_tbl := pmr_tbl no_rules\<rparr>) (n2 cos_shm))"
  have e: "odp_classification_init_global env inst = cls_block env ''shm_odp_cos_tbl'' [] (\<lambda>t. t\<lparr>cos_tbl := cos_tbl no_rules\<rparr>) n1 inst"
    by (simp add: odp_classification_init_global_def n1_def n2_def n3_def no_rules_def)
  let ?set = "\<lambda>s t. inst\<lparr>in_shm := s, in_sys := (in_sys inst)\<lparr>cls := t\<rparr>\<rparr>" let ?c = "cls (in_sys inst)"
  have full: "?c\<lparr>cos_tbl := cos_tbl no_rules, pmr_tbl := pmr_tbl no_rules, pmr_set_tbl := pmr_set_tbl no_rules\<rparr> = no_rules" by simp
  obtain shm1 s1 where 1: "odp_classification_init_global env inst = n1 shm1 (?set s1 (?c\<lparr>cos_tbl := cos_tbl no_rules\<rparr>))" "blocks_at env 8 s1"
    unfolding e by (rule cls_block_run [OF fit b _ n(1), where before = "[]" and tbl = "\<lambda>t. t\<lparr>cos_tbl := cos_tbl no_rules\<rparr>" and nxt = n1]) (simp_all add: k)
  have b8: "blocks_at env 8 (in_shm (?set s1 (?c\<lparr>cos_tbl := cos_tbl no_rules\<rparr>)))" using 1(2) by simp
  obtain shm2 s2 where 2: "n1 shm1 (?set s1 (?c\<lparr>cos_tbl := cos_tbl no_rules\<rparr>)) = n2 shm1 shm2 (?set s2 (?c\<lparr>cos_tbl := cos_tbl no_rules, pmr_tbl := pmr_tbl no_rules\<rparr>))" "blocks_at env 9 s2"
    unfolding n1_def by (rule cls_block_run [OF fit b8 _ n(2), where before = "[shm1]" and tbl = "\<lambda>t. t\<lparr>pmr_tbl := pmr_tbl no_rules\<rparr>" and nxt = "n2 shm1"]) (simp_all add: k)
  have b9: "blocks_at env 9 (in_shm (?set s2 (?c\<lparr>cos_tbl := cos_tbl no_rules, pmr_tbl := pmr_tbl no_rules\<rparr>)))" using 2(2) by simp
  obtain shm3 s3 where 3: "n2 shm1 shm2 (?set s2 (?c\<lparr>cos_tbl := cos_tbl no_rules, pmr_tbl := pmr_tbl no_rules\<rparr>)) = n3 shm3 (?set s3 no_rules)" "blocks_at env 10 s3"
    unfolding n2_def by (rule cls_block_run [OF fit b9 _ n(3), where before = "[shm2, shm1]" and tbl = "\<lambda>t. t\<lparr>pmr_set_tbl := pmr_set_tbl no_rules\<rparr>" and nxt = n3]) (simp_all add: k full)
  show thesis using that [of s3] 1(1) 2(1) 3 by (simp add: n3_def)
qed

section \<open>The whole start\<close>

abbreviation NUM_START_QUEUES :: nat where "NUM_START_QUEUES \<equiv> NUM_PRI_QUEUES + ODP_CONFIG_PKTIO_ENTRIES"

text \<open>The instance after the start, for a process whose state was \<open>inst0\<close> before.\<close>

definition instance_started :: "'os init_env \<Rightarrow> ('os, 'ks) odp_instance \<Rightarrow> ('os, 'ks) odp_instance \<Rightarrow> bool" where
  "instance_started env inst0 inst \<longleftrightarrow>
    started (e_abi env) (e_cmd_size env) no_queues NUM_START_QUEUES (in_sys inst) \<and> unused_pktio (in_sys inst) \<and>
    outq_at [1..<ODP_CONFIG_PKTIO_ENTRIES + 1] NUM_PRI_QUEUES (in_sys inst) \<and> in_sched_shm inst = to_handle 3 \<and> only_pool (to_handle 4) (base (in_sys inst)) \<and> cls (in_sys inst) = no_rules \<and>
    sched_locals (in_sys inst) = sched_locals (in_sys inst0) \<and> odp_thread_init_global True (in_threads inst0) = (0, in_threads inst) \<and>
    ts_num_pools (in_timers inst) = 0 \<and> sessions_inv (rev [0..<MAX_SESSIONS]) (in_crypto inst) \<and> shm_names start_blocks (in_shm inst)"

text \<open>What the start needs: memory of the process that was not used before, blocks and commands of possible sizes and an operating system that maps the blocks.\<close>

definition can_start :: "'os init_env \<Rightarrow> ('os, 'ks) odp_instance \<Rightarrow> bool" where
  "can_start env inst \<longleftrightarrow> sizes_ok env \<and> blocks_fit env \<and> e_tbl_addr env \<noteq> None \<and> os_serves (e_os env) 10 (shm_world (in_shm inst)) \<and>
    (\<forall>t i. lc_freelist (local_caches (base (in_sys inst)) t i) = NULL) \<and>
    (\<forall>a. length (bh_addr (bhdr (heap (base (in_sys inst))) a)) = ODP_BUFFER_MAX_SEG)"

lemma then_init_0 [simp]: "then_init (Some (Inr (0, inst))) f = f inst"
  by (simp add: then_init_def)

lemma set_functions_same [simp]:
  "in_shm (set_functions env params inst) = in_shm inst" "in_threads (set_functions env params inst) = in_threads inst" "in_sys (set_functions env params inst) = in_sys inst"
  by (simp_all add: set_functions_def Let_def split: option.split prod.split)

lemma init_global_started:
  assumes "can_start env inst0"
  obtains inst where "odp_init_global env ssl tid params inst0 = Some (Inr (0, inst))" "instance_started env inst0 inst"
proof -
  have c: "sizes_ok env" "blocks_fit env" "e_tbl_addr env \<noteq> None" "os_serves (e_os env) 10 (shm_world (in_shm inst0))"
    "\<forall>t i. lc_freelist (local_caches (base (in_sys inst0)) t i) = NULL" "\<forall>a. length (bh_addr (bhdr (heap (base (in_sys inst0))) a)) = ODP_BUFFER_MAX_SEG"
    using assms by (simp_all add: can_start_def)
  let ?i0 = "set_functions env params inst0"
  have os: "os_serves (e_os env) 10 (shm_world (in_shm ?i0))" using c(4) by simp
  obtain s1 where 1: "init_shm env ?i0 = Some (Inr (0, ?i0\<lparr>in_shm := s1\<rparr>))" "blocks_at env 0 s1" by (rule init_shm_run [OF c(3) os])
  let ?i1 = "?i0\<lparr>in_shm := s1\<rparr>" have b1: "blocks_at env 0 (in_shm ?i1)" using 1(2) by simp
  obtain s2 t where 2: "init_threads env ?i1 = Some (Inr (0, ?i1\<lparr>in_shm := s2, in_threads := t\<rparr>))" "blocks_at env 1 s2" "odp_thread_init_global True (in_threads ?i1) = (0, t)"
    by (rule init_threads_run [OF c(2) b1])
  let ?i2 = "?i1\<lparr>in_shm := s2, in_threads := t\<rparr>" have b2: "blocks_at env 1 (in_shm ?i2)" using 2(2) by simp
  obtain s3 st ta where 3: "init_pools env ?i2 = Some (Inr (0, ?i2\<lparr>in_shm := s3, in_sys := (in_sys ?i2)\<lparr>base := st\<rparr>\<rparr>))" "blocks_at env 2 s3"
    "odp_pool_init_global ta (base (in_sys ?i2)) = (0, st)" by (rule init_pools_run [OF c(2) b2])
  let ?i3 = "?i2\<lparr>in_shm := s3, in_sys := (in_sys ?i2)\<lparr>base := st\<rparr>\<rparr>" have b3: "blocks_at env 2 (in_shm ?i3)" using 3(2) by simp
  obtain s4 sys4 where 4: "init_queues env ?i3 = Some (Inr (0, ?i3\<lparr>in_shm := s4, in_sys := sys4\<rparr>))" "blocks_at env 3 s4" "queues_made 0 sys4" "base sys4 = base (in_sys ?i3)"
    "sched_locals sys4 = sched_locals (in_sys ?i3)" by (rule init_queues_run [OF c(2) b3])
  let ?i4 = "?i3\<lparr>in_shm := s4, in_sys := sys4\<rparr>"
  have b4: "blocks_at env 3 (in_shm ?i4)" "odp_pool_init_global ta (base (in_sys inst0)) = (0, base (in_sys ?i4))" "queues_made 0 (in_sys ?i4)" using 3(3) 4(2-4) by simp_all
  obtain shm s5 sys5 where 5: "init_schedule env tid ?i4 = Some (Inr (0, ?i4\<lparr>in_shm := s5, in_sys := sys5, in_sched_shm := shm\<rparr>))" "blocks_at env 5 s5"
    "started (e_abi env) (e_cmd_size env) no_queues NUM_PRI_QUEUES sys5" "sched_locals sys5 = sched_locals (in_sys ?i4)"
    "shm = to_handle 3" "only_pool (to_handle 4) (base sys5)"
    by (rule init_schedule_start [OF c(2,1) b4(1,2) c(5,6) b4(3)])
  let ?i5 = "?i4\<lparr>in_shm := s5, in_sys := sys5, in_sched_shm := shm\<rparr>"
  have b5: "blocks_at env 5 (in_shm ?i5)" "started (e_abi env) (e_cmd_size env) no_queues NUM_PRI_QUEUES (in_sys ?i5)" using 5(2,3) by simp_all
  obtain s6 sys6 where 6: "init_pktio env tid ?i5 = Some (Inr (0, ?i5\<lparr>in_shm := s6, in_sys := sys6\<rparr>))" "blocks_at env 6 s6"
    "started (e_abi env) (e_cmd_size env) no_queues NUM_START_QUEUES sys6" "unused_pktio sys6" "outq_at [1..<ODP_CONFIG_PKTIO_ENTRIES + 1] NUM_PRI_QUEUES sys6"
    "sched_locals sys6 = sched_locals (in_sys ?i5)" "base sys6 = base (in_sys ?i5)" by (rule init_pktio_run [OF c(2) b5])
  let ?i6 = "?i5\<lparr>in_shm := s6, in_sys := sys6\<rparr>"
  let ?i7 = "?i6\<lparr>in_timers := (in_timers ?i6)\<lparr>ts_sys := sys6, ts_num_pools := 0\<rparr>\<rparr>"
  have 7: "init_timers ?i6 = Some (Inr (0, ?i7))" by (simp add: init_timers_def odp_timer_init_global_def)
  have b7: "blocks_at env 6 (in_shm ?i7)" using 6(2) by simp
  obtain s8 cr where 8: "init_crypto env ssl ?i7 = Some (Inr (0, ?i7\<lparr>in_shm := s8, in_crypto := cr\<rparr>))" "blocks_at env 7 s8" "sessions_inv (rev [0..<MAX_SESSIONS]) cr"
    by (rule init_crypto_run [OF c(2) b7])
  let ?i8 = "?i7\<lparr>in_shm := s8, in_crypto := cr\<rparr>" have b8: "blocks_at env 7 (in_shm ?i8)" using 8(2) by simp
  obtain s9 where 9: "odp_classification_init_global env ?i8 = Some (Inr (0, ?i8\<lparr>in_shm := s9, in_sys := (in_sys ?i8)\<lparr>cls := no_rules\<rparr>\<rparr>))" "blocks_at env 10 s9"
    by (rule init_classification_run [OF c(2) b8])
  let ?i9 = "?i8\<lparr>in_shm := s9, in_sys := (in_sys ?i8)\<lparr>cls := no_rules\<rparr>\<rparr>"
  have run: "odp_init_global env ssl tid params inst0 = Some (Inr (0, ?i9))"
    unfolding odp_init_global_def by (simp only: 1(1) 2(1) 3(1) 4(1) 5(1) 6(1) 7 8(1) 9(1) then_init_0)
  have "started (e_abi env) (e_cmd_size env) no_queues NUM_START_QUEUES (in_sys ?i9)"
    by (rule started_more [OF 6(3) _ le_refl]) (use 6(3) in \<open>simp_all add: started_def queues_made_def\<close>)
  moreover have "shm_names start_blocks s9" using 9(2) by (simp add: blocks_at_def start_blocks_def)
  moreover have "sched_locals sys6 = sched_locals (in_sys inst0)" using 4(5) 5(4) 6(6) by simp
  ultimately have "instance_started env inst0 ?i9"
    unfolding instance_started_def using 2(3) 5(5,6) 6(4,5,7) 8(3) by (simp add: unused_pktio_def outq_at_def)
  then show thesis by (rule that [OF run])
qed

section \<open>Threads and queues after the start\<close>

text \<open>Threads that start one after the other, with what their calls return, and scheduled queues that an application creates, with their handles.\<close>

fun init_locals :: "(int \<times> nat \<times> thread_type) list \<Rightarrow> ('os, 'ks) odp_instance \<Rightarrow> int list \<times> ('os, 'ks) odp_instance" where
  "init_locals [] inst = ([], inst)"
| "init_locals ((cpu, t, type) # ths) inst = (let (r, i1) = odp_init_local cpu t type inst; (rs, i2) = init_locals ths i1 in (r # rs, i2))"

fun create_queues :: "nat \<Rightarrow> (string \<times> queue_param) list \<Rightarrow> odp_sys \<Rightarrow> c_error + (u32 list \<times> odp_sys)" where
  "create_queues tid [] sys = Inr ([], sys)"
| "create_queues tid ((name, prm) # reqs) sys =
    and_then (odp_queue_create tid name ODP_QUEUE_TYPE_SCHED (Some prm) sys) (\<lambda>(q, s1). and_then (create_queues tid reqs s1) (\<lambda>(qs, s2). Inr (q # qs, s2)))"

lemma init_local_run:
  assumes T: "thr_table (thread_globals (in_threads inst))" and room: "card (ids_used (in_threads inst)) < ODP_CONFIG_MAX_THREADS" and cpu: "0 \<le> cpu"
  obtains thr where "odp_init_local cpu t type inst = (0, inst\<lparr>in_threads := thr, in_sys := set_local t sched_local_init (in_sys inst)\<rparr>)"
    "thr_table (thread_globals thr)" "card (ids_used thr) = Suc (card (ids_used (in_threads inst)))" "this_thread thr t \<noteq> None"
    "\<And>u. u \<noteq> t \<Longrightarrow> this_thread thr u = this_thread (in_threads inst) u"
proof (rule init_local_room [OF T room, where cpu = cpu and t = t and type = type])
  let ?s = "in_threads inst"
  fix i g' assume a: "odp_thread_init_local cpu t type ?s =
      (if cpu < 0 then (-1, ?s\<lparr>thread_globals := g'\<rparr>)
       else (0, ?s\<lparr>thread_globals := g'\<lparr>tg_thr := (tg_thr g')[i := \<lparr>th_thr = int i, th_cpu = cpu, th_type = type\<rparr>]\<rparr>, this_thread := (this_thread ?s)(t := Some i)\<rparr>))"
    "thr_table g'" "tg_thr g' = tg_thr (thread_globals ?s)" "i < ODP_CONFIG_MAX_THREADS" "i \<notin> ids_used ?s"
    and used: "thr_set (tg_all g') = insert i (ids_used ?s)"
  let ?t = "?s\<lparr>thread_globals := g'\<lparr>tg_thr := (tg_thr g')[i := \<lparr>th_thr = int i, th_cpu = cpu, th_type = type\<rparr>]\<rparr>, this_thread := (this_thread ?s)(t := Some i)\<rparr>"
  have len: "length (tg_thr g') = ODP_CONFIG_MAX_THREADS" using a(2) by (simp add: thr_table_def)
  have "thr_table (thread_globals ?t)" using a(2) len by (simp add: thr_table_thr)
  moreover have "card (ids_used ?t) = Suc (card (ids_used ?s))" using used a(5) by simp
  moreover have "odp_init_local cpu t type inst = (0, inst\<lparr>in_threads := ?t, in_sys := set_local t sched_local_init (in_sys inst)\<rparr>)"
    using a(1) cpu by (simp add: odp_init_local_def odp_shm_init_local_def odp_pktio_init_local_def odp_schedule_init_local_def Let_def)
  ultimately show thesis using that [of ?t] by simp
qed

lemma init_locals_run:
  assumes "thr_table (thread_globals (in_threads inst))" "card (ids_used (in_threads inst)) + length ths \<le> ODP_CONFIG_MAX_THREADS" "\<forall>(cpu, t, type)\<in>set ths. 0 \<le> cpu"
  shows "\<exists>thr locs. init_locals ths inst = (replicate (length ths) 0, inst\<lparr>in_threads := thr, in_sys := (in_sys inst)\<lparr>sched_locals := locs\<rparr>\<rparr>) \<and>
    thr_table (thread_globals thr) \<and> card (ids_used thr) = card (ids_used (in_threads inst)) + length ths \<and>
    (\<forall>t. locs t = (if t \<in> (fst \<circ> snd) ` set ths then sched_local_init else slocal (in_sys inst) t))"
  using assms
proof (induction ths arbitrary: inst)
  case Nil
  then show ?case by (intro exI [of _ "in_threads inst"] exI [of _ "sched_locals (in_sys inst)"]) simp
next
  case (Cons th ths)
  obtain cpu t type where th: "th = (cpu, t, type)" by (cases th)
  have cpu: "0 \<le> cpu" and room: "card (ids_used (in_threads inst)) < ODP_CONFIG_MAX_THREADS" using Cons.prems(2,3) th by auto
  obtain thr where r: "odp_init_local cpu t type inst = (0, inst\<lparr>in_threads := thr, in_sys := set_local t sched_local_init (in_sys inst)\<rparr>)"
    "thr_table (thread_globals thr)" "card (ids_used thr) = Suc (card (ids_used (in_threads inst)))"
    by (rule init_local_run [OF Cons.prems(1) room cpu]) blast
  let ?i = "inst\<lparr>in_threads := thr, in_sys := set_local t sched_local_init (in_sys inst)\<rparr>"
  have p: "thr_table (thread_globals (in_threads ?i))" "card (ids_used (in_threads ?i)) + length ths \<le> ODP_CONFIG_MAX_THREADS" "\<forall>(cpu, t, type)\<in>set ths. 0 \<le> cpu"
    using Cons.prems(2,3) r by auto
  from Cons.IH [OF p] obtain thr' locs where IH: "init_locals ths ?i = (replicate (length ths) 0, ?i\<lparr>in_threads := thr', in_sys := (in_sys ?i)\<lparr>sched_locals := locs\<rparr>\<rparr>)"
    "thr_table (thread_globals thr')" "card (ids_used thr') = card (ids_used (in_threads ?i)) + length ths"
    "\<forall>t. locs t = (if t \<in> (fst \<circ> snd) ` set ths then sched_local_init else slocal (in_sys ?i) t)" by blast
  have e: "init_locals (th # ths) inst = (replicate (length (th # ths)) 0, inst\<lparr>in_threads := thr', in_sys := (in_sys inst)\<lparr>sched_locals := locs\<rparr>\<rparr>)"
    using r(1) IH(1) th by (simp add: set_local_def)
  have l: "locs u = (if u \<in> (fst \<circ> snd) ` set (th # ths) then sched_local_init else slocal (in_sys inst) u)" for u
    using IH(4) th by (simp add: set_local_def)
  show ?case by (intro exI [of _ thr'] exI [of _ locs] conjI allI l) (use e IH(2,3) r(3) in simp_all)
qed

lemma create_queues_run:
  assumes "started abi len M n sys" "n + length reqs \<le> ODP_CONFIG_QUEUES" "\<forall>(name, prm)\<in>set reqs. prio_ok (qp_prio prm)"
  shows "\<exists>M' sys'. create_queues tid reqs sys = Inr (map (\<lambda>k. queue_from_id (of_nat (n + k))) [0..<length reqs], sys') \<and> started abi len M' (n + length reqs) sys' \<and>
    sm_queues M' = sm_queues M \<union> {n..<n + length reqs} \<and> (\<forall>k<length reqs. q_param (qentry sys' (n + k)) = snd (reqs ! k)) \<and> (\<forall>i<n. qentry sys' i = qentry sys i) \<and>
    pktio_tbl sys' = pktio_tbl sys \<and> cls sys' = cls sys \<and> sched_locals sys' = sched_locals sys"
  using assms
proof (induction reqs arbitrary: M n sys)
  case Nil
  then show ?case by auto
next
  case (Cons req reqs)
  obtain name prm where req: "req = (name, prm)" by (cases req)
  have n: "n < ODP_CONFIG_QUEUES" and pr: "prio_ok (qp_prio prm)" using Cons.prems(2,3) req by auto
  obtain M1 s1 where c: "odp_queue_create tid name ODP_QUEUE_TYPE_SCHED (Some prm) sys = Inr (queue_from_id (of_nat n), s1)" "started abi len M1 (Suc n) s1"
    "sm_queues M1 = insert n (sm_queues M)" "q_param (qentry s1 n) = prm" "\<And>i. i \<noteq> n \<Longrightarrow> qentry s1 i = qentry sys i" "pktio_tbl s1 = pktio_tbl sys" "cls s1 = cls sys"
    "sched_locals s1 = sched_locals sys" by (rule create_sched_started [OF Cons.prems(1) n pr, of tid name]) blast
  have p: "Suc n + length reqs \<le> ODP_CONFIG_QUEUES" "\<forall>(name, prm)\<in>set reqs. prio_ok (qp_prio prm)" using Cons.prems(2,3) by auto
  from Cons.IH [OF c(2) p] obtain M2 s2 where IH: "create_queues tid reqs s1 = Inr (map (\<lambda>k. queue_from_id (of_nat (Suc n + k))) [0..<length reqs], s2)"
    "started abi len M2 (Suc n + length reqs) s2" "sm_queues M2 = sm_queues M1 \<union> {Suc n..<Suc n + length reqs}" "\<forall>k<length reqs. q_param (qentry s2 (Suc n + k)) = snd (reqs ! k)"
    "\<forall>i<Suc n. qentry s2 i = qentry s1 i" "pktio_tbl s2 = pktio_tbl s1" "cls s2 = cls s1" "sched_locals s2 = sched_locals s1" by blast
  have "map (\<lambda>k. queue_from_id (of_nat (n + k))) [0..<length (req # reqs)] = queue_from_id (of_nat n) # map (\<lambda>k. queue_from_id (of_nat (Suc n + k))) [0..<length reqs]"
    by (simp add: upt_conv_Cons map_Suc_upt [symmetric] comp_def add_ac del: upt_Suc map_Suc_upt)
  then have e: "create_queues tid (req # reqs) sys = Inr (map (\<lambda>k. queue_from_id (of_nat (n + k))) [0..<length (req # reqs)], s2)"
    using c(1) IH(1) req by simp
  have q: "sm_queues M2 = sm_queues M \<union> {n..<n + length (req # reqs)}" unfolding IH(3) c(3) by auto
  have k: "q_param (qentry s2 (n + k)) = snd ((req # reqs) ! k)" if "k < length (req # reqs)" for k
  proof (cases k)
    case 0
    then show ?thesis using c(4) IH(5) req by simp
  next
    case (Suc j)
    then have "q_param (qentry s2 (Suc n + j)) = snd (reqs ! j)" using IH(4) that by (simp only: list.size Suc_less_eq Suc_eq_plus1 [symmetric])
    then show ?thesis using Suc by simp
  qed
  show ?case by (intro exI [of _ M2] exI [of _ s2] conjI) (use e IH(2,5-) q k c(5-) in simp_all)
qed

section \<open>From the start to the scheduler\<close>

lemma started_locals: "started abi len M n sys \<Longrightarrow> started abi len M n (sys\<lparr>sched_locals := locs\<rparr>)"
  by (rule started_more) (auto simp: started_def queues_made_def)

lemma thread_init_global_table:
  assumes "odp_thread_init_global True s0 = (0, s)"
  shows "thr_table (thread_globals s)" "ids_used s = {}"
  using assms thrmask_zero by (auto simp: odp_thread_init_global_def thr_table_def)

text \<open> C28: Starting an instance and what an application does next. \<open>odp_init_global\<close> of a process that can start returns 0. Then every thread, up to the
  number the table of threads has room for, starts with \<open>odp_init_local\<close>, which returns 0; and every request for a scheduled queue with a valid
  priority is served, up to the queues that the start did not take for itself (32 priority queues and 64 output queues of interfaces): the
  handles are consecutive, the queues have the parameters asked for, the pool of commands, which was dimensioned at compile time, has one for
  each of them. Then the state is one from which the theorems on the scheduler hold: all queues are empty, every queue has its own command, no thread
  holds one, and the mask that the search of the scheduler goes by has the bit of the priority queue of every one of them (so waiting for an event ends). No interface is open, the classifier has no rules, all crypto sessions are free, there are no timer pools, and the blocks of shared memory
  are those of the components, in the order of the start.\<close>

theorem odp_init_global_correct:
  assumes "can_start env inst0"
    and "length ths \<le> ODP_CONFIG_MAX_THREADS" "\<forall>(cpu, t, type)\<in>set ths. 0 \<le> cpu"
    and "\<forall>t. t \<notin> (fst \<circ> snd) ` set ths \<longrightarrow> slocal (in_sys inst0) t = sched_local_init"
    and "length reqs \<le> ODP_CONFIG_QUEUES - (32 + 64)" "\<forall>(name, prm)\<in>set reqs. prio_ok (qp_prio prm)"
  shows "\<exists>inst1 inst2 sys M.
    odp_init_global env ssl tid params inst0 = Some (Inr (0, inst1)) \<and>
    init_locals ths inst1 = (replicate (length ths) 0, inst2) \<and> card (ids_used (in_threads inst2)) = length ths \<and>
    create_queues tid reqs (in_sys inst2) = Inr (map (\<lambda>k. queue_from_id (of_nat (32 + 64 + k))) [0..<length reqs], sys) \<and>
    (\<forall>k<length reqs. q_param (qentry sys (32 + 64 + k)) = snd (reqs ! k)) \<and>
    sched_start M sys \<and> prios_marked M sys \<and> sm_queues M = {32 + 64..<32 + 64 + length reqs} \<and>
    unused_pktio sys \<and> cls sys = no_rules \<and> sessions_inv (rev [0..<MAX_SESSIONS]) (in_crypto inst2) \<and> ts_num_pools (in_timers inst2) = 0 \<and>
    shm_names start_blocks (in_shm inst2)"
proof -
  have num: "NUM_PRI_QUEUES + ODP_CONFIG_PKTIO_ENTRIES = 32 + 64" by simp
  obtain inst1 where 1: "odp_init_global env ssl tid params inst0 = Some (Inr (0, inst1))" "instance_started env inst0 inst1" by (rule init_global_started [OF assms(1)])
  note i = 1(2) [unfolded instance_started_def num]
  have "odp_thread_init_global True (in_threads inst0) = (0, in_threads inst1)" using i by blast
  note t = thread_init_global_table [OF this]
  have "card (ids_used (in_threads inst1)) + length ths \<le> ODP_CONFIG_MAX_THREADS" using t(2) assms(2) by simp
  from init_locals_run [OF t(1) this assms(3)] obtain thr locs where 2: "init_locals ths inst1 = (replicate (length ths) 0, inst1\<lparr>in_threads := thr, in_sys := (in_sys inst1)\<lparr>sched_locals := locs\<rparr>\<rparr>)"
    "card (ids_used thr) = length ths" "\<And>t. locs t = (if t \<in> (fst \<circ> snd) ` set ths then sched_local_init else slocal (in_sys inst1) t)" using t(2) by auto
  have lo: "locs t = sched_local_init" for t using 2(3) assms(4) i by auto
  let ?i2 = "inst1\<lparr>in_threads := thr, in_sys := (in_sys inst1)\<lparr>sched_locals := locs\<rparr>\<rparr>"
  have st: "started (e_abi env) (e_cmd_size env) no_queues (32 + 64) (in_sys ?i2)" using i by (auto intro: started_locals)
  have "32 + 64 + length reqs \<le> ODP_CONFIG_QUEUES" using assms(5) by simp
  from create_queues_run [OF st this assms(6), of tid] obtain M sys where 3:
    "create_queues tid reqs (in_sys ?i2) = Inr (map (\<lambda>k. queue_from_id (of_nat (32 + 64 + k))) [0..<length reqs], sys)" "started (e_abi env) (e_cmd_size env) M (32 + 64 + length reqs) sys"
    "sm_queues M = {32 + 64..<32 + 64 + length reqs}" "\<forall>k<length reqs. q_param (qentry sys (32 + 64 + k)) = snd (reqs ! k)"
    "pktio_tbl sys = pktio_tbl (in_sys ?i2)" "cls sys = cls (in_sys ?i2)" "sched_locals sys = sched_locals (in_sys ?i2)" by auto
  have "sched_start M sys" "prios_marked M sys" using sched_start_iff [of M sys] 3(2,7) lo by (simp_all add: started_def)
  moreover have "unused_pktio sys" "cls sys = no_rules" using i 3(5,6) by (auto simp: unused_pktio_def)
  ultimately show ?thesis using 1(1) 2(1,2) 3(1,3,4) i by (intro exI [of _ inst1] exI [of _ ?i2] exI [of _ sys] exI [of _ M]) auto
qed

text \<open>A process on an operating system that maps every block at an address of its own, which starts two threads and asks for two queues.\<close>

definition start_os :: "nat shm_os" where
  "start_os = \<lparr>os_shm_open = (\<lambda>_ w. (3, w)), os_shm_unlink = (\<lambda>_ w. (0, w)), os_ftruncate = (\<lambda>_ _ w. (0, w)),
    os_mmap = (\<lambda>n _ _ _ w. if unat n < 2 ^ 41 \<and> w < 100 then (Some (of_nat (Suc w) * 0x40000000000), Suc w) else (None, w)), os_munmap = (\<lambda>_ _ w. (0, w))\<rparr>"

definition start_env :: "nat init_env" where
  "start_env = \<lparr>e_os = start_os, e_page_sz = 4096, e_huge_sz = 0x200000, e_blk = (\<lambda>_. (0x10000, 64)), e_abi = demo_abi, e_cmd_size = 32, e_tbl_addr = Some 0x1000,
    e_tbl_size = 0x2000, e_override_log = 16, e_override_abort = 32\<rparr>"

definition start_inst :: "(nat, u8) odp_instance" where
  "start_inst = \<lparr>in_log_fn = NULL, in_abort_fn = NULL, in_shm = \<lparr>shm_tbl = [], shm_world = 0\<rparr>,
    in_threads = \<lparr>thread_globals = \<lparr>tg_thr = [], tg_all = odp_thrmask_zero, tg_worker = odp_thrmask_zero, tg_control = odp_thrmask_zero, tg_num = 0, tg_num_worker = 0, tg_num_control = 0\<rparr>,
      this_thread = (\<lambda>_. None)\<rparr>,
    in_sys = demo_sys\<lparr>base := demo_init\<rparr>, in_sched_shm = 0, in_timers = \<lparr>ts_sys = demo_sys, ts_pools = [], ts_num_pools = 7, ts_tmo = (\<lambda>_. \<lparr>tmo_expiration = 0, tmo_user_ptr = 0, tmo_timer = 0\<rparr>)\<rparr>,
    in_crypto = demo_crypto\<rparr>"

lemma start_os_serves: "w + k \<le> 100 \<Longrightarrow> os_serves start_os k w"
proof (induction k arbitrary: w)
  case (Suc k)
  have u: "unat (of_nat (Suc w) * 0x40000000000 :: u64) = Suc w * 0x40000000000"
  proof -
    have "unat (of_nat (Suc w * 0x40000000000) :: u64) = Suc w * 0x40000000000" using Suc.prems by (intro unat_of_nat_small) simp
    then show ?thesis by (simp only: of_nat_mult of_nat_numeral)
  qed
  then have "(of_nat (Suc w) * 0x40000000000 :: u64) \<noteq> 0" by (metis mult_eq_0_iff nat.distinct(1) unat_0 zero_neq_numeral)
  moreover have "unat (of_nat (Suc w) * 0x40000000000 :: u64) < 2 ^ 63" unfolding u using Suc.prems by simp
  ultimately show ?case using Suc by (simp add: start_os_def)
qed simp

lemma start_can_start: "can_start start_env start_inst"
proof -
  have "os_serves start_os 10 (0 :: nat)" by (rule start_os_serves) simp
  then show ?thesis by (simp add: can_start_def sizes_ok_def blocks_fit_def start_env_def start_inst_def demo_init_def demo_hdr_def abi_ok_def demo_abi_def
      odp_pool_init_global_def)
qed

theorem odp_init_global_correct_witness:
  "\<exists>inst1 inst2 sys M.
    odp_init_global start_env sum_ssl 0 None start_inst = Some (Inr (0, inst1)) \<and>
    init_locals [(0 :: int, 0, ODP_THREAD_CONTROL), (1, 1, ODP_THREAD_WORKER)] inst1 = ([0, 0], inst2) \<and>
    create_queues 0 [(''in'', odp_queue_param_init), (''out'', odp_queue_param_init)] (in_sys inst2) = Inr ([97, 98], sys) \<and>
    sched_start M sys \<and> prios_marked M sys \<and> sm_queues M = {96, 97} \<and> shm_names start_blocks (in_shm inst2)"
proof -
  let ?ths = "[(0 :: int, 0, ODP_THREAD_CONTROL), (1, 1, ODP_THREAD_WORKER)]" let ?reqs = "[(''in'', odp_queue_param_init), (''out'', odp_queue_param_init)]"
  have h: "length ?ths \<le> ODP_CONFIG_MAX_THREADS" "\<forall>(cpu, t, type)\<in>set ?ths. 0 \<le> cpu" "length ?reqs \<le> ODP_CONFIG_QUEUES - (32 + 64)" "\<forall>(name, prm)\<in>set ?reqs. prio_ok (qp_prio prm)"
    "\<forall>t. t \<notin> (fst \<circ> snd) ` set ?ths \<longrightarrow> slocal (in_sys start_inst) t = sched_local_init"
    by (simp_all add: ODP_CONFIG_MAX_THREADS_def prio_ok_def odp_queue_param_init_def start_inst_def demo_sys_def)
  have q: "map (\<lambda>k. queue_from_id (of_nat (32 + 64 + k))) [0..<length ?reqs] = [97, 98]" "{32 + 64..<32 + 64 + length ?reqs} = {96, 97}" "replicate (length ?ths) (0 :: int) = [0, 0]"
    by (auto simp: queue_from_id_def)
  from odp_init_global_correct [OF start_can_start h(1,2,5,3,4), of sum_ssl 0 None, unfolded q] show ?thesis by blast
qed

section \<open>The end of the process\<close>

text \<open>The blocks \<open>K\<close> of the components are reserved, all other entries of the table are empty.\<close>

definition blocks_left :: "nat set \<Rightarrow> 'os shm_sys \<Rightarrow> bool" where
  "blocks_left K s \<longleftrightarrow> K \<subseteq> {..<10} \<and> length (shm_tbl s) = ODP_CONFIG_SHM_BLOCKS \<and>
    (\<forall>i<ODP_CONFIG_SHM_BLOCKS. if i \<in> K
       then sb_name (shm_tbl s ! i) = start_blocks ! i \<and> sb_addr (shm_tbl s ! i) \<noteq> 0 \<and> sb_hdl (shm_tbl s ! i) = to_handle (of_nat i) \<and> sb_flags (shm_tbl s ! i) = 0
       else shm_tbl s ! i = zero_block)"

definition os_unmaps :: "'os shm_os \<Rightarrow> bool" where
  "os_unmaps os \<longleftrightarrow> (\<forall>a n w. fst (os_munmap os a n w) = 0)"

lemma blocks_left_start: "shm_names start_blocks s \<Longrightarrow> blocks_left {..<10} s"
proof -
  assume "shm_names start_blocks s"
  then obtain bs where bs: "shm_has bs s" "map sb_name bs = start_blocks" by (auto simp: shm_names_def)
  have len: "length bs = 10" using arg_cong [OF bs(2), of length] by (simp add: start_blocks_def)
  have "sb_name (bs ! i) = start_blocks ! i" if "i < 10" for i using len that by (simp flip: bs(2))
  then show ?thesis using bs(1) len by (auto simp: blocks_left_def shm_has_nth) (auto simp: shm_has_def)
qed

lemma blocks_left_none: "blocks_left {} s \<Longrightarrow> shm_tbl s = replicate ODP_CONFIG_SHM_BLOCKS zero_block"
  by (auto simp: blocks_left_def intro: nth_equalityI)

lemma free_left:
  assumes "blocks_left K s" "k \<in> K" "os_unmaps os"
  shows "\<exists>s'. odp_shm_free os (to_handle (of_nat k)) s = (0, s') \<and> blocks_left (K - {k}) s'"
proof -
  have k: "k < ODP_CONFIG_SHM_BLOCKS" "k < 10" using assms(1,2) by (auto simp: blocks_left_def ODP_CONFIG_SHM_BLOCKS_def)
  note h = handle_index [OF k(1)]
  have "unat (from_handle (to_handle (of_nat k))) < unat (of_nat ODP_CONFIG_SHM_BLOCKS :: u32)" using h k by (simp add: ODP_CONFIG_SHM_BLOCKS_def)
  then have nb: "\<not> of_nat ODP_CONFIG_SHM_BLOCKS \<le> from_handle (to_handle (of_nat k))" by (simp add: word_le_nat_alt)
  let ?b = "shm_tbl s ! k"
  have b: "sb_addr ?b \<noteq> 0" "sb_flags ?b = 0" using assms(1,2) k(1) by (auto simp: blocks_left_def)
  obtain w where w: "os_munmap os (sb_addr_orig ?b) (sb_alloc_size ?b) (shm_world s) = (0, w)" using assms(3) by (metis os_unmaps_def prod.collapse)
  have "odp_shm_free os (to_handle (of_nat k)) s = (0, s\<lparr>shm_tbl := (shm_tbl s)[k := zero_block], shm_world := w\<rparr>)"
    using h nb b w by (simp add: odp_shm_free_def Let_def)
  moreover have "blocks_left (K - {k}) (s\<lparr>shm_tbl := (shm_tbl s)[k := zero_block], shm_world := w\<rparr>)"
    using assms(1) k(1) by (auto simp: blocks_left_def nth_list_update)
  ultimately show ?thesis by blast
qed

lemma lookup_left:
  assumes "blocks_left K s" "k \<in> K"
  shows "odp_shm_lookup (start_blocks ! k) s = to_handle (of_nat k)"
proof -
  have k: "k < ODP_CONFIG_SHM_BLOCKS" "k < 10" using assms by (auto simp: blocks_left_def ODP_CONFIG_SHM_BLOCKS_def)
  have other: "start_blocks ! k \<noteq> sb_name (shm_tbl s ! j)" if "j < k" for j
  proof (cases "j \<in> K")
    case True
    have "start_blocks ! j \<in> set (take k start_blocks)" using that k(2) start_block_names(5) [OF k(2)] by (metis nth_take nth_mem)
    then have "start_blocks ! j \<noteq> start_blocks ! k" using start_block_names(2) [OF k(2)] by metis
    moreover have "sb_name (shm_tbl s ! j) = start_blocks ! j" using True assms(1) k(1) that unfolding blocks_left_def by (metis order.strict_trans)
    ultimately show ?thesis by simp
  next
    case False
    then have "shm_tbl s ! j = zero_block" using assms(1) k(1) that unfolding blocks_left_def by (metis order.strict_trans)
    then show ?thesis using start_block_names(1) [OF k(2)] by (simp add: zero_block_def)
  qed
  have me: "sb_name (shm_tbl s ! k) = start_blocks ! k" "sb_hdl (shm_tbl s ! k) = to_handle (of_nat k)" using assms k(1) by (auto simp: blocks_left_def)
  have "find_block (start_blocks ! k) (shm_tbl s) = Some k"
    using find_upt_cases [of "\<lambda>i. start_blocks ! k = sb_name (shm_tbl s ! i)" ODP_CONFIG_SHM_BLOCKS] me(1) other k(1) unfolding find_block_def
    by (metis linorder_neqE_nat)
  then show ?thesis using me(2) by (simp add: odp_shm_lookup_def)
qed

lemma free_named_left:
  assumes "blocks_left K (in_shm inst)" "k \<in> K" "os_unmaps (e_os env)" "name = start_blocks ! k"
  obtains s where "free_named env name inst = (0, inst\<lparr>in_shm := s\<rparr>)" "blocks_left (K - {k}) s"
  using free_left [OF assms(1-3)] lookup_left [OF assms(1,2)] assms(4) by (auto simp: free_named_def)

section \<open>Destroying the queues of the start\<close>

text \<open>All queues are empty; those of \<open>U\<close> are ready, the others free.\<close>

definition queues_left :: "nat set \<Rightarrow> odp_sys \<Rightarrow> bool" where
  "queues_left U sys \<longleftrightarrow> length (queue_tbl sys) = ODP_CONFIG_QUEUES \<and> U \<subseteq> {..<ODP_CONFIG_QUEUES} \<and>
    (\<forall>i<ODP_CONFIG_QUEUES. q_head (qentry sys i) = NULL \<and> q_status (qentry sys i) = (if i \<in> U then QUEUE_STATUS_READY else QUEUE_STATUS_FREE))"

lemma destroy_left:
  assumes "queues_left U sys" "i \<in> U"
  obtains sys' where "odp_queue_destroy tid (queue_from_id (of_nat i)) sys = Inr (0, sys')" "queues_left (U - {i}) sys'"
    "base sys' = base sys" "sched sys' = sched sys" "pktio_tbl sys' = pktio_tbl sys" "\<And>m. q_funcs (qentry sys' m) = q_funcs (qentry sys m)"
proof -
  have i: "i < ODP_CONFIG_QUEUES" "length (queue_tbl sys) = ODP_CONFIG_QUEUES" using assms by (auto simp: queues_left_def)
  let ?s = "upd_queue i (\<lambda>q. q\<lparr>q_status := QUEUE_STATUS_FREE\<rparr>) sys"
  have "q_status (qentry sys i) = QUEUE_STATUS_READY" "q_head (qentry sys i) = NULL" using assms i(1) by (auto simp: queues_left_def)
  then have "odp_queue_destroy tid (queue_from_id (of_nat i)) sys = Inr (0, ?s)" using handle_entry(4) [OF i] by (simp add: odp_queue_destroy_def Let_def)
  moreover have "queues_left (U - {i}) ?s" using assms(1) i by (auto simp: queues_left_def nth_list_update)
  moreover have "q_funcs (qentry ?s m) = q_funcs (qentry sys m)" for m by (cases "m = i"; cases "i < length (queue_tbl sys)") (simp_all add: list_update_beyond)
  ultimately show thesis using that by simp
qed

lemma destroy_outqs_run:
  assumes "queues_left U sys" "\<forall>n\<in>set ns. f n \<in> U \<and> pe_outq_default (pktio_tbl sys ! (n - 1)) = queue_from_id (of_nat (f n))" "distinct (map f ns)"
  shows "\<exists>sys'. destroy_outqs ns tid sys = Inr sys' \<and> queues_left (U - f ` set ns) sys' \<and> base sys' = base sys \<and> sched sys' = sched sys \<and>
    (\<forall>m. q_funcs (qentry sys' m) = q_funcs (qentry sys m))"
  using assms
proof (induction ns arbitrary: U sys)
  case (Cons n ns)
  obtain s1 where d: "odp_queue_destroy tid (queue_from_id (of_nat (f n))) sys = Inr (0, s1)" "queues_left (U - {f n}) s1" "base s1 = base sys" "sched s1 = sched sys"
    "pktio_tbl s1 = pktio_tbl sys" "\<And>m. q_funcs (qentry s1 m) = q_funcs (qentry sys m)"
    by (rule destroy_left [OF Cons.prems(1), of "f n"]) (use Cons.prems(2) in auto)
  have p: "\<forall>m\<in>set ns. f m \<in> U - {f n} \<and> pe_outq_default (pktio_tbl s1 ! (m - 1)) = queue_from_id (of_nat (f m))" using Cons.prems(2,3) d(5) by (fastforce simp: image_iff)
  have dd: "distinct (map f ns)" using Cons.prems(3) by simp
  have e: "U - {f n} - f ` set ns = U - f ` set (n # ns)" by auto
  show ?case using Cons.IH [OF d(2) p dd] d Cons.prems(2) unfolding e by auto
qed simp

lemma drain_empty:
  assumes "length (queue_tbl sys) = ODP_CONFIG_QUEUES" "i < ODP_CONFIG_QUEUES" "q_funcs (qentry sys i) = Queue_Funcs" "q_head (qentry sys i) = NULL" "q_status (qentry sys i) = QUEUE_STATUS_READY"
  shows "drain_pri_queue dev tid (queue_from_id (of_nat i)) sys = Some (Inr sys)"
proof -
  have "queue_deq (qentry sys i) (sys_heap sys) = (NULL, qentry sys i, sys_heap sys)" using assms(4,5) by (simp add: queue_deq_def unsched_def)
  then have "odp_queue_deq dev (queue_from_id (of_nat i)) sys = Some (Inr (ODP_EVENT_INVALID, sys))"
    using handle_entry(4) [OF assms(2,1)] assms(3) by (simp add: odp_queue_deq_def put_queue_def set_heap_def)
  then show ?thesis by (subst drain_pri_queue.simps) simp
qed

lemma destroy_pri_queues_run:
  assumes "queues_left U sys" "\<forall>(p, k)\<in>set ijs. f (p, k) \<in> U \<and> sc_pri_queue (sched sys) ! p ! k = queue_from_id (of_nat (f (p, k))) \<and> q_funcs (qentry sys (f (p, k))) = Queue_Funcs"
    and "distinct (map f ijs)"
  shows "\<exists>sys'. destroy_pri_queues ijs dev tid rc sys = Some (Inr (rc, sys')) \<and> queues_left (U - f ` set ijs) sys' \<and> base sys' = base sys \<and> sched sys' = sched sys"
  using assms
proof (induction ijs arbitrary: U sys)
  case (Cons pk ijs)
  obtain p k where pk: "pk = (p, k)" by (cases pk)
  let ?i = "f (p, k)"
  have h: "?i \<in> U" "sc_pri_queue (sched sys) ! p ! k = queue_from_id (of_nat ?i)" "q_funcs (qentry sys ?i) = Queue_Funcs" using Cons.prems(2) pk by auto
  have i: "?i < ODP_CONFIG_QUEUES" "length (queue_tbl sys) = ODP_CONFIG_QUEUES" "q_head (qentry sys ?i) = NULL" "q_status (qentry sys ?i) = QUEUE_STATUS_READY"
    using Cons.prems(1) h(1) by (auto simp: queues_left_def)
  obtain s1 where d: "odp_queue_destroy tid (queue_from_id (of_nat ?i)) sys = Inr (0, s1)" "queues_left (U - {?i}) s1" "base s1 = base sys" "sched s1 = sched sys"
    "\<And>m. q_funcs (qentry s1 m) = q_funcs (qentry sys m)" by (rule destroy_left [OF Cons.prems(1) h(1), of tid]) blast
  have p: "\<forall>(p', k')\<in>set ijs. f (p', k') \<in> U - {?i} \<and> sc_pri_queue (sched s1) ! p' ! k' = queue_from_id (of_nat (f (p', k'))) \<and> q_funcs (qentry s1 (f (p', k'))) = Queue_Funcs"
    using Cons.prems(2,3) d(4,5) pk by (fastforce simp: image_iff)
  have dd: "distinct (map f ijs)" using Cons.prems(3) by simp
  have e: "U - {?i} - f ` set ijs = U - f ` set (pk # ijs)" using pk by auto
  have "destroy_pri_queues (pk # ijs) dev tid rc sys = destroy_pri_queues ijs dev tid rc s1"
    using drain_empty [OF i(2,1) h(3) i(3,4), of dev tid] h(2) d(1) pk by simp
  then show ?case using Cons.IH [OF d(2) p dd] d(3,4) unfolding e by simp
qed simp

text \<open>The pool of the scheduler is destroyed when all its commands are back.\<close>

lemma pool_destroy_run:
  assumes "only_pool shm st" "shm \<noteq> ODP_SHM_INVALID" "lc_freelist (local_caches st tid 0) = NULL" "pl_bufcount (pool_tbl st ! 0) = of_nat NUM_SCHED_CMD"
  obtains st' where "odp_pool_destroy tid 0 st = Some (Inr (0, st'))" "\<forall>p\<in>set (pool_tbl st'). pl_pool_shm p = ODP_SHM_INVALID" "length (pool_tbl st') = ODP_CONFIG_POOLS"
proof -
  let ?p = "pool_tbl st ! 0"
  note o = assms(1) [unfolded only_pool_def]
  have len: "0 < length (pool_tbl st)" using o by simp
  obtain cache pool where f: "flush_cache (local_caches st tid 0) ?p (heap st) = Some (Inr (cache, pool, heap st))" "pl_bufcount pool = pl_bufcount ?p" "pl_buf_num pool = pl_buf_num ?p"
    using assms(3) by (simp add: flush_cache_def flush_loop.simps)
  let ?st = "put_pool tid 0 cache (pool\<lparr>pl_pool_shm := ODP_SHM_INVALID\<rparr>) (heap st) st"
  have "odp_pool_destroy tid 0 st = Some (Inr (0, ?st))"
    using o assms(2,4) f len by (simp add: odp_pool_destroy_def Let_def pool_handle_to_index_def get_pool_entry_def)
  moreover have a: "pl_pool_shm (pool_tbl ?st ! i) = ODP_SHM_INVALID" if "i < ODP_CONFIG_POOLS" for i
    using o that by (cases "i = 0") (simp_all add: put_pool_def)
  moreover have l: "length (pool_tbl ?st) = ODP_CONFIG_POOLS" using o by (simp add: put_pool_def)
  moreover have "\<forall>p\<in>set (pool_tbl ?st). pl_pool_shm p = ODP_SHM_INVALID" using a unfolding l [symmetric] by (metis in_set_conv_nth)
  ultimately show thesis using that by blast
qed

lemma queues_left_start:
  assumes "instance_started env inst0 inst"
  shows "queues_left {..<96} (in_sys inst)"
proof -
  let ?sys = "in_sys inst"
  have s: "queues_made 96 ?sys" "polled 32 ?sys" "outq_at [1..<65] 32 ?sys" using assms by (simp_all add: instance_started_def started_def)
  have "q_status (qentry ?sys i) = QUEUE_STATUS_READY" if "i < 96" for i
  proof (cases "i < 32")
    case True
    then show ?thesis using s(2) by (simp add: polled_def)
  next
    case False
    have "length [1..<65] = 64" by (simp only: length_upt)
    then have "j < 64 \<Longrightarrow> q_status (qentry ?sys (32 + j)) = QUEUE_STATUS_READY" for j using s(3) unfolding outq_at_def by metis
    from this [of "i - 32"] show ?thesis using False that by simp
  qed
  then show ?thesis using queues_madeD [OF s(1)] s(1) by (auto simp: queues_left_def queues_made_def)
qed

lemma term_pktio_run:
  assumes b: "blocks_left K (in_shm inst)" "5 \<in> K" "os_unmaps (e_os env)" and q: "queues_left {..<96} (in_sys inst)" "outq_at [1..<65] 32 (in_sys inst)"
  obtains s sys where "term_pktio env tid inst = Some (Inr (0, inst\<lparr>in_shm := s, in_sys := sys\<rparr>))" "blocks_left (K - {5}) s" "queues_left {..<32} sys"
    "base sys = base (in_sys inst)" "sched sys = sched (in_sys inst)" "\<And>m. q_funcs (qentry sys m) = q_funcs (qentry (in_sys inst) m)"
proof -
  have nm: "''odp_pktio_entries'' = start_blocks ! 5" by (simp add: start_blocks_def)
  obtain s where s: "free_named env ''odp_pktio_entries'' inst = (0, inst\<lparr>in_shm := s\<rparr>)" "blocks_left (K - {5}) s" by (rule free_named_left [OF b nm])
  let ?f = "\<lambda>n. 31 + n :: nat"
  have "pe_outq_default (pktio_tbl (in_sys inst) ! (n - 1)) = queue_from_id (of_nat (?f n))" if "n \<in> set [1..<65]" for n
  proof -
    have n: "n - 1 < length [1..<65]" "[1..<65] ! (n - 1) = n" "32 + (n - 1) = ?f n" using that by (simp_all only: set_upt length_upt nth_upt atLeastLessThan_iff) auto
    then show ?thesis using q(2) unfolding outq_at_def by metis
  qed
  then have h: "\<forall>n\<in>set [1..<65]. ?f n \<in> {..<96} \<and> pe_outq_default (pktio_tbl (in_sys inst) ! (n - 1)) = queue_from_id (of_nat (?f n))" by auto
  have d: "distinct (map ?f [1..<65])" by (simp add: distinct_map inj_on_def del: upt_rec_numeral)
  have "?f ` set [1..<65] = {32..<96}" by (simp add: image_add_atLeastLessThan del: upt_rec_numeral)
  then have e: "{..<96} - ?f ` set [1..<65] = {..<32}" by auto
  from destroy_outqs_run [OF q(1) h d, of tid] obtain sys where r: "destroy_outqs [1..<65] tid (in_sys inst) = Inr sys" "queues_left {..<32} sys"
    "base sys = base (in_sys inst)" "sched sys = sched (in_sys inst)" "\<And>m. q_funcs (qentry sys m) = q_funcs (qentry (in_sys inst) m)" unfolding e by blast
  have "[1..<ODP_CONFIG_PKTIO_ENTRIES + 1] = [1..<65]" by simp
  then have "term_pktio env tid inst = Some (Inr (0, inst\<lparr>in_shm := s, in_sys := sys\<rparr>))"
    using s(1) r(1) by (simp only: term_pktio_def odp_pktio_term_global_def Let_def prod.case and_then_simps)
  then show thesis using that s(2) r by blast
qed

lemma term_schedule_run:
  assumes b: "blocks_left K (in_shm inst)" "3 \<in> K" "4 \<in> K" "os_unmaps (e_os env)" and shm: "in_sched_shm inst = to_handle 3" "only_pool (to_handle 4) (base (in_sys inst))"
    and q: "queues_left {..<32} (in_sys inst)" "\<forall>m<32. q_funcs (qentry (in_sys inst) m) = Queue_Funcs" "pri_at all_sub_queues (sched (in_sys inst))"
    and p: "sc_pool (sched (in_sys inst)) = 0" "lc_freelist (local_caches (base (in_sys inst)) tid 0) = NULL" "pl_bufcount (pool_tbl (base (in_sys inst)) ! 0) = of_nat NUM_SCHED_CMD"
  obtains s sys where "term_schedule env dev tid inst = Some (Inr (0, inst\<lparr>in_shm := s, in_sys := sys\<rparr>))" "blocks_left (K - {4} - {3}) s" "queues_left {} sys"
    "\<forall>p\<in>set (pool_tbl (base sys)). pl_pool_shm p = ODP_SHM_INVALID"
proof -
  let ?idx = "the_inv_into {..<32} ((!) all_sub_queues)" let ?sys = "in_sys inst"
  have l: "length all_sub_queues = 32" using all_sub_queues_facts(1) by simp
  then have inj: "inj_on ((!) all_sub_queues) {..<32}" using all_sub_queues_facts(2) by (auto simp: inj_on_def nth_eq_iff_index_eq)
  have idx: "?idx (all_sub_queues ! j) = j" if "j < 32" for j using the_inv_into_f_f [OF inj] that by simp
  have map: "map ?idx all_sub_queues = [0..<32]" by (rule nth_equalityI) (use l idx in \<open>simp_all del: upt_rec_numeral\<close>)
  have "?idx (p, k) \<in> {..<32} \<and> sc_pri_queue (sched ?sys) ! p ! k = queue_from_id (of_nat (?idx (p, k))) \<and> q_funcs (qentry ?sys (?idx (p, k))) = Queue_Funcs" if m: "(p, k) \<in> set all_sub_queues" for p k
  proof -
    obtain j where j: "j < 32" "all_sub_queues ! j = (p, k)" using m unfolding in_set_conv_nth l by blast
    have "sc_pri_queue (sched ?sys) ! fst (all_sub_queues ! j) ! snd (all_sub_queues ! j) = queue_from_id (of_nat j)" using q(3) j(1) unfolding pri_at_def l by blast
    moreover have "?idx (p, k) = j" using idx [OF j(1)] j(2) by simp
    ultimately show ?thesis using q(2) j by simp
  qed
  then have h: "\<forall>(p, k)\<in>set all_sub_queues. ?idx (p, k) \<in> {..<32} \<and> sc_pri_queue (sched ?sys) ! p ! k = queue_from_id (of_nat (?idx (p, k))) \<and> q_funcs (qentry ?sys (?idx (p, k))) = Queue_Funcs" by blast
  have "?idx ` set all_sub_queues = {..<32}" using arg_cong [OF map, of set] by (simp add: atLeast0LessThan del: upt_rec_numeral)
  then have e: "{..<32} - ?idx ` set all_sub_queues = {}" by simp
  have dd: "distinct (map ?idx all_sub_queues)" unfolding map by (simp del: upt_rec_numeral)
  from destroy_pri_queues_run [OF q(1) h dd, of dev tid 0] obtain sys1 where r: "destroy_pri_queues all_sub_queues dev tid 0 ?sys = Some (Inr (0, sys1))" "queues_left {} sys1"
    "base sys1 = base ?sys" "sched sys1 = sched ?sys" unfolding e by blast
  have h4: "to_handle 4 \<noteq> ODP_SHM_INVALID" by (simp add: to_handle_def ODP_SHM_INVALID_def)
  obtain st where d: "odp_pool_destroy tid 0 (base ?sys) = Some (Inr (0, st))" "\<forall>p\<in>set (pool_tbl st). pl_pool_shm p = ODP_SHM_INVALID" "length (pool_tbl st) = ODP_CONFIG_POOLS"
    by (rule pool_destroy_run [OF shm(2) h4 p(2,3)])
  obtain s1 where f1: "odp_shm_free (e_os env) (to_handle 4) (in_shm inst) = (0, s1)" "blocks_left (K - {4}) s1" using free_left [OF b(1,3,4)] by auto
  have "3 \<in> K - {4}" using b(2) by simp
  then obtain s2 where f2: "odp_shm_free (e_os env) (to_handle 3) s1 = (0, s2)" "blocks_left (K - {4} - {3}) s2" using free_left [OF f1(2) _ b(4), of 3] by auto
  have "pl_pool_shm (pool_tbl st ! 0) = ODP_SHM_INVALID" using d(2,3) by simp
  moreover have "pl_pool_shm (pool_tbl (base ?sys) ! 0) = to_handle 4" using shm(2) by (simp add: only_pool_def)
  moreover have "odp_schedule_term_global dev tid 0 ?sys = Some (Inr (0, sys1\<lparr>base := st\<rparr>))" using r d(1) p(1) by (simp add: odp_schedule_term_global_def)
  ultimately have "term_schedule env dev tid inst = Some (Inr (0, inst\<lparr>in_shm := s2, in_sys := sys1\<lparr>base := st\<rparr>\<rparr>))"
    using f1(1) f2(1) shm(1) p(1) by (simp add: term_schedule_def pool_handle_to_index_def Let_def)
  moreover have "queues_left {} (sys1\<lparr>base := st\<rparr>)" using r(2) by (simp add: queues_left_def)
  ultimately show thesis using that f2(2) d(2) by simp
qed

lemma term_crypto_run:
  assumes b: "blocks_left K (in_shm inst)" "6 \<in> K" "os_unmaps (e_os env)" and c: "sessions_inv xs (in_crypto inst)" "length xs = MAX_SESSIONS"
  obtains s where "term_crypto env inst = Some (Inr (0, inst\<lparr>in_shm := s\<rparr>))" "blocks_left (K - {6}) s"
proof -
  have "''crypto_pool'' = start_blocks ! 6" by (simp add: start_blocks_def)
  then obtain s where s: "odp_shm_free (e_os env) (odp_shm_lookup ''crypto_pool'' (in_shm inst)) (in_shm inst) = (0, s)" "blocks_left (K - {6}) s"
    using free_left [OF b] lookup_left [OF b(1,2)] by auto
  have "count_free (cr_sessions (in_crypto inst)) (cr_free (in_crypto inst)) 0 = Some MAX_SESSIONS"
    using count_free_chain [of "cr_sessions (in_crypto inst)" "cr_free (in_crypto inst)" xs 0] c by (simp add: sessions_inv_def)
  then have "term_crypto env inst = Some (Inr (0, inst\<lparr>in_shm := s\<rparr>))" using s(1) by (simp add: term_crypto_def odp_crypto_term_global_def)
  then show thesis using that s(2) by blast
qed

lemma term_classification_run:
  assumes b: "blocks_left {..<10} (in_shm inst)" "os_unmaps (e_os env)"
  obtains s where "odp_classification_term_global env inst = (0, inst\<lparr>in_shm := s\<rparr>)" "blocks_left {..<7} s"
proof -
  have n: "''shm_odp_cos_tbl'' = start_blocks ! 7" "''shm_odp_pmr_tbl'' = start_blocks ! 8" "''shm_odp_pmr_set_tbl'' = start_blocks ! 9" by (simp_all add: start_blocks_def)
  obtain s1 where 1: "free_named env ''shm_odp_cos_tbl'' inst = (0, inst\<lparr>in_shm := s1\<rparr>)" "blocks_left ({..<10} - {7}) s1"
    by (rule free_named_left [OF b(1) _ b(2) n(1)]) simp_all
  obtain s2 where 2: "free_named env ''shm_odp_pmr_tbl'' (inst\<lparr>in_shm := s1\<rparr>) = (0, inst\<lparr>in_shm := s2\<rparr>)" "blocks_left ({..<10} - {7} - {8}) s2"
    by (rule free_named_left [of "{..<10} - {7}" "inst\<lparr>in_shm := s1\<rparr>", OF _ _ b(2) n(2)]) (use 1(2) in simp_all)
  obtain s3 where 3: "free_named env ''shm_odp_pmr_set_tbl'' (inst\<lparr>in_shm := s2\<rparr>) = (0, inst\<lparr>in_shm := s3\<rparr>)" "blocks_left ({..<10} - {7} - {8} - {9}) s3"
    by (rule free_named_left [of "{..<10} - {7} - {8}" "inst\<lparr>in_shm := s2\<rparr>", OF _ _ b(2) n(3)]) (use 2(2) in simp_all)
  have "{..<10} - {7} - {8} - {9 :: nat} = {..<7}" by auto
  then show thesis using that [of s3] 1(1) 2(1) 3 by (simp add: odp_classification_term_global_def)
qed

text \<open>The last components, whose state is not changed any more: queues, pools, threads and the table of blocks.\<close>

lemma term_last_run:
  assumes b: "blocks_left {..<3} (in_shm inst)" "os_unmaps (e_os env)" "e_tbl_addr env \<noteq> None"
    and q: "queues_left {} (in_sys inst)" "\<forall>p\<in>set (pool_tbl (base (in_sys inst))). pl_pool_shm p = ODP_SHM_INVALID"
  obtains s1 s2 s3 s4 where "term_queues env inst = (0, inst\<lparr>in_shm := s1\<rparr>)" "term_pools env (inst\<lparr>in_shm := s1\<rparr>) = (0, inst\<lparr>in_shm := s2\<rparr>)"
    "term_threads env (inst\<lparr>in_shm := s2\<rparr>) = (0, inst\<lparr>in_shm := s3\<rparr>)" "term_shm env (inst\<lparr>in_shm := s3\<rparr>) = (0, inst\<lparr>in_shm := s4\<rparr>)"
    "shm_tbl s4 = replicate ODP_CONFIG_SHM_BLOCKS zero_block"
proof -
  have n: "''odp_queues'' = start_blocks ! 2" "''odp_buffer_pools'' = start_blocks ! 1" "''odp_thread_globals'' = start_blocks ! 0" by (simp_all add: start_blocks_def)
  obtain s1 where 1: "free_named env ''odp_queues'' inst = (0, inst\<lparr>in_shm := s1\<rparr>)" "blocks_left ({..<3} - {2}) s1"
    by (rule free_named_left [OF b(1) _ b(2) n(1)]) simp_all
  obtain s2 where 2: "free_named env ''odp_buffer_pools'' (inst\<lparr>in_shm := s1\<rparr>) = (0, inst\<lparr>in_shm := s2\<rparr>)" "blocks_left ({..<3} - {2} - {1}) s2"
    by (rule free_named_left [of "{..<3} - {2}" "inst\<lparr>in_shm := s1\<rparr>", OF _ _ b(2) n(2)]) (use 1(2) in simp_all)
  have "odp_shm_lookup ''odp_thread_globals'' s2 = to_handle (of_nat 0)" unfolding n(3) by (rule lookup_left [OF 2(2)]) simp
  then obtain s3 where 3: "odp_thread_term_global (e_os env) s2 = (0, s3)" "blocks_left ({..<3} - {2} - {1} - {0}) s3"
    using free_left [OF 2(2) _ b(2), of 0] by (auto simp: odp_thread_term_global_def)
  have "{..<3} - {2} - {1} - {0 :: nat} = {}" by auto
  then have z: "shm_tbl s3 = replicate ODP_CONFIG_SHM_BLOCKS zero_block" using 3(2) by (metis blocks_left_none)
  obtain a w where a: "e_tbl_addr env = Some a" "os_munmap (e_os env) a (e_tbl_size env) (shm_world s3) = (0, w)" using b(2,3) by (metis not_None_eq os_unmaps_def prod.collapse)
  have "\<forall>x\<in>set (queue_tbl (in_sys inst)). q_status x = QUEUE_STATUS_FREE" using q(1) unfolding queues_left_def by (metis empty_iff in_set_conv_nth)
  then show thesis using that [of s1 s2 s3 "s3\<lparr>shm_world := w\<rparr>"] 1(1) 2(1) 3(1) a z q(2)
    by (simp add: term_queues_def odp_queue_term_global_def term_pools_def odp_pool_term_global_def term_threads_def term_shm_def odp_shm_term_global_def)
qed

text \<open> C29: Starting an instance and ending it. When the operating system can also take its mappings back, \<open>odp_term_global\<close> after a start returns 0
  and nothing is left: the queues of the start are free, the pool of the scheduler, whose
  commands all came back, is destroyed, and no entry of the table of shared memory is used.\<close>

theorem odp_init_term_global:
  assumes can: "can_start env inst0" and un: "os_unmaps (e_os env)"
  shows "\<exists>inst1 inst2. odp_init_global env ssl tid params inst0 = Some (Inr (0, inst1)) \<and> odp_term_global env dev tid' inst1 = Some (Inr (0, inst2)) \<and>
    shm_tbl (in_shm inst2) = replicate ODP_CONFIG_SHM_BLOCKS zero_block \<and> (\<forall>q\<in>set (queue_tbl (in_sys inst2)). q_status q = QUEUE_STATUS_FREE) \<and>
    (\<forall>p\<in>set (pool_tbl (base (in_sys inst2))). pl_pool_shm p = ODP_SHM_INVALID)"
proof -
  obtain inst where 0: "odp_init_global env ssl tid params inst0 = Some (Inr (0, inst))" "instance_started env inst0 inst" by (rule init_global_started [OF can])
  let ?sys = "in_sys inst"
  have I: "outq_at [1..<65] 32 ?sys" "in_sched_shm inst = to_handle 3" "only_pool (to_handle 4) (base ?sys)" "sessions_inv (rev [0..<MAX_SESSIONS]) (in_crypto inst)"
    "shm_names start_blocks (in_shm inst)" "polled 32 ?sys" "pri_at all_sub_queues (sched ?sys)" "sc_pool (sched ?sys) = 0" "\<forall>t. lc_freelist (local_caches (base ?sys) t 0) = NULL"
    "pl_bufcount (pool_tbl (base ?sys) ! 0) = of_nat NUM_SCHED_CMD" using 0(2) by (simp_all add: instance_started_def started_def small_pool_def)
  obtain s1 where 1: "odp_classification_term_global env inst = (0, inst\<lparr>in_shm := s1\<rparr>)" "blocks_left {..<7} s1"
    by (rule term_classification_run [OF blocks_left_start [OF I(5)] un])
  let ?i1 = "inst\<lparr>in_shm := s1\<rparr>"
  obtain s2 where 2: "term_crypto env ?i1 = Some (Inr (0, ?i1\<lparr>in_shm := s2\<rparr>))" "blocks_left ({..<7} - {6}) s2"
    by (rule term_crypto_run [of "{..<7}" ?i1, OF _ _ un, of "rev [0..<MAX_SESSIONS]"]) (use 1(2) I(4) in simp_all)
  let ?i2 = "?i1\<lparr>in_shm := s2\<rparr>"
  obtain s3 sys3 where 3: "term_pktio env tid' ?i2 = Some (Inr (0, ?i2\<lparr>in_shm := s3, in_sys := sys3\<rparr>))" "blocks_left ({..<7} - {6} - {5}) s3" "queues_left {..<32} sys3"
    "base sys3 = base (in_sys ?i2)" "sched sys3 = sched (in_sys ?i2)" "\<And>m. q_funcs (qentry sys3 m) = q_funcs (qentry (in_sys ?i2) m)"
    by (rule term_pktio_run [of "{..<7} - {6}" ?i2, OF _ _ un, of tid']) (use 2(2) I(1) queues_left_start [OF 0(2)] in simp_all)
  let ?i3 = "?i2\<lparr>in_shm := s3, in_sys := sys3\<rparr>"
  have f: "\<forall>m<32. q_funcs (qentry sys3 m) = Queue_Funcs" using I(6) 3(6) by (simp add: polled_def)
  obtain s4 sys4 where 4: "term_schedule env dev tid' ?i3 = Some (Inr (0, ?i3\<lparr>in_shm := s4, in_sys := sys4\<rparr>))" "blocks_left ({..<7} - {6} - {5} - {4} - {3}) s4" "queues_left {} sys4"
    "\<forall>p\<in>set (pool_tbl (base sys4)). pl_pool_shm p = ODP_SHM_INVALID"
    by (rule term_schedule_run [of "{..<7} - {6} - {5}" ?i3, OF _ _ _ un, of tid' dev]) (use 3(2-5) f I in simp_all)
  let ?i4 = "?i3\<lparr>in_shm := s4, in_sys := sys4\<rparr>"
  have e: "{..<7} - {6} - {5} - {4} - {3 :: nat} = {..<3}" by auto
  have tbl: "e_tbl_addr env \<noteq> None" using can by (simp add: can_start_def)
  obtain s5 s6 s7 s8 where 5: "term_queues env ?i4 = (0, ?i4\<lparr>in_shm := s5\<rparr>)" "term_pools env (?i4\<lparr>in_shm := s5\<rparr>) = (0, ?i4\<lparr>in_shm := s6\<rparr>)"
    "term_threads env (?i4\<lparr>in_shm := s6\<rparr>) = (0, ?i4\<lparr>in_shm := s7\<rparr>)" "term_shm env (?i4\<lparr>in_shm := s7\<rparr>) = (0, ?i4\<lparr>in_shm := s8\<rparr>)" "shm_tbl s8 = replicate ODP_CONFIG_SHM_BLOCKS zero_block"
    by (rule term_last_run [of ?i4, OF _ un tbl]) (use 4(2-4) e in simp_all)
  have run: "odp_term_global env dev tid' inst = Some (Inr (0, ?i4\<lparr>in_shm := s8\<rparr>))"
    unfolding odp_term_global_def Let_def 1(1) prod.case 2(1) run_then_simps 3(1) 4(1) 5(1-4) by (simp add: done_rc_def)
  have "\<forall>q\<in>set (queue_tbl sys4). q_status q = QUEUE_STATUS_FREE" using 4(3) unfolding queues_left_def by (metis empty_iff in_set_conv_nth)
  then show ?thesis using 0(1) run 4(4) 5(5) by (intro exI [of _ inst] exI [of _ "?i4\<lparr>in_shm := s8\<rparr>"]) simp
qed

theorem odp_init_term_global_witness:
  "\<exists>inst1 inst2. odp_init_global start_env sum_ssl 0 None start_inst = Some (Inr (0, inst1)) \<and> odp_term_global start_env demo_dev 0 inst1 = Some (Inr (0, inst2)) \<and>
    shm_tbl (in_shm inst2) = replicate 64 zero_block"
proof -
  have "os_unmaps (e_os start_env)" by (simp add: os_unmaps_def start_env_def start_os_def)
  from odp_init_term_global [OF start_can_start this, of sum_ssl 0 None demo_dev 0] show ?thesis by (auto simp: ODP_CONFIG_SHM_BLOCKS_def)
qed

end
