(* ===== verification/Odp_Atomic.thy ===== *)
theory Odp_Atomic
  imports Odp_Locks
begin

text \<open>
  Atomic variables (\<open>odp/atomic.h\<close>, \<open>odp_atomic_internal.h\<close>, \<open>odp/plat/atomic_types.h\<close>) beyond those that the synchronizers need. Operations on
  32 bits and on pointers are built-ins of the compiler, one step each. Operations on 64 bits are built-ins too where the compiler has them without
  a lock; otherwise the variable has a lock of its own and an operation is a sequence of plain accesses under it. Both builds are modelled.
\<close>

section \<open>Operations on 32 bits and on pointers\<close>

text \<open>The result of the operation and the new value of the variable, or only one of them.\<close>

definition odp_atomic_store_u32 :: "u32 \<Rightarrow> u32 \<Rightarrow> u32" where "odp_atomic_store_u32 atom val = val"
definition odp_atomic_fetch_add_u32 :: "u32 \<Rightarrow> u32 \<Rightarrow> u32 \<times> u32" where "odp_atomic_fetch_add_u32 atom val = (atom, atom + val)"
definition odp_atomic_add_u32 :: "u32 \<Rightarrow> u32 \<Rightarrow> u32" where "odp_atomic_add_u32 atom val = atom + val"
definition odp_atomic_fetch_sub_u32 :: "u32 \<Rightarrow> u32 \<Rightarrow> u32 \<times> u32" where "odp_atomic_fetch_sub_u32 atom val = (atom, atom - val)"
definition odp_atomic_inc_u32 :: "u32 \<Rightarrow> u32" where "odp_atomic_inc_u32 atom = atom + 1"
definition odp_atomic_fetch_dec_u32 :: "u32 \<Rightarrow> u32 \<times> u32" where "odp_atomic_fetch_dec_u32 atom = (atom, atom - 1)"
definition odp_atomic_dec_u32 :: "u32 \<Rightarrow> u32" where "odp_atomic_dec_u32 atom = atom - 1"

definition atomic_u32_xchg_mm :: "u32 \<Rightarrow> u32 \<Rightarrow> u32 \<times> u32" where "atomic_u32_xchg_mm atom val = (atom, val)"
definition atomic_u32_fetch_add_mm :: "u32 \<Rightarrow> u32 \<Rightarrow> u32 \<times> u32" where "atomic_u32_fetch_add_mm atom val = (atom, atom + val)"
definition atomic_u32_add_mm :: "u32 \<Rightarrow> u32 \<Rightarrow> u32" where "atomic_u32_add_mm atom val = atom + val"
definition atomic_u32_fetch_sub_mm :: "u32 \<Rightarrow> u32 \<Rightarrow> u32 \<times> u32" where "atomic_u32_fetch_sub_mm atom val = (atom, atom - val)"

definition atomic_ptr_init :: "addr \<Rightarrow> addr" where "atomic_ptr_init val = val"
definition atomic_ptr_load :: "addr \<Rightarrow> addr" where "atomic_ptr_load atom = atom"
definition atomic_ptr_store :: "addr \<Rightarrow> addr \<Rightarrow> addr" where "atomic_ptr_store atom val = val"
definition atomic_ptr_xchg :: "addr \<Rightarrow> addr \<Rightarrow> addr \<times> addr" where "atomic_ptr_xchg atom val = (atom, val)"

text \<open>Success, the new value of the variable and the new value of \<open>*exp\<close>.\<close>

definition atomic_ptr_cmp_xchg_strong :: "addr \<Rightarrow> addr \<Rightarrow> addr \<Rightarrow> bool \<times> addr \<times> addr" where
  "atomic_ptr_cmp_xchg_strong atom expected val = (if atom = expected then (True, val, expected) else (False, atom, atom))"

section \<open>Operations on 64 bits\<close>

record odp_atomic_u64 =
  au_v :: u64
  au_lock :: bool

definition odp_atomic_init_u64 :: "u64 \<Rightarrow> odp_atomic_u64" where
  "odp_atomic_init_u64 val = \<lparr>au_v = val, au_lock = atomic_flag_clear\<rparr>"

text \<open>What a call returns: nothing, a value, or success of an exchange with the new value of \<open>*exp\<close>.\<close>

datatype atomic_ret = Ret_Void | Ret_Val u64 | Ret_Cas bool u64

text \<open>
  The body of a function: a built-in; the macro \<open>ATOMIC_OP\<close> with its expression (\<open>None\<close> for \<open>(void)0\<close>, otherwise what is assigned to the variable)
  and whether the old value is returned; the body of the compare and exchange.
\<close>

datatype atomic_call =
    Lock_Free "u64 \<Rightarrow> atomic_ret \<times> u64"
  | Atomic_Op "(u64 \<Rightarrow> u64) option" bool
  | Locked_Cas u64 u64

text \<open>The functions; \<open>lf\<close>: the compiler has 64-bit operations without a lock.\<close>

definition odp_atomic_load_u64 :: "bool \<Rightarrow> atomic_call" where
  "odp_atomic_load_u64 lf = (if lf then Lock_Free (\<lambda>v. (Ret_Val v, v)) else Atomic_Op None True)"

definition odp_atomic_store_u64 :: "u64 \<Rightarrow> bool \<Rightarrow> atomic_call" where
  "odp_atomic_store_u64 val lf = (if lf then Lock_Free (\<lambda>v. (Ret_Void, val)) else Atomic_Op (Some (\<lambda>v. val)) False)"

definition odp_atomic_fetch_add_u64 :: "u64 \<Rightarrow> bool \<Rightarrow> atomic_call" where
  "odp_atomic_fetch_add_u64 val lf = (if lf then Lock_Free (\<lambda>v. (Ret_Val v, v + val)) else Atomic_Op (Some (\<lambda>v. v + val)) True)"

definition odp_atomic_add_u64 :: "u64 \<Rightarrow> bool \<Rightarrow> atomic_call" where
  "odp_atomic_add_u64 val lf = (if lf then Lock_Free (\<lambda>v. (Ret_Void, v + val)) else Atomic_Op (Some (\<lambda>v. v + val)) False)"

definition odp_atomic_fetch_sub_u64 :: "u64 \<Rightarrow> bool \<Rightarrow> atomic_call" where
  "odp_atomic_fetch_sub_u64 val lf = (if lf then Lock_Free (\<lambda>v. (Ret_Val v, v - val)) else Atomic_Op (Some (\<lambda>v. v - val)) True)"

definition odp_atomic_sub_u64 :: "u64 \<Rightarrow> bool \<Rightarrow> atomic_call" where
  "odp_atomic_sub_u64 val lf = (if lf then Lock_Free (\<lambda>v. (Ret_Void, v - val)) else Atomic_Op (Some (\<lambda>v. v - val)) False)"

definition odp_atomic_fetch_inc_u64 :: "bool \<Rightarrow> atomic_call" where
  "odp_atomic_fetch_inc_u64 lf = (if lf then Lock_Free (\<lambda>v. (Ret_Val v, v + 1)) else Atomic_Op (Some (\<lambda>v. v + 1)) True)"

definition odp_atomic_inc_u64 :: "bool \<Rightarrow> atomic_call" where
  "odp_atomic_inc_u64 lf = (if lf then Lock_Free (\<lambda>v. (Ret_Void, v + 1)) else Atomic_Op (Some (\<lambda>v. v + 1)) False)"

definition odp_atomic_fetch_dec_u64 :: "bool \<Rightarrow> atomic_call" where
  "odp_atomic_fetch_dec_u64 lf = (if lf then Lock_Free (\<lambda>v. (Ret_Val v, v - 1)) else Atomic_Op (Some (\<lambda>v. v - 1)) True)"

definition odp_atomic_dec_u64 :: "bool \<Rightarrow> atomic_call" where
  "odp_atomic_dec_u64 lf = (if lf then Lock_Free (\<lambda>v. (Ret_Void, v - 1)) else Atomic_Op (Some (\<lambda>v. v - 1)) False)"

definition atomic_u64_load_mm :: "bool \<Rightarrow> atomic_call" where
  "atomic_u64_load_mm lf = (if lf then Lock_Free (\<lambda>v. (Ret_Val v, v)) else Atomic_Op None True)"

definition atomic_u64_store_mm :: "u64 \<Rightarrow> bool \<Rightarrow> atomic_call" where
  "atomic_u64_store_mm val lf = (if lf then Lock_Free (\<lambda>v. (Ret_Void, val)) else Atomic_Op (Some (\<lambda>v. val)) False)"

definition atomic_u64_xchg_mm :: "u64 \<Rightarrow> bool \<Rightarrow> atomic_call" where
  "atomic_u64_xchg_mm val lf = (if lf then Lock_Free (\<lambda>v. (Ret_Val v, val)) else Atomic_Op (Some (\<lambda>v. val)) True)"

definition atomic_u64_cmp_xchg_strong_mm :: "u64 \<Rightarrow> u64 \<Rightarrow> bool \<Rightarrow> atomic_call" where
  "atomic_u64_cmp_xchg_strong_mm expected val lf =
    (if lf then Lock_Free (\<lambda>v. if v = expected then (Ret_Cas True expected, val) else (Ret_Cas False v, v)) else Locked_Cas expected val)"

definition atomic_u64_fetch_add_mm :: "u64 \<Rightarrow> bool \<Rightarrow> atomic_call" where
  "atomic_u64_fetch_add_mm val lf = (if lf then Lock_Free (\<lambda>v. (Ret_Val v, v + val)) else Atomic_Op (Some (\<lambda>v. v + val)) True)"

definition atomic_u64_add_mm :: "u64 \<Rightarrow> bool \<Rightarrow> atomic_call" where
  "atomic_u64_add_mm val lf = (if lf then Lock_Free (\<lambda>v. (Ret_Void, v + val)) else Atomic_Op (Some (\<lambda>v. v + val)) False)"

definition atomic_u64_fetch_sub_mm :: "u64 \<Rightarrow> bool \<Rightarrow> atomic_call" where
  "atomic_u64_fetch_sub_mm val lf = (if lf then Lock_Free (\<lambda>v. (Ret_Val v, v - val)) else Atomic_Op (Some (\<lambda>v. v - val)) True)"

definition atomic_u64_sub_mm :: "u64 \<Rightarrow> bool \<Rightarrow> atomic_call" where
  "atomic_u64_sub_mm val lf = (if lf then Lock_Free (\<lambda>v. (Ret_Void, v - val)) else Atomic_Op (Some (\<lambda>v. v - val)) False)"

section \<open>Steps of a call\<close>

text \<open>
  Where a call is: before the lock is taken; at the read of the old value, or at the comparison; at the evaluation of the expression, with the old value;
  at the assignment, with the old and the new value; before the lock is released; returned.
\<close>

datatype atomic_pc = AP_Start | AP_Old | AP_Expr u64 | AP_Write u64 u64 | AP_Clear atomic_ret | AP_Done atomic_ret

definition atomic_tas :: "odp_atomic_u64 \<Rightarrow> atomic_pc \<times> odp_atomic_u64" where
  "atomic_tas a = (let (old, l) = atomic_flag_tas (au_lock a) in (if old then AP_Start else AP_Old, a\<lparr>au_lock := l\<rparr>))"

definition atomic_op_ret :: "bool \<Rightarrow> u64 \<Rightarrow> atomic_ret" where
  "atomic_op_ret returns old = (if returns then Ret_Val old else Ret_Void)"

fun atomic_op_step :: "(u64 \<Rightarrow> u64) option \<Rightarrow> bool \<Rightarrow> atomic_pc \<Rightarrow> odp_atomic_u64 \<Rightarrow> atomic_pc \<times> odp_atomic_u64" where
  "atomic_op_step expr returns AP_Start a = atomic_tas a"
| "atomic_op_step expr returns AP_Old a = (AP_Expr (au_v a), a)"
| "atomic_op_step None returns (AP_Expr old) a = (AP_Clear (atomic_op_ret returns old), a)"
| "atomic_op_step (Some f) returns (AP_Expr old) a = (AP_Write old (f (au_v a)), a)"
| "atomic_op_step expr returns (AP_Write old new) a = (AP_Clear (atomic_op_ret returns old), a\<lparr>au_v := new\<rparr>)"
| "atomic_op_step expr returns (AP_Clear r) a = (AP_Done r, a\<lparr>au_lock := atomic_flag_clear\<rparr>)"
| "atomic_op_step expr returns (AP_Done r) a = (AP_Done r, a)"

fun locked_cas_step :: "u64 \<Rightarrow> u64 \<Rightarrow> atomic_pc \<Rightarrow> odp_atomic_u64 \<Rightarrow> atomic_pc \<times> odp_atomic_u64" where
  "locked_cas_step expected val AP_Start a = atomic_tas a"
| "locked_cas_step expected val AP_Old a = (if au_v a = expected then AP_Write expected val else AP_Expr expected, a)"
| "locked_cas_step expected val (AP_Write old new) a = (AP_Clear (Ret_Cas True expected), a\<lparr>au_v := new\<rparr>)"
| "locked_cas_step expected val (AP_Expr old) a = (AP_Clear (Ret_Cas False (au_v a)), a)"
| "locked_cas_step expected val (AP_Clear r) a = (AP_Done r, a\<lparr>au_lock := atomic_flag_clear\<rparr>)"
| "locked_cas_step expected val (AP_Done r) a = (AP_Done r, a)"

fun atomic_u64_step :: "atomic_call \<Rightarrow> atomic_pc \<Rightarrow> odp_atomic_u64 \<Rightarrow> atomic_pc \<times> odp_atomic_u64" where
  "atomic_u64_step (Lock_Free f) pc a = (case pc of AP_Start \<Rightarrow> let (r, v) = f (au_v a) in (AP_Done r, a\<lparr>au_v := v\<rparr>) | _ \<Rightarrow> (pc, a))"
| "atomic_u64_step (Atomic_Op expr returns) pc a = atomic_op_step expr returns pc a"
| "atomic_u64_step (Locked_Cas expected val) pc a = locked_cas_step expected val pc a"

end
