(* ===== verification/Odp_Atomic_Correct.thy ===== *)
theory Odp_Atomic_Correct
  imports Odp_Atomic Odp_Locks_Correct
begin

text \<open>
  The 64-bit operations under all interleavings of their accesses: with and without lock-free built-ins, every call takes effect at one point in
  time, as the built-in would.
\<close>

section \<open>Threads that use one variable\<close>

text \<open>The functions of the two headers.\<close>

definition u64_api :: "(bool \<Rightarrow> atomic_call) set" where
  "u64_api = {odp_atomic_load_u64, odp_atomic_fetch_inc_u64, odp_atomic_inc_u64, odp_atomic_fetch_dec_u64, odp_atomic_dec_u64, atomic_u64_load_mm} \<union>
    range odp_atomic_store_u64 \<union> range odp_atomic_fetch_add_u64 \<union> range odp_atomic_add_u64 \<union> range odp_atomic_fetch_sub_u64 \<union> range odp_atomic_sub_u64 \<union>
    range atomic_u64_store_mm \<union> range atomic_u64_xchg_mm \<union> (\<Union>expected. range (atomic_u64_cmp_xchg_strong_mm expected)) \<union>
    range atomic_u64_fetch_add_mm \<union> range atomic_u64_add_mm \<union> range atomic_u64_fetch_sub_mm \<union> range atomic_u64_sub_mm"

text \<open>What a function does to the value in one step: its built-in.\<close>

definition atomic_spec :: "(bool \<Rightarrow> atomic_call) \<Rightarrow> u64 \<Rightarrow> atomic_ret \<times> u64" where
  "atomic_spec op v = (case op True of Lock_Free f \<Rightarrow> f v | _ \<Rightarrow> (Ret_Void, v))"

text \<open>
  Each thread calls functions one after the other. The log gets an entry when a call takes effect: at the built-in, or when the lock-based body has made
  its last access to the value.
\<close>

type_synonym atomic_log = "(nat \<times> (bool \<Rightarrow> atomic_call) \<times> atomic_ret) list"

record atomic_sys =
  as_atom :: odp_atomic_u64
  as_run :: "nat \<Rightarrow> ((bool \<Rightarrow> atomic_call) \<times> atomic_pc) option"
  as_log :: atomic_log

definition atomic_start :: "u64 \<Rightarrow> atomic_sys" where
  "atomic_start v = \<lparr>as_atom = odp_atomic_init_u64 v, as_run = (\<lambda>_. None), as_log = []\<rparr>"

fun effect :: "atomic_pc \<Rightarrow> atomic_pc \<Rightarrow> atomic_ret list" where
  "effect AP_Start (AP_Done r) = [r]"
| "effect pc (AP_Clear r) = [r]"
| "effect pc pc' = []"

fun is_done :: "atomic_pc \<Rightarrow> bool" where
  "is_done (AP_Done r) = True"
| "is_done pc = False"

inductive atomic_step :: "bool \<Rightarrow> atomic_sys \<Rightarrow> nat \<Rightarrow> atomic_sys \<Rightarrow> bool" for lf where
  atomic_call: "as_run s t = None \<Longrightarrow> op \<in> u64_api \<Longrightarrow> atomic_step lf s t (s\<lparr>as_run := (as_run s)(t \<mapsto> (op, AP_Start))\<rparr>)"
| atomic_move: "as_run s t = Some (op, pc) \<Longrightarrow> \<not> is_done pc \<Longrightarrow> atomic_u64_step (op lf) pc (as_atom s) = (pc', a) \<Longrightarrow>
    atomic_step lf s t (s\<lparr>as_atom := a, as_run := (as_run s)(t \<mapsto> (op, pc')), as_log := as_log s @ map (\<lambda>r. (t, op, r)) (effect pc pc')\<rparr>)"
| atomic_return: "as_run s t = Some (op, AP_Done r) \<Longrightarrow> atomic_step lf s t (s\<lparr>as_run := (as_run s)(t := None)\<rparr>)"

text \<open>The log is a sequence of built-ins: each entry has the result of its function on the value the entries before it leave.\<close>

fun replay :: "u64 \<Rightarrow> atomic_log \<Rightarrow> u64 option" where
  "replay v [] = Some v"
| "replay v ((t, op, r) # es) = (let (r', v') = atomic_spec op v in if r = r' then replay v' es else None)"

lemma replay_append: "replay v (es @ es') = (case replay v es of None \<Rightarrow> None | Some v' \<Rightarrow> replay v' es')"
  by (induction v es rule: replay.induct) (auto split: prod.split)

lemmas u64_defs = odp_atomic_load_u64_def odp_atomic_store_u64_def odp_atomic_fetch_add_u64_def odp_atomic_add_u64_def
  odp_atomic_fetch_sub_u64_def odp_atomic_sub_u64_def odp_atomic_fetch_inc_u64_def odp_atomic_inc_u64_def odp_atomic_fetch_dec_u64_def odp_atomic_dec_u64_def
  atomic_u64_load_mm_def atomic_u64_store_mm_def atomic_u64_xchg_mm_def atomic_u64_cmp_xchg_strong_mm_def atomic_u64_fetch_add_mm_def
  atomic_u64_add_mm_def atomic_u64_fetch_sub_mm_def atomic_u64_sub_mm_def

text \<open>What a body computes when nothing interferes. In both builds it is what the built-in computes.\<close>

definition body_spec :: "atomic_call \<Rightarrow> u64 \<Rightarrow> atomic_ret \<times> u64" where
  "body_spec c v =
    (case c of
       Lock_Free f \<Rightarrow> f v
     | Atomic_Op expr returns \<Rightarrow> (atomic_op_ret returns v, case expr of None \<Rightarrow> v | Some f \<Rightarrow> f v)
     | Locked_Cas expected val \<Rightarrow> if v = expected then (Ret_Cas True expected, val) else (Ret_Cas False v, v))"

lemma builds_agree: "op \<in> u64_api \<Longrightarrow> body_spec (op lf) = atomic_spec op"
  by (cases lf) (auto simp: u64_api_def atomic_spec_def body_spec_def atomic_op_ret_def fun_eq_iff u64_defs)

section \<open>The steps keep calls apart\<close>

text \<open>A call that holds the lock, and what it knows of the value.\<close>

fun crit :: "atomic_pc \<Rightarrow> bool" where
  "crit AP_Start = False"
| "crit (AP_Done r) = False"
| "crit pc = True"

definition at_ok :: "atomic_call \<Rightarrow> atomic_pc \<Rightarrow> u64 \<Rightarrow> bool" where
  "at_ok c pc v \<longleftrightarrow>
    (case c of
       Lock_Free f \<Rightarrow> \<not> crit pc
     | Atomic_Op expr returns \<Rightarrow>
         (case pc of AP_Expr old \<Rightarrow> old = v | AP_Write old new \<Rightarrow> old = v \<and> (\<exists>f. expr = Some f \<and> new = f v) | _ \<Rightarrow> True)
     | Locked_Cas expected val \<Rightarrow> (case pc of AP_Expr old \<Rightarrow> v \<noteq> expected | AP_Write old new \<Rightarrow> v = expected \<and> new = val | _ \<Rightarrow> True))"

lemma at_ok_out: "\<not> crit pc \<Longrightarrow> at_ok c pc v"
  by (cases c; cases pc) (simp_all add: at_ok_def)

lemma move_effect:
  assumes "at_ok c pc (au_v a)" "\<not> is_done pc" "atomic_u64_step c pc a = (pc', a')"
  shows "effect pc pc' = [] \<and> au_v a' = au_v a \<or> (\<exists>r. effect pc pc' = [r] \<and> body_spec c (au_v a) = (r, au_v a') \<and> (crit pc \<or> (\<exists>f. c = Lock_Free f)))"
    and "at_ok c pc' (au_v a')"
    and "\<not> crit pc \<and> \<not> crit pc' \<and> au_lock a' = au_lock a \<or> \<not> crit pc \<and> crit pc' \<and> \<not> au_lock a \<and> au_lock a' \<or>
      crit pc \<and> crit pc' \<and> au_lock a' = au_lock a \<or> crit pc \<and> \<not> crit pc' \<and> \<not> au_lock a'"
    and "pc' = AP_Clear r \<or> pc' = AP_Done r \<Longrightarrow> effect pc pc' = [r] \<or> effect pc pc' = [] \<and> pc = AP_Clear r"
proof -
  have "(effect pc pc' = [] \<and> au_v a' = au_v a \<or> (\<exists>r. effect pc pc' = [r] \<and> body_spec c (au_v a) = (r, au_v a') \<and> (crit pc \<or> (\<exists>f. c = Lock_Free f)))) \<and>
    at_ok c pc' (au_v a') \<and>
    (\<not> crit pc \<and> \<not> crit pc' \<and> au_lock a' = au_lock a \<or> \<not> crit pc \<and> crit pc' \<and> \<not> au_lock a \<and> au_lock a' \<or>
      crit pc \<and> crit pc' \<and> au_lock a' = au_lock a \<or> crit pc \<and> \<not> crit pc' \<and> \<not> au_lock a') \<and>
    (pc' = AP_Clear r \<or> pc' = AP_Done r \<longrightarrow> effect pc pc' = [r] \<or> effect pc pc' = [] \<and> pc = AP_Clear r)"
  proof (cases c)
    case (Lock_Free f)
    then show ?thesis using assms by (cases pc) (auto simp: at_ok_def body_spec_def split: prod.splits)
  next
    case (Atomic_Op expr returns)
    then show ?thesis using assms by (cases expr; cases pc) (auto simp: at_ok_def body_spec_def atomic_tas_def split: if_splits)
  next
    case (Locked_Cas expected val)
    then show ?thesis using assms by (cases pc) (auto simp: at_ok_def body_spec_def atomic_tas_def split: if_splits)
  qed
  then show "effect pc pc' = [] \<and> au_v a' = au_v a \<or> (\<exists>r. effect pc pc' = [r] \<and> body_spec c (au_v a) = (r, au_v a') \<and> (crit pc \<or> (\<exists>f. c = Lock_Free f)))"
    and "at_ok c pc' (au_v a')"
    and "\<not> crit pc \<and> \<not> crit pc' \<and> au_lock a' = au_lock a \<or> \<not> crit pc \<and> crit pc' \<and> \<not> au_lock a \<and> au_lock a' \<or>
      crit pc \<and> crit pc' \<and> au_lock a' = au_lock a \<or> crit pc \<and> \<not> crit pc' \<and> \<not> au_lock a'"
    and "pc' = AP_Clear r \<or> pc' = AP_Done r \<Longrightarrow> effect pc pc' = [r] \<or> effect pc pc' = [] \<and> pc = AP_Clear r" by blast+
qed

section \<open>The invariant\<close>

definition in_crit :: "atomic_sys \<Rightarrow> nat \<Rightarrow> bool" where
  "in_crit s t \<longleftrightarrow> (\<exists>op pc. as_run s t = Some (op, pc) \<and> crit pc)"

text \<open>The last call of a thread that took effect.\<close>

definition last_call :: "nat \<Rightarrow> (bool \<Rightarrow> atomic_call) \<Rightarrow> atomic_ret \<Rightarrow> atomic_log \<Rightarrow> bool" where
  "last_call t op r es \<longleftrightarrow> (\<exists>es1 es2. es = es1 @ (t, op, r) # es2 \<and> t \<notin> fst ` set es2)"

lemma last_call_snoc [simp]: "last_call t op r (es @ [(t, op, r)])"
  unfolding last_call_def by (rule exI [of _ es], rule exI [of _ "[]"]) simp

lemma last_call_other: "last_call t op r es \<Longrightarrow> u \<noteq> t \<Longrightarrow> last_call t op r (es @ map (\<lambda>r. (u, op', r)) rs)"
  by (force simp: last_call_def)

definition atomic_inv :: "bool \<Rightarrow> u64 \<Rightarrow> atomic_sys \<Rightarrow> bool" where
  "atomic_inv lf v s \<longleftrightarrow> replay v (as_log s) = Some (au_v (as_atom s)) \<and>
    (\<forall>t op pc. as_run s t = Some (op, pc) \<longrightarrow> op \<in> u64_api \<and> at_ok (op lf) pc (au_v (as_atom s)) \<and>
      (\<forall>r. pc = AP_Clear r \<or> pc = AP_Done r \<longrightarrow> last_call t op r (as_log s))) \<and>
    (au_lock (as_atom s) \<longleftrightarrow> (\<exists>t. in_crit s t)) \<and> (\<forall>t u. in_crit s t \<and> in_crit s u \<longrightarrow> t = u)"

lemma atomic_invD:
  assumes "atomic_inv lf v s" "as_run s t = Some (op, pc)"
  shows "op \<in> u64_api" "at_ok (op lf) pc (au_v (as_atom s))" "pc = AP_Clear r \<or> pc = AP_Done r \<Longrightarrow> last_call t op r (as_log s)" "in_crit s t \<longleftrightarrow> crit pc"
  using assms by (auto simp: atomic_inv_def in_crit_def)

lemma atomic_inv_start: "atomic_inv lf v (atomic_start v)"
  by (simp add: atomic_inv_def atomic_start_def odp_atomic_init_u64_def in_crit_def)

lemma atomic_inv_idle:
  assumes inv: "atomic_inv lf v s" and out: "\<not> in_crit s t" and new: "\<And>op pc. c = Some (op, pc) \<Longrightarrow> op \<in> u64_api \<and> pc = AP_Start"
  shows "atomic_inv lf v (s\<lparr>as_run := (as_run s)(t := c)\<rparr>)"
proof -
  let ?s = "s\<lparr>as_run := (as_run s)(t := c)\<rparr>"
  have "in_crit ?s u = in_crit s u" for u using out new by (cases "u = t") (auto simp: in_crit_def)
  moreover have "op \<in> u64_api \<and> at_ok (op lf) pc (au_v (as_atom s)) \<and> (\<forall>r. pc = AP_Clear r \<or> pc = AP_Done r \<longrightarrow> last_call u op r (as_log s))"
    if "as_run ?s u = Some (op, pc)" for u op pc
    using that new atomic_invD [OF inv, of u op pc] by (cases "u = t") (auto simp: at_ok_out)
  ultimately show ?thesis using inv by (simp add: atomic_inv_def)
qed

text \<open>A lock with one holder at most, when one thread takes it or gives it back.\<close>

lemma one_holder:
  assumes lock: "l \<longleftrightarrow> (\<exists>u. P u)" and alone: "\<And>u w. P u \<Longrightarrow> P w \<Longrightarrow> u = w"
    and E: "\<not> P t \<and> \<not> c \<and> l' = l \<or> \<not> P t \<and> c \<and> \<not> l \<and> l' \<or> P t \<and> c \<and> l' = l \<or> P t \<and> \<not> c \<and> \<not> l'"
  shows "(l' \<longleftrightarrow> (\<exists>u. if u = t then c else P u)) \<and> (\<forall>u w. (if u = t then c else P u) \<and> (if w = t then c else P w) \<longrightarrow> u = w)"
proof (cases "P t")
  case True
  then have "P u \<longleftrightarrow> u = t" for u using alone by blast
  then show ?thesis using E lock by auto
next
  case False
  show ?thesis
  proof (cases c)
    case True
    then have "\<not> P u" for u using E lock False by blast
    then show ?thesis using True False E by auto
  next
    case c: False
    then have "(if u = t then c else P u) \<longleftrightarrow> P u" for u using False by simp
    then show ?thesis using c False E lock alone by auto
  qed
qed

lemma atomic_inv_move:
  assumes inv: "atomic_inv lf v s" and t: "as_run s t = Some (op, pc)" and nd: "\<not> is_done pc" and st: "atomic_u64_step (op lf) pc (as_atom s) = (pc', a)"
  shows "atomic_inv lf v (s\<lparr>as_atom := a, as_run := (as_run s)(t \<mapsto> (op, pc')), as_log := as_log s @ map (\<lambda>r. (t, op, r)) (effect pc pc')\<rparr>)" (is "atomic_inv lf v ?s")
proof -
  note me = atomic_invD [OF inv t]
  note E = move_effect [OF me(2) nd st]
  have crit_t: "in_crit ?s t \<longleftrightarrow> crit pc'" "\<And>u. u \<noteq> t \<Longrightarrow> in_crit ?s u = in_crit s u" by (simp_all add: in_crit_def)
  have alone: "u = w" if "in_crit s u" "in_crit s w" for u w using inv that by (simp add: atomic_inv_def)
  have lock: "au_lock (as_atom s) \<longleftrightarrow> (\<exists>t. in_crit s t)" using inv by (simp add: atomic_inv_def)
  have rep: "replay v (as_log ?s) = Some (au_v a)"
    using E(1) inv builds_agree [OF me(1), of lf] by (auto simp: atomic_inv_def replay_append)
  have val: "au_v a = au_v (as_atom s) \<or> \<not> in_crit s u \<or> u = t" for u
  proof (cases "effect pc pc' = []")
    case True
    then show ?thesis using E(1) by auto
  next
    case False
    then have "crit pc \<or> (\<exists>f. op lf = Lock_Free f)" using E(1) by auto
    then show ?thesis
    proof
      assume "crit pc"
      then show ?thesis using me(4) alone by blast
    next
      assume "\<exists>f. op lf = Lock_Free f"
      then have "lf" using me(1) by (cases lf) (auto simp: u64_api_def u64_defs)
      have "\<not> in_crit s u"
      proof
        assume "in_crit s u"
        then obtain op' pc'' where u: "as_run s u = Some (op', pc'')" "crit pc''" by (auto simp: in_crit_def)
        have "\<exists>f. op' lf = Lock_Free f" using atomic_invD(1) [OF inv u(1)] \<open>lf\<close> by (auto simp: u64_api_def u64_defs)
        then show False using atomic_invD(2) [OF inv u(1)] u(2) by (auto simp: at_ok_def)
      qed
      then show ?thesis by simp
    qed
  qed
  have thr: "op' \<in> u64_api \<and> at_ok (op' lf) pc'' (au_v a) \<and> (\<forall>r. pc'' = AP_Clear r \<or> pc'' = AP_Done r \<longrightarrow> last_call u op' r (as_log ?s))"
    if u: "as_run ?s u = Some (op', pc'')" for u op' pc''
  proof (cases "u = t")
    case True
    then have e: "op' = op" "pc'' = pc'" using u by simp_all
    have "last_call t op r (as_log ?s)" if "pc' = AP_Clear r \<or> pc' = AP_Done r" for r using E(4) [OF that] me(3) [of r] by auto
    then show ?thesis using E(2) me(1) e True by simp
  next
    case False
    then have u': "as_run s u = Some (op', pc'')" using u by simp
    note o = atomic_invD [OF inv u']
    have "at_ok (op' lf) pc'' (au_v a)" using val [of u] o(2,4) False at_ok_out by auto
    then show ?thesis using o(1,3) False by (simp add: last_call_other)
  qed
  have C: "in_crit ?s u \<longleftrightarrow> (if u = t then crit pc' else in_crit s u)" for u using crit_t by simp
  have "(au_lock a \<longleftrightarrow> (\<exists>u. in_crit ?s u)) \<and> (\<forall>u w. in_crit ?s u \<and> in_crit ?s w \<longrightarrow> u = w)"
    unfolding C by (rule one_holder [OF lock alone]) (use E(3) me(4) in auto)
  then show ?thesis unfolding atomic_inv_def using rep thr by simp
qed

lemma atomic_inv_step: "atomic_inv lf v s \<Longrightarrow> atomic_step lf s t s' \<Longrightarrow> atomic_inv lf v s'"
proof (erule atomic_step.cases, goal_cases)
  case (1 s t op)
  then show ?case using atomic_inv_idle [of lf v s t "Some (op, AP_Start)"] by (simp add: in_crit_def)
next
  case (2 s t op pc pc' a)
  then show ?case using atomic_inv_move by blast
next
  case (3 s t op r)
  then show ?case using atomic_inv_idle [of lf v s t None] by (simp add: in_crit_def)
qed

text \<open>The lock of a variable is a mutex.\<close>

lemma in_crit_others: "atomic_step lf s t s' \<Longrightarrow> u \<noteq> t \<Longrightarrow> in_crit s' u = in_crit s u"
  by (erule atomic_step.cases) (auto simp: in_crit_def)

interpretation variable: mutex "atomic_start v" "atomic_step lf" in_crit "atomic_inv lf v" for lf :: bool and v :: u64
proof unfold_locales
  show "atomic_inv lf v (atomic_start v)" by (rule atomic_inv_start)
  show "atomic_inv lf v s'" if "atomic_inv lf v s" "atomic_step lf s t s'" for s t s' using atomic_inv_step that by blast
  show "t = u" if "atomic_inv lf v s" "in_crit s t" "in_crit s u" for s t u using that unfolding atomic_inv_def by blast
  show "in_crit s' u = in_crit s u" if "atomic_step lf s t s'" "u \<noteq> t" for s t s' u using in_crit_others that by blast
qed

section \<open>Progress and counters\<close>

text \<open>A thread that runs alone.\<close>

fun solo :: "nat \<Rightarrow> atomic_call \<Rightarrow> atomic_pc \<Rightarrow> odp_atomic_u64 \<Rightarrow> atomic_pc \<times> odp_atomic_u64" where
  "solo 0 c pc a = (pc, a)"
| "solo (Suc n) c pc a = (case atomic_u64_step c pc a of (pc', a') \<Rightarrow> solo n c pc' a')"

lemma solo_done:
  assumes "at_ok c pc v" "pc = AP_Start \<Longrightarrow> \<not> au_lock a \<or> (\<exists>f. c = Lock_Free f)"
  shows "\<exists>r a'. solo 5 c pc a = (AP_Done r, a')"
proof (cases c)
  case (Lock_Free f)
  then show ?thesis using assms(1) by (cases pc) (auto simp: at_ok_def eval_nat_numeral split: prod.splits)
next
  case (Atomic_Op expr returns)
  then show ?thesis using assms(2) by (cases expr; cases pc) (auto simp: atomic_tas_def eval_nat_numeral)
next
  case (Locked_Cas expected val)
  then show ?thesis using assms(2) by (cases pc) (auto simp: atomic_tas_def eval_nat_numeral)
qed

lemma someone_done:
  assumes inv: "atomic_inv lf v s" and t: "as_run s t = Some (op, pc)"
  shows "\<exists>u op' pc' r a. as_run s u = Some (op', pc') \<and> solo 5 (op' lf) pc' (as_atom s) = (AP_Done r, a)"
proof (cases "au_lock (as_atom s)")
  case True
  then obtain u op' pc' where u: "as_run s u = Some (op', pc')" "crit pc'" using inv by (auto simp: atomic_inv_def in_crit_def)
  then show ?thesis using solo_done [OF atomic_invD(2) [OF inv u(1)], of "as_atom s"] by force
next
  case False
  then show ?thesis using solo_done [OF atomic_invD(2) [OF inv t], of "as_atom s"] t by blast
qed

lemma replay_counter:
  assumes "replay v es = Some w" "\<forall>(t, op, r)\<in>set es. op = odp_atomic_fetch_inc_u64"
  shows "map (snd \<circ> snd) es = map (\<lambda>k. Ret_Val (v + of_nat k)) [0..<length es] \<and> w = v + of_nat (length es)"
  using assms
proof (induction v es rule: replay.induct)
  case (2 v t op r es)
  have r: "r = Ret_Val v" "replay (v + 1) es = Some w" using 2(2,3) by (auto simp: atomic_spec_def u64_defs split: if_splits)
  have "map (snd \<circ> snd) es = map (\<lambda>k. Ret_Val (v + 1 + of_nat k)) [0..<length es] \<and> w = v + 1 + of_nat (length es)"
    using 2(1) [of "(Ret_Val v, v + 1)" "Ret_Val v" "v + 1"] 2(3) r by (auto simp: atomic_spec_def u64_defs comp_def)
  moreover have "map (\<lambda>k. Ret_Val (v + of_nat k)) [0..<length ((t, op, r) # es)] = Ret_Val v # map (\<lambda>k. Ret_Val (v + 1 + of_nat k)) [0..<length es]"
    by (simp add: upt_conv_Cons map_Suc_upt [symmetric] comp_def add_ac del: upt_Suc map_Suc_upt)
  ultimately show ?case using r(1) by (simp add: add_ac comp_def)
qed simp

section \<open>Properties\<close>

text \<open> C33: 64-bit atomic operations, in a build with lock-free built-ins and in one that takes a lock per variable. Under any interleaving of
  any calls of the two headers by any number of threads, the calls that took effect form a sequence in which each one does, and returns, what its
  built-in does on the value the calls before it left, and the variable has the value at the end of the sequence: none is lost and none is seen
  half done. A call that is complete returns what its entry in the sequence has. While calls are running, there is one that completes within five steps
  of its own. Calls of fetch and increment alone return consecutive values, with wrap-around.\<close>

theorem atomic_u64_linearizable:
  assumes run: "runs (atomic_step lf) (atomic_start v) s"
  shows "replay v (as_log s) = Some (au_v (as_atom s)) \<and>
    (\<forall>t op r. as_run s t = Some (op, AP_Done r) \<longrightarrow> last_call t op r (as_log s)) \<and>
    (\<forall>t op pc. as_run s t = Some (op, pc) \<longrightarrow> (\<exists>u op' pc' r a. as_run s u = Some (op', pc') \<and> solo 5 (op' lf) pc' (as_atom s) = (AP_Done r, a))) \<and>
    ((\<forall>(t, op, r)\<in>set (as_log s). op = odp_atomic_fetch_inc_u64) \<longrightarrow>
      map (snd \<circ> snd) (as_log s) = map (\<lambda>k. Ret_Val (v + of_nat k)) [0..<length (as_log s)] \<and> au_v (as_atom s) = v + of_nat (length (as_log s)))"
proof (intro conjI allI impI)
  have inv: "atomic_inv lf v s" by (rule variable.inv_runs [OF run])
  show rep: "replay v (as_log s) = Some (au_v (as_atom s))" using inv by (simp add: atomic_inv_def)
  show "last_call t op r (as_log s)" if "as_run s t = Some (op, AP_Done r)" for t op r using atomic_invD(3) [OF inv that] by simp
  show "\<exists>u op' pc' r a. as_run s u = Some (op', pc') \<and> solo 5 (op' lf) pc' (as_atom s) = (AP_Done r, a)" if "as_run s t = Some (op, pc)" for t op pc by (rule someone_done [OF inv that])
  assume f: "\<forall>(t, op, r)\<in>set (as_log s). op = odp_atomic_fetch_inc_u64"
  show "map (snd \<circ> snd) (as_log s) = map (\<lambda>k. Ret_Val (v + of_nat k)) [0..<length (as_log s)]" "au_v (as_atom s) = v + of_nat (length (as_log s))"
    using replay_counter [OF rep f] by blast+
qed

text \<open>Two threads increment a variable at once, in the build with locks.\<close>

definition move :: "bool \<Rightarrow> nat \<Rightarrow> atomic_sys \<Rightarrow> atomic_sys" where
  "move lf t s =
    (case as_run s t of
       None \<Rightarrow> s
     | Some (op, pc) \<Rightarrow> (case atomic_u64_step (op lf) pc (as_atom s) of (pc', a) \<Rightarrow>
         s\<lparr>as_atom := a, as_run := (as_run s)(t \<mapsto> (op, pc')), as_log := as_log s @ map (\<lambda>r. (t, op, r)) (effect pc pc')\<rparr>))"

fun can_move :: "bool \<Rightarrow> nat list \<Rightarrow> atomic_sys \<Rightarrow> bool" where
  "can_move lf [] s = True"
| "can_move lf (t # ts) s = ((case as_run s t of None \<Rightarrow> False | Some (op, pc) \<Rightarrow> \<not> is_done pc) \<and> can_move lf ts (move lf t s))"

lemma runs_moves: "can_move lf ts s \<Longrightarrow> runs (atomic_step lf) s0 s \<Longrightarrow> runs (atomic_step lf) s0 (fold (move lf) ts s)"
proof (induction ts arbitrary: s)
  case (Cons t ts)
  then obtain op pc where t: "as_run s t = Some (op, pc)" "\<not> is_done pc" by (auto split: option.splits)
  have "atomic_step lf s t (move lf t s)" using t atomic_move [of s t op pc lf] by (auto simp: move_def split: prod.split)
  from runs_step [where step = "atomic_step lf", OF Cons.prems(2) this] show ?case using Cons by simp
qed simp

definition demo_calls :: atomic_sys where
  "demo_calls = (atomic_start 41)\<lparr>as_run := [0 \<mapsto> (odp_atomic_fetch_inc_u64, AP_Start), 1 \<mapsto> (odp_atomic_fetch_inc_u64, AP_Start)]\<rparr>"

lemma demo_calls_run: "runs (atomic_step False) (atomic_start 41) demo_calls"
proof -
  let ?s = "(atomic_start 41)\<lparr>as_run := [0 \<mapsto> (odp_atomic_fetch_inc_u64, AP_Start)]\<rparr>"
  have 1: "atomic_step False (atomic_start 41) 0 ?s" using atomic_call [of "atomic_start 41" 0 odp_atomic_fetch_inc_u64 False] by (simp add: atomic_start_def u64_api_def)
  have 2: "atomic_step False ?s 1 demo_calls" using atomic_call [of ?s 1 odp_atomic_fetch_inc_u64 False] by (simp add: demo_calls_def u64_api_def)
  show ?thesis by (rule runs_step [where step = "atomic_step False", OF runs_step [where step = "atomic_step False", OF runs_refl 1] 2])
qed

theorem atomic_u64_linearizable_witness:
  "\<exists>s. runs (atomic_step False) (atomic_start 41) s \<and> au_v (as_atom s) = 43 \<and> as_run s 1 = Some (odp_atomic_fetch_inc_u64, AP_Done (Ret_Val 42)) \<and>
    replay 41 (as_log s) = Some 43 \<and> last_call 1 odp_atomic_fetch_inc_u64 (Ret_Val 42) (as_log s)"
proof -
  let ?ts = "[0, 1, 0, 0, 0, 0, 1, 1, 1, 1, 1]" let ?s = "fold (move False) ?ts demo_calls"
  have r: "can_move False ?ts demo_calls" "au_v (as_atom ?s) = 43" "as_run ?s 1 = Some (odp_atomic_fetch_inc_u64, AP_Done (Ret_Val 42))"
    by (simp_all add: demo_calls_def move_def atomic_start_def odp_atomic_init_u64_def u64_defs atomic_tas_def atomic_op_ret_def)
  have run: "runs (atomic_step False) (atomic_start 41) ?s" by (rule runs_moves [OF r(1) demo_calls_run])
  have "replay 41 (as_log ?s) = Some 43 \<and> last_call 1 odp_atomic_fetch_inc_u64 (Ret_Val 42) (as_log ?s)" using atomic_u64_linearizable [OF run] r(2,3) by metis
  then show ?thesis using r run by blast
qed

end
