(* ===== verification/Spec2Isabelle.thy ===== *)
theory Spec2Isabelle
  imports Odp_Packet_Flags Odph_Ring_Mt_Correct Odp_Classification_Correct Odp_Pktio_Correct Odp_Timer_Correct Odp_Locks_Correct Odp_Mask_Correct Odp_Thread_Correct
    Odp_Shm_Correct Odp_Crypto_Correct Odp_Init_Correct Odp_Atomic_Correct
begin

text \<open>
  A verification library for OpenDataPlane in its \<open>linux-generic\<close> implementation (\<open>platform/linux-generic\<close>), with the ring and the header
  formats of the helper library (\<open>helper\<close>).

  \<^bold>\<open>The program.\<close> An application asks for shared memory, creates pools, allocates buffers and packets from them, and moves them as events
  through queues. Queues are polled or served by a scheduler, which keeps one command per queue in priority queues of its own. Packet
  interfaces send and receive; the classifier chooses the queue of a received packet from what the parser found in it. Timers send timeout
  events to queues. Crypto sessions cipher and authenticate packets. Threads have ids, which index their caches and masks, and synchronize by
  locks and barriers. The start of a process reserves the shared memory of all components and brings them into their initial states, its end
  releases it.

  \<^bold>\<open>Theories and sources.\<close>
  \<^item> \<open>Odp_Prelude\<close>: machine types, byte memory, linked lists, errors of C (a failed assertion, a null pointer, an index out of bounds, a
    division by zero) as values \<open>Inl\<close>, collections of simplification rules. \<open>Odp_Config\<close>: constants of \<open>config.h\<close>, the macros of
    \<open>odp_align_internal.h\<close>, packed handles. \<open>Odp_Fifo\<close>: the contract \<open>fifo\<close>.
  \<^item> \<open>Odp_Buffer\<close>, \<open>Odp_Pool\<close>, \<open>Odp_Pool_Rep\<close>, \<open>Odp_Pool_Create\<close>: \<open>odp_buffer_internal.h\<close>, \<open>odp_buffer_inlines.h\<close>, \<open>odp_buffer.c\<close>,
    \<open>odp_pool_internal.h\<close>, \<open>odp_pool.c\<close>. The state is the table of pools, the caches of the threads and a heap of headers and bytes; free lists
    are linked through the heap as in the code. \<open>Odp_Pool_Rep\<close> has the representation invariant,
    \<open>Odp_User_Area\<close> where the user areas of the buffers are and that they stay there.
  \<^item> \<open>Odp_Parse\<close>, \<open>Odp_Packet\<close>, \<open>Odp_Packet_Correct\<close>, \<open>Odp_Packet_Flags\<close>: \<open>odp_packet.c\<close>, \<open>odp_packet_internal.h\<close>, \<open>odp_packet_flags.c\<close>.
  \<^item> \<open>Odph_Ring\<close>, \<open>Odph_Ring_Correct\<close>, \<open>Odph_Ring_Mt\<close>, \<open>Odph_Ring_Mt_Correct\<close>: \<open>helper/ring.c\<close>, its calls one at a time and interleaved.
  \<^item> \<open>Odp_Queue\<close>, \<open>Odp_System\<close>, \<open>Odp_Schedule\<close>, \<open>Odp_Schedule_Inv\<close>, \<open>Odp_Schedule_Correct\<close>: \<open>odp_queue.c\<close>, \<open>odp_schedule.c\<close> and the data path
    of \<open>odp_packet_io.c\<close> and \<open>pktio/loop.c\<close>. They share one state, because they call each other.
  \<^item> \<open>Odp_Classification\<close>, \<open>Odp_Classification_Correct\<close>: \<open>odp_classification.c\<close> and its headers.
  \<^item> \<open>Odp_Pktio\<close>, \<open>Odp_Pktio_Correct\<close>: the control path of \<open>odp_packet_io.c\<close>, \<open>pktio/loop.c\<close> and \<open>pktio/io_ops.c\<close>.
  \<^item> \<open>Odp_Time\<close>, \<open>Odp_Timer\<close>, \<open>Odp_Timer_Correct\<close>: \<open>odp_time.c\<close>, \<open>odp_timer.c\<close>.
  \<^item> \<open>Odp_Locks\<close>, \<open>Odp_Locks_Correct\<close>: \<open>odp_ticketlock.c\<close>, \<open>odp_spinlock.c\<close>, \<open>odp_rwlock.c\<close>, \<open>odp_barrier.c\<close> over the atomic operations.
    \<open>Odp_Atomic\<close>, \<open>Odp_Atomic_Correct\<close>: the other atomic operations of \<open>odp/atomic.h\<close> and \<open>odp_atomic_internal.h\<close>, with and without a lock
    per variable.
  \<^item> \<open>Odp_Mask\<close>, \<open>Odp_Mask_Correct\<close>, \<open>Odp_Thread\<close>, \<open>Odp_Thread_Correct\<close>: \<open>odp_cpumask.c\<close>, \<open>odp_cpumask_task.c\<close>, \<open>odp_thrmask.c\<close>, \<open>odp_thread.c\<close>.
  \<^item> \<open>Odp_Shm\<close>, \<open>Odp_Shm_Correct\<close>: \<open>odp_shared_memory.c\<close>.
  \<^item> \<open>Odp_Crypto\<close>, \<open>Odp_Crypto_Correct\<close>: \<open>odp_crypto.c\<close> and its headers.
  \<^item> \<open>Odp_Init\<close>, \<open>Odp_Init_Tables\<close>, \<open>Odp_Init_Correct\<close>: \<open>odp_init.c\<close> and what the components reserve and release in it. This is where the
    components, each with a state of its own, become one instance.

  Structures are records, functions keep their names (without leading underscores), integers have the width they have in C. An operation takes
  the state and its arguments and returns its result with the new state.

  \<^bold>\<open>What is shown.\<close>
  \<^item> Pools: creation lays out headers and blocks that do not overlap; the operations refine a set of buffers that are handed out, no buffer or
    block is lost or given twice; allocation succeeds while there are buffers and blocks; validation tells handed out buffers from others.
  \<^item> Packets: the parser returns and its offsets and flags agree with the bytes; head and tail operations, copies in and out, insertion and
    removal of data are exactly those operations on the bytes of the packet, across segments; a packet that replaces another gets its user area.
  \<^item> Containers: the ring and the queues interpret \<open>fifo\<close>; nothing is lost, duplicated or reordered, with indices that wrap around,
    and for the ring also when threads use it at once.
  \<^item> Scheduler: under every interleaving no call aborts, an atomic queue is with one thread at a time and delivers in order, and a thread that
    waits gets an event that is available.
  \<^item> Classifier: the class of a packet as the configured rules and QoS tables define it, and the search ends when links have no cycle; rules of
    the announced terms compare the field of the packet; the tables of an interface are never written outside their bounds.
  \<^item> Interfaces: the loop device returns what was sent; opening and closing restore the tables.
  \<^item> Timers: set, cancel and expiration against a specification, for the queues that satisfy the contract \<open>event_sink\<close>, which
    polled and scheduled queues interpret.
  \<^item> Synchronizers: mutual exclusion, order and progress; locks interpret the contract \<open>mutex\<close>, under which critical sections are serial.
    64-bit atomic variables behave as if each call were one step in both builds.
  \<^item> Threads, masks and shared memory: distinct ids, text forms that read back, blocks that do not overlap.
  \<^item> Crypto: decoding undoes encoding with a session of the same parameters; sessions are neither lost nor given twice.
  \<^item> Start and end: a process that can map its memory starts, all threads and queues that the tables have room for can be started and
    created, and the state is then one that satisfies the hypotheses of the theorems on the scheduler, the mask of used
    priorities included; the end releases everything.

  \<^bold>\<open>Granularity.\<close> The synchronizers, the atomic operations and the multi-producer and multi-consumer calls of the ring are modelled access by
  access, in an order that is the same for all threads (sequential consistency). Elsewhere a call is one step, and runs are sequences of calls by any
  threads. Where the code of a call is one critical section, the theorem about critical sections justifies this. A call of the scheduler or an
  enqueue to a scheduled queue takes the locks of several queues one after the other, and the interleavings of other threads between these are
  not modelled: the theorems on the scheduler are about every order of whole calls.

  \<^bold>\<open>Bounds.\<close> Loops that may not end are partial functions into \<open>option\<close>, so that not returning is \<open>None\<close>, and their theorems say that they
  return. Locks assume at most \<open>ODP_CONFIG_MAX_THREADS\<close> threads, and that no \<open>2\<^sup>3\<^sup>2\<close> tickets are taken during one attempt of \<open>trylock\<close>;
  the ring, that its calls are for one object or more and that fewer than \<open>2\<^sup>3\<^sup>2\<close> objects less its size pass between reading a head and exchanging it.
  Timer ticks are below \<open>2\<^sup>6\<^sup>3 - 1\<close>, as the flag bits of the code need. Sums of sizes that the code does not check for overflow appear as
  hypotheses that they fit.

  \<^bold>\<open>Parameters.\<close> Results of the operating system are arguments: clock readings, mappings, socket calls, the CPU of a thread, the POSIX
  timer; so are the ciphers and hashes of OpenSSL. Where a theorem relies on them, the hypothesis is a definition of its own (such as
  \<open>os_ok\<close>, \<open>os_serves\<close>, \<open>ssl_ok\<close>) with an instance in the witness.

  \<^bold>\<open>Not modelled.\<close> Socket input and output (\<open>pktio/socket.c\<close>, \<open>pktio/socket_mmap.c\<close>): system calls. Reading \<open>/proc\<close>
  and \<open>/sys\<close> (\<open>odp_system_info.c\<close>), the process helper (\<open>helper/linux.c\<close>), functions that only print, examples and tests. The weak
  memory order of the atomic operations. The builds of \<open>odp_timer.c\<close> with 128-bit atomic operations and for ARM: timers are those of the
  build with a lock per timer.
\<close>

end
